(* ===== verification/Prelude.thy ===== *)
theory Prelude
  imports Main "HOL-Library.List_Lexorder" "HOL-Library.Char_ord"
begin

text \<open>
  Shared vocabulary of the development.

  A TypeScript function that may throw is a HOL function into \<open>'e + 'a\<close>: \<open>Inl\<close> carries
  what was thrown, \<open>Inr\<close> the returned value; \<open>and_then\<close> is sequencing (a throw stops the
  rest).  A JavaScript \<open>Map\<close> is an association list in insertion order; \<open>map_set\<close> is
  \<open>Map.prototype.set\<close> (an existing key keeps its place), \<open>map_del\<close> is \<open>delete\<close>, and
  lookup is \<open>map_of\<close>.  The lemmas about sums and counts over such lists carry every ledger
  proof of the component theories.
\<close>

named_theorems result_simps \<open>equations that invert a successful computation\<close>

section \<open>Computations that may throw\<close>

definition and_then :: "'e + 'a \<Rightarrow> ('a \<Rightarrow> 'e + 'b) \<Rightarrow> 'e + 'b" where
  "and_then m k = (case m of Inl e \<Rightarrow> Inl e | Inr x \<Rightarrow> k x)"

lemma and_then_Inl [simp]: "and_then (Inl e) k = Inl e"
  by (simp add: and_then_def)

lemma and_then_Inr [simp]: "and_then (Inr x) k = k x"
  by (simp add: and_then_def)

lemma and_then_eq_Inr [result_simps]:
  "and_then m k = Inr y \<longleftrightarrow> (\<exists>x. m = Inr x \<and> k x = Inr y)"
  by (cases m) simp_all

lemma and_then_eq_Inl [result_simps]:
  "and_then m k = Inl e \<longleftrightarrow> m = Inl e \<or> (\<exists>x. m = Inr x \<and> k x = Inl e)"
  by (cases m) simp_all

lemma if_Inl_eq_Inr [result_simps]:
  "(if c then Inl e else m) = Inr y \<longleftrightarrow> \<not> c \<and> m = Inr y"
  by simp

lemma and_then_assoc: "and_then (and_then m f) g = and_then m (\<lambda>x. and_then (f x) g)"
  by (cases m) simp_all

fun fold_result :: "('s \<Rightarrow> 'a \<Rightarrow> 'e + 's) \<Rightarrow> 's \<Rightarrow> 'a list \<Rightarrow> 'e + 's" where
  "fold_result f s [] = Inr s"
| "fold_result f s (x # xs) = and_then (f s x) (\<lambda>s'. fold_result f s' xs)"

lemma fold_result_append:
  "fold_result f s (xs @ ys) = and_then (fold_result f s xs) (\<lambda>s'. fold_result f s' ys)"
  by (induction xs arbitrary: s) (simp_all add: and_then_assoc)

lemma fold_result_invariant:
  assumes "fold_result f s xs = Inr s'" and "P s"
    and "\<And>s x s'. P s \<Longrightarrow> f s x = Inr s' \<Longrightarrow> P s'"
  shows "P s'"
  using assms(1,2)
  by (induction xs arbitrary: s) (auto simp: result_simps intro: assms(3))

section \<open>JavaScript maps and sets as lists\<close>

fun map_set :: "'k \<Rightarrow> 'v \<Rightarrow> ('k \<times> 'v) list \<Rightarrow> ('k \<times> 'v) list" where
  "map_set k v [] = [(k, v)]"
| "map_set k v ((k', v') # m) = (if k' = k then (k, v) # m else (k', v') # map_set k v m)"

definition map_del :: "'k \<Rightarrow> ('k \<times> 'v) list \<Rightarrow> ('k \<times> 'v) list" where
  "map_del k m = filter (\<lambda>(k', _). k' \<noteq> k) m"

definition has_key :: "('k \<times> 'v) list \<Rightarrow> 'k \<Rightarrow> bool" where
  "has_key m k \<longleftrightarrow> map_of m k \<noteq> None"

definition set_add :: "'a \<Rightarrow> 'a list \<Rightarrow> 'a list" where
  "set_add x xs = (if x \<in> set xs then xs else xs @ [x])"

lemma map_of_map_set [simp]: "map_of (map_set k v m) = (map_of m)(k \<mapsto> v)"
  by (induction k v m rule: map_set.induct) auto

lemma map_of_map_del [simp]: "map_of (map_del k m) = (map_of m)(k := None)"
  by (induction m) (auto simp: map_del_def)

lemma has_key_iff: "has_key m k \<longleftrightarrow> k \<in> fst ` set m"
  by (simp add: has_key_def map_of_eq_None_iff)

lemma has_key_Nil [simp]: "\<not> has_key [] k"
  by (simp add: has_key_def)

lemma has_key_map_set [simp]: "has_key (map_set k v m) k' \<longleftrightarrow> k' = k \<or> has_key m k'"
  by (simp add: has_key_def)

lemma has_key_map_del [simp]: "has_key (map_del k m) k' \<longleftrightarrow> k' \<noteq> k \<and> has_key m k'"
  by (simp add: has_key_def)

lemma keys_map_set: "fst ` set (map_set k v m) = insert k (fst ` set m)"
  by (induction k v m rule: map_set.induct) auto

lemma distinct_keys_map_set [simp]:
  "distinct (map fst m) \<Longrightarrow> distinct (map fst (map_set k v m))"
proof (induction k v m rule: map_set.induct)
  case (2 k v k' v' m)
  then show ?case using keys_map_set [of k v m] by auto
qed simp

lemma distinct_keys_map_del [simp]:
  "distinct (map fst m) \<Longrightarrow> distinct (map fst (map_del k m))"
  by (induction m) (auto simp: map_del_def)

lemma map_set_absent: "map_of m k = None \<Longrightarrow> map_set k v m = m @ [(k, v)]"
  by (induction k v m rule: map_set.induct) (auto split: if_splits)

lemma length_map_set:
  "length (map_set k v m) = (if has_key m k then length m else Suc (length m))"
  by (induction k v m rule: map_set.induct) (auto simp: has_key_def)

lemma set_map_set_subset: "set (map_set k v m) \<subseteq> insert (k, v) (set m)"
  by (induction k v m rule: map_set.induct) auto

lemma in_set_map_set: "x \<in> set (map_set k v m) \<Longrightarrow> x = (k, v) \<or> x \<in> set m"
  using set_map_set_subset by fast

lemma in_set_map_set_distinct:
  "distinct (map fst m) \<Longrightarrow>
    x \<in> set (map_set k v m) \<longleftrightarrow> x = (k, v) \<or> (x \<in> set m \<and> fst x \<noteq> k)"
  by (induction k v m rule: map_set.induct) (force split: if_splits)+

lemma map_of_in_values: "map_of m k = Some v \<Longrightarrow> v \<in> snd ` set m"
  by (metis map_of_SomeD image_eqI snd_conv)

subsection \<open>Sums over the values of a map\<close>

definition sum_over :: "('v \<Rightarrow> int) \<Rightarrow> ('k \<times> 'v) list \<Rightarrow> int" where
  "sum_over f m = sum_list (map (f \<circ> snd) m)"

lemma sum_over_Nil [simp]: "sum_over f [] = 0"
  by (simp add: sum_over_def)

lemma sum_over_Cons [simp]: "sum_over f ((k, v) # m) = f v + sum_over f m"
  by (simp add: sum_over_def)

lemma sum_over_append [simp]: "sum_over f (m @ n) = sum_over f m + sum_over f n"
  by (simp add: sum_over_def)

lemma sum_over_set_new:
  "map_of m k = None \<Longrightarrow> sum_over f (map_set k v m) = sum_over f m + f v"
  by (simp add: map_set_absent)

lemma sum_over_set_old:
  "map_of m k = Some u \<Longrightarrow> sum_over f (map_set k v m) = sum_over f m - f u + f v"
proof (induction k v m rule: map_set.induct)
  case (2 k v k' v' m)
  then show ?case by (cases "k' = k") auto
qed simp

lemma sum_over_set:
  "sum_over f (map_set k v m) =
    sum_over f m + f v - (case map_of m k of None \<Rightarrow> 0 | Some u \<Rightarrow> f u)"
  by (cases "map_of m k") (simp_all add: sum_over_set_new sum_over_set_old)

lemma sum_over_nonneg: "(\<And>v. v \<in> snd ` set m \<Longrightarrow> 0 \<le> f v) \<Longrightarrow> 0 \<le> sum_over f m"
  by (induction m) auto

lemma sum_over_member_le:
  assumes "map_of m k = Some v" and "\<And>v. v \<in> snd ` set m \<Longrightarrow> 0 \<le> f v"
  shows "f v \<le> sum_over f m"
  using assms
proof (induction m)
  case (Cons a m)
  obtain k' v' where a: "a = (k', v')" by (cases a)
  have rest: "0 \<le> sum_over f m" using Cons.prems(2) by (intro sum_over_nonneg) auto
  have "0 \<le> f v'" using Cons.prems(2) a by auto
  then show ?case using Cons a rest by (cases "k' = k") force+
qed simp

lemma sum_over_const_one: "sum_over (\<lambda>_. 1) m = int (length m)"
  by (induction m) auto

lemma sum_over_mono:
  "(\<And>v. v \<in> snd ` set m \<Longrightarrow> f v \<le> g v) \<Longrightarrow> sum_over f m \<le> sum_over g m"
  by (induction m) (auto simp: add_mono)

lemma sum_over_add: "sum_over (\<lambda>v. f v + g v) m = sum_over f m + sum_over g m"
  by (induction m) auto

definition indicator01 :: "bool \<Rightarrow> int" where
  "indicator01 b = (if b then 1 else 0)"

lemma indicator01_simps [simp]: "indicator01 True = 1" "indicator01 False = 0"
  by (simp_all add: indicator01_def)

lemma indicator01_nonneg [simp]: "0 \<le> indicator01 b"
  by (simp add: indicator01_def)

lemma indicator01_le_one [simp]: "indicator01 b \<le> 1"
  by (simp add: indicator01_def)

section \<open>Numbers\<close>

definition max_safe_integer :: int where
  "max_safe_integer = 9007199254740991"

definition safe_integer :: "int \<Rightarrow> bool" where
  "safe_integer n \<longleftrightarrow> - max_safe_integer \<le> n \<and> n \<le> max_safe_integer"

end
