(* ===== verification/Js_Data.thy ===== *)
theory Js_Data
  imports Prelude
begin

text \<open>
  JavaScript data as the program uses it: strings, JSON values, \<open>JSON.stringify\<close>, the
  canonical JSON of \<open>agent-orchestration/src/shared/identity.ts\<close>, the bounded copy of
  \<open>shared/bounds.ts\<close>, \<open>Date.parse\<close> and \<open>Date.prototype.toISOString\<close>.

  A string is a list of characters, each one UTF-16 code unit below 256; in that range a
  code unit is a code point, \<open>length\<close> is JavaScript's length, and a code unit takes one
  UTF-8 byte below 128 and two from 128 on.  Numbers that the program validates as integers
  are \<open>int\<close>.  What is not under \<open>src/\<close> is the record \<open>externals\<close>: SHA-256 of node:crypto
  and the format checks of the zod package.
\<close>

section \<open>Code that is not part of the repository\<close>

record externals =
  sha256_hex :: "string \<Rightarrow> string"
  zod_uuid :: "string \<Rightarrow> bool"
  zod_iso_datetime :: "string \<Rightarrow> bool"
  zod_iso_datetime_offset :: "string \<Rightarrow> bool"
  zod_url :: "string \<Rightarrow> bool"
  zod_base64 :: "string \<Rightarrow> bool"

section \<open>Strings\<close>

definition code_unit :: "char \<Rightarrow> nat" where
  "code_unit c = of_char c"

definition utf8_char_bytes :: "char \<Rightarrow> int" where
  "utf8_char_bytes c = (if code_unit c < 128 then 1 else 2)"

definition utf8_bytes :: "string \<Rightarrow> int" where
  "utf8_bytes s = sum_list (map utf8_char_bytes s)"

lemma utf8_bytes_Nil [simp]: "utf8_bytes [] = 0"
  by (simp add: utf8_bytes_def)

lemma utf8_bytes_Cons [simp]: "utf8_bytes (c # s) = utf8_char_bytes c + utf8_bytes s"
  by (simp add: utf8_bytes_def)

lemma utf8_bytes_append [simp]: "utf8_bytes (s @ t) = utf8_bytes s + utf8_bytes t"
  by (simp add: utf8_bytes_def)

lemma utf8_char_bytes_pos: "0 < utf8_char_bytes c"
  by (simp add: utf8_char_bytes_def)

lemma utf8_bytes_nonneg [simp]: "0 \<le> utf8_bytes s"
  by (induction s) (auto simp: add_nonneg_nonneg less_imp_le utf8_char_bytes_pos)

definition is_control :: "char \<Rightarrow> bool" where
  "is_control c \<longleftrightarrow> code_unit c < 32 \<or> (127 \<le> code_unit c \<and> code_unit c < 160)"

lemma code_unit_Char:
  "code_unit (Char b0 b1 b2 b3 b4 b5 b6 b7) = of_bool b0 + 2 * of_bool b1 + 4 * of_bool b2 + 8 * of_bool b3
     + 16 * of_bool b4 + 32 * of_bool b5 + 64 * of_bool b6 + 128 * of_bool b7"
  by (simp add: code_unit_def of_char_def)

text \<open>Equations on the bits of a character, with which the definitions evaluate quickly.\<close>

lemma utf8_char_bytes_code [code]:
  "utf8_char_bytes (Char b0 b1 b2 b3 b4 b5 b6 b7) = (if b7 then 2 else 1)"
  by (cases b0; cases b1; cases b2; cases b3; cases b4; cases b5; cases b6; cases b7)
    (simp_all add: utf8_char_bytes_def code_unit_Char)

lemma is_control_code [code]:
  "is_control (Char b0 b1 b2 b3 b4 b5 b6 b7) \<longleftrightarrow>
     (\<not> b6 \<and> \<not> b5) \<or> (\<not> b7 \<and> b6 \<and> b5 \<and> b4 \<and> b3 \<and> b2 \<and> b1 \<and> b0)"
  by (cases b0; cases b1; cases b2; cases b3; cases b4; cases b5; cases b6; cases b7)
    (simp_all add: is_control_def code_unit_Char)

text \<open>The regular expression class \<open>\s\<close> below code unit 256.\<close>

definition is_space :: "char \<Rightarrow> bool" where
  "is_space c \<longleftrightarrow> (9 \<le> code_unit c \<and> code_unit c \<le> 13) \<or> code_unit c = 32 \<or> code_unit c = 160"

lemma is_space_code [code]:
  "is_space (Char b0 b1 b2 b3 b4 b5 b6 b7) \<longleftrightarrow> \<not> b6 \<and> \<not> b4 \<and>
     (if b5 then \<not> b3 \<and> \<not> b2 \<and> \<not> b1 \<and> \<not> b0
      else \<not> b7 \<and> b3 \<and> (if b2 then \<not> b1 else b1 \<or> b0))"
  by (cases b0; cases b1; cases b2; cases b3; cases b4; cases b5; cases b6; cases b7)
    (simp_all add: is_space_def code_unit_Char)

text \<open>JavaScript's \<open>length\<close> as a number.\<close>

definition js_len :: "'a list \<Rightarrow> int" where
  "js_len xs = int (length xs)"

lemma js_len_code [code]: "js_len [] = 0" "js_len (x # xs) = 1 + js_len xs"
  by (simp_all add: js_len_def)

declare js_len_def [simp]

fun join_with :: "string \<Rightarrow> string list \<Rightarrow> string" where
  "join_with sep [] = []"
| "join_with sep [x] = x"
| "join_with sep (x # y # ys) = x @ sep @ join_with sep (y # ys)"

fun split_at_char :: "char \<Rightarrow> string \<Rightarrow> string list" where
  "split_at_char c [] = [[]]"
| "split_at_char c (x # xs) =
     (if x = c then [] # split_at_char c xs
      else case split_at_char c xs of
             [] \<Rightarrow> [[x]]
           | seg # segs \<Rightarrow> (x # seg) # segs)"

definition starts_with :: "string \<Rightarrow> string \<Rightarrow> bool" where
  "starts_with p s \<longleftrightarrow> take (length p) s = p"

definition ends_with :: "string \<Rightarrow> string \<Rightarrow> bool" where
  "ends_with p s \<longleftrightarrow> starts_with (rev p) (rev s)"

lemma starts_with_append [simp]: "starts_with p (p @ s)"
  by (simp add: starts_with_def)

lemma ends_with_append [simp]: "ends_with p (s @ p)"
  by (simp add: ends_with_def)

subsection \<open>Decimal numbers\<close>

definition digit_char :: "nat \<Rightarrow> char" where
  "digit_char d = char_of (48 + d)"

fun nat_string :: "nat \<Rightarrow> string" where
  "nat_string n = (if n < 10 then [digit_char n] else nat_string (n div 10) @ [digit_char (n mod 10)])"

declare nat_string.simps [simp del]

definition int_string :: "int \<Rightarrow> string" where
  "int_string i = (if i < 0 then ''-'' @ nat_string (nat (- i)) else nat_string (nat i))"

definition is_digit :: "char \<Rightarrow> bool" where
  "is_digit c \<longleftrightarrow> 48 \<le> code_unit c \<and> code_unit c \<le> 57"

definition digit_value :: "char \<Rightarrow> nat" where
  "digit_value c = code_unit c - 48"

definition digits_value :: "string \<Rightarrow> nat" where
  "digits_value s = foldl (\<lambda>v c. 10 * v + digit_value c) 0 s"

lemma is_digit_code [code]:
  "is_digit (Char b0 b1 b2 b3 b4 b5 b6 b7) \<longleftrightarrow>
     \<not> b7 \<and> \<not> b6 \<and> b5 \<and> b4 \<and> (b3 \<longrightarrow> \<not> b2 \<and> \<not> b1)"
  by (cases b0; cases b1; cases b2; cases b3; cases b4; cases b5; cases b6; cases b7)
    (simp_all add: is_digit_def code_unit_Char)

text \<open>The same functions on integers, with which numbers are read and printed in evaluation.\<close>

definition digit_int :: "char \<Rightarrow> int" where
  "digit_int c = int (digit_value c)"

lemma digit_int_code [code]:
  "digit_int (Char b0 b1 b2 b3 b4 b5 b6 b7) =
     (if is_digit (Char b0 b1 b2 b3 b4 b5 b6 b7)
      then (if b0 then 1 else 0) + (if b1 then 2 else 0) + (if b2 then 4 else 0) + (if b3 then 8 else 0)
      else int (digit_value (Char b0 b1 b2 b3 b4 b5 b6 b7)))"
  by (cases b0; cases b1; cases b2; cases b3; cases b4; cases b5; cases b6; cases b7)
    (simp_all add: digit_int_def digit_value_def is_digit_def code_unit_Char)

definition digits_int :: "string \<Rightarrow> int" where
  "digits_int s = foldl (\<lambda>v c. 10 * v + digit_int c) 0 s"

lemma digits_int_eq: "digits_int s = int (digits_value s)"
proof -
  have "foldl (\<lambda>v c. 10 * v + digit_int c) (int n) s = int (foldl (\<lambda>v c. 10 * v + digit_value c) n s)" for n
  proof (induction s arbitrary: n)
    case (Cons c s)
    have "10 * int n + digit_int c = int (10 * n + digit_value c)" by (simp add: digit_int_def)
    then show ?case by (simp only: foldl_Cons Cons.IH)
  qed simp
  from this [of 0] show ?thesis by (simp add: digits_int_def digits_value_def)
qed

definition int_digit_char :: "int \<Rightarrow> char" where
  "int_digit_char d =
     (if d = 0 then CHR ''0'' else if d = 1 then CHR ''1'' else if d = 2 then CHR ''2''
      else if d = 3 then CHR ''3'' else if d = 4 then CHR ''4'' else if d = 5 then CHR ''5''
      else if d = 6 then CHR ''6'' else if d = 7 then CHR ''7'' else if d = 8 then CHR ''8''
      else CHR ''9'')"

lemma int_digit_char_eq: "n < 10 \<Longrightarrow> int_digit_char (int n) = digit_char n"
proof -
  assume "n < 10"
  then have "n = 0 \<or> n = 1 \<or> n = 2 \<or> n = 3 \<or> n = 4 \<or> n = 5 \<or> n = 6 \<or> n = 7 \<or> n = 8 \<or> n = 9"
    by presburger
  then show ?thesis by (elim disjE) (simp_all add: int_digit_char_def digit_char_def char_of_def bit_Suc_0_iff)
qed

function int_digits :: "int \<Rightarrow> string" where
  "int_digits i = (if i < 10 then [int_digit_char i] else int_digits (i div 10) @ [int_digit_char (i mod 10)])"
  by auto
termination by (relation "measure nat") auto

declare int_digits.simps [simp del]

lemma nat_string_code [code]: "nat_string n = int_digits (int n)"
proof (induction n rule: nat_string.induct)
  case (1 n)
  have "int_digit_char (int n mod 10) = digit_char (n mod 10)"
    using int_digit_char_eq [of "n mod 10"] by (simp add: zmod_int)
  then show ?case using 1 int_digit_char_eq [of n]
    by (subst nat_string.simps, subst int_digits.simps) (simp add: zdiv_int)
qed

lemma int_string_code [code]: "int_string i = (if i < 0 then ''-'' @ int_digits (- i) else int_digits i)"
  by (simp add: int_string_def nat_string_code)

definition pad_start :: "nat \<Rightarrow> char \<Rightarrow> string \<Rightarrow> string" where
  "pad_start n c s = replicate (n - length s) c @ s"

lemma code_unit_digit_char: "d < 10 \<Longrightarrow> code_unit (digit_char d) = 48 + d"
  by (simp add: code_unit_def digit_char_def)

lemma is_digit_digit_char [simp]: "d < 10 \<Longrightarrow> is_digit (digit_char d)"
  by (simp add: is_digit_def code_unit_digit_char)

lemma digit_value_digit_char [simp]: "d < 10 \<Longrightarrow> digit_value (digit_char d) = d"
  by (simp add: digit_value_def code_unit_digit_char)

lemma digits_value_snoc: "digits_value (s @ [c]) = 10 * digits_value s + digit_value c"
  by (simp add: digits_value_def)

lemma digits_value_nat_string [simp]: "digits_value (nat_string n) = n"
proof (induction n rule: nat_string.induct)
  case (1 n)
  show ?case
  proof (cases "n < 10")
    case True
    then show ?thesis by (subst nat_string.simps) (simp add: digits_value_def)
  next
    case False
    then show ?thesis using 1 by (subst nat_string.simps) (simp add: digits_value_snoc)
  qed
qed

lemma nat_string_digits: "list_all is_digit (nat_string n)"
proof (induction n rule: nat_string.induct)
  case (1 n)
  then show ?case by (subst nat_string.simps) auto
qed

lemma nat_string_nonempty [simp]: "nat_string n \<noteq> []"
  by (subst nat_string.simps) simp

lemma nat_string_inject [simp]: "nat_string m = nat_string n \<longleftrightarrow> m = n"
  by (metis digits_value_nat_string)

section \<open>JSON values\<close>

datatype json =
    J_Null
  | J_Bool bool
  | J_Num int
  | J_Str string
  | J_Arr "json list"
  | J_Obj "(string \<times> json) list"

definition hex_digit :: "nat \<Rightarrow> char" where
  "hex_digit d = (if d < 10 then char_of (48 + d) else char_of (87 + d))"

text \<open>The escapes of \<open>JSON.stringify\<close> for one code unit below 256.\<close>

definition json_escape :: "char \<Rightarrow> string" where
  "json_escape c =
     (let u = code_unit c in
      if u = 34 then [char_of (92::nat), c]
      else if u = 92 then [c, c]
      else if u = 8 then char_of (92::nat) # ''b''
      else if u = 9 then char_of (92::nat) # ''t''
      else if u = 10 then char_of (92::nat) # ''n''
      else if u = 12 then char_of (92::nat) # ''f''
      else if u = 13 then char_of (92::nat) # ''r''
      else if u < 32 then char_of (92::nat) # ''u00'' @ [hex_digit (u div 16), hex_digit (u mod 16)]
      else [c])"

lemma json_escape_code [code]:
  "json_escape (Char b0 b1 b2 b3 b4 b5 b6 b7) =
     (let c = Char b0 b1 b2 b3 b4 b5 b6 b7 in
      if b7 then [c]
      else if b5 \<or> b6 then
        (if c = CHR 0x22 then [CHR 0x5C, c] else if c = CHR 0x5C then [c, c] else [c])
      else if c = CHR 0x08 then [CHR 0x5C, CHR ''b'']
      else if c = CHR 0x09 then [CHR 0x5C, CHR ''t'']
      else if c = CHR 0x0A then [CHR 0x5C, CHR ''n'']
      else if c = CHR 0x0C then [CHR 0x5C, CHR ''f'']
      else if c = CHR 0x0D then [CHR 0x5C, CHR ''r'']
      else CHR 0x5C # ''u00'' @ [if b4 then CHR ''1'' else CHR ''0'', hex_digit (code_unit c mod 16)])"
  by (cases b0; cases b1; cases b2; cases b3; cases b4; cases b5; cases b6; cases b7)
    (simp_all add: json_escape_def Let_def code_unit_Char hex_digit_def char_of_def bit_Suc_0_iff)

definition json_quote :: "string \<Rightarrow> string" where
  "json_quote s = ''\"'' @ concat (map json_escape s) @ ''\"''"

primrec stringify :: "json \<Rightarrow> string" where
  "stringify J_Null = ''null''"
| "stringify (J_Bool b) = (if b then ''true'' else ''false'')"
| "stringify (J_Num n) = int_string n"
| "stringify (J_Str s) = json_quote s"
| "stringify (J_Arr xs) = ''['' @ join_with '','' (map stringify xs) @ '']''"
| "stringify (J_Obj kvs) =
     ''{'' @ join_with '',''
        (map (\<lambda>(k, s). json_quote k @ '':'' @ s) (map (map_prod id stringify) kvs)) @ ''}''"

text \<open>An object literal with optional members: \<open>...(x === undefined ? {} : {k: x})\<close>.\<close>

definition opt_member :: "string \<Rightarrow> ('a \<Rightarrow> json) \<Rightarrow> 'a option \<Rightarrow> (string \<times> json) list" where
  "opt_member k f x = (case x of None \<Rightarrow> [] | Some v \<Rightarrow> [(k, f v)])"

section \<open>Canonical JSON (identity.ts)\<close>

primrec canonicalize :: "json \<Rightarrow> json" where
  "canonicalize J_Null = J_Null"
| "canonicalize (J_Bool b) = J_Bool b"
| "canonicalize (J_Num n) = J_Num n"
| "canonicalize (J_Str s) = J_Str s"
| "canonicalize (J_Arr xs) = J_Arr (map canonicalize xs)"
| "canonicalize (J_Obj kvs) = J_Obj (sort_key fst (map (map_prod id canonicalize) kvs))"

definition delegation_canonical_json :: "json \<Rightarrow> string" where
  "delegation_canonical_json j = stringify (canonicalize j)"

definition delegation_data_bytes :: "json \<Rightarrow> int" where
  "delegation_data_bytes j = utf8_bytes (delegation_canonical_json j)"

definition delegation_input_digest :: "externals \<Rightarrow> json \<Rightarrow> string" where
  "delegation_input_digest ext j = sha256_hex ext (delegation_canonical_json j)"

definition js_slice :: "nat \<Rightarrow> nat \<Rightarrow> string \<Rightarrow> string" where
  "js_slice i j s = drop i (take j s)"

definition delegation_subordinate_id :: "externals \<Rightarrow> string \<Rightarrow> string \<Rightarrow> string" where
  "delegation_subordinate_id ext runId kind =
     (let hex = delegation_input_digest ext (J_Obj [(''runId'', J_Str runId), (''kind'', J_Str kind)])
      in js_slice 0 8 hex @ ''-'' @ js_slice 8 12 hex @ ''-4'' @ js_slice 13 16 hex @ ''-a''
         @ js_slice 17 20 hex @ ''-'' @ js_slice 20 32 hex)"

definition same_json :: "json \<Rightarrow> json \<Rightarrow> bool" where
  "same_json left right \<longleftrightarrow> delegation_canonical_json left = delegation_canonical_json right"

lemma same_json_refl [simp]: "same_json j j"
  by (simp add: same_json_def)

lemma same_json_sym: "same_json j k \<longleftrightarrow> same_json k j"
  by (auto simp: same_json_def)

lemma same_json_trans: "same_json j k \<Longrightarrow> same_json k l \<Longrightarrow> same_json j l"
  by (simp add: same_json_def)

lemma delegation_data_bytes_nonneg [simp]: "0 \<le> delegation_data_bytes j"
  by (simp add: delegation_data_bytes_def)

section \<open>Dates\<close>

text \<open>
  \<open>Date.parse\<close> on the ISO forms the schemas admit: \<open>YYYY-MM-DDTHH:MM\<close>, optional \<open>:SS\<close>
  and fraction, then \<open>Z\<close> or an offset.  The result is in milliseconds, \<open>None\<close> is NaN.
\<close>

definition days_from_civil :: "int \<Rightarrow> int \<Rightarrow> int \<Rightarrow> int" where
  "days_from_civil y m d =
     (let y' = (if m \<le> 2 then y - 1 else y);
          era = y' div 400;
          yoe = y' - era * 400;
          mp = (m + 9) mod 12;
          doy = (153 * mp + 2) div 5 + d - 1;
          doe = yoe * 365 + yoe div 4 - yoe div 100 + doy
      in era * 146097 + doe - 719468)"

definition civil_from_days :: "int \<Rightarrow> int \<times> int \<times> int" where
  "civil_from_days z0 =
     (let z = z0 + 719468;
          era = z div 146097;
          doe = z - era * 146097;
          yoe = (doe - doe div 1460 + doe div 36524 - doe div 146096) div 365;
          y = yoe + era * 400;
          doy = doe - (365 * yoe + yoe div 4 - yoe div 100);
          mp = (5 * doy + 2) div 153;
          d = doy - (153 * mp + 2) div 5 + 1;
          m = (if mp < 10 then mp + 3 else mp - 9)
      in (if m \<le> 2 then y + 1 else y, m, d))"

definition take_digits :: "nat \<Rightarrow> string \<Rightarrow> (int \<times> string) option" where
  "take_digits n s =
     (if length s < n \<or> \<not> list_all is_digit (take n s) then None
      else Some (digits_int (take n s), drop n s))"

definition expect_char :: "char \<Rightarrow> string \<Rightarrow> string option" where
  "expect_char c s = (case s of [] \<Rightarrow> None | x # xs \<Rightarrow> if x = c then Some xs else None)"

definition parse_zone :: "string \<Rightarrow> int option" where
  "parse_zone s =
     (case s of
        [] \<Rightarrow> None
      | c # rest \<Rightarrow>
          if c = CHR ''Z'' then (if rest = [] then Some 0 else None)
          else if c = CHR ''+'' \<or> c = CHR ''-'' then
            Option.bind (take_digits 2 rest) (\<lambda>(hh, r1).
            Option.bind (expect_char (CHR '':'') r1) (\<lambda>r2.
            Option.bind (take_digits 2 r2) (\<lambda>(mm, r3).
              if r3 \<noteq> [] then None
              else Some ((if c = CHR ''+'' then 1 else -1) * (hh * 60 + mm) * 60000))))
          else None)"

definition parse_fraction :: "string \<Rightarrow> (int \<times> string) option" where
  "parse_fraction s =
     (case expect_char (CHR ''.'') s of
        None \<Rightarrow> Some (0, s)
      | Some r \<Rightarrow>
          let ds = takeWhile is_digit r
          in if ds = [] then None
             else Some (digits_int (take 3 (ds @ ''00'')), dropWhile is_digit r))"

definition parse_seconds :: "string \<Rightarrow> (int \<times> string) option" where
  "parse_seconds s =
     (case expect_char (CHR '':'') s of
        None \<Rightarrow> Some (0, s)
      | Some r \<Rightarrow>
          Option.bind (take_digits 2 r) (\<lambda>(ss, r1).
          Option.bind (parse_fraction r1) (\<lambda>(ms, r2). Some (ss * 1000 + ms, r2))))"

definition date_parse :: "string \<Rightarrow> int option" where
  "date_parse s =
     Option.bind (take_digits 4 s) (\<lambda>(y, r1).
     Option.bind (expect_char (CHR ''-'') r1) (\<lambda>r2.
     Option.bind (take_digits 2 r2) (\<lambda>(mo, r3).
     Option.bind (expect_char (CHR ''-'') r3) (\<lambda>r4.
     Option.bind (take_digits 2 r4) (\<lambda>(d, r5).
     Option.bind (expect_char (CHR ''T'') r5) (\<lambda>r6.
     Option.bind (take_digits 2 r6) (\<lambda>(h, r7).
     Option.bind (expect_char (CHR '':'') r7) (\<lambda>r8.
     Option.bind (take_digits 2 r8) (\<lambda>(mi, r9).
     Option.bind (parse_seconds r9) (\<lambda>(sms, r10).
     Option.bind (parse_zone r10) (\<lambda>off.
       if mo < 1 \<or> 12 < mo \<or> d < 1 \<or> 31 < d \<or> 24 < h \<or> 59 < mi \<or> 59999 < sms
          \<or> (h = 24 \<and> (mi \<noteq> 0 \<or> sms \<noteq> 0))
       then None
       else Some (days_from_civil y mo d * 86400000 + h * 3600000 + mi * 60000 + sms - off))))))))))))"

text \<open>\<open>toISOString\<close>; \<open>None\<close> is the RangeError beyond the time range of ECMAScript.\<close>

definition iso_year :: "int \<Rightarrow> string" where
  "iso_year y =
     (if 0 \<le> y \<and> y \<le> 9999 then pad_start 4 (CHR ''0'') (int_string y)
      else (if y < 0 then ''-'' else ''+'') @ pad_start 6 (CHR ''0'') (int_string \<bar>y\<bar>))"

definition two_digits :: "int \<Rightarrow> string" where
  "two_digits n = pad_start 2 (CHR ''0'') (int_string n)"

definition to_iso_string :: "int \<Rightarrow> string option" where
  "to_iso_string t =
     (if \<bar>t\<bar> > 8640000000000000 then None
      else let days = t div 86400000; ms = t mod 86400000
           in case civil_from_days days of (y, m, d) \<Rightarrow>
             Some (iso_year y @ ''-'' @ two_digits m @ ''-'' @ two_digits d @ ''T''
               @ two_digits (ms div 3600000) @ '':'' @ two_digits (ms div 60000 mod 60) @ '':''
               @ two_digits (ms div 1000 mod 60) @ ''.''
               @ pad_start 3 (CHR ''0'') (int_string (ms mod 1000)) @ ''Z''))"

text \<open>Comparisons with NaN are false.\<close>

definition js_le :: "int option \<Rightarrow> int option \<Rightarrow> bool" where
  "js_le x y = (case (x, y) of (Some a, Some b) \<Rightarrow> a \<le> b | _ \<Rightarrow> False)"

definition js_gt :: "int option \<Rightarrow> int option \<Rightarrow> bool" where
  "js_gt x y = (case (x, y) of (Some a, Some b) \<Rightarrow> b < a | _ \<Rightarrow> False)"

definition js_sub :: "int option \<Rightarrow> int option \<Rightarrow> int option" where
  "js_sub x y = (case (x, y) of (Some a, Some b) \<Rightarrow> Some (a - b) | _ \<Rightarrow> None)"

end
