(* ===== verification/Bounded_Copy.thy ===== *)
theory Bounded_Copy
  imports Js_Data
begin

text \<open>
  \<open>agent-orchestration/src/shared/bounds.ts\<close>: inert capture of input data under byte, depth
  and entry bounds, before any schema runs.  A value of type \<open>json\<close> is a tree of plain data,
  so the source's checks on prototypes, accessors and cycles cannot fail on it and the copy it
  returns is equal to its argument; what is modelled is the accounting and every bound.
\<close>

datatype invalid_code =
    Invalid_Data | Byte_Limit | Depth_Limit | Entry_Limit | Invalid_Ceiling | Schema_Issue

datatype delegation_error_code =
    Delegation_Disabled | Policy_Denied | Target_Unavailable | Stale_Target
  | Unsupported_Operation | Capacity_Exceeded | Operation_Conflict | Stale_Revision
  | Owner_Lost | Request_Unavailable | Delivery_Uncertain | Recovery_Required | Store_Failed

text \<open>What a delegation function throws: an operation error with its code, a validation error
  with the code of its first issue, or a RangeError or TypeError of the runtime.\<close>

datatype delegation_failure =
    Operation_Error delegation_error_code
  | Validation_Error invalid_code
  | Range_Error
  | Type_Error

definition fail_delegation :: "delegation_error_code \<Rightarrow> delegation_failure + 'a" where
  "fail_delegation c = Inl (Operation_Error c)"

definition invalid_delegation_data :: "invalid_code \<Rightarrow> delegation_failure + 'a" where
  "invalid_delegation_data c = Inl (Validation_Error c)"

lemma fail_delegation_not_Inr [simp]:
  "fail_delegation c \<noteq> Inr x" "invalid_delegation_data i \<noteq> Inr x"
  by (simp_all add: fail_delegation_def invalid_delegation_data_def)

lemma if_fail_Inr [result_simps]:
  "(if c then fail_delegation k else m) = Inr y \<longleftrightarrow> \<not> c \<and> m = Inr y"
  "(if c then invalid_delegation_data i else m) = Inr y \<longleftrightarrow> \<not> c \<and> m = Inr y"
  by (simp_all add: fail_delegation_def invalid_delegation_data_def)

definition delegation_document_bytes :: int where
  "delegation_document_bytes = 1048576"

definition delegation_target_bytes :: int where
  "delegation_target_bytes = 32768"

definition delegation_entries :: int where
  "delegation_entries = 1000"

definition reserve :: "int \<Rightarrow> int \<Rightarrow> delegation_failure + int" where
  "reserve bytes count =
     (if bytes + count > delegation_document_bytes then invalid_delegation_data Byte_Limit
      else Inr (bytes + count))"

definition unsafe_key :: "string \<Rightarrow> bool" where
  "unsafe_key k \<longleftrightarrow> k = ''__proto__'' \<or> k = ''constructor'' \<or> k = ''prototype''"

text \<open>\<open>captureDelegationRecord\<close> on a plain object.\<close>

definition capture_delegation_record ::
    "(string \<times> json) list \<Rightarrow> delegation_failure + (string \<times> json) list" where
  "capture_delegation_record kvs =
     (if js_len kvs > delegation_entries then invalid_delegation_data Entry_Limit
      else if list_ex (unsafe_key \<circ> fst) kvs then invalid_delegation_data Invalid_Data
      else Inr kvs)"

text \<open>\<open>visit\<close> of \<open>copyBoundedDelegationData\<close>: the running byte count is threaded through.\<close>

function (sequential) copy_visit :: "nat \<Rightarrow> int \<Rightarrow> json \<Rightarrow> delegation_failure + int"
  and copy_visit_items :: "nat \<Rightarrow> int \<Rightarrow> json list \<Rightarrow> delegation_failure + int"
  and copy_visit_members :: "nat \<Rightarrow> int \<Rightarrow> (string \<times> json) list \<Rightarrow> delegation_failure + int" where
  "copy_visit depth bytes j =
     (if depth > 16 then invalid_delegation_data Depth_Limit
      else case j of
        J_Str s \<Rightarrow>
          if js_len s > delegation_document_bytes then invalid_delegation_data Byte_Limit
          else reserve bytes (utf8_bytes (json_quote s))
      | J_Arr xs \<Rightarrow>
          if js_len xs > delegation_entries then invalid_delegation_data Invalid_Data
          else and_then (reserve bytes (2 + max 0 (js_len xs - 1)))
                 (\<lambda>b. copy_visit_items (Suc depth) b xs)
      | J_Obj kvs \<Rightarrow>
          and_then (capture_delegation_record kvs) (\<lambda>_.
          and_then (reserve bytes (2 + max 0 (js_len kvs - 1)))
                 (\<lambda>b. copy_visit_members (Suc depth) b kvs))
      | _ \<Rightarrow> reserve bytes (js_len (stringify j)))"
| "copy_visit_items depth bytes [] = Inr bytes"
| "copy_visit_items depth bytes (x # xs) =
     and_then (copy_visit depth bytes x) (\<lambda>b. copy_visit_items depth b xs)"
| "copy_visit_members depth bytes [] = Inr bytes"
| "copy_visit_members depth bytes ((k, v) # kvs) =
     and_then (reserve bytes (utf8_bytes (json_quote k) + 1)) (\<lambda>b.
     and_then (copy_visit depth b v) (\<lambda>b'. copy_visit_members depth b' kvs))"
  by pat_completeness auto
termination
  by (relation "measure (\<lambda>x. case x of
        Inl (d, b, j) \<Rightarrow> Suc (size j)
      | Inr (Inl (d, b, xs)) \<Rightarrow> Suc (size_list size xs)
      | Inr (Inr (d, b, kvs)) \<Rightarrow> Suc (size_list (size_prod (\<lambda>_. 0) size) kvs))") auto

declare copy_visit.simps [simp del]

definition copy_bounded_delegation_data :: "json \<Rightarrow> delegation_failure + json" where
  "copy_bounded_delegation_data j = and_then (copy_visit 0 0 j) (\<lambda>_. Inr j)"

lemma copy_bounded_identity:
  "copy_bounded_delegation_data j = Inr k \<Longrightarrow> k = j"
  by (auto simp: copy_bounded_delegation_data_def result_simps)

section \<open>The accounting is the size of the serialized document\<close>

lemma reserve_Inr [result_simps]:
  "reserve b n = Inr b' \<longleftrightarrow> b' = b + n \<and> b + n \<le> delegation_document_bytes"
  by (auto simp: reserve_def)

lemma capture_Inr [result_simps]:
  "capture_delegation_record kvs = Inr kvs' \<longleftrightarrow>
     kvs' = kvs \<and> js_len kvs \<le> delegation_entries \<and> list_all (\<lambda>kv. \<not> unsafe_key (fst kv)) kvs"
  by (auto simp: capture_delegation_record_def list_ex_iff list_all_iff)

lemma utf8_join_with:
  "utf8_bytes (join_with '','' xs) =
     sum_list (map utf8_bytes xs) + max 0 (int (length xs) - 1)"
proof (induction "'',''" xs rule: join_with.induct)
  case (3 x y ys)
  have "utf8_bytes '','' = 1" by (simp add: utf8_char_bytes_def code_unit_def)
  with 3 show ?case by simp
qed simp_all

lemma utf8_ascii: "list_all (\<lambda>c. code_unit c < 128) s \<Longrightarrow> utf8_bytes s = int (length s)"
  by (induction s) (auto simp: utf8_char_bytes_def)

lemma ascii_nat_string: "list_all (\<lambda>c. code_unit c < 128) (nat_string n)"
  using nat_string_digits [of n] by (auto simp: list_all_iff is_digit_def)

lemma ascii_int_string: "list_all (\<lambda>c. code_unit c < 128) (int_string i)"
  using ascii_nat_string by (auto simp: int_string_def code_unit_def)

lemma utf8_int_string: "utf8_bytes (int_string i) = int (length (int_string i))"
  by (rule utf8_ascii [OF ascii_int_string])

lemma utf8_scalar:
  "case j of J_Null \<Rightarrow> True | J_Bool b \<Rightarrow> True | J_Num n \<Rightarrow> True | _ \<Rightarrow> False \<Longrightarrow>
     int (length (stringify j)) = utf8_bytes (stringify j)"
  by (cases j) (simp_all add: utf8_int_string utf8_char_bytes_def code_unit_def)

definition member_json :: "string \<times> json \<Rightarrow> string" where
  "member_json kv = json_quote (fst kv) @ '':'' @ stringify (snd kv)"

lemma stringify_J_Obj:
  "stringify (J_Obj kvs) = ''{'' @ join_with '','' (map member_json kvs) @ ''}''"
  by (simp add: member_json_def [abs_def] comp_def case_prod_unfold)

lemma utf8_member_json:
  "utf8_bytes (member_json (k, v)) = utf8_bytes (json_quote k) + 1 + utf8_bytes (stringify v)"
  by (simp add: member_json_def utf8_char_bytes_def code_unit_def)

lemma utf8_brackets [simp]:
  "utf8_char_bytes (CHR ''['') = 1" "utf8_char_bytes (CHR '']'') = 1"
  "utf8_char_bytes (CHR ''{'') = 1" "utf8_char_bytes (CHR ''}'') = 1"
  by (simp_all add: utf8_char_bytes_def code_unit_def)

text \<open>The abstract contract: the shape bounds of a document, without any accounting.\<close>

lemma size_member_json:
  "(k, v) \<in> set kvs \<Longrightarrow> size v \<le> size_list (size_prod (\<lambda>_. 0) size) kvs"
  by (induction kvs) auto

function (sequential) shape_ok :: "nat \<Rightarrow> json \<Rightarrow> bool" where
  "shape_ok depth (J_Arr xs) \<longleftrightarrow>
     depth \<le> 16 \<and> js_len xs \<le> delegation_entries \<and> list_all (shape_ok (Suc depth)) xs"
| "shape_ok depth (J_Obj kvs) \<longleftrightarrow>
     depth \<le> 16 \<and> js_len kvs \<le> delegation_entries \<and> list_all (\<lambda>kv. \<not> unsafe_key (fst kv)) kvs
     \<and> list_all (\<lambda>kv. shape_ok (Suc depth) (snd kv)) kvs"
| "shape_ok depth _ \<longleftrightarrow> depth \<le> 16"
  by pat_completeness auto
termination
  by (relation "measure (size \<circ> snd)")
    (auto simp: less_Suc_eq_le size_list_estimation' size_member_json)

lemma length_le_utf8: "int (length s) \<le> utf8_bytes s"
  by (induction s) (auto simp: utf8_char_bytes_def)

lemma utf8_escape_ge: "1 \<le> utf8_bytes (json_escape c)"
  by (auto simp: json_escape_def Let_def utf8_char_bytes_def add_nonneg_nonneg)

lemma length_le_utf8_quote: "int (length s) \<le> utf8_bytes (json_quote s)"
proof -
  have "int (length s) \<le> utf8_bytes (concat (map json_escape s))"
    by (induction s) (auto intro: order_trans [OF _ add_mono [OF utf8_escape_ge]])
  then show ?thesis by (simp add: json_quote_def utf8_char_bytes_def)
qed

lemma utf8_J_Arr:
  "utf8_bytes (stringify (J_Arr xs)) =
     2 + max 0 (int (length xs) - 1) + (\<Sum>a\<leftarrow>xs. utf8_bytes (stringify a))"
  by (simp add: utf8_join_with comp_def)

lemma utf8_J_Obj:
  "utf8_bytes (stringify (J_Obj kvs)) =
     2 + max 0 (int (length kvs) - 1) + (\<Sum>a\<leftarrow>kvs. utf8_bytes (member_json a))"
  unfolding stringify_J_Obj by (simp add: utf8_join_with comp_def)

lemmas utf8_documents = utf8_J_Arr utf8_J_Obj

lemma sum_utf8_nonneg: "0 \<le> (\<Sum>a\<leftarrow>xs. utf8_bytes (f a))"
  by (induction xs) auto

lemma copy_visit_iff:
  "0 \<le> b \<Longrightarrow> b \<le> delegation_document_bytes \<Longrightarrow> copy_visit d b j = Inr b' \<longleftrightarrow>
     shape_ok d j \<and> b' = b + utf8_bytes (stringify j) \<and> b' \<le> delegation_document_bytes"
  "0 \<le> b \<Longrightarrow> b \<le> delegation_document_bytes \<Longrightarrow> copy_visit_items d b xs = Inr b' \<longleftrightarrow>
     list_all (shape_ok d) xs \<and> b' = b + (\<Sum>a\<leftarrow>xs. utf8_bytes (stringify a))
     \<and> b' \<le> delegation_document_bytes"
  "0 \<le> b \<Longrightarrow> b \<le> delegation_document_bytes \<Longrightarrow> copy_visit_members d b kvs = Inr b' \<longleftrightarrow>
     list_all (\<lambda>kv. shape_ok d (snd kv)) kvs \<and> b' = b + (\<Sum>a\<leftarrow>kvs. utf8_bytes (member_json a))
     \<and> b' \<le> delegation_document_bytes"
proof (induction d b j and d b xs and d b kvs arbitrary: b' and b' and b'
    rule: copy_visit_copy_visit_items_copy_visit_members.induct)
  case (1 depth bytes j)
  show ?case
  proof (cases j)
    case (J_Arr xs)
    show ?thesis
      using "1.prems" "1.IH"(1) [of xs] J_Arr sum_utf8_nonneg [of stringify xs]
      by (auto simp: copy_visit.simps [of depth bytes] result_simps utf8_documents comp_def
          simp del: stringify.simps)
  next
    case (J_Obj kvs)
    show ?thesis
      using "1.prems" "1.IH"(2) [of kvs] J_Obj sum_utf8_nonneg [of member_json kvs]
      by (auto simp: copy_visit.simps [of depth bytes] result_simps utf8_documents comp_def
          simp del: stringify.simps)
  next
    case (J_Str s)
    then show ?thesis using "1.prems" length_le_utf8_quote [of s]
      by (auto simp: copy_visit.simps [of depth bytes] result_simps)
  qed (auto simp: copy_visit.simps [of depth bytes] result_simps utf8_scalar
      simp del: stringify.simps)
next
  case (3 depth bytes x xs)
  have x: "0 \<le> utf8_bytes (stringify x)" and xs: "0 \<le> (\<Sum>a\<leftarrow>xs. utf8_bytes (stringify a))"
    by (simp_all add: sum_utf8_nonneg)
  have head: "copy_visit depth bytes x = Inr c \<longleftrightarrow> shape_ok depth x \<and>
      c = bytes + utf8_bytes (stringify x) \<and> c \<le> delegation_document_bytes" for c
    by (rule "3.IH"(1) [OF "3.prems"])
  have tail: "0 \<le> c \<Longrightarrow> c \<le> delegation_document_bytes \<Longrightarrow>
      copy_visit_items depth c xs = Inr e \<longleftrightarrow> list_all (shape_ok depth) xs \<and>
      e = c + (\<Sum>a\<leftarrow>xs. utf8_bytes (stringify a)) \<and> e \<le> delegation_document_bytes" for c e
    by (rule "3.IH"(2))
  show ?case using x xs "3.prems" by (auto simp: and_then_eq_Inr head tail)
next
  case (5 depth bytes k v kvs)
  have k: "0 \<le> utf8_bytes (json_quote k)" and v: "0 \<le> utf8_bytes (stringify v)"
    and kvs: "0 \<le> (\<Sum>a\<leftarrow>kvs. utf8_bytes (member_json a))"
    by (simp_all add: sum_utf8_nonneg)
  have head: "0 \<le> c \<Longrightarrow> c \<le> delegation_document_bytes \<Longrightarrow> copy_visit depth c v = Inr e \<longleftrightarrow>
      shape_ok depth v \<and> e = c + utf8_bytes (stringify v) \<and> e \<le> delegation_document_bytes" for c e
    by (rule "5.IH"(1))
  have tail: "0 \<le> c \<Longrightarrow> c \<le> delegation_document_bytes \<Longrightarrow>
      copy_visit_members depth c kvs = Inr e \<longleftrightarrow> list_all (\<lambda>kv. shape_ok depth (snd kv)) kvs \<and>
      e = c + (\<Sum>a\<leftarrow>kvs. utf8_bytes (member_json a)) \<and> e \<le> delegation_document_bytes" for c e
    by (rule "5.IH"(2))
  define q w where "q = utf8_bytes (json_quote k)" and "w = utf8_bytes (stringify v)"
  have q: "0 \<le> q" and w: "0 \<le> w" using k v by (simp_all add: q_def w_def)
  show ?case using q w kvs "5.prems"
    by (auto simp: and_then_eq_Inr reserve_Inr head tail utf8_member_json
        q_def [symmetric] w_def [symmetric])
qed (auto simp: result_simps)

lemma copy_bounded_iff:
  "copy_bounded_delegation_data j = Inr k \<longleftrightarrow>
     k = j \<and> shape_ok 0 j \<and> utf8_bytes (stringify j) \<le> delegation_document_bytes"
proof -
  have start: "0 \<le> delegation_document_bytes" by (simp add: delegation_document_bytes_def)
  show ?thesis
    unfolding copy_bounded_delegation_data_def and_then_eq_Inr copy_visit_iff(1) [OF order_refl start]
    by auto
qed

section \<open>Failures of the copy\<close>

lemma reserve_Inl [result_simps]:
  "reserve b n = Inl e \<longleftrightarrow> e = Validation_Error Byte_Limit \<and> delegation_document_bytes < b + n"
  by (auto simp: reserve_def invalid_delegation_data_def)

lemma capture_Inl:
  "capture_delegation_record kvs = Inl e \<Longrightarrow> \<exists>c. e = Validation_Error c"
  by (auto simp: capture_delegation_record_def invalid_delegation_data_def split: if_splits)

lemma copy_visit_error:
  "copy_visit d b j = Inl e \<Longrightarrow> \<exists>c. e = Validation_Error c"
  "copy_visit_items d b xs = Inl e \<Longrightarrow> \<exists>c. e = Validation_Error c"
  "copy_visit_members d b kvs = Inl e \<Longrightarrow> \<exists>c. e = Validation_Error c"
proof (induction d b j and d b xs and d b kvs rule: copy_visit_copy_visit_items_copy_visit_members.induct)
  case (1 depth bytes j)
  then show ?case
    by (cases j) (auto simp: copy_visit.simps [of depth bytes] invalid_delegation_data_def result_simps
        dest: capture_Inl split: if_splits)
qed (auto simp: result_simps)

text \<open>
  C21. The bounded copy succeeds exactly on the documents whose nesting, array, object and key
  bounds hold and whose serialization takes at most 1 MiB of UTF-8, and returns them unchanged;
  on every other document it throws a validation error.
\<close>

theorem copy_bounded_contract:
  "case copy_bounded_delegation_data j of
     Inr k \<Rightarrow> k = j \<and> shape_ok 0 j \<and> utf8_bytes (stringify j) \<le> 1048576
   | Inl e \<Rightarrow> \<not> (shape_ok 0 j \<and> utf8_bytes (stringify j) \<le> 1048576) \<and>
       (\<exists>c. e = Validation_Error c)"
proof (cases "copy_bounded_delegation_data j")
  case (Inl e)
  have "\<not> (shape_ok 0 j \<and> utf8_bytes (stringify j) \<le> 1048576)"
    using copy_bounded_iff [of j j] Inl by (simp add: delegation_document_bytes_def)
  moreover have "\<exists>c. e = Validation_Error c"
    using Inl copy_visit_error(1) [of 0 0 j e]
    by (auto simp: copy_bounded_delegation_data_def result_simps)
  ultimately show ?thesis using Inl by simp
next
  case (Inr k)
  then show ?thesis
    using copy_bounded_iff [of j k] by (simp add: delegation_document_bytes_def)
qed

section \<open>Sizes of serialized values\<close>

lemma length_nat_string: "n < 10 ^ k \<Longrightarrow> 0 < k \<Longrightarrow> length (nat_string n) \<le> k"
proof (induction k arbitrary: n)
  case (Suc k)
  show ?case
  proof (cases "n < 10")
    case True
    then show ?thesis by (subst nat_string.simps) simp
  next
    case False
    then have "k \<noteq> 0" using Suc.prems by (cases k) auto
    moreover have "n div 10 < 10 ^ k" using Suc.prems by (simp add: less_mult_imp_div_less mult.commute)
    ultimately show ?thesis using Suc.IH [of "n div 10"] False by (subst nat_string.simps) simp
  qed
qed simp

lemma utf8_safe_number: "safe_integer n \<Longrightarrow> utf8_bytes (stringify (J_Num n)) \<le> 17"
  using length_nat_string [of "nat \<bar>n\<bar>" 16]
  by (auto simp: int_string_def utf8_ascii [OF ascii_nat_string] utf8_char_bytes_def code_unit_def safe_integer_def max_safe_integer_def nat_less_iff
      split: if_splits)

lemma utf8_escape_le: "utf8_bytes (json_escape c) \<le> 6"
  by (auto simp: json_escape_def Let_def utf8_char_bytes_def hex_digit_def code_unit_def)

lemma utf8_quote_le: "utf8_bytes (json_quote s) \<le> 6 * int (length s) + 2"
proof -
  have "utf8_bytes (concat (map json_escape s)) \<le> 6 * int (length s)"
    by (induction s) (auto intro: order_trans [OF add_mono [OF utf8_escape_le]])
  then show ?thesis by (simp add: json_quote_def utf8_char_bytes_def code_unit_def)
qed

lemma utf8_object_le:
  assumes "\<And>k v. (k, v) \<in> set kvs \<Longrightarrow>
    int (length k) \<le> m \<and> utf8_bytes (stringify v) \<le> n"
  shows "utf8_bytes (stringify (J_Obj kvs)) \<le> 2 + int (length kvs) * (6 * m + n + 4)"
proof -
  have "(\<Sum>a\<leftarrow>kvs. utf8_bytes (member_json a)) \<le> int (length kvs) * (6 * m + n + 3)"
    using assms
  proof (induction kvs)
    case (Cons kv kvs)
    obtain k v where kv: "kv = (k, v)" by (cases kv)
    have "utf8_bytes (member_json kv) \<le> 6 * m + n + 3"
      using utf8_quote_le [of k] Cons.prems [of k v] kv by (simp add: utf8_member_json)
    moreover have "(\<Sum>a\<leftarrow>kvs. utf8_bytes (member_json a)) \<le> int (length kvs) * (6 * m + n + 3)"
      by (rule Cons.IH) (rule Cons.prems, simp)
    ultimately show ?case by (simp add: algebra_simps)
  qed simp
  then show ?thesis unfolding utf8_J_Obj by (simp add: algebra_simps)
qed

end
