(* ===== verification/Turn_Input.thy ===== *)
theory Turn_Input
  imports Bounded_Copy
begin

text \<open>
  The turn input content of the agent protocol (\<open>agent-protocol/src/turns/types.ts\<close>), its JSON
  form and its schema (\<open>agent-protocol/src/zod/turns.ts\<close>), with the canonical string
  schemas of \<open>zod/foundation.ts\<close> that it uses.  A schema is a predicate on values that already
  have the declared shape: the strict object schemas admit exactly the members of the records.
\<close>

section \<open>Canonical strings\<close>

text \<open>\<open>/^(?![\s\S]*[\u0000-\u001F\u007F-\u009F])\S(?:[\s\S]*\S)?$/u\<close>\<close>

definition trimmed_text :: "string \<Rightarrow> bool" where
  "trimmed_text s \<longleftrightarrow> s \<noteq> [] \<and> \<not> is_space (hd s) \<and> \<not> is_space (last s)"

definition canonical_opaque_pattern :: "string \<Rightarrow> bool" where
  "canonical_opaque_pattern s \<longleftrightarrow> list_all (\<lambda>c. \<not> is_control c) s \<and> trimmed_text s"

definition canonical_opaque_string :: "int \<Rightarrow> string \<Rightarrow> bool" where
  "canonical_opaque_string n s \<longleftrightarrow>
     1 \<le> js_len s \<and> js_len s \<le> n \<and> canonical_opaque_pattern s"

definition canonical_non_blank_string :: "int \<Rightarrow> string \<Rightarrow> bool" where
  "canonical_non_blank_string n s \<longleftrightarrow> 1 \<le> js_len s \<and> js_len s \<le> n \<and> trimmed_text s"

definition agent_canonical_id :: "string \<Rightarrow> bool" where
  "agent_canonical_id s \<longleftrightarrow> canonical_opaque_string 256 s"

definition hex_digest :: "string \<Rightarrow> bool" where
  "hex_digest s \<longleftrightarrow> js_len s = 64 \<and>
     list_all (\<lambda>c. is_digit c \<or> (97 \<le> code_unit c \<and> code_unit c \<le> 102)) s"

definition positive_safe :: "int \<Rightarrow> bool" where
  "positive_safe n \<longleftrightarrow> 0 < n \<and> n \<le> max_safe_integer"

section \<open>Input parts\<close>

datatype image_media_type = Image_Png | Image_Jpeg | Image_Webp

record image_metadata =
  im_media_type :: image_media_type
  im_byte_size :: int
  im_width_pixels :: int
  im_height_pixels :: int

datatype image_source =
    Url_Source image_metadata string
  | Base64_Source image_metadata string
  | Local_File_Source image_metadata string string

record content_reference =
  cr_environment_id :: string
  cr_environment_revision :: int
  cr_content_catalog_revision :: int
  cr_content_id :: string
  cr_content_revision :: int
  cr_arguments :: "string option"

datatype input_part =
    Text_Part string
  | Image_Part image_source
  | Content_Reference_Part content_reference

record turn_input =
  ti_parts :: "input_part list"
  ti_summary :: "string option"

fun media_type_name :: "image_media_type \<Rightarrow> string" where
  "media_type_name Image_Png = ''image/png''"
| "media_type_name Image_Jpeg = ''image/jpeg''"
| "media_type_name Image_Webp = ''image/webp''"

definition image_metadata_members :: "image_metadata \<Rightarrow> (string \<times> json) list" where
  "image_metadata_members m =
     [(''mediaType'', J_Str (media_type_name (im_media_type m))),
      (''byteSize'', J_Num (im_byte_size m)),
      (''widthPixels'', J_Num (im_width_pixels m)),
      (''heightPixels'', J_Num (im_height_pixels m))]"

fun json_of_image_source :: "image_source \<Rightarrow> json" where
  "json_of_image_source (Url_Source m u) =
     J_Obj ([(''type'', J_Str ''url''), (''url'', J_Str u)] @ image_metadata_members m)"
| "json_of_image_source (Base64_Source m d) =
     J_Obj ((''type'', J_Str ''base64'') # image_metadata_members m @ [(''data'', J_Str d)])"
| "json_of_image_source (Local_File_Source m p d) =
     J_Obj ([(''type'', J_Str ''local_file''), (''path'', J_Str p), (''sha256'', J_Str d)]
       @ image_metadata_members m)"

fun json_of_input_part :: "input_part \<Rightarrow> json" where
  "json_of_input_part (Text_Part s) = J_Obj [(''type'', J_Str ''text''), (''text'', J_Str s)]"
| "json_of_input_part (Image_Part src) =
     J_Obj [(''type'', J_Str ''image''), (''source'', json_of_image_source src)]"
| "json_of_input_part (Content_Reference_Part r) =
     J_Obj ([(''type'', J_Str ''content_reference''),
       (''environmentId'', J_Str (cr_environment_id r)),
       (''environmentRevision'', J_Num (cr_environment_revision r)),
       (''contentCatalogRevision'', J_Num (cr_content_catalog_revision r)),
       (''contentId'', J_Str (cr_content_id r)),
       (''contentRevision'', J_Num (cr_content_revision r))]
       @ opt_member ''arguments'' J_Str (cr_arguments r))"

definition json_of_turn_input :: "turn_input \<Rightarrow> json" where
  "json_of_turn_input i =
     J_Obj ((''parts'', J_Arr (map json_of_input_part (ti_parts i)))
       # opt_member ''summary'' J_Str (ti_summary i))"

section \<open>Schemas\<close>

definition valid_image_metadata :: "image_metadata \<Rightarrow> bool" where
  "valid_image_metadata m \<longleftrightarrow>
     0 < im_byte_size m \<and> im_byte_size m \<le> 104857600 \<and>
     0 < im_width_pixels m \<and> im_width_pixels m \<le> 100000 \<and>
     0 < im_height_pixels m \<and> im_height_pixels m \<le> 100000"

definition base64_padding :: "string \<Rightarrow> int" where
  "base64_padding d = (if ends_with ''=='' d then 2 else if ends_with ''='' d then 1 else 0)"

text \<open>No path segment after the first slash of a match is \<open>..\<close>: the lookahead
  \<open>(?!.*\/\.\.(?:\/|$))\<close>.\<close>

fun has_parent_segment :: "string \<Rightarrow> bool" where
  "has_parent_segment [] \<longleftrightarrow> False"
| "has_parent_segment (c # s) \<longleftrightarrow>
     (c = CHR ''/'' \<and> starts_with ''..'' s \<and> (drop 2 s = [] \<or> hd (drop 2 s) = CHR ''/''))
     \<or> has_parent_segment s"

definition valid_local_image_path :: "string \<Rightarrow> bool" where
  "valid_local_image_path p \<longleftrightarrow>
     2 \<le> js_len p \<and> js_len p \<le> 4096 \<and> \<not> has_parent_segment p \<and>
     hd p = CHR ''/'' \<and> canonical_opaque_pattern (tl p)"

fun valid_image_source :: "externals \<Rightarrow> image_source \<Rightarrow> bool" where
  "valid_image_source ext (Url_Source m u) \<longleftrightarrow>
     zod_url ext u \<and> js_len u \<le> 2048 \<and> valid_image_metadata m"
| "valid_image_source ext (Base64_Source m d) \<longleftrightarrow>
     valid_image_metadata m \<and> zod_base64 ext d \<and> 1 \<le> js_len d \<and> js_len d \<le> 500000 \<and>
     int (length d) * 3 - 4 * base64_padding d = 4 * im_byte_size m"
| "valid_image_source ext (Local_File_Source m p d) \<longleftrightarrow>
     valid_local_image_path p \<and> hex_digest d \<and> valid_image_metadata m"

definition valid_content_reference :: "content_reference \<Rightarrow> bool" where
  "valid_content_reference r \<longleftrightarrow>
     agent_canonical_id (cr_environment_id r) \<and> positive_safe (cr_environment_revision r) \<and>
     positive_safe (cr_content_catalog_revision r) \<and> agent_canonical_id (cr_content_id r) \<and>
     positive_safe (cr_content_revision r) \<and>
     (case cr_arguments r of None \<Rightarrow> True
        | Some a \<Rightarrow> js_len a \<le> 4096 \<and> utf8_bytes a \<le> 4096)"

fun valid_input_part :: "externals \<Rightarrow> input_part \<Rightarrow> bool" where
  "valid_input_part ext (Text_Part s) \<longleftrightarrow> 1 \<le> js_len s \<and> js_len s \<le> 64000"
| "valid_input_part ext (Image_Part src) \<longleftrightarrow> valid_image_source ext src"
| "valid_input_part ext (Content_Reference_Part r) \<longleftrightarrow> valid_content_reference r"

fun content_references :: "input_part list \<Rightarrow> content_reference list" where
  "content_references [] = []"
| "content_references (Content_Reference_Part r # ps) = r # content_references ps"
| "content_references (_ # ps) = content_references ps"

definition content_identity :: "content_reference \<Rightarrow> string" where
  "content_identity r = stringify (J_Arr [J_Str (cr_environment_id r), J_Str (cr_content_id r)])"

definition valid_turn_input :: "externals \<Rightarrow> turn_input \<Rightarrow> bool" where
  "valid_turn_input ext i \<longleftrightarrow>
     list_all (valid_input_part ext) (ti_parts i) \<and>
     1 \<le> js_len (ti_parts i) \<and> js_len (ti_parts i) \<le> 100 \<and>
     (case ti_summary i of None \<Rightarrow> True | Some s \<Rightarrow> js_len s \<le> 2000) \<and>
     js_len (content_references (ti_parts i)) \<le> 16 \<and>
     distinct (map content_identity (content_references (ti_parts i))) \<and>
     utf8_bytes (stringify (json_of_turn_input i)) \<le> 1064960"

text \<open>The text character count that admission and the run record schema bound.\<close>

fun part_characters :: "input_part \<Rightarrow> int" where
  "part_characters (Text_Part s) = int (length s)"
| "part_characters _ = 0"

definition input_characters :: "turn_input \<Rightarrow> int" where
  "input_characters i = (\<Sum>p\<leftarrow>ti_parts i. part_characters p)"

definition input_bytes :: "turn_input \<Rightarrow> int" where
  "input_bytes i = delegation_data_bytes (json_of_turn_input i)"

lemma input_bytes_nonneg [simp]: "0 \<le> input_bytes i"
  by (simp add: input_bytes_def)

end
