(* ===== verification/Delegation_Types.thy ===== *)
theory Delegation_Types
  imports Turn_Input
begin

text \<open>
  The bounded records of the delegation domain: \<open>agent-orchestration/src/tasks/types.ts\<close>,
  \<open>store/types.ts\<close>, \<open>store-adapter/types.ts\<close> and the limits of \<open>shared/limits.ts\<close>, with
  the JSON value each one has when the code serializes, digests or compares it.  Optional
  members are options, string literal unions are datatypes, integers are \<open>int\<close>.
\<close>

section \<open>Scopes, owners and targets\<close>

record parent_scope =
  ps_parent_id :: string
  ps_scope_id :: string
  ps_revision :: int

record owner_token =
  ot_store_id :: string
  ot_epoch :: int
  ot_nonce :: string

record target_reference =
  tr_catalog_id :: string
  tr_catalog_revision :: int
  tr_target_id :: string
  tr_target_revision :: int
  tr_source_id :: string
  tr_source_revision :: int

record policy_ceiling =
  pc_ceiling_id :: string
  pc_origin :: parent_scope
  pc_targets :: "target_reference list"

definition json_of_parent :: "parent_scope \<Rightarrow> json" where
  "json_of_parent p = J_Obj [(''parentId'', J_Str (ps_parent_id p)),
     (''scopeId'', J_Str (ps_scope_id p)), (''revision'', J_Num (ps_revision p))]"

definition json_of_owner :: "owner_token \<Rightarrow> json" where
  "json_of_owner t = J_Obj [(''storeId'', J_Str (ot_store_id t)),
     (''epoch'', J_Num (ot_epoch t)), (''nonce'', J_Str (ot_nonce t))]"

definition json_of_target :: "target_reference \<Rightarrow> json" where
  "json_of_target t = J_Obj [(''catalogId'', J_Str (tr_catalog_id t)),
     (''catalogRevision'', J_Num (tr_catalog_revision t)),
     (''targetId'', J_Str (tr_target_id t)), (''targetRevision'', J_Num (tr_target_revision t)),
     (''sourceId'', J_Str (tr_source_id t)), (''sourceRevision'', J_Num (tr_source_revision t))]"

definition json_of_ceiling :: "policy_ceiling \<Rightarrow> json" where
  "json_of_ceiling c = J_Obj [(''ceilingId'', J_Str (pc_ceiling_id c)),
     (''origin'', json_of_parent (pc_origin c)),
     (''targets'', J_Arr (map json_of_target (pc_targets c)))]"

section \<open>Enumerations\<close>

datatype task_state = Task_Active | Task_Settled | Task_Recovery_Required | Task_Retired

datatype run_phase = Queued | Preparing | Running | Waiting | Settled

datatype completion_policy = Collect | Next_Turn | Automatic

datatype continuation_mode = Continue_Next_Turn | Continue_Follow_Up

datatype request_kind = Approval | Elicitation

datatype request_status = Request_Waiting | Resolution_Intended | Request_Resolved | Request_Unavailable_State

datatype dispatch_state = Dispatch_None | Dispatch_Intended | Dispatch_Delegated

datatype preparation_state = Prep_None | Prep_Intended | Prep_Completed | Prep_Uncertain

datatype recovery_reason =
    Executor_Lost | Dispatch_Uncertain | Request_Executor_Lost | Steering_Uncertain
  | Cancellation_Uncertain | Storage_Failed

datatype cancel_confirmation = Not_Dispatched | Provider_Terminal

datatype operation_kind =
    Op_Admit | Op_Prepare | Op_Configure | Op_Turn | Op_Steer | Op_Request_Resolution
  | Op_Cancel | Op_Interrupt | Op_Session_Close | Op_Binding_Cleanup

datatype operation_disposition =
    Intent | Delegated | Delivered | Rejected | Interruption_Requested | Uncertain | Completed

datatype receipt_status =
    Status_Phase run_phase | Status_Recorded | Status_Omitted | Status_Retired

datatype observation_kind = Ob_State | Ob_Text | Ob_Request | Ob_Omitted

datatype notification_state =
    Nt_Collectible | Nt_Pending | Nt_Claimed | Nt_Accepted | Nt_Rejected | Nt_Expired | Nt_Dismissed

fun phase_name :: "run_phase \<Rightarrow> string" where
  "phase_name Queued = ''queued''"
| "phase_name Preparing = ''preparing''"
| "phase_name Running = ''running''"
| "phase_name Waiting = ''waiting''"
| "phase_name Settled = ''settled''"

fun completion_policy_name :: "completion_policy \<Rightarrow> string" where
  "completion_policy_name Collect = ''collect''"
| "completion_policy_name Next_Turn = ''next_turn''"
| "completion_policy_name Automatic = ''automatic''"

fun continuation_mode_name :: "continuation_mode \<Rightarrow> string" where
  "continuation_mode_name Continue_Next_Turn = ''next_turn''"
| "continuation_mode_name Continue_Follow_Up = ''follow_up''"

fun request_kind_name :: "request_kind \<Rightarrow> string" where
  "request_kind_name Approval = ''approval''"
| "request_kind_name Elicitation = ''elicitation''"

fun request_status_name :: "request_status \<Rightarrow> string" where
  "request_status_name Request_Waiting = ''waiting''"
| "request_status_name Resolution_Intended = ''resolution_intended''"
| "request_status_name Request_Resolved = ''resolved''"
| "request_status_name Request_Unavailable_State = ''unavailable''"

fun dispatch_name :: "dispatch_state \<Rightarrow> string" where
  "dispatch_name Dispatch_None = ''none''"
| "dispatch_name Dispatch_Intended = ''intended''"
| "dispatch_name Dispatch_Delegated = ''delegated''"

fun preparation_name :: "preparation_state \<Rightarrow> string" where
  "preparation_name Prep_None = ''none''"
| "preparation_name Prep_Intended = ''intended''"
| "preparation_name Prep_Completed = ''completed''"
| "preparation_name Prep_Uncertain = ''uncertain''"

fun recovery_reason_name :: "recovery_reason \<Rightarrow> string" where
  "recovery_reason_name Executor_Lost = ''executor_lost''"
| "recovery_reason_name Dispatch_Uncertain = ''dispatch_uncertain''"
| "recovery_reason_name Request_Executor_Lost = ''request_executor_lost''"
| "recovery_reason_name Steering_Uncertain = ''steering_uncertain''"
| "recovery_reason_name Cancellation_Uncertain = ''cancellation_uncertain''"
| "recovery_reason_name Storage_Failed = ''storage_failed''"

fun confirmation_name :: "cancel_confirmation \<Rightarrow> string" where
  "confirmation_name Not_Dispatched = ''not_dispatched''"
| "confirmation_name Provider_Terminal = ''provider_terminal''"

fun operation_kind_name :: "operation_kind \<Rightarrow> string" where
  "operation_kind_name Op_Admit = ''admit''"
| "operation_kind_name Op_Prepare = ''prepare''"
| "operation_kind_name Op_Configure = ''configure''"
| "operation_kind_name Op_Turn = ''turn''"
| "operation_kind_name Op_Steer = ''steer''"
| "operation_kind_name Op_Request_Resolution = ''request_resolution''"
| "operation_kind_name Op_Cancel = ''cancel''"
| "operation_kind_name Op_Interrupt = ''interrupt''"
| "operation_kind_name Op_Session_Close = ''session_close''"
| "operation_kind_name Op_Binding_Cleanup = ''binding_cleanup''"

fun disposition_name :: "operation_disposition \<Rightarrow> string" where
  "disposition_name Intent = ''intent''"
| "disposition_name Delegated = ''delegated''"
| "disposition_name Delivered = ''delivered''"
| "disposition_name Rejected = ''rejected''"
| "disposition_name Interruption_Requested = ''interruption_requested''"
| "disposition_name Uncertain = ''uncertain''"
| "disposition_name Completed = ''completed''"

fun receipt_status_name :: "receipt_status \<Rightarrow> string" where
  "receipt_status_name (Status_Phase p) = phase_name p"
| "receipt_status_name Status_Recorded = ''recorded''"
| "receipt_status_name Status_Omitted = ''omitted''"
| "receipt_status_name Status_Retired = ''retired''"

fun observation_kind_name :: "observation_kind \<Rightarrow> string" where
  "observation_kind_name Ob_State = ''state''"
| "observation_kind_name Ob_Text = ''text''"
| "observation_kind_name Ob_Request = ''request''"
| "observation_kind_name Ob_Omitted = ''omitted''"

fun notification_state_name :: "notification_state \<Rightarrow> string" where
  "notification_state_name Nt_Collectible = ''collectible''"
| "notification_state_name Nt_Pending = ''pending''"
| "notification_state_name Nt_Claimed = ''claimed''"
| "notification_state_name Nt_Accepted = ''accepted''"
| "notification_state_name Nt_Rejected = ''rejected''"
| "notification_state_name Nt_Expired = ''expired''"
| "notification_state_name Nt_Dismissed = ''dismissed''"

section \<open>Requests, failures and outcomes\<close>

record historical_request =
  hr_request_id :: string
  hr_request_kind :: request_kind
  hr_opened_at :: string
  hr_expires_at :: "string option"
  hr_state :: request_status

datatype result_kind = Artifact | Host_Result

record result_reference =
  rr_id :: string
  rr_kind :: result_kind
  rr_digest :: "string option"

record result_summary =
  rs_text :: string
  rs_truncated :: bool
  rs_references :: "result_reference list"

datatype failure_category =
    Rate_Limited | Quota_Exhausted | Budget_Exhausted | Execution_Limit | Context_Limit
  | Authentication | Permission | Invalid_Request | Overloaded | Transport | Provider
  | Protocol | Internal | Unknown_Category

datatype user_action = Authenticate | Review_Access | Change_Configuration | Review_Allowance

text \<open>The recovery hint a parent may see: \<open>wait_for_quota\<close> never carries a quota.\<close>

datatype public_recovery =
    Recover_Unknown
  | Recover_None
  | Recover_Retry "string option"
  | Recover_Wait_For_Quota
  | Recover_User_Action user_action

record public_failure =
  pf_category :: failure_category
  pf_code :: string
  pf_message :: string
  pf_recovery :: public_recovery

datatype run_outcome =
    Succeeded result_summary
  | Failed public_failure
  | Canceled cancel_confirmation
  | Recovery_Required_Outcome recovery_reason

fun failure_category_name :: "failure_category \<Rightarrow> string" where
  "failure_category_name Rate_Limited = ''rate_limited''"
| "failure_category_name Quota_Exhausted = ''quota_exhausted''"
| "failure_category_name Budget_Exhausted = ''budget_exhausted''"
| "failure_category_name Execution_Limit = ''execution_limit''"
| "failure_category_name Context_Limit = ''context_limit''"
| "failure_category_name Authentication = ''authentication''"
| "failure_category_name Permission = ''permission''"
| "failure_category_name Invalid_Request = ''invalid_request''"
| "failure_category_name Overloaded = ''overloaded''"
| "failure_category_name Transport = ''transport''"
| "failure_category_name Provider = ''provider''"
| "failure_category_name Protocol = ''protocol''"
| "failure_category_name Internal = ''internal''"
| "failure_category_name Unknown_Category = ''unknown''"

fun user_action_name :: "user_action \<Rightarrow> string" where
  "user_action_name Authenticate = ''authenticate''"
| "user_action_name Review_Access = ''review_access''"
| "user_action_name Change_Configuration = ''change_configuration''"
| "user_action_name Review_Allowance = ''review_allowance''"

definition json_of_request :: "historical_request \<Rightarrow> json" where
  "json_of_request r = J_Obj ([(''requestId'', J_Str (hr_request_id r)),
     (''requestKind'', J_Str (request_kind_name (hr_request_kind r))),
     (''openedAt'', J_Str (hr_opened_at r))] @ opt_member ''expiresAt'' J_Str (hr_expires_at r)
     @ [(''state'', J_Str (request_status_name (hr_state r)))])"

definition json_of_result_reference :: "result_reference \<Rightarrow> json" where
  "json_of_result_reference r = J_Obj ([(''id'', J_Str (rr_id r)),
     (''kind'', J_Str (case rr_kind r of Artifact \<Rightarrow> ''artifact'' | Host_Result \<Rightarrow> ''host_result''))]
     @ opt_member ''digest'' J_Str (rr_digest r))"

definition json_of_result_summary :: "result_summary \<Rightarrow> json" where
  "json_of_result_summary r = J_Obj [(''text'', J_Str (rs_text r)),
     (''truncated'', J_Bool (rs_truncated r)),
     (''references'', J_Arr (map json_of_result_reference (rs_references r)))]"

fun json_of_recovery :: "public_recovery \<Rightarrow> json" where
  "json_of_recovery Recover_Unknown = J_Obj [(''kind'', J_Str ''unknown'')]"
| "json_of_recovery Recover_None = J_Obj [(''kind'', J_Str ''none'')]"
| "json_of_recovery (Recover_Retry t) =
     J_Obj ((''kind'', J_Str ''retry'') # opt_member ''notBefore'' J_Str t)"
| "json_of_recovery Recover_Wait_For_Quota = J_Obj [(''kind'', J_Str ''wait_for_quota'')]"
| "json_of_recovery (Recover_User_Action a) =
     J_Obj [(''kind'', J_Str ''user_action''), (''action'', J_Str (user_action_name a))]"

definition json_of_failure :: "public_failure \<Rightarrow> json" where
  "json_of_failure f = J_Obj [(''category'', J_Str (failure_category_name (pf_category f))),
     (''code'', J_Str (pf_code f)), (''message'', J_Str (pf_message f)),
     (''recovery'', json_of_recovery (pf_recovery f))]"

fun json_of_outcome :: "run_outcome \<Rightarrow> json" where
  "json_of_outcome (Succeeded r) =
     J_Obj [(''kind'', J_Str ''succeeded''), (''result'', json_of_result_summary r)]"
| "json_of_outcome (Failed f) =
     J_Obj [(''kind'', J_Str ''failed''), (''error'', json_of_failure f)]"
| "json_of_outcome (Canceled c) =
     J_Obj [(''kind'', J_Str ''canceled''), (''confirmation'', J_Str (confirmation_name c))]"
| "json_of_outcome (Recovery_Required_Outcome r) =
     J_Obj [(''kind'', J_Str ''recovery_required''), (''reason'', J_Str (recovery_reason_name r))]"

definition is_recovery_outcome :: "run_outcome \<Rightarrow> bool" where
  "is_recovery_outcome o' \<longleftrightarrow> (case o' of Recovery_Required_Outcome r \<Rightarrow> True | _ \<Rightarrow> False)"

end
