(* ===== verification/Delegation_Records.thy ===== *)
theory Delegation_Records
  imports Delegation_Types
begin

text \<open>
  The rows a delegation store retains (tasks, runs, observations, operations, notifications,
  capacity), the limits, and the closed command type of \<open>store/types.ts\<close>.
\<close>

section \<open>Retained rows\<close>

record commit_receipt =
  rc_duplicate :: bool
  rc_status :: receipt_status
  rc_task_id :: string
  rc_task_revision :: int
  rc_run_id :: "string option"
  rc_run_revision :: "int option"
  rc_operation_id :: "string option"
  rc_notification_id :: "string option"

record retirement =
  rt_operation_id :: string
  rt_input_digest :: string
  rt_reason :: string

record task_record =
  tk_store_id :: string
  tk_task_id :: string
  tk_parent :: parent_scope
  tk_ancestor_task_id :: "string option"
  tk_depth :: int
  tk_policy_ceiling_ref :: string
  tk_completion_policy :: completion_policy
  tk_state :: task_state
  tk_revision :: int
  tk_latest_run_id :: string
  tk_run_count :: int
  tk_created_at :: string
  tk_retired_at :: "string option"
  tk_retirement :: "retirement option"

record finalization =
  fz_operation_id :: string
  fz_input_digest :: string
  fz_task_revision :: int
  fz_run_revision :: int

record run_record =
  rn_task_id :: string
  rn_run_id :: string
  rn_ordinal :: int
  rn_previous_run_id :: "string option"
  rn_continuation_mode :: "continuation_mode option"
  rn_admission_operation_id :: string
  rn_admitted_target :: target_reference
  rn_applied_target :: "target_reference option"
  rn_admitted_policy_revision :: int
  rn_admitted_origin_policy_revision :: int
  rn_input :: turn_input
  rn_owner_epoch :: int
  rn_phase :: run_phase
  rn_revision :: int
  rn_created_at :: string
  rn_deadline_at :: string
  rn_queued_start_deadline_at :: string
  rn_dispatch :: dispatch_state
  rn_preparation :: preparation_state
  rn_cancel_requested :: bool
  rn_pending_request :: "historical_request option"
  rn_outcome :: "run_outcome option"
  rn_settled_at :: "string option"
  rn_observation_index :: int
  rn_observation_count :: int
  rn_observation_bytes :: int
  rn_omitted_observations :: int
  rn_last_observation_digest :: "string option"
  rn_ordinary_operation_count :: int
  rn_recovery_reason :: "recovery_reason option"
  rn_finalization :: "finalization option"

record task_observation =
  ob_store_id :: string
  ob_task_id :: string
  ob_run_id :: string
  ob_index :: int
  ob_at :: string
  ob_kind :: observation_kind
  ob_phase :: "run_phase option"
  ob_text :: "string option"
  ob_request :: "historical_request option"
  ob_omitted :: "int option"

record completion_envelope =
  ev_store_id :: string
  ev_notification_id :: string
  ev_task_id :: string
  ev_run_id :: string
  ev_parent :: parent_scope
  ev_policy :: completion_policy
  ev_settled_at :: string
  ev_expires_at :: string
  ev_outcome :: run_outcome

record delivery_commit =
  dc_operation_id :: string
  dc_input_digest :: string
  dc_command_digest :: string
  dc_attempt_id :: string
  dc_attempt :: int
  dc_owner_epoch :: int
  dc_receipt :: commit_receipt

record notification_claim =
  nc_owner_epoch :: int
  nc_attempt_id :: string

record delivery_slots =
  ds_claim :: "delivery_commit option"
  ds_receipt :: "delivery_commit option"

record notification_record =
  nt_envelope :: completion_envelope
  nt_revision :: int
  nt_state :: notification_state
  nt_claim :: "notification_claim option"
  nt_attempts :: int
  nt_retry_at :: "string option"
  nt_inbox_id :: "string option"
  nt_accepted_at :: "string option"
  nt_reason :: "string option"
  nt_delivery :: "delivery_slots option"

record operation_request =
  or_request_id :: string
  or_request_kind :: request_kind

datatype request_eligibility = Eligible_Pending | Eligible_Unavailable

record operation_record =
  op_operation_id :: string
  op_parent :: parent_scope
  op_task_id :: string
  op_run_id :: string
  op_kind :: operation_kind
  op_input_digest :: string
  op_owner_epoch :: int
  op_disposition :: operation_disposition
  op_attempts :: int
  op_at :: string
  op_message :: "string option"
  op_request :: "operation_request option"
  op_request_state :: "request_eligibility option"
  op_receipt :: commit_receipt

record store_capacity =
  cp_tasks :: int
  cp_runs :: int
  cp_active_runs :: int
  cp_queued_runs :: int
  cp_retained_input_bytes :: int
  cp_observation_bytes :: int
  cp_ordinary_operations :: int
  cp_reserved_bytes :: int
  cp_critical_slots :: int

record delegation_limits =
  lm_max_active_runs :: int
  lm_max_queued_runs :: int
  lm_max_depth :: int
  lm_max_tasks :: int
  lm_max_runs :: int
  lm_max_runs_per_task :: int
  lm_max_input_bytes :: int
  lm_max_input_text_characters :: int
  lm_max_retained_input_bytes :: int
  lm_max_observation_bytes :: int
  lm_max_run_observation_bytes :: int
  lm_max_run_observations :: int
  lm_max_retained_observation_bytes :: int
  lm_max_ordinary_operations_per_run :: int
  lm_max_ordinary_operations :: int
  lm_run_timeout_ms :: int
  lm_queued_start_timeout_ms :: int
  lm_max_wait_ms :: int
  lm_control_timeout_ms :: int
  lm_notification_ttl_ms :: int
  lm_max_page_records :: int
  lm_max_page_bytes :: int

section \<open>Commands\<close>

record run_admission =
  ad_parent :: parent_scope
  ad_ancestor_task_id :: "string option"
  ad_depth :: int
  ad_policy_ceiling :: policy_ceiling
  ad_completion_policy :: completion_policy
  ad_run_id :: string
  ad_previous_run_id :: "string option"
  ad_continuation_mode :: "continuation_mode option"
  ad_target :: target_reference
  ad_policy_revision :: int
  ad_origin_policy_revision :: int
  ad_input :: turn_input
  ad_created_at :: string
  ad_deadline_at :: string
  ad_queued_start_deadline_at :: string

datatype blocked_reason = Busy | Authority_Unavailable | Capacity_Blocked

datatype final_delivery = Delivery_Rejected | Delivery_Expired | Delivery_Dismissed

datatype delivery_result =
    Accepted string string
  | Blocked blocked_reason string
  | Delivery_Uncertain_Result string
  | Final_Delivery final_delivery string

datatype request_change = Opened | Intend_Resolution | Resolved | Unavailable

text \<open>The members of one command beside its fence.  The two-valued \<open>attempt\<close> is kept as an
  optional integer, its schema bounds it.\<close>

datatype command_body =
    Admit run_admission
  | Dispatch_Intent operation_kind string "target_reference option" "int option"
  | Operation_Receipt operation_disposition string "string option" "request_eligibility option"
  | Observe task_observation
  | Request_State request_change historical_request string
  | Cancel string string
  | Settle run_outcome string
  | Delivery_Claim string int string string
  | Delivery_Receipt string int string delivery_result string
  | Retire_Recovery string string

record store_command =
  cm_owner :: owner_token
  cm_operation_id :: string
  cm_input_digest :: string
  cm_task_id :: string
  cm_expected_task_revision :: int
  cm_run_id :: "string option"
  cm_expected_run_revision :: "int option"
  cm_body :: command_body

section \<open>Snapshots, mutations and the planning context\<close>

record commit_current =
  cu_store_id :: string
  cu_owner :: "owner_token option"
  cu_limits :: delegation_limits
  cu_capacity :: store_capacity
  cu_task :: "task_record option"
  cu_runs :: "run_record list"
  cu_operation :: "operation_record option"
  cu_critical_operations :: "operation_record list"
  cu_notification :: "notification_record option"
  cu_ceiling :: "policy_ceiling option"
  cu_observation :: "task_observation option"
  cu_omission_observation :: "task_observation option"
  cu_run_id_exists :: bool

datatype row_mutation =
    Task_Row task_record
  | Run_Row run_record
  | Operation_Row operation_record
  | Observation_Row task_observation
  | Notification_Row notification_record
  | Ceiling_Row policy_ceiling
  | Capacity_Row store_capacity

record commit_plan =
  pl_mutations :: "row_mutation list"
  pl_receipt :: commit_receipt

record commit_context =
  cx_command :: store_command
  cx_current :: commit_current
  cx_task :: task_record
  cx_run :: "run_record option"
  cx_capacity :: store_capacity
  cx_mutations :: "row_mutation list"
  cx_receipt :: commit_receipt

end
