(* ===== verification/Delegation_Codec.thy ===== *)
theory Delegation_Codec
  imports Delegation_Records
begin

text \<open>
  The JSON value of each delegation record.  The source has no encoder of its own: these are the
  object literals and interface members of \<open>tasks/types.ts\<close> and \<open>store/types.ts\<close> as
  \<open>JSON.stringify\<close> sees them, an absent optional member being left out.  Canonical JSON sorts
  the members, so their order here does not matter.
\<close>

definition json_of_receipt :: "commit_receipt \<Rightarrow> json" where
  "json_of_receipt r = J_Obj ([(''duplicate'', J_Bool (rc_duplicate r)),
     (''status'', J_Str (receipt_status_name (rc_status r))), (''taskId'', J_Str (rc_task_id r)),
     (''taskRevision'', J_Num (rc_task_revision r))]
     @ opt_member ''runId'' J_Str (rc_run_id r) @ opt_member ''runRevision'' J_Num (rc_run_revision r)
     @ opt_member ''operationId'' J_Str (rc_operation_id r)
     @ opt_member ''notificationId'' J_Str (rc_notification_id r))"

definition json_of_retirement :: "retirement \<Rightarrow> json" where
  "json_of_retirement r = J_Obj [(''operationId'', J_Str (rt_operation_id r)),
     (''inputDigest'', J_Str (rt_input_digest r)), (''reason'', J_Str (rt_reason r))]"

definition task_state_name :: "task_state \<Rightarrow> string" where
  "task_state_name s = (case s of Task_Active \<Rightarrow> ''active'' | Task_Settled \<Rightarrow> ''settled''
     | Task_Recovery_Required \<Rightarrow> ''recovery_required'' | Task_Retired \<Rightarrow> ''retired'')"

definition json_of_task :: "task_record \<Rightarrow> json" where
  "json_of_task t = J_Obj ([(''storeId'', J_Str (tk_store_id t)), (''taskId'', J_Str (tk_task_id t)),
     (''parent'', json_of_parent (tk_parent t))]
     @ opt_member ''ancestorTaskId'' J_Str (tk_ancestor_task_id t)
     @ [(''depth'', J_Num (tk_depth t)), (''policyCeilingRef'', J_Str (tk_policy_ceiling_ref t)),
        (''completionPolicy'', J_Str (completion_policy_name (tk_completion_policy t))),
        (''state'', J_Str (task_state_name (tk_state t))), (''revision'', J_Num (tk_revision t)),
        (''latestRunId'', J_Str (tk_latest_run_id t)), (''runCount'', J_Num (tk_run_count t)),
        (''createdAt'', J_Str (tk_created_at t))]
     @ opt_member ''retiredAt'' J_Str (tk_retired_at t)
     @ opt_member ''retirement'' json_of_retirement (tk_retirement t))"

definition json_of_finalization :: "finalization \<Rightarrow> json" where
  "json_of_finalization f = J_Obj [(''operationId'', J_Str (fz_operation_id f)),
     (''inputDigest'', J_Str (fz_input_digest f)), (''taskRevision'', J_Num (fz_task_revision f)),
     (''runRevision'', J_Num (fz_run_revision f))]"

definition run_summary_members :: "run_record \<Rightarrow> (string \<times> json) list" where
  "run_summary_members r =
     [(''taskId'', J_Str (rn_task_id r)), (''runId'', J_Str (rn_run_id r)),
      (''ordinal'', J_Num (rn_ordinal r))]
     @ opt_member ''previousRunId'' J_Str (rn_previous_run_id r)
     @ opt_member ''continuationMode'' (J_Str \<circ> continuation_mode_name) (rn_continuation_mode r)
     @ [(''admissionOperationId'', J_Str (rn_admission_operation_id r)),
        (''admittedTarget'', json_of_target (rn_admitted_target r))]
     @ opt_member ''appliedTarget'' json_of_target (rn_applied_target r)
     @ [(''admittedPolicyRevision'', J_Num (rn_admitted_policy_revision r)),
        (''admittedOriginPolicyRevision'', J_Num (rn_admitted_origin_policy_revision r)),
        (''ownerEpoch'', J_Num (rn_owner_epoch r)), (''phase'', J_Str (phase_name (rn_phase r))),
        (''revision'', J_Num (rn_revision r)), (''createdAt'', J_Str (rn_created_at r)),
        (''deadlineAt'', J_Str (rn_deadline_at r)),
        (''queuedStartDeadlineAt'', J_Str (rn_queued_start_deadline_at r)),
        (''dispatch'', J_Str (dispatch_name (rn_dispatch r))),
        (''preparation'', J_Str (preparation_name (rn_preparation r))),
        (''cancelRequested'', J_Bool (rn_cancel_requested r))]
     @ opt_member ''pendingRequest'' json_of_request (rn_pending_request r)
     @ opt_member ''outcome'' json_of_outcome (rn_outcome r)
     @ opt_member ''settledAt'' J_Str (rn_settled_at r)
     @ [(''observationIndex'', J_Num (rn_observation_index r)),
        (''observationCount'', J_Num (rn_observation_count r)),
        (''observationBytes'', J_Num (rn_observation_bytes r)),
        (''omittedObservations'', J_Num (rn_omitted_observations r)),
        (''ordinaryOperationCount'', J_Num (rn_ordinary_operation_count r))]
     @ opt_member ''lastObservationDigest'' J_Str (rn_last_observation_digest r)
     @ opt_member ''recoveryReason'' (J_Str \<circ> recovery_reason_name) (rn_recovery_reason r)
     @ opt_member ''finalization'' json_of_finalization (rn_finalization r)"

definition json_of_run :: "run_record \<Rightarrow> json" where
  "json_of_run r = J_Obj (run_summary_members r @ [(''input'', json_of_turn_input (rn_input r))])"

text \<open>\<open>summarizeDelegationRun\<close> drops the input of a run; its JSON value keeps the rest.\<close>

definition json_of_run_summary :: "run_record \<Rightarrow> json" where
  "json_of_run_summary r = J_Obj (run_summary_members r)"

definition json_of_observation :: "task_observation \<Rightarrow> json" where
  "json_of_observation b = J_Obj ([(''storeId'', J_Str (ob_store_id b)),
     (''taskId'', J_Str (ob_task_id b)), (''runId'', J_Str (ob_run_id b)),
     (''index'', J_Num (ob_index b)), (''at'', J_Str (ob_at b)),
     (''kind'', J_Str (observation_kind_name (ob_kind b)))]
     @ opt_member ''phase'' (J_Str \<circ> phase_name) (ob_phase b)
     @ opt_member ''text'' J_Str (ob_text b) @ opt_member ''request'' json_of_request (ob_request b)
     @ opt_member ''omitted'' J_Num (ob_omitted b))"

definition json_of_envelope :: "completion_envelope \<Rightarrow> json" where
  "json_of_envelope v = J_Obj [(''storeId'', J_Str (ev_store_id v)),
     (''notificationId'', J_Str (ev_notification_id v)), (''taskId'', J_Str (ev_task_id v)),
     (''runId'', J_Str (ev_run_id v)), (''parent'', json_of_parent (ev_parent v)),
     (''policy'', J_Str (completion_policy_name (ev_policy v))),
     (''settledAt'', J_Str (ev_settled_at v)), (''expiresAt'', J_Str (ev_expires_at v)),
     (''outcome'', json_of_outcome (ev_outcome v))]"

definition json_of_delivery_commit :: "delivery_commit \<Rightarrow> json" where
  "json_of_delivery_commit d = J_Obj [(''operationId'', J_Str (dc_operation_id d)),
     (''inputDigest'', J_Str (dc_input_digest d)), (''commandDigest'', J_Str (dc_command_digest d)),
     (''attemptId'', J_Str (dc_attempt_id d)), (''attempt'', J_Num (dc_attempt d)),
     (''ownerEpoch'', J_Num (dc_owner_epoch d)), (''receipt'', json_of_receipt (dc_receipt d))]"

definition json_of_claim :: "notification_claim \<Rightarrow> json" where
  "json_of_claim c = J_Obj [(''ownerEpoch'', J_Num (nc_owner_epoch c)),
     (''attemptId'', J_Str (nc_attempt_id c))]"

definition json_of_slots :: "delivery_slots \<Rightarrow> json" where
  "json_of_slots d = J_Obj (opt_member ''claim'' json_of_delivery_commit (ds_claim d)
     @ opt_member ''receipt'' json_of_delivery_commit (ds_receipt d))"

definition json_of_notification :: "notification_record \<Rightarrow> json" where
  "json_of_notification n = J_Obj ([(''envelope'', json_of_envelope (nt_envelope n)),
     (''revision'', J_Num (nt_revision n)), (''state'', J_Str (notification_state_name (nt_state n)))]
     @ opt_member ''claim'' json_of_claim (nt_claim n) @ [(''attempts'', J_Num (nt_attempts n))]
     @ opt_member ''retryAt'' J_Str (nt_retry_at n) @ opt_member ''inboxId'' J_Str (nt_inbox_id n)
     @ opt_member ''acceptedAt'' J_Str (nt_accepted_at n) @ opt_member ''reason'' J_Str (nt_reason n)
     @ opt_member ''delivery'' json_of_slots (nt_delivery n))"

definition json_of_operation_request :: "operation_request \<Rightarrow> json" where
  "json_of_operation_request r = J_Obj [(''requestId'', J_Str (or_request_id r)),
     (''requestKind'', J_Str (request_kind_name (or_request_kind r)))]"

fun eligibility_name :: "request_eligibility \<Rightarrow> string" where
  "eligibility_name Eligible_Pending = ''pending''"
| "eligibility_name Eligible_Unavailable = ''unavailable''"

definition json_of_operation :: "operation_record \<Rightarrow> json" where
  "json_of_operation x = J_Obj ([(''operationId'', J_Str (op_operation_id x)),
     (''parent'', json_of_parent (op_parent x)), (''taskId'', J_Str (op_task_id x)),
     (''runId'', J_Str (op_run_id x)), (''kind'', J_Str (operation_kind_name (op_kind x))),
     (''inputDigest'', J_Str (op_input_digest x)), (''ownerEpoch'', J_Num (op_owner_epoch x)),
     (''disposition'', J_Str (disposition_name (op_disposition x))),
     (''attempts'', J_Num (op_attempts x)), (''at'', J_Str (op_at x))]
     @ opt_member ''message'' J_Str (op_message x)
     @ opt_member ''request'' json_of_operation_request (op_request x)
     @ opt_member ''requestState'' (J_Str \<circ> eligibility_name) (op_request_state x)
     @ [(''receipt'', json_of_receipt (op_receipt x))])"

definition json_of_capacity :: "store_capacity \<Rightarrow> json" where
  "json_of_capacity c = J_Obj [(''tasks'', J_Num (cp_tasks c)), (''runs'', J_Num (cp_runs c)),
     (''activeRuns'', J_Num (cp_active_runs c)), (''queuedRuns'', J_Num (cp_queued_runs c)),
     (''retainedInputBytes'', J_Num (cp_retained_input_bytes c)),
     (''observationBytes'', J_Num (cp_observation_bytes c)),
     (''ordinaryOperations'', J_Num (cp_ordinary_operations c)),
     (''reservedBytes'', J_Num (cp_reserved_bytes c)),
     (''criticalSlots'', J_Num (cp_critical_slots c))]"

section \<open>Commands\<close>

definition json_of_admission :: "run_admission \<Rightarrow> json" where
  "json_of_admission a = J_Obj ([(''parent'', json_of_parent (ad_parent a))]
     @ opt_member ''ancestorTaskId'' J_Str (ad_ancestor_task_id a)
     @ [(''depth'', J_Num (ad_depth a)), (''policyCeiling'', json_of_ceiling (ad_policy_ceiling a)),
        (''completionPolicy'', J_Str (completion_policy_name (ad_completion_policy a))),
        (''runId'', J_Str (ad_run_id a))]
     @ opt_member ''previousRunId'' J_Str (ad_previous_run_id a)
     @ opt_member ''continuationMode'' (J_Str \<circ> continuation_mode_name) (ad_continuation_mode a)
     @ [(''target'', json_of_target (ad_target a)), (''policyRevision'', J_Num (ad_policy_revision a)),
        (''originPolicyRevision'', J_Num (ad_origin_policy_revision a)),
        (''input'', json_of_turn_input (ad_input a)), (''createdAt'', J_Str (ad_created_at a)),
        (''deadlineAt'', J_Str (ad_deadline_at a)),
        (''queuedStartDeadlineAt'', J_Str (ad_queued_start_deadline_at a))])"

fun blocked_reason_name :: "blocked_reason \<Rightarrow> string" where
  "blocked_reason_name Busy = ''busy''"
| "blocked_reason_name Authority_Unavailable = ''authority_unavailable''"
| "blocked_reason_name Capacity_Blocked = ''capacity''"

fun final_delivery_name :: "final_delivery \<Rightarrow> string" where
  "final_delivery_name Delivery_Rejected = ''rejected''"
| "final_delivery_name Delivery_Expired = ''expired''"
| "final_delivery_name Delivery_Dismissed = ''dismissed''"

fun json_of_delivery_result :: "delivery_result \<Rightarrow> json" where
  "json_of_delivery_result (Accepted inbox at) = J_Obj [(''status'', J_Str ''accepted''),
     (''inboxId'', J_Str inbox), (''acceptedAt'', J_Str at)]"
| "json_of_delivery_result (Blocked r at) = J_Obj [(''status'', J_Str ''blocked''),
     (''reason'', J_Str (blocked_reason_name r)), (''retryAt'', J_Str at)]"
| "json_of_delivery_result (Delivery_Uncertain_Result at) =
     J_Obj [(''status'', J_Str ''uncertain''), (''retryAt'', J_Str at)]"
| "json_of_delivery_result (Final_Delivery f r) =
     J_Obj [(''status'', J_Str (final_delivery_name f)), (''reason'', J_Str r)]"

fun request_change_name :: "request_change \<Rightarrow> string" where
  "request_change_name Opened = ''opened''"
| "request_change_name Intend_Resolution = ''resolution_intended''"
| "request_change_name Resolved = ''resolved''"
| "request_change_name Unavailable = ''unavailable''"

fun body_members :: "command_body \<Rightarrow> (string \<times> json) list" where
  "body_members (Admit a) = [(''kind'', J_Str ''admit''), (''admission'', json_of_admission a)]"
| "body_members (Dispatch_Intent k at target attempt) =
     [(''kind'', J_Str ''dispatch_intent''), (''operationKind'', J_Str (operation_kind_name k)),
      (''at'', J_Str at)] @ opt_member ''appliedTarget'' json_of_target target
     @ opt_member ''attempt'' J_Num attempt"
| "body_members (Operation_Receipt d at msg rs) =
     [(''kind'', J_Str ''operation_receipt''), (''disposition'', J_Str (disposition_name d)),
      (''at'', J_Str at)] @ opt_member ''message'' J_Str msg
     @ opt_member ''requestState'' (J_Str \<circ> eligibility_name) rs"
| "body_members (Observe b) =
     [(''kind'', J_Str ''observe''), (''observation'', json_of_observation b)]"
| "body_members (Request_State s r at) =
     [(''kind'', J_Str ''request_state''), (''state'', J_Str (request_change_name s)),
      (''request'', json_of_request r), (''at'', J_Str at)]"
| "body_members (Cancel at reason) =
     [(''kind'', J_Str ''cancel''), (''at'', J_Str at), (''reason'', J_Str reason)]"
| "body_members (Settle out at) =
     [(''kind'', J_Str ''settle''), (''outcome'', json_of_outcome out), (''at'', J_Str at)]"
| "body_members (Delivery_Claim n revision attempt at) =
     [(''kind'', J_Str ''delivery_claim''), (''notificationId'', J_Str n),
      (''expectedNotificationRevision'', J_Num revision), (''attemptId'', J_Str attempt), (''at'', J_Str at)]"
| "body_members (Delivery_Receipt n revision attempt result at) =
     [(''kind'', J_Str ''delivery_receipt''), (''notificationId'', J_Str n),
      (''expectedNotificationRevision'', J_Num revision), (''attemptId'', J_Str attempt),
      (''result'', json_of_delivery_result result), (''at'', J_Str at)]"
| "body_members (Retire_Recovery reason at) =
     [(''kind'', J_Str ''retire_recovery''), (''reason'', J_Str reason), (''at'', J_Str at)]"

definition json_of_command :: "store_command \<Rightarrow> json" where
  "json_of_command c = J_Obj ([(''owner'', json_of_owner (cm_owner c)),
     (''operationId'', J_Str (cm_operation_id c)), (''inputDigest'', J_Str (cm_input_digest c)),
     (''taskId'', J_Str (cm_task_id c)),
     (''expectedTaskRevision'', J_Num (cm_expected_task_revision c))]
     @ opt_member ''runId'' J_Str (cm_run_id c)
     @ opt_member ''expectedRunRevision'' J_Num (cm_expected_run_revision c)
     @ body_members (cm_body c))"

section \<open>Mutations\<close>

fun json_of_mutation :: "row_mutation \<Rightarrow> json" where
  "json_of_mutation (Task_Row t) = J_Obj [(''kind'', J_Str ''task''), (''value'', json_of_task t)]"
| "json_of_mutation (Run_Row r) = J_Obj [(''kind'', J_Str ''run''), (''value'', json_of_run r)]"
| "json_of_mutation (Operation_Row x) =
     J_Obj [(''kind'', J_Str ''operation''), (''value'', json_of_operation x)]"
| "json_of_mutation (Observation_Row b) =
     J_Obj [(''kind'', J_Str ''observation''), (''value'', json_of_observation b)]"
| "json_of_mutation (Notification_Row n) =
     J_Obj [(''kind'', J_Str ''notification''), (''value'', json_of_notification n)]"
| "json_of_mutation (Ceiling_Row c) =
     J_Obj [(''kind'', J_Str ''ceiling''), (''value'', json_of_ceiling c)]"
| "json_of_mutation (Capacity_Row c) =
     J_Obj [(''kind'', J_Str ''capacity''), (''value'', json_of_capacity c)]"

end
