(* ===== verification/Delegation_Schemas.thy ===== *)
theory Delegation_Schemas
  imports Delegation_Codec
begin

text \<open>
  The delegation schemas and parsers: \<open>tasks/schemas.ts\<close>, \<open>tasks/parse.ts\<close>,
  \<open>shared/schemas.ts\<close>, \<open>shared/limits.ts\<close> and the command schema of \<open>store/parse.ts\<close>.
  A parser captures its input under the bounds of \<open>bounds.ts\<close>, runs the schema, and returns
  the value itself; an object of the declared shape is a record here, so a schema is the
  predicate that its refinements state.
\<close>

section \<open>Scalars\<close>

definition canonical_id :: "string \<Rightarrow> bool" where
  "canonical_id s \<longleftrightarrow> canonical_opaque_string 256 s"

definition store_id_schema :: "externals \<Rightarrow> string \<Rightarrow> bool" where
  "store_id_schema ext s \<longleftrightarrow> zod_uuid ext s"

definition opaque_id :: "string \<Rightarrow> bool" where
  "opaque_id s \<longleftrightarrow> canonical_id s \<and> js_len s \<le> 128 \<and> utf8_bytes s \<le> 128"

definition at_schema :: "externals \<Rightarrow> string \<Rightarrow> bool" where
  "at_schema ext s \<longleftrightarrow> zod_iso_datetime ext s"

definition revision_schema :: "int \<Rightarrow> bool" where
  "revision_schema n \<longleftrightarrow> positive_safe n"

definition count_schema :: "int \<Rightarrow> bool" where
  "count_schema n \<longleftrightarrow> 0 \<le> n \<and> n \<le> max_safe_integer"

definition optional :: "('a \<Rightarrow> bool) \<Rightarrow> 'a option \<Rightarrow> bool" where
  "optional p x \<longleftrightarrow> (case x of None \<Rightarrow> True | Some v \<Rightarrow> p v)"

lemma optional_simps [simp]: "optional p None" "optional p (Some v) \<longleftrightarrow> p v"
  by (simp_all add: optional_def)

section \<open>Records\<close>

definition parent_scope_schema :: "parent_scope \<Rightarrow> bool" where
  "parent_scope_schema p \<longleftrightarrow>
     opaque_id (ps_parent_id p) \<and> opaque_id (ps_scope_id p) \<and> revision_schema (ps_revision p)"

definition owner_token_schema :: "externals \<Rightarrow> owner_token \<Rightarrow> bool" where
  "owner_token_schema ext t \<longleftrightarrow> store_id_schema ext (ot_store_id t) \<and>
     revision_schema (ot_epoch t) \<and> store_id_schema ext (ot_nonce t)"

definition target_reference_schema :: "target_reference \<Rightarrow> bool" where
  "target_reference_schema t \<longleftrightarrow>
     canonical_id (tr_catalog_id t) \<and> revision_schema (tr_catalog_revision t) \<and>
     canonical_id (tr_target_id t) \<and> revision_schema (tr_target_revision t) \<and>
     canonical_id (tr_source_id t) \<and> revision_schema (tr_source_revision t)"

definition policy_ceiling_schema :: "policy_ceiling \<Rightarrow> bool" where
  "policy_ceiling_schema c \<longleftrightarrow> hex_digest (pc_ceiling_id c) \<and> parent_scope_schema (pc_origin c) \<and>
     list_all target_reference_schema (pc_targets c) \<and> js_len (pc_targets c) \<le> 1000"

definition historical_request_schema :: "externals \<Rightarrow> historical_request \<Rightarrow> bool" where
  "historical_request_schema ext r \<longleftrightarrow> canonical_id (hr_request_id r) \<and>
     at_schema ext (hr_opened_at r) \<and> optional (at_schema ext) (hr_expires_at r)"

definition result_reference_schema :: "result_reference \<Rightarrow> bool" where
  "result_reference_schema r \<longleftrightarrow> canonical_id (rr_id r) \<and> optional hex_digest (rr_digest r) \<and>
     delegation_data_bytes (json_of_result_reference r) \<le> 256"

definition public_recovery_schema :: "externals \<Rightarrow> public_recovery \<Rightarrow> bool" where
  "public_recovery_schema ext r \<longleftrightarrow>
     (case r of Recover_Retry t \<Rightarrow> optional (zod_iso_datetime_offset ext) t | _ \<Rightarrow> True)"

definition public_failure_schema :: "externals \<Rightarrow> public_failure \<Rightarrow> bool" where
  "public_failure_schema ext f \<longleftrightarrow>
     canonical_non_blank_string 128 (pf_code f) \<and> js_len (pf_message f) \<le> 2048 \<and>
     public_recovery_schema ext (pf_recovery f) \<and>
     delegation_data_bytes (json_of_failure f) \<le> 2048"

definition result_summary_schema :: "result_summary \<Rightarrow> bool" where
  "result_summary_schema r \<longleftrightarrow> js_len (rs_text r) \<le> 8192 \<and> utf8_bytes (rs_text r) \<le> 8192 \<and>
     list_all result_reference_schema (rs_references r) \<and> js_len (rs_references r) \<le> 8 \<and>
     delegation_data_bytes (json_of_result_summary r) \<le> 8192"

definition run_outcome_schema :: "externals \<Rightarrow> run_outcome \<Rightarrow> bool" where
  "run_outcome_schema ext out \<longleftrightarrow>
     (case out of
        Succeeded r \<Rightarrow> result_summary_schema r
      | Failed f \<Rightarrow> public_failure_schema ext f
      | _ \<Rightarrow> True)"

definition retirement_schema :: "externals \<Rightarrow> retirement \<Rightarrow> bool" where
  "retirement_schema ext r \<longleftrightarrow> store_id_schema ext (rt_operation_id r) \<and>
     hex_digest (rt_input_digest r) \<and> js_len (rt_reason r) \<le> 1000"

definition task_record_schema :: "externals \<Rightarrow> task_record \<Rightarrow> bool" where
  "task_record_schema ext t \<longleftrightarrow>
     store_id_schema ext (tk_store_id t) \<and> store_id_schema ext (tk_task_id t) \<and>
     parent_scope_schema (tk_parent t) \<and> optional (store_id_schema ext) (tk_ancestor_task_id t) \<and>
     revision_schema (tk_depth t) \<and> hex_digest (tk_policy_ceiling_ref t) \<and>
     revision_schema (tk_revision t) \<and> store_id_schema ext (tk_latest_run_id t) \<and>
     revision_schema (tk_run_count t) \<and> at_schema ext (tk_created_at t) \<and>
     optional (at_schema ext) (tk_retired_at t) \<and> optional (retirement_schema ext) (tk_retirement t)"

definition finalization_schema :: "externals \<Rightarrow> finalization \<Rightarrow> bool" where
  "finalization_schema ext f \<longleftrightarrow> store_id_schema ext (fz_operation_id f) \<and>
     hex_digest (fz_input_digest f) \<and> count_schema (fz_task_revision f) \<and>
     count_schema (fz_run_revision f)"

definition run_members_schema :: "externals \<Rightarrow> run_record \<Rightarrow> bool" where
  "run_members_schema ext r \<longleftrightarrow>
     store_id_schema ext (rn_task_id r) \<and> store_id_schema ext (rn_run_id r) \<and>
     revision_schema (rn_ordinal r) \<and> optional (store_id_schema ext) (rn_previous_run_id r) \<and>
     store_id_schema ext (rn_admission_operation_id r) \<and>
     target_reference_schema (rn_admitted_target r) \<and>
     optional target_reference_schema (rn_applied_target r) \<and>
     revision_schema (rn_admitted_policy_revision r) \<and>
     revision_schema (rn_admitted_origin_policy_revision r) \<and>
     valid_turn_input ext (rn_input r) \<and> revision_schema (rn_owner_epoch r) \<and>
     revision_schema (rn_revision r) \<and> at_schema ext (rn_created_at r) \<and>
     at_schema ext (rn_deadline_at r) \<and> at_schema ext (rn_queued_start_deadline_at r) \<and>
     optional (historical_request_schema ext) (rn_pending_request r) \<and>
     optional (run_outcome_schema ext) (rn_outcome r) \<and> optional (at_schema ext) (rn_settled_at r) \<and>
     count_schema (rn_observation_index r) \<and> count_schema (rn_observation_count r) \<and>
     count_schema (rn_observation_bytes r) \<and> count_schema (rn_omitted_observations r) \<and>
     count_schema (rn_ordinary_operation_count r) \<and>
     optional hex_digest (rn_last_observation_digest r) \<and>
     optional (finalization_schema ext) (rn_finalization r)"

definition run_record_schema :: "externals \<Rightarrow> run_record \<Rightarrow> bool" where
  "run_record_schema ext r \<longleftrightarrow>
     run_members_schema ext r \<and>
     (rn_previous_run_id r \<noteq> None) = (rn_continuation_mode r \<noteq> None) \<and>
     (rn_phase r = Settled) = (rn_outcome r \<noteq> None) \<and>
     (rn_phase r = Settled) = (rn_settled_at r \<noteq> None) \<and>
     delegation_data_bytes (json_of_run r) \<le> 65536 \<and>
     input_bytes (rn_input r) \<le> 24576 \<and> input_characters (rn_input r) \<le> 16000"

definition observation_schema :: "externals \<Rightarrow> task_observation \<Rightarrow> bool" where
  "observation_schema ext b \<longleftrightarrow>
     store_id_schema ext (ob_store_id b) \<and> store_id_schema ext (ob_task_id b) \<and>
     store_id_schema ext (ob_run_id b) \<and> revision_schema (ob_index b) \<and> at_schema ext (ob_at b) \<and>
     optional (\<lambda>s. js_len s \<le> 8192) (ob_text b) \<and>
     optional (historical_request_schema ext) (ob_request b) \<and> optional revision_schema (ob_omitted b) \<and>
     delegation_data_bytes (json_of_observation b) \<le> 8192"

definition completion_envelope_schema :: "externals \<Rightarrow> completion_envelope \<Rightarrow> bool" where
  "completion_envelope_schema ext v \<longleftrightarrow>
     store_id_schema ext (ev_store_id v) \<and> store_id_schema ext (ev_notification_id v) \<and>
     store_id_schema ext (ev_task_id v) \<and> store_id_schema ext (ev_run_id v) \<and>
     parent_scope_schema (ev_parent v) \<and> at_schema ext (ev_settled_at v) \<and>
     at_schema ext (ev_expires_at v) \<and> run_outcome_schema ext (ev_outcome v) \<and>
     delegation_data_bytes (json_of_envelope v) \<le> 12288"

definition receipt_schema :: "externals \<Rightarrow> commit_receipt \<Rightarrow> bool" where
  "receipt_schema ext r \<longleftrightarrow>
     store_id_schema ext (rc_task_id r) \<and> revision_schema (rc_task_revision r) \<and>
     optional (store_id_schema ext) (rc_run_id r) \<and> optional revision_schema (rc_run_revision r) \<and>
     optional (store_id_schema ext) (rc_operation_id r) \<and>
     optional (store_id_schema ext) (rc_notification_id r)"

definition delivery_commit_schema :: "externals \<Rightarrow> delivery_commit \<Rightarrow> bool" where
  "delivery_commit_schema ext d \<longleftrightarrow>
     store_id_schema ext (dc_operation_id d) \<and> hex_digest (dc_input_digest d) \<and>
     hex_digest (dc_command_digest d) \<and> store_id_schema ext (dc_attempt_id d) \<and>
     revision_schema (dc_attempt d) \<and> revision_schema (dc_owner_epoch d) \<and>
     receipt_schema ext (dc_receipt d) \<and> delegation_data_bytes (json_of_delivery_commit d) \<le> 2048"

text \<open>The document of an outcome and its notification that the final reservation must hold.\<close>

definition json_of_final_slot :: "run_outcome \<Rightarrow> notification_record \<Rightarrow> json" where
  "json_of_final_slot out n =
     J_Obj [(''outcome'', json_of_outcome out), (''notification'', json_of_notification n)]"

definition notification_schema :: "externals \<Rightarrow> notification_record \<Rightarrow> bool" where
  "notification_schema ext n \<longleftrightarrow>
     completion_envelope_schema ext (nt_envelope n) \<and> revision_schema (nt_revision n) \<and>
     optional (\<lambda>c. revision_schema (nc_owner_epoch c) \<and> store_id_schema ext (nc_attempt_id c)) (nt_claim n) \<and>
     count_schema (nt_attempts n) \<and> optional (at_schema ext) (nt_retry_at n) \<and>
     optional opaque_id (nt_inbox_id n) \<and> optional (at_schema ext) (nt_accepted_at n) \<and>
     optional (\<lambda>s. js_len s \<le> 1000) (nt_reason n) \<and>
     optional (\<lambda>d. optional (delivery_commit_schema ext) (ds_claim d) \<and>
                   optional (delivery_commit_schema ext) (ds_receipt d)) (nt_delivery n) \<and>
     (nt_state n = Nt_Claimed) = (nt_claim n \<noteq> None) \<and>
     delegation_data_bytes (json_of_final_slot (ev_outcome (nt_envelope n)) n) \<le> 32768"

section \<open>Parsers\<close>

definition parse_delegation :: "('a \<Rightarrow> bool) \<Rightarrow> ('a \<Rightarrow> json) \<Rightarrow> 'a \<Rightarrow> delegation_failure + 'a" where
  "parse_delegation schema encode v =
     and_then (copy_bounded_delegation_data (encode v)) (\<lambda>_.
       if schema v then Inr v else invalid_delegation_data Schema_Issue)"

lemma parse_delegation_Inr [result_simps]:
  "parse_delegation schema encode v = Inr w \<longleftrightarrow>
     w = v \<and> schema v \<and> copy_bounded_delegation_data (encode v) = Inr (encode v)"
  by (auto simp: parse_delegation_def result_simps dest: copy_bounded_identity)

definition parse_delegation_owner_token :: "externals \<Rightarrow> owner_token \<Rightarrow> delegation_failure + owner_token" where
  "parse_delegation_owner_token ext = parse_delegation (owner_token_schema ext) json_of_owner"

definition parse_delegation_task_record :: "externals \<Rightarrow> task_record \<Rightarrow> delegation_failure + task_record" where
  "parse_delegation_task_record ext = parse_delegation (task_record_schema ext) json_of_task"

definition parse_delegation_run_record :: "externals \<Rightarrow> run_record \<Rightarrow> delegation_failure + run_record" where
  "parse_delegation_run_record ext = parse_delegation (run_record_schema ext) json_of_run"

definition parse_delegation_completion_envelope ::
    "externals \<Rightarrow> completion_envelope \<Rightarrow> delegation_failure + completion_envelope" where
  "parse_delegation_completion_envelope ext =
     parse_delegation (completion_envelope_schema ext) json_of_envelope"

definition parse_delegation_notification_record ::
    "externals \<Rightarrow> notification_record \<Rightarrow> delegation_failure + notification_record" where
  "parse_delegation_notification_record ext =
     parse_delegation (notification_schema ext) json_of_notification"

lemmas parse_record_simps =
  parse_delegation_owner_token_def parse_delegation_task_record_def
  parse_delegation_run_record_def parse_delegation_completion_envelope_def
  parse_delegation_notification_record_def parse_delegation_Inr

end
