(* ===== verification/Delegation_Limits.thy ===== *)
theory Delegation_Limits
  imports Delegation_Schemas
begin

text \<open>
  \<open>shared/limits.ts\<close>: the operational defaults, the reservations of the store format, and
  \<open>parseDelegationLimits\<close>, which fills every absent member of its input with its default and
  refuses limits that contradict each other, the record format or the integer range.
\<close>

definition delegation_final_reservation_bytes :: int where
  "delegation_final_reservation_bytes = 32768"

definition delegation_failure_bytes :: int where
  "delegation_failure_bytes = 2048"

definition delegation_critical_slot_bytes :: int where
  "delegation_critical_slot_bytes = 2048"

definition delegation_critical_slots :: int where
  "delegation_critical_slots = 4"

definition delegation_run_reservation_bytes :: int where
  "delegation_run_reservation_bytes = 40960"

definition default_delegation_limits :: delegation_limits where
  "default_delegation_limits = \<lparr>
     lm_max_active_runs = 4, lm_max_queued_runs = 32, lm_max_depth = 2, lm_max_tasks = 256,
     lm_max_runs = 1024, lm_max_runs_per_task = 8, lm_max_input_bytes = 24576,
     lm_max_input_text_characters = 16000, lm_max_retained_input_bytes = 16777216,
     lm_max_observation_bytes = 8192, lm_max_run_observation_bytes = 1048576,
     lm_max_run_observations = 2048, lm_max_retained_observation_bytes = 33554432,
     lm_max_ordinary_operations_per_run = 32, lm_max_ordinary_operations = 8192,
     lm_run_timeout_ms = 1800000, lm_queued_start_timeout_ms = 300000, lm_max_wait_ms = 30000,
     lm_control_timeout_ms = 10000, lm_notification_ttl_ms = 86400000,
     lm_max_page_records = 100, lm_max_page_bytes = 65536 \<rparr>"

definition limit_members :: "delegation_limits \<Rightarrow> (string \<times> int) list" where
  "limit_members l =
     [(''maxActiveRuns'', lm_max_active_runs l), (''maxQueuedRuns'', lm_max_queued_runs l),
      (''maxDepth'', lm_max_depth l), (''maxTasks'', lm_max_tasks l), (''maxRuns'', lm_max_runs l),
      (''maxRunsPerTask'', lm_max_runs_per_task l), (''maxInputBytes'', lm_max_input_bytes l),
      (''maxInputTextCharacters'', lm_max_input_text_characters l),
      (''maxRetainedInputBytes'', lm_max_retained_input_bytes l),
      (''maxObservationBytes'', lm_max_observation_bytes l),
      (''maxRunObservationBytes'', lm_max_run_observation_bytes l),
      (''maxRunObservations'', lm_max_run_observations l),
      (''maxRetainedObservationBytes'', lm_max_retained_observation_bytes l),
      (''maxOrdinaryOperationsPerRun'', lm_max_ordinary_operations_per_run l),
      (''maxOrdinaryOperations'', lm_max_ordinary_operations l),
      (''runTimeoutMs'', lm_run_timeout_ms l),
      (''queuedStartTimeoutMs'', lm_queued_start_timeout_ms l), (''maxWaitMs'', lm_max_wait_ms l),
      (''controlTimeoutMs'', lm_control_timeout_ms l),
      (''notificationTtlMs'', lm_notification_ttl_ms l),
      (''maxPageRecords'', lm_max_page_records l), (''maxPageBytes'', lm_max_page_bytes l)]"

definition json_of_limits :: "delegation_limits \<Rightarrow> json" where
  "json_of_limits l = J_Obj (map (\<lambda>(k, n). (k, J_Num n)) (limit_members l))"

section \<open>The schema\<close>

definition limit_keys :: "string list" where
  "limit_keys = map fst (limit_members default_delegation_limits)"

text \<open>\<open>finite.default(value)\<close> for one key.\<close>

definition read_limit :: "(string \<times> json) list \<Rightarrow> string \<Rightarrow> delegation_failure + int" where
  "read_limit kvs k =
     (case map_of kvs k of
        None \<Rightarrow> Inr (the (map_of (limit_members default_delegation_limits) k))
      | Some (J_Num n) \<Rightarrow> if positive_safe n then Inr n else invalid_delegation_data Schema_Issue
      | Some _ \<Rightarrow> invalid_delegation_data Schema_Issue)"

fun read_limits :: "(string \<times> json) list \<Rightarrow> string list \<Rightarrow> delegation_failure + int list" where
  "read_limits kvs [] = Inr []"
| "read_limits kvs (k # ks) =
     and_then (read_limit kvs k) (\<lambda>n. and_then (read_limits kvs ks) (\<lambda>ns. Inr (n # ns)))"

definition limits_of_values :: "int list \<Rightarrow> delegation_limits" where
  "limits_of_values v = \<lparr>
     lm_max_active_runs = v ! 0, lm_max_queued_runs = v ! 1, lm_max_depth = v ! 2,
     lm_max_tasks = v ! 3, lm_max_runs = v ! 4, lm_max_runs_per_task = v ! 5,
     lm_max_input_bytes = v ! 6, lm_max_input_text_characters = v ! 7,
     lm_max_retained_input_bytes = v ! 8, lm_max_observation_bytes = v ! 9,
     lm_max_run_observation_bytes = v ! 10, lm_max_run_observations = v ! 11,
     lm_max_retained_observation_bytes = v ! 12, lm_max_ordinary_operations_per_run = v ! 13,
     lm_max_ordinary_operations = v ! 14, lm_run_timeout_ms = v ! 15,
     lm_queued_start_timeout_ms = v ! 16, lm_max_wait_ms = v ! 17, lm_control_timeout_ms = v ! 18,
     lm_notification_ttl_ms = v ! 19, lm_max_page_records = v ! 20, lm_max_page_bytes = v ! 21 \<rparr>"

definition limits_ordered :: "delegation_limits \<Rightarrow> bool" where
  "limits_ordered l \<longleftrightarrow>
     lm_max_active_runs l \<le> lm_max_runs l \<and> lm_max_queued_runs l \<le> lm_max_runs l \<and>
     lm_max_tasks l \<le> lm_max_runs l \<and> lm_max_runs_per_task l \<le> lm_max_runs l \<and>
     lm_max_input_bytes l \<le> lm_max_retained_input_bytes l"

definition limits_format :: "delegation_limits \<Rightarrow> bool" where
  "limits_format l \<longleftrightarrow>
     lm_max_page_records l \<le> 100 \<and> lm_max_page_bytes l \<le> 65536 \<and> lm_max_input_bytes l \<le> 24576 \<and>
     lm_max_input_text_characters l \<le> 16000 \<and> lm_max_observation_bytes l \<le> 8192"

definition limits_derivable :: "delegation_limits \<Rightarrow> bool" where
  "limits_derivable l \<longleftrightarrow>
     lm_max_runs l \<le> max_safe_integer div delegation_run_reservation_bytes \<and>
     lm_max_ordinary_operations l \<le> max_safe_integer div delegation_critical_slot_bytes \<and>
     lm_max_run_observations l \<le> max_safe_integer div lm_max_observation_bytes l"

definition limits_timers :: "delegation_limits \<Rightarrow> bool" where
  "limits_timers l \<longleftrightarrow>
     lm_run_timeout_ms l \<le> 2147483647 \<and> lm_queued_start_timeout_ms l \<le> 2147483647 \<and>
     lm_max_wait_ms l \<le> 2147483647 \<and> lm_control_timeout_ms l \<le> 2147483647 \<and>
     lm_notification_ttl_ms l \<le> 2147483647"

definition limits_consistent :: "delegation_limits \<Rightarrow> bool" where
  "limits_consistent l \<longleftrightarrow>
     limits_ordered l \<and> limits_format l \<and> limits_derivable l \<and> limits_timers l"

definition parse_delegation_limits :: "json \<Rightarrow> delegation_failure + delegation_limits" where
  "parse_delegation_limits input =
     and_then (copy_bounded_delegation_data input) (\<lambda>captured.
       case captured of
         J_Obj kvs \<Rightarrow>
           if list_ex (\<lambda>kv. fst kv \<notin> set limit_keys) kvs then invalid_delegation_data Schema_Issue
           else and_then (read_limits kvs limit_keys) (\<lambda>values.
             if limits_consistent (limits_of_values values) then Inr (limits_of_values values)
             else invalid_delegation_data Schema_Issue)
       | _ \<Rightarrow> invalid_delegation_data Schema_Issue)"

section \<open>What a parse accepts\<close>

definition limits_positive :: "delegation_limits \<Rightarrow> bool" where
  "limits_positive l \<longleftrightarrow> list_all (\<lambda>(_, n). positive_safe n) (limit_members l)"

lemma limits_of_members [simp]: "limits_of_values (map snd (limit_members l)) = l"
  by (simp add: limits_of_values_def limit_members_def numeral_eq_Suc)

lemma keys_limit_members: "map fst (limit_members l) = limit_keys"
  by (simp add: limit_keys_def limit_members_def)

lemma distinct_limit_keys [simp]: "distinct limit_keys"
  by (simp add: limit_keys_def limit_members_def)

lemma members_limits_of_values:
  "length v = 22 \<Longrightarrow> limit_members (limits_of_values v) = zip limit_keys v"
  by (auto simp: numeral_eq_Suc length_Suc_conv limit_members_def limits_of_values_def limit_keys_def)

lemma read_limit_positive:
  "k \<in> set limit_keys \<Longrightarrow> read_limit kvs k = Inr n \<Longrightarrow> positive_safe n"
  by (auto simp: read_limit_def limit_keys_def limit_members_def default_delegation_limits_def
      positive_safe_def max_safe_integer_def split: option.splits json.splits if_splits)

lemma read_limits_positive:
  "set ks \<subseteq> set limit_keys \<Longrightarrow> read_limits kvs ks = Inr ns \<Longrightarrow>
     length ns = length ks \<and> list_all positive_safe ns"
  by (induction ks arbitrary: ns) (auto simp: result_simps dest: read_limit_positive)

lemma read_limits_given:
  assumes "\<And>k n. (k, n) \<in> set kns \<Longrightarrow> map_of kvs k = Some (J_Num n) \<and> positive_safe n"
  shows "read_limits kvs (map fst kns) = Inr (map snd kns)"
  using assms by (induction kns) (force simp: read_limit_def)+

lemma length_limit_keys: "length limit_keys = 22"
  by (simp add: limit_keys_def limit_members_def)

lemma parse_limits_Inr:
  assumes "parse_delegation_limits input = Inr l"
  obtains kvs v where "input = J_Obj kvs" and "read_limits kvs limit_keys = Inr v"
    and "l = limits_of_values v" and "limits_consistent l"
proof -
  have copy: "copy_bounded_delegation_data input = Inr x \<Longrightarrow> x = input" for x
    by (rule copy_bounded_identity)
  show thesis
    by (cases input; use assms that copy in
        \<open>force simp: parse_delegation_limits_def result_simps split: if_splits\<close>)
qed

lemma parse_limits_facts:
  assumes "parse_delegation_limits input = Inr l"
  shows "limits_positive l" and "limits_consistent l"
proof -
  obtain kvs v where v: "read_limits kvs limit_keys = Inr v"
    and l: "l = limits_of_values v" and ok: "limits_consistent l"
    using parse_limits_Inr [OF assms] by metis
  have v': "length v = 22" "list_all positive_safe v"
    using read_limits_positive [OF order_refl v] by (simp_all add: length_limit_keys)
  show "limits_positive l"
    using v' unfolding limits_positive_def l members_limits_of_values [OF v'(1)]
    by (auto simp: list_all_iff in_set_zip dest: nth_mem)
  show "limits_consistent l" by (rule ok)
qed

text \<open>
  Every set of limits that \<open>parseDelegationLimits\<close> returns is positive in each member and
  mutually consistent: the ordering, format, reservation and timer bounds all hold, and the bytes
  the store derives from it stay exact integers.
\<close>

theorem parse_limits_sound:
  assumes "parse_delegation_limits input = Inr l"
  shows "limits_positive l \<and> limits_consistent l \<and>
    lm_max_runs l * delegation_run_reservation_bytes \<le> max_safe_integer \<and>
    lm_max_run_observations l * lm_max_observation_bytes l \<le> max_safe_integer"
proof -
  note facts = parse_limits_facts [OF assms]
  have "0 < lm_max_observation_bytes l"
    using facts(1) by (simp add: limits_positive_def limit_members_def positive_safe_def)
  then have "lm_max_run_observations l * lm_max_observation_bytes l \<le>
      max_safe_integer div lm_max_observation_bytes l * lm_max_observation_bytes l"
    using facts(2) by (intro mult_right_mono) (auto simp: limits_consistent_def limits_derivable_def)
  also have "\<dots> \<le> max_safe_integer"
    using \<open>0 < lm_max_observation_bytes l\<close>
    by (simp add: minus_mod_eq_div_mult [symmetric])
  finally have "lm_max_run_observations l * lm_max_observation_bytes l \<le> max_safe_integer" .
  moreover have "lm_max_runs l * delegation_run_reservation_bytes \<le> max_safe_integer"
    using facts(2) by (simp add: limits_consistent_def limits_derivable_def
        delegation_run_reservation_bytes_def max_safe_integer_def)
  ultimately show ?thesis using facts by blast
qed

text \<open>The hypothesis of the previous property holds at the empty input.\<close>

lemma parse_limits_sound_witness:
  "parse_delegation_limits (J_Obj []) = Inr default_delegation_limits \<and>
   limits_positive default_delegation_limits"
proof -
  have "parse_delegation_limits (J_Obj []) = Inr default_delegation_limits" by code_simp
  then show ?thesis using parse_limits_sound [of "J_Obj []"] by simp
qed


lemma limit_members_given:
  assumes "limits_positive l"
  shows "read_limits (map (\<lambda>(k, n). (k, J_Num n)) (limit_members l)) limit_keys =
    Inr (map snd (limit_members l))"
proof -
  let ?kvs = "map (\<lambda>(k, n). (k, J_Num n)) (limit_members l)"
  have "map_of ?kvs k = Some (J_Num n) \<and> positive_safe n"
    if "(k, n) \<in> set (limit_members l)" for k n
  proof
    have "distinct (map fst (limit_members l))" by (simp add: keys_limit_members)
    then have "map_of (limit_members l) k = Some n" using that by (rule map_of_is_SomeI)
    then show "map_of ?kvs k = Some (J_Num n)"
      by (simp add: map_of_map case_prod_beta' [symmetric])
    show "positive_safe n" using assms that by (auto simp: limits_positive_def list_all_iff)
  qed
  from read_limits_given [of "limit_members l" ?kvs, OF this] show ?thesis
    by (simp add: keys_limit_members)
qed

lemma copy_limits: "limits_positive l \<Longrightarrow> copy_bounded_delegation_data (json_of_limits l) = Inr (json_of_limits l)"
proof -
  assume pos: "limits_positive l"
  let ?kvs = "map (\<lambda>(k, n). (k, J_Num n)) (limit_members l)"
  have keys: "length k \<le> 27 \<and> \<not> unsafe_key k" if "k \<in> set limit_keys" for k
    using that by (auto simp: limit_keys_def limit_members_def unsafe_key_def)
  have len: "length (limit_members l) = 22" by (simp add: limit_members_def)
  have fsts: "k \<in> set limit_keys" if "(k, n) \<in> set (limit_members l)" for k n
    using that by (force simp: keys_limit_members [of l, symmetric])
  have "utf8_bytes (stringify (J_Obj ?kvs)) \<le> 2 + int (length ?kvs) * (6 * 27 + 17 + 4)"
  proof (rule utf8_object_le)
    fix k v assume "(k, v) \<in> set ?kvs"
    then obtain n where n: "v = J_Num n" "(k, n) \<in> set (limit_members l)" by auto
    then have "safe_integer n" using pos
      by (auto simp: limits_positive_def list_all_iff positive_safe_def safe_integer_def max_safe_integer_def)
    then show "int (length k) \<le> 27 \<and> utf8_bytes (stringify v) \<le> 17"
      using keys [OF fsts [OF n(2)]] n(1) utf8_safe_number by simp
  qed
  moreover have "shape_ok 0 (J_Obj ?kvs)"
    using keys fsts by (auto simp: list_all_iff len delegation_entries_def)
  ultimately show ?thesis
    unfolding json_of_limits_def copy_bounded_iff by (simp add: len delegation_document_bytes_def)
qed

text \<open>
  Limits that are positive and consistent survive a round trip: parsing their JSON value
  returns them, so the parse a commit runs on the retained limits can never reject limits that an
  earlier parse produced.
\<close>

theorem parse_limits_roundtrip:
  assumes "limits_positive l" and "limits_consistent l"
  shows "parse_delegation_limits (json_of_limits l) = Inr l"
proof -
  have "\<not> list_ex (\<lambda>kv. fst kv \<notin> set limit_keys) (map (\<lambda>(k, n). (k, J_Num n)) (limit_members l))"
    by (force simp: list_ex_iff keys_limit_members [of l, symmetric])
  then show ?thesis
    using copy_limits [OF assms(1)] limit_members_given [OF assms(1)] assms(2)
    by (simp add: parse_delegation_limits_def json_of_limits_def)
qed

lemma parse_limits_roundtrip_witness:
  "parse_delegation_limits (json_of_limits default_delegation_limits) = Inr default_delegation_limits"
  by (rule parse_limits_roundtrip) code_simp+

end
