(* ===== verification/Delegation_Command.thy ===== *)
theory Delegation_Command
  imports Delegation_Limits
begin

text \<open>
  Policy ceilings (\<open>parseDelegationPolicyCeiling\<close> and \<open>createDelegationPolicyCeiling\<close> of
  \<open>tasks/parse.ts\<close>) and the closed command schema of \<open>store/parse.ts\<close>.
\<close>

section \<open>Policy ceilings\<close>

definition target_key :: "target_reference \<Rightarrow> string" where
  "target_key t = delegation_canonical_json (json_of_target t)"

definition json_of_ceiling_facts :: "parent_scope \<Rightarrow> target_reference list \<Rightarrow> json" where
  "json_of_ceiling_facts origin targets =
     J_Obj [(''origin'', json_of_parent origin), (''targets'', J_Arr (map json_of_target targets))]"

fun strictly_sorted :: "string list \<Rightarrow> bool" where
  "strictly_sorted (x # y # ys) \<longleftrightarrow> x < y \<and> strictly_sorted (y # ys)"
| "strictly_sorted _ \<longleftrightarrow> True"

definition parse_delegation_policy_ceiling ::
    "externals \<Rightarrow> policy_ceiling \<Rightarrow> delegation_failure + policy_ceiling" where
  "parse_delegation_policy_ceiling ext c =
     and_then (parse_delegation policy_ceiling_schema json_of_ceiling c) (\<lambda>value.
       let keys = map target_key (pc_targets value) in
       if \<not> distinct keys \<or> \<not> strictly_sorted keys
          \<or> pc_ceiling_id value \<noteq>
              delegation_input_digest ext (json_of_ceiling_facts (pc_origin value) (pc_targets value))
       then invalid_delegation_data Invalid_Ceiling
       else Inr value)"

definition ceiling_input_schema :: "parent_scope \<times> target_reference list \<Rightarrow> bool" where
  "ceiling_input_schema i \<longleftrightarrow> parent_scope_schema (fst i) \<and>
     list_all target_reference_schema (snd i) \<and> js_len (snd i) \<le> 1000"

definition create_delegation_policy_ceiling ::
    "externals \<Rightarrow> parent_scope \<Rightarrow> target_reference list \<Rightarrow> delegation_failure + policy_ceiling" where
  "create_delegation_policy_ceiling ext origin targets =
     and_then (parse_delegation ceiling_input_schema (\<lambda>(p, ts). json_of_ceiling_facts p ts)
                 (origin, targets)) (\<lambda>_.
       let sorted_targets = sort_key target_key targets in
       parse_delegation_policy_ceiling ext \<lparr>
         pc_ceiling_id = delegation_input_digest ext (json_of_ceiling_facts origin sorted_targets),
         pc_origin = origin, pc_targets = sorted_targets \<rparr>)"

lemma strictly_sorted_iff: "strictly_sorted xs \<longleftrightarrow> sorted_wrt (<) xs"
  by (induction xs rule: strictly_sorted.induct) (auto intro: order.strict_trans)

lemma strictly_sorted_distinct: "strictly_sorted xs \<Longrightarrow> distinct xs"
  by (simp add: strictly_sorted_iff strict_sorted_iff)

lemma strictly_sorted_sort_key:
  "distinct (map f xs) \<Longrightarrow> strictly_sorted (map f (sort_key f xs))"
proof -
  assume "distinct (map f xs)"
  then have "distinct (map f (sort_key f xs))"
    by (simp add: distinct_map)
  then show ?thesis
    by (simp add: strictly_sorted_iff strict_sorted_iff)
qed

section \<open>Commands\<close>

definition owner_fence_schema :: "externals \<Rightarrow> store_command \<Rightarrow> bool" where
  "owner_fence_schema ext c \<longleftrightarrow>
     owner_token_schema ext (cm_owner c) \<and> store_id_schema ext (cm_operation_id c) \<and>
     hex_digest (cm_input_digest c) \<and> store_id_schema ext (cm_task_id c) \<and>
     count_schema (cm_expected_task_revision c) \<and> optional (store_id_schema ext) (cm_run_id c) \<and>
     optional count_schema (cm_expected_run_revision c)"

definition admission_schema :: "externals \<Rightarrow> run_admission \<Rightarrow> bool" where
  "admission_schema ext a \<longleftrightarrow>
     parent_scope_schema (ad_parent a) \<and> optional (store_id_schema ext) (ad_ancestor_task_id a) \<and>
     positive_safe (ad_depth a) \<and> policy_ceiling_schema (ad_policy_ceiling a) \<and>
     store_id_schema ext (ad_run_id a) \<and> optional (store_id_schema ext) (ad_previous_run_id a) \<and>
     target_reference_schema (ad_target a) \<and> positive_safe (ad_policy_revision a) \<and>
     positive_safe (ad_origin_policy_revision a) \<and> valid_turn_input ext (ad_input a) \<and>
     at_schema ext (ad_created_at a) \<and> at_schema ext (ad_deadline_at a) \<and>
     at_schema ext (ad_queued_start_deadline_at a) \<and>
     (ad_previous_run_id a \<noteq> None) = (ad_continuation_mode a \<noteq> None)"

fun delivery_result_schema :: "externals \<Rightarrow> delivery_result \<Rightarrow> bool" where
  "delivery_result_schema ext (Accepted inbox at) \<longleftrightarrow> opaque_id inbox \<and> at_schema ext at"
| "delivery_result_schema ext (Blocked r at) \<longleftrightarrow> at_schema ext at"
| "delivery_result_schema ext (Delivery_Uncertain_Result at) \<longleftrightarrow> at_schema ext at"
| "delivery_result_schema ext (Final_Delivery f reason) \<longleftrightarrow> js_len reason \<le> 1000"

fun body_schema :: "externals \<Rightarrow> command_body \<Rightarrow> bool" where
  "body_schema ext (Admit a) \<longleftrightarrow> admission_schema ext a"
| "body_schema ext (Dispatch_Intent k at target attempt) \<longleftrightarrow>
     k \<noteq> Op_Admit \<and> k \<noteq> Op_Cancel \<and> at_schema ext at \<and> optional target_reference_schema target \<and>
     optional (\<lambda>n. n = 1 \<or> n = 2) attempt"
| "body_schema ext (Operation_Receipt d at message rs) \<longleftrightarrow>
     d \<noteq> Intent \<and> at_schema ext at \<and> optional (\<lambda>s. js_len s \<le> 1000) message"
| "body_schema ext (Observe b) \<longleftrightarrow> observation_schema ext b"
| "body_schema ext (Request_State s r at) \<longleftrightarrow> historical_request_schema ext r \<and> at_schema ext at"
| "body_schema ext (Cancel at reason) \<longleftrightarrow>
     at_schema ext at \<and> 1 \<le> js_len reason \<and> js_len reason \<le> 1000"
| "body_schema ext (Settle out at) \<longleftrightarrow> run_outcome_schema ext out \<and> at_schema ext at"
| "body_schema ext (Delivery_Claim n revision attempt at) \<longleftrightarrow>
     store_id_schema ext n \<and> count_schema revision \<and> store_id_schema ext attempt \<and> at_schema ext at"
| "body_schema ext (Delivery_Receipt n revision attempt result at) \<longleftrightarrow>
     store_id_schema ext n \<and> count_schema revision \<and> store_id_schema ext attempt \<and>
     delivery_result_schema ext result \<and> at_schema ext at"
| "body_schema ext (Retire_Recovery reason at) \<longleftrightarrow>
     1 \<le> js_len reason \<and> js_len reason \<le> 1000 \<and> at_schema ext at"

definition command_schema :: "externals \<Rightarrow> store_command \<Rightarrow> bool" where
  "command_schema ext c \<longleftrightarrow> owner_fence_schema ext c \<and> body_schema ext (cm_body c)"

definition parse_delegation_store_command ::
    "externals \<Rightarrow> store_command \<Rightarrow> delegation_failure + store_command" where
  "parse_delegation_store_command ext c =
     and_then (parse_delegation (command_schema ext) json_of_command c) (\<lambda>value.
       case cm_body value of
         Admit a \<Rightarrow> and_then (parse_delegation_policy_ceiling ext (ad_policy_ceiling a)) (\<lambda>_. Inr value)
       | _ \<Rightarrow> Inr value)"

lemma parse_command_Inr:
  "parse_delegation_store_command ext c = Inr d \<Longrightarrow> d = c \<and> command_schema ext c"
  by (auto simp: parse_delegation_store_command_def result_simps split: command_body.splits)

section \<open>Properties of ceilings\<close>

text \<open>
  A policy ceiling that \<open>createDelegationPolicyCeiling\<close> returns holds exactly the given
  targets in strictly increasing canonical order, no two given targets have the same canonical
  form, its identity is the digest of its origin and sorted targets, and the parser accepts it.
\<close>

theorem create_ceiling_canonical:
  assumes "create_delegation_policy_ceiling ext origin targets = Inr c"
  shows "set (pc_targets c) = set targets \<and> pc_origin c = origin \<and>
    sorted_wrt (<) (map target_key (pc_targets c)) \<and> distinct (map target_key targets) \<and>
    pc_ceiling_id c = delegation_input_digest ext (json_of_ceiling_facts origin (pc_targets c)) \<and>
    parse_delegation_policy_ceiling ext c = Inr c"
proof -
  have facts: "pc_targets c = sort_key target_key targets" "pc_origin c = origin"
    "parse_delegation_policy_ceiling ext c = Inr c"
    using assms
    by (auto simp: create_delegation_policy_ceiling_def parse_delegation_policy_ceiling_def Let_def
        result_simps split: if_splits)
  then have c: "strictly_sorted (map target_key (pc_targets c))"
    "pc_ceiling_id c = delegation_input_digest ext (json_of_ceiling_facts origin (pc_targets c))"
    by (auto simp: parse_delegation_policy_ceiling_def Let_def result_simps split: if_splits)
  have "distinct (map target_key (pc_targets c))" by (rule strictly_sorted_distinct [OF c(1)])
  then have "distinct (map target_key targets)"
    by (simp add: facts(1) distinct_map)
  then show ?thesis using facts c by (simp add: strictly_sorted_iff)
qed

end
