(* ===== verification/Json_Identity.thy ===== *)
theory Json_Identity
  imports Js_Data
begin

text \<open>
  Canonical JSON identifies values (\<open>identity.ts\<close>): \<open>JSON.stringify\<close> is injective on plain
  data, so two values have the same canonical text exactly if their canonical forms are equal.
  Every \<open>same\<close> of the store planner, and every digest under a collision-free hash, rests on it.
\<close>

section \<open>Quoted strings\<close>

definition hex_value :: "char \<Rightarrow> nat" where
  "hex_value c = (if is_digit c then digit_value c else code_unit c - 87)"

text \<open>One character of a JSON string, and the text after it.\<close>

definition unescape :: "string \<Rightarrow> char \<times> string" where
  "unescape s =
     (if hd s \<noteq> CHR 0x5C then (hd s, tl s)
      else let e = hd (tl s); r = tl (tl s) in
        if e = CHR ''b'' then (CHR 0x08, r) else if e = CHR ''t'' then (CHR 0x09, r)
        else if e = CHR ''n'' then (CHR 0x0A, r) else if e = CHR ''f'' then (CHR 0x0C, r)
        else if e = CHR ''r'' then (CHR 0x0D, r)
        else if e = CHR ''u'' then (char_of (16 * hex_value (r ! 2) + hex_value (r ! 3)), drop 4 r)
        else (e, r))"

lemma char_bits_cases:
  assumes "\<And>b0 b1 b2 b3 b4 b5 b6 b7. P (Char b0 b1 b2 b3 b4 b5 b6 b7)"
  shows "P c"
  using assms by (cases c) auto

lemma unescape_escape [simp]: "unescape (json_escape c @ s) = (c, s)"
proof (cases c)
  case (Char b0 b1 b2 b3 b4 b5 b6 b7)
  show ?thesis unfolding Char
    by (cases b0; cases b1; cases b2; cases b3; cases b4; cases b5; cases b6; cases b7)
      (simp_all add: json_escape_code unescape_def Let_def code_unit_Char hex_digit_def hex_value_def
        is_digit_code digit_value_def char_of_def bit_Suc_0_iff flip: numeral_2_eq_2)
qed

lemma escape_first: "json_escape c \<noteq> [] \<and> hd (json_escape c) \<noteq> CHR 0x22"
proof (cases c)
  case (Char b0 b1 b2 b3 b4 b5 b6 b7)
  show ?thesis unfolding Char
    by (cases b0; cases b1; cases b2; cases b3; cases b4; cases b5; cases b6; cases b7)
      (simp_all add: json_escape_code Let_def)
qed

lemma escape_inject: "json_escape c @ s = json_escape d @ t \<Longrightarrow> c = d \<and> s = t"
  by (metis unescape_escape prod.inject)

lemma escape_not_quote: "json_escape c @ s \<noteq> CHR 0x22 # t"
  using escape_first [of c] by (cases "json_escape c") auto

lemma quote_inject: "json_quote s @ a = json_quote t @ b \<Longrightarrow> s = t \<and> a = b"
proof -
  have body: "concat (map json_escape s) @ CHR 0x22 # a = concat (map json_escape t) @ CHR 0x22 # b \<Longrightarrow>
      s = t \<and> a = b" for s t
  proof (induction s arbitrary: t)
    case Nil
    then show ?case using escape_not_quote by (cases t) (auto dest: sym)
  next
    case (Cons c s)
    then obtain d t' where t: "t = d # t'" using escape_not_quote by (cases t) auto
    have "json_escape c @ (concat (map json_escape s) @ CHR 0x22 # a)
        = json_escape d @ (concat (map json_escape t') @ CHR 0x22 # b)"
      using Cons.prems t by simp
    from escape_inject [OF this] Cons.IH t show ?case by simp
  qed
  assume "json_quote s @ a = json_quote t @ b"
  then show ?thesis using body [of s t] by (simp add: json_quote_def)
qed

section \<open>Numbers\<close>

definition no_digit :: "string \<Rightarrow> bool" where
  "no_digit s \<longleftrightarrow> s = [] \<or> \<not> is_digit (hd s)"

lemma takeWhile_nat_string: "no_digit s \<Longrightarrow> takeWhile is_digit (nat_string n @ s) = nat_string n"
  using nat_string_digits [of n]
  by (auto simp: takeWhile_append list_all_iff no_digit_def takeWhile_eq_Nil_iff)

lemma nat_string_inject_delim:
  assumes "nat_string m @ s = nat_string n @ t" and "no_digit s" and "no_digit t"
  shows "m = n \<and> s = t"
proof -
  have "nat_string m = nat_string n"
    using takeWhile_nat_string [OF assms(2), of m] takeWhile_nat_string [OF assms(3), of n] assms(1) by simp
  then show ?thesis using assms(1) by simp
qed

lemma nat_string_first: "hd (nat_string n @ s) \<noteq> CHR ''-''"
proof -
  have "is_digit (hd (nat_string n))" using nat_string_digits [of n] by (cases "nat_string n") auto
  then show ?thesis by (auto simp: is_digit_code)
qed

lemma int_string_inject:
  assumes "int_string i @ s = int_string j @ t" and "no_digit s" and "no_digit t"
  shows "i = j \<and> s = t"
proof -
  have "\<not> (i < 0 \<and> \<not> j < 0)"
  proof
    assume "i < 0 \<and> \<not> j < 0"
    then have "CHR ''-'' # nat_string (nat (- i)) @ s = nat_string (nat j) @ t"
      using assms(1) by (simp add: int_string_def)
    then show False using nat_string_first [of "nat j" t] by (metis list.sel(1))
  qed
  moreover have "\<not> (\<not> i < 0 \<and> j < 0)"
  proof
    assume "\<not> i < 0 \<and> j < 0"
    then have "nat_string (nat i) @ s = CHR ''-'' # nat_string (nat (- j)) @ t"
      using assms(1) by (simp add: int_string_def)
    then show False using nat_string_first [of "nat i" s] by (metis list.sel(1))
  qed
  ultimately consider "i < 0" "j < 0" | "\<not> i < 0" "\<not> j < 0" by blast
  then show ?thesis
  proof cases
    case 1
    then show ?thesis using assms nat_string_inject_delim [of "nat (- i)" s "nat (- j)" t]
      by (auto simp: int_string_def)
  next
    case 2
    then show ?thesis using assms nat_string_inject_delim [of "nat i" s "nat j" t]
      by (auto simp: int_string_def)
  qed
qed

section \<open>Values\<close>

definition value_end :: "string \<Rightarrow> bool" where
  "value_end s \<longleftrightarrow> s = [] \<or> hd s \<in> {CHR '','', CHR '']'', CHR ''}''}"

lemma value_end_no_digit: "value_end s \<Longrightarrow> no_digit s"
  by (auto simp: value_end_def no_digit_def is_digit_code)

fun array_tail :: "json list \<Rightarrow> string" where
  "array_tail [] = '']''"
| "array_tail (x # xs) = CHR '','' # stringify x @ array_tail xs"

definition member_text :: "string \<times> json \<Rightarrow> string" where
  "member_text kv = json_quote (fst kv) @ CHR '':'' # stringify (snd kv)"

fun object_tail :: "(string \<times> json) list \<Rightarrow> string" where
  "object_tail [] = ''}''"
| "object_tail (kv # kvs) = CHR '','' # member_text kv @ object_tail kvs"

lemma join_array: "xs \<noteq> [] \<Longrightarrow>
    join_with '','' (map stringify xs) @ '']'' = stringify (hd xs) @ array_tail (tl xs)"
proof (induction xs)
  case (Cons x xs)
  then show ?case by (cases xs) auto
qed simp

lemma join_object: "kvs \<noteq> [] \<Longrightarrow>
    join_with '','' (map member_text kvs) @ ''}'' = member_text (hd kvs) @ object_tail (tl kvs)"
proof (induction kvs)
  case (Cons x xs)
  then show ?case by (cases xs) auto
qed simp

lemma stringify_Arr: "stringify (J_Arr xs) = CHR ''['' #
    (case xs of [] \<Rightarrow> '']'' | y # ys \<Rightarrow> stringify y @ array_tail ys)"
  using join_array [of xs] by (cases xs) auto

lemma stringify_Obj: "stringify (J_Obj kvs) = CHR ''{'' #
    (case kvs of [] \<Rightarrow> ''}'' | y # ys \<Rightarrow> member_text y @ object_tail ys)"
proof -
  have "stringify (J_Obj kvs) = CHR ''{'' # join_with '','' (map member_text kvs) @ ''}''"
    by (simp add: member_text_def [abs_def] comp_def case_prod_unfold)
  then show ?thesis using join_object [of kvs] by (cases kvs) auto
qed

text \<open>The first character tells the kind of a value.\<close>

definition value_kind :: "json \<Rightarrow> nat" where
  "value_kind j = (case j of J_Null \<Rightarrow> 0 | J_Bool b \<Rightarrow> (if b then 1 else 2) | J_Num n \<Rightarrow> 3
     | J_Str s \<Rightarrow> 4 | J_Arr xs \<Rightarrow> 5 | J_Obj kvs \<Rightarrow> 6)"

definition first_kind :: "char \<Rightarrow> nat" where
  "first_kind c = (if c = CHR ''n'' then 0 else if c = CHR ''t'' then 1 else if c = CHR ''f'' then 2
     else if c = CHR 0x22 then 4 else if c = CHR ''['' then 5 else if c = CHR ''{'' then 6 else 3)"

lemma int_string_first: "int_string i \<noteq> [] \<and> (hd (int_string i) = CHR ''-'' \<or> is_digit (hd (int_string i)))"
proof -
  have "is_digit (hd (nat_string n))" for n
    using nat_string_digits [of n] by (cases "nat_string n") auto
  then show ?thesis by (auto simp: int_string_def)
qed

lemma number_first: "c = CHR ''-'' \<or> is_digit c \<Longrightarrow>
    first_kind c = 3 \<and> c \<notin> {CHR '','', CHR '']'', CHR ''}''}"
proof (cases c)
  case (Char b0 b1 b2 b3 b4 b5 b6 b7)
  assume "c = CHR ''-'' \<or> is_digit c"
  then show ?thesis unfolding Char first_kind_def
    by (cases b0; cases b1; cases b2; cases b3; cases b4; cases b5; cases b6; cases b7)
      (simp_all add: is_digit_code)
qed

lemma stringify_first:
  "stringify j \<noteq> [] \<and> first_kind (hd (stringify j)) = value_kind j \<and>
   hd (stringify j) \<notin> {CHR '','', CHR '']'', CHR ''}''}"
proof (cases j)
  case (J_Num n)
  then show ?thesis using int_string_first [of n] number_first [of "hd (int_string n)"]
    by (simp add: value_kind_def)
qed (simp_all add: value_kind_def first_kind_def json_quote_def)

lemma stringify_kind: "stringify j @ s = stringify k @ t \<Longrightarrow> value_kind j = value_kind k"
  using stringify_first [of j] stringify_first [of k] by (metis hd_append2)

lemma stringify_not_end: "\<not> value_end (stringify j @ s)"
  using stringify_first [of j] by (auto simp: value_end_def)

section \<open>Injectivity\<close>

definition reads :: "json \<Rightarrow> bool" where
  "reads j \<longleftrightarrow> (\<forall>k s t. value_end s \<longrightarrow> value_end t \<longrightarrow> stringify j @ s = stringify k @ t \<longrightarrow> j = k \<and> s = t)"

lemma readsD: "reads j \<Longrightarrow> value_end s \<Longrightarrow> value_end t \<Longrightarrow> stringify j @ s = stringify k @ t \<Longrightarrow> j = k \<and> s = t"
  by (auto simp: reads_def)

lemma value_end_tails [simp]: "value_end (array_tail xs @ s)" "value_end (object_tail kvs @ s)"
  by (cases xs; simp add: value_end_def) (cases kvs; simp add: value_end_def)

lemma array_tail_inject:
  assumes "\<And>x. x \<in> set xs \<Longrightarrow> reads x"
  shows "array_tail xs @ s = array_tail ys @ t \<Longrightarrow> xs = ys \<and> s = t"
  using assms
proof (induction xs arbitrary: ys)
  case Nil
  then show ?case by (cases ys) auto
next
  case (Cons x xs)
  then obtain y ys' where ys: "ys = y # ys'" by (cases ys) auto
  have "stringify x @ (array_tail xs @ s) = stringify y @ (array_tail ys' @ t)"
    using Cons.prems(1) ys by simp
  then have "x = y \<and> array_tail xs @ s = array_tail ys' @ t"
    using Cons.prems(2) by (intro readsD) simp_all
  then show ?case using Cons ys by simp
qed

lemma member_text_inject:
  assumes "member_text (k, v) @ s = member_text (l, w) @ t" and "reads v" and "value_end s" and "value_end t"
  shows "(k, v) = (l, w) \<and> s = t"
proof -
  have "json_quote k @ (CHR '':'' # stringify v @ s) = json_quote l @ (CHR '':'' # stringify w @ t)"
    using assms(1) by (simp add: member_text_def)
  from quote_inject [OF this] have "k = l" "stringify v @ s = stringify w @ t" by auto
  then show ?thesis using readsD [OF assms(2-4)] by simp
qed

lemma object_tail_inject:
  assumes "\<And>k v. (k, v) \<in> set kvs \<Longrightarrow> reads v"
  shows "object_tail kvs @ s = object_tail lvs @ t \<Longrightarrow> kvs = lvs \<and> s = t"
  using assms
proof (induction kvs arbitrary: lvs)
  case Nil
  then show ?case by (cases lvs) auto
next
  case (Cons kv kvs)
  obtain k v where kv: "kv = (k, v)" by (cases kv)
  from Cons.prems obtain l w lvs' where lvs: "lvs = (l, w) # lvs'" by (cases lvs) auto
  have "member_text (k, v) @ (object_tail kvs @ s) = member_text (l, w) @ (object_tail lvs' @ t)"
    using Cons.prems(1) kv lvs by simp
  then have "(k, v) = (l, w) \<and> object_tail kvs @ s = object_tail lvs' @ t"
    using Cons.prems(2) kv by (intro member_text_inject) auto
  then show ?case using Cons kv lvs by auto
qed

lemma value_kind_simps:
  "value_kind k = 0 \<longleftrightarrow> k = J_Null" "value_kind k = 1 \<longleftrightarrow> k = J_Bool True"
  "value_kind k = Suc 0 \<longleftrightarrow> k = J_Bool True"
  "value_kind k = 2 \<longleftrightarrow> k = J_Bool False" "value_kind k = 3 \<longleftrightarrow> (\<exists>n. k = J_Num n)"
  "value_kind k = 4 \<longleftrightarrow> (\<exists>s. k = J_Str s)" "value_kind k = 5 \<longleftrightarrow> (\<exists>xs. k = J_Arr xs)"
  "value_kind k = 6 \<longleftrightarrow> (\<exists>kvs. k = J_Obj kvs)"
  by (cases k; simp add: value_kind_def)+

lemma reads_Arr:
  assumes "\<And>x. x \<in> set xs \<Longrightarrow> reads x"
  shows "reads (J_Arr xs)"
  unfolding reads_def
proof (intro allI impI)
  fix k s t
  assume eq: "stringify (J_Arr xs) @ s = stringify k @ t"
  then obtain ys where k: "k = J_Arr ys"
    using stringify_kind [OF eq] by (auto simp: value_kind_def value_kind_simps split: json.splits if_splits)
  show "J_Arr xs = k \<and> s = t"
  proof (cases xs)
    case Nil
    then show ?thesis using eq k stringify_first [of "hd ys"]
      by (cases ys; cases "stringify (hd ys)") (auto simp: stringify_Arr simp del: stringify.simps)
  next
    case (Cons x xs')
    show ?thesis
    proof (cases ys)
      case Nil
      then show ?thesis using eq k Cons stringify_first [of x]
        by (cases "stringify x") (auto simp: stringify_Arr simp del: stringify.simps)
    next
      case (Cons y ys')
      then have "stringify x @ (array_tail xs' @ s) = stringify y @ (array_tail ys' @ t)"
        using eq k \<open>xs = x # xs'\<close> by (simp add: stringify_Arr del: stringify.simps)
      then have "x = y \<and> array_tail xs' @ s = array_tail ys' @ t"
        using assms \<open>xs = x # xs'\<close> by (intro readsD) simp_all
      then show ?thesis using array_tail_inject [of xs' s ys' t] assms k Cons \<open>xs = x # xs'\<close> by auto
    qed
  qed
qed

lemma member_text_first: "member_text kv \<noteq> [] \<and> hd (member_text kv) = CHR 0x22"
  by (simp add: member_text_def json_quote_def)

lemma reads_Obj:
  assumes "\<And>k v. (k, v) \<in> set kvs \<Longrightarrow> reads v"
  shows "reads (J_Obj kvs)"
  unfolding reads_def
proof (intro allI impI)
  fix k s t
  assume eq: "stringify (J_Obj kvs) @ s = stringify k @ t"
  then obtain lvs where k: "k = J_Obj lvs"
    using stringify_kind [OF eq] by (auto simp: value_kind_def value_kind_simps split: json.splits if_splits)
  show "J_Obj kvs = k \<and> s = t"
  proof (cases kvs)
    case Nil
    then show ?thesis using eq k member_text_first [of "hd lvs"]
      by (cases lvs; cases "member_text (hd lvs)") (auto simp: stringify_Obj simp del: stringify.simps)
  next
    case (Cons x kvs')
    obtain m v where x: "x = (m, v)" by (cases x)
    show ?thesis
    proof (cases lvs)
      case Nil
      then show ?thesis using eq k Cons member_text_first [of x]
        by (cases "member_text x") (auto simp: stringify_Obj simp del: stringify.simps)
    next
      case (Cons y lvs')
      obtain l w where y: "y = (l, w)" by (cases y)
      have "member_text (m, v) @ (object_tail kvs' @ s) = member_text (l, w) @ (object_tail lvs' @ t)"
        using eq k Cons \<open>kvs = x # kvs'\<close> x y by (simp add: stringify_Obj del: stringify.simps)
      then have "(m, v) = (l, w) \<and> object_tail kvs' @ s = object_tail lvs' @ t"
        using assms \<open>kvs = x # kvs'\<close> x by (intro member_text_inject) auto
      then show ?thesis using object_tail_inject [of kvs' s lvs' t] assms k Cons \<open>kvs = x # kvs'\<close> x y by auto
    qed
  qed
qed

lemma reads_any: "reads j"
proof (induction j)
  case (J_Num n)
  show ?case unfolding reads_def
  proof (intro allI impI)
    fix k s t
    assume ends: "value_end s" "value_end t" and eq: "stringify (J_Num n) @ s = stringify k @ t"
    obtain m where "k = J_Num m"
      using stringify_kind [OF eq] by (auto simp: value_kind_def value_kind_simps split: json.splits if_splits)
    then show "J_Num n = k \<and> s = t"
      using eq ends int_string_inject [of n s m t] value_end_no_digit by auto
  qed
next
  case (J_Str x)
  show ?case unfolding reads_def
  proof (intro allI impI)
    fix k s t
    assume eq: "stringify (J_Str x) @ s = stringify k @ t"
    obtain y where "k = J_Str y"
      using stringify_kind [OF eq] by (auto simp: value_kind_def value_kind_simps split: json.splits if_splits)
    then show "J_Str x = k \<and> s = t" using eq quote_inject [of x s y t] by auto
  qed
next
  case (J_Arr xs)
  then show ?case by (intro reads_Arr)
next
  case (J_Obj kvs)
  show ?case
  proof (rule reads_Obj)
    fix k v assume "(k, v) \<in> set kvs"
    then show "reads v" by (intro J_Obj.IH) (auto simp: prod_set_defs)
  qed
next
  case J_Null
  show ?case unfolding reads_def
  proof (intro allI impI)
    fix k s t
    assume eq: "stringify J_Null @ s = stringify k @ t"
    have "k = J_Null" using stringify_kind [OF eq] by (simp add: value_kind_def value_kind_simps split: json.splits if_splits)
    then show "J_Null = k \<and> s = t" using eq by simp
  qed
next
  case (J_Bool b)
  show ?case unfolding reads_def
  proof (intro allI impI)
    fix k s t
    assume eq: "stringify (J_Bool b) @ s = stringify k @ t"
    have "k = J_Bool b"
      using stringify_kind [OF eq] by (auto simp: value_kind_def value_kind_simps split: json.splits if_splits)
    then show "J_Bool b = k \<and> s = t" using eq by simp
  qed
qed

lemma stringify_inject: "stringify j = stringify k \<longleftrightarrow> j = k"
  using readsD [OF reads_any, of "[]" "[]" j k] by (auto simp: value_end_def)

lemma same_json_iff: "same_json j k \<longleftrightarrow> canonicalize j = canonicalize k"
  by (simp add: same_json_def delegation_canonical_json_def stringify_inject)

section \<open>Canonical forms do not depend on the order of members\<close>

lemma sort_key_unique:
  assumes "distinct (map fst kvs)" and "distinct (map fst lvs)"
    and "set kvs = set (lvs :: (string \<times> 'v) list)"
  shows "sort_key fst kvs = sort_key fst lvs"
proof (rule map_sorted_distinct_set_unique)
  show "inj_on fst (set (sort_key fst kvs) \<union> set (sort_key fst lvs))"
    using assms by (simp add: distinct_map)
qed (use assms in \<open>simp_all add: distinct_map\<close>)

lemma keys_canonical: "map fst (map (map_prod id canonicalize) kvs) = map fst kvs"
  by (simp add: comp_def)

text \<open>
  The planner's \<open>same\<close> decides equality of data: two objects without repeated keys have the
  same canonical JSON exactly if they have the same members up to the canonical form of the values,
  whatever the order in which the members were written.
\<close>

theorem same_json_objects:
  assumes "distinct (map fst kvs)" and "distinct (map fst lvs)"
  shows "same_json (J_Obj kvs) (J_Obj lvs) \<longleftrightarrow>
    map_prod id canonicalize ` set kvs = map_prod id canonicalize ` set lvs"
proof
  assume "same_json (J_Obj kvs) (J_Obj lvs)"
  then have "set (sort_key fst (map (map_prod id canonicalize) kvs)) =
      set (sort_key fst (map (map_prod id canonicalize) lvs))"
    by (simp add: same_json_iff)
  then show "map_prod id canonicalize ` set kvs = map_prod id canonicalize ` set lvs" by simp
next
  assume "map_prod id canonicalize ` set kvs = map_prod id canonicalize ` set lvs"
  then have "sort_key fst (map (map_prod id canonicalize) kvs) =
      sort_key fst (map (map_prod id canonicalize) lvs)"
    using assms by (intro sort_key_unique) (simp_all only: keys_canonical set_map)
  then show "same_json (J_Obj kvs) (J_Obj lvs)" by (simp add: same_json_iff)
qed

lemma same_json_objects_witness:
  "same_json (J_Obj [(''a'', J_Num 1), (''b'', J_Str ''x'')]) (J_Obj [(''b'', J_Str ''x''), (''a'', J_Num 1)])"
  by (subst same_json_objects) auto

end
