(* ===== verification/Delegation_Context.thy ===== *)
theory Delegation_Context
  imports Delegation_Command Json_Identity
begin

text \<open>
  \<open>store-adapter/context.ts\<close>: the helpers with which every store transition edits its
  command-local context, and the relation \<open>context_step\<close> that all of them stay inside: the run
  keeps its identity and never leaves its settled outcome, and the capacity counters move by
  exactly what the run's own counters move.
\<close>

section \<open>Operations\<close>

definition critical_kind :: "operation_kind \<Rightarrow> bool" where
  "critical_kind k \<longleftrightarrow> k \<in> {Op_Cancel, Op_Interrupt, Op_Session_Close, Op_Binding_Cleanup}"

definition same_target :: "target_reference \<Rightarrow> target_reference \<Rightarrow> bool" where
  "same_target s t \<longleftrightarrow> same_json (json_of_target s) (json_of_target t)"

lemma same_target_iff [simp]: "same_target s t \<longleftrightarrow> s = t"
  by (auto simp: same_target_def same_json_iff json_of_target_def)

definition require_run :: "commit_context \<Rightarrow> delegation_failure + run_record" where
  "require_run ctx = (case cx_run ctx of None \<Rightarrow> fail_delegation Stale_Revision | Some r \<Rightarrow> Inr r)"

text \<open>\<open>setRun\<close>: the partial record of changes is the function that applies it.\<close>

definition phase_capacity :: "run_phase \<Rightarrow> run_phase \<Rightarrow> store_capacity \<Rightarrow> store_capacity" where
  "phase_capacity prior phase cap0 =
     (let cap1 = (if prior = Queued \<and> phase \<noteq> Queued
                  then cap0\<lparr>cp_queued_runs := cp_queued_runs cap0 - 1,
                            cp_active_runs := cp_active_runs cap0 + (if phase = Settled then 0 else 1)\<rparr>
                  else cap0)
      in if prior \<noteq> Queued \<and> prior \<noteq> Settled \<and> phase = Settled
         then cap1\<lparr>cp_active_runs := cp_active_runs cap1 - 1\<rparr> else cap1)"

definition set_run ::
    "(run_record \<Rightarrow> run_record) \<Rightarrow> commit_context \<Rightarrow> delegation_failure + commit_context" where
  "set_run change ctx =
     and_then (require_run ctx) (\<lambda>prior.
       let run = change prior in
       Inr (ctx\<lparr>cx_capacity := phase_capacity (rn_phase prior) (rn_phase run) (cx_capacity ctx),
                cx_run := Some run\<rparr>))"

definition push_mutation :: "row_mutation \<Rightarrow> commit_context \<Rightarrow> commit_context" where
  "push_mutation m ctx = ctx\<lparr>cx_mutations := cx_mutations ctx @ [m]\<rparr>"

definition set_receipt :: "(commit_receipt \<Rightarrow> commit_receipt) \<Rightarrow> commit_context \<Rightarrow> commit_context" where
  "set_receipt f ctx = ctx\<lparr>cx_receipt := f (cx_receipt ctx)\<rparr>"

definition operation_bytes :: "operation_record \<Rightarrow> int" where
  "operation_bytes x = delegation_data_bytes (json_of_operation x)"

definition count_ordinary :: "operation_kind \<Rightarrow> commit_context \<Rightarrow> delegation_failure + commit_context" where
  "count_ordinary kind ctx =
     (if critical_kind kind then Inr ctx
      else and_then (require_run ctx) (\<lambda>run.
        let limits = cu_limits (cx_current ctx) in
        if rn_ordinary_operation_count run \<ge> lm_max_ordinary_operations_per_run limits
           \<or> cp_ordinary_operations (cx_capacity ctx) \<ge> lm_max_ordinary_operations limits
        then fail_delegation Capacity_Exceeded
        else and_then (set_run (\<lambda>r. r\<lparr>rn_ordinary_operation_count := rn_ordinary_operation_count run + 1\<rparr>) ctx)
          (\<lambda>ctx1. Inr (ctx1\<lparr>cx_capacity := (cx_capacity ctx1)\<lparr>cp_ordinary_operations :=
                      cp_ordinary_operations (cx_capacity ctx1) + 1\<rparr>\<rparr>))))"

definition add_operation ::
    "operation_kind \<Rightarrow> string \<Rightarrow> int \<Rightarrow> operation_request option \<Rightarrow> commit_context
      \<Rightarrow> delegation_failure + commit_context" where
  "add_operation kind at attempt request ctx =
     and_then (require_run ctx) (\<lambda>run.
     and_then (count_ordinary kind ctx) (\<lambda>ctx1.
       let command = cx_command ctx1;
           operation = \<lparr>op_operation_id = cm_operation_id command, op_parent = tk_parent (cx_task ctx1),
             op_task_id = tk_task_id (cx_task ctx1), op_run_id = rn_run_id run, op_kind = kind,
             op_input_digest = cm_input_digest command, op_owner_epoch = ot_epoch (cm_owner command),
             op_disposition = (if kind = Op_Admit \<or> kind = Op_Cancel then Completed else Intent),
             op_attempts = attempt, op_at = at, op_message = None, op_request = request,
             op_request_state = None,
             op_receipt = (cx_receipt ctx1)\<lparr>rc_operation_id := Some (cm_operation_id command)\<rparr>\<rparr>
       in if operation_bytes operation > delegation_critical_slot_bytes
          then fail_delegation Capacity_Exceeded
          else Inr (push_mutation (Operation_Row operation) ctx1)))"

definition expires_at :: "string \<Rightarrow> int \<Rightarrow> delegation_failure + string" where
  "expires_at at ttl =
     (case date_parse at of None \<Rightarrow> Inl Range_Error
      | Some t \<Rightarrow> (case to_iso_string (t + ttl) of None \<Rightarrow> Inl Range_Error | Some s \<Rightarrow> Inr s))"

definition settled_outcome :: "run_record \<Rightarrow> run_outcome \<Rightarrow> run_outcome" where
  "settled_outcome run requested =
     (case rn_recovery_reason run of Some reason \<Rightarrow> Recovery_Required_Outcome reason
      | None \<Rightarrow> requested)"

definition settlement_change ::
    "commit_context \<Rightarrow> run_outcome \<Rightarrow> string \<Rightarrow> run_record \<Rightarrow> run_record" where
  "settlement_change ctx outcome at run = run\<lparr>
     rn_phase := Settled, rn_outcome := Some outcome, rn_settled_at := Some at,
     rn_pending_request := map_option (\<lambda>q. q\<lparr>hr_state := Request_Unavailable_State\<rparr>) (rn_pending_request run),
     rn_finalization := Some \<lparr>fz_operation_id = cm_operation_id (cx_command ctx),
       fz_input_digest = cm_input_digest (cx_command ctx),
       fz_task_revision = tk_revision (cx_task ctx), fz_run_revision = rn_revision run\<rparr>\<rparr>"

definition settlement_envelope ::
    "externals \<Rightarrow> commit_context \<Rightarrow> run_record \<Rightarrow> run_outcome \<Rightarrow> string \<Rightarrow> string \<Rightarrow> completion_envelope" where
  "settlement_envelope ext ctx run outcome at expires =
     \<lparr>ev_store_id = cu_store_id (cx_current ctx),
      ev_notification_id = delegation_subordinate_id ext (rn_run_id run) ''notification'',
      ev_task_id = rn_task_id run, ev_run_id = rn_run_id run,
      ev_parent = tk_parent (cx_task ctx), ev_policy = tk_completion_policy (cx_task ctx),
      ev_settled_at = at, ev_expires_at = expires, ev_outcome = outcome\<rparr>"

definition settlement_notification :: "commit_context \<Rightarrow> completion_envelope \<Rightarrow> notification_record" where
  "settlement_notification ctx envelope =
     \<lparr>nt_envelope = envelope, nt_revision = 1,
      nt_state = (if tk_completion_policy (cx_task ctx) = Collect then Nt_Collectible else Nt_Pending),
      nt_claim = None, nt_attempts = 0, nt_retry_at = None, nt_inbox_id = None,
      nt_accepted_at = None, nt_reason = None, nt_delivery = None\<rparr>"

text \<open>\<open>settleRun\<close>; no caller uses the notification it returns, so the context alone is returned.\<close>

definition settle_run ::
    "externals \<Rightarrow> run_outcome \<Rightarrow> string \<Rightarrow> commit_context \<Rightarrow> delegation_failure + commit_context" where
  "settle_run ext requested at ctx =
     and_then (require_run ctx) (\<lambda>run.
     if rn_outcome run \<noteq> None then fail_delegation Operation_Conflict
     else
       let outcome = settled_outcome run requested
       in and_then (expires_at at (lm_notification_ttl_ms (cu_limits (cx_current ctx)))) (\<lambda>expires.
          and_then (parse_delegation_completion_envelope ext
                      (settlement_envelope ext ctx run outcome at expires)) (\<lambda>envelope.
          let notification = settlement_notification ctx envelope
          in if delegation_data_bytes (json_of_final_slot outcome notification)
                > delegation_final_reservation_bytes
             then fail_delegation Capacity_Exceeded
             else and_then (set_run (settlement_change ctx outcome at) ctx) (\<lambda>ctx1.
               Inr (push_mutation (Notification_Row notification)
                 (set_receipt (\<lambda>rc. rc\<lparr>rc_status := Status_Phase Settled,
                     rc_notification_id := Some (ev_notification_id envelope)\<rparr>) ctx1))))))"

definition context_runs :: "commit_context \<Rightarrow> run_record list" where
  "context_runs ctx =
     (case cx_run ctx of
        None \<Rightarrow> cu_runs (cx_current ctx)
      | Some run \<Rightarrow>
          let runs = map (\<lambda>r. if rn_run_id r = rn_run_id run then run else r) (cu_runs (cx_current ctx))
          in if list_ex (\<lambda>r. rn_run_id r = rn_run_id run) runs then runs else runs @ [run])"

definition requires_recovery :: "run_record \<Rightarrow> bool" where
  "requires_recovery r \<longleftrightarrow>
     (case rn_outcome r of Some out \<Rightarrow> is_recovery_outcome out | None \<Rightarrow> False)
     \<or> rn_recovery_reason r \<noteq> None"

definition derived_state :: "commit_context \<Rightarrow> task_state" where
  "derived_state ctx =
     (if tk_state (cx_task ctx) = Task_Retired then Task_Retired
      else if list_ex requires_recovery (context_runs ctx) then Task_Recovery_Required
      else if list_ex (\<lambda>r. rn_phase r \<noteq> Settled) (context_runs ctx) then Task_Active
      else Task_Settled)"

definition derive_task :: "commit_context \<Rightarrow> commit_context" where
  "derive_task ctx = ctx\<lparr>cx_task := (cx_task ctx)\<lparr>tk_state := derived_state ctx\<rparr>\<rparr>"

section \<open>What every transition keeps\<close>

definition queued_count :: "run_record \<Rightarrow> int" where
  "queued_count r = indicator01 (rn_phase r = Queued)"

definition active_count :: "run_record \<Rightarrow> int" where
  "active_count r = indicator01 (rn_phase r \<noteq> Queued \<and> rn_phase r \<noteq> Settled)"

definition run_identity_kept :: "run_record \<Rightarrow> run_record \<Rightarrow> bool" where
  "run_identity_kept r r' \<longleftrightarrow>
     rn_task_id r' = rn_task_id r \<and> rn_run_id r' = rn_run_id r \<and> rn_ordinal r' = rn_ordinal r \<and>
     rn_previous_run_id r' = rn_previous_run_id r \<and> rn_admission_operation_id r' = rn_admission_operation_id r \<and>
     rn_admitted_target r' = rn_admitted_target r \<and> rn_input r' = rn_input r \<and>
     rn_created_at r' = rn_created_at r \<and> rn_deadline_at r' = rn_deadline_at r \<and>
     rn_revision r' = rn_revision r"

definition outcome_kept :: "run_record \<Rightarrow> run_record \<Rightarrow> bool" where
  "outcome_kept r r' \<longleftrightarrow> (rn_outcome r \<noteq> None \<longrightarrow>
     rn_outcome r' = rn_outcome r \<and> rn_settled_at r' = rn_settled_at r \<and>
     rn_finalization r' = rn_finalization r)"

definition phase_order_kept :: "run_record \<Rightarrow> run_record \<Rightarrow> bool" where
  "phase_order_kept r r' \<longleftrightarrow>
     (rn_phase r = Settled \<longrightarrow> rn_phase r' = Settled) \<and>
     (rn_phase r' = Queued \<longrightarrow> rn_phase r = Queued)"

definition counters_kept :: "run_record \<Rightarrow> run_record \<Rightarrow> bool" where
  "counters_kept r r' \<longleftrightarrow>
     rn_observation_index r \<le> rn_observation_index r' \<and>
     rn_observation_count r \<le> rn_observation_count r' \<and>
     rn_observation_bytes r \<le> rn_observation_bytes r' \<and>
     rn_omitted_observations r \<le> rn_omitted_observations r' \<and>
     rn_ordinary_operation_count r \<le> rn_ordinary_operation_count r' \<and>
     (rn_cancel_requested r \<longrightarrow> rn_cancel_requested r')"

definition applied_kept :: "run_record \<Rightarrow> run_record \<Rightarrow> bool" where
  "applied_kept r r' \<longleftrightarrow>
     rn_applied_target r' = rn_applied_target r \<or> rn_applied_target r' = Some (rn_admitted_target r)"

definition run_step :: "run_record \<Rightarrow> run_record \<Rightarrow> bool" where
  "run_step r r' \<longleftrightarrow> run_identity_kept r r' \<and> outcome_kept r r' \<and> phase_order_kept r r' \<and>
     counters_kept r r' \<and> applied_kept r r'"

definition capacity_step :: "store_capacity \<Rightarrow> store_capacity \<Rightarrow> run_record \<Rightarrow> run_record \<Rightarrow> bool" where
  "capacity_step c c' r r' \<longleftrightarrow>
     c' = c\<lparr>cp_queued_runs := cp_queued_runs c + queued_count r' - queued_count r,
            cp_active_runs := cp_active_runs c + active_count r' - active_count r,
            cp_observation_bytes := cp_observation_bytes c + rn_observation_bytes r' - rn_observation_bytes r,
            cp_ordinary_operations := cp_ordinary_operations c + rn_ordinary_operation_count r'
              - rn_ordinary_operation_count r\<rparr>"

text \<open>The counters that a transition may raise stay under their limits when it raises them.\<close>

definition capacity_guarded :: "delegation_limits \<Rightarrow> store_capacity \<Rightarrow> store_capacity \<Rightarrow> bool" where
  "capacity_guarded l c c' \<longleftrightarrow>
     (cp_observation_bytes c' \<le> cp_observation_bytes c
        \<or> cp_observation_bytes c' \<le> lm_max_retained_observation_bytes l) \<and>
     (cp_ordinary_operations c' \<le> cp_ordinary_operations c
        \<or> cp_ordinary_operations c' \<le> lm_max_ordinary_operations l)"

lemma capacity_guarded_trans: "capacity_guarded l c d \<Longrightarrow> capacity_guarded l d e \<Longrightarrow> capacity_guarded l c e"
  unfolding capacity_guarded_def by (meson order_trans)

lemma capacity_guarded_same [simp]: "capacity_guarded l c c"
  by (simp add: capacity_guarded_def)

definition bookkeeping_row :: "row_mutation \<Rightarrow> bool" where
  "bookkeeping_row m \<longleftrightarrow> (case m of Task_Row _ \<Rightarrow> False | Run_Row _ \<Rightarrow> False
     | Ceiling_Row _ \<Rightarrow> False | Capacity_Row _ \<Rightarrow> False | _ \<Rightarrow> True)"

definition receipt_kept :: "commit_receipt \<Rightarrow> commit_receipt \<Rightarrow> bool" where
  "receipt_kept r r' \<longleftrightarrow>
     rc_duplicate r' = rc_duplicate r \<and> rc_task_id r' = rc_task_id r \<and>
     rc_task_revision r' = rc_task_revision r \<and> rc_run_id r' = rc_run_id r \<and>
     rc_run_revision r' = rc_run_revision r \<and> rc_operation_id r' = rc_operation_id r"

lemma receipt_kept_refl [simp]: "receipt_kept r r"
  by (simp add: receipt_kept_def)

lemma receipt_kept_trans: "receipt_kept r s \<Longrightarrow> receipt_kept s t \<Longrightarrow> receipt_kept r t"
  by (simp add: receipt_kept_def)

definition context_step :: "commit_context \<Rightarrow> commit_context \<Rightarrow> bool" where
  "context_step ctx ctx' \<longleftrightarrow>
     cx_command ctx' = cx_command ctx \<and> cx_current ctx' = cx_current ctx \<and>
     cx_task ctx' = cx_task ctx \<and> receipt_kept (cx_receipt ctx) (cx_receipt ctx') \<and>
     capacity_guarded (cu_limits (cx_current ctx)) (cx_capacity ctx) (cx_capacity ctx') \<and>
     (\<exists>r r'. cx_run ctx = Some r \<and> cx_run ctx' = Some r' \<and> run_step r r' \<and>
        capacity_step (cx_capacity ctx) (cx_capacity ctx') r r') \<and>
     (\<exists>ms. cx_mutations ctx' = cx_mutations ctx @ ms \<and> list_all bookkeeping_row ms)"

lemmas run_step_defs = run_step_def run_identity_kept_def outcome_kept_def phase_order_kept_def
  counters_kept_def applied_kept_def

lemma run_step_refl [simp]: "run_step r r"
  by (simp add: run_step_defs)

lemma run_identity_kept_trans: "run_identity_kept r s \<Longrightarrow> run_identity_kept s t \<Longrightarrow> run_identity_kept r t"
  by (simp add: run_identity_kept_def)

lemma outcome_kept_trans: "outcome_kept r s \<Longrightarrow> outcome_kept s t \<Longrightarrow> outcome_kept r t"
  unfolding outcome_kept_def by (metis (no_types))

lemma phase_order_kept_trans: "phase_order_kept r s \<Longrightarrow> phase_order_kept s t \<Longrightarrow> phase_order_kept r t"
  unfolding phase_order_kept_def by blast

lemma counters_kept_trans: "counters_kept r s \<Longrightarrow> counters_kept s t \<Longrightarrow> counters_kept r t"
  unfolding counters_kept_def by (meson order_trans)

lemma applied_kept_trans:
  "applied_kept r s \<Longrightarrow> applied_kept s t \<Longrightarrow> run_identity_kept r s \<Longrightarrow> applied_kept r t"
  by (auto simp: applied_kept_def run_identity_kept_def)

lemma run_step_trans: "run_step r s \<Longrightarrow> run_step s t \<Longrightarrow> run_step r t"
  unfolding run_step_def
  by (blast intro: run_identity_kept_trans outcome_kept_trans phase_order_kept_trans counters_kept_trans
      applied_kept_trans)

lemma capacity_step_refl [simp]: "capacity_step c c r r"
  by (simp add: capacity_step_def)

lemma capacity_step_trans:
  "capacity_step c d r s \<Longrightarrow> capacity_step d e s t \<Longrightarrow> capacity_step c e r t"
  by (simp add: capacity_step_def)

lemma context_step_refl: "cx_run ctx = Some r \<Longrightarrow> context_step ctx ctx"
  by (auto simp: context_step_def)

lemma context_step_trans:
  assumes "context_step a b" and "context_step b c"
  shows "context_step a c"
proof -
  obtain r s ms where a: "cx_run a = Some r" "cx_run b = Some s" "run_step r s"
    "capacity_step (cx_capacity a) (cx_capacity b) r s"
    "cx_mutations b = cx_mutations a @ ms" "list_all bookkeeping_row ms"
    using assms(1) by (auto simp: context_step_def)
  obtain t ns where b: "cx_run c = Some t" "run_step s t"
    "capacity_step (cx_capacity b) (cx_capacity c) s t"
    "cx_mutations c = cx_mutations b @ ns" "list_all bookkeeping_row ns"
    using assms(2) a(2) by (auto simp: context_step_def)
  have "cx_mutations c = cx_mutations a @ (ms @ ns) \<and> list_all bookkeeping_row (ms @ ns)"
    using a b by simp
  moreover have "capacity_guarded (cu_limits (cx_current a)) (cx_capacity a) (cx_capacity c)"
    using assms capacity_guarded_trans by (force simp: context_step_def)
  moreover have "receipt_kept (cx_receipt a) (cx_receipt c)"
    using assms by (auto simp: context_step_def intro: receipt_kept_trans)
  moreover have "cx_command c = cx_command a \<and> cx_current c = cx_current a \<and> cx_task c = cx_task a"
    using assms by (simp add: context_step_def)
  ultimately show ?thesis
    using a b run_step_trans [OF a(3) b(2)] capacity_step_trans [OF a(4) b(3)]
    by (auto simp: context_step_def)
qed

section \<open>The helpers stay inside the step relation\<close>

lemma require_run_Inr [result_simps]: "require_run ctx = Inr r \<longleftrightarrow> cx_run ctx = Some r"
  by (auto simp: require_run_def split: option.splits)

lemma require_run_Some: "cx_run ctx = Some r \<Longrightarrow> require_run ctx = Inr r"
  by (simp add: require_run_def)

lemma phase_capacity_step:
  assumes "phase_order_kept r r'" and "rn_observation_bytes r' = rn_observation_bytes r"
    and "rn_ordinary_operation_count r' = rn_ordinary_operation_count r"
  shows "capacity_step c (phase_capacity (rn_phase r) (rn_phase r') c) r r'"
  using assms
  by (cases "rn_phase r"; cases "rn_phase r'")
    (simp_all add: phase_capacity_def capacity_step_def queued_count_def active_count_def
      phase_order_kept_def)

lemma set_run_step:
  assumes "set_run f ctx = Inr ctx'"
    and "\<And>r. cx_run ctx = Some r \<Longrightarrow> run_step r (f r) \<and>
      rn_observation_bytes (f r) = rn_observation_bytes r \<and>
      rn_ordinary_operation_count (f r) = rn_ordinary_operation_count r"
  shows "context_step ctx ctx'"
proof -
  obtain r where r: "cx_run ctx = Some r"
    and ctx': "ctx' = ctx\<lparr>cx_capacity := phase_capacity (rn_phase r) (rn_phase (f r)) (cx_capacity ctx),
                cx_run := Some (f r)\<rparr>"
    using assms(1) by (auto simp: set_run_def result_simps Let_def)
  have "run_step r (f r)" and "capacity_step (cx_capacity ctx) (cx_capacity ctx') r (f r)"
    using assms(2) [OF r] by (auto simp: ctx' run_step_def intro!: phase_capacity_step)
  moreover have "capacity_guarded l c (phase_capacity p q c)" for l c p q
    by (simp add: capacity_guarded_def phase_capacity_def Let_def)
  ultimately show ?thesis by (simp add: context_step_def r ctx')
qed

lemma push_mutation_step:
  "cx_run ctx = Some r \<Longrightarrow> bookkeeping_row m \<Longrightarrow> context_step ctx (push_mutation m ctx)"
  by (auto simp: context_step_def push_mutation_def)

lemma set_receipt_step:
  "cx_run ctx = Some r \<Longrightarrow> receipt_kept (cx_receipt ctx) (f (cx_receipt ctx)) \<Longrightarrow>
     context_step ctx (set_receipt f ctx)"
  by (auto simp: context_step_def set_receipt_def)

lemma context_step_run: "context_step ctx ctx' \<Longrightarrow> \<exists>r. cx_run ctx' = Some r"
  by (auto simp: context_step_def)

lemma count_ordinary_step:
  assumes "count_ordinary k ctx = Inr ctx'" and "cx_run ctx = Some r"
  shows "context_step ctx ctx'"
proof (cases "critical_kind k")
  case True
  then show ?thesis using assms by (auto simp: count_ordinary_def intro: context_step_refl)
next
  case False
  then have "cp_ordinary_operations (cx_capacity ctx) < lm_max_ordinary_operations (cu_limits (cx_current ctx))"
    using assms by (auto simp: count_ordinary_def result_simps Let_def)
  moreover have "ctx' = ctx\<lparr>cx_capacity := (cx_capacity ctx)\<lparr>cp_ordinary_operations :=
        cp_ordinary_operations (cx_capacity ctx) + 1\<rparr>,
      cx_run := Some (r\<lparr>rn_ordinary_operation_count := rn_ordinary_operation_count r + 1\<rparr>)\<rparr>"
    using assms False by (auto simp: count_ordinary_def set_run_def phase_capacity_def result_simps Let_def)
  ultimately show ?thesis
    using assms(2) by (auto simp: context_step_def capacity_guarded_def run_step_defs capacity_step_def queued_count_def
        active_count_def)
qed

text \<open>The run after an operation is recorded: an ordinary one is counted.\<close>

definition counted_run :: "operation_kind \<Rightarrow> run_record \<Rightarrow> run_record" where
  "counted_run k r = (if critical_kind k then r
     else r\<lparr>rn_ordinary_operation_count := rn_ordinary_operation_count r + 1\<rparr>)"

lemma add_operation_run:
  assumes "add_operation k at n req ctx = Inr ctx'" and "cx_run ctx = Some r"
  shows "cx_run ctx' = Some (counted_run k r)"
  using assms
  by (auto simp: add_operation_def count_ordinary_def set_run_def push_mutation_def counted_run_def
      result_simps Let_def)

lemma add_operation_step:
  assumes "add_operation k at n req ctx = Inr ctx'"
  shows "context_step ctx ctx'"
proof -
  obtain run ctx1 m where run: "cx_run ctx = Some run" and count: "count_ordinary k ctx = Inr ctx1"
    and ctx': "ctx' = push_mutation (Operation_Row m) ctx1"
    using assms by (auto simp: add_operation_def result_simps Let_def)
  have step: "context_step ctx ctx1" by (rule count_ordinary_step [OF count run])
  then obtain r where "cx_run ctx1 = Some r" using context_step_run by blast
  then have "context_step ctx1 ctx'"
    unfolding ctx' by (rule push_mutation_step) (simp add: bookkeeping_row_def)
  with step show ?thesis by (rule context_step_trans)
qed

lemma settlement_change_step:
  "rn_outcome r = None \<Longrightarrow> run_step r (settlement_change ctx out at r) \<and>
      rn_observation_bytes (settlement_change ctx out at r) = rn_observation_bytes r \<and>
      rn_ordinary_operation_count (settlement_change ctx out at r) = rn_ordinary_operation_count r"
  by (simp add: settlement_change_def run_step_defs)

text \<open>What a settlement leaves behind: the final outcome and one notification row.\<close>

lemma settle_run_Inr:
  assumes "settle_run ext requested at ctx = Inr ctx'"
  obtains r expires envelope ctx1 where "cx_run ctx = Some r" and "rn_outcome r = None"
    and "expires_at at (lm_notification_ttl_ms (cu_limits (cx_current ctx))) = Inr expires"
    and "envelope = settlement_envelope ext ctx r (settled_outcome r requested) at expires"
    and "completion_envelope_schema ext envelope"
    and "delegation_data_bytes (json_of_final_slot (settled_outcome r requested)
          (settlement_notification ctx envelope)) \<le> delegation_final_reservation_bytes"
    and "set_run (settlement_change ctx (settled_outcome r requested) at) ctx = Inr ctx1"
    and "ctx' = push_mutation (Notification_Row (settlement_notification ctx envelope))
      (set_receipt (\<lambda>rc. rc\<lparr>rc_status := Status_Phase Settled,
         rc_notification_id := Some (ev_notification_id envelope)\<rparr>) ctx1)"
  using assms
  by (auto simp: settle_run_def result_simps parse_record_simps Let_def not_less)

lemma settle_run_step:
  assumes "settle_run ext requested at ctx = Inr ctx'"
  shows "context_step ctx ctx'"
proof (rule settle_run_Inr [OF assms])
  fix r expires envelope ctx1
  assume r: "cx_run ctx = Some r" "rn_outcome r = None"
    and set: "set_run (settlement_change ctx (settled_outcome r requested) at) ctx = Inr ctx1"
    and ctx': "ctx' = push_mutation (Notification_Row (settlement_notification ctx envelope))
      (set_receipt (\<lambda>rc. rc\<lparr>rc_status := Status_Phase Settled,
         rc_notification_id := Some (ev_notification_id envelope)\<rparr>) ctx1)"
  have step: "context_step ctx ctx1"
    by (rule set_run_step [OF set]) (use r settlement_change_step in auto)
  then obtain r1 where r1: "cx_run ctx1 = Some r1" using context_step_run by blast
  have "context_step ctx1 (set_receipt (\<lambda>rc. rc\<lparr>rc_status := Status_Phase Settled,
         rc_notification_id := Some (ev_notification_id envelope)\<rparr>) ctx1)"
    by (rule set_receipt_step [OF r1]) (simp add: receipt_kept_def)
  moreover have "context_step \<dots> ctx'"
    unfolding ctx' by (rule push_mutation_step) (simp_all add: set_receipt_def r1 bookkeeping_row_def)
  ultimately show ?thesis by (blast intro: step context_step_trans)
qed

end
