(* ===== verification/Delegation_Execution.thy ===== *)
theory Delegation_Execution
  imports Delegation_Context
begin

text \<open>
  \<open>store-adapter/execution.ts\<close>: the transitions that journal provider intents
  (\<open>dispatchIntent\<close>), their receipts (\<open>operationReceipt\<close>) and the life of a pending request
  (\<open>requestState\<close>).  Each one stays inside \<open>context_step\<close>.
\<close>

fun receipt_dispositions :: "operation_kind \<Rightarrow> operation_disposition list" where
  "receipt_dispositions Op_Admit = []"
| "receipt_dispositions Op_Cancel = []"
| "receipt_dispositions Op_Prepare = [Completed, Rejected, Uncertain]"
| "receipt_dispositions Op_Configure = [Completed, Rejected, Uncertain]"
| "receipt_dispositions Op_Turn = [Delegated, Rejected, Uncertain]"
| "receipt_dispositions Op_Steer = [Delivered, Rejected, Uncertain]"
| "receipt_dispositions Op_Request_Resolution = [Delivered, Rejected, Uncertain]"
| "receipt_dispositions Op_Interrupt = [Interruption_Requested, Completed, Rejected, Uncertain]"
| "receipt_dispositions Op_Session_Close = [Completed, Rejected, Uncertain]"
| "receipt_dispositions Op_Binding_Cleanup = [Completed, Rejected, Uncertain]"

definition command_epoch :: "commit_context \<Rightarrow> int" where
  "command_epoch ctx = ot_epoch (cm_owner (cx_command ctx))"

text \<open>\<open>context.receipt = {...context.receipt, status: requireRun(context).phase}\<close>\<close>

definition phase_receipt :: "commit_context \<Rightarrow> delegation_failure + commit_context" where
  "phase_receipt ctx = and_then (require_run ctx) (\<lambda>run.
     Inr (set_receipt (\<lambda>rc. rc\<lparr>rc_status := Status_Phase (rn_phase run)\<rparr>) ctx))"

section \<open>Dispatch intents\<close>

definition retry_cleanup ::
    "operation_kind \<Rightarrow> string \<Rightarrow> int option \<Rightarrow> operation_record \<Rightarrow> commit_context
      \<Rightarrow> delegation_failure + commit_context" where
  "retry_cleanup kind at attempt prior ctx =
     (if (kind \<noteq> Op_Session_Close \<and> kind \<noteq> Op_Binding_Cleanup) \<or> attempt \<noteq> Some 2 \<or> op_attempts prior \<noteq> 1
         \<or> op_disposition prior \<notin> {Rejected, Uncertain}
         \<or> op_operation_id prior \<noteq> cm_operation_id (cx_command ctx)
         \<or> op_input_digest prior \<noteq> cm_input_digest (cx_command ctx)
      then fail_delegation Operation_Conflict
      else Inr (push_mutation (Operation_Row (prior\<lparr>op_attempts := 2, op_disposition := Intent,
             op_at := at, op_owner_epoch := command_epoch ctx, op_receipt := cx_receipt ctx\<rparr>)) ctx))"

definition other_run_active :: "commit_context \<Rightarrow> run_record \<Rightarrow> bool" where
  "other_run_active ctx run \<longleftrightarrow>
     list_ex (\<lambda>other. rn_run_id other \<noteq> rn_run_id run \<and>
        rn_phase other \<in> {Preparing, Running, Waiting}) (cu_runs (cx_current ctx))"

definition dispatch_phase ::
    "operation_kind \<Rightarrow> target_reference option \<Rightarrow> run_record \<Rightarrow> commit_context
      \<Rightarrow> delegation_failure + commit_context" where
  "dispatch_phase kind applied run ctx =
     (if kind = Op_Prepare then
        if rn_phase run \<noteq> Queued \<or> rn_dispatch run \<noteq> Dispatch_None then fail_delegation Stale_Revision
        else if other_run_active ctx run
          \<or> cp_active_runs (cx_capacity ctx) \<ge> lm_max_active_runs (cu_limits (cx_current ctx))
        then fail_delegation Capacity_Exceeded
        else set_run (\<lambda>r. r\<lparr>rn_phase := Preparing, rn_preparation := Prep_Intended,
               rn_owner_epoch := command_epoch ctx\<rparr>) ctx
      else if kind = Op_Turn then
        if rn_phase run \<noteq> Preparing \<or> rn_preparation run \<noteq> Prep_Completed \<or> rn_dispatch run \<noteq> Dispatch_None
           \<or> \<not> (case applied of None \<Rightarrow> False | Some t \<Rightarrow> same_target t (rn_admitted_target run))
        then fail_delegation Stale_Target
        else set_run (\<lambda>r. r\<lparr>rn_phase := Running, rn_dispatch := Dispatch_Intended,
               rn_applied_target := applied\<rparr>) ctx
      else if kind = Op_Configure \<and> rn_phase run \<noteq> Preparing then fail_delegation Stale_Revision
      else if kind = Op_Steer \<and> rn_phase run \<noteq> Running then fail_delegation Stale_Revision
      else if kind = Op_Request_Resolution then fail_delegation Request_Unavailable
      else if kind = Op_Interrupt
           \<and> (rn_phase run = Queued \<or> rn_phase run = Settled \<or> \<not> rn_cancel_requested run)
        then fail_delegation Stale_Revision
      else Inr ctx)"

definition dispatch_intent ::
    "operation_kind \<Rightarrow> string \<Rightarrow> target_reference option \<Rightarrow> int option \<Rightarrow> commit_context
      \<Rightarrow> delegation_failure + commit_context" where
  "dispatch_intent kind at applied attempt ctx =
     and_then (require_run ctx) (\<lambda>run.
     let critical = cu_critical_operations (cx_current ctx) in
     if rn_owner_epoch run \<noteq> command_epoch ctx \<and> kind \<noteq> Op_Prepare then fail_delegation Recovery_Required
     else case find (\<lambda>x. op_kind x = kind) critical of
       Some prior \<Rightarrow> retry_cleanup kind at attempt prior ctx
     | None \<Rightarrow>
         if (case attempt of None \<Rightarrow> 1 | Some n \<Rightarrow> n) \<noteq> 1 then fail_delegation Stale_Revision
         else if kind = Op_Binding_Cleanup \<and> \<not> list_ex (\<lambda>x. op_kind x = Op_Session_Close) critical
           then fail_delegation Stale_Revision
         else if \<not> critical_kind kind \<and> (tk_state (cx_task ctx) = Task_Retired
              \<or> tk_state (cx_task ctx) = Task_Recovery_Required \<or> rn_cancel_requested run)
           then fail_delegation Recovery_Required
         else and_then (dispatch_phase kind applied run ctx) (\<lambda>ctx1.
              and_then (add_operation kind at 1 None ctx1) phase_receipt))"

section \<open>Receipts\<close>

definition receipt_operation ::
    "operation_disposition \<Rightarrow> string \<Rightarrow> string option \<Rightarrow> request_eligibility option
      \<Rightarrow> operation_record \<Rightarrow> commit_context \<Rightarrow> operation_record" where
  "receipt_operation disposition at message rs prior ctx = prior\<lparr>
     op_disposition := disposition, op_at := at,
     op_request_state := (case rs of None \<Rightarrow> op_request_state prior | Some s \<Rightarrow> Some s),
     op_message := (case message of None \<Rightarrow> op_message prior
                    | Some m \<Rightarrow> if m = [] then op_message prior else Some m),
     op_receipt := (cx_receipt ctx)\<lparr>rc_operation_id := Some (cm_operation_id (cx_command ctx))\<rparr>\<rparr>"

definition request_delivery_state ::
    "request_status \<Rightarrow> operation_disposition \<Rightarrow> request_eligibility option \<Rightarrow> request_status" where
  "request_delivery_state state disposition rs =
     (if state = Request_Unavailable_State then Request_Unavailable_State
      else if disposition = Delivered then Request_Resolved
      else if rs = Some Eligible_Pending then Request_Waiting
      else Request_Unavailable_State)"

definition deliver_change ::
    "operation_disposition \<Rightarrow> request_eligibility option \<Rightarrow> historical_request \<Rightarrow> run_record \<Rightarrow> run_record" where
  "deliver_change disposition rs pending run =
     (let state = request_delivery_state (hr_state pending) disposition rs
      in run\<lparr>rn_phase := (if rn_phase run = Settled then Settled
                         else if state = Request_Waiting then Waiting else Running),
             rn_pending_request := Some (pending\<lparr>hr_state := state\<rparr>)\<rparr>)"

definition deliver_pending ::
    "operation_disposition \<Rightarrow> request_eligibility option \<Rightarrow> operation_request \<Rightarrow> run_record
      \<Rightarrow> commit_context \<Rightarrow> delegation_failure + commit_context" where
  "deliver_pending disposition rs request run ctx =
     (case rn_pending_request run of
        None \<Rightarrow> Inr ctx
      | Some pending \<Rightarrow>
          if hr_request_id pending = or_request_id request
             \<and> hr_request_kind pending = or_request_kind request
          then if hr_state pending \<noteq> Resolution_Intended \<and> hr_state pending \<noteq> Request_Unavailable_State
               then fail_delegation Request_Unavailable
               else set_run (deliver_change disposition rs pending) ctx
          else Inr ctx)"

definition deliver_request ::
    "operation_disposition \<Rightarrow> request_eligibility option \<Rightarrow> operation_record \<Rightarrow> commit_context
      \<Rightarrow> delegation_failure + commit_context" where
  "deliver_request disposition rs prior ctx =
     and_then (require_run ctx) (\<lambda>run.
       case op_request prior of
         None \<Rightarrow> fail_delegation Operation_Conflict
       | Some request \<Rightarrow> and_then (deliver_pending disposition rs request run ctx) phase_receipt)"

definition receipt_effect ::
    "operation_disposition \<Rightarrow> operation_kind \<Rightarrow> run_record \<Rightarrow> run_record" where
  "receipt_effect disposition kind r =
     (let r1 = (if kind = Op_Turn \<and> disposition = Delegated
                then r\<lparr>rn_dispatch := Dispatch_Delegated\<rparr> else r);
          r2 = (if kind = Op_Prepare \<and> disposition = Completed then r1\<lparr>rn_preparation := Prep_Completed\<rparr>
                else if kind = Op_Prepare \<and> disposition = Uncertain then r1\<lparr>rn_preparation := Prep_Uncertain\<rparr>
                else if kind = Op_Prepare \<and> disposition = Rejected then r1\<lparr>rn_preparation := Prep_None\<rparr>
                else r1)
      in if disposition = Uncertain \<and> kind = Op_Steer
           then r2\<lparr>rn_recovery_reason := Some Steering_Uncertain\<rparr>
         else if disposition = Uncertain \<and> (kind = Op_Configure \<or> kind = Op_Request_Resolution)
           then r2\<lparr>rn_recovery_reason := Some (if kind = Op_Request_Resolution
                    then Request_Executor_Lost else Dispatch_Uncertain)\<rparr>
         else r2)"

definition receipt_needs_run :: "operation_disposition \<Rightarrow> operation_kind \<Rightarrow> bool" where
  "receipt_needs_run disposition kind \<longleftrightarrow>
     (kind = Op_Turn \<and> disposition = Delegated)
     \<or> (kind = Op_Prepare \<and> disposition \<in> {Completed, Uncertain, Rejected})
     \<or> (disposition = Uncertain \<and> kind \<in> {Op_Steer, Op_Configure, Op_Request_Resolution})"

definition operation_receipt ::
    "operation_disposition \<Rightarrow> string \<Rightarrow> string option \<Rightarrow> request_eligibility option \<Rightarrow> commit_context
      \<Rightarrow> delegation_failure + commit_context" where
  "operation_receipt disposition at message rs ctx =
     (case cu_operation (cx_current ctx) of
        None \<Rightarrow> fail_delegation Operation_Conflict
      | Some prior \<Rightarrow>
        if Some (op_run_id prior) \<noteq> cm_run_id (cx_command ctx)
           \<or> op_input_digest prior \<noteq> cm_input_digest (cx_command ctx)
          then fail_delegation Operation_Conflict
        else if disposition \<notin> set (receipt_dispositions (op_kind prior))
          then fail_delegation Operation_Conflict
        else if (op_kind prior = Op_Request_Resolution \<and> disposition = Rejected) \<noteq> (rs \<noteq> None)
          then fail_delegation Operation_Conflict
        else if op_disposition prior \<in> {Delivered, Rejected, Completed}
           \<or> (op_kind prior = Op_Request_Resolution \<and> op_disposition prior = Uncertain)
          then fail_delegation Operation_Conflict
        else if op_owner_epoch prior \<noteq> command_epoch ctx then fail_delegation Recovery_Required
        else if op_kind prior = Op_Binding_Cleanup \<and> disposition = Completed
           \<and> \<not> list_ex (\<lambda>x. op_kind x = Op_Session_Close \<and> op_disposition x = Completed)
                 (cu_critical_operations (cx_current ctx))
          then fail_delegation Stale_Revision
        else
          let operation = receipt_operation disposition at message rs prior ctx
          in if operation_bytes operation > delegation_critical_slot_bytes
             then fail_delegation Capacity_Exceeded
             else
               and_then (if op_kind prior = Op_Request_Resolution
                         then deliver_request disposition rs prior (push_mutation (Operation_Row operation) ctx)
                         else Inr (push_mutation (Operation_Row operation) ctx)) (\<lambda>ctx1.
                 if receipt_needs_run disposition (op_kind prior)
                 then set_run (receipt_effect disposition (op_kind prior)) ctx1
                 else Inr ctx1))"

section \<open>Requests\<close>

definition request_expired :: "historical_request \<Rightarrow> string \<Rightarrow> bool" where
  "request_expired request at \<longleftrightarrow>
     (case hr_expires_at request of None \<Rightarrow> False
      | Some e \<Rightarrow> e \<noteq> [] \<and> js_le (date_parse e) (date_parse at))"

definition set_pending :: "historical_request \<Rightarrow> request_status \<Rightarrow> run_record \<Rightarrow> run_record" where
  "set_pending pending state r = r\<lparr>rn_pending_request := Some (pending\<lparr>hr_state := state\<rparr>)\<rparr>"

definition close_request ::
    "request_change \<Rightarrow> historical_request \<Rightarrow> run_record \<Rightarrow> commit_context
      \<Rightarrow> delegation_failure + commit_context" where
  "close_request change pending run ctx =
     (if change = Resolved \<and> hr_state pending \<noteq> Resolution_Intended
      then fail_delegation Request_Unavailable
      else set_run (\<lambda>r. set_pending pending
             (if change = Resolved then Request_Resolved else Request_Unavailable_State)
             (if change = Unavailable \<and> rn_phase run = Waiting then r\<lparr>rn_phase := Running\<rparr> else r)) ctx)"

definition intend_resolution ::
    "historical_request \<Rightarrow> string \<Rightarrow> run_record \<Rightarrow> commit_context \<Rightarrow> delegation_failure + commit_context" where
  "intend_resolution pending at run ctx =
     (if rn_phase run \<noteq> Waiting \<or> hr_state pending \<noteq> Request_Waiting
         \<or> rn_owner_epoch run \<noteq> command_epoch ctx \<or> rn_cancel_requested run
         \<or> request_expired pending at
      then fail_delegation Request_Unavailable
      else and_then (add_operation Op_Request_Resolution at 1
             (Some \<lparr>or_request_id = hr_request_id pending, or_request_kind = hr_request_kind pending\<rparr>) ctx)
           (set_run (\<lambda>r. set_pending pending Resolution_Intended (r\<lparr>rn_phase := Running\<rparr>))))"

definition request_state ::
    "request_change \<Rightarrow> historical_request \<Rightarrow> string \<Rightarrow> commit_context
      \<Rightarrow> delegation_failure + commit_context" where
  "request_state change request at ctx =
     and_then (require_run ctx) (\<lambda>run.
     and_then
       (if change = Opened then
          if rn_phase run \<noteq> Running \<or> hr_state request \<noteq> Request_Waiting
             \<or> rn_owner_epoch run \<noteq> command_epoch ctx
          then fail_delegation Request_Unavailable
          else set_run (\<lambda>r. r\<lparr>rn_phase := Waiting, rn_pending_request := Some request\<rparr>) ctx
        else case rn_pending_request run of
          None \<Rightarrow> fail_delegation Request_Unavailable
        | Some pending \<Rightarrow>
            if hr_request_id pending \<noteq> hr_request_id request
               \<or> hr_request_kind pending \<noteq> hr_request_kind request
            then fail_delegation Request_Unavailable
            else if change = Intend_Resolution then intend_resolution pending at run ctx
            else close_request change pending run ctx)
       phase_receipt)"

section \<open>The transitions stay inside the step relation\<close>

lemma phase_receipt_step:
  assumes "phase_receipt ctx = Inr ctx'"
  shows "context_step ctx ctx'"
proof -
  obtain r where r: "cx_run ctx = Some r"
    and ctx': "ctx' = set_receipt (\<lambda>rc. rc\<lparr>rc_status := Status_Phase (rn_phase r)\<rparr>) ctx"
    using assms by (auto simp: phase_receipt_def result_simps)
  show ?thesis unfolding ctx' by (rule set_receipt_step [OF r]) (simp add: receipt_kept_def)
qed

lemma dispatch_phase_step:
  assumes "dispatch_phase kind applied run ctx = Inr ctx'" and "cx_run ctx = Some run"
  shows "context_step ctx ctx'"
proof -
  consider (prepare) "rn_phase run = Queued"
      "set_run (\<lambda>r. r\<lparr>rn_phase := Preparing, rn_preparation := Prep_Intended,
               rn_owner_epoch := command_epoch ctx\<rparr>) ctx = Inr ctx'"
    | (turn) "rn_phase run = Preparing" "applied = Some (rn_admitted_target run)"
      "set_run (\<lambda>r. r\<lparr>rn_phase := Running, rn_dispatch := Dispatch_Intended,
               rn_applied_target := applied\<rparr>) ctx = Inr ctx'"
    | (same) "ctx' = ctx"
    using assms(1) by (auto simp: dispatch_phase_def result_simps split: if_splits option.splits)
  then show ?thesis
  proof cases
    case prepare
    then show ?thesis by (intro set_run_step [OF prepare(2)]) (simp add: assms(2) run_step_defs)
  next
    case turn
    then show ?thesis by (intro set_run_step [OF turn(3)]) (simp add: assms(2) run_step_defs)
  next
    case same
    then show ?thesis using context_step_refl [OF assms(2)] by simp
  qed
qed

lemma dispatch_intent_step:
  assumes "dispatch_intent kind at applied attempt ctx = Inr ctx'"
  shows "context_step ctx ctx'"
proof -
  obtain run where run: "cx_run ctx = Some run"
    using assms by (auto simp: dispatch_intent_def result_simps)
  show ?thesis
  proof (cases "find (\<lambda>x. op_kind x = kind) (cu_critical_operations (cx_current ctx))")
    case None
    then obtain ctx1 ctx2 where "dispatch_phase kind applied run ctx = Inr ctx1"
      "add_operation kind at 1 None ctx1 = Inr ctx2" "phase_receipt ctx2 = Inr ctx'"
      using assms run by (auto simp: dispatch_intent_def result_simps Let_def)
    then have "context_step ctx ctx1" "context_step ctx1 ctx2" "context_step ctx2 ctx'"
      using run by (auto intro: dispatch_phase_step add_operation_step phase_receipt_step)
    then show ?thesis by (blast intro: context_step_trans)
  next
    case (Some prior)
    then have "\<exists>m. ctx' = push_mutation (Operation_Row m) ctx"
      using assms run by (auto simp: dispatch_intent_def retry_cleanup_def result_simps Let_def)
    then show ?thesis
      by (auto intro: push_mutation_step [OF run] simp: bookkeeping_row_def)
  qed
qed

lemma deliver_pending_cases:
  assumes "deliver_pending disposition rs request run ctx = Inr ctx'"
  shows "ctx' = ctx \<or> (\<exists>pending. set_run (deliver_change disposition rs pending) ctx = Inr ctx')"
proof (cases "rn_pending_request run")
  case None
  then show ?thesis using assms by (simp add: deliver_pending_def)
next
  case (Some pending)
  show ?thesis
  proof (cases "hr_request_id pending = or_request_id request \<and> hr_request_kind pending = or_request_kind request")
    case True
    then have "set_run (deliver_change disposition rs pending) ctx = Inr ctx'"
      using assms Some unfolding deliver_pending_def by (simp only: option.case simp_thms if_True if_fail_Inr)
    then show ?thesis by blast
  next
    case False
    then have "ctx' = ctx"
      using assms Some unfolding deliver_pending_def by (simp only: option.case simp_thms if_False sum.inject)
    then show ?thesis by blast
  qed
qed

lemma deliver_pending_step:
  assumes "deliver_pending disposition rs request run ctx = Inr ctx'" and "cx_run ctx = Some run"
  shows "context_step ctx ctx'"
  using deliver_pending_cases [OF assms(1)]
proof (elim disjE exE)
  assume "ctx' = ctx"
  then show ?thesis using context_step_refl [OF assms(2)] by simp
next
  fix pending assume "set_run (deliver_change disposition rs pending) ctx = Inr ctx'"
  then show ?thesis by (rule set_run_step) (auto simp: deliver_change_def Let_def run_step_defs)
qed

lemma deliver_request_step:
  assumes "deliver_request disposition rs prior ctx = Inr ctx'"
  shows "context_step ctx ctx'"
proof -
  obtain run request ctx1 where "cx_run ctx = Some run"
    "deliver_pending disposition rs request run ctx = Inr ctx1" "phase_receipt ctx1 = Inr ctx'"
    using assms by (auto simp: deliver_request_def result_simps split: option.splits)
  then show ?thesis by (blast intro: context_step_trans deliver_pending_step phase_receipt_step)
qed

lemma receipt_effect_step:
  "run_step r (receipt_effect d k r) \<and> rn_observation_bytes (receipt_effect d k r) = rn_observation_bytes r \<and>
     rn_ordinary_operation_count (receipt_effect d k r) = rn_ordinary_operation_count r"
  by (simp add: receipt_effect_def Let_def run_step_defs)

lemma operation_receipt_step:
  assumes "operation_receipt disposition at message rs ctx = Inr ctx'" and "cx_run ctx = Some run"
  shows "context_step ctx ctx'"
proof -
  obtain prior x ctx1 where
    mid: "(if op_kind prior = Op_Request_Resolution
        then deliver_request disposition rs prior (push_mutation (Operation_Row x) ctx)
        else Inr (push_mutation (Operation_Row x) ctx)) = Inr ctx1"
    and last: "(if receipt_needs_run disposition (op_kind prior)
        then set_run (receipt_effect disposition (op_kind prior)) ctx1 else Inr ctx1) = Inr ctx'"
    using assms(1)
    by (auto simp: operation_receipt_def result_simps Let_def split: option.splits)
  have "context_step ctx (push_mutation (Operation_Row x) ctx)"
    by (rule push_mutation_step [OF assms(2)]) (simp add: bookkeeping_row_def)
  then have one: "context_step ctx ctx1"
    using mid by (auto split: if_splits intro: context_step_trans deliver_request_step)
  then obtain r1 where r1: "cx_run ctx1 = Some r1" using context_step_run by blast
  have "context_step ctx1 ctx'"
  proof (cases "receipt_needs_run disposition (op_kind prior)")
    case True
    then have "set_run (receipt_effect disposition (op_kind prior)) ctx1 = Inr ctx'" using last by simp
    then show ?thesis by (rule set_run_step) (rule receipt_effect_step)
  next
    case False
    then show ?thesis using last context_step_refl [OF r1] by simp
  qed
  with one show ?thesis by (rule context_step_trans)
qed

lemma request_state_step:
  assumes "request_state change request at ctx = Inr ctx'"
  shows "context_step ctx ctx'"
proof -
  obtain run ctx1 where run: "cx_run ctx = Some run"
    and mid: "(if change = Opened then
          if rn_phase run \<noteq> Running \<or> hr_state request \<noteq> Request_Waiting
             \<or> rn_owner_epoch run \<noteq> command_epoch ctx
          then fail_delegation Request_Unavailable
          else set_run (\<lambda>r. r\<lparr>rn_phase := Waiting, rn_pending_request := Some request\<rparr>) ctx
        else case rn_pending_request run of
          None \<Rightarrow> fail_delegation Request_Unavailable
        | Some pending \<Rightarrow>
            if hr_request_id pending \<noteq> hr_request_id request
               \<or> hr_request_kind pending \<noteq> hr_request_kind request
            then fail_delegation Request_Unavailable
            else if change = Intend_Resolution then intend_resolution pending at run ctx
            else close_request change pending run ctx) = Inr ctx1"
    and rcpt: "phase_receipt ctx1 = Inr ctx'"
    using assms by (auto simp: request_state_def result_simps)
  have opened: "context_step ctx ctx1" if "rn_phase run = Running"
    "set_run (\<lambda>r. r\<lparr>rn_phase := Waiting, rn_pending_request := Some request\<rparr>) ctx = Inr ctx1"
    using that by (intro set_run_step [OF that(2)]) (simp add: run run_step_defs)
  have closed: "context_step ctx ctx1" if "close_request change pending run ctx = Inr ctx1" for pending
  proof -
    from that have "set_run (\<lambda>r. set_pending pending
             (if change = Resolved then Request_Resolved else Request_Unavailable_State)
             (if change = Unavailable \<and> rn_phase run = Waiting then r\<lparr>rn_phase := Running\<rparr> else r)) ctx = Inr ctx1"
      by (auto simp: close_request_def result_simps)
    then show ?thesis by (rule set_run_step) (auto simp: run run_step_defs set_pending_def)
  qed
  have intended: "context_step ctx ctx1" if i: "intend_resolution pending at run ctx = Inr ctx1" for pending
  proof -
    obtain req ctx0 where a: "add_operation Op_Request_Resolution at 1 req ctx = Inr ctx0"
      and phase: "rn_phase run = Waiting"
      and b: "set_run (\<lambda>r. set_pending pending Resolution_Intended (r\<lparr>rn_phase := Running\<rparr>)) ctx0 = Inr ctx1"
      using i by (auto simp: intend_resolution_def result_simps)
    have step: "context_step ctx ctx0" by (rule add_operation_step [OF a])
    have r0: "cx_run ctx0 = Some (counted_run Op_Request_Resolution run)"
      by (rule add_operation_run [OF a run])
    have "context_step ctx0 ctx1"
      by (rule set_run_step [OF b]) (auto simp: r0 run_step_defs set_pending_def phase counted_run_def)
    with step show ?thesis by (rule context_step_trans)
  qed
  have "context_step ctx ctx1"
    using mid opened closed intended by (auto simp: result_simps split: if_splits option.splits)
  then show ?thesis using phase_receipt_step [OF rcpt] by (rule context_step_trans)
qed

end
