(* ===== verification/Delegation_Lifecycle.thy ===== *)
theory Delegation_Lifecycle
  imports Delegation_Execution
begin

text \<open>
  \<open>store-adapter/lifecycle.ts\<close>: observations, cancellation, settlement and the retirement of a
  task that needs recovery.
\<close>

section \<open>Observations\<close>

definition observation_bytes :: "task_observation \<Rightarrow> int" where
  "observation_bytes b = delegation_data_bytes (json_of_observation b)"

lemma observation_bytes_nonneg [simp]: "0 \<le> observation_bytes b"
  by (simp add: observation_bytes_def)

definition observation_digest :: "externals \<Rightarrow> task_observation \<Rightarrow> string" where
  "observation_digest ext b = delegation_input_digest ext (json_of_observation b)"

definition omission_marker ::
    "commit_context \<Rightarrow> run_record \<Rightarrow> task_observation \<Rightarrow> int \<Rightarrow> task_observation" where
  "omission_marker ctx run observation omitted =
     (case cu_omission_observation (cx_current ctx) of
        Some marker \<Rightarrow> marker\<lparr>ob_omitted := Some omitted\<rparr>
      | None \<Rightarrow> \<lparr>ob_store_id = cu_store_id (cx_current ctx), ob_task_id = rn_task_id run,
          ob_run_id = rn_run_id run, ob_index = ob_index observation, ob_at = ob_at observation,
          ob_kind = Ob_Omitted, ob_phase = None, ob_text = None, ob_request = None,
          ob_omitted = Some omitted\<rparr>)"

definition observation_overflows :: "commit_context \<Rightarrow> run_record \<Rightarrow> int \<Rightarrow> bool" where
  "observation_overflows ctx run bytes \<longleftrightarrow>
     (let limits = cu_limits (cx_current ctx) in
      bytes > lm_max_observation_bytes limits
      \<or> rn_observation_count run \<ge> lm_max_run_observations limits
      \<or> rn_observation_bytes run + bytes > lm_max_run_observation_bytes limits
      \<or> cp_observation_bytes (cx_capacity ctx) + bytes > lm_max_retained_observation_bytes limits)"

definition observe_run ::
    "externals \<Rightarrow> task_observation \<Rightarrow> commit_context \<Rightarrow> delegation_failure + commit_context" where
  "observe_run ext observation ctx =
     and_then (require_run ctx) (\<lambda>run.
     if rn_phase run = Queued \<or> rn_phase run = Settled \<or> rn_owner_epoch run \<noteq> command_epoch ctx
        \<or> ob_store_id observation \<noteq> cu_store_id (cx_current ctx)
        \<or> ob_task_id observation \<noteq> rn_task_id run \<or> ob_run_id observation \<noteq> rn_run_id run
        \<or> ob_index observation \<noteq> rn_observation_index run + 1 \<or> ob_kind observation = Ob_Omitted
     then fail_delegation Stale_Revision
     else
       let bytes = observation_bytes observation; digest = observation_digest ext observation in
       if observation_overflows ctx run bytes then
         let omitted = rn_omitted_observations run + 1 in
         and_then (set_run (\<lambda>r. r\<lparr>rn_observation_index := ob_index observation,
                     rn_omitted_observations := omitted, rn_last_observation_digest := Some digest\<rparr>)
                   (push_mutation (Observation_Row (omission_marker ctx run observation omitted)) ctx))
           (\<lambda>ctx1. Inr (set_receipt (\<lambda>rc. rc\<lparr>rc_status := Status_Omitted\<rparr>) ctx1))
       else
         and_then (set_run (\<lambda>r. r\<lparr>rn_observation_index := ob_index observation,
                     rn_observation_count := rn_observation_count run + 1,
                     rn_observation_bytes := rn_observation_bytes run + bytes,
                     rn_last_observation_digest := Some digest\<rparr>)
                   (push_mutation (Observation_Row observation) ctx))
           (\<lambda>ctx1. Inr (ctx1\<lparr>cx_capacity := (cx_capacity ctx1)\<lparr>cp_observation_bytes :=
              cp_observation_bytes (cx_capacity ctx1) + bytes\<rparr>\<rparr>)))"

section \<open>Cancellation and settlement\<close>

definition undispatched :: "run_record \<Rightarrow> bool" where
  "undispatched run \<longleftrightarrow>
     rn_phase run = Queued \<and> rn_preparation run = Prep_None \<and> rn_dispatch run = Dispatch_None"

definition cancel_run ::
    "externals \<Rightarrow> string \<Rightarrow> commit_context \<Rightarrow> delegation_failure + commit_context" where
  "cancel_run ext at ctx =
     and_then (require_run ctx) (\<lambda>run.
     if rn_phase run = Settled then
       add_operation Op_Cancel at 1 None
         (set_receipt (\<lambda>rc. rc\<lparr>rc_status := Status_Phase Settled\<rparr>) ctx)
     else
       and_then (set_run (\<lambda>r. r\<lparr>rn_cancel_requested := True\<rparr>) ctx) (\<lambda>ctx1.
       and_then (if undispatched run then settle_run ext (Canceled Not_Dispatched) at ctx1 else Inr ctx1)
         (add_operation Op_Cancel at 1 None)))"

definition settle ::
    "externals \<Rightarrow> run_outcome \<Rightarrow> string \<Rightarrow> commit_context \<Rightarrow> delegation_failure + commit_context" where
  "settle ext outcome at ctx =
     and_then (require_run ctx) (\<lambda>run.
     if ((case outcome of Succeeded _ \<Rightarrow> True | _ \<Rightarrow> False) \<or> outcome = Canceled Provider_Terminal)
        \<and> rn_phase run \<noteq> Running \<and> rn_phase run \<noteq> Waiting
       then fail_delegation Stale_Revision
     else if (case outcome of Failed _ \<Rightarrow> True | _ \<Rightarrow> False)
        \<and> (rn_preparation run = Prep_Intended \<or> rn_preparation run = Prep_Uncertain)
        \<and> rn_phase run = Preparing
       then fail_delegation Recovery_Required
     else if outcome = Canceled Not_Dispatched \<and> \<not> undispatched run
       then fail_delegation Stale_Revision
     else if rn_owner_epoch run \<noteq> command_epoch ctx \<and> \<not> is_recovery_outcome outcome
        \<and> \<not> undispatched run
       then fail_delegation Recovery_Required
     else settle_run ext outcome at ctx)"

definition retire_recovery ::
    "string \<Rightarrow> string \<Rightarrow> commit_context \<Rightarrow> delegation_failure + commit_context" where
  "retire_recovery reason at ctx =
     (if tk_state (cx_task ctx) \<noteq> Task_Recovery_Required
         \<or> list_ex (\<lambda>r. rn_phase r \<noteq> Settled) (cu_runs (cx_current ctx))
      then fail_delegation Recovery_Required
      else Inr (set_receipt (\<lambda>rc. rc\<lparr>rc_status := Status_Retired\<rparr>)
        (ctx\<lparr>cx_task := (cx_task ctx)\<lparr>tk_state := Task_Retired, tk_retired_at := Some at,
          tk_retirement := Some \<lparr>rt_operation_id = cm_operation_id (cx_command ctx),
            rt_input_digest = cm_input_digest (cx_command ctx), rt_reason = reason\<rparr>\<rparr>\<rparr>)))"

section \<open>The transitions stay inside the step relation\<close>

lemma observe_run_cases:
  assumes "observe_run ext b ctx = Inr ctx'" and "cx_run ctx = Some run"
  shows "ob_index b = rn_observation_index run + 1 \<and> ob_run_id b = rn_run_id run \<and>
    rn_phase run \<noteq> Queued \<and> rn_phase run \<noteq> Settled \<and> ob_kind b \<noteq> Ob_Omitted \<and>
    (if observation_overflows ctx run (observation_bytes b)
     then ctx' = set_receipt (\<lambda>rc. rc\<lparr>rc_status := Status_Omitted\<rparr>)
       ((push_mutation (Observation_Row
           (omission_marker ctx run b (rn_omitted_observations run + 1))) ctx)
        \<lparr>cx_run := Some (run\<lparr>rn_observation_index := ob_index b,
            rn_omitted_observations := rn_omitted_observations run + 1,
            rn_last_observation_digest := Some (observation_digest ext b)\<rparr>)\<rparr>)
     else ctx' = (push_mutation (Observation_Row b) ctx)
       \<lparr>cx_run := Some (run\<lparr>rn_observation_index := ob_index b,
            rn_observation_count := rn_observation_count run + 1,
            rn_observation_bytes := rn_observation_bytes run + observation_bytes b,
            rn_last_observation_digest := Some (observation_digest ext b)\<rparr>),
        cx_capacity := (cx_capacity ctx)\<lparr>cp_observation_bytes :=
          cp_observation_bytes (cx_capacity ctx) + observation_bytes b\<rparr>\<rparr>)"
  using assms
  by (cases "observation_overflows ctx run (observation_bytes b)")
    (auto simp: observe_run_def set_run_def phase_capacity_def push_mutation_def set_receipt_def
      result_simps Let_def)

lemma observe_run_step:
  assumes "observe_run ext b ctx = Inr ctx'"
  shows "context_step ctx ctx'"
proof -
  obtain run where run: "cx_run ctx = Some run"
    using assms by (auto simp: observe_run_def result_simps)
  show ?thesis
    using observe_run_cases [OF assms run] run
    by (auto simp: context_step_def push_mutation_def set_receipt_def run_step_defs capacity_step_def
        queued_count_def active_count_def bookkeeping_row_def receipt_kept_def capacity_guarded_def
        observation_overflows_def Let_def split: if_splits)
qed

lemma cancel_run_step:
  assumes "cancel_run ext at ctx = Inr ctx'"
  shows "context_step ctx ctx'"
proof -
  obtain run where run: "cx_run ctx = Some run"
    using assms by (auto simp: cancel_run_def result_simps)
  show ?thesis
  proof (cases "rn_phase run = Settled")
    case True
    have "context_step ctx (set_receipt (\<lambda>rc. rc\<lparr>rc_status := Status_Phase Settled\<rparr>) ctx)"
      by (rule set_receipt_step [OF run]) (simp add: receipt_kept_def)
    moreover have "context_step \<dots> ctx'"
      using assms True by (auto simp: cancel_run_def require_run_Some [OF run] intro: add_operation_step)
    ultimately show ?thesis by (rule context_step_trans)
  next
    case False
    then obtain ctx1 ctx2 where a: "set_run (\<lambda>r. r\<lparr>rn_cancel_requested := True\<rparr>) ctx = Inr ctx1"
      and b: "(if undispatched run then settle_run ext (Canceled Not_Dispatched) at ctx1 else Inr ctx1) = Inr ctx2"
      and c: "add_operation Op_Cancel at 1 None ctx2 = Inr ctx'"
      using assms run by (auto simp: cancel_run_def result_simps)
    have one: "context_step ctx ctx1" by (rule set_run_step [OF a]) (simp add: run_step_defs)
    then obtain r1 where "cx_run ctx1 = Some r1" using context_step_run by blast
    then have "context_step ctx1 ctx2"
      using b by (auto split: if_splits intro: settle_run_step context_step_refl)
    with one add_operation_step [OF c] show ?thesis by (blast intro: context_step_trans)
  qed
qed

lemma settle_Inr:
  "settle ext outcome at ctx = Inr ctx' \<Longrightarrow> settle_run ext outcome at ctx = Inr ctx'"
  by (auto simp: settle_def result_simps)

lemma settle_step: "settle ext outcome at ctx = Inr ctx' \<Longrightarrow> context_step ctx ctx'"
  by (blast intro: settle_run_step settle_Inr)

end
