(* ===== verification/Delegation_Delivery.thy ===== *)
theory Delegation_Delivery
  imports Delegation_Lifecycle
begin

text \<open>
  \<open>store-adapter/delivery.ts\<close>: the claim and receipt of a notification delivery, their retry by
  the retained bookkeeping slots, and the state machine of a notification as a step relation.
\<close>

datatype delivery_slot = Claim_Slot | Receipt_Slot

record attempt_identity =
  ai_attempt_id :: string
  ai_claim_operation_id :: string
  ai_receipt_operation_id :: string

definition delivery_attempt_identity :: "externals \<Rightarrow> string \<Rightarrow> int \<Rightarrow> attempt_identity" where
  "delivery_attempt_identity ext notification_id attempt =
     (let attempt_id = delegation_subordinate_id ext notification_id (''delivery-attempt:'' @ int_string attempt)
      in \<lparr>ai_attempt_id = attempt_id,
          ai_claim_operation_id = delegation_subordinate_id ext attempt_id ''claim'',
          ai_receipt_operation_id = delegation_subordinate_id ext attempt_id ''receipt''\<rparr>)"

definition slot_commit :: "delivery_slot \<Rightarrow> delivery_slots option \<Rightarrow> delivery_commit option" where
  "slot_commit slot slots =
     (case slots of None \<Rightarrow> None
      | Some d \<Rightarrow> (case slot of Claim_Slot \<Rightarrow> ds_claim d | Receipt_Slot \<Rightarrow> ds_receipt d))"

definition other_slot :: "delivery_slot \<Rightarrow> delivery_slot" where
  "other_slot slot = (case slot of Claim_Slot \<Rightarrow> Receipt_Slot | Receipt_Slot \<Rightarrow> Claim_Slot)"

definition put_slot :: "delivery_slot \<Rightarrow> delivery_commit \<Rightarrow> delivery_slots option \<Rightarrow> delivery_slots option" where
  "put_slot slot commit slots =
     (let d = (case slots of None \<Rightarrow> \<lparr>ds_claim = None, ds_receipt = None\<rparr> | Some d \<Rightarrow> d)
      in Some (case slot of Claim_Slot \<Rightarrow> d\<lparr>ds_claim := Some commit\<rparr>
                          | Receipt_Slot \<Rightarrow> d\<lparr>ds_receipt := Some commit\<rparr>))"

lemma slot_commit_put [simp]: "slot_commit slot (put_slot slot c d) = Some c"
  by (simp add: slot_commit_def put_slot_def Let_def split: delivery_slot.splits)

lemma slot_commit_put_other [simp]:
  "slot_commit (other_slot slot) (put_slot slot c d) = slot_commit (other_slot slot) d"
  by (cases slot; cases d) (simp_all add: slot_commit_def put_slot_def other_slot_def Let_def)

definition command_digest :: "externals \<Rightarrow> store_command \<Rightarrow> string" where
  "command_digest ext c = delegation_input_digest ext (json_of_command c)"

definition next_attempt :: "delivery_slot \<Rightarrow> notification_record \<Rightarrow> int" where
  "next_attempt slot n = nt_attempts n + (if slot = Claim_Slot then 1 else 0)"

section \<open>Retries\<close>

definition duplicate_delivery ::
    "externals \<Rightarrow> delivery_slot \<Rightarrow> string \<Rightarrow> string \<Rightarrow> store_command \<Rightarrow> commit_current
      \<Rightarrow> delegation_failure + commit_receipt option" where
  "duplicate_delivery ext slot notification_id attempt_id command current =
     (case cu_notification current of
        None \<Rightarrow> fail_delegation Stale_Revision
      | Some n \<Rightarrow>
        if ev_notification_id (nt_envelope n) \<noteq> notification_id
           \<or> ev_task_id (nt_envelope n) \<noteq> cm_task_id command
           \<or> Some (ev_run_id (nt_envelope n)) \<noteq> cm_run_id command
        then fail_delegation Stale_Revision
        else if map_option dc_operation_id (slot_commit (other_slot slot) (nt_delivery n))
                = Some (cm_operation_id command)
        then fail_delegation Operation_Conflict
        else
          (let fresh =
             (let attempt = next_attempt slot n in
              if \<not> safe_integer attempt \<or> attempt < 1 then fail_delegation Capacity_Exceeded
              else
                let identity = delivery_attempt_identity ext notification_id attempt in
                if attempt_id \<noteq> ai_attempt_id identity
                   \<or> cm_operation_id command \<noteq>
                       (case slot of Claim_Slot \<Rightarrow> ai_claim_operation_id identity
                        | Receipt_Slot \<Rightarrow> ai_receipt_operation_id identity)
                then fail_delegation Stale_Revision
                else Inr None)
           in case slot_commit slot (nt_delivery n) of
                None \<Rightarrow> fresh
              | Some retained \<Rightarrow>
                  if dc_operation_id retained \<noteq> cm_operation_id command then fresh
                  else if dc_owner_epoch retained \<noteq> ot_epoch (cm_owner command)
                    then fail_delegation Stale_Revision
                  else if dc_attempt_id retained \<noteq> attempt_id
                     \<or> dc_input_digest retained \<noteq> cm_input_digest command
                     \<or> dc_command_digest retained \<noteq> command_digest ext command
                    then fail_delegation Operation_Conflict
                  else Inr (Some ((dc_receipt retained)\<lparr>rc_duplicate := True\<rparr>))))"

section \<open>Claims and receipts\<close>

definition retained_delivery ::
    "externals \<Rightarrow> delivery_slot \<Rightarrow> string \<Rightarrow> commit_context \<Rightarrow> notification_record \<Rightarrow> notification_record" where
  "retained_delivery ext slot attempt_id ctx prior =
     prior\<lparr>nt_revision := nt_revision prior + 1,
       nt_delivery := put_slot slot
         \<lparr>dc_operation_id = cm_operation_id (cx_command ctx),
          dc_input_digest = cm_input_digest (cx_command ctx),
          dc_command_digest = command_digest ext (cx_command ctx), dc_attempt_id = attempt_id,
          dc_attempt = next_attempt slot prior, dc_owner_epoch = command_epoch ctx,
          dc_receipt = cx_receipt ctx\<rparr> (nt_delivery prior)\<rparr>"

definition claim_delivery ::
    "string \<Rightarrow> string \<Rightarrow> commit_context \<Rightarrow> notification_record \<Rightarrow> notification_record
      \<Rightarrow> delegation_failure + notification_record" where
  "claim_delivery attempt_id at ctx prior retained =
     (if nt_state prior \<noteq> Nt_Pending then fail_delegation Stale_Revision
      else if js_le (date_parse (ev_expires_at (nt_envelope prior))) (date_parse at)
          \<and> nt_reason prior \<noteq> Some ''uncertain''
      then Inr (retained\<lparr>nt_retry_at := None, nt_attempts := next_attempt Claim_Slot prior,
                  nt_state := Nt_Expired, nt_reason := Some ''expired''\<rparr>)
      else if (case nt_retry_at prior of None \<Rightarrow> False
               | Some r \<Rightarrow> r \<noteq> [] \<and> js_gt (date_parse r) (date_parse at))
      then fail_delegation Stale_Revision
      else Inr (retained\<lparr>nt_attempts := next_attempt Claim_Slot prior, nt_state := Nt_Claimed,
                  nt_claim := Some \<lparr>nc_owner_epoch = command_epoch ctx, nc_attempt_id = attempt_id\<rparr>\<rparr>))"

definition retry_out_of_range :: "string \<Rightarrow> string \<Rightarrow> bool" where
  "retry_out_of_range retry_at at \<longleftrightarrow>
     (case js_sub (date_parse retry_at) (date_parse at) of
        None \<Rightarrow> False | Some delay \<Rightarrow> delay < 1000 \<or> delay > 30000)"

fun delivery_change ::
    "delivery_result \<Rightarrow> string \<Rightarrow> notification_record \<Rightarrow> delegation_failure + notification_record" where
  "delivery_change (Accepted inbox at') at n =
     Inr (n\<lparr>nt_state := Nt_Accepted, nt_inbox_id := Some inbox, nt_accepted_at := Some at'\<rparr>)"
| "delivery_change (Blocked reason retry_at) at n =
     (if retry_out_of_range retry_at at then fail_delegation Capacity_Exceeded
      else Inr (n\<lparr>nt_state := Nt_Pending, nt_retry_at := Some retry_at,
                  nt_reason := Some (blocked_reason_name reason)\<rparr>))"
| "delivery_change (Delivery_Uncertain_Result retry_at) at n =
     (if retry_out_of_range retry_at at then fail_delegation Capacity_Exceeded
      else Inr (n\<lparr>nt_state := Nt_Pending, nt_retry_at := Some retry_at,
                  nt_reason := Some ''uncertain''\<rparr>))"
| "delivery_change (Final_Delivery f reason) at n =
     Inr (n\<lparr>nt_state := (case f of Delivery_Rejected \<Rightarrow> Nt_Rejected | Delivery_Expired \<Rightarrow> Nt_Expired
                          | Delivery_Dismissed \<Rightarrow> Nt_Dismissed), nt_reason := Some reason\<rparr>)"

definition is_uncertain_result :: "delivery_result \<Rightarrow> bool" where
  "is_uncertain_result r \<longleftrightarrow> (case r of Delivery_Uncertain_Result _ \<Rightarrow> True | _ \<Rightarrow> False)"

definition receive_delivery ::
    "string \<Rightarrow> delivery_result \<Rightarrow> string \<Rightarrow> commit_context \<Rightarrow> notification_record \<Rightarrow> notification_record
      \<Rightarrow> delegation_failure + notification_record" where
  "receive_delivery attempt_id result at ctx prior retained =
     (if nt_state prior \<noteq> Nt_Claimed
         \<or> (case nt_claim prior of None \<Rightarrow> True
            | Some c \<Rightarrow> nc_attempt_id c \<noteq> attempt_id
                \<or> (nc_owner_epoch c \<noteq> command_epoch ctx \<and> \<not> is_uncertain_result result))
      then fail_delegation Stale_Revision
      else delivery_change result at (retained\<lparr>nt_claim := None, nt_retry_at := None,
             nt_reason := None, nt_inbox_id := None, nt_accepted_at := None\<rparr>))"

definition delivery ::
    "externals \<Rightarrow> string \<Rightarrow> int \<Rightarrow> string \<Rightarrow> delivery_result option \<Rightarrow> string \<Rightarrow> commit_context
      \<Rightarrow> delegation_failure + commit_context" where
  "delivery ext notification_id revision attempt_id result at ctx =
     (case cu_notification (cx_current ctx) of
        None \<Rightarrow> Inl Type_Error
      | Some prior \<Rightarrow>
        if nt_revision prior \<noteq> revision \<or> ev_policy (nt_envelope prior) = Collect
        then fail_delegation Stale_Revision
        else
          let ctx1 = set_receipt (\<lambda>rc. rc\<lparr>rc_notification_id := Some notification_id\<rparr>) ctx;
              slot = (if result = None then Claim_Slot else Receipt_Slot);
              retained = retained_delivery ext slot attempt_id ctx1 prior
          in and_then (case result of
                 None \<Rightarrow> claim_delivery attempt_id at ctx1 prior retained
               | Some r \<Rightarrow> receive_delivery attempt_id r at ctx1 prior retained) (\<lambda>notification.
             and_then (parse_delegation_notification_record ext notification) (\<lambda>parsed.
               Inr (push_mutation (Notification_Row parsed) ctx1))))"

section \<open>The transitions of a notification\<close>

inductive notification_step :: "notification_record \<Rightarrow> notification_record \<Rightarrow> bool" where
  claim: "nt_state n = Nt_Pending \<Longrightarrow> nt_state n' = Nt_Claimed \<Longrightarrow> nt_claim n' \<noteq> None \<Longrightarrow>
    nt_envelope n' = nt_envelope n \<Longrightarrow> nt_revision n' = nt_revision n + 1 \<Longrightarrow>
    nt_attempts n' = nt_attempts n + 1 \<Longrightarrow> notification_step n n'"
| expire: "nt_state n = Nt_Pending \<Longrightarrow> nt_state n' = Nt_Expired \<Longrightarrow>
    nt_envelope n' = nt_envelope n \<Longrightarrow> nt_revision n' = nt_revision n + 1 \<Longrightarrow>
    nt_attempts n' = nt_attempts n + 1 \<Longrightarrow> notification_step n n'"
| finish: "nt_state n = Nt_Claimed \<Longrightarrow>
    nt_state n' \<in> {Nt_Accepted, Nt_Rejected, Nt_Expired, Nt_Dismissed} \<Longrightarrow> nt_claim n' = None \<Longrightarrow>
    nt_envelope n' = nt_envelope n \<Longrightarrow> nt_revision n' = nt_revision n + 1 \<Longrightarrow>
    nt_attempts n' = nt_attempts n \<Longrightarrow> notification_step n n'"
| retry: "nt_state n = Nt_Claimed \<Longrightarrow> nt_state n' = Nt_Pending \<Longrightarrow> nt_retry_at n' \<noteq> None \<Longrightarrow>
    nt_claim n' = None \<Longrightarrow> nt_envelope n' = nt_envelope n \<Longrightarrow>
    nt_revision n' = nt_revision n + 1 \<Longrightarrow> nt_attempts n' = nt_attempts n \<Longrightarrow> notification_step n n'"

inductive_cases notification_stepE: "notification_step n n'"

lemma delivery_cases:
  assumes "delivery ext nid revision attempt_id result at ctx = Inr ctx'"
  obtains prior ctx1 notification where "cu_notification (cx_current ctx) = Some prior"
    and "ctx1 = set_receipt (\<lambda>rc. rc\<lparr>rc_notification_id := Some nid\<rparr>) ctx"
    and "nt_revision prior = revision" and "ev_policy (nt_envelope prior) \<noteq> Collect"
    and "(case result of
        None \<Rightarrow> claim_delivery attempt_id at ctx1 prior
                  (retained_delivery ext Claim_Slot attempt_id ctx1 prior)
      | Some r \<Rightarrow> receive_delivery attempt_id r at ctx1 prior
                  (retained_delivery ext Receipt_Slot attempt_id ctx1 prior)) = Inr notification"
    and "notification_schema ext notification"
    and "ctx' = push_mutation (Notification_Row notification) ctx1"
proof (cases "cu_notification (cx_current ctx)")
  case None
  then show thesis using assms by (simp add: delivery_def)
next
  case (Some prior)
  with assms that show thesis
    by (cases result) (auto simp: delivery_def Let_def result_simps parse_record_simps)
qed

lemma claim_delivery_step:
  assumes "claim_delivery attempt_id at ctx prior (retained_delivery ext Claim_Slot attempt_id ctx prior) = Inr n"
  shows "notification_step prior n"
  using assms
  by (auto simp: claim_delivery_def retained_delivery_def next_attempt_def result_simps split: if_splits
      intro: notification_step.claim notification_step.expire)

lemma receive_delivery_step:
  assumes "receive_delivery attempt_id r at ctx prior (retained_delivery ext Receipt_Slot attempt_id ctx prior) = Inr n"
  shows "notification_step prior n"
proof -
  have "nt_state prior = Nt_Claimed"
    using assms by (auto simp: receive_delivery_def result_simps)
  then show ?thesis using assms
    by (cases r) (auto simp: receive_delivery_def retained_delivery_def next_attempt_def result_simps
        split: final_delivery.splits intro: notification_step.finish notification_step.retry)
qed

lemma delivery_step:
  assumes "delivery ext nid revision attempt_id result at ctx = Inr ctx'" and "cx_run ctx = Some run"
  shows "context_step ctx ctx'"
proof (rule delivery_cases [OF assms(1)])
  fix prior ctx1 notification
  assume ctx1: "ctx1 = set_receipt (\<lambda>rc. rc\<lparr>rc_notification_id := Some nid\<rparr>) ctx"
    and ctx': "ctx' = push_mutation (Notification_Row notification) ctx1"
  have "context_step ctx ctx1"
    unfolding ctx1 by (rule set_receipt_step [OF assms(2)]) (simp add: receipt_kept_def)
  moreover have "context_step ctx1 ctx'"
    unfolding ctx' by (rule push_mutation_step [of _ run]) (simp_all add: ctx1 set_receipt_def assms(2) bookkeeping_row_def)
  ultimately show ?thesis by (rule context_step_trans)
qed

end
