(* ===== verification/Delegation_Admission.thy ===== *)
theory Delegation_Admission
  imports Delegation_Delivery
begin

text \<open>
  \<open>store-adapter/admission.ts\<close>: the atomic admission of a run.  The guards are grouped as the
  source groups them; each group fails with its own code, in the source's order.
\<close>

definition truthy :: "string option \<Rightarrow> bool" where
  "truthy s \<longleftrightarrow> (case s of None \<Rightarrow> False | Some t \<Rightarrow> t \<noteq> [])"

definition exceeds :: "string \<Rightarrow> string \<Rightarrow> int \<Rightarrow> bool" where
  "exceeds later earlier limit \<longleftrightarrow>
     (case js_sub (date_parse later) (date_parse earlier) of None \<Rightarrow> False | Some d \<Rightarrow> d > limit)"

definition admission_run_retained :: "run_admission \<Rightarrow> commit_current \<Rightarrow> bool" where
  "admission_run_retained a cur \<longleftrightarrow>
     cu_run_id_exists cur \<or> list_ex (\<lambda>r. rn_run_id r = ad_run_id a) (cu_runs cur)"

definition admission_input_exceeds :: "run_admission \<Rightarrow> delegation_limits \<Rightarrow> bool" where
  "admission_input_exceeds a limits \<longleftrightarrow>
     ad_depth a > lm_max_depth limits \<or> input_bytes (ad_input a) > lm_max_input_bytes limits
     \<or> input_characters (ad_input a) > lm_max_input_text_characters limits"

definition admission_deadlines_bad :: "run_admission \<Rightarrow> delegation_limits \<Rightarrow> bool" where
  "admission_deadlines_bad a limits \<longleftrightarrow>
     js_le (date_parse (ad_deadline_at a)) (date_parse (ad_created_at a))
     \<or> js_le (date_parse (ad_queued_start_deadline_at a)) (date_parse (ad_created_at a))
     \<or> exceeds (ad_deadline_at a) (ad_created_at a) (lm_run_timeout_ms limits)
     \<or> exceeds (ad_queued_start_deadline_at a) (ad_created_at a) (lm_queued_start_timeout_ms limits)"

definition continuation_mismatch :: "run_admission \<Rightarrow> run_record \<Rightarrow> bool" where
  "continuation_mismatch a previous \<longleftrightarrow>
     (ad_continuation_mode a = Some Continue_Next_Turn
        \<and> (rn_phase previous \<noteq> Running \<or> rn_cancel_requested previous))
     \<or> (ad_continuation_mode a = Some Continue_Follow_Up
        \<and> (rn_phase previous \<noteq> Settled
           \<or> (case rn_outcome previous of None \<Rightarrow> False | Some out \<Rightarrow> is_recovery_outcome out)))"

definition same_parent :: "parent_scope \<Rightarrow> parent_scope \<Rightarrow> bool" where
  "same_parent p q \<longleftrightarrow> same_json (json_of_parent p) (json_of_parent q)"

lemma same_parent_iff [simp]: "same_parent p q \<longleftrightarrow> p = q"
  by (auto simp: same_parent_def same_json_iff json_of_parent_def)

definition continuation_unsafe :: "run_admission \<Rightarrow> task_record \<Rightarrow> run_record list \<Rightarrow> bool" where
  "continuation_unsafe a task runs \<longleftrightarrow>
     tk_state task = Task_Retired \<or> tk_state task = Task_Recovery_Required
     \<or> \<not> same_parent (tk_parent task) (ad_parent a) \<or> tk_depth task \<noteq> ad_depth a
     \<or> tk_policy_ceiling_ref task \<noteq> pc_ceiling_id (ad_policy_ceiling a)
     \<or> tk_completion_policy task \<noteq> ad_completion_policy a
     \<or> tk_ancestor_task_id task \<noteq> ad_ancestor_task_id a
     \<or> ad_previous_run_id a \<noteq> Some (tk_latest_run_id task)
     \<or> list_ex (\<lambda>r. rn_phase r = Queued) runs"

text \<open>The checks of a continuation of a retained task, or of the first run of a new one.\<close>

definition check_continuation ::
    "run_admission \<Rightarrow> store_command \<Rightarrow> commit_current \<Rightarrow> delegation_failure + unit" where
  "check_continuation a command cur =
     (case cu_task cur of
        Some task \<Rightarrow>
          (case find (\<lambda>r. Some (rn_run_id r) = ad_previous_run_id a) (cu_runs cur) of
             None \<Rightarrow> fail_delegation Stale_Revision
           | Some previous \<Rightarrow>
               if cm_run_id command \<noteq> Some (rn_run_id previous)
                  \<or> cm_expected_run_revision command \<noteq> Some (rn_revision previous)
                 then fail_delegation Stale_Revision
               else if continuation_mismatch a previous then fail_delegation Stale_Revision
               else if continuation_unsafe a task (cu_runs cur) then fail_delegation Stale_Revision
               else if list_ex (\<lambda>r. rn_phase r = Waiting) (cu_runs cur)
                  \<or> tk_run_count task \<ge> lm_max_runs_per_task (cu_limits cur)
                 then fail_delegation Capacity_Exceeded
               else Inr ())
      | None \<Rightarrow>
          if truthy (ad_previous_run_id a) \<or> cm_expected_task_revision command \<noteq> 0
          then fail_delegation Stale_Revision else Inr ())"

definition ceiling_bytes :: "policy_ceiling \<Rightarrow> int" where
  "ceiling_bytes c = delegation_data_bytes (json_of_ceiling c)"

lemma ceiling_bytes_nonneg [simp]: "0 \<le> ceiling_bytes c"
  by (simp add: ceiling_bytes_def)

definition same_ceiling :: "policy_ceiling \<Rightarrow> policy_ceiling \<Rightarrow> bool" where
  "same_ceiling c d \<longleftrightarrow> same_json (json_of_ceiling c) (json_of_ceiling d)"

lemma json_of_targets_inject:
  "map (\<lambda>t. canonicalize (json_of_target t)) ts = map (\<lambda>t. canonicalize (json_of_target t)) us \<longleftrightarrow> ts = us"
proof -
  have "inj (\<lambda>t. canonicalize (json_of_target t))"
    by (rule injI) (metis same_target_def same_json_iff same_target_iff)
  then show ?thesis by (rule inj_map_eq_map)
qed

lemma same_ceiling_iff [simp]: "same_ceiling c d \<longleftrightarrow> c = d"
proof
  assume "same_ceiling c d"
  then have "pc_ceiling_id c = pc_ceiling_id d \<and> same_parent (pc_origin c) (pc_origin d) \<and>
      map (\<lambda>t. canonicalize (json_of_target t)) (pc_targets c)
        = map (\<lambda>t. canonicalize (json_of_target t)) (pc_targets d)"
    by (simp add: same_ceiling_def same_json_iff json_of_ceiling_def same_parent_def comp_def
        del: same_parent_iff)
  then show "c = d" by (simp add: json_of_targets_inject)
qed (simp add: same_ceiling_def)

definition admission_bytes :: "run_admission \<Rightarrow> commit_current \<Rightarrow> int" where
  "admission_bytes a cur = input_bytes (ad_input a)
     + (case cu_ceiling cur of None \<Rightarrow> ceiling_bytes (ad_policy_ceiling a) | Some _ \<Rightarrow> 0)"

definition admission_over_capacity :: "run_admission \<Rightarrow> commit_current \<Rightarrow> store_capacity \<Rightarrow> bool" where
  "admission_over_capacity a cur cap \<longleftrightarrow>
     (cu_task cur = None \<and> cp_tasks cap \<ge> lm_max_tasks (cu_limits cur))
     \<or> cp_runs cap \<ge> lm_max_runs (cu_limits cur)
     \<or> cp_queued_runs cap \<ge> lm_max_queued_runs (cu_limits cur)
     \<or> cp_retained_input_bytes cap + admission_bytes a cur > lm_max_retained_input_bytes (cu_limits cur)"

definition admitted_capacity :: "run_admission \<Rightarrow> commit_current \<Rightarrow> store_capacity \<Rightarrow> store_capacity" where
  "admitted_capacity a cur cap = cap\<lparr>
     cp_tasks := cp_tasks cap + (if cu_task cur = None then 1 else 0),
     cp_runs := cp_runs cap + 1, cp_queued_runs := cp_queued_runs cap + 1,
     cp_retained_input_bytes := cp_retained_input_bytes cap + admission_bytes a cur,
     cp_reserved_bytes := cp_reserved_bytes cap + delegation_run_reservation_bytes,
     cp_critical_slots := cp_critical_slots cap + delegation_critical_slots\<rparr>"

definition admitted_run :: "run_admission \<Rightarrow> store_command \<Rightarrow> int \<Rightarrow> run_record" where
  "admitted_run a command ordinal =
     (let continued = truthy (ad_previous_run_id a) \<and> ad_continuation_mode a \<noteq> None in
      \<lparr>rn_task_id = cm_task_id command, rn_run_id = ad_run_id a, rn_ordinal = ordinal,
       rn_previous_run_id = (if continued then ad_previous_run_id a else None),
       rn_continuation_mode = (if continued then ad_continuation_mode a else None),
       rn_admission_operation_id = cm_operation_id command, rn_admitted_target = ad_target a,
       rn_applied_target = None, rn_admitted_policy_revision = ad_policy_revision a,
       rn_admitted_origin_policy_revision = ad_origin_policy_revision a, rn_input = ad_input a,
       rn_owner_epoch = ot_epoch (cm_owner command), rn_phase = Queued, rn_revision = 1,
       rn_created_at = ad_created_at a, rn_deadline_at = ad_deadline_at a,
       rn_queued_start_deadline_at = ad_queued_start_deadline_at a, rn_dispatch = Dispatch_None,
       rn_preparation = Prep_None, rn_cancel_requested = False, rn_pending_request = None,
       rn_outcome = None, rn_settled_at = None, rn_observation_index = 0, rn_observation_count = 0,
       rn_observation_bytes = 0, rn_omitted_observations = 0, rn_last_observation_digest = None,
       rn_ordinary_operation_count = 0, rn_recovery_reason = None, rn_finalization = None\<rparr>)"

definition admitted_context :: "run_admission \<Rightarrow> commit_context \<Rightarrow> commit_context" where
  "admitted_context a ctx =
     (let cur = cx_current ctx;
          count = (case cu_task cur of None \<Rightarrow> 0 | Some t \<Rightarrow> tk_run_count t) + 1
      in ctx\<lparr>cx_capacity := admitted_capacity a cur (cx_capacity ctx),
             cx_task := (cx_task ctx)\<lparr>tk_latest_run_id := ad_run_id a, tk_run_count := count\<rparr>,
             cx_run := Some (admitted_run a (cx_command ctx) count),
             cx_receipt := (cx_receipt ctx)\<lparr>rc_status := Status_Phase Queued,
               rc_run_id := Some (ad_run_id a), rc_run_revision := Some 1,
               rc_operation_id := Some (cm_operation_id (cx_command ctx))\<rparr>\<rparr>)"

definition admit_run :: "run_admission \<Rightarrow> commit_context \<Rightarrow> delegation_failure + commit_context" where
  "admit_run a ctx =
     (let cur = cx_current ctx; limits = cu_limits cur in
      if admission_run_retained a cur then fail_delegation Operation_Conflict
      else if admission_input_exceeds a limits then fail_delegation Capacity_Exceeded
      else if \<not> list_ex (\<lambda>t. same_target t (ad_target a)) (pc_targets (ad_policy_ceiling a))
        then fail_delegation Policy_Denied
      else if admission_deadlines_bad a limits then fail_delegation Capacity_Exceeded
      else and_then (check_continuation a (cx_command ctx) cur) (\<lambda>_.
        if (case cu_ceiling cur of None \<Rightarrow> False | Some c \<Rightarrow> \<not> same_ceiling c (ad_policy_ceiling a))
          then fail_delegation Operation_Conflict
        else if admission_over_capacity a cur (cx_capacity ctx) then fail_delegation Capacity_Exceeded
        else and_then (add_operation Op_Admit (ad_created_at a) 1 None (admitted_context a ctx)) (\<lambda>ctx1.
          Inr (if cu_ceiling cur = None
               then push_mutation (Ceiling_Row (ad_policy_ceiling a)) ctx1 else ctx1))))"

section \<open>What an admission establishes\<close>

lemma check_continuation_Inr:
  assumes "check_continuation a command cur = Inr ()" and "cu_task cur = Some task"
  shows "tk_run_count task < lm_max_runs_per_task (cu_limits cur) \<and>
    \<not> list_ex (\<lambda>r. rn_phase r = Queued) (cu_runs cur) \<and>
    \<not> list_ex (\<lambda>r. rn_phase r = Waiting) (cu_runs cur) \<and>
    tk_state task \<noteq> Task_Retired \<and> tk_state task \<noteq> Task_Recovery_Required \<and>
    ad_depth a = tk_depth task \<and> ad_previous_run_id a = Some (tk_latest_run_id task) \<and>
    pc_ceiling_id (ad_policy_ceiling a) = tk_policy_ceiling_ref task"
  using assms
  by (auto simp: check_continuation_def continuation_unsafe_def result_simps split: option.splits)

text \<open>The admission counts one ordinary operation on the new run: kind \<open>admit\<close> is not critical.\<close>

lemma admit_not_critical [simp]: "\<not> critical_kind Op_Admit"
  by (simp add: critical_kind_def)

lemma add_admit_operation:
  assumes "add_operation Op_Admit at 1 None ctx = Inr ctx'" and "cx_run ctx = Some r"
  shows "\<exists>m. ctx' = push_mutation (Operation_Row m) (ctx
      \<lparr>cx_run := Some (r\<lparr>rn_ordinary_operation_count := rn_ordinary_operation_count r + 1\<rparr>),
       cx_capacity := (cx_capacity ctx)\<lparr>cp_ordinary_operations := cp_ordinary_operations (cx_capacity ctx) + 1\<rparr>\<rparr>)"
  using assms
  by (auto simp: add_operation_def count_ordinary_def set_run_def phase_capacity_def
      result_simps Let_def intro!: exI)

lemma admit_run_Inr:
  assumes "admit_run a ctx = Inr ctx'"
  obtains m ctx1 where "\<not> admission_run_retained a (cx_current ctx)"
    and "\<not> admission_input_exceeds a (cu_limits (cx_current ctx))"
    and "list_ex (\<lambda>t. same_target t (ad_target a)) (pc_targets (ad_policy_ceiling a))"
    and "\<not> admission_deadlines_bad a (cu_limits (cx_current ctx))"
    and "check_continuation a (cx_command ctx) (cx_current ctx) = Inr ()"
    and "case cu_ceiling (cx_current ctx) of None \<Rightarrow> True | Some c \<Rightarrow> c = ad_policy_ceiling a"
    and "\<not> admission_over_capacity a (cx_current ctx) (cx_capacity ctx)"
    and "add_operation Op_Admit (ad_created_at a) 1 None (admitted_context a ctx) = Inr ctx1"
    and "ctx' = (if cu_ceiling (cx_current ctx) = None
          then push_mutation (Ceiling_Row (ad_policy_ceiling a)) ctx1 else ctx1)"
  using assms by (auto simp: admit_run_def Let_def result_simps split: option.splits)

end
