(* ===== verification/Delegation_Plan.thy ===== *)
theory Delegation_Plan
  imports Delegation_Admission
begin

text \<open>
  \<open>store-adapter/plan.ts\<close>: a pure function from a command and a snapshot of the store to the
  row mutations and the receipt of one atomic commit, or to the failure the command ends in.
\<close>

section \<open>Duplicates\<close>

fun command_operation_kind :: "command_body \<Rightarrow> operation_kind option" where
  "command_operation_kind (Admit a) = Some Op_Admit"
| "command_operation_kind (Cancel at reason) = Some Op_Cancel"
| "command_operation_kind (Dispatch_Intent k at target attempt) = Some k"
| "command_operation_kind (Request_State Intend_Resolution r at) = Some Op_Request_Resolution"
| "command_operation_kind _ = None"

definition is_admit :: "command_body \<Rightarrow> bool" where
  "is_admit b \<longleftrightarrow> (case b of Admit _ \<Rightarrow> True | _ \<Rightarrow> False)"

definition is_retire :: "command_body \<Rightarrow> bool" where
  "is_retire b \<longleftrightarrow> (case b of Retire_Recovery _ _ \<Rightarrow> True | _ \<Rightarrow> False)"

definition operation_conflicts :: "store_command \<Rightarrow> operation_record \<Rightarrow> bool" where
  "operation_conflicts c prior \<longleftrightarrow>
     op_input_digest prior \<noteq> cm_input_digest c
     \<or> (case command_operation_kind (cm_body c) of None \<Rightarrow> False | Some k \<Rightarrow> op_kind prior \<noteq> k)
     \<or> (\<not> is_admit (cm_body c)
        \<and> (op_task_id prior \<noteq> cm_task_id c \<or> Some (op_run_id prior) \<noteq> cm_run_id c))"

definition is_second_attempt :: "command_body \<Rightarrow> bool" where
  "is_second_attempt b \<longleftrightarrow>
     (case b of Dispatch_Intent _ _ _ attempt \<Rightarrow> attempt = Some 2 | _ \<Rightarrow> False)"

definition duplicate_receipt :: "operation_record \<Rightarrow> commit_receipt" where
  "duplicate_receipt prior = (op_receipt prior)\<lparr>rc_duplicate := True\<rparr>"

text \<open>The retry of an operation whose record is retained.\<close>

definition duplicate_operation ::
    "store_command \<Rightarrow> operation_record option \<Rightarrow> delegation_failure + commit_receipt option" where
  "duplicate_operation c prior0 =
     (case prior0 of
        None \<Rightarrow> Inr None
      | Some prior \<Rightarrow>
        if operation_conflicts c prior then fail_delegation Operation_Conflict
        else case cm_body c of
          Operation_Receipt d at message rs \<Rightarrow>
            if op_disposition prior \<noteq> d then Inr None
            else if op_request_state prior \<noteq> rs \<or> op_message prior \<noteq> message
              then fail_delegation Operation_Conflict
            else Inr (Some (duplicate_receipt prior))
        | _ \<Rightarrow>
            if command_operation_kind (cm_body c) \<noteq> None
               \<and> \<not> (is_second_attempt (cm_body c) \<and> op_attempts prior \<noteq> 2)
            then Inr (Some (duplicate_receipt prior)) else Inr None)"

definition duplicate_settlement ::
    "store_command \<Rightarrow> commit_current \<Rightarrow> run_record \<Rightarrow> finalization \<Rightarrow> delegation_failure + commit_receipt option" where
  "duplicate_settlement c cur run f =
     (if fz_operation_id f \<noteq> cm_operation_id c \<or> fz_input_digest f \<noteq> cm_input_digest c
      then fail_delegation Operation_Conflict
      else Inr (Some \<lparr>rc_duplicate = True, rc_status = Status_Phase Settled,
        rc_task_id = cm_task_id c, rc_task_revision = fz_task_revision f,
        rc_run_id = Some (rn_run_id run), rc_run_revision = Some (fz_run_revision f),
        rc_operation_id = Some (cm_operation_id c),
        rc_notification_id = map_option (ev_notification_id \<circ> nt_envelope) (cu_notification cur)\<rparr>))"

definition same_observation :: "task_observation \<Rightarrow> task_observation \<Rightarrow> bool" where
  "same_observation a b \<longleftrightarrow> same_json (json_of_observation a) (json_of_observation b)"

definition duplicate_observation ::
    "externals \<Rightarrow> commit_current \<Rightarrow> run_record \<Rightarrow> task_observation \<Rightarrow> delegation_failure + commit_receipt option" where
  "duplicate_observation ext cur run b =
     (if \<not> (case cu_observation cur of None \<Rightarrow> False | Some kept \<Rightarrow> same_observation kept b)
         \<and> \<not> (ob_index b = rn_observation_index run
              \<and> rn_last_observation_digest run = Some (observation_digest ext b))
      then fail_delegation Operation_Conflict
      else case cu_task cur of
        None \<Rightarrow> Inl Type_Error
      | Some task \<Rightarrow> Inr (Some \<lparr>rc_duplicate = True,
          rc_status = (case cu_observation cur of None \<Rightarrow> Status_Omitted
                       | Some kept \<Rightarrow> if ob_kind kept = Ob_Omitted then Status_Omitted else Status_Recorded),
          rc_task_id = rn_task_id run, rc_task_revision = tk_revision task,
          rc_run_id = Some (rn_run_id run), rc_run_revision = Some (rn_revision run),
          rc_operation_id = None, rc_notification_id = None\<rparr>))"

definition duplicate_retirement ::
    "store_command \<Rightarrow> task_record \<Rightarrow> retirement \<Rightarrow> delegation_failure + commit_receipt option" where
  "duplicate_retirement c task r =
     (if rt_operation_id r \<noteq> cm_operation_id c \<or> rt_input_digest r \<noteq> cm_input_digest c
      then fail_delegation Operation_Conflict
      else Inr (Some \<lparr>rc_duplicate = True, rc_status = Status_Retired, rc_task_id = cm_task_id c,
        rc_task_revision = tk_revision task, rc_run_id = None, rc_run_revision = None,
        rc_operation_id = None, rc_notification_id = None\<rparr>))"

definition find_run :: "commit_current \<Rightarrow> string option \<Rightarrow> run_record option" where
  "find_run cur run_id = find (\<lambda>r. Some (rn_run_id r) = run_id) (cu_runs cur)"

text \<open>The retries that the retained run or task itself answers.\<close>

definition duplicate_effect ::
    "externals \<Rightarrow> store_command \<Rightarrow> commit_current \<Rightarrow> delegation_failure + commit_receipt option" where
  "duplicate_effect ext c cur =
     (case cm_body c of
        Cancel _ _ \<Rightarrow>
          if list_ex (\<lambda>x. op_kind x = Op_Cancel) (cu_critical_operations cur)
          then fail_delegation Operation_Conflict else Inr None
      | Settle _ _ \<Rightarrow>
          (case find_run cur (cm_run_id c) of
             None \<Rightarrow> Inr None
           | Some run \<Rightarrow> (case rn_finalization run of None \<Rightarrow> Inr None
               | Some f \<Rightarrow> duplicate_settlement c cur run f))
      | Observe b \<Rightarrow>
          (case find_run cur (cm_run_id c) of
             None \<Rightarrow> Inr None
           | Some run \<Rightarrow> if ob_index b \<le> rn_observation_index run
               then duplicate_observation ext cur run b else Inr None)
      | Retire_Recovery _ _ \<Rightarrow>
          (case cu_task cur of
             None \<Rightarrow> Inr None
           | Some task \<Rightarrow> (case tk_retirement task of None \<Rightarrow> Inr None
               | Some r \<Rightarrow> duplicate_retirement c task r))
      | _ \<Rightarrow> Inr None)"

definition duplicate ::
    "externals \<Rightarrow> store_command \<Rightarrow> commit_current \<Rightarrow> delegation_failure + commit_receipt option" where
  "duplicate ext c cur =
     (case cm_body c of
        Delivery_Claim n revision attempt at \<Rightarrow> duplicate_delivery ext Claim_Slot n attempt c cur
      | Delivery_Receipt n revision attempt result at \<Rightarrow>
          duplicate_delivery ext Receipt_Slot n attempt c cur
      | _ \<Rightarrow> and_then (duplicate_operation c (cu_operation cur)) (\<lambda>retry.
               case retry of Some r \<Rightarrow> Inr (Some r) | None \<Rightarrow> duplicate_effect ext c cur))"

section \<open>Planning\<close>

definition same_owner :: "owner_token \<Rightarrow> owner_token \<Rightarrow> bool" where
  "same_owner s t \<longleftrightarrow> same_json (json_of_owner s) (json_of_owner t)"

lemma same_owner_iff [simp]: "same_owner s t \<longleftrightarrow> s = t"
  by (auto simp: same_owner_def same_json_iff json_of_owner_def)

definition owner_lost :: "store_command \<Rightarrow> commit_current \<Rightarrow> bool" where
  "owner_lost c cur \<longleftrightarrow>
     (case cu_owner cur of None \<Rightarrow> True
      | Some t \<Rightarrow> cu_store_id cur \<noteq> ot_store_id (cm_owner c) \<or> \<not> same_owner t (cm_owner c))"

definition capacity_values :: "store_capacity \<Rightarrow> int list" where
  "capacity_values c = [cp_tasks c, cp_runs c, cp_active_runs c, cp_queued_runs c,
     cp_retained_input_bytes c, cp_observation_bytes c, cp_ordinary_operations c,
     cp_reserved_bytes c, cp_critical_slots c]"

definition capacity_inconsistent :: "store_capacity \<Rightarrow> delegation_limits \<Rightarrow> bool" where
  "capacity_inconsistent c l \<longleftrightarrow>
     list_ex (\<lambda>n. \<not> safe_integer n \<or> n < 0) (capacity_values c)
     \<or> cp_tasks c > lm_max_tasks l \<or> cp_runs c > lm_max_runs l \<or> cp_tasks c > cp_runs c
     \<or> cp_active_runs c > lm_max_active_runs l \<or> cp_queued_runs c > lm_max_queued_runs l
     \<or> cp_active_runs c + cp_queued_runs c > cp_runs c
     \<or> cp_retained_input_bytes c > lm_max_retained_input_bytes l
     \<or> cp_observation_bytes c > lm_max_retained_observation_bytes l
     \<or> cp_ordinary_operations c > lm_max_ordinary_operations l
     \<or> cp_reserved_bytes c \<noteq> cp_runs c * delegation_run_reservation_bytes
     \<or> cp_critical_slots c \<noteq> cp_runs c * delegation_critical_slots"

definition snapshot_inconsistent :: "store_command \<Rightarrow> commit_current \<Rightarrow> bool" where
  "snapshot_inconsistent c cur \<longleftrightarrow>
     js_len (cu_runs cur) > lm_max_runs_per_task (cu_limits cur)
     \<or> js_len (cu_critical_operations cur) > 4
     \<or> list_ex (\<lambda>r. rn_task_id r \<noteq> cm_task_id c) (cu_runs cur)
     \<or> (case cu_task cur of None \<Rightarrow> False | Some t \<Rightarrow> tk_task_id t \<noteq> cm_task_id c)"

definition stale_revision :: "store_command \<Rightarrow> commit_current \<Rightarrow> bool" where
  "stale_revision c cur \<longleftrightarrow>
     (case cu_task cur of None \<Rightarrow> 0 | Some t \<Rightarrow> tk_revision t) \<noteq> cm_expected_task_revision c
     \<or> (\<not> is_admit (cm_body c) \<and> \<not> is_retire (cm_body c)
        \<and> map_option rn_revision (find_run cur (cm_run_id c)) \<noteq> cm_expected_run_revision c)
     \<or> (\<not> is_admit (cm_body c) \<and> \<not> is_retire (cm_body c) \<and> find_run cur (cm_run_id c) = None)
     \<or> (cu_task cur = None \<and> \<not> is_admit (cm_body c))"

definition new_task :: "run_admission \<Rightarrow> store_command \<Rightarrow> commit_current \<Rightarrow> task_record" where
  "new_task a c cur = \<lparr>tk_store_id = cu_store_id cur, tk_task_id = cm_task_id c,
     tk_parent = ad_parent a,
     tk_ancestor_task_id = (if truthy (ad_ancestor_task_id a) then ad_ancestor_task_id a else None),
     tk_depth = ad_depth a, tk_policy_ceiling_ref = pc_ceiling_id (ad_policy_ceiling a),
     tk_completion_policy = ad_completion_policy a, tk_state = Task_Active, tk_revision = 1,
     tk_latest_run_id = ad_run_id a, tk_run_count = 0, tk_created_at = ad_created_at a,
     tk_retired_at = None, tk_retirement = None\<rparr>"

definition next_task :: "store_command \<Rightarrow> commit_current \<Rightarrow> task_record option" where
  "next_task c cur =
     (case cu_task cur of
        Some t \<Rightarrow> Some (t\<lparr>tk_revision := tk_revision t + 1\<rparr>)
      | None \<Rightarrow> (case cm_body c of Admit a \<Rightarrow> Some (new_task a c cur) | _ \<Rightarrow> None))"

definition start_context :: "store_command \<Rightarrow> commit_current \<Rightarrow> task_record \<Rightarrow> commit_context" where
  "start_context c cur task =
     (let run = map_option (\<lambda>r. r\<lparr>rn_revision := rn_revision r + 1\<rparr>) (find_run cur (cm_run_id c))
      in \<lparr>cx_command = c, cx_current = cur, cx_task = task, cx_run = run,
          cx_capacity = cu_capacity cur, cx_mutations = [],
          cx_receipt = \<lparr>rc_duplicate = False, rc_status = Status_Recorded,
            rc_task_id = tk_task_id task, rc_task_revision = tk_revision task,
            rc_run_id = map_option rn_run_id run, rc_run_revision = map_option rn_revision run,
            rc_operation_id = Some (cm_operation_id c), rc_notification_id = None\<rparr>\<rparr>)"

fun transition :: "externals \<Rightarrow> command_body \<Rightarrow> commit_context \<Rightarrow> delegation_failure + commit_context" where
  "transition ext (Admit a) ctx = admit_run a ctx"
| "transition ext (Dispatch_Intent k at target attempt) ctx = dispatch_intent k at target attempt ctx"
| "transition ext (Operation_Receipt d at message rs) ctx = operation_receipt d at message rs ctx"
| "transition ext (Observe b) ctx = observe_run ext b ctx"
| "transition ext (Request_State s r at) ctx = request_state s r at ctx"
| "transition ext (Cancel at reason) ctx = cancel_run ext at ctx"
| "transition ext (Settle out at) ctx = settle ext out at ctx"
| "transition ext (Delivery_Claim n revision attempt at) ctx = delivery ext n revision attempt None at ctx"
| "transition ext (Delivery_Receipt n revision attempt result at) ctx =
     delivery ext n revision attempt (Some result) at ctx"
| "transition ext (Retire_Recovery reason at) ctx = retire_recovery reason at ctx"

definition finalize_mutation :: "commit_receipt \<Rightarrow> row_mutation \<Rightarrow> row_mutation" where
  "finalize_mutation receipt m =
     (case m of Operation_Row x \<Rightarrow> Operation_Row (x\<lparr>op_receipt := receipt\<rparr>) | _ \<Rightarrow> m)"

fun copy_mutations :: "row_mutation list \<Rightarrow> delegation_failure + row_mutation list" where
  "copy_mutations [] = Inr []"
| "copy_mutations (m # ms) =
     and_then (copy_bounded_delegation_data (json_of_mutation m)) (\<lambda>_.
     and_then (copy_mutations ms) (\<lambda>ms'. Inr (m # ms')))"

definition finish_plan :: "externals \<Rightarrow> commit_context \<Rightarrow> delegation_failure + commit_plan" where
  "finish_plan ext ctx0 =
     (let ctx = derive_task ctx0 in
      and_then (parse_delegation_task_record ext (cx_task ctx)) (\<lambda>task.
      and_then (case cx_run ctx of
          None \<Rightarrow> Inr []
        | Some r \<Rightarrow> and_then (parse_delegation_run_record ext r) (\<lambda>run. Inr [Run_Row run])) (\<lambda>run_rows.
      and_then (copy_mutations (map (finalize_mutation (cx_receipt ctx))
          (cx_mutations ctx @ [Task_Row task] @ run_rows @ [Capacity_Row (cx_capacity ctx)]))) (\<lambda>rows.
      Inr \<lparr>pl_mutations = rows, pl_receipt = cx_receipt ctx\<rparr>))))"

definition plan_delegation_store_commit ::
    "externals \<Rightarrow> store_command \<Rightarrow> commit_current \<Rightarrow> delegation_failure + commit_plan" where
  "plan_delegation_store_commit ext c0 cur =
     and_then (parse_delegation_store_command ext c0) (\<lambda>c.
     if owner_lost c cur then fail_delegation Owner_Lost
     else and_then (parse_delegation_limits (json_of_limits (cu_limits cur))) (\<lambda>_.
       if capacity_inconsistent (cu_capacity cur) (cu_limits cur) then fail_delegation Store_Failed
       else if snapshot_inconsistent c cur then fail_delegation Store_Failed
       else and_then (duplicate ext c cur) (\<lambda>retry.
         case retry of
           Some receipt \<Rightarrow> Inr \<lparr>pl_mutations = [], pl_receipt = receipt\<rparr>
         | None \<Rightarrow>
             if stale_revision c cur then fail_delegation Stale_Revision
             else case next_task c cur of
               None \<Rightarrow> fail_delegation Stale_Revision
             | Some task \<Rightarrow>
                 and_then (transition ext (cm_body c) (start_context c cur task)) (finish_plan ext))))"

end
