(* ===== verification/Delegation_Store.thy ===== *)
theory Delegation_Store
  imports Delegation_Plan
begin

text \<open>
  \<open>store/memory.ts\<close>: the explicit volatile store.  Its closure variables are the fields of
  \<open>store_state\<close>, each \<open>Map\<close> an association list in insertion order.  Random identities
  (\<open>createDelegationId\<close>) are arguments.
\<close>

record store_state =
  st_store_id :: string
  st_limits :: delegation_limits
  st_owner :: "owner_token option"
  st_epoch :: int
  st_capacity :: store_capacity
  st_tasks :: "(string \<times> task_record) list"
  st_runs :: "(string \<times> run_record) list"
  st_operations :: "(string \<times> operation_record) list"
  st_observations :: "(string \<times> task_observation) list"
  st_notifications :: "(string \<times> notification_record) list"
  st_ceilings :: "(string \<times> policy_ceiling) list"

definition operation_key :: "parent_scope \<Rightarrow> string \<Rightarrow> string" where
  "operation_key parent operation_id =
     stringify (J_Arr [J_Str (ps_parent_id parent), J_Str (ps_scope_id parent), J_Str operation_id])"

definition observation_key :: "string \<Rightarrow> int \<Rightarrow> string" where
  "observation_key run_id index = run_id @ '':'' @ int_string index"

definition run_key :: "run_record \<Rightarrow> string" where
  "run_key run = rn_created_at run @ '':'' @ rn_run_id run"

definition empty_capacity :: store_capacity where
  "empty_capacity = \<lparr>cp_tasks = 0, cp_runs = 0, cp_active_runs = 0, cp_queued_runs = 0,
     cp_retained_input_bytes = 0, cp_observation_bytes = 0, cp_ordinary_operations = 0,
     cp_reserved_bytes = 0, cp_critical_slots = 0\<rparr>"

text \<open>\<open>createInMemoryDelegationStore\<close> on the options \<open>limits\<close> and \<open>storeId\<close>; the last
  argument is the identity that \<open>createDelegationId\<close> would make.\<close>

definition create_in_memory_delegation_store ::
    "externals \<Rightarrow> json option \<Rightarrow> string option \<Rightarrow> string \<Rightarrow> delegation_failure + store_state" where
  "create_in_memory_delegation_store ext limits store_id fresh =
     and_then (parse_delegation_limits (case limits of None \<Rightarrow> J_Obj [] | Some l \<Rightarrow> l)) (\<lambda>parsed.
     and_then (parse_delegation (store_id_schema ext) J_Str
                 (case store_id of None \<Rightarrow> fresh | Some s \<Rightarrow> s)) (\<lambda>id.
     Inr \<lparr>st_store_id = id, st_limits = parsed, st_owner = None, st_epoch = 0,
          st_capacity = empty_capacity, st_tasks = [], st_runs = [], st_operations = [],
          st_observations = [], st_notifications = [], st_ceilings = []\<rparr>))"

section \<open>Ownership\<close>

text \<open>The epoch is advanced before the token is parsed, so the state is returned on every path.\<close>

definition acquire_owner ::
    "externals \<Rightarrow> string \<Rightarrow> store_state \<Rightarrow> (delegation_failure + owner_token) \<times> store_state" where
  "acquire_owner ext nonce st =
     (if st_owner st \<noteq> None then (fail_delegation Owner_Lost, st)
      else
        let st1 = st\<lparr>st_epoch := st_epoch st + 1\<rparr>
        in case parse_delegation_owner_token ext
             \<lparr>ot_store_id = st_store_id st, ot_epoch = st_epoch st1, ot_nonce = nonce\<rparr> of
             Inl e \<Rightarrow> (Inl e, st1)
           | Inr token \<Rightarrow> (Inr token, st1\<lparr>st_owner := Some token\<rparr>))"

definition release_owner :: "owner_token \<Rightarrow> store_state \<Rightarrow> (delegation_failure + unit) \<times> store_state" where
  "release_owner input st =
     (case st_owner st of
        None \<Rightarrow> (fail_delegation Owner_Lost, st)
      | Some token \<Rightarrow>
          if ot_store_id input \<noteq> st_store_id st \<or> ot_epoch input \<noteq> ot_epoch token
             \<or> ot_nonce input \<noteq> ot_nonce token
          then (fail_delegation Owner_Lost, st)
          else (Inr (), st\<lparr>st_owner := None\<rparr>))"

section \<open>Commits\<close>

definition task_runs :: "string \<Rightarrow> store_state \<Rightarrow> run_record list" where
  "task_runs task_id st = filter (\<lambda>r. rn_task_id r = task_id) (map snd (st_runs st))"

definition run_operations :: "string \<Rightarrow> store_state \<Rightarrow> operation_record list" where
  "run_operations run_id st = filter (\<lambda>x. op_run_id x = run_id) (map snd (st_operations st))"

definition run_observations :: "string \<Rightarrow> store_state \<Rightarrow> task_observation list" where
  "run_observations run_id st = filter (\<lambda>b. ob_run_id b = run_id) (map snd (st_observations st))"

definition command_run_id :: "store_command \<Rightarrow> string option" where
  "command_run_id c = (case cm_body c of Admit a \<Rightarrow> Some (ad_run_id a) | _ \<Rightarrow> cm_run_id c)"

definition command_notification_id :: "externals \<Rightarrow> store_command \<Rightarrow> string option" where
  "command_notification_id ext c =
     (case cm_body c of
        Delivery_Claim n revision attempt at \<Rightarrow> Some n
      | Delivery_Receipt n revision attempt result at \<Rightarrow> Some n
      | _ \<Rightarrow> map_option (\<lambda>r. delegation_subordinate_id ext r ''notification'') (command_run_id c))"

definition command_parent :: "store_command \<Rightarrow> store_state \<Rightarrow> parent_scope option" where
  "command_parent c st =
     (case cm_body c of Admit a \<Rightarrow> Some (ad_parent a)
      | _ \<Rightarrow> map_option tk_parent (map_of (st_tasks st) (cm_task_id c)))"

definition commit_snapshot :: "externals \<Rightarrow> store_command \<Rightarrow> store_state \<Rightarrow> commit_current" where
  "commit_snapshot ext c st = \<lparr>
     cu_store_id = st_store_id st, cu_owner = st_owner st, cu_limits = st_limits st,
     cu_capacity = st_capacity st, cu_task = map_of (st_tasks st) (cm_task_id c),
     cu_runs = task_runs (cm_task_id c) st,
     cu_operation = Option.bind (command_parent c st)
       (\<lambda>p. map_of (st_operations st) (operation_key p (cm_operation_id c))),
     cu_critical_operations = filter (critical_kind \<circ> op_kind)
       (case command_run_id c of None \<Rightarrow> [] | Some r \<Rightarrow> run_operations r st),
     cu_notification = Option.bind (command_notification_id ext c) (map_of (st_notifications st)),
     cu_ceiling = (case cm_body c of
         Admit a \<Rightarrow> map_of (st_ceilings st) (pc_ceiling_id (ad_policy_ceiling a)) | _ \<Rightarrow> None),
     cu_observation = (case cm_body c of
         Observe b \<Rightarrow> map_of (st_observations st) (observation_key (ob_run_id b) (ob_index b))
       | _ \<Rightarrow> None),
     cu_omission_observation = (case cm_body c of
         Observe b \<Rightarrow> find (\<lambda>x. ob_kind x = Ob_Omitted) (run_observations (ob_run_id b) st)
       | _ \<Rightarrow> None),
     cu_run_id_exists = (case cm_body c of
         Admit a \<Rightarrow> has_key (st_runs st) (ad_run_id a) | _ \<Rightarrow> False)\<rparr>"

fun apply_mutation :: "row_mutation \<Rightarrow> store_state \<Rightarrow> store_state" where
  "apply_mutation (Task_Row t) st = st\<lparr>st_tasks := map_set (tk_task_id t) t (st_tasks st)\<rparr>"
| "apply_mutation (Run_Row r) st = st\<lparr>st_runs := map_set (rn_run_id r) r (st_runs st)\<rparr>"
| "apply_mutation (Operation_Row x) st =
     st\<lparr>st_operations := map_set (operation_key (op_parent x) (op_operation_id x)) x (st_operations st)\<rparr>"
| "apply_mutation (Observation_Row b) st =
     st\<lparr>st_observations := map_set (observation_key (ob_run_id b) (ob_index b)) b (st_observations st)\<rparr>"
| "apply_mutation (Notification_Row n) st =
     st\<lparr>st_notifications := map_set (ev_notification_id (nt_envelope n)) n (st_notifications st)\<rparr>"
| "apply_mutation (Ceiling_Row c) st =
     st\<lparr>st_ceilings := map_set (pc_ceiling_id c) c (st_ceilings st)\<rparr>"
| "apply_mutation (Capacity_Row c) st = st\<lparr>st_capacity := c\<rparr>"

definition apply_mutations :: "row_mutation list \<Rightarrow> store_state \<Rightarrow> store_state" where
  "apply_mutations ms st = fold apply_mutation ms st"

definition store_commit ::
    "externals \<Rightarrow> store_command \<Rightarrow> store_state \<Rightarrow> (delegation_failure + commit_receipt) \<times> store_state" where
  "store_commit ext input st =
     (case and_then (parse_delegation_store_command ext input)
             (\<lambda>c. plan_delegation_store_commit ext c (commit_snapshot ext c st)) of
        Inl e \<Rightarrow> (Inl e, st)
      | Inr plan \<Rightarrow> (Inr (pl_receipt plan), apply_mutations (pl_mutations plan) st))"

end
