(* ===== verification/Delegation_Effects.thy ===== *)
theory Delegation_Effects
  imports Delegation_Store
begin

text \<open>
  What one commit does to the rows of the store: the planner's result is split into a duplicate
  answer, an update of one retained run, an admission, or a retirement, and each is turned into
  an equation for the store's maps.
\<close>

section \<open>The shape of a plan\<close>

lemma copy_mutations_Inr: "copy_mutations ms = Inr ms' \<Longrightarrow> ms' = ms"
  by (induction ms arbitrary: ms') (auto simp: result_simps)

lemma plan_cases:
  assumes "plan_delegation_store_commit ext c cur = Inr pl"
  obtains (retry) receipt where "command_schema ext c" and "\<not> owner_lost c cur"
      and "duplicate ext c cur = Inr (Some receipt)" and "pl = \<lparr>pl_mutations = [], pl_receipt = receipt\<rparr>"
    | (change) task ctx where "command_schema ext c" and "\<not> owner_lost c cur"
      and "\<not> capacity_inconsistent (cu_capacity cur) (cu_limits cur)"
      and "\<not> snapshot_inconsistent c cur" and "duplicate ext c cur = Inr None"
      and "\<not> stale_revision c cur" and "next_task c cur = Some task"
      and "transition ext (cm_body c) (start_context c cur task) = Inr ctx"
      and "finish_plan ext ctx = Inr pl"
proof -
  have c: "parse_delegation_store_command ext c = Inr c" "command_schema ext c"
    using assms parse_command_Inr [of ext c] by (auto simp: plan_delegation_store_commit_def result_simps)
  have common: "\<not> owner_lost c cur" "\<not> capacity_inconsistent (cu_capacity cur) (cu_limits cur)"
    "\<not> snapshot_inconsistent c cur"
    using assms c by (auto simp: plan_delegation_store_commit_def result_simps)
  obtain retry0 where dup: "duplicate ext c cur = Inr retry0"
    using assms c by (auto simp: plan_delegation_store_commit_def result_simps)
  show thesis
  proof (cases retry0)
    case None
    then show thesis using change assms c common dup
      by (auto simp: plan_delegation_store_commit_def result_simps split: option.splits)
  next
    case (Some receipt)
    then show thesis using retry assms c common dup
      by (auto simp: plan_delegation_store_commit_def result_simps)
  qed
qed

definition run_rows :: "run_record option \<Rightarrow> row_mutation list" where
  "run_rows r = (case r of None \<Rightarrow> [] | Some run \<Rightarrow> [Run_Row run])"

lemma finalize_simps [simp]:
  "finalize_mutation rc (Task_Row t) = Task_Row t" "finalize_mutation rc (Run_Row r) = Run_Row r"
  "finalize_mutation rc (Capacity_Row c) = Capacity_Row c"
  "finalize_mutation rc (Ceiling_Row d) = Ceiling_Row d"
  "bookkeeping_row (finalize_mutation rc m) = bookkeeping_row m"
  by (simp_all add: finalize_mutation_def bookkeeping_row_def split: row_mutation.splits)

lemma finish_plan_Inr:
  assumes "finish_plan ext ctx = Inr pl"
  shows "pl_receipt pl = cx_receipt ctx \<and>
    pl_mutations pl = map (finalize_mutation (cx_receipt ctx)) (cx_mutations ctx)
      @ [Task_Row (cx_task (derive_task ctx))] @ run_rows (cx_run ctx) @ [Capacity_Row (cx_capacity ctx)] \<and>
    task_record_schema ext (cx_task (derive_task ctx)) \<and>
    (case cx_run ctx of None \<Rightarrow> True | Some r \<Rightarrow> run_record_schema ext r)"
proof -
  have derived: "cx_run (derive_task ctx) = cx_run ctx" "cx_receipt (derive_task ctx) = cx_receipt ctx"
    "cx_mutations (derive_task ctx) = cx_mutations ctx" "cx_capacity (derive_task ctx) = cx_capacity ctx"
    by (simp_all add: derive_task_def)
  show ?thesis
    using assms
    by (cases "cx_run ctx")
      (auto simp: finish_plan_def Let_def result_simps parse_record_simps derived run_rows_def
        dest!: copy_mutations_Inr)
qed

lemma transition_update:
  assumes "transition ext body ctx = Inr ctx'" and "\<not> is_admit body" and "\<not> is_retire body"
    and "cx_run ctx = Some r"
  shows "context_step ctx ctx'"
  using assms
  by (cases body)
    (auto simp: is_admit_def is_retire_def intro: dispatch_intent_step operation_receipt_step
      observe_run_step request_state_step cancel_run_step settle_step delivery_step)

section \<open>Rows applied to the store\<close>

lemma apply_mutations_append: "apply_mutations (xs @ ys) st = apply_mutations ys (apply_mutations xs st)"
  by (simp add: apply_mutations_def)

lemma apply_mutations_simps [simp]:
  "apply_mutations [] st = st" "apply_mutations (m # ms) st = apply_mutations ms (apply_mutation m st)"
  by (simp_all add: apply_mutations_def)

definition same_ledger :: "store_state \<Rightarrow> store_state \<Rightarrow> bool" where
  "same_ledger st st' \<longleftrightarrow>
     st_store_id st' = st_store_id st \<and> st_limits st' = st_limits st \<and> st_owner st' = st_owner st \<and>
     st_epoch st' = st_epoch st \<and> st_capacity st' = st_capacity st \<and> st_tasks st' = st_tasks st \<and>
     st_runs st' = st_runs st \<and> st_ceilings st' = st_ceilings st"

lemma same_ledger_refl [simp]: "same_ledger st st"
  by (simp add: same_ledger_def)

lemma same_ledger_trans: "same_ledger a b \<Longrightarrow> same_ledger b c \<Longrightarrow> same_ledger a c"
  by (simp add: same_ledger_def)

lemma apply_bookkeeping:
  "list_all bookkeeping_row ms \<Longrightarrow> same_ledger st (apply_mutations ms st)"
proof (induction ms arbitrary: st)
  case (Cons m ms)
  have "same_ledger st (apply_mutation m st)"
    using Cons.prems by (cases m) (auto simp: bookkeeping_row_def same_ledger_def)
  then show ?case using Cons.IH [of "apply_mutation m st"] Cons.prems
    by (auto intro: same_ledger_trans)
qed simp

text \<open>The ledger part of the rows every plan ends with.\<close>

lemma apply_plan_rows:
  assumes "list_all bookkeeping_row ms"
  shows "st_tasks (apply_mutations (ms @ [Task_Row t] @ run_rows r @ [Capacity_Row c]) st)
      = map_set (tk_task_id t) t (st_tasks st)"
    and "st_runs (apply_mutations (ms @ [Task_Row t] @ run_rows r @ [Capacity_Row c]) st)
      = (case r of None \<Rightarrow> st_runs st | Some run \<Rightarrow> map_set (rn_run_id run) run (st_runs st))"
    and "st_capacity (apply_mutations (ms @ [Task_Row t] @ run_rows r @ [Capacity_Row c]) st) = c"
    and "st_ceilings (apply_mutations (ms @ [Task_Row t] @ run_rows r @ [Capacity_Row c]) st) = st_ceilings st"
    and "st_store_id (apply_mutations (ms @ [Task_Row t] @ run_rows r @ [Capacity_Row c]) st) = st_store_id st"
    and "st_limits (apply_mutations (ms @ [Task_Row t] @ run_rows r @ [Capacity_Row c]) st) = st_limits st"
    and "st_owner (apply_mutations (ms @ [Task_Row t] @ run_rows r @ [Capacity_Row c]) st) = st_owner st"
    and "st_epoch (apply_mutations (ms @ [Task_Row t] @ run_rows r @ [Capacity_Row c]) st) = st_epoch st"
  using apply_bookkeeping [OF assms, of st]
  by (auto simp: apply_mutations_append run_rows_def same_ledger_def split: option.splits)

end
