(* ===== verification/Delegation_Queue.thy ===== *)
theory Delegation_Queue
  imports Delegation_Effects Prelude
begin

text \<open>
  How a run leaves the queue: every transition either leaves a queued run queued, settles it, or
  is the preparation that the source guards by the executor slots.  With it, what each transition
  does to the phase of a run is a step relation on phases.
\<close>

definition idle_queued :: "run_record \<Rightarrow> bool" where
  "idle_queued r \<longleftrightarrow> rn_phase r = Queued \<and> rn_pending_request r = None"

definition executor_free :: "commit_context \<Rightarrow> run_record \<Rightarrow> bool" where
  "executor_free ctx r \<longleftrightarrow> \<not> other_run_active ctx r \<and>
     cp_active_runs (cx_capacity ctx) < lm_max_active_runs (cu_limits (cx_current ctx))"

definition leaves_queue_properly :: "commit_context \<Rightarrow> run_record \<Rightarrow> commit_context \<Rightarrow> bool" where
  "leaves_queue_properly ctx r ctx' \<longleftrightarrow>
     (\<exists>r'. cx_run ctx' = Some r' \<and>
        (idle_queued r' \<or> rn_phase r' = Settled \<or> (executor_free ctx r \<and> rn_phase r' = Preparing)))"

section \<open>The run after a helper\<close>

lemma phase_receipt_run: "phase_receipt ctx = Inr ctx' \<Longrightarrow> cx_run ctx' = cx_run ctx"
  by (auto simp: phase_receipt_def set_receipt_def result_simps)

lemma set_run_run: "set_run f ctx = Inr ctx' \<Longrightarrow> cx_run ctx = Some r \<Longrightarrow> cx_run ctx' = Some (f r)"
  by (auto simp: set_run_def result_simps Let_def)

lemma push_mutation_run [simp]: "cx_run (push_mutation m ctx) = cx_run ctx"
  by (simp add: push_mutation_def)

lemma set_receipt_run [simp]: "cx_run (set_receipt f ctx) = cx_run ctx"
  by (simp add: set_receipt_def)

lemma counted_run_phase [simp]: "rn_phase (counted_run k r) = rn_phase r"
  "rn_pending_request (counted_run k r) = rn_pending_request r"
  by (simp_all add: counted_run_def)

lemma settle_run_run:
  assumes "settle_run ext out at ctx = Inr ctx'"
  shows "\<exists>r'. cx_run ctx' = Some r' \<and> rn_phase r' = Settled"
proof (rule settle_run_Inr [OF assms])
  fix r expires envelope ctx1
  assume "cx_run ctx = Some r" and "set_run (settlement_change ctx (settled_outcome r out) at) ctx = Inr ctx1"
    and "ctx' = push_mutation (Notification_Row (settlement_notification ctx envelope))
      (set_receipt (\<lambda>rc. rc\<lparr>rc_status := Status_Phase Settled,
         rc_notification_id := Some (ev_notification_id envelope)\<rparr>) ctx1)"
  then show ?thesis using set_run_run by (auto simp: settlement_change_def)
qed

section \<open>Each transition from the queue\<close>

lemma dispatch_from_queue:
  assumes "dispatch_intent kind at applied attempt ctx = Inr ctx'" and "cx_run ctx = Some r"
    and "idle_queued r"
  shows "leaves_queue_properly ctx r ctx'"
proof (cases "find (\<lambda>x. op_kind x = kind) (cu_critical_operations (cx_current ctx))")
  case (Some prior)
  then have "cx_run ctx' = cx_run ctx"
    using assms by (auto simp: dispatch_intent_def require_run_Some [OF assms(2)] retry_cleanup_def
        result_simps Let_def)
  then show ?thesis using assms by (simp add: leaves_queue_properly_def)
next
  case None
  then obtain ctx1 ctx2 where a: "dispatch_phase kind applied r ctx = Inr ctx1"
    and b: "add_operation kind at 1 None ctx1 = Inr ctx2" and c: "phase_receipt ctx2 = Inr ctx'"
    using assms by (auto simp: dispatch_intent_def result_simps Let_def)
  have "(kind = Op_Prepare \<and> executor_free ctx r \<and> (\<exists>r1. cx_run ctx1 = Some r1 \<and> rn_phase r1 = Preparing))
      \<or> cx_run ctx1 = Some r"
    using a assms(2,3) set_run_run [of _ ctx ctx1 r]
    by (cases "kind = Op_Prepare"; cases "kind = Op_Turn")
      (auto simp: dispatch_phase_def idle_queued_def executor_free_def not_le result_simps)
  then show ?thesis
    using add_operation_run [OF b] phase_receipt_run [OF c] assms(3)
    by (auto simp: leaves_queue_properly_def idle_queued_def)
qed

lemma receipt_from_queue:
  assumes "operation_receipt disposition at message rs ctx = Inr ctx'" and "cx_run ctx = Some r"
    and "idle_queued r"
  shows "leaves_queue_properly ctx r ctx'"
proof -
  obtain prior x ctx1 where
    mid: "(if op_kind prior = Op_Request_Resolution
        then deliver_request disposition rs prior (push_mutation (Operation_Row x) ctx)
        else Inr (push_mutation (Operation_Row x) ctx)) = Inr ctx1"
    and last: "(if receipt_needs_run disposition (op_kind prior)
        then set_run (receipt_effect disposition (op_kind prior)) ctx1 else Inr ctx1) = Inr ctx'"
    using assms(1)
    by (auto simp: operation_receipt_def result_simps Let_def split: option.splits)
  have run1: "cx_run ctx1 = Some r"
  proof (cases "op_kind prior = Op_Request_Resolution")
    case True
    then have d: "deliver_request disposition rs prior (push_mutation (Operation_Row x) ctx) = Inr ctx1"
      using mid by simp
    have "require_run (push_mutation (Operation_Row x) ctx) = Inr r"
      using assms(2) by (simp add: require_run_def)
    then obtain request where "and_then (deliver_pending disposition rs request r
        (push_mutation (Operation_Row x) ctx)) phase_receipt = Inr ctx1"
      using d by (cases "op_request prior") (auto simp: deliver_request_def)
    then have "phase_receipt (push_mutation (Operation_Row x) ctx) = Inr ctx1"
      using assms(3) by (auto simp: deliver_pending_def idle_queued_def result_simps)
    then show ?thesis using phase_receipt_run assms(2) by fastforce
  next
    case False
    then show ?thesis using mid assms(2) by auto
  qed
  have effect: "rn_phase (receipt_effect d k r) = rn_phase r"
    "rn_pending_request (receipt_effect d k r) = rn_pending_request r" for d k
    by (simp_all add: receipt_effect_def Let_def)
  have "cx_run ctx' = Some r \<or> (\<exists>d k. cx_run ctx' = Some (receipt_effect d k r))"
    using last run1 set_run_run [OF _ run1] by (auto split: if_splits)
  then show ?thesis using assms(3) effect by (auto simp: leaves_queue_properly_def idle_queued_def)
qed

lemma request_from_queue:
  "request_state change request at ctx = Inr ctx' \<Longrightarrow> cx_run ctx = Some r \<Longrightarrow> idle_queued r \<Longrightarrow> False"
  by (auto simp: request_state_def idle_queued_def result_simps split: if_splits)

lemma cancel_from_queue:
  assumes "cancel_run ext at ctx = Inr ctx'" and "cx_run ctx = Some r" and "idle_queued r"
  shows "leaves_queue_properly ctx r ctx'"
proof -
  obtain ctx1 ctx2 where a: "set_run (\<lambda>r. r\<lparr>rn_cancel_requested := True\<rparr>) ctx = Inr ctx1"
    and b: "(if undispatched r then settle_run ext (Canceled Not_Dispatched) at ctx1 else Inr ctx1) = Inr ctx2"
    and c: "add_operation Op_Cancel at 1 None ctx2 = Inr ctx'"
    using assms by (auto simp: cancel_run_def idle_queued_def result_simps)
  have "\<exists>r2. cx_run ctx2 = Some r2 \<and> (idle_queued r2 \<or> rn_phase r2 = Settled)"
  proof (cases "undispatched r")
    case True
    then show ?thesis using b settle_run_run [of ext _ at ctx1 ctx2] by auto
  next
    case False
    then show ?thesis using b set_run_run [OF a assms(2)] assms(3) by (simp add: idle_queued_def)
  qed
  then show ?thesis using add_operation_run [OF c] by (auto simp: leaves_queue_properly_def idle_queued_def)
qed

lemma delivery_run:
  assumes "delivery ext nid revision attempt_id result at ctx = Inr ctx'"
  shows "cx_run ctx' = cx_run ctx"
  by (rule delivery_cases [OF assms]) simp

lemma queued_transition:
  assumes "transition ext body ctx = Inr ctx'" and "\<not> is_admit body" and "\<not> is_retire body"
    and "cx_run ctx = Some r" and "idle_queued r"
  shows "leaves_queue_properly ctx r ctx'"
  using assms
proof (cases body)
  case (Observe b)
  then show ?thesis using assms observe_run_cases [of ext b ctx ctx' r] by (auto simp: idle_queued_def)
next
  case (Settle out at)
  then show ?thesis using assms settle_Inr [of ext out at ctx ctx'] settle_run_run
    by (fastforce simp: leaves_queue_properly_def)
qed (auto simp: is_admit_def is_retire_def leaves_queue_properly_def delivery_run
    dest: dispatch_from_queue receipt_from_queue request_from_queue cancel_from_queue)


text \<open>
  The interface between the store's rows and the ledger that counts them: a table with a lookup,
  a put, and the total of a weight over its rows.  The ledger's lemmas are proved from these laws;
  the in-memory store provides them with its \<open>Map\<close>s.
\<close>

locale row_table =
  fixes lookup :: "'t \<Rightarrow> 'k \<Rightarrow> 'v option"
    and put :: "'k \<Rightarrow> 'v \<Rightarrow> 't \<Rightarrow> 't"
    and total :: "('v \<Rightarrow> int) \<Rightarrow> 't \<Rightarrow> int"
  assumes lookup_put: "lookup (put k v t) = (lookup t)(k \<mapsto> v)"
    and total_put: "total f (put k v t) =
      total f t + f v - (case lookup t k of None \<Rightarrow> 0 | Some u \<Rightarrow> f u)"
    and total_nonneg: "(\<And>v. 0 \<le> f v) \<Longrightarrow> 0 \<le> total f t"
begin

lemma total_put_new: "lookup t k = None \<Longrightarrow> total f (put k v t) = total f t + f v"
  by (simp add: total_put)

lemma total_put_old: "lookup t k = Some u \<Longrightarrow> total f (put k v t) = total f t + f v - f u"
  by (simp add: total_put)

lemma total_put_same: "lookup t k = Some u \<Longrightarrow> f v = f u \<Longrightarrow> total f (put k v t) = total f t"
  by (simp add: total_put_old)

lemma total_put_le: "lookup t k = Some u \<Longrightarrow> f v \<le> f u \<Longrightarrow> total f (put k v t) \<le> total f t"
  by (simp add: total_put_old)

text \<open>A resource with one holder: a new holder may enter only while nobody holds it.\<close>

lemma exclusive_put:
  assumes "total f t \<le> 1" and "f v \<le> 1"
    and "case lookup t k of None \<Rightarrow> f v = 0 \<or> total f t = 0
         | Some u \<Rightarrow> f v \<le> f u \<or> (total f t = 0 \<and> 0 \<le> f u)"
  shows "total f (put k v t) \<le> 1"
  using assms by (auto simp: total_put split: option.splits)

lemma lookup_after_put [simp]: "lookup (put k v t) k = Some v"
  by (simp add: lookup_put)

lemma put_preserves:
  assumes "\<And>k v. lookup t k = Some v \<Longrightarrow> P k v" and "P k v"
  shows "lookup (put k v t) k' = Some v' \<Longrightarrow> P k' v'"
  using assms by (auto simp: lookup_put split: if_splits)

end

interpretation rows: row_table map_of map_set sum_over
proof
  show "map_of (map_set k v t) = (map_of t)(k \<mapsto> v)" for k :: 'a and v :: 'b and t
    by simp
  show "sum_over f (map_set k v t) = sum_over f t + f v - (case map_of t k of None \<Rightarrow> 0 | Some u \<Rightarrow> f u)"
    for f :: "'b \<Rightarrow> int" and k :: 'a and v :: 'b and t
    by (simp add: sum_over_set)
  show "0 \<le> sum_over f t" if "\<And>v. 0 \<le> f v" for f :: "'b \<Rightarrow> int" and t :: "('a \<times> 'b) list"
    using that by (intro sum_over_nonneg)
qed

end
