(* ===== verification/Delegation_Ledger.thy ===== *)
theory Delegation_Ledger
  imports Delegation_Queue
begin

text \<open>
  The invariant of the volatile store.  Its nine capacity counters, which each commit maintains
  incrementally, equal their recomputation from the retained rows; each task has at most one
  queued run and one run on an executor; every counter is within its limit.
\<close>

section \<open>The recomputed capacity\<close>

definition retained_run_bytes :: "run_record \<Rightarrow> int" where
  "retained_run_bytes r = input_bytes (rn_input r)"

definition computed_capacity :: "store_state \<Rightarrow> store_capacity" where
  "computed_capacity st = \<lparr>
     cp_tasks = int (length (st_tasks st)), cp_runs = int (length (st_runs st)),
     cp_active_runs = sum_over active_count (st_runs st),
     cp_queued_runs = sum_over queued_count (st_runs st),
     cp_retained_input_bytes = sum_over retained_run_bytes (st_runs st) + sum_over ceiling_bytes (st_ceilings st),
     cp_observation_bytes = sum_over rn_observation_bytes (st_runs st),
     cp_ordinary_operations = sum_over rn_ordinary_operation_count (st_runs st),
     cp_reserved_bytes = int (length (st_runs st)) * delegation_run_reservation_bytes,
     cp_critical_slots = int (length (st_runs st)) * delegation_critical_slots\<rparr>"

definition in_task :: "string \<Rightarrow> (run_record \<Rightarrow> int) \<Rightarrow> run_record \<Rightarrow> int" where
  "in_task task_id f r = (if rn_task_id r = task_id then f r else 0)"

definition task_run_count :: "string \<Rightarrow> store_state \<Rightarrow> int" where
  "task_run_count task_id st = sum_over (in_task task_id (\<lambda>_. 1)) (st_runs st)"

definition keyed :: "('v \<Rightarrow> string) \<Rightarrow> (string \<times> 'v) list \<Rightarrow> bool" where
  "keyed key m \<longleftrightarrow> distinct (map fst m) \<and> list_all (\<lambda>(k, v). key v = k) m"

definition run_row_ok :: "externals \<Rightarrow> store_state \<Rightarrow> run_record \<Rightarrow> bool" where
  "run_row_ok ext st r \<longleftrightarrow>
     run_record_schema ext r \<and> has_key (st_tasks st) (rn_task_id r) \<and>
     (rn_phase r = Queued \<longrightarrow> rn_pending_request r = None)"

definition task_row_ok :: "store_state \<Rightarrow> string \<Rightarrow> task_record \<Rightarrow> bool" where
  "task_row_ok st k t \<longleftrightarrow>
     tk_run_count t = task_run_count k st \<and> tk_run_count t \<le> lm_max_runs_per_task (st_limits st)"

definition store_ok :: "externals \<Rightarrow> store_state \<Rightarrow> bool" where
  "store_ok ext st \<longleftrightarrow>
     limits_positive (st_limits st) \<and> limits_consistent (st_limits st) \<and>
     keyed tk_task_id (st_tasks st) \<and> keyed rn_run_id (st_runs st) \<and>
     (\<forall>k r. map_of (st_runs st) k = Some r \<longrightarrow> run_row_ok ext st r) \<and>
     (\<forall>k t. map_of (st_tasks st) k = Some t \<longrightarrow> task_row_ok st k t) \<and>
     st_capacity st = computed_capacity st \<and>
     \<not> capacity_inconsistent (computed_capacity st) (st_limits st) \<and>
     (\<forall>t. sum_over (in_task t queued_count) (st_runs st) \<le> 1) \<and>
     (\<forall>t. sum_over (in_task t active_count) (st_runs st) \<le> 1)"

section \<open>Keys\<close>

lemma keyed_map_set: "keyed key m \<Longrightarrow> key v = k \<Longrightarrow> keyed key (map_set k v m)"
  by (auto simp: keyed_def list_all_iff dest!: in_set_map_set)

lemma keyed_lookup: "keyed key m \<Longrightarrow> (k, v) \<in> set m \<Longrightarrow> map_of m (key v) = Some v"
  by (auto simp: keyed_def list_all_iff)

lemma keyed_key: "keyed key m \<Longrightarrow> map_of m k = Some v \<Longrightarrow> key v = k"
  by (auto simp: keyed_def list_all_iff dest!: map_of_SomeD)

section \<open>Counts\<close>

lemma queued_count_cases: "queued_count r = (if rn_phase r = Queued then 1 else 0)"
  by (simp add: queued_count_def)

lemma active_count_cases:
  "active_count r = (if rn_phase r = Queued \<or> rn_phase r = Settled then 0 else 1)"
  by (simp add: active_count_def)

lemma counts_bounds [simp]:
  "0 \<le> queued_count r" "queued_count r \<le> 1" "0 \<le> active_count r" "active_count r \<le> 1"
  by (simp_all add: queued_count_def active_count_def)

lemma in_task_bounds [simp]:
  "0 \<le> in_task t queued_count r" "in_task t queued_count r \<le> 1"
  "0 \<le> in_task t active_count r" "in_task t active_count r \<le> 1"
  by (simp_all add: in_task_def)

lemma run_step_queued: "run_step r r' \<Longrightarrow> queued_count r' \<le> queued_count r"
  by (auto simp: run_step_def phase_order_kept_def queued_count_cases)

lemma run_step_live:
  "run_step r r' \<Longrightarrow> queued_count r' + active_count r' \<le> queued_count r + active_count r"
  by (auto simp: run_step_def phase_order_kept_def queued_count_cases active_count_cases)

lemma revision_neutral [simp]:
  "queued_count (r\<lparr>rn_revision := n\<rparr>) = queued_count r"
  "active_count (r\<lparr>rn_revision := n\<rparr>) = active_count r"
  by (simp_all add: queued_count_def active_count_def)

section \<open>Lookup of the run a command names\<close>

lemma find_Some_in: "find P xs = Some x \<Longrightarrow> x \<in> set xs \<and> P x"
  by (induction xs) (auto split: if_splits)

lemma snapshot_find_run:
  assumes "keyed rn_run_id (st_runs st)" and "find_run (commit_snapshot ext c st) k = Some r"
  shows "map_of (st_runs st) (rn_run_id r) = Some r \<and> rn_task_id r = cm_task_id c \<and> k = Some (rn_run_id r)"
proof -
  have "r \<in> set (task_runs (cm_task_id c) st)" and k: "Some (rn_run_id r) = k"
    using assms(2) find_Some_in by (fastforce simp: find_run_def commit_snapshot_def)+
  then have r: "r \<in> snd ` set (st_runs st)" "rn_task_id r = cm_task_id c"
    by (auto simp: task_runs_def)
  then obtain k' where "(k', r) \<in> set (st_runs st)" by auto
  then show ?thesis using keyed_lookup [OF assms(1)] r k by auto
qed

section \<open>The counters within their limits\<close>

lemma limits_safe:
  assumes "limits_positive l" and "limits_consistent l"
  shows "lm_max_tasks l \<le> max_safe_integer" "lm_max_runs l \<le> max_safe_integer"
    "lm_max_active_runs l \<le> max_safe_integer" "lm_max_queued_runs l \<le> max_safe_integer"
    "lm_max_retained_input_bytes l \<le> max_safe_integer"
    "lm_max_retained_observation_bytes l \<le> max_safe_integer"
    "lm_max_ordinary_operations l \<le> max_safe_integer"
    "lm_max_runs l * delegation_run_reservation_bytes \<le> max_safe_integer"
    "lm_max_runs l * delegation_critical_slots \<le> max_safe_integer"
  using assms
  by (auto simp: limits_positive_def limit_members_def positive_safe_def limits_consistent_def
      limits_derivable_def delegation_run_reservation_bytes_def delegation_critical_slots_def
      max_safe_integer_def)

definition capacity_within :: "store_capacity \<Rightarrow> delegation_limits \<Rightarrow> bool" where
  "capacity_within c l \<longleftrightarrow>
     list_all (\<lambda>n. 0 \<le> n) (capacity_values c) \<and>
     cp_tasks c \<le> lm_max_tasks l \<and> cp_runs c \<le> lm_max_runs l \<and> cp_tasks c \<le> cp_runs c \<and>
     cp_active_runs c \<le> lm_max_active_runs l \<and> cp_queued_runs c \<le> lm_max_queued_runs l \<and>
     cp_active_runs c + cp_queued_runs c \<le> cp_runs c \<and>
     cp_retained_input_bytes c \<le> lm_max_retained_input_bytes l \<and>
     cp_observation_bytes c \<le> lm_max_retained_observation_bytes l \<and>
     cp_ordinary_operations c \<le> lm_max_ordinary_operations l \<and>
     cp_reserved_bytes c = cp_runs c * delegation_run_reservation_bytes \<and>
     cp_critical_slots c = cp_runs c * delegation_critical_slots"

lemma capacity_consistent_iff:
  assumes "limits_positive l" and "limits_consistent l"
  shows "\<not> capacity_inconsistent c l \<longleftrightarrow> capacity_within c l"
proof
  assume "\<not> capacity_inconsistent c l"
  then show "capacity_within c l"
    by (auto simp: capacity_inconsistent_def capacity_within_def list_ex_iff list_all_iff not_less)
next
  assume w: "capacity_within c l"
  then have runs: "cp_runs c \<le> lm_max_runs l" by (simp add: capacity_within_def)
  then have "cp_runs c * delegation_run_reservation_bytes \<le> max_safe_integer"
    "cp_runs c * delegation_critical_slots \<le> max_safe_integer"
    using limits_safe(8,9) [OF assms]
    by (auto simp: delegation_run_reservation_bytes_def delegation_critical_slots_def)
  with w show "\<not> capacity_inconsistent c l"
    using limits_safe(1-7) [OF assms]
    by (auto simp: capacity_inconsistent_def capacity_within_def capacity_values_def safe_integer_def
        max_safe_integer_def)
qed

lemma capacity_step_within:
  assumes "capacity_within c l" and "run_step r r'" and "capacity_step c c' r r'"
    and "capacity_guarded l c c'" and "list_all (\<lambda>n. 0 \<le> n) (capacity_values c')"
    and "cp_active_runs c' \<le> lm_max_active_runs l"
  shows "capacity_within c' l"
proof -
  have "cp_queued_runs c' \<le> cp_queued_runs c"
    "cp_active_runs c' + cp_queued_runs c' \<le> cp_active_runs c + cp_queued_runs c"
    using assms(3) run_step_queued [OF assms(2)] run_step_live [OF assms(2)]
    by (auto simp: capacity_step_def)
  moreover have "cp_tasks c' = cp_tasks c" "cp_runs c' = cp_runs c"
    "cp_retained_input_bytes c' = cp_retained_input_bytes c"
    "cp_reserved_bytes c' = cp_reserved_bytes c" "cp_critical_slots c' = cp_critical_slots c"
    using assms(3) by (simp_all add: capacity_step_def)
  ultimately show ?thesis
    using assms(1,4-6) by (auto simp: capacity_within_def capacity_guarded_def)
qed

lemma computed_nonneg:
  assumes "\<And>k r. map_of (st_runs st) k = Some r \<Longrightarrow> run_row_ok ext st r"
    and "keyed rn_run_id (st_runs st)"
  shows "list_all (\<lambda>n. 0 \<le> n) (capacity_values (computed_capacity st))"
proof -
  have "run_record_schema ext r" if "r \<in> snd ` set (st_runs st)" for r
    using that assms keyed_lookup by (force simp: run_row_ok_def)
  then have "0 \<le> rn_observation_bytes r \<and> 0 \<le> rn_ordinary_operation_count r"
    if "r \<in> snd ` set (st_runs st)" for r
    using that by (auto simp: run_record_schema_def run_members_schema_def count_schema_def)
  then show ?thesis
    by (auto simp: capacity_values_def computed_capacity_def retained_run_bytes_def
        delegation_run_reservation_bytes_def delegation_critical_slots_def
        intro!: sum_over_nonneg add_nonneg_nonneg)
qed

end
