(* ===== verification/Delegation_Safety.thy ===== *)
theory Delegation_Safety
  imports Delegation_Ledger
begin

text \<open>
  The abstract specification of a commit, \<open>ledger_step\<close>: a commit leaves the ledger as it is,
  advances one retained run, admits one new run, or changes a task alone.  Every abstract step
  preserves the invariant \<open>store_ok\<close>, and every commit of the planner and the store is one.
\<close>

section \<open>The update of one retained run\<close>

lemma store_ok_counts:
  assumes "store_ok ext st" and "map_of (st_tasks st) k = Some t"
  shows "tk_run_count t = task_run_count k st" and "task_run_count k st \<le> lm_max_runs_per_task (st_limits st)"
proof -
  have "task_row_ok st k t" using assms by (simp add: store_ok_def)
  then show "tk_run_count t = task_run_count k st" "task_run_count k st \<le> lm_max_runs_per_task (st_limits st)"
    by (auto simp: task_row_ok_def)
qed

lemma task_counts_update:
  assumes "store_ok ext st" and "map_of (st_tasks st) t = Some t0" and "tk_run_count t1 = tk_run_count t0"
    and "st_tasks st' = map_set t t1 (st_tasks st)" and "st_limits st' = st_limits st"
    and "\<And>k. task_run_count k st' = task_run_count k st"
    and "map_of (st_tasks st') k = Some u"
  shows "task_row_ok st' k u"
proof (cases "k = t")
  case True
  then show ?thesis using assms store_ok_counts [OF assms(1,2)] by (simp add: task_row_ok_def)
next
  case False
  then have "map_of (st_tasks st) k = Some u" using assms(4,7) by simp
  then show ?thesis using assms(5,6) store_ok_counts [OF assms(1)] by (simp add: task_row_ok_def)
qed

lemma in_task_le: "rn_task_id r' = rn_task_id r \<Longrightarrow> f r' \<le> f r \<Longrightarrow> in_task t f r' \<le> in_task t f r"
  by (simp add: in_task_def)

lemma task_keys_update:
  "map_of (st_tasks st) t = Some t0 \<Longrightarrow> st_tasks st' = map_set t t1 (st_tasks st) \<Longrightarrow>
     length (st_tasks st') = length (st_tasks st) \<and> has_key (st_tasks st') = has_key (st_tasks st)"
  by (auto simp: length_map_set has_key_def fun_eq_iff)

lemma run_keys_update:
  "map_of (st_runs st) k = Some r0 \<Longrightarrow> length (map_set k r1 (st_runs st)) = length (st_runs st)"
  by (simp add: length_map_set has_key_def)

lemma computed_update:
  assumes "map_of (st_runs st) k = Some r0" and "map_of (st_tasks st) t = Some t0"
    and "st_tasks st' = map_set t t1 (st_tasks st)" and "st_runs st' = map_set k r1 (st_runs st)"
    and "st_ceilings st' = st_ceilings st" and "rn_input r1 = rn_input r0"
    and "capacity_step (computed_capacity st) c (r0\<lparr>rn_revision := n\<rparr>) r1"
  shows "c = computed_capacity st'"
proof -
  have "sum_over retained_run_bytes (st_runs st') = sum_over retained_run_bytes (st_runs st)"
    unfolding assms(4) by (rule rows.total_put_same [OF assms(1)]) (simp add: retained_run_bytes_def assms(6))
  moreover have "sum_over f (st_runs st') = sum_over f (st_runs st) + f r1 - f r0" for f
    unfolding assms(4) by (rule rows.total_put_old [OF assms(1)])
  ultimately show ?thesis
    using assms(3-5,7) run_keys_update [OF assms(1), of r1] task_keys_update [OF assms(2,3)]
    by (simp add: capacity_step_def computed_capacity_def)
qed

lemma store_ok_update:
  assumes ok: "store_ok ext st"
    and r0: "map_of (st_runs st) (rn_run_id r0) = Some r0" and t0: "map_of (st_tasks st) (rn_task_id r0) = Some t0"
    and step: "run_step (r0\<lparr>rn_revision := n\<rparr>) r1"
    and cap: "capacity_step (st_capacity st) (st_capacity st') (r0\<lparr>rn_revision := n\<rparr>) r1"
    and guard: "capacity_guarded (st_limits st) (st_capacity st) (st_capacity st')"
    and active: "cp_active_runs (st_capacity st') \<le> lm_max_active_runs (st_limits st)"
    and executor: "active_count r1 \<le> active_count r0 \<or>
      sum_over (in_task (rn_task_id r0) active_count) (st_runs st) = 0"
    and r1: "run_record_schema ext r1" "rn_phase r1 = Queued \<longrightarrow> rn_pending_request r1 = None"
    and t1: "tk_task_id t1 = rn_task_id r0" "tk_run_count t1 = tk_run_count t0"
    and st': "st_tasks st' = map_set (rn_task_id r0) t1 (st_tasks st)"
      "st_runs st' = map_set (rn_run_id r0) r1 (st_runs st)"
      "st_ceilings st' = st_ceilings st" "st_limits st' = st_limits st"
  shows "store_ok ext st'"
proof -
  have keys: "rn_task_id r1 = rn_task_id r0" "rn_run_id r1 = rn_run_id r0" "rn_input r1 = rn_input r0"
    using step by (simp_all add: run_step_def run_identity_kept_def)
  have same_count: "task_run_count t st' = task_run_count t st" for t
    unfolding task_run_count_def st'(2)
    by (rule rows.total_put_same [OF r0]) (simp add: in_task_def keys)
  have computed: "st_capacity st' = computed_capacity st'"
    using computed_update [OF r0 t0 st'(1,2,3) keys(3)] cap ok by (simp add: store_ok_def)
  have rows_ok: "run_row_ok ext st' r" if "map_of (st_runs st') k = Some r" for k r
    using that ok r1 t0 task_keys_update [OF t0 st'(1)] keys
    by (auto simp: st'(2) run_row_ok_def store_ok_def has_key_def split: if_splits)
  have keyed': "keyed rn_run_id (st_runs st')" "keyed tk_task_id (st_tasks st')"
    using ok keys(2) t1(1) by (auto simp: st' store_ok_def intro: keyed_map_set)
  have "list_all (\<lambda>n. 0 \<le> n) (capacity_values (st_capacity st'))"
    unfolding computed by (rule computed_nonneg [OF rows_ok keyed'(1)])
  then have "capacity_within (st_capacity st') (st_limits st)"
    using ok by (intro capacity_step_within [OF _ step cap guard _ active])
      (simp_all add: store_ok_def flip: capacity_consistent_iff)
  then have within: "\<not> capacity_inconsistent (st_capacity st') (st_limits st')"
    using ok by (simp add: capacity_consistent_iff store_ok_def st'(4))
  have queued: "sum_over (in_task t queued_count) (st_runs st') \<le> 1" for t
  proof -
    have "sum_over (in_task t queued_count) (st_runs st') \<le> sum_over (in_task t queued_count) (st_runs st)"
      unfolding st'(2) using run_step_queued [OF step]
      by (intro rows.total_put_le [OF r0] in_task_le [OF keys(1)]) simp
    moreover have "sum_over (in_task t queued_count) (st_runs st) \<le> 1" using ok by (simp add: store_ok_def)
    ultimately show ?thesis by simp
  qed
  have exclusive: "sum_over (in_task t active_count) (st_runs st') \<le> 1" for t
    unfolding st'(2)
  proof (rule rows.exclusive_put)
    show "sum_over (in_task t active_count) (st_runs st) \<le> 1" using ok by (simp add: store_ok_def)
    show "case map_of (st_runs st) (rn_run_id r0) of
        None \<Rightarrow> in_task t active_count r1 = 0 \<or> sum_over (in_task t active_count) (st_runs st) = 0
      | Some u \<Rightarrow> in_task t active_count r1 \<le> in_task t active_count u \<or>
          (sum_over (in_task t active_count) (st_runs st) = 0 \<and> 0 \<le> in_task t active_count u)"
      using executor by (auto simp: r0 in_task_def keys(1))
  qed simp
  have counts: "task_row_ok st' k t" if "map_of (st_tasks st') k = Some t" for k t
    using task_counts_update [OF ok t0 t1(2) st'(1,4) same_count that] .
  show ?thesis
    using ok keyed' rows_ok counts computed within queued exclusive by (simp add: store_ok_def st'(4))
qed

section \<open>A new run\<close>

lemma computed_admit:
  assumes "map_of (st_runs st) (rn_run_id r1) = None"
    and "st_runs st' = map_set (rn_run_id r1) r1 (st_runs st)"
    and "st_tasks st' = map_set (rn_task_id r1) t1 (st_tasks st)"
    and "sum_over ceiling_bytes (st_ceilings st') = sum_over ceiling_bytes (st_ceilings st) + extra"
    and "rn_phase r1 = Queued" and "rn_observation_bytes r1 = 0" and "rn_ordinary_operation_count r1 = 1"
  shows "computed_capacity st' = (computed_capacity st)\<lparr>
    cp_tasks := cp_tasks (computed_capacity st) + (if map_of (st_tasks st) (rn_task_id r1) = None then 1 else 0),
    cp_runs := cp_runs (computed_capacity st) + 1,
    cp_queued_runs := cp_queued_runs (computed_capacity st) + 1,
    cp_retained_input_bytes := cp_retained_input_bytes (computed_capacity st) + input_bytes (rn_input r1) + extra,
    cp_ordinary_operations := cp_ordinary_operations (computed_capacity st) + 1,
    cp_reserved_bytes := cp_reserved_bytes (computed_capacity st) + delegation_run_reservation_bytes,
    cp_critical_slots := cp_critical_slots (computed_capacity st) + delegation_critical_slots\<rparr>"
  using assms
  by (simp add: computed_capacity_def rows.total_put_new length_map_set has_key_def
      queued_count_cases active_count_cases retained_run_bytes_def algebra_simps)

lemma store_ok_admit:
  assumes ok: "store_ok ext st"
    and fresh: "map_of (st_runs st) (rn_run_id r1) = None"
    and r1: "run_record_schema ext r1" "rn_phase r1 = Queued" "rn_pending_request r1 = None"
    and t1: "tk_task_id t1 = rn_task_id r1"
      "tk_run_count t1 = (case map_of (st_tasks st) (rn_task_id r1) of None \<Rightarrow> 0 | Some t \<Rightarrow> tk_run_count t) + 1"
    and st': "st_tasks st' = map_set (rn_task_id r1) t1 (st_tasks st)"
      "st_runs st' = map_set (rn_run_id r1) r1 (st_runs st)" "st_limits st' = st_limits st"
    and cap: "st_capacity st' = computed_capacity st'"
      "capacity_within (st_capacity st') (st_limits st)"
    and room: "tk_run_count t1 \<le> lm_max_runs_per_task (st_limits st)"
    and idle: "sum_over (in_task (rn_task_id r1) queued_count) (st_runs st) = 0"
    and new: "map_of (st_tasks st) (rn_task_id r1) = None \<longrightarrow> task_run_count (rn_task_id r1) st = 0"
  shows "store_ok ext st'"
proof -
  have rows_ok: "run_row_ok ext st' r" if "map_of (st_runs st') k = Some r" for k r
    using that ok r1 by (auto simp: st' run_row_ok_def store_ok_def split: if_splits)
  have keyed': "keyed rn_run_id (st_runs st')" "keyed tk_task_id (st_tasks st')"
    using ok t1(1) by (auto simp: st' store_ok_def intro: keyed_map_set)
  have count: "task_run_count t st' = task_run_count t st + (if t = rn_task_id r1 then 1 else 0)" for t
    unfolding task_run_count_def st'(2) rows.total_put_new [OF fresh] by (simp add: in_task_def)
  have counts: "task_row_ok st' k t" if k: "map_of (st_tasks st') k = Some t" for k t
  proof (cases "k = rn_task_id r1")
    case True
    then have "t = t1" using k by (simp add: st'(1))
    then show ?thesis using True t1(2) new room store_ok_counts [OF ok, of k]
      by (cases "map_of (st_tasks st) (rn_task_id r1)") (auto simp: count st'(3) task_row_ok_def)
  next
    case False
    then have "map_of (st_tasks st) k = Some t" using k by (simp add: st'(1))
    then show ?thesis using False count st'(3) store_ok_counts [OF ok] by (simp add: task_row_ok_def)
  qed
  have queued: "sum_over (in_task t queued_count) (st_runs st') \<le> 1" for t
    unfolding st'(2)
  proof (rule rows.exclusive_put)
    show "sum_over (in_task t queued_count) (st_runs st) \<le> 1" using ok by (simp add: store_ok_def)
    show "case map_of (st_runs st) (rn_run_id r1) of
        None \<Rightarrow> in_task t queued_count r1 = 0 \<or> sum_over (in_task t queued_count) (st_runs st) = 0
      | Some u \<Rightarrow> in_task t queued_count r1 \<le> in_task t queued_count u \<or>
          (sum_over (in_task t queued_count) (st_runs st) = 0 \<and> 0 \<le> in_task t queued_count u)"
      using idle by (auto simp: fresh in_task_def)
  qed simp
  have exclusive: "sum_over (in_task t active_count) (st_runs st') \<le> 1" for t
    unfolding st'(2) rows.total_put_new [OF fresh] using ok r1(2)
    by (simp add: store_ok_def in_task_def active_count_cases)
  have within: "\<not> capacity_inconsistent (st_capacity st') (st_limits st')"
    using ok cap(2) by (simp add: capacity_consistent_iff store_ok_def st'(3))
  show ?thesis
    using ok keyed' rows_ok counts cap(1) within queued exclusive by (simp add: store_ok_def st'(3))
qed

section \<open>A task alone\<close>

lemma store_ok_task:
  assumes ok: "store_ok ext st" and t0: "map_of (st_tasks st) t = Some t0"
    and t1: "tk_task_id t1 = t" "tk_run_count t1 = tk_run_count t0"
    and st': "st_tasks st' = map_set t t1 (st_tasks st)" "st_runs st' = st_runs st"
      "st_ceilings st' = st_ceilings st" "st_limits st' = st_limits st" "st_capacity st' = st_capacity st"
  shows "store_ok ext st'"
proof -
  have same: "task_run_count k st' = task_run_count k st" for k
    by (simp add: task_run_count_def st'(2))
  have keys: "length (st_tasks st') = length (st_tasks st)" "has_key (st_tasks st') = has_key (st_tasks st)"
    using task_keys_update [OF t0 st'(1)] by auto
  have "computed_capacity st' = computed_capacity st"
    by (simp add: computed_capacity_def st' keys(1) flip: st'(1))
  moreover have "run_row_ok ext st' r = run_row_ok ext st r" for r
    by (simp add: run_row_ok_def keys(2))
  moreover have "keyed tk_task_id (st_tasks st')"
    using ok t1(1) by (auto simp: st'(1) store_ok_def intro: keyed_map_set)
  moreover have "task_row_ok st' k u" if "map_of (st_tasks st') k = Some u" for k u
    using task_counts_update [OF ok t0 t1(2) st'(1,4) same that] .
  ultimately show ?thesis using ok by (simp add: store_ok_def st'(2-5))
qed

section \<open>The abstract step\<close>

text \<open>What a commit to an existing task keeps of it.\<close>

definition task_kept :: "task_record \<Rightarrow> task_record \<Rightarrow> bool" where
  "task_kept t t' \<longleftrightarrow>
     tk_task_id t' = tk_task_id t \<and> tk_store_id t' = tk_store_id t \<and> tk_parent t' = tk_parent t \<and>
     tk_ancestor_task_id t' = tk_ancestor_task_id t \<and> tk_depth t' = tk_depth t \<and>
     tk_policy_ceiling_ref t' = tk_policy_ceiling_ref t \<and>
     tk_completion_policy t' = tk_completion_policy t \<and> tk_created_at t' = tk_created_at t \<and>
     tk_revision t' = tk_revision t + 1 \<and> (tk_state t = Task_Retired \<longrightarrow> tk_state t' = Task_Retired)"

definition advanced :: "run_record \<Rightarrow> run_record" where
  "advanced r = r\<lparr>rn_revision := rn_revision r + 1\<rparr>"

inductive ledger_step :: "externals \<Rightarrow> store_state \<Rightarrow> store_state \<Rightarrow> bool" for ext where
  stutter: "same_ledger st st' \<Longrightarrow> ledger_step ext st st'"
| update: "map_of (st_runs st) (rn_run_id r0) = Some r0 \<Longrightarrow>
    map_of (st_tasks st) (rn_task_id r0) = Some t0 \<Longrightarrow> run_step (advanced r0) r1 \<Longrightarrow>
    capacity_step (st_capacity st) (st_capacity st') (advanced r0) r1 \<Longrightarrow>
    capacity_guarded (st_limits st) (st_capacity st) (st_capacity st') \<Longrightarrow>
    cp_active_runs (st_capacity st') \<le> lm_max_active_runs (st_limits st) \<Longrightarrow>
    active_count r1 \<le> active_count r0 \<or>
      sum_over (in_task (rn_task_id r0) active_count) (st_runs st) = 0 \<Longrightarrow>
    run_record_schema ext r1 \<Longrightarrow> (rn_phase r1 = Queued \<longrightarrow> rn_pending_request r1 = None) \<Longrightarrow>
    task_kept t0 t1 \<Longrightarrow> tk_run_count t1 = tk_run_count t0 \<Longrightarrow>
    st_tasks st' = map_set (rn_task_id r0) t1 (st_tasks st) \<Longrightarrow>
    st_runs st' = map_set (rn_run_id r0) r1 (st_runs st) \<Longrightarrow> st_ceilings st' = st_ceilings st \<Longrightarrow>
    st_limits st' = st_limits st \<Longrightarrow> ledger_step ext st st'"
| admit: "map_of (st_runs st) (rn_run_id r1) = None \<Longrightarrow> run_record_schema ext r1 \<Longrightarrow>
    rn_phase r1 = Queued \<Longrightarrow> rn_pending_request r1 = None \<Longrightarrow> rn_applied_target r1 = None \<Longrightarrow>
    tk_task_id t1 = rn_task_id r1 \<Longrightarrow>
    (case map_of (st_tasks st) (rn_task_id r1) of None \<Rightarrow> tk_run_count t1 = 1
     | Some t0 \<Rightarrow> tk_run_count t1 = tk_run_count t0 + 1 \<and> task_kept t0 t1 \<and>
         tk_run_count t0 < lm_max_runs_per_task (st_limits st)) \<Longrightarrow>
    map_of (st_ceilings st') (tk_policy_ceiling_ref t1) = Some c1 \<Longrightarrow>
    rn_admitted_target r1 \<in> set (pc_targets c1) \<Longrightarrow>
    (\<forall>k c. map_of (st_ceilings st) k = Some c \<longrightarrow> map_of (st_ceilings st') k = Some c) \<Longrightarrow>
    st_tasks st' = map_set (rn_task_id r1) t1 (st_tasks st) \<Longrightarrow>
    st_runs st' = map_set (rn_run_id r1) r1 (st_runs st) \<Longrightarrow> st_limits st' = st_limits st \<Longrightarrow>
    st_capacity st' = computed_capacity st' \<Longrightarrow> capacity_within (st_capacity st') (st_limits st) \<Longrightarrow>
    sum_over (in_task (rn_task_id r1) queued_count) (st_runs st) = 0 \<Longrightarrow> ledger_step ext st st'"
| task: "map_of (st_tasks st) (tk_task_id t0) = Some t0 \<Longrightarrow> task_kept t0 t1 \<Longrightarrow>
    tk_run_count t1 = tk_run_count t0 \<Longrightarrow> st_tasks st' = map_set (tk_task_id t0) t1 (st_tasks st) \<Longrightarrow>
    st_runs st' = st_runs st \<Longrightarrow> st_ceilings st' = st_ceilings st \<Longrightarrow> st_limits st' = st_limits st \<Longrightarrow>
    st_capacity st' = st_capacity st \<Longrightarrow> ledger_step ext st st'"

inductive_cases ledger_stepE: "ledger_step ext st st'"

lemma absent_task_has_no_runs:
  assumes "store_ok ext st" and "map_of (st_tasks st) t = None"
  shows "task_runs t st = []"
proof -
  have "has_key (st_tasks st) (rn_task_id r)" if "(k, r) \<in> set (st_runs st)" for k r
  proof -
    have "map_of (st_runs st) (rn_run_id r) = Some r"
      using assms(1) that by (intro keyed_lookup) (simp_all add: store_ok_def)
    then have "run_row_ok ext st r" using assms(1) by (simp add: store_ok_def)
    then show ?thesis by (simp add: run_row_ok_def)
  qed
  then show ?thesis using assms(2)
    by (fastforce simp: task_runs_def has_key_def filter_empty_conv)
qed

lemma sum_over_zero: "(\<And>v. v \<in> snd ` set m \<Longrightarrow> f v = 0) \<Longrightarrow> sum_over f m = 0"
  by (induction m) auto

lemma no_active_sum:
  "(\<And>r. r \<in> set (task_runs t st) \<Longrightarrow> f r = 0) \<Longrightarrow> sum_over (in_task t f) (st_runs st) = 0"
  by (rule sum_over_zero) (auto simp: in_task_def task_runs_def)

lemma store_ok_frame:
  assumes "store_ok ext st" and "st_limits st' = st_limits st" and "st_capacity st' = st_capacity st"
    and "st_tasks st' = st_tasks st" and "st_runs st' = st_runs st" and "st_ceilings st' = st_ceilings st"
  shows "store_ok ext st'"
proof -
  have "computed_capacity st' = computed_capacity st" "task_row_ok st' = task_row_ok st"
    "run_row_ok ext st' = run_row_ok ext st"
    using assms by (simp_all add: fun_eq_iff run_row_ok_def task_row_ok_def task_run_count_def
        computed_capacity_def)
  then show ?thesis using assms by (simp add: store_ok_def)
qed

lemma ledger_step_ok:
  assumes "ledger_step ext st st'" and ok: "store_ok ext st"
  shows "store_ok ext st'"
  using assms(1)
proof cases
  case stutter
  then show ?thesis using ok by (intro store_ok_frame [OF ok]) (simp_all add: same_ledger_def)
next
  case (update r0 t0 r1 t1)
  have "tk_task_id t0 = rn_task_id r0" using ok update(2) keyed_key by (auto simp: store_ok_def)
  with update show ?thesis
    by (intro store_ok_update [OF ok, of r0 t0 "rn_revision r0 + 1" r1 st' t1])
      (simp_all add: advanced_def task_kept_def)
next
  case (admit r1 t1 c1)
  have "task_run_count (rn_task_id r1) st = 0" if "map_of (st_tasks st) (rn_task_id r1) = None"
    unfolding task_run_count_def
    by (rule no_active_sum) (simp add: absent_task_has_no_runs [OF ok that])
  moreover have "1 \<le> lm_max_runs_per_task (st_limits st)"
    using ok by (simp add: store_ok_def limits_positive_def limit_members_def positive_safe_def)
  ultimately show ?thesis using admit
    by (intro store_ok_admit [OF ok, of r1 t1 st']) (auto split: option.splits)
next
  case (task t0 t1)
  then show ?thesis
    by (intro store_ok_task [OF ok, of "tk_task_id t0" t0 t1]) (simp_all add: task_kept_def)
qed

end
