(* ===== verification/Delegation_Refinement.thy ===== *)
theory Delegation_Refinement
  imports Delegation_Safety
begin

text \<open>
  The refinement: every commit that the planner computes and the volatile store applies is an
  abstract \<open>ledger_step\<close>.
\<close>

section \<open>Commits\<close>

lemma store_commit_plan:
  assumes "store_commit ext c st = (Inr receipt, st')"
  obtains pl where "plan_delegation_store_commit ext c (commit_snapshot ext c st) = Inr pl"
    and "receipt = pl_receipt pl" and "st' = apply_mutations (pl_mutations pl) st"
  using assms parse_command_Inr [of ext c]
  by (auto simp: store_commit_def result_simps split: sum.splits)

lemma store_commit_failure: "store_commit ext c st = (Inl e, st') \<Longrightarrow> st' = st"
  by (auto simp: store_commit_def split: sum.splits)

lemma derive_task_fields [simp]:
  "tk_task_id (cx_task (derive_task ctx)) = tk_task_id (cx_task ctx)"
  "tk_run_count (cx_task (derive_task ctx)) = tk_run_count (cx_task ctx)"
  "tk_revision (cx_task (derive_task ctx)) = tk_revision (cx_task ctx)"
  by (simp_all add: derive_task_def)

lemma snapshot_fields [simp]:
  "cu_task (commit_snapshot ext c st) = map_of (st_tasks st) (cm_task_id c)"
  "cu_runs (commit_snapshot ext c st) = task_runs (cm_task_id c) st"
  "cu_capacity (commit_snapshot ext c st) = st_capacity st"
  "cu_limits (commit_snapshot ext c st) = st_limits st"
  "cu_store_id (commit_snapshot ext c st) = st_store_id st"
  "cu_owner (commit_snapshot ext c st) = st_owner st"
  by (simp_all add: commit_snapshot_def)

lemma start_context_fields [simp]:
  "cx_current (start_context c cur t) = cur" "cx_command (start_context c cur t) = c"
  "cx_task (start_context c cur t) = t" "cx_capacity (start_context c cur t) = cu_capacity cur"
  "cx_mutations (start_context c cur t) = []"
  "cx_run (start_context c cur t) =
     map_option (\<lambda>r. r\<lparr>rn_revision := rn_revision r + 1\<rparr>) (find_run cur (cm_run_id c))"
  by (simp_all add: start_context_def Let_def)

lemma executor_free_sum:
  assumes "\<not> other_run_active ctx r" and "cu_runs (cx_current ctx) = task_runs t st"
    and "active_count r0 = 0" and "keyed rn_run_id (st_runs st)"
    and "map_of (st_runs st) (rn_run_id r) = Some r0"
  shows "sum_over (in_task t active_count) (st_runs st) = 0"
proof (rule no_active_sum)
  fix x assume x: "x \<in> set (task_runs t st)"
  show "active_count x = 0"
  proof (cases "rn_run_id x = rn_run_id r")
    case True
    obtain k where "(k, x) \<in> set (st_runs st)" using x by (auto simp: task_runs_def)
    then have "x = r0" using keyed_lookup [OF assms(4)] True assms(5) by force
    then show ?thesis using assms(3) by simp
  next
    case False
    then have "rn_phase x \<notin> {Preparing, Running, Waiting}"
      using assms(1,2) x by (auto simp: other_run_active_def list_ex_iff)
    then show ?thesis by (cases "rn_phase x") (auto simp: active_count_cases)
  qed
qed

text \<open>The run, the task and the context of a commit that is no admission and no retirement.\<close>

lemma update_commit:
  assumes ok: "store_ok ext st" and body: "\<not> is_admit (cm_body c)" "\<not> is_retire (cm_body c)"
    and fresh: "\<not> stale_revision c (commit_snapshot ext c st)"
    and task: "next_task c (commit_snapshot ext c st) = Some task"
    and tr: "transition ext (cm_body c) (start_context c (commit_snapshot ext c st) task) = Inr ctx"
  obtains r0 t0 r1 where "find_run (commit_snapshot ext c st) (cm_run_id c) = Some r0"
    and "map_of (st_runs st) (rn_run_id r0) = Some r0" and "rn_task_id r0 = cm_task_id c"
    and "map_of (st_tasks st) (cm_task_id c) = Some t0" and "task = t0\<lparr>tk_revision := tk_revision t0 + 1\<rparr>"
    and "context_step (start_context c (commit_snapshot ext c st) task) ctx"
    and "cx_run ctx = Some r1" and "cx_task ctx = task"
    and "run_step (advanced r0) r1"
    and "capacity_step (st_capacity st) (cx_capacity ctx) (advanced r0) r1"
    and "capacity_guarded (st_limits st) (st_capacity st) (cx_capacity ctx)"
    and "list_all bookkeeping_row (cx_mutations ctx)"
proof -
  let ?start = "start_context c (commit_snapshot ext c st) task"
  obtain t0 where t0: "map_of (st_tasks st) (cm_task_id c) = Some t0"
    "task = t0\<lparr>tk_revision := tk_revision t0 + 1\<rparr>"
    using task fresh body by (auto simp: next_task_def stale_revision_def)
  obtain r0 where find: "find_run (commit_snapshot ext c st) (cm_run_id c) = Some r0"
    using fresh body by (auto simp: stale_revision_def)
  have r0: "map_of (st_runs st) (rn_run_id r0) = Some r0" "rn_task_id r0 = cm_task_id c"
    using snapshot_find_run [OF _ find] ok by (auto simp: store_ok_def)
  have start_run: "cx_run ?start = Some (advanced r0)" by (simp add: find advanced_def)
  have step: "context_step ?start ctx" by (rule transition_update [OF tr body start_run])
  then show thesis
    using that [OF find r0 t0 step] start_run by (auto simp: context_step_def)
qed

text \<open>Such a commit fills an executor slot only if it is free.\<close>

lemma update_executor:
  assumes ok: "store_ok ext st" and body: "\<not> is_admit (cm_body c)" "\<not> is_retire (cm_body c)"
    and tr: "transition ext (cm_body c) (start_context c (commit_snapshot ext c st) task) = Inr ctx"
    and find: "find_run (commit_snapshot ext c st) (cm_run_id c) = Some r0"
    and r0: "map_of (st_runs st) (rn_run_id r0) = Some r0" "rn_task_id r0 = cm_task_id c"
    and r1: "cx_run ctx = Some r1" "run_step (advanced r0) r1"
  shows "(rn_phase r1 = Queued \<longrightarrow> rn_pending_request r1 = None) \<and>
    (active_count r1 \<le> active_count r0 \<or>
      (sum_over (in_task (cm_task_id c) active_count) (st_runs st) = 0 \<and>
       cp_active_runs (st_capacity st) < lm_max_active_runs (st_limits st)))"
proof (cases "rn_phase r0 = Queued")
  case False
  then show ?thesis using r1(2)
    by (auto simp: run_step_def phase_order_kept_def active_count_cases advanced_def)
next
  case True
  let ?start = "start_context c (commit_snapshot ext c st) task" and ?r = "advanced r0"
  have start_run: "cx_run ?start = Some ?r" by (simp add: find advanced_def)
  have "idle_queued ?r"
    using True ok r0(1) by (simp add: idle_queued_def store_ok_def run_row_ok_def advanced_def)
  from queued_transition [OF tr body start_run this]
  have leave: "idle_queued r1 \<or> rn_phase r1 = Settled \<or> (executor_free ?start ?r \<and> rn_phase r1 = Preparing)"
    using r1(1) by (simp add: leaves_queue_properly_def)
  have "sum_over (in_task (cm_task_id c) active_count) (st_runs st) = 0" if "\<not> other_run_active ?start ?r"
    by (rule executor_free_sum [OF that]) (use True ok r0 in \<open>simp_all add: active_count_cases store_ok_def advanced_def\<close>)
  then show ?thesis using leave by (auto simp: idle_queued_def active_count_cases executor_free_def)
qed

lemma derived_task_kept:
  "tk_revision t' = tk_revision t + 1 \<Longrightarrow> t' = t\<lparr>tk_revision := tk_revision t + 1\<rparr> \<Longrightarrow> cx_task ctx = t' \<Longrightarrow>
     task_kept t (cx_task (derive_task ctx)) \<and> tk_run_count (cx_task (derive_task ctx)) = tk_run_count t"
  by (simp add: task_kept_def derive_task_def derived_state_def)

lemma update_commit_step:
  assumes ok: "store_ok ext st" and body: "\<not> is_admit (cm_body c)" "\<not> is_retire (cm_body c)"
    and fresh: "\<not> stale_revision c (commit_snapshot ext c st)"
    and task: "next_task c (commit_snapshot ext c st) = Some task"
    and tr: "transition ext (cm_body c) (start_context c (commit_snapshot ext c st) task) = Inr ctx"
    and fin: "finish_plan ext ctx = Inr pl"
  shows "ledger_step ext st (apply_mutations (pl_mutations pl) st)"
proof (rule update_commit [OF ok body fresh task tr])
  fix r0 t0 r1
  assume find: "find_run (commit_snapshot ext c st) (cm_run_id c) = Some r0"
    and r0: "map_of (st_runs st) (rn_run_id r0) = Some r0" "rn_task_id r0 = cm_task_id c"
    and t0: "map_of (st_tasks st) (cm_task_id c) = Some t0" "task = t0\<lparr>tk_revision := tk_revision t0 + 1\<rparr>"
    and r1: "cx_run ctx = Some r1" "run_step (advanced r0) r1"
      "capacity_step (st_capacity st) (cx_capacity ctx) (advanced r0) r1"
    and guard: "capacity_guarded (st_limits st) (st_capacity st) (cx_capacity ctx)"
    and ms: "list_all bookkeeping_row (cx_mutations ctx)" and frame: "cx_task ctx = task"
  have fin': "pl_mutations pl = map (finalize_mutation (cx_receipt ctx)) (cx_mutations ctx)
      @ [Task_Row (cx_task (derive_task ctx))] @ run_rows (Some r1) @ [Capacity_Row (cx_capacity ctx)]"
    "run_record_schema ext r1"
    using finish_plan_Inr [OF fin] r1(1) by auto
  have "list_all bookkeeping_row (map (finalize_mutation (cx_receipt ctx)) (cx_mutations ctx))"
    using ms by (simp add: list_all_iff)
  note rows = apply_plan_rows [OF this, of "cx_task (derive_task ctx)" "Some r1" "cx_capacity ctx" st,
      folded fin'(1)]
  have keys: "tk_task_id t0 = cm_task_id c" "rn_run_id r1 = rn_run_id r0"
    using ok t0(1) keyed_key r1(2) by (auto simp: store_ok_def run_step_def run_identity_kept_def advanced_def)
  note executor = update_executor [OF ok body tr find r0 r1(1,2)]
  have "cp_active_runs (cx_capacity ctx) = cp_active_runs (st_capacity st) + active_count r1 - active_count r0"
    using r1(3) by (simp add: capacity_step_def advanced_def)
  moreover have "cp_active_runs (st_capacity st) \<le> lm_max_active_runs (st_limits st)"
    using ok by (simp add: store_ok_def capacity_inconsistent_def)
  moreover have "active_count r1 \<le> 1" "0 \<le> active_count r0" by simp_all
  ultimately have active: "cp_active_runs (cx_capacity ctx) \<le> lm_max_active_runs (st_limits st)"
    using executor by linarith
  have kept: "task_kept t0 (cx_task (derive_task ctx))"
    "tk_run_count (cx_task (derive_task ctx)) = tk_run_count t0"
    using derived_task_kept [of task t0 ctx] frame t0(2) by auto
  show ?thesis
    by (rule ledger_step.update [OF r0(1) _ r1(2) _ _ _ _ fin'(2) _ kept])
      (use r1 guard active executor rows keys frame t0 r0(2) in auto)
qed

section \<open>Admissions\<close>

lemma add_admit_room:
  assumes "add_operation Op_Admit at 1 None ctx = Inr ctx'"
  shows "cp_ordinary_operations (cx_capacity ctx) < lm_max_ordinary_operations (cu_limits (cx_current ctx))"
  using assms by (auto simp: add_operation_def count_ordinary_def result_simps Let_def)

lemma admitted_context_fields [simp]:
  "cx_current (admitted_context a ctx) = cx_current ctx"
  "cx_command (admitted_context a ctx) = cx_command ctx"
  "cx_mutations (admitted_context a ctx) = cx_mutations ctx"
  "cx_capacity (admitted_context a ctx) = admitted_capacity a (cx_current ctx) (cx_capacity ctx)"
  "cx_task (admitted_context a ctx) = (cx_task ctx)\<lparr>tk_latest_run_id := ad_run_id a,
     tk_run_count := (case cu_task (cx_current ctx) of None \<Rightarrow> 0 | Some t \<Rightarrow> tk_run_count t) + 1\<rparr>"
  "cx_run (admitted_context a ctx) = Some (admitted_run a (cx_command ctx)
     ((case cu_task (cx_current ctx) of None \<Rightarrow> 0 | Some t \<Rightarrow> tk_run_count t) + 1))"
  by (simp_all add: admitted_context_def Let_def)

lemma admitted_run_fields [simp]:
  "rn_phase (admitted_run a c n) = Queued" "rn_pending_request (admitted_run a c n) = None"
  "rn_task_id (admitted_run a c n) = cm_task_id c" "rn_run_id (admitted_run a c n) = ad_run_id a"
  "rn_input (admitted_run a c n) = ad_input a" "rn_observation_bytes (admitted_run a c n) = 0"
  "rn_ordinary_operation_count (admitted_run a c n) = 0" "rn_outcome (admitted_run a c n) = None"
  "rn_applied_target (admitted_run a c n) = None"
  "rn_admitted_target (admitted_run a c n) = ad_target a" "rn_ordinal (admitted_run a c n) = n"
  by (simp_all add: admitted_run_def Let_def)

text \<open>The ledger after an admission, whether or not its ceiling is new.\<close>

lemma admit_commit:
  assumes body: "cm_body c = Admit a"
    and task: "next_task c (commit_snapshot ext c st) = Some task"
    and tr: "transition ext (cm_body c) (start_context c (commit_snapshot ext c st) task) = Inr ctx"
    and fin: "finish_plan ext ctx = Inr pl"
  obtains r1 t1 s where "r1 = (admitted_run a c ((case map_of (st_tasks st) (cm_task_id c) of
        None \<Rightarrow> 0 | Some t \<Rightarrow> tk_run_count t) + 1))\<lparr>rn_ordinary_operation_count := 1\<rparr>"
    and "t1 = task\<lparr>tk_latest_run_id := ad_run_id a, tk_run_count := rn_ordinal r1, tk_state := s\<rparr>"
    and "run_record_schema ext r1"
    and "st_tasks (apply_mutations (pl_mutations pl) st) = map_set (tk_task_id task) t1 (st_tasks st)"
    and "st_runs (apply_mutations (pl_mutations pl) st) = map_set (ad_run_id a) r1 (st_runs st)"
    and "st_limits (apply_mutations (pl_mutations pl) st) = st_limits st"
    and "st_ceilings (apply_mutations (pl_mutations pl) st) =
      (if map_of (st_ceilings st) (pc_ceiling_id (ad_policy_ceiling a)) = None
       then map_set (pc_ceiling_id (ad_policy_ceiling a)) (ad_policy_ceiling a) (st_ceilings st)
       else st_ceilings st)"
    and "st_capacity (apply_mutations (pl_mutations pl) st) =
      (admitted_capacity a (commit_snapshot ext c st) (st_capacity st))
        \<lparr>cp_ordinary_operations := cp_ordinary_operations (st_capacity st) + 1\<rparr>"
    and "cp_ordinary_operations (st_capacity st) < lm_max_ordinary_operations (st_limits st)"
    and "check_continuation a c (commit_snapshot ext c st) = Inr ()"
    and "\<not> admission_run_retained a (commit_snapshot ext c st)"
    and "\<not> admission_over_capacity a (commit_snapshot ext c st) (st_capacity st)"
    and "ad_target a \<in> set (pc_targets (ad_policy_ceiling a))"
    and "case map_of (st_ceilings st) (pc_ceiling_id (ad_policy_ceiling a)) of
      None \<Rightarrow> True | Some c \<Rightarrow> c = ad_policy_ceiling a"
proof -
  let ?cur = "commit_snapshot ext c st"
  let ?start = "start_context c ?cur task"
  let ?n = "(case map_of (st_tasks st) (cm_task_id c) of None \<Rightarrow> 0 | Some t \<Rightarrow> tk_run_count t) + 1"
  have admit: "admit_run a ?start = Inr ctx" using tr body by simp
  then obtain ctx1 where add: "add_operation Op_Admit (ad_created_at a) 1 None (admitted_context a ?start) = Inr ctx1"
    and ctx: "ctx = (if cu_ceiling ?cur = None
          then push_mutation (Ceiling_Row (ad_policy_ceiling a)) ctx1 else ctx1)"
    and checks: "check_continuation a c ?cur = Inr ()" "\<not> admission_run_retained a ?cur"
      "\<not> admission_over_capacity a ?cur (st_capacity st)"
      "list_ex (\<lambda>t. same_target t (ad_target a)) (pc_targets (ad_policy_ceiling a))"
      "case cu_ceiling ?cur of None \<Rightarrow> True | Some c \<Rightarrow> c = ad_policy_ceiling a"
    by (rule admit_run_Inr) simp
  have run: "cx_run (admitted_context a ?start) = Some (admitted_run a c ?n)" by simp
  define r1 where "r1 = (admitted_run a c ?n)\<lparr>rn_ordinary_operation_count := 1\<rparr>"
  define ms where "ms = (if cu_ceiling ?cur = None then [Ceiling_Row (ad_policy_ceiling a)] else [])"
  obtain m where ctx1: "ctx1 = push_mutation (Operation_Row m) ((admitted_context a ?start)
      \<lparr>cx_run := Some r1, cx_capacity := (admitted_capacity a ?cur (st_capacity st))
        \<lparr>cp_ordinary_operations := cp_ordinary_operations (st_capacity st) + 1\<rparr>\<rparr>)"
    using add_admit_operation [OF add run] by (auto simp: r1_def admitted_capacity_def)
  have fields: "cx_run ctx = Some r1" "cx_mutations ctx = Operation_Row m # ms"
    "cx_task ctx = task\<lparr>tk_latest_run_id := ad_run_id a, tk_run_count := ?n\<rparr>"
    "cx_capacity ctx = (admitted_capacity a ?cur (st_capacity st))
        \<lparr>cp_ordinary_operations := cp_ordinary_operations (st_capacity st) + 1\<rparr>"
    by (simp_all add: ctx ctx1 ms_def push_mutation_def)
  obtain x where rows: "pl_mutations pl = Operation_Row x # ms @ [Task_Row (cx_task (derive_task ctx)),
      Run_Row r1, Capacity_Row (cx_capacity ctx)]" and schema: "run_record_schema ext r1"
    using finish_plan_Inr [OF fin] fields(1,2)
    by (auto simp: run_rows_def ms_def finalize_mutation_def split: if_splits)
  have ceiling: "cu_ceiling ?cur = map_of (st_ceilings st) (pc_ceiling_id (ad_policy_ceiling a))"
    by (simp add: commit_snapshot_def body)
  show thesis
    by (rule that [of r1 "cx_task (derive_task ctx)" "derived_state ctx"])
      (use schema checks add_admit_room [OF add] in
        \<open>auto simp: rows ms_def ceiling fields r1_def admitted_capacity_def derive_task_def list_ex_iff\<close>)
qed

text \<open>The task of an admission: a new one with its first run, or a continued one.\<close>

lemma admitted_task:
  assumes ok: "store_ok ext st" and body: "cm_body c = Admit a"
    and task: "next_task c (commit_snapshot ext c st) = Some task"
    and check: "check_continuation a c (commit_snapshot ext c st) = Inr ()"
    and t1: "t1 = task\<lparr>tk_latest_run_id := k, tk_state := s, tk_run_count := (case map_of (st_tasks st) (cm_task_id c) of
        None \<Rightarrow> 0 | Some t \<Rightarrow> tk_run_count t) + 1\<rparr>"
  shows "tk_task_id t1 = cm_task_id c" and "tk_policy_ceiling_ref t1 = pc_ceiling_id (ad_policy_ceiling a)"
    and "case map_of (st_tasks st) (cm_task_id c) of None \<Rightarrow> tk_run_count t1 = 1
     | Some t0 \<Rightarrow> tk_run_count t1 = tk_run_count t0 + 1 \<and> task_kept t0 t1 \<and>
         tk_run_count t0 < lm_max_runs_per_task (st_limits st)"
    and "sum_over (in_task (cm_task_id c) queued_count) (st_runs st) = 0"
proof -
  let ?T = "map_of (st_tasks st) (cm_task_id c)"
  have old: "tk_task_id t0 = cm_task_id c" if "?T = Some t0" for t0
    using ok that keyed_key by (auto simp: store_ok_def)
  note cont = check_continuation_Inr [OF check, simplified]
  show "tk_task_id t1 = cm_task_id c" "tk_policy_ceiling_ref t1 = pc_ceiling_id (ad_policy_ceiling a)"
    using task body old cont by (auto simp: t1 next_task_def new_task_def split: option.splits)
  show "case ?T of None \<Rightarrow> tk_run_count t1 = 1 | Some t0 \<Rightarrow> tk_run_count t1 = tk_run_count t0 + 1 \<and>
      task_kept t0 t1 \<and> tk_run_count t0 < lm_max_runs_per_task (st_limits st)"
    using task cont by (auto simp: t1 next_task_def task_kept_def split: option.splits)
  show "sum_over (in_task (cm_task_id c) queued_count) (st_runs st) = 0"
  proof (rule no_active_sum)
    fix r assume r: "r \<in> set (task_runs (cm_task_id c) st)"
    then obtain t where "?T = Some t" using absent_task_has_no_runs [OF ok] by fastforce
    then have "\<not> list_ex (\<lambda>r. rn_phase r = Queued) (task_runs (cm_task_id c) st)" using cont by simp
    then show "queued_count r = 0" using r by (auto simp: list_ex_iff queued_count_cases)
  qed
qed

text \<open>The counters of an admission are those of the new ledger, within the limits.\<close>

lemma admitted_capacity_exact:
  assumes ok: "store_ok ext st" and body: "cm_body c = Admit a" and "rn_task_id r1 = cm_task_id c"
    and r1: "rn_run_id r1 = ad_run_id a" "rn_phase r1 = Queued" "rn_observation_bytes r1 = 0"
      "rn_ordinary_operation_count r1 = 1" "rn_input r1 = ad_input a"
    and fresh: "map_of (st_runs st) (ad_run_id a) = None"
    and st': "st_tasks st' = map_set (cm_task_id c) t1 (st_tasks st)"
      "st_runs st' = map_set (ad_run_id a) r1 (st_runs st)"
      "st_ceilings st' = (if map_of (st_ceilings st) (pc_ceiling_id (ad_policy_ceiling a)) = None
       then map_set (pc_ceiling_id (ad_policy_ceiling a)) (ad_policy_ceiling a) (st_ceilings st)
       else st_ceilings st)"
    and cap: "st_capacity st' = (admitted_capacity a (commit_snapshot ext c st) (st_capacity st))
        \<lparr>cp_ordinary_operations := cp_ordinary_operations (st_capacity st) + 1\<rparr>"
    and room: "cp_ordinary_operations (st_capacity st) < lm_max_ordinary_operations (st_limits st)"
    and over: "\<not> admission_over_capacity a (commit_snapshot ext c st) (st_capacity st)"
  shows "st_capacity st' = computed_capacity st'" and "capacity_within (st_capacity st') (st_limits st)"
proof -
  let ?cur = "commit_snapshot ext c st"
  define extra where "extra = (case cu_ceiling ?cur of None \<Rightarrow> ceiling_bytes (ad_policy_ceiling a) | Some _ \<Rightarrow> 0)"
  have extra: "sum_over ceiling_bytes (st_ceilings st') = sum_over ceiling_bytes (st_ceilings st) + extra"
    by (auto simp: st'(3) extra_def commit_snapshot_def body rows.total_put_new)
  note computed_admit [of st r1 st' t1 extra, unfolded assms(3) r1(1), OF fresh st'(2,1) extra r1(2-4)]
  moreover have "computed_capacity st = st_capacity st" using ok by (simp add: store_ok_def)
  ultimately show "st_capacity st' = computed_capacity st'"
    by (simp add: cap admitted_capacity_def admission_bytes_def extra_def r1(5) algebra_simps)
  have "capacity_within (st_capacity st) (st_limits st)"
    using ok by (simp add: store_ok_def flip: capacity_consistent_iff)
  then show "capacity_within (st_capacity st') (st_limits st)"
    using over room
    by (auto simp: capacity_within_def cap admitted_capacity_def capacity_values_def
        admission_over_capacity_def admission_bytes_def algebra_simps
        delegation_run_reservation_bytes_def delegation_critical_slots_def split: option.splits)
qed

lemma admit_commit_step:
  assumes ok: "store_ok ext st" and body: "cm_body c = Admit a"
    and task: "next_task c (commit_snapshot ext c st) = Some task"
    and tr: "transition ext (cm_body c) (start_context c (commit_snapshot ext c st) task) = Inr ctx"
    and fin: "finish_plan ext ctx = Inr pl"
  shows "ledger_step ext st (apply_mutations (pl_mutations pl) st)"
proof (rule admit_commit [OF body task tr fin])
  let ?cur = "commit_snapshot ext c st" and ?st' = "apply_mutations (pl_mutations pl) st"
    and ?id = "pc_ceiling_id (ad_policy_ceiling a)"
  fix r1 t1 s
  assume r1: "r1 = (admitted_run a c ((case map_of (st_tasks st) (cm_task_id c) of
        None \<Rightarrow> 0 | Some t \<Rightarrow> tk_run_count t) + 1))\<lparr>rn_ordinary_operation_count := 1\<rparr>"
    and t1: "t1 = task\<lparr>tk_latest_run_id := ad_run_id a, tk_run_count := rn_ordinal r1, tk_state := s\<rparr>"
    and schema: "run_record_schema ext r1"
    and st': "st_tasks ?st' = map_set (tk_task_id task) t1 (st_tasks st)"
      "st_runs ?st' = map_set (ad_run_id a) r1 (st_runs st)" "st_limits ?st' = st_limits st"
    and ceilings: "st_ceilings ?st' = (if map_of (st_ceilings st) ?id = None
       then map_set ?id (ad_policy_ceiling a) (st_ceilings st) else st_ceilings st)"
    and cap: "st_capacity ?st' = (admitted_capacity a ?cur (st_capacity st))
        \<lparr>cp_ordinary_operations := cp_ordinary_operations (st_capacity st) + 1\<rparr>"
    and room: "cp_ordinary_operations (st_capacity st) < lm_max_ordinary_operations (st_limits st)"
    and checks: "check_continuation a c ?cur = Inr ()" "\<not> admission_run_retained a ?cur"
      "\<not> admission_over_capacity a ?cur (st_capacity st)"
    and target: "ad_target a \<in> set (pc_targets (ad_policy_ceiling a))"
    and same: "case map_of (st_ceilings st) ?id of None \<Rightarrow> True | Some c \<Rightarrow> c = ad_policy_ceiling a"
  have fields: "rn_task_id r1 = cm_task_id c" "rn_run_id r1 = ad_run_id a" "rn_phase r1 = Queued"
    "rn_pending_request r1 = None" "rn_applied_target r1 = None" "rn_admitted_target r1 = ad_target a"
    by (simp_all add: r1)
  have fresh: "map_of (st_runs st) (ad_run_id a) = None"
    using checks(2) body by (simp add: admission_run_retained_def commit_snapshot_def has_key_def)
  have "t1 = task\<lparr>tk_latest_run_id := ad_run_id a, tk_state := s,
      tk_run_count := (case map_of (st_tasks st) (cm_task_id c) of None \<Rightarrow> 0 | Some t \<Rightarrow> tk_run_count t) + 1\<rparr>"
    by (simp add: t1 r1)
  note t1' = admitted_task [OF ok body task checks(1) this]
  have tasks: "st_tasks ?st' = map_set (cm_task_id c) t1 (st_tasks st)"
    using st'(1) t1'(1) by (simp add: t1)
  have exact: "st_capacity ?st' = computed_capacity ?st'" "capacity_within (st_capacity ?st') (st_limits st)"
    by (rule admitted_capacity_exact [OF ok body _ _ _ _ _ _ fresh tasks st'(2) ceilings cap room checks(3)];
      simp add: r1)+
  have retained: "map_of (st_ceilings ?st') ?id = Some (ad_policy_ceiling a)"
    "\<forall>k c. map_of (st_ceilings st) k = Some c \<longrightarrow> map_of (st_ceilings ?st') k = Some c"
    using same by (auto simp: ceilings split: option.splits)
  show ?thesis
    by (rule ledger_step.admit [of _ r1 _ t1]) (use t1' tasks st' exact retained target fresh schema fields in simp_all)
qed

section \<open>Retirement\<close>

lemma retire_fields:
  assumes "transition ext (cm_body c) ctx = Inr ctx'" and "cm_body c = Retire_Recovery reason at"
  shows "cx_run ctx' = cx_run ctx" and "cx_mutations ctx' = cx_mutations ctx"
    and "cx_capacity ctx' = cx_capacity ctx"
    and "\<exists>w f. cx_task ctx' = (cx_task ctx)\<lparr>tk_state := Task_Retired, tk_retired_at := w, tk_retirement := f\<rparr>"
  using assms by (auto simp: retire_recovery_def set_receipt_def result_simps intro!: exI)

lemma retire_commit_step:
  assumes ok: "store_ok ext st" and body: "cm_body c = Retire_Recovery reason at"
    and task: "next_task c (commit_snapshot ext c st) = Some task"
    and tr: "transition ext (cm_body c) (start_context c (commit_snapshot ext c st) task) = Inr ctx"
    and fin: "finish_plan ext ctx = Inr pl"
  shows "ledger_step ext st (apply_mutations (pl_mutations pl) st)"
proof -
  let ?cur = "commit_snapshot ext c st" and ?st' = "apply_mutations (pl_mutations pl) st"
    and ?t1 = "cx_task (derive_task ctx)"
  obtain t0 where t0: "map_of (st_tasks st) (cm_task_id c) = Some t0"
    "task = t0\<lparr>tk_revision := tk_revision t0 + 1\<rparr>"
    using task body by (auto simp: next_task_def split: option.splits)
  note ctx = retire_fields [OF tr body, simplified]
  have rows: "pl_mutations pl = [] @ [Task_Row ?t1] @ run_rows (cx_run ctx) @ [Capacity_Row (st_capacity st)]"
    using finish_plan_Inr [OF fin] ctx(1-3) by simp
  note after = apply_plan_rows [of "[]" ?t1 "cx_run ctx" "st_capacity st" st, folded rows, simplified]
  have key: "tk_task_id t0 = cm_task_id c" using ok t0(1) keyed_key by (auto simp: store_ok_def)
  have kept: "task_kept t0 ?t1" "tk_run_count ?t1 = tk_run_count t0" "tk_task_id ?t1 = cm_task_id c"
    using ctx(4) key by (auto simp: t0(2) derive_task_def derived_state_def task_kept_def)
  show ?thesis
  proof (cases "find_run ?cur (cm_run_id c)")
    case None
    then show ?thesis
      by (intro ledger_step.task [of _ t0 ?t1]) (use after ctx(1) kept key t0(1) in simp_all)
  next
    case (Some r0)
    have r0: "map_of (st_runs st) (rn_run_id r0) = Some r0" "rn_task_id r0 = cm_task_id c"
      using snapshot_find_run [OF _ Some] ok by (auto simp: store_ok_def)
    have run: "cx_run ctx = Some (advanced r0)" using ctx(1) Some by (simp add: advanced_def)
    have "run_record_schema ext (advanced r0)" using finish_plan_Inr [OF fin] run by simp
    moreover have "rn_phase (advanced r0) = Queued \<longrightarrow> rn_pending_request (advanced r0) = None"
      using ok r0(1) by (simp add: store_ok_def run_row_ok_def advanced_def)
    moreover have "cp_active_runs (st_capacity st) \<le> lm_max_active_runs (st_limits st)"
      using ok by (simp add: store_ok_def capacity_inconsistent_def)
    moreover have "active_count (advanced r0) \<le> active_count r0" "rn_run_id (advanced r0) = rn_run_id r0"
      by (simp_all add: advanced_def)
    ultimately show ?thesis
      by (intro ledger_step.update [OF r0(1) _ run_step_refl, where ?t0.0 = t0 and ?t1.0 = ?t1])
        (use after kept t0(1) r0 run in \<open>simp_all\<close>)
  qed
qed

section \<open>Every commit refines an abstract step\<close>

lemma plan_step:
  assumes ok: "store_ok ext st"
    and plan: "plan_delegation_store_commit ext c (commit_snapshot ext c st) = Inr pl"
  shows "ledger_step ext st (apply_mutations (pl_mutations pl) st)"
  using plan
proof (cases rule: plan_cases)
  case retry
  then show ?thesis by (simp add: ledger_step.stutter same_ledger_refl)
next
  case (change task ctx)
  note step = change(6-9)
  show ?thesis
  proof (cases "is_admit (cm_body c) \<or> is_retire (cm_body c)")
    case False
    then show ?thesis using update_commit_step [OF ok _ _ step] by simp
  next
    case True
    then show ?thesis
      using admit_commit_step [OF ok _ step(2-4)] retire_commit_step [OF ok _ step(2-4)]
      by (auto simp: is_admit_def is_retire_def split: command_body.splits)
  qed
qed

lemma commit_step:
  assumes ok: "store_ok ext st"
  shows "ledger_step ext st (snd (store_commit ext c st))"
proof (cases "store_commit ext c st")
  case (Pair res st')
  show ?thesis
  proof (cases res)
    case (Inl e)
    then show ?thesis
      using Pair store_commit_failure [of ext c st e st'] by (simp add: ledger_step.stutter same_ledger_refl)
  next
    case (Inr receipt)
    then show ?thesis using Pair by (auto elim: store_commit_plan intro: plan_step [OF ok])
  qed
qed

lemma commit_preserves: "store_ok ext st \<Longrightarrow> store_ok ext (snd (store_commit ext c st))"
  using commit_step ledger_step_ok by blast

end
