(* ===== verification/Delegation_Samples.thy ===== *)
theory Delegation_Samples
  imports Delegation_Store
begin

text \<open>
  Concrete values at which the properties are evaluated: externals that accept every format and
  digest every text to the same 64 hexadecimal characters, one parent, one target, and the
  commands of a short history.
\<close>

definition sample_externals :: externals where
  "sample_externals = \<lparr>sha256_hex = (\<lambda>s. replicate 64 (CHR ''a'')), zod_uuid = (\<lambda>s. s \<noteq> []),
     zod_iso_datetime = (\<lambda>s. date_parse s \<noteq> None), zod_iso_datetime_offset = (\<lambda>s. date_parse s \<noteq> None),
     zod_url = (\<lambda>s. True), zod_base64 = (\<lambda>s. True)\<rparr>"

definition sample_digest :: string where
  "sample_digest = replicate 64 (CHR ''a'')"

definition sample_parent :: parent_scope where
  "sample_parent = \<lparr>ps_parent_id = ''parent'', ps_scope_id = ''scope'', ps_revision = 1\<rparr>"

definition sample_target :: target_reference where
  "sample_target = \<lparr>tr_catalog_id = ''catalog'', tr_catalog_revision = 1, tr_target_id = ''target'',
     tr_target_revision = 1, tr_source_id = ''source'', tr_source_revision = 1\<rparr>"

definition sample_ceiling :: policy_ceiling where
  "sample_ceiling = \<lparr>pc_ceiling_id = sample_digest, pc_origin = sample_parent, pc_targets = [sample_target]\<rparr>"

definition sample_owner :: owner_token where
  "sample_owner = \<lparr>ot_store_id = ''store'', ot_epoch = 1, ot_nonce = ''nonce''\<rparr>"

definition sample_admission :: run_admission where
  "sample_admission = \<lparr>ad_parent = sample_parent, ad_ancestor_task_id = None, ad_depth = 1,
     ad_policy_ceiling = sample_ceiling, ad_completion_policy = Automatic, ad_run_id = ''run-1'',
     ad_previous_run_id = None, ad_continuation_mode = None, ad_target = sample_target,
     ad_policy_revision = 1, ad_origin_policy_revision = 1,
     ad_input = \<lparr>ti_parts = [Text_Part ''hello''], ti_summary = None\<rparr>,
     ad_created_at = ''2026-01-01T00:00:00Z'', ad_deadline_at = ''2026-01-01T00:20:00Z'',
     ad_queued_start_deadline_at = ''2026-01-01T00:02:00Z''\<rparr>"

definition sample_command :: "string \<Rightarrow> int \<Rightarrow> string option \<Rightarrow> int option \<Rightarrow> command_body \<Rightarrow> store_command" where
  "sample_command operation_id task_revision run run_revision body = \<lparr>cm_owner = sample_owner,
     cm_operation_id = operation_id, cm_input_digest = sample_digest, cm_task_id = ''task-1'',
     cm_expected_task_revision = task_revision, cm_run_id = run, cm_expected_run_revision = run_revision,
     cm_body = body\<rparr>"

definition sample_at :: string where
  "sample_at = ''2026-01-01T00:01:00Z''"

definition sample_admit :: store_command where
  "sample_admit = sample_command ''op-1'' 0 None None (Admit sample_admission)"

definition sample_prepare :: store_command where
  "sample_prepare = sample_command ''op-2'' 1 (Some ''run-1'') (Some 1)
     (Dispatch_Intent Op_Prepare sample_at None None)"

definition sample_settle :: store_command where
  "sample_settle = sample_command ''op-3'' 1 (Some ''run-1'') (Some 1)
     (Settle (Canceled Not_Dispatched) sample_at)"

definition sample_empty_store :: store_state where
  "sample_empty_store = \<lparr>st_store_id = ''store'', st_limits = default_delegation_limits, st_owner = None,
     st_epoch = 0, st_capacity = empty_capacity, st_tasks = [], st_runs = [], st_operations = [],
     st_observations = [], st_notifications = [], st_ceilings = []\<rparr>"

definition sample_owned_store :: store_state where
  "sample_owned_store = sample_empty_store\<lparr>st_owner := Some sample_owner, st_epoch := 1\<rparr>"

text \<open>The store after the admission of \<open>sample_admit\<close>: one task with one queued run.\<close>

definition sample_task :: task_record where
  "sample_task = \<lparr>tk_store_id = ''store'', tk_task_id = ''task-1'', tk_parent = sample_parent,
     tk_ancestor_task_id = None, tk_depth = 1, tk_policy_ceiling_ref = sample_digest,
     tk_completion_policy = Automatic, tk_state = Task_Active, tk_revision = 1,
     tk_latest_run_id = ''run-1'', tk_run_count = 1, tk_created_at = ''2026-01-01T00:00:00Z'',
     tk_retired_at = None, tk_retirement = None\<rparr>"

definition sample_run :: run_record where
  "sample_run = (admitted_run sample_admission sample_admit 1)\<lparr>rn_ordinary_operation_count := 1\<rparr>"

definition sample_admit_receipt :: commit_receipt where
  "sample_admit_receipt = \<lparr>rc_duplicate = False, rc_status = Status_Phase Queued,
     rc_task_id = ''task-1'', rc_task_revision = 1, rc_run_id = Some ''run-1'',
     rc_run_revision = Some 1, rc_operation_id = Some ''op-1'', rc_notification_id = None\<rparr>"

definition sample_admit_operation :: operation_record where
  "sample_admit_operation = \<lparr>op_operation_id = ''op-1'', op_parent = sample_parent,
     op_task_id = ''task-1'', op_run_id = ''run-1'', op_kind = Op_Admit,
     op_input_digest = sample_digest, op_owner_epoch = 1, op_disposition = Completed,
     op_attempts = 1, op_at = ''2026-01-01T00:00:00Z'', op_message = None, op_request = None,
     op_request_state = None, op_receipt = sample_admit_receipt\<rparr>"

definition sample_store :: store_state where
  "sample_store = sample_owned_store\<lparr>
     st_capacity := \<lparr>cp_tasks = 1, cp_runs = 1, cp_active_runs = 0, cp_queued_runs = 1,
       cp_retained_input_bytes = input_bytes (ad_input sample_admission) + ceiling_bytes sample_ceiling,
       cp_observation_bytes = 0, cp_ordinary_operations = 1, cp_reserved_bytes = 40960,
       cp_critical_slots = 4\<rparr>,
     st_tasks := [(''task-1'', sample_task)], st_runs := [(''run-1'', sample_run)],
     st_operations := [(operation_key sample_parent ''op-1'', sample_admit_operation)],
     st_ceilings := [(sample_digest, sample_ceiling)]\<rparr>"

lemma sample_empty_created:
  "create_in_memory_delegation_store sample_externals None (Some ''store'') ''fresh'' = Inr sample_empty_store"
  by code_simp


lemma sample_acquired:
  "acquire_owner sample_externals ''nonce'' sample_empty_store = (Inr sample_owner, sample_owned_store)"
  by code_simp

lemma sample_admitted:
  "store_commit sample_externals sample_admit sample_owned_store = (Inr sample_admit_receipt, sample_store)"
  by code_simp

text \<open>The store after the settlement of \<open>sample_settle\<close>, and a claim of its notification.\<close>

definition sample_notification_id :: string where
  "sample_notification_id = ''aaaaaaaa-aaaa-4aaa-aaaa-aaaaaaaaaaaa''"

definition sample_settled_run :: run_record where
  "sample_settled_run = sample_run\<lparr>rn_phase := Settled, rn_revision := 2,
     rn_outcome := Some (Canceled Not_Dispatched), rn_settled_at := Some sample_at,
     rn_finalization := Some \<lparr>fz_operation_id = ''op-3'', fz_input_digest = sample_digest,
       fz_task_revision = 2, fz_run_revision = 2\<rparr>\<rparr>"

definition sample_notification :: notification_record where
  "sample_notification = \<lparr>nt_envelope = \<lparr>ev_store_id = ''store'', ev_notification_id = sample_notification_id,
       ev_task_id = ''task-1'', ev_run_id = ''run-1'', ev_parent = sample_parent, ev_policy = Automatic,
       ev_settled_at = sample_at, ev_expires_at = ''2026-01-02T00:01:00.000Z'',
       ev_outcome = Canceled Not_Dispatched\<rparr>,
     nt_revision = 1, nt_state = Nt_Pending, nt_claim = None, nt_attempts = 0, nt_retry_at = None,
     nt_inbox_id = None, nt_accepted_at = None, nt_reason = None, nt_delivery = None\<rparr>"

definition sample_settled_store :: store_state where
  "sample_settled_store = sample_store\<lparr>
     st_capacity := (st_capacity sample_store)\<lparr>cp_queued_runs := 0\<rparr>,
     st_tasks := [(''task-1'', sample_task\<lparr>tk_state := Task_Settled, tk_revision := 2\<rparr>)],
     st_runs := [(''run-1'', sample_settled_run)],
     st_notifications := [(sample_notification_id, sample_notification)]\<rparr>"

definition sample_settle_receipt :: commit_receipt where
  "sample_settle_receipt = \<lparr>rc_duplicate = False, rc_status = Status_Phase Settled,
     rc_task_id = ''task-1'', rc_task_revision = 2, rc_run_id = Some ''run-1'',
     rc_run_revision = Some 2, rc_operation_id = Some ''op-3'',
     rc_notification_id = Some sample_notification_id\<rparr>"

definition sample_claim :: store_command where
  "sample_claim = sample_command sample_notification_id 2 (Some ''run-1'') (Some 2)
     (Delivery_Claim sample_notification_id 1 sample_notification_id sample_at)"

lemma sample_settled:
  "store_commit sample_externals sample_settle sample_store = (Inr sample_settle_receipt, sample_settled_store)"
  by code_simp

lemma sample_claimed: "\<exists>receipt. fst (store_commit sample_externals sample_claim sample_settled_store) = Inr receipt"
proof -
  have "case fst (store_commit sample_externals sample_claim sample_settled_store) of Inl _ \<Rightarrow> False | Inr _ \<Rightarrow> True"
    by code_simp
  then show ?thesis by (auto split: sum.splits)
qed

section \<open>A policy ceiling\<close>

lemma sample_ceiling_created:
  "create_delegation_policy_ceiling sample_externals sample_parent [sample_target] = Inr sample_ceiling"
  by code_simp

lemma create_ceiling_canonical_witness:
  "pc_origin sample_ceiling = sample_parent \<and> set (pc_targets sample_ceiling) = {sample_target} \<and>
   parse_delegation_policy_ceiling sample_externals sample_ceiling = Inr sample_ceiling"
  using create_ceiling_canonical [OF sample_ceiling_created] by simp

end
