(* ===== verification/Delegation_Reachability.thy ===== *)
theory Delegation_Reachability
  imports Delegation_Refinement Delegation_Samples
begin

text \<open>
  The states a volatile store passes through, as an inductive predicate over its operations, and
  what holds in all of them.
\<close>

inductive store_op :: "externals \<Rightarrow> store_state \<Rightarrow> store_state \<Rightarrow> bool" for ext where
  acquired: "store_op ext st (snd (acquire_owner ext nonce st))"
| released: "store_op ext st (snd (release_owner token st))"
| committed: "store_op ext st (snd (store_commit ext c st))"

inductive_cases store_opE: "store_op ext st st'"

inductive store_reachable :: "externals \<Rightarrow> store_state \<Rightarrow> bool" for ext where
  created: "create_in_memory_delegation_store ext limits store_id fresh = Inr st \<Longrightarrow> store_reachable ext st"
| later: "store_reachable ext st \<Longrightarrow> store_op ext st st' \<Longrightarrow> store_reachable ext st'"

inductive_cases store_reachableE: "store_reachable ext st"

section \<open>Preservation by the ownership operations\<close>

lemma acquire_owner_frame:
  "st_limits (snd (acquire_owner ext nonce st)) = st_limits st \<and>
   st_capacity (snd (acquire_owner ext nonce st)) = st_capacity st \<and>
   st_tasks (snd (acquire_owner ext nonce st)) = st_tasks st \<and>
   st_runs (snd (acquire_owner ext nonce st)) = st_runs st \<and>
   st_ceilings (snd (acquire_owner ext nonce st)) = st_ceilings st"
  by (simp add: acquire_owner_def Let_def split: sum.splits)

lemma release_owner_frame:
  "st_limits (snd (release_owner token st)) = st_limits st \<and>
   st_capacity (snd (release_owner token st)) = st_capacity st \<and>
   st_tasks (snd (release_owner token st)) = st_tasks st \<and>
   st_runs (snd (release_owner token st)) = st_runs st \<and>
   st_ceilings (snd (release_owner token st)) = st_ceilings st"
  by (simp add: release_owner_def split: option.splits)

lemma created_ok:
  assumes "create_in_memory_delegation_store ext limits store_id fresh = Inr st"
  shows "store_ok ext st"
proof -
  have l: "\<exists>j. parse_delegation_limits j = Inr (st_limits st)"
    and st: "st_tasks st = []" "st_runs st = []" "st_ceilings st = []" "st_capacity st = empty_capacity"
    using assms by (auto simp: create_in_memory_delegation_store_def result_simps)
  have pos: "limits_positive (st_limits st)" and con: "limits_consistent (st_limits st)"
    using l parse_limits_facts by blast+
  have "capacity_within (computed_capacity st) (st_limits st)"
    using pos by (simp add: capacity_within_def capacity_values_def computed_capacity_def st
        limits_positive_def limit_members_def positive_safe_def)
  then have "\<not> capacity_inconsistent (computed_capacity st) (st_limits st)"
    by (simp add: capacity_consistent_iff [OF pos con])
  then show ?thesis
    by (simp add: store_ok_def pos con keyed_def st computed_capacity_def empty_capacity_def)
qed

text \<open>Each operation is an abstract step of the ledger.\<close>

lemma op_ledger_step:
  assumes "store_ok ext st" and "store_op ext st st'"
  shows "ledger_step ext st st' \<or> (st_tasks st' = st_tasks st \<and> st_runs st' = st_runs st \<and>
    st_ceilings st' = st_ceilings st \<and> st_limits st' = st_limits st \<and> st_capacity st' = st_capacity st)"
  using assms(2)
proof cases
  case (committed c)
  then show ?thesis using commit_step [OF assms(1)] by simp
qed (use acquire_owner_frame release_owner_frame in metis)+

lemma op_ok: "store_ok ext st \<Longrightarrow> store_op ext st st' \<Longrightarrow> store_ok ext st'"
  using op_ledger_step ledger_step_ok store_ok_frame by metis

lemma reachable_ok: "store_reachable ext st \<Longrightarrow> store_ok ext st"
  by (induction rule: store_reachable.induct) (blast intro: created_ok op_ok)+

lemma reachable_later:
  "(store_op ext)\<^sup>*\<^sup>* st st' \<Longrightarrow> store_reachable ext st \<Longrightarrow> store_reachable ext st'"
  by (induction rule: rtranclp_induct) (blast intro: later)+

section \<open>Counts of runs\<close>

lemma sum_over_in_task_indicator:
  "sum_over (in_task t (\<lambda>r. indicator01 (P r))) m =
     int (length (filter P (filter (\<lambda>r. rn_task_id r = t) (map snd m))))"
  by (induction m) (auto simp: in_task_def)

lemma queued_runs_of_task:
  "int (length (filter (\<lambda>r. rn_phase r = Queued) (task_runs t st))) =
     sum_over (in_task t queued_count) (st_runs st)"
  unfolding queued_count_def [abs_def] sum_over_in_task_indicator task_runs_def ..

lemma active_runs_of_task:
  "int (length (filter (\<lambda>r. rn_phase r \<noteq> Queued \<and> rn_phase r \<noteq> Settled) (task_runs t st))) =
     sum_over (in_task t active_count) (st_runs st)"
  unfolding active_count_def [abs_def] sum_over_in_task_indicator task_runs_def ..

lemma task_run_count_length: "task_run_count t st = int (length (task_runs t st))"
proof -
  have "task_run_count t st = sum_over (in_task t (\<lambda>r. indicator01 True)) (st_runs st)"
    by (simp add: task_run_count_def)
  then show ?thesis unfolding sum_over_in_task_indicator by (simp add: task_runs_def)
qed

lemma sum_over_indicator:
  "sum_over (\<lambda>r. indicator01 (P r)) m = int (length (filter P (map snd m)))"
  by (induction m) auto

section \<open>The sample history is reachable\<close>

lemma sample_owned_reachable: "store_reachable sample_externals sample_owned_store"
  using later [OF created [OF sample_empty_created] acquired, of "''nonce''"] by (simp add: sample_acquired)

lemma sample_store_reachable: "store_reachable sample_externals sample_store"
proof -
  show ?thesis
    using later [OF sample_owned_reachable committed, of sample_admit] by (simp add: sample_admitted)
qed

section \<open>Properties\<close>

text \<open>
  C2. In every reachable state of the volatile store the nine capacity counters, which the commits
  maintain incrementally, equal their recomputation from the retained rows, and lie within the
  configured limits: no sequence of acquisitions, releases and commits, failed or not, makes the
  ledger drift or exceed a limit.
\<close>

theorem store_counters_exact:
  assumes "store_reachable ext st"
  shows "st_capacity st = computed_capacity st \<and> \<not> capacity_inconsistent (st_capacity st) (st_limits st)"
  using reachable_ok [OF assms] by (simp add: store_ok_def)

lemma store_counters_exact_witness:
  "cp_queued_runs (st_capacity sample_store) = 1 \<and>
   st_capacity sample_store = computed_capacity sample_store"
  using store_counters_exact [OF sample_store_reachable] by (simp add: sample_store_def)

text \<open>
  C6. In every reachable state a task has at most one queued run and at most one run on an
  executor (preparing, running or waiting), and its run count is the number of its retained runs.
\<close>

theorem task_runs_exclusive:
  assumes "store_reachable ext st"
  shows "length (filter (\<lambda>r. rn_phase r = Queued) (task_runs t st)) \<le> 1 \<and>
    length (filter (\<lambda>r. rn_phase r \<noteq> Queued \<and> rn_phase r \<noteq> Settled) (task_runs t st)) \<le> 1 \<and>
    (case map_of (st_tasks st) t of None \<Rightarrow> task_runs t st = []
     | Some task \<Rightarrow> tk_run_count task = int (length (task_runs t st)))"
proof -
  have ok: "store_ok ext st" by (rule reachable_ok [OF assms])
  have "int (length (filter (\<lambda>r. rn_phase r = Queued) (task_runs t st))) \<le> 1"
    unfolding queued_runs_of_task using ok by (simp add: store_ok_def)
  moreover have "int (length (filter (\<lambda>r. rn_phase r \<noteq> Queued \<and> rn_phase r \<noteq> Settled) (task_runs t st))) \<le> 1"
    unfolding active_runs_of_task using ok by (simp add: store_ok_def)
  moreover have "case map_of (st_tasks st) t of None \<Rightarrow> task_runs t st = []
     | Some task \<Rightarrow> tk_run_count task = int (length (task_runs t st))"
    using store_ok_counts [OF ok] absent_task_has_no_runs [OF ok]
    by (auto simp: task_run_count_length split: option.splits)
  ultimately show ?thesis by simp
qed

lemma task_runs_exclusive_witness:
  "task_runs ''task-1'' sample_store = [sample_run] \<and>
   length (filter (\<lambda>r. rn_phase r = Queued) (task_runs ''task-1'' sample_store)) \<le> 1"
proof -
  have "task_runs ''task-1'' sample_store = [sample_run]" by code_simp
  then show ?thesis using task_runs_exclusive [OF sample_store_reachable, of "''task-1''"] by blast
qed

end
