(* ===== verification/Delegation_History.thy ===== *)
theory Delegation_History
  imports Delegation_Reachability
begin

text \<open>
  What a commit can never undo: the identity and the outcome of a run, the rows of tasks and
  policy ceilings, the fence of the owner epoch, and the policy a run was admitted under.
\<close>

section \<open>Histories of runs and tasks\<close>

definition run_later :: "run_record \<Rightarrow> run_record \<Rightarrow> bool" where
  "run_later r r' \<longleftrightarrow> rn_revision r \<le> rn_revision r' \<and> run_step (r\<lparr>rn_revision := rn_revision r'\<rparr>) r'"

definition task_later :: "task_record \<Rightarrow> task_record \<Rightarrow> bool" where
  "task_later t t' \<longleftrightarrow>
     tk_task_id t' = tk_task_id t \<and> tk_parent t' = tk_parent t \<and> tk_depth t' = tk_depth t \<and>
     tk_policy_ceiling_ref t' = tk_policy_ceiling_ref t \<and>
     tk_completion_policy t' = tk_completion_policy t \<and> tk_revision t \<le> tk_revision t' \<and>
     (tk_state t = Task_Retired \<longrightarrow> tk_state t' = Task_Retired)"

definition ledger_later :: "store_state \<Rightarrow> store_state \<Rightarrow> bool" where
  "ledger_later st st' \<longleftrightarrow>
     (\<forall>k r. map_of (st_runs st) k = Some r \<longrightarrow> (\<exists>r'. map_of (st_runs st') k = Some r' \<and> run_later r r')) \<and>
     (\<forall>k t. map_of (st_tasks st) k = Some t \<longrightarrow> (\<exists>t'. map_of (st_tasks st') k = Some t' \<and> task_later t t')) \<and>
     (\<forall>k c. map_of (st_ceilings st) k = Some c \<longrightarrow> map_of (st_ceilings st') k = Some c)"

lemma run_step_at_revision: "run_step r s \<Longrightarrow> run_step (r\<lparr>rn_revision := n\<rparr>) (s\<lparr>rn_revision := n\<rparr>)"
  by (simp add: run_step_defs)

lemma run_later_refl [simp]: "run_later r r"
  by (simp add: run_later_def)

lemma run_later_trans:
  assumes "run_later r s" and "run_later s t"
  shows "run_later r t"
proof -
  have "run_step (r\<lparr>rn_revision := rn_revision t\<rparr>) (s\<lparr>rn_revision := rn_revision t\<rparr>)"
    using assms(1) run_step_at_revision [of "r\<lparr>rn_revision := rn_revision s\<rparr>" s "rn_revision t"]
    by (simp add: run_later_def)
  then show ?thesis using assms by (auto simp: run_later_def intro: run_step_trans)
qed

lemma advanced_later: "run_step (advanced r) r' \<Longrightarrow> run_later r r'"
  by (auto simp: run_later_def advanced_def run_step_def run_identity_kept_def)

lemma task_later_refl [simp]: "task_later t t"
  by (simp add: task_later_def)

lemma task_later_trans: "task_later t u \<Longrightarrow> task_later u v \<Longrightarrow> task_later t v"
  by (auto simp: task_later_def)

lemma kept_later: "task_kept t t' \<Longrightarrow> task_later t t'"
  by (simp add: task_later_def task_kept_def)

lemma ledger_later_refl [simp]: "ledger_later st st"
  by (simp add: ledger_later_def)

lemma ledger_later_trans: "ledger_later a b \<Longrightarrow> ledger_later b c \<Longrightarrow> ledger_later a c"
  unfolding ledger_later_def by (meson run_later_trans task_later_trans)

lemma rows_later:
  assumes "\<And>k r. map_of (st_runs st) k = Some r \<Longrightarrow> \<exists>r'. map_of (st_runs st') k = Some r' \<and> run_later r r'"
    and "\<And>k t. map_of (st_tasks st) k = Some t \<Longrightarrow> \<exists>t'. map_of (st_tasks st') k = Some t' \<and> task_later t t'"
    and "\<And>k c. map_of (st_ceilings st) k = Some c \<Longrightarrow> map_of (st_ceilings st') k = Some c"
  shows "ledger_later st st'"
  using assms unfolding ledger_later_def by blast

lemma map_set_later:
  assumes "map_of m k = Some v" and "P v w" and "\<And>x. P x x" and "map_of m i = Some x"
  shows "\<exists>y. map_of (map_set k w m) i = Some y \<and> P x y"
  using assms by (cases "i = k") auto

lemma ledger_step_later:
  assumes "ledger_step ext st st'" and ok: "store_ok ext st"
  shows "ledger_later st st'"
  using assms(1)
proof cases
  case stutter
  then show ?thesis by (simp add: ledger_later_def same_ledger_def)
next
  case (update r0 t0 r1 t1)
  show ?thesis
  proof (rule rows_later)
    show "\<exists>r'. map_of (st_runs st') k = Some r' \<and> run_later r r'" if "map_of (st_runs st) k = Some r" for k r
      unfolding update by (rule map_set_later [OF update(1) advanced_later [OF update(3)] run_later_refl that])
    show "\<exists>t'. map_of (st_tasks st') k = Some t' \<and> task_later t t'" if "map_of (st_tasks st) k = Some t" for k t
      unfolding update by (rule map_set_later [OF update(2) kept_later [OF update(10)] task_later_refl that])
  qed (simp add: update(14))
next
  case (admit r1 t1 c1)
  show ?thesis
  proof (rule rows_later)
    show "\<exists>r'. map_of (st_runs st') k = Some r' \<and> run_later r r'" if "map_of (st_runs st) k = Some r" for k r
      using that admit(1) by (cases "k = rn_run_id r1") (auto simp: admit(12))
    show "\<exists>t'. map_of (st_tasks st') k = Some t' \<and> task_later t t'" if "map_of (st_tasks st) k = Some t" for k t
      using that admit(7) by (cases "k = rn_task_id r1") (auto simp: admit(11) intro: kept_later)
  qed (use admit(10) in blast)
next
  case (task t0 t1)
  show ?thesis
  proof (rule rows_later)
    show "\<exists>t'. map_of (st_tasks st') k = Some t' \<and> task_later t t'" if "map_of (st_tasks st) k = Some t" for k t
      unfolding task by (rule map_set_later [OF task(1) kept_later [OF task(2)] task_later_refl that])
  qed (simp_all add: task(5,6))
qed

lemma op_later:
  assumes "store_ok ext st" and "store_op ext st st'"
  shows "ledger_later st st'"
proof -
  have "ledger_later st st'" if "st_tasks st' = st_tasks st" "st_runs st' = st_runs st" "st_ceilings st' = st_ceilings st"
    by (rule rows_later) (simp_all add: that)
  then show ?thesis using op_ledger_step [OF assms] ledger_step_later [OF _ assms(1)] by blast
qed

lemma ops_later: "(store_op ext)\<^sup>*\<^sup>* st st' \<Longrightarrow> store_reachable ext st \<Longrightarrow> ledger_later st st'"
proof (induction rule: rtranclp_induct)
  case (step s t)
  have "store_ok ext s" by (rule reachable_ok [OF reachable_later [OF step(1) step(4)]])
  then have "ledger_later s t" using step(2) by (rule op_later)
  then show ?case using ledger_later_trans [OF step(3) [OF step(4)]] by blast
qed simp

section \<open>Owners\<close>

lemma apply_mutation_frame [simp]:
  "st_owner (apply_mutation m st) = st_owner st" "st_epoch (apply_mutation m st) = st_epoch st"
  "st_store_id (apply_mutation m st) = st_store_id st" "st_limits (apply_mutation m st) = st_limits st"
  by (cases m; simp)+

lemma apply_mutations_frame [simp]:
  "st_owner (apply_mutations ms st) = st_owner st" "st_epoch (apply_mutations ms st) = st_epoch st"
  "st_store_id (apply_mutations ms st) = st_store_id st" "st_limits (apply_mutations ms st) = st_limits st"
  by (induction ms arbitrary: st) simp_all

lemma store_commit_frame:
  "st_owner (snd (store_commit ext c st)) = st_owner st \<and> st_epoch (snd (store_commit ext c st)) = st_epoch st \<and>
   st_store_id (snd (store_commit ext c st)) = st_store_id st \<and> st_limits (snd (store_commit ext c st)) = st_limits st"
  by (simp add: store_commit_def split: sum.splits)

definition owner_ok :: "store_state \<Rightarrow> bool" where
  "owner_ok st \<longleftrightarrow> (case st_owner st of None \<Rightarrow> True
     | Some t \<Rightarrow> ot_epoch t = st_epoch st \<and> ot_store_id t = st_store_id st)"

lemma acquire_owner_cases:
  "(st_owner (snd (acquire_owner ext nonce st)) = st_owner st \<and>
      st_epoch (snd (acquire_owner ext nonce st)) \<in> {st_epoch st, st_epoch st + 1} \<and>
      (st_owner st \<noteq> None \<longrightarrow> st_epoch (snd (acquire_owner ext nonce st)) = st_epoch st) \<and>
      (\<forall>t. fst (acquire_owner ext nonce st) \<noteq> Inr t)) \<or>
   (st_owner st = None \<and> (\<exists>t. fst (acquire_owner ext nonce st) = Inr t \<and> ot_epoch t = st_epoch st + 1 \<and>
      ot_store_id t = st_store_id st \<and> st_owner (snd (acquire_owner ext nonce st)) = Some t \<and>
      st_epoch (snd (acquire_owner ext nonce st)) = st_epoch st + 1))"
  by (auto simp: acquire_owner_def Let_def parse_record_simps result_simps split: sum.splits)

lemma acquire_owner_store_id: "st_store_id (snd (acquire_owner ext nonce st)) = st_store_id st"
  by (simp add: acquire_owner_def Let_def split: sum.splits)

lemma release_owner_cases:
  "st_epoch (snd (release_owner token st)) = st_epoch st \<and> st_store_id (snd (release_owner token st)) = st_store_id st \<and>
   st_owner (snd (release_owner token st)) \<in> {st_owner st, None}"
  by (simp add: release_owner_def split: option.splits)

lemma op_owner:
  assumes "owner_ok st" and "store_op ext st st'"
  shows "owner_ok st' \<and> st_store_id st' = st_store_id st \<and> st_epoch st \<le> st_epoch st' \<and>
    (st_owner st' = st_owner st \<or> st_owner st' = None \<or> st_epoch st < st_epoch st')"
  using assms(2)
proof cases
  case (acquired nonce)
  then show ?thesis using acquire_owner_cases [of ext nonce st] assms(1)
    by (auto simp: owner_ok_def acquire_owner_store_id split: option.splits)
next
  case (released token)
  then show ?thesis using release_owner_cases [of token st] assms(1)
    by (auto simp: owner_ok_def split: option.splits)
next
  case (committed c)
  then show ?thesis using store_commit_frame [of ext c st] assms(1)
    by (auto simp: owner_ok_def split: option.splits)
qed

lemma reachable_owner_ok: "store_reachable ext st \<Longrightarrow> owner_ok st"
proof (induction rule: store_reachable.induct)
  case (created limits store_id fresh st)
  then show ?case by (auto simp: create_in_memory_delegation_store_def result_simps owner_ok_def)
next
  case (later st st')
  then show ?case using op_owner by blast
qed

lemma ops_owner:
  "(store_op ext)\<^sup>*\<^sup>* st st' \<Longrightarrow> owner_ok st \<Longrightarrow>
     owner_ok st' \<and> st_epoch st \<le> st_epoch st' \<and>
     (st_owner st' = st_owner st \<or> st_owner st' = None \<or> st_epoch st < st_epoch st')"
proof (induction rule: rtranclp_induct)
  case (step s t)
  then show ?case using op_owner [of s ext t] by fastforce
qed simp

lemma commit_owner:
  assumes "store_commit ext c st = (Inr receipt, st')"
  shows "st_owner st = Some (cm_owner c) \<and> command_schema ext c"
proof (rule store_commit_plan [OF assms])
  fix pl assume "plan_delegation_store_commit ext c (commit_snapshot ext c st) = Inr pl"
  then show ?thesis by (cases rule: plan_cases) (auto simp: owner_lost_def split: option.splits)
qed

section \<open>Policy\<close>

definition policy_ok :: "store_state \<Rightarrow> bool" where
  "policy_ok st \<longleftrightarrow> (\<forall>k r. map_of (st_runs st) k = Some r \<longrightarrow>
     (\<exists>t c. map_of (st_tasks st) (rn_task_id r) = Some t \<and>
        map_of (st_ceilings st) (tk_policy_ceiling_ref t) = Some c \<and>
        rn_admitted_target r \<in> set (pc_targets c) \<and>
        (rn_applied_target r = None \<or> rn_applied_target r = Some (rn_admitted_target r))))"

lemma policy_later:
  assumes "policy_ok st" and later: "ledger_later st st'" and "map_of (st_runs st) k = Some r"
    and "map_of (st_runs st') k = Some r'"
  shows "\<exists>t c. map_of (st_tasks st') (rn_task_id r') = Some t \<and>
    map_of (st_ceilings st') (tk_policy_ceiling_ref t) = Some c \<and> rn_admitted_target r' \<in> set (pc_targets c) \<and>
    (rn_applied_target r' = None \<or> rn_applied_target r' = Some (rn_admitted_target r'))"
proof -
  obtain t c where old: "map_of (st_tasks st) (rn_task_id r) = Some t"
    "map_of (st_ceilings st) (tk_policy_ceiling_ref t) = Some c" "rn_admitted_target r \<in> set (pc_targets c)"
    "rn_applied_target r = None \<or> rn_applied_target r = Some (rn_admitted_target r)"
    using assms(1,3) unfolding policy_ok_def by blast
  have "run_later r r'" using later assms(3,4) unfolding ledger_later_def by fastforce
  then have run: "rn_task_id r' = rn_task_id r" "rn_admitted_target r' = rn_admitted_target r"
    "rn_applied_target r' = rn_applied_target r \<or> rn_applied_target r' = Some (rn_admitted_target r)"
    by (auto simp: run_later_def run_step_defs)
  obtain t' where t': "map_of (st_tasks st') (rn_task_id r) = Some t'" "task_later t t'"
    using later old(1) unfolding ledger_later_def by blast
  then have "map_of (st_ceilings st') (tk_policy_ceiling_ref t') = Some c"
    using later old(2) by (simp add: ledger_later_def task_later_def)
  then show ?thesis using run t'(1) old by auto
qed

lemma ledger_step_policy:
  assumes "ledger_step ext st st'" and ok: "store_ok ext st" and policy: "policy_ok st"
  shows "policy_ok st'"
  unfolding policy_ok_def
proof (intro allI impI)
  fix k r' assume r': "map_of (st_runs st') k = Some r'"
  note later = ledger_step_later [OF assms(1) ok]
  show "\<exists>t c. map_of (st_tasks st') (rn_task_id r') = Some t \<and>
      map_of (st_ceilings st') (tk_policy_ceiling_ref t) = Some c \<and> rn_admitted_target r' \<in> set (pc_targets c) \<and>
      (rn_applied_target r' = None \<or> rn_applied_target r' = Some (rn_admitted_target r'))"
  proof (cases "map_of (st_runs st) k")
    case (Some r)
    then show ?thesis by (rule policy_later [OF policy later _ r'])
  next
    case None
    with assms(1) r' show ?thesis by cases (auto simp: same_ledger_def split: if_splits)
  qed
qed

lemma reachable_policy_ok: "store_reachable ext st \<Longrightarrow> policy_ok st"
proof (induction rule: store_reachable.induct)
  case (created limits store_id fresh st)
  then show ?case by (auto simp: create_in_memory_delegation_store_def result_simps policy_ok_def)
next
  case (later st st')
  then show ?case
    using op_ledger_step [OF reachable_ok [OF later(1)] later(2)] ledger_step_policy [OF _ reachable_ok [OF later(1)]]
    by (auto simp: policy_ok_def)
qed

section \<open>Properties\<close>

text \<open>
  C1. Refinement: in every reachable state a commit, accepted or refused, is one abstract step of
  the ledger.  It leaves the ledger alone, or advances exactly one retained run by an allowed change
  together with its task, or admits one new queued run under a retained policy ceiling, or
  changes a task alone.
\<close>

theorem commit_refines_ledger:
  assumes "store_reachable ext st"
  shows "ledger_step ext st (snd (store_commit ext c st))"
  by (rule commit_step [OF reachable_ok [OF assms]])

lemma commit_refines_ledger_witness: "ledger_step sample_externals sample_owned_store sample_store"
  using commit_refines_ledger [OF sample_owned_reachable, of sample_admit] by (simp add: sample_admitted)



text \<open>
  C4. The owner fence: once an owner has acquired the store, no commit of any later state carries
  an older epoch.  Every accepted command carries exactly the current token, so the commands of
  an owner that lost the store are refused for good.
\<close>

theorem owner_fence:
  assumes "store_reachable ext st" and "acquire_owner ext nonce st = (Inr token, st1)"
    and "(store_op ext)\<^sup>*\<^sup>* st1 st2" and "store_commit ext c st2 = (Inr receipt, st3)"
  shows "st_owner st2 = Some (cm_owner c) \<and> ot_epoch (cm_owner c) = st_epoch st2 \<and>
    (cm_owner c = token \<or> ot_epoch token < ot_epoch (cm_owner c))"
proof -
  have acq: "st1 = snd (acquire_owner ext nonce st)" using assms(2) by simp
  then have reach: "store_reachable ext st1" using later [OF assms(1) store_op.acquired] by simp
  have tok: "st_owner st1 = Some token" "st_epoch st1 = ot_epoch token"
    using acquire_owner_cases [of ext nonce st] assms(2) by auto
  have "owner_ok st1" by (rule reachable_owner_ok [OF reach])
  then have st2: "owner_ok st2" "st_epoch st1 \<le> st_epoch st2"
    "st_owner st2 = st_owner st1 \<or> st_owner st2 = None \<or> st_epoch st1 < st_epoch st2"
    using ops_owner [OF assms(3)] by auto
  have owner: "st_owner st2 = Some (cm_owner c)" using commit_owner [OF assms(4)] by simp
  then have "ot_epoch (cm_owner c) = st_epoch st2" using st2(1) by (simp add: owner_ok_def)
  then show ?thesis using owner st2 tok by auto
qed

lemma owner_fence_witness: "ot_epoch sample_owner = st_epoch sample_owned_store"
proof -
  have "store_reachable sample_externals sample_empty_store"
    by (rule store_reachable.created [OF sample_empty_created])
  from owner_fence [OF this sample_acquired rtranclp.rtrancl_refl sample_admitted]
  show ?thesis by (simp add: sample_admit_def sample_command_def)
qed

text \<open>
  C9. Policy: in every reachable state each run belongs to a retained task whose retained policy
  ceiling lists the target the run was admitted for, and a target it was dispatched to is that
  admitted target.
\<close>

theorem runs_within_ceiling:
  assumes "store_reachable ext st" and "map_of (st_runs st) k = Some r"
  shows "\<exists>t c. map_of (st_tasks st) (rn_task_id r) = Some t \<and>
    map_of (st_ceilings st) (tk_policy_ceiling_ref t) = Some c \<and>
    rn_admitted_target r \<in> set (pc_targets c) \<and>
    (\<forall>target. rn_applied_target r = Some target \<longrightarrow> target = rn_admitted_target r)"
  using reachable_policy_ok [OF assms(1)] assms(2) unfolding policy_ok_def by fastforce

lemma runs_within_ceiling_witness:
  "\<exists>t c. map_of (st_tasks sample_store) (rn_task_id sample_run) = Some t \<and>
    map_of (st_ceilings sample_store) (tk_policy_ceiling_ref t) = Some c \<and>
    rn_admitted_target sample_run \<in> set (pc_targets c)"
proof -
  have "map_of (st_runs sample_store) ''run-1'' = Some sample_run" by (simp add: sample_store_def)
  from runs_within_ceiling [OF sample_store_reachable this] show ?thesis by blast
qed

end
