(* ===== verification/Delegation_Journal.thy ===== *)
theory Delegation_Journal
  imports Delegation_History
begin

text \<open>
  The journal of operations.  Each commit writes at most one operation row: a new one under an
  identity that was free, or a later version of the retained row of the same run and kind.  So a
  run never has two cancellations, interrupts, session closes or binding cleanups, and the
  snapshot that a commit reads is never the inconsistent one that the planner refuses.
\<close>

section \<open>The rows of a plan by table\<close>

fun op_rows :: "row_mutation list \<Rightarrow> operation_record list" where
  "op_rows [] = []"
| "op_rows (Operation_Row x # ms) = x # op_rows ms"
| "op_rows (m # ms) = op_rows ms"

fun nt_rows :: "row_mutation list \<Rightarrow> notification_record list" where
  "nt_rows [] = []"
| "nt_rows (Notification_Row n # ms) = n # nt_rows ms"
| "nt_rows (m # ms) = nt_rows ms"

definition op_key :: "operation_record \<Rightarrow> string" where
  "op_key x = operation_key (op_parent x) (op_operation_id x)"

lemma op_rows_append [simp]: "op_rows (xs @ ys) = op_rows xs @ op_rows ys"
  by (induction xs rule: op_rows.induct) simp_all

lemma nt_rows_append [simp]: "nt_rows (xs @ ys) = nt_rows xs @ nt_rows ys"
  by (induction xs rule: nt_rows.induct) simp_all

lemma op_rows_push [simp]:
  "op_rows (cx_mutations (push_mutation m ctx)) = op_rows (cx_mutations ctx) @ op_rows [m]"
  by (simp add: push_mutation_def)

lemma nt_rows_push [simp]:
  "nt_rows (cx_mutations (push_mutation m ctx)) = nt_rows (cx_mutations ctx) @ nt_rows [m]"
  by (simp add: push_mutation_def)

lemma finalized_op_rows: "op_rows (map (finalize_mutation rc) ms) = map (\<lambda>x. x\<lparr>op_receipt := rc\<rparr>) (op_rows ms)"
  by (induction ms rule: op_rows.induct) (simp_all add: finalize_mutation_def)

lemma finalized_nt_rows: "nt_rows (map (finalize_mutation rc) ms) = nt_rows ms"
  by (induction ms rule: nt_rows.induct) (simp_all add: finalize_mutation_def)

lemma op_rows_run_rows [simp]: "op_rows (run_rows r) = []" "nt_rows (run_rows r) = []"
  by (simp_all add: run_rows_def split: option.splits)

lemma apply_operations:
  "st_operations (apply_mutations ms st) = fold (\<lambda>x. map_set (op_key x) x) (op_rows ms) (st_operations st)"
  by (induction ms arbitrary: st rule: op_rows.induct) (simp_all add: op_key_def)

lemma apply_notifications:
  "st_notifications (apply_mutations ms st) =
     fold (\<lambda>n. map_set (ev_notification_id (nt_envelope n)) n) (nt_rows ms) (st_notifications st)"
  by (induction ms arbitrary: st rule: nt_rows.induct) simp_all

section \<open>The operation rows of the helpers\<close>

definition same_entry :: "operation_record \<Rightarrow> operation_record \<Rightarrow> bool" where
  "same_entry x y \<longleftrightarrow> op_parent y = op_parent x \<and> op_operation_id y = op_operation_id x \<and>
     op_run_id y = op_run_id x \<and> op_kind y = op_kind x \<and> op_task_id y = op_task_id x \<and>
     op_input_digest y = op_input_digest x"

definition new_entry :: "commit_context \<Rightarrow> run_record \<Rightarrow> operation_kind \<Rightarrow> operation_record \<Rightarrow> bool" where
  "new_entry ctx r k x \<longleftrightarrow>
     op_operation_id x = cm_operation_id (cx_command ctx) \<and> op_parent x = tk_parent (cx_task ctx) \<and>
     op_run_id x = rn_run_id r \<and> op_kind x = k \<and> op_task_id x = tk_task_id (cx_task ctx) \<and>
     op_input_digest x = cm_input_digest (cx_command ctx) \<and> op_attempts x = 1"

lemma same_entry_receipt [simp]: "same_entry x (y\<lparr>op_receipt := rc\<rparr>) \<longleftrightarrow> same_entry x y"
  by (simp add: same_entry_def)

lemma new_entry_receipt [simp]: "new_entry ctx r k (y\<lparr>op_receipt := rc\<rparr>) \<longleftrightarrow> new_entry ctx r k y"
  by (simp add: new_entry_def)

lemma set_run_keeps:
  assumes "set_run f ctx = Inr ctx'"
  shows "cx_mutations ctx' = cx_mutations ctx \<and> cx_task ctx' = cx_task ctx \<and> cx_command ctx' = cx_command ctx \<and>
    cx_current ctx' = cx_current ctx \<and> cx_receipt ctx' = cx_receipt ctx \<and>
    (\<exists>r. cx_run ctx = Some r \<and> cx_run ctx' = Some (f r))"
  using assms by (auto simp: set_run_def result_simps Let_def)

lemma set_receipt_keeps [simp]:
  "cx_mutations (set_receipt f ctx) = cx_mutations ctx" "cx_task (set_receipt f ctx) = cx_task ctx"
  "cx_command (set_receipt f ctx) = cx_command ctx" "cx_run (set_receipt f ctx) = cx_run ctx"
  "cx_current (set_receipt f ctx) = cx_current ctx"
  by (simp_all add: set_receipt_def)

lemma push_mutation_keeps [simp]:
  "cx_task (push_mutation m ctx) = cx_task ctx" "cx_command (push_mutation m ctx) = cx_command ctx"
  "cx_run (push_mutation m ctx) = cx_run ctx" "cx_current (push_mutation m ctx) = cx_current ctx"
  "cx_receipt (push_mutation m ctx) = cx_receipt ctx" "cx_capacity (push_mutation m ctx) = cx_capacity ctx"
  by (simp_all add: push_mutation_def)

lemma phase_receipt_keeps: "phase_receipt ctx = Inr ctx' \<Longrightarrow> cx_mutations ctx' = cx_mutations ctx"
  by (auto simp: phase_receipt_def result_simps)

lemma count_ordinary_keeps:
  assumes "count_ordinary k ctx = Inr ctx'"
  shows "cx_mutations ctx' = cx_mutations ctx \<and> cx_task ctx' = cx_task ctx \<and> cx_command ctx' = cx_command ctx \<and>
    cx_receipt ctx' = cx_receipt ctx"
proof (cases "critical_kind k")
  case False
  then obtain f ctx1 where "set_run f ctx = Inr ctx1"
    "ctx' = ctx1\<lparr>cx_capacity := (cx_capacity ctx1)\<lparr>cp_ordinary_operations :=
                      cp_ordinary_operations (cx_capacity ctx1) + 1\<rparr>\<rparr>"
    using assms by (auto simp: count_ordinary_def result_simps Let_def)
  then show ?thesis using set_run_keeps by auto
qed (use assms in \<open>simp add: count_ordinary_def\<close>)

lemma add_operation_rows:
  assumes "add_operation k at 1 req ctx = Inr ctx'" and "cx_run ctx = Some r"
  shows "\<exists>x. cx_mutations ctx' = cx_mutations ctx @ [Operation_Row x] \<and> new_entry ctx r k x \<and>
    cx_task ctx' = cx_task ctx \<and> cx_command ctx' = cx_command ctx \<and> cx_receipt ctx' = cx_receipt ctx"
proof -
  obtain ctx1 x where "count_ordinary k ctx = Inr ctx1" "ctx' = push_mutation (Operation_Row x) ctx1"
    "op_operation_id x = cm_operation_id (cx_command ctx1)" "op_parent x = tk_parent (cx_task ctx1)"
    "op_run_id x = rn_run_id r" "op_kind x = k" "op_task_id x = tk_task_id (cx_task ctx1)"
    "op_input_digest x = cm_input_digest (cx_command ctx1)" "op_attempts x = 1"
    using assms by (auto simp: add_operation_def result_simps Let_def)
  then show ?thesis using count_ordinary_keeps by (auto simp: new_entry_def push_mutation_def)
qed

lemma settle_run_rows:
  assumes "settle_run ext out at ctx = Inr ctx'"
  shows "\<exists>n. cx_mutations ctx' = cx_mutations ctx @ [Notification_Row n] \<and> cx_task ctx' = cx_task ctx \<and>
    cx_command ctx' = cx_command ctx \<and> (\<exists>r r'. cx_run ctx = Some r \<and> cx_run ctx' = Some r' \<and> rn_run_id r' = rn_run_id r)"
proof (rule settle_run_Inr [OF assms])
  fix r expires envelope ctx1
  assume "cx_run ctx = Some r"
    and set: "set_run (settlement_change ctx (settled_outcome r out) at) ctx = Inr ctx1"
    and ctx': "ctx' = push_mutation (Notification_Row (settlement_notification ctx envelope))
      (set_receipt (\<lambda>rc. rc\<lparr>rc_status := Status_Phase Settled,
         rc_notification_id := Some (ev_notification_id envelope)\<rparr>) ctx1)"
  then show ?thesis using set_run_keeps [OF set]
    by (auto simp: push_mutation_def settlement_change_def)
qed

section \<open>The operation rows of the transitions\<close>

text \<open>One operation row at most; \<open>new\<close> holds of a new one, \<open>old\<close> of the version it replaces.\<close>

definition writes_operation ::
    "(operation_record \<Rightarrow> bool) \<Rightarrow> (operation_record \<Rightarrow> bool) \<Rightarrow> commit_context \<Rightarrow> commit_context \<Rightarrow> bool" where
  "writes_operation new old ctx ctx' \<longleftrightarrow> (\<exists>xs. op_rows (cx_mutations ctx') = op_rows (cx_mutations ctx) @ xs \<and>
     (xs = [] \<or> (\<exists>x. xs = [x] \<and> (new x \<or> (\<exists>prior. old prior \<and> same_entry prior x)))))"

lemma writes_none: "op_rows (cx_mutations ctx') = op_rows (cx_mutations ctx) \<Longrightarrow> writes_operation new old ctx ctx'"
  by (simp add: writes_operation_def)

lemma writes_one:
  "op_rows (cx_mutations ctx') = op_rows (cx_mutations ctx) @ [x] \<Longrightarrow>
     new x \<or> (\<exists>prior. old prior \<and> same_entry prior x) \<Longrightarrow> writes_operation new old ctx ctx'"
  by (simp add: writes_operation_def)

definition fresh_kind :: "operation_kind \<Rightarrow> commit_context \<Rightarrow> bool" where
  "fresh_kind k ctx \<longleftrightarrow> (\<forall>x \<in> set (cu_critical_operations (cx_current ctx)). op_kind x \<noteq> k)"

lemma find_None_fresh:
  "find (\<lambda>x. op_kind x = k) (cu_critical_operations (cx_current ctx)) = None \<Longrightarrow> fresh_kind k ctx"
  by (auto simp: fresh_kind_def find_None_iff)

lemma dispatch_phase_keeps:
  assumes "dispatch_phase k applied r ctx = Inr ctx'" and "cx_run ctx = Some r"
  shows "cx_mutations ctx' = cx_mutations ctx \<and> cx_task ctx' = cx_task ctx \<and> cx_command ctx' = cx_command ctx \<and>
    (\<exists>r'. cx_run ctx' = Some r' \<and> rn_run_id r' = rn_run_id r)"
  using assms
  by (auto simp: dispatch_phase_def result_simps dest!: set_run_keeps split: if_splits option.splits)

lemma dispatch_new_row:
  assumes "dispatch_intent k at applied attempt ctx = Inr ctx'" and run: "cx_run ctx = Some r"
    and none: "find (\<lambda>x. op_kind x = k) (cu_critical_operations (cx_current ctx)) = None"
  shows "\<exists>x. op_rows (cx_mutations ctx') = op_rows (cx_mutations ctx) @ [x] \<and> new_entry ctx r k x \<and>
    attempt \<in> {None, Some 1}"
proof -
  obtain ctx1 ctx2 where phase: "dispatch_phase k applied r ctx = Inr ctx1"
    and add: "add_operation k at 1 None ctx1 = Inr ctx2" and rcpt: "phase_receipt ctx2 = Inr ctx'"
    and attempt: "attempt \<in> {None, Some 1}"
    using assms by (auto simp: dispatch_intent_def result_simps Let_def split: option.splits)
  obtain r1 where keep: "cx_mutations ctx1 = cx_mutations ctx" "cx_task ctx1 = cx_task ctx"
    "cx_command ctx1 = cx_command ctx" "cx_run ctx1 = Some r1" "rn_run_id r1 = rn_run_id r"
    using dispatch_phase_keeps [OF phase run] by blast
  obtain x where x: "cx_mutations ctx2 = cx_mutations ctx1 @ [Operation_Row x]" "new_entry ctx1 r1 k x"
    using add_operation_rows [OF add keep(4)] by blast
  have "new_entry ctx r k x" using x(2) keep by (simp add: new_entry_def)
  then show ?thesis using phase_receipt_keeps [OF rcpt] x(1) keep(1) attempt by auto
qed

lemma dispatch_old_row:
  assumes "dispatch_intent k at applied attempt ctx = Inr ctx'" and "cx_run ctx = Some r"
    and "find (\<lambda>x. op_kind x = k) (cu_critical_operations (cx_current ctx)) = Some prior"
  shows "attempt = Some 2 \<and> (\<exists>x. ctx' = push_mutation (Operation_Row x) ctx \<and> same_entry prior x)"
  using assms
  by (auto simp: dispatch_intent_def retry_cleanup_def result_simps Let_def same_entry_def)

lemma dispatch_intent_rows:
  assumes "dispatch_intent k at applied attempt ctx = Inr ctx'" and run: "cx_run ctx = Some r"
  shows "writes_operation (\<lambda>x. new_entry ctx r k x \<and> fresh_kind k ctx \<and> attempt \<in> {None, Some 1})
    (\<lambda>x. x \<in> set (cu_critical_operations (cx_current ctx))) ctx ctx'"
proof (cases "find (\<lambda>x. op_kind x = k) (cu_critical_operations (cx_current ctx))")
  case None
  obtain x where "op_rows (cx_mutations ctx') = op_rows (cx_mutations ctx) @ [x]" "new_entry ctx r k x"
    "attempt \<in> {None, Some 1}" using dispatch_new_row [OF assms None] by blast
  then show ?thesis using find_None_fresh [OF None] by (intro writes_one [where x = x]) simp_all
next
  case (Some prior)
  then have "prior \<in> set (cu_critical_operations (cx_current ctx))" using find_Some_in by fast
  moreover obtain x where "ctx' = push_mutation (Operation_Row x) ctx" "same_entry prior x"
    using dispatch_old_row [OF assms Some] by blast
  ultimately show ?thesis by (intro writes_one [where x = x]) auto
qed

lemma cancel_run_rows:
  assumes "cancel_run ext at ctx = Inr ctx'" and run: "cx_run ctx = Some r"
  shows "\<exists>x ms. cx_mutations ctx' = cx_mutations ctx @ ms @ [Operation_Row x] \<and> op_rows ms = [] \<and>
    new_entry ctx r Op_Cancel x"
proof (cases "rn_phase r = Settled")
  case True
  then have "add_operation Op_Cancel at 1 None (set_receipt (\<lambda>rc. rc\<lparr>rc_status := Status_Phase Settled\<rparr>) ctx) = Inr ctx'"
    using assms by (simp add: cancel_run_def require_run_Some)
  from add_operation_rows [OF this, of r] run show ?thesis by (auto simp: new_entry_def)
next
  case False
  then obtain ctx1 ctx2 where a: "set_run (\<lambda>r. r\<lparr>rn_cancel_requested := True\<rparr>) ctx = Inr ctx1"
    and b: "(if undispatched r then settle_run ext (Canceled Not_Dispatched) at ctx1 else Inr ctx1) = Inr ctx2"
    and c: "add_operation Op_Cancel at 1 None ctx2 = Inr ctx'"
    using assms by (auto simp: cancel_run_def result_simps)
  obtain r2 ms where two: "cx_mutations ctx2 = cx_mutations ctx1 @ ms" "op_rows ms = []" "cx_task ctx2 = cx_task ctx1"
    "cx_command ctx2 = cx_command ctx1" "cx_run ctx2 = Some r2" "rn_run_id r2 = rn_run_id r"
    using b set_run_keeps [OF a] run by (fastforce dest!: settle_run_rows split: if_splits)
  show ?thesis
    using add_operation_rows [OF c two(5)] two set_run_keeps [OF a]
    by (auto simp: new_entry_def)
qed

lemma deliver_request_keeps:
  assumes "deliver_request d rs prior ctx = Inr ctx'"
  shows "cx_mutations ctx' = cx_mutations ctx"
proof -
  obtain run request ctx1 where "deliver_pending d rs request run ctx = Inr ctx1" "phase_receipt ctx1 = Inr ctx'"
    using assms by (auto simp: deliver_request_def result_simps split: option.splits)
  then show ?thesis
    using deliver_pending_cases [of d rs request run ctx ctx1] phase_receipt_keeps
    by (auto dest!: set_run_keeps)
qed

lemma operation_receipt_rows:
  assumes "operation_receipt d at message rs ctx = Inr ctx'"
  shows "writes_operation (\<lambda>x. False) (\<lambda>x. cu_operation (cx_current ctx) = Some x) ctx ctx'"
proof -
  obtain prior ctx1 where prior: "cu_operation (cx_current ctx) = Some prior"
    and mid: "(if op_kind prior = Op_Request_Resolution
        then deliver_request d rs prior (push_mutation (Operation_Row (receipt_operation d at message rs prior ctx)) ctx)
        else Inr (push_mutation (Operation_Row (receipt_operation d at message rs prior ctx)) ctx)) = Inr ctx1"
    and last: "(if receipt_needs_run d (op_kind prior)
        then set_run (receipt_effect d (op_kind prior)) ctx1 else Inr ctx1) = Inr ctx'"
    using assms by (auto simp: operation_receipt_def result_simps Let_def split: option.splits)
  have "cx_mutations ctx1 = cx_mutations (push_mutation (Operation_Row (receipt_operation d at message rs prior ctx)) ctx)"
    using mid deliver_request_keeps by (auto split: if_splits)
  moreover have "cx_mutations ctx' = cx_mutations ctx1"
    using last by (auto dest: set_run_keeps split: if_splits)
  ultimately have "op_rows (cx_mutations ctx') = op_rows (cx_mutations ctx) @ [receipt_operation d at message rs prior ctx]"
    by simp
  moreover have "same_entry prior (receipt_operation d at message rs prior ctx)"
    by (simp add: same_entry_def receipt_operation_def)
  ultimately show ?thesis using prior by (intro writes_one) auto
qed

lemma request_state_rows:
  assumes "request_state change request at ctx = Inr ctx'" and run: "cx_run ctx = Some r"
  shows "writes_operation (\<lambda>x. new_entry ctx r Op_Request_Resolution x \<and> change = Intend_Resolution) (\<lambda>x. False) ctx ctx'"
proof -
  obtain ctx1 where mid: "(if change = Opened then
          if rn_phase r \<noteq> Running \<or> hr_state request \<noteq> Request_Waiting
             \<or> rn_owner_epoch r \<noteq> command_epoch ctx
          then fail_delegation Request_Unavailable
          else set_run (\<lambda>r. r\<lparr>rn_phase := Waiting, rn_pending_request := Some request\<rparr>) ctx
        else case rn_pending_request r of
          None \<Rightarrow> fail_delegation Request_Unavailable
        | Some pending \<Rightarrow>
            if hr_request_id pending \<noteq> hr_request_id request
               \<or> hr_request_kind pending \<noteq> hr_request_kind request
            then fail_delegation Request_Unavailable
            else if change = Intend_Resolution then intend_resolution pending at r ctx
            else close_request change pending r ctx) = Inr ctx1"
    and rcpt: "phase_receipt ctx1 = Inr ctx'"
    using assms by (auto simp: request_state_def result_simps)
  have same: "cx_mutations ctx' = cx_mutations ctx1" by (rule phase_receipt_keeps [OF rcpt])
  consider (edit) f where "set_run f ctx = Inr ctx1"
    | (intend) pending where "change = Intend_Resolution" "intend_resolution pending at r ctx = Inr ctx1"
    using mid by (auto simp: close_request_def result_simps split: if_splits option.splits)
  then show ?thesis
  proof cases
    case edit
    then show ?thesis using set_run_keeps same by (intro writes_none) simp
  next
    case intend
    then obtain req ctx0 f where a: "add_operation Op_Request_Resolution at 1 req ctx = Inr ctx0" "set_run f ctx0 = Inr ctx1"
      by (auto simp: intend_resolution_def result_simps)
    then obtain x where "cx_mutations ctx1 = cx_mutations ctx @ [Operation_Row x]" "new_entry ctx r Op_Request_Resolution x"
      using add_operation_rows [OF a(1) run] set_run_keeps [OF a(2)] by auto
    then show ?thesis using same intend(1) by (intro writes_one [where x = x]) auto
  qed
qed

lemma observe_run_rows:
  assumes "observe_run ext b ctx = Inr ctx'" and "cx_run ctx = Some r"
  shows "op_rows (cx_mutations ctx') = op_rows (cx_mutations ctx) \<and> nt_rows (cx_mutations ctx') = nt_rows (cx_mutations ctx)"
  using observe_run_cases [OF assms] by (simp add: push_mutation_def set_receipt_def split: if_splits)

lemma delivery_rows:
  assumes "delivery ext n revision attempt result at ctx = Inr ctx'"
  shows "op_rows (cx_mutations ctx') = op_rows (cx_mutations ctx)"
  by (rule delivery_cases [OF assms]) simp

text \<open>The operation that a command other than an admission may write.\<close>

definition new_operation :: "store_command \<Rightarrow> commit_context \<Rightarrow> run_record \<Rightarrow> operation_record \<Rightarrow> bool" where
  "new_operation c ctx r x \<longleftrightarrow> (\<exists>k. command_operation_kind (cm_body c) = Some k \<and> new_entry ctx r k x \<and>
     \<not> is_second_attempt (cm_body c) \<and>
     (critical_kind k \<longrightarrow> (\<exists>at reason. cm_body c = Cancel at reason) \<or> fresh_kind k ctx))"

definition old_operation :: "commit_context \<Rightarrow> operation_record \<Rightarrow> bool" where
  "old_operation ctx x \<longleftrightarrow>
     x \<in> set (cu_critical_operations (cx_current ctx)) \<or> cu_operation (cx_current ctx) = Some x"

lemma writes_operation_mono:
  "writes_operation new old ctx ctx' \<Longrightarrow> (\<And>x. new x \<Longrightarrow> new' x) \<Longrightarrow> (\<And>x. old x \<Longrightarrow> old' x) \<Longrightarrow>
     writes_operation new' old' ctx ctx'"
  unfolding writes_operation_def by blast

lemma transition_rows:
  assumes "transition ext (cm_body c) ctx = Inr ctx'" and "\<not> is_admit (cm_body c)" and run: "cx_run ctx = Some r"
    and "\<not> is_retire (cm_body c)"
  shows "writes_operation (new_operation c ctx r) (old_operation ctx) ctx ctx'"
proof (cases "cm_body c")
  case (Dispatch_Intent k at target attempt)
  then have "dispatch_intent k at target attempt ctx = Inr ctx'" using assms(1) by simp
  from dispatch_intent_rows [OF this run] show ?thesis
    by (rule writes_operation_mono)
      (use Dispatch_Intent in \<open>auto simp: new_operation_def old_operation_def is_second_attempt_def\<close>)
next
  case (Operation_Receipt d at message rs)
  then have "operation_receipt d at message rs ctx = Inr ctx'" using assms(1) by simp
  from operation_receipt_rows [OF this] show ?thesis
    by (rule writes_operation_mono) (auto simp: old_operation_def)
next
  case (Request_State change request at)
  then have "request_state change request at ctx = Inr ctx'" using assms(1) by simp
  from request_state_rows [OF this run] show ?thesis
    by (rule writes_operation_mono)
      (use Request_State in \<open>auto simp: new_operation_def is_second_attempt_def critical_kind_def\<close>)
next
  case (Cancel at reason)
  then have "cancel_run ext at ctx = Inr ctx'" using assms(1) by simp
  from cancel_run_rows [OF this run] obtain x ms where
    "cx_mutations ctx' = cx_mutations ctx @ ms @ [Operation_Row x]" "op_rows ms = []" "new_entry ctx r Op_Cancel x" by blast
  then show ?thesis using Cancel
    by (intro writes_one [where x = x]) (auto simp: new_operation_def is_second_attempt_def)
next
  case (Settle out at)
  then have "settle_run ext out at ctx = Inr ctx'" using assms(1) settle_Inr by simp
  from settle_run_rows [OF this] show ?thesis by (auto intro: writes_none)
qed (use assms observe_run_rows delivery_rows in \<open>auto simp: is_admit_def is_retire_def intro: writes_none\<close>)

section \<open>The operations a commit finds\<close>

lemma duplicate_none_free:
  assumes "duplicate ext c cur = Inr None" and "command_operation_kind (cm_body c) = Some k"
    and "\<not> is_second_attempt (cm_body c)"
  shows "cu_operation cur = None"
    and "k = Op_Cancel \<Longrightarrow> cm_body c = Cancel at reason \<Longrightarrow>
      \<forall>x \<in> set (cu_critical_operations cur). op_kind x \<noteq> Op_Cancel"
proof -
  obtain retry where retry: "duplicate_operation c (cu_operation cur) = Inr retry"
    and rest: "case retry of Some r \<Rightarrow> False | None \<Rightarrow> duplicate_effect ext c cur = Inr None"
    using assms(1,2) by (cases "cm_body c") (auto simp: duplicate_def result_simps split: option.splits)
  show "cu_operation cur = None"
    using retry rest assms(2,3)
    by (cases "cm_body c") (auto simp: duplicate_operation_def result_simps split: option.splits)
  show "\<forall>x \<in> set (cu_critical_operations cur). op_kind x \<noteq> Op_Cancel" if "cm_body c = Cancel at reason"
    using rest that by (auto simp: duplicate_effect_def result_simps list_ex_iff split: option.splits)
qed

section \<open>The journal of the store\<close>

definition entry_count :: "string \<Rightarrow> operation_kind \<Rightarrow> operation_record \<Rightarrow> int" where
  "entry_count run k x = indicator01 (op_run_id x = run \<and> op_kind x = k)"

definition journal_ok :: "store_state \<Rightarrow> bool" where
  "journal_ok st \<longleftrightarrow> keyed op_key (st_operations st) \<and>
     (\<forall>run k. critical_kind k \<longrightarrow> sum_over (entry_count run k) (st_operations st) \<le> 1)"

definition free_entry :: "store_state \<Rightarrow> operation_record \<Rightarrow> bool" where
  "free_entry st x \<longleftrightarrow> map_of (st_operations st) (op_key x) = None \<and>
     (critical_kind (op_kind x) \<longrightarrow> sum_over (entry_count (op_run_id x) (op_kind x)) (st_operations st) = 0)"

definition kept_entry :: "store_state \<Rightarrow> operation_record \<Rightarrow> bool" where
  "kept_entry st x \<longleftrightarrow> (\<exists>prior. map_of (st_operations st) (op_key x) = Some prior \<and> same_entry prior x)"

definition journal_step :: "store_state \<Rightarrow> store_state \<Rightarrow> bool" where
  "journal_step st st' \<longleftrightarrow> st_operations st' = st_operations st \<or>
     (\<exists>x. st_operations st' = map_set (op_key x) x (st_operations st) \<and> (free_entry st x \<or> kept_entry st x))"

lemma journal_step_ok:
  assumes "journal_step st st'" and ok: "journal_ok st"
  shows "journal_ok st'"
proof (cases "st_operations st' = st_operations st")
  case True
  then show ?thesis using ok by (simp add: journal_ok_def)
next
  case False
  then obtain x where st': "st_operations st' = map_set (op_key x) x (st_operations st)"
    and x: "free_entry st x \<or> kept_entry st x" using assms(1) by (auto simp: journal_step_def)
  have "sum_over (entry_count run k) (st_operations st') \<le> 1" if k: "critical_kind k" for run k
  proof -
    have old: "sum_over (entry_count run k) (st_operations st) \<le> 1" using ok k by (simp add: journal_ok_def)
    from x show ?thesis
    proof
      assume "free_entry st x"
      then show ?thesis using old k unfolding st'
        by (cases "op_run_id x = run \<and> op_kind x = k")
          (auto simp: free_entry_def rows.total_put_new entry_count_def [where x = x])
    next
      assume "kept_entry st x"
      then obtain prior where prior: "map_of (st_operations st) (op_key x) = Some prior" "same_entry prior x"
        by (auto simp: kept_entry_def)
      then have "entry_count run k x = entry_count run k prior" by (simp add: entry_count_def same_entry_def)
      then show ?thesis using old rows.total_put_same [OF prior(1)] unfolding st' by metis
    qed
  qed
  moreover have "keyed op_key (st_operations st')"
    using ok unfolding st' by (auto simp: journal_ok_def intro: keyed_map_set)
  ultimately show ?thesis by (simp add: journal_ok_def)
qed

lemma plan_journal:
  assumes fin: "finish_plan ext ctx = Inr pl"
  shows "st_operations (apply_mutations (pl_mutations pl) st) =
    fold (\<lambda>x. map_set (op_key x) x) (map (\<lambda>x. x\<lparr>op_receipt := cx_receipt ctx\<rparr>) (op_rows (cx_mutations ctx)))
      (st_operations st)"
  using finish_plan_Inr [OF fin] by (simp add: apply_operations finalized_op_rows)

lemma no_entries:
  "(\<And>x. x \<in> set (run_operations run st) \<Longrightarrow> op_kind x \<noteq> k) \<Longrightarrow> sum_over (entry_count run k) (st_operations st) = 0"
proof (rule sum_over_zero)
  fix x assume free: "\<And>x. x \<in> set (run_operations run st) \<Longrightarrow> op_kind x \<noteq> k"
    and "x \<in> snd ` set (st_operations st)"
  then have "x \<in> set (run_operations run st)" if "op_run_id x = run" using that by (simp add: run_operations_def)
  then have "\<not> (op_run_id x = run \<and> op_kind x = k)" using free by blast
  then show "entry_count run k x = 0" by (simp only: entry_count_def indicator01_simps)
qed

lemma critical_snapshot:
  "cu_critical_operations (commit_snapshot ext c st) = (case command_run_id c of None \<Rightarrow> []
     | Some r \<Rightarrow> filter (critical_kind \<circ> op_kind) (run_operations r st))"
  by (simp add: commit_snapshot_def split: option.splits)

lemma operation_snapshot:
  "cu_operation (commit_snapshot ext c st) = (case command_parent c st of None \<Rightarrow> None
     | Some p \<Rightarrow> map_of (st_operations st) (operation_key p (cm_operation_id c)))"
  by (simp add: commit_snapshot_def split: option.splits)

section \<open>Every commit is a journal step\<close>

lemma journal_row:
  assumes fin: "finish_plan ext ctx = Inr pl" and rows: "op_rows (cx_mutations ctx) = [x]"
    and row: "free_entry st (x\<lparr>op_receipt := cx_receipt ctx\<rparr>) \<or> kept_entry st (x\<lparr>op_receipt := cx_receipt ctx\<rparr>)"
  shows "journal_step st (apply_mutations (pl_mutations pl) st)"
  unfolding journal_step_def
  using row by (intro disjI2 exI [where x = "x\<lparr>op_receipt := cx_receipt ctx\<rparr>"]) (simp add: plan_journal [OF fin] rows)

lemma map_of_row: "map_of m k = Some v \<Longrightarrow> v \<in> snd ` set m"
  by (metis map_of_SomeD image_eqI snd_conv)

lemma old_operation_kept:
  assumes ok: "journal_ok st" and "old_operation (start_context c (commit_snapshot ext c st) task) prior"
    and same: "same_entry prior x"
  shows "kept_entry st (x\<lparr>op_receipt := rc\<rparr>)"
proof -
  have "prior \<in> snd ` set (st_operations st)"
    using assms(2)
    by (auto simp: old_operation_def critical_snapshot operation_snapshot run_operations_def map_of_row
        split: option.splits)
  then have "map_of (st_operations st) (op_key prior) = Some prior"
    using ok keyed_lookup by (fastforce simp: journal_ok_def)
  moreover have "op_key (x\<lparr>op_receipt := rc\<rparr>) = op_key prior" using same by (simp add: op_key_def same_entry_def)
  ultimately show ?thesis using same by (simp add: kept_entry_def)
qed

lemma update_journal_step:
  assumes ok: "store_ok ext st" "journal_ok st" and body: "\<not> is_admit (cm_body c)" "\<not> is_retire (cm_body c)"
    and dup: "duplicate ext c (commit_snapshot ext c st) = Inr None"
    and fresh: "\<not> stale_revision c (commit_snapshot ext c st)"
    and task: "next_task c (commit_snapshot ext c st) = Some task"
    and tr: "transition ext (cm_body c) (start_context c (commit_snapshot ext c st) task) = Inr ctx"
    and fin: "finish_plan ext ctx = Inr pl"
  shows "journal_step st (apply_mutations (pl_mutations pl) st)"
proof (rule update_commit [OF ok(1) body fresh task tr])
  let ?cur = "commit_snapshot ext c st"
  let ?start = "start_context c ?cur task"
  fix r0 t0 r1
  assume find: "find_run ?cur (cm_run_id c) = Some r0" and t0: "map_of (st_tasks st) (cm_task_id c) = Some t0"
    "task = t0\<lparr>tk_revision := tk_revision t0 + 1\<rparr>"
  have run: "cx_run ?start = Some (advanced r0)" by (simp add: find advanced_def)
  have id: "cm_run_id c = Some (rn_run_id r0)"
    using snapshot_find_run [OF _ find] ok(1) by (auto simp: store_ok_def)
  have parent: "command_parent c st = Some (tk_parent task)"
    using body t0 by (auto simp: command_parent_def is_admit_def split: command_body.splits)
  have "command_run_id c = Some (rn_run_id r0)"
    using body id by (auto simp: command_run_id_def is_admit_def split: command_body.splits)
  then have critical: "cu_critical_operations ?cur = filter (critical_kind \<circ> op_kind) (run_operations (rn_run_id r0) st)"
    by (simp add: critical_snapshot)
  have free: "free_entry st (x\<lparr>op_receipt := rc\<rparr>)" if new: "new_operation c ?start (advanced r0) x" for x rc
  proof -
    obtain k where k: "command_operation_kind (cm_body c) = Some k" "new_entry ?start (advanced r0) k x"
      "\<not> is_second_attempt (cm_body c)" "critical_kind k \<longrightarrow> (\<exists>at reason. cm_body c = Cancel at reason) \<or> fresh_kind k ?start"
      using new by (auto simp: new_operation_def)
    have key: "map_of (st_operations st) (op_key (x\<lparr>op_receipt := rc\<rparr>)) = None"
      using duplicate_none_free(1) [OF dup k(1,3)] k(2)
      by (simp add: operation_snapshot parent op_key_def new_entry_def)
    have "\<forall>y \<in> set (cu_critical_operations ?cur). op_kind y \<noteq> k" if "critical_kind k"
    proof (cases "\<exists>at reason. cm_body c = Cancel at reason")
      case True
      then have "k = Op_Cancel" using k(1) by auto
      then show ?thesis using duplicate_none_free(2) [OF dup k(1,3)] True by blast
    next
      case False
      then show ?thesis using k(4) that by (auto simp: fresh_kind_def)
    qed
    then have "sum_over (entry_count (rn_run_id r0) k) (st_operations st) = 0" if "critical_kind k"
      using that by (intro no_entries) (auto simp: critical)
    then show ?thesis using key k(2) by (simp add: free_entry_def new_entry_def advanced_def)
  qed
  have "writes_operation (new_operation c ?start (advanced r0)) (old_operation ?start) ?start ctx"
    by (rule transition_rows [OF tr body(1) run body(2)])
  then consider "op_rows (cx_mutations ctx) = []"
    | x where "op_rows (cx_mutations ctx) = [x]" "new_operation c ?start (advanced r0) x"
    | x prior where "op_rows (cx_mutations ctx) = [x]" "old_operation ?start prior" "same_entry prior x"
    by (auto simp: writes_operation_def)
  then show ?thesis
  proof cases
    case 1
    then show ?thesis by (simp add: journal_step_def plan_journal [OF fin])
  next
    case 2
    then show ?thesis using free by (intro journal_row [OF fin]) auto
  next
    case 3
    then show ?thesis using old_operation_kept [OF ok(2)] by (intro journal_row [OF fin]) auto
  qed
qed

lemma admit_parent:
  assumes "next_task c (commit_snapshot ext c st) = Some task" and "cm_body c = Admit a"
    and "check_continuation a c (commit_snapshot ext c st) = Inr ()"
  shows "tk_parent task = ad_parent a"
  using assms
  by (auto simp: next_task_def new_task_def check_continuation_def continuation_unsafe_def result_simps
      split: option.splits)

lemma admit_journal_step:
  assumes body: "cm_body c = Admit a" and dup: "duplicate ext c (commit_snapshot ext c st) = Inr None"
    and task: "next_task c (commit_snapshot ext c st) = Some task"
    and tr: "transition ext (cm_body c) (start_context c (commit_snapshot ext c st) task) = Inr ctx"
    and fin: "finish_plan ext ctx = Inr pl"
  shows "journal_step st (apply_mutations (pl_mutations pl) st)"
proof -
  let ?start = "start_context c (commit_snapshot ext c st) task"
  have "admit_run a ?start = Inr ctx" using tr body by simp
  then obtain ctx1 where check: "check_continuation a c (commit_snapshot ext c st) = Inr ()"
    and add: "add_operation Op_Admit (ad_created_at a) 1 None (admitted_context a ?start) = Inr ctx1"
    and ctx: "ctx = (if cu_ceiling (commit_snapshot ext c st) = None
          then push_mutation (Ceiling_Row (ad_policy_ceiling a)) ctx1 else ctx1)"
    by (rule admit_run_Inr) simp
  obtain x r where x: "cx_mutations ctx1 = [Operation_Row x]" "new_entry (admitted_context a ?start) r Op_Admit x"
    using add_operation_rows [OF add] by fastforce
  have rows: "op_rows (cx_mutations ctx) = [x]" by (simp add: ctx x(1))
  let ?x = "x\<lparr>op_receipt := cx_receipt ctx\<rparr>"
  have "op_key ?x = operation_key (ad_parent a) (cm_operation_id c)"
    using x(2) admit_parent [OF task body check] by (simp add: op_key_def new_entry_def)
  moreover have "map_of (st_operations st) (operation_key (ad_parent a) (cm_operation_id c)) = None"
    using duplicate_none_free(1) [OF dup, of Op_Admit] body
    by (simp add: operation_snapshot command_parent_def is_second_attempt_def)
  moreover have "\<not> critical_kind (op_kind ?x)" using x(2) by (simp add: new_entry_def)
  ultimately have "free_entry st ?x" unfolding free_entry_def by metis
  then show ?thesis by (intro journal_row [OF fin rows]) blast
qed

lemma plan_journal_step:
  assumes ok: "store_ok ext st" "journal_ok st"
    and plan: "plan_delegation_store_commit ext c (commit_snapshot ext c st) = Inr pl"
  shows "journal_step st (apply_mutations (pl_mutations pl) st)"
  using plan
proof (cases rule: plan_cases)
  case retry
  then show ?thesis by (simp add: journal_step_def)
next
  case (change task ctx)
  show ?thesis
  proof (cases "is_admit (cm_body c) \<or> is_retire (cm_body c)")
    case False
    then show ?thesis using update_journal_step [OF ok _ _ change(5-9)] by simp
  next
    case True
    then consider a where "cm_body c = Admit a" | reason at where "cm_body c = Retire_Recovery reason at"
      by (auto simp: is_admit_def is_retire_def split: command_body.splits)
    then show ?thesis
    proof cases
      case 1
      then show ?thesis using admit_journal_step [OF _ change(5,7-9)] by blast
    next
      case 2
      have "cx_mutations ctx = []" using retire_fields(2) [OF change(8) 2] by simp
      then show ?thesis by (simp add: journal_step_def plan_journal [OF change(9)])
    qed
  qed
qed

lemma op_journal_ok:
  assumes "store_ok ext st" and "journal_ok st" and "store_op ext st st'"
  shows "journal_ok st'"
  using assms(3)
proof cases
  case (committed c)
  show ?thesis
  proof (cases "fst (store_commit ext c st)")
    case (Inl e)
    then have "st' = st" using committed store_commit_failure by (metis prod.collapse)
    then show ?thesis using assms(2) by simp
  next
    case (Inr receipt)
    then show ?thesis using committed
      by (metis store_commit_plan prod.collapse plan_journal_step [OF assms(1,2)] journal_step_ok [OF _ assms(2)])
  qed
next
  case (acquired nonce)
  then have "st_operations st' = st_operations st"
    by (simp add: acquire_owner_def Let_def split: sum.splits)
  then show ?thesis using assms(2) by (simp add: journal_ok_def)
next
  case (released token)
  then have "st_operations st' = st_operations st" by (simp add: release_owner_def split: option.splits)
  then show ?thesis using assms(2) by (simp add: journal_ok_def)
qed

lemma reachable_journal_ok: "store_reachable ext st \<Longrightarrow> journal_ok st"
proof (induction rule: store_reachable.induct)
  case (created limits store_id fresh st)
  then show ?case
    by (auto simp: create_in_memory_delegation_store_def result_simps journal_ok_def keyed_def)
next
  case (later st st')
  then show ?case using op_journal_ok reachable_ok by blast
qed

section \<open>The snapshot of a commit is consistent\<close>

lemma count_kind:
  "int (length (filter (\<lambda>x. op_kind x = k) (run_operations run st))) = sum_over (entry_count run k) (st_operations st)"
proof -
  have "int (length (filter (\<lambda>x. op_kind x = k) (filter (\<lambda>x. op_run_id x = run) (map snd m)))) =
      sum_over (entry_count run k) m" for m :: "(string \<times> operation_record) list"
    by (induction m) (auto simp: entry_count_def)
  then show ?thesis by (simp add: run_operations_def)
qed

lemma critical_kind_once:
  assumes "journal_ok st" and "critical_kind k"
  shows "length (filter (\<lambda>x. op_kind x = k) (run_operations run st)) \<le> 1"
proof -
  have "sum_over (entry_count run k) (st_operations st) \<le> 1" using assms by (simp add: journal_ok_def)
  then show ?thesis using count_kind [of k run st] by linarith
qed

lemma critical_count:
  "length (filter (critical_kind \<circ> op_kind) xs) =
     length (filter (\<lambda>x. op_kind x = Op_Cancel) xs) + length (filter (\<lambda>x. op_kind x = Op_Interrupt) xs) +
     length (filter (\<lambda>x. op_kind x = Op_Session_Close) xs) + length (filter (\<lambda>x. op_kind x = Op_Binding_Cleanup) xs)"
  by (induction xs) (auto simp: critical_kind_def)

lemma critical_at_most_four:
  assumes "journal_ok st"
  shows "length (filter (critical_kind \<circ> op_kind) (run_operations run st)) \<le> 4"
proof -
  have "length (filter (\<lambda>x. op_kind x = k) (run_operations run st)) \<le> 1" if "critical_kind k" for k
    using critical_kind_once [OF assms that] .
  from this [of Op_Cancel] this [of Op_Interrupt] this [of Op_Session_Close] this [of Op_Binding_Cleanup]
  show ?thesis unfolding critical_count by (simp add: critical_kind_def)
qed

lemma snapshot_consistent:
  assumes ok: "store_ok ext st" and journal: "journal_ok st"
  shows "\<not> snapshot_inconsistent c (commit_snapshot ext c st)"
proof -
  let ?T = "map_of (st_tasks st) (cm_task_id c)"
  have "js_len (task_runs (cm_task_id c) st) \<le> lm_max_runs_per_task (st_limits st)"
  proof (cases ?T)
    case None
    then have "task_runs (cm_task_id c) st = []" by (rule absent_task_has_no_runs [OF ok])
    moreover have "0 \<le> lm_max_runs_per_task (st_limits st)"
      using ok by (simp add: store_ok_def limits_positive_def limit_members_def positive_safe_def)
    ultimately show ?thesis by simp
  next
    case (Some t)
    then show ?thesis using store_ok_counts(2) [OF ok Some] by (simp add: task_run_count_length)
  qed
  moreover have "js_len (cu_critical_operations (commit_snapshot ext c st)) \<le> 4"
    using critical_at_most_four [OF journal] by (simp add: critical_snapshot split: option.splits)
  moreover have "tk_task_id t = cm_task_id c" if "?T = Some t" for t
    using ok that keyed_key by (auto simp: store_ok_def)
  ultimately show ?thesis
    by (auto simp: snapshot_inconsistent_def task_runs_def list_ex_iff split: option.splits)
qed

section \<open>Properties\<close>

text \<open>
  C20. The consistency checks of the planner never fire on the volatile store: in every reachable
  state, for any command, the counters it reads are within the limits, the snapshot holds at most the
  configured number of runs and four critical operations, all of the commanded task, and a run has at
  most one operation of each critical kind.
\<close>

theorem snapshots_never_inconsistent:
  assumes "store_reachable ext st"
  shows "\<not> capacity_inconsistent (st_capacity st) (st_limits st) \<and>
    \<not> snapshot_inconsistent c (commit_snapshot ext c st) \<and>
    (\<forall>run k. critical_kind k \<longrightarrow> length (filter (\<lambda>x. op_kind x = k) (run_operations run st)) \<le> 1)"
proof -
  have ok: "store_ok ext st" "journal_ok st"
    using reachable_ok [OF assms] reachable_journal_ok [OF assms] by blast+
  show ?thesis
    using critical_kind_once [OF ok(2)] snapshot_consistent [OF ok] ok(1) by (simp add: store_ok_def)
qed

lemma snapshots_never_inconsistent_witness:
  "\<not> snapshot_inconsistent sample_settle (commit_snapshot sample_externals sample_settle sample_store)"
  using snapshots_never_inconsistent [OF sample_store_reachable] by blast

end
