(* ===== verification/Delegation_Retry.thy ===== *)
theory Delegation_Retry
  imports Delegation_Journal
begin

text \<open>
  Retries.  A caller that did not see the reply of a commit submits the same command again: the
  store answers with the receipt of the first commit, marked as a duplicate, and changes nothing.
\<close>

section \<open>When a commit is a retry\<close>

lemma duplicate_operation_flag: "duplicate_operation c prior = Inr (Some receipt) \<Longrightarrow> rc_duplicate receipt"
  by (cases "cm_body c")
    (auto simp: duplicate_operation_def duplicate_receipt_def result_simps split: option.splits if_splits)

lemma duplicate_effect_flag: "duplicate_effect ext c cur = Inr (Some receipt) \<Longrightarrow> rc_duplicate receipt"
  by (cases "cm_body c")
    (auto simp: duplicate_effect_def duplicate_settlement_def duplicate_observation_def
      duplicate_retirement_def result_simps split: option.splits if_splits)

lemma duplicate_delivery_flag:
  "duplicate_delivery ext slot n attempt c cur = Inr (Some receipt) \<Longrightarrow> rc_duplicate receipt"
  by (auto simp: duplicate_delivery_def result_simps Let_def split: option.splits if_splits)

lemma duplicate_flag: "duplicate ext c cur = Inr (Some receipt) \<Longrightarrow> rc_duplicate receipt"
  unfolding duplicate_def
  by (cases "cm_body c")
    (auto simp: result_simps dest: duplicate_operation_flag duplicate_effect_flag duplicate_delivery_flag
      split: option.splits)

lemma commit_prelude:
  assumes "store_commit ext c st = (Inr receipt, st')"
  shows "parse_delegation_store_command ext c = Inr c" and "\<not> owner_lost c (commit_snapshot ext c st)"
    and "\<exists>l. parse_delegation_limits (json_of_limits (st_limits st)) = Inr l"
proof -
  obtain pl where plan: "plan_delegation_store_commit ext c (commit_snapshot ext c st) = Inr pl"
    using store_commit_plan [OF assms] by blast
  then show parse: "parse_delegation_store_command ext c = Inr c"
    using parse_command_Inr [of ext c] by (auto simp: plan_delegation_store_commit_def result_simps)
  show "\<not> owner_lost c (commit_snapshot ext c st)"
    "\<exists>l. parse_delegation_limits (json_of_limits (st_limits st)) = Inr l"
    using plan parse by (auto simp: plan_delegation_store_commit_def result_simps)
qed

lemma retry_commit:
  assumes first: "store_commit ext c st = (Inr receipt, st')" and ok: "store_ok ext st'" "journal_ok st'"
    and dup: "duplicate ext c (commit_snapshot ext c st') = Inr (Some again)"
  shows "store_commit ext c st' = (Inr again, st')"
proof -
  have frame: "st_owner st' = st_owner st" "st_store_id st' = st_store_id st" "st_limits st' = st_limits st"
    using store_commit_frame [of ext c st] first by simp_all
  note pre = commit_prelude [OF first]
  have owner: "\<not> owner_lost c (commit_snapshot ext c st')" using pre(2)
    by (simp add: owner_lost_def frame split: option.splits)
  have consistent: "\<not> capacity_inconsistent (st_capacity st') (st_limits st')"
    "\<not> snapshot_inconsistent c (commit_snapshot ext c st')"
    using ok(1) snapshot_consistent [OF ok] by (simp_all add: store_ok_def)
  have "plan_delegation_store_commit ext c (commit_snapshot ext c st') = Inr \<lparr>pl_mutations = [], pl_receipt = again\<rparr>"
    using pre(1,3) owner consistent dup
    by (auto simp: plan_delegation_store_commit_def result_simps frame)
  then show ?thesis by (simp add: store_commit_def pre(1) result_simps)
qed

text \<open>A commit that was itself a retry.\<close>

lemma retry_again:
  assumes "store_commit ext c st = (Inr receipt, st')" and "store_ok ext st" and "journal_ok st"
    and "duplicate ext c (commit_snapshot ext c st) = Inr (Some receipt)" and "st' = st"
  shows "store_commit ext c st' = (Inr (receipt\<lparr>rc_duplicate := True\<rparr>), st')"
proof -
  have "receipt\<lparr>rc_duplicate := True\<rparr> = receipt" using duplicate_flag [OF assms(4)] by simp
  then show ?thesis using assms(1,5) by simp
qed

section \<open>Retries of journaled operations\<close>

lemma dispatch_first_row:
  assumes "dispatch_intent k at applied attempt ctx = Inr ctx'" and "attempt \<noteq> Some 2" and run: "cx_run ctx = Some r"
  shows "\<exists>x. op_rows (cx_mutations ctx') = op_rows (cx_mutations ctx) @ [x] \<and> new_entry ctx r k x"
  using assms(2) dispatch_old_row [OF assms(1) run] dispatch_new_row [OF assms(1) run]
  by (cases "find (\<lambda>x. op_kind x = k) (cu_critical_operations (cx_current ctx))") blast+

lemma request_intend_row:
  assumes "request_state Intend_Resolution request at ctx = Inr ctx'" and run: "cx_run ctx = Some r"
  shows "\<exists>x. op_rows (cx_mutations ctx') = op_rows (cx_mutations ctx) @ [x] \<and> new_entry ctx r Op_Request_Resolution x"
proof -
  obtain pending ctx1 where mid: "intend_resolution pending at r ctx = Inr ctx1" and rcpt: "phase_receipt ctx1 = Inr ctx'"
    using assms by (auto simp: request_state_def result_simps split: option.splits)
  obtain req ctx0 f where a: "add_operation Op_Request_Resolution at 1 req ctx = Inr ctx0" "set_run f ctx0 = Inr ctx1"
    using mid by (auto simp: intend_resolution_def result_simps)
  then show ?thesis
    using add_operation_rows [OF a(1) run] set_run_keeps [OF a(2)] phase_receipt_keeps [OF rcpt] by auto
qed

lemma duplicate_of_entry:
  assumes "command_operation_kind (cm_body c) = Some k" and "\<not> is_second_attempt (cm_body c)"
    and "cu_operation cur = Some x" and "op_kind x = k" and "op_input_digest x = cm_input_digest c"
    and "\<not> is_admit (cm_body c) \<longrightarrow> op_task_id x = cm_task_id c \<and> Some (op_run_id x) = cm_run_id c"
  shows "duplicate ext c cur = Inr (Some ((op_receipt x)\<lparr>rc_duplicate := True\<rparr>))"
proof -
  have "duplicate_operation c (cu_operation cur) = Inr (Some (duplicate_receipt x))"
    using assms by (cases "cm_body c") (auto simp: duplicate_operation_def operation_conflicts_def)
  then show ?thesis using assms(1)
    by (cases "cm_body c") (simp_all add: duplicate_def duplicate_receipt_def)
qed

lemma first_attempt_row:
  assumes tr: "transition ext (cm_body c) ctx = Inr ctx'" and kind: "command_operation_kind (cm_body c) = Some k"
    "\<not> is_second_attempt (cm_body c)" and body: "\<not> is_admit (cm_body c)" "\<not> is_retire (cm_body c)"
    and run: "cx_run ctx = Some r" and empty: "cx_mutations ctx = []"
  shows "\<exists>x. op_rows (cx_mutations ctx') = [x] \<and> new_entry ctx r k x"
proof (cases "cm_body c")
  case (Dispatch_Intent k' at target attempt)
  then have "dispatch_intent k at target attempt ctx = Inr ctx'" "attempt \<noteq> Some 2"
    using tr kind by (auto simp: is_second_attempt_def)
  from dispatch_first_row [OF this run] show ?thesis by (simp add: empty)
next
  case (Request_State change request at)
  then have "change = Intend_Resolution" "k = Op_Request_Resolution"
    "request_state change request at ctx = Inr ctx'" using tr kind(1) by (cases change; simp)+
  then show ?thesis using request_intend_row [OF _ run] by (simp add: empty)
next
  case (Cancel at reason)
  then have "cancel_run ext at ctx = Inr ctx'" "k = Op_Cancel" using tr kind(1) by simp_all
  then show ?thesis using cancel_run_rows [OF _ run] by (fastforce simp: empty)
qed (use kind body in \<open>auto simp: is_admit_def is_retire_def\<close>)

text \<open>The entry of a first commit, under the key at which a retry looks for it.\<close>

definition journaled_entry :: "externals \<Rightarrow> store_command \<Rightarrow> store_state \<Rightarrow> commit_plan \<Rightarrow> bool" where
  "journaled_entry ext c st pl \<longleftrightarrow>
     (\<exists>x. cu_operation (commit_snapshot ext c (apply_mutations (pl_mutations pl) st)) = Some x \<and>
        command_operation_kind (cm_body c) = Some (op_kind x) \<and> op_input_digest x = cm_input_digest c \<and>
        op_receipt x = pl_receipt pl \<and>
        (\<not> is_admit (cm_body c) \<longrightarrow> op_task_id x = cm_task_id c \<and> Some (op_run_id x) = cm_run_id c))"

lemma update_journaled:
  assumes ok: "store_ok ext st" and body: "\<not> is_admit (cm_body c)" "\<not> is_retire (cm_body c)"
    and kind: "command_operation_kind (cm_body c) = Some k" "\<not> is_second_attempt (cm_body c)"
    and fresh: "\<not> stale_revision c (commit_snapshot ext c st)"
    and task: "next_task c (commit_snapshot ext c st) = Some task"
    and tr: "transition ext (cm_body c) (start_context c (commit_snapshot ext c st) task) = Inr ctx"
    and fin: "finish_plan ext ctx = Inr pl"
  shows "journaled_entry ext c st pl"
proof (rule update_commit [OF ok body fresh task tr])
  let ?cur = "commit_snapshot ext c st" and ?st' = "apply_mutations (pl_mutations pl) st"
  let ?start = "start_context c ?cur task"
  fix r0 t0 r1
  assume find: "find_run ?cur (cm_run_id c) = Some r0" and t0: "map_of (st_tasks st) (cm_task_id c) = Some t0"
    "task = t0\<lparr>tk_revision := tk_revision t0 + 1\<rparr>"
  have run: "cx_run ?start = Some (advanced r0)" by (simp add: find advanced_def)
  have id: "cm_run_id c = Some (rn_run_id r0)" and task_id: "tk_task_id t0 = cm_task_id c"
    using snapshot_find_run [OF _ find] ok t0(1) keyed_key by (auto simp: store_ok_def)
  obtain x where x: "op_rows (cx_mutations ctx) = [x]" "new_entry ?start (advanced r0) k x"
    using first_attempt_row [OF tr kind body run] by auto
  let ?x = "x\<lparr>op_receipt := cx_receipt ctx\<rparr>"
  have ops: "st_operations ?st' = map_set (op_key ?x) ?x (st_operations st)"
    by (simp add: plan_journal [OF fin] x(1))
  obtain t1 where t1: "map_of (st_tasks ?st') (cm_task_id c) = Some t1" "tk_parent t1 = tk_parent t0"
    using ledger_step_later [OF update_commit_step [OF ok body fresh task tr fin] ok] t0(1)
    unfolding ledger_later_def task_later_def by blast
  have "command_parent c ?st' = Some (tk_parent t0)"
    using body t1 by (auto simp: command_parent_def is_admit_def split: command_body.splits)
  moreover have "op_key ?x = operation_key (tk_parent t0) (cm_operation_id c)"
    using x(2) by (simp add: op_key_def new_entry_def t0(2))
  ultimately have "cu_operation (commit_snapshot ext c ?st') = Some ?x"
    by (simp add: operation_snapshot ops)
  moreover have "pl_receipt pl = cx_receipt ctx" using finish_plan_Inr [OF fin] by simp
  ultimately show ?thesis
    using x(2) kind id task_id unfolding journaled_entry_def
    by (intro exI [where x = ?x]) (simp add: new_entry_def t0(2) advanced_def)
qed

lemma admit_journaled:
  assumes body: "cm_body c = Admit a" and task: "next_task c (commit_snapshot ext c st) = Some task"
    and tr: "transition ext (cm_body c) (start_context c (commit_snapshot ext c st) task) = Inr ctx"
    and fin: "finish_plan ext ctx = Inr pl"
  shows "journaled_entry ext c st pl"
proof -
  let ?start = "start_context c (commit_snapshot ext c st) task" and ?st' = "apply_mutations (pl_mutations pl) st"
  have "admit_run a ?start = Inr ctx" using tr body by simp
  then obtain ctx1 where check: "check_continuation a c (commit_snapshot ext c st) = Inr ()"
    and add: "add_operation Op_Admit (ad_created_at a) 1 None (admitted_context a ?start) = Inr ctx1"
    and ctx: "ctx = (if cu_ceiling (commit_snapshot ext c st) = None
          then push_mutation (Ceiling_Row (ad_policy_ceiling a)) ctx1 else ctx1)"
    by (rule admit_run_Inr) simp
  obtain x r where x: "cx_mutations ctx1 = [Operation_Row x]" "new_entry (admitted_context a ?start) r Op_Admit x"
    using add_operation_rows [OF add] by fastforce
  let ?x = "x\<lparr>op_receipt := cx_receipt ctx\<rparr>"
  have ops: "st_operations ?st' = map_set (op_key ?x) ?x (st_operations st)"
    by (simp add: plan_journal [OF fin] ctx x(1))
  have "op_key ?x = operation_key (ad_parent a) (cm_operation_id c)"
    using x(2) admit_parent [OF task body check] by (simp add: op_key_def new_entry_def)
  then have "cu_operation (commit_snapshot ext c ?st') = Some ?x"
    by (simp add: operation_snapshot ops command_parent_def body)
  moreover have "pl_receipt pl = cx_receipt ctx" using finish_plan_Inr [OF fin] by simp
  ultimately show ?thesis
    using x(2) body unfolding journaled_entry_def
    by (intro exI [where x = ?x]) (simp add: new_entry_def is_admit_def)
qed

lemma journaled_retry:
  assumes first: "store_commit ext c st = (Inr (pl_receipt pl), st')" and st': "st' = apply_mutations (pl_mutations pl) st"
    and ok: "store_ok ext st'" "journal_ok st'" and second: "\<not> is_second_attempt (cm_body c)"
    and entry: "journaled_entry ext c st pl"
  shows "store_commit ext c st' = (Inr ((pl_receipt pl)\<lparr>rc_duplicate := True\<rparr>), st')"
proof -
  obtain x where x: "cu_operation (commit_snapshot ext c st') = Some x"
    "command_operation_kind (cm_body c) = Some (op_kind x)" "op_input_digest x = cm_input_digest c"
    "op_receipt x = pl_receipt pl"
    "\<not> is_admit (cm_body c) \<longrightarrow> op_task_id x = cm_task_id c \<and> Some (op_run_id x) = cm_run_id c"
    using entry unfolding journaled_entry_def st' by blast
  show ?thesis
    using duplicate_of_entry [OF x(2) second x(1) refl x(3,5)] retry_commit [OF first ok] x(4) by metis
qed

section \<open>Retries of settlements\<close>

lemma find_unique:
  "x \<in> set xs \<Longrightarrow> P x \<Longrightarrow> (\<And>y. y \<in> set xs \<Longrightarrow> P y \<Longrightarrow> y = x) \<Longrightarrow> find P xs = Some x"
proof (induction xs)
  case (Cons a xs)
  show ?case
  proof (cases "P a")
    case True
    then show ?thesis using Cons.prems(3) [of a] by simp
  next
    case False
    then have "x \<in> set xs" using Cons.prems(1,2) by auto
    then show ?thesis using False Cons.IH [OF _ Cons.prems(2)] Cons.prems(3) by simp
  qed
qed simp

lemma find_run_of_row:
  assumes "keyed rn_run_id (st_runs st)" and "map_of (st_runs st) (rn_run_id r) = Some r"
    and "rn_task_id r = cm_task_id c"
  shows "find_run (commit_snapshot ext c st) (Some (rn_run_id r)) = Some r"
proof -
  have "r \<in> set (task_runs (cm_task_id c) st)"
    using map_of_row [OF assms(2)] assms(3) by (simp add: task_runs_def)
  moreover have "y = r" if "y \<in> set (task_runs (cm_task_id c) st)" "rn_run_id y = rn_run_id r" for y
  proof -
    have "y \<in> snd ` set (st_runs st)" using that(1) by (simp add: task_runs_def)
    then obtain k where "(k, y) \<in> set (st_runs st)" by auto
    then show ?thesis using keyed_lookup [OF assms(1)] that(2) assms(2) by fastforce
  qed
  ultimately show ?thesis by (auto simp: find_run_def intro: find_unique)
qed

text \<open>A settlement leaves a finalization on the run and a notification under the run's identity.\<close>

lemma settle_result:
  assumes tr: "transition ext (cm_body c) (start_context c (commit_snapshot ext c st) task) = Inr ctx"
    and body: "cm_body c = Settle out at" and run: "cx_run (start_context c (commit_snapshot ext c st) task) = Some r"
  shows "\<exists>r1 n. cx_run ctx = Some r1 \<and> nt_rows (cx_mutations ctx) = [n] \<and> op_rows (cx_mutations ctx) = [] \<and>
    rn_finalization r1 = Some \<lparr>fz_operation_id = cm_operation_id c, fz_input_digest = cm_input_digest c,
       fz_task_revision = tk_revision task, fz_run_revision = rn_revision r\<rparr> \<and>
    ev_notification_id (nt_envelope n) = delegation_subordinate_id ext (rn_run_id r) ''notification'' \<and>
    cx_receipt ctx = (cx_receipt (start_context c (commit_snapshot ext c st) task))\<lparr>rc_status := Status_Phase Settled,
         rc_notification_id := Some (ev_notification_id (nt_envelope n))\<rparr>"
proof -
  let ?start = "start_context c (commit_snapshot ext c st) task"
  have "settle_run ext out at ?start = Inr ctx" using tr body settle_Inr by simp
  then show ?thesis
  proof (rule settle_run_Inr)
    fix r' expires envelope ctx1
    assume r': "cx_run ?start = Some r'"
      and env: "envelope = settlement_envelope ext ?start r' (settled_outcome r' out) at expires"
      and set: "set_run (settlement_change ?start (settled_outcome r' out) at) ?start = Inr ctx1"
      and ctx: "ctx = push_mutation (Notification_Row (settlement_notification ?start envelope))
      (set_receipt (\<lambda>rc. rc\<lparr>rc_status := Status_Phase Settled,
         rc_notification_id := Some (ev_notification_id envelope)\<rparr>) ctx1)"
    have "r' = r" using r' run by (simp del: start_context_fields)
    then show ?thesis using set_run_keeps [OF set] r'
      by (auto simp: ctx push_mutation_def set_receipt_def settlement_change_def settlement_notification_def env
          settlement_envelope_def)
  qed
qed

lemma start_receipt:
  "cx_receipt (start_context c cur task) = \<lparr>rc_duplicate = False, rc_status = Status_Recorded,
     rc_task_id = tk_task_id task, rc_task_revision = tk_revision task,
     rc_run_id = map_option rn_run_id (cx_run (start_context c cur task)),
     rc_run_revision = map_option rn_revision (cx_run (start_context c cur task)),
     rc_operation_id = Some (cm_operation_id c), rc_notification_id = None\<rparr>"
  by (simp add: start_context_def Let_def)

text \<open>The run that the retry finds, and the journal it reads.\<close>

lemma settled_found:
  assumes ok: "store_ok ext st" and body: "\<not> is_admit (cm_body c)" "\<not> is_retire (cm_body c)"
    and fresh: "\<not> stale_revision c (commit_snapshot ext c st)"
    and task: "next_task c (commit_snapshot ext c st) = Some task"
    and tr: "transition ext (cm_body c) (start_context c (commit_snapshot ext c st) task) = Inr ctx"
    and fin: "finish_plan ext ctx = Inr pl"
    and find: "find_run (commit_snapshot ext c st) (cm_run_id c) = Some r0" and r1: "cx_run ctx = Some r1"
  shows "find_run (commit_snapshot ext c (apply_mutations (pl_mutations pl) st)) (cm_run_id c) = Some r1 \<and>
    rn_run_id r1 = rn_run_id r0"
proof (rule update_commit [OF ok body fresh task tr])
  let ?st' = "apply_mutations (pl_mutations pl) st"
  fix r0' t0 r1'
  assume find': "find_run (commit_snapshot ext c st) (cm_run_id c) = Some r0'" and r1': "cx_run ctx = Some r1'"
    and step: "run_step (advanced r0') r1'" and ms: "list_all bookkeeping_row (cx_mutations ctx)"
    and r0': "rn_task_id r0' = cm_task_id c"
  have same: "r0' = r0" "r1' = r1" using find find' r1 r1' by simp_all
  have ids: "rn_run_id r1 = rn_run_id r0" "rn_task_id r1 = cm_task_id c"
    using step r0' same by (auto simp: run_step_def run_identity_kept_def advanced_def)
  have "list_all bookkeeping_row (map (finalize_mutation (cx_receipt ctx)) (cx_mutations ctx))"
    using ms by (simp add: list_all_iff)
  note rows = apply_plan_rows(2) [OF this, of "cx_task (derive_task ctx)" "Some r1" "cx_capacity ctx" st]
  have runs: "st_runs ?st' = map_set (rn_run_id r1) r1 (st_runs st)"
    using finish_plan_Inr [OF fin] rows r1 by simp
  have "keyed rn_run_id (st_runs ?st')"
    unfolding runs using ok by (intro keyed_map_set) (simp_all add: store_ok_def)
  moreover have "map_of (st_runs ?st') (rn_run_id r1) = Some r1" by (simp add: runs)
  moreover have "cm_run_id c = Some (rn_run_id r1)"
    using snapshot_find_run [OF _ find] ok ids(1) by (auto simp: store_ok_def)
  ultimately show ?thesis using find_run_of_row [of ?st' r1 c ext] ids by simp
qed

lemma operation_unchanged:
  assumes ok: "store_ok ext st" and body: "\<not> is_admit (cm_body c)" "\<not> is_retire (cm_body c)"
    and fresh: "\<not> stale_revision c (commit_snapshot ext c st)"
    and task: "next_task c (commit_snapshot ext c st) = Some task"
    and tr: "transition ext (cm_body c) (start_context c (commit_snapshot ext c st) task) = Inr ctx"
    and fin: "finish_plan ext ctx = Inr pl" and none: "op_rows (cx_mutations ctx) = []"
  shows "cu_operation (commit_snapshot ext c (apply_mutations (pl_mutations pl) st)) =
    cu_operation (commit_snapshot ext c st)"
proof -
  let ?st' = "apply_mutations (pl_mutations pl) st"
  obtain t0 where t0: "map_of (st_tasks st) (cm_task_id c) = Some t0"
    by (rule update_commit [OF ok body fresh task tr])
  obtain t1 where "map_of (st_tasks ?st') (cm_task_id c) = Some t1" "tk_parent t1 = tk_parent t0"
    using ledger_step_later [OF update_commit_step [OF ok body fresh task tr fin] ok] t0
    unfolding ledger_later_def task_later_def by blast
  then have "command_parent c ?st' = command_parent c st"
    using body t0 by (auto simp: command_parent_def is_admit_def split: command_body.splits)
  moreover have "st_operations ?st' = st_operations st" by (simp add: plan_journal [OF fin] none)
  ultimately show ?thesis by (simp only: operation_snapshot)
qed

lemma settle_retry:
  assumes reach: "store_ok ext st" and first: "store_commit ext c st = (Inr (pl_receipt pl), st')"
    and st': "st' = apply_mutations (pl_mutations pl) st" and ok: "store_ok ext st'" "journal_ok st'"
    and body: "cm_body c = Settle out at" and dup: "duplicate ext c (commit_snapshot ext c st) = Inr None"
    and fresh: "\<not> stale_revision c (commit_snapshot ext c st)"
    and task: "next_task c (commit_snapshot ext c st) = Some task"
    and tr: "transition ext (cm_body c) (start_context c (commit_snapshot ext c st) task) = Inr ctx"
    and fin: "finish_plan ext ctx = Inr pl"
  shows "store_commit ext c st' = (Inr ((pl_receipt pl)\<lparr>rc_duplicate := True\<rparr>), st')"
proof -
  let ?cur = "commit_snapshot ext c st" and ?cur' = "commit_snapshot ext c st'"
  have kinds: "\<not> is_admit (cm_body c)" "\<not> is_retire (cm_body c)" by (simp_all add: body is_admit_def is_retire_def)
  obtain r0 t0 where find: "find_run ?cur (cm_run_id c) = Some r0" and r0: "map_of (st_runs st) (rn_run_id r0) = Some r0"
    and t0: "map_of (st_tasks st) (cm_task_id c) = Some t0" "task = t0\<lparr>tk_revision := tk_revision t0 + 1\<rparr>"
    by (rule update_commit [OF reach kinds fresh task tr])
  have id: "cm_run_id c = Some (rn_run_id r0)" and task_id: "tk_task_id t0 = cm_task_id c"
    using snapshot_find_run [OF _ find] reach t0(1) keyed_key by (auto simp: store_ok_def)
  have run: "cx_run (start_context c ?cur task) = Some (advanced r0)" by (simp add: find advanced_def)
  obtain r1 n where r1: "cx_run ctx = Some r1" and rows: "nt_rows (cx_mutations ctx) = [n]" "op_rows (cx_mutations ctx) = []"
    and fz: "rn_finalization r1 = Some \<lparr>fz_operation_id = cm_operation_id c, fz_input_digest = cm_input_digest c,
       fz_task_revision = tk_revision task, fz_run_revision = rn_revision r0 + 1\<rparr>"
    and n: "ev_notification_id (nt_envelope n) = delegation_subordinate_id ext (rn_run_id r0) ''notification''"
    and rc: "cx_receipt ctx = (cx_receipt (start_context c ?cur task))\<lparr>rc_status := Status_Phase Settled,
         rc_notification_id := Some (ev_notification_id (nt_envelope n))\<rparr>"
    using settle_result [OF tr body run] by (auto simp: advanced_def)
  have found: "find_run ?cur' (cm_run_id c) = Some r1" and id1: "rn_run_id r1 = rn_run_id r0"
    using settled_found [OF reach kinds fresh task tr fin find r1] by (simp_all add: st')
  have notification: "cu_notification ?cur' = Some n"
    using rows(1) n id finish_plan_Inr [OF fin]
    by (simp add: commit_snapshot_def command_notification_id_def command_run_id_def body st' apply_notifications
        finalized_nt_rows)
  have "cu_operation ?cur' = cu_operation ?cur"
    using operation_unchanged [OF reach kinds fresh task tr fin rows(2)] by (simp add: st')
  then have "duplicate_operation c (cu_operation ?cur') = Inr None"
    using dup body by (auto simp: duplicate_def result_simps split: option.splits)
  then have "duplicate ext c ?cur' = duplicate_settlement c ?cur' r1 \<lparr>fz_operation_id = cm_operation_id c,
      fz_input_digest = cm_input_digest c, fz_task_revision = tk_revision task, fz_run_revision = rn_revision r0 + 1\<rparr>"
    by (simp add: duplicate_def body result_simps duplicate_effect_def found fz)
  moreover have "pl_receipt pl = cx_receipt ctx" using finish_plan_Inr [OF fin] by simp
  ultimately have "duplicate ext c ?cur' = Inr (Some ((pl_receipt pl)\<lparr>rc_duplicate := True\<rparr>))"
    by (simp add: duplicate_settlement_def rc start_receipt find notification id1 t0(2) task_id advanced_def)
  then show ?thesis by (rule retry_commit [OF first ok])
qed

section \<open>Properties\<close>



text \<open>
  The retry of an operation receipt: after the receipt of a command was written over the entry
  \<open>prior\<close>, the same command is answered with its receipt, except where the entry did not retain
  what the command said: an empty message, or a missing message or request state where an earlier
  receipt had left one.  Those exact retries are refused as conflicts.
\<close>

theorem receipt_retry_answer:
  assumes "cm_body c = Operation_Receipt d at message rs" and "op_input_digest prior = cm_input_digest c"
    and "op_task_id prior = cm_task_id c" and "Some (op_run_id prior) = cm_run_id c"
  shows "duplicate_operation c (Some ((receipt_operation d at message rs prior ctx)\<lparr>op_receipt := rc\<rparr>)) =
    (if (rs = None \<and> op_request_state prior \<noteq> None) \<or> (message = None \<and> op_message prior \<noteq> None) \<or>
        (message = Some [] \<and> op_message prior \<noteq> Some [])
     then fail_delegation Operation_Conflict else Inr (Some (rc\<lparr>rc_duplicate := True\<rparr>)))"
  using assms
  by (auto simp: duplicate_operation_def operation_conflicts_def receipt_operation_def duplicate_receipt_def
      is_admit_def split: option.splits)

lemma receipt_retry_answer_witness:
  "\<forall>ctx. duplicate_operation (sample_command ''op-1'' 1 (Some ''run-1'') (Some 1) (Operation_Receipt Completed sample_at (Some []) None))
     (Some ((receipt_operation Completed sample_at (Some []) None sample_admit_operation ctx)\<lparr>op_receipt := sample_admit_receipt\<rparr>))
   = fail_delegation Operation_Conflict"
proof
  fix ctx
  let ?c = "sample_command ''op-1'' 1 (Some ''run-1'') (Some 1) (Operation_Receipt Completed sample_at (Some []) None)"
  have "cm_body ?c = Operation_Receipt Completed sample_at (Some []) None"
    "op_input_digest sample_admit_operation = cm_input_digest ?c" "op_task_id sample_admit_operation = cm_task_id ?c"
    "Some (op_run_id sample_admit_operation) = cm_run_id ?c"
    by (simp_all add: sample_command_def sample_admit_operation_def)
  from receipt_retry_answer [OF this, where ctx = ctx and rc = sample_admit_receipt]
  show "duplicate_operation ?c (Some ((receipt_operation Completed sample_at (Some []) None sample_admit_operation ctx)
      \<lparr>op_receipt := sample_admit_receipt\<rparr>)) = fail_delegation Operation_Conflict" by (simp add: sample_admit_operation_def)
qed

end
