(* ===== verification/Delegation_Notifications.thy ===== *)
theory Delegation_Notifications
  imports Delegation_Retry
begin

text \<open>
  Notifications.  The commit that settles a run, and no other, writes the notification of its
  outcome; afterwards a notification only moves along \<open>notification_step\<close>.
\<close>

section \<open>The notification rows of the transitions\<close>

text \<open>What is written for the run that a transition from \<open>ctx\<close> to \<open>ctx'\<close> settles.\<close>

definition settles :: "externals \<Rightarrow> commit_context \<Rightarrow> commit_context \<Rightarrow> notification_record \<Rightarrow> bool" where
  "settles ext ctx ctx' n \<longleftrightarrow> (\<exists>r r' at out. cx_run ctx = Some r \<and> rn_outcome r = None \<and> cx_run ctx' = Some r' \<and>
     rn_run_id r' = rn_run_id r \<and> rn_outcome r' = Some out \<and> rn_settled_at r' = Some at \<and>
     ev_outcome (nt_envelope n) = out \<and> ev_settled_at (nt_envelope n) = at \<and>
     ev_run_id (nt_envelope n) = rn_run_id r \<and> ev_task_id (nt_envelope n) = rn_task_id r \<and>
     ev_parent (nt_envelope n) = tk_parent (cx_task ctx) \<and>
     ev_policy (nt_envelope n) = tk_completion_policy (cx_task ctx) \<and>
     ev_notification_id (nt_envelope n) = delegation_subordinate_id ext (rn_run_id r) ''notification'' \<and>
     nt_revision n = 1 \<and> nt_attempts n = 0 \<and> nt_claim n = None \<and>
     nt_state n = (if tk_completion_policy (cx_task ctx) = Collect then Nt_Collectible else Nt_Pending))"

definition same_outcome :: "commit_context \<Rightarrow> commit_context \<Rightarrow> bool" where
  "same_outcome ctx ctx' \<longleftrightarrow> map_option rn_outcome (cx_run ctx') = map_option rn_outcome (cx_run ctx)"

definition writes_notification :: "externals \<Rightarrow> commit_context \<Rightarrow> commit_context \<Rightarrow> bool" where
  "writes_notification ext ctx ctx' \<longleftrightarrow>
     (nt_rows (cx_mutations ctx') = nt_rows (cx_mutations ctx) \<and> same_outcome ctx ctx') \<or>
     (\<exists>n. nt_rows (cx_mutations ctx') = nt_rows (cx_mutations ctx) @ [n] \<and>
        (settles ext ctx ctx' n \<or> same_outcome ctx ctx' \<and>
           (\<exists>prior. cu_notification (cx_current ctx) = Some prior \<and> notification_step prior n)))"

lemma same_outcome_trans: "same_outcome a b \<Longrightarrow> same_outcome b c \<Longrightarrow> same_outcome a c"
  by (simp add: same_outcome_def)

text \<open>The part of a transition that neither settles nor notifies.\<close>

definition quiet :: "commit_context \<Rightarrow> commit_context \<Rightarrow> bool" where
  "quiet ctx ctx' \<longleftrightarrow> nt_rows (cx_mutations ctx') = nt_rows (cx_mutations ctx) \<and> same_outcome ctx ctx' \<and>
     cx_task ctx' = cx_task ctx \<and> cx_current ctx' = cx_current ctx"

lemma quiet_refl [simp]: "quiet ctx ctx"
  by (simp add: quiet_def same_outcome_def)

lemma quiet_trans: "quiet a b \<Longrightarrow> quiet b c \<Longrightarrow> quiet a c"
  by (auto simp: quiet_def intro: same_outcome_trans)

lemma quiet_writes: "quiet ctx ctx' \<Longrightarrow> writes_notification ext ctx ctx'"
  by (simp add: quiet_def writes_notification_def)

lemma set_run_quiet:
  "set_run f ctx = Inr ctx' \<Longrightarrow> (\<And>r. rn_outcome (f r) = rn_outcome r) \<Longrightarrow> quiet ctx ctx'"
  by (auto dest!: set_run_keeps simp: quiet_def same_outcome_def)

lemma push_quiet: "nt_rows [m] = [] \<Longrightarrow> quiet ctx (push_mutation m ctx)"
  by (simp add: quiet_def same_outcome_def)

lemma set_receipt_quiet: "quiet ctx (set_receipt f ctx)"
  by (simp add: quiet_def same_outcome_def)

lemma phase_receipt_quiet: "phase_receipt ctx = Inr ctx' \<Longrightarrow> quiet ctx ctx'"
  by (auto simp: phase_receipt_def result_simps intro: set_receipt_quiet)

lemma count_ordinary_quiet:
  assumes "count_ordinary k ctx = Inr ctx'"
  shows "quiet ctx ctx'"
proof (cases "critical_kind k")
  case False
  then obtain n ctx1 where a: "set_run (\<lambda>r. r\<lparr>rn_ordinary_operation_count := n\<rparr>) ctx = Inr ctx1"
    and b: "ctx' = ctx1\<lparr>cx_capacity := (cx_capacity ctx1)\<lparr>cp_ordinary_operations :=
                      cp_ordinary_operations (cx_capacity ctx1) + 1\<rparr>\<rparr>"
    using assms by (auto simp: count_ordinary_def result_simps Let_def)
  have "quiet ctx ctx1" by (rule set_run_quiet [OF a]) simp
  then show ?thesis by (simp add: b quiet_def same_outcome_def)
qed (use assms in \<open>simp add: count_ordinary_def\<close>)

lemma add_operation_quiet:
  assumes "add_operation k at n req ctx = Inr ctx'"
  shows "quiet ctx ctx'"
proof -
  obtain ctx1 x where "count_ordinary k ctx = Inr ctx1" "ctx' = push_mutation (Operation_Row x) ctx1"
    using assms by (auto simp: add_operation_def result_simps Let_def)
  then show ?thesis using quiet_trans [OF count_ordinary_quiet push_quiet] by simp
qed

lemma dispatch_phase_quiet: "dispatch_phase k applied r ctx = Inr ctx' \<Longrightarrow> quiet ctx ctx'"
  by (auto simp: dispatch_phase_def result_simps intro: set_run_quiet split: if_splits option.splits)

lemma dispatch_intent_quiet:
  assumes "dispatch_intent k at applied attempt ctx = Inr ctx'"
  shows "quiet ctx ctx'"
proof -
  obtain r where run: "cx_run ctx = Some r" using assms by (auto simp: dispatch_intent_def result_simps)
  show ?thesis
  proof (cases "find (\<lambda>x. op_kind x = k) (cu_critical_operations (cx_current ctx))")
    case None
    then obtain ctx1 ctx2 where "dispatch_phase k applied r ctx = Inr ctx1"
      "add_operation k at 1 None ctx1 = Inr ctx2" "phase_receipt ctx2 = Inr ctx'"
      using assms run by (auto simp: dispatch_intent_def result_simps Let_def split: option.splits)
    then have "quiet ctx ctx1" "quiet ctx1 ctx2" "quiet ctx2 ctx'"
      by (simp_all add: dispatch_phase_quiet add_operation_quiet phase_receipt_quiet)
    then show ?thesis by (blast intro: quiet_trans)
  next
    case (Some prior)
    then show ?thesis using dispatch_old_row [OF assms run Some] by (auto intro: push_quiet)
  qed
qed

lemma deliver_request_quiet:
  assumes "deliver_request d rs prior ctx = Inr ctx'"
  shows "quiet ctx ctx'"
proof -
  obtain run request ctx1 where pending: "deliver_pending d rs request run ctx = Inr ctx1"
    and rcpt: "phase_receipt ctx1 = Inr ctx'"
    using assms by (auto simp: deliver_request_def result_simps split: option.splits)
  have "quiet ctx ctx1"
    using deliver_pending_cases [OF pending]
  proof (elim disjE exE)
    fix p assume "set_run (deliver_change d rs p) ctx = Inr ctx1"
    then show ?thesis by (rule set_run_quiet) (simp add: deliver_change_def Let_def)
  qed simp
  then show ?thesis using phase_receipt_quiet [OF rcpt] by (rule quiet_trans)
qed

lemma operation_receipt_quiet:
  assumes "operation_receipt d at message rs ctx = Inr ctx'"
  shows "quiet ctx ctx'"
proof -
  obtain prior x ctx1
    where mid: "(if op_kind prior = Op_Request_Resolution
        then deliver_request d rs prior (push_mutation (Operation_Row x) ctx)
        else Inr (push_mutation (Operation_Row x) ctx)) = Inr ctx1"
    and last: "(if receipt_needs_run d (op_kind prior)
        then set_run (receipt_effect d (op_kind prior)) ctx1 else Inr ctx1) = Inr ctx'"
    using assms by (auto simp: operation_receipt_def result_simps Let_def split: option.splits)
  have "quiet ctx (push_mutation (Operation_Row x) ctx)" by (rule push_quiet) simp
  then have one: "quiet ctx ctx1"
    using mid deliver_request_quiet quiet_trans by (fastforce split: if_splits)
  have "quiet ctx1 ctx'" if "set_run (receipt_effect d (op_kind prior)) ctx1 = Inr ctx'"
    by (rule set_run_quiet [OF that]) (simp add: receipt_effect_def Let_def)
  then have "quiet ctx1 ctx'" using last by (auto split: if_splits)
  with one show ?thesis by (rule quiet_trans)
qed

lemma close_request_quiet: "close_request change pending run ctx = Inr ctx' \<Longrightarrow> quiet ctx ctx'"
  by (auto simp: close_request_def result_simps set_pending_def elim!: set_run_quiet)

lemma intend_resolution_quiet:
  assumes "intend_resolution pending at run ctx = Inr ctx'"
  shows "quiet ctx ctx'"
proof -
  obtain req ctx0 where a: "add_operation Op_Request_Resolution at 1 req ctx = Inr ctx0"
    and b: "set_run (\<lambda>r. set_pending pending Resolution_Intended (r\<lparr>rn_phase := Running\<rparr>)) ctx0 = Inr ctx'"
    using assms by (auto simp: intend_resolution_def result_simps)
  have "quiet ctx0 ctx'" by (rule set_run_quiet [OF b]) (simp add: set_pending_def)
  then show ?thesis using add_operation_quiet [OF a] quiet_trans by blast
qed

lemma request_state_quiet:
  assumes "request_state change request at ctx = Inr ctx'"
  shows "quiet ctx ctx'"
proof -
  obtain run ctx1 where mid: "(if change = Opened then
          if rn_phase run \<noteq> Running \<or> hr_state request \<noteq> Request_Waiting
             \<or> rn_owner_epoch run \<noteq> command_epoch ctx
          then fail_delegation Request_Unavailable
          else set_run (\<lambda>r. r\<lparr>rn_phase := Waiting, rn_pending_request := Some request\<rparr>) ctx
        else case rn_pending_request run of
          None \<Rightarrow> fail_delegation Request_Unavailable
        | Some pending \<Rightarrow>
            if hr_request_id pending \<noteq> hr_request_id request
               \<or> hr_request_kind pending \<noteq> hr_request_kind request
            then fail_delegation Request_Unavailable
            else if change = Intend_Resolution then intend_resolution pending at run ctx
            else close_request change pending run ctx) = Inr ctx1"
    and rcpt: "phase_receipt ctx1 = Inr ctx'"
    using assms by (auto simp: request_state_def result_simps)
  have "quiet ctx ctx1" if "set_run (\<lambda>r. r\<lparr>rn_phase := Waiting, rn_pending_request := Some request\<rparr>) ctx = Inr ctx1"
    by (rule set_run_quiet [OF that]) simp
  then have "quiet ctx ctx1"
    using mid close_request_quiet intend_resolution_quiet
    by (auto simp: result_simps split: if_splits option.splits)
  then show ?thesis using phase_receipt_quiet [OF rcpt] by (rule quiet_trans)
qed

lemma observe_run_quiet:
  assumes "observe_run ext b ctx = Inr ctx'"
  shows "quiet ctx ctx'"
proof -
  obtain run where run: "cx_run ctx = Some run" using assms by (auto simp: observe_run_def result_simps)
  show ?thesis using observe_run_cases [OF assms run] run
    by (auto simp: quiet_def same_outcome_def push_mutation_def set_receipt_def split: if_splits)
qed

lemma settle_run_settles:
  assumes "settle_run ext out at ctx = Inr ctx'"
  shows "\<exists>n. nt_rows (cx_mutations ctx') = nt_rows (cx_mutations ctx) @ [n] \<and> settles ext ctx ctx' n"
proof (rule settle_run_Inr [OF assms])
  fix r expires envelope ctx1
  assume r: "cx_run ctx = Some r" "rn_outcome r = None"
    and env: "envelope = settlement_envelope ext ctx r (settled_outcome r out) at expires"
    and set: "set_run (settlement_change ctx (settled_outcome r out) at) ctx = Inr ctx1"
    and ctx': "ctx' = push_mutation (Notification_Row (settlement_notification ctx envelope))
      (set_receipt (\<lambda>rc. rc\<lparr>rc_status := Status_Phase Settled,
         rc_notification_id := Some (ev_notification_id envelope)\<rparr>) ctx1)"
  have "settles ext ctx ctx' (settlement_notification ctx envelope)"
    using set_run_keeps [OF set] r
    by (simp add: settles_def ctx' settlement_change_def settlement_notification_def env settlement_envelope_def)
  then show ?thesis using set_run_keeps [OF set] by (auto simp: ctx')
qed

lemma cancel_run_writes:
  assumes "cancel_run ext at ctx = Inr ctx'"
  shows "writes_notification ext ctx ctx'"
proof -
  obtain run where run: "cx_run ctx = Some run" using assms by (auto simp: cancel_run_def result_simps)
  show ?thesis
  proof (cases "rn_phase run = Settled")
    case True
    then have "add_operation Op_Cancel at 1 None (set_receipt (\<lambda>rc. rc\<lparr>rc_status := Status_Phase Settled\<rparr>) ctx) = Inr ctx'"
      using assms by (simp add: cancel_run_def require_run_Some [OF run])
    from quiet_trans [OF set_receipt_quiet add_operation_quiet [OF this]] show ?thesis by (rule quiet_writes)
  next
    case False
    then obtain ctx1 ctx2 where a: "set_run (\<lambda>r. r\<lparr>rn_cancel_requested := True\<rparr>) ctx = Inr ctx1"
      and b: "(if undispatched run then settle_run ext (Canceled Not_Dispatched) at ctx1 else Inr ctx1) = Inr ctx2"
      and c: "add_operation Op_Cancel at 1 None ctx2 = Inr ctx'"
      using assms run by (auto simp: cancel_run_def result_simps)
    have before: "quiet ctx ctx1" by (rule set_run_quiet [OF a]) simp
    have after: "quiet ctx2 ctx'" by (rule add_operation_quiet [OF c])
    show ?thesis
    proof (cases "undispatched run")
      case False
      then show ?thesis using before after b by (auto intro: quiet_writes quiet_trans)
    next
      case True
      then obtain n where n: "nt_rows (cx_mutations ctx2) = nt_rows (cx_mutations ctx1) @ [n]" "settles ext ctx1 ctx2 n"
        using b settle_run_settles [of ext "Canceled Not_Dispatched" at ctx1 ctx2] by auto
      obtain r2 where "cx_run ctx2 = Some r2" using n(2) by (auto simp: settles_def)
      then have "cx_run ctx' = Some (counted_run Op_Cancel r2)" by (rule add_operation_run [OF c])
      then have "settles ext ctx ctx' n"
        using n(2) set_run_keeps [OF a] \<open>cx_run ctx2 = Some r2\<close>
        by (auto simp: settles_def counted_run_def)
      then show ?thesis using n(1) before after by (simp add: writes_notification_def quiet_def)
    qed
  qed
qed

lemma delivery_writes:
  assumes "delivery ext nid revision attempt result at ctx = Inr ctx'"
  shows "writes_notification ext ctx ctx'"
proof (rule delivery_cases [OF assms])
  fix prior ctx1 n
  assume prior: "cu_notification (cx_current ctx) = Some prior"
    and ctx1: "ctx1 = set_receipt (\<lambda>rc. rc\<lparr>rc_notification_id := Some nid\<rparr>) ctx"
    and n: "(case result of
        None \<Rightarrow> claim_delivery attempt at ctx1 prior (retained_delivery ext Claim_Slot attempt ctx1 prior)
      | Some r \<Rightarrow> receive_delivery attempt r at ctx1 prior (retained_delivery ext Receipt_Slot attempt ctx1 prior)) = Inr n"
    and ctx': "ctx' = push_mutation (Notification_Row n) ctx1"
  have "notification_step prior n"
    using n by (cases result) (auto intro: claim_delivery_step receive_delivery_step)
  then show ?thesis using prior by (auto simp: writes_notification_def same_outcome_def ctx' ctx1)
qed

lemma settle_writes: "settle ext out at ctx = Inr ctx' \<Longrightarrow> writes_notification ext ctx ctx'"
  using settle_run_settles settle_Inr unfolding writes_notification_def by blast

lemma transition_writes:
  assumes "transition ext body ctx = Inr ctx'" and "\<not> is_admit body" and "\<not> is_retire body"
  shows "writes_notification ext ctx ctx'"
  using assms
  by (cases body)
    (simp_all add: is_admit_def is_retire_def settle_writes cancel_run_writes delivery_writes quiet_writes
      dispatch_intent_quiet operation_receipt_quiet observe_run_quiet request_state_quiet)

section \<open>The notification rows of a commit\<close>

lemma plan_notifications:
  assumes fin: "finish_plan ext ctx = Inr pl"
  shows "st_notifications (apply_mutations (pl_mutations pl) st) =
    fold (\<lambda>n. map_set (ev_notification_id (nt_envelope n)) n) (nt_rows (cx_mutations ctx)) (st_notifications st)"
  using finish_plan_Inr [OF fin] by (simp add: apply_notifications finalized_nt_rows)

lemma admit_no_notifications:
  assumes "admit_run a ctx = Inr ctx'"
  shows "nt_rows (cx_mutations ctx') = nt_rows (cx_mutations ctx)"
proof -
  obtain ctx1 where "add_operation Op_Admit (ad_created_at a) 1 None (admitted_context a ctx) = Inr ctx1"
    and "ctx' = (if cu_ceiling (cx_current ctx) = None
          then push_mutation (Ceiling_Row (ad_policy_ceiling a)) ctx1 else ctx1)"
    by (rule admit_run_Inr [OF assms])
  then show ?thesis using add_operation_quiet [of Op_Admit "ad_created_at a" 1 None "admitted_context a ctx" ctx1]
    by (simp add: quiet_def)
qed

text \<open>Every notification of the next state was there before, followed an allowed step, or is that
  of a run the commit settled.\<close>

definition notified :: "externals \<Rightarrow> store_state \<Rightarrow> store_state \<Rightarrow> string \<Rightarrow> notification_record \<Rightarrow> bool" where
  "notified ext st st' k n \<longleftrightarrow>
     (\<exists>r r'. map_of (st_runs st) (ev_run_id (nt_envelope n)) = Some r \<and> rn_outcome r = None \<and>
        map_of (st_runs st') (ev_run_id (nt_envelope n)) = Some r' \<and>
        rn_outcome r' = Some (ev_outcome (nt_envelope n)) \<and> rn_settled_at r' = Some (ev_settled_at (nt_envelope n)) \<and>
        ev_task_id (nt_envelope n) = rn_task_id r \<and> nt_revision n = 1 \<and> nt_attempts n = 0 \<and>
        nt_state n = (if ev_policy (nt_envelope n) = Collect then Nt_Collectible else Nt_Pending) \<and>
        k = delegation_subordinate_id ext (rn_run_id r) ''notification'')"

lemma update_notifications:
  assumes ok: "store_ok ext st" and body: "\<not> is_admit (cm_body c)" "\<not> is_retire (cm_body c)"
    and fresh: "\<not> stale_revision c (commit_snapshot ext c st)"
    and task: "next_task c (commit_snapshot ext c st) = Some task"
    and tr: "transition ext (cm_body c) (start_context c (commit_snapshot ext c st) task) = Inr ctx"
    and fin: "finish_plan ext ctx = Inr pl"
    and st': "st' = apply_mutations (pl_mutations pl) st"
  obtains r0 r1 where "map_of (st_runs st) (rn_run_id r0) = Some r0"
    and "st_runs st' = map_set (rn_run_id r0) r1 (st_runs st)" and "rn_run_id r1 = rn_run_id r0"
    and "(st_notifications st' = st_notifications st \<and> rn_outcome r1 = rn_outcome r0) \<or>
      (\<exists>n. st_notifications st' = map_set (ev_notification_id (nt_envelope n)) n (st_notifications st) \<and>
         (notified ext st st' (ev_notification_id (nt_envelope n)) n \<and> ev_run_id (nt_envelope n) = rn_run_id r0 \<or>
          rn_outcome r1 = rn_outcome r0 \<and>
          (\<exists>prior. cu_notification (commit_snapshot ext c st) = Some prior \<and> notification_step prior n)))"
proof (rule update_commit [OF ok body fresh task tr])
  let ?start = "start_context c (commit_snapshot ext c st) task"
  fix r0 t0 r1
  assume find: "find_run (commit_snapshot ext c st) (cm_run_id c) = Some r0"
    and r0: "map_of (st_runs st) (rn_run_id r0) = Some r0" and r1: "cx_run ctx = Some r1"
    and step: "run_step (advanced r0) r1" and ms: "list_all bookkeeping_row (cx_mutations ctx)"
  have start: "cx_run ?start = Some (advanced r0)" by (simp add: find advanced_def)
  have id: "rn_run_id r1 = rn_run_id r0" using step by (simp add: run_step_def run_identity_kept_def advanced_def)
  have "list_all bookkeeping_row (map (finalize_mutation (cx_receipt ctx)) (cx_mutations ctx))"
    using ms by (simp add: list_all_iff)
  then have runs: "st_runs st' = map_set (rn_run_id r0) r1 (st_runs st)"
    using apply_plan_rows(2) [of "map (finalize_mutation (cx_receipt ctx)) (cx_mutations ctx)"
        "cx_task (derive_task ctx)" "Some r1" "cx_capacity ctx" st] finish_plan_Inr [OF fin] r1
    by (simp add: st' id)
  note nts = plan_notifications [OF fin, of st, folded st']
  have settled: "notified ext st st' (ev_notification_id (nt_envelope n)) n \<and> ev_run_id (nt_envelope n) = rn_run_id r0"
    if "settles ext ?start ctx n" for n
    using that start r1 r0 by (auto simp: settles_def notified_def runs advanced_def simp del: start_context_fields)
  have same: "rn_outcome r1 = rn_outcome r0" if "same_outcome ?start ctx"
    using that start r1 by (simp add: same_outcome_def advanced_def del: start_context_fields)
  have "writes_notification ext ?start ctx" by (rule transition_writes [OF tr body])
  then show thesis
    using settled same nts by (intro that [OF r0 runs id]) (auto simp: writes_notification_def)
qed

section \<open>The table of notifications\<close>

abbreviation nt_key :: "notification_record \<Rightarrow> string" where
  "nt_key n \<equiv> ev_notification_id (nt_envelope n)"

lemma fold_keyed: "keyed key m \<Longrightarrow> keyed key (fold (\<lambda>n. map_set (key n) n) ns m)"
  by (induction ns arbitrary: m) (auto intro: keyed_map_set)

lemma op_notifications_keyed:
  assumes "keyed nt_key (st_notifications st)" and "store_op ext st st'"
  shows "keyed nt_key (st_notifications st')"
  using assms(2)
proof cases
  case (committed c)
  have "keyed nt_key (st_notifications (apply_mutations ms st))" for ms
    unfolding apply_notifications by (rule fold_keyed [OF assms(1)])
  then show ?thesis using committed assms(1) by (simp add: store_commit_def split: sum.splits)
next
  case (acquired nonce)
  then show ?thesis using assms(1) by (simp add: acquire_owner_def Let_def split: sum.splits)
next
  case (released token)
  then show ?thesis using assms(1) by (simp add: release_owner_def split: option.splits)
qed

lemma reachable_notifications_keyed: "store_reachable ext st \<Longrightarrow> keyed nt_key (st_notifications st)"
proof (induction rule: store_reachable.induct)
  case (created limits store_id fresh st)
  then show ?case by (auto simp: create_in_memory_delegation_store_def result_simps keyed_def)
next
  case (later st st')
  then show ?case using op_notifications_keyed by blast
qed

lemma notification_found:
  assumes "keyed nt_key (st_notifications st)" and "cu_notification (commit_snapshot ext c st) = Some n"
  shows "map_of (st_notifications st) (nt_key n) = Some n"
  using assms keyed_key by (fastforce simp: commit_snapshot_def bind_eq_Some_conv)

lemma notification_step_envelope: "notification_step n n' \<Longrightarrow> nt_envelope n' = nt_envelope n"
  by (auto elim: notification_stepE)

text \<open>A commit that is neither an admission nor a retirement, in terms of the two tables.\<close>

definition notification_effect :: "externals \<Rightarrow> store_state \<Rightarrow> store_state \<Rightarrow> bool" where
  "notification_effect ext st st' \<longleftrightarrow>
     (\<forall>k n'. map_of (st_notifications st') k = Some n' \<longrightarrow> map_of (st_notifications st) k = Some n' \<or>
        (\<exists>n. map_of (st_notifications st) k = Some n \<and> notification_step n n') \<or> notified ext st st' k n') \<and>
     (\<forall>k r r' out. map_of (st_runs st) k = Some r \<and> map_of (st_runs st') k = Some r' \<and> rn_outcome r = None \<and>
        rn_outcome r' = Some out \<longrightarrow>
        (\<exists>n. map_of (st_notifications st') (delegation_subordinate_id ext k ''notification'') = Some n \<and>
           notified ext st st' (delegation_subordinate_id ext k ''notification'') n \<and> ev_run_id (nt_envelope n) = k))"

lemma unnotified_effect:
  assumes "st_notifications st' = st_notifications st"
    and "\<And>k r r'. map_of (st_runs st) k = Some r \<Longrightarrow> map_of (st_runs st') k = Some r' \<Longrightarrow> rn_outcome r' = rn_outcome r"
  shows "notification_effect ext st st'"
  using assms unfolding notification_effect_def by fastforce

lemma update_effect:
  assumes ok: "store_ok ext st" and keys: "keyed nt_key (st_notifications st)"
    and body: "\<not> is_admit (cm_body c)" "\<not> is_retire (cm_body c)"
    and fresh: "\<not> stale_revision c (commit_snapshot ext c st)"
    and task: "next_task c (commit_snapshot ext c st) = Some task"
    and tr: "transition ext (cm_body c) (start_context c (commit_snapshot ext c st) task) = Inr ctx"
    and fin: "finish_plan ext ctx = Inr pl"
    and st': "st' = apply_mutations (pl_mutations pl) st"
  shows "notification_effect ext st st'"
proof (rule update_notifications [OF ok body fresh task tr fin st'])
  fix r0 r1
  assume r0: "map_of (st_runs st) (rn_run_id r0) = Some r0"
    and runs: "st_runs st' = map_set (rn_run_id r0) r1 (st_runs st)" and id: "rn_run_id r1 = rn_run_id r0"
    and cases: "(st_notifications st' = st_notifications st \<and> rn_outcome r1 = rn_outcome r0) \<or>
      (\<exists>n. st_notifications st' = map_set (nt_key n) n (st_notifications st) \<and>
         (notified ext st st' (nt_key n) n \<and> ev_run_id (nt_envelope n) = rn_run_id r0 \<or>
          rn_outcome r1 = rn_outcome r0 \<and>
          (\<exists>prior. cu_notification (commit_snapshot ext c st) = Some prior \<and> notification_step prior n)))"
  have same: "rn_outcome r' = rn_outcome r" if "map_of (st_runs st) k = Some r" "map_of (st_runs st') k = Some r'"
    and "rn_outcome r1 = rn_outcome r0 \<or> k \<noteq> rn_run_id r0" for k r r'
    using that r0 by (auto simp: runs split: if_splits)
  from cases consider
      (none) "st_notifications st' = st_notifications st" "rn_outcome r1 = rn_outcome r0"
    | (new) n where "st_notifications st' = map_set (nt_key n) n (st_notifications st)"
        "notified ext st st' (nt_key n) n" "ev_run_id (nt_envelope n) = rn_run_id r0"
    | (step) n prior where "st_notifications st' = map_set (nt_key n) n (st_notifications st)"
        "rn_outcome r1 = rn_outcome r0" "cu_notification (commit_snapshot ext c st) = Some prior" "notification_step prior n"
    by blast
  then show ?thesis
  proof cases
    case none
    then show ?thesis using same by (blast intro: unnotified_effect)
  next
    case new
    have key: "nt_key n = delegation_subordinate_id ext (rn_run_id r0) ''notification''"
      using new(2,3) r0 by (auto simp: notified_def)
    show ?thesis unfolding notification_effect_def
    proof (intro conjI allI impI, goal_cases)
      case (1 k n')
      then show ?case using new(1,2) by (cases "k = nt_key n") auto
    next
      case (2 k r r' out)
      then have "k = rn_run_id r0" using same [of k r r'] by force
      then show ?case using new key by (intro exI [where x = n]) simp
    qed
  next
    case step
    have prior: "map_of (st_notifications st) (nt_key n) = Some prior"
      using notification_found [OF keys step(3)] notification_step_envelope [OF step(4)] by simp
    show ?thesis unfolding notification_effect_def
    proof (intro conjI allI impI, goal_cases)
      case (1 k n')
      then show ?case using step(1,4) prior by (cases "k = nt_key n") auto
    next
      case (2 k r r' out)
      then show ?case using same [of k r r'] step(2) by force
    qed
  qed
qed

lemma admit_effect:
  assumes body: "cm_body c = Admit a" and task: "next_task c (commit_snapshot ext c st) = Some task"
    and tr: "transition ext (cm_body c) (start_context c (commit_snapshot ext c st) task) = Inr ctx"
    and fin: "finish_plan ext ctx = Inr pl"
  shows "notification_effect ext st (apply_mutations (pl_mutations pl) st)"
proof (rule admit_commit [OF body task tr fin])
  let ?st' = "apply_mutations (pl_mutations pl) st"
  fix r1
  assume runs: "st_runs ?st' = map_set (ad_run_id a) r1 (st_runs st)"
    and "\<not> admission_run_retained a (commit_snapshot ext c st)"
  then have fresh: "map_of (st_runs st) (ad_run_id a) = None"
    using body by (simp add: admission_run_retained_def commit_snapshot_def has_key_def)
  have "nt_rows (cx_mutations ctx) = []"
    using tr body admit_no_notifications [of a "start_context c (commit_snapshot ext c st) task" ctx] by simp
  then have "st_notifications ?st' = st_notifications st" by (simp add: plan_notifications [OF fin])
  then show ?thesis
    by (rule unnotified_effect) (use fresh in \<open>auto simp: runs split: if_splits\<close>)
qed

lemma retire_effect:
  assumes ok: "store_ok ext st" and body: "cm_body c = Retire_Recovery reason at"
    and tr: "transition ext (cm_body c) (start_context c (commit_snapshot ext c st) task) = Inr ctx"
    and fin: "finish_plan ext ctx = Inr pl"
  shows "notification_effect ext st (apply_mutations (pl_mutations pl) st)"
proof -
  let ?st' = "apply_mutations (pl_mutations pl) st" and ?t1 = "cx_task (derive_task ctx)"
  note ctx = retire_fields [OF tr body, simplified]
  have rows: "pl_mutations pl = [] @ [Task_Row ?t1] @ run_rows (cx_run ctx) @ [Capacity_Row (st_capacity st)]"
    using finish_plan_Inr [OF fin] ctx(1-3) by simp
  note runs = apply_plan_rows(2) [of "[]" ?t1 "cx_run ctx" "st_capacity st" st, folded rows, simplified]
  have "rn_outcome r' = rn_outcome r"
    if r: "map_of (st_runs st) k = Some r" and r': "map_of (st_runs ?st') k = Some r'" for k r r'
  proof (cases "find_run (commit_snapshot ext c st) (cm_run_id c)")
    case None
    then show ?thesis using r r' runs ctx(1) by simp
  next
    case (Some r0)
    then have "map_of (st_runs st) (rn_run_id r0) = Some r0"
      using snapshot_find_run [OF _ Some] ok by (simp add: store_ok_def)
    then show ?thesis using r r' runs ctx(1) Some by (auto split: if_splits)
  qed
  moreover have "st_notifications ?st' = st_notifications st" by (simp add: plan_notifications [OF fin] ctx(2))
  ultimately show ?thesis by (blast intro: unnotified_effect)
qed

lemma commit_effect:
  assumes ok: "store_ok ext st" and keys: "keyed nt_key (st_notifications st)"
    and commit: "store_commit ext c st = (Inr receipt, st')"
  shows "notification_effect ext st st'"
proof (rule store_commit_plan [OF commit])
  fix pl assume plan: "plan_delegation_store_commit ext c (commit_snapshot ext c st) = Inr pl"
    and st': "st' = apply_mutations (pl_mutations pl) st"
  from plan show ?thesis
  proof (cases rule: plan_cases)
    case retry
    then have "st' = st" by (simp add: st')
    then show ?thesis by (intro unnotified_effect) simp_all
  next
    case (change task ctx)
    consider a where "cm_body c = Admit a" | reason at where "cm_body c = Retire_Recovery reason at"
      | "\<not> is_admit (cm_body c)" "\<not> is_retire (cm_body c)"
      by (cases "cm_body c") (auto simp: is_admit_def is_retire_def)
    then show ?thesis unfolding st'
      by cases
        (use admit_effect [OF _ change(7-9)] retire_effect [OF ok _ change(8,9)]
          update_effect [OF ok keys _ _ change(6-9) refl] in blast)+
  qed
qed

section \<open>Retries of deliveries\<close>

definition delivery_body :: "command_body \<Rightarrow> (delivery_slot \<times> string \<times> string) option" where
  "delivery_body b = (case b of Delivery_Claim n revision attempt at \<Rightarrow> Some (Claim_Slot, n, attempt)
     | Delivery_Receipt n revision attempt result at \<Rightarrow> Some (Receipt_Slot, n, attempt) | _ \<Rightarrow> None)"

lemma duplicate_delivery_body:
  "delivery_body (cm_body c) = Some (slot, n, attempt) \<Longrightarrow>
     duplicate ext c cur = duplicate_delivery ext slot n attempt c cur"
  by (auto simp: delivery_body_def duplicate_def split: command_body.splits)

lemma delivery_keeps_slots:
  "claim_delivery attempt at ctx prior retained = Inr n \<Longrightarrow> nt_delivery n = nt_delivery retained"
  "receive_delivery attempt r at ctx prior retained = Inr n \<Longrightarrow> nt_delivery n = nt_delivery retained"
  by (auto simp: claim_delivery_def result_simps split: if_splits)
    (cases r; auto simp: receive_delivery_def result_simps)

lemma delivery_retained:
  assumes "transition ext (cm_body c) ctx = Inr ctx'" and "delivery_body (cm_body c) = Some (slot, nid, attempt)"
  shows "\<exists>prior n d. cu_notification (cx_current ctx) = Some prior \<and> nt_rows (cx_mutations ctx') = nt_rows (cx_mutations ctx) @ [n] \<and>
    nt_envelope n = nt_envelope prior \<and> slot_commit slot (nt_delivery n) = Some d \<and>
    slot_commit (other_slot slot) (nt_delivery n) = slot_commit (other_slot slot) (nt_delivery prior) \<and>
    dc_operation_id d = cm_operation_id (cx_command ctx) \<and> dc_owner_epoch d = ot_epoch (cm_owner (cx_command ctx)) \<and>
    dc_attempt_id d = attempt \<and> dc_input_digest d = cm_input_digest (cx_command ctx) \<and>
    dc_command_digest d = command_digest ext (cx_command ctx) \<and> dc_receipt d = cx_receipt ctx'"
proof -
  obtain revision at result where del: "delivery ext nid revision attempt result at ctx = Inr ctx'"
    and slot: "slot = (if result = None then Claim_Slot else Receipt_Slot)"
    using assms by (cases "cm_body c") (auto simp: delivery_body_def)
  show ?thesis
  proof (rule delivery_cases [OF del])
    fix prior ctx1 n
    assume prior: "cu_notification (cx_current ctx) = Some prior"
      and ctx1: "ctx1 = set_receipt (\<lambda>rc. rc\<lparr>rc_notification_id := Some nid\<rparr>) ctx"
      and n: "(case result of
        None \<Rightarrow> claim_delivery attempt at ctx1 prior (retained_delivery ext Claim_Slot attempt ctx1 prior)
      | Some r \<Rightarrow> receive_delivery attempt r at ctx1 prior (retained_delivery ext Receipt_Slot attempt ctx1 prior)) = Inr n"
      and ctx': "ctx' = push_mutation (Notification_Row n) ctx1"
    have "notification_step prior n" using n by (cases result) (auto intro: claim_delivery_step receive_delivery_step)
    moreover have "nt_delivery n = nt_delivery (retained_delivery ext slot attempt ctx1 prior)"
      using n by (cases result) (auto simp: slot delivery_keeps_slots)
    ultimately show ?thesis using prior
      by (simp add: ctx' ctx1 retained_delivery_def command_epoch_def notification_step_envelope)
  qed
qed

lemma delivery_retry:
  assumes ok: "store_ok ext st" and keys: "keyed nt_key (st_notifications st)"
    and first: "store_commit ext c st = (Inr (pl_receipt pl), st')"
    and st': "st' = apply_mutations (pl_mutations pl) st" and ok': "store_ok ext st'" "journal_ok st'"
    and body: "delivery_body (cm_body c) = Some (slot, nid, attempt)"
    and dup: "duplicate ext c (commit_snapshot ext c st) = Inr None"
    and task: "next_task c (commit_snapshot ext c st) = Some task"
    and tr: "transition ext (cm_body c) (start_context c (commit_snapshot ext c st) task) = Inr ctx"
    and fin: "finish_plan ext ctx = Inr pl"
  shows "store_commit ext c st' = (Inr ((pl_receipt pl)\<lparr>rc_duplicate := True\<rparr>), st')"
proof -
  obtain prior n d where prior: "cu_notification (commit_snapshot ext c st) = Some prior"
    and rows: "nt_rows (cx_mutations ctx) = [n]" and env: "nt_envelope n = nt_envelope prior"
    and slots: "slot_commit slot (nt_delivery n) = Some d"
      "slot_commit (other_slot slot) (nt_delivery n) = slot_commit (other_slot slot) (nt_delivery prior)"
    and d: "dc_operation_id d = cm_operation_id c" "dc_owner_epoch d = ot_epoch (cm_owner c)"
      "dc_attempt_id d = attempt" "dc_input_digest d = cm_input_digest c"
      "dc_command_digest d = command_digest ext c" "dc_receipt d = cx_receipt ctx"
    using delivery_retained [OF tr body] by auto
  have old: "ev_notification_id (nt_envelope prior) = nid" "ev_task_id (nt_envelope prior) = cm_task_id c"
    "Some (ev_run_id (nt_envelope prior)) = cm_run_id c"
    "map_option dc_operation_id (slot_commit (other_slot slot) (nt_delivery prior)) \<noteq> Some (cm_operation_id c)"
    using dup prior unfolding duplicate_delivery_body [OF body]
    by (auto simp: duplicate_delivery_def result_simps Let_def split: if_splits)
  have "command_notification_id ext c = Some nid"
    using body by (auto simp: delivery_body_def command_notification_id_def split: command_body.splits)
  then have found: "cu_notification (commit_snapshot ext c st') = Some n"
    using old(1) env by (simp add: commit_snapshot_def st' plan_notifications [OF fin] rows)
  have "duplicate ext c (commit_snapshot ext c st') = Inr (Some ((dc_receipt d)\<lparr>rc_duplicate := True\<rparr>))"
    unfolding duplicate_delivery_body [OF body]
    using old slots d(1-5) by (simp add: duplicate_delivery_def found env Let_def)
  moreover have "pl_receipt pl = dc_receipt d" using finish_plan_Inr [OF fin] d(6) by simp
  ultimately show ?thesis using retry_commit [OF first ok'] by simp
qed

section \<open>Properties\<close>

text \<open>
  C7. Settlement and notification are one commit: whenever a commit of a reachable state gives a run
  its outcome, the next state holds the notification of that run, under the identity derived from it,
  with the same outcome and time, at revision 1 and unclaimed: collectible if the task's completion
  policy is to collect, pending otherwise.
\<close>

theorem settlement_notifies:
  assumes "store_reachable ext st" and "store_commit ext c st = (Inr receipt, st')"
    and "map_of (st_runs st) k = Some r" and "rn_outcome r = None"
    and "map_of (st_runs st') k = Some r'" and "rn_outcome r' = Some out"
  shows "\<exists>n. map_of (st_notifications st') (delegation_subordinate_id ext k ''notification'') = Some n \<and>
    ev_run_id (nt_envelope n) = k \<and> ev_outcome (nt_envelope n) = out \<and>
    rn_settled_at r' = Some (ev_settled_at (nt_envelope n)) \<and> nt_revision n = 1 \<and> nt_attempts n = 0 \<and>
    nt_state n = (if ev_policy (nt_envelope n) = Collect then Nt_Collectible else Nt_Pending)"
proof -
  have "notification_effect ext st st'"
    by (rule commit_effect [OF reachable_ok [OF assms(1)] reachable_notifications_keyed [OF assms(1)] assms(2)])
  then obtain n where "map_of (st_notifications st') (delegation_subordinate_id ext k ''notification'') = Some n"
    "notified ext st st' (delegation_subordinate_id ext k ''notification'') n" "ev_run_id (nt_envelope n) = k"
    using assms(3-6) unfolding notification_effect_def by blast
  then show ?thesis using assms(5,6) by (auto simp: notified_def)
qed

lemma settlement_notifies_witness:
  "\<exists>n. map_of (st_notifications sample_settled_store) (delegation_subordinate_id sample_externals ''run-1'' ''notification'') = Some n \<and>
    ev_outcome (nt_envelope n) = Canceled Not_Dispatched"
proof -
  have "map_of (st_runs sample_store) ''run-1'' = Some sample_run" "rn_outcome sample_run = None"
    "map_of (st_runs sample_settled_store) ''run-1'' = Some sample_settled_run"
    "rn_outcome sample_settled_run = Some (Canceled Not_Dispatched)"
    by (simp_all add: sample_store_def sample_run_def admitted_run_def sample_settled_store_def
        sample_settled_run_def Let_def)
  from settlement_notifies [OF sample_store_reachable sample_settled this] show ?thesis by blast
qed

text \<open>
  C8. The delivery state machine: a notification of the next state is the one that was there, or the
  next one along an allowed transition (pending to claimed or expired, claimed back to pending with a retry
  time, or to accepted, rejected, expired or dismissed), or the new one of a run that this commit
  settled.  No transition leaves a final or the collectible state.
\<close>

theorem notifications_follow_steps:
  assumes "store_reachable ext st" and "store_commit ext c st = (Inr receipt, st')"
    and "map_of (st_notifications st') k = Some n'"
  shows "map_of (st_notifications st) k = Some n' \<or>
    (\<exists>n. map_of (st_notifications st) k = Some n \<and> notification_step n n') \<or> notified ext st st' k n'"
  using commit_effect [OF reachable_ok [OF assms(1)] reachable_notifications_keyed [OF assms(1)] assms(2)] assms(3)
  unfolding notification_effect_def by blast

lemma notifications_follow_steps_witness:
  "notified sample_externals sample_store sample_settled_store sample_notification_id sample_notification"
proof -
  have n: "map_of (st_notifications sample_settled_store) sample_notification_id = Some sample_notification"
    "st_notifications sample_store = []"
    by (simp_all add: sample_settled_store_def sample_store_def sample_owned_store_def sample_empty_store_def)
  from notifications_follow_steps [OF sample_store_reachable sample_settled n(1)] n(2) show ?thesis by simp
qed

text \<open>
  Exactly-once deliveries: when a claim or a receipt of a notification was accepted in a reachable
  state, submitting the same command again returns the receipt retained in the notification's
  bookkeeping slot, marked as a duplicate, and leaves the store as it is.
\<close>

theorem delivery_retry_returns_receipt:
  assumes reach: "store_reachable ext st" and first: "store_commit ext c st = (Inr receipt, st')"
    and body: "delivery_body (cm_body c) \<noteq> None"
  shows "store_commit ext c st' = (Inr (receipt\<lparr>rc_duplicate := True\<rparr>), st')"
proof -
  have ok: "store_ok ext st" "journal_ok st"
    using reachable_ok [OF reach] reachable_journal_ok [OF reach] by blast+
  have "store_reachable ext st'" using later [OF reach committed, of c] first by simp
  then have ok': "store_ok ext st'" "journal_ok st'" using reachable_ok reachable_journal_ok by blast+
  obtain pl where plan: "plan_delegation_store_commit ext c (commit_snapshot ext c st) = Inr pl"
    and pl: "receipt = pl_receipt pl" "st' = apply_mutations (pl_mutations pl) st"
    by (rule store_commit_plan [OF first])
  note first' = first [unfolded pl(1)]
  from plan show ?thesis unfolding pl(1)
  proof (cases rule: plan_cases)
    case (retry r)
    then show "store_commit ext c st' = (Inr ((pl_receipt pl)\<lparr>rc_duplicate := True\<rparr>), st')"
      using retry_again [OF first' ok] pl(2) by simp
  next
    case (change task ctx)
    then show "store_commit ext c st' = (Inr ((pl_receipt pl)\<lparr>rc_duplicate := True\<rparr>), st')"
      using delivery_retry [OF ok(1) reachable_notifications_keyed [OF reach] first' pl(2) ok' _ change(5,7-9)] body
      by auto
  qed
qed

lemma delivery_retry_returns_receipt_witness:
  "\<exists>receipt. store_commit sample_externals sample_claim (snd (store_commit sample_externals sample_claim sample_settled_store))
     = (Inr (receipt\<lparr>rc_duplicate := True\<rparr>), snd (store_commit sample_externals sample_claim sample_settled_store))"
proof -
  have reach: "store_reachable sample_externals sample_settled_store"
    using later [OF sample_store_reachable committed, of sample_settle] by (simp add: sample_settled)
  obtain receipt where "fst (store_commit sample_externals sample_claim sample_settled_store) = Inr receipt"
    using sample_claimed by blast
  then have first: "store_commit sample_externals sample_claim sample_settled_store =
      (Inr receipt, snd (store_commit sample_externals sample_claim sample_settled_store))"
    by (metis prod.collapse)
  have "delivery_body (cm_body sample_claim) \<noteq> None"
    by (simp add: delivery_body_def sample_claim_def sample_command_def)
  from delivery_retry_returns_receipt [OF reach first this] show ?thesis by blast
qed

end
