(* ===== verification/Target_Catalog.thy ===== *)
theory Target_Catalog
  imports Delegation_Schemas
begin

text \<open>
  Certified delegation targets: \<open>agent-orchestration/src/catalog/types.ts\<close>,
  \<open>catalog/schemas.ts\<close> and \<open>catalog/parse.ts\<close>, with the session configuration of
  \<open>agent-protocol/src/zod/sessions.ts\<close> and \<open>zod/configuration.ts\<close> that a target applies.
  The schemas are the predicates their members and refinements state; the issues they report
  are not distinguished.
\<close>

section \<open>Session configurations (agent-protocol)\<close>

text \<open>
  \<open>compareStringsByUnicodeCodePoint\<close>: negative, zero or positive; below code unit 256 the
  iterator yields one code point per code unit.
\<close>

fun compare_code_points :: "string \<Rightarrow> string \<Rightarrow> int" where
  "compare_code_points [] [] = 0"
| "compare_code_points [] (y # ys) = - 1"
| "compare_code_points (x # xs) [] = 1"
| "compare_code_points (x # xs) (y # ys) =
     (let difference = int (code_unit x) - int (code_unit y)
      in if difference \<noteq> 0 then difference else compare_code_points xs ys)"

lemma code_unit_inject: "code_unit x = code_unit y \<longleftrightarrow> x = y"
  by (simp add: code_unit_def)

lemma code_unit_less: "code_unit x < code_unit y \<longleftrightarrow> x < y"
  by (simp add: code_unit_def less_char_def)

lemma compare_code_points_less: "compare_code_points xs ys < 0 \<longleftrightarrow> xs < ys"
  by (induction xs ys rule: compare_code_points.induct)
    (auto simp: Let_def code_unit_inject code_unit_less [symmetric])

lemma compare_code_points_zero: "compare_code_points xs ys = 0 \<longleftrightarrow> xs = ys"
  by (induction xs ys rule: compare_code_points.induct) (auto simp: Let_def code_unit_inject)

datatype configuration_value =
    Boolean_Value bool
  | Select_Value string
  | Integer_Value int
  | Text_Value string

record configuration_selection =
  cs_key :: string
  cs_field_revision :: int
  cs_value :: configuration_value

datatype session_configuration =
    Managed_Configuration string
  | Selected_Configuration string int "configuration_selection list"

record configuration_input =
  ci_key :: string
  ci_expected_catalog_revision :: int
  ci_expected_field_revision :: int
  ci_value :: configuration_value

fun json_of_configuration_value :: "configuration_value \<Rightarrow> json" where
  "json_of_configuration_value (Boolean_Value b) =
     J_Obj [(''fieldKind'', J_Str ''boolean''), (''value'', J_Bool b)]"
| "json_of_configuration_value (Select_Value s) =
     J_Obj [(''fieldKind'', J_Str ''single_select''), (''optionId'', J_Str s)]"
| "json_of_configuration_value (Integer_Value n) =
     J_Obj [(''fieldKind'', J_Str ''bounded_integer''), (''value'', J_Num n)]"
| "json_of_configuration_value (Text_Value s) =
     J_Obj [(''fieldKind'', J_Str ''bounded_text''), (''value'', J_Str s)]"

definition json_of_selection :: "configuration_selection \<Rightarrow> json" where
  "json_of_selection s = J_Obj [(''key'', J_Str (cs_key s)),
     (''fieldRevision'', J_Num (cs_field_revision s)),
     (''value'', json_of_configuration_value (cs_value s))]"

fun json_of_configuration :: "session_configuration \<Rightarrow> json" where
  "json_of_configuration (Managed_Configuration r) =
     J_Obj [(''kind'', J_Str ''managed''), (''revision'', J_Str r)]"
| "json_of_configuration (Selected_Configuration r n ss) =
     J_Obj [(''kind'', J_Str ''selected''), (''revision'', J_Str r),
       (''catalogRevision'', J_Num n), (''selections'', J_Arr (map json_of_selection ss))]"

definition json_of_configuration_input :: "configuration_input \<Rightarrow> json" where
  "json_of_configuration_input i = J_Obj [(''key'', J_Str (ci_key i)),
     (''expectedCatalogRevision'', J_Num (ci_expected_catalog_revision i)),
     (''expectedFieldRevision'', J_Num (ci_expected_field_revision i)),
     (''value'', json_of_configuration_value (ci_value i))]"

definition serialized_json_bytes :: "json \<Rightarrow> int" where
  "serialized_json_bytes j = utf8_bytes (stringify j)"

definition canonical_text_value :: "string \<Rightarrow> bool" where
  "canonical_text_value s \<longleftrightarrow> js_len s \<le> 4000 \<and> (s = [] \<or> trimmed_text s)"

fun configuration_value_schema :: "configuration_value \<Rightarrow> bool" where
  "configuration_value_schema (Boolean_Value b) \<longleftrightarrow> True"
| "configuration_value_schema (Select_Value s) \<longleftrightarrow> agent_canonical_id s"
| "configuration_value_schema (Integer_Value n) \<longleftrightarrow> safe_integer n"
| "configuration_value_schema (Text_Value s) \<longleftrightarrow> canonical_text_value s"

definition selection_schema :: "configuration_selection \<Rightarrow> bool" where
  "selection_schema s \<longleftrightarrow> agent_canonical_id (cs_key s) \<and> positive_safe (cs_field_revision s) \<and>
     configuration_value_schema (cs_value s)"

definition configuration_input_schema :: "configuration_input \<Rightarrow> bool" where
  "configuration_input_schema i \<longleftrightarrow> agent_canonical_id (ci_key i) \<and>
     positive_safe (ci_expected_catalog_revision i) \<and> positive_safe (ci_expected_field_revision i) \<and>
     configuration_value_schema (ci_value i)"

text \<open>The two issues the refinement raises along the selections: a repeated key, keys out of order.\<close>

fun selection_keys_ok :: "string list \<Rightarrow> string option \<Rightarrow> string list \<Rightarrow> bool" where
  "selection_keys_ok keys previous [] = True"
| "selection_keys_ok keys previous (k # ks) \<longleftrightarrow>
     k \<notin> set keys \<and> (case previous of None \<Rightarrow> True | Some p \<Rightarrow> compare_code_points p k < 0) \<and>
     selection_keys_ok (set_add k keys) (Some k) ks"

fun session_configuration_schema :: "session_configuration \<Rightarrow> bool" where
  "session_configuration_schema (Managed_Configuration r) \<longleftrightarrow> agent_canonical_id r \<and>
     serialized_json_bytes (json_of_configuration (Managed_Configuration r)) \<le> 32768"
| "session_configuration_schema (Selected_Configuration r n ss) \<longleftrightarrow>
     agent_canonical_id r \<and> positive_safe n \<and> list_all selection_schema ss \<and> js_len ss \<le> 100 \<and>
     selection_keys_ok [] None (map cs_key ss) \<and>
     serialized_json_bytes (json_of_configuration (Selected_Configuration r n ss)) \<le> 32768"

section \<open>Targets\<close>

datatype execution_mode = Standard_Mode | Fast_Mode

datatype 'v semantic_fact = Certified 'v | Unknown_Fact

record target_option =
  to_key :: string
  to_option_id :: string

datatype availability = Available | Unavailable string string

record delegation_target =
  dt_reference :: target_reference
  dt_instance_id :: string
  dt_provider_key :: string
  dt_model_id :: string
  dt_label :: string
  dt_options :: "target_option list"
  dt_reasoning :: "string semantic_fact"
  dt_execution_mode :: "execution_mode semantic_fact"
  dt_mapping_id :: string
  dt_mapping_revision :: int
  dt_availability :: availability
  dt_limitations :: "string list"
  dt_configuration :: session_configuration
  dt_before_first_turn :: "configuration_input list"

record target_catalog =
  ct_catalog_id :: string
  ct_revision :: int
  ct_targets :: "delegation_target list"

definition json_of_option :: "target_option \<Rightarrow> json" where
  "json_of_option o' = J_Obj [(''key'', J_Str (to_key o')), (''optionId'', J_Str (to_option_id o'))]"

fun mode_name :: "execution_mode \<Rightarrow> string" where
  "mode_name Standard_Mode = ''standard''"
| "mode_name Fast_Mode = ''fast''"

fun json_of_fact :: "('v \<Rightarrow> string) \<Rightarrow> 'v semantic_fact \<Rightarrow> json" where
  "json_of_fact name (Certified v) = J_Obj [(''kind'', J_Str ''certified''), (''value'', J_Str (name v))]"
| "json_of_fact name Unknown_Fact = J_Obj [(''kind'', J_Str ''unknown'')]"

fun json_of_availability :: "availability \<Rightarrow> json" where
  "json_of_availability Available = J_Obj [(''kind'', J_Str ''available'')]"
| "json_of_availability (Unavailable code reason) =
     J_Obj [(''kind'', J_Str ''unavailable''), (''code'', J_Str code), (''reason'', J_Str reason)]"

definition json_of_delegation_target :: "delegation_target \<Rightarrow> json" where
  "json_of_delegation_target t = J_Obj [
     (''reference'', json_of_target (dt_reference t)), (''instanceId'', J_Str (dt_instance_id t)),
     (''providerKey'', J_Str (dt_provider_key t)), (''modelId'', J_Str (dt_model_id t)),
     (''label'', J_Str (dt_label t)), (''options'', J_Arr (map json_of_option (dt_options t))),
     (''reasoning'', json_of_fact id (dt_reasoning t)),
     (''executionMode'', json_of_fact mode_name (dt_execution_mode t)),
     (''certification'', J_Obj [(''mappingId'', J_Str (dt_mapping_id t)),
        (''mappingRevision'', J_Num (dt_mapping_revision t))]),
     (''availability'', json_of_availability (dt_availability t)),
     (''limitations'', J_Arr (map J_Str (dt_limitations t))),
     (''application'', J_Obj [(''configuration'', json_of_configuration (dt_configuration t)),
        (''beforeFirstTurn'', J_Arr (map json_of_configuration_input (dt_before_first_turn t)))])]"

definition json_of_catalog :: "target_catalog \<Rightarrow> json" where
  "json_of_catalog c = J_Obj [(''catalogId'', J_Str (ct_catalog_id c)),
     (''revision'', J_Num (ct_revision c)),
     (''targets'', J_Arr (map json_of_delegation_target (ct_targets c)))]"

section \<open>Schemas\<close>

definition reasoning_schema :: "string \<Rightarrow> bool" where
  "reasoning_schema s \<longleftrightarrow> canonical_opaque_string 128 s"

definition reason_text_schema :: "string \<Rightarrow> bool" where
  "reason_text_schema s \<longleftrightarrow> canonical_opaque_string 2000 s"

definition provider_key_edge :: "char \<Rightarrow> bool" where
  "provider_key_edge c \<longleftrightarrow> is_digit c \<or> (97 \<le> code_unit c \<and> code_unit c \<le> 122)"

definition provider_key_inner :: "char \<Rightarrow> bool" where
  "provider_key_inner c \<longleftrightarrow> provider_key_edge c \<or> c = CHR ''.'' \<or> c = CHR ''_'' \<or> c = CHR ''-''"

definition provider_key_schema :: "string \<Rightarrow> bool" where
  "provider_key_schema s \<longleftrightarrow> s \<noteq> [] \<and> js_len s \<le> 100 \<and>
     provider_key_edge (hd s) \<and> provider_key_edge (last s) \<and> list_all provider_key_inner s"

text \<open>\<open>requireUniqueValues\<close> raises an issue at the second occurrence of a value.\<close>

fun require_unique_values :: "string list \<Rightarrow> string list \<Rightarrow> bool" where
  "require_unique_values seen [] = True"
| "require_unique_values seen (v # vs) \<longleftrightarrow> v \<notin> set seen \<and> require_unique_values (set_add v seen) vs"

lemma require_unique_values_iff:
  "require_unique_values seen vs \<longleftrightarrow> distinct vs \<and> set seen \<inter> set vs = {}"
  by (induction vs arbitrary: seen) (auto simp: set_add_def)

definition target_option_schema :: "target_option \<Rightarrow> bool" where
  "target_option_schema o' \<longleftrightarrow> canonical_id (to_key o') \<and> canonical_id (to_option_id o')"

fun availability_schema :: "availability \<Rightarrow> bool" where
  "availability_schema Available \<longleftrightarrow> True"
| "availability_schema (Unavailable code reason) \<longleftrightarrow> canonical_id code \<and> reason_text_schema reason"

fun reasoning_fact_schema :: "string semantic_fact \<Rightarrow> bool" where
  "reasoning_fact_schema (Certified v) \<longleftrightarrow> reasoning_schema v"
| "reasoning_fact_schema Unknown_Fact \<longleftrightarrow> True"

definition target_members_schema :: "delegation_target \<Rightarrow> bool" where
  "target_members_schema t \<longleftrightarrow>
     target_reference_schema (dt_reference t) \<and> agent_canonical_id (dt_instance_id t) \<and>
     provider_key_schema (dt_provider_key t) \<and> canonical_id (dt_model_id t) \<and>
     canonical_id (dt_label t) \<and> js_len (dt_label t) \<le> 200 \<and>
     list_all target_option_schema (dt_options t) \<and> js_len (dt_options t) \<le> 100 \<and>
     reasoning_fact_schema (dt_reasoning t) \<and>
     canonical_id (dt_mapping_id t) \<and> revision_schema (dt_mapping_revision t) \<and>
     availability_schema (dt_availability t) \<and>
     list_all reason_text_schema (dt_limitations t) \<and> js_len (dt_limitations t) \<le> 10 \<and>
     session_configuration_schema (dt_configuration t) \<and>
     list_all configuration_input_schema (dt_before_first_turn t) \<and>
     js_len (dt_before_first_turn t) \<le> 100"

definition is_managed :: "session_configuration \<Rightarrow> bool" where
  "is_managed c = (case c of Managed_Configuration _ \<Rightarrow> True | _ \<Rightarrow> False)"

definition delegation_target_schema :: "delegation_target \<Rightarrow> bool" where
  "delegation_target_schema t \<longleftrightarrow> target_members_schema t \<and>
     require_unique_values [] (map to_key (dt_options t)) \<and>
     \<not> (is_managed (dt_configuration t) \<and> 0 < js_len (dt_before_first_turn t)) \<and>
     \<not> (dt_execution_mode t = Unknown_Fact \<and> js_len (dt_limitations t) = 0) \<and>
     serialized_json_bytes (json_of_delegation_target t) \<le> delegation_target_bytes"

text \<open>The scan over the targets: exact catalog revision, and one revision per source.\<close>

fun catalog_sources_ok ::
    "target_catalog \<Rightarrow> (string \<times> int) list \<Rightarrow> delegation_target list \<Rightarrow> bool" where
  "catalog_sources_ok c sources [] = True"
| "catalog_sources_ok c sources (t # ts) \<longleftrightarrow>
     (let r = dt_reference t in
      tr_catalog_id r = ct_catalog_id c \<and> tr_catalog_revision r = ct_revision c \<and>
      (case map_of sources (tr_source_id r) of
         None \<Rightarrow> True | Some prior \<Rightarrow> prior = tr_source_revision r) \<and>
      catalog_sources_ok c (map_set (tr_source_id r) (tr_source_revision r) sources) ts)"

definition target_catalog_schema :: "target_catalog \<Rightarrow> bool" where
  "target_catalog_schema c \<longleftrightarrow> canonical_id (ct_catalog_id c) \<and> revision_schema (ct_revision c) \<and>
     list_all delegation_target_schema (ct_targets c) \<and> js_len (ct_targets c) \<le> delegation_entries \<and>
     require_unique_values [] (map (tr_target_id \<circ> dt_reference) (ct_targets c)) \<and>
     catalog_sources_ok c [] (ct_targets c)"

definition parse_delegation_target_catalog :: "target_catalog \<Rightarrow> delegation_failure + target_catalog" where
  "parse_delegation_target_catalog = parse_delegation target_catalog_schema json_of_catalog"

section \<open>What a parsed catalog guarantees\<close>

lemma selection_keys_ok_sorted:
  "selection_keys_ok keys previous ks \<Longrightarrow>
     sorted_wrt (<) ks \<and> (\<forall>p. previous = Some p \<longrightarrow> (\<forall>k\<in>set ks. p < k))"
proof (induction keys previous ks rule: selection_keys_ok.induct)
  case (2 keys previous k ks)
  from 2 have *: "sorted_wrt (<) ks" "\<forall>k'\<in>set ks. k < k'" by auto
  moreover have "p < k" if "previous = Some p" for p
    using 2 that by (simp add: compare_code_points_less)
  ultimately show ?case by (auto intro: order.strict_trans)
qed simp

lemma catalog_sources_sound:
  assumes "catalog_sources_ok c sources ts"
  shows "(\<forall>t\<in>set ts. tr_catalog_id (dt_reference t) = ct_catalog_id c \<and>
            tr_catalog_revision (dt_reference t) = ct_revision c \<and>
            (\<forall>v. map_of sources (tr_source_id (dt_reference t)) = Some v \<longrightarrow>
               tr_source_revision (dt_reference t) = v)) \<and>
         (\<forall>t\<in>set ts. \<forall>u\<in>set ts. tr_source_id (dt_reference t) = tr_source_id (dt_reference u) \<longrightarrow>
            tr_source_revision (dt_reference t) = tr_source_revision (dt_reference u))"
  using assms
proof (induction ts arbitrary: sources)
  case (Cons a ts)
  let ?s = "map_set (tr_source_id (dt_reference a)) (tr_source_revision (dt_reference a)) sources"
  have rest: "catalog_sources_ok c ?s ts" using Cons.prems by (simp add: Let_def)
  note ih = Cons.IH [OF rest]
  have eq: "tr_source_revision (dt_reference t) = tr_source_revision (dt_reference a)"
    if "t \<in> set ts" "tr_source_id (dt_reference t) = tr_source_id (dt_reference a)" for t
    using ih that by simp
  have old: "tr_source_revision (dt_reference t) = v"
    if t: "t \<in> set ts" and v: "map_of sources (tr_source_id (dt_reference t)) = Some v" for t v
  proof (cases "tr_source_id (dt_reference t) = tr_source_id (dt_reference a)")
    case True
    then show ?thesis using eq [OF t True] v Cons.prems by (simp add: Let_def)
  next
    case False
    then show ?thesis using ih t v by simp
  qed
  have hd: "tr_catalog_id (dt_reference a) = ct_catalog_id c"
    "tr_catalog_revision (dt_reference a) = ct_revision c"
    "\<forall>v. map_of sources (tr_source_id (dt_reference a)) = Some v \<longrightarrow> tr_source_revision (dt_reference a) = v"
    using Cons.prems by (auto simp: Let_def)
  show ?case
    using ih hd eq old by (metis set_ConsD)
qed simp

definition catalog_ok :: "target_catalog \<Rightarrow> bool" where
  "catalog_ok c \<longleftrightarrow>
     distinct (map (tr_target_id \<circ> dt_reference) (ct_targets c)) \<and>
     (\<forall>t\<in>set (ct_targets c). tr_catalog_id (dt_reference t) = ct_catalog_id c \<and>
        tr_catalog_revision (dt_reference t) = ct_revision c \<and> delegation_target_schema t) \<and>
     (\<forall>t\<in>set (ct_targets c). \<forall>u\<in>set (ct_targets c).
        tr_source_id (dt_reference t) = tr_source_id (dt_reference u) \<longrightarrow>
        tr_source_revision (dt_reference t) = tr_source_revision (dt_reference u))"

lemma parsed_catalog_ok:
  assumes "parse_delegation_target_catalog c = Inr d"
  shows "d = c \<and> catalog_ok c"
proof -
  have s: "d = c" "target_catalog_schema c"
    using assms by (auto simp: parse_delegation_target_catalog_def result_simps)
  have all: "list_all delegation_target_schema (ct_targets c)"
    and distinct: "distinct (map (tr_target_id \<circ> dt_reference) (ct_targets c))"
    and sources: "catalog_sources_ok c [] (ct_targets c)"
    using s(2) unfolding target_catalog_schema_def require_unique_values_iff by blast+
  have all': "\<forall>t\<in>set (ct_targets c). delegation_target_schema t"
    using all by (simp only: list_all_iff)
  note src = catalog_sources_sound [OF sources]
  show ?thesis
    unfolding catalog_ok_def using s(1) all' distinct src by blast
qed

end
