(* ===== verification/Delegation_Policy.thy ===== *)
theory Delegation_Policy
  imports Target_Catalog
begin

text \<open>
  Which certified targets may be used: \<open>agent-orchestration/src/policy/\<close>.  The developer's
  exclusions and the end user's selection are parsed with their defaults, every target of the
  catalog gets a decision with its reasons, and the allowed targets are those without a reason.
\<close>

section \<open>Policy data (types.ts, schemas.ts)\<close>

record exclusion =
  ex_exclusion_id :: string
  ex_provider_key :: "string option"
  ex_model_id :: "string option"
  ex_target_id :: "string option"
  ex_catalog_id :: "string option"
  ex_reasoning :: "string option"
  ex_execution_mode :: "execution_mode option"
  ex_options :: "target_option list option"

record developer_policy =
  dp_enabled :: bool
  dp_exclusions :: "exclusion list"

record target_identity =
  id_catalog_id :: string
  id_target_id :: string

datatype user_selection =
    All_Available bool "target_identity list"
  | Explicit_Targets "target_identity list"

datatype user_policy =
    User_Disabled
  | User_Enabled "user_selection option"

record policy_snapshot =
  po_revision :: int
  po_developer :: developer_policy
  po_user :: user_policy

text \<open>What a caller hands to the parser: the members with a default may be absent.\<close>

record policy_input =
  pi_revision :: int
  pi_developer :: "(bool option \<times> exclusion list option) option"
  pi_user :: "user_policy option"

definition json_of_exclusion :: "exclusion \<Rightarrow> json" where
  "json_of_exclusion e = J_Obj ((''exclusionId'', J_Str (ex_exclusion_id e))
     # opt_member ''providerKey'' J_Str (ex_provider_key e)
     @ opt_member ''modelId'' J_Str (ex_model_id e)
     @ opt_member ''targetId'' J_Str (ex_target_id e)
     @ opt_member ''catalogId'' J_Str (ex_catalog_id e)
     @ opt_member ''reasoning'' J_Str (ex_reasoning e)
     @ opt_member ''executionMode'' (\<lambda>m. J_Str (mode_name m)) (ex_execution_mode e)
     @ opt_member ''options'' (\<lambda>os. J_Arr (map json_of_option os)) (ex_options e))"

definition json_of_identity :: "target_identity \<Rightarrow> json" where
  "json_of_identity i =
     J_Obj [(''catalogId'', J_Str (id_catalog_id i)), (''targetId'', J_Str (id_target_id i))]"

fun json_of_user_selection :: "user_selection \<Rightarrow> json" where
  "json_of_user_selection (All_Available fast unknown) = J_Obj [(''kind'', J_Str ''all_available''),
     (''includeFast'', J_Bool fast), (''unknownModeTargets'', J_Arr (map json_of_identity unknown))]"
| "json_of_user_selection (Explicit_Targets targets) = J_Obj [(''kind'', J_Str ''explicit''),
     (''targets'', J_Arr (map json_of_identity targets))]"

fun json_of_user_policy :: "user_policy \<Rightarrow> json" where
  "json_of_user_policy User_Disabled = J_Obj [(''enabled'', J_Bool False)]"
| "json_of_user_policy (User_Enabled s) =
     J_Obj ((''enabled'', J_Bool True) # opt_member ''selection'' json_of_user_selection s)"

definition json_of_policy_input :: "policy_input \<Rightarrow> json" where
  "json_of_policy_input p = J_Obj ((''revision'', J_Num (pi_revision p))
     # opt_member ''developer'' (\<lambda>(enabled, exclusions). J_Obj (opt_member ''enabled'' J_Bool enabled
         @ opt_member ''exclusions'' (\<lambda>es. J_Arr (map json_of_exclusion es)) exclusions)) (pi_developer p)
     @ opt_member ''user'' json_of_user_policy (pi_user p))"

definition target_identity_key :: "target_identity \<Rightarrow> string" where
  "target_identity_key i = stringify (J_Arr [J_Str (id_catalog_id i), J_Str (id_target_id i)])"

definition reference_identity :: "target_reference \<Rightarrow> target_identity" where
  "reference_identity r = \<lparr>id_catalog_id = tr_catalog_id r, id_target_id = tr_target_id r\<rparr>"

definition exclusion_members_schema :: "exclusion \<Rightarrow> bool" where
  "exclusion_members_schema e \<longleftrightarrow> canonical_id (ex_exclusion_id e) \<and>
     optional provider_key_schema (ex_provider_key e) \<and> optional canonical_id (ex_model_id e) \<and>
     optional canonical_id (ex_target_id e) \<and> optional canonical_id (ex_catalog_id e) \<and>
     optional reasoning_schema (ex_reasoning e) \<and>
     optional (\<lambda>os. list_all target_option_schema os \<and> 1 \<le> js_len os \<and> js_len os \<le> 100) (ex_options e)"

definition exclusion_schema :: "exclusion \<Rightarrow> bool" where
  "exclusion_schema e \<longleftrightarrow> exclusion_members_schema e \<and>
     \<not> (ex_provider_key e = None \<and> ex_model_id e = None \<and> ex_target_id e = None \<and>
        ex_catalog_id e = None \<and> ex_reasoning e = None \<and> ex_execution_mode e = None \<and>
        ex_options e = None) \<and>
     \<not> ((ex_model_id e \<noteq> None \<or> ex_options e \<noteq> None) \<and> ex_provider_key e = None) \<and>
     (ex_target_id e = None) = (ex_catalog_id e = None) \<and>
     optional (\<lambda>os. require_unique_values [] (map to_key os)) (ex_options e)"

definition developer_schema :: "bool option \<times> exclusion list option \<Rightarrow> bool" where
  "developer_schema d \<longleftrightarrow>
     optional (\<lambda>es. list_all exclusion_schema es \<and> js_len es \<le> delegation_entries) (snd d) \<and>
     require_unique_values [] (map ex_exclusion_id (case snd d of None \<Rightarrow> [] | Some es \<Rightarrow> es))"

definition identities_schema :: "target_identity list \<Rightarrow> bool" where
  "identities_schema ids \<longleftrightarrow>
     list_all (\<lambda>i. canonical_id (id_catalog_id i) \<and> canonical_id (id_target_id i)) ids \<and>
     js_len ids \<le> delegation_entries \<and> require_unique_values [] (map target_identity_key ids)"

fun selection_schema_user :: "user_selection \<Rightarrow> bool" where
  "selection_schema_user (All_Available fast unknown) \<longleftrightarrow> identities_schema unknown"
| "selection_schema_user (Explicit_Targets targets) \<longleftrightarrow> identities_schema targets"

fun user_schema :: "user_policy \<Rightarrow> bool" where
  "user_schema User_Disabled \<longleftrightarrow> True"
| "user_schema (User_Enabled s) \<longleftrightarrow> optional selection_schema_user s"

definition policy_snapshot_schema :: "policy_input \<Rightarrow> bool" where
  "policy_snapshot_schema p \<longleftrightarrow> revision_schema (pi_revision p) \<and>
     optional developer_schema (pi_developer p) \<and> optional user_schema (pi_user p)"

definition default_developer :: developer_policy where
  "default_developer = \<lparr>dp_enabled = True, dp_exclusions = []\<rparr>"

fun fill_developer :: "bool option \<times> exclusion list option \<Rightarrow> developer_policy" where
  "fill_developer (enabled, exclusions) =
     \<lparr>dp_enabled = (case enabled of None \<Rightarrow> True | Some b \<Rightarrow> b),
      dp_exclusions = (case exclusions of None \<Rightarrow> [] | Some es \<Rightarrow> es)\<rparr>"

fun fill_user :: "user_policy \<Rightarrow> user_policy" where
  "fill_user User_Disabled = User_Disabled"
| "fill_user (User_Enabled s) =
     User_Enabled (Some (case s of None \<Rightarrow> All_Available False [] | Some sel \<Rightarrow> sel))"

definition fill_policy :: "policy_input \<Rightarrow> policy_snapshot" where
  "fill_policy p = \<lparr>po_revision = pi_revision p,
     po_developer = (case pi_developer p of None \<Rightarrow> default_developer | Some d \<Rightarrow> fill_developer d),
     po_user = (case pi_user p of None \<Rightarrow> User_Disabled | Some u \<Rightarrow> fill_user u)\<rparr>"

definition parse_delegation_policy_snapshot :: "policy_input \<Rightarrow> delegation_failure + policy_snapshot" where
  "parse_delegation_policy_snapshot input =
     and_then (copy_bounded_delegation_data (json_of_policy_input input)) (\<lambda>_.
       if policy_snapshot_schema input then Inr (fill_policy input)
       else invalid_delegation_data Schema_Issue)"

section \<open>Matching an exclusion (matching.ts)\<close>

datatype exclusion_match = Excluded | Unmatched | Unverifiable

text \<open>\<open>new Map(options.map(...))\<close>: the last option of a key wins; the schema leaves no repeated key.\<close>

definition option_map :: "target_option list \<Rightarrow> (string \<times> string) list" where
  "option_map os = foldl (\<lambda>m o'. map_set (to_key o') (to_option_id o') m) [] os"

definition differs :: "'a option \<Rightarrow> 'a \<Rightarrow> bool" where
  "differs criterion v = (case criterion of None \<Rightarrow> False | Some c \<Rightarrow> c \<noteq> v)"

text \<open>One semantic criterion: \<open>None\<close> when it rules the exclusion out, else whether it is unknown.\<close>

definition fact_criterion :: "'a option \<Rightarrow> 'a semantic_fact \<Rightarrow> bool \<Rightarrow> bool option" where
  "fact_criterion criterion known unknown =
     (case criterion of
        None \<Rightarrow> Some unknown
      | Some c \<Rightarrow> (case known of
          Unknown_Fact \<Rightarrow> Some True
        | Certified v \<Rightarrow> if v \<noteq> c then None else Some unknown))"

definition match_delegation_exclusion ::
    "delegation_target \<Rightarrow> exclusion \<Rightarrow> (string \<times> string) list \<Rightarrow> exclusion_match" where
  "match_delegation_exclusion t e options =
     (if differs (ex_provider_key e) (dt_provider_key t)
         \<or> differs (ex_model_id e) (dt_model_id t)
         \<or> differs (ex_catalog_id e) (tr_catalog_id (dt_reference t))
         \<or> differs (ex_target_id e) (tr_target_id (dt_reference t))
         \<or> (case ex_options e of None \<Rightarrow> False
             | Some os \<Rightarrow> list_ex (\<lambda>o'. map_of options (to_key o') \<noteq> Some (to_option_id o')) os)
      then Unmatched
      else case fact_criterion (ex_reasoning e) (dt_reasoning t) False of
             None \<Rightarrow> Unmatched
           | Some unknown \<Rightarrow>
               (case fact_criterion (ex_execution_mode e) (dt_execution_mode t) unknown of
                  None \<Rightarrow> Unmatched
                | Some unknown' \<Rightarrow> if unknown' then Unverifiable else Excluded))"

section \<open>Resolution (resolve.ts)\<close>

datatype policy_reason =
    Delegation_Disabled
  | Target_Unavailable string
  | Developer_Excluded string
  | Developer_Unverifiable string
  | Unknown_Mode_Unselected
  | User_Unselected

datatype policy_outcome = Outcome_Allowed | Outcome_Denied | Outcome_Unverifiable

record target_decision =
  de_reference :: target_reference
  de_selected :: bool
  de_outcome :: policy_outcome
  de_reasons :: "policy_reason list"

record resolved_policy =
  rp_enabled :: bool
  rp_policy_revision :: int
  rp_catalog_id :: string
  rp_catalog_revision :: int
  rp_decisions :: "target_decision list"
  rp_allowed_targets :: "delegation_target list"
  rp_missing_selections :: "target_identity list"

fun selected_target :: "delegation_target \<Rightarrow> user_selection \<Rightarrow> bool" where
  "selected_target t (Explicit_Targets targets) =
     list_ex (\<lambda>i. target_identity_key i = target_identity_key (reference_identity (dt_reference t))) targets"
| "selected_target t (All_Available fast unknown) =
     (case dt_execution_mode t of
        Unknown_Fact \<Rightarrow>
          list_ex (\<lambda>i. target_identity_key i = target_identity_key (reference_identity (dt_reference t))) unknown
      | Certified m \<Rightarrow> m = Standard_Mode \<or> fast)"

definition user_is_enabled :: "user_policy \<Rightarrow> bool" where
  "user_is_enabled u = (case u of User_Disabled \<Rightarrow> False | User_Enabled _ \<Rightarrow> True)"

definition current_selection :: "user_policy \<Rightarrow> user_selection option" where
  "current_selection u = (case u of User_Disabled \<Rightarrow> None | User_Enabled s \<Rightarrow> s)"

text \<open>The loop over the exclusions, with the ten retained reasons of each kind.\<close>

fun exclusion_reasons ::
    "delegation_target \<Rightarrow> (string \<times> string) list \<Rightarrow> policy_reason list \<Rightarrow> policy_reason list
      \<Rightarrow> exclusion list \<Rightarrow> policy_reason list" where
  "exclusion_reasons t options excluded unverifiable [] = excluded @ unverifiable"
| "exclusion_reasons t options excluded unverifiable (e # es) =
     (let m = match_delegation_exclusion t e options in
      if m = Excluded \<and> js_len excluded < 10 then
        exclusion_reasons t options (excluded @ [Developer_Excluded (ex_exclusion_id e)]) unverifiable es
      else if m = Unverifiable \<and> js_len unverifiable < 10 then
        exclusion_reasons t options excluded (unverifiable @ [Developer_Unverifiable (ex_exclusion_id e)]) es
      else exclusion_reasons t options excluded unverifiable es)"

definition decision_reasons :: "policy_snapshot \<Rightarrow> delegation_target \<Rightarrow> policy_reason list" where
  "decision_reasons p t =
     (if dp_enabled (po_developer p) \<and> user_is_enabled (po_user p) then [] else [Delegation_Disabled])
     @ (case dt_availability t of Available \<Rightarrow> [] | Unavailable code reason \<Rightarrow> [Target_Unavailable reason])
     @ exclusion_reasons t (option_map (dt_options t)) [] [] (dp_exclusions (po_developer p))
     @ (case current_selection (po_user p) of
          None \<Rightarrow> []
        | Some s \<Rightarrow> if selected_target t s then []
            else case s of
              All_Available _ _ \<Rightarrow>
                if dt_execution_mode t = Unknown_Fact then [Unknown_Mode_Unselected] else [User_Unselected]
            | Explicit_Targets _ \<Rightarrow> [User_Unselected])"

definition outcome_of_reasons :: "policy_reason list \<Rightarrow> policy_outcome" where
  "outcome_of_reasons reasons =
     (case reasons of
        [] \<Rightarrow> Outcome_Allowed
      | r # _ \<Rightarrow> (case r of Developer_Unverifiable _ \<Rightarrow> Outcome_Unverifiable | _ \<Rightarrow> Outcome_Denied))"

definition decide_target :: "policy_snapshot \<Rightarrow> delegation_target \<Rightarrow> target_decision" where
  "decide_target p t =
     (let reasons = decision_reasons p t in
      \<lparr>de_reference = dt_reference t,
       de_selected = (case current_selection (po_user p) of None \<Rightarrow> False | Some s \<Rightarrow> selected_target t s),
       de_outcome = outcome_of_reasons reasons,
       de_reasons = take 10 reasons\<rparr>)"

definition requested_identities :: "user_policy \<Rightarrow> target_identity list" where
  "requested_identities u =
     (case current_selection u of
        None \<Rightarrow> []
      | Some (Explicit_Targets targets) \<Rightarrow> targets
      | Some (All_Available _ unknown) \<Rightarrow> unknown)"

definition resolve_with :: "target_catalog \<Rightarrow> policy_snapshot \<Rightarrow> resolved_policy" where
  "resolve_with c p =
     (let offered = map (\<lambda>t. target_identity_key (reference_identity (dt_reference t))) (ct_targets c) in
      \<lparr>rp_enabled = (dp_enabled (po_developer p) \<and> user_is_enabled (po_user p)),
       rp_policy_revision = po_revision p, rp_catalog_id = ct_catalog_id c,
       rp_catalog_revision = ct_revision c,
       rp_decisions = map (decide_target p) (ct_targets c),
       rp_allowed_targets = filter (\<lambda>t. de_outcome (decide_target p t) = Outcome_Allowed) (ct_targets c),
       rp_missing_selections =
         filter (\<lambda>i. target_identity_key i \<notin> set offered) (requested_identities (po_user p))\<rparr>)"

definition resolve_delegation_policy ::
    "target_catalog \<Rightarrow> policy_input \<Rightarrow> delegation_failure + resolved_policy" where
  "resolve_delegation_policy catalog policy =
     and_then (parse_delegation_target_catalog catalog) (\<lambda>c.
     and_then (parse_delegation_policy_snapshot policy) (\<lambda>p. Inr (resolve_with c p)))"

end
