(* ===== verification/Delegation_Eligibility.thy ===== *)
theory Delegation_Eligibility
  imports Delegation_Policy Json_Identity
begin

text \<open>
  What \<open>resolveDelegationPolicy\<close> decides.  Unknown semantic facts are read as the set of the
  facts the target may have: a match is certain when the exclusion applies under all of them,
  ruled out when it applies under none, unverifiable in between.  The allowed targets and the
  reasons of a denial are characterised by that reading.
\<close>

section \<open>An exclusion under known facts\<close>

definition fact_allows :: "'a semantic_fact \<Rightarrow> 'a \<Rightarrow> bool" where
  "fact_allows f x \<longleftrightarrow> (case f of Certified v \<Rightarrow> x = v | Unknown_Fact \<Rightarrow> True)"

lemma fact_allows_simps [simp]: "fact_allows (Certified v) x \<longleftrightarrow> x = v" "fact_allows Unknown_Fact x"
  by (simp_all add: fact_allows_def)

definition identity_criteria :: "delegation_target \<Rightarrow> exclusion \<Rightarrow> bool" where
  "identity_criteria t e \<longleftrightarrow>
     \<not> differs (ex_provider_key e) (dt_provider_key t) \<and>
     \<not> differs (ex_model_id e) (dt_model_id t) \<and>
     \<not> differs (ex_catalog_id e) (tr_catalog_id (dt_reference t)) \<and>
     \<not> differs (ex_target_id e) (tr_target_id (dt_reference t)) \<and>
     optional (list_all (\<lambda>o'. map_of (option_map (dt_options t)) (to_key o') = Some (to_option_id o')))
       (ex_options e)"

definition exclusion_applies :: "delegation_target \<Rightarrow> exclusion \<Rightarrow> string \<Rightarrow> execution_mode \<Rightarrow> bool" where
  "exclusion_applies t e reasoning mode \<longleftrightarrow> identity_criteria t e \<and>
     \<not> differs (ex_reasoning e) reasoning \<and> \<not> differs (ex_execution_mode e) mode"

definition always_excluded :: "delegation_target \<Rightarrow> exclusion \<Rightarrow> bool" where
  "always_excluded t e \<longleftrightarrow> (\<forall>reasoning mode. fact_allows (dt_reasoning t) reasoning \<longrightarrow>
     fact_allows (dt_execution_mode t) mode \<longrightarrow> exclusion_applies t e reasoning mode)"

definition never_excluded :: "delegation_target \<Rightarrow> exclusion \<Rightarrow> bool" where
  "never_excluded t e \<longleftrightarrow> (\<forall>reasoning mode. fact_allows (dt_reasoning t) reasoning \<longrightarrow>
     fact_allows (dt_execution_mode t) mode \<longrightarrow> \<not> exclusion_applies t e reasoning mode)"

lemma fact_criterion_cases:
  "fact_criterion c f u = None \<longleftrightarrow> (\<forall>x. fact_allows f x \<longrightarrow> differs c x)"
  "fact_criterion c f u = Some w \<Longrightarrow> w \<longleftrightarrow> u \<or> (c \<noteq> None \<and> f = Unknown_Fact)"
  by (cases c; cases f; auto simp: fact_criterion_def differs_def split: if_splits)+

lemma fact_allows_some: "\<exists>x. fact_allows f x"
  by (cases f) auto

lemma fact_criterion_agrees:
  "fact_criterion c f u = Some w \<Longrightarrow> \<not> (c \<noteq> None \<and> f = Unknown_Fact) \<Longrightarrow> fact_allows f x \<Longrightarrow> \<not> differs c x"
  by (cases c; cases f) (auto simp: fact_criterion_def differs_def split: if_splits)

lemma fact_criterion_possible:
  "fact_criterion c f u = Some w \<Longrightarrow> \<exists>x. fact_allows f x \<and> \<not> differs c x"
  using fact_criterion_cases(1) [of c f u] by auto

lemma other_string: "\<exists>s. s \<noteq> (t :: string)"
  by (rule exI [of _ "CHR ''x'' # t"]) simp

lemma other_mode: "\<exists>s. s \<noteq> (t :: execution_mode)"
  by (cases t) blast+

lemma match_identity:
  "match_delegation_exclusion t e (option_map (dt_options t)) =
     (if \<not> identity_criteria t e then Unmatched
      else case fact_criterion (ex_reasoning e) (dt_reasoning t) False of
             None \<Rightarrow> Unmatched
           | Some unknown \<Rightarrow>
               (case fact_criterion (ex_execution_mode e) (dt_execution_mode t) unknown of
                  None \<Rightarrow> Unmatched
                | Some unknown' \<Rightarrow> if unknown' then Unverifiable else Excluded))"
proof -
  have "(case ex_options e of None \<Rightarrow> False
          | Some os \<Rightarrow> list_ex (\<lambda>o'. map_of (option_map (dt_options t)) (to_key o') \<noteq> Some (to_option_id o')) os)
      \<longleftrightarrow> \<not> optional (list_all (\<lambda>o'. map_of (option_map (dt_options t)) (to_key o') = Some (to_option_id o')))
           (ex_options e)"
    by (cases "ex_options e") (auto simp: list_ex_iff list_all_iff)
  then show ?thesis
    unfolding match_delegation_exclusion_def identity_criteria_def by auto
qed

lemma match_unmatched_iff:
  "match_delegation_exclusion t e (option_map (dt_options t)) = Unmatched \<longleftrightarrow> never_excluded t e"
proof (cases "identity_criteria t e")
  case False
  then show ?thesis by (simp add: match_identity never_excluded_def exclusion_applies_def)
next
  case True
  show ?thesis
  proof (cases "fact_criterion (ex_reasoning e) (dt_reasoning t) False")
    case None
    then have "\<forall>x. fact_allows (dt_reasoning t) x \<longrightarrow> differs (ex_reasoning e) x"
      by (simp add: fact_criterion_cases(1))
    then show ?thesis
      using None True by (auto simp: match_identity never_excluded_def exclusion_applies_def)
  next
    case (Some u)
    then obtain x where x: "fact_allows (dt_reasoning t) x" "\<not> differs (ex_reasoning e) x"
      using fact_criterion_possible by blast
    show ?thesis
    proof (cases "fact_criterion (ex_execution_mode e) (dt_execution_mode t) u")
      case None
      then have "\<forall>y. fact_allows (dt_execution_mode t) y \<longrightarrow> differs (ex_execution_mode e) y"
        by (simp add: fact_criterion_cases(1))
      then show ?thesis
        using None Some True by (auto simp: match_identity never_excluded_def exclusion_applies_def)
    next
      case (Some w)
      then obtain y where "fact_allows (dt_execution_mode t) y" "\<not> differs (ex_execution_mode e) y"
        using fact_criterion_possible by blast
      then show ?thesis
        using Some \<open>fact_criterion (ex_reasoning e) (dt_reasoning t) False = Some u\<close> True x
        by (auto simp: match_identity never_excluded_def exclusion_applies_def)
    qed
  qed
qed

lemma unknown_criterion_differs:
  assumes "c \<noteq> None" and "f = Unknown_Fact" and "\<And>t. \<exists>s. s \<noteq> (t :: 'a)"
  shows "\<exists>x. fact_allows (f :: 'a semantic_fact) x \<and> differs c x"
proof -
  obtain v where v: "c = Some v" using assms(1) by blast
  obtain x where "x \<noteq> v" using assms(3) by blast
  then show ?thesis using v assms(2) by (auto simp: differs_def)
qed

lemma match_excluded_iff:
  "match_delegation_exclusion t e (option_map (dt_options t)) = Excluded \<longleftrightarrow> always_excluded t e"
proof
  assume m: "match_delegation_exclusion t e (option_map (dt_options t)) = Excluded"
  then obtain u where id: "identity_criteria t e"
    and r: "fact_criterion (ex_reasoning e) (dt_reasoning t) False = Some u"
    and x: "fact_criterion (ex_execution_mode e) (dt_execution_mode t) u = Some False"
    by (auto simp: match_identity split: if_splits option.splits)
  have "\<not> u" using fact_criterion_cases(2) [OF x] by blast
  then have "\<not> (ex_reasoning e \<noteq> None \<and> dt_reasoning t = Unknown_Fact)"
    using fact_criterion_cases(2) [OF r] by blast
  moreover have "\<not> (ex_execution_mode e \<noteq> None \<and> dt_execution_mode t = Unknown_Fact)"
    using fact_criterion_cases(2) [OF x] by blast
  ultimately show "always_excluded t e"
    using id fact_criterion_agrees [OF r] fact_criterion_agrees [OF x]
    unfolding always_excluded_def exclusion_applies_def by blast
next
  assume all: "always_excluded t e"
  obtain x where x: "fact_allows (dt_reasoning t) x" using fact_allows_some [of "dt_reasoning t"] by blast
  obtain y where y: "fact_allows (dt_execution_mode t) y" using fact_allows_some [of "dt_execution_mode t"] by blast
  note xy = x y
  have "exclusion_applies t e x y" using all xy by (simp add: always_excluded_def)
  then have not_never: "match_delegation_exclusion t e (option_map (dt_options t)) \<noteq> Unmatched"
    using xy by (auto simp: match_unmatched_iff never_excluded_def)
  have r: "\<not> (ex_reasoning e \<noteq> None \<and> dt_reasoning t = Unknown_Fact)"
    using unknown_criterion_differs [OF _ _ other_string, of "ex_reasoning e" "dt_reasoning t"] all xy
    unfolding always_excluded_def exclusion_applies_def by blast
  have m: "\<not> (ex_execution_mode e \<noteq> None \<and> dt_execution_mode t = Unknown_Fact)"
    using unknown_criterion_differs [OF _ _ other_mode, of "ex_execution_mode e" "dt_execution_mode t"] all xy
    unfolding always_excluded_def exclusion_applies_def by blast
  show "match_delegation_exclusion t e (option_map (dt_options t)) = Excluded"
  proof -
    have id: "identity_criteria t e" using not_never by (simp add: match_identity split: if_splits)
    obtain u where u: "fact_criterion (ex_reasoning e) (dt_reasoning t) False = Some u"
      using not_never id by (cases "fact_criterion (ex_reasoning e) (dt_reasoning t) False")
        (simp_all add: match_identity)
    obtain w where w: "fact_criterion (ex_execution_mode e) (dt_execution_mode t) u = Some w"
      using not_never id u by (cases "fact_criterion (ex_execution_mode e) (dt_execution_mode t) u")
        (simp_all add: match_identity)
    have "\<not> u" using fact_criterion_cases(2) [OF u] r by blast
    then have "\<not> w" using fact_criterion_cases(2) [OF w] m by blast
    then show ?thesis using id u w by (simp add: match_identity)
  qed
qed

section \<open>The reasons of a decision\<close>

definition reasons_of :: "exclusion_match \<Rightarrow> delegation_target \<Rightarrow> exclusion list \<Rightarrow> string list" where
  "reasons_of m t es = map ex_exclusion_id
     (filter (\<lambda>e. match_delegation_exclusion t e (option_map (dt_options t)) = m) es)"

lemma reasons_of_simps [simp]:
  "reasons_of m t [] = []"
  "reasons_of m t (e # es) =
     (if match_delegation_exclusion t e (option_map (dt_options t)) = m
      then ex_exclusion_id e # reasons_of m t es else reasons_of m t es)"
  by (simp_all add: reasons_of_def)

lemma reasons_of_empty:
  "reasons_of m t es = [] \<longleftrightarrow>
     (\<forall>e\<in>set es. match_delegation_exclusion t e (option_map (dt_options t)) \<noteq> m)"
  by (simp add: reasons_of_def filter_empty_conv)

lemma take_more: "n < 10 \<Longrightarrow> take (10 - n) (x # xs) = x # take (10 - Suc n) xs"
  by (simp add: take_Cons' diff_diff_add)

text \<open>The reasons that come from the exclusions: the first ten certain ones, then the first ten unverifiable ones.\<close>

lemma exclusion_reasons_eq:
  "exclusion_reasons t (option_map (dt_options t)) ex un es =
     ex @ map Developer_Excluded (take (10 - length ex) (reasons_of Excluded t es))
     @ un @ map Developer_Unverifiable (take (10 - length un) (reasons_of Unverifiable t es))"
proof (induction es arbitrary: ex un)
  case (Cons e es)
  let ?m = "match_delegation_exclusion t e (option_map (dt_options t))"
  show ?case
  proof (cases ?m)
    case Excluded
    then show ?thesis
      by (cases "length ex < 10") (simp_all add: Let_def Cons.IH take_more)
  next
    case Unmatched
    then show ?thesis by (simp add: Let_def Cons.IH)
  next
    case Unverifiable
    then show ?thesis
      by (cases "length un < 10") (simp_all add: Let_def Cons.IH take_more)
  qed
qed simp

lemma match_cases:
  "m \<noteq> Excluded \<and> m \<noteq> Unverifiable \<longleftrightarrow> m = Unmatched"
  "m \<noteq> Unmatched \<longleftrightarrow> m = Excluded \<or> m = Unverifiable"
  by (cases m; simp)+

lemma no_reasons_iff:
  "decision_reasons p t = [] \<longleftrightarrow>
     dp_enabled (po_developer p) \<and> user_is_enabled (po_user p) \<and> dt_availability t = Available \<and>
     (\<forall>e\<in>set (dp_exclusions (po_developer p)). never_excluded t e) \<and>
     (\<forall>s. current_selection (po_user p) = Some s \<longrightarrow> selected_target t s)"
proof -
  let ?es = "dp_exclusions (po_developer p)" and ?m = "\<lambda>e. match_delegation_exclusion t e (option_map (dt_options t))"
  have "exclusion_reasons t (option_map (dt_options t)) [] [] ?es = [] \<longleftrightarrow>
      (\<forall>e\<in>set ?es. ?m e \<noteq> Excluded) \<and> (\<forall>e\<in>set ?es. ?m e \<noteq> Unverifiable)"
    by (simp add: exclusion_reasons_eq reasons_of_empty [symmetric])
  also have "\<dots> \<longleftrightarrow> (\<forall>e\<in>set ?es. never_excluded t e)"
    unfolding match_unmatched_iff [symmetric] ball_conj_distrib [symmetric] match_cases(1) ..
  finally have ex: "exclusion_reasons t (option_map (dt_options t)) [] [] ?es = [] \<longleftrightarrow>
      (\<forall>e\<in>set ?es. never_excluded t e)" .
  have av: "(case dt_availability t of Available \<Rightarrow> [] | Unavailable code reason \<Rightarrow> [Target_Unavailable reason]) = []
      \<longleftrightarrow> dt_availability t = Available"
    by (cases "dt_availability t") simp_all
  have se: "(case current_selection (po_user p) of
          None \<Rightarrow> []
        | Some s \<Rightarrow> if selected_target t s then []
            else case s of
              All_Available _ _ \<Rightarrow>
                if dt_execution_mode t = Unknown_Fact then [Unknown_Mode_Unselected] else [User_Unselected]
            | Explicit_Targets _ \<Rightarrow> [User_Unselected]) = []
      \<longleftrightarrow> (\<forall>s. current_selection (po_user p) = Some s \<longrightarrow> selected_target t s)"
    by (auto split: option.splits user_selection.splits)
  show ?thesis
    unfolding decision_reasons_def append_is_Nil_conv ex av se by auto
qed

lemma outcome_allowed_iff: "outcome_of_reasons rs = Outcome_Allowed \<longleftrightarrow> rs = []"
  by (auto simp: outcome_of_reasons_def split: list.splits policy_reason.splits)

lemma outcome_unverifiable_iff:
  "outcome_of_reasons rs = Outcome_Unverifiable \<longleftrightarrow> (\<exists>x xs. rs = Developer_Unverifiable x # xs)"
  by (auto simp: outcome_of_reasons_def split: list.splits policy_reason.splits)

lemma reasons_unverifiable_iff:
  "outcome_of_reasons (decision_reasons p t) = Outcome_Unverifiable \<longleftrightarrow>
     dp_enabled (po_developer p) \<and> user_is_enabled (po_user p) \<and> dt_availability t = Available \<and>
     (\<forall>e\<in>set (dp_exclusions (po_developer p)). \<not> always_excluded t e) \<and>
     (\<exists>e\<in>set (dp_exclusions (po_developer p)). \<not> never_excluded t e)"
proof (cases "dp_enabled (po_developer p) \<and> user_is_enabled (po_user p) \<and> dt_availability t = Available")
  case False
  then show ?thesis
    by (auto simp: decision_reasons_def outcome_of_reasons_def split: availability.splits)
next
  case True
  let ?es = "dp_exclusions (po_developer p)" and ?m = "\<lambda>e. match_delegation_exclusion t e (option_map (dt_options t))"
  define rest where "rest = (case current_selection (po_user p) of
          None \<Rightarrow> []
        | Some s \<Rightarrow> if selected_target t s then []
            else case s of
              All_Available _ _ \<Rightarrow>
                if dt_execution_mode t = Unknown_Fact then [Unknown_Mode_Unselected] else [User_Unselected]
            | Explicit_Targets _ \<Rightarrow> [User_Unselected])"
  have rest: "rest \<noteq> Developer_Unverifiable x # xs" for x xs
    by (auto simp: rest_def split: option.splits user_selection.splits)
  have reasons: "decision_reasons p t =
      map Developer_Excluded (take 10 (reasons_of Excluded t ?es))
      @ map Developer_Unverifiable (take 10 (reasons_of Unverifiable t ?es)) @ rest"
    using True by (simp add: decision_reasons_def exclusion_reasons_eq rest_def)
  have "outcome_of_reasons (decision_reasons p t) = Outcome_Unverifiable \<longleftrightarrow>
      reasons_of Excluded t ?es = [] \<and> reasons_of Unverifiable t ?es \<noteq> []"
    unfolding outcome_unverifiable_iff reasons
    using rest by (cases "reasons_of Excluded t ?es"; cases "reasons_of Unverifiable t ?es") auto
  also have "\<dots> \<longleftrightarrow> (\<forall>e\<in>set ?es. ?m e \<noteq> Excluded) \<and> (\<exists>e\<in>set ?es. ?m e = Unverifiable)"
    unfolding reasons_of_empty by blast
  also have "\<dots> \<longleftrightarrow> (\<forall>e\<in>set ?es. ?m e \<noteq> Excluded) \<and> (\<exists>e\<in>set ?es. ?m e \<noteq> Unmatched)"
    unfolding match_cases(2) by blast
  finally show ?thesis
    using True by (simp add: match_excluded_iff match_unmatched_iff)
qed

section \<open>The resolved policy\<close>

lemma resolve_Inr:
  assumes "resolve_delegation_policy catalog policy = Inr r"
  shows "r = resolve_with catalog (fill_policy policy) \<and> target_catalog_schema catalog \<and>
    policy_snapshot_schema policy"
  using assms
  by (auto simp: resolve_delegation_policy_def parse_delegation_target_catalog_def
      parse_delegation_policy_snapshot_def result_simps invalid_delegation_data_def split: if_splits)

lemma filled_selection:
  "user_is_enabled (po_user (fill_policy policy)) \<longleftrightarrow>
     (\<exists>s. current_selection (po_user (fill_policy policy)) = Some s)"
  by (auto simp: fill_policy_def user_is_enabled_def current_selection_def
      split: option.splits user_policy.splits elim!: fill_user.elims)

lemma identity_key_inject: "target_identity_key i = target_identity_key j \<longleftrightarrow> i = j"
  unfolding target_identity_key_def stringify_inject by (cases i; cases j) simp

lemma requested_distinct:
  assumes "policy_snapshot_schema policy"
  shows "distinct (requested_identities (po_user (fill_policy policy)))"
proof -
  have *: "distinct ids" if "identities_schema ids" for ids
    using that by (auto simp: identities_schema_def require_unique_values_iff distinct_map)
  show ?thesis
  proof (cases "pi_user policy")
    case None
    then show ?thesis by (simp add: fill_policy_def requested_identities_def current_selection_def)
  next
    case (Some u)
    then have "user_schema u" using assms by (simp add: policy_snapshot_schema_def)
    then show ?thesis
      using Some * by (cases u)
        (auto simp: fill_policy_def requested_identities_def current_selection_def
           split: option.splits user_selection.splits)
  qed
qed


text \<open>
  The results on target eligibility: the exclusion matcher against its reading over all facts a
  target may have, the exact set of allowed targets, the explanation of every decision, and the
  exact selections that no target answers.
\<close>

section \<open>Samples\<close>

definition sample_catalog_target ::
    "string \<Rightarrow> execution_mode semantic_fact \<Rightarrow> string list \<Rightarrow> delegation_target" where
  "sample_catalog_target name mode limitations = \<lparr>
     dt_reference = \<lparr>tr_catalog_id = ''c'', tr_catalog_revision = 1, tr_target_id = name,
       tr_target_revision = 1, tr_source_id = ''s'', tr_source_revision = 1\<rparr>,
     dt_instance_id = ''i'', dt_provider_key = ''codex'', dt_model_id = ''m'', dt_label = ''L'',
     dt_options = [\<lparr>to_key = ''effort'', to_option_id = ''high''\<rparr>], dt_reasoning = Unknown_Fact,
     dt_execution_mode = mode, dt_mapping_id = ''map'', dt_mapping_revision = 1,
     dt_availability = Available, dt_limitations = limitations,
     dt_configuration = Managed_Configuration ''r'', dt_before_first_turn = []\<rparr>"

definition sample_target_catalog :: target_catalog where
  "sample_target_catalog = \<lparr>ct_catalog_id = ''c'', ct_revision = 1,
     ct_targets = [sample_catalog_target ''a'' (Certified Standard_Mode) [],
                   sample_catalog_target ''b'' Unknown_Fact [''mode'']]\<rparr>"

definition sample_exclusion :: exclusion where
  "sample_exclusion = \<lparr>ex_exclusion_id = ''x'', ex_provider_key = Some ''codex'', ex_model_id = None,
     ex_target_id = None, ex_catalog_id = None, ex_reasoning = None,
     ex_execution_mode = Some Fast_Mode, ex_options = None\<rparr>"

definition sample_policy :: policy_input where
  "sample_policy = \<lparr>pi_revision = 1, pi_developer = Some (None, Some [sample_exclusion]),
     pi_user = Some (User_Enabled (Some (Explicit_Targets
       [\<lparr>id_catalog_id = ''c'', id_target_id = ''a''\<rparr>, \<lparr>id_catalog_id = ''c'', id_target_id = ''z''\<rparr>])))\<rparr>"

definition sample_resolution :: resolved_policy where
  "sample_resolution = resolve_with sample_target_catalog (fill_policy sample_policy)"

lemma sample_resolved:
  "resolve_delegation_policy sample_target_catalog sample_policy = Inr sample_resolution"
proof -
  have "(case resolve_delegation_policy sample_target_catalog sample_policy of Inr _ \<Rightarrow> True | Inl _ \<Rightarrow> False) = True"
    by code_simp
  then obtain r where r: "resolve_delegation_policy sample_target_catalog sample_policy = Inr r"
    by (auto split: sum.splits)
  then show ?thesis using resolve_Inr [OF r] by (simp add: sample_resolution_def)
qed

section \<open>Matching\<close>

text \<open>
  C19. The matcher of exclusions decides over all facts a target may have: it answers
  \<open>excluded\<close> exactly if the exclusion applies whatever the unknown reasoning and execution mode
  are, \<open>unmatched\<close> exactly if it applies under none of them, and \<open>unverifiable\<close> otherwise.
\<close>

theorem exclusion_match_exact:
  "match_delegation_exclusion t e (option_map (dt_options t)) =
     (if \<forall>reasoning mode. fact_allows (dt_reasoning t) reasoning \<longrightarrow>
           fact_allows (dt_execution_mode t) mode \<longrightarrow> exclusion_applies t e reasoning mode
      then Excluded
      else if \<forall>reasoning mode. fact_allows (dt_reasoning t) reasoning \<longrightarrow>
           fact_allows (dt_execution_mode t) mode \<longrightarrow> \<not> exclusion_applies t e reasoning mode
      then Unmatched else Unverifiable)"
  using match_excluded_iff [of t e] match_unmatched_iff [of t e]
  unfolding always_excluded_def [symmetric] never_excluded_def [symmetric]
  by (cases "match_delegation_exclusion t e (option_map (dt_options t))") simp_all

lemma exclusion_match_exact_witness:
  "\<not> (\<forall>reasoning mode. fact_allows Unknown_Fact reasoning \<longrightarrow> fact_allows Unknown_Fact mode \<longrightarrow>
      exclusion_applies (sample_catalog_target ''b'' Unknown_Fact [''mode'']) sample_exclusion reasoning mode)"
proof
  assume all: "\<forall>reasoning mode. fact_allows Unknown_Fact reasoning \<longrightarrow> fact_allows Unknown_Fact mode \<longrightarrow>
      exclusion_applies (sample_catalog_target ''b'' Unknown_Fact [''mode'']) sample_exclusion reasoning mode"
  have "match_delegation_exclusion (sample_catalog_target ''b'' Unknown_Fact [''mode'']) sample_exclusion
      (option_map (dt_options (sample_catalog_target ''b'' Unknown_Fact [''mode'']))) = Excluded"
    using all by (subst exclusion_match_exact) (simp add: sample_catalog_target_def)
  moreover have "match_delegation_exclusion (sample_catalog_target ''b'' Unknown_Fact [''mode'']) sample_exclusion
      (option_map (dt_options (sample_catalog_target ''b'' Unknown_Fact [''mode'']))) = Unverifiable"
    by code_simp
  ultimately show False by simp
qed

section \<open>Decisions\<close>

text \<open>
  C18. The allowed targets are exactly the targets of the catalog, in its order, that are
  available, that the end user selected, and that no developer exclusion could apply to, and
  none at all unless both the developer and the user enabled delegation. A target whose
  unknown facts might violate an exclusion is never allowed.
\<close>

theorem allowed_targets_exact:
  assumes "resolve_delegation_policy catalog policy = Inr r"
  shows "rp_allowed_targets r = filter (\<lambda>t.
      dp_enabled (po_developer (fill_policy policy)) \<and> dt_availability t = Available \<and>
      (\<exists>s. current_selection (po_user (fill_policy policy)) = Some s \<and> selected_target t s) \<and>
      (\<forall>e\<in>set (dp_exclusions (po_developer (fill_policy policy))). \<forall>reasoning mode.
         fact_allows (dt_reasoning t) reasoning \<and> fact_allows (dt_execution_mode t) mode \<longrightarrow>
         \<not> exclusion_applies t e reasoning mode)) (ct_targets catalog)"
proof -
  have r: "r = resolve_with catalog (fill_policy policy)" using resolve_Inr [OF assms] by blast
  have never: "never_excluded t e \<longleftrightarrow> (\<forall>reasoning mode.
      fact_allows (dt_reasoning t) reasoning \<and> fact_allows (dt_execution_mode t) mode \<longrightarrow>
      \<not> exclusion_applies t e reasoning mode)" for t e
    by (auto simp: never_excluded_def)
  show ?thesis
    unfolding r never [symmetric]
    using filled_selection [of policy]
    by (auto simp: resolve_with_def Let_def decide_target_def outcome_allowed_iff no_reasons_iff
        intro!: filter_cong)
qed

lemma allowed_targets_exact_witness:
  "\<exists>r. resolve_delegation_policy sample_target_catalog sample_policy = Inr r \<and>
     rp_allowed_targets r = [sample_catalog_target ''a'' (Certified Standard_Mode) []]"
proof -
  let ?a = "sample_catalog_target ''a'' (Certified Standard_Mode) []"
  have "rp_allowed_targets sample_resolution = [?a]"
    unfolding allowed_targets_exact [OF sample_resolved]
    by (auto simp: sample_target_catalog_def sample_policy_def fill_policy_def current_selection_def
        sample_catalog_target_def exclusion_applies_def identity_criteria_def sample_exclusion_def
        differs_def identity_key_inject reference_identity_def)
  then show ?thesis using sample_resolved by blast
qed

text \<open>
  There is one decision per target, in the order of the catalog, with at most ten reasons.
  A target is allowed exactly if its decision has no reason, and its outcome is unverifiable
  exactly if delegation is enabled, the target is available, no exclusion applies to it under
  every fact it may have, but one applies under some.
\<close>

theorem decisions_explained:
  assumes "resolve_delegation_policy catalog policy = Inr r"
  shows "list_all2 (\<lambda>t d. de_reference d = dt_reference t \<and> length (de_reasons d) \<le> 10 \<and>
      (de_outcome d = Outcome_Allowed \<longleftrightarrow> de_reasons d = []) \<and>
      (t \<in> set (rp_allowed_targets r) \<longleftrightarrow> de_outcome d = Outcome_Allowed) \<and>
      (de_outcome d = Outcome_Unverifiable \<longleftrightarrow>
         rp_enabled r \<and> dt_availability t = Available \<and>
         \<not> (\<exists>e\<in>set (dp_exclusions (po_developer (fill_policy policy))). always_excluded t e) \<and>
         (\<exists>e\<in>set (dp_exclusions (po_developer (fill_policy policy))). \<not> never_excluded t e)))
    (ct_targets catalog) (rp_decisions r)"
proof -
  have r: "r = resolve_with catalog (fill_policy policy)" using resolve_Inr [OF assms] by blast
  have decisions: "rp_decisions r = map (decide_target (fill_policy policy)) (ct_targets catalog)"
    by (simp add: r resolve_with_def Let_def)
  have allowed: "t \<in> set (rp_allowed_targets r) \<longleftrightarrow> t \<in> set (ct_targets catalog) \<and>
      de_outcome (decide_target (fill_policy policy) t) = Outcome_Allowed" for t
    by (auto simp: r resolve_with_def Let_def)
  have enabled: "rp_enabled r \<longleftrightarrow> dp_enabled (po_developer (fill_policy policy)) \<and>
      user_is_enabled (po_user (fill_policy policy))"
    by (simp add: r resolve_with_def Let_def)
  show ?thesis
    unfolding decisions list_all2_map2 list_all2_same allowed enabled
    by (simp add: decide_target_def Let_def outcome_allowed_iff reasons_unverifiable_iff)
qed

lemma decisions_explained_witness:
  "list_all2 (\<lambda>t d. de_reference d = dt_reference t \<and> length (de_reasons d) \<le> 10)
     (ct_targets sample_target_catalog) (rp_decisions sample_resolution)"
  by (rule list_all2_mono [OF decisions_explained [OF sample_resolved]]) blast

text \<open>
  The missing selections are exactly the targets the user asked for, each once and in the
  order of the request, whose catalog and target identity no target of the catalog has.
\<close>

theorem missing_selections_exact:
  assumes "resolve_delegation_policy catalog policy = Inr r"
  shows "rp_missing_selections r = filter (\<lambda>i. \<forall>t\<in>set (ct_targets catalog).
      \<not> (tr_catalog_id (dt_reference t) = id_catalog_id i \<and>
         tr_target_id (dt_reference t) = id_target_id i))
      (requested_identities (po_user (fill_policy policy))) \<and>
    distinct (rp_missing_selections r)"
proof -
  have r: "r = resolve_with catalog (fill_policy policy)" "policy_snapshot_schema policy"
    using resolve_Inr [OF assms] by blast+
  have same: "reference_identity x = i \<longleftrightarrow> tr_catalog_id x = id_catalog_id i \<and> tr_target_id x = id_target_id i"
    for x i by (cases i) (auto simp: reference_identity_def)
  have eq: "rp_missing_selections r = filter (\<lambda>i. \<forall>t\<in>set (ct_targets catalog).
      \<not> (tr_catalog_id (dt_reference t) = id_catalog_id i \<and>
         tr_target_id (dt_reference t) = id_target_id i))
      (requested_identities (po_user (fill_policy policy)))"
    unfolding r same [symmetric]
    by (auto simp: resolve_with_def Let_def identity_key_inject intro!: filter_cong)
  show ?thesis using eq requested_distinct [OF r(2)] by simp
qed

lemma missing_selections_exact_witness:
  "rp_missing_selections sample_resolution = [\<lparr>id_catalog_id = ''c'', id_target_id = ''z''\<rparr>]"
  unfolding missing_selections_exact [OF sample_resolved, THEN conjunct1]
  by (simp add: sample_target_catalog_def sample_policy_def fill_policy_def current_selection_def
      requested_identities_def sample_catalog_target_def)

end
