(* ===== verification/Output_Json.thy ===== *)
theory Output_Json
  imports Target_Catalog
begin

text \<open>
  Bounded JSON of structured outputs: \<open>agent-protocol/src/structuredOutput/constants.ts\<close>,
  \<open>boundedJson.ts\<close> and the issue collector of \<open>issues.ts\<close>.  The snapshot walks a plain
  document, counts nodes and serialized bytes as it goes and stops at the first violation; it is
  compared with the size of the whole serialized document.

  An object is the list of its members in the order of \<open>Reflect.ownKeys\<close>.  Below code unit 256
  a code point is a code unit and no surrogate occurs.  Numbers are integers; \<open>JSON.stringify\<close>
  writes them without an exponent below \<open>10^21\<close>.
\<close>

section \<open>Constants\<close>

definition output_schema_bytes_limit :: int where "output_schema_bytes_limit = 16384"
definition output_schema_nodes_limit :: int where "output_schema_nodes_limit = 256"
definition output_schema_depth_limit :: int where "output_schema_depth_limit = 8"
definition output_schema_properties_limit :: int where "output_schema_properties_limit = 100"
definition output_property_name_max_length :: int where "output_property_name_max_length = 128"
definition output_description_max_length :: int where "output_description_max_length = 2000"
definition output_enum_values_limit :: int where "output_enum_values_limit = 100"
definition output_length_bound_limit :: int where "output_length_bound_limit = 16384"
definition output_value_bytes_limit :: int where "output_value_bytes_limit = 16384"
definition output_value_nodes_limit :: int where "output_value_nodes_limit = 1024"
definition output_value_depth_limit :: int where "output_value_depth_limit = 16"
definition output_value_collection_limit :: int where "output_value_collection_limit = 100"
definition output_issues_limit :: nat where "output_issues_limit = 8"
definition output_issues_bytes_limit :: int where "output_issues_bytes_limit = 4096"
definition output_issue_code_max_length :: nat where "output_issue_code_max_length = 64"
definition output_issue_message_max_length :: nat where "output_issue_message_max_length = 256"
definition output_issue_path_segments_limit :: nat where "output_issue_path_segments_limit = 16"
definition output_issue_path_bytes_limit :: int where "output_issue_path_bytes_limit = 1024"

lemmas output_limits =
  output_schema_bytes_limit_def output_schema_nodes_limit_def output_schema_depth_limit_def
  output_schema_properties_limit_def output_property_name_max_length_def
  output_description_max_length_def output_enum_values_limit_def output_length_bound_limit_def
  output_value_bytes_limit_def output_value_nodes_limit_def output_value_depth_limit_def
  output_value_collection_limit_def output_issues_limit_def output_issues_bytes_limit_def
  output_issue_code_max_length_def output_issue_message_max_length_def
  output_issue_path_segments_limit_def output_issue_path_bytes_limit_def

section \<open>Issues (issues.ts)\<close>

datatype path_segment = Key_Segment string | Index_Segment int

type_synonym issue_path = "path_segment list"

record issue =
  is_code :: string
  is_path :: issue_path
  is_message :: string

fun json_of_segment :: "path_segment \<Rightarrow> json" where
  "json_of_segment (Key_Segment s) = J_Str s"
| "json_of_segment (Index_Segment n) = J_Num n"

definition json_of_issue :: "issue \<Rightarrow> json" where
  "json_of_issue i = J_Obj [(''code'', J_Str (is_code i)),
     (''path'', J_Arr (map json_of_segment (is_path i))), (''message'', J_Str (is_message i))]"

definition bounded_text :: "string \<Rightarrow> nat \<Rightarrow> string" where
  "bounded_text s n = take n s"

definition path_bytes :: "issue_path \<Rightarrow> int" where
  "path_bytes p = utf8_bytes (stringify (J_Arr (map json_of_segment p)))"

definition issues_bytes :: "issue list \<Rightarrow> int" where
  "issues_bytes is = utf8_bytes (stringify (J_Arr (map json_of_issue is)))"

text \<open>The loop of \<open>add\<close> over the segments of the given path.\<close>

fun bounded_path :: "issue_path \<Rightarrow> issue_path \<Rightarrow> issue_path" where
  "bounded_path path [] = path"
| "bounded_path path (s # ss) =
     (if length path = output_issue_path_segments_limit then path
      else if (case s of Key_Segment k \<Rightarrow> output_issue_path_bytes_limit < js_len k | _ \<Rightarrow> False) then path
      else if output_issue_path_bytes_limit < path_bytes (path @ [s]) then path
      else bounded_path (path @ [s]) ss)"

definition issues_full :: "issue list \<Rightarrow> bool" where
  "issues_full is \<longleftrightarrow> output_issues_limit \<le> length is"

definition add_issue :: "string \<Rightarrow> string \<Rightarrow> issue_path \<Rightarrow> issue list \<Rightarrow> issue list" where
  "add_issue code message input_path is =
     (if issues_full is then is
      else let i = \<lparr>is_code = bounded_text code output_issue_code_max_length,
                    is_path = bounded_path [] input_path,
                    is_message = bounded_text message output_issue_message_max_length\<rparr>
           in if issues_bytes (is @ [i]) \<le> output_issues_bytes_limit then is @ [i] else is)"

text \<open>\<open>normalizeAgentStructuredOutputIssues\<close> on plain issues.\<close>

definition normalize_issues :: "issue list \<Rightarrow> issue list" where
  "normalize_issues input =
     foldl (\<lambda>is i. add_issue (is_code i) (is_message i) (take output_issue_path_segments_limit (is_path i)) is)
       [] (take output_issues_limit input)"

subsection \<open>Bounds of the collector\<close>

definition issue_ok :: "issue \<Rightarrow> bool" where
  "issue_ok i \<longleftrightarrow> length (is_code i) \<le> output_issue_code_max_length \<and>
     length (is_message i) \<le> output_issue_message_max_length \<and>
     length (is_path i) \<le> output_issue_path_segments_limit \<and>
     path_bytes (is_path i) \<le> output_issue_path_bytes_limit"

definition issues_ok :: "issue list \<Rightarrow> bool" where
  "issues_ok is \<longleftrightarrow> length is \<le> output_issues_limit \<and> list_all issue_ok is \<and>
     (is \<noteq> [] \<longrightarrow> issues_bytes is \<le> output_issues_bytes_limit)"

lemma path_bytes_Nil: "path_bytes [] = 2"
  by (simp add: path_bytes_def utf8_char_bytes_def code_unit_def)

lemma bounded_path_ok:
  "path_bytes path \<le> output_issue_path_bytes_limit \<Longrightarrow>
   length path \<le> output_issue_path_segments_limit \<Longrightarrow>
   path_bytes (bounded_path path ss) \<le> output_issue_path_bytes_limit \<and>
   length (bounded_path path ss) \<le> output_issue_path_segments_limit"
  by (induction path ss rule: bounded_path.induct) auto

lemma issue_added_ok:
  "issue_ok \<lparr>is_code = bounded_text code output_issue_code_max_length, is_path = bounded_path [] path,
     is_message = bounded_text message output_issue_message_max_length\<rparr>"
  using bounded_path_ok [of "[]" path] path_bytes_Nil
  by (simp add: issue_ok_def bounded_text_def output_limits)

lemma add_issue_ok: "issues_ok is \<Longrightarrow> issues_ok (add_issue code message path is)"
  using issue_added_ok [of code path message]
  by (auto simp: add_issue_def issues_ok_def Let_def issues_full_def)

lemma issues_ok_Nil [simp]: "issues_ok []"
  by (simp add: issues_ok_def)

lemma add_issue_keeps: "\<exists>tail. add_issue code message path is = is @ tail"
  by (auto simp: add_issue_def Let_def)

text \<open>A code unit takes at most six bytes in a serialized string, so the first issue always fits.\<close>

lemma code_unit_char_of [simp]: "code_unit (char_of n) = n mod 256"
  by (simp add: code_unit_def)

lemma ascii_bytes: "code_unit c < 128 \<Longrightarrow> utf8_char_bytes c = 1"
  by (simp add: utf8_char_bytes_def)

lemma ascii_hex_digit: "d < 16 \<Longrightarrow> utf8_char_bytes (hex_digit d) = 1"
  by (rule ascii_bytes) (simp add: hex_digit_def)

text \<open>The bytes one code unit takes in the serialized string.\<close>

definition serialized_unit_bytes :: "char \<Rightarrow> int" where
  "serialized_unit_bytes c =
     (let u = code_unit c in
      if u = 34 \<or> u = 92 then 2
      else if u \<le> 31 then (if u \<in> {8, 9, 10, 12, 13} then 2 else 6)
      else if u \<le> 127 then 1 else 2)"

lemma utf8_escape: "utf8_bytes (json_escape c) = serialized_unit_bytes c"
proof -
  have letters: "utf8_char_bytes (CHR ''b'') = 1" "utf8_char_bytes (CHR ''t'') = 1"
    "utf8_char_bytes (CHR ''n'') = 1" "utf8_char_bytes (CHR ''f'') = 1" "utf8_char_bytes (CHR ''r'') = 1"
    "utf8_char_bytes (CHR ''u'') = 1" "utf8_char_bytes (CHR ''0'') = 1"
    "utf8_char_bytes (char_of (92 :: nat)) = 1"
    by (simp_all add: utf8_char_bytes_def code_unit_def)
  have hex: "utf8_char_bytes (hex_digit (code_unit c div 16)) = 1" if "code_unit c < 32"
    using that by (intro ascii_hex_digit) simp
  have hex': "utf8_char_bytes (hex_digit (code_unit c mod 16)) = 1"
    by (intro ascii_hex_digit) simp
  have low: "utf8_char_bytes c = 1" if "code_unit c \<le> 127"
    using that by (simp add: ascii_bytes)
  have high: "utf8_char_bytes c = 2" if "\<not> code_unit c \<le> 127"
    using that by (simp add: utf8_char_bytes_def)
  show ?thesis
    using low high hex hex' by (simp add: json_escape_def serialized_unit_bytes_def Let_def letters)
qed

lemma serialized_unit_bytes_range: "1 \<le> serialized_unit_bytes c" "serialized_unit_bytes c \<le> 6"
  by (simp_all add: serialized_unit_bytes_def Let_def)

lemma escaped_utf8_le: "utf8_bytes (json_escape c) \<le> 6"
  by (simp add: utf8_escape serialized_unit_bytes_range)

lemma quoted_utf8_le: "utf8_bytes (json_quote s) \<le> 2 + 6 * int (length s)"
proof -
  have "utf8_bytes (concat (map json_escape s)) \<le> 6 * int (length s)"
  proof (induction s)
    case (Cons c s)
    then show ?case using escaped_utf8_le [of c] by simp
  qed simp
  then show ?thesis by (simp add: json_quote_def utf8_char_bytes_def code_unit_def)
qed

lemma issue_fits: "issue_ok i \<Longrightarrow> issues_bytes [i] \<le> output_issues_bytes_limit"
proof -
  assume ok: "issue_ok i"
  have "issues_bytes [i] = 2 + utf8_bytes (stringify (json_of_issue i))"
    by (simp add: issues_bytes_def)
  moreover have "utf8_bytes (stringify (json_of_issue i)) =
      2 + 2 + (7 + utf8_bytes (json_quote (is_code i))) + (7 + path_bytes (is_path i))
      + (10 + utf8_bytes (json_quote (is_message i)))"
    unfolding json_of_issue_def utf8_J_Obj
    by (simp add: utf8_member_json path_bytes_def del: stringify.simps(5))
       (simp add: json_quote_def json_escape_def utf8_char_bytes_def code_unit_def Let_def)
  moreover have "utf8_bytes (json_quote (is_code i)) \<le> 2 + 6 * 64"
    using quoted_utf8_le [of "is_code i"] ok by (simp add: issue_ok_def output_limits)
  moreover have "utf8_bytes (json_quote (is_message i)) \<le> 2 + 6 * 256"
    using quoted_utf8_le [of "is_message i"] ok by (simp add: issue_ok_def output_limits)
  moreover have "path_bytes (is_path i) \<le> 1024"
    using ok by (simp add: issue_ok_def output_limits)
  ultimately show ?thesis by (simp add: output_limits)
qed

lemma add_first_issue: "add_issue code message path [] \<noteq> []"
  using issue_fits [OF issue_added_ok [of code path message]]
  by (simp add: add_issue_def Let_def issues_full_def output_issues_limit_def)

lemma add_issue_nonempty: "add_issue code message path is \<noteq> []"
  using add_first_issue add_issue_keeps [of code message path "is"] by (cases "is") auto

end
