(* ===== verification/Output_Snapshot.thy ===== *)
theory Output_Snapshot
  imports Output_Json
begin

text \<open>
  \<open>snapshotStructuredOutputJson\<close> of \<open>boundedJson.ts\<close> on plain data: nodes and serialized bytes
  are threaded through the walk, and the first violation ends it with one issue.
\<close>

section \<open>Strings (boundedJson.ts)\<close>

definition is_json_object :: "json \<Rightarrow> bool" where
  "is_json_object j = (case j of J_Obj _ \<Rightarrow> True | _ \<Rightarrow> False)"

primrec code_point_count :: "string \<Rightarrow> int \<Rightarrow> int" where
  "code_point_count [] n = n"
| "code_point_count (c # s) n = code_point_count s (n + 1)"

definition code_point_length :: "string \<Rightarrow> int" where
  "code_point_length s = code_point_count s 0"

definition is_output_property_name :: "string \<Rightarrow> bool" where
  "is_output_property_name s \<longleftrightarrow>
     0 < js_len s \<and> js_len s \<le> 2 * output_property_name_max_length \<and>
     s \<noteq> ''__proto__'' \<and> s \<noteq> ''constructor'' \<and> s \<noteq> ''prototype'' \<and>
     code_point_length s \<le> output_property_name_max_length"

primrec serialized_units :: "int \<Rightarrow> string \<Rightarrow> int \<Rightarrow> int" where
  "serialized_units bytes [] stop_after = bytes"
| "serialized_units bytes (c # s) stop_after =
     (let b = bytes + serialized_unit_bytes c
      in if stop_after < b then b else serialized_units b s stop_after)"

definition serialized_string_bytes :: "string \<Rightarrow> int \<Rightarrow> int" where
  "serialized_string_bytes s stop_after = serialized_units 2 s stop_after"

lemma code_point_length_eq [simp]: "code_point_length s = int (length s)"
proof -
  have "code_point_count s n = n + int (length s)" for n
    by (induction s arbitrary: n) simp_all
  then show ?thesis by (simp add: code_point_length_def)
qed

definition units_bytes :: "string \<Rightarrow> int" where
  "units_bytes s = sum_list (map serialized_unit_bytes s)"

lemma units_bytes_simps [simp]:
  "units_bytes [] = 0" "units_bytes (c # s) = serialized_unit_bytes c + units_bytes s"
  by (simp_all add: units_bytes_def)

lemma units_bytes_nonneg: "0 \<le> units_bytes s"
proof (induction s)
  case (Cons c s)
  then show ?case using serialized_unit_bytes_range(1) [of c] by simp
qed simp

lemma utf8_quote: "utf8_bytes (json_quote s) = 2 + units_bytes s"
proof -
  have "utf8_bytes (concat (map json_escape s)) = units_bytes s"
    by (induction s) (simp_all add: utf8_escape)
  then show ?thesis by (simp add: json_quote_def utf8_char_bytes_def code_unit_def)
qed

lemma serialized_units_exact:
  "serialized_units b s stop \<le> b + units_bytes s \<and>
   (b + units_bytes s \<le> stop \<longrightarrow> serialized_units b s stop = b + units_bytes s) \<and>
   (s \<noteq> [] \<longrightarrow> stop < b + units_bytes s \<longrightarrow> stop < serialized_units b s stop)"
proof (induction s arbitrary: b)
  case (Cons c s)
  let ?b = "b + serialized_unit_bytes c"
  show ?case
  proof (cases "stop < ?b")
    case True
    then show ?thesis using units_bytes_nonneg [of s] by (auto simp: Let_def)
  next
    case False
    then show ?thesis
      using Cons.IH [of ?b] by (cases s) (auto simp: Let_def add.assoc)
  qed
qed simp

text \<open>
  The count of \<open>serializedStringBytes\<close> is the size of the serialized string up to the point
  where it stops: it never overcounts, and it exceeds the limit exactly when the string does.
\<close>

lemma serialized_string_bytes_exact:
  "serialized_string_bytes s stop \<le> utf8_bytes (json_quote s)"
  "serialized_string_bytes s stop \<le> stop \<longleftrightarrow> utf8_bytes (json_quote s) \<le> stop"
  "utf8_bytes (json_quote s) \<le> stop \<Longrightarrow> serialized_string_bytes s stop = utf8_bytes (json_quote s)"
  using serialized_units_exact [of 2 s stop] units_bytes_nonneg [of s]
  by (cases s; auto simp: serialized_string_bytes_def utf8_quote)+

lemma serialized_string_bytes_min:
  "min (stop + 1) (utf8_bytes (json_quote s)) \<le> serialized_string_bytes s stop"
  using serialized_string_bytes_exact(2,3) [of s stop] by linarith

section \<open>The snapshot\<close>

record json_bounds =
  jb_max_bytes :: int
  jb_max_depth :: int
  jb_max_nodes :: int
  jb_max_collection :: int

text \<open>What \<open>fail\<close> is called with, and the two running counters.\<close>

type_synonym failure = "string \<times> string \<times> issue_path"

record snapshot_state =
  sn_bytes :: int
  sn_nodes :: int

definition limit_failure :: "string \<Rightarrow> issue_path \<Rightarrow> failure" where
  "limit_failure message path = (''output_limit_exceeded'', message, path)"

definition charge :: "json_bounds \<Rightarrow> int \<Rightarrow> issue_path \<Rightarrow> snapshot_state \<Rightarrow> failure + snapshot_state" where
  "charge bounds amount path st =
     (let st' = st\<lparr>sn_bytes := sn_bytes st + amount\<rparr>
      in if sn_bytes st' \<le> jb_max_bytes bounds then Inr st'
         else Inl (limit_failure ''JSON data exceeds the serialized UTF-8 byte limit.'' path))"

definition enter_node :: "json_bounds \<Rightarrow> int \<Rightarrow> issue_path \<Rightarrow> snapshot_state \<Rightarrow> failure + snapshot_state" where
  "enter_node bounds depth path st =
     (let st' = st\<lparr>sn_nodes := sn_nodes st + 1\<rparr>
      in if jb_max_nodes bounds < sn_nodes st' \<or> jb_max_depth bounds < depth
         then Inl (limit_failure ''JSON data exceeds the node or depth limit.'' path)
         else Inr st')"

function (sequential) snapshot_copy ::
    "json_bounds \<Rightarrow> int \<Rightarrow> issue_path \<Rightarrow> json \<Rightarrow> snapshot_state \<Rightarrow> failure + (json \<times> snapshot_state)"
  and snapshot_items ::
    "json_bounds \<Rightarrow> int \<Rightarrow> issue_path \<Rightarrow> int \<Rightarrow> json list \<Rightarrow> snapshot_state
      \<Rightarrow> failure + (json list \<times> snapshot_state)"
  and snapshot_members ::
    "json_bounds \<Rightarrow> int \<Rightarrow> issue_path \<Rightarrow> (string \<times> json) list \<Rightarrow> snapshot_state
      \<Rightarrow> failure + ((string \<times> json) list \<times> snapshot_state)" where
  "snapshot_copy bounds depth path j st =
     and_then (enter_node bounds depth path st) (\<lambda>st1.
       case j of
         J_Str s \<Rightarrow> and_then (charge bounds
           (serialized_string_bytes s (jb_max_bytes bounds - sn_bytes st1)) path st1) (\<lambda>st2. Inr (j, st2))
       | J_Arr xs \<Rightarrow>
           if jb_max_collection bounds < js_len xs then
             Inl (limit_failure ''JSON arrays exceed the collection limit.'' path)
           else and_then (charge bounds (2 + max 0 (js_len xs - 1)) path st1) (\<lambda>st2.
                and_then (snapshot_items bounds (depth + 1) path 0 xs st2) (\<lambda>(ys, st3).
                  Inr (J_Arr ys, st3)))
       | J_Obj kvs \<Rightarrow>
           if jb_max_collection bounds < js_len kvs then
             Inl (limit_failure ''JSON collections exceed the entry limit.'' path)
           else if list_ex (\<lambda>kv. \<not> is_output_property_name (fst kv)) kvs then
             Inl (''invalid_json_data'', ''JSON object property names must be bounded and safe.'', path)
           else and_then (charge bounds (2 + max 0 (js_len kvs - 1)) path st1) (\<lambda>st2.
                and_then (snapshot_members bounds (depth + 1) path kvs st2) (\<lambda>(lvs, st3).
                  Inr (J_Obj lvs, st3)))
       | _ \<Rightarrow> and_then (charge bounds (js_len (stringify j)) path st1) (\<lambda>st2. Inr (j, st2)))"
| "snapshot_items bounds depth path index [] st = Inr ([], st)"
| "snapshot_items bounds depth path index (x # xs) st =
     and_then (snapshot_copy bounds depth (path @ [Index_Segment index]) x st) (\<lambda>(y, st1).
     and_then (snapshot_items bounds depth path (index + 1) xs st1) (\<lambda>(ys, st2). Inr (y # ys, st2)))"
| "snapshot_members bounds depth path [] st = Inr ([], st)"
| "snapshot_members bounds depth path ((k, v) # kvs) st =
     and_then (charge bounds (serialized_string_bytes k (jb_max_bytes bounds - sn_bytes st) + 1)
                 (path @ [Key_Segment k]) st) (\<lambda>st1.
     and_then (snapshot_copy bounds depth (path @ [Key_Segment k]) v st1) (\<lambda>(w, st2).
     and_then (snapshot_members bounds depth path kvs st2) (\<lambda>(lvs, st3). Inr ((k, w) # lvs, st3))))"
  by pat_completeness auto
termination
  by (relation "measure (\<lambda>x. case x of
        Inl (b, d, p, j, st) \<Rightarrow> Suc (size j)
      | Inr (Inl (b, d, p, i, xs, st)) \<Rightarrow> Suc (size_list size xs)
      | Inr (Inr (b, d, p, kvs, st)) \<Rightarrow> Suc (size_list (size_prod (\<lambda>_. 0) size) kvs))") auto

declare snapshot_copy.simps [simp del]

definition snapshot_structured_output_json :: "json \<Rightarrow> json_bounds \<Rightarrow> issue list + json" where
  "snapshot_structured_output_json input bounds =
     (case snapshot_copy bounds 1 [] input \<lparr>sn_bytes = 0, sn_nodes = 0\<rparr> of
        Inl (code, message, path) \<Rightarrow> Inl (add_issue code message path [])
      | Inr (data, _) \<Rightarrow> Inr data)"

section \<open>Measures of a document\<close>

function (sequential) json_nodes :: "json \<Rightarrow> int" where
  "json_nodes (J_Arr xs) = 1 + sum_list (map json_nodes xs)"
| "json_nodes (J_Obj kvs) = 1 + sum_list (map (\<lambda>kv. json_nodes (snd kv)) kvs)"
| "json_nodes _ = 1"
  by pat_completeness auto
termination
  by (relation "measure size") (auto simp: less_Suc_eq_le size_list_estimation' size_member_json)

text \<open>The part of the contract that no counter carries: depth, collection sizes, property names.\<close>

function (sequential) output_shape :: "json_bounds \<Rightarrow> int \<Rightarrow> json \<Rightarrow> bool" where
  "output_shape bounds depth (J_Arr xs) \<longleftrightarrow> depth \<le> jb_max_depth bounds \<and>
     js_len xs \<le> jb_max_collection bounds \<and> list_all (output_shape bounds (depth + 1)) xs"
| "output_shape bounds depth (J_Obj kvs) \<longleftrightarrow> depth \<le> jb_max_depth bounds \<and>
     js_len kvs \<le> jb_max_collection bounds \<and>
     list_all (\<lambda>kv. is_output_property_name (fst kv)) kvs \<and>
     list_all (\<lambda>kv. output_shape bounds (depth + 1) (snd kv)) kvs"
| "output_shape bounds depth _ \<longleftrightarrow> depth \<le> jb_max_depth bounds"
  by pat_completeness auto
termination
  by (relation "measure (\<lambda>(b, d, j). size j)")
    (auto simp: less_Suc_eq_le size_list_estimation' size_member_json)

lemma sum_list_nonneg': "(\<And>x. x \<in> set xs \<Longrightarrow> 0 \<le> f x) \<Longrightarrow> 0 \<le> (\<Sum>x\<leftarrow>xs. f x :: int)"
  by (induction xs) (auto simp: add_nonneg_nonneg)

lemma json_nodes_pos: "1 \<le> json_nodes j"
proof (induction j rule: json_nodes.induct)
  case (1 xs)
  then have "0 \<le> (\<Sum>x\<leftarrow>xs. json_nodes x)" by (intro sum_list_nonneg') fastforce
  then show ?case by simp
next
  case (2 kvs)
  then have "0 \<le> (\<Sum>kv\<leftarrow>kvs. json_nodes (snd kv))" by (intro sum_list_nonneg') fastforce
  then show ?case by simp
qed simp_all

lemma sum_nodes_nonneg: "0 \<le> (\<Sum>a\<leftarrow>xs. json_nodes (f a))"
  by (intro sum_list_nonneg') (rule order_trans [OF zero_le_one json_nodes_pos])

section \<open>The walk measures the document\<close>

lemma enter_node_Inr [result_simps]:
  "enter_node bounds depth path st = Inr st' \<longleftrightarrow>
     st' = st\<lparr>sn_nodes := sn_nodes st + 1\<rparr> \<and> sn_nodes st + 1 \<le> jb_max_nodes bounds \<and>
     depth \<le> jb_max_depth bounds"
  by (auto simp: enter_node_def Let_def)

definition advance :: "int \<Rightarrow> int \<Rightarrow> snapshot_state \<Rightarrow> snapshot_state" where
  "advance bytes nodes st = st\<lparr>sn_bytes := sn_bytes st + bytes, sn_nodes := sn_nodes st + nodes\<rparr>"

lemma charge_Inr [result_simps]:
  "charge bounds n path st = Inr st' \<longleftrightarrow> st' = advance n 0 st \<and> sn_bytes st + n \<le> jb_max_bytes bounds"
  by (auto simp: charge_def Let_def advance_def)

definition within :: "json_bounds \<Rightarrow> snapshot_state \<Rightarrow> bool" where
  "within bounds st \<longleftrightarrow> sn_bytes st \<le> jb_max_bytes bounds \<and> sn_nodes st \<le> jb_max_nodes bounds"

lemma advance_simps [simp]:
  "sn_bytes (advance b n st) = sn_bytes st + b" "sn_nodes (advance b n st) = sn_nodes st + n"
  by (simp_all add: advance_def)

lemma advance_advance: "advance b n (advance c m st) = advance (c + b) (m + n) st"
  by (simp add: advance_def add.assoc)

lemma charge_string:
  "charge bounds (serialized_string_bytes s (jb_max_bytes bounds - sn_bytes st) + k) path st = Inr st' \<longleftrightarrow>
     st' = advance (utf8_bytes (json_quote s) + k) 0 st \<and>
     sn_bytes st + utf8_bytes (json_quote s) + k \<le> jb_max_bytes bounds" if "0 \<le> k"
proof -
  let ?stop = "jb_max_bytes bounds - sn_bytes st" and ?q = "utf8_bytes (json_quote s)"
  show ?thesis
  proof (cases "?q \<le> ?stop")
    case True
    then show ?thesis using that serialized_string_bytes_exact(3) [OF True]
      by (auto simp: charge_Inr algebra_simps)
  next
    case False
    then have "\<not> serialized_string_bytes s ?stop \<le> ?stop"
      using serialized_string_bytes_exact(2) [of s ?stop] by blast
    then show ?thesis using that False by (auto simp: charge_Inr)
  qed
qed

lemma snapshot_copy_iff:
  "within bounds st \<Longrightarrow> snapshot_copy bounds depth path j st = Inr (k, st') \<longleftrightarrow>
     k = j \<and> output_shape bounds depth j \<and>
     st' = advance (utf8_bytes (stringify j)) (json_nodes j) st \<and> within bounds st'"
  "within bounds st \<Longrightarrow> snapshot_items bounds depth path i xs st = Inr (ys, st') \<longleftrightarrow>
     ys = xs \<and> list_all (output_shape bounds depth) xs \<and>
     st' = advance (\<Sum>a\<leftarrow>xs. utf8_bytes (stringify a)) (\<Sum>a\<leftarrow>xs. json_nodes a) st \<and> within bounds st'"
  "within bounds st \<Longrightarrow> snapshot_members bounds depth path kvs st = Inr (lvs, st') \<longleftrightarrow>
     lvs = kvs \<and> list_all (\<lambda>kv. output_shape bounds depth (snd kv)) kvs \<and>
     st' = advance (\<Sum>a\<leftarrow>kvs. utf8_bytes (member_json a)) (\<Sum>a\<leftarrow>kvs. json_nodes (snd a)) st \<and> within bounds st'"
proof (induction bounds depth path j st and bounds depth path i xs st and bounds depth path kvs st
    arbitrary: k st' and ys st' and lvs st'
    rule: snapshot_copy_snapshot_items_snapshot_members.induct)
  case (1 bounds depth path j st)
  let ?st1 = "st\<lparr>sn_nodes := sn_nodes st + 1\<rparr>"
  show ?case
  proof (cases "sn_nodes st + 1 \<le> jb_max_nodes bounds \<and> depth \<le> jb_max_depth bounds")
    case False
    have "\<not> (output_shape bounds depth j \<and> within bounds (advance (utf8_bytes (stringify j)) (json_nodes j) st))"
      using False json_nodes_pos [of j] by (cases j) (auto simp: within_def)
    moreover have "snapshot_copy bounds depth path j st \<noteq> Inr (k, st')"
      using False by (auto simp: snapshot_copy.simps [of bounds depth] result_simps)
    ultimately show ?thesis by blast
  next
    case True
    then have enter: "enter_node bounds depth path st = Inr ?st1" by (simp add: enter_node_Inr)
    have w: "within bounds ?st1" using True "1.prems" by (simp add: within_def)
    have step: "advance b n ?st1 = advance b (n + 1) st" for b n by (simp add: advance_def)
    show ?thesis
    proof (cases j)
      case (J_Arr xs)
      let ?c = "2 + max 0 (js_len xs - 1)"
      have eq: "snapshot_copy bounds depth path j st = Inr (k, st') \<longleftrightarrow>
          \<not> jb_max_collection bounds < js_len xs \<and> sn_bytes ?st1 + ?c \<le> jb_max_bytes bounds \<and>
          (\<exists>ys. k = J_Arr ys \<and> snapshot_items bounds (depth + 1) path 0 xs (advance ?c 0 ?st1) = Inr (ys, st'))"
        by (auto simp: snapshot_copy.simps [of bounds depth] enter J_Arr result_simps)
      show ?thesis
      proof (cases "\<not> jb_max_collection bounds < js_len xs \<and> sn_bytes ?st1 + ?c \<le> jb_max_bytes bounds")
        case outer: True
        have "within bounds (advance ?c 0 ?st1)" using w outer by (simp add: within_def)
        note ih = "1.IH"(1) [OF J_Arr _ this]
        show ?thesis
          unfolding eq using outer True ih
          by (auto simp: J_Arr utf8_J_Arr step advance_advance comp_def add.commute simp del: stringify.simps)
      next
        case False
        then show ?thesis
          unfolding eq using sum_utf8_nonneg [of stringify xs]
          by (auto simp: J_Arr utf8_J_Arr within_def comp_def simp del: stringify.simps)
      qed
    next
      case (J_Obj kvs)
      let ?c = "2 + max 0 (js_len kvs - 1)"
      let ?ok = "\<not> jb_max_collection bounds < js_len kvs \<and>
          \<not> list_ex (\<lambda>kv. \<not> is_output_property_name (fst kv)) kvs \<and> sn_bytes ?st1 + ?c \<le> jb_max_bytes bounds"
      have eq: "snapshot_copy bounds depth path j st = Inr (k, st') \<longleftrightarrow> ?ok \<and>
          (\<exists>lvs. k = J_Obj lvs \<and> snapshot_members bounds (depth + 1) path kvs (advance ?c 0 ?st1) = Inr (lvs, st'))"
        by (auto simp: snapshot_copy.simps [of bounds depth] enter J_Obj result_simps)
      show ?thesis
      proof (cases ?ok)
        case outer: True
        have "within bounds (advance ?c 0 ?st1)" using w outer by (simp add: within_def)
        note ih = "1.IH"(2) [OF J_Obj _ _ this]
        show ?thesis
          unfolding eq using outer True ih
          by (auto simp: J_Obj utf8_J_Obj step advance_advance comp_def add.commute list_ex_iff list_all_iff
              simp del: stringify.simps)
      next
        case False
        then show ?thesis
          unfolding eq using sum_utf8_nonneg [of member_json kvs]
          by (auto simp: J_Obj utf8_J_Obj within_def comp_def list_ex_iff list_all_iff simp del: stringify.simps)
      qed
    next
      case (J_Str s)
      show ?thesis
        using True w charge_string [of 0 bounds s ?st1 path]
        by (auto simp: snapshot_copy.simps [of bounds depth] enter J_Str result_simps step within_def)
    qed (use True "1.prems" in \<open>auto simp: snapshot_copy.simps [of bounds depth] enter result_simps
          utf8_scalar advance_def within_def simp del: stringify.simps\<close>)
  qed
next
  case (3 bounds depth path i x xs st)
  let ?b = "utf8_bytes (stringify x)" and ?n = "json_nodes x"
  have mono: "within bounds (advance ?b ?n st)"
    if "within bounds (advance (?b + (\<Sum>a\<leftarrow>xs. utf8_bytes (stringify a))) (?n + (\<Sum>a\<leftarrow>xs. json_nodes a)) st)"
    using that sum_utf8_nonneg [of stringify xs] sum_nodes_nonneg [of "\<lambda>x. x" xs] by (simp add: within_def)
  have head: "snapshot_copy bounds depth (path @ [Index_Segment i]) x st = Inr (y, st1) \<longleftrightarrow>
      y = x \<and> output_shape bounds depth x \<and> st1 = advance ?b ?n st \<and> within bounds st1" for y st1
    by (rule "3.IH"(1) [OF "3.prems"])
  have tail: "snapshot_items bounds depth path (i + 1) xs (advance ?b ?n st) = Inr (zs, st2) \<longleftrightarrow>
      zs = xs \<and> list_all (output_shape bounds depth) xs \<and>
      st2 = advance (\<Sum>a\<leftarrow>xs. utf8_bytes (stringify a)) (\<Sum>a\<leftarrow>xs. json_nodes a) (advance ?b ?n st) \<and>
      within bounds st2" if "within bounds (advance ?b ?n st)" for zs st2
    using "3.IH"(2) that by blast
  show ?case
    using mono by (auto simp: and_then_eq_Inr head tail advance_advance split: prod.splits)
next
  case (5 bounds depth path key v kvs st)
  let ?q = "utf8_bytes (json_quote key) + 1"
  let ?b = "utf8_bytes (stringify v)" and ?n = "json_nodes v"
  let ?B = "\<Sum>a\<leftarrow>kvs. utf8_bytes (member_json a)" and ?N = "\<Sum>a\<leftarrow>kvs. json_nodes (snd a)"
  have rest: "0 \<le> ?B" "0 \<le> ?N" "0 \<le> ?b" "1 \<le> ?n"
    by (simp_all add: sum_utf8_nonneg sum_nodes_nonneg json_nodes_pos)
  have key: "charge bounds (serialized_string_bytes key (jb_max_bytes bounds - sn_bytes st) + 1)
      (path @ [Key_Segment key]) st = Inr st1 \<longleftrightarrow> st1 = advance ?q 0 st \<and> within bounds (advance ?q 0 st)" for st1
    using charge_string [of 1 bounds key st] "5.prems" by (auto simp: within_def)
  have mono1: "within bounds (advance ?q 0 st)" if "within bounds (advance (?q + ?b) ?n st)"
    using that rest "5.prems" unfolding within_def advance_simps by linarith
  have mono2: "within bounds (advance (?q + ?b) ?n st)"
    if "within bounds (advance (?q + ?b + ?B) (?n + ?N) st)"
    using that rest unfolding within_def advance_simps by linarith
  have head: "snapshot_copy bounds depth (path @ [Key_Segment key]) v (advance ?q 0 st) = Inr (w, st2) \<longleftrightarrow>
      w = v \<and> output_shape bounds depth v \<and> st2 = advance (?q + ?b) ?n st \<and> within bounds st2"
    if w: "within bounds (advance ?q 0 st)" for w st2
    using "5.IH"(1) [OF w] by (simp add: advance_advance)
  have tail: "snapshot_members bounds depth path kvs (advance (?q + ?b) ?n st) = Inr (lvs, st3) \<longleftrightarrow>
      lvs = kvs \<and> list_all (\<lambda>kv. output_shape bounds depth (snd kv)) kvs \<and>
      st3 = advance (?q + ?b + ?B) (?n + ?N) st \<and> within bounds st3"
    if w: "within bounds (advance (?q + ?b) ?n st)" for lvs st3
    using "5.IH"(2) [OF w] by (simp add: advance_advance)
  have eq: "snapshot_members bounds depth path ((key, v) # kvs) st = Inr (lvs, st') \<longleftrightarrow>
      within bounds (advance ?q 0 st) \<and> (\<exists>w st2 ls. snapshot_copy bounds depth (path @ [Key_Segment key]) v (advance ?q 0 st) = Inr (w, st2)
        \<and> snapshot_members bounds depth path kvs st2 = Inr (ls, st') \<and> lvs = (key, w) # ls)"
    by (auto simp: and_then_eq_Inr key split: prod.splits)
  have total: "(\<Sum>a\<leftarrow>(key, v) # kvs. utf8_bytes (member_json a)) = ?q + ?b + ?B"
    "(\<Sum>a\<leftarrow>(key, v) # kvs. json_nodes (snd a)) = ?n + ?N"
    by (simp_all add: utf8_member_json)
  show ?case
  proof (cases "within bounds (advance ?q 0 st)")
    case P0: True
    show ?thesis
    proof (cases "within bounds (advance (?q + ?b) ?n st)")
      case P1: True
      have "snapshot_members bounds depth path ((key, v) # kvs) st = Inr (lvs, st') \<longleftrightarrow>
          output_shape bounds depth v \<and> (\<exists>ls. snapshot_members bounds depth path kvs
            (advance (?q + ?b) ?n st) = Inr (ls, st') \<and> lvs = (key, v) # ls)"
        unfolding eq head [OF P0] using P0 P1 by blast
      also have "\<dots> \<longleftrightarrow> output_shape bounds depth v \<and> lvs = (key, v) # kvs \<and>
          list_all (\<lambda>kv. output_shape bounds depth (snd kv)) kvs \<and>
          st' = advance (?q + ?b + ?B) (?n + ?N) st \<and> within bounds st'"
        unfolding tail [OF P1] by blast
      finally show ?thesis unfolding total by auto
    next
      case False
      then show ?thesis unfolding eq total using P0 mono2 by (auto simp only: head [OF P0])
    qed
  next
    case False
    then show ?thesis unfolding eq total using mono1 mono2 by blast
  qed
qed (auto simp: advance_def)


lemma snapshot_iff:
  assumes "0 \<le> jb_max_bytes bounds" and "0 \<le> jb_max_nodes bounds"
  shows "snapshot_structured_output_json input bounds = Inr data \<longleftrightarrow>
    data = input \<and> output_shape bounds 1 input \<and>
    utf8_bytes (stringify input) \<le> jb_max_bytes bounds \<and> json_nodes input \<le> jb_max_nodes bounds"
proof -
  have "within bounds \<lparr>sn_bytes = 0, sn_nodes = 0\<rparr>" using assms by (simp add: within_def)
  note copy = snapshot_copy_iff(1) [OF this, of 1 "[]" input]
  have "snapshot_structured_output_json input bounds = Inr data \<longleftrightarrow>
      (\<exists>st'. snapshot_copy bounds 1 [] input \<lparr>sn_bytes = 0, sn_nodes = 0\<rparr> = Inr (data, st'))"
    by (auto simp: snapshot_structured_output_json_def split: sum.splits)
  then show ?thesis unfolding copy by (auto simp: within_def)
qed

lemma snapshot_failure:
  "snapshot_structured_output_json input bounds = Inl is \<Longrightarrow> is \<noteq> [] \<and> issues_ok is"
  using add_issue_ok [OF issues_ok_Nil]
  by (auto simp: snapshot_structured_output_json_def add_first_issue split: sum.splits)

text \<open>
  The snapshot of a document is the document itself exactly if its serialization takes at
  most the given bytes, it has at most the given number of nodes, and depth, collection sizes
  and property names are within bounds; every other document is refused with at least one issue,
  in at most eight issues of at most 4096 bytes.
\<close>

theorem snapshot_exact:
  assumes "0 \<le> jb_max_bytes bounds" and "0 \<le> jb_max_nodes bounds"
  shows "case snapshot_structured_output_json input bounds of
      Inr data \<Rightarrow> data = input \<and> output_shape bounds 1 input \<and>
        utf8_bytes (stringify input) \<le> jb_max_bytes bounds \<and> json_nodes input \<le> jb_max_nodes bounds
    | Inl is \<Rightarrow> \<not> (output_shape bounds 1 input \<and>
        utf8_bytes (stringify input) \<le> jb_max_bytes bounds \<and> json_nodes input \<le> jb_max_nodes bounds) \<and>
        is \<noteq> [] \<and> length is \<le> 8 \<and> issues_bytes is \<le> 4096"
proof (cases "snapshot_structured_output_json input bounds")
  case (Inl iss)
  have "iss \<noteq> []" "issues_ok iss" using snapshot_failure [OF Inl] by blast+
  moreover have "snapshot_structured_output_json input bounds \<noteq> Inr input" using Inl by simp
  ultimately show ?thesis
    using Inl unfolding snapshot_iff [OF assms] by (simp add: issues_ok_def output_limits)
next
  case (Inr data)
  then show ?thesis using snapshot_iff [OF assms, of input data] by simp
qed

lemma snapshot_exact_witness:
  "snapshot_structured_output_json (J_Obj [(''a'', J_Num 1)]) \<lparr>jb_max_bytes = 7, jb_max_depth = 2,
     jb_max_nodes = 2, jb_max_collection = 1\<rparr> = Inr (J_Obj [(''a'', J_Num 1)]) \<and>
   utf8_bytes (stringify (J_Obj [(''a'', J_Num 1)])) \<le> 7"
proof -
  let ?j = "J_Obj [(''a'', J_Num 1)]"
  let ?b = "\<lparr>jb_max_bytes = 7, jb_max_depth = 2, jb_max_nodes = 2, jb_max_collection = 1\<rparr>"
  have "snapshot_structured_output_json ?j ?b = Inr ?j" by code_simp
  then show ?thesis using snapshot_exact [of ?b ?j] by simp
qed

end
