(* ===== verification/Output_Schema.thy ===== *)
theory Output_Schema
  imports Output_Snapshot
begin

text \<open>
  The portable output schema: \<open>agent-protocol/src/structuredOutput/types.ts\<close> and the admission of
  \<open>schemaAdmission.ts\<close>, which turns a JSON document into a schema node by node, refuses every
  keyword outside the profile, and refuses schemas whose smallest value is over the limits.
\<close>

section \<open>Schemas (types.ts)\<close>

datatype output_schema =
    Object_Schema "(string \<times> output_schema) list" "string list" "string option"
  | Array_Schema output_schema "int option" "int option" "string option"
  | String_Schema "string list option" "int option" "int option" "string option"
  | Number_Schema bool "int option" "int option" "string option"
  | Boolean_Schema "string option"
  | Null_Schema "string option"
  | Nullable_Schema output_schema output_schema "string option"

type_synonym schema_error = "string \<times> issue_path"

definition invalid_schema :: "string \<Rightarrow> issue_path \<Rightarrow> schema_error + 'a" where
  "invalid_schema message path = Inl (message, path)"

lemma invalid_schema_not_Inr [simp]: "invalid_schema m p \<noteq> Inr x" "Inr x \<noteq> invalid_schema m p"
  by (simp_all add: invalid_schema_def)

section \<open>Checks of one node (schemaAdmission.ts)\<close>

definition check_keys :: "(string \<times> json) list \<Rightarrow> string list \<Rightarrow> issue_path \<Rightarrow> schema_error + unit" where
  "check_keys source allowed path =
     (if list_ex (\<lambda>kv. fst kv \<notin> set allowed) source
      then invalid_schema ''Schema contains an unsupported keyword.'' path else Inr ())"

definition schema_description ::
    "(string \<times> json) list \<Rightarrow> issue_path \<Rightarrow> schema_error + string option" where
  "schema_description source path =
     (case map_of source ''description'' of
        None \<Rightarrow> Inr None
      | Some (J_Str s) \<Rightarrow>
          if output_description_max_length < code_point_length s
          then invalid_schema ''Schema descriptions must be strings within the code-point limit.''
                 (path @ [Key_Segment ''description''])
          else Inr (Some s)
      | Some _ \<Rightarrow> invalid_schema ''Schema descriptions must be strings within the code-point limit.''
                 (path @ [Key_Segment ''description'']))"

definition schema_bound ::
    "(string \<times> json) list \<Rightarrow> string \<Rightarrow> issue_path \<Rightarrow> bool \<Rightarrow> schema_error + int option" where
  "schema_bound source key path integer =
     (case map_of source key of
        None \<Rightarrow> Inr None
      | Some (J_Num n) \<Rightarrow>
          if integer \<and> (\<not> safe_integer n \<or> n < 0 \<or> output_length_bound_limit < n)
          then invalid_schema
            ''Length bounds must be nonnegative safe integers within the profile ceiling.''
            (path @ [Key_Segment key])
          else Inr (Some n)
      | Some _ \<Rightarrow> invalid_schema
          (if integer then ''Length bounds must be nonnegative safe integers within the profile ceiling.''
           else ''Numeric bounds must be finite numbers.'') (path @ [Key_Segment key]))"

definition check_ordered :: "int option \<Rightarrow> int option \<Rightarrow> issue_path \<Rightarrow> schema_error + unit" where
  "check_ordered lo hi path =
     (case (lo, hi) of
        (Some a, Some b) \<Rightarrow> if b < a then invalid_schema ''Schema minimum must not exceed maximum.'' path
                            else Inr ()
      | _ \<Rightarrow> Inr ())"

definition is_null_schema :: "output_schema \<Rightarrow> bool" where
  "is_null_schema s = (case s of Null_Schema _ \<Rightarrow> True | _ \<Rightarrow> False)"

definition is_non_null_schema :: "output_schema \<Rightarrow> bool" where
  "is_non_null_schema s = (case s of Null_Schema _ \<Rightarrow> False | Nullable_Schema _ _ _ \<Rightarrow> False | _ \<Rightarrow> True)"

definition source_type :: "(string \<times> json) list \<Rightarrow> string option" where
  "source_type source = (case map_of source ''type'' of Some (J_Str t) \<Rightarrow> Some t | _ \<Rightarrow> None)"

text \<open>The two branches of \<open>anyOf\<close>, put in the order non-null, null.\<close>

definition nullable_node ::
    "output_schema \<Rightarrow> output_schema \<Rightarrow> string option \<Rightarrow> issue_path \<Rightarrow> schema_error + output_schema" where
  "nullable_node first second d path =
     (if is_non_null_schema first \<and> is_null_schema second then Inr (Nullable_Schema first second d)
      else if is_null_schema first \<and> is_non_null_schema second then Inr (Nullable_Schema second first d)
      else invalid_schema
        ''Nullable schemas require one non-null branch and prohibit nested nullable wrappers.''
        (path @ [Key_Segment ''anyOf'']))"

fun required_names ::
    "(string \<times> json) list \<Rightarrow> issue_path \<Rightarrow> string list \<Rightarrow> json list \<Rightarrow> schema_error + string list" where
  "required_names properties path seen [] = Inr seen"
| "required_names properties path seen (c # cs) =
     (case c of
        J_Str name \<Rightarrow>
          if name \<in> set seen \<or> \<not> has_key properties name
          then invalid_schema ''Required keys must name every property exactly once.''
                 (path @ [Key_Segment ''required''])
          else required_names properties path (set_add name seen) cs
      | _ \<Rightarrow> invalid_schema ''Required keys must name every property exactly once.''
               (path @ [Key_Segment ''required'']))"

text \<open>Everything an object node checks before it admits its properties.\<close>

definition object_header ::
    "(string \<times> json) list \<Rightarrow> issue_path \<Rightarrow> bool \<Rightarrow> schema_error + unit" where
  "object_header source path root =
     and_then (check_keys source ([''type'', ''properties'', ''required'', ''additionalProperties'',
         ''description''] @ (if root then [''$schema''] else [])) path) (\<lambda>_.
       case map_of source ''properties'' of
         Some (J_Obj properties) \<Rightarrow>
           (case (map_of source ''additionalProperties'', map_of source ''required'') of
              (Some (J_Bool False), Some (J_Arr required)) \<Rightarrow>
                and_then (required_names properties path [] required) (\<lambda>seen.
                  if js_len seen \<noteq> js_len properties
                  then invalid_schema ''Required keys must name every property exactly once.''
                         (path @ [Key_Segment ''required''])
                  else Inr ())
            | _ \<Rightarrow> invalid_schema
                ''Object schemas must be closed and explicitly require every property.'' path)
       | _ \<Rightarrow> invalid_schema ''A schema node must be a plain object.'' (path @ [Key_Segment ''properties'']))"

definition array_header ::
    "(string \<times> json) list \<Rightarrow> issue_path \<Rightarrow> schema_error + (int option \<times> int option)" where
  "array_header source path =
     and_then (check_keys source [''type'', ''items'', ''minItems'', ''maxItems'', ''description''] path) (\<lambda>_.
     and_then (schema_bound source ''minItems'' path True) (\<lambda>lo.
     and_then (schema_bound source ''maxItems'' path True) (\<lambda>hi.
     and_then (check_ordered lo hi path) (\<lambda>_.
       if (case lo of None \<Rightarrow> False | Some n \<Rightarrow> output_value_collection_limit < n)
       then invalid_schema ''Array minimum cannot exceed the value collection limit.''
              (path @ [Key_Segment ''minItems''])
       else Inr (lo, hi)))))"

definition outside_bounds :: "int option \<Rightarrow> int option \<Rightarrow> int \<Rightarrow> bool" where
  "outside_bounds lo hi n \<longleftrightarrow>
     (case lo of None \<Rightarrow> False | Some a \<Rightarrow> n < a) \<or> (case hi of None \<Rightarrow> False | Some b \<Rightarrow> b < n)"

fun enum_values ::
    "int option \<Rightarrow> int option \<Rightarrow> issue_path \<Rightarrow> string list \<Rightarrow> json list \<Rightarrow> schema_error + string list" where
  "enum_values lo hi path seen [] = Inr seen"
| "enum_values lo hi path seen (c # cs) =
     (case c of
        J_Str s \<Rightarrow>
          if s \<in> set seen then invalid_schema ''String enums require unique strings.''
                                 (path @ [Key_Segment ''enum''])
          else if outside_bounds lo hi (code_point_length s) then
            invalid_schema ''Every enum value must satisfy the string length bounds.''
              (path @ [Key_Segment ''enum''])
          else enum_values lo hi path (seen @ [s]) cs
      | _ \<Rightarrow> invalid_schema ''String enums require unique strings.'' (path @ [Key_Segment ''enum'']))"

definition string_enum ::
    "(string \<times> json) list \<Rightarrow> int option \<Rightarrow> int option \<Rightarrow> issue_path \<Rightarrow> schema_error + string list option" where
  "string_enum source lo hi path =
     (case map_of source ''enum'' of
        None \<Rightarrow> Inr None
      | Some (J_Arr candidates) \<Rightarrow>
          if candidates = [] \<or> output_enum_values_limit < js_len candidates
          then invalid_schema ''String enums must be nonempty and bounded.'' (path @ [Key_Segment ''enum''])
          else and_then (enum_values lo hi path [] candidates) (\<lambda>values. Inr (Some values))
      | Some _ \<Rightarrow>
          invalid_schema ''String enums must be nonempty and bounded.'' (path @ [Key_Segment ''enum'']))"

definition string_node ::
    "(string \<times> json) list \<Rightarrow> string option \<Rightarrow> issue_path \<Rightarrow> schema_error + output_schema" where
  "string_node source d path =
     and_then (check_keys source [''type'', ''enum'', ''minLength'', ''maxLength'', ''description''] path) (\<lambda>_.
     and_then (schema_bound source ''minLength'' path True) (\<lambda>lo.
     and_then (schema_bound source ''maxLength'' path True) (\<lambda>hi.
     and_then (check_ordered lo hi path) (\<lambda>_.
     and_then (string_enum source lo hi path) (\<lambda>values. Inr (String_Schema values lo hi d))))))"

text \<open>The bounds are integers, so rounding them inward leaves them as they are.\<close>

definition number_node ::
    "(string \<times> json) list \<Rightarrow> bool \<Rightarrow> string option \<Rightarrow> issue_path \<Rightarrow> schema_error + output_schema" where
  "number_node source integer d path =
     and_then (check_keys source [''type'', ''minimum'', ''maximum'', ''description''] path) (\<lambda>_.
     and_then (schema_bound source ''minimum'' path False) (\<lambda>lo.
     and_then (schema_bound source ''maximum'' path False) (\<lambda>hi.
     and_then (check_ordered lo hi path) (\<lambda>_. Inr (Number_Schema integer lo hi d)))))"

definition plain_node ::
    "(string \<times> json) list \<Rightarrow> output_schema \<Rightarrow> issue_path \<Rightarrow> schema_error + output_schema" where
  "plain_node source s path =
     and_then (check_keys source [''type'', ''description''] path) (\<lambda>_. Inr s)"

text \<open>The cases of the type switch without children.\<close>

definition leaf_node ::
    "(string \<times> json) list \<Rightarrow> string option \<Rightarrow> issue_path \<Rightarrow> int \<Rightarrow> schema_error + (output_schema \<times> int)" where
  "leaf_node source d path nodes =
     (if source_type source = Some ''string'' then
        and_then (string_node source d path) (\<lambda>s. Inr (s, nodes))
      else if source_type source = Some ''number'' then
        and_then (number_node source False d path) (\<lambda>s. Inr (s, nodes))
      else if source_type source = Some ''integer'' then
        and_then (number_node source True d path) (\<lambda>s. Inr (s, nodes))
      else if source_type source = Some ''boolean'' then
        and_then (plain_node source (Boolean_Schema d) path) (\<lambda>s. Inr (s, nodes))
      else if source_type source = Some ''null'' then
        and_then (plain_node source (Null_Schema d) path) (\<lambda>s. Inr (s, nodes))
      else invalid_schema ''Schema node type is unsupported.'' (path @ [Key_Segment ''type'']))"

definition root_checks :: "(string \<times> json) list \<Rightarrow> issue_path \<Rightarrow> bool \<Rightarrow> schema_error + unit" where
  "root_checks source path root =
     (if root \<and> source_type source \<noteq> Some ''object''
      then invalid_schema ''The output schema root must be an object.'' path
      else if root \<and> has_key source ''$schema'' \<and>
           map_of source ''$schema'' \<noteq> Some (J_Str ''https://json-schema.org/draft/2020-12/schema'')
      then invalid_schema ''Only JSON Schema draft 2020-12 is supported.'' (path @ [Key_Segment ''$schema''])
      else Inr ())"

section \<open>Admission of a node\<close>

lemma size_of_member: "map_of kvs k = Some v \<Longrightarrow> size v \<le> size_list (size_prod (\<lambda>_. 0) size) kvs"
  by (drule map_of_SomeD) (rule size_member_json)

text \<open>\<open>node\<close>; the last argument and the second result are the running count of nodes.\<close>

function (sequential) admit_node ::
    "json \<Rightarrow> int \<Rightarrow> issue_path \<Rightarrow> bool \<Rightarrow> int \<Rightarrow> schema_error + (output_schema \<times> int)"
  and admit_properties ::
    "(string \<times> json) list \<Rightarrow> int \<Rightarrow> issue_path \<Rightarrow> int
      \<Rightarrow> schema_error + ((string \<times> output_schema) list \<times> int)" where
  "admit_node v depth path root nodes =
     (if output_schema_nodes_limit < nodes + 1 \<or> output_schema_depth_limit < depth
      then invalid_schema ''Schema exceeds the node or depth limit.'' path
      else case v of
        J_Obj source \<Rightarrow>
          and_then (schema_description source path) (\<lambda>d.
          if has_key source ''anyOf'' then
            and_then (check_keys source [''anyOf'', ''description''] path) (\<lambda>_.
            if root then invalid_schema ''The output schema root must be an object.'' path
            else case map_of source ''anyOf'' of
              Some (J_Arr [a, b]) \<Rightarrow>
                and_then (admit_node a (depth + 1) (path @ [Key_Segment ''anyOf'', Index_Segment 0])
                            False (nodes + 1)) (\<lambda>(first, n1).
                and_then (admit_node b (depth + 1) (path @ [Key_Segment ''anyOf'', Index_Segment 1])
                            False n1) (\<lambda>(second, n2).
                and_then (nullable_node first second d path) (\<lambda>s. Inr (s, n2))))
            | _ \<Rightarrow> invalid_schema
                ''Nullable schemas require exactly one non-null and one null branch.''
                (path @ [Key_Segment ''anyOf'']))
          else and_then (root_checks source path root) (\<lambda>_.
            if source_type source = Some ''object'' then
              and_then (object_header source path root) (\<lambda>_.
                case map_of source ''properties'' of
                  Some (J_Obj properties) \<Rightarrow>
                    and_then (admit_properties properties (depth + 1) path (nodes + 1)) (\<lambda>(parsed, n1).
                      Inr (Object_Schema parsed (map fst properties) d, n1))
                | _ \<Rightarrow> invalid_schema ''A schema node must be a plain object.''
                         (path @ [Key_Segment ''properties'']))
            else if source_type source = Some ''array'' then
              and_then (array_header source path) (\<lambda>(lo, hi).
                case map_of source ''items'' of
                  Some item \<Rightarrow>
                    and_then (admit_node item (depth + 1) (path @ [Key_Segment ''items'']) False (nodes + 1))
                      (\<lambda>(s, n1). Inr (Array_Schema s lo hi d, n1))
                | None \<Rightarrow> invalid_schema ''Array schemas require one homogeneous item schema.''
                           (path @ [Key_Segment ''items'']))
            else leaf_node source d path (nodes + 1)))
      | _ \<Rightarrow> invalid_schema ''A schema node must be a plain object.'' path)"
| "admit_properties [] depth path nodes = Inr ([], nodes)"
| "admit_properties ((name, child) # kvs) depth path nodes =
     and_then (admit_node child depth (path @ [Key_Segment ''properties'', Key_Segment name]) False nodes)
       (\<lambda>(s, n1). and_then (admit_properties kvs depth path n1) (\<lambda>(ps, n2). Inr ((name, s) # ps, n2)))"
  by pat_completeness auto
termination
  by (relation "measure (\<lambda>x. case x of
        Inl (v, d, p, r, n) \<Rightarrow> Suc (size v)
      | Inr (kvs, d, p, n) \<Rightarrow> Suc (size_list (size_prod (\<lambda>_. 0) size) kvs))")
    (auto dest!: size_of_member)

declare admit_node.simps [simp del]

section \<open>The smallest value of a schema\<close>

record minimum_size =
  mz_bytes :: int
  mz_nodes :: int
  mz_depth :: int

text \<open>\<open>Number.MAX_VALUE\<close>, the largest finite double.\<close>

definition number_max_value :: int where
  "number_max_value = (2 ^ 53 - 1) * 2 ^ 971"

text \<open>The decimal exponent that \<open>toExponential\<close> writes for a positive integer.\<close>

definition decimal_exponent :: "int \<Rightarrow> int" where
  "decimal_exponent n = js_len (int_digits n) - 1"

definition band_bytes :: "int \<Rightarrow> int \<Rightarrow> int \<Rightarrow> int" where
  "band_bytes absolute_minimum absolute_maximum e =
     (if e < - 6 \<or> 21 \<le> e then 3 + js_len (int_string \<bar>e\<bar>)
      else if e < 0 then 2 - e
      else let first_integer = max absolute_minimum (10 ^ nat e)
           in e + 1 + (if first_integer \<le> absolute_maximum \<and> first_integer < 10 ^ nat (e + 1) then 0 else 2))"

text \<open>
  The loop over the exponents. Its range is never empty, since the exponent of the smaller
  magnitude is at most that of the larger, so the \<open>Infinity\<close> it starts from is replaced in the
  first round; here the first band takes its place.
\<close>

definition minimum_band :: "int \<Rightarrow> int \<Rightarrow> int" where
  "minimum_band absolute_minimum absolute_maximum =
     (let from = decimal_exponent absolute_minimum; upto = decimal_exponent absolute_maximum
      in foldl (\<lambda>bytes e. min bytes (band_bytes absolute_minimum absolute_maximum e))
           (band_bytes absolute_minimum absolute_maximum from) [from + 1..upto])"

definition minimum_number_bytes :: "int option \<Rightarrow> int option \<Rightarrow> int" where
  "minimum_number_bytes lo hi =
     (let minimum = (case lo of None \<Rightarrow> - number_max_value | Some n \<Rightarrow> n);
          maximum = (case hi of None \<Rightarrow> number_max_value | Some n \<Rightarrow> n)
      in if minimum = maximum then js_len (int_string minimum)
         else if minimum \<le> 0 \<and> 0 \<le> maximum then 1
         else let negative = maximum < 0;
                  absolute_minimum = (if negative then - maximum else minimum);
                  absolute_maximum = (if negative then - minimum else maximum)
              in minimum_band absolute_minimum absolute_maximum + (if negative then 1 else 0))"

fun object_minimum :: "minimum_size \<Rightarrow> (string \<times> minimum_size) list \<Rightarrow> minimum_size" where
  "object_minimum acc [] = acc"
| "object_minimum acc ((name, m) # ms) =
     object_minimum \<lparr>mz_bytes = mz_bytes acc
         + (serialized_string_bytes name output_schema_bytes_limit + 1 + mz_bytes m),
       mz_nodes = mz_nodes acc + mz_nodes m, mz_depth = max (mz_depth acc) (1 + mz_depth m)\<rparr> ms"

fun minimum_enum_bytes :: "string list \<Rightarrow> int" where
  "minimum_enum_bytes [] = 0"
| "minimum_enum_bytes (s # ss) =
     foldl (\<lambda>n t. min n (serialized_string_bytes t output_schema_bytes_limit))
       (serialized_string_bytes s output_schema_bytes_limit) ss"

definition or_zero :: "int option \<Rightarrow> int" where
  "or_zero x = (case x of None \<Rightarrow> 0 | Some n \<Rightarrow> n)"

primrec minimum_value_size :: "output_schema \<Rightarrow> minimum_size" where
  "minimum_value_size (Nullable_Schema s n d) =
     \<lparr>mz_bytes = min 4 (mz_bytes (minimum_value_size s)), mz_nodes = 1, mz_depth = 1\<rparr>"
| "minimum_value_size (Object_Schema ps req d) =
     object_minimum \<lparr>mz_bytes = 2 + max 0 (js_len ps - 1), mz_nodes = 1, mz_depth = 1\<rparr>
       (map (map_prod id minimum_value_size) ps)"
| "minimum_value_size (Array_Schema s lo hi d) =
     (let count = or_zero lo; child = minimum_value_size s
      in \<lparr>mz_bytes = 2 + max 0 (count - 1) + count * mz_bytes child,
          mz_nodes = 1 + count * mz_nodes child,
          mz_depth = (if count = 0 then 1 else 1 + mz_depth child)\<rparr>)"
| "minimum_value_size (String_Schema values lo hi d) =
     \<lparr>mz_bytes = (case values of Some vs \<Rightarrow> minimum_enum_bytes vs | None \<Rightarrow> 2 + or_zero lo),
      mz_nodes = 1, mz_depth = 1\<rparr>"
| "minimum_value_size (Boolean_Schema d) = \<lparr>mz_bytes = 4, mz_nodes = 1, mz_depth = 1\<rparr>"
| "minimum_value_size (Null_Schema d) = \<lparr>mz_bytes = 4, mz_nodes = 1, mz_depth = 1\<rparr>"
| "minimum_value_size (Number_Schema integer lo hi d) =
     \<lparr>mz_bytes = minimum_number_bytes lo hi, mz_nodes = 1, mz_depth = 1\<rparr>"

section \<open>Admission of a schema\<close>

definition is_object_schema :: "output_schema \<Rightarrow> bool" where
  "is_object_schema s = (case s of Object_Schema _ _ _ \<Rightarrow> True | _ \<Rightarrow> False)"

definition admit_output_schema :: "json \<Rightarrow> int \<Rightarrow> schema_error + output_schema" where
  "admit_output_schema input max_output_bytes =
     and_then (admit_node input 1 [] True 0) (\<lambda>(schema, n).
       if \<not> is_object_schema schema then invalid_schema ''The output schema root must be an object.'' []
       else let m = minimum_value_size schema in
         if output_value_bytes_limit < mz_bytes m \<or> output_value_nodes_limit < mz_nodes m \<or>
            output_value_depth_limit < mz_depth m
         then invalid_schema ''Schema cannot produce a value within the profile capacity limits.'' []
         else if max_output_bytes < mz_bytes m
         then invalid_schema ''Schema cannot produce a value within the configured output byte limit.'' []
         else Inr schema)"

end
