(* ===== verification/Output_Schema_Laws.thy ===== *)
theory Output_Schema_Laws
  imports Output_Schema
begin

text \<open>
  What an admitted schema guarantees: it is closed and bounded (\<open>schema_ok\<close>), its nodes are
  those the admission counted, and printing it as JSON and admitting it again gives it back.
\<close>

section \<open>Well-formed schemas\<close>

definition description_ok :: "string option \<Rightarrow> bool" where
  "description_ok d \<longleftrightarrow> optional (\<lambda>s. js_len s \<le> output_description_max_length) d"

definition length_bound_ok :: "int option \<Rightarrow> bool" where
  "length_bound_ok b \<longleftrightarrow> optional (\<lambda>n. 0 \<le> n \<and> n \<le> output_length_bound_limit) b"

definition ordered_ok :: "int option \<Rightarrow> int option \<Rightarrow> bool" where
  "ordered_ok lo hi \<longleftrightarrow> (case (lo, hi) of (Some a, Some b) \<Rightarrow> a \<le> b | _ \<Rightarrow> True)"

definition enum_ok :: "int option \<Rightarrow> int option \<Rightarrow> string list option \<Rightarrow> bool" where
  "enum_ok lo hi values \<longleftrightarrow> optional (\<lambda>vs. vs \<noteq> [] \<and> js_len vs \<le> output_enum_values_limit \<and> distinct vs \<and>
     list_all (\<lambda>s. \<not> outside_bounds lo hi (js_len s)) vs) values"

function (sequential) schema_ok :: "int \<Rightarrow> output_schema \<Rightarrow> bool" where
  "schema_ok depth (Object_Schema ps req d) \<longleftrightarrow> depth \<le> output_schema_depth_limit \<and> description_ok d \<and>
     distinct (map fst ps) \<and> req = map fst ps \<and> list_all (\<lambda>p. schema_ok (depth + 1) (snd p)) ps"
| "schema_ok depth (Array_Schema s lo hi d) \<longleftrightarrow> depth \<le> output_schema_depth_limit \<and> description_ok d \<and>
     length_bound_ok lo \<and> length_bound_ok hi \<and> ordered_ok lo hi \<and>
     optional (\<lambda>n. n \<le> output_value_collection_limit) lo \<and> schema_ok (depth + 1) s"
| "schema_ok depth (String_Schema values lo hi d) \<longleftrightarrow> depth \<le> output_schema_depth_limit \<and>
     description_ok d \<and> length_bound_ok lo \<and> length_bound_ok hi \<and> ordered_ok lo hi \<and> enum_ok lo hi values"
| "schema_ok depth (Number_Schema integer lo hi d) \<longleftrightarrow> depth \<le> output_schema_depth_limit \<and>
     description_ok d \<and> ordered_ok lo hi"
| "schema_ok depth (Boolean_Schema d) \<longleftrightarrow> depth \<le> output_schema_depth_limit \<and> description_ok d"
| "schema_ok depth (Null_Schema d) \<longleftrightarrow> depth \<le> output_schema_depth_limit \<and> description_ok d"
| "schema_ok depth (Nullable_Schema s n d) \<longleftrightarrow> depth \<le> output_schema_depth_limit \<and> description_ok d \<and>
     is_non_null_schema s \<and> is_null_schema n \<and> schema_ok (depth + 1) s \<and> schema_ok (depth + 1) n"
  by pat_completeness auto

lemma size_of_property: "(k, s) \<in> set ps \<Longrightarrow> size s \<le> size_list (size_prod (\<lambda>_. 0) size) ps"
  by (induction ps) auto

termination schema_ok
  by (relation "measure (size \<circ> snd)") (auto simp: less_Suc_eq_le intro: le_SucI trans_le_add1 size_of_property)

primrec schema_nodes :: "output_schema \<Rightarrow> int" where
  "schema_nodes (Object_Schema ps req d) = 1 + sum_list (map snd (map (map_prod id schema_nodes) ps))"
| "schema_nodes (Array_Schema s lo hi d) = 1 + schema_nodes s"
| "schema_nodes (String_Schema values lo hi d) = 1"
| "schema_nodes (Number_Schema integer lo hi d) = 1"
| "schema_nodes (Boolean_Schema d) = 1"
| "schema_nodes (Null_Schema d) = 1"
| "schema_nodes (Nullable_Schema s n d) = 1 + schema_nodes s + schema_nodes n"

text \<open>The JSON document of a schema object, as the code returns and serializes it.\<close>

primrec json_of_schema :: "output_schema \<Rightarrow> json" where
  "json_of_schema (Object_Schema ps req d) = J_Obj ([(''type'', J_Str ''object''),
      (''properties'', J_Obj (map (map_prod id json_of_schema) ps)),
      (''required'', J_Arr (map J_Str req)), (''additionalProperties'', J_Bool False)]
      @ opt_member ''description'' J_Str d)"
| "json_of_schema (Array_Schema s lo hi d) = J_Obj ([(''type'', J_Str ''array''),
      (''items'', json_of_schema s)] @ opt_member ''minItems'' J_Num lo @ opt_member ''maxItems'' J_Num hi
      @ opt_member ''description'' J_Str d)"
| "json_of_schema (String_Schema values lo hi d) = J_Obj ((''type'', J_Str ''string'')
      # opt_member ''enum'' (\<lambda>vs. J_Arr (map J_Str vs)) values
      @ opt_member ''minLength'' J_Num lo @ opt_member ''maxLength'' J_Num hi
      @ opt_member ''description'' J_Str d)"
| "json_of_schema (Number_Schema integer lo hi d) =
     J_Obj ((''type'', J_Str (if integer then ''integer'' else ''number''))
      # opt_member ''minimum'' J_Num lo @ opt_member ''maximum'' J_Num hi @ opt_member ''description'' J_Str d)"
| "json_of_schema (Boolean_Schema d) =
     J_Obj ((''type'', J_Str ''boolean'') # opt_member ''description'' J_Str d)"
| "json_of_schema (Null_Schema d) =
     J_Obj ((''type'', J_Str ''null'') # opt_member ''description'' J_Str d)"
| "json_of_schema (Nullable_Schema s n d) =
     J_Obj ((''anyOf'', J_Arr [json_of_schema s, json_of_schema n]) # opt_member ''description'' J_Str d)"

section \<open>The checks of a node are sound\<close>

lemma description_sound: "schema_description source path = Inr d \<Longrightarrow> description_ok d"
  by (auto simp: schema_description_def description_ok_def split: option.splits json.splits if_splits)

lemma bound_sound: "schema_bound source key path True = Inr b \<Longrightarrow> length_bound_ok b"
  by (auto simp: schema_bound_def length_bound_ok_def split: option.splits json.splits if_splits)

lemma ordered_iff: "check_ordered lo hi path = Inr u \<longleftrightarrow> ordered_ok lo hi"
  by (cases lo; cases hi) (auto simp: check_ordered_def ordered_ok_def)

lemma check_keys_Inr: "check_keys source allowed path = Inr u \<longleftrightarrow> fst ` set source \<subseteq> set allowed"
  by (auto simp: check_keys_def list_ex_iff)

lemma required_sound:
  "required_names ps path seen cs = Inr names \<Longrightarrow> distinct seen \<Longrightarrow> set seen \<subseteq> fst ` set ps \<Longrightarrow>
   distinct names \<and> set names \<subseteq> fst ` set ps"
proof (induction ps path seen cs rule: required_names.induct)
  case (2 ps path seen c cs)
  then obtain name where c: "c = J_Str name" by (cases c) simp_all
  with 2 show ?case by (auto simp: set_add_def has_key_iff split: if_splits)
qed simp

lemma array_header_sound:
  "array_header source path = Inr (lo, hi) \<Longrightarrow> length_bound_ok lo \<and> length_bound_ok hi \<and>
     ordered_ok lo hi \<and> optional (\<lambda>n. n \<le> output_value_collection_limit) lo"
  by (auto simp: array_header_def result_simps ordered_iff dest: bound_sound
      split: if_splits option.splits)

lemma enum_values_sound:
  "enum_values lo hi path seen cs = Inr vs \<Longrightarrow> distinct seen \<Longrightarrow>
   list_all (\<lambda>s. \<not> outside_bounds lo hi (js_len s)) seen \<Longrightarrow>
   distinct vs \<and> list_all (\<lambda>s. \<not> outside_bounds lo hi (js_len s)) vs \<and> length vs = length seen + length cs"
proof (induction lo hi path seen cs rule: enum_values.induct)
  case (2 lo hi path seen c cs)
  then obtain s where c: "c = J_Str s" by (cases c) simp_all
  with 2 show ?case by (auto split: if_splits)
qed simp

lemma string_enum_sound: "string_enum source lo hi path = Inr values \<Longrightarrow> enum_ok lo hi values"
proof (cases "map_of source ''enum''")
  case (Some e)
  assume inr: "string_enum source lo hi path = Inr values"
  then obtain cs vs where cs: "cs \<noteq> []" "js_len cs \<le> output_enum_values_limit"
    and vs: "enum_values lo hi path [] cs = Inr vs" "values = Some vs"
    using Some by (cases e) (auto simp: string_enum_def result_simps split: if_splits)
  show ?thesis
    using enum_values_sound [OF vs(1)] cs vs(2) by (auto simp: enum_ok_def)
qed (simp add: string_enum_def enum_ok_def)

lemma string_node_sound:
  "string_node source d path = Inr s \<Longrightarrow> \<exists>values lo hi. s = String_Schema values lo hi d \<and>
     length_bound_ok lo \<and> length_bound_ok hi \<and> ordered_ok lo hi \<and> enum_ok lo hi values"
  by (auto simp: string_node_def result_simps ordered_iff dest: bound_sound string_enum_sound)

lemma number_node_sound:
  "number_node source integer d path = Inr s \<Longrightarrow>
     \<exists>lo hi. s = Number_Schema integer lo hi d \<and> ordered_ok lo hi"
  by (auto simp: number_node_def result_simps ordered_iff)

lemma nullable_node_sound:
  "nullable_node first second d path = Inr s \<Longrightarrow>
     (s = Nullable_Schema first second d \<and> is_non_null_schema first \<and> is_null_schema second) \<or>
     (s = Nullable_Schema second first d \<and> is_non_null_schema second \<and> is_null_schema first)"
  by (auto simp: nullable_node_def split: if_splits)

lemma object_header_sound:
  assumes "object_header source path root = Inr u"
  obtains ps where "map_of source ''properties'' = Some (J_Obj ps)" "distinct (map fst ps)"
proof -
  obtain ps req seen where ps: "map_of source ''properties'' = Some (J_Obj ps)"
    and req: "required_names ps path [] req = Inr seen" and len: "length seen = length ps"
    using assms
    by (auto simp: object_header_def result_simps split: option.splits json.splits bool.splits if_splits)
  have "distinct seen" "set seen \<subseteq> fst ` set ps" using required_sound [OF req] by simp_all
  then have "length ps \<le> card (set (map fst ps))"
    using len by (metis card_mono distinct_card finite_set set_map)
  then have "distinct (map fst ps)"
    by (intro card_distinct order_antisym [OF card_length]) simp
  then show thesis using ps that by blast
qed

lemma leaf_node_sound:
  assumes "leaf_node source d path nodes = Inr (s, n)" and "depth \<le> output_schema_depth_limit"
    and "description_ok d"
  shows "schema_ok depth s \<and> schema_nodes s = 1 \<and> n = nodes"
  using assms
  by (auto simp: leaf_node_def result_simps plain_node_def dest!: string_node_sound number_node_sound
      split: if_splits)

section \<open>Admission is sound\<close>

lemma admit_node_sound:
  "admit_node v depth path root nodes = Inr (s, n) \<Longrightarrow>
     schema_ok depth s \<and> n = nodes + schema_nodes s \<and> n \<le> output_schema_nodes_limit"
  "admit_properties kvs depth path nodes = Inr (ps, n) \<Longrightarrow> nodes \<le> output_schema_nodes_limit \<Longrightarrow>
     map fst ps = map fst kvs \<and> list_all (\<lambda>p. schema_ok depth (snd p)) ps \<and>
     n = nodes + sum_list (map (schema_nodes \<circ> snd) ps) \<and> n \<le> output_schema_nodes_limit"
proof (induction v depth path root nodes and kvs depth path nodes arbitrary: s n and ps n
    rule: admit_node_admit_properties.induct)
  case (1 v depth path root nodes)
  have lim: "nodes + 1 \<le> output_schema_nodes_limit" "depth \<le> output_schema_depth_limit"
    using "1.prems" by (auto simp: admit_node.simps [of _ depth path _ nodes] split: if_splits)
  obtain source where v: "v = J_Obj source"
    using "1.prems" lim by (cases v) (simp_all add: admit_node.simps [of _ depth path _ nodes])
  note eq = admit_node.simps [of "J_Obj source" depth path root nodes]
  note prem = "1.prems" [unfolded v]
  obtain d where d: "schema_description source path = Inr d"
    using prem lim by (auto simp: eq result_simps)
  note dok = description_sound [OF d]
  have pos: "\<not> (output_schema_nodes_limit < nodes + 1 \<or> output_schema_depth_limit < depth)" using lim by simp
  show ?case
  proof (cases "has_key source ''anyOf''")
    case True
    then obtain a b first n1 second where ab: "map_of source ''anyOf'' = Some (J_Arr [a, b])" "\<not> root"
      and first: "admit_node a (depth + 1) (path @ [Key_Segment ''anyOf'', Index_Segment 0]) False (nodes + 1) = Inr (first, n1)"
      and second: "admit_node b (depth + 1) (path @ [Key_Segment ''anyOf'', Index_Segment 1]) False n1 = Inr (second, n)"
      and s: "nullable_node first second d path = Inr s"
      using prem lim d
      by (auto simp: eq result_simps split: if_splits option.splits json.splits list.splits)
    have f: "schema_ok (depth + 1) first \<and> n1 = nodes + 1 + schema_nodes first \<and> n1 \<le> output_schema_nodes_limit"
      using "1.IH"(1) [OF pos v] True ab first by blast
    have g: "schema_ok (depth + 1) second \<and> n = n1 + schema_nodes second \<and> n \<le> output_schema_nodes_limit"
      using "1.IH"(2) [OF pos v] True ab second by blast
    show ?thesis using nullable_node_sound [OF s] f g lim dok by auto
  next
    case False
    let ?body = "if source_type source = Some ''object'' then
              and_then (object_header source path root) (\<lambda>_.
                case map_of source ''properties'' of
                  Some (J_Obj properties) \<Rightarrow>
                    and_then (admit_properties properties (depth + 1) path (nodes + 1)) (\<lambda>(parsed, n1).
                      Inr (Object_Schema parsed (map fst properties) d, n1))
                | _ \<Rightarrow> invalid_schema ''A schema node must be a plain object.''
                         (path @ [Key_Segment ''properties'']))
            else if source_type source = Some ''array'' then
              and_then (array_header source path) (\<lambda>(lo, hi).
                case map_of source ''items'' of
                  Some item \<Rightarrow>
                    and_then (admit_node item (depth + 1) (path @ [Key_Segment ''items'']) False (nodes + 1))
                      (\<lambda>(s, n1). Inr (Array_Schema s lo hi d, n1))
                | None \<Rightarrow> invalid_schema ''Array schemas require one homogeneous item schema.''
                           (path @ [Key_Segment ''items'']))
            else leaf_node source d path (nodes + 1)"
    have roots: "root_checks source path root = Inr ()" and body: "?body = Inr (s, n)"
      using prem pos False d unfolding eq by (auto simp: result_simps)
    consider (object) "source_type source = Some ''object''" | (array) "source_type source = Some ''array''"
      | (leaf) "source_type source \<noteq> Some ''object''" "source_type source \<noteq> Some ''array''" by blast
    then show ?thesis
    proof cases
      case object
      then obtain ps parsed where ps: "map_of source ''properties'' = Some (J_Obj ps)" "distinct (map fst ps)"
        and parsed: "admit_properties ps (depth + 1) path (nodes + 1) = Inr (parsed, n)"
        and s: "s = Object_Schema parsed (map fst ps) d"
        using body by (auto simp: result_simps elim!: object_header_sound)
      have "map fst parsed = map fst ps \<and> list_all (\<lambda>p. schema_ok (depth + 1) (snd p)) parsed \<and>
          n = nodes + 1 + sum_list (map (schema_nodes \<circ> snd) parsed) \<and> n \<le> output_schema_nodes_limit"
        using "1.IH"(3) [OF pos v False object ps(1) refl parsed lim(1)] by blast
      then show ?thesis using s lim dok ps(2) by (simp add: comp_def)
    next
      case array
      then obtain lo hi item t where h: "array_header source path = Inr (lo, hi)"
        and item: "map_of source ''items'' = Some item"
        and t: "admit_node item (depth + 1) (path @ [Key_Segment ''items'']) False (nodes + 1) = Inr (t, n)"
        and s: "s = Array_Schema t lo hi d"
        using body by (auto simp: result_simps split: option.splits)
      have "schema_ok (depth + 1) t \<and> n = nodes + 1 + schema_nodes t \<and> n \<le> output_schema_nodes_limit"
        using "1.IH"(4) [OF pos v False _ array item t] array by simp
      then show ?thesis using s lim dok array_header_sound [OF h] by simp
    next
      case leaf
      then have "leaf_node source d path (nodes + 1) = Inr (s, n)" using body by simp
      from leaf_node_sound [OF this lim(2) dok] show ?thesis using lim by simp
    qed
  qed
next
  case (3 name child kvs depth path nodes)
  obtain t n1 ts where t: "admit_node child depth (path @ [Key_Segment ''properties'', Key_Segment name]) False nodes = Inr (t, n1)"
    and ts: "admit_properties kvs depth path n1 = Inr (ts, n)" and ps: "ps = (name, t) # ts"
    using "3.prems"(1) by (auto simp: result_simps)
  have "schema_ok depth t \<and> n1 = nodes + schema_nodes t \<and> n1 \<le> output_schema_nodes_limit"
    by (rule "3.IH"(1) [OF t])
  moreover from this have "map fst ts = map fst kvs \<and> list_all (\<lambda>p. schema_ok depth (snd p)) ts \<and>
     n = n1 + sum_list (map (schema_nodes \<circ> snd) ts) \<and> n \<le> output_schema_nodes_limit"
    using "3.IH"(2) ts by blast
  ultimately show ?case using ps by (simp add: comp_def)
qed auto

section \<open>Printing and admitting again\<close>

lemma schema_nodes_pos: "1 \<le> schema_nodes s"
proof (induction s)
  case (Object_Schema ps req d)
  have "0 \<le> (\<Sum>p\<leftarrow>ps. schema_nodes (snd p))"
  proof (rule sum_list_nonneg')
    fix p assume p: "p \<in> set ps"
    have "1 \<le> schema_nodes (snd p)" by (rule Object_Schema [OF p]) (cases p, simp)
    then show "0 \<le> schema_nodes (snd p)" by simp
  qed
  then show ?case by (simp add: comp_def)
qed auto

lemma sum_schema_nodes_nonneg: "0 \<le> (\<Sum>p\<leftarrow>ps. schema_nodes (snd p))"
  by (intro sum_list_nonneg') (rule order_trans [OF zero_le_one schema_nodes_pos])

lemma admit_properties_printed:
  assumes "\<And>p path nodes. p \<in> set ps \<Longrightarrow> nodes + schema_nodes (snd p) \<le> output_schema_nodes_limit \<Longrightarrow>
      admit_node (json_of_schema (snd p)) depth path False nodes = Inr (snd p, nodes + schema_nodes (snd p))"
    and "nodes + (\<Sum>p\<leftarrow>ps. schema_nodes (snd p)) \<le> output_schema_nodes_limit"
  shows "admit_properties (map (map_prod id json_of_schema) ps) depth path nodes =
    Inr (ps, nodes + (\<Sum>p\<leftarrow>ps. schema_nodes (snd p)))"
  using assms
proof (induction ps arbitrary: nodes)
  case (Cons p ps)
  obtain k t where p: "p = (k, t)" by (cases p)
  have "nodes + schema_nodes t \<le> output_schema_nodes_limit"
    using Cons.prems(2) sum_schema_nodes_nonneg [of ps] p by simp
  then have t: "admit_node (json_of_schema t) depth path' False nodes = Inr (t, nodes + schema_nodes t)" for path'
    using Cons.prems(1) [of p nodes path'] p by simp
  have "admit_properties (map (map_prod id json_of_schema) ps) depth path (nodes + schema_nodes t) =
      Inr (ps, nodes + schema_nodes t + (\<Sum>p\<leftarrow>ps. schema_nodes (snd p)))"
    using Cons.prems p by (intro Cons.IH) (auto simp: add.assoc)
  then show ?case using t p by (simp add: add.assoc id_def)
qed simp

lemma required_printed:
  "distinct (seen @ req) \<Longrightarrow> set req \<subseteq> fst ` set ps \<Longrightarrow>
   required_names ps path seen (map J_Str req) = Inr (seen @ req)"
  by (induction req arbitrary: seen) (auto simp: has_key_iff set_add_def)

lemma enum_printed:
  "distinct (seen @ vs) \<Longrightarrow> list_all (\<lambda>s. \<not> outside_bounds lo hi (js_len s)) vs \<Longrightarrow>
   enum_values lo hi path seen (map J_Str vs) = Inr (seen @ vs)"
  by (induction vs arbitrary: seen) auto

lemma map_of_opt_member [simp]:
  "(m ++ map_of (opt_member k f x)) k' = (if k' = k \<and> x \<noteq> None then map_option f x else m k')"
  "map_of (opt_member k f x) k' = (if k' = k then map_option f x else None)"
  by (cases x; simp add: opt_member_def map_add_def)+

lemma keys_opt_member [simp]: "fst ` set (opt_member k f x) \<subseteq> A \<longleftrightarrow> x = None \<or> k \<in> A"
  by (cases x) (simp_all add: opt_member_def)

lemma bound_printed:
  "map_of source k = map_option J_Num b \<Longrightarrow> length_bound_ok b \<Longrightarrow> schema_bound source k path True = Inr b"
  by (cases b) (auto simp: schema_bound_def length_bound_ok_def safe_integer_def max_safe_integer_def
      output_length_bound_limit_def)

lemma number_bound_printed:
  "map_of source k = map_option J_Num b \<Longrightarrow> schema_bound source k path False = Inr b"
  by (cases b) (auto simp: schema_bound_def)

lemma description_printed:
  "map_of source ''description'' = map_option J_Str d \<Longrightarrow> description_ok d \<Longrightarrow>
   schema_description source path = Inr d"
  by (cases d) (auto simp: schema_description_def description_ok_def)

lemma readmit:
  "schema_ok depth s \<Longrightarrow> nodes + schema_nodes s \<le> output_schema_nodes_limit \<Longrightarrow>
   (root \<longrightarrow> is_object_schema s) \<Longrightarrow>
   admit_node (json_of_schema s) depth path root nodes = Inr (s, nodes + schema_nodes s)"
proof (induction depth s arbitrary: path root nodes rule: schema_ok.induct)
  case (1 depth ps req d)
  let ?kvs = "map (map_prod id json_of_schema) ps"
  let ?src = "[(''type'', J_Str ''object''), (''properties'', J_Obj ?kvs),
      (''required'', J_Arr (map J_Str req)), (''additionalProperties'', J_Bool False)]
      @ opt_member ''description'' J_Str d"
  from "1.prems" have ok: "depth \<le> output_schema_depth_limit" "description_ok d" "distinct (map fst ps)"
    "req = map fst ps" "list_all (\<lambda>p. schema_ok (depth + 1) (snd p)) ps"
    and lim: "nodes + 1 + (\<Sum>p\<leftarrow>ps. schema_nodes (snd p)) \<le> output_schema_nodes_limit"
    by (simp_all add: comp_def)
  have props: "admit_properties ?kvs (depth + 1) path (nodes + 1) =
      Inr (ps, nodes + 1 + (\<Sum>p\<leftarrow>ps. schema_nodes (snd p)))" for path
  proof (rule admit_properties_printed [OF _ lim])
    fix p path n
    assume p: "p \<in> set ps" and n: "n + schema_nodes (snd p) \<le> output_schema_nodes_limit"
    show "admit_node (json_of_schema (snd p)) (depth + 1) path False n = Inr (snd p, n + schema_nodes (snd p))"
      using ok(5) p n by (intro "1.IH") (auto simp: list_all_iff)
  qed
  have keys: "fst ` set ?kvs = fst ` set ps" by force
  have req: "required_names ?kvs path [] (map J_Str req) = Inr req"
    using required_printed [of "[]" req ?kvs path] ok(3,4) keys by simp
  have header: "object_header ?src path root = Inr ()"
    using req ok(4) by (auto simp: object_header_def check_keys_Inr result_simps)
  have "schema_description ?src path = Inr d" by (rule description_printed) (simp_all add: ok)
  moreover have "nodes + 1 \<le> output_schema_nodes_limit"
    using lim sum_schema_nodes_nonneg [of ps] by linarith
  moreover have "root_checks ?src path root = Inr ()" "source_type ?src = Some ''object''"
    "\<not> has_key ?src ''anyOf''"
    by (simp_all add: root_checks_def source_type_def has_key_def)
  moreover have "map fst ?kvs = req" using ok(4) by (simp add: comp_def)
  ultimately show ?case
    using ok(1) header props
    by (simp add: admit_node.simps [of _ depth path _ nodes] comp_def add.assoc del: append.simps)
next
  case (2 depth s lo hi d)
  let ?src = "[(''type'', J_Str ''array''), (''items'', json_of_schema s)]
      @ opt_member ''minItems'' J_Num lo @ opt_member ''maxItems'' J_Num hi @ opt_member ''description'' J_Str d"
  have "array_header ?src path = Inr (lo, hi)"
  proof -
    have keys: "check_keys ?src [''type'', ''items'', ''minItems'', ''maxItems'', ''description''] path = Inr ()"
      by (simp add: check_keys_Inr image_Un)
    have lo: "schema_bound ?src ''minItems'' path True = Inr lo"
      by (rule bound_printed) (use "2.prems" in simp_all)
    have hi: "schema_bound ?src ''maxItems'' path True = Inr hi"
      by (rule bound_printed) (use "2.prems" in simp_all)
    have ord: "check_ordered lo hi path = Inr ()" using "2.prems" by (simp add: ordered_iff)
    have "\<not> (case lo of None \<Rightarrow> False | Some n \<Rightarrow> output_value_collection_limit < n)"
      using "2.prems" by (cases lo) simp_all
    then show ?thesis unfolding array_header_def keys and_then_Inr lo hi ord by simp
  qed
  moreover have "schema_description ?src path = Inr d"
    by (rule description_printed) (use "2.prems" in simp_all)
  moreover have "nodes + 1 \<le> output_schema_nodes_limit"
    using "2.prems"(2) schema_nodes_pos [of s] by simp
  moreover have "root_checks ?src path root = Inr ()" "source_type ?src = Some ''array''"
    "\<not> has_key ?src ''anyOf''" "map_of ?src ''items'' = Some (json_of_schema s)"
    using "2.prems"(3) by (simp_all add: root_checks_def source_type_def has_key_def is_object_schema_def)
  moreover have "admit_node (json_of_schema s) (depth + 1) p False (nodes + 1) =
      Inr (s, nodes + 1 + schema_nodes s)" for p
    using "2.prems" by (intro "2.IH") simp_all
  ultimately show ?case
    using "2.prems"(1) by (simp add: admit_node.simps [of _ depth path _ nodes] add.assoc del: append.simps)
next
  case (3 depth vals lo hi d)
  let ?src = "(''type'', J_Str ''string'') # opt_member ''enum'' (\<lambda>vs. J_Arr (map J_Str vs)) vals
      @ opt_member ''minLength'' J_Num lo @ opt_member ''maxLength'' J_Num hi @ opt_member ''description'' J_Str d"
  have "string_enum ?src lo hi path = Inr vals"
    using "3.prems"(1) enum_printed [of "[]" "the vals" lo hi path]
    by (cases vals) (auto simp: string_enum_def enum_ok_def)
  moreover have "check_keys ?src [''type'', ''enum'', ''minLength'', ''maxLength'', ''description''] path = Inr ()"
    by (simp add: check_keys_Inr image_Un)
  moreover have "schema_bound ?src ''minLength'' path True = Inr lo"
    by (rule bound_printed) (use "3.prems" in simp_all)
  moreover have "schema_bound ?src ''maxLength'' path True = Inr hi"
    by (rule bound_printed) (use "3.prems" in simp_all)
  moreover have "check_ordered lo hi path = Inr ()" using "3.prems" by (simp add: ordered_iff)
  ultimately have "string_node ?src d path = Inr (String_Schema vals lo hi d)"
    by (simp add: string_node_def)
  moreover have "schema_description ?src path = Inr d"
    by (rule description_printed) (use "3.prems" in simp_all)
  moreover have "root_checks ?src path root = Inr ()" "source_type ?src = Some ''string''"
    "\<not> has_key ?src ''anyOf''"
    using "3.prems"(3) by (simp_all add: root_checks_def source_type_def has_key_def is_object_schema_def)
  ultimately show ?case
    using "3.prems" by (simp add: admit_node.simps [of _ depth path _ nodes] leaf_node_def)
next
  case (4 depth integer lo hi d)
  let ?src = "(''type'', J_Str (if integer then ''integer'' else ''number''))
      # opt_member ''minimum'' J_Num lo @ opt_member ''maximum'' J_Num hi @ opt_member ''description'' J_Str d"
  have "number_node ?src integer d path = Inr (Number_Schema integer lo hi d)"
  proof -
    have "check_keys ?src [''type'', ''minimum'', ''maximum'', ''description''] path = Inr ()"
      by (simp add: check_keys_Inr image_Un)
    moreover have "schema_bound ?src ''minimum'' path False = Inr lo"
      by (rule number_bound_printed) simp
    moreover have "schema_bound ?src ''maximum'' path False = Inr hi"
      by (rule number_bound_printed) simp
    moreover have "check_ordered lo hi path = Inr ()" using "4.prems" by (simp add: ordered_iff)
    ultimately show ?thesis by (simp add: number_node_def)
  qed
  moreover have "schema_description ?src path = Inr d"
    by (rule description_printed) (use "4.prems" in simp_all)
  moreover have "root_checks ?src path root = Inr ()"
    "source_type ?src = Some (if integer then ''integer'' else ''number'')" "\<not> has_key ?src ''anyOf''"
    using "4.prems"(3) by (simp_all add: root_checks_def source_type_def has_key_def is_object_schema_def)
  ultimately show ?case
    using "4.prems" by (cases integer) (simp_all add: admit_node.simps [of _ depth path _ nodes] leaf_node_def)
next
  case (5 depth d)
  have "schema_description ((''type'', J_Str ''boolean'') # opt_member ''description'' J_Str d) path = Inr d"
    by (rule description_printed) (use "5.prems" in simp_all)
  then show ?case
    using "5.prems"
    by (simp add: admit_node.simps [of _ depth path _ nodes] leaf_node_def plain_node_def check_keys_Inr
        result_simps root_checks_def source_type_def has_key_def is_object_schema_def)
next
  case (6 depth d)
  have "schema_description ((''type'', J_Str ''null'') # opt_member ''description'' J_Str d) path = Inr d"
    by (rule description_printed) (use "6.prems" in simp_all)
  then show ?case
    using "6.prems"
    by (simp add: admit_node.simps [of _ depth path _ nodes] leaf_node_def plain_node_def check_keys_Inr
        result_simps root_checks_def source_type_def has_key_def is_object_schema_def)
next
  case (7 depth s n d)
  let ?src = "(''anyOf'', J_Arr [json_of_schema s, json_of_schema n]) # opt_member ''description'' J_Str d"
  have "schema_description ?src path = Inr d"
    by (rule description_printed) (use "7.prems" in simp_all)
  moreover have lim: "nodes + 1 + schema_nodes s + schema_nodes n \<le> output_schema_nodes_limit"
    using "7.prems"(2) by simp
  moreover have "admit_node (json_of_schema s) (depth + 1) p False (nodes + 1) =
      Inr (s, nodes + 1 + schema_nodes s)" for p
    using "7.prems" lim schema_nodes_pos [of n] by (intro "7.IH"(1)) simp_all
  moreover have "admit_node (json_of_schema n) (depth + 1) p False (nodes + 1 + schema_nodes s) =
      Inr (n, nodes + 1 + schema_nodes s + schema_nodes n)" for p
    using "7.prems" lim by (intro "7.IH"(2)) simp_all
  moreover have "nodes + 1 \<le> output_schema_nodes_limit"
    using lim schema_nodes_pos [of n] schema_nodes_pos [of s] by linarith
  moreover have "\<not> root" using "7.prems"(3) by (simp add: is_object_schema_def)
  ultimately show ?case
    using "7.prems"(1)
    by (simp add: admit_node.simps [of _ depth path _ nodes] nullable_node_def has_key_def check_keys_Inr
        result_simps add.assoc)
qed

end
