(* ===== verification/Output_Value.thy ===== *)
theory Output_Value
  imports Output_Schema_Laws
begin

text \<open>
  Validation of output values: \<open>agent-protocol/src/structuredOutput/values.ts\<close>, the entry points of
  \<open>parsers.ts\<close> and \<open>definition.ts\<close>.  The matcher collects at most eight issues and stops early;
  \<open>conforms\<close> is what a schema means, without any collecting.
\<close>

section \<open>Limits and parsing (parsers.ts)\<close>

definition output_byte_limit :: "int option \<Rightarrow> int option" where
  "output_byte_limit maximum =
     (case maximum of
        None \<Rightarrow> Some output_value_bytes_limit
      | Some n \<Rightarrow> if safe_integer n \<and> 0 < n \<and> n \<le> output_value_bytes_limit then Some n else None)"

definition parse_output_byte_limit :: "int option \<Rightarrow> issue list + int" where
  "parse_output_byte_limit maximum =
     (case output_byte_limit maximum of
        None \<Rightarrow> Inl [\<lparr>is_code = ''invalid_output_limits'', is_path = [Key_Segment ''maxOutputBytes''],
          is_message = ''Output byte limit must be a positive integer within the portable profile ceiling.''\<rparr>]
      | Some n \<Rightarrow> Inr n)"

definition schema_bounds :: json_bounds where
  "schema_bounds = \<lparr>jb_max_bytes = output_schema_bytes_limit,
     jb_max_depth = 3 * output_schema_depth_limit + 2, jb_max_nodes = output_schema_bytes_limit,
     jb_max_collection = output_schema_properties_limit\<rparr>"

definition safe_parse_agent_output_schema :: "json \<Rightarrow> int option \<Rightarrow> issue list + output_schema" where
  "safe_parse_agent_output_schema input maximum =
     and_then (parse_output_byte_limit maximum) (\<lambda>limit.
     and_then (snapshot_structured_output_json input schema_bounds) (\<lambda>data.
       case admit_output_schema data limit of
         Inl (message, path) \<Rightarrow> Inl (add_issue ''invalid_output_schema'' message path [])
       | Inr schema \<Rightarrow> Inr schema))"

text \<open>\<open>parseAgentOutputSchema\<close> throws the issues that the safe parser returns.\<close>

definition parse_agent_output_schema :: "json \<Rightarrow> int option \<Rightarrow> issue list + output_schema" where
  "parse_agent_output_schema input maximum = safe_parse_agent_output_schema input maximum"

text \<open>A schema argument is one that an earlier parse admitted, or anything else, to be parsed now.\<close>

datatype schema_argument = Admitted output_schema | Foreign json

fun trusted_output_schema :: "schema_argument \<Rightarrow> issue list + output_schema" where
  "trusted_output_schema (Admitted s) = Inr s"
| "trusted_output_schema (Foreign j) = safe_parse_agent_output_schema j None"

section \<open>The matcher (values.ts)\<close>

type_synonym matcher = "json \<Rightarrow> issue_path \<Rightarrow> issue list \<Rightarrow> issue list"

definition mismatch :: "string \<Rightarrow> issue_path \<Rightarrow> issue list \<Rightarrow> issue list" where
  "mismatch message path iss = add_issue ''schema_mismatch'' message path iss"

definition type_mismatch :: "issue_path \<Rightarrow> issue list \<Rightarrow> issue list" where
  "type_mismatch path iss = mismatch ''Value does not have the declared JSON type.'' path iss"

text \<open>
  The functions every plain object inherits: reading one of these names from an object without
  such a member yields a function, which no schema node accepts.
\<close>

definition inherited_names :: "string list" where
  "inherited_names = [''hasOwnProperty'', ''isPrototypeOf'', ''propertyIsEnumerable'', ''toLocaleString'',
     ''toString'', ''valueOf'', ''__defineGetter__'', ''__defineSetter__'', ''__lookupGetter__'',
     ''__lookupSetter__'']"

fun undeclared_keys :: "string list \<Rightarrow> issue_path \<Rightarrow> string list \<Rightarrow> issue list \<Rightarrow> issue list" where
  "undeclared_keys declared path [] iss = iss"
| "undeclared_keys declared path (k # ks) iss =
     undeclared_keys declared path ks
       (if k \<in> set declared then iss
        else mismatch ''Object contains an undeclared property.'' (path @ [Key_Segment k]) iss)"

fun match_properties ::
    "(string \<times> json) list \<Rightarrow> issue_path \<Rightarrow> (string \<times> matcher) list \<Rightarrow> issue list \<Rightarrow> issue list" where
  "match_properties kvs path [] iss = iss"
| "match_properties kvs path ((k, m) # ms) iss =
     (let iss' = (case map_of kvs k of
          Some child \<Rightarrow> m child (path @ [Key_Segment k]) iss
        | None \<Rightarrow> if k \<in> set inherited_names then type_mismatch (path @ [Key_Segment k]) iss
            else mismatch ''Object is missing a required property.'' (path @ [Key_Segment k]) iss)
      in if issues_full iss' then iss' else match_properties kvs path ms iss')"

fun match_items :: "matcher \<Rightarrow> issue_path \<Rightarrow> int \<Rightarrow> json list \<Rightarrow> issue list \<Rightarrow> issue list" where
  "match_items m path index [] iss = iss"
| "match_items m path index (x # xs) iss =
     (let iss' = m x (path @ [Index_Segment index]) iss
      in if issues_full iss' then iss' else match_items m path (index + 1) xs iss')"

primrec match_node :: "output_schema \<Rightarrow> matcher" where
  "match_node (Nullable_Schema s n d) = (\<lambda>j path iss.
     if issues_full iss then iss else if j \<noteq> J_Null then match_node s j path iss else iss)"
| "match_node (Object_Schema ps req d) = (\<lambda>j path iss.
     if issues_full iss then iss
     else case j of
       J_Obj kvs \<Rightarrow> match_properties kvs path (map (map_prod id match_node) ps)
         (undeclared_keys (map fst ps) path (map fst kvs) iss)
     | _ \<Rightarrow> type_mismatch path iss)"
| "match_node (Array_Schema s lo hi d) = (\<lambda>j path iss.
     if issues_full iss then iss
     else case j of
       J_Arr xs \<Rightarrow> match_items (match_node s) path 0 xs
         (if outside_bounds lo hi (js_len xs)
          then mismatch ''Array length is outside the declared bounds.'' path iss else iss)
     | _ \<Rightarrow> type_mismatch path iss)"
| "match_node (String_Schema values lo hi d) = (\<lambda>j path iss.
     if issues_full iss then iss
     else case j of
       J_Str s \<Rightarrow>
         let iss' = (if outside_bounds lo hi (code_point_length s)
             then mismatch ''String code-point length is outside the declared bounds.'' path iss else iss)
         in (if (case values of None \<Rightarrow> False | Some vs \<Rightarrow> s \<notin> set vs)
             then mismatch ''String is not one of the declared enum values.'' path iss' else iss')
     | _ \<Rightarrow> type_mismatch path iss)"
| "match_node (Number_Schema integer lo hi d) = (\<lambda>j path iss.
     if issues_full iss then iss
     else case j of
       J_Num n \<Rightarrow> if outside_bounds lo hi n
         then mismatch ''Number is outside the declared inclusive bounds.'' path iss else iss
     | _ \<Rightarrow> type_mismatch path iss)"
| "match_node (Boolean_Schema d) = (\<lambda>j path iss.
     if issues_full iss then iss else case j of J_Bool b \<Rightarrow> iss | _ \<Rightarrow> type_mismatch path iss)"
| "match_node (Null_Schema d) = (\<lambda>j path iss.
     if issues_full iss then iss else case j of J_Null \<Rightarrow> iss | _ \<Rightarrow> type_mismatch path iss)"

definition value_bounds :: "int \<Rightarrow> json_bounds" where
  "value_bounds limit = \<lparr>jb_max_bytes = limit, jb_max_depth = output_value_depth_limit,
     jb_max_nodes = output_value_nodes_limit, jb_max_collection = output_value_collection_limit\<rparr>"

definition validate_agent_output_value ::
    "schema_argument \<Rightarrow> json \<Rightarrow> int option \<Rightarrow> issue list + json" where
  "validate_agent_output_value schema candidate maximum =
     and_then (parse_output_byte_limit maximum) (\<lambda>limit.
     and_then (trusted_output_schema schema) (\<lambda>s.
     and_then (snapshot_structured_output_json candidate (value_bounds limit)) (\<lambda>data.
       let iss = match_node s data [] [] in
       if iss \<noteq> [] then Inl iss
       else if \<not> is_json_object data then Inl (mismatch ''Output must be a JSON object.'' [] iss)
       else Inr data)))"

section \<open>Definitions with a decoder (definition.ts)\<close>

record 'a output_definition =
  od_schema :: output_schema
  od_decode :: "json \<Rightarrow> issue list + 'a"

definition create_decoded_definition ::
    "json \<Rightarrow> (json \<Rightarrow> issue list + 'a) \<Rightarrow> issue list + 'a output_definition" where
  "create_decoded_definition schema decode =
     and_then (parse_agent_output_schema schema None) (\<lambda>s. Inr \<lparr>od_schema = s, od_decode = decode\<rparr>)"

definition create_agent_output_definition :: "json \<Rightarrow> issue list + json output_definition" where
  "create_agent_output_definition schema = create_decoded_definition schema Inr"

section \<open>What a schema means\<close>

primrec conforms :: "output_schema \<Rightarrow> json \<Rightarrow> bool" where
  "conforms (Nullable_Schema s n d) = (\<lambda>j. j = J_Null \<or> conforms s j)"
| "conforms (Object_Schema ps req d) = (\<lambda>j. case j of
     J_Obj kvs \<Rightarrow> list_all (\<lambda>kv. fst kv \<in> fst ` set ps) kvs \<and>
       list_all (\<lambda>(k, c). case map_of kvs k of None \<Rightarrow> False | Some v \<Rightarrow> c v) (map (map_prod id conforms) ps)
   | _ \<Rightarrow> False)"
| "conforms (Array_Schema s lo hi d) = (\<lambda>j. case j of
     J_Arr xs \<Rightarrow> \<not> outside_bounds lo hi (js_len xs) \<and> list_all (conforms s) xs | _ \<Rightarrow> False)"
| "conforms (String_Schema values lo hi d) = (\<lambda>j. case j of
     J_Str s \<Rightarrow> \<not> outside_bounds lo hi (js_len s) \<and> optional (\<lambda>vs. s \<in> set vs) values | _ \<Rightarrow> False)"
| "conforms (Number_Schema integer lo hi d) = (\<lambda>j. case j of
     J_Num n \<Rightarrow> \<not> outside_bounds lo hi n | _ \<Rightarrow> False)"
| "conforms (Boolean_Schema d) = (\<lambda>j. case j of J_Bool b \<Rightarrow> True | _ \<Rightarrow> False)"
| "conforms (Null_Schema d) = (\<lambda>j. j = J_Null)"

section \<open>The matcher decides conformance\<close>

text \<open>
  A matcher decides a predicate when it reports nothing exactly on the values that satisfy it;
  once there is an issue, it never goes away.
\<close>

definition decides :: "matcher \<Rightarrow> (json \<Rightarrow> bool) \<Rightarrow> bool" where
  "decides m p \<longleftrightarrow> (\<forall>j path. (m j path [] = [] \<longleftrightarrow> p j) \<and> (\<forall>iss. iss \<noteq> [] \<longrightarrow> m j path iss \<noteq> []))"

lemma mismatch_nonempty [simp]: "mismatch message path iss \<noteq> []"
  by (simp add: mismatch_def add_issue_nonempty)

lemma type_mismatch_nonempty [simp]: "type_mismatch path iss \<noteq> []"
  by (simp add: type_mismatch_def)

lemma not_full_Nil [simp]: "\<not> issues_full []"
  by (simp add: issues_full_def output_issues_limit_def)

lemma decides_Nil: "decides m p \<Longrightarrow> m j path [] = [] \<longleftrightarrow> p j"
  by (simp add: decides_def)

lemma decides_keeps: "decides m p \<Longrightarrow> iss \<noteq> [] \<Longrightarrow> m j path iss \<noteq> []"
  by (simp add: decides_def)

lemma decides_any: "decides m p \<Longrightarrow> m j path iss = [] \<longleftrightarrow> iss = [] \<and> p j"
  using decides_Nil decides_keeps by metis

lemma decides_full: "decides m p \<Longrightarrow> issues_full (m j path []) \<Longrightarrow> \<not> p j"
  using decides_Nil not_full_Nil by metis

lemma undeclared_keys_Nil:
  "undeclared_keys declared path ks iss = [] \<longleftrightarrow> iss = [] \<and> set ks \<subseteq> set declared"
  by (induction ks arbitrary: iss) auto

lemma match_properties_Nil:
  "(\<And>k m p. (k, m, p) \<in> set mps \<Longrightarrow> decides m p) \<Longrightarrow>
   match_properties kvs path (map (\<lambda>(k, m, p). (k, m)) mps) iss = [] \<longleftrightarrow>
     iss = [] \<and> list_all (\<lambda>(k, m, p). case map_of kvs k of None \<Rightarrow> False | Some v \<Rightarrow> p v) mps"
proof (induction mps arbitrary: iss)
  case (Cons mp mps)
  obtain k m p where mp: "mp = (k, m, p)" by (cases mp) auto
  have dec: "decides m p" using Cons.prems mp by auto
  have ih: "match_properties kvs path (map (\<lambda>(k, m, p). (k, m)) mps) iss' = [] \<longleftrightarrow>
     iss' = [] \<and> list_all (\<lambda>(k, m, p). case map_of kvs k of None \<Rightarrow> False | Some v \<Rightarrow> p v) mps" for iss'
    using Cons.prems by (intro Cons.IH) auto
  have full: "issues_full x \<Longrightarrow> x \<noteq> []" for x by (cases x) auto
  show ?case
    using full by (cases "map_of kvs k") (auto simp: mp Let_def ih decides_any [OF dec] dest: decides_full [OF dec])
qed simp

lemma match_items_Nil:
  "decides m p \<Longrightarrow> match_items m path i xs iss = [] \<longleftrightarrow> iss = [] \<and> list_all p xs"
proof (induction xs arbitrary: i iss)
  case (Cons x xs)
  have full: "issues_full x \<Longrightarrow> x \<noteq> []" for x by (cases x) auto
  show ?case
    using full Cons decides_full [OF Cons.prems] by (auto simp: Let_def decides_any)
qed simp

lemma decidesI:
  "(\<And>j path iss. m j path iss = [] \<longleftrightarrow> iss = [] \<and> p j) \<Longrightarrow> decides m p"
  by (simp add: decides_def)

lemma match_node_decides: "decides (match_node s) (conforms s)"
proof (induction s)
  case (Object_Schema ps req d)
  have full: "issues_full x \<Longrightarrow> x \<noteq> []" for x by (cases x) auto
  let ?mps = "map (\<lambda>(k, s). (k, match_node s, conforms s)) ps"
  have dec: "decides m p" if "(k, m, p) \<in> set ?mps" for k m p
    using that Object_Schema by (force simp: image_iff)
  have maps: "map (map_prod id match_node) ps = map (\<lambda>(k, m, p). (k, m)) ?mps"
    by (auto simp: case_prod_unfold map_prod_def)
  have all: "list_all (\<lambda>(k, c). case map_of kvs k of None \<Rightarrow> False | Some v \<Rightarrow> c v) (map (map_prod id conforms) ps)
      \<longleftrightarrow> list_all (\<lambda>(k, m, p). case map_of kvs k of None \<Rightarrow> False | Some v \<Rightarrow> p v) ?mps" for kvs
    by (auto simp: list_all_iff split: option.splits)
  have props: "match_properties kvs path (map (map_prod id match_node) ps) iss = [] \<longleftrightarrow> iss = [] \<and>
      list_all (\<lambda>(k, c). case map_of kvs k of None \<Rightarrow> False | Some v \<Rightarrow> c v) (map (map_prod id conforms) ps)"
    for kvs path iss
    unfolding maps all by (rule match_properties_Nil [OF dec])
  show ?case
  proof (rule decidesI)
    fix j path iss
    show "match_node (Object_Schema ps req d) j path iss = [] \<longleftrightarrow> iss = [] \<and> conforms (Object_Schema ps req d) j"
    proof (cases j)
      case (J_Obj kvs)
      have keys: "set (map fst kvs) \<subseteq> set (map fst ps) \<longleftrightarrow> list_all (\<lambda>kv. fst kv \<in> fst ` set ps) kvs"
        by (auto simp: list_all_iff)
      show ?thesis
        unfolding match_node.simps conforms.simps J_Obj json.case if_distrib [where f = "\<lambda>x. x = []"]
          props undeclared_keys_Nil keys
        using full by auto
    qed (use full in auto)
  qed
qed (rule decidesI; (auto simp: decides_any match_items_Nil optional_def Let_def issues_full_def output_issues_limit_def
      split: json.splits option.splits if_splits)[1])+


text \<open>
  The smallest value of a schema (\<open>minimumValueSize\<close>) is a lower bound: no value that conforms
  to the schema has fewer serialized bytes, fewer nodes or less depth.
\<close>

section \<open>Decimal digits\<close>

lemma int_digits_length:
  "0 < n \<Longrightarrow> 10 ^ (length (int_digits n) - 1) \<le> n \<and> n < 10 ^ length (int_digits n)"
proof (induction n rule: int_digits.induct)
  case (1 n)
  show ?case
  proof (cases "n < 10")
    case True
    then show ?thesis using 1 by (subst (1 2) int_digits.simps) simp
  next
    case False
    let ?k = "length (int_digits (n div 10))"
    have len: "length (int_digits n) = Suc ?k" using False by (subst int_digits.simps) simp
    have ih: "10 ^ (?k - 1) \<le> n div 10" "n div 10 < 10 ^ ?k" using 1 False by auto
    have k: "0 < ?k" by (subst int_digits.simps) simp
    then have pow: "(10::int) ^ ?k = 10 * 10 ^ (?k - 1)"
      by (metis One_nat_def Suc_pred power_Suc)
    have "(10::int) ^ ?k \<le> n" using ih(1) pow by linarith
    moreover have "n < 10 * 10 ^ ?k" using ih(2) by linarith
    ultimately show ?thesis by (simp add: len)
  qed
qed

lemma int_digits_nonempty [simp]: "int_digits n \<noteq> []"
  by (subst int_digits.simps) simp

lemma digits_mono: "0 < m \<Longrightarrow> m \<le> n \<Longrightarrow> length (int_digits m) \<le> length (int_digits n)"
proof (rule ccontr)
  assume m: "0 < m" "m \<le> n" and "\<not> length (int_digits m) \<le> length (int_digits n)"
  then have "length (int_digits n) \<le> length (int_digits m) - 1" by simp
  then have "(10::int) ^ length (int_digits n) \<le> 10 ^ (length (int_digits m) - 1)"
    by (rule power_increasing) simp
  then show False using int_digits_length [of m] int_digits_length [of n] m by linarith
qed

lemma digits_le: "0 < n \<Longrightarrow> int (length (int_digits n)) \<le> n"
proof (induction n rule: int_digits.induct)
  case (1 n)
  show ?case
  proof (cases "n < 10")
    case True
    then show ?thesis using 1 by (subst int_digits.simps) simp
  next
    case False
    then have "int (length (int_digits (n div 10))) \<le> n div 10" using 1 by simp
    then show ?thesis using False by (subst int_digits.simps) simp
  qed
qed

lemma exponent_text: "21 \<le> n \<Longrightarrow> int (length (int_digits n)) \<le> n - 2"
proof -
  assume n: "21 \<le> n"
  have "int (length (int_digits (n div 10))) \<le> n div 10" using n by (intro digits_le) simp
  moreover have "length (int_digits n) = Suc (length (int_digits (n div 10)))"
    using n by (subst int_digits.simps) simp
  ultimately show ?thesis using n by linarith
qed

lemma foldl_min_le:
  "foldl (\<lambda>b e. min b (f e)) b es \<le> (b :: int)"
  "e \<in> set es \<Longrightarrow> foldl (\<lambda>b e. min b (f e)) b es \<le> f e"
proof -
  have *: "foldl (\<lambda>b e. min b (f e)) c es \<le> c" for c and es :: "'a list"
  proof (induction es arbitrary: c)
    case (Cons x es)
    show ?case using Cons.IH [of "min c (f x)"] by simp
  qed simp
  show "foldl (\<lambda>b e. min b (f e)) b es \<le> b" by (rule *)
  show "e \<in> set es \<Longrightarrow> foldl (\<lambda>b e. min b (f e)) b es \<le> f e"
  proof (induction es arbitrary: b)
    case (Cons x es)
    show ?case
    proof (cases "e = x")
      case True
      then show ?thesis using * [of "min b (f x)" es] by simp
    next
      case False
      then show ?thesis using Cons by simp
    qed
  qed simp
qed

section \<open>Numbers\<close>

lemma band_bytes_small:
  assumes "0 < n" and "lo \<le> n" and "n \<le> hi"
  shows "band_bytes lo hi (decimal_exponent n) \<le> js_len (int_digits n)"
proof -
  let ?k = "length (int_digits n)"
  have k: "0 < ?k" by simp
  have e: "decimal_exponent n = int ?k - 1" by (simp add: decimal_exponent_def)
  have pow: "(10::int) ^ (?k - 1) \<le> n" "n < 10 ^ ?k" using int_digits_length [OF assms(1)] by auto
  show ?thesis
  proof (cases "21 \<le> decimal_exponent n")
    case True
    then have "int (length (int_digits (decimal_exponent n))) \<le> decimal_exponent n - 2"
      by (rule exponent_text)
    then show ?thesis using True e by (simp add: band_bytes_def int_string_code)
  next
    case False
    have nat1: "nat (decimal_exponent n) = ?k - 1" and nat2: "nat (decimal_exponent n + 1) = ?k"
      using k by (auto simp: e nat_diff_distrib)
    have "max lo (10 ^ (?k - 1)) \<le> hi" "max lo (10 ^ (?k - 1)) < 10 ^ ?k"
      using pow assms by auto
    then show ?thesis
      using False k unfolding band_bytes_def nat1 nat2 Let_def by (auto simp: e)
  qed
qed

lemma minimum_band_le:
  assumes "0 < lo" and "lo \<le> n" and "n \<le> hi"
  shows "minimum_band lo hi \<le> js_len (int_digits n)"
proof -
  have n: "0 < n" using assms by simp
  have range: "decimal_exponent lo \<le> decimal_exponent n" "decimal_exponent n \<le> decimal_exponent hi"
    using digits_mono [of lo n] digits_mono [of n hi] assms by (auto simp: decimal_exponent_def)
  have "minimum_band lo hi \<le> band_bytes lo hi (decimal_exponent n)"
  proof (cases "decimal_exponent n = decimal_exponent lo")
    case True
    then show ?thesis
      unfolding minimum_band_def Let_def by (simp only: True foldl_min_le(1))
  next
    case False
    then have "decimal_exponent n \<in> set [decimal_exponent lo + 1..decimal_exponent hi]" using range by auto
    then show ?thesis unfolding minimum_band_def Let_def by (rule foldl_min_le(2))
  qed
  then show ?thesis using band_bytes_small [OF n assms(2,3)] by linarith
qed

text \<open>Every finite double is between the two extreme ones.\<close>

definition finite_number :: "int \<Rightarrow> bool" where
  "finite_number n \<longleftrightarrow> - number_max_value \<le> n \<and> n \<le> number_max_value"

lemma minimum_number_le:
  assumes "\<not> outside_bounds lo hi n" and "finite_number n"
  shows "minimum_number_bytes lo hi \<le> js_len (int_string n)"
proof -
  define a where "a = (case lo of None \<Rightarrow> - number_max_value | Some n \<Rightarrow> n)"
  define b where "b = (case hi of None \<Rightarrow> number_max_value | Some n \<Rightarrow> n)"
  have ab: "a \<le> n" "n \<le> b"
    using assms by (auto simp: a_def b_def outside_bounds_def finite_number_def split: option.splits)
  have len: "1 \<le> js_len (int_string n)" by (cases "int_digits n") (simp_all add: int_string_code)
  have eq: "minimum_number_bytes lo hi =
      (if a = b then js_len (int_string a) else if a \<le> 0 \<and> 0 \<le> b then 1
       else minimum_band (if b < 0 then - b else a) (if b < 0 then - a else b) + (if b < 0 then 1 else 0))"
    by (simp add: minimum_number_bytes_def a_def b_def Let_def)
  consider (eq) "a = b" | (zero) "a \<noteq> b" "a \<le> 0" "0 \<le> b" | (neg) "a \<noteq> b" "b < 0" | (pos) "a \<noteq> b" "0 < a" by linarith
  then show ?thesis
  proof cases
    case eq
    then have "n = a" using ab by simp
    then show ?thesis using eq \<open>minimum_number_bytes lo hi = _\<close> by simp
  next
    case zero
    then show ?thesis using eq len by simp
  next
    case neg
    then have "minimum_band (- b) (- a) \<le> js_len (int_digits (- n))"
      using ab by (intro minimum_band_le) auto
    moreover have "int_string n = ''-'' @ int_digits (- n)" using neg ab by (simp add: int_string_code)
    ultimately show ?thesis using neg ab eq by simp
  next
    case pos
    then have "minimum_band a b \<le> js_len (int_digits n)" using ab by (intro minimum_band_le) auto
    moreover have "int_string n = int_digits n" using pos ab by (simp add: int_string_code)
    ultimately show ?thesis using pos ab eq by simp
  qed
qed

section \<open>Measures of a value\<close>

function (sequential) json_depth :: "json \<Rightarrow> int" where
  "json_depth (J_Arr xs) = 1 + foldl max 0 (map json_depth xs)"
| "json_depth (J_Obj kvs) = 1 + foldl max 0 (map (\<lambda>kv. json_depth (snd kv)) kvs)"
| "json_depth _ = 1"
  by pat_completeness auto
termination
  by (relation "measure size") (auto simp: less_Suc_eq_le size_list_estimation' size_member_json)

function (sequential) finite_numbers :: "json \<Rightarrow> bool" where
  "finite_numbers (J_Num n) \<longleftrightarrow> finite_number n"
| "finite_numbers (J_Arr xs) \<longleftrightarrow> list_all finite_numbers xs"
| "finite_numbers (J_Obj kvs) \<longleftrightarrow> list_all (\<lambda>kv. finite_numbers (snd kv)) kvs"
| "finite_numbers _ \<longleftrightarrow> True"
  by pat_completeness auto
termination
  by (relation "measure size") (auto simp: less_Suc_eq_le size_list_estimation' size_member_json)

lemma foldl_max_bound: "foldl max c xs \<le> (m :: int) \<longleftrightarrow> c \<le> m \<and> (\<forall>x\<in>set xs. x \<le> m)"
  by (induction xs arbitrary: c) auto

lemma shape_depth: "output_shape bounds d j \<Longrightarrow> d - 1 + json_depth j \<le> jb_max_depth bounds"
proof (induction bounds d j rule: output_shape.induct)
  case (1 bounds depth xs)
  then have "\<forall>x\<in>set xs. json_depth x \<le> jb_max_depth bounds - depth" by (fastforce simp: list_all_iff)
  moreover have "0 \<le> jb_max_depth bounds - depth" using 1 by simp
  ultimately have "foldl max 0 (map json_depth xs) \<le> jb_max_depth bounds - depth"
    by (simp add: foldl_max_bound)
  then show ?case by simp
next
  case (2 bounds depth kvs)
  then have "\<forall>kv\<in>set kvs. json_depth (snd kv) \<le> jb_max_depth bounds - depth" by (fastforce simp: list_all_iff)
  moreover have "0 \<le> jb_max_depth bounds - depth" using 2 by simp
  ultimately have "foldl max 0 (map (\<lambda>kv. json_depth (snd kv)) kvs) \<le> jb_max_depth bounds - depth"
    by (simp add: foldl_max_bound)
  then show ?case by simp
qed auto

lemma member_depth: "kv \<in> set kvs \<Longrightarrow> 1 + json_depth (snd kv) \<le> json_depth (J_Obj kvs)"
  using foldl_max_bound [of 0 "map (\<lambda>kv. json_depth (snd kv)) kvs" "foldl max 0 (map (\<lambda>kv. json_depth (snd kv)) kvs)"]
  by simp

lemma item_depth: "x \<in> set xs \<Longrightarrow> 1 + json_depth x \<le> json_depth (J_Arr xs)"
  using foldl_max_bound [of 0 "map json_depth xs" "foldl max 0 (map json_depth xs)"] by simp

lemma foldl_max_ge: "(c :: int) \<le> foldl max c xs"
  using foldl_max_bound [of c xs "foldl max c xs"] by simp

lemma json_depth_pos: "1 \<le> json_depth j"
  using foldl_max_ge [of 0] by (cases j) simp_all

end
