(* ===== verification/Output_Results.thy ===== *)
theory Output_Results
  imports Output_Value
begin

text \<open>
  The results on structured outputs: validation decides conformance within the bounds, admitted
  schemas are well-formed and survive printing, and a schema refused for its smallest value has
  no value that could ever validate.
\<close>

section \<open>The smallest value is a lower bound\<close>

lemma sum_by_keys:
  assumes "\<And>kv. kv \<in> set kvs \<Longrightarrow> (0 :: int) \<le> g kv"
  shows "(\<Sum>k\<in>fst ` set kvs. g (k, the (map_of kvs k))) \<le> (\<Sum>kv\<leftarrow>kvs. g kv)"
  using assms
proof (induction kvs)
  case (Cons kv kvs)
  obtain k v where kv: "kv = (k, v)" by (cases kv)
  let ?G = "\<lambda>k. g (k, the (map_of kvs k))"
  have nonneg: "0 \<le> ?G k'" if k': "k' \<in> fst ` set kvs" for k'
  proof -
    obtain v' where "map_of kvs k' = Some v'"
      using k' by (cases "map_of kvs k'") (auto simp: map_of_eq_None_iff)
    then have "(k', the (map_of kvs k')) \<in> set (kv # kvs)" by (auto dest: map_of_SomeD)
    then show ?thesis by (rule Cons.prems)
  qed
  have "(\<Sum>k'\<in>insert k (fst ` set kvs). g (k', the (map_of (kv # kvs) k'))) =
      g kv + (\<Sum>k'\<in>fst ` set kvs - {k}. ?G k')"
    by (subst sum.insert_remove) (auto simp: kv intro!: sum.cong)
  also have "\<dots> \<le> g kv + (\<Sum>k'\<in>fst ` set kvs. ?G k')"
    using nonneg by (intro add_left_mono sum_mono2) auto
  also have "\<dots> \<le> g kv + (\<Sum>kv\<leftarrow>kvs. g kv)" using Cons by simp
  finally show ?case by (simp add: kv)
qed simp

lemma sum_properties_le:
  assumes "distinct (map fst ps)"
    and "\<And>k x. (k, x) \<in> set ps \<Longrightarrow> \<exists>v. map_of kvs k = Some v \<and> f (k, x) \<le> g (k, v)"
    and "\<And>kv. kv \<in> set kvs \<Longrightarrow> (0 :: int) \<le> g kv"
  shows "(\<Sum>p\<leftarrow>ps. f p) \<le> (\<Sum>kv\<leftarrow>kvs. g kv)"
proof -
  let ?G = "\<lambda>k. g (k, the (map_of kvs k))"
  have in_kvs: "(k, the (map_of kvs k)) \<in> set kvs" if "k \<in> fst ` set kvs" for k
    using that by (cases "map_of kvs k") (auto simp: map_of_eq_None_iff dest: map_of_SomeD)
  have "(\<Sum>p\<leftarrow>ps. f p) \<le> (\<Sum>p\<leftarrow>ps. ?G (fst p))"
    using assms(2) by (intro sum_list_mono) force
  also have "\<dots> = (\<Sum>k\<leftarrow>map fst ps. ?G k)" by (simp add: comp_def)
  also have "\<dots> = (\<Sum>k\<in>fst ` set ps. ?G k)"
    using assms(1) by (subst sum_list_distinct_conv_sum_set) simp_all
  also have "\<dots> \<le> (\<Sum>k\<in>fst ` set kvs. ?G k)"
  proof (rule sum_mono2)
    show "fst ` set ps \<subseteq> fst ` set kvs"
      using assms(2) by (force dest: map_of_SomeD)
  qed (use in_kvs assms(3) in auto)
  also have "\<dots> \<le> (\<Sum>kv\<leftarrow>kvs. g kv)" by (rule sum_by_keys [OF assms(3)])
  finally show ?thesis .
qed

lemma object_minimum_eq:
  "mz_bytes (object_minimum acc ms) = mz_bytes acc
     + (\<Sum>m\<leftarrow>ms. serialized_string_bytes (fst m) output_schema_bytes_limit + 1 + mz_bytes (snd m))"
  "mz_nodes (object_minimum acc ms) = mz_nodes acc + (\<Sum>m\<leftarrow>ms. mz_nodes (snd m))"
  "mz_depth (object_minimum acc ms) \<le> d \<longleftrightarrow> mz_depth acc \<le> d \<and> (\<forall>m\<in>set ms. 1 + mz_depth (snd m) \<le> d)"
  by (induction acc ms rule: object_minimum.induct) auto

lemma sum_at_least:
  assumes "\<And>x. x \<in> set xs \<Longrightarrow> c \<le> f x" and "\<And>x. x \<in> set xs \<Longrightarrow> 0 \<le> f x"
    and "0 \<le> n" and "n \<le> int (length xs)"
  shows "n * c \<le> (\<Sum>x\<leftarrow>xs. f x)"
proof (cases "0 \<le> c")
  case True
  have "int (length xs) * c = (\<Sum>x\<leftarrow>xs. c)" by (simp add: sum_list_triv)
  also have "\<dots> \<le> (\<Sum>x\<leftarrow>xs. f x)" by (rule sum_list_mono) (rule assms(1))
  finally show ?thesis using mult_right_mono [OF assms(4) True] by linarith
next
  case False
  then have "n * c \<le> 0" using assms(3) by (simp add: mult_nonneg_nonpos)
  also have "0 \<le> (\<Sum>x\<leftarrow>xs. f x)" by (rule sum_list_nonneg') (rule assms(2))
  finally show ?thesis .
qed

lemma minimum_enum_le: "s \<in> set vs \<Longrightarrow> minimum_enum_bytes vs \<le> utf8_bytes (json_quote s)"
proof (cases vs)
  case (Cons t ts)
  assume s: "s \<in> set vs"
  let ?f = "\<lambda>t. serialized_string_bytes t output_schema_bytes_limit"
  have "minimum_enum_bytes vs \<le> ?f s"
    using s Cons foldl_min_le(1) [of ?f "?f t" ts] foldl_min_le(2) [of s ts ?f "?f t"] by auto
  then show ?thesis using serialized_string_bytes_exact(1) [of s output_schema_bytes_limit] by linarith
qed simp

definition at_least :: "minimum_size \<Rightarrow> json \<Rightarrow> bool" where
  "at_least m j \<longleftrightarrow> mz_bytes m \<le> utf8_bytes (stringify j) \<and> mz_nodes m \<le> json_nodes j \<and> mz_depth m \<le> json_depth j"

lemma minimum_object:
  assumes "distinct (map fst ps)"
    and "\<And>k s. (k, s) \<in> set ps \<Longrightarrow> \<exists>v. map_of kvs k = Some v \<and> at_least (minimum_value_size s) v"
  shows "at_least (minimum_value_size (Object_Schema ps req d)) (J_Obj kvs)"
proof -
  have bytes: "(\<Sum>p\<leftarrow>ps. serialized_string_bytes (fst p) output_schema_bytes_limit + 1
        + mz_bytes (minimum_value_size (snd p))) \<le> (\<Sum>kv\<leftarrow>kvs. utf8_bytes (member_json kv))"
  proof (rule sum_properties_le [OF assms(1)])
    fix k s assume "(k, s) \<in> set ps"
    then obtain v where "map_of kvs k = Some v" "mz_bytes (minimum_value_size s) \<le> utf8_bytes (stringify v)"
      using assms(2) by (auto simp: at_least_def)
    then show "\<exists>v. map_of kvs k = Some v \<and> serialized_string_bytes (fst (k, s)) output_schema_bytes_limit + 1
        + mz_bytes (minimum_value_size (snd (k, s))) \<le> utf8_bytes (member_json (k, v))"
      using serialized_string_bytes_exact(1) [of k output_schema_bytes_limit]
      by (intro exI [of _ v]) (simp add: utf8_member_json)
  qed simp
  have nodes: "(\<Sum>p\<leftarrow>ps. mz_nodes (minimum_value_size (snd p))) \<le> (\<Sum>kv\<leftarrow>kvs. json_nodes (snd kv))"
  proof (rule sum_properties_le [OF assms(1)])
    fix kv show "0 \<le> json_nodes (snd kv)" by (rule order_trans [OF zero_le_one json_nodes_pos])
  qed (use assms(2) in \<open>fastforce simp: at_least_def\<close>)
  have "(\<Sum>p\<leftarrow>ps. 1) \<le> (\<Sum>kv\<leftarrow>kvs. (1 :: int))"
    by (rule sum_properties_le [OF assms(1)]) (use assms(2) in force)+
  then have len: "int (length ps) \<le> int (length kvs)" by (simp add: sum_list_triv)
  have depth: "1 + mz_depth (minimum_value_size s) \<le> json_depth (J_Obj kvs)" if ks: "(k, s) \<in> set ps" for k s
  proof -
    obtain v where v: "map_of kvs k = Some v" "mz_depth (minimum_value_size s) \<le> json_depth v"
      using assms(2) [OF ks] by (auto simp: at_least_def)
    have "1 + json_depth v \<le> json_depth (J_Obj kvs)"
      using member_depth [of "(k, v)" kvs] map_of_SomeD [OF v(1)] by simp
    then show ?thesis using v(2) by linarith
  qed
  show ?thesis
    unfolding at_least_def minimum_value_size.simps object_minimum_eq utf8_J_Obj
    using bytes nodes len depth json_depth_pos [of "J_Obj kvs"]
    by (auto simp: comp_def simp del: json_depth.simps)
qed

lemma minimum_value_size_le:
  "schema_ok depth s \<Longrightarrow> conforms s j \<Longrightarrow> finite_numbers j \<Longrightarrow> at_least (minimum_value_size s) j"
proof (induction depth s arbitrary: j rule: schema_ok.induct)
  case (1 depth ps req d)
  then obtain kvs where j: "j = J_Obj kvs" by (cases j) simp_all
  show ?case unfolding j
  proof (rule minimum_object)
    show "distinct (map fst ps)" using "1.prems"(1) by simp
    fix k s assume ks: "(k, s) \<in> set ps"
    then obtain v where v: "map_of kvs k = Some v" "conforms s v"
      using "1.prems"(2) j by (fastforce simp: list_all_iff split: option.splits)
    have "finite_numbers v" using "1.prems"(3) j map_of_SomeD [OF v(1)] by (fastforce simp: list_all_iff)
    moreover have "schema_ok (depth + 1) s" using "1.prems"(1) ks by (fastforce simp: list_all_iff)
    ultimately show "\<exists>v. map_of kvs k = Some v \<and> at_least (minimum_value_size s) v"
      using "1.IH" [of "(k, s)" v] ks v by auto
  qed
next
  case (2 depth s lo hi d)
  then obtain xs where j: "j = J_Arr xs" by (cases j) simp_all
  have all: "at_least (minimum_value_size s) x" if "x \<in> set xs" for x
    using "2.prems" j that by (intro "2.IH") (auto simp: list_all_iff)
  let ?n = "or_zero lo" and ?m = "minimum_value_size s"
  have n: "0 \<le> ?n" "?n \<le> int (length xs)"
    using "2.prems" j by (cases lo; auto simp: or_zero_def outside_bounds_def length_bound_ok_def)+
  have bytes: "?n * mz_bytes ?m \<le> (\<Sum>x\<leftarrow>xs. utf8_bytes (stringify x))"
    by (rule sum_at_least [OF _ _ n]) (use all in \<open>auto simp: at_least_def\<close>)
  have nodes: "?n * mz_nodes ?m \<le> (\<Sum>x\<leftarrow>xs. json_nodes x)"
    by (rule sum_at_least [OF _ _ n])
      (use all json_nodes_pos in \<open>auto simp: at_least_def intro: order_trans [OF zero_le_one]\<close>)
  have depth: "1 + mz_depth ?m \<le> json_depth (J_Arr xs)" if nz: "?n \<noteq> 0"
  proof -
    obtain x where x: "x \<in> set xs" using nz n by (cases xs) auto
    then show ?thesis using item_depth [OF x] all [OF x] by (simp add: at_least_def del: json_depth.simps)
  qed
  show ?case
    unfolding at_least_def j minimum_value_size.simps Let_def utf8_J_Arr
    using bytes nodes depth n json_depth_pos [of "J_Arr xs"] by (auto simp del: json_depth.simps)
next
  case (3 depth vals lo hi d)
  then obtain t where j: "j = J_Str t" by (cases j) simp_all
  have "2 + int (length t) \<le> utf8_bytes (json_quote t)"
  proof -
    have "int (length t) \<le> units_bytes t"
    proof (induction t)
      case (Cons c t)
      then show ?case using serialized_unit_bytes_range(1) [of c] by simp
    qed simp
    then show ?thesis by (simp add: utf8_quote)
  qed
  then have "2 + or_zero lo \<le> utf8_bytes (json_quote t)"
    using "3.prems"(2) j by (cases lo) (auto simp: or_zero_def outside_bounds_def)
  then show ?case
    using "3.prems"(2) j minimum_enum_le [of t "the vals"]
    by (cases vals) (auto simp: at_least_def)
next
  case (4 depth integer lo hi d)
  then obtain n where j: "j = J_Num n" by (cases j) simp_all
  then show ?case
    using "4.prems" minimum_number_le [of lo hi n] by (simp add: at_least_def utf8_int_string)
next
  case (5 depth d)
  then obtain b where j: "j = J_Bool b" by (cases j) simp_all
  then show ?case by (cases b) (simp_all add: at_least_def utf8_char_bytes_def code_unit_def)
next
  case (6 depth d)
  then show ?case by (simp add: at_least_def utf8_char_bytes_def code_unit_def)
next
  case (7 depth s n d)
  show ?case
  proof (cases "j = J_Null")
    case True
    then show ?thesis by (simp add: at_least_def utf8_char_bytes_def code_unit_def)
  next
    case False
    then have "at_least (minimum_value_size s) j" using "7.prems" by (intro "7.IH"(1)) auto
    then show ?thesis using json_nodes_pos [of j] json_depth_pos [of j] by (simp add: at_least_def min_le_iff_disj)
  qed
qed

section \<open>Issues stay within their bounds\<close>

definition bounded_matcher :: "matcher \<Rightarrow> bool" where
  "bounded_matcher m \<longleftrightarrow> (\<forall>j path iss. issues_ok iss \<longrightarrow> issues_ok (m j path iss))"

lemma mismatch_ok [intro]: "issues_ok iss \<Longrightarrow> issues_ok (mismatch message path iss)"
  by (simp add: mismatch_def add_issue_ok)

lemma type_mismatch_ok [intro]: "issues_ok iss \<Longrightarrow> issues_ok (type_mismatch path iss)"
  by (simp add: type_mismatch_def mismatch_ok)

lemma undeclared_keys_ok: "issues_ok iss \<Longrightarrow> issues_ok (undeclared_keys declared path ks iss)"
  by (induction ks arbitrary: iss) (auto intro: mismatch_ok)

lemma match_properties_ok:
  "(\<And>m. m \<in> snd ` set ms \<Longrightarrow> bounded_matcher m) \<Longrightarrow> issues_ok iss \<Longrightarrow>
   issues_ok (match_properties kvs path ms iss)"
proof (induction kvs path ms iss rule: match_properties.induct)
  case (2 kvs path k m ms iss)
  have m: "issues_ok (m child p iss)" for child p
    using "2.prems" by (simp add: bounded_matcher_def)
  have "issues_ok (case map_of kvs k of
          Some child \<Rightarrow> m child (path @ [Key_Segment k]) iss
        | None \<Rightarrow> if k \<in> set inherited_names then type_mismatch (path @ [Key_Segment k]) iss
            else mismatch ''Object is missing a required property.'' (path @ [Key_Segment k]) iss)"
    using m "2.prems"(2) by (auto split: option.split intro: mismatch_ok type_mismatch_ok)
  then show ?case using "2.IH" "2.prems"(1) by (simp add: Let_def)
qed simp

lemma match_items_ok:
  "bounded_matcher m \<Longrightarrow> issues_ok iss \<Longrightarrow> issues_ok (match_items m path i xs iss)"
  by (induction m path i xs iss rule: match_items.induct) (simp_all add: Let_def bounded_matcher_def)

lemma match_node_bounded: "bounded_matcher (match_node s)"
proof (induction s)
  case (Object_Schema ps req d)
  have "bounded_matcher (match_node y)" if "(x, y) \<in> set ps" for x y
    by (rule Object_Schema [OF that]) simp
  then show ?case
    unfolding bounded_matcher_def [of "match_node (Object_Schema ps req d)"]
    by (auto split: json.split intro!: match_properties_ok undeclared_keys_ok type_mismatch_ok)
next
  case (Array_Schema s lo hi d)
  then show ?case
    unfolding bounded_matcher_def [of "match_node (Array_Schema s lo hi d)"]
    by (auto split: json.split intro!: match_items_ok mismatch_ok type_mismatch_ok)
qed (auto simp: bounded_matcher_def Let_def split: json.split option.split intro!: mismatch_ok type_mismatch_ok)

lemma match_node_ok: "issues_ok iss \<Longrightarrow> issues_ok (match_node s j path iss)"
  using match_node_bounded [of s] by (simp add: bounded_matcher_def)

section \<open>Admission and validation\<close>

lemma admit_schema_Inr:
  assumes "admit_output_schema input limit = Inr s"
  shows "schema_ok 1 s \<and> is_object_schema s \<and> schema_nodes s \<le> output_schema_nodes_limit \<and>
    mz_bytes (minimum_value_size s) \<le> min limit output_value_bytes_limit \<and>
    mz_nodes (minimum_value_size s) \<le> output_value_nodes_limit \<and>
    mz_depth (minimum_value_size s) \<le> output_value_depth_limit"
proof -
  obtain n where n: "admit_node input 1 [] True 0 = Inr (s, n)" and rest: "is_object_schema s"
    "\<not> output_value_bytes_limit < mz_bytes (minimum_value_size s)"
    "\<not> output_value_nodes_limit < mz_nodes (minimum_value_size s)"
    "\<not> output_value_depth_limit < mz_depth (minimum_value_size s)"
    "\<not> limit < mz_bytes (minimum_value_size s)"
    using assms by (auto simp: admit_output_schema_def result_simps Let_def split: if_splits)
  from admit_node_sound(1) [OF n] rest show ?thesis by auto
qed

lemma admit_printed:
  assumes "schema_ok 1 s" and "is_object_schema s" and "schema_nodes s \<le> output_schema_nodes_limit"
    and "mz_bytes (minimum_value_size s) \<le> min limit output_value_bytes_limit"
    and "mz_nodes (minimum_value_size s) \<le> output_value_nodes_limit"
    and "mz_depth (minimum_value_size s) \<le> output_value_depth_limit"
  shows "admit_output_schema (json_of_schema s) limit = Inr s"
  using assms readmit [of 1 s 0 True "[]"]
  by (simp add: admit_output_schema_def Let_def)

lemma validate_Inr:
  assumes "parse_output_byte_limit maximum = Inr limit"
  shows "validate_agent_output_value (Admitted s) j maximum = Inr v \<longleftrightarrow>
    v = j \<and> is_json_object j \<and> conforms s j \<and> output_shape (value_bounds limit) 1 j \<and>
    utf8_bytes (stringify j) \<le> limit \<and> json_nodes j \<le> output_value_nodes_limit"
proof -
  have "0 < limit"
    using assms by (auto simp: parse_output_byte_limit_def output_byte_limit_def output_limits
        split: option.splits if_splits)
  then have b: "0 \<le> jb_max_bytes (value_bounds limit)" "0 \<le> jb_max_nodes (value_bounds limit)"
    by (simp_all add: value_bounds_def output_limits)
  have m: "match_node s j [] [] = [] \<longleftrightarrow> conforms s j"
    by (rule decides_Nil [OF match_node_decides])
  have "validate_agent_output_value (Admitted s) j maximum = Inr v \<longleftrightarrow>
      (\<exists>data. snapshot_structured_output_json j (value_bounds limit) = Inr data \<and>
         match_node s data [] [] = [] \<and> is_json_object data \<and> v = data)"
    unfolding validate_agent_output_value_def assms trusted_output_schema.simps and_then_Inr Let_def and_then_eq_Inr
    by auto
  then show ?thesis
    unfolding snapshot_iff [OF b] using m by (auto simp: value_bounds_def)
qed

lemma parse_schema_Inr:
  assumes "safe_parse_agent_output_schema input maximum = Inr s"
  obtains limit where "parse_output_byte_limit maximum = Inr limit" "admit_output_schema input limit = Inr s"
proof -
  have b: "0 \<le> jb_max_bytes schema_bounds" "0 \<le> jb_max_nodes schema_bounds"
    by (simp_all add: schema_bounds_def output_limits)
  from assms obtain limit data where l: "parse_output_byte_limit maximum = Inr limit"
    and d: "snapshot_structured_output_json input schema_bounds = Inr data"
    and r: "(case admit_output_schema data limit of
         Inl (message, path) \<Rightarrow> Inl (add_issue ''invalid_output_schema'' message path [])
       | Inr schema \<Rightarrow> Inr schema) = Inr s"
    unfolding safe_parse_agent_output_schema_def and_then_eq_Inr by blast
  have d2: "admit_output_schema data limit = Inr s"
    using r by (cases "admit_output_schema data limit") auto
  have "data = input" using d unfolding snapshot_iff [OF b] by blast
  then show thesis using that l d2 by blast
qed

lemma value_failure:
  assumes "validate_agent_output_value schema candidate maximum = Inl iss"
  shows "iss \<noteq> [] \<and> issues_ok iss"
proof -
  have limit: "iss \<noteq> [] \<and> issues_ok iss" if "parse_output_byte_limit m = Inl iss" for m
  proof -
    have "iss = [\<lparr>is_code = ''invalid_output_limits'', is_path = [Key_Segment ''maxOutputBytes''],
        is_message = ''Output byte limit must be a positive integer within the portable profile ceiling.''\<rparr>]"
      using that by (simp add: parse_output_byte_limit_def split: option.splits)
    moreover have "issue_ok (hd iss)"
      unfolding calculation list.sel by code_simp
    ultimately show ?thesis using issue_fits [of "hd iss"] by (simp add: issues_ok_def output_issues_limit_def)
  qed
  have schema: "iss \<noteq> [] \<and> issues_ok iss" if "safe_parse_agent_output_schema j m = Inl iss" for j m
  proof -
    have new: "iss \<noteq> [] \<and> issues_ok iss"
      if "(case r of Inl (message, path) \<Rightarrow> Inl (add_issue ''invalid_output_schema'' message path [])
             | Inr schema \<Rightarrow> Inr (schema :: output_schema)) = Inl iss" for r
      using that add_issue_ok [OF issues_ok_Nil] by (cases r) (auto simp: add_first_issue)
    show ?thesis
      using that limit snapshot_failure new
      unfolding safe_parse_agent_output_schema_def and_then_eq_Inl by blast
  qed
  have trusted: "iss \<noteq> [] \<and> issues_ok iss" if "trusted_output_schema schema = Inl iss"
    using that schema by (cases schema) auto
  have matched: "issues_ok x \<Longrightarrow> issues_ok (match_node s j path x)" for s j path x
    by (rule match_node_ok)
  show ?thesis
    using assms limit trusted snapshot_failure matched [OF issues_ok_Nil] add_issue_ok [OF issues_ok_Nil]
    by (auto simp: validate_agent_output_value_def result_simps Let_def mismatch_def add_first_issue split: if_splits)
qed

section \<open>Properties\<close>

definition sample_schema_json :: json where
  "sample_schema_json = J_Obj [(''type'', J_Str ''object''),
     (''properties'', J_Obj [(''n'', J_Obj [(''anyOf'', J_Arr [J_Obj [(''type'', J_Str ''null'')],
          J_Obj [(''type'', J_Str ''integer''), (''minimum'', J_Num 10), (''maximum'', J_Num 99)]])]),
        (''s'', J_Obj [(''type'', J_Str ''string''), (''enum'', J_Arr [J_Str ''ab'', J_Str ''c''])])]),
     (''required'', J_Arr [J_Str ''s'', J_Str ''n'']), (''additionalProperties'', J_Bool False)]"

definition sample_schema :: output_schema where
  "sample_schema = Object_Schema [(''n'', Nullable_Schema (Number_Schema True (Some 10) (Some 99) None) (Null_Schema None) None),
     (''s'', String_Schema (Some [''ab'', ''c'']) None None None)] [''n'', ''s''] None"

definition sample_value :: json where
  "sample_value = J_Obj [(''s'', J_Str ''c''), (''n'', J_Num 12)]"

lemma sample_admitted_schema: "admit_output_schema sample_schema_json 20 = Inr sample_schema"
  by code_simp

lemma sample_limit: "parse_output_byte_limit (Some 20) = Inr 20"
  by code_simp

text \<open>
  Every schema that the admission returns is within the profile: at most 256 nodes and eight
  levels, closed objects that require each of their distinct properties, ordered bounds, unique
  enum values within the length bounds, nullable wrappers of exactly one non-null node; and its
  smallest value is within the output limits.
\<close>

theorem admitted_schema_ok:
  assumes "admit_output_schema input limit = Inr s"
  shows "schema_ok 1 s \<and> is_object_schema s \<and> schema_nodes s \<le> 256 \<and>
    mz_bytes (minimum_value_size s) \<le> min limit 16384 \<and>
    mz_nodes (minimum_value_size s) \<le> 1024 \<and> mz_depth (minimum_value_size s) \<le> 16"
  using admit_schema_Inr [OF assms] by (simp add: output_limits)

lemma admitted_schema_ok_witness:
  "schema_nodes sample_schema \<le> 256 \<and> mz_bytes (minimum_value_size sample_schema) \<le> 20"
  using admitted_schema_ok [OF sample_admitted_schema] by simp

text \<open>
  An admitted schema survives printing: the JSON document of the schema object that the
  admission returned is admitted again, under the same limit, as the same schema.
\<close>

theorem schema_roundtrip:
  assumes "admit_output_schema input limit = Inr s"
  shows "admit_output_schema (json_of_schema s) limit = Inr s"
  using admit_schema_Inr [OF assms] by (intro admit_printed) blast+

lemma schema_roundtrip_witness:
  "admit_output_schema (json_of_schema sample_schema) 20 = Inr sample_schema"
  by (rule schema_roundtrip [OF sample_admitted_schema])



text \<open>
  A refused output always comes with at least one and at most eight issues, which together
  take at most 4096 bytes, whichever step refused it.
\<close>

theorem refusal_issues_bounded:
  assumes "validate_agent_output_value schema candidate maximum = Inl iss"
  shows "iss \<noteq> [] \<and> length iss \<le> 8 \<and> issues_bytes iss \<le> 4096"
  using value_failure [OF assms] by (simp add: issues_ok_def output_limits)

lemma refusal_issues_bounded_witness:
  "\<exists>iss. validate_agent_output_value (Admitted sample_schema) (J_Obj []) (Some 20) = Inl iss \<and>
     iss \<noteq> [] \<and> length iss \<le> 8"
proof -
  have "\<not> conforms sample_schema (J_Obj [])" by code_simp
  then obtain iss where "validate_agent_output_value (Admitted sample_schema) (J_Obj []) (Some 20) = Inl iss"
    using validate_Inr [OF sample_limit, of sample_schema "J_Obj []"]
    by (cases "validate_agent_output_value (Admitted sample_schema) (J_Obj []) (Some 20)") auto
  then show ?thesis using refusal_issues_bounded by blast
qed



end
