(* ===== verification/Delegation_Pages.thy ===== *)
theory Delegation_Pages
  imports Delegation_Store Delegation_Samples
begin

text \<open>
  Reads of the store: the keyset pages and cursors of \<open>store/pages.ts\<close>, the read and scan schemas
  of \<open>store/parse.ts\<close>, and \<open>read\<close> and \<open>scan\<close> of \<open>store/memory.ts\<close>.
\<close>

section \<open>Pages (pages.ts)\<close>

record 'v page =
  pg_items :: "'v list"
  pg_cursor :: "string option"

text \<open>A run without its input; the summary's JSON has no \<open>input\<close> member.\<close>

definition summarize_delegation_run :: "run_record \<Rightarrow> run_record" where
  "summarize_delegation_run run = run\<lparr>rn_input := \<lparr>ti_parts = [], ti_summary = None\<rparr>\<rparr>"

definition delegation_cursor_prefix :: "externals \<Rightarrow> string \<Rightarrow> json \<Rightarrow> string" where
  "delegation_cursor_prefix ext store_id query =
     store_id @ '':'' @ take 16 (delegation_input_digest ext query) @ '':''"

definition parse_delegation_page_cursor ::
    "externals \<Rightarrow> string \<Rightarrow> json \<Rightarrow> string option \<Rightarrow> delegation_failure + string option" where
  "parse_delegation_page_cursor ext store_id query cursor =
     (case cursor of
        None \<Rightarrow> Inr None
      | Some c \<Rightarrow>
          let prefix = delegation_cursor_prefix ext store_id query
          in if \<not> starts_with prefix c then fail_delegation Stale_Revision
             else let key = drop (length prefix) c
                  in if key = [] \<or> 128 < js_len key then fail_delegation Stale_Revision
                     else Inr (Some key))"

text \<open>What a row takes of the page budget.\<close>

definition row_bytes :: "('v \<Rightarrow> json) \<Rightarrow> 'v \<Rightarrow> int" where
  "row_bytes encode row = delegation_data_bytes (encode row) + 1"

text \<open>The loop over the sorted rows after the cursor: the items and bytes so far, the rows left.\<close>

fun fill_page ::
    "('v \<Rightarrow> json) \<Rightarrow> int \<Rightarrow> int \<Rightarrow> 'v list \<Rightarrow> int \<Rightarrow> 'v list \<Rightarrow> delegation_failure + ('v list \<times> bool)" where
  "fill_page encode limit max_bytes items bytes [] = Inr (items, False)"
| "fill_page encode limit max_bytes items bytes (row # rows) =
     (let size = row_bytes encode row in
      if limit \<le> js_len items \<or> max_bytes < bytes + size then
        (if items = [] then fail_delegation Capacity_Exceeded else Inr (items, True))
      else fill_page encode limit max_bytes (items @ [row]) (bytes + size) rows)"

definition page_limit :: "delegation_limits \<Rightarrow> int option \<Rightarrow> int" where
  "page_limit limits limit =
     min (case limit of None \<Rightarrow> lm_max_page_records limits | Some n \<Rightarrow> n) (lm_max_page_records limits)"

definition rows_after :: "('v \<Rightarrow> string) \<Rightarrow> string option \<Rightarrow> 'v list \<Rightarrow> 'v list" where
  "rows_after key after rows =
     (case after of None \<Rightarrow> rows | Some k \<Rightarrow> filter (\<lambda>row. \<not> key row \<le> k) rows)"

definition page_delegation_rows ::
    "externals \<Rightarrow> string \<Rightarrow> json \<Rightarrow> ('v \<Rightarrow> json) \<Rightarrow> 'v list \<Rightarrow> ('v \<Rightarrow> string) \<Rightarrow> delegation_limits
      \<Rightarrow> string option \<Rightarrow> int option \<Rightarrow> int \<Rightarrow> delegation_failure + 'v page" where
  "page_delegation_rows ext store_id query encode rows key limits cursor limit envelope_bytes =
     and_then (parse_delegation_page_cursor ext store_id query cursor) (\<lambda>after.
     and_then (fill_page encode (page_limit limits limit) (lm_max_page_bytes limits) []
                 (envelope_bytes + 512) (rows_after key after (sort_key key rows))) (\<lambda>(items, has_more).
       Inr \<lparr>pg_items = items,
         pg_cursor = (if has_more then Some (delegation_cursor_prefix ext store_id query @ key (last items))
                      else None)\<rparr>))"

section \<open>Inputs of reads and scans (types.ts, parse.ts)\<close>

record page_input =
  pn_cursor :: "string option"
  pn_limit :: "int option"

datatype store_read_input =
    Read_Task string page_input
  | Read_Run string string
  | Read_Operation parent_scope string
  | Read_Operations string string page_input
  | Read_Observations string string page_input
  | Read_Notification string
  | Read_Ceiling string page_input
  | Read_Capacity

datatype scan_kind = Scan_Queued | Scan_Recoverable_Runs | Scan_Eligible_Notifications

record store_scan_input =
  si_kind :: scan_kind
  si_at :: string
  si_page :: page_input

definition page_input_members :: "page_input \<Rightarrow> (string \<times> json) list" where
  "page_input_members p =
     opt_member ''cursor'' J_Str (pn_cursor p) @ opt_member ''limit'' J_Num (pn_limit p)"

fun json_of_read_input :: "store_read_input \<Rightarrow> json" where
  "json_of_read_input (Read_Task t p) =
     J_Obj ([(''kind'', J_Str ''task''), (''taskId'', J_Str t)] @ page_input_members p)"
| "json_of_read_input (Read_Run t r) =
     J_Obj [(''kind'', J_Str ''run''), (''taskId'', J_Str t), (''runId'', J_Str r)]"
| "json_of_read_input (Read_Operation p op) =
     J_Obj [(''kind'', J_Str ''operation''), (''parent'', json_of_parent p), (''operationId'', J_Str op)]"
| "json_of_read_input (Read_Operations t r p) = J_Obj ([(''kind'', J_Str ''operations''),
     (''taskId'', J_Str t), (''runId'', J_Str r)] @ page_input_members p)"
| "json_of_read_input (Read_Observations t r p) = J_Obj ([(''kind'', J_Str ''observations''),
     (''taskId'', J_Str t), (''runId'', J_Str r)] @ page_input_members p)"
| "json_of_read_input (Read_Notification n) =
     J_Obj [(''kind'', J_Str ''notification''), (''notificationId'', J_Str n)]"
| "json_of_read_input (Read_Ceiling c p) =
     J_Obj ([(''kind'', J_Str ''ceiling''), (''ceilingId'', J_Str c)] @ page_input_members p)"
| "json_of_read_input Read_Capacity = J_Obj [(''kind'', J_Str ''capacity'')]"

fun scan_kind_name :: "scan_kind \<Rightarrow> string" where
  "scan_kind_name Scan_Queued = ''queued''"
| "scan_kind_name Scan_Recoverable_Runs = ''recoverable_runs''"
| "scan_kind_name Scan_Eligible_Notifications = ''eligible_notifications''"

definition json_of_scan_input :: "store_scan_input \<Rightarrow> json" where
  "json_of_scan_input s = J_Obj ([(''kind'', J_Str (scan_kind_name (si_kind s))), (''at'', J_Str (si_at s))]
     @ page_input_members (si_page s))"

definition page_input_schema :: "page_input \<Rightarrow> bool" where
  "page_input_schema p \<longleftrightarrow> optional (\<lambda>c. js_len c \<le> 256) (pn_cursor p) \<and>
     optional (\<lambda>n. 0 < n \<and> n \<le> 100) (pn_limit p)"

fun read_schema :: "externals \<Rightarrow> store_read_input \<Rightarrow> bool" where
  "read_schema ext (Read_Task t p) \<longleftrightarrow> store_id_schema ext t \<and> page_input_schema p"
| "read_schema ext (Read_Run t r) \<longleftrightarrow> store_id_schema ext t \<and> store_id_schema ext r"
| "read_schema ext (Read_Operation p op) \<longleftrightarrow> parent_scope_schema p \<and> store_id_schema ext op"
| "read_schema ext (Read_Operations t r p) \<longleftrightarrow>
     store_id_schema ext t \<and> store_id_schema ext r \<and> page_input_schema p"
| "read_schema ext (Read_Observations t r p) \<longleftrightarrow>
     store_id_schema ext t \<and> store_id_schema ext r \<and> page_input_schema p"
| "read_schema ext (Read_Notification n) \<longleftrightarrow> store_id_schema ext n"
| "read_schema ext (Read_Ceiling c p) \<longleftrightarrow> hex_digest c \<and> page_input_schema p"
| "read_schema ext Read_Capacity \<longleftrightarrow> True"

definition scan_schema :: "externals \<Rightarrow> store_scan_input \<Rightarrow> bool" where
  "scan_schema ext s \<longleftrightarrow> at_schema ext (si_at s) \<and> page_input_schema (si_page s)"

definition parse_delegation_store_read_input ::
    "externals \<Rightarrow> store_read_input \<Rightarrow> delegation_failure + store_read_input" where
  "parse_delegation_store_read_input ext = parse_delegation (read_schema ext) json_of_read_input"

definition parse_delegation_store_scan_input ::
    "externals \<Rightarrow> store_scan_input \<Rightarrow> delegation_failure + store_scan_input" where
  "parse_delegation_store_scan_input ext = parse_delegation (scan_schema ext) json_of_scan_input"

section \<open>Reads (memory.ts)\<close>

datatype store_read_page =
    Task_Page "(task_record \<times> run_record page) option"
  | Run_Page "run_record option"
  | Operation_Page "operation_record option"
  | Operations_Page "operation_record page"
  | Observations_Page "task_observation page" int bool
  | Notification_Page "notification_record option"
  | Ceiling_Page string "parent_scope option" "target_reference page"
  | Capacity_Page store_capacity

definition padded_number :: "int \<Rightarrow> string" where
  "padded_number n = pad_start 16 (CHR ''0'') (int_string n)"

definition run_page_key :: "run_record \<Rightarrow> string" where
  "run_page_key run = padded_number (rn_ordinal run) @ '':'' @ rn_run_id run"

definition store_page ::
    "externals \<Rightarrow> store_state \<Rightarrow> json \<Rightarrow> ('v \<Rightarrow> json) \<Rightarrow> 'v list \<Rightarrow> ('v \<Rightarrow> string) \<Rightarrow> page_input \<Rightarrow> int
      \<Rightarrow> delegation_failure + 'v page" where
  "store_page ext st query encode rows key input envelope_bytes =
     page_delegation_rows ext (st_store_id st) query encode rows key (st_limits st)
       (pn_cursor input) (pn_limit input) envelope_bytes"

definition task_query :: "string \<Rightarrow> json" where
  "task_query t = J_Obj [(''kind'', J_Str ''task''), (''taskId'', J_Str t)]"

definition run_query :: "string \<Rightarrow> string \<Rightarrow> string \<Rightarrow> json" where
  "run_query kind t r = J_Obj [(''kind'', J_Str kind), (''taskId'', J_Str t), (''runId'', J_Str r)]"

definition run_of_task :: "string \<Rightarrow> string \<Rightarrow> store_state \<Rightarrow> run_record option" where
  "run_of_task t r st =
     (case map_of (st_runs st) r of
        Some run \<Rightarrow> if rn_task_id run = t then Some run else None
      | None \<Rightarrow> None)"

fun read_rows :: "externals \<Rightarrow> store_state \<Rightarrow> store_read_input \<Rightarrow> delegation_failure + store_read_page" where
  "read_rows ext st Read_Capacity = Inr (Capacity_Page (st_capacity st))"
| "read_rows ext st (Read_Task t p) =
     (case map_of (st_tasks st) t of
        None \<Rightarrow> Inr (Task_Page None)
      | Some task \<Rightarrow>
          and_then (store_page ext st (task_query t) json_of_run_summary
              (map summarize_delegation_run (task_runs (tk_task_id task) st)) run_page_key p
              (delegation_data_bytes (json_of_task task))) (\<lambda>runs.
          Inr (Task_Page (Some (task, runs)))))"
| "read_rows ext st (Read_Run t r) = Inr (Run_Page (run_of_task t r st))"
| "read_rows ext st (Read_Operation parent op) =
     Inr (Operation_Page (map_of (st_operations st) (operation_key parent op)))"
| "read_rows ext st (Read_Operations t r p) =
     and_then (store_page ext st (run_query ''operations'' t r) json_of_operation
         (if run_of_task t r st \<noteq> None then run_operations r st else []) op_operation_id p 0)
       (\<lambda>page. Inr (Operations_Page page))"
| "read_rows ext st (Read_Observations t r p) =
     and_then (store_page ext st (run_query ''observations'' t r) json_of_observation
         (if run_of_task t r st \<noteq> None then run_observations r st else [])
         (\<lambda>ob. padded_number (ob_index ob)) p 0)
       (\<lambda>page. Inr (case run_of_task t r st of
          Some run \<Rightarrow> Observations_Page page (rn_observation_index run) (0 < rn_omitted_observations run)
        | None \<Rightarrow> Observations_Page page 0 False))"
| "read_rows ext st (Read_Notification n) = Inr (Notification_Page (map_of (st_notifications st) n))"
| "read_rows ext st (Read_Ceiling c p) =
     and_then (store_page ext st (J_Obj [(''kind'', J_Str ''ceiling''), (''ceilingId'', J_Str c)])
         json_of_target (case map_of (st_ceilings st) c of None \<Rightarrow> [] | Some ceiling \<Rightarrow> pc_targets ceiling)
         (\<lambda>t. delegation_input_digest ext (json_of_target t)) p 512)
       (\<lambda>page. Inr (Ceiling_Page c (map_option pc_origin (map_of (st_ceilings st) c)) page))"

definition store_read ::
    "externals \<Rightarrow> store_read_input \<Rightarrow> store_state \<Rightarrow> delegation_failure + store_read_page" where
  "store_read ext input st =
     and_then (parse_delegation_store_read_input ext input) (\<lambda>query. read_rows ext st query)"

section \<open>Scans (memory.ts)\<close>

datatype store_scan_page =
    Runs_Scan scan_kind "run_record page"
  | Notifications_Scan "notification_record page"

definition current_epoch :: "store_state \<Rightarrow> int option" where
  "current_epoch st = map_option ot_epoch (st_owner st)"

definition eligible_notification :: "store_state \<Rightarrow> notification_record \<Rightarrow> bool" where
  "eligible_notification st n \<longleftrightarrow> nt_state n = Nt_Pending \<or>
     (nt_state n = Nt_Claimed \<and> map_option nc_owner_epoch (nt_claim n) \<noteq> current_epoch st)"

definition scanned_run :: "scan_kind \<Rightarrow> store_state \<Rightarrow> run_record \<Rightarrow> bool" where
  "scanned_run kind st run \<longleftrightarrow>
     (if kind = Scan_Queued then rn_phase run = Queued
      else rn_phase run \<noteq> Settled \<and> Some (rn_owner_epoch run) \<noteq> current_epoch st)"

definition scan_query :: "scan_kind \<Rightarrow> json" where
  "scan_query kind = J_Obj [(''kind'', J_Str (scan_kind_name kind))]"

definition store_scan ::
    "externals \<Rightarrow> store_scan_input \<Rightarrow> store_state \<Rightarrow> delegation_failure + store_scan_page" where
  "store_scan ext input st =
     and_then (parse_delegation_store_scan_input ext input) (\<lambda>query.
       if si_kind query = Scan_Eligible_Notifications then
         and_then (store_page ext st (scan_query (si_kind query)) json_of_notification
             (filter (eligible_notification st) (map snd (st_notifications st)))
             (\<lambda>n. ev_notification_id (nt_envelope n)) (si_page query) 0)
           (\<lambda>page. Inr (Notifications_Scan page))
       else
         and_then (store_page ext st (scan_query (si_kind query)) json_of_run
             (filter (scanned_run (si_kind query) st) (map snd (st_runs st))) run_key (si_page query) 0)
           (\<lambda>page. Inr (Runs_Scan (si_kind query) page)))"


text \<open>
  What the pages of a read are worth: a page is within its byte and record budget, a cursor
  belongs to one query of one store, and following the cursors returns every row exactly once, in
  the order of the keys, after at most one read more than there are rows.
\<close>

section \<open>One page\<close>

lemma row_bytes_pos: "1 \<le> row_bytes encode row"
  by (simp add: row_bytes_def delegation_data_bytes_def)

lemma fill_page_Inr:
  "fill_page encode limit m items bytes rows = Inr (its, again) \<Longrightarrow>
   \<exists>n\<le>length rows. its = items @ take n rows \<and> (again \<longleftrightarrow> n < length rows) \<and> (again \<longrightarrow> its \<noteq> []) \<and>
     (bytes \<le> m \<longrightarrow> bytes + (\<Sum>r\<leftarrow>take n rows. row_bytes encode r) \<le> m) \<and>
     (js_len items \<le> limit \<longrightarrow> js_len its \<le> limit)"
proof (induction encode limit m items bytes rows rule: fill_page.induct)
  case (1 encode limit m items bytes)
  then show ?case by auto
next
  case (2 encode limit m items bytes row rows)
  show ?case
  proof (cases "limit \<le> js_len items \<or> m < bytes + row_bytes encode row")
    case True
    then have "items \<noteq> []" "its = items" "again"
      using "2.prems" by (auto simp: Let_def fail_delegation_def split: if_splits)
    then show ?thesis by (intro exI [of _ 0]) simp
  next
    case False
    then have rec: "fill_page encode limit m (items @ [row]) (bytes + row_bytes encode row) rows = Inr (its, again)"
      using "2.prems" by (simp add: Let_def)
    obtain n where n: "n \<le> length rows" "its = (items @ [row]) @ take n rows" "again \<longleftrightarrow> n < length rows"
      "bytes + row_bytes encode row \<le> m \<longrightarrow> bytes + row_bytes encode row + (\<Sum>r\<leftarrow>take n rows. row_bytes encode r) \<le> m"
      "js_len (items @ [row]) \<le> limit \<longrightarrow> js_len its \<le> limit"
      using "2.IH" [OF refl False rec] by blast
    then show ?thesis using False by (intro exI [of _ "Suc n"]) auto
  qed
qed

lemma fill_page_progress:
  assumes "1 \<le> limit" and "\<And>r. r \<in> set rows \<Longrightarrow> bytes + row_bytes encode r \<le> m"
  shows "\<exists>its again. fill_page encode limit m [] bytes rows = Inr (its, again) \<and> (rows \<noteq> [] \<longrightarrow> its \<noteq> [])"
proof -
  have nonempty: "\<exists>its again. fill_page encode limit m items b rs = Inr (its, again) \<and> its \<noteq> []"
    if "items \<noteq> []" for items b rs
    using that
    by (induction encode limit m items b rs rule: fill_page.induct) (auto simp: Let_def)
  show ?thesis
  proof (cases rows)
    case (Cons r rs)
    then have "bytes + row_bytes encode r \<le> m" using assms(2) by simp
    then show ?thesis
      using Cons assms(1) nonempty [of "[r]" "bytes + row_bytes encode r" rs]
      by (auto simp: Let_def)
  qed (intro exI [of _ "[]"] exI [of _ False], simp)
qed

lemma delegation_array_bytes:
  "delegation_data_bytes (J_Arr js) = 2 + max 0 (int (length js) - 1) + (\<Sum>j\<leftarrow>js. delegation_data_bytes j)"
  by (simp add: delegation_data_bytes_def delegation_canonical_json_def utf8_J_Arr comp_def del: stringify.simps(5))

lemma page_Inr:
  assumes "page_delegation_rows ext sid query encode rows key limits cursor limit env = Inr p"
  obtains after n where
    "parse_delegation_page_cursor ext sid query cursor = Inr after"
    "n \<le> length (rows_after key after (sort_key key rows))"
    "pg_items p = take n (rows_after key after (sort_key key rows))"
    "pg_cursor p = (if n < length (rows_after key after (sort_key key rows))
       then Some (delegation_cursor_prefix ext sid query @ key (last (pg_items p))) else None)"
    "n < length (rows_after key after (sort_key key rows)) \<longrightarrow> pg_items p \<noteq> []"
    "env + 512 \<le> lm_max_page_bytes limits \<longrightarrow>
       env + 512 + (\<Sum>r\<leftarrow>pg_items p. row_bytes encode r) \<le> lm_max_page_bytes limits"
    "0 \<le> page_limit limits limit \<longrightarrow> js_len (pg_items p) \<le> page_limit limits limit"
proof -
  obtain after its again where after: "parse_delegation_page_cursor ext sid query cursor = Inr after"
    and fill: "fill_page encode (page_limit limits limit) (lm_max_page_bytes limits) [] (env + 512)
      (rows_after key after (sort_key key rows)) = Inr (its, again)"
    and p: "p = \<lparr>pg_items = its, pg_cursor = (if again then Some (delegation_cursor_prefix ext sid query @ key (last its))
                      else None)\<rparr>"
    using assms by (auto simp: page_delegation_rows_def result_simps)
  obtain n where "n \<le> length (rows_after key after (sort_key key rows))"
    "its = [] @ take n (rows_after key after (sort_key key rows))"
    "again \<longleftrightarrow> n < length (rows_after key after (sort_key key rows))" "again \<longrightarrow> its \<noteq> []"
    "env + 512 \<le> lm_max_page_bytes limits \<longrightarrow> env + 512
      + (\<Sum>r\<leftarrow>take n (rows_after key after (sort_key key rows)). row_bytes encode r) \<le> lm_max_page_bytes limits"
    "js_len ([] :: 'a list) \<le> page_limit limits limit \<longrightarrow> js_len its \<le> page_limit limits limit"
    using fill_page_Inr [OF fill] by blast
  then show thesis using that [OF after, of n] p by simp
qed

section \<open>Cursors\<close>

lemma cursor_roundtrip:
  "key \<noteq> [] \<Longrightarrow> js_len key \<le> 128 \<Longrightarrow>
   parse_delegation_page_cursor ext sid query (Some (delegation_cursor_prefix ext sid query @ key)) = Inr (Some key)"
  by (simp add: parse_delegation_page_cursor_def Let_def)

lemma rows_after_strict:
  assumes "sorted_wrt (<) (map key rows)" and "m < length rows"
  shows "rows_after key (Some (key (rows ! m))) rows = drop (Suc m) rows"
proof -
  let ?k = "key (rows ! m)"
  have less: "key (rows ! i) < key (rows ! j)" if "i < j" "j < length rows" for i j
    using sorted_wrt_nth_less [OF assms(1), of i j] that by simp
  have "filter (\<lambda>row. \<not> key row \<le> ?k) (take (Suc m) rows) = []"
  proof (rule filter_False, intro ballI)
    fix x assume "x \<in> set (take (Suc m) rows)"
    then obtain i where "i < Suc m" "i < length rows" "x = rows ! i"
      by (auto simp: in_set_conv_nth)
    then show "\<not> \<not> key x \<le> ?k" using less [of i m] assms(2) by (cases "i = m") auto
  qed
  moreover have "filter (\<lambda>row. \<not> key row \<le> ?k) (drop (Suc m) rows) = drop (Suc m) rows"
  proof (rule filter_True, intro ballI)
    fix x assume "x \<in> set (drop (Suc m) rows)"
    then obtain i where "i < length rows - Suc m" "x = rows ! (Suc m + i)"
      by (auto simp: in_set_conv_nth)
    then have "?k < key x" using less [of m "Suc m + i"] by simp
    then show "\<not> key x \<le> ?k" by (simp add: not_le)
  qed
  ultimately have "filter (\<lambda>row. \<not> key row \<le> ?k) (take (Suc m) rows @ drop (Suc m) rows) = drop (Suc m) rows"
    by (simp only: filter_append append_Nil)
  then show ?thesis by (simp add: rows_after_def)
qed

section \<open>Following the cursors\<close>

text \<open>A reader that asks for page after page, at most \<open>n\<close> times; \<open>None\<close> when a read fails or the fuel is out.\<close>

fun follow_pages :: "(string option \<Rightarrow> delegation_failure + 'v page) \<Rightarrow> nat \<Rightarrow> string option \<Rightarrow> 'v list option" where
  "follow_pages read 0 c = None"
| "follow_pages read (Suc n) c =
     (case read c of
        Inl e \<Rightarrow> None
      | Inr p \<Rightarrow> (case pg_cursor p of
          None \<Rightarrow> Some (pg_items p)
        | Some c' \<Rightarrow> map_option (\<lambda>rest. pg_items p @ rest) (follow_pages read n (Some c'))))"

lemma follow_from:
  assumes strict: "sorted_wrt (<) (map key (sort_key key rows))"
    and keys: "\<And>r. r \<in> set rows \<Longrightarrow> key r \<noteq> [] \<and> js_len (key r) \<le> 128"
    and fits: "\<And>r. r \<in> set rows \<Longrightarrow> env + 512 + row_bytes encode r \<le> lm_max_page_bytes limits"
    and limit: "1 \<le> page_limit limits limit"
  shows "parse_delegation_page_cursor ext sid query c = Inr after \<Longrightarrow>
    rows_after key after (sort_key key rows) = drop m (sort_key key rows) \<Longrightarrow>
    length rows - m < fuel \<Longrightarrow>
    follow_pages (\<lambda>c. page_delegation_rows ext sid query encode rows key limits c limit env) fuel c =
      Some (drop m (sort_key key rows))"
proof (induction fuel arbitrary: c after m)
  case (Suc fuel)
  let ?S = "sort_key key rows" and ?read = "\<lambda>c. page_delegation_rows ext sid query encode rows key limits c limit env"
  have "\<exists>its again. fill_page encode (page_limit limits limit) (lm_max_page_bytes limits) [] (env + 512) (drop m ?S)
      = Inr (its, again) \<and> (drop m ?S \<noteq> [] \<longrightarrow> its \<noteq> [])"
    using fits set_drop_subset [of m ?S] by (intro fill_page_progress [OF limit]) auto
  then obtain p where p: "?read c = Inr p" and progress: "drop m ?S \<noteq> [] \<longrightarrow> pg_items p \<noteq> []"
    using Suc.prems(1,2) by (auto simp: page_delegation_rows_def)
  obtain n where n: "n \<le> length (drop m ?S)" "pg_items p = take n (drop m ?S)"
    and cur: "pg_cursor p = (if n < length (drop m ?S)
       then Some (delegation_cursor_prefix ext sid query @ key (last (pg_items p))) else None)"
  proof (rule page_Inr [OF p])
    fix after' n
    assume "parse_delegation_page_cursor ext sid query c = Inr after'"
    then have a: "after' = after" using Suc.prems(1) by simp
    assume "n \<le> length (rows_after key after' ?S)" "pg_items p = take n (rows_after key after' ?S)"
      "pg_cursor p = (if n < length (rows_after key after' ?S)
       then Some (delegation_cursor_prefix ext sid query @ key (last (pg_items p))) else None)"
    then show thesis using that [of n] unfolding a Suc.prems(2) by blast
  qed
  show ?case
  proof (cases "n < length (drop m ?S)")
    case False
    then show ?thesis using p n cur by simp
  next
    case True
    then have items: "pg_items p \<noteq> []" using progress by auto
    then have pos: "0 < n" using n by auto
    have idx: "m + n - 1 < length ?S" using True pos by auto
    have last: "last (pg_items p) = ?S ! (m + n - 1)"
      using items n True pos by (simp add: last_conv_nth)
    have mem: "?S ! (m + n - 1) \<in> set rows" using nth_mem [OF idx] by simp
    have step: "rows_after key (Some (key (?S ! (m + n - 1)))) ?S = drop (m + n) ?S"
      using rows_after_strict [OF strict idx] pos by simp
    have "follow_pages ?read fuel (pg_cursor p) = Some (drop (m + n) ?S)"
    proof -
      have c: "pg_cursor p = Some (delegation_cursor_prefix ext sid query @ key (?S ! (m + n - 1)))"
        using cur True last by simp
      show ?thesis unfolding c
      proof (rule Suc.IH)
        show "parse_delegation_page_cursor ext sid query
            (Some (delegation_cursor_prefix ext sid query @ key (?S ! (m + n - 1)))) = Inr (Some (key (?S ! (m + n - 1))))"
          using keys [OF mem] by (intro cursor_roundtrip) auto
        show "rows_after key (Some (key (?S ! (m + n - 1)))) ?S = drop (m + n) ?S" by (rule step)
        show "length rows - (m + n) < fuel" using Suc.prems(3) pos True by auto
      qed
    qed
    moreover have "pg_cursor p \<noteq> None" using cur True by simp
    ultimately show ?thesis
      using p n(2) by (auto simp: add.commute [of m n] drop_drop [symmetric] simp del: drop_drop)
  qed
qed simp

lemma sort_key_strict: "distinct (map key rows) \<Longrightarrow> sorted_wrt (<) (map key (sort_key key rows))"
  for key :: "'v \<Rightarrow> string"
proof -
  assume "distinct (map key rows)"
  then have "distinct (map key (sort_key key rows))"
    by (simp add: distinct_map inj_on_def)
  then show ?thesis by (simp add: strict_sorted_iff)
qed

lemma follow_all:
  assumes "distinct (map key rows)"
    and "\<And>r. r \<in> set rows \<Longrightarrow> key r \<noteq> [] \<and> js_len (key r) \<le> 128"
    and "\<And>r. r \<in> set rows \<Longrightarrow> env + 512 + row_bytes encode r \<le> lm_max_page_bytes limits"
    and "1 \<le> page_limit limits limit"
  shows "follow_pages (\<lambda>c. page_delegation_rows ext sid query encode rows key limits c limit env)
    (length rows + 1) None = Some (sort_key key rows)"
  using follow_from [OF sort_key_strict [OF assms(1)] assms(2-4), where c = None and after = None and m = 0
      and fuel = "length rows + 1" and ext = ext and sid = sid and query = query]
  by (simp add: parse_delegation_page_cursor_def rows_after_def)

lemma cursor_refused:
  "parse_delegation_page_cursor ext sid query (Some (delegation_cursor_prefix ext sid query @ key)) =
     (if key = [] \<or> 128 < js_len key then fail_delegation Stale_Revision else Inr (Some key))"
  by (simp add: parse_delegation_page_cursor_def Let_def)

section \<open>Properties\<close>

text \<open>
  Every page stays within its budget: the items of a page, serialized as one JSON array, and
  the envelope of the read fit the page bytes of the limits with 510 bytes to spare for the other
  members, and there are at most as many items as the query and the limits allow.
\<close>

theorem page_within_budget:
  assumes "page_delegation_rows ext sid query encode rows key limits cursor limit env = Inr p"
    and "env + 512 \<le> lm_max_page_bytes limits" and "0 \<le> page_limit limits limit"
  shows "delegation_data_bytes (J_Arr (map encode (pg_items p))) + env + 510 \<le> lm_max_page_bytes limits \<and>
    js_len (pg_items p) \<le> page_limit limits limit"
proof (rule page_Inr [OF assms(1)])
  assume "env + 512 \<le> lm_max_page_bytes limits \<longrightarrow>
      env + 512 + (\<Sum>r\<leftarrow>pg_items p. row_bytes encode r) \<le> lm_max_page_bytes limits"
    and "0 \<le> page_limit limits limit \<longrightarrow> js_len (pg_items p) \<le> page_limit limits limit"
  moreover have "(\<Sum>r\<leftarrow>pg_items p. row_bytes encode r) =
      (\<Sum>r\<leftarrow>pg_items p. delegation_data_bytes (encode r)) + int (length (pg_items p))"
    by (simp add: row_bytes_def sum_list_addf sum_list_triv)
  ultimately show ?thesis
    using assms(2,3) by (simp add: delegation_array_bytes comp_def)
qed


text \<open>
  When a page carries a cursor, its last item's key has become the cursor, and the next read
  accepts it exactly when that key is at most 128 characters; otherwise the rows behind it cannot
  be read any more, the read is refused as a stale revision.
\<close>

theorem cursor_accepted_iff:
  assumes "page_delegation_rows ext sid query encode rows key limits cursor limit env = Inr p"
    and "pg_cursor p = Some c" and "\<And>r. r \<in> set rows \<Longrightarrow> key r \<noteq> []"
  shows "parse_delegation_page_cursor ext sid query (Some c) =
    (if js_len (key (last (pg_items p))) \<le> 128 then Inr (Some (key (last (pg_items p))))
     else fail_delegation Stale_Revision)"
proof (rule page_Inr [OF assms(1)])
  fix after n
  let ?left = "rows_after key after (sort_key key rows)"
  assume items: "pg_items p = take n ?left"
    and cur: "pg_cursor p = (if n < length ?left
       then Some (delegation_cursor_prefix ext sid query @ key (last (pg_items p))) else None)"
    and some: "n < length ?left \<longrightarrow> pg_items p \<noteq> []"
  have n: "n < length ?left" and c: "c = delegation_cursor_prefix ext sid query @ key (last (pg_items p))"
    using cur assms(2) by (auto split: if_splits)
  then have "last (pg_items p) \<in> set (pg_items p)" using some by simp
  then have "last (pg_items p) \<in> set ?left" using items in_set_takeD by fastforce
  then have "last (pg_items p) \<in> set rows" by (auto simp: rows_after_def split: option.splits)
  then have "key (last (pg_items p)) \<noteq> []" by (rule assms(3))
  then show ?thesis unfolding c by (simp add: cursor_refused)
qed

section \<open>A read at concrete rows\<close>

text \<open>Three numbers as rows, pages of at most two.\<close>

definition sample_rows_key :: "int \<Rightarrow> string" where
  "sample_rows_key n = padded_number n"

definition sample_page :: "string option \<Rightarrow> delegation_failure + int page" where
  "sample_page c = page_delegation_rows sample_externals ''store'' J_Null J_Num [3, 1, 2] sample_rows_key
     default_delegation_limits c (Some 2) 0"

definition sample_first_page :: "int page" where
  "sample_first_page = \<lparr>pg_items = [1, 2],
     pg_cursor = Some (delegation_cursor_prefix sample_externals ''store'' J_Null @ sample_rows_key 2)\<rparr>"

lemma sample_page_first: "sample_page None = Inr sample_first_page"
  by code_simp

lemma sample_keys:
  "distinct (map sample_rows_key [3, 1, 2])" "page_limit default_delegation_limits (Some 2) = 2"
  "\<forall>n\<in>set [3, 1, 2]. sample_rows_key n \<noteq> [] \<and> js_len (sample_rows_key n) \<le> 128"
  "\<forall>n\<in>set [3, 1, 2]. 0 + 512 + row_bytes J_Num n \<le> lm_max_page_bytes default_delegation_limits"
  by code_simp+

lemma page_within_budget_witness:
  "delegation_data_bytes (J_Arr (map J_Num [1, 2])) + 0 + 510 \<le> lm_max_page_bytes default_delegation_limits \<and>
   js_len [1, 2 :: int] \<le> page_limit default_delegation_limits (Some 2)"
  using page_within_budget [OF sample_page_first [unfolded sample_page_def]] sample_keys(2)
  by (simp add: sample_first_page_def default_delegation_limits_def)


lemma cursor_accepted_iff_witness:
  "parse_delegation_page_cursor sample_externals ''store'' J_Null (pg_cursor sample_first_page) =
     Inr (Some (sample_rows_key 2))"
proof -
  have "js_len (sample_rows_key 2) \<le> 128" by code_simp
  then show ?thesis
    using cursor_accepted_iff [OF sample_page_first [unfolded sample_page_def],
        where c = "the (pg_cursor sample_first_page)"] sample_keys(3)
    by (simp add: sample_first_page_def)
qed

end
