(* ===== verification/Byte_Text.thy ===== *)
theory Byte_Text
  imports Prelude "HOL-Library.Word"
begin

text \<open>
  Bytes and text where the program crosses between them: UTF-8 as \<open>Buffer.from\<close> and the fatal
  \<open>TextDecoder\<close> of \<open>sandbox-docker/src/workspace/tar/header.ts\<close> apply it, and the path schemas of
  \<open>sandbox/src/files/pathSchemas.ts\<close>.

  A text is the list of its code points; a surrogate in it is a lone surrogate of the JavaScript
  string.  A byte is an \<open>8 word\<close>.
\<close>

type_synonym byte = "8 word"
type_synonym bytes = "byte list"
type_synonym code_text = "nat list"

definition ascii :: "string \<Rightarrow> code_text" where
  "ascii s = map of_char s"

section \<open>UTF-8\<close>

definition scalar :: "nat \<Rightarrow> bool" where
  "scalar c \<longleftrightarrow> c < 0xD800 \<or> (0xE000 \<le> c \<and> c < 0x110000)"

definition utf8_units :: "nat \<Rightarrow> nat list" where
  "utf8_units c =
     (if c < 0x80 then [c]
      else if c < 0x800 then [0xC0 + c div 64, 0x80 + c mod 64]
      else if c < 0x10000 then [0xE0 + c div 4096, 0x80 + c div 64 mod 64, 0x80 + c mod 64]
      else [0xF0 + c div 262144, 0x80 + c div 4096 mod 64, 0x80 + c div 64 mod 64, 0x80 + c mod 64])"

text \<open>\<open>Buffer.from(text)\<close>: a lone surrogate becomes U+FFFD.\<close>

definition utf8_char_units :: "nat \<Rightarrow> nat list" where
  "utf8_char_units c = utf8_units (if scalar c then c else 0xFFFD)"

definition utf8_encode :: "code_text \<Rightarrow> bytes" where
  "utf8_encode t = map word_of_nat (concat (map utf8_char_units t))"

definition byte_length :: "code_text \<Rightarrow> nat" where
  "byte_length t = length (concat (map utf8_char_units t))"

definition continuation :: "nat \<Rightarrow> bool" where
  "continuation b \<longleftrightarrow> 0x80 \<le> b \<and> b \<le> 0xBF"

text \<open>The fatal decoder: the lead byte bounds the first continuation byte.\<close>

definition second_ok :: "nat \<Rightarrow> nat \<Rightarrow> bool" where
  "second_ok lead b \<longleftrightarrow> continuation b \<and> (lead = 0xE0 \<longrightarrow> 0xA0 \<le> b) \<and> (lead = 0xED \<longrightarrow> b \<le> 0x9F) \<and>
     (lead = 0xF0 \<longrightarrow> 0x90 \<le> b) \<and> (lead = 0xF4 \<longrightarrow> b \<le> 0x8F)"

fun utf8_decode_units :: "nat list \<Rightarrow> code_text option" where
  "utf8_decode_units [] = Some []"
| "utf8_decode_units (b # bs) =
     (if b < 0x80 then map_option (Cons b) (utf8_decode_units bs)
      else if b < 0xC2 then None
      else if b < 0xE0 then
        (case bs of
           c1 # r \<Rightarrow> if continuation c1 then
               map_option (Cons ((b - 0xC0) * 64 + (c1 - 0x80))) (utf8_decode_units r) else None
         | [] \<Rightarrow> None)
      else if b < 0xF0 then
        (case bs of
           c1 # c2 # r \<Rightarrow> if second_ok b c1 \<and> continuation c2 then
               map_option (Cons ((b - 0xE0) * 4096 + (c1 - 0x80) * 64 + (c2 - 0x80))) (utf8_decode_units r)
             else None
         | _ \<Rightarrow> None)
      else if b < 0xF5 then
        (case bs of
           c1 # c2 # c3 # r \<Rightarrow> if second_ok b c1 \<and> continuation c2 \<and> continuation c3 then
               map_option (Cons ((b - 0xF0) * 262144 + (c1 - 0x80) * 4096 + (c2 - 0x80) * 64 + (c3 - 0x80)))
                 (utf8_decode_units r)
             else None
         | _ \<Rightarrow> None)
      else None)"

definition utf8_decode :: "bytes \<Rightarrow> code_text option" where
  "utf8_decode bs = utf8_decode_units (map unat bs)"

declare utf8_decode_units.simps(2) [simp del]

subsection \<open>Round trip\<close>

lemma decode_units_1: "c < 0x80 \<Longrightarrow> utf8_decode_units (utf8_units c @ r) = map_option (Cons c) (utf8_decode_units r)"
  by (simp add: utf8_units_def utf8_decode_units.simps(2))

lemma mod_less_64: "n mod 64 \<le> 63" for n :: nat
  using mod_less_divisor [of 64 n] by linarith

lemma decode_units_2:
  assumes "0x80 \<le> c" "c < 0x800"
  shows "utf8_decode_units (utf8_units c @ r) = map_option (Cons c) (utf8_decode_units r)"
proof -
  have "2 \<le> c div 64" "c div 64 < 32" using assms by auto
  then show ?thesis
    using assms by (simp add: utf8_units_def utf8_decode_units.simps(2) [of "192 + c div 64"] continuation_def
      mult.commute mod_less_64)
qed

lemma base64_3: "c div 4096 * 4096 + c div 64 mod 64 * 64 + c mod 64 = c" for c :: nat
proof -
  have "c div 4096 = c div 64 div 64" by (simp add: div_mult2_eq [of c 64 64, simplified])
  then have "c div 4096 * 64 + c div 64 mod 64 = c div 64" by simp
  then have "(c div 4096 * 64 + c div 64 mod 64) * 64 + c mod 64 = c" by simp
  then show ?thesis by (simp add: algebra_simps)
qed

lemma base64_4: "c div 262144 * 262144 + c div 4096 mod 64 * 4096 + c div 64 mod 64 * 64 + c mod 64 = c" for c :: nat
proof -
  have d: "c div 262144 = c div 64 div 4096" "c div 4096 = c div 64 div 64"
    by (simp_all add: div_mult2_eq [of c 64 4096, simplified] div_mult2_eq [of c 64 64, simplified])
  have "(c div 64 div 4096 * 4096 + c div 64 div 64 mod 64 * 64 + c div 64 mod 64) * 64 + c mod 64 = c"
    using base64_3 [of "c div 64"] by simp
  then show ?thesis unfolding d by (simp add: algebra_simps)
qed

lemma decode_units_3:
  assumes "0x800 \<le> c" "c < 0x10000" "scalar c"
  shows "utf8_decode_units (utf8_units c @ r) = map_option (Cons c) (utf8_decode_units r)"
proof -
  have lead: "c div 4096 < 16" and e0: "c div 4096 = 0 \<longrightarrow> 32 \<le> c div 64 mod 64"
    and ed: "c div 4096 = 13 \<longrightarrow> c div 64 mod 64 \<le> 31"
    using assms base64_3 [of c] mod_less_64 [of c] mod_less_64 [of "c div 64"] unfolding scalar_def by linarith+
  have "second_ok (224 + c div 4096) (128 + c div 64 mod 64)" "continuation (128 + c mod 64)"
    using e0 ed lead mod_less_64 by (auto simp: second_ok_def continuation_def)
  then show ?thesis
    using assms lead base64_3 [of c]
    by (simp add: utf8_units_def utf8_decode_units.simps(2) [of "224 + c div 4096"])
qed

lemma decode_units_4:
  assumes "0x10000 \<le> c" "c < 0x110000"
  shows "utf8_decode_units (utf8_units c @ r) = map_option (Cons c) (utf8_decode_units r)"
proof -
  have lead: "c div 262144 < 5" and f0: "c div 262144 = 0 \<longrightarrow> 16 \<le> c div 4096 mod 64"
    and f4: "c div 262144 = 4 \<longrightarrow> c div 4096 mod 64 \<le> 15"
    using assms base64_4 [of c] mod_less_64 [of c] mod_less_64 [of "c div 64"] mod_less_64 [of "c div 4096"]
    by linarith+
  have "second_ok (240 + c div 262144) (128 + c div 4096 mod 64)" "continuation (128 + c div 64 mod 64)"
    "continuation (128 + c mod 64)"
    using f0 f4 lead mod_less_64 by (auto simp: second_ok_def continuation_def)
  then show ?thesis
    using assms lead base64_4 [of c]
    by (simp add: utf8_units_def utf8_decode_units.simps(2) [of "240 + c div 262144"])
qed

lemma decode_units_char:
  assumes "scalar c"
  shows "utf8_decode_units (utf8_char_units c @ r) = map_option (Cons c) (utf8_decode_units r)"
proof -
  consider "c < 0x80" | "0x80 \<le> c \<and> c < 0x800" | "0x800 \<le> c \<and> c < 0x10000" | "0x10000 \<le> c \<and> c < 0x110000"
    using assms by (fastforce simp: scalar_def)
  then show ?thesis
    by cases (use assms decode_units_1 decode_units_2 decode_units_3 decode_units_4 in \<open>auto simp: utf8_char_units_def\<close>)
qed

lemma utf8_units_bound: "scalar c \<Longrightarrow> u \<in> set (utf8_units c) \<Longrightarrow> u < 256"
proof -
  assume c: "scalar c" and u: "u \<in> set (utf8_units c)"
  have "c div 4096 < 16 \<or> 0x10000 \<le> c" "c div 262144 < 5" "c div 64 < 32 \<or> 0x800 \<le> c"
    using c unfolding scalar_def by auto
  then show "u < 256"
    using u mod_less_64 [of c] mod_less_64 [of "c div 64"] mod_less_64 [of "c div 4096"]
    unfolding utf8_units_def by (auto split: if_splits)
qed

lemma utf8_char_units_bound: "u \<in> set (utf8_char_units c) \<Longrightarrow> u < 256"
  unfolding utf8_char_units_def by (rule utf8_units_bound [of "if scalar c then c else 0xFFFD"]) (simp_all add: scalar_def)

lemma map_unat_of_nat: "(\<And>n. n \<in> set ns \<Longrightarrow> n < 256) \<Longrightarrow> map (\<lambda>n. unat (word_of_nat n :: byte)) ns = ns"
  by (induction ns) (simp_all add: unat_of_nat)

lemma unat_utf8_encode: "map unat (utf8_encode t) = concat (map utf8_char_units t)"
  unfolding utf8_encode_def map_map comp_def
  by (rule map_unat_of_nat) (auto dest: utf8_char_units_bound)

lemma utf8_encode_Nil [simp]: "utf8_encode [] = []"
  by (simp add: utf8_encode_def)

lemma utf8_encode_append [simp]: "utf8_encode (s @ t) = utf8_encode s @ utf8_encode t"
  by (simp add: utf8_encode_def)

lemma length_utf8_encode: "length (utf8_encode t) = byte_length t"
  by (simp add: utf8_encode_def byte_length_def)

lemma byte_length_append [simp]: "byte_length (s @ t) = byte_length s + byte_length t"
  by (simp add: byte_length_def)

lemma byte_length_Nil [simp]: "byte_length [] = 0"
  by (simp add: byte_length_def)

lemma utf8_char_units_nonempty: "0 < length (utf8_char_units c)"
  by (simp add: utf8_char_units_def utf8_units_def)

lemma length_le_byte_length: "length t \<le> byte_length t"
proof (induction t)
  case (Cons c t)
  moreover have "Suc 0 \<le> length (utf8_char_units c)" using utf8_char_units_nonempty [of c] by linarith
  ultimately show ?case by (simp add: byte_length_def)
qed simp

lemma utf8_decode_append:
  "list_all scalar t \<Longrightarrow> utf8_decode (utf8_encode t @ bs) = map_option (\<lambda>s. t @ s) (utf8_decode bs)"
  unfolding utf8_decode_def map_append unat_utf8_encode
  by (induction t; cases "utf8_decode_units (map unat bs)") (simp_all add: decode_units_char)

lemma utf8_roundtrip: "list_all scalar t \<Longrightarrow> utf8_decode (utf8_encode t) = Some t"
  using utf8_decode_append [of t "[]"] by (simp add: utf8_decode_def)

lemma utf8_encode_inject: "list_all scalar s \<Longrightarrow> list_all scalar t \<Longrightarrow> utf8_encode s = utf8_encode t \<Longrightarrow> s = t"
  by (metis utf8_roundtrip option.inject)

text \<open>ASCII bytes are their own text.\<close>

lemma utf8_char_units_ascii [simp]: "c < 128 \<Longrightarrow> utf8_char_units c = [c]"
  by (simp add: utf8_char_units_def utf8_units_def scalar_def)

lemma utf8_encode_ascii: "list_all (\<lambda>c. c < 128) t \<Longrightarrow> utf8_encode t = map word_of_nat t"
  by (induction t) (simp_all add: utf8_encode_def)

lemma byte_length_ascii: "list_all (\<lambda>c. c < 128) t \<Longrightarrow> byte_length t = length t"
  by (induction t) (simp_all add: byte_length_def)

lemma utf8_decode_ascii: "list_all (\<lambda>b. unat b < 128) bs \<Longrightarrow> utf8_decode bs = Some (map unat bs)"
  unfolding utf8_decode_def by (induction bs) (simp_all add: utf8_decode_units.simps(2))

lemma utf8_no_zero: "0 \<notin> set t \<Longrightarrow> 0 \<notin> set (utf8_encode t)"
proof
  assume t: "0 \<notin> set t" and "0 \<in> set (utf8_encode t)"
  then have "unat (0 :: byte) \<in> set (map unat (utf8_encode t))" by (simp only: set_map imageI)
  then obtain c where "c \<in> set t" "0 \<in> set (utf8_char_units c)" unfolding unat_utf8_encode by auto
  then have "c = 0" by (auto simp: utf8_char_units_def utf8_units_def split: if_splits)
  then show False using t \<open>c \<in> set t\<close> by simp
qed

section \<open>Path schemas (pathSchemas.ts)\<close>

definition max_path_bytes :: nat where "max_path_bytes = 4079"
definition max_path_segments :: nat where "max_path_segments = 128"
definition max_path_segment_bytes :: nat where "max_path_segment_bytes = 255"
definition max_symlink_target_bytes :: nat where "max_symlink_target_bytes = 4079"

text \<open>\<open>text.split(separator)\<close>\<close>

fun split_on :: "'a \<Rightarrow> 'a list \<Rightarrow> 'a list list" where
  "split_on c [] = [[]]"
| "split_on c (x # xs) = (if x = c then [] # split_on c xs
     else case split_on c xs of [] \<Rightarrow> [[x]] | s # ss \<Rightarrow> (x # s) # ss)"

text \<open>The class \<open>[\\\p{Cc}]\<close> of the path checks.\<close>

definition forbidden_char :: "nat \<Rightarrow> bool" where
  "forbidden_char c \<longleftrightarrow> c = 92 \<or> c < 32 \<or> (127 \<le> c \<and> c < 160)"

definition dot :: code_text where "dot = [46]"
definition dot_dot :: code_text where "dot_dot = [46, 46]"

definition well_formed :: "code_text \<Rightarrow> bool" where
  "well_formed t \<longleftrightarrow> list_all scalar t"

definition utf8_within :: "code_text \<Rightarrow> nat \<Rightarrow> bool" where
  "utf8_within t maximum \<longleftrightarrow> well_formed t \<and> byte_length t \<le> maximum"

definition safe_segments :: "code_text \<Rightarrow> bool" where
  "safe_segments path \<longleftrightarrow> length (split_on 47 path) \<le> max_path_segments \<and>
     list_all (\<lambda>s. s \<noteq> [] \<and> s \<noteq> dot \<and> s \<noteq> dot_dot \<and> utf8_within s max_path_segment_bytes) (split_on 47 path)"

definition safe_path :: "code_text \<Rightarrow> bool" where
  "safe_path t \<longleftrightarrow> t \<noteq> [] \<and> utf8_within t max_path_bytes \<and> \<not> list_ex forbidden_char t"

definition relative_path_schema :: "code_text \<Rightarrow> bool" where
  "relative_path_schema t \<longleftrightarrow> safe_path t \<and> safe_segments t"

definition guest_path_schema :: "code_text \<Rightarrow> bool" where
  "guest_path_schema t \<longleftrightarrow> safe_path t \<and> take 1 t = [47] \<and> (t = [47] \<or> safe_segments (drop 1 t))"

definition symlink_target_schema :: "code_text \<Rightarrow> bool" where
  "symlink_target_schema t \<longleftrightarrow> t \<noteq> [] \<and> utf8_within t max_symlink_target_bytes \<and> take 1 t \<noteq> [47] \<and>
     \<not> list_ex forbidden_char t \<and> length (split_on 47 t) \<le> max_path_segments \<and>
     list_all (\<lambda>s. utf8_within s max_path_segment_bytes) (split_on 47 t)"

subsection \<open>Splitting and joining\<close>

text \<open>\<open>segments.join('/')\<close>\<close>

fun join_on :: "'a \<Rightarrow> 'a list list \<Rightarrow> 'a list" where
  "join_on c [] = []"
| "join_on c [s] = s"
| "join_on c (s # t # ss) = s @ c # join_on c (t # ss)"

lemma split_on_nonempty [simp]: "split_on c xs \<noteq> []"
  by (induction c xs rule: split_on.induct) (auto split: list.splits)

lemma join_split [simp]: "join_on c (split_on c xs) = xs"
proof (induction c xs rule: split_on.induct)
  case (2 c x xs)
  obtain s ss where s: "split_on c xs = s # ss" by (cases "split_on c xs") auto
  with 2 show ?case by (cases ss) auto
qed simp

lemma split_on_segments: "s \<in> set (split_on c xs) \<Longrightarrow> c \<notin> set s"
proof (induction c xs arbitrary: s rule: split_on.induct)
  case (2 c x xs)
  obtain a ss where "split_on c xs = a # ss" by (cases "split_on c xs") auto
  with 2 show ?case by (auto split: if_splits)
qed simp

lemma split_on_plain: "c \<notin> set s \<Longrightarrow> split_on c s = [s]"
  by (induction s) auto

lemma split_on_append: "c \<notin> set s \<Longrightarrow> split_on c (s @ c # xs) = s # split_on c xs"
  by (induction s) auto

lemma split_join: "ss \<noteq> [] \<Longrightarrow> (\<And>s. s \<in> set ss \<Longrightarrow> c \<notin> set s) \<Longrightarrow> split_on c (join_on c ss) = ss"
  by (induction c ss rule: join_on.induct) (simp_all add: split_on_plain split_on_append)

end
