(* ===== verification/Tar_Header.thy ===== *)
theory Tar_Header
  imports Byte_Text
begin

text \<open>
  Archive names and tar headers of \<open>sandbox-docker/src/workspace\<close>: \<open>paths.ts\<close> and
  \<open>tar/header.ts\<close>, and the round trip of a header.  A block is the list of its 512 bytes.
\<close>

section \<open>Errors and names (paths.ts)\<close>

text \<open>
  What a transfer throws: a driver failure with its message, a limit error with its code and
  message, an unsupported input, or what the byte source threw.
\<close>

datatype limit_code = Input_Limit | Output_Limit

datatype tar_error =
    Unsafe_Archive string
  | Limit_Exceeded limit_code string
  | Unsupported string
  | Source_Failed string

definition unsafe_archive :: "string \<Rightarrow> tar_error + 'a" where
  "unsafe_archive message = Inl (Unsafe_Archive message)"

definition archive_root :: code_text where
  "archive_root = ascii ''workspace''"

definition archive_work :: code_text where
  "archive_work = archive_root @ 47 # ascii ''work''"

definition symlink_target :: "code_text \<Rightarrow> tar_error + code_text" where
  "symlink_target target = (if symlink_target_schema target then Inr target
     else unsafe_archive ''symbolic-link targets require bounded raw relative text.'')"

definition canonical_name :: "code_text \<Rightarrow> bool \<Rightarrow> code_text" where
  "canonical_name name directory = (if directory \<and> name \<noteq> [] \<and> last name = 47 then butlast name else name)"

definition archive_name_ok :: "code_text \<Rightarrow> bool" where
  "archive_name_ok canonical \<longleftrightarrow>
     byte_length canonical \<le> max_path_bytes + length archive_work + 1 \<and>
     length (split_on 47 canonical) \<le> max_path_segments + 2 \<and>
     \<not> list_ex forbidden_char canonical \<and>
     list_all (\<lambda>part. part \<noteq> [] \<and> part \<noteq> dot \<and> part \<noteq> dot_dot \<and> byte_length part \<le> max_path_segment_bytes)
       (split_on 47 canonical)"

definition archive_name :: "code_text \<Rightarrow> bool \<Rightarrow> tar_error + code_text" where
  "archive_name name directory =
     (if archive_name_ok (canonical_name name directory) then Inr (canonical_name name directory)
      else unsafe_archive ''entry names must be bounded canonical relative paths.'')"

definition workspace_name :: "code_text \<Rightarrow> bool \<Rightarrow> tar_error + code_text" where
  "workspace_name name directory =
     and_then (archive_name name directory) (\<lambda>canonical.
       if canonical = archive_root \<or> canonical = archive_work then
         (if directory then Inr canonical else unsafe_archive ''workspace roots must be directories.'')
       else if take (length archive_work + 1) canonical \<noteq> archive_work @ [47] then
         unsafe_archive ''entries must remain inside the owned work directory.''
       else if \<not> relative_path_schema (drop (length archive_work + 1) canonical) then
         unsafe_archive ''work entries exceed the public relative-path bounds.''
       else Inr canonical)"

section \<open>Headers (contracts.ts, header.ts)\<close>

datatype entry_kind = File_Entry | Directory_Entry | Symlink_Entry | Pax_Entry

record tar_header =
  th_path :: code_text
  th_kind :: entry_kind
  th_size :: int
  th_mode :: int
  th_target :: code_text

definition block_bytes :: nat where "block_bytes = 512"
definition max_octal_size :: int where "max_octal_size = 8 * 1024 ^ 3 - 1"
definition max_pax_bytes :: nat where "max_pax_bytes = 16 * 1024"
definition max_trailer_bytes :: nat where "max_trailer_bytes = 10 * 1024"

definition tar_text :: "bytes \<Rightarrow> tar_error + code_text" where
  "tar_text bs = (case utf8_decode bs of
       Some t \<Rightarrow> Inr t
     | None \<Rightarrow> unsafe_archive ''header text must be valid UTF-8.'')"

text \<open>\<open>block.subarray(offset, offset + length)\<close>\<close>

definition subarray :: "nat \<Rightarrow> nat \<Rightarrow> 'a list \<Rightarrow> 'a list" where
  "subarray offset n block = take n (drop offset block)"

definition field :: "bytes \<Rightarrow> nat \<Rightarrow> nat \<Rightarrow> tar_error + code_text" where
  "field block offset n =
     (let bs = subarray offset n block; body = takeWhile (\<lambda>b. b \<noteq> 0) bs
      in if length body = length bs then tar_text bs
         else if list_ex (\<lambda>b. b \<noteq> 0) (drop (length body) bs) then
           unsafe_archive ''hidden bytes after a text terminator.''
         else tar_text body)"

definition octal_pad :: "nat \<Rightarrow> bool" where
  "octal_pad c \<longleftrightarrow> c = 32 \<or> c = 0"

definition octal_digit :: "nat \<Rightarrow> bool" where
  "octal_digit c \<longleftrightarrow> 48 \<le> c \<and> c \<le> 55"

definition octal_value :: "code_text \<Rightarrow> int" where
  "octal_value digits = foldl (\<lambda>v c. 8 * v + (int c - 48)) 0 digits"

definition octal :: "bytes \<Rightarrow> nat \<Rightarrow> nat \<Rightarrow> tar_error + int" where
  "octal block offset n =
     (let bs = subarray offset n block
      in if list_ex (\<lambda>b. \<not> octal_pad (unat b) \<and> \<not> octal_digit (unat b)) bs then
           unsafe_archive ''numeric headers require unsigned octal.''
         else and_then (tar_text bs) (\<lambda>encoded.
           let body = dropWhile octal_pad encoded; digits = takeWhile octal_digit body
           in if list_ex (\<lambda>c. \<not> octal_pad c) (dropWhile octal_digit body) then
                unsafe_archive ''numeric headers require unsigned octal.''
              else if \<not> safe_integer (octal_value digits) then
                unsafe_archive ''numeric header exceeds the safe integer range.''
              else Inr (octal_value digits)))"

definition sum_bytes :: "bytes \<Rightarrow> int" where
  "sum_bytes bs = (\<Sum>b\<leftarrow>bs. uint b)"

definition header_sum :: "bytes \<Rightarrow> int" where
  "header_sum block = sum_bytes (take 148 block) + 8 * 32 + sum_bytes (drop 156 block)"

definition kind_of_flag :: "byte \<Rightarrow> entry_kind option" where
  "kind_of_flag flag =
     (if flag = 53 then Some Directory_Entry
      else if flag = 48 \<or> flag = 0 then Some File_Entry
      else if flag = 50 then Some Symlink_Entry
      else if flag = 120 then Some Pax_Entry
      else None)"

fun check_octals :: "bytes \<Rightarrow> (nat \<times> nat) list \<Rightarrow> tar_error + unit" where
  "check_octals block [] = Inr ()"
| "check_octals block ((offset, n) # more_fields) = and_then (octal block offset n) (\<lambda>_. check_octals block more_fields)"

definition parse_header :: "bytes \<Rightarrow> tar_error + tar_header" where
  "parse_header block =
     and_then (octal block 148 8) (\<lambda>checksum.
     if header_sum block \<noteq> checksum then unsafe_archive ''checksum mismatch.'' else
     and_then (field block 257 6) (\<lambda>magic.
     and_then (if magic = ascii ''ustar'' then tar_text (subarray 263 2 block) else Inr []) (\<lambda>version.
     if magic \<noteq> ascii ''ustar'' \<or> version \<noteq> ascii ''00'' then unsafe_archive ''only POSIX ustar/PAX is supported.'' else
     case kind_of_flag (block ! 156) of
       None \<Rightarrow> unsafe_archive ''hardlinks and special files are forbidden.''
     | Some kind \<Rightarrow>
     and_then (field block 157 100) (\<lambda>target.
     if kind \<noteq> Symlink_Entry \<and> target \<noteq> [] then unsafe_archive ''only symbolic links can carry link metadata.'' else
     and_then (field block 345 155) (\<lambda>prefix.
     and_then (field block 0 100) (\<lambda>name.
     and_then (octal block 100 8) (\<lambda>mode.
     and_then (octal block 124 12) (\<lambda>size.
     and_then (check_octals block [(108, 8), (116, 8), (136, 12), (329, 8), (337, 8)]) (\<lambda>_.
     and_then (field block 265 32) (\<lambda>_.
     and_then (field block 297 32) (\<lambda>_.
     if 4095 < mode \<or> max_octal_size < size \<or> list_ex (\<lambda>b. b \<noteq> 0) (drop 500 block) then
       unsafe_archive ''unsupported numeric or extension metadata.''
     else if (kind = Directory_Entry \<or> kind = Symlink_Entry) \<and> size \<noteq> 0 then
       unsafe_archive ''directory and symbolic-link entries cannot carry payload.''
     else Inr \<lparr>th_path = (if prefix \<noteq> [] then prefix @ 47 # name else name), th_kind = kind,
            th_size = size, th_mode = mode, th_target = target\<rparr>)))))))))))"

text \<open>\<open>value.toString(8)\<close> of a non-negative integer.\<close>

fun octal_string :: "nat \<Rightarrow> code_text" where
  "octal_string n = (if n < 8 then [48 + n] else octal_string (n div 8) @ [48 + n mod 8])"

declare octal_string.simps [simp del]

text \<open>\<open>header.write(text, offset)\<close>\<close>

definition put :: "nat \<Rightarrow> 'a list \<Rightarrow> 'a list \<Rightarrow> 'a list" where
  "put offset bs block = take offset block @ bs @ drop (offset + length bs) block"

definition pad_zero :: "nat \<Rightarrow> code_text \<Rightarrow> code_text" where
  "pad_zero n t = replicate (n - length t) 48 @ t"

definition put_octal :: "nat \<Rightarrow> nat \<Rightarrow> int \<Rightarrow> bytes \<Rightarrow> tar_error + bytes" where
  "put_octal offset n v block =
     (if \<not> safe_integer v \<or> v < 0 \<or> n \<le> length (octal_string (nat v)) then
        Inl (Unsupported ''Docker tar metadata exceeds the selected unsigned-octal representation.'')
      else Inr (put offset (map word_of_nat (pad_zero (n - 1) (octal_string (nat v)))) block))"

fun put_octals :: "(nat \<times> nat \<times> int) list \<Rightarrow> bytes \<Rightarrow> tar_error + bytes" where
  "put_octals [] block = Inr block"
| "put_octals ((offset, n, v) # more_fields) block = and_then (put_octal offset n v block) (put_octals more_fields)"

record tar_member =
  tm_path :: code_text
  tm_kind :: entry_kind
  tm_size :: int
  tm_mode :: int
  tm_uid :: int
  tm_gid :: int
  tm_target :: "code_text option"

fun flag_of_kind :: "entry_kind \<Rightarrow> byte" where
  "flag_of_kind Directory_Entry = 53"
| "flag_of_kind Pax_Entry = 120"
| "flag_of_kind Symlink_Entry = 50"
| "flag_of_kind File_Entry = 48"

definition member_target :: "tar_member \<Rightarrow> code_text" where
  "member_target e = (case tm_target e of None \<Rightarrow> [] | Some t \<Rightarrow> t)"

definition make_header :: "tar_member \<Rightarrow> tar_error + bytes" where
  "make_header e =
     (if 100 < byte_length (tm_path e) \<or> 4095 < tm_mode e \<or> 100 < byte_length (member_target e) then
        Inl (Unsupported ''Docker tar header name, target or mode is not representable.'')
      else
        and_then (put_octals [(100, 8, tm_mode e), (108, 8, tm_uid e), (116, 8, tm_gid e), (124, 12, tm_size e),
            (136, 12, 0), (329, 8, 0), (337, 8, 0)] (put 0 (utf8_encode (tm_path e)) (replicate block_bytes 0))) (\<lambda>h1.
        let h2 = put 156 [flag_of_kind (tm_kind e)] h1;
            h3 = (if tm_kind e = Symlink_Entry then put 157 (utf8_encode (member_target e)) h2 else h2);
            h4 = put 263 (map word_of_nat (ascii ''00'')) (put 257 (map word_of_nat (ascii ''ustar'') @ [0]) h3);
            h5 = put 148 (replicate 8 32) h4;
            h6 = put 148 (map word_of_nat (pad_zero 6 (octal_string (nat (sum_bytes h5))))) h5
        in Inr (put 154 [0] h6)))"

section \<open>Blocks\<close>

lemma length_put: "offset + length bs \<le> length h \<Longrightarrow> length (put offset bs h) = length h"
  by (simp add: put_def)

lemma subarray_put_prefix:
  "offset + length bs \<le> length h \<Longrightarrow> length bs \<le> n \<Longrightarrow>
   subarray offset n (put offset bs h) = bs @ subarray (offset + length bs) (n - length bs) h"
  by (simp add: subarray_def put_def)

lemma subarray_put_same: "offset + length bs \<le> length h \<Longrightarrow> n = length bs \<Longrightarrow> subarray offset n (put offset bs h) = bs"
  by (simp add: subarray_def put_def)

lemma subarray_put_before:
  "offset + n \<le> offset' \<Longrightarrow> offset' + length bs \<le> length h \<Longrightarrow>
   subarray offset n (put offset' bs h) = subarray offset n h"
  by (simp add: subarray_def put_def drop_take)

lemma subarray_put_after:
  "offset' + length bs \<le> offset \<Longrightarrow> offset' + length bs \<le> length h \<Longrightarrow>
   subarray offset n (put offset' bs h) = subarray offset n h"
  by (simp add: subarray_def put_def add.commute)

lemma subarray_replicate: "subarray offset n (replicate m x) = replicate (min n (m - offset)) x"
  by (simp add: subarray_def)

lemma nth_subarray: "offset < length h \<Longrightarrow> h ! offset = hd (subarray offset 1 h)"
  by (simp add: subarray_def hd_drop_conv_nth take_Suc hd_conv_nth)

lemma drop_subarray: "drop offset h = subarray offset (length h - offset) h"
  by (simp add: subarray_def)

end
