(* ===== verification/Tar_Header_Laws.thy ===== *)
theory Tar_Header_Laws
  imports Tar_Header
begin

text \<open>
  What a header written by \<open>makeHeader\<close> holds field by field, and that \<open>parseHeader\<close> reads it back.
\<close>

section \<open>Octal numbers\<close>

lemma octal_string_digits: "list_all octal_digit (octal_string n)"
proof (induction n rule: octal_string.induct)
  case (1 n)
  have "octal_digit (48 + n mod 8)" by (simp add: octal_digit_def)
  moreover have "n < 8 \<Longrightarrow> octal_digit (48 + n)" by (simp add: octal_digit_def)
  ultimately show ?case using 1 by (subst octal_string.simps) simp
qed

lemma octal_string_nonempty [simp]: "octal_string n \<noteq> []"
  by (subst octal_string.simps) simp

lemma octal_value_snoc: "octal_value (t @ [c]) = 8 * octal_value t + (int c - 48)"
  by (simp add: octal_value_def)

lemma octal_value_string [simp]: "octal_value (octal_string n) = int n"
proof (induction n rule: octal_string.induct)
  case (1 n)
  show ?case
  proof (cases "n < 8")
    case True
    then show ?thesis by (subst octal_string.simps) (simp add: octal_value_def)
  next
    case False
    then have "octal_value (octal_string n) = 8 * int (n div 8) + int (n mod 8)"
      using 1 by (subst octal_string.simps) (simp add: octal_value_snoc)
    then show ?thesis by (metis mult_div_mod_eq of_nat_add of_nat_mult of_nat_numeral)
  qed
qed

lemma octal_value_pad: "octal_value (pad_zero n t) = octal_value t"
proof -
  have "foldl (\<lambda>v c. 8 * v + (int c - 48)) 0 (replicate k 48) = 0" for k
    by (induction k) simp_all
  then show ?thesis by (simp add: octal_value_def pad_zero_def)
qed

lemma octal_string_length: "0 < k \<Longrightarrow> n < 8 ^ k \<Longrightarrow> length (octal_string n) \<le> k"
proof (induction n arbitrary: k rule: octal_string.induct)
  case (1 n)
  show ?case
  proof (cases "n < 8")
    case False
    then obtain j where k: "k = Suc j" and j: "0 < j" using 1(2,3) by (cases k; cases "k - 1") auto
    then have "n div 8 < 8 ^ j" using 1(3) by (simp add: less_mult_imp_div_less mult.commute)
    then show ?thesis using 1(1) [OF False j] False k by (subst octal_string.simps) simp
  qed (use 1(2) in \<open>subst octal_string.simps, simp\<close>)
qed

lemma octal_string_bound: "n < 8 ^ length (octal_string n)"
proof (induction n rule: octal_string.induct)
  case (1 n)
  show ?case
  proof (cases "n < 8")
    case False
    then have "n div 8 < 8 ^ length (octal_string (n div 8))" using 1 by simp
    then have "n < 8 * 8 ^ length (octal_string (n div 8))" by linarith
    then show ?thesis using False by (subst octal_string.simps) simp
  qed (subst octal_string.simps, simp)
qed

lemma pad_zero_digits: "list_all octal_digit t \<Longrightarrow> list_all octal_digit (pad_zero n t)"
  by (auto simp: pad_zero_def octal_digit_def list_all_iff)

lemma length_pad_zero: "length t \<le> n \<Longrightarrow> length (pad_zero n t) = n"
  by (simp add: pad_zero_def)

lemma pad_zero_nonempty: "t \<noteq> [] \<Longrightarrow> pad_zero n t \<noteq> []"
  by (simp add: pad_zero_def)

lemma map_unat_digits: "list_all octal_digit t \<Longrightarrow> map unat (map word_of_nat t :: bytes) = t"
  by (induction t) (auto simp: octal_digit_def unat_of_nat)

lemma octal_read:
  assumes read: "subarray offset n block = map word_of_nat digits @ tail"
    and digits: "list_all octal_digit digits" "digits \<noteq> []"
    and tail: "list_all (\<lambda>b. b = 0 \<or> b = 32) tail"
    and safe: "safe_integer (octal_value digits)"
  shows "octal block offset n = Inr (octal_value digits)"
proof -
  let ?bs = "map word_of_nat digits @ tail :: bytes"
  have codes: "map unat ?bs = digits @ map unat tail"
    using map_unat_digits [OF digits(1)] by simp
  have tails: "list_all octal_pad (map unat tail)"
    using tail by (auto simp: list_all_iff octal_pad_def)
  have not_pad: "\<not> octal_pad c" if "octal_digit c" for c using that by (auto simp: octal_digit_def octal_pad_def)
  have all: "octal_pad c \<or> octal_digit c" if "c \<in> unat ` set ?bs" for c
  proof -
    have "c \<in> set (map unat ?bs)" using that by (simp only: set_map)
    then show ?thesis unfolding codes using digits(1) tails by (auto simp: list_all_iff)
  qed
  then have first: "\<not> list_ex (\<lambda>b. \<not> octal_pad (unat b) \<and> \<not> octal_digit (unat b)) ?bs"
    unfolding list_ex_iff by blast
  have "list_all (\<lambda>b. unat b < 128) ?bs"
    unfolding list_all_iff using all by (fastforce simp: octal_pad_def octal_digit_def)
  then have decoded: "tar_text ?bs = Inr (digits @ map unat tail)"
    by (simp only: tar_text_def utf8_decode_ascii codes option.case)
  have "dropWhile octal_pad (digits @ map unat tail) = digits @ map unat tail"
    using digits not_pad by (cases digits) auto
  moreover have "takeWhile octal_digit (digits @ map unat tail) = digits"
    using digits(1) tails not_pad by (cases tail) (auto simp: list_all_iff takeWhile_append)
  moreover have "dropWhile octal_digit (digits @ map unat tail) = map unat tail"
    using digits(1) tails not_pad by (cases tail) (auto simp: list_all_iff dropWhile_append)
  moreover have "\<not> list_ex (\<lambda>c. \<not> octal_pad c) (map unat tail)"
    using tails by (simp add: list_ex_iff list_all_iff)
  ultimately show ?thesis
    using first decoded safe unfolding octal_def read Let_def by simp
qed

section \<open>Text fields\<close>

lemma takeWhile_zero: "0 \<notin> set bs \<Longrightarrow> takeWhile (\<lambda>b. b \<noteq> 0) (bs @ replicate k 0) = bs" for bs :: bytes
proof (induction bs)
  case Nil
  then show ?case by (cases k) simp_all
qed auto

lemma field_read:
  assumes "subarray offset n block = utf8_encode t @ replicate k 0" and "0 \<notin> set t" and "list_all scalar t"
  shows "field block offset n = Inr t"
proof -
  have "takeWhile (\<lambda>b. b \<noteq> 0) (utf8_encode t @ replicate k 0) = utf8_encode t"
    using utf8_no_zero [OF assms(2)] by (rule takeWhile_zero)
  moreover have "tar_text (utf8_encode t) = Inr t"
    using utf8_roundtrip [OF assms(3)] by (simp add: tar_text_def)
  ultimately show ?thesis
    unfolding field_def assms(1) Let_def by (simp add: list_ex_iff)
qed

lemma field_zero: "subarray offset n block = replicate n 0 \<Longrightarrow> field block offset n = Inr []"
  using field_read [of offset n block "[]" n] by simp

section \<open>The octal fields of a header\<close>

definition octal_field :: "nat \<Rightarrow> int \<Rightarrow> bytes" where
  "octal_field n v = map word_of_nat (pad_zero (n - 1) (octal_string (nat v)))"

definition octal_ok :: "nat \<Rightarrow> int \<Rightarrow> bool" where
  "octal_ok n v \<longleftrightarrow> safe_integer v \<and> 0 \<le> v \<and> length (octal_string (nat v)) < n"

lemma put_octal_Inr: "put_octal offset n v h = Inr h' \<longleftrightarrow> octal_ok n v \<and> h' = put offset (octal_field n v) h"
  by (auto simp: put_octal_def octal_ok_def octal_field_def not_le not_less)

lemma length_octal_field: "octal_ok n v \<Longrightarrow> length (octal_field n v) = n - 1"
proof -
  assume "octal_ok n v"
  then have "length (octal_string (nat v)) \<le> n - 1" unfolding octal_ok_def by linarith
  then show ?thesis by (simp only: octal_field_def length_map length_pad_zero)
qed

lemma octal_field_read:
  assumes "subarray offset n block = octal_field n v @ tail" and "octal_ok n v"
    and "list_all (\<lambda>b. b = 0 \<or> b = 32) tail"
  shows "octal block offset n = Inr v"
proof -
  let ?digits = "pad_zero (n - 1) (octal_string (nat v))"
  have "octal block offset n = Inr (octal_value ?digits)"
    using assms by (intro octal_read [where tail = tail])
      (auto simp: octal_field_def octal_ok_def pad_zero_digits octal_string_digits octal_value_pad pad_zero_nonempty)
  then show ?thesis using assms(2) by (simp add: octal_value_pad octal_ok_def)
qed

lemma octal_ok_zero: "1 < n \<Longrightarrow> octal_ok n 0"
  by (subst octal_ok_def, subst octal_string.simps) (simp add: safe_integer_def max_safe_integer_def)

lemma octal_ok_12: "octal_ok 12 v \<Longrightarrow> v \<le> max_octal_size"
proof -
  assume ok: "octal_ok 12 v"
  have "nat v < 8 ^ length (octal_string (nat v))" by (rule octal_string_bound)
  also have "(8 :: nat) ^ length (octal_string (nat v)) \<le> 8 ^ 11"
    using ok by (intro power_increasing) (auto simp: octal_ok_def)
  finally show ?thesis using ok by (simp add: octal_ok_def max_octal_size_def)
qed

section \<open>The checksum\<close>

lemma subarray_middle: "length a = offset \<Longrightarrow> length b = n \<Longrightarrow> subarray offset n (a @ b @ c) = b"
  by (simp add: subarray_def)

lemma sum_bytes_append: "sum_bytes (a @ b) = sum_bytes a + sum_bytes b"
  by (simp add: sum_bytes_def)

lemma sum_bytes_nonneg: "0 \<le> sum_bytes bs"
  unfolding sum_bytes_def by (rule sum_list_nonneg) auto

lemma sum_bytes_bound: "sum_bytes bs \<le> 255 * int (length bs)"
proof (induction bs)
  case (Cons b bs)
  have "uint b \<le> 255" using uint_lt2p [of b] by simp
  then show ?case using Cons by (simp add: sum_bytes_def)
qed (simp add: sum_bytes_def)

definition with_checksum :: "bytes \<Rightarrow> bytes" where
  "with_checksum h =
     (let h5 = put 148 (replicate 8 32) h
      in put 154 [0] (put 148 (map word_of_nat (pad_zero 6 (octal_string (nat (sum_bytes h5))))) h5))"

lemma spaced_header:
  assumes "length h = 512"
  shows "put 148 (replicate 8 32) h = take 148 h @ replicate 8 32 @ drop 156 h"
    and "sum_bytes (put 148 (replicate 8 32) h) = header_sum h"
  using assms by (simp_all add: put_def header_sum_def sum_bytes_append) (simp add: sum_bytes_def sum_list_replicate)

lemma header_sum_bound: "length h = 512 \<Longrightarrow> header_sum h < 8 ^ 6"
  using spaced_header(2) [of h] sum_bytes_bound [of "put 148 (replicate 8 32) h"] length_put [of 148 "replicate 8 32" h]
  by simp

lemma checksum_layout:
  assumes "length h = 512"
  shows "with_checksum h = take 148 h @ map word_of_nat (pad_zero 6 (octal_string (nat (header_sum h)))) @ [0, 32] @ drop 156 h"
proof -
  have "length (octal_string (nat (header_sum h))) \<le> 6"
    using header_sum_bound [OF assms] by (intro octal_string_length) auto
  then have len: "length (pad_zero 6 (octal_string (nat (header_sum h)))) = 6" by (rule length_pad_zero)
  then show ?thesis
    unfolding with_checksum_def Let_def spaced_header(2) [OF assms] unfolding spaced_header(1) [OF assms]
    using assms by (simp add: put_def numeral_eq_Suc)
qed

lemma checksum_read:
  assumes "length h = 512"
  shows "octal (with_checksum h) 148 8 = Inr (header_sum (with_checksum h))"
    and "length (with_checksum h) = 512"
    and "offset + n \<le> 148 \<or> 156 \<le> offset \<Longrightarrow> subarray offset n (with_checksum h) = subarray offset n h"
proof -
  let ?six = "pad_zero 6 (octal_string (nat (header_sum h)))"
  have "length (octal_string (nat (header_sum h))) \<le> 6"
    using header_sum_bound [OF assms] by (intro octal_string_length) auto
  then have len: "length ?six = 6" by (rule length_pad_zero)
  have nonneg: "0 \<le> header_sum h" by (simp add: header_sum_def sum_bytes_nonneg)
  have bound: "header_sum h < 8 ^ 6" by (rule header_sum_bound [OF assms])
  have sum: "header_sum (with_checksum h) = header_sum h"
    using len assms by (simp add: checksum_layout [OF assms] header_sum_def)
  have layout: "with_checksum h = take 148 h @ (map word_of_nat ?six @ [0, 32]) @ drop 156 h"
    by (simp add: checksum_layout [OF assms])
  have mid: "subarray 148 8 (with_checksum h) = map word_of_nat ?six @ [0, 32]"
    unfolding layout using len assms by (intro subarray_middle) simp_all
  have "octal (with_checksum h) 148 8 = Inr (octal_value ?six)"
    using len assms nonneg bound
    by (intro octal_read [where tail = "[0, 32]"])
      (auto simp: mid pad_zero_digits octal_string_digits octal_value_pad
        safe_integer_def max_safe_integer_def pad_zero_nonempty)
  then show "octal (with_checksum h) 148 8 = Inr (header_sum (with_checksum h))"
    using nonneg by (simp add: sum octal_value_pad)
  show "length (with_checksum h) = 512" using len assms by (simp add: checksum_layout [OF assms])
  show "subarray offset n (with_checksum h) = subarray offset n h" if "offset + n \<le> 148 \<or> 156 \<le> offset"
    using that
  proof
    assume "offset + n \<le> 148"
    then show ?thesis using assms by (simp add: checksum_layout [OF assms] subarray_def drop_take)
  next
    assume "156 \<le> offset"
    then obtain k where k: "offset = 156 + k" using le_Suc_ex by blast
    have "156 + k - 154 = Suc (Suc k)" by simp
    then show ?thesis using assms len by (simp add: k checksum_layout [OF assms] subarray_def add.commute)
  qed
qed

section \<open>The header before its checksum\<close>

definition octal_header :: "tar_member \<Rightarrow> bytes" where
  "octal_header e =
     put 337 (octal_field 8 0) (put 329 (octal_field 8 0) (put 136 (octal_field 12 0)
       (put 124 (octal_field 12 (tm_size e)) (put 116 (octal_field 8 (tm_gid e))
       (put 108 (octal_field 8 (tm_uid e)) (put 100 (octal_field 8 (tm_mode e))
       (put 0 (utf8_encode (tm_path e)) (replicate 512 0))))))))"

definition link_bytes :: "tar_member \<Rightarrow> bytes" where
  "link_bytes e = (if tm_kind e = Symlink_Entry then utf8_encode (member_target e) else [])"

definition plain_header :: "tar_member \<Rightarrow> bytes" where
  "plain_header e = put 263 (map word_of_nat (ascii ''00'')) (put 257 (map word_of_nat (ascii ''ustar'') @ [0])
     (put 157 (link_bytes e) (put 156 [flag_of_kind (tm_kind e)] (octal_header e))))"

definition member_ok :: "tar_member \<Rightarrow> bool" where
  "member_ok e \<longleftrightarrow> byte_length (tm_path e) \<le> 100 \<and> tm_mode e \<le> 4095 \<and> byte_length (member_target e) \<le> 100 \<and>
     octal_ok 8 (tm_mode e) \<and> octal_ok 8 (tm_uid e) \<and> octal_ok 8 (tm_gid e) \<and> octal_ok 12 (tm_size e)"

lemma put_Nil [simp]: "put offset [] h = h"
  by (simp add: put_def)

lemma make_header_Inr: "make_header e = Inr h \<longleftrightarrow> member_ok e \<and> h = with_checksum (plain_header e)"
proof (cases "100 < byte_length (tm_path e) \<or> 4095 < tm_mode e \<or> 100 < byte_length (member_target e)")
  case True
  then show ?thesis by (auto simp: make_header_def member_ok_def)
next
  case False
  then show ?thesis
    by (auto simp: make_header_def member_ok_def plain_header_def octal_header_def link_bytes_def with_checksum_def
        put_octal_Inr result_simps octal_ok_zero block_bytes_def Let_def not_less)
qed

lemma member_lengths:
  assumes "member_ok e"
  shows "length (utf8_encode (tm_path e)) \<le> 100" "length (link_bytes e) \<le> 100"
    "length (octal_field 8 (tm_mode e)) = 7" "length (octal_field 8 (tm_uid e)) = 7"
    "length (octal_field 8 (tm_gid e)) = 7" "length (octal_field 12 (tm_size e)) = 11"
    "length (octal_field 8 0) = 7" "length (octal_field 12 0) = 11"
  using assms length_octal_field [of 8] length_octal_field [of 12]
  by (simp_all add: member_ok_def length_utf8_encode link_bytes_def octal_ok_zero)

lemma length_ascii [simp]: "length (ascii s) = length s"
  by (simp add: ascii_def)

lemmas block_simps = length_put subarray_put_before subarray_put_after subarray_put_prefix subarray_replicate

lemma octal_header_fields:
  assumes "member_ok e"
  shows "length (octal_header e) = 512"
    and "subarray 0 100 (octal_header e) = utf8_encode (tm_path e) @ replicate (100 - length (utf8_encode (tm_path e))) 0"
    and "subarray 100 8 (octal_header e) = octal_field 8 (tm_mode e) @ [0]"
    and "subarray 108 8 (octal_header e) = octal_field 8 (tm_uid e) @ [0]"
    and "subarray 116 8 (octal_header e) = octal_field 8 (tm_gid e) @ [0]"
    and "subarray 124 12 (octal_header e) = octal_field 12 (tm_size e) @ [0]"
    and "subarray 136 12 (octal_header e) = octal_field 12 0 @ [0]"
    and "subarray 329 8 (octal_header e) = octal_field 8 0 @ [0]"
    and "subarray 337 8 (octal_header e) = octal_field 8 0 @ [0]"
    and "148 \<le> offset \<Longrightarrow> offset + n \<le> 329 \<Longrightarrow> subarray offset n (octal_header e) = replicate n 0"
    and "345 \<le> offset \<Longrightarrow> offset + n \<le> 512 \<Longrightarrow> subarray offset n (octal_header e) = replicate n 0"
  using member_lengths [OF assms] unfolding octal_header_def by (simp_all add: block_simps)

lemma plain_header_fields:
  assumes "member_ok e"
  shows "length (plain_header e) = 512"
    and "offset + n \<le> 156 \<Longrightarrow> subarray offset n (plain_header e) = subarray offset n (octal_header e)"
    and "subarray 156 1 (plain_header e) = [flag_of_kind (tm_kind e)]"
    and "subarray 157 100 (plain_header e) = link_bytes e @ replicate (100 - length (link_bytes e)) 0"
    and "subarray 257 6 (plain_header e) = map word_of_nat (ascii ''ustar'') @ [0]"
    and "subarray 263 2 (plain_header e) = map word_of_nat (ascii ''00'')"
    and "265 \<le> offset \<Longrightarrow> offset + n \<le> 512 \<Longrightarrow> subarray offset n (plain_header e) = subarray offset n (octal_header e)"
  using member_lengths(2) [OF assms] octal_header_fields(1,10) [OF assms]
  unfolding plain_header_def by (simp_all add: block_simps subarray_put_same)

text \<open>The fields of a written header, as the reader sees them.\<close>

lemma header_fields:
  assumes "make_header e = Inr h"
  shows "length h = 512" "octal h 148 8 = Inr (header_sum h)"
    and "subarray 0 100 h = utf8_encode (tm_path e) @ replicate (100 - length (utf8_encode (tm_path e))) 0"
    and "subarray 100 8 h = octal_field 8 (tm_mode e) @ [0]"
    and "subarray 108 8 h = octal_field 8 (tm_uid e) @ [0]"
    and "subarray 116 8 h = octal_field 8 (tm_gid e) @ [0]"
    and "subarray 124 12 h = octal_field 12 (tm_size e) @ [0]"
    and "subarray 136 12 h = octal_field 12 0 @ [0]"
    and "h ! 156 = flag_of_kind (tm_kind e)"
    and "subarray 157 100 h = link_bytes e @ replicate (100 - length (link_bytes e)) 0"
    and "subarray 257 6 h = map word_of_nat (ascii ''ustar'') @ [0]"
    and "subarray 263 2 h = map word_of_nat (ascii ''00'')"
    and "subarray 329 8 h = octal_field 8 0 @ [0]"
    and "subarray 337 8 h = octal_field 8 0 @ [0]"
    and "265 \<le> offset \<Longrightarrow> offset + n \<le> 329 \<Longrightarrow> subarray offset n h = replicate n 0"
    and "345 \<le> offset \<Longrightarrow> offset + n \<le> 512 \<Longrightarrow> subarray offset n h = replicate n 0"
proof -
  have ok: "member_ok e" and h: "h = with_checksum (plain_header e)"
    using assms by (simp_all add: make_header_Inr)
  note plain = plain_header_fields [OF ok] and octals = octal_header_fields [OF ok]
  note checked = checksum_read [OF plain(1)]
  show "length h = 512" "octal h 148 8 = Inr (header_sum h)" using checked unfolding h by simp_all
  show "h ! 156 = flag_of_kind (tm_kind e)"
    using checked nth_subarray [of 156 h] plain(3) unfolding h by simp
qed (use assms in \<open>simp_all add: make_header_Inr checksum_read plain_header_fields octal_header_fields\<close>)

lemma decode_ascii_field:
  "list_all (\<lambda>c. c < 128) t \<Longrightarrow> 0 \<notin> set t \<Longrightarrow> subarray offset n h = map word_of_nat t @ replicate k 0 \<Longrightarrow>
   field h offset n = Inr t"
  by (rule field_read) (auto simp: utf8_encode_ascii list_all_iff scalar_def)

section \<open>Round trip of a header\<close>

lemma header_read_back:
  assumes make: "make_header e = Inr h"
    and path: "0 \<notin> set (tm_path e)" "list_all scalar (tm_path e)"
    and target: "tm_kind e = Symlink_Entry \<Longrightarrow> 0 \<notin> set (member_target e) \<and> list_all scalar (member_target e)"
    and size: "tm_kind e \<in> {Directory_Entry, Symlink_Entry} \<Longrightarrow> tm_size e = 0"
  shows "parse_header h = Inr \<lparr>th_path = tm_path e, th_kind = tm_kind e, th_size = tm_size e,
    th_mode = tm_mode e, th_target = (if tm_kind e = Symlink_Entry then member_target e else [])\<rparr>"
proof -
  have ok: "member_ok e" using make by (simp add: make_header_Inr)
  note fields = header_fields [OF make]
  have "field h 257 6 = Inr (ascii ''ustar'')"
    using fields(11) by (intro decode_ascii_field [where k = 1]) (simp_all add: ascii_def)
  moreover have "tar_text (subarray 263 2 h) = Inr (ascii ''00'')"
    unfolding fields(12) by (simp add: tar_text_def utf8_decode_ascii ascii_def)
  moreover have "kind_of_flag (h ! 156) = Some (tm_kind e)"
    unfolding fields(9) by (cases "tm_kind e") (simp_all add: kind_of_flag_def)
  moreover have "field h 157 100 = Inr (if tm_kind e = Symlink_Entry then member_target e else [])"
    using fields(10) target field_zero [of 157 100 h] field_read [of 157 100 h "member_target e"]
    by (cases "tm_kind e = Symlink_Entry") (auto simp: link_bytes_def)
  moreover have "field h 345 155 = Inr []" "field h 265 32 = Inr []" "field h 297 32 = Inr []"
    using fields(15,16) by (simp_all add: field_zero)
  moreover have "field h 0 100 = Inr (tm_path e)" using fields(3) path by (rule field_read)
  moreover have "octal h 100 8 = Inr (tm_mode e)" "octal h 108 8 = Inr (tm_uid e)"
    "octal h 116 8 = Inr (tm_gid e)" "octal h 124 12 = Inr (tm_size e)" "octal h 136 12 = Inr 0"
    "octal h 329 8 = Inr 0" "octal h 337 8 = Inr 0"
    using ok fields by (auto intro!: octal_field_read simp: member_ok_def octal_ok_zero)
  moreover have "\<not> list_ex (\<lambda>b. b \<noteq> 0) (drop 500 h)"
    using fields(1) fields(16) [of 500 12] by (simp add: drop_subarray list_ex_iff)
  moreover have "tm_mode e \<le> 4095" "tm_size e \<le> max_octal_size"
    using ok octal_ok_12 by (auto simp: member_ok_def)
  ultimately show ?thesis
    using fields(2) size unfolding parse_header_def by auto
qed

lemma header_not_zero: "make_header e = Inr h \<Longrightarrow> list_ex (\<lambda>b. b \<noteq> 0) h"
proof -
  assume make: "make_header e = Inr h"
  then have "h ! 156 \<in> set h" using header_fields(1) by simp
  moreover have "h ! 156 \<noteq> 0" using header_fields(9) [OF make] by (cases "tm_kind e") simp_all
  ultimately show ?thesis by (auto simp: list_ex_iff)
qed

end
