(* ===== verification/Tar_Pax.thy ===== *)
theory Tar_Pax
  imports Tar_Header Js_Data
begin

text \<open>
  The PAX records of \<open>sandbox-docker/src/workspace/tar/pax.ts\<close>: the strict reader, the writer with
  its self-referential length prefix, and their round trip.  Both loops are total functions: the
  reader drops at least one byte per record, and the length prefix moves monotonically to its fixed
  point.
\<close>

record pax_metadata =
  px_path :: "code_text option"
  px_linkpath :: "code_text option"

definition no_pax :: pax_metadata where
  "no_pax = \<lparr>px_path = None, px_linkpath = None\<rparr>"

section \<open>Reading (pax.ts)\<close>

definition decimal_digit :: "nat \<Rightarrow> bool" where
  "decimal_digit c \<longleftrightarrow> 48 \<le> c \<and> c \<le> 57"

text \<open>\<open>/^[1-9][0-9]*$/u\<close> and \<open>Number(digits)\<close>\<close>

definition canonical_decimal :: "code_text \<Rightarrow> bool" where
  "canonical_decimal t \<longleftrightarrow> t \<noteq> [] \<and> hd t \<noteq> 48 \<and> list_all decimal_digit t"

definition decimal_value :: "code_text \<Rightarrow> nat" where
  "decimal_value t = foldl (\<lambda>v c. 10 * v + (c - 48)) 0 t"

text \<open>\<open>/^-?[0-9]{1,16}(?:\.[0-9]{1,9})?$/u\<close>\<close>

definition inert_timestamp :: "code_text \<Rightarrow> bool" where
  "inert_timestamp t =
     (let unsigned = (if take 1 t = [45] then drop 1 t else t);
          whole = takeWhile decimal_digit unsigned; rest = dropWhile decimal_digit unsigned
      in 1 \<le> length whole \<and> length whole \<le> 16 \<and>
         (rest = [] \<or> (hd rest = 46 \<and> list_all decimal_digit (tl rest) \<and>
            1 \<le> length (tl rest) \<and> length (tl rest) \<le> 9)))"

definition apply_pax :: "code_text \<Rightarrow> code_text \<Rightarrow> pax_metadata \<Rightarrow> tar_error + pax_metadata" where
  "apply_pax key v pax =
     (if key = ascii ''path'' then Inr (pax\<lparr>px_path := Some v\<rparr>)
      else if key = ascii ''linkpath'' then Inr (pax\<lparr>px_linkpath := Some v\<rparr>)
      else if key \<notin> set [ascii ''mtime'', ascii ''atime'', ascii ''ctime''] \<or> \<not> inert_timestamp v then
        unsafe_archive ''only path, linkpath and inert timestamps are supported in PAX records.''
      else Inr pax)"

text \<open>One record at the front of the bytes: its key, its value and what follows it.\<close>

definition read_pax_record :: "code_text list \<Rightarrow> bytes \<Rightarrow> tar_error + (code_text \<times> code_text \<times> bytes)" where
  "read_pax_record keys bs =
     (let prefix = takeWhile (\<lambda>b. b \<noteq> 32) bs
      in if length prefix = length bs \<or> 5 < length prefix then
           unsafe_archive ''PAX requires bounded decimal lengths.''
         else and_then (tar_text prefix) (\<lambda>digits.
           if \<not> canonical_decimal digits then unsafe_archive ''PAX length must be canonical decimal.'' else
           let end_of = decimal_value digits
           in if length bs < end_of \<or> end_of \<le> length prefix + 2 \<or> bs ! (end_of - 1) \<noteq> 10 then
                unsafe_archive ''PAX length or newline mismatch.''
              else and_then (tar_text (drop (length prefix + 1) (take (end_of - 1) bs))) (\<lambda>body.
                let key = takeWhile (\<lambda>c. c \<noteq> 61) body
                in if length key = length body \<or> key = [] \<or> key \<in> set keys then
                     unsafe_archive ''PAX keys must be unique.''
                   else Inr (key, drop (length key + 1) body, drop end_of bs))))"

lemma read_pax_record_shorter: "read_pax_record keys bs = Inr (key, v, rest) \<Longrightarrow> length rest < length bs"
  by (auto simp: read_pax_record_def Let_def unsafe_archive_def result_simps split: if_splits)

function parse_pax_records :: "code_text list \<Rightarrow> pax_metadata \<Rightarrow> bytes \<Rightarrow> tar_error + pax_metadata" where
  "parse_pax_records keys pax bs =
     (if bs = [] then Inr pax
      else case read_pax_record keys bs of
          Inl e \<Rightarrow> Inl e
        | Inr (key, v, rest) \<Rightarrow>
            and_then (apply_pax key v pax) (\<lambda>pax'. parse_pax_records (key # keys) pax' rest))"
  by pat_completeness auto
termination
  by (relation "measure (\<lambda>(keys, pax, bs). length bs)") (auto dest: read_pax_record_shorter)

declare parse_pax_records.simps [simp del]

definition parse_pax :: "bytes \<Rightarrow> tar_error + pax_metadata" where
  "parse_pax bs = parse_pax_records [] no_pax bs"

section \<open>Writing (pax.ts)\<close>

definition decimal_length :: "nat \<Rightarrow> nat" where
  "decimal_length n = length (nat_string n)"

lemma decimal_length_mono: "m \<le> n \<Longrightarrow> decimal_length m \<le> decimal_length n"
proof (induction n arbitrary: m rule: nat_string.induct)
  case (1 n)
  show ?case
  proof (cases "m < 10")
    case True
    then show ?thesis by (simp add: decimal_length_def nat_string.simps [of m] Suc_leI)
  next
    case False
    then have "decimal_length (m div 10) \<le> decimal_length (n div 10)"
      using 1(1) [of "m div 10"] 1(2) by (simp add: div_le_mono)
    then show ?thesis
      using False 1(2) by (simp add: decimal_length_def nat_string.simps [of m] nat_string.simps [of n])
  qed
qed

lemma decimal_length_le: "decimal_length n \<le> n div 2 + 1"
proof (induction n rule: nat_string.induct)
  case (1 n)
  then show ?case
    by (cases "n < 10") (auto simp: decimal_length_def nat_string.simps [of n])
qed

text \<open>
  The loop of \<open>record\<close>: \<open>size\<close> becomes the length of its own decimal form and the payload until
  that is what it was.  A size below its successor keeps growing up to \<open>2 * payload + 2\<close>, one above
  keeps falling.
\<close>

function record_size :: "nat \<Rightarrow> nat \<Rightarrow> nat" where
  "record_size payload guess =
     (if decimal_length guess + payload = guess then guess
      else record_size payload (decimal_length guess + payload))"
  by pat_completeness auto
termination
proof (relation "measure (\<lambda>(payload, guess). if guess \<le> decimal_length guess + payload
    then 2 * payload + 2 - guess else guess + 2 * payload + 3)")
  fix payload guess
  let ?next = "decimal_length guess + payload"
  assume "?next \<noteq> guess"
  moreover have "guess < ?next \<Longrightarrow> ?next \<le> decimal_length ?next + payload"
    using decimal_length_mono [of guess ?next] by simp
  moreover have "?next \<le> decimal_length ?next + payload \<Longrightarrow> ?next \<le> 2 * payload + 2"
    using decimal_length_le [of ?next] by linarith
  ultimately show "((payload, ?next), payload, guess) \<in> measure (\<lambda>(payload, guess).
      if guess \<le> decimal_length guess + payload then 2 * payload + 2 - guess else guess + 2 * payload + 3)"
    by auto
qed simp

declare record_size.simps [simp del]

lemma record_size_fixed: "decimal_length (record_size payload guess) + payload = record_size payload guess"
proof (induction payload guess rule: record_size.induct)
  case (1 payload guess)
  then show ?case by (subst (1 2) record_size.simps) simp
qed

definition pax_payload :: "code_text \<Rightarrow> code_text \<Rightarrow> code_text" where
  "pax_payload key v = 32 # key @ 61 # v @ [10]"

definition pax_record :: "code_text \<Rightarrow> code_text \<Rightarrow> code_text" where
  "pax_record key v =
     (let payload = pax_payload key v; n = byte_length payload
      in ascii (nat_string (record_size n (n + 1))) @ payload)"

definition encode_pax :: "pax_metadata \<Rightarrow> bytes" where
  "encode_pax pax = utf8_encode
     ((case px_path pax of None \<Rightarrow> [] | Some p \<Rightarrow> pax_record (ascii ''path'') p) @
      (case px_linkpath pax of None \<Rightarrow> [] | Some t \<Rightarrow> pax_record (ascii ''linkpath'') t))"

section \<open>Round trip\<close>

lemma ascii_digits: "list_all is_digit s \<Longrightarrow> list_all decimal_digit (ascii s) \<and> decimal_value (ascii s) = digits_value s"
proof -
  assume digits: "list_all is_digit s"
  have "foldl (\<lambda>v c. 10 * v + (c - 48)) n (map of_char s) = foldl (\<lambda>v c. 10 * v + digit_value c) n s" for n :: nat
    by (induction s arbitrary: n) (simp_all add: digit_value_def code_unit_def)
  then show ?thesis
    using digits by (auto simp: list_all_iff ascii_def decimal_digit_def is_digit_def code_unit_def
        decimal_value_def digits_value_def)
qed

lemma nat_string_head: "0 < n \<Longrightarrow> hd (nat_string n) \<noteq> CHR ''0''"
proof (induction n rule: nat_string.induct)
  case (1 n)
  show ?case
  proof (cases "n < 10")
    case True
    then have "code_unit (hd (nat_string n)) = 48 + n"
      by (subst nat_string.simps) (simp add: code_unit_digit_char)
    then show ?thesis using 1(2) by (auto simp: code_unit_def)
  next
    case False
    then show ?thesis using 1 by (subst nat_string.simps) (simp add: hd_append)
  qed
qed

lemma canonical_nat_string:
  assumes "0 < n"
  shows "canonical_decimal (ascii (nat_string n))" "decimal_value (ascii (nat_string n)) = n"
proof -
  have "hd (ascii (nat_string n)) \<noteq> 48"
  proof
    assume "hd (ascii (nat_string n)) = 48"
    then have "of_char (hd (nat_string n)) = (48 :: nat)" by (simp add: ascii_def hd_map)
    moreover have "char_of (48 :: nat) = CHR ''0''" by (simp add: char_of_def bit_Suc_0_iff)
    ultimately have "hd (nat_string n) = CHR ''0''" by (metis char_of_char)
    then show False using nat_string_head [OF assms] by simp
  qed
  then show "canonical_decimal (ascii (nat_string n))" "decimal_value (ascii (nat_string n)) = n"
    using ascii_digits [OF nat_string_digits, of n] by (simp_all add: canonical_decimal_def ascii_def)
qed

lemma takeWhile_until: "x \<notin> set s \<Longrightarrow> takeWhile (\<lambda>b. b \<noteq> x) (s @ x # r) = s"
  by (induction s) auto

lemma encode_decimal: "list_all decimal_digit t \<Longrightarrow> utf8_encode t = map word_of_nat t"
  by (rule utf8_encode_ascii) (auto simp: list_all_iff decimal_digit_def)

lemma decimal_no_space: "list_all decimal_digit t \<Longrightarrow> 32 \<notin> set (utf8_encode t)"
proof
  assume digits: "list_all decimal_digit t" and "32 \<in> set (utf8_encode t)"
  then obtain c where "c \<in> set t" "(32 :: byte) = word_of_nat c" unfolding encode_decimal [OF digits] by auto
  moreover have "48 \<le> c" "c \<le> 57" using digits \<open>c \<in> set t\<close> by (auto simp: list_all_iff decimal_digit_def)
  moreover have "unat (word_of_nat c :: byte) = c" using \<open>c \<le> 57\<close> by (simp add: unat_of_nat)
  ultimately have "unat (32 :: byte) = c" by simp
  then show False using \<open>48 \<le> c\<close> by simp
qed

lemma tar_text_encode: "list_all scalar t \<Longrightarrow> tar_text (utf8_encode t) = Inr t"
  by (simp add: tar_text_def utf8_roundtrip)

lemma pax_record_read:
  assumes key: "key \<noteq> []" "61 \<notin> set key" "list_all scalar key" "key \<notin> set keys"
    and v: "list_all scalar v"
    and short: "byte_length (pax_record key v) < 100000"
  shows "read_pax_record keys (utf8_encode (pax_record key v) @ rest) = Inr (key, v, rest)"
proof -
  let ?n = "byte_length (pax_payload key v)"
  define guess where "guess = record_size ?n (?n + 1)"
  let ?digits = "ascii (nat_string guess)"
  let ?body = "utf8_encode (key @ 61 # v)"
  have fixed: "decimal_length guess + ?n = guess" unfolding guess_def by (rule record_size_fixed)
  have payload: "utf8_encode (pax_payload key v) = 32 # ?body @ [10]" "?n = length ?body + 2"
    by (simp_all add: pax_payload_def utf8_encode_def byte_length_def)
  have digits: "canonical_decimal ?digits" "decimal_value ?digits = guess"
    using canonical_nat_string [of guess] fixed payload(2) by auto
  then have dec: "list_all decimal_digit ?digits" by (simp add: canonical_decimal_def)
  let ?prefix = "utf8_encode ?digits"
  have bytes: "utf8_encode (pax_record key v) = ?prefix @ 32 # ?body @ [10]"
    by (simp add: pax_record_def Let_def guess_def payload)
  have plen: "length ?prefix = decimal_length guess"
    using dec by (simp add: encode_decimal decimal_length_def ascii_def)
  have total: "length (utf8_encode (pax_record key v)) = guess"
    using fixed payload(2) plen by (simp add: bytes)
  have "guess < 100000" using short total by (simp add: length_utf8_encode)
  then have five: "decimal_length guess \<le> 5"
    using decimal_length_mono [of guess 99999] by (simp add: decimal_length_def nat_string.simps)
  have prefix: "takeWhile (\<lambda>b. b \<noteq> 32) (utf8_encode (pax_record key v) @ rest) = ?prefix"
    using decimal_no_space [OF dec] by (simp add: bytes takeWhile_until)
  have "list_all scalar ?digits"
    using dec by (auto simp: list_all_iff decimal_digit_def scalar_def)
  then have decoded: "tar_text ?prefix = Inr ?digits" by (rule tar_text_encode)
  have "(utf8_encode (pax_record key v) @ rest) ! (guess - 1) = 10"
  proof -
    have "guess - 1 = length (?prefix @ 32 # ?body)" using total bytes by simp
    then show ?thesis by (simp add: bytes nth_append)
  qed
  moreover have "drop (length ?prefix + 1) (take (guess - 1) (utf8_encode (pax_record key v) @ rest)) = ?body"
  proof -
    have "guess - 1 = length (?prefix @ 32 # ?body)" using total bytes by simp
    then show ?thesis by (simp add: bytes)
  qed
  moreover have "tar_text ?body = Inr (key @ 61 # v)"
    using key(3) v by (intro tar_text_encode) (simp add: scalar_def)
  moreover have "takeWhile (\<lambda>c. c \<noteq> 61) (key @ 61 # v) = key" using key(2) by (rule takeWhile_until)
  moreover have "drop guess (utf8_encode (pax_record key v) @ rest) = rest" using total by simp
  moreover have "decimal_length guess + 2 < guess"
    using fixed payload(2) length_le_byte_length [of "key @ 61 # v"] by (simp add: length_utf8_encode)
  ultimately show ?thesis
    using five total key digits decoded unfolding read_pax_record_def prefix Let_def
    by (simp add: plen)
qed

lemma pax_record_nonempty [simp]: "utf8_encode (pax_record k v) \<noteq> []"
  by (simp add: pax_record_def pax_payload_def Let_def utf8_encode_def)

lemma encode_pax_nonempty: "pax \<noteq> no_pax \<Longrightarrow> encode_pax pax \<noteq> []"
  by (cases pax) (auto simp: encode_pax_def no_pax_def split: option.splits)

lemma parse_encode_pax:
  assumes "\<And>p. px_path pax = Some p \<Longrightarrow> list_all scalar p" "\<And>t. px_linkpath pax = Some t \<Longrightarrow> list_all scalar t"
    and "length (encode_pax pax) < 100000"
  shows "parse_pax (encode_pax pax) = Inr pax"
proof -
  have ascii_keys: "ascii ''path'' = [112, 97, 116, 104]" "ascii ''linkpath'' = [108, 105, 110, 107, 112, 97, 116, 104]"
    by (simp_all add: ascii_def)
  note read = pax_record_read [of "ascii ''path''"] pax_record_read [of "ascii ''linkpath''"]
  show ?thesis
  proof (cases "px_path pax")
    case None
    then show ?thesis
      using assms read(2) [of "[]" "the (px_linkpath pax)" "[]"]
      by (cases "px_linkpath pax")
        (auto simp: parse_pax_def encode_pax_def length_utf8_encode parse_pax_records.simps apply_pax_def no_pax_def ascii_keys scalar_def)
  next
    case (Some p)
    then show ?thesis
      using assms read(1) [of "[]" p "case px_linkpath pax of None \<Rightarrow> [] | Some t \<Rightarrow> utf8_encode (pax_record (ascii ''linkpath'') t)"]
        read(2) [of "[ascii ''path'']" "the (px_linkpath pax)" "[]"]
      by (cases "px_linkpath pax")
        (auto simp: parse_pax_def encode_pax_def length_utf8_encode parse_pax_records.simps apply_pax_def no_pax_def ascii_keys scalar_def)
  qed
qed

end
