(* ===== verification/Tar_Reader.thy ===== *)
theory Tar_Reader
  imports Tar_Header_Laws Tar_Pax
begin

text \<open>
  The streaming tar reader of \<open>sandbox-docker/src/workspace/tar\<close>: the one-chunk cursor of
  \<open>reader.ts\<close>, the entry bodies of \<open>entry.ts\<close> and the archive loop of \<open>decode.ts\<close>.

  A byte source is the list of what its successive \<open>next()\<close> calls do: hand out a chunk, or throw;
  after the last one it is done.  An abort of the signal during a pull is such a throw.  A consumer
  of an entry pulls its body a number of times, one pull after the other, and then returns or
  throws; it propagates an error of a pull.
\<close>

section \<open>The cursor (contracts.ts, reader.ts)\<close>

datatype source_item = Chunk bytes | Throws string

record tar_options =
  to_chunk_bytes :: nat
  to_max_archive_bytes :: "nat option"
  to_limit_code :: limit_code
  to_preserve_symlinks :: bool

record tar_reader =
  rd_source :: "source_item list"
  rd_current :: bytes
  rd_ended :: bool
  rd_received :: nat
  rd_bytes :: nat

definition open_reader :: "source_item list \<Rightarrow> tar_reader" where
  "open_reader src = \<lparr>rd_source = src, rd_current = [], rd_ended = False, rd_received = 0, rd_bytes = 0\<rparr>"

definition over_quota :: "tar_options \<Rightarrow> nat \<Rightarrow> bool" where
  "over_quota opts n \<longleftrightarrow> (case to_max_archive_bytes opts of None \<Rightarrow> False | Some m \<Rightarrow> m < n)"

definition quota_error :: "tar_options \<Rightarrow> tar_error" where
  "quota_error opts = Limit_Exceeded (to_limit_code opts)
     ''Workspace archive exceeds the caller-selected wire byte quota.''"

text \<open>The loop of \<open>take\<close>: pulls until a chunk has bytes or the source is done.\<close>

fun pull_chunk :: "tar_options \<Rightarrow> tar_reader \<Rightarrow> source_item list \<Rightarrow> tar_error + tar_reader" where
  "pull_chunk opts r [] = Inr (r\<lparr>rd_source := [], rd_ended := True\<rparr>)"
| "pull_chunk opts r (Throws message # src) = Inl (Source_Failed message)"
| "pull_chunk opts r (Chunk c # src) =
     (if to_chunk_bytes opts < length c then
        unsafe_archive ''source chunks exceed the selected byte buffer.''
      else let received = rd_received r + length c
           in if over_quota opts received then Inl (quota_error opts)
              else let r' = r\<lparr>rd_source := src, rd_received := received, rd_current := c\<rparr>
                   in if c = [] then pull_chunk opts r' src else Inr r')"

definition reader_take :: "tar_options \<Rightarrow> nat \<Rightarrow> tar_reader \<Rightarrow> tar_error + (bytes option \<times> tar_reader)" where
  "reader_take opts maximum r =
     and_then (if rd_current r = [] \<and> \<not> rd_ended r then pull_chunk opts r (rd_source r) else Inr r) (\<lambda>r1.
       if rd_ended r1 then Inr (None, r1)
       else let chunk = take maximum (rd_current r1)
            in Inr (Some chunk, r1\<lparr>rd_current := drop (length chunk) (rd_current r1),
                                   rd_bytes := rd_bytes r1 + length chunk\<rparr>))"

lemma pull_chunk_current: "pull_chunk opts r src = Inr r' \<Longrightarrow> rd_ended r' \<or> rd_current r' \<noteq> []"
  by (induction opts r src rule: pull_chunk.induct)
    (auto simp: Let_def unsafe_archive_def split: if_splits)

lemma reader_take_nonempty: "reader_take opts n r = Inr (Some chunk, r') \<Longrightarrow> 0 < n \<Longrightarrow> chunk \<noteq> []"
  by (auto simp: reader_take_def Let_def result_simps dest: pull_chunk_current split: if_splits)

function exact_loop :: "tar_options \<Rightarrow> bool \<Rightarrow> nat \<Rightarrow> bytes \<Rightarrow> tar_reader
    \<Rightarrow> tar_error + (bytes option \<times> tar_reader)" where
  "exact_loop opts eof_allowed n got r =
     (if n \<le> length got then Inr (Some got, r)
      else case reader_take opts (n - length got) r of
          Inl e \<Rightarrow> Inl e
        | Inr (None, r') \<Rightarrow> if eof_allowed \<and> got = [] then Inr (None, r')
            else unsafe_archive ''unexpected EOF inside framing or payload.''
        | Inr (Some chunk, r') \<Rightarrow> exact_loop opts eof_allowed n (got @ chunk) r')"
  by pat_completeness auto
termination
proof (relation "measure (\<lambda>(opts, eof, n, got, r). n - length got)")
  fix opts :: tar_options and eof n and got :: bytes and r r1 :: tar_reader and taken step chunk
  assume "\<not> n \<le> length got" "reader_take opts (n - length got) r = Inr step" "(taken, r1) = step" "taken = Some chunk"
  then have "0 < length chunk" using reader_take_nonempty [of opts "n - length got" r chunk r1] by auto
  then show "((opts, eof, n, got @ chunk, r1), opts, eof, n, got, r) \<in> measure (\<lambda>(opts, eof, n, got, r). n - length got)"
    using \<open>\<not> n \<le> length got\<close> unfolding in_measure prod.case length_append by linarith
qed simp

declare exact_loop.simps [simp del]

definition reader_exact :: "tar_options \<Rightarrow> nat \<Rightarrow> bool \<Rightarrow> tar_reader \<Rightarrow> tar_error + (bytes option \<times> tar_reader)" where
  "reader_exact opts n eof_allowed r = exact_loop opts eof_allowed n [] r"

definition reader_required :: "tar_options \<Rightarrow> nat \<Rightarrow> tar_reader \<Rightarrow> tar_error + (bytes \<times> tar_reader)" where
  "reader_required opts n r = and_then (reader_exact opts n False r) (\<lambda>(bs, r').
     case bs of Some b \<Rightarrow> Inr (b, r') | None \<Rightarrow> unsafe_archive ''unexpected EOF inside framing.'')"

function reader_zeroes :: "tar_options \<Rightarrow> nat \<Rightarrow> tar_reader \<Rightarrow> tar_error + tar_reader" where
  "reader_zeroes opts remaining r =
     (if remaining = 0 then Inr r
      else case reader_take opts remaining r of
          Inl e \<Rightarrow> Inl e
        | Inr (None, r') \<Rightarrow> unsafe_archive ''unexpected EOF inside padding.''
        | Inr (Some chunk, r') \<Rightarrow>
            if list_ex (\<lambda>b. b \<noteq> 0) chunk then unsafe_archive ''nonzero padding or trailer.''
            else reader_zeroes opts (remaining - length chunk) r')"
  by pat_completeness auto
termination
  by (relation "measure (\<lambda>(opts, remaining, r). remaining)") (auto dest: reader_take_nonempty)

declare reader_zeroes.simps [simp del]

section \<open>Entry bodies (entry.ts)\<close>

record tar_consumer =
  cs_pulls :: nat
  cs_failure :: "string option"

record tar_output =
  out_path :: code_text
  out_kind :: entry_kind
  out_size :: int
  out_mode :: int
  out_target :: "code_text option"
  out_body :: "bytes list"

text \<open>The pulls of a callback: what remains of the body, the chunks handed out, the cursor.\<close>

fun entry_pulls :: "tar_options \<Rightarrow> nat \<Rightarrow> nat \<Rightarrow> bytes list \<Rightarrow> tar_reader
    \<Rightarrow> tar_error + (nat \<times> bytes list \<times> tar_reader)" where
  "entry_pulls opts 0 remaining body r = Inr (remaining, body, r)"
| "entry_pulls opts (Suc k) remaining body r =
     (if remaining = 0 then entry_pulls opts k remaining body r
      else case reader_take opts (min remaining (to_chunk_bytes opts)) r of
          Inl e \<Rightarrow> Inl e
        | Inr (None, r') \<Rightarrow> unsafe_archive ''unexpected EOF inside payload.''
        | Inr (Some chunk, r') \<Rightarrow> entry_pulls opts k (remaining - length chunk) (body @ [chunk]) r')"

definition consume_tar_entry ::
    "tar_options \<Rightarrow> tar_header \<Rightarrow> code_text \<Rightarrow> tar_consumer \<Rightarrow> tar_reader \<Rightarrow> tar_error + (tar_output \<times> tar_reader)" where
  "consume_tar_entry opts header path consumer r =
     and_then (entry_pulls opts (cs_pulls consumer) (nat (th_size header)) [] r) (\<lambda>(remaining, body, r').
       case cs_failure consumer of
         Some message \<Rightarrow> Inl (Source_Failed message)
       | None \<Rightarrow>
           if remaining \<noteq> 0 then unsafe_archive ''entry callback must drain its complete body.''
           else Inr (\<lparr>out_path = path, out_kind = th_kind header, out_size = th_size header,
             out_mode = th_mode header, out_target = None, out_body = body\<rparr>, r'))"

section \<open>Archives (decode.ts)\<close>

record tar_summary =
  ts_files :: nat
  ts_directories :: nat
  ts_symlinks :: nat
  ts_payload_bytes :: int
  ts_archive_bytes :: nat

record read_state =
  rs_reader :: tar_reader
  rs_pax :: "pax_metadata option"
  rs_files :: nat
  rs_directories :: nat
  rs_symlinks :: nat
  rs_payload :: int
  rs_log :: "tar_output list"

definition start_read :: "source_item list \<Rightarrow> read_state" where
  "start_read src = \<lparr>rs_reader = open_reader src, rs_pax = None, rs_files = 0, rs_directories = 0,
     rs_symlinks = 0, rs_payload = 0, rs_log = []\<rparr>"

definition padding :: "nat \<Rightarrow> nat" where
  "padding n = (block_bytes - n mod block_bytes) mod block_bytes"

text \<open>Bytes a reader can still hand out; every block read takes 512 of them.\<close>

fun item_bytes :: "source_item \<Rightarrow> bytes" where
  "item_bytes (Chunk c) = c"
| "item_bytes (Throws m) = []"

definition reader_bytes :: "tar_reader \<Rightarrow> bytes" where
  "reader_bytes r = rd_current r @ concat (map item_bytes (rd_source r))"

lemma pull_chunk_bytes:
  "pull_chunk opts r src = Inr r' \<Longrightarrow> rd_current r = [] \<Longrightarrow>
   reader_bytes r' = concat (map item_bytes src) \<and> rd_bytes r' = rd_bytes r \<and>
   (rd_ended r' \<longrightarrow> rd_current r' = [] \<or> rd_ended r)"
  by (induction opts r src rule: pull_chunk.induct)
    (auto simp: Let_def unsafe_archive_def reader_bytes_def split: if_splits)

lemma reader_take_bytes:
  assumes "reader_take opts n r = Inr (got, r')"
  shows "reader_bytes r = (case got of None \<Rightarrow> [] | Some c \<Rightarrow> c) @ reader_bytes r' \<and>
    rd_bytes r' = rd_bytes r + length (case got of None \<Rightarrow> [] | Some c \<Rightarrow> c)"
proof -
  obtain r1 where r1: "(if rd_current r = [] \<and> \<not> rd_ended r then pull_chunk opts r (rd_source r) else Inr r) = Inr r1"
    and got: "(if rd_ended r1 then Inr (None, r1)
       else let chunk = take n (rd_current r1)
            in Inr (Some chunk, r1\<lparr>rd_current := drop (length chunk) (rd_current r1),
                                   rd_bytes := rd_bytes r1 + length chunk\<rparr>)) = (Inr (got, r') :: tar_error + _)"
    using assms by (auto simp: reader_take_def result_simps)
  have "reader_bytes r1 = reader_bytes r \<and> rd_bytes r1 = rd_bytes r"
    using r1 pull_chunk_bytes [of opts r "rd_source r" r1] by (auto simp: reader_bytes_def split: if_splits)
  then show ?thesis
    using got append_take_drop_id [of n "rd_current r1"]
    by (auto simp: reader_bytes_def Let_def min_def append_assoc [symmetric] simp del: append_assoc append_take_drop_id
        split: if_splits)
qed

lemma exact_loop_bytes:
  "exact_loop opts eof n got r = Inr (res, r') \<Longrightarrow>
   (case res of None \<Rightarrow> got = [] \<and> reader_bytes r' = reader_bytes r \<and> rd_bytes r' = rd_bytes r
    | Some bs \<Rightarrow> \<exists>x. bs = got @ x \<and> reader_bytes r = x @ reader_bytes r' \<and> rd_bytes r' = rd_bytes r + length x \<and>
        n \<le> length bs)"
proof (induction opts eof n got r rule: exact_loop.induct)
  case (1 opts eof n got r)
  show ?case
  proof (cases "n \<le> length got")
    case True
    then show ?thesis using "1.prems" by (subst (asm) exact_loop.simps) auto
  next
    case False
    then obtain taken r1 where take: "reader_take opts (n - length got) r = Inr (taken, r1)"
      using "1.prems" by (subst (asm) exact_loop.simps) (auto split: sum.splits)
    note bytes = reader_take_bytes [OF take]
    show ?thesis
    proof (cases taken)
      case None
      then show ?thesis
        using "1.prems" False take bytes by (subst (asm) exact_loop.simps) (auto simp: unsafe_archive_def split: if_splits)
    next
      case (Some chunk)
      then have "exact_loop opts eof n (got @ chunk) r1 = Inr (res, r')"
        using "1.prems" False take by (subst (asm) exact_loop.simps) auto
      then show ?thesis
        using "1.IH" [OF False take, of "(Some chunk)" r1 chunk] Some bytes False
          reader_take_nonempty [of opts "n - length got" r chunk r1] take
        by (auto split: option.splits)
    qed
  qed
qed

lemma reader_exact_bytes:
  assumes "reader_exact opts n eof r = Inr (res, r')"
  shows "reader_bytes r = (case res of None \<Rightarrow> [] | Some bs \<Rightarrow> bs) @ reader_bytes r' \<and>
    rd_bytes r' = rd_bytes r + length (case res of None \<Rightarrow> [] | Some bs \<Rightarrow> bs) \<and>
    (case res of None \<Rightarrow> True | Some bs \<Rightarrow> n \<le> length bs)"
  using exact_loop_bytes [OF assms [unfolded reader_exact_def]] by (auto split: option.splits)

lemma reader_required_bytes:
  "reader_required opts n r = Inr (bs, r') \<Longrightarrow>
   reader_bytes r = bs @ reader_bytes r' \<and> rd_bytes r' = rd_bytes r + length bs \<and> n \<le> length bs"
  using reader_exact_bytes [of opts n False r "Some bs" r']
  by (auto simp: reader_required_def result_simps unsafe_archive_def split: option.splits)

lemma reader_zeroes_bytes:
  "reader_zeroes opts n r = Inr r' \<Longrightarrow>
   length (reader_bytes r') \<le> length (reader_bytes r) \<and>
   rd_bytes r' + length (reader_bytes r') = rd_bytes r + length (reader_bytes r)"
proof (induction opts n r rule: reader_zeroes.induct)
  case (1 opts n r)
  show ?case
  proof (cases "n = 0")
    case True
    then show ?thesis using "1.prems" by (subst (asm) reader_zeroes.simps) simp
  next
    case False
    then obtain chunk r1 where take: "reader_take opts n r = Inr (Some chunk, r1)"
      and zero: "\<not> list_ex (\<lambda>b. b \<noteq> 0) chunk" and rest: "reader_zeroes opts (n - length chunk) r1 = Inr r'"
      using "1.prems"
      by (subst (asm) reader_zeroes.simps) (auto simp: unsafe_archive_def split: sum.splits option.splits if_splits)
    then show ?thesis
      using "1.IH" [OF False take refl refl zero rest] reader_take_bytes [OF take] by auto
  qed
qed

lemma entry_pulls_bytes:
  "entry_pulls opts k remaining body r = Inr (left, body', r') \<Longrightarrow>
   length (reader_bytes r') \<le> length (reader_bytes r) \<and>
   rd_bytes r' + length (reader_bytes r') = rd_bytes r + length (reader_bytes r)"
proof (induction opts k remaining body r rule: entry_pulls.induct)
  case (2 opts k remaining body r)
  show ?case
  proof (cases "remaining = 0")
    case True
    then show ?thesis using 2 by simp
  next
    case False
    then obtain chunk r1 where take: "reader_take opts (min remaining (to_chunk_bytes opts)) r = Inr (Some chunk, r1)"
      and rest: "entry_pulls opts k (remaining - length chunk) (body @ [chunk]) r1 = Inr (left, body', r')"
      using "2.prems" by (auto simp: unsafe_archive_def split: sum.splits option.splits if_splits)
    then show ?thesis
      using "2.IH"(2) [OF False take refl refl rest] reader_take_bytes [OF take] by auto
  qed
qed simp

text \<open>The blocks after the two zero blocks of the end.\<close>

function trailer_loop :: "tar_options \<Rightarrow> nat \<Rightarrow> tar_reader \<Rightarrow> tar_error + tar_reader" where
  "trailer_loop opts trailer_bytes r =
     (case reader_exact opts block_bytes True r of
        Inl e \<Rightarrow> Inl e
      | Inr (None, r') \<Rightarrow> Inr r'
      | Inr (Some trailing, r') \<Rightarrow>
          if list_ex (\<lambda>b. b \<noteq> 0) trailing then unsafe_archive ''nonzero padding or trailer.''
          else if max_trailer_bytes < trailer_bytes + block_bytes then
            unsafe_archive ''trailing padding exceeds the framing bound.''
          else trailer_loop opts (trailer_bytes + block_bytes) r')"
  by pat_completeness auto
termination
  by (relation "measure (\<lambda>(opts, trailer_bytes, r). length (reader_bytes r))")
    (auto dest!: reader_exact_bytes simp: block_bytes_def)

declare trailer_loop.simps [simp del]

definition finish_archive :: "tar_options \<Rightarrow> read_state \<Rightarrow> tar_reader \<Rightarrow> tar_error + (tar_summary \<times> tar_output list)" where
  "finish_archive opts st r =
     (if rs_pax st \<noteq> None then unsafe_archive ''PAX metadata lacks its following entry.'' else
      and_then (reader_zeroes opts block_bytes r) (\<lambda>r1.
      and_then (trailer_loop opts (block_bytes * 2) r1) (\<lambda>r2.
        Inr (\<lparr>ts_files = rs_files st, ts_directories = rs_directories st, ts_symlinks = rs_symlinks st,
          ts_payload_bytes = rs_payload st, ts_archive_bytes = rd_bytes r2\<rparr>, rs_log st))))"

definition read_pax_entry :: "tar_options \<Rightarrow> read_state \<Rightarrow> tar_header \<Rightarrow> tar_reader \<Rightarrow> tar_error + read_state" where
  "read_pax_entry opts st header r =
     (if rs_pax st \<noteq> None \<or> th_size header = 0 \<or> int max_pax_bytes < th_size header then
        unsafe_archive ''invalid bounded local PAX sequence.''
      else
        and_then (reader_required opts (nat (th_size header)) r) (\<lambda>(bs, r1).
        and_then (parse_pax bs) (\<lambda>pax.
        and_then (reader_zeroes opts (padding (nat (th_size header))) r1) (\<lambda>r2.
          Inr (st\<lparr>rs_reader := r2, rs_pax := Some pax\<rparr>)))))"

definition deliver_entry ::
    "tar_options \<Rightarrow> (code_text \<Rightarrow> tar_consumer) \<Rightarrow> tar_header \<Rightarrow> code_text \<Rightarrow> code_text \<Rightarrow> tar_reader
      \<Rightarrow> tar_error + (tar_output \<times> tar_reader)" where
  "deliver_entry opts consume header path target r =
     (if th_kind header = Symlink_Entry then
        (if \<not> to_preserve_symlinks opts then unsafe_archive ''symbolic links require explicit preservation.''
         else and_then (symlink_target target) (\<lambda>t.
           case cs_failure (consume path) of
             Some message \<Rightarrow> Inl (Source_Failed message)
           | None \<Rightarrow> Inr (\<lparr>out_path = path, out_kind = Symlink_Entry, out_size = 0, out_mode = th_mode header,
               out_target = Some t, out_body = []\<rparr>, r)))
      else consume_tar_entry opts header path (consume path) r)"

definition read_entry ::
    "tar_options \<Rightarrow> (code_text \<Rightarrow> tar_consumer) \<Rightarrow> read_state \<Rightarrow> tar_header \<Rightarrow> tar_reader \<Rightarrow> tar_error + read_state" where
  "read_entry opts consume st header r =
     (let pax = (case rs_pax st of None \<Rightarrow> no_pax | Some p \<Rightarrow> p);
          target = (case px_linkpath pax of None \<Rightarrow> th_target header | Some t \<Rightarrow> t)
      in
        and_then (archive_name (case px_path pax of None \<Rightarrow> th_path header | Some p \<Rightarrow> p)
          (th_kind header = Directory_Entry)) (\<lambda>path.
        if th_kind header \<noteq> Symlink_Entry \<and> px_linkpath pax \<noteq> None then
          unsafe_archive ''PAX linkpath requires a symbolic-link entry.''
        else
          and_then (deliver_entry opts consume header path target r) (\<lambda>(out, r1).
          and_then (reader_zeroes opts (padding (nat (th_size header))) r1) (\<lambda>r2.
            Inr (st\<lparr>rs_reader := r2, rs_pax := None,
              rs_symlinks := rs_symlinks st + (if th_kind header = Symlink_Entry then 1 else 0),
              rs_payload := rs_payload st + th_size header,
              rs_files := rs_files st + (if th_kind header = File_Entry then 1 else 0),
              rs_directories := rs_directories st + (if th_kind header = Directory_Entry then 1 else 0),
              rs_log := rs_log st @ [out]\<rparr>)))))"

text \<open>One round of the loop: the next state, or the summary and what was delivered.\<close>

definition read_step ::
    "tar_options \<Rightarrow> (code_text \<Rightarrow> tar_consumer) \<Rightarrow> read_state \<Rightarrow> tar_error + (read_state + (tar_summary \<times> tar_output list))" where
  "read_step opts consume st =
     and_then (reader_required opts block_bytes (rs_reader st)) (\<lambda>(block, r).
       if list_all (\<lambda>b. b = 0) block then and_then (finish_archive opts st r) (\<lambda>res. Inr (Inr res))
       else and_then (parse_header block) (\<lambda>header.
         if th_kind header = Pax_Entry then and_then (read_pax_entry opts st header r) (\<lambda>st'. Inr (Inl st'))
         else and_then (read_entry opts consume st header r) (\<lambda>st'. Inr (Inl st'))))"

lemma deliver_entry_bytes:
  "deliver_entry opts consume header path target r = Inr (out, r') \<Longrightarrow>
   length (reader_bytes r') \<le> length (reader_bytes r)"
  by (auto simp: deliver_entry_def consume_tar_entry_def result_simps unsafe_archive_def
      dest: entry_pulls_bytes split: if_splits option.splits)

lemma read_step_bytes:
  assumes "read_step opts consume st = Inr (Inl st')"
  shows "length (reader_bytes (rs_reader st')) < length (reader_bytes (rs_reader st))"
proof -
  obtain block r where req: "reader_required opts block_bytes (rs_reader st) = Inr (block, r)"
    and rest: "\<exists>header. read_pax_entry opts st header r = Inr st' \<or> read_entry opts consume st header r = Inr st'"
    using assms by (auto simp: read_step_def result_simps split: if_splits)
  have "length (reader_bytes r) < length (reader_bytes (rs_reader st))"
    using reader_required_bytes [OF req] by (auto simp: block_bytes_def)
  moreover have "length (reader_bytes (rs_reader st')) \<le> length (reader_bytes r)"
    using rest
    by (auto simp: read_pax_entry_def read_entry_def Let_def result_simps unsafe_archive_def split: if_splits
        dest!: reader_required_bytes reader_zeroes_bytes deliver_entry_bytes)
  ultimately show ?thesis by simp
qed

function read_loop ::
    "tar_options \<Rightarrow> (code_text \<Rightarrow> tar_consumer) \<Rightarrow> read_state \<Rightarrow> tar_error + (tar_summary \<times> tar_output list)" where
  "read_loop opts consume st =
     (case read_step opts consume st of
        Inl e \<Rightarrow> Inl e
      | Inr (Inl st') \<Rightarrow> read_loop opts consume st'
      | Inr (Inr res) \<Rightarrow> Inr res)"
  by pat_completeness auto
termination
  by (relation "measure (\<lambda>(opts, consume, st). length (reader_bytes (rs_reader st)))") (auto dest: read_step_bytes)

declare read_loop.simps [simp del]

definition read_tar ::
    "tar_options \<Rightarrow> (code_text \<Rightarrow> tar_consumer) \<Rightarrow> source_item list \<Rightarrow> tar_error + (tar_summary \<times> tar_output list)" where
  "read_tar opts consume src = read_loop opts consume (start_read src)"

end
