(* ===== verification/Tar_Reading.thy ===== *)
theory Tar_Reading
  imports Tar_Reader
begin

text \<open>
  The reader as a function of bytes: on a source that throws nothing, within its quota and with
  chunks within the buffer, every read depends on the bytes still to come and not on how the source
  cuts them into chunks.  Two such sources of the same bytes are related step by step.
\<close>

section \<open>Clean sources\<close>

definition clean_item :: "tar_options \<Rightarrow> source_item \<Rightarrow> bool" where
  "clean_item opts i \<longleftrightarrow> (case i of Chunk c \<Rightarrow> length c \<le> to_chunk_bytes opts | Throws m \<Rightarrow> False)"

definition clean :: "tar_options \<Rightarrow> tar_reader \<Rightarrow> bool" where
  "clean opts r \<longleftrightarrow> list_all (clean_item opts) (rd_source r) \<and>
     \<not> over_quota opts (rd_received r + length (concat (map item_bytes (rd_source r)))) \<and>
     (rd_ended r \<longrightarrow> rd_current r = [] \<and> rd_source r = [])"

lemma over_quota_mono: "\<not> over_quota opts n \<Longrightarrow> m \<le> n \<Longrightarrow> \<not> over_quota opts m"
  by (auto simp: over_quota_def split: option.splits)

lemma pull_chunk_clean:
  "clean opts r \<Longrightarrow> rd_current r = [] \<Longrightarrow> \<not> rd_ended r \<Longrightarrow>
   \<exists>r'. pull_chunk opts r (rd_source r) = Inr r' \<and> clean opts r' \<and> (rd_ended r' \<longleftrightarrow> reader_bytes r = [])"
proof (induction "rd_source r" arbitrary: r)
  case Nil
  then show ?case by (auto simp: clean_def reader_bytes_def)
next
  case (Cons i src)
  have "\<exists>c. i = Chunk c \<and> length c \<le> to_chunk_bytes opts"
    using Cons.prems(1) Cons.hyps(2) [symmetric] by (cases i) (auto simp: clean_def clean_item_def)
  then obtain c where i: "i = Chunk c" and c: "length c \<le> to_chunk_bytes opts" by blast
  note src = Cons.hyps(2) [symmetric, unfolded i]
  let ?r = "r\<lparr>rd_source := src, rd_received := rd_received r + length c, rd_current := c\<rparr>"
  have quota: "\<not> over_quota opts (rd_received r + length c)"
    using Cons.prems(1) over_quota_mono [of opts "rd_received r + length (concat (map item_bytes (rd_source r)))"]
    by (simp add: clean_def src)
  have clean: "clean opts ?r" using Cons.prems by (simp add: clean_def src add.assoc)
  have step: "pull_chunk opts r (rd_source r) = (if c = [] then pull_chunk opts ?r src else Inr ?r)"
    using c quota by (simp add: src Let_def)
  show ?case
  proof (cases "c = []")
    case False
    then show ?thesis using step clean Cons.prems(3) by (auto simp: reader_bytes_def src)
  next
    case True
    then have "\<exists>r'. pull_chunk opts ?r (rd_source ?r) = Inr r' \<and> clean opts r' \<and> (rd_ended r' \<longleftrightarrow> reader_bytes ?r = [])"
      using clean Cons.prems by (intro Cons.hyps(1)) simp_all
    then show ?thesis using True step Cons.prems(2) by (simp add: reader_bytes_def src)
  qed
qed

lemma take_clean:
  assumes "clean opts r" and "0 < n"
  shows "reader_bytes r = [] \<Longrightarrow> \<exists>r'. reader_take opts n r = Inr (None, r') \<and> clean opts r'"
    and "reader_bytes r \<noteq> [] \<Longrightarrow> \<exists>chunk r'. reader_take opts n r = Inr (Some chunk, r') \<and> clean opts r' \<and>
      chunk \<noteq> [] \<and> length chunk \<le> n"
proof -
  obtain r1 where r1: "(if rd_current r = [] \<and> \<not> rd_ended r then pull_chunk opts r (rd_source r) else Inr r) = Inr r1"
    and clean: "clean opts r1" and ended: "rd_ended r1 \<longleftrightarrow> reader_bytes r = []"
  proof (cases "rd_current r = [] \<and> \<not> rd_ended r")
    case True
    then show ?thesis using that pull_chunk_clean [OF assms(1)] by auto
  next
    case False
    then have "rd_ended r \<longleftrightarrow> reader_bytes r = []" using assms(1) by (auto simp: clean_def reader_bytes_def)
    then show ?thesis using False assms(1) by (intro that [of r]) auto
  qed
  have current: "rd_ended r1 \<or> rd_current r1 \<noteq> []"
    using r1 by (auto dest: pull_chunk_current split: if_splits)
  have take: "reader_take opts n r = (if rd_ended r1 then Inr (None, r1)
       else Inr (Some (take n (rd_current r1)), r1\<lparr>rd_current := drop (length (take n (rd_current r1))) (rd_current r1),
                                   rd_bytes := rd_bytes r1 + length (take n (rd_current r1))\<rparr>))"
    by (simp only: reader_take_def r1 and_then_Inr Let_def)
  show "\<exists>r'. reader_take opts n r = Inr (None, r') \<and> clean opts r'" if "reader_bytes r = []"
  proof -
    have "rd_ended r1" using that ended by blast
    then show ?thesis unfolding take using clean by simp
  qed
  show "\<exists>chunk r'. reader_take opts n r = Inr (Some chunk, r') \<and> clean opts r' \<and> chunk \<noteq> [] \<and> length chunk \<le> n"
    if "reader_bytes r \<noteq> []"
  proof -
    have "\<not> rd_ended r1" "rd_current r1 \<noteq> []" using that ended current by blast+
    moreover have "clean opts (r1\<lparr>rd_current := x, rd_bytes := y\<rparr>)" for x y
      using clean \<open>\<not> rd_ended r1\<close> by (simp add: clean_def)
    ultimately show ?thesis unfolding take using assms(2) by simp
  qed
qed

section \<open>Reads as functions of the bytes\<close>

text \<open>\<open>r'\<close> is \<open>r\<close> after \<open>n\<close> bytes.\<close>

definition advanced :: "tar_options \<Rightarrow> nat \<Rightarrow> tar_reader \<Rightarrow> tar_reader \<Rightarrow> bool" where
  "advanced opts n r r' \<longleftrightarrow> clean opts r' \<and> n \<le> length (reader_bytes r) \<and> reader_bytes r' = drop n (reader_bytes r) \<and>
     rd_bytes r' = rd_bytes r + n"

lemma take_advanced:
  assumes "clean opts r" and "0 < n" and "reader_bytes r \<noteq> []"
  obtains k r' where "reader_take opts n r = Inr (Some (take k (reader_bytes r)), r')" "advanced opts k r r'"
    "0 < k" "k \<le> n" "k \<le> length (reader_bytes r)"
proof -
  obtain chunk r' where take: "reader_take opts n r = Inr (Some chunk, r')" "clean opts r'" "chunk \<noteq> []" "length chunk \<le> n"
    using take_clean(2) [OF assms] by blast
  have "reader_bytes r = chunk @ reader_bytes r'" "rd_bytes r' = rd_bytes r + length chunk"
    using reader_take_bytes [OF take(1)] by simp_all
  then show thesis using take that [of "length chunk" r'] by (simp add: advanced_def)
qed

lemma exact_loop_clean:
  "clean opts r \<Longrightarrow>
   (n \<le> length got + length (reader_bytes r) \<longrightarrow>
     length got \<le> n \<longrightarrow> (\<exists>r'. exact_loop opts eof n got r = Inr (Some (got @ take (n - length got) (reader_bytes r)), r') \<and>
       advanced opts (n - length got) r r')) \<and>
   (length got + length (reader_bytes r) < n \<longrightarrow>
     (if eof \<and> got = [] \<and> reader_bytes r = [] then \<exists>r'. exact_loop opts eof n got r = Inr (None, r') \<and> advanced opts 0 r r'
      else exact_loop opts eof n got r = unsafe_archive ''unexpected EOF inside framing or payload.''))"
proof (induction opts eof n got r rule: exact_loop.induct)
  case (1 opts eof n got r)
  show ?case
  proof (cases "n \<le> length got")
    case True
    then show ?thesis using "1.prems"
      by (auto simp: exact_loop.simps [of opts _ n _ r] advanced_def)
  next
    case False
    then have pos: "0 < n - length got" by simp
    show ?thesis
    proof (cases "reader_bytes r = []")
      case True
      then obtain r' where take: "reader_take opts (n - length got) r = Inr (None, r')" "clean opts r'"
        using take_clean(1) [OF "1.prems" pos] by blast
      then have "advanced opts 0 r r'" using reader_take_bytes [OF take(1)] True by (simp add: advanced_def)
      then show ?thesis using True False take(1) by (auto simp: exact_loop.simps [of opts _ n _ r])
    next
      case nonempty: False
      obtain k r1 where take: "reader_take opts (n - length got) r = Inr (Some (take k (reader_bytes r)), r1)"
        and adv: "advanced opts k r r1" and k: "0 < k" "k \<le> n - length got" "k \<le> length (reader_bytes r)"
        using take_advanced [OF "1.prems" pos nonempty] by blast
      let ?got = "got @ take k (reader_bytes r)"
      have step: "exact_loop opts eof n got r = exact_loop opts eof n ?got r1"
        using False take by (simp add: exact_loop.simps [of opts _ n _ r])
      have len: "length ?got = length got + k" using k by simp
      have rest: "reader_bytes r1 = drop k (reader_bytes r)" using adv by (simp add: advanced_def)
      have ih: "(n \<le> length ?got + length (reader_bytes r1) \<longrightarrow> length ?got \<le> n \<longrightarrow>
            (\<exists>r'. exact_loop opts eof n ?got r1 = Inr (Some (?got @ take (n - length ?got) (reader_bytes r1)), r') \<and>
              advanced opts (n - length ?got) r1 r')) \<and>
          (length ?got + length (reader_bytes r1) < n \<longrightarrow>
            exact_loop opts eof n ?got r1 = unsafe_archive ''unexpected EOF inside framing or payload.'')"
        using "1.IH" [OF False take refl refl] adv k nonempty by (auto simp: advanced_def)
      have joined: "?got @ take (n - length ?got) (reader_bytes r1) = got @ take (n - length got) (reader_bytes r)"
        using k by (simp add: len rest take_add [symmetric])
      have "advanced opts (n - length ?got) r1 r' \<Longrightarrow> advanced opts (n - length got) r r'" for r'
        using adv k by (auto simp: advanced_def len)
      note longer = this
      show ?thesis
      proof (cases "n \<le> length got + length (reader_bytes r)")
        case True
        then obtain r' where "exact_loop opts eof n ?got r1 = Inr (Some (?got @ take (n - length ?got) (reader_bytes r1)), r')"
          "advanced opts (n - length ?got) r1 r'"
          using ih k by (auto simp: len rest)
        then show ?thesis using True longer unfolding step joined by auto
      next
        case False
        then show ?thesis using ih k unfolding step by (auto simp: len rest nonempty)
      qed
    qed
  qed
qed

lemma exact_clean:
  assumes "clean opts r"
  shows "n \<le> length (reader_bytes r) \<Longrightarrow>
      \<exists>r'. reader_exact opts n eof r = Inr (Some (take n (reader_bytes r)), r') \<and> advanced opts n r r'"
    and "length (reader_bytes r) < n \<Longrightarrow> eof \<and> reader_bytes r = [] \<Longrightarrow>
      \<exists>r'. reader_exact opts n eof r = Inr (None, r') \<and> advanced opts 0 r r'"
    and "length (reader_bytes r) < n \<Longrightarrow> \<not> (eof \<and> reader_bytes r = []) \<Longrightarrow>
      reader_exact opts n eof r = unsafe_archive ''unexpected EOF inside framing or payload.''"
  using exact_loop_clean [OF assms, of n "[]" eof] by (auto simp: reader_exact_def)

lemma required_clean:
  assumes "clean opts r"
  shows "n \<le> length (reader_bytes r) \<Longrightarrow>
      \<exists>r'. reader_required opts n r = Inr (take n (reader_bytes r), r') \<and> advanced opts n r r'"
    and "length (reader_bytes r) < n \<Longrightarrow>
      reader_required opts n r = unsafe_archive ''unexpected EOF inside framing or payload.''"
  using exact_clean(1,3) [OF assms, of n False] by (auto simp: reader_required_def unsafe_archive_def)

lemma zeroes_clean:
  "clean opts r \<Longrightarrow>
   (list_all (\<lambda>b. b = 0) (take n (reader_bytes r)) \<longrightarrow>
     (if n \<le> length (reader_bytes r) then \<exists>r'. reader_zeroes opts n r = Inr r' \<and> advanced opts n r r'
      else reader_zeroes opts n r = unsafe_archive ''unexpected EOF inside padding.'')) \<and>
   (\<not> list_all (\<lambda>b. b = 0) (take n (reader_bytes r)) \<longrightarrow>
     reader_zeroes opts n r = unsafe_archive ''nonzero padding or trailer.'')"
proof (induction opts n r rule: reader_zeroes.induct)
  case (1 opts n r)
  show ?case
  proof (cases "n = 0")
    case True
    then show ?thesis using "1.prems" by (simp add: reader_zeroes.simps [of opts 0] advanced_def)
  next
    case False
    then have pos: "0 < n" by simp
    show ?thesis
    proof (cases "reader_bytes r = []")
      case True
      then obtain r' where "reader_take opts n r = Inr (None, r')"
        using take_clean(1) [OF "1.prems" pos] by blast
      then show ?thesis using True False by (simp add: reader_zeroes.simps [of opts n r])
    next
      case nonempty: False
      obtain k r1 where take: "reader_take opts n r = Inr (Some (take k (reader_bytes r)), r1)"
        and adv: "advanced opts k r r1" and k: "0 < k" "k \<le> n" "k \<le> length (reader_bytes r)"
        using take_advanced [OF "1.prems" pos nonempty] by blast
      have rest: "reader_bytes r1 = drop k (reader_bytes r)" and clean: "clean opts r1"
        using adv by (simp_all add: advanced_def)
      have n: "take n (reader_bytes r) = take k (reader_bytes r) @ take (n - k) (drop k (reader_bytes r))"
        using k by (simp add: take_add [symmetric])
      have step: "reader_zeroes opts n r = (if list_ex (\<lambda>b. b \<noteq> 0) (take k (reader_bytes r))
          then unsafe_archive ''nonzero padding or trailer.'' else reader_zeroes opts (n - k) r1)"
        using False take k by (simp add: reader_zeroes.simps [of opts n r])
      show ?thesis
      proof (cases "list_ex (\<lambda>b. b \<noteq> 0) (take k (reader_bytes r))")
        case True
        then show ?thesis unfolding step n by (auto simp: list_ex_iff list_all_iff)
      next
        case zero: False
        have "advanced opts (n - k) r1 r' \<Longrightarrow> advanced opts n r r'" for r'
          using adv k by (auto simp: advanced_def)
        then show ?thesis
          using "1.IH" [OF False take refl refl zero] clean zero k unfolding step n
          by (auto simp: rest list_ex_iff list_all_iff split: if_splits)
      qed
    qed
  qed
qed

lemma entry_pulls_clean:
  "clean opts r \<Longrightarrow> 0 < to_chunk_bytes opts \<Longrightarrow>
   (n \<le> length (reader_bytes r) \<longrightarrow> n \<le> k \<longrightarrow>
     (\<exists>chunks r'. entry_pulls opts k n body r = Inr (0, body @ chunks, r') \<and>
       concat chunks = take n (reader_bytes r) \<and> advanced opts n r r')) \<and>
   (length (reader_bytes r) < n \<longrightarrow> length (reader_bytes r) < k \<longrightarrow>
     entry_pulls opts k n body r = unsafe_archive ''unexpected EOF inside payload.'')"
proof (induction opts k n body r rule: entry_pulls.induct)
  case (1 opts n body r)
  then show ?case by (auto simp: advanced_def)
next
  case (2 opts k n body r)
  show ?case
  proof (cases "n = 0")
    case True
    then show ?thesis using "2.IH"(1) [OF True "2.prems"] by simp
  next
    case False
    then have pos: "0 < min n (to_chunk_bytes opts)" using "2.prems" by simp
    show ?thesis
    proof (cases "reader_bytes r = []")
      case True
      then obtain r' where "reader_take opts (min n (to_chunk_bytes opts)) r = Inr (None, r')"
        using take_clean(1) [OF "2.prems"(1) pos] by blast
      then show ?thesis using True False by simp
    next
      case nonempty: False
      obtain j r1 where take: "reader_take opts (min n (to_chunk_bytes opts)) r = Inr (Some (take j (reader_bytes r)), r1)"
        and adv: "advanced opts j r r1" and j: "0 < j" "j \<le> min n (to_chunk_bytes opts)" "j \<le> length (reader_bytes r)"
        using take_advanced [OF "2.prems"(1) pos nonempty] by blast
      let ?body = "body @ [take j (reader_bytes r)]"
      have rest: "reader_bytes r1 = drop j (reader_bytes r)" and clean: "clean opts r1"
        using adv by (simp_all add: advanced_def)
      have step: "entry_pulls opts (Suc k) n body r = entry_pulls opts k (n - j) ?body r1"
        using False take j by simp
      have "advanced opts (n - j) r1 r' \<Longrightarrow> advanced opts n r r'" for r'
        using adv j by (auto simp: advanced_def)
      moreover have "take n (reader_bytes r) = take j (reader_bytes r) @ take (n - j) (drop j (reader_bytes r))"
        using j by (simp add: take_add [symmetric])
      ultimately show ?thesis
        using "2.IH"(2) [OF False take refl refl clean "2.prems"(2)] j unfolding step
        by (force simp: rest)
    qed
  qed
qed

end
