(* ===== verification/Tar_Chunks.thy ===== *)
theory Tar_Chunks
  imports Tar_Reading
begin

text \<open>
  How a source is cut into chunks does not matter: two clean readers of the same bytes take related
  steps, so an archive read from them has the same outcome, entry by entry.
\<close>

section \<open>Related outcomes\<close>

lemma and_then_rel:
  assumes "rel_sum (=) A m m'" and "\<And>x y. A x y \<Longrightarrow> rel_sum (=) B (k x) (k' y)"
  shows "rel_sum (=) B (and_then m k) (and_then m' k')"
  using assms by (cases m; cases m') auto

definition same_reader :: "tar_options \<Rightarrow> tar_reader \<Rightarrow> tar_reader \<Rightarrow> bool" where
  "same_reader opts r r' \<longleftrightarrow> clean opts r \<and> clean opts r' \<and> reader_bytes r = reader_bytes r' \<and> rd_bytes r = rd_bytes r'"

text \<open>Entries that differ at most in the chunks of their body.\<close>

definition joined_body :: "tar_output \<Rightarrow> tar_output" where
  "joined_body out = out\<lparr>out_body := [concat (out_body out)]\<rparr>"

definition same_output :: "tar_output \<Rightarrow> tar_output \<Rightarrow> bool" where
  "same_output o1 o2 \<longleftrightarrow> joined_body o1 = joined_body o2"

lemma same_advanced:
  "same_reader opts r1 r2 \<Longrightarrow> advanced opts n r1 r1' \<Longrightarrow> advanced opts n r2 r2' \<Longrightarrow> same_reader opts r1' r2'"
  by (simp add: same_reader_def advanced_def)

lemma rel_InrI: "A x y \<Longrightarrow> rel_sum (=) A (Inr x) (Inr y)"
  by simp

lemma exact_same:
  assumes "same_reader opts r1 r2"
  shows "rel_sum (=) (rel_prod (=) (same_reader opts)) (reader_exact opts n eof r1) (reader_exact opts n eof r2)"
proof -
  have clean: "clean opts r1" "clean opts r2" and bytes: "reader_bytes r2 = reader_bytes r1"
    using assms by (simp_all add: same_reader_def)
  note spec = exact_clean [OF clean(1), of n eof] exact_clean [OF clean(2), of n eof, unfolded bytes]
  consider "n \<le> length (reader_bytes r1)"
    | "length (reader_bytes r1) < n \<and> eof \<and> reader_bytes r1 = []"
    | "length (reader_bytes r1) < n \<and> \<not> (eof \<and> reader_bytes r1 = [])"
    by linarith
  then show ?thesis
  proof cases
    case 1
    then show ?thesis using spec(1,4) same_advanced [OF assms] by fastforce
  next
    case 2
    then show ?thesis using spec(2,5) same_advanced [OF assms] by fastforce
  next
    case 3
    then show ?thesis using spec(3,6) by (simp add: unsafe_archive_def)
  qed
qed

lemma required_same:
  assumes "same_reader opts r1 r2"
  shows "rel_sum (=) (rel_prod (=) (same_reader opts)) (reader_required opts n r1) (reader_required opts n r2)"
  unfolding reader_required_def
  by (rule and_then_rel [OF exact_same [OF assms]]) (auto simp: unsafe_archive_def split: option.splits)

lemma zeroes_same:
  assumes "same_reader opts r1 r2"
  shows "rel_sum (=) (same_reader opts) (reader_zeroes opts n r1) (reader_zeroes opts n r2)"
proof -
  have clean: "clean opts r1" "clean opts r2" and bytes: "reader_bytes r2 = reader_bytes r1"
    using assms by (simp_all add: same_reader_def)
  note spec = zeroes_clean [OF clean(1), of n] zeroes_clean [OF clean(2), of n, unfolded bytes]
  consider "list_all (\<lambda>b. b = 0) (take n (reader_bytes r1)) \<and> n \<le> length (reader_bytes r1)"
    | "list_all (\<lambda>b. b = 0) (take n (reader_bytes r1)) \<and> \<not> n \<le> length (reader_bytes r1)"
    | "\<not> list_all (\<lambda>b. b = 0) (take n (reader_bytes r1))"
    by blast
  then show ?thesis
  proof cases
    case 1
    then obtain q1 q2 where "reader_zeroes opts n r1 = Inr q1" "reader_zeroes opts n r2 = Inr q2"
      "advanced opts n r1 q1" "advanced opts n r2 q2"
      using spec by auto
    then show ?thesis using same_advanced [OF assms] by simp
  next
    case 2
    then have "reader_zeroes opts n r1 = unsafe_archive ''unexpected EOF inside padding.''"
      "reader_zeroes opts n r2 = unsafe_archive ''unexpected EOF inside padding.''"
      using spec by meson+
    then show ?thesis by (simp add: unsafe_archive_def)
  next
    case 3
    then have "reader_zeroes opts n r1 = unsafe_archive ''nonzero padding or trailer.''"
      "reader_zeroes opts n r2 = unsafe_archive ''nonzero padding or trailer.''"
      using spec by meson+
    then show ?thesis by (simp add: unsafe_archive_def)
  qed
qed

lemma entry_pulls_same:
  assumes "same_reader opts r1 r2" and "0 < to_chunk_bytes opts" and k: "length (reader_bytes r1) < k"
  shows "rel_sum (=) (\<lambda>(m1, c1, q1) (m2, c2, q2). m1 = m2 \<and> concat c1 = concat c2 \<and> same_reader opts q1 q2)
    (entry_pulls opts k n [] r1) (entry_pulls opts k n [] r2)"
proof -
  have clean: "clean opts r1" "clean opts r2" and bytes: "reader_bytes r2 = reader_bytes r1"
    using assms(1) by (simp_all add: same_reader_def)
  note spec = entry_pulls_clean [OF clean(1) assms(2), of n k "[]"]
    entry_pulls_clean [OF clean(2) assms(2), of n k "[]", unfolded bytes]
  show ?thesis
  proof (cases "n \<le> length (reader_bytes r1)")
    case True
    obtain c1 q1 where one: "entry_pulls opts k n [] r1 = Inr (0, [] @ c1, q1)"
      "concat c1 = take n (reader_bytes r1)" "advanced opts n r1 q1"
      using spec(1) True k by (meson le_less_trans less_imp_le)
    obtain c2 q2 where two: "entry_pulls opts k n [] r2 = Inr (0, [] @ c2, q2)"
      "concat c2 = take n (reader_bytes r1)" "advanced opts n r2 q2"
      using spec(2) True k by (meson le_less_trans less_imp_le)
    show ?thesis using one two same_advanced [OF assms(1) one(3) two(3)] by simp
  next
    case False
    then have "entry_pulls opts k n [] r1 = unsafe_archive ''unexpected EOF inside payload.''"
      "entry_pulls opts k n [] r2 = unsafe_archive ''unexpected EOF inside payload.''"
      using spec k by (meson not_le)+
    then show ?thesis by (simp add: unsafe_archive_def)
  qed
qed

lemma trailer_same:
  "same_reader opts r1 r2 \<Longrightarrow> rel_sum (=) (same_reader opts) (trailer_loop opts n r1) (trailer_loop opts n r2)"
proof (induction opts n r1 arbitrary: r2 rule: trailer_loop.induct)
  case (1 opts n r1)
  have rel: "rel_sum (=) (rel_prod (=) (same_reader opts)) (reader_exact opts block_bytes True r1)
      (reader_exact opts block_bytes True r2)"
    by (rule exact_same [OF "1.prems"])
  show ?case
  proof (cases "reader_exact opts block_bytes True r1")
    case (Inl e)
    then have "reader_exact opts block_bytes True r2 = Inl e"
      using rel by (cases "reader_exact opts block_bytes True r2") auto
    then show ?thesis using Inl by (simp add: trailer_loop.simps [of opts n])
  next
    case (Inr res)
    obtain got q1 where res: "res = (got, q1)" by (cases res)
    obtain q2 where q2: "reader_exact opts block_bytes True r2 = Inr (got, q2)" "same_reader opts q1 q2"
      using rel Inr res by (cases "reader_exact opts block_bytes True r2") auto
    show ?thesis
    proof (cases got)
      case None
      then show ?thesis using Inr res q2 by (simp add: trailer_loop.simps [of opts n])
    next
      case (Some b)
      show ?thesis
        using Inr res q2 Some "1.IH" [OF Inr res [symmetric] Some, of q2] unfolding trailer_loop.simps [of opts n]
        by (auto simp: unsafe_archive_def)
    qed
  qed
qed

section \<open>Related steps\<close>

definition same_state :: "tar_options \<Rightarrow> read_state \<Rightarrow> read_state \<Rightarrow> bool" where
  "same_state opts s1 s2 \<longleftrightarrow> same_reader opts (rs_reader s1) (rs_reader s2) \<and>
     rs_pax s1 = rs_pax s2 \<and> rs_files s1 = rs_files s2 \<and> rs_directories s1 = rs_directories s2 \<and>
     rs_symlinks s1 = rs_symlinks s2 \<and> rs_payload s1 = rs_payload s2 \<and>
     list_all2 same_output (rs_log s1) (rs_log s2)"

text \<open>A consumer that pulls until the body is done: more often than there are bytes.\<close>

definition drains :: "nat \<Rightarrow> (code_text \<Rightarrow> tar_consumer) \<Rightarrow> bool" where
  "drains n consume \<longleftrightarrow> (\<forall>path. n \<le> cs_pulls (consume path))"

lemma finish_same:
  assumes "same_state opts s1 s2" and "same_reader opts r1 r2"
  shows "rel_sum (=) (rel_prod (=) (list_all2 same_output)) (finish_archive opts s1 r1) (finish_archive opts s2 r2)"
proof (cases "rs_pax s1 = None")
  case True
  have "rel_sum (=) (rel_prod (=) (list_all2 same_output))
      (and_then (reader_zeroes opts block_bytes r1) (\<lambda>r1. and_then (trailer_loop opts (block_bytes * 2) r1) (\<lambda>r2.
        Inr (\<lparr>ts_files = rs_files s1, ts_directories = rs_directories s1, ts_symlinks = rs_symlinks s1,
          ts_payload_bytes = rs_payload s1, ts_archive_bytes = rd_bytes r2\<rparr>, rs_log s1))))
      (and_then (reader_zeroes opts block_bytes r2) (\<lambda>r1. and_then (trailer_loop opts (block_bytes * 2) r1) (\<lambda>r2.
        Inr (\<lparr>ts_files = rs_files s2, ts_directories = rs_directories s2, ts_symlinks = rs_symlinks s2,
          ts_payload_bytes = rs_payload s2, ts_archive_bytes = rd_bytes r2\<rparr>, rs_log s2))))"
    by (rule and_then_rel [OF zeroes_same [OF assms(2)]], rule and_then_rel [OF trailer_same], assumption)
      (use assms(1) in \<open>simp add: same_state_def same_reader_def\<close>)
  then show ?thesis using True assms(1) by (simp add: finish_archive_def same_state_def)
next
  case False
  then show ?thesis using assms(1) by (simp add: finish_archive_def same_state_def unsafe_archive_def)
qed

lemma pax_same:
  assumes "same_state opts s1 s2" and "same_reader opts r1 r2"
  shows "rel_sum (=) (same_state opts) (read_pax_entry opts s1 header r1) (read_pax_entry opts s2 header r2)"
proof (cases "rs_pax s1 \<noteq> None \<or> th_size header = 0 \<or> int max_pax_bytes < th_size header")
  case True
  then show ?thesis using assms(1) by (auto simp: read_pax_entry_def same_state_def unsafe_archive_def)
next
  case False
  have "rel_sum (=) (same_state opts)
      (and_then (reader_required opts (nat (th_size header)) r1) (\<lambda>(bs, q1). and_then (parse_pax bs) (\<lambda>pax.
        and_then (reader_zeroes opts (padding (nat (th_size header))) q1) (\<lambda>q2. Inr (s1\<lparr>rs_reader := q2, rs_pax := Some pax\<rparr>)))))
      (and_then (reader_required opts (nat (th_size header)) r2) (\<lambda>(bs, q1). and_then (parse_pax bs) (\<lambda>pax.
        and_then (reader_zeroes opts (padding (nat (th_size header))) q1) (\<lambda>q2. Inr (s2\<lparr>rs_reader := q2, rs_pax := Some pax\<rparr>)))))"
  proof (rule and_then_rel [OF required_same [OF assms(2)]])
    fix x y :: "bytes \<times> tar_reader"
    assume "rel_prod (=) (same_reader opts) x y"
    then obtain bs :: bytes and q1 q2 where xy: "x = (bs, q1)" "y = (bs, q2)" and q: "same_reader opts q1 q2"
      by (cases x; cases y) auto
    have "rel_sum (=) (=) (parse_pax bs) (parse_pax bs)" by (simp add: sum.rel_eq)
    then have "rel_sum (=) (same_state opts)
      (and_then (parse_pax bs) (\<lambda>pax. and_then (reader_zeroes opts (padding (nat (th_size header))) q1) (\<lambda>q2. Inr (s1\<lparr>rs_reader := q2, rs_pax := Some pax\<rparr>))))
      (and_then (parse_pax bs) (\<lambda>pax. and_then (reader_zeroes opts (padding (nat (th_size header))) q2) (\<lambda>q2. Inr (s2\<lparr>rs_reader := q2, rs_pax := Some pax\<rparr>))))"
      by (rule and_then_rel, intro and_then_rel [OF zeroes_same [OF q]])
        (use assms(1) in \<open>simp add: same_state_def\<close>)
    then show "rel_sum (=) (same_state opts)
      (case x of (bs, q1) \<Rightarrow> and_then (parse_pax bs) (\<lambda>pax.
        and_then (reader_zeroes opts (padding (nat (th_size header))) q1) (\<lambda>q2. Inr (s1\<lparr>rs_reader := q2, rs_pax := Some pax\<rparr>))))
      (case y of (bs, q1) \<Rightarrow> and_then (parse_pax bs) (\<lambda>pax.
        and_then (reader_zeroes opts (padding (nat (th_size header))) q1) (\<lambda>q2. Inr (s2\<lparr>rs_reader := q2, rs_pax := Some pax\<rparr>))))"
      unfolding xy prod.case .
  qed
  then show ?thesis unfolding read_pax_entry_def using False assms(1) by (simp add: same_state_def)
qed

lemma consume_same:
  assumes "same_reader opts r1 r2" and "0 < to_chunk_bytes opts" and "length (reader_bytes r1) < cs_pulls consumer"
  shows "rel_sum (=) (rel_prod same_output (same_reader opts)) (consume_tar_entry opts header path consumer r1)
    (consume_tar_entry opts header path consumer r2)"
  unfolding consume_tar_entry_def
  by (rule and_then_rel [OF entry_pulls_same [OF assms]])
    (auto simp: unsafe_archive_def same_output_def joined_body_def split: option.splits)

lemma deliver_same:
  assumes "same_reader opts r1 r2" and "0 < to_chunk_bytes opts" and "length (reader_bytes r1) < cs_pulls (consume path)"
  shows "rel_sum (=) (rel_prod same_output (same_reader opts)) (deliver_entry opts consume header path target r1)
    (deliver_entry opts consume header path target r2)"
  using consume_same [OF assms] assms(1)
  by (cases "symlink_target target")
    (auto simp: deliver_entry_def unsafe_archive_def same_output_def joined_body_def split: option.splits)

lemma entry_same:
  assumes "same_state opts s1 s2" and "same_reader opts r1 r2" and "0 < to_chunk_bytes opts"
    and "drains (length (reader_bytes r1) + 1) consume"
  shows "rel_sum (=) (same_state opts) (read_entry opts consume s1 header r1) (read_entry opts consume s2 header r2)"
proof -
  have pax: "rs_pax s2 = rs_pax s1" using assms(1) by (simp add: same_state_def)
  have pulls: "length (reader_bytes r1) < cs_pulls (consume path)" for path
    using assms(4) by (auto simp: drains_def Suc_le_eq)
  let ?pax = "case rs_pax s1 of None \<Rightarrow> no_pax | Some p \<Rightarrow> p"
  let ?name = "case px_path ?pax of None \<Rightarrow> th_path header | Some p \<Rightarrow> p"
  show ?thesis
  proof (cases "archive_name ?name (th_kind header = Directory_Entry)")
    case (Inl e)
    then show ?thesis by (simp add: read_entry_def pax Let_def)
  next
    case (Inr path)
    show ?thesis
    proof (cases "th_kind header \<noteq> Symlink_Entry \<and> px_linkpath ?pax \<noteq> None")
      case True
      then show ?thesis using Inr by (simp add: read_entry_def pax Let_def unsafe_archive_def)
    next
      case False
      let ?done = "\<lambda>s out r. s\<lparr>rs_reader := r, rs_pax := None,
              rs_symlinks := rs_symlinks s + (if th_kind header = Symlink_Entry then 1 else 0),
              rs_payload := rs_payload s + th_size header,
              rs_files := rs_files s + (if th_kind header = File_Entry then 1 else 0),
              rs_directories := rs_directories s + (if th_kind header = Directory_Entry then 1 else 0),
              rs_log := rs_log s @ [out]\<rparr>"
      let ?finish = "\<lambda>s (out, r). and_then (reader_zeroes opts (padding (nat (th_size header))) r) (\<lambda>r2. Inr (?done s out r2))"
      let ?target = "case px_linkpath ?pax of None \<Rightarrow> th_target header | Some t \<Rightarrow> t"
      have log: "same_output o1 o2 \<Longrightarrow> same_reader opts q1 q2 \<Longrightarrow> same_state opts (?done s1 o1 q1) (?done s2 o2 q2)" for o1 o2 q1 q2
        using assms(1) by (auto simp: same_state_def intro: list_all2_appendI)
      have "rel_sum (=) (same_state opts) (and_then (deliver_entry opts consume header path ?target r1) (?finish s1))
          (and_then (deliver_entry opts consume header path ?target r2) (?finish s2))"
      proof (rule and_then_rel [OF deliver_same [OF assms(2,3) pulls]])
        fix x y
        assume "rel_prod same_output (same_reader opts) x y"
        then obtain o1 q1 o2 q2 where "x = (o1, q1)" "y = (o2, q2)" "same_output o1 o2" "same_reader opts q1 q2"
          by (cases x; cases y) auto
        then show "rel_sum (=) (same_state opts) (?finish s1 x) (?finish s2 y)"
          using log by (auto intro!: and_then_rel [OF zeroes_same])
      qed
      then show ?thesis unfolding read_entry_def pax Let_def Inr and_then_Inr if_not_P [OF False] .
    qed
  qed
qed

lemma step_same:
  assumes "same_state opts s1 s2" and "0 < to_chunk_bytes opts"
    and "drains (length (reader_bytes (rs_reader s1))) consume"
  shows "rel_sum (=) (rel_sum (same_state opts) (rel_prod (=) (list_all2 same_output)))
    (read_step opts consume s1) (read_step opts consume s2)"
proof -
  let ?rest = "\<lambda>s (block, r). (if list_all (\<lambda>b. b = 0) block then and_then (finish_archive opts s r) (\<lambda>res. Inr (Inr res))
       else and_then (parse_header block) (\<lambda>header.
         if th_kind header = Pax_Entry then and_then (read_pax_entry opts s header r) (\<lambda>st'. Inr (Inl st'))
         else and_then (read_entry opts consume s header r) (\<lambda>st'. Inr (Inl st'))))
       :: tar_error + (read_state + (tar_summary \<times> tar_output list))"
  have reader: "same_reader opts (rs_reader s1) (rs_reader s2)" using assms(1) by (simp add: same_state_def)
  have "rel_sum (=) (rel_sum (same_state opts) (rel_prod (=) (list_all2 same_output)))
      (and_then (reader_required opts block_bytes (rs_reader s1)) (?rest s1))
      (and_then (reader_required opts block_bytes (rs_reader s2)) (?rest s2))"
  proof (cases "reader_required opts block_bytes (rs_reader s1)")
    case (Inl e)
    then show ?thesis using required_same [OF reader, of block_bytes]
      by (cases "reader_required opts block_bytes (rs_reader s2)") auto
  next
    case (Inr res)
    obtain block r1 where r1: "reader_required opts block_bytes (rs_reader s1) = Inr (block, r1)"
      using Inr by (cases res) auto
    obtain r2 where r2: "reader_required opts block_bytes (rs_reader s2) = Inr (block, r2)" and r: "same_reader opts r1 r2"
      using required_same [OF reader, of block_bytes] r1
      by (cases "reader_required opts block_bytes (rs_reader s2)") auto
    have "length (reader_bytes r1) + 1 \<le> length (reader_bytes (rs_reader s1))"
      using reader_required_bytes [OF r1] by (auto simp: block_bytes_def)
    then have drains: "drains (length (reader_bytes r1) + 1) consume"
      using assms(3) by (meson drains_def order_trans)
    note pieces = finish_same [OF assms(1) r] pax_same [OF assms(1) r] entry_same [OF assms(1) r assms(2) drains]
    have "rel_sum (=) (rel_sum (same_state opts) (rel_prod (=) (list_all2 same_output)))
        (?rest s1 (block, r1)) (?rest s2 (block, r2))"
    proof (cases "list_all (\<lambda>b. b = 0) block")
      case True
      show ?thesis unfolding prod.case if_P [OF True] by (rule and_then_rel [OF pieces(1)]) simp
    next
      case False
      show ?thesis
      proof (cases "parse_header block")
        case (Inr header)
        show ?thesis
        proof (cases "th_kind header = Pax_Entry")
          case True
          show ?thesis unfolding prod.case if_not_P [OF False] Inr and_then_Inr if_P [OF True]
            by (rule and_then_rel [OF pieces(2)]) simp
        next
          case not_pax: False
          show ?thesis unfolding prod.case if_not_P [OF False] Inr and_then_Inr if_not_P [OF not_pax]
            by (rule and_then_rel [OF pieces(3)]) simp
        qed
      qed (use False in simp)
    qed
    then show ?thesis unfolding r1 r2 and_then_Inr .
  qed
  then show ?thesis by (simp add: read_step_def)
qed

lemma loop_same:
  "same_state opts s1 s2 \<Longrightarrow> 0 < to_chunk_bytes opts \<Longrightarrow> drains (length (reader_bytes (rs_reader s1))) consume \<Longrightarrow>
   rel_sum (=) (rel_prod (=) (list_all2 same_output)) (read_loop opts consume s1) (read_loop opts consume s2)"
proof (induction opts consume s1 arbitrary: s2 rule: read_loop.induct)
  case (1 opts consume s1)
  have rel: "rel_sum (=) (rel_sum (same_state opts) (rel_prod (=) (list_all2 same_output)))
    (read_step opts consume s1) (read_step opts consume s2)"
    by (rule step_same [OF "1.prems"])
  show ?case
  proof (cases "read_step opts consume s1")
    case (Inl e)
    then show ?thesis using rel by (cases "read_step opts consume s2") (auto simp: read_loop.simps [of opts consume])
  next
    case (Inr res)
    show ?thesis
    proof (cases res)
      case (Inr fin)
      then show ?thesis using rel \<open>read_step opts consume s1 = Inr res\<close>
        by (cases "read_step opts consume s2"; cases "projr (read_step opts consume s2)")
          (auto simp: read_loop.simps [of opts consume])
    next
      case (Inl t1)
      then have t1: "read_step opts consume s1 = Inr (Inl t1)" using \<open>read_step opts consume s1 = Inr res\<close> by simp
      obtain t2 where t2: "read_step opts consume s2 = Inr (Inl t2)" and t: "same_state opts t1 t2"
        using rel t1 by (cases "read_step opts consume s2"; cases "projr (read_step opts consume s2)") auto
      have "drains (length (reader_bytes (rs_reader t1))) consume"
        using read_step_bytes [OF t1] "1.prems"(3) by (meson drains_def less_imp_le order_trans)
      then show ?thesis
        using "1.IH" [OF \<open>read_step opts consume s1 = Inr res\<close> Inl t "1.prems"(2)] t1 t2
        by (simp add: read_loop.simps [of opts consume s1] read_loop.simps [of opts consume s2])
    qed
  qed
qed

definition clean_source :: "tar_options \<Rightarrow> bytes list \<Rightarrow> bool" where
  "clean_source opts chunks \<longleftrightarrow> list_all (\<lambda>c. length c \<le> to_chunk_bytes opts) chunks \<and>
     \<not> over_quota opts (length (concat chunks))"

lemma chunk_bytes [simp]: "concat (map item_bytes (map Chunk chunks)) = concat chunks"
  by (induction chunks) simp_all

lemma open_clean: "clean_source opts chunks \<Longrightarrow>
   clean opts (open_reader (map Chunk chunks)) \<and> reader_bytes (open_reader (map Chunk chunks)) = concat chunks"
  by (auto simp: clean_source_def clean_def open_reader_def reader_bytes_def clean_item_def list_all_iff
      chunk_bytes [unfolded map_map] simp del: map_map)

end
