(* ===== verification/Tar_Writer.thy ===== *)
theory Tar_Writer
  imports Tar_Reader
begin

text \<open>
  The tar writer of \<open>sandbox-docker/src/workspace/tar/encode.ts\<close>.  A generator is what it yields
  and how it ends: the chunks handed to its consumer, and the error it throws after them, if any.
  The chunk bytes of the options are positive, as the transfer options of the sandbox are.
\<close>

type_synonym written = "bytes list \<times> tar_error option"

definition yield_then :: "bytes list \<Rightarrow> written \<Rightarrow> written" where
  "yield_then chunks rest = (chunks @ fst rest, snd rest)"

definition finished :: written where
  "finished = ([], None)"

definition thrown :: "tar_error \<Rightarrow> written" where
  "thrown e = ([], Some e)"

text \<open>A call that may throw, then the rest of the generator.\<close>

definition calling :: "tar_error + 'a \<Rightarrow> ('a \<Rightarrow> written) \<Rightarrow> written" where
  "calling m k = (case m of Inl e \<Rightarrow> thrown e | Inr x \<Rightarrow> k x)"

text \<open>\<open>yield* first\<close>, then the rest unless it threw.\<close>

definition yield_all :: "written \<Rightarrow> written \<Rightarrow> written" where
  "yield_all first rest = (case snd first of Some e \<Rightarrow> first | None \<Rightarrow> yield_then (fst first) rest)"

section \<open>Entries (contracts.ts)\<close>

datatype input_kind = Input_File | Input_Directory | Input_Symlink code_text

record tar_input =
  in_path :: code_text
  in_kind :: input_kind
  in_size :: int
  in_mode :: int
  in_uid :: int
  in_gid :: int
  in_body :: "source_item list option"

fun kind_of_input :: "input_kind \<Rightarrow> entry_kind" where
  "kind_of_input Input_File = File_Entry"
| "kind_of_input Input_Directory = Directory_Entry"
| "kind_of_input (Input_Symlink t) = Symlink_Entry"

section \<open>Payloads (encode.ts)\<close>

definition zero_padding :: "nat \<Rightarrow> bytes list" where
  "zero_padding n = (if n mod block_bytes \<noteq> 0 then [replicate (block_bytes - n mod block_bytes) 0] else [])"

fun payload_loop :: "tar_options \<Rightarrow> int \<Rightarrow> nat \<Rightarrow> source_item list \<Rightarrow> written" where
  "payload_loop opts declared written [] =
     (if int written \<noteq> declared then
        thrown (Limit_Exceeded Input_Limit ''Input file body ended before its declared size.'')
      else (zero_padding written, None))"
| "payload_loop opts declared written (Throws message # items) = thrown (Source_Failed message)"
| "payload_loop opts declared written (Chunk c # items) =
     (if to_chunk_bytes opts < length c then
        thrown (Limit_Exceeded Input_Limit ''Input file chunks exceed the selected byte buffer.'')
      else if declared - int written < int (length c) then
        thrown (Limit_Exceeded Input_Limit ''Input file body exceeds its declared size.'')
      else yield_then [c] (payload_loop opts declared (written + length c) items))"

definition payload :: "tar_options \<Rightarrow> tar_input \<Rightarrow> written" where
  "payload opts e = payload_loop opts (in_size e) 0 (case in_body e of None \<Rightarrow> [] | Some items \<Rightarrow> items)"

section \<open>Archives (encode.ts)\<close>

function split_chunks :: "nat \<Rightarrow> bytes \<Rightarrow> bytes list" where
  "split_chunks n bs = (if bs = [] \<or> n = 0 then [] else take n bs # split_chunks n (drop n bs))"
  by pat_completeness auto
termination by (relation "measure (\<lambda>(n, bs). length bs)") auto

declare split_chunks.simps [simp del]

definition entry_name :: "tar_input \<Rightarrow> code_text" where
  "entry_name e = (if in_kind e = Input_Directory then in_path e @ [47] else in_path e)"

definition long_text :: "code_text \<Rightarrow> bool" where
  "long_text t \<longleftrightarrow> 100 < byte_length t"

definition entry_pax :: "tar_input \<Rightarrow> code_text option \<Rightarrow> pax_metadata" where
  "entry_pax e target = \<lparr>px_path = (if long_text (entry_name e) then Some (entry_name e) else None),
     px_linkpath = (case target of None \<Rightarrow> None | Some t \<Rightarrow> if long_text t then Some t else None)\<rparr>"

definition pax_member :: "tar_input \<Rightarrow> nat \<Rightarrow> tar_member" where
  "pax_member e n = \<lparr>tm_path = ascii ''PaxHeader'', tm_kind = Pax_Entry, tm_size = int n, tm_mode = in_mode e,
     tm_uid = in_uid e, tm_gid = in_gid e, tm_target = None\<rparr>"

definition short_name :: "tar_input \<Rightarrow> code_text" where
  "short_name e = (if long_text (entry_name e)
     then (if in_kind e = Input_Directory then ascii ''entry/'' else ascii ''entry'') else entry_name e)"

definition short_target :: "code_text option \<Rightarrow> code_text option" where
  "short_target target = map_option (\<lambda>t. if long_text t then [] else t) target"

definition entry_member :: "tar_input \<Rightarrow> code_text option \<Rightarrow> tar_member" where
  "entry_member e target = \<lparr>tm_path = short_name e, tm_kind = kind_of_input (in_kind e), tm_size = in_size e,
     tm_mode = in_mode e, tm_uid = in_uid e, tm_gid = in_gid e, tm_target = short_target target\<rparr>"

text \<open>The PAX entry before an entry whose name or target does not fit its header.\<close>

definition pax_blocks :: "tar_options \<Rightarrow> tar_input \<Rightarrow> code_text option \<Rightarrow> written" where
  "pax_blocks opts e target =
     (let pax = entry_pax e target; bs = encode_pax pax
      in if pax = no_pax then finished
         else if max_pax_bytes < length bs then
           thrown (Unsupported ''Docker path metadata exceeds the selected bounded PAX representation.'')
         else calling (make_header (pax_member e (length bs))) (\<lambda>header.
           (header # split_chunks (to_chunk_bytes opts) bs @ zero_padding (length bs), None)))"

definition entry_blocks :: "tar_options \<Rightarrow> tar_input \<Rightarrow> written" where
  "entry_blocks opts e =
     calling (archive_name (in_path e) (in_kind e = Input_Directory)) (\<lambda>_.
       if \<not> safe_integer (in_size e) \<or> in_size e < 0 \<or> max_octal_size < in_size e then
         thrown (Unsupported ''Docker tar entries require exact unsigned-octal sizes.'')
       else if in_kind e \<noteq> Input_File \<and> (in_size e \<noteq> 0 \<or> in_body e \<noteq> None) then
         thrown (Unsupported ''Directory and symbolic-link tar entries cannot carry payload.'')
       else if kind_of_input (in_kind e) = Symlink_Entry \<and> \<not> to_preserve_symlinks opts then
         thrown (Unsupported ''Symbolic links require explicit preservation.'')
       else calling (case in_kind e of Input_Symlink t \<Rightarrow> map_sum id Some (symlink_target t) | _ \<Rightarrow> Inr None) (\<lambda>target.
         yield_all (pax_blocks opts e target)
           (calling (make_header (entry_member e target)) (\<lambda>header.
             yield_then [header] (if in_kind e = Input_File then payload opts e else finished)))))"

fun blocks :: "tar_options \<Rightarrow> tar_input list \<Rightarrow> written" where
  "blocks opts [] = ([replicate block_bytes 0, replicate block_bytes 0], None)"
| "blocks opts (e # entries) = yield_all (entry_blocks opts e) (blocks opts entries)"

text \<open>The wire quota: a chunk that would exceed it is not handed out.\<close>

fun within_quota :: "tar_options \<Rightarrow> nat \<Rightarrow> bytes list \<Rightarrow> tar_error option \<Rightarrow> written" where
  "within_quota opts sent [] ending = ([], ending)"
| "within_quota opts sent (c # chunks) ending =
     (if over_quota opts (sent + length c) then thrown (quota_error opts)
      else yield_then [c] (within_quota opts (sent + length c) chunks ending))"

definition write_tar :: "tar_options \<Rightarrow> tar_input list \<Rightarrow> written" where
  "write_tar opts entries = (let (chunks, ending) = blocks opts entries in within_quota opts 0 chunks ending)"

section \<open>Generators that finish\<close>

lemma yield_then_eq [simp]: "yield_then cs w = (ds, end) \<longleftrightarrow> ds = cs @ fst w \<and> snd w = end"
  by (auto simp: yield_then_def)

lemma calling_None: "calling m k = (ds, None) \<longleftrightarrow> (\<exists>x. m = Inr x \<and> k x = (ds, None))"
  by (cases m) (auto simp: calling_def thrown_def)

lemma yield_all_None:
  "yield_all w1 w2 = (ds, None) \<longleftrightarrow> (\<exists>d1 d2. w1 = (d1, None) \<and> w2 = (d2, None) \<and> ds = d1 @ d2)"
  by (cases w1; cases w2) (auto simp: yield_all_def split: option.splits)

lemma within_quota_None: "snd (within_quota opts sent chunks ending) = None \<Longrightarrow>
   within_quota opts sent chunks ending = (chunks, None) \<and> ending = None"
proof (induction opts sent chunks ending rule: within_quota.induct)
  case (2 opts sent c chunks ending)
  then show ?case
    by (cases "within_quota opts (sent + length c) chunks ending")
      (auto simp: thrown_def yield_then_def split: if_splits)
qed simp

end
