(* ===== verification/Tar_Archive.thy ===== *)
theory Tar_Archive
  imports Tar_Chunks Tar_Writer
begin

text \<open>
  The archive as a whole: what \<open>writeTar\<close> writes, \<open>readTar\<close> reads back; how the bytes are cut into
  chunks does not matter; and whatever bytes are accepted, every delivered entry has a bounded
  relative name, a complete body and a link only where links are preserved.
\<close>

section \<open>Readers at known bytes\<close>

definition at_bytes :: "tar_options \<Rightarrow> nat \<Rightarrow> bytes \<Rightarrow> tar_reader \<Rightarrow> bool" where
  "at_bytes opts n bs r \<longleftrightarrow> clean opts r \<and> reader_bytes r = bs \<and> rd_bytes r = n"

lemma at_advanced: "at_bytes opts n (a @ b) r \<Longrightarrow> advanced opts (length a) r r' \<Longrightarrow> at_bytes opts (n + length a) b r'"
  by (simp add: at_bytes_def advanced_def)

lemma at_required:
  assumes "at_bytes opts n (a @ b) r" and "length a = k"
  obtains r' where "reader_required opts k r = Inr (a, r')" "at_bytes opts (n + k) b r'"
  using required_clean(1) [of opts r k] at_advanced [OF assms(1)] assms by (auto simp: at_bytes_def)

lemma at_zeroes:
  assumes "at_bytes opts n (replicate k 0 @ b) r"
  obtains r' where "reader_zeroes opts k r = Inr r'" "at_bytes opts (n + k) b r'"
  using zeroes_clean [of opts r k] at_advanced [OF assms] assms by (auto simp: at_bytes_def list_all_iff)

lemma at_pulls:
  assumes "at_bytes opts n (a @ b) r" and "length a = k" and "k \<le> pulls" and "0 < to_chunk_bytes opts"
  obtains chunks r' where "entry_pulls opts pulls k [] r = Inr (0, chunks, r')" "concat chunks = a" "at_bytes opts (n + k) b r'"
  using entry_pulls_clean [of opts r k pulls "[]"] at_advanced [OF assms(1)] assms by (auto simp: at_bytes_def)

section \<open>One entry\<close>

definition content :: "tar_input \<Rightarrow> bytes" where
  "content e = concat (map item_bytes (case in_body e of None \<Rightarrow> [] | Some items \<Rightarrow> items))"

definition input_target :: "tar_input \<Rightarrow> code_text option" where
  "input_target e = (case in_kind e of Input_Symlink t \<Rightarrow> Some t | _ \<Rightarrow> None)"

definition delivers :: "tar_input \<Rightarrow> tar_output \<Rightarrow> bool" where
  "delivers e out \<longleftrightarrow> out_path out = in_path e \<and> out_kind out = kind_of_input (in_kind e) \<and>
     out_size out = in_size e \<and> out_mode out = in_mode e \<and> out_target out = input_target e \<and>
     concat (out_body out) = content e"

text \<open>Names are well-formed text; a directory is named without its trailing slash.\<close>

definition proper_input :: "tar_input \<Rightarrow> bool" where
  "proper_input e \<longleftrightarrow> list_all scalar (in_path e) \<and>
     (in_kind e = Input_Directory \<longrightarrow> in_path e = [] \<or> last (in_path e) \<noteq> 47)"

lemma concat_zero_padding: "concat (zero_padding n) = replicate (padding n) 0"
  by (simp add: zero_padding_def padding_def block_bytes_def)

lemma concat_split_chunks: "0 < n \<Longrightarrow> concat (split_chunks n bs) = bs"
  by (induction n bs rule: split_chunks.induct) (subst split_chunks.simps, simp)

lemma payload_loop_None:
  "payload_loop opts d written items = (ds, None) \<Longrightarrow>
   d = int (written + length (concat (map item_bytes items))) \<and>
   concat ds = concat (map item_bytes items) @ replicate (padding (nat d)) 0"
proof (induction opts d written items arbitrary: ds rule: payload_loop.induct)
  case (1 opts d written)
  then show ?case by (auto simp: thrown_def concat_zero_padding split: if_splits)
next
  case (3 opts d written c items)
  have fits: "\<not> to_chunk_bytes opts < length c" "\<not> d - int written < int (length c)"
    using 3(2) by (auto simp: thrown_def split: if_splits)
  then obtain ds' where "payload_loop opts d (written + length c) items = (ds', None)" "ds = c # ds'"
    using 3(2) by (cases "payload_loop opts d (written + length c) items") (auto simp: yield_then_def)
  then show ?case using 3(1) [OF fits] by (simp add: add.assoc)
qed (simp add: thrown_def)

lemma archive_name_no_zero: "archive_name_ok t \<Longrightarrow> 0 \<notin> set t"
  by (auto simp: archive_name_ok_def list_ex_iff forbidden_char_def)

lemma symlink_target_text: "symlink_target t = Inr u \<Longrightarrow> u = t \<and> 0 \<notin> set t \<and> list_all scalar t"
  by (auto simp: symlink_target_def symlink_target_schema_def utf8_within_def well_formed_def list_ex_iff
      forbidden_char_def unsafe_archive_def split: if_splits)

lemma entry_blocks_None:
  assumes "entry_blocks opts e = (ds, None)" and "proper_input e"
  obtains d1 h body where
    "archive_name_ok (in_path e)" "0 \<le> in_size e"
    "in_kind e \<noteq> Input_File \<longrightarrow> in_size e = 0 \<and> in_body e = None"
    "input_target e \<noteq> None \<longrightarrow> to_preserve_symlinks opts \<and> symlink_target (the (input_target e)) = Inr (the (input_target e))"
    "pax_blocks opts e (input_target e) = (d1, None)"
    "make_header (entry_member e (input_target e)) = Inr h"
    "int (length (content e)) = in_size e"
    "ds = d1 @ h # body" "concat body = content e @ replicate (padding (nat (in_size e))) 0"
proof -
  have canonical: "canonical_name (in_path e) (in_kind e = Input_Directory) = in_path e"
    using assms(2) by (auto simp: canonical_name_def proper_input_def)
  then have name: "archive_name_ok (in_path e)"
    using assms(1) by (auto simp: entry_blocks_def calling_None archive_name_def unsafe_archive_def split: if_splits)
  have target: "(case in_kind e of Input_Symlink t \<Rightarrow> map_sum id Some (symlink_target t) | _ \<Rightarrow> Inr None) = (Inr tgt :: tar_error + _)
      \<Longrightarrow> tgt = input_target e \<and> (tgt \<noteq> None \<longrightarrow> symlink_target (the tgt) = Inr (the tgt))" for tgt
  proof (cases "in_kind e")
    case (Input_Symlink t)
    assume "(case in_kind e of Input_Symlink t \<Rightarrow> map_sum id Some (symlink_target t) | _ \<Rightarrow> Inr None) = (Inr tgt :: tar_error + _)"
    then show ?thesis
      using Input_Symlink symlink_target_text [of t] by (cases "symlink_target t") (auto simp: input_target_def)
  qed (auto simp: input_target_def)
  obtain d1 h body where parts: "pax_blocks opts e (input_target e) = (d1, None)"
      "make_header (entry_member e (input_target e)) = Inr h" "ds = d1 @ h # body"
      "(if in_kind e = Input_File then payload opts e else finished) = (body, None)"
    and size: "0 \<le> in_size e" "in_kind e \<noteq> Input_File \<longrightarrow> in_size e = 0 \<and> in_body e = None"
    and link: "input_target e \<noteq> None \<longrightarrow> to_preserve_symlinks opts \<and> symlink_target (the (input_target e)) = Inr (the (input_target e))"
  proof -
    obtain tgt where tgt: "(case in_kind e of Input_Symlink t \<Rightarrow> map_sum id Some (symlink_target t) | _ \<Rightarrow> Inr None) = (Inr tgt :: tar_error + _)"
      and rest: "yield_all (pax_blocks opts e tgt) (calling (make_header (entry_member e tgt)) (\<lambda>header.
             yield_then [header] (if in_kind e = Input_File then payload opts e else finished))) = (ds, None)"
      and size: "0 \<le> in_size e" "in_kind e \<noteq> Input_File \<longrightarrow> in_size e = 0 \<and> in_body e = None"
      and preserve: "kind_of_input (in_kind e) = Symlink_Entry \<longrightarrow> to_preserve_symlinks opts"
      using assms(1) unfolding entry_blocks_def
      by (auto simp: calling_None thrown_def simp del: yield_then_eq split: if_splits)
    have tgt': "tgt = input_target e" "tgt \<noteq> None \<longrightarrow> symlink_target (the tgt) = Inr (the tgt)"
      using target [OF tgt] by blast+
    have "input_target e \<noteq> None \<longrightarrow> kind_of_input (in_kind e) = Symlink_Entry"
      by (cases "in_kind e") (simp_all add: input_target_def)
    then show thesis
      using that rest size preserve tgt'
      by (cases "if in_kind e = Input_File then payload opts e else finished")
        (auto simp: yield_all_None calling_None)
  qed
  have "int (length (content e)) = in_size e \<and> concat body = content e @ replicate (padding (nat (in_size e))) 0"
  proof (cases "in_kind e = Input_File")
    case True
    then show ?thesis
      using payload_loop_None [of opts "in_size e" 0 _ body] parts(4) by (simp add: payload_def content_def)
  next
    case False
    then show ?thesis using parts(4) size by (simp add: finished_def content_def padding_def block_bytes_def)
  qed
  then show thesis using that [OF name size link parts(1,2) _ parts(3)] by blast
qed

section \<open>Reading one entry back\<close>

lemma blocks_512: "block_bytes = 512"
  by (simp add: block_bytes_def)

lemma make_header_length: "make_header m = Inr h \<Longrightarrow> length h = block_bytes"
  using header_fields(1) by (simp add: block_bytes_def)

lemma header_step:
  assumes "make_header m = Inr h" and "at_bytes opts n (h @ bs) (rs_reader st)"
    and "parse_header h = Inr header"
  obtains r where "at_bytes opts (n + block_bytes) bs r"
    "read_step opts consume st = (if th_kind header = Pax_Entry
       then and_then (read_pax_entry opts st header r) (\<lambda>st'. Inr (Inl st'))
       else and_then (read_entry opts consume st header r) (\<lambda>st'. Inr (Inl st')))"
proof -
  obtain r where r: "reader_required opts block_bytes (rs_reader st) = Inr (h, r)" "at_bytes opts (n + block_bytes) bs r"
    using at_required [OF assms(2) make_header_length [OF assms(1)]] by blast
  have "\<not> list_all (\<lambda>b. b = 0) h" using header_not_zero [OF assms(1)] by (auto simp: list_ex_iff list_all_iff)
  then show thesis using that [OF r(2)] r(1) assms(3) by (simp add: read_step_def)
qed

lemma ascii_text: "list_all (\<lambda>c. c < 128) (ascii s) \<Longrightarrow> list_all scalar (ascii s)"
  by (auto simp: list_all_iff scalar_def)

lemma pax_step:
  assumes "pax_blocks opts e target = (d1, None)" and "entry_pax e target \<noteq> no_pax"
    and texts: "list_all scalar (entry_name e)" "\<And>t. target = Some t \<Longrightarrow> list_all scalar t"
    and at: "at_bytes opts' n (concat d1 @ bs) (rs_reader st)" and fresh: "rs_pax st = None"
    and chunk: "0 < to_chunk_bytes opts"
  obtains r where "read_step opts' consume st = Inr (Inl (st\<lparr>rs_reader := r, rs_pax := Some (entry_pax e target)\<rparr>))"
    "at_bytes opts' (n + length (concat d1)) bs r"
proof -
  let ?pax = "entry_pax e target"
  let ?enc = "encode_pax ?pax"
  obtain h where h: "make_header (pax_member e (length ?enc)) = Inr h" and short: "length ?enc \<le> max_pax_bytes"
    and d1: "concat d1 = h @ ?enc @ replicate (padding (length ?enc)) 0"
    using assms(1,2) chunk
    by (auto simp: pax_blocks_def calling_None thrown_def Let_def concat_split_chunks concat_zero_padding split: if_splits)
  have "?enc \<noteq> []" using assms(2) by (rule encode_pax_nonempty)
  have parsed: "parse_pax ?enc = Inr ?pax"
    using texts short by (intro parse_encode_pax) (auto simp: entry_pax_def max_pax_bytes_def split: option.splits if_splits)
  have header: "parse_header h = Inr \<lparr>th_path = ascii ''PaxHeader'', th_kind = Pax_Entry, th_size = int (length ?enc),
      th_mode = in_mode e, th_target = []\<rparr>"
    using header_read_back [OF h] by (simp add: pax_member_def ascii_def scalar_def)
  obtain r where r: "at_bytes opts' (n + block_bytes) (?enc @ replicate (padding (length ?enc)) 0 @ bs) r"
    and step: "read_step opts' consume st = and_then (read_pax_entry opts' st \<lparr>th_path = ascii ''PaxHeader'',
      th_kind = Pax_Entry, th_size = int (length ?enc), th_mode = in_mode e, th_target = []\<rparr> r) (\<lambda>st'. Inr (Inl st'))"
    using header_step [OF h _ header, of opts' n "?enc @ replicate (padding (length ?enc)) 0 @ bs" st consume] at
    by (auto simp: d1)
  obtain r1 where r1: "reader_required opts' (length ?enc) r = Inr (?enc, r1)"
    "at_bytes opts' (n + block_bytes + length ?enc) (replicate (padding (length ?enc)) 0 @ bs) r1"
    using at_required [OF r refl] by blast
  obtain r2 where r2: "reader_zeroes opts' (padding (length ?enc)) r1 = Inr r2"
    "at_bytes opts' (n + block_bytes + length ?enc + padding (length ?enc)) bs r2"
    using at_zeroes [OF r1(2)] by blast
  have stepped: "read_step opts' consume st = Inr (Inl (st\<lparr>rs_reader := r2, rs_pax := Some ?pax\<rparr>))"
    using fresh short \<open>?enc \<noteq> []\<close> r1(1) r2(1) parsed by (simp add: step read_pax_entry_def)
  have sum: "n + block_bytes + length ?enc + padding (length ?enc) = n + length (concat d1)"
    using make_header_length [OF h] by (simp add: d1)
  show thesis by (rule that [OF stepped r2(2) [unfolded sum]])
qed

text \<open>The state after an entry.\<close>

definition after_entry :: "tar_input \<Rightarrow> tar_output \<Rightarrow> tar_reader \<Rightarrow> read_state \<Rightarrow> read_state" where
  "after_entry e out r st = st\<lparr>rs_reader := r, rs_pax := None,
     rs_symlinks := rs_symlinks st + (if kind_of_input (in_kind e) = Symlink_Entry then 1 else 0),
     rs_payload := rs_payload st + in_size e,
     rs_files := rs_files st + (if in_kind e = Input_File then 1 else 0),
     rs_directories := rs_directories st + (if in_kind e = Input_Directory then 1 else 0),
     rs_log := rs_log st @ [out]\<rparr>"

lemma input_kinds:
  "kind_of_input k = File_Entry \<longleftrightarrow> k = Input_File" "kind_of_input k = Directory_Entry \<longleftrightarrow> k = Input_Directory"
  "kind_of_input k \<noteq> Pax_Entry"
  by (cases k; simp)+

lemma input_target_kind: "input_target e \<noteq> None \<longleftrightarrow> kind_of_input (in_kind e) = Symlink_Entry"
  by (cases "in_kind e") (simp_all add: input_target_def)

lemma entry_step:
  assumes input: "archive_name_ok (in_path e)" "list_all scalar (in_path e)" "0 \<le> in_size e"
      "in_kind e \<noteq> Input_File \<longrightarrow> in_size e = 0 \<and> in_body e = None"
      "input_target e \<noteq> None \<longrightarrow> symlink_target (the (input_target e)) = Inr (the (input_target e))"
    and h: "make_header (entry_member e (input_target e)) = Inr h"
    and body: "int (length (content e)) = in_size e"
    and at: "at_bytes opts n (h @ content e @ replicate (padding (nat (in_size e))) 0 @ bs) (rs_reader st)"
    and pax: "(case rs_pax st of None \<Rightarrow> no_pax | Some p \<Rightarrow> p) = entry_pax e (input_target e)"
    and opts: "0 < to_chunk_bytes opts" "input_target e \<noteq> None \<longrightarrow> to_preserve_symlinks opts"
    and consumer: "cs_failure (consume (in_path e)) = None" "length (content e) \<le> cs_pulls (consume (in_path e))"
  obtains out r where "read_step opts consume st = Inr (Inl (after_entry e out r st))" "delivers e out"
    "at_bytes opts (n + block_bytes + length (content e) + padding (nat (in_size e))) bs r"
proof -
  let ?t = "input_target e"
  have zero: "0 \<notin> set (in_path e)" using input(1) by (rule archive_name_no_zero)
  have target: "0 \<notin> set (the ?t) \<and> list_all scalar (the ?t)" if "kind_of_input (in_kind e) = Symlink_Entry"
    using that input(5) input_target_kind [of e] symlink_target_text [of "the ?t" "the ?t"] by auto
  have size: "nat (in_size e) = length (content e)" using body by linarith
  define header where "header = \<lparr>th_path = short_name e, th_kind = kind_of_input (in_kind e), th_size = in_size e,
    th_mode = in_mode e, th_target = (if kind_of_input (in_kind e) = Symlink_Entry
      then member_target (entry_member e ?t) else [])\<rparr>"
  have parsed: "parse_header h = Inr header"
    unfolding header_def
    using header_read_back [OF h] zero input(2,4) target input_target_kind [of e]
    by (cases "in_kind e")
      (auto simp: entry_member_def short_name_def entry_name_def ascii_def scalar_def member_target_def short_target_def
        input_target_def)
  obtain r where r: "at_bytes opts (n + block_bytes) (content e @ replicate (padding (nat (in_size e))) 0 @ bs) r"
    and step: "read_step opts consume st = and_then (read_entry opts consume st header r) (\<lambda>st'. Inr (Inl st'))"
    using header_step [OF h at parsed, of consume] input_kinds(3) by (auto simp: header_def)
  have name: "archive_name (case px_path (entry_pax e ?t) of None \<Rightarrow> th_path header | Some p \<Rightarrow> p)
      (th_kind header = Directory_Entry) = Inr (in_path e)"
    using input(1) input_kinds(2) [of "in_kind e"]
    by (auto simp: entry_pax_def header_def short_name_def entry_name_def archive_name_def canonical_name_def)
  have link: "(case px_linkpath (entry_pax e ?t) of None \<Rightarrow> th_target header | Some t \<Rightarrow> t) = the ?t"
    if "kind_of_input (in_kind e) = Symlink_Entry"
    using that input_target_kind [of e]
    by (auto simp: entry_pax_def header_def entry_member_def member_target_def short_target_def)
  have no_link: "px_linkpath (entry_pax e ?t) = None" if "kind_of_input (in_kind e) \<noteq> Symlink_Entry"
    using that input_target_kind [of e] by (auto simp: entry_pax_def)
  have "\<exists>out r1. deliver_entry opts consume header (in_path e)
      (case px_linkpath (entry_pax e ?t) of None \<Rightarrow> th_target header | Some t \<Rightarrow> t) r = Inr (out, r1) \<and> delivers e out \<and>
      at_bytes opts (n + block_bytes + length (content e)) (replicate (padding (nat (in_size e))) 0 @ bs) r1"
  proof (cases "kind_of_input (in_kind e) = Symlink_Entry")
    case True
    then have "in_size e = 0" "content e = []" using input(4) by (auto simp: content_def)
    then show ?thesis
      using True link [OF True] opts(2) input(5) input_target_kind [of e] consumer(1) r
      by (auto simp: deliver_entry_def header_def delivers_def)
  next
    case False
    obtain chunks r1 where "entry_pulls opts (cs_pulls (consume (in_path e))) (length (content e)) [] r = Inr (0, chunks, r1)"
      "concat chunks = content e"
      "at_bytes opts (n + block_bytes + length (content e)) (replicate (padding (nat (in_size e))) 0 @ bs) r1"
      using at_pulls [OF r refl consumer(2) opts(1)] by blast
    then show ?thesis
      using False consumer(1) size input_target_kind [of e]
      by (auto simp: deliver_entry_def consume_tar_entry_def header_def delivers_def)
  qed
  then obtain out r1 where out: "deliver_entry opts consume header (in_path e)
      (case px_linkpath (entry_pax e ?t) of None \<Rightarrow> th_target header | Some t \<Rightarrow> t) r = Inr (out, r1)" "delivers e out"
    and at1: "at_bytes opts (n + block_bytes + length (content e)) (replicate (padding (nat (in_size e))) 0 @ bs) r1"
    by blast
  obtain r2 where r2: "reader_zeroes opts (padding (nat (in_size e))) r1 = Inr r2"
    "at_bytes opts (n + block_bytes + length (content e) + padding (nat (in_size e))) bs r2"
    using at_zeroes [OF at1] by blast
  have "read_entry opts consume st header r = Inr (after_entry e out r2 st)"
    unfolding read_entry_def pax Let_def name and_then_Inr out(1)
    using no_link r2(1) by (auto simp: header_def after_entry_def input_kinds)
  then show thesis using that [OF _ out(2) r2(2)] by (simp add: step)
qed

lemma entry_loop:
  assumes ds: "entry_blocks opts e = (ds, None)" and proper: "proper_input e" and chunk: "0 < to_chunk_bytes opts"
    and at: "at_bytes opts' n (concat ds @ bs) (rs_reader st)" and fresh: "rs_pax st = None"
    and opts: "0 < to_chunk_bytes opts'" "to_preserve_symlinks opts \<longrightarrow> to_preserve_symlinks opts'"
    and consumer: "cs_failure (consume (in_path e)) = None" "length (content e) \<le> cs_pulls (consume (in_path e))"
  obtains out r where "read_loop opts' consume st = read_loop opts' consume (after_entry e out r st)" "delivers e out"
    "at_bytes opts' (n + length (concat ds)) bs r"
proof -
  obtain d1 h body where e: "archive_name_ok (in_path e)" "0 \<le> in_size e"
    "in_kind e \<noteq> Input_File \<longrightarrow> in_size e = 0 \<and> in_body e = None"
    "input_target e \<noteq> None \<longrightarrow> to_preserve_symlinks opts \<and> symlink_target (the (input_target e)) = Inr (the (input_target e))"
    "pax_blocks opts e (input_target e) = (d1, None)" "make_header (entry_member e (input_target e)) = Inr h"
    "int (length (content e)) = in_size e" "ds = d1 @ h # body"
    "concat body = content e @ replicate (padding (nat (in_size e))) 0"
    using entry_blocks_None [OF ds proper] by blast
  have scalar: "list_all scalar (in_path e)" using proper by (simp add: proper_input_def)
  have link: "input_target e \<noteq> None \<longrightarrow> symlink_target (the (input_target e)) = Inr (the (input_target e))"
    "input_target e \<noteq> None \<longrightarrow> to_preserve_symlinks opts'"
    using e(4) opts(2) by blast+
  let ?rest = "h @ content e @ replicate (padding (nat (in_size e))) 0 @ bs"
  note entry = entry_step [where opts = opts' and consume = consume and bs = bs, OF e(1) scalar e(2,3) link(1) e(6,7)]
  have len: "length (concat ds) = length (concat d1) + block_bytes + length (content e) + padding (nat (in_size e))"
    using make_header_length [OF e(6)] by (simp add: e(8,9))
  have at1: "at_bytes opts' n (concat d1 @ ?rest) (rs_reader st)" using at by (simp add: e(8,9))
  show thesis
  proof (cases "entry_pax e (input_target e) = no_pax")
    case True
    then have d1: "d1 = []" using e(5) by (simp add: pax_blocks_def finished_def)
    obtain out r where "read_step opts' consume st = Inr (Inl (after_entry e out r st))" "delivers e out"
      "at_bytes opts' (n + block_bytes + length (content e) + padding (nat (in_size e))) bs r"
      by (rule entry [where n = n and st = st]) (use at1 True fresh opts link(2) consumer in \<open>auto simp: d1\<close>)
    then show thesis using that [of out r] len by (simp add: d1 read_loop.simps [of opts' consume st] add.assoc)
  next
    case False
    have texts: "list_all scalar (entry_name e)" "\<And>t. input_target e = Some t \<Longrightarrow> list_all scalar t"
      using scalar link(1) symlink_target_text by (auto simp: entry_name_def scalar_def)
    obtain r where pax: "read_step opts' consume st = Inr (Inl (st\<lparr>rs_reader := r, rs_pax := Some (entry_pax e (input_target e))\<rparr>))"
      and at2: "at_bytes opts' (n + length (concat d1)) ?rest r"
      using pax_step [OF e(5) False texts at1 fresh chunk] by blast
    let ?st = "st\<lparr>rs_reader := r, rs_pax := Some (entry_pax e (input_target e))\<rparr>"
    obtain out r' where step: "read_step opts' consume ?st = Inr (Inl (after_entry e out r' ?st))" "delivers e out"
      "at_bytes opts' (n + length (concat d1) + block_bytes + length (content e) + padding (nat (in_size e))) bs r'"
      by (rule entry [where n = "n + length (concat d1)" and st = ?st]) (use at2 opts link(2) consumer in auto)
    have "after_entry e out r' ?st = after_entry e out r' st" by (simp add: after_entry_def)
    then show thesis
      using that [of out r'] step pax len
      by (simp add: read_loop.simps [of opts' consume st] read_loop.simps [of opts' consume ?st] add.assoc)
  qed
qed

section \<open>Archives\<close>

definition entry_summary :: "read_state \<Rightarrow> tar_input list \<Rightarrow> nat \<Rightarrow> tar_summary" where
  "entry_summary st entries n = \<lparr>
     ts_files = rs_files st + length (filter (\<lambda>e. in_kind e = Input_File) entries),
     ts_directories = rs_directories st + length (filter (\<lambda>e. in_kind e = Input_Directory) entries),
     ts_symlinks = rs_symlinks st + length (filter (\<lambda>e. kind_of_input (in_kind e) = Symlink_Entry) entries),
     ts_payload_bytes = rs_payload st + (\<Sum>e\<leftarrow>entries. in_size e),
     ts_archive_bytes = n\<rparr>"

lemma end_loop:
  assumes at: "at_bytes opts n (concat [replicate block_bytes 0, replicate block_bytes 0]) (rs_reader st)"
    and fresh: "rs_pax st = None"
  shows "read_loop opts consume st = Inr (entry_summary st [] (n + 2 * block_bytes), rs_log st)"
proof -
  obtain r1 where r1: "reader_required opts block_bytes (rs_reader st) = Inr (replicate block_bytes 0, r1)"
    "at_bytes opts (n + block_bytes) (replicate block_bytes 0 @ []) r1"
    using at_required [of opts n "replicate block_bytes 0" "replicate block_bytes 0 @ []" "rs_reader st" block_bytes] at
    by auto
  obtain r2 where r2: "reader_zeroes opts block_bytes r1 = Inr r2" "at_bytes opts (n + block_bytes + block_bytes) [] r2"
    using at_zeroes [OF r1(2)] by blast
  obtain r3 where r3: "reader_exact opts block_bytes True r2 = Inr (None, r3)" "advanced opts 0 r2 r3"
    using exact_clean(2) [of opts r2 block_bytes True] r2(2) by (auto simp: at_bytes_def block_bytes_def)
  have "trailer_loop opts (block_bytes * 2) r2 = Inr r3" using r3(1) by (simp add: trailer_loop.simps [of opts _ r2])
  then have "finish_archive opts st r1 = Inr (entry_summary st [] (n + 2 * block_bytes), rs_log st)"
    using fresh r2 r3(2) by (simp add: finish_archive_def entry_summary_def at_bytes_def advanced_def)
  then show ?thesis using r1(1) by (simp add: read_loop.simps [of opts consume st] read_step_def list_all_iff)
qed

definition welcomes :: "(code_text \<Rightarrow> tar_consumer) \<Rightarrow> tar_input \<Rightarrow> bool" where
  "welcomes consume e \<longleftrightarrow> cs_failure (consume (in_path e)) = None \<and> length (content e) \<le> cs_pulls (consume (in_path e))"

lemma archive_loop:
  assumes chunk: "0 < to_chunk_bytes opts" "0 < to_chunk_bytes opts'" "to_preserve_symlinks opts \<longrightarrow> to_preserve_symlinks opts'"
  shows "blocks opts entries = (ds, None) \<Longrightarrow> list_all proper_input entries \<Longrightarrow> list_all (welcomes consume) entries \<Longrightarrow>
    at_bytes opts' n (concat ds) (rs_reader st) \<Longrightarrow> rs_pax st = None \<Longrightarrow>
    \<exists>outs. read_loop opts' consume st = Inr (entry_summary st entries (n + length (concat ds)), rs_log st @ outs) \<and>
      list_all2 delivers entries outs"
proof (induction entries arbitrary: ds n st)
  case Nil
  then show ?case
    using end_loop [of opts' n st consume] by (auto simp: entry_summary_def)
next
  case (Cons e entries)
  obtain d1 d2 where d1: "entry_blocks opts e = (d1, None)" and d2: "blocks opts entries = (d2, None)" and ds: "ds = d1 @ d2"
    using Cons.prems(1) by (auto simp: yield_all_None)
  have e: "proper_input e" "cs_failure (consume (in_path e)) = None" "length (content e) \<le> cs_pulls (consume (in_path e))"
    using Cons.prems(2,3) by (simp_all add: welcomes_def)
  have at: "at_bytes opts' n (concat d1 @ concat d2) (rs_reader st)" using Cons.prems(4) by (simp add: ds)
  obtain out r where step: "read_loop opts' consume st = read_loop opts' consume (after_entry e out r st)"
    and out: "delivers e out" and r: "at_bytes opts' (n + length (concat d1)) (concat d2) r"
    by (rule entry_loop [OF d1 e(1) chunk(1) at Cons.prems(5) chunk(2,3), of consume]) (use e in auto)
  let ?st = "after_entry e out r st"
  have state: "rs_reader ?st = r" "rs_pax ?st = None" "rs_log ?st = rs_log st @ [out]"
    "entry_summary ?st entries m = entry_summary st (e # entries) m" for m
    by (auto simp: after_entry_def entry_summary_def)
  have at': "at_bytes opts' (n + length (concat d1)) (concat d2) (rs_reader ?st)" using r by (simp only: state(1))
  obtain outs where "read_loop opts' consume ?st =
      Inr (entry_summary ?st entries (n + length (concat d1) + length (concat d2)), rs_log ?st @ outs)"
    "list_all2 delivers entries outs"
    using Cons.IH [OF d2 _ _ at' state(2)] Cons.prems(2,3) by auto
  then show ?case
    using step out by (intro exI [of _ "out # outs"]) (simp add: state ds add.assoc)
qed

lemma write_tar_None: "write_tar opts entries = (ds, None) \<Longrightarrow> blocks opts entries = (ds, None)"
  using within_quota_None [of opts 0 "fst (blocks opts entries)" "snd (blocks opts entries)"]
  by (auto simp: write_tar_def split: prod.splits)

lemma outcome_same:
  assumes "rel_sum (=) (rel_prod (=) (list_all2 same_output)) m m'"
  shows "map_sum id (map_prod id (map joined_body)) m = map_sum id (map_prod id (map joined_body)) m'"
proof -
  have "map joined_body xs = map joined_body ys" if "list_all2 same_output xs ys" for xs ys
    using that by (induction rule: list_all2_induct) (simp_all add: same_output_def)
  then show ?thesis using assms by (cases m; cases m') auto
qed

lemma archive_read_back:
  assumes "write_tar opts entries = (ds, None)" and "0 < to_chunk_bytes opts"
    and "list_all proper_input entries" and "list_all (welcomes consume) entries"
    and "clean_source opts' chunks" and "concat chunks = concat ds" and "0 < to_chunk_bytes opts'"
    and "to_preserve_symlinks opts \<longrightarrow> to_preserve_symlinks opts'"
  shows "\<exists>outs. list_all2 delivers entries outs \<and>
    read_tar opts' consume (map Chunk chunks) = Inr (\<lparr>
      ts_files = length (filter (\<lambda>e. in_kind e = Input_File) entries),
      ts_directories = length (filter (\<lambda>e. in_kind e = Input_Directory) entries),
      ts_symlinks = length (filter (\<lambda>e. kind_of_input (in_kind e) = Symlink_Entry) entries),
      ts_payload_bytes = (\<Sum>e\<leftarrow>entries. in_size e),
      ts_archive_bytes = length (concat ds)\<rparr>, outs)"
proof -
  let ?st = "start_read (map Chunk chunks)"
  have "at_bytes opts' 0 (concat ds) (rs_reader ?st)"
    using open_clean [OF assms(5)] assms(6) by (simp add: start_read_def at_bytes_def) (simp add: open_reader_def)
  then obtain outs where "read_loop opts' consume ?st = Inr (entry_summary ?st entries (0 + length (concat ds)), rs_log ?st @ outs)"
    "list_all2 delivers entries outs"
    using archive_loop [OF assms(2,7,8) write_tar_None [OF assms(1)] assms(3,4), of 0 ?st]
    by (auto simp: start_read_def)
  then show ?thesis by (auto simp: read_tar_def entry_summary_def start_read_def)
qed

section \<open>Properties\<close>


text \<open>
  C28. How the source is cut into chunks is irrelevant, for malformed archives too: two sources with
  the same bytes, within the quota and the chunk buffer, have the same outcome with a consumer that
  pulls every body to its end: the same error, or the same summary and the same entries with the
  same bodies.
\<close>

theorem chunks_irrelevant:
  assumes "clean_source opts chunks" and "clean_source opts chunks'" and "concat chunks = concat chunks'"
    and "0 < to_chunk_bytes opts" and "drains (length (concat chunks)) consume"
  shows "map_sum id (map_prod id (map joined_body)) (read_tar opts consume (map Chunk chunks)) =
    map_sum id (map_prod id (map joined_body)) (read_tar opts consume (map Chunk chunks'))"
proof -
  have "same_state opts (start_read (map Chunk chunks)) (start_read (map Chunk chunks'))"
    using open_clean [OF assms(1)] open_clean [OF assms(2)] assms(3)
    by (simp add: same_state_def same_reader_def start_read_def) (simp add: open_reader_def)
  moreover have "drains (length (reader_bytes (rs_reader (start_read (map Chunk chunks))))) consume"
    using open_clean [OF assms(1)] assms(5) by (simp add: start_read_def)
  ultimately show ?thesis
    unfolding read_tar_def by (intro outcome_same loop_same assms(4))
qed

section \<open>A small archive\<close>

definition sample_options :: tar_options where
  "sample_options = \<lparr>to_chunk_bytes = 512, to_max_archive_bytes = None, to_limit_code = Input_Limit,
     to_preserve_symlinks = False\<rparr>"

definition sample_file :: tar_input where
  "sample_file = \<lparr>in_path = [97, 47, 98], in_kind = Input_File, in_size = 3, in_mode = 420, in_uid = 0, in_gid = 0,
     in_body = Some [Chunk [104, 105], Chunk [10]]\<rparr>"

definition sample_consumer :: "code_text \<Rightarrow> tar_consumer" where
  "sample_consumer path = \<lparr>cs_pulls = 2048 + 1, cs_failure = None\<rparr>"

definition sample_header :: bytes where
  "sample_header = with_checksum (plain_header (entry_member sample_file None))"

definition sample_archive :: "bytes list" where
  "sample_archive = [sample_header, [104, 105], [10], replicate 509 0, replicate 512 0, replicate 512 0]"

lemma within_quota_unlimited: "to_max_archive_bytes opts = None \<Longrightarrow> within_quota opts sent chunks ending = (chunks, ending)"
  by (induction opts sent chunks ending rule: within_quota.induct) (simp_all add: over_quota_def yield_then_def)

lemma sample_member: "member_ok (entry_member sample_file None)" "entry_pax sample_file None = no_pax"
  "archive_name (in_path sample_file) (in_kind sample_file = Input_Directory) = Inr (in_path sample_file)"
proof -
  have bytes: "byte_length [97, 47, 98] = 3" "byte_length [97] = 1" "byte_length [98] = 1"
    by (simp_all add: byte_length_def)
  show "entry_pax sample_file None = no_pax"
    by (simp add: entry_pax_def no_pax_def long_text_def entry_name_def sample_file_def bytes)
  show "member_ok (entry_member sample_file None)"
    by (simp add: member_ok_def entry_member_def short_name_def long_text_def entry_name_def sample_file_def bytes
        member_target_def short_target_def octal_ok_def octal_string.simps safe_integer_def max_safe_integer_def)
  show "archive_name (in_path sample_file) (in_kind sample_file = Input_Directory) = Inr (in_path sample_file)"
    by (simp add: archive_name_def archive_name_ok_def canonical_name_def sample_file_def bytes max_path_bytes_def
        max_path_segments_def forbidden_char_def dot_def dot_dot_def max_path_segment_bytes_def)
qed

lemma sample_header_made: "make_header (entry_member sample_file None) = Inr sample_header"
  using sample_member(1) by (simp add: make_header_Inr sample_header_def)

lemma sample_header_length: "length sample_header = 512"
  using make_header_length [OF sample_header_made] by (simp add: block_bytes_def)

lemma sample_written: "write_tar sample_options [sample_file] = (sample_archive, None)"
proof -
  have "payload sample_options sample_file = ([[104, 105], [10], replicate 509 0], None)"
    by (simp add: payload_def sample_file_def sample_options_def yield_then_def zero_padding_def block_bytes_def)
  then have "entry_blocks sample_options sample_file = ([sample_header, [104, 105], [10], replicate 509 0], None)"
    using sample_member(2,3) sample_header_made
    by (simp add: entry_blocks_def calling_def yield_all_def pax_blocks_def finished_def)
      (simp add: yield_then_def sample_file_def safe_integer_def max_safe_integer_def max_octal_size_def sample_options_def)
  then show ?thesis
    by (simp add: write_tar_def yield_all_def yield_then_def within_quota_unlimited sample_options_def sample_archive_def
        block_bytes_def)
qed

lemma sample_clean: "clean_source sample_options sample_archive" "0 < to_chunk_bytes sample_options"
  "proper_input sample_file" "welcomes sample_consumer sample_file" "length (concat sample_archive) = 2048"
  by (simp_all add: clean_source_def sample_options_def over_quota_def sample_archive_def sample_header_length
      proper_input_def sample_file_def scalar_def welcomes_def sample_consumer_def content_def)

lemma sample_read_back:
  "\<exists>outs. list_all2 delivers [sample_file] outs \<and>
    read_tar sample_options sample_consumer (map Chunk sample_archive) =
      Inr (\<lparr>ts_files = 1, ts_directories = 0, ts_symlinks = 0, ts_payload_bytes = 3, ts_archive_bytes = 2048\<rparr>, outs)"
  using archive_read_back [OF sample_written sample_clean(2) _ _ sample_clean(1) refl sample_clean(2), of sample_consumer]
    sample_clean(3-5) by (simp add: sample_file_def)


lemma chunks_irrelevant_witness:
  "map_sum id (map_prod id (map joined_body)) (read_tar sample_options sample_consumer (map Chunk sample_archive)) =
   map_sum id (map_prod id (map joined_body))
     (read_tar sample_options sample_consumer (map Chunk (map (\<lambda>b. [b]) (concat sample_archive))))"
proof -
  have joined: "concat (map (\<lambda>b. [b]) (concat sample_archive)) = concat sample_archive" by (rule concat_map_singleton [THEN trans]) simp
  have "clean_source sample_options (map (\<lambda>b. [b]) (concat sample_archive))"
    by (simp only: clean_source_def joined) (simp add: list_all_iff sample_options_def over_quota_def)
  then show ?thesis
    using sample_clean(1,2,5) joined
    by (intro chunks_irrelevant) (simp_all add: drains_def sample_consumer_def)
qed

end
