(* ===== verification/Tar_Safety.thy ===== *)
theory Tar_Safety
  imports Tar_Archive
begin

text \<open>
  What the reader guarantees for any source, honest or not: \<open>reader_invariant\<close> carries a property of
  the cursor through every read once \<open>take\<close> keeps it; the quota is one such property, the ledger
  of bytes another.  Accepted archives deliver only bounded relative names, complete bodies and
  links where they are preserved, within the quota.
\<close>

section \<open>Invariants of the cursor\<close>

locale reader_invariant =
  fixes opts :: tar_options and P :: "tar_reader \<Rightarrow> bool"
  assumes take_keeps: "reader_take opts n r = Inr (got, r') \<Longrightarrow> P r \<Longrightarrow> P r'"
begin

lemma exact_loop_keeps: "exact_loop opts eof n got r = Inr (res, r') \<Longrightarrow> P r \<Longrightarrow> P r'"
proof (induction "n - length got" arbitrary: got r rule: less_induct)
  case less
  show ?case
  proof (cases "n \<le> length got")
    case True
    then show ?thesis using less.prems by (simp add: exact_loop.simps [of opts])
  next
    case False
    then obtain taken r1 where take: "reader_take opts (n - length got) r = Inr (taken, r1)"
      using less.prems(1) by (subst (asm) exact_loop.simps) (auto split: sum.splits)
    have r1: "P r1" by (rule take_keeps [OF take less.prems(2)])
    show ?thesis
    proof (cases taken)
      case None
      then show ?thesis
        using less.prems(1) take False r1 by (subst (asm) exact_loop.simps) (auto simp: unsafe_archive_def split: if_splits)
    next
      case (Some chunk)
      then have rest: "exact_loop opts eof n (got @ chunk) r1 = Inr (res, r')"
        using less.prems(1) False take by (subst (asm) exact_loop.simps) auto
      have "chunk \<noteq> []" using reader_take_nonempty [of opts "n - length got" r chunk r1] take Some False by simp
      then have "0 < length chunk" by simp
      then have "n - length (got @ chunk) < n - length got" using False unfolding length_append by linarith
      then show ?thesis using less.hyps rest r1 by blast
    qed
  qed
qed

lemma exact_keeps: "reader_exact opts n eof r = Inr (res, r') \<Longrightarrow> P r \<Longrightarrow> P r'"
  by (auto simp: reader_exact_def intro: exact_loop_keeps)

lemma required_keeps: "reader_required opts n r = Inr (bs, r') \<Longrightarrow> P r \<Longrightarrow> P r'"
  by (auto simp: reader_required_def result_simps unsafe_archive_def split: option.splits intro: exact_keeps)

lemma zeroes_keeps: "reader_zeroes opts n r = Inr r' \<Longrightarrow> P r \<Longrightarrow> P r'"
proof (induction n arbitrary: r rule: less_induct)
  case (less n)
  show ?case
  proof (cases "n = 0")
    case True
    then show ?thesis using less.prems by (simp add: reader_zeroes.simps [of opts])
  next
    case False
    then obtain chunk r1 where take: "reader_take opts n r = Inr (Some chunk, r1)"
      and rest: "reader_zeroes opts (n - length chunk) r1 = Inr r'"
      using less.prems(1)
      by (subst (asm) reader_zeroes.simps) (auto simp: unsafe_archive_def split: sum.splits option.splits if_splits)
    have "chunk \<noteq> []" using reader_take_nonempty [OF take] False by simp
    then have "n - length chunk < n" using False by (simp add: diff_less)
    then show ?thesis using less.IH rest take_keeps [OF take less.prems(2)] by blast
  qed
qed

lemma pulls_keep: "entry_pulls opts k n body r = Inr (left, body', r') \<Longrightarrow> P r \<Longrightarrow> P r'"
proof (induction k arbitrary: n body r)
  case (Suc k)
  show ?case
  proof (cases "n = 0")
    case False
    then obtain chunk r1 where take: "reader_take opts (min n (to_chunk_bytes opts)) r = Inr (Some chunk, r1)"
      and rest: "entry_pulls opts k (n - length chunk) (body @ [chunk]) r1 = Inr (left, body', r')"
      using Suc.prems by (auto simp: unsafe_archive_def split: sum.splits option.splits if_splits)
    show ?thesis by (rule Suc.IH [OF rest take_keeps [OF take Suc.prems(2)]])
  qed (use Suc in auto)
qed simp

lemma trailer_keeps: "trailer_loop opts n r = Inr r' \<Longrightarrow> P r \<Longrightarrow> P r'"
proof (induction "length (reader_bytes r)" arbitrary: n r rule: less_induct)
  case less
  obtain got r1 where exact: "reader_exact opts block_bytes True r = Inr (got, r1)"
    using less.prems(1) by (subst (asm) trailer_loop.simps) (auto split: sum.splits)
  have r1: "P r1" by (rule exact_keeps [OF exact less.prems(2)])
  show ?case
  proof (cases got)
    case None
    then show ?thesis using less.prems(1) exact r1 by (simp add: trailer_loop.simps [of opts _ r])
  next
    case (Some b)
    then have rest: "trailer_loop opts (n + block_bytes) r1 = Inr r'"
      using less.prems(1) exact by (subst (asm) trailer_loop.simps) (auto simp: unsafe_archive_def split: if_splits)
    have "length (reader_bytes r1) < length (reader_bytes r)"
      using reader_exact_bytes [OF exact] Some by (auto simp: block_bytes_def)
    then show ?thesis using less.hyps rest r1 by blast
  qed
qed

lemma deliver_keeps: "deliver_entry opts consume header path target r = Inr (out, r') \<Longrightarrow> P r \<Longrightarrow> P r'"
  by (auto simp: deliver_entry_def consume_tar_entry_def result_simps unsafe_archive_def
      dest: pulls_keep split: if_splits option.splits)

lemma read_entry_keeps: "read_entry opts consume st header r = Inr st' \<Longrightarrow> P r \<Longrightarrow> P (rs_reader st')"
  by (auto simp: read_entry_def Let_def result_simps unsafe_archive_def dest: deliver_keeps zeroes_keeps split: if_splits)

lemma read_pax_keeps: "read_pax_entry opts st header r = Inr st' \<Longrightarrow> P r \<Longrightarrow> P (rs_reader st')"
  by (auto simp: read_pax_entry_def result_simps unsafe_archive_def dest: required_keeps zeroes_keeps split: if_splits)

lemma step_keeps:
  assumes "read_step opts consume st = Inr (Inl st')" and "P (rs_reader st)"
  shows "P (rs_reader st')"
  using assms
  by (auto simp: read_step_def result_simps dest: required_keeps read_entry_keeps read_pax_keeps split: if_splits)

lemma finish_keeps:
  assumes "read_step opts consume st = Inr (Inr (summary, outs))" and "P (rs_reader st)"
  shows "\<exists>r. P r \<and> ts_archive_bytes summary = rd_bytes r"
  using assms
  by (fastforce simp: read_step_def finish_archive_def result_simps unsafe_archive_def
      dest: required_keeps zeroes_keeps trailer_keeps split: if_splits)

lemma loop_keeps:
  "read_loop opts consume st = Inr (summary, outs) \<Longrightarrow> P (rs_reader st) \<Longrightarrow>
   \<exists>r. P r \<and> ts_archive_bytes summary = rd_bytes r"
proof (induction "length (reader_bytes (rs_reader st))" arbitrary: st rule: less_induct)
  case less
  obtain res where step: "read_step opts consume st = Inr res"
    using less.prems(1) by (subst (asm) read_loop.simps) (auto split: sum.splits)
  show ?case
  proof (cases res)
    case (Inr fin)
    then show ?thesis using less.prems step finish_keeps by (auto simp: read_loop.simps [of opts consume st])
  next
    case (Inl st')
    then show ?thesis
      using less.hyps [OF read_step_bytes] less.prems step step_keeps
      by (auto simp: read_loop.simps [of opts consume st])
  qed
qed

end

text \<open>The quota: what was handed out was received, and what was received is within the quota.\<close>

definition quota_kept :: "tar_options \<Rightarrow> tar_reader \<Rightarrow> bool" where
  "quota_kept opts r \<longleftrightarrow> rd_bytes r + length (rd_current r) \<le> rd_received r \<and> \<not> over_quota opts (rd_received r)"

lemma pull_chunk_quota:
  "pull_chunk opts r src = Inr r' \<Longrightarrow> rd_current r = [] \<Longrightarrow> quota_kept opts r \<Longrightarrow> quota_kept opts r'"
  by (induction opts r src rule: pull_chunk.induct)
    (auto simp: Let_def unsafe_archive_def quota_kept_def split: if_splits)

interpretation quota: reader_invariant opts "quota_kept opts" for opts
proof unfold_locales
  fix n r got r'
  assume "reader_take opts n r = Inr (got, r')" "quota_kept opts r"
  then show "quota_kept opts r'"
    by (auto simp: reader_take_def Let_def result_simps quota_kept_def
        dest: pull_chunk_quota [unfolded quota_kept_def] split: if_splits)
qed

text \<open>The ledger of bytes: handed out and still to come add up to the same sum throughout.\<close>

interpretation ledger: reader_invariant opts "\<lambda>r. rd_bytes r + length (reader_bytes r) = m" for opts m
  by unfold_locales (use reader_take_bytes in \<open>fastforce split: option.splits\<close>)

section \<open>Delivered entries\<close>

lemma octal_value_nonneg: "list_all octal_digit t \<Longrightarrow> 0 \<le> octal_value t"
proof (induction t rule: rev_induct)
  case (snoc c t)
  then show ?case by (simp add: octal_value_snoc octal_digit_def)
qed (simp add: octal_value_def)

lemma octal_nonneg: "octal block offset n = Inr v \<Longrightarrow> 0 \<le> v"
proof -
  have "list_all octal_digit (takeWhile octal_digit t)" for t
    unfolding list_all_iff by (auto dest: set_takeWhileD)
  then show "octal block offset n = Inr v \<Longrightarrow> 0 \<le> v"
    by (auto simp: octal_def Let_def result_simps unsafe_archive_def octal_value_nonneg split: if_splits)
qed

lemma parse_header_bounds:
  assumes "parse_header block = Inr header"
  shows "0 \<le> th_size header \<and> th_size header \<le> max_octal_size \<and> 0 \<le> th_mode header \<and> th_mode header \<le> 4095 \<and>
   (th_kind header \<in> {Directory_Entry, Symlink_Entry} \<longrightarrow> th_size header = 0)"
proof -
  obtain kind mode size path target where "octal block 100 8 = Inr mode" "octal block 124 12 = Inr size"
    and header: "\<lparr>th_path = path, th_kind = kind, th_size = size, th_mode = mode, th_target = target\<rparr> = header"
    and checks: "\<not> (4095 < mode \<or> max_octal_size < size \<or> list_ex (\<lambda>b. b \<noteq> 0) (drop 500 block))"
      "\<not> ((kind = Directory_Entry \<or> kind = Symlink_Entry) \<and> size \<noteq> 0)"
    using assms unfolding parse_header_def
    by (simp only: and_then_eq_Inr if_Inl_eq_Inr unsafe_archive_def sum.inject split: option.splits; (elim exE conjE)?)
      (simp, rule that, assumption+)
  then have "0 \<le> mode" "0 \<le> size" using octal_nonneg by blast+
  then show ?thesis using checks by (auto simp: header [symmetric])
qed

definition safe_output :: "tar_options \<Rightarrow> tar_output \<Rightarrow> bool" where
  "safe_output opts out \<longleftrightarrow> archive_name_ok (out_path out) \<and> out_kind out \<noteq> Pax_Entry \<and>
     0 \<le> out_mode out \<and> out_mode out \<le> 4095 \<and> int (length (concat (out_body out))) = out_size out \<and>
     (out_kind out = Symlink_Entry \<longleftrightarrow> out_target out \<noteq> None) \<and>
     (\<forall>t. out_target out = Some t \<longrightarrow> to_preserve_symlinks opts \<and> symlink_target_schema t)"

lemma entry_pulls_length:
  "entry_pulls opts k n body r = Inr (left, body', r') \<Longrightarrow> left + length (concat body') = n + length (concat body)"
proof (induction k arbitrary: n body r)
  case (Suc k)
  show ?case
  proof (cases "n = 0")
    case False
    then obtain chunk r1 where take: "reader_take opts (min n (to_chunk_bytes opts)) r = Inr (Some chunk, r1)"
      and rest: "entry_pulls opts k (n - length chunk) (body @ [chunk]) r1 = Inr (left, body', r')"
      using Suc.prems by (auto simp: unsafe_archive_def split: sum.splits option.splits if_splits)
    have "length chunk \<le> n"
      using take by (auto simp: reader_take_def Let_def result_simps split: if_splits)
    then show ?thesis using Suc.IH [OF rest] by simp
  qed (use Suc in auto)
qed simp

lemma deliver_safe:
  assumes "deliver_entry opts consume header path target r = Inr (out, r')" and "archive_name_ok path"
    and "parse_header block = Inr header" and "th_kind header \<noteq> Pax_Entry"
  shows "safe_output opts out" "out_kind out = th_kind header" "out_size out = th_size header"
proof -
  have "safe_output opts out \<and> out_kind out = th_kind header \<and> out_size out = th_size header"
  proof (cases "th_kind header = Symlink_Entry")
    case True
    then show ?thesis
      using assms parse_header_bounds [OF assms(3)]
      by (auto simp: deliver_entry_def result_simps unsafe_archive_def safe_output_def symlink_target_def
          split: if_splits option.splits)
  next
    case False
    obtain body where pulls: "entry_pulls opts (cs_pulls (consume path)) (nat (th_size header)) [] r = Inr (0, body, r')"
      and out: "out = \<lparr>out_path = path, out_kind = th_kind header, out_size = th_size header,
             out_mode = th_mode header, out_target = None, out_body = body\<rparr>"
      using assms(1) False
      by (auto simp: deliver_entry_def consume_tar_entry_def result_simps unsafe_archive_def split: if_splits option.splits)
    show ?thesis
      using entry_pulls_length [OF pulls] parse_header_bounds [OF assms(3)] assms(2,4) False
      by (simp add: out safe_output_def)
  qed
  then show "safe_output opts out" "out_kind out = th_kind header" "out_size out = th_size header" by blast+
qed

text \<open>The log and the counters of a state agree.\<close>

definition log_ok :: "tar_options \<Rightarrow> read_state \<Rightarrow> bool" where
  "log_ok opts st \<longleftrightarrow> list_all (safe_output opts) (rs_log st) \<and>
     rs_files st = length (filter (\<lambda>out. out_kind out = File_Entry) (rs_log st)) \<and>
     rs_directories st = length (filter (\<lambda>out. out_kind out = Directory_Entry) (rs_log st)) \<and>
     rs_symlinks st = length (filter (\<lambda>out. out_kind out = Symlink_Entry) (rs_log st)) \<and>
     rs_payload st = (\<Sum>out\<leftarrow>rs_log st. out_size out)"

lemma archive_name_Inr: "archive_name name d = Inr path \<Longrightarrow> archive_name_ok path"
  by (auto simp: archive_name_def unsafe_archive_def split: if_splits)

lemma read_entry_log:
  assumes "read_entry opts consume st header r = Inr st'" and "parse_header block = Inr header"
    and "th_kind header \<noteq> Pax_Entry" and "log_ok opts st"
  shows "log_ok opts st'"
proof -
  obtain path target out r1 r2 where path: "archive_name_ok path"
    and out: "deliver_entry opts consume header path target r = Inr (out, r1)"
    and st': "st' = st\<lparr>rs_reader := r2, rs_pax := None,
              rs_symlinks := rs_symlinks st + (if th_kind header = Symlink_Entry then 1 else 0),
              rs_payload := rs_payload st + th_size header,
              rs_files := rs_files st + (if th_kind header = File_Entry then 1 else 0),
              rs_directories := rs_directories st + (if th_kind header = Directory_Entry then 1 else 0),
              rs_log := rs_log st @ [out]\<rparr>"
    using assms(1) by (auto simp: read_entry_def Let_def result_simps unsafe_archive_def dest!: archive_name_Inr split: if_splits)
  show ?thesis using deliver_safe [OF out path assms(2,3)] assms(4) by (auto simp: st' log_ok_def)
qed

lemma step_log:
  assumes "read_step opts consume st = Inr (Inl st')" and "log_ok opts st"
  shows "log_ok opts st'"
proof -
  obtain block header r where "parse_header block = Inr header"
    and "th_kind header = Pax_Entry \<and> read_pax_entry opts st header r = Inr st' \<or>
      th_kind header \<noteq> Pax_Entry \<and> read_entry opts consume st header r = Inr st'"
    using assms(1) by (auto simp: read_step_def result_simps split: if_splits)
  then show ?thesis
    using assms(2) read_entry_log
    by (auto simp: read_pax_entry_def result_simps unsafe_archive_def log_ok_def split: if_splits)
qed

lemma loop_log:
  "read_loop opts consume st = Inr (summary, outs) \<Longrightarrow> log_ok opts st \<Longrightarrow>
   \<exists>st'. log_ok opts st' \<and> outs = rs_log st' \<and> ts_files summary = rs_files st' \<and>
     ts_directories summary = rs_directories st' \<and> ts_symlinks summary = rs_symlinks st' \<and>
     ts_payload_bytes summary = rs_payload st'"
proof (induction "length (reader_bytes (rs_reader st))" arbitrary: st rule: less_induct)
  case less
  obtain res where step: "read_step opts consume st = Inr res"
    using less.prems(1) by (subst (asm) read_loop.simps) (auto split: sum.splits)
  show ?case
  proof (cases res)
    case (Inr fin)
    then have "read_step opts consume st = Inr (Inr (summary, outs))"
      using less.prems(1) step by (simp add: read_loop.simps [of opts consume st])
    then show ?thesis
      using less.prems(2)
      by (intro exI [of _ st]) (auto simp: read_step_def finish_archive_def result_simps unsafe_archive_def split: if_splits)
  next
    case (Inl st')
    then show ?thesis
      using less.hyps [OF read_step_bytes] less.prems step step_log
      by (auto simp: read_loop.simps [of opts consume st])
  qed
qed

text \<open>
  C23. Whatever the source sends, an accepted archive is safe to unpack: every delivered name is a
  bounded relative path without empty, dot or dot-dot segments, every body has exactly the size of
  its header, links come only where they are preserved and with a bounded relative target, the
  summary counts the delivered entries, and no more bytes than the quota were taken.
\<close>

theorem read_tar_safe:
  assumes "read_tar opts consume src = Inr (summary, outs)"
  shows "list_all (safe_output opts) outs \<and>
    ts_files summary = length (filter (\<lambda>out. out_kind out = File_Entry) outs) \<and>
    ts_directories summary = length (filter (\<lambda>out. out_kind out = Directory_Entry) outs) \<and>
    ts_symlinks summary = length (filter (\<lambda>out. out_kind out = Symlink_Entry) outs) \<and>
    ts_payload_bytes summary = (\<Sum>out\<leftarrow>outs. out_size out) \<and>
    \<not> over_quota opts (ts_archive_bytes summary)"
proof -
  have run: "read_loop opts consume (start_read src) = Inr (summary, outs)" using assms by (simp add: read_tar_def)
  have "log_ok opts (start_read src)" by (simp add: log_ok_def start_read_def)
  note log = loop_log [OF run this]
  have "quota_kept opts (rs_reader (start_read src))"
    by (simp add: quota_kept_def start_read_def open_reader_def over_quota_def split: option.splits)
  then obtain r where "quota_kept opts r" "ts_archive_bytes summary = rd_bytes r"
    using quota.loop_keeps [OF run] by blast
  then have "\<not> over_quota opts (ts_archive_bytes summary)"
    using over_quota_mono [of opts "rd_received r" "rd_bytes r"] by (simp add: quota_kept_def)
  then show ?thesis using log by (auto simp: log_ok_def)
qed

text \<open>
  A directory named with a trailing slash passes the writer's check, which strips it, but is written
  with a second slash, and the reader's check refuses that name.
\<close>

lemma split_on_snoc: "split_on c (p @ [c]) = split_on c p @ [[]]"
proof (induction c p rule: split_on.induct)
  case (2 c x xs)
  then show ?case by (cases "split_on c xs") auto
qed simp

lemma trailing_slash_refused:
  assumes "in_kind e = Input_Directory" and "in_path e = p @ [47]" and "archive_name_ok p"
  shows "archive_name (in_path e) True = Inr p" and "archive_name (entry_name e) True =
    unsafe_archive ''entry names must be bounded canonical relative paths.''"
proof -
  show "archive_name (in_path e) True = Inr p" using assms by (simp add: archive_name_def canonical_name_def)
  have "\<not> archive_name_ok (p @ [47])"
    by (auto simp: archive_name_ok_def list_all_iff split_on_snoc)
  then show "archive_name (entry_name e) True = unsafe_archive ''entry names must be bounded canonical relative paths.''"
    using assms by (simp add: archive_name_def canonical_name_def entry_name_def butlast_append)
qed

lemma read_tar_safe_witness:
  "\<exists>outs. list_all (safe_output sample_options) outs \<and> length (filter (\<lambda>out. out_kind out = File_Entry) outs) = 1 \<and>
    (\<Sum>out\<leftarrow>outs. out_size out) = 3"
proof -
  obtain outs where "read_tar sample_options sample_consumer (map Chunk sample_archive) =
      Inr (\<lparr>ts_files = 1, ts_directories = 0, ts_symlinks = 0, ts_payload_bytes = 3, ts_archive_bytes = 2048\<rparr>, outs)"
    using sample_read_back by blast
  from read_tar_safe [OF this] show ?thesis by (intro exI [of _ outs]) simp
qed

end
