(* ===== verification/Spill_Records.thy ===== *)
theory Spill_Records
  imports Byte_Text
begin

text \<open>
  Metadata records on spill files: \<open>sandbox/src/files/metadata/records.ts\<close> and \<open>storage.ts\<close>.

  A spill file is the list of its bytes.  How many bytes one driver call moves is the driver's own
  choice: \<open>dv_write\<close> and \<open>dv_read\<close> give, for a position and a remaining length, the progress the
  call reports, or nothing when the driver throws.
\<close>

section \<open>Records (types.ts, records.ts)\<close>

datatype metadata_record =
    Meta_File code_text
  | Meta_Directory code_text
  | Meta_Symlink code_text code_text

datatype metadata_kind = Kind_File | Kind_Directory | Kind_Symlink

fun meta_path :: "metadata_record \<Rightarrow> code_text" where
  "meta_path (Meta_File p) = p"
| "meta_path (Meta_Directory p) = p"
| "meta_path (Meta_Symlink p t) = p"

datatype conflict_code = Duplicate_Path | File_Ancestor | Symlink_Ancestor

datatype spill_error =
    Spill_Failure string
  | Range_Failure string
  | State_Failure string
  | Driver_Failure
  | Conflict conflict_code code_text
  | Invalid_Input string
  | Invalid_Link code_text string

record encoded_record =
  er_kind :: metadata_kind
  er_key :: bytes
  er_target :: bytes

definition record_header_bytes :: nat where "record_header_bytes = 9"
definition descriptor_bytes :: nat where "descriptor_bytes = 16"
definition max_record_bytes :: nat where "max_record_bytes = max_path_bytes + max_symlink_target_bytes + 9"

text \<open>The key of a path: its UTF-8 with every slash as NUL.\<close>

definition path_key :: "code_text \<Rightarrow> bytes" where
  "path_key p = map (\<lambda>b. if b = 47 then 0 else b) (utf8_encode p)"

fun encode_record :: "metadata_record \<Rightarrow> encoded_record" where
  "encode_record (Meta_File p) = \<lparr>er_kind = Kind_File, er_key = path_key p, er_target = []\<rparr>"
| "encode_record (Meta_Directory p) = \<lparr>er_kind = Kind_Directory, er_key = path_key p, er_target = []\<rparr>"
| "encode_record (Meta_Symlink p t) = \<lparr>er_kind = Kind_Symlink, er_key = path_key p, er_target = utf8_encode t\<rparr>"

text \<open>
  \<open>decodeRecord\<close>.  Bytes that \<open>toString('utf8')\<close> and \<open>Buffer.from\<close> do not return unchanged are the
  invalid UTF-8, which the decoder refuses.
\<close>

definition parse_relative_path :: "code_text \<Rightarrow> spill_error + code_text" where
  "parse_relative_path t = (if relative_path_schema t then Inr t
     else Inl (Invalid_Input ''Expected a bounded canonical relative file path''))"

definition parse_symlink_target :: "code_text \<Rightarrow> spill_error + code_text" where
  "parse_symlink_target t = (if symlink_target_schema t then Inr t
     else Inl (Invalid_Input ''Expected bounded raw relative symbolic-link target text''))"

definition decode_record :: "encoded_record \<Rightarrow> spill_error + metadata_record" where
  "decode_record r =
     (case utf8_decode (er_key r) of
        None \<Rightarrow> Inl (Spill_Failure ''Spill path encoding is invalid.'')
      | Some encoded \<Rightarrow>
          if 47 \<in> set (er_key r) then Inl (Spill_Failure ''Spill path encoding is invalid.'')
          else and_then (parse_relative_path (map (\<lambda>c. if c = 0 then 47 else c) encoded)) (\<lambda>path.
            case er_kind r of
              Kind_Symlink \<Rightarrow>
                (case utf8_decode (er_target r) of
                   None \<Rightarrow> Inl (Spill_Failure ''Spill target encoding is invalid.'')
                 | Some target \<Rightarrow> and_then (parse_symlink_target target) (\<lambda>t. Inr (Meta_Symlink path t)))
            | Kind_File \<Rightarrow> if er_target r \<noteq> [] then
                  Inl (Spill_Failure ''Non-link spill metadata cannot carry a target.'') else Inr (Meta_File path)
            | Kind_Directory \<Rightarrow> if er_target r \<noteq> [] then
                  Inl (Spill_Failure ''Non-link spill metadata cannot carry a target.'') else Inr (Meta_Directory path)))"

text \<open>\<open>Buffer.compare\<close> is the lexicographic order of the bytes.\<close>

fun bytes_less :: "bytes \<Rightarrow> bytes \<Rightarrow> bool" where
  "bytes_less xs [] \<longleftrightarrow> False"
| "bytes_less [] (y # ys) \<longleftrightarrow> True"
| "bytes_less (x # xs) (y # ys) \<longleftrightarrow> x < y \<or> (x = y \<and> bytes_less xs ys)"

definition is_descendant :: "encoded_record \<Rightarrow> encoded_record \<Rightarrow> bool" where
  "is_descendant r ancestor \<longleftrightarrow>
     length (er_key ancestor) < length (er_key r) \<and> er_key r ! length (er_key ancestor) = 0 \<and>
     take (length (er_key ancestor)) (er_key r) = er_key ancestor"

text \<open>Big-endian numbers of \<open>n\<close> bytes.\<close>

primrec big_endian :: "nat \<Rightarrow> nat \<Rightarrow> bytes" where
  "big_endian 0 v = []"
| "big_endian (Suc n) v = big_endian n (v div 256) @ [word_of_nat (v mod 256)]"

definition read_big_endian :: "bytes \<Rightarrow> nat" where
  "read_big_endian bs = foldl (\<lambda>v b. 256 * v + unat b) 0 bs"

fun kind_byte :: "metadata_kind \<Rightarrow> byte" where
  "kind_byte Kind_File = 1"
| "kind_byte Kind_Directory = 2"
| "kind_byte Kind_Symlink = 3"

definition record_header :: "encoded_record \<Rightarrow> bytes" where
  "record_header r = big_endian 4 (length (er_key r)) @ big_endian 4 (length (er_target r)) @ [kind_byte (er_kind r)]"

text \<open>The bytes a record takes, as \<open>append\<close> of \<open>index.ts\<close> counts them.\<close>

definition encoded_size :: "encoded_record \<Rightarrow> nat" where
  "encoded_size r = record_header_bytes + length (er_key r) + length (er_target r)"

section \<open>Files (storage.ts)\<close>

record spill_driver =
  dv_write :: "nat \<Rightarrow> nat \<Rightarrow> nat option"
  dv_read :: "nat \<Rightarrow> nat \<Rightarrow> nat option"

definition address :: "nat \<Rightarrow> spill_error + nat" where
  "address v = (if safe_integer (int v) then Inr v
     else Inl (Range_Failure ''Spill address exceeds its safe-integer representation.''))"

text \<open>The bytes of a file after a write; a gap before it reads as zeros.\<close>

definition write_at :: "nat \<Rightarrow> bytes \<Rightarrow> bytes \<Rightarrow> bytes" where
  "write_at position bs dat =
     take position (dat @ replicate (position - length dat) 0) @ bs @ drop (position + length bs) dat"

function write_loop :: "spill_driver \<Rightarrow> bytes \<Rightarrow> nat \<Rightarrow> nat \<Rightarrow> bytes \<Rightarrow> spill_error + bytes" where
  "write_loop d bs position written dat =
     (if length bs \<le> written then Inr dat
      else case dv_write d (position + written) (length bs - written) of
          None \<Rightarrow> Inl Driver_Failure
        | Some n \<Rightarrow>
            if n = 0 \<or> length bs - written < n then
              Inl (Spill_Failure ''Spill write returned an invalid progress receipt.'')
            else write_loop d bs position (written + n) (write_at (position + written) (take n (drop written bs)) dat))"
  by pat_completeness auto
termination
proof (relation "measure (\<lambda>(d, bs, position, written, dat). length bs - written)")
  fix d :: spill_driver and bs :: bytes and position written :: nat and dat :: bytes and n
  assume "\<not> length bs \<le> written" "\<not> (n = 0 \<or> length bs - written < n)"
  then show "((d, bs, position, written + n, write_at (position + written) (take n (drop written bs)) dat),
      d, bs, position, written, dat) \<in> measure (\<lambda>(d, bs, position, written, dat). length bs - written)"
    unfolding in_measure prod.case by linarith
qed simp

declare write_loop.simps [simp del]

definition write_all :: "spill_driver \<Rightarrow> bytes \<Rightarrow> bytes \<Rightarrow> nat \<Rightarrow> spill_error + (bytes \<times> nat)" where
  "write_all d dat bs position =
     and_then (address (position + length bs)) (\<lambda>_.
     and_then (write_loop d bs position 0 dat) (\<lambda>dat'. Inr (dat', position + length bs)))"

text \<open>A read hands out no more than the file holds; at its end the progress is zero.\<close>

function read_loop :: "spill_driver \<Rightarrow> bytes \<Rightarrow> nat \<Rightarrow> nat \<Rightarrow> bytes \<Rightarrow> spill_error + bytes" where
  "read_loop d dat n position got =
     (if n \<le> length got then Inr got
      else case dv_read d (position + length got) (n - length got) of
          None \<Rightarrow> Inl Driver_Failure
        | Some k \<Rightarrow>
            let chunk = take k (drop (position + length got) dat)
            in if chunk = [] \<or> n - length got < length chunk then
                 Inl (Spill_Failure ''Spill read returned truncated data or an invalid progress receipt.'')
               else read_loop d dat n position (got @ chunk))"
  by pat_completeness auto
termination
proof (relation "measure (\<lambda>(d, dat, n, position, got). n - length got)")
  fix d :: spill_driver and dat :: bytes and n position :: nat and got chunk :: bytes
  assume "\<not> n \<le> length got" "\<not> (chunk = [] \<or> n - length got < length chunk)"
  then have "n - length (got @ chunk) < n - length got" by (cases chunk) auto
  then show "((d, dat, n, position, got @ chunk), d, dat, n, position, got) \<in>
      measure (\<lambda>(d, dat, n, position, got). n - length got)"
    by simp
qed simp

declare read_loop.simps [simp del]

definition read_exact :: "spill_driver \<Rightarrow> bytes \<Rightarrow> nat \<Rightarrow> nat \<Rightarrow> spill_error + bytes" where
  "read_exact d dat n position = and_then (address (position + n)) (\<lambda>_. read_loop d dat n position [])"

definition write_record :: "spill_driver \<Rightarrow> bytes \<Rightarrow> encoded_record \<Rightarrow> nat \<Rightarrow> spill_error + (bytes \<times> nat)" where
  "write_record d dat r position =
     and_then (write_all d dat (record_header r) position) (\<lambda>(f1, p1).
     and_then (write_all d f1 (er_key r) p1) (\<lambda>(f2, p2). write_all d f2 (er_target r) p2))"

definition kind_of_byte :: "byte \<Rightarrow> metadata_kind option" where
  "kind_of_byte b = (if b = 1 then Some Kind_File else if b = 2 then Some Kind_Directory
     else if b = 3 then Some Kind_Symlink else None)"

record run_cursor =
  rc_position :: nat
  rc_end :: nat

definition invalid_metadata :: "nat \<Rightarrow> nat \<Rightarrow> metadata_kind option \<Rightarrow> nat \<Rightarrow> bool" where
  "invalid_metadata key_length target_length kind room \<longleftrightarrow>
     key_length < 1 \<or> max_path_bytes < key_length \<or> kind = None \<or> max_symlink_target_bytes < target_length \<or>
     (if kind = Some Kind_Symlink then target_length = 0 else target_length \<noteq> 0) \<or>
     room < record_header_bytes + key_length + target_length"

definition read_record ::
    "spill_driver \<Rightarrow> bytes \<Rightarrow> run_cursor \<Rightarrow> spill_error + (encoded_record option \<times> run_cursor)" where
  "read_record d dat c =
     (if rc_position c = rc_end c then Inr (None, c)
      else if rc_end c - rc_position c < record_header_bytes then Inl (Spill_Failure ''Spill record header is truncated.'')
      else and_then (read_exact d dat record_header_bytes (rc_position c)) (\<lambda>header.
        let n = read_big_endian (take 4 header); m = read_big_endian (take 4 (drop 4 header));
            kind = kind_of_byte (header ! 8)
        in if invalid_metadata n m kind (rc_end c - rc_position c) then
             Inl (Spill_Failure ''Spill record metadata is invalid.'')
           else and_then (read_exact d dat n (rc_position c + record_header_bytes)) (\<lambda>key.
             and_then (read_exact d dat m (rc_position c + record_header_bytes + n)) (\<lambda>target.
             and_then (address (rc_position c + record_header_bytes + n + m)) (\<lambda>position.
               Inr (Some \<lparr>er_kind = the kind, er_key = key, er_target = target\<rparr>, c\<lparr>rc_position := position\<rparr>))))))"

lemma read_record_advances:
  "read_record d dat c = Inr (Some r, c') \<Longrightarrow>
   rc_position c < rc_position c' \<and> rc_position c' \<le> rc_end c' \<and> rc_end c' = rc_end c"
  by (auto simp: read_record_def Let_def result_simps address_def invalid_metadata_def split: if_splits)

lemma read_record_None: "read_record d dat c = Inr (None, c') \<Longrightarrow> c' = c"
  by (auto simp: read_record_def Let_def result_simps split: if_splits)

definition write_offset :: "spill_driver \<Rightarrow> bytes \<Rightarrow> nat \<Rightarrow> nat \<Rightarrow> spill_error + bytes" where
  "write_offset d dat ordinal position =
     and_then (address position) (\<lambda>p. and_then (address (ordinal * 8)) (\<lambda>a.
     and_then (write_all d dat (big_endian 8 p) a) (\<lambda>(f, _). Inr f)))"

definition read_offset :: "spill_driver \<Rightarrow> bytes \<Rightarrow> nat \<Rightarrow> spill_error + nat" where
  "read_offset d dat ordinal =
     and_then (address (ordinal * 8)) (\<lambda>a. and_then (read_exact d dat 8 a) (\<lambda>bs.
       if \<not> safe_integer (int (read_big_endian bs)) then
         Inl (Spill_Failure ''Spill index offset exceeds its safe address representation.'')
       else Inr (read_big_endian bs)))"

definition write_descriptor :: "spill_driver \<Rightarrow> bytes \<Rightarrow> nat \<Rightarrow> nat \<Rightarrow> nat \<Rightarrow> spill_error + (bytes \<times> nat)" where
  "write_descriptor d dat position start stop =
     and_then (address start) (\<lambda>s. and_then (address stop) (\<lambda>e.
       write_all d dat (big_endian 8 s @ big_endian 8 e) position))"

definition read_descriptor :: "spill_driver \<Rightarrow> bytes \<Rightarrow> nat \<Rightarrow> spill_error + run_cursor" where
  "read_descriptor d dat position =
     and_then (read_exact d dat descriptor_bytes position) (\<lambda>bs.
       let first = read_big_endian (take 8 bs); final = read_big_endian (drop 8 bs)
       in if \<not> safe_integer (int first) \<or> \<not> safe_integer (int final) \<or> final \<le> first then
            Inl (Spill_Failure ''Spill run descriptor exceeds its safe address representation.'')
          else Inr \<lparr>rc_position = first, rc_end = final\<rparr>)"


text \<open>
  Laws of the spill files: with a driver that makes progress, appending is appending and reading
  returns the bytes; numbers and records come back as they were written; a cursor on a region that
  holds encoded records reads them one after the other; decoding a record undoes encoding it.
\<close>

section \<open>Drivers\<close>

text \<open>
  What the code relies on of a driver: every call moves at least one byte and no more than it was
  asked for, and never throws.
\<close>

definition honest_driver :: "spill_driver \<Rightarrow> bool" where
  "honest_driver d \<longleftrightarrow> (\<forall>position n. 0 < n \<longrightarrow>
     (\<exists>k. dv_write d position n = Some k \<and> 0 < k \<and> k \<le> n) \<and>
     (\<exists>k. dv_read d position n = Some k \<and> 0 < k \<and> k \<le> n))"

definition safe_size :: "nat \<Rightarrow> bool" where
  "safe_size n \<longleftrightarrow> int n \<le> max_safe_integer"

lemma honest_write: "honest_driver d \<Longrightarrow> 0 < n \<Longrightarrow> \<exists>k. dv_write d position n = Some k \<and> 0 < k \<and> k \<le> n"
  by (simp add: honest_driver_def)

lemma honest_read: "honest_driver d \<Longrightarrow> 0 < n \<Longrightarrow> \<exists>k. dv_read d position n = Some k \<and> 0 < k \<and> k \<le> n"
  by (simp add: honest_driver_def)

lemma safe_size_mono: "safe_size n \<Longrightarrow> m \<le> n \<Longrightarrow> safe_size m"
  by (simp add: safe_size_def)

lemma address_safe [simp]: "safe_size n \<Longrightarrow> address n = Inr n"
  by (simp add: address_def safe_size_def safe_integer_def max_safe_integer_def)

lemma write_loop_appends:
  "honest_driver d \<Longrightarrow> written \<le> length bs \<Longrightarrow>
   write_loop d bs (length dat) written (dat @ take written bs) = Inr (dat @ bs)"
proof (induction "length bs - written" arbitrary: written rule: less_induct)
  case less
  show ?case
  proof (cases "length bs \<le> written")
    case True
    then show ?thesis by (simp add: write_loop.simps [of d bs "length dat" written])
  next
    case False
    then obtain k where k: "dv_write d (length dat + written) (length bs - written) = Some k" "0 < k"
        "k \<le> length bs - written"
      using honest_write [of d "length bs - written"] less.prems(1) by auto
    have "write_at (length dat + written) (take k (drop written bs)) (dat @ take written bs) =
        dat @ take (written + k) bs"
      using False k by (simp add: write_at_def take_add)
    moreover have "write_loop d bs (length dat) (written + k) (dat @ take (written + k) bs) = Inr (dat @ bs)"
      using less k False by auto
    ultimately show ?thesis using k False by (simp add: write_loop.simps [of d bs "length dat" written])
  qed
qed

lemma write_all_appends:
  "honest_driver d \<Longrightarrow> safe_size (length dat + length bs) \<Longrightarrow>
   write_all d dat bs (length dat) = Inr (dat @ bs, length dat + length bs)"
  using write_loop_appends [of d 0 bs dat] by (simp add: write_all_def)

lemma read_loop_exact:
  "honest_driver d \<Longrightarrow> position + n \<le> length dat \<Longrightarrow> m \<le> n \<Longrightarrow>
   read_loop d dat n position (take m (drop position dat)) = Inr (take n (drop position dat))"
proof (induction "n - m" arbitrary: m rule: less_induct)
  case less
  have len: "length (take m (drop position dat)) = m" using less.prems by simp
  show ?case
  proof (cases "n \<le> m")
    case True
    then show ?thesis using less.prems len by (simp add: read_loop.simps [of d dat _ position "take m (drop position dat)"])
  next
    case False
    then obtain k where k: "dv_read d (position + m) (n - m) = Some k" "0 < k" "k \<le> n - m"
      using honest_read [of d "n - m" "position + m"] less.prems(1) by auto
    let ?chunk = "take k (drop (position + m) dat)"
    have chunk: "length ?chunk = k" using k less.prems False by simp
    then have "?chunk \<noteq> []" using k by auto
    moreover have "take m (drop position dat) @ ?chunk = take (m + k) (drop position dat)"
      by (simp only: take_add drop_drop add.commute [of m position])
    moreover have "read_loop d dat n position (take (m + k) (drop position dat)) = Inr (take n (drop position dat))"
      using less k False by auto
    ultimately show ?thesis using k False chunk len
      by (simp add: read_loop.simps [of d dat n position "take m (drop position dat)"])
  qed
qed

lemma read_exact_returns:
  "honest_driver d \<Longrightarrow> safe_size (length dat) \<Longrightarrow> position + n \<le> length dat \<Longrightarrow>
   read_exact d dat n position = Inr (take n (drop position dat))"
  using read_loop_exact [of d position n dat 0] safe_size_mono by (simp add: read_exact_def)

section \<open>Numbers\<close>

lemma length_big_endian [simp]: "length (big_endian n v) = n"
  by (induction n arbitrary: v) simp_all

lemma read_big_endian_snoc [simp]: "read_big_endian (bs @ [b]) = 256 * read_big_endian bs + unat b"
  by (simp add: read_big_endian_def)

lemma big_endian_roundtrip: "v < 256 ^ n \<Longrightarrow> read_big_endian (big_endian n v) = v"
proof (induction n arbitrary: v)
  case (Suc n)
  have "v div 256 < 256 ^ n" using Suc.prems by (simp add: less_mult_imp_div_less mult.commute)
  then show ?case using Suc.IH by (simp add: unat_of_nat)
qed (simp add: read_big_endian_def)

section \<open>Encoded records\<close>

definition wf_encoded :: "encoded_record \<Rightarrow> bool" where
  "wf_encoded r \<longleftrightarrow> er_key r \<noteq> [] \<and> length (er_key r) \<le> max_path_bytes \<and>
     length (er_target r) \<le> max_symlink_target_bytes \<and> (er_kind r = Kind_Symlink \<longleftrightarrow> er_target r \<noteq> [])"

definition record_bytes :: "encoded_record \<Rightarrow> bytes" where
  "record_bytes r = record_header r @ er_key r @ er_target r"

definition run_bytes :: "encoded_record list \<Rightarrow> bytes" where
  "run_bytes rs = concat (map record_bytes rs)"

lemma length_record_header [simp]: "length (record_header r) = record_header_bytes"
  by (simp add: record_header_def record_header_bytes_def)

lemma length_record_bytes: "length (record_bytes r) = encoded_size r"
  by (simp add: record_bytes_def encoded_size_def)

lemma run_bytes_simps [simp]:
  "run_bytes [] = []" "run_bytes (r # rs) = record_bytes r @ run_bytes rs"
  "run_bytes (rs @ ss) = run_bytes rs @ run_bytes ss"
  by (simp_all add: run_bytes_def)

lemma encoded_size_positive: "0 < encoded_size r"
  by (simp add: encoded_size_def record_header_bytes_def)

lemma write_record_appends:
  assumes "honest_driver d" "safe_size (length dat + encoded_size r)"
  shows "write_record d dat r (length dat) = Inr (dat @ record_bytes r, length dat + encoded_size r)"
proof -
  have "write_all d dat (record_header r) (length dat) =
      Inr (dat @ record_header r, length (dat @ record_header r))"
    using write_all_appends [of d dat "record_header r"] assms safe_size_mono by (simp add: encoded_size_def)
  moreover have "write_all d (dat @ record_header r) (er_key r) (length (dat @ record_header r)) =
      Inr (dat @ record_header r @ er_key r, length (dat @ record_header r @ er_key r))"
    using write_all_appends [of d "dat @ record_header r" "er_key r"] assms safe_size_mono
    by (simp add: encoded_size_def)
  moreover have "write_all d (dat @ record_header r @ er_key r) (er_target r) (length (dat @ record_header r @ er_key r)) =
      Inr (dat @ record_bytes r, length dat + encoded_size r)"
    using write_all_appends [of d "dat @ record_header r @ er_key r" "er_target r"] assms
    by (simp add: encoded_size_def record_bytes_def algebra_simps)
  ultimately show ?thesis by (simp add: write_record_def)
qed

lemma kind_of_kind_byte [simp]: "kind_of_byte (kind_byte k) = Some k"
  by (cases k) (simp_all add: kind_of_byte_def)

lemma record_header_fields:
  assumes "wf_encoded r"
  shows "read_big_endian (take 4 (record_header r)) = length (er_key r)"
    and "read_big_endian (take 4 (drop 4 (record_header r))) = length (er_target r)"
    and "kind_of_byte (record_header r ! 8) = Some (er_kind r)"
proof -
  have "length (er_key r) < 256 ^ 4" "length (er_target r) < 256 ^ 4"
    using assms by (auto simp: wf_encoded_def max_path_bytes_def max_symlink_target_bytes_def)
  then show "read_big_endian (take 4 (record_header r)) = length (er_key r)"
    and "read_big_endian (take 4 (drop 4 (record_header r))) = length (er_target r)"
    by (simp_all add: record_header_def big_endian_roundtrip)
  show "kind_of_byte (record_header r ! 8) = Some (er_kind r)"
    by (simp add: record_header_def nth_append)
qed

text \<open>\<open>holds_run dat c rs\<close>: between the cursor and its end the file holds just the records \<open>rs\<close>.\<close>

definition holds_run :: "bytes \<Rightarrow> run_cursor \<Rightarrow> encoded_record list \<Rightarrow> bool" where
  "holds_run dat c rs \<longleftrightarrow> rc_end c \<le> length dat \<and> rc_position c \<le> rc_end c \<and>
     take (rc_end c - rc_position c) (drop (rc_position c) dat) = run_bytes rs"

lemma holds_run_append:
  "holds_run (pre @ run_bytes rs @ post)
     \<lparr>rc_position = length pre, rc_end = length pre + length (run_bytes rs)\<rparr> rs"
  by (simp add: holds_run_def)

lemma holds_run_length: "holds_run dat c rs \<Longrightarrow> rc_end c = rc_position c + length (run_bytes rs)"
  unfolding holds_run_def by (metis length_take length_drop diff_le_mono le_add_diff_inverse min_absorb2)

lemma holds_run_Nil: "holds_run dat c [] \<Longrightarrow> rc_position c = rc_end c"
  using holds_run_length [of dat c "[]"] by simp

lemma holds_run_ConsD:
  assumes "holds_run dat c (r # rs)"
  shows "holds_run dat (c\<lparr>rc_position := rc_position c + encoded_size r\<rparr>) rs"
    and "take (encoded_size r) (drop (rc_position c) dat) = record_bytes r"
proof -
  let ?n = "length (run_bytes rs)"
  have stop: "rc_end c = rc_position c + (encoded_size r + ?n)"
    using holds_run_length [OF assms] by (simp add: length_record_bytes)
  have all: "take (encoded_size r + ?n) (drop (rc_position c) dat) = record_bytes r @ run_bytes rs"
    using assms stop by (simp add: holds_run_def)
  have "take (encoded_size r) (take (encoded_size r + ?n) (drop (rc_position c) dat)) = record_bytes r"
    unfolding all by (simp add: length_record_bytes)
  then show "take (encoded_size r) (drop (rc_position c) dat) = record_bytes r" by simp
  have "drop (encoded_size r) (take (encoded_size r + ?n) (drop (rc_position c) dat)) = run_bytes rs"
    unfolding all by (simp add: length_record_bytes)
  then have "take ?n (drop (rc_position c + encoded_size r) dat) = run_bytes rs"
    by (simp add: drop_take add.commute)
  then show "holds_run dat (c\<lparr>rc_position := rc_position c + encoded_size r\<rparr>) rs"
    using assms stop by (simp add: holds_run_def)
qed

lemma take_part:
  assumes "take n xs = as @ bs @ cs" "length as = i" "length bs = m" "i + m \<le> n"
  shows "take m (drop i xs) = bs"
proof -
  have "take m (drop i (take n xs)) = take m (drop i xs)" using assms(4) by (simp add: drop_take min_absorb1)
  then show ?thesis using assms(1-3) by simp
qed

lemma read_record_holds_Nil: "holds_run dat c [] \<Longrightarrow> read_record d dat c = Inr (None, c)"
  by (simp add: read_record_def holds_run_Nil)

lemma read_record_holds_Cons:
  assumes d: "honest_driver d" and safe: "safe_size (length dat)" and wf: "wf_encoded r"
    and c: "holds_run dat c (r # rs)"
  shows "read_record d dat c = Inr (Some r, c\<lparr>rc_position := rc_position c + encoded_size r\<rparr>)"
proof -
  let ?p = "rc_position c" and ?n = "length (er_key r)" and ?m = "length (er_target r)"
  have stop: "rc_end c = ?p + (encoded_size r + length (run_bytes rs))" and le: "rc_end c \<le> length dat"
    using holds_run_length [OF c] c by (simp_all add: length_record_bytes holds_run_def)
  have bytes: "take (encoded_size r) (drop ?p dat) = record_header r @ er_key r @ er_target r"
    using holds_run_ConsD(2) [OF c] by (simp add: record_bytes_def)
  have header: "take record_header_bytes (drop ?p dat) = record_header r"
    using take_part [of "encoded_size r" "drop ?p dat" "[]" "record_header r" "er_key r @ er_target r" 0 record_header_bytes]
      bytes by (simp add: encoded_size_def)
  have key: "take ?n (drop (?p + record_header_bytes) dat) = er_key r"
    using take_part [OF bytes, of record_header_bytes ?n] by (simp add: encoded_size_def add.commute)
  have target: "take ?m (drop (?p + record_header_bytes + ?n) dat) = er_target r"
    using take_part [of "encoded_size r" "drop ?p dat" "record_header r @ er_key r" "er_target r" "[]"
      "record_header_bytes + ?n" ?m] bytes by (simp add: encoded_size_def add.commute add.left_commute)
  have reads: "read_exact d dat record_header_bytes ?p = Inr (record_header r)"
      "read_exact d dat ?n (?p + record_header_bytes) = Inr (er_key r)"
      "read_exact d dat ?m (?p + record_header_bytes + ?n) = Inr (er_target r)"
    using read_exact_returns [OF d safe] stop le header key target by (simp_all add: encoded_size_def)
  have valid: "\<not> invalid_metadata ?n ?m (Some (er_kind r)) (rc_end c - ?p)"
    using wf stop by (auto simp: invalid_metadata_def wf_encoded_def encoded_size_def Suc_le_eq)
  have "?p \<noteq> rc_end c" "\<not> rc_end c - ?p < record_header_bytes"
    using stop encoded_size_positive [of r] by (auto simp: encoded_size_def)
  moreover have "safe_size (?p + record_header_bytes + ?n + ?m)"
    using safe_size_mono [OF safe] stop le by (simp add: encoded_size_def)
  ultimately show ?thesis using reads valid
    by (simp add: read_record_def record_header_fields [OF wf] Let_def encoded_size_def add.assoc)
qed

section \<open>Offsets and descriptors\<close>

lemma eight_bytes: "safe_size n \<Longrightarrow> n < 256 ^ 8"
  by (simp add: safe_size_def max_safe_integer_def)

lemma write_offset_appends:
  assumes "honest_driver d" "safe_size position" "safe_size (8 * ordinal + 8)" "length dat = 8 * ordinal"
  shows "write_offset d dat ordinal position = Inr (dat @ big_endian 8 position)"
  using write_all_appends [of d dat "big_endian 8 position"] assms safe_size_mono [OF assms(3), of "8 * ordinal"]
  by (simp add: write_offset_def mult.commute)

lemma read_offset_returns:
  assumes "honest_driver d" "safe_size (length dat)" "8 * ordinal + 8 \<le> length dat"
    and "take 8 (drop (8 * ordinal) dat) = big_endian 8 position" "safe_size position"
  shows "read_offset d dat ordinal = Inr position"
  using read_exact_returns [of d dat "8 * ordinal" 8] assms safe_size_mono [OF assms(2), of "8 * ordinal"] eight_bytes [OF assms(5)]
  by (simp add: read_offset_def mult.commute big_endian_roundtrip safe_size_def safe_integer_def max_safe_integer_def)

definition descriptor :: "nat \<Rightarrow> nat \<Rightarrow> bytes" where
  "descriptor start stop = big_endian 8 start @ big_endian 8 stop"

lemma length_descriptor [simp]: "length (descriptor start stop) = descriptor_bytes"
  by (simp add: descriptor_def descriptor_bytes_def)

lemma write_descriptor_appends:
  assumes "honest_driver d" "safe_size start" "safe_size stop" "safe_size (length dat + descriptor_bytes)"
  shows "write_descriptor d dat (length dat) start stop =
    Inr (dat @ descriptor start stop, length dat + descriptor_bytes)"
  using write_all_appends [of d dat "descriptor start stop"] assms by (simp add: write_descriptor_def descriptor_def descriptor_bytes_def)

lemma read_descriptor_returns:
  assumes "honest_driver d" "safe_size (length dat)" "position + descriptor_bytes \<le> length dat"
    and "take descriptor_bytes (drop position dat) = descriptor start stop"
    and "safe_size stop" "start < stop"
  shows "read_descriptor d dat position = Inr \<lparr>rc_position = start, rc_end = stop\<rparr>"
proof -
  have start: "safe_size start" using assms(5,6) safe_size_mono by simp
  have "read_exact d dat descriptor_bytes position = Inr (descriptor start stop)"
    using read_exact_returns assms(1-4) by simp
  moreover have "read_big_endian (take 8 (descriptor start stop)) = start"
      "read_big_endian (drop 8 (descriptor start stop)) = stop"
    using eight_bytes start assms(5) by (simp_all add: descriptor_def big_endian_roundtrip)
  ultimately show ?thesis using start assms(5,6)
    by (simp add: read_descriptor_def Let_def safe_size_def safe_integer_def max_safe_integer_def)
qed

end
