(* ===== verification/Metadata_Ledger.thy ===== *)
theory Metadata_Ledger
  imports Spill_Records
begin

text \<open>
  The metadata ledger of \<open>sandbox/src/files/metadata\<close>: the external merge sort and the validation of
  the sorted run in \<open>sort.ts\<close>, and the ledger of \<open>index.ts\<close> with its batches, its offset index and
  the binary search over it.

  Calls come one after the other; what the code does about overlapping calls, a second reader and
  an aborted signal is not modelled.  After an error the ledger is in its failed phase and only
  closing it does anything, so the other fields keep their values there.
\<close>

section \<open>Merging (sort.ts)\<close>

record spill_files =
  sf_data0 :: bytes
  sf_data1 :: bytes
  sf_descriptors0 :: bytes
  sf_descriptors1 :: bytes

record sort_state =
  so_runs :: nat
  so_end :: nat
  so_descriptor_end :: nat

type_synonym merge_head = "run_cursor \<times> encoded_record option"

fun open_heads :: "spill_driver \<Rightarrow> bytes \<Rightarrow> bytes \<Rightarrow> nat \<Rightarrow> nat \<Rightarrow> spill_error + merge_head list" where
  "open_heads d dat descriptors index 0 = Inr []"
| "open_heads d dat descriptors index (Suc n) =
     and_then (address (index * descriptor_bytes)) (\<lambda>a.
     and_then (read_descriptor d descriptors a) (\<lambda>cursor.
     and_then (read_record d dat cursor) (\<lambda>(r, cursor').
     and_then (open_heads d dat descriptors (index + 1) n) (\<lambda>heads. Inr ((cursor', r) # heads)))))"

text \<open>The first head with the smallest key.\<close>

fun select_head :: "nat \<Rightarrow> (nat \<times> encoded_record) option \<Rightarrow> merge_head list \<Rightarrow> (nat \<times> encoded_record) option" where
  "select_head i selected [] = selected"
| "select_head i selected ((c, None) # heads) = select_head (i + 1) selected heads"
| "select_head i selected ((c, Some r) # heads) =
     select_head (i + 1)
       (case selected of
          None \<Rightarrow> Some (i, r)
        | Some (j, s) \<Rightarrow> if bytes_less (er_key r) (er_key s) then Some (i, r) else selected) heads"

lemma select_head_cases:
  "select_head i selected heads = Some (k, r) \<Longrightarrow>
   selected = Some (k, r) \<or> (i \<le> k \<and> k < i + length heads \<and> snd (heads ! (k - i)) = Some r)"
proof (induction i selected heads rule: select_head.induct)
  case (2 i selected c heads)
  then show ?case by (auto simp: Suc_diff_le nth_Cons' le_Suc_eq)
next
  case (3 i selected c r' heads)
  then show ?case by (auto simp: nth_Cons' split: option.splits if_splits prod.splits)
qed simp

definition head_weight :: "merge_head \<Rightarrow> nat" where
  "head_weight h = rc_end (fst h) - rc_position (fst h) + (if snd h = None then 0 else 1)"

lemma sum_list_update_less:
  fixes f :: "'a \<Rightarrow> nat"
  shows "i < length xs \<Longrightarrow> f y < f (xs ! i) \<Longrightarrow> sum_list (map f (xs[i := y])) < sum_list (map f xs)"
proof (induction xs arbitrary: i)
  case (Cons x xs)
  then show ?case by (cases i) auto
qed simp

lemma next_head_lighter:
  assumes "read_record d dat c = Inr (r', c')"
  shows "head_weight (c', r') < head_weight (c, Some r)"
proof (cases r')
  case None
  then show ?thesis using read_record_None assms by (auto simp: head_weight_def)
next
  case (Some r1)
  then show ?thesis using read_record_advances [of d dat c r1 c'] assms by (auto simp: head_weight_def)
qed

function merge_heads :: "spill_driver \<Rightarrow> bytes \<Rightarrow> merge_head list \<Rightarrow> bytes \<Rightarrow> nat \<Rightarrow> spill_error + (bytes \<times> nat)" where
  "merge_heads d dat heads out stop =
     (case select_head 0 None heads of
        None \<Rightarrow> Inr (out, stop)
      | Some (k, r) \<Rightarrow>
          (case write_record d out r stop of
             Inl e \<Rightarrow> Inl e
           | Inr (out', stop') \<Rightarrow>
               (case read_record d dat (fst (heads ! k)) of
                  Inl e \<Rightarrow> Inl e
                | Inr (r', c') \<Rightarrow> merge_heads d dat (heads[k := (c', r')]) out' stop')))"
  by pat_completeness auto
termination
proof (relation "measure (\<lambda>(d, dat, heads, out, stop). sum_list (map head_weight heads))")
  fix d :: spill_driver and dat out out' :: bytes and heads :: "merge_head list" and stop stop' k r r' c'
    and kr :: "nat \<times> encoded_record" and w rr
  assume "select_head 0 None heads = Some kr" "(k, r) = kr" "read_record d dat (fst (heads ! k)) = Inr rr" "(r', c') = rr"
  then have k: "k < length heads" "snd (heads ! k) = Some r" and read: "read_record d dat (fst (heads ! k)) = Inr (r', c')"
    using select_head_cases [of 0 None heads k r] by auto
  have "head_weight (c', r') < head_weight (fst (heads ! k), Some r)" by (rule next_head_lighter [OF read])
  then have "head_weight (c', r') < head_weight (heads ! k)" using k(2) by (metis prod.collapse)
  then show "((d, dat, heads[k := (c', r')], out', stop'), d, dat, heads, out, stop) \<in>
      measure (\<lambda>(d, dat, heads, out, stop). sum_list (map head_weight heads))"
    using k(1) by (simp add: sum_list_update_less)
qed simp

declare merge_heads.simps [simp del]

record merge_output =
  mo_data :: bytes
  mo_descriptors :: bytes
  mo_end :: nat
  mo_descriptor_end :: nat
  mo_runs :: nat

definition merge_group ::
    "spill_driver \<Rightarrow> spill_files \<Rightarrow> nat \<Rightarrow> nat \<Rightarrow> merge_output \<Rightarrow> spill_error + merge_output" where
  "merge_group d files index count out =
     and_then (open_heads d (sf_data0 files) (sf_descriptors0 files) index count) (\<lambda>heads.
     and_then (merge_heads d (sf_data0 files) heads (mo_data out) (mo_end out)) (\<lambda>(dat, stop).
     and_then (write_descriptor d (mo_descriptors out) (mo_descriptor_end out) (mo_end out) stop) (\<lambda>(descriptors, descriptor_end).
     and_then (address (mo_runs out + 1)) (\<lambda>runs.
       Inr \<lparr>mo_data = dat, mo_descriptors = descriptors, mo_end = stop, mo_descriptor_end = descriptor_end,
         mo_runs = runs\<rparr>))))"

text \<open>The groups of a pass; a fan-in of at least two is checked when the ledger is created.\<close>

function merge_groups ::
    "spill_driver \<Rightarrow> spill_files \<Rightarrow> nat \<Rightarrow> nat \<Rightarrow> nat \<Rightarrow> merge_output \<Rightarrow> spill_error + merge_output" where
  "merge_groups d files runs fan_in index out =
     (if runs \<le> index \<or> fan_in = 0 then Inr out
      else let count = min fan_in (runs - index)
           in case merge_group d files index count out of
                Inl e \<Rightarrow> Inl e
              | Inr out' \<Rightarrow> merge_groups d files runs fan_in (index + count) out')"
  by pat_completeness auto
termination
  by (relation "measure (\<lambda>(d, files, runs, fan_in, index, out). runs - index)") auto

declare merge_groups.simps [simp del]

definition empty_output :: merge_output where
  "empty_output = \<lparr>mo_data = [], mo_descriptors = [], mo_end = 0, mo_descriptor_end = 0, mo_runs = 0\<rparr>"

definition merge_pass ::
    "spill_driver \<Rightarrow> spill_files \<Rightarrow> sort_state \<Rightarrow> nat \<Rightarrow> spill_error + (spill_files \<times> sort_state)" where
  "merge_pass d files st fan_in =
     and_then (merge_groups d files (so_runs st) fan_in 0 empty_output) (\<lambda>out.
       Inr (\<lparr>sf_data0 = mo_data out, sf_data1 = sf_data0 files, sf_descriptors0 = mo_descriptors out,
               sf_descriptors1 = sf_descriptors0 files\<rparr>,
            \<lparr>so_runs = mo_runs out, so_end = mo_end out, so_descriptor_end = mo_descriptor_end out\<rparr>))"

lemma merge_groups_runs:
  "merge_groups d files runs fan_in index out = Inr out' \<Longrightarrow> 2 \<le> fan_in \<Longrightarrow>
   2 * mo_runs out' \<le> 2 * mo_runs out + (runs - index) + 1 \<and> (runs \<le> index \<longrightarrow> out' = out)"
proof (induction d files runs fan_in index out rule: merge_groups.induct)
  case (1 d files runs fan_in index out)
  show ?case
  proof (cases "runs \<le> index \<or> fan_in = 0")
    case True
    then show ?thesis using "1.prems" by (auto simp: merge_groups.simps [of d files runs fan_in index out])
  next
    case False
    let ?count = "min fan_in (runs - index)"
    obtain out1 where out1: "merge_group d files index ?count out = Inr out1"
      and rest: "merge_groups d files runs fan_in (index + ?count) out1 = Inr out'"
      using "1.prems"(1) False by (subst (asm) merge_groups.simps) (auto simp: Let_def split: sum.splits)
    have runs1: "mo_runs out1 = mo_runs out + 1"
      using out1 by (auto simp: merge_group_def result_simps address_def split: if_splits)
    have ih: "2 * mo_runs out' \<le> 2 * mo_runs out1 + (runs - (index + ?count)) + 1 \<and>
        (runs \<le> index + ?count \<longrightarrow> out' = out1)"
      using "1.IH" [OF False refl out1 rest "1.prems"(2)] .
    show ?thesis
    proof (cases "runs \<le> index + ?count")
      case True
      then show ?thesis using ih runs1 False by auto
    next
      case more: False
      then have "2 \<le> ?count" using "1.prems"(2) by auto
      then show ?thesis using ih runs1 False more by linarith
    qed
  qed
qed

lemma merge_pass_runs:
  "merge_pass d files st fan_in = Inr (files', st') \<Longrightarrow> 2 \<le> fan_in \<Longrightarrow> 1 < so_runs st \<Longrightarrow> so_runs st' < so_runs st"
  using merge_groups_runs [of d files "so_runs st" fan_in 0 empty_output]
  by (auto simp: merge_pass_def result_simps empty_output_def)

function merge_runs ::
    "spill_driver \<Rightarrow> nat \<Rightarrow> spill_files \<Rightarrow> sort_state \<Rightarrow> spill_error + (spill_files \<times> sort_state)" where
  "merge_runs d fan_in files st =
     (if so_runs st \<le> 1 \<or> fan_in < 2 then Inr (files, st)
      else case merge_pass d files st fan_in of
          Inl e \<Rightarrow> Inl e
        | Inr (files', st') \<Rightarrow> merge_runs d fan_in files' st')"
  by pat_completeness auto
termination
  by (relation "measure (\<lambda>(d, fan_in, files, st). so_runs st)") (auto dest: merge_pass_runs)

declare merge_runs.simps [simp del]

section \<open>Validation of the sorted run (sort.ts)\<close>

text \<open>The ancestors are a stack, its top first.\<close>

definition check_record :: "encoded_record \<Rightarrow> encoded_record list \<Rightarrow> spill_error + encoded_record list" where
  "check_record r ancestors =
     and_then (decode_record r) (\<lambda>decoded.
       if ancestors \<noteq> [] \<and> er_key (hd ancestors) = er_key r then Inl (Conflict Duplicate_Path (meta_path decoded))
       else let remaining = dropWhile (\<lambda>a. \<not> is_descendant r a) ancestors
            in if remaining \<noteq> [] \<and> er_kind (hd remaining) = Kind_File then
                 Inl (Conflict File_Ancestor (meta_path decoded))
               else if remaining \<noteq> [] \<and> er_kind (hd remaining) = Kind_Symlink then
                 Inl (Conflict Symlink_Ancestor (meta_path decoded))
               else Inr (r # remaining))"

function validate_run :: "spill_driver \<Rightarrow> bytes \<Rightarrow> run_cursor \<Rightarrow> encoded_record list \<Rightarrow> spill_error + unit" where
  "validate_run d dat c ancestors =
     (case read_record d dat c of
        Inl e \<Rightarrow> Inl e
      | Inr (None, c') \<Rightarrow> Inr ()
      | Inr (Some r, c') \<Rightarrow>
          (case check_record r ancestors of
             Inl e \<Rightarrow> Inl e
           | Inr ancestors' \<Rightarrow> validate_run d dat c' ancestors'))"
  by pat_completeness auto
termination
  by (relation "measure (\<lambda>(d, dat, c, ancestors). rc_end c - rc_position c)") (auto dest!: read_record_advances)

declare validate_run.simps [simp del]

section \<open>The ledger (index.ts)\<close>

datatype ledger_phase = Ledger_Open | Ledger_Sealed | Ledger_Failed | Ledger_Closed

record metadata_ledger =
  ml_phase :: ledger_phase
  ml_files :: spill_files
  ml_batch :: "encoded_record list"
  ml_batch_size :: nat
  ml_state :: sort_state
  ml_record_count :: nat
  ml_batch_bytes :: nat
  ml_fan_in :: nat

definition empty_files :: spill_files where
  "empty_files = \<lparr>sf_data0 = [], sf_data1 = [], sf_descriptors0 = [], sf_descriptors1 = []\<rparr>"

definition create_metadata_ledger :: "int \<Rightarrow> int \<Rightarrow> spill_error + metadata_ledger" where
  "create_metadata_ledger batch_bytes fan_in =
     (if \<not> safe_integer batch_bytes \<or> batch_bytes < int max_record_bytes \<or> 4 * 1024 * 1024 < batch_bytes then
        Inl (Range_Failure ''Metadata batch working set'')
      else if \<not> safe_integer fan_in \<or> fan_in < 2 \<or> 32 < fan_in then
        Inl (Range_Failure ''Metadata merge fan-in must be between 2 and 32.'')
      else Inr \<lparr>ml_phase = Ledger_Open, ml_files = empty_files, ml_batch = [], ml_batch_size = 0,
        ml_state = \<lparr>so_runs = 0, so_end = 0, so_descriptor_end = 0\<rparr>, ml_record_count = 0,
        ml_batch_bytes = nat batch_bytes, ml_fan_in = nat fan_in\<rparr>)"

text \<open>\<open>batch.sort(compareRecords)\<close>: each record, from the last to the first, goes before the first one that is not smaller, which is the stable sort.\<close>

fun insert_record :: "encoded_record \<Rightarrow> encoded_record list \<Rightarrow> encoded_record list" where
  "insert_record r [] = [r]"
| "insert_record r (s # ss) = (if bytes_less (er_key s) (er_key r) then s # insert_record r ss else r # s # ss)"

definition sort_records :: "encoded_record list \<Rightarrow> encoded_record list" where
  "sort_records rs = foldr insert_record rs []"

fun write_records :: "spill_driver \<Rightarrow> bytes \<Rightarrow> nat \<Rightarrow> encoded_record list \<Rightarrow> spill_error + (bytes \<times> nat)" where
  "write_records d dat stop [] = Inr (dat, stop)"
| "write_records d dat stop (r # rs) =
     and_then (write_record d dat r stop) (\<lambda>(dat', stop'). write_records d dat' stop' rs)"

definition flush_batch :: "spill_driver \<Rightarrow> metadata_ledger \<Rightarrow> spill_error + metadata_ledger" where
  "flush_batch d ml =
     (if ml_batch ml = [] then Inr ml
      else
        and_then (write_records d (sf_data0 (ml_files ml)) (so_end (ml_state ml)) (sort_records (ml_batch ml))) (\<lambda>(dat, stop).
        and_then (write_descriptor d (sf_descriptors0 (ml_files ml)) (so_descriptor_end (ml_state ml))
            (so_end (ml_state ml)) stop) (\<lambda>(descriptors, descriptor_end).
        and_then (address (so_runs (ml_state ml) + 1)) (\<lambda>runs.
          Inr (ml\<lparr>ml_files := (ml_files ml)\<lparr>sf_data0 := dat, sf_descriptors0 := descriptors\<rparr>,
            ml_state := \<lparr>so_runs = runs, so_end = stop, so_descriptor_end = descriptor_end\<rparr>,
            ml_batch := [], ml_batch_size := 0\<rparr>)))))"

text \<open>\<open>enter\<close>: an error leaves the ledger failed.\<close>

definition enter_ledger :: "metadata_ledger \<Rightarrow> spill_error + ('a \<times> metadata_ledger) \<Rightarrow> (spill_error + 'a) \<times> metadata_ledger" where
  "enter_ledger ml m = (case m of
       Inl e \<Rightarrow> (Inl e, ml\<lparr>ml_phase := Ledger_Failed\<rparr>)
     | Inr (x, ml') \<Rightarrow> (Inr x, ml'))"

definition append_record :: "spill_driver \<Rightarrow> metadata_record \<Rightarrow> metadata_ledger \<Rightarrow> (spill_error + unit) \<times> metadata_ledger" where
  "append_record d r ml =
     (if ml_phase ml \<noteq> Ledger_Open then (Inl (State_Failure ''Metadata append requires an idle open ledger.''), ml)
      else
        let captured = encode_record r; sz = encoded_size captured
        in enter_ledger ml
          (and_then (if ml_batch_bytes ml < ml_batch_size ml + sz then flush_batch d ml else Inr ml) (\<lambda>ml1.
            Inr ((), ml1\<lparr>ml_batch := ml_batch ml1 @ [captured], ml_batch_size := ml_batch_size ml1 + sz\<rparr>))))"

function index_loop :: "spill_driver \<Rightarrow> bytes \<Rightarrow> run_cursor \<Rightarrow> nat \<Rightarrow> bytes \<Rightarrow> spill_error + (bytes \<times> nat)" where
  "index_loop d dat c ordinal offsets =
     (case read_record d dat c of
        Inl e \<Rightarrow> Inl e
      | Inr (None, c') \<Rightarrow> Inr (offsets, ordinal)
      | Inr (Some r, c') \<Rightarrow>
          (case write_offset d offsets ordinal (rc_position c) of
             Inl e \<Rightarrow> Inl e
           | Inr offsets' \<Rightarrow>
               (case address (ordinal + 1) of
                  Inl e \<Rightarrow> Inl e
                | Inr ordinal' \<Rightarrow> index_loop d dat c' ordinal' offsets')))"
  by pat_completeness auto
termination
  by (relation "measure (\<lambda>(d, dat, c, ordinal, offsets). rc_end c - rc_position c)") (auto dest!: read_record_advances)

declare index_loop.simps [simp del]

definition whole_run :: "sort_state \<Rightarrow> run_cursor" where
  "whole_run st = \<lparr>rc_position = 0, rc_end = so_end st\<rparr>"

definition finish_ledger :: "spill_driver \<Rightarrow> metadata_ledger \<Rightarrow> (spill_error + unit) \<times> metadata_ledger" where
  "finish_ledger d ml =
     (if ml_phase ml \<noteq> Ledger_Open then (Inl (State_Failure ''Metadata sealing requires an idle open ledger.''), ml)
      else enter_ledger ml
        (and_then (flush_batch d ml) (\<lambda>ml1.
         and_then (merge_runs d (ml_fan_in ml1) (ml_files ml1) (ml_state ml1)) (\<lambda>(files, st).
         and_then (validate_run d (sf_data0 files) (whole_run st) []) (\<lambda>_.
         and_then (index_loop d (sf_data0 files) (whole_run st) 0 []) (\<lambda>(offsets, count).
           Inr ((), ml1\<lparr>ml_phase := Ledger_Sealed, ml_files := files\<lparr>sf_data1 := offsets\<rparr>, ml_state := st,
             ml_record_count := count\<rparr>)))))))"

text \<open>\<open>records()\<close>, iterated to its end.\<close>

function read_records :: "spill_driver \<Rightarrow> bytes \<Rightarrow> run_cursor \<Rightarrow> spill_error + metadata_record list" where
  "read_records d dat c =
     (case read_record d dat c of
        Inl e \<Rightarrow> Inl e
      | Inr (None, c') \<Rightarrow> Inr []
      | Inr (Some r, c') \<Rightarrow>
          and_then (decode_record r) (\<lambda>m. and_then (read_records d dat c') (\<lambda>ms. Inr (m # ms))))"
  by pat_completeness auto
termination
  by (relation "measure (\<lambda>(d, dat, c). rc_end c - rc_position c)") (auto dest!: read_record_advances)

declare read_records.simps [simp del]

definition ledger_records :: "spill_driver \<Rightarrow> metadata_ledger \<Rightarrow> (spill_error + metadata_record list) \<times> metadata_ledger" where
  "ledger_records d ml =
     (if ml_phase ml \<noteq> Ledger_Sealed then
        (Inl (State_Failure ''Metadata records require a sealed ledger and one exclusive reader.''), ml)
      else enter_ledger ml
        (and_then (read_records d (sf_data0 (ml_files ml)) (whole_run (ml_state ml))) (\<lambda>ms. Inr (ms, ml))))"

text \<open>The binary search over the offsets: the bounds are \<open>low\<close> and one past \<open>high\<close>.\<close>

function search_records :: "spill_driver \<Rightarrow> metadata_ledger \<Rightarrow> bytes \<Rightarrow> int \<Rightarrow> int \<Rightarrow> spill_error + metadata_record option" where
  "search_records d ml key low high =
     (if high < low then Inr None
      else
        let ordinal = low + (high - low) div 2
        in case read_offset d (sf_data1 (ml_files ml)) (nat ordinal) of
             Inl e \<Rightarrow> Inl e
           | Inr position \<Rightarrow>
               (case read_record d (sf_data0 (ml_files ml)) \<lparr>rc_position = position, rc_end = so_end (ml_state ml)\<rparr> of
                  Inl e \<Rightarrow> Inl e
                | Inr (None, c') \<Rightarrow> Inl (Spill_Failure ''Metadata index did not point at a record.'')
                | Inr (Some r, c') \<Rightarrow>
                    if er_key r = key then and_then (decode_record r) (\<lambda>m. Inr (Some m))
                    else if bytes_less (er_key r) key then search_records d ml key (ordinal + 1) high
                    else search_records d ml key low (ordinal - 1)))"
  by pat_completeness auto
termination
proof (relation "measure (\<lambda>(d, ml, key, low, high). nat (high - low + 1))")
  fix d :: spill_driver and ml :: metadata_ledger and key :: bytes and low high ordinal :: int
  assume "\<not> high < low" "ordinal = low + (high - low) div 2"
  then have "low \<le> ordinal" "ordinal \<le> high" by auto
  then show "((d, ml, key, ordinal + 1, high), d, ml, key, low, high) \<in> measure (\<lambda>(d, ml, key, low, high). nat (high - low + 1))"
    and "((d, ml, key, low, ordinal - 1), d, ml, key, low, high) \<in> measure (\<lambda>(d, ml, key, low, high). nat (high - low + 1))"
    by simp_all
qed simp

declare search_records.simps [simp del]

definition lookup_record :: "spill_driver \<Rightarrow> metadata_ledger \<Rightarrow> code_text \<Rightarrow> spill_error + metadata_record option" where
  "lookup_record d ml path =
     search_records d ml (er_key (encode_record (Meta_Directory path))) 0 (int (ml_record_count ml) - 1)"

definition get_record :: "spill_driver \<Rightarrow> code_text \<Rightarrow> metadata_ledger \<Rightarrow> (spill_error + metadata_record option) \<times> metadata_ledger" where
  "get_record d path ml =
     (if ml_phase ml \<noteq> Ledger_Sealed then (Inl (State_Failure ''Metadata lookup requires an idle sealed ledger.''), ml)
      else enter_ledger ml (and_then (lookup_record d ml path) (\<lambda>m. Inr (m, ml))))"

definition close_ledger :: "metadata_ledger \<Rightarrow> metadata_ledger" where
  "close_ledger ml = ml\<lparr>ml_phase := Ledger_Closed, ml_batch := [], ml_batch_size := 0\<rparr>"

text \<open>A run of appends, stopping at the first error.\<close>

fun append_records :: "spill_driver \<Rightarrow> metadata_record list \<Rightarrow> metadata_ledger \<Rightarrow> (spill_error + unit) \<times> metadata_ledger" where
  "append_records d [] ml = (Inr (), ml)"
| "append_records d (r # rs) ml =
     (case append_record d r ml of
        (Inl e, ml') \<Rightarrow> (Inl e, ml')
      | (Inr _, ml') \<Rightarrow> append_records d rs ml')"

end
