(* ===== verification/Ledger_Merging.thy ===== *)
theory Ledger_Merging
  imports Metadata_Ledger Spill_Records "HOL-Library.Multiset"
begin

text \<open>
  The external merge sort sorts: writing a sorted run, merging a group of runs, a pass over all
  groups and the passes until one run is left keep the stable sort of all records by their keys.
\<close>

section \<open>The order of the keys\<close>

lemma bytes_less_iff: "bytes_less xs ys \<longleftrightarrow> xs < ys"
  by (induction xs ys rule: bytes_less.induct) auto

lemma insert_record_insort: "insert_record r rs = insort_key er_key r rs"
  by (induction r rs rule: insert_record.induct) (auto simp: bytes_less_iff not_less)

lemma sort_records_sort_key: "sort_records rs = sort_key er_key rs"
  by (simp add: sort_records_def sort_key_def insert_record_insort [abs_def])

lemma sort_key_middle: "sort_key f (xs @ sort_key f ys @ zs) = sort_key f (xs @ ys @ zs)" for f :: "'a \<Rightarrow> 'b :: linorder"
proof -
  have stable: "filter (\<lambda>x. f k = f x) (sort_key f us) = filter (\<lambda>x. f k = f x) us" for k us
    using sort_key_stable [of f "f k" us] by (simp add: eq_commute)
  show ?thesis by (rule sym, rule properties_for_sort_key) (simp_all add: stable)
qed

lemma sort_key_select:
  fixes f :: "'a \<Rightarrow> 'b :: linorder"
  assumes "\<And>x. x \<in> set xs \<Longrightarrow> f r < f x" and "\<And>y. y \<in> set ys \<Longrightarrow> f r \<le> f y"
  shows "sort_key f (xs @ r # ys) = r # sort_key f (xs @ ys)"
  using assms(1)
proof (induction xs)
  case Nil
  show ?case using assms(2) by (cases "sort_key f ys") (auto dest: arg_cong [where f = set])
next
  case (Cons x xs)
  have "\<not> f x \<le> f r" using Cons.prems by (simp add: not_le)
  then show ?case using Cons by simp
qed

lemma sorted_key_Cons: "sorted (map f (r # rs)) \<Longrightarrow> s \<in> set rs \<Longrightarrow> f r \<le> f s"
  by simp

lemma sum_list_sort_key: "sum_list (map g (sort_key f xs)) = sum_list (map g xs)" for g :: "'a \<Rightarrow> nat"
proof -
  have "mset (map g (sort_key f xs)) = mset (map g xs)" by simp
  then show ?thesis by (metis sum_mset_sum_list)
qed

lemma length_run_bytes: "length (run_bytes rs) = sum_list (map encoded_size rs)"
  by (induction rs) (simp_all add: length_record_bytes)

lemma length_run_bytes_sort [simp]: "length (run_bytes (sort_key f rs)) = length (run_bytes rs)"
  by (simp add: length_run_bytes sum_list_sort_key)

lemma encoded_size_large: "wf_encoded r \<Longrightarrow> 10 \<le> encoded_size r"
  by (cases "er_key r") (simp_all add: wf_encoded_def encoded_size_def record_header_bytes_def)

lemma run_bytes_large: "\<forall>r \<in> set rs. wf_encoded r \<Longrightarrow> 10 * length rs \<le> length (run_bytes rs)"
  by (induction rs) (use encoded_size_large in \<open>fastforce simp: length_record_bytes\<close>)+

section \<open>Selecting the smallest head\<close>

lemma select_head_snoc:
  "select_head i selected (heads @ [(c, h)]) =
     (case h of None \<Rightarrow> select_head i selected heads
      | Some r \<Rightarrow> (case select_head i selected heads of
            None \<Rightarrow> Some (i + length heads, r)
          | Some (j, s) \<Rightarrow> if er_key r < er_key s then Some (i + length heads, r) else Some (j, s)))"
proof (induction i selected heads rule: select_head.induct)
  case (1 i selected)
  then show ?case by (auto simp: bytes_less_iff split: option.splits)
next
  case (2 i selected c' heads)
  then show ?case by (cases h) (simp_all split: option.splits)
next
  case (3 i selected c' r heads)
  define first where "first = (case selected of None \<Rightarrow> Some (i, r)
    | Some (j, s) \<Rightarrow> if bytes_less (er_key r) (er_key s) then Some (i, r) else selected)"
  have "select_head i selected ((c', Some r) # hs) = select_head (i + 1) first hs" for hs
    by (simp add: first_def)
  then show ?case using "3.IH" unfolding append_Cons first_def [symmetric]
    by (cases h; cases "select_head (i + 1) first heads") auto
qed

definition smallest_head :: "merge_head list \<Rightarrow> nat \<Rightarrow> encoded_record \<Rightarrow> bool" where
  "smallest_head heads k r \<longleftrightarrow> k < length heads \<and> snd (heads ! k) = Some r \<and>
     (\<forall>h \<in> set (take k heads). \<forall>s. snd h = Some s \<longrightarrow> er_key r < er_key s) \<and>
     (\<forall>h \<in> set heads. \<forall>s. snd h = Some s \<longrightarrow> er_key r \<le> er_key s)"

lemma select_head_smallest:
  "(case select_head 0 None heads of
      None \<Rightarrow> \<forall>h \<in> set heads. snd h = None
    | Some (k, r) \<Rightarrow> smallest_head heads k r)"
proof (induction heads rule: rev_induct)
  case (snoc h heads)
  obtain c h' where h: "h = (c, h')" by (cases h)
  show ?case
  proof (cases h')
    case None
    then show ?thesis using snoc h
      by (auto simp: select_head_snoc smallest_head_def nth_append split: option.splits)
  next
    case (Some r)
    show ?thesis
    proof (cases "select_head 0 None heads")
      case None
      then show ?thesis using snoc h Some by (auto simp: select_head_snoc smallest_head_def)
    next
      case (Some ks)
      obtain k s where ks: "ks = (k, s)" by (cases ks)
      have "smallest_head heads k s" using snoc Some ks by simp
      then show ?thesis using Some ks h \<open>h' = Some r\<close>
        by (fastforce simp: select_head_snoc smallest_head_def nth_append not_less)
    qed
  qed
qed simp

section \<open>Merging the heads of a group\<close>

definition head_holds :: "bytes \<Rightarrow> merge_head \<Rightarrow> encoded_record list \<Rightarrow> bool" where
  "head_holds dat h rs \<longleftrightarrow> (case snd h of
       None \<Rightarrow> rs = [] \<and> holds_run dat (fst h) []
     | Some r \<Rightarrow> rs \<noteq> [] \<and> r = hd rs \<and> holds_run dat (fst h) (tl rs))"

lemma read_next_head:
  assumes "honest_driver d" "safe_size (length dat)" "\<forall>r \<in> set rs. wf_encoded r" "holds_run dat c rs"
  shows "\<exists>r' c'. read_record d dat c = Inr (r', c') \<and> head_holds dat (c', r') rs"
proof (cases rs)
  case Nil
  then show ?thesis using read_record_holds_Nil assms(4) by (auto simp: head_holds_def)
next
  case (Cons r rs')
  then show ?thesis
    using read_record_holds_Cons [of d dat r c rs'] holds_run_ConsD(1) [of dat c r rs'] assms by (auto simp: head_holds_def)
qed

definition good_run :: "encoded_record list \<Rightarrow> bool" where
  "good_run rs \<longleftrightarrow> sorted (map er_key rs) \<and> (\<forall>r \<in> set rs. wf_encoded r)"

lemma good_run_tl: "good_run (r # rs) \<Longrightarrow> good_run rs"
  by (simp add: good_run_def)

lemma merged_first:
  assumes holds: "list_all2 (head_holds dat) heads runs" and good: "\<forall>rs \<in> set runs. good_run rs"
    and small: "smallest_head heads k r"
  shows "runs ! k = r # tl (runs ! k)"
    and "sort_key er_key (concat runs) = r # sort_key er_key (concat (runs[k := tl (runs ! k)]))"
    and "length (run_bytes (concat runs)) = encoded_size r + length (run_bytes (concat (runs[k := tl (runs ! k)])))"
proof -
  have k: "k < length runs" "k < length heads" "snd (heads ! k) = Some r"
    using small list_all2_lengthD [OF holds] by (auto simp: smallest_head_def)
  have "head_holds dat (heads ! k) (runs ! k)" using holds k by (auto simp: list_all2_conv_all_nth)
  then show first: "runs ! k = r # tl (runs ! k)" using k by (cases "runs ! k") (auto simp: head_holds_def)
  define rs where "rs = tl (runs ! k)"
  have runs: "runs = take k runs @ (r # rs) # drop (Suc k) runs"
    using k(1) first rs_def by (metis id_take_nth_drop)
  have rest: "runs[k := rs] = take k runs @ rs # drop (Suc k) runs" using k(1) by (simp add: upd_conv_take_nth_drop)
  have least: "er_key r < er_key x" if jk: "j < k" and x: "x \<in> set (runs ! j)" for j x
  proof -
    have j: "head_holds dat (heads ! j) (runs ! j)" "good_run (runs ! j)"
      using holds good jk k by (auto simp: list_all2_conv_all_nth)
    then obtain s ss where s: "runs ! j = s # ss" "snd (heads ! j) = Some s"
      using x by (cases "runs ! j") (auto simp: head_holds_def split: option.splits)
    have "heads ! j \<in> set (take k heads)" using jk k by (auto simp: in_set_conv_nth)
    then have "er_key r < er_key s" using small s by (auto simp: smallest_head_def)
    moreover have "er_key s \<le> er_key x" using j(2) s x by (auto simp: good_run_def)
    ultimately show ?thesis by simp
  qed
  have bound: "er_key r \<le> er_key x" if jk: "j < length runs" and x: "x \<in> set (runs ! j)" for j x
  proof -
    have j: "head_holds dat (heads ! j) (runs ! j)" "good_run (runs ! j)" "heads ! j \<in> set heads"
      using holds good jk by (auto simp: list_all2_conv_all_nth)
    then obtain s ss where s: "runs ! j = s # ss" "snd (heads ! j) = Some s"
      using x by (cases "runs ! j") (auto simp: head_holds_def split: option.splits)
    have "er_key r \<le> er_key s" using small s j(3) by (auto simp: smallest_head_def)
    moreover have "er_key s \<le> er_key x" using j(2) s x by (auto simp: good_run_def)
    ultimately show ?thesis by simp
  qed
  have "sort_key er_key (concat (take k runs) @ r # (rs @ concat (drop (Suc k) runs))) =
      r # sort_key er_key (concat (take k runs) @ rs @ concat (drop (Suc k) runs))"
  proof (rule sort_key_select)
    fix x assume "x \<in> set (concat (take k runs))"
    then obtain ss where ss: "ss \<in> set (take k runs)" "x \<in> set ss" by auto
    then obtain j where "j < k" "ss = runs ! j" by (auto simp: in_set_conv_nth)
    then show "er_key r < er_key x" using least ss(2) by simp
  next
    fix y assume "y \<in> set (rs @ concat (drop (Suc k) runs))"
    then have "y \<in> set (runs ! k) \<or> y \<in> set (concat runs)"
      using first rs_def by (metis Un_iff append_Cons concat.simps(2) concat_append list.set_intros(2) runs set_append)
    then obtain ss where ss: "ss \<in> set runs" "y \<in> set ss" using k(1) nth_mem by fastforce
    then obtain j where "j < length runs" "ss = runs ! j" by (auto simp: in_set_conv_nth)
    then show "er_key r \<le> er_key y" using bound ss(2) by simp
  qed
  then show "sort_key er_key (concat runs) = r # sort_key er_key (concat (runs[k := tl (runs ! k)]))"
    using rest runs rs_def by (metis append_Cons concat.simps(2) concat_append)
  have "run_bytes (concat runs) = run_bytes (concat (take k runs) @ (r # rs) @ concat (drop (Suc k) runs))"
    using runs by (metis concat.simps(2) concat_append)
  then show "length (run_bytes (concat runs)) = encoded_size r + length (run_bytes (concat (runs[k := tl (runs ! k)])))"
    using rest rs_def by (simp add: length_record_bytes)
qed

lemma merge_heads_sorts:
  assumes "honest_driver d" "safe_size (length dat)"
  shows "list_all2 (head_holds dat) heads runs \<Longrightarrow> \<forall>rs \<in> set runs. good_run rs \<Longrightarrow>
    safe_size (length out + length (run_bytes (concat runs))) \<Longrightarrow>
    merge_heads d dat heads out (length out) =
      Inr (out @ run_bytes (sort_key er_key (concat runs)), length out + length (run_bytes (concat runs)))"
proof (induction "length (concat runs)" arbitrary: heads runs out rule: less_induct)
  case less
  note select = select_head_smallest [of heads]
  show ?case
  proof (cases "select_head 0 None heads")
    case None
    have "runs ! i = []" if "i < length runs" for i
    proof -
      have "head_holds dat (heads ! i) (runs ! i)" "heads ! i \<in> set heads"
        using less.prems(1) that by (auto simp: list_all2_conv_all_nth)
      then show ?thesis using select None by (simp add: head_holds_def)
    qed
    then have empty: "concat runs = []" by (auto simp: in_set_conv_nth)
    show ?thesis unfolding empty using None by (simp add: merge_heads.simps [of d dat heads])
  next
    case (Some kr)
    obtain k r where kr: "kr = (k, r)" by (cases kr)
    have small: "smallest_head heads k r" using select Some kr by simp
    note first = merged_first [OF less.prems(1,2) small]
    let ?runs = "runs[k := tl (runs ! k)]"
    have k: "k < length runs" "k < length heads" "snd (heads ! k) = Some r"
      using small list_all2_lengthD [OF less.prems(1)] by (auto simp: smallest_head_def)
    have good: "good_run (r # tl (runs ! k))" using less.prems(2) k(1) first(1) by (metis nth_mem)
    have "head_holds dat (heads ! k) (runs ! k)" using less.prems(1) k by (auto simp: list_all2_conv_all_nth)
    then have "holds_run dat (fst (heads ! k)) (tl (runs ! k))" using k(3) by (simp add: head_holds_def)
    then obtain r' c' where next': "read_record d dat (fst (heads ! k)) = Inr (r', c')"
        "head_holds dat (c', r') (tl (runs ! k))"
      using read_next_head [OF assms] good unfolding good_run_def by (metis list.set_intros(2))
    have written: "write_record d out r (length out) = Inr (out @ record_bytes r, length out + encoded_size r)"
      using write_record_appends assms(1) less.prems(3) first(3) safe_size_mono by simp
    have "length (concat ?runs) < length (concat runs)"
      using first(2) by (metis length_Cons length_sort less_Suc_eq)
    moreover have "list_all2 (head_holds dat) (heads[k := (c', r')]) ?runs"
      using less.prems(1) next'(2) by (rule list_all2_update_cong)
    moreover have "\<forall>rs \<in> set ?runs. good_run rs"
      using less.prems(2) good_run_tl [OF good] set_update_subset_insert [of runs k "tl (runs ! k)"] by auto
    moreover have "safe_size (length (out @ record_bytes r) + length (run_bytes (concat ?runs)))"
      using less.prems(3) first(3) by (simp add: length_record_bytes add.assoc)
    ultimately have "merge_heads d dat (heads[k := (c', r')]) (out @ record_bytes r) (length (out @ record_bytes r)) =
        Inr ((out @ record_bytes r) @ run_bytes (sort_key er_key (concat ?runs)),
          length (out @ record_bytes r) + length (run_bytes (concat ?runs)))"
      by (rule less.hyps)
    then show ?thesis using Some kr next'(1) written first
      by (simp add: merge_heads.simps [of d dat heads] length_record_bytes add.assoc)
  qed
qed


text \<open>
  Runs on the two files of a side: \<open>runs_hold\<close> says that the data file holds the given runs, one
  after the other, and the descriptor file their bounds.  Appending a run, merging a group, a pass
  and the merge down to one run keep it, and keep the stable sort of all records.
\<close>

section \<open>Runs and their descriptors\<close>

primrec run_descriptors :: "nat \<Rightarrow> encoded_record list list \<Rightarrow> bytes" where
  "run_descriptors start [] = []"
| "run_descriptors start (rs # runs) =
     descriptor start (start + length (run_bytes rs)) @ run_descriptors (start + length (run_bytes rs)) runs"

definition runs_hold :: "bytes \<Rightarrow> bytes \<Rightarrow> encoded_record list list \<Rightarrow> bool" where
  "runs_hold dat descriptors runs \<longleftrightarrow> dat = run_bytes (concat runs) \<and> descriptors = run_descriptors 0 runs \<and>
     (\<forall>rs \<in> set runs. rs \<noteq> [] \<and> good_run rs)"

lemma length_run_descriptors [simp]: "length (run_descriptors start runs) = length runs * descriptor_bytes"
  by (induction runs arbitrary: start) (simp_all add: add.commute)

lemma run_descriptors_snoc:
  "run_descriptors start (runs @ [rs]) = run_descriptors start runs @
     descriptor (start + length (run_bytes (concat runs))) (start + length (run_bytes (concat runs)) + length (run_bytes rs))"
  by (induction runs arbitrary: start) (simp_all add: add.assoc)

lemma run_descriptors_nth:
  "i < length runs \<Longrightarrow>
   take descriptor_bytes (drop (i * descriptor_bytes) (run_descriptors start runs)) =
   descriptor (start + length (run_bytes (concat (take i runs))))
     (start + length (run_bytes (concat (take i runs))) + length (run_bytes (runs ! i)))"
proof (induction runs arbitrary: start i)
  case (Cons rs runs)
  show ?case
  proof (cases i)
    case (Suc j)
    have "drop (Suc j * descriptor_bytes) (run_descriptors start (rs # runs)) =
        drop (j * descriptor_bytes) (run_descriptors (start + length (run_bytes rs)) runs)"
      by (simp add: drop_append)
    then show ?thesis using Cons Suc by (simp add: add.assoc)
  qed simp
qed simp

lemma runs_hold_run:
  assumes "runs_hold dat descriptors runs" "i < length runs"
  shows "holds_run dat \<lparr>rc_position = length (run_bytes (concat (take i runs))),
      rc_end = length (run_bytes (concat (take i runs))) + length (run_bytes (runs ! i))\<rparr> (runs ! i)"
proof -
  have "runs = take i runs @ runs ! i # drop (Suc i) runs" using assms(2) by (rule id_take_nth_drop)
  then have "concat runs = concat (take i runs) @ runs ! i @ concat (drop (Suc i) runs)"
    by (metis concat.simps(2) concat_append)
  then have "dat = run_bytes (concat (take i runs)) @ run_bytes (runs ! i) @ run_bytes (concat (drop (Suc i) runs))"
    using assms(1) by (simp add: runs_hold_def)
  then show ?thesis using holds_run_append by simp
qed

lemma runs_hold_wf: "runs_hold dat descriptors runs \<Longrightarrow> r \<in> set (concat runs) \<Longrightarrow> wf_encoded r"
  by (auto simp: runs_hold_def good_run_def)

lemma length_runs: "\<forall>rs \<in> set runs. rs \<noteq> [] \<Longrightarrow> length runs \<le> length (concat runs)"
proof (induction runs)
  case (Cons rs runs)
  then show ?case by (cases rs) auto
qed simp

text \<open>Descriptors take less than twice the room of the data.\<close>

lemma runs_hold_small:
  assumes "runs_hold dat descriptors runs"
  shows "length runs * descriptor_bytes \<le> 2 * length dat"
proof -
  have "10 * length runs \<le> 10 * length (concat runs)" using length_runs [of runs] assms by (auto simp: runs_hold_def)
  also have "\<dots> \<le> length dat" using run_bytes_large [of "concat runs"] runs_hold_wf [OF assms] assms by (simp add: runs_hold_def)
  finally show ?thesis by (simp add: descriptor_bytes_def)
qed

lemma runs_hold_snoc:
  assumes "runs_hold dat descriptors runs" "good_run rs" "rs \<noteq> []"
  shows "runs_hold (dat @ run_bytes rs) (descriptors @ descriptor (length dat) (length dat + length (run_bytes rs))) (runs @ [rs])"
  using assms by (auto simp: runs_hold_def run_descriptors_snoc)

lemma runs_hold_Nil: "runs_hold [] [] []"
  by (simp add: runs_hold_def)

lemma good_run_sort: "(\<And>r. r \<in> set rs \<Longrightarrow> wf_encoded r) \<Longrightarrow> good_run (sort_key er_key rs)"
  by (simp add: good_run_def)

text \<open>The descriptor of a run that has just been written.\<close>

lemma write_run_descriptor:
  assumes d: "honest_driver d" and runs: "runs_hold dat descriptors runs" and rs: "good_run rs" "rs \<noteq> []"
    and safe: "safe_size (2 * (length dat + length (run_bytes rs)))"
  shows "write_descriptor d descriptors (length runs * descriptor_bytes) (length dat) (length dat + length (run_bytes rs)) =
      Inr (descriptors @ descriptor (length dat) (length dat + length (run_bytes rs)), (length runs + 1) * descriptor_bytes)"
    and "address (length runs + 1) = Inr (length runs + 1)"
proof -
  note grown = runs_hold_snoc [OF runs rs]
  have len: "length descriptors = length runs * descriptor_bytes" using runs by (simp add: runs_hold_def)
  have bound: "length descriptors + descriptor_bytes \<le> 2 * (length dat + length (run_bytes rs))"
    using runs_hold_small [OF grown] len by simp
  have "safe_size (length descriptors + descriptor_bytes)" using safe bound by (rule safe_size_mono)
  moreover have "safe_size (length dat)" "safe_size (length dat + length (run_bytes rs))"
    using safe by (auto elim: safe_size_mono)
  ultimately show "write_descriptor d descriptors (length runs * descriptor_bytes) (length dat)
        (length dat + length (run_bytes rs)) =
      Inr (descriptors @ descriptor (length dat) (length dat + length (run_bytes rs)), (length runs + 1) * descriptor_bytes)"
    using write_descriptor_appends [OF d, of "length dat" "length dat + length (run_bytes rs)" descriptors]
    by (simp add: len add.commute)
  have "length runs + 1 \<le> 2 * (length dat + length (run_bytes rs))"
    using bound len by (simp add: descriptor_bytes_def)
  then show "address (length runs + 1) = Inr (length runs + 1)" using safe address_safe safe_size_mono by blast
qed

section \<open>Merging groups\<close>

lemma open_heads_hold:
  assumes d: "honest_driver d" and runs: "runs_hold dat descriptors runs" and safe: "safe_size (2 * length dat)"
  shows "i + n \<le> length runs \<Longrightarrow>
    \<exists>heads. open_heads d dat descriptors i n = Inr heads \<and> list_all2 (head_holds dat) heads (take n (drop i runs))"
proof (induction n arbitrary: i)
  case (Suc n)
  then have i: "i < length runs" by simp
  let ?start = "length (run_bytes (concat (take i runs)))"
  let ?stop = "?start + length (run_bytes (runs ! i))"
  have small: "length descriptors \<le> 2 * length dat" using runs_hold_small [OF runs] runs by (simp add: runs_hold_def)
  have room: "i * descriptor_bytes + descriptor_bytes \<le> length descriptors"
    using i runs mult_le_mono1 [of "Suc i" "length runs" descriptor_bytes] by (simp add: runs_hold_def add.commute)
  note held = runs_hold_run [OF runs i]
  have good: "runs ! i \<noteq> []" "\<forall>r \<in> set (runs ! i). wf_encoded r" using runs i by (auto simp: runs_hold_def good_run_def)
  then have "?start < ?stop" using run_bytes_large [of "runs ! i"] by (cases "runs ! i") auto
  moreover have "?stop \<le> length dat" using held by (simp add: holds_run_def)
  moreover have "take descriptor_bytes (drop (i * descriptor_bytes) descriptors) = descriptor ?start ?stop"
    using run_descriptors_nth [OF i, of 0] runs by (simp add: runs_hold_def)
  ultimately have cursor: "read_descriptor d descriptors (i * descriptor_bytes) = Inr \<lparr>rc_position = ?start, rc_end = ?stop\<rparr>"
    using read_descriptor_returns [OF d _ room] safe_size_mono [OF safe] small by simp
  obtain r' c' where next': "read_record d dat \<lparr>rc_position = ?start, rc_end = ?stop\<rparr> = Inr (r', c')"
      "head_holds dat (c', r') (runs ! i)"
    using read_next_head [OF d _ good(2) held] safe_size_mono [OF safe] by auto
  obtain heads where "open_heads d dat descriptors (i + 1) n = Inr heads"
      "list_all2 (head_holds dat) heads (take n (drop (i + 1) runs))"
    using Suc.IH [of "i + 1"] Suc.prems by auto
  moreover have "address (i * descriptor_bytes) = Inr (i * descriptor_bytes)"
    using safe_size_mono [OF safe] room small by simp
  moreover have "take (Suc n) (drop i runs) = runs ! i # take n (drop (i + 1) runs)"
    using i by (simp flip: Cons_nth_drop_Suc)
  ultimately show ?case using cursor next' by simp
qed simp

definition output_holds :: "merge_output \<Rightarrow> encoded_record list list \<Rightarrow> bool" where
  "output_holds out runs \<longleftrightarrow> runs_hold (mo_data out) (mo_descriptors out) runs \<and> mo_end out = length (mo_data out) \<and>
     mo_descriptor_end out = length runs * descriptor_bytes \<and> mo_runs out = length runs"

lemma merge_group_holds:
  assumes d: "honest_driver d" and runs: "runs_hold (sf_data0 files) (sf_descriptors0 files) runs"
    and out: "output_holds out merged" and n: "0 < n" "i + n \<le> length runs"
    and safe: "safe_size (2 * length (sf_data0 files))"
    and fits: "length (mo_data out) + length (run_bytes (concat (take n (drop i runs)))) \<le> length (sf_data0 files)"
  shows "\<exists>out'. merge_group d files i n out = Inr out' \<and>
    output_holds out' (merged @ [sort_key er_key (concat (take n (drop i runs)))])"
proof -
  let ?group = "take n (drop i runs)" and ?dat = "sf_data0 files"
  let ?sorted = "sort_key er_key (concat ?group)"
  obtain heads where heads: "open_heads d ?dat (sf_descriptors0 files) i n = Inr heads"
      "list_all2 (head_holds ?dat) heads ?group"
    using open_heads_hold [OF d runs safe n(2)] by blast
  have sub: "set ?group \<subseteq> set runs" by (meson order_trans set_drop_subset set_take_subset)
  then have good: "\<forall>rs \<in> set ?group. good_run rs" "\<forall>rs \<in> set ?group. rs \<noteq> []" "\<forall>r \<in> set (concat ?group). wf_encoded r"
    using runs by (auto simp: runs_hold_def good_run_def)
  have merged: "good_run ?sorted" by (rule good_run_sort) (use good(3) in blast)
  have "?group \<noteq> []" using n by simp
  then obtain rs where "rs \<in> set ?group" by (cases ?group) auto
  then have "concat ?group \<noteq> []" unfolding concat_eq_Nil_conv using good(2) by blast
  then have nonempty: "?sorted \<noteq> []" by (metis length_0_conv length_sort)
  have held: "runs_hold (mo_data out) (mo_descriptors out) merged" and ends: "mo_end out = length (mo_data out)"
      "mo_descriptor_end out = length merged * descriptor_bytes" "mo_runs out = length merged"
    using out by (simp_all add: output_holds_def)
  have safe': "safe_size (2 * (length (mo_data out) + length (run_bytes ?sorted)))"
    using fits safe_size_mono [OF safe] by simp
  then have safe_out: "safe_size (length (mo_data out) + length (run_bytes (concat ?group)))" "safe_size (length ?dat)"
    using safe by (auto elim: safe_size_mono)
  have step: "merge_heads d ?dat heads (mo_data out) (length (mo_data out)) =
      Inr (mo_data out @ run_bytes ?sorted, length (mo_data out) + length (run_bytes ?sorted))"
    using merge_heads_sorts [OF d safe_out(2) heads(2) good(1) safe_out(1)] by simp
  show ?thesis
    using heads(1) step write_run_descriptor [OF d held merged nonempty safe'] runs_hold_snoc [OF held merged nonempty]
    by (simp add: merge_group_def ends output_holds_def)
qed

lemma merge_groups_hold:
  assumes d: "honest_driver d" and runs: "runs_hold (sf_data0 files) (sf_descriptors0 files) runs"
    and fan_in: "2 \<le> fan_in" and safe: "safe_size (2 * length (sf_data0 files))"
  shows "output_holds out merged \<Longrightarrow> i \<le> length runs \<Longrightarrow>
    length (mo_data out) + length (run_bytes (concat (drop i runs))) = length (sf_data0 files) \<Longrightarrow>
    sort_key er_key (concat merged @ concat (drop i runs)) = sort_key er_key (concat runs) \<Longrightarrow>
    \<exists>out' merged'. merge_groups d files (length runs) fan_in i out = Inr out' \<and> output_holds out' merged' \<and>
      length (mo_data out') = length (sf_data0 files) \<and> sort_key er_key (concat merged') = sort_key er_key (concat runs)"
proof (induction "length runs - i" arbitrary: i out merged rule: less_induct)
  case less
  show ?case
  proof (cases "length runs \<le> i")
    case True
    then have "merge_groups d files (length runs) fan_in i out = Inr out"
      by (simp add: merge_groups.simps [of d files "length runs" fan_in i out])
    moreover have "drop i runs = []" using True by simp
    ultimately show ?thesis using less.prems by auto
  next
    case False
    let ?n = "min fan_in (length runs - i)"
    let ?group = "take ?n (drop i runs)"
    have split: "drop i runs = ?group @ drop (i + ?n) runs" by (metis add.commute append_take_drop_id drop_drop)
    then have flat: "concat (drop i runs) = concat ?group @ concat (drop (i + ?n) runs)" by (metis concat_append)
    have n: "0 < ?n" "i + ?n \<le> length runs" using False fan_in by auto
    obtain out' where out': "merge_group d files i ?n out = Inr out'"
        "output_holds out' (merged @ [sort_key er_key (concat ?group)])"
      using merge_group_holds [OF d runs less.prems(1) n safe] less.prems(3) flat by auto
    have "length (mo_data out') = length (mo_data out) + length (run_bytes (concat ?group))"
      using out'(2) less.prems(1) by (simp add: output_holds_def runs_hold_def)
    then have size': "length (mo_data out') + length (run_bytes (concat (drop (i + ?n) runs))) = length (sf_data0 files)"
      using less.prems(3) flat by simp
    have "sort_key er_key (concat (merged @ [sort_key er_key (concat ?group)]) @ concat (drop (i + ?n) runs)) =
        sort_key er_key (concat runs)"
      using less.prems(4) flat sort_key_middle [of er_key "concat merged" "concat ?group"] by simp
    moreover have "length runs - (i + ?n) < length runs - i"
      using n by (metis add_gr_0 diff_less_mono2 less_add_same_cancel1 less_le_trans)
    ultimately obtain out2 merged2 where "merge_groups d files (length runs) fan_in (i + ?n) out' = Inr out2"
        "output_holds out2 merged2" "length (mo_data out2) = length (sf_data0 files)"
        "sort_key er_key (concat merged2) = sort_key er_key (concat runs)"
      using less.hyps [of "i + ?n" out'] out'(2) n(2) size' by blast
    then show ?thesis using out'(1) False fan_in
      by (auto simp: merge_groups.simps [of d files "length runs" fan_in i out] Let_def)
  qed
qed

definition sort_holds :: "spill_files \<Rightarrow> sort_state \<Rightarrow> encoded_record list list \<Rightarrow> bool" where
  "sort_holds files st runs \<longleftrightarrow> runs_hold (sf_data0 files) (sf_descriptors0 files) runs \<and>
     so_end st = length (sf_data0 files) \<and> so_descriptor_end st = length runs * descriptor_bytes \<and>
     so_runs st = length runs"

lemma merge_pass_holds:
  assumes "honest_driver d" "sort_holds files st runs" "2 \<le> fan_in" "safe_size (2 * so_end st)"
  shows "\<exists>files' st' runs'. merge_pass d files st fan_in = Inr (files', st') \<and> sort_holds files' st' runs' \<and>
    so_end st' = so_end st \<and> sort_key er_key (concat runs') = sort_key er_key (concat runs)"
proof -
  have runs: "runs_hold (sf_data0 files) (sf_descriptors0 files) runs"
    and st: "so_end st = length (sf_data0 files)" "so_runs st = length runs"
    using assms(2) by (simp_all add: sort_holds_def)
  have safe: "safe_size (2 * length (sf_data0 files))" using assms(4) st(1) by simp
  have size0: "length (mo_data empty_output) + length (run_bytes (concat (drop 0 runs))) = length (sf_data0 files)"
    using runs unfolding runs_hold_def empty_output_def by simp
  have empty: "output_holds empty_output []" by (simp add: output_holds_def empty_output_def runs_hold_Nil)
  obtain out' merged where out: "merge_groups d files (length runs) fan_in 0 empty_output = Inr out'"
      "output_holds out' merged" "length (mo_data out') = length (sf_data0 files)"
      "sort_key er_key (concat merged) = sort_key er_key (concat runs)"
    using merge_groups_hold [OF assms(1) runs assms(3) safe empty, of 0] size0 by auto
  let ?files = "\<lparr>sf_data0 = mo_data out', sf_data1 = sf_data0 files, sf_descriptors0 = mo_descriptors out',
      sf_descriptors1 = sf_descriptors0 files\<rparr>"
  let ?st = "\<lparr>so_runs = mo_runs out', so_end = mo_end out', so_descriptor_end = mo_descriptor_end out'\<rparr>"
  have pass: "merge_pass d files st fan_in = Inr (?files, ?st)" using out(1) st(2) by (simp add: merge_pass_def)
  have held: "sort_holds ?files ?st merged" using out(2) by (simp add: sort_holds_def output_holds_def)
  have "so_end ?st = so_end st" using out(2,3) st(1) by (simp add: output_holds_def)
  then show ?thesis using pass held out(4) by blast
qed

lemma merge_runs_hold:
  assumes "honest_driver d" "2 \<le> fan_in"
  shows "sort_holds files st runs \<Longrightarrow> safe_size (2 * so_end st) \<Longrightarrow>
    \<exists>files' st' runs'. merge_runs d fan_in files st = Inr (files', st') \<and> sort_holds files' st' runs' \<and>
      length runs' \<le> 1 \<and> so_end st' = so_end st \<and> sort_key er_key (concat runs') = sort_key er_key (concat runs)"
proof (induction "so_runs st" arbitrary: files st runs rule: less_induct)
  case less
  show ?case
  proof (cases "so_runs st \<le> 1")
    case True
    then show ?thesis using less.prems by (auto simp: merge_runs.simps [of d fan_in files st] sort_holds_def)
  next
    case False
    obtain files1 st1 runs1 where step: "merge_pass d files st fan_in = Inr (files1, st1)" "sort_holds files1 st1 runs1"
        "so_end st1 = so_end st" "sort_key er_key (concat runs1) = sort_key er_key (concat runs)"
      using merge_pass_holds [OF assms(1) less.prems(1) assms(2) less.prems(2)] by blast
    have "so_runs st1 < so_runs st" using merge_pass_runs [OF step(1) assms(2)] False by simp
    then obtain files2 st2 runs2 where "merge_runs d fan_in files1 st1 = Inr (files2, st2)" "sort_holds files2 st2 runs2"
        "length runs2 \<le> 1" "so_end st2 = so_end st1" "sort_key er_key (concat runs2) = sort_key er_key (concat runs1)"
      using less.hyps [OF _ step(2)] less.prems(2) step(3) by auto
    then show ?thesis using step False assms(2) by (auto simp: merge_runs.simps [of d fan_in files st])
  qed
qed

text \<open>What is left is one run, the sorted records.\<close>

lemma merge_runs_sorted:
  assumes "honest_driver d" "2 \<le> fan_in" "sort_holds files st runs" "safe_size (2 * so_end st)"
  shows "\<exists>files' st'. merge_runs d fan_in files st = Inr (files', st') \<and>
    sf_data0 files' = run_bytes (sort_key er_key (concat runs)) \<and> so_end st' = length (sf_data0 files')"
proof -
  obtain files' st' runs' where merged: "merge_runs d fan_in files st = Inr (files', st')" "sort_holds files' st' runs'"
      "length runs' \<le> 1" "sort_key er_key (concat runs') = sort_key er_key (concat runs)"
    using merge_runs_hold [OF assms] by blast
  have "sorted (map er_key (concat runs'))"
    using merged(2,3) by (cases runs') (auto simp: sort_holds_def runs_hold_def good_run_def)
  then have "concat runs' = sort_key er_key (concat runs)" using merged(4) by (metis sort_key_id_if_sorted)
  then show ?thesis using merged(1,2) by (auto simp: sort_holds_def runs_hold_def)
qed

end
