(* ===== verification/Metadata_Paths.thy ===== *)
theory Metadata_Paths
  imports Spill_Records
begin

text \<open>
  Records and their keys: a record within the schemas encodes to one the spill files carry and is
  decoded to itself, keys tell paths apart, and one key descends from another exactly when the path
  lies below the other.
\<close>

definition slash_to_nul :: "nat \<Rightarrow> nat" where
  "slash_to_nul c = (if c = 47 then 0 else c)"

definition nul_to_slash :: "nat \<Rightarrow> nat" where
  "nul_to_slash c = (if c = 0 then 47 else c)"

definition valid_metadata :: "metadata_record \<Rightarrow> bool" where
  "valid_metadata m \<longleftrightarrow> relative_path_schema (meta_path m) \<and>
     (case m of Meta_Symlink p t \<Rightarrow> symlink_target_schema t | _ \<Rightarrow> True)"

lemma er_key_encode [simp]: "er_key (encode_record m) = path_key (meta_path m)"
  by (cases m) simp_all

fun meta_kind :: "metadata_record \<Rightarrow> metadata_kind" where
  "meta_kind (Meta_File p) = Kind_File"
| "meta_kind (Meta_Directory p) = Kind_Directory"
| "meta_kind (Meta_Symlink p t) = Kind_Symlink"

lemma er_kind_encode [simp]: "er_kind (encode_record m) = meta_kind m"
  by (cases m) simp_all

lemma relative_path_text:
  assumes "relative_path_schema p"
  shows "list_all scalar p" "0 \<notin> set p" "p \<noteq> []" "byte_length p \<le> max_path_bytes"
  using assms
  by (auto simp: relative_path_schema_def safe_path_def utf8_within_def well_formed_def list_ex_iff forbidden_char_def)

section \<open>Keys\<close>

lemma utf8_units_high: "128 \<le> c \<Longrightarrow> u \<in> set (utf8_units c) \<Longrightarrow> 128 \<le> u"
  by (auto simp: utf8_units_def split: if_splits)

lemma utf8_char_units_high: "128 \<le> c \<Longrightarrow> u \<in> set (utf8_char_units c) \<Longrightarrow> 128 \<le> u \<and> u < 256"
  using utf8_char_units_bound [of u c] utf8_units_high [of "if scalar c then c else 0xFFFD" u]
  by (auto simp: utf8_char_units_def)

lemma word_of_nat_47: "n < 256 \<Longrightarrow> (word_of_nat n :: byte) = 47 \<longleftrightarrow> n = 47"
proof
  assume "n < 256" "(word_of_nat n :: byte) = 47"
  then have "unat (word_of_nat n :: byte) = 47" by simp
  then show "n = 47" using \<open>n < 256\<close> by (simp add: unat_of_nat)
qed simp

lemma char_key:
  "map (\<lambda>b :: byte. if b = 47 then 0 else b) (map word_of_nat (utf8_char_units c)) =
   map word_of_nat (utf8_char_units (slash_to_nul c))"
proof (cases "c < 128")
  case True
  then show ?thesis using word_of_nat_47 [of c] by (simp add: slash_to_nul_def)
next
  case False
  then have "\<forall>u \<in> set (utf8_char_units c). (word_of_nat u :: byte) \<noteq> 47"
    using utf8_char_units_high [of c] word_of_nat_47 by fastforce
  then show ?thesis using False by (simp add: slash_to_nul_def)
qed

lemma path_key_utf8: "path_key p = utf8_encode (map slash_to_nul p)"
  using char_key by (induction p) (simp_all add: path_key_def utf8_encode_def)

lemma map_nul_slash: "0 \<notin> set p \<Longrightarrow> map nul_to_slash (map slash_to_nul p) = p"
  by (induction p) (auto simp: nul_to_slash_def slash_to_nul_def)

lemma scalar_slash_to_nul: "list_all scalar p \<Longrightarrow> list_all scalar (map slash_to_nul p)"
  by (induction p) (simp_all add: slash_to_nul_def scalar_def)

lemma decode_path_key: "list_all scalar p \<Longrightarrow> utf8_decode (path_key p) = Some (map slash_to_nul p)"
  by (simp add: path_key_utf8 utf8_roundtrip scalar_slash_to_nul)

lemma path_key_no_slash: "47 \<notin> set (path_key p)"
  by (auto simp: path_key_def)

lemma path_key_inject:
  "relative_path_schema p \<Longrightarrow> relative_path_schema q \<Longrightarrow> path_key p = path_key q \<longleftrightarrow> p = q"
  using decode_path_key map_nul_slash relative_path_text by (metis option.inject)

lemma length_path_key [simp]: "length (path_key p) = byte_length p"
  by (simp add: path_key_def length_utf8_encode)

section \<open>Round trip\<close>

lemma decode_encode_record:
  assumes "valid_metadata m"
  shows "decode_record (encode_record m) = Inr m"
proof -
  let ?p = "meta_path m"
  have path: "relative_path_schema ?p" using assms by (simp add: valid_metadata_def)
  have back': "map (\<lambda>c. if c = 0 then 47 else c) (map slash_to_nul ?p) = ?p"
    using map_nul_slash relative_path_text(2) path by (simp add: nul_to_slash_def [abs_def])
  have "list_all scalar t" if "m = Meta_Symlink p t" for p t
    using assms that by (simp add: valid_metadata_def symlink_target_schema_def utf8_within_def well_formed_def)
  then show ?thesis
    using assms path_key_no_slash [of ?p] relative_path_text(1) path back' decode_path_key [of ?p] utf8_roundtrip
    by (cases m) (simp_all add: decode_record_def parse_relative_path_def parse_symlink_target_def valid_metadata_def)
qed

lemma wf_encode_record:
  assumes "valid_metadata m"
  shows "wf_encoded (encode_record m)"
proof -
  have p: "meta_path m \<noteq> []" "byte_length (meta_path m) \<le> max_path_bytes"
    using assms relative_path_text by (auto simp: valid_metadata_def)
  have "0 < byte_length (meta_path m)" using p(1) length_le_byte_length [of "meta_path m"] by (cases "meta_path m") auto
  then have key: "path_key (meta_path m) \<noteq> []" using length_path_key by (metis length_0_conv less_irrefl)
  have "utf8_encode t \<noteq> [] \<and> byte_length t \<le> max_symlink_target_bytes" if "m = Meta_Symlink p t" for p t
  proof -
    have t: "t \<noteq> []" "byte_length t \<le> max_symlink_target_bytes"
      using assms that by (auto simp: valid_metadata_def symlink_target_schema_def utf8_within_def)
    then show ?thesis using length_le_byte_length [of t] length_utf8_encode [of t] by (cases t) auto
  qed
  then show ?thesis using p key by (cases m) (simp_all add: wf_encoded_def length_utf8_encode)
qed

section \<open>Ancestors\<close>

definition lies_below :: "code_text \<Rightarrow> code_text \<Rightarrow> bool" where
  "lies_below p q \<longleftrightarrow> take (length q + 1) p = q @ [47]"

lemma lies_below_iff: "lies_below p q \<longleftrightarrow> (\<exists>s. p = q @ 47 # s)"
proof
  assume "lies_below p q"
  then have "p = (q @ [47]) @ drop (length q + 1) p" unfolding lies_below_def by (metis append_take_drop_id)
  then show "\<exists>s. p = q @ 47 # s" by auto
qed (auto simp: lies_below_def)

lemma is_descendant_iff: "is_descendant r a \<longleftrightarrow> (\<exists>ks. er_key r = er_key a @ 0 # ks)"
proof
  assume r: "is_descendant r a"
  then have "er_key r = take (length (er_key a)) (er_key r) @ er_key r ! length (er_key a) # drop (Suc (length (er_key a))) (er_key r)"
    by (intro id_take_nth_drop) (simp add: is_descendant_def)
  then show "\<exists>ks. er_key r = er_key a @ 0 # ks" using r unfolding is_descendant_def by metis
qed (auto simp: is_descendant_def)

lemma utf8_decode_zero: "utf8_decode (0 # ks) = map_option (Cons 0) (utf8_decode ks)"
  by (simp add: utf8_decode_def utf8_decode_units.simps(2))

lemma is_descendant_encode:
  assumes "relative_path_schema (meta_path m)" "relative_path_schema (meta_path n)"
  shows "is_descendant (encode_record m) (encode_record n) \<longleftrightarrow> lies_below (meta_path m) (meta_path n)"
proof
  let ?p = "meta_path m" and ?q = "meta_path n"
  note p = relative_path_text [OF assms(1)] and q = relative_path_text [OF assms(2)]
  assume "is_descendant (encode_record m) (encode_record n)"
  then obtain ks where "path_key ?p = path_key ?q @ 0 # ks" by (auto simp: is_descendant_iff)
  then have "Some (map slash_to_nul ?p) = map_option (\<lambda>s. map slash_to_nul ?q @ s) (utf8_decode (0 # ks))"
    using decode_path_key [OF p(1)] utf8_decode_append [OF scalar_slash_to_nul [OF q(1)], of "0 # ks"]
    unfolding path_key_utf8 by metis
  then obtain t where "map slash_to_nul ?p = map slash_to_nul ?q @ 0 # t"
    by (cases "utf8_decode ks") (auto simp: utf8_decode_zero)
  then have "map nul_to_slash (map slash_to_nul ?p) = map nul_to_slash (map slash_to_nul ?q @ 0 # t)"
    by (rule arg_cong)
  then have "?p = ?q @ 47 # map nul_to_slash t"
    using map_nul_slash p(2) q(2) by (simp add: nul_to_slash_def)
  then show "lies_below ?p ?q" by (auto simp: lies_below_iff)
next
  assume "lies_below (meta_path m) (meta_path n)"
  then obtain s where "meta_path m = meta_path n @ 47 # s" by (auto simp: lies_below_iff)
  then have "path_key (meta_path m) = path_key (meta_path n) @ 0 # path_key s"
    by (simp add: path_key_utf8 slash_to_nul_def utf8_encode_def)
  then show "is_descendant (encode_record m) (encode_record n)" by (auto simp: is_descendant_iff)
qed

end
