(* ===== verification/Ledger_Conflicts.thy ===== *)
theory Ledger_Conflicts
  imports Ledger_Merging Metadata_Paths
begin

text \<open>
  The stack of \<open>validateRun\<close>: on records sorted by their keys, its one comparison with the top and
  its one look at the nearest ancestor find every duplicate and every file or link that has a
  record below it.
\<close>

section \<open>Ancestors in a sorted list\<close>

lemma is_descendant_trans: "is_descendant r a \<Longrightarrow> is_descendant a b \<Longrightarrow> is_descendant r b"
  by (auto simp: is_descendant_iff)

lemma descendant_greater: "is_descendant r a \<Longrightarrow> er_key a < er_key r"
proof -
  have "ks < ks @ x # xs" for ks xs :: bytes and x by (induction ks) auto
  then show "is_descendant r a \<Longrightarrow> er_key a < er_key r" by (auto simp: is_descendant_iff)
qed

lemma between_ancestor:
  fixes a k :: bytes
  shows "a < k \<Longrightarrow> k \<le> a @ 0 # s \<Longrightarrow> \<exists>t. k = a @ 0 # t"
proof (induction a arbitrary: k)
  case Nil
  then show ?case by (cases k) auto
next
  case (Cons x a)
  then obtain y k' where k: "k = y # k'" by (cases k) auto
  then have "y = x" "a < k'" "k' \<le> a @ 0 # s" using Cons.prems by auto
  then show ?case using Cons.IH k by auto
qed

lemma descendant_between:
  assumes "is_descendant r a" "er_key a < er_key b" "er_key b \<le> er_key r"
  shows "is_descendant b a"
  using assms between_ancestor [of "er_key a" "er_key b"] by (auto simp: is_descendant_iff)

section \<open>The stack\<close>

definition conflict_free :: "encoded_record list \<Rightarrow> bool" where
  "conflict_free rs \<longleftrightarrow> distinct (map er_key rs) \<and>
     (\<forall>a \<in> set rs. \<forall>r \<in> set rs. is_descendant r a \<longrightarrow> er_kind a = Kind_Directory)"

definition conflicting :: "conflict_code \<Rightarrow> encoded_record \<Rightarrow> encoded_record list \<Rightarrow> bool" where
  "conflicting code r rs \<longleftrightarrow> (case code of
       Duplicate_Path \<Rightarrow> 1 < count_list (map er_key rs) (er_key r)
     | File_Ancestor \<Rightarrow> (\<exists>a \<in> set rs. is_descendant r a \<and> er_kind a = Kind_File)
     | Symlink_Ancestor \<Rightarrow> (\<exists>a \<in> set rs. is_descendant r a \<and> er_kind a = Kind_Symlink))"

definition ancestor_stack :: "encoded_record list \<Rightarrow> encoded_record list \<Rightarrow> bool" where
  "ancestor_stack seen stack \<longleftrightarrow> sorted_wrt is_descendant stack \<and>
     (\<forall>a \<in> set (tl stack). er_kind a = Kind_Directory) \<and>
     (if seen = [] then stack = []
      else stack \<noteq> [] \<and> hd stack = last seen \<and>
        set stack = {a \<in> set seen. a = last seen \<or> is_descendant (last seen) a})"

primrec check_all :: "encoded_record list \<Rightarrow> encoded_record list \<Rightarrow> spill_error + unit" where
  "check_all [] stack = Inr ()"
| "check_all (r # rs) stack = and_then (check_record r stack) (check_all rs)"

lemma sorted_last: "sorted (map er_key (seen @ [r])) \<Longrightarrow> a \<in> set seen \<Longrightarrow> er_key a \<le> er_key (last seen) \<and> er_key (last seen) \<le> er_key r"
proof -
  assume s: "sorted (map er_key (seen @ [r]))" and a: "a \<in> set seen"
  then obtain ys y where y: "seen = ys @ [y]" by (metis append_butlast_last_id empty_iff list.set(1))
  then show ?thesis using s a by (auto simp: sorted_append)
qed

lemma remaining_ancestors:
  assumes stack: "ancestor_stack seen stack" and sorted: "sorted (map er_key (seen @ [r]))"
    and free: "distinct (map er_key seen)"
  defines "remaining \<equiv> dropWhile (\<lambda>a. \<not> is_descendant r a) stack"
  shows "set remaining = {a \<in> set seen. is_descendant r a}"
    and "sorted_wrt is_descendant (r # remaining)"
    and "\<forall>a \<in> set (tl remaining). er_kind a = Kind_Directory"
proof -
  have chain: "sorted_wrt is_descendant stack" using stack by (simp add: ancestor_stack_def)
  have split: "takeWhile (\<lambda>a. \<not> is_descendant r a) stack @ remaining = stack" by (simp add: remaining_def)
  have chain': "sorted_wrt is_descendant remaining" using chain split by (metis sorted_wrt_append)
  have all: "is_descendant r a" if "a \<in> set remaining" for a
  proof (cases remaining)
    case (Cons b bs)
    then have b: "is_descendant r b" unfolding remaining_def by (metis dropWhile_eq_Cons_conv)
    then show ?thesis using that chain' Cons is_descendant_trans by auto
  qed (use that in simp)
  have kept: "a \<in> set remaining" if "a \<in> set stack" "is_descendant r a" for a
    using that split by (metis Un_iff set_append set_takeWhileD)
  have member: "set stack = {a \<in> set seen. a = last seen \<or> is_descendant (last seen) a}"
    using stack by (auto simp: ancestor_stack_def split: if_splits)
  have "a \<in> set stack" if "a \<in> set seen" "is_descendant r a" for a
  proof (cases "a = last seen")
    case False
    have "last seen \<in> set seen" using that(1) by (cases seen) auto
    then have "er_key a \<noteq> er_key (last seen)" using False that(1) free by (auto simp: distinct_map inj_on_def)
    then have "is_descendant (last seen) a"
      using descendant_between [OF that(2)] sorted_last [OF sorted that(1)] by auto
    then show ?thesis using that(1) member by simp
  qed (use that member in simp)
  then show "set remaining = {a \<in> set seen. is_descendant r a}"
    using all kept member set_dropWhileD [of _ _ stack] unfolding remaining_def by blast
  show "sorted_wrt is_descendant (r # remaining)" using chain' all by simp
  obtain ys where "stack = ys @ remaining" using split by metis
  then have "set (tl remaining) \<subseteq> set (tl stack)" by (cases ys; cases remaining) auto
  then show "\<forall>a \<in> set (tl remaining). er_kind a = Kind_Directory"
    using stack by (auto simp: ancestor_stack_def)
qed

lemma duplicate_on_top:
  assumes "ancestor_stack seen stack" "sorted (map er_key (seen @ [r]))"
  shows "stack \<noteq> [] \<and> er_key (hd stack) = er_key r \<longleftrightarrow> er_key r \<in> er_key ` set seen"
proof (cases seen rule: rev_cases)
  case (snoc ys y)
  have top: "stack \<noteq> []" "hd stack = y" using assms(1) snoc by (simp_all add: ancestor_stack_def)
  have "er_key y = er_key r" if a: "a \<in> set seen" "er_key r = er_key a" for a
  proof (rule order.antisym)
    show "er_key y \<le> er_key r" "er_key r \<le> er_key y" using sorted_last [OF assms(2) a(1)] a(2) snoc by simp_all
  qed
  moreover have "y \<in> set seen" using snoc by simp
  ultimately have "er_key y = er_key r \<longleftrightarrow> er_key r \<in> er_key ` set seen" by (metis imageE imageI)
  then show ?thesis unfolding top(2) using top(1) by simp
qed (use assms in \<open>simp add: ancestor_stack_def\<close>)

lemma conflict_free_snoc:
  assumes "conflict_free seen" "sorted (map er_key (seen @ [r]))" "er_key r \<notin> er_key ` set seen"
    and "\<forall>a \<in> set seen. is_descendant r a \<longrightarrow> er_kind a = Kind_Directory"
  shows "conflict_free (seen @ [r])"
proof -
  have "\<not> is_descendant a r" if "a \<in> set (seen @ [r])" for a
    using descendant_greater [of a r] assms(2) that by (fastforce simp: sorted_append)
  then show ?thesis using assms(1,3,4) by (auto simp: conflict_free_def)
qed

text \<open>One record: it is pushed and the list stays free of conflicts, or it is the conflict.\<close>

lemma check_record_step:
  assumes stack: "ancestor_stack seen stack" and sorted: "sorted (map er_key (seen @ [r]))"
    and free: "conflict_free seen" and decoded: "decode_record r = Inr m"
  shows "(\<exists>stack'. check_record r stack = Inr stack' \<and> ancestor_stack (seen @ [r]) stack' \<and> conflict_free (seen @ [r])) \<or>
    (\<exists>code. check_record r stack = Inl (Conflict code (meta_path m)) \<and> conflicting code r (seen @ [r]))"
proof (cases "er_key r \<in> er_key ` set seen")
  case True
  then have "check_record r stack = Inl (Conflict Duplicate_Path (meta_path m))"
    using duplicate_on_top [OF stack sorted] by (simp add: check_record_def decoded)
  moreover have "count_list (map er_key seen) (er_key r) \<noteq> 0" using True by (simp add: count_list_0_iff)
  ultimately show ?thesis by (auto simp: conflicting_def)
next
  case False
  define remaining where "remaining = dropWhile (\<lambda>a. \<not> is_descendant r a) stack"
  note rest = remaining_ancestors [OF stack sorted, folded remaining_def]
  have distinct: "distinct (map er_key seen)" using free by (simp add: conflict_free_def)
  have check: "check_record r stack =
      (if remaining \<noteq> [] \<and> er_kind (hd remaining) = Kind_File then Inl (Conflict File_Ancestor (meta_path m))
       else if remaining \<noteq> [] \<and> er_kind (hd remaining) = Kind_Symlink then Inl (Conflict Symlink_Ancestor (meta_path m))
       else Inr (r # remaining))"
  proof -
    have new: "\<not> (stack \<noteq> [] \<and> er_key (hd stack) = er_key r)" using False duplicate_on_top [OF stack sorted] by blast
    show ?thesis unfolding check_record_def decoded and_then_Inr Let_def remaining_def by (simp only: new if_False)
  qed
  show ?thesis
  proof (cases "\<forall>a \<in> set remaining. er_kind a = Kind_Directory")
    case True
    then have "\<forall>a \<in> set seen. is_descendant r a \<longrightarrow> er_kind a = Kind_Directory" using rest(1) [OF distinct] by auto
    then have "conflict_free (seen @ [r])" using conflict_free_snoc [OF free sorted False] by simp
    moreover have "ancestor_stack (seen @ [r]) (r # remaining)"
      using rest(1,2) [OF distinct] True by (auto simp: ancestor_stack_def)
    moreover have "check_record r stack = Inr (r # remaining)" using check True by (cases remaining) auto
    ultimately show ?thesis by blast
  next
    case non_directory: False
    then obtain a as where a: "remaining = a # as" by (cases remaining) auto
    then have kind: "er_kind a \<noteq> Kind_Directory" using non_directory rest(3) [OF distinct] by auto
    have "is_descendant r a" "a \<in> set seen" using rest(1) [OF distinct] a by auto
    then show ?thesis using check a kind by (cases "er_kind a") (auto simp: conflicting_def)
  qed
qed

lemma conflicting_mono: "conflicting code r rs \<Longrightarrow> conflicting code r (rs @ ss)"
  by (auto simp: conflicting_def split: conflict_code.splits)

lemma count_list_distinct: "distinct xs \<Longrightarrow> count_list xs x \<le> 1"
  by (induction xs) (auto simp: count_list_0_iff)

lemma conflicting_not_free: "conflicting code r rs \<Longrightarrow> r \<in> set rs \<Longrightarrow> \<not> conflict_free rs"
  using count_list_distinct [of "map er_key rs" "er_key r"]
  by (force simp: conflicting_def conflict_free_def split: conflict_code.splits)

lemma check_all_decides:
  assumes "\<And>r. r \<in> set todo \<Longrightarrow> decode_record r = Inr (decoded r)"
    and "ancestor_stack seen stack" "sorted (map er_key (seen @ todo))" "conflict_free seen"
  shows "(check_all todo stack = Inr () \<and> conflict_free (seen @ todo)) \<or>
    (\<exists>code r. r \<in> set todo \<and> check_all todo stack = Inl (Conflict code (meta_path (decoded r))) \<and>
       conflicting code r (seen @ todo))"
  using assms
proof (induction todo arbitrary: seen stack)
  case (Cons r todo)
  have "sorted (map er_key ((seen @ [r]) @ todo))" using Cons.prems(3) by simp
  then have sorted: "sorted (map er_key (seen @ [r]))" unfolding map_append sorted_append by blast
  have "decode_record r = Inr (decoded r)" using Cons.prems(1) by simp
  from check_record_step [OF Cons.prems(2) sorted Cons.prems(4) this] show ?case
  proof (elim disjE exE conjE)
    fix stack' assume step: "check_record r stack = Inr stack'" "ancestor_stack (seen @ [r]) stack'" "conflict_free (seen @ [r])"
    show ?thesis using Cons.IH [OF _ step(2) _ step(3)] Cons.prems(1,3) step(1) by auto
  next
    fix code assume "check_record r stack = Inl (Conflict code (meta_path (decoded r)))" "conflicting code r (seen @ [r])"
    then show ?thesis using conflicting_mono [of code r "seen @ [r]" todo] by auto
  qed
qed simp

end
