(* ===== verification/Ledger_Sealing.thy ===== *)
theory Ledger_Sealing
  imports Ledger_Conflicts
begin

text \<open>
  The loops over the sorted run do what they do on the list of its records, the offset index points
  at every record, and the binary search over it finds a key or finds that it is not there.
\<close>

section \<open>Loops over a run\<close>

lemma validate_run_list:
  assumes "honest_driver d" "safe_size (length dat)"
  shows "(\<And>r. r \<in> set rs \<Longrightarrow> wf_encoded r) \<Longrightarrow> holds_run dat c rs \<Longrightarrow> validate_run d dat c stack = check_all rs stack"
proof (induction rs arbitrary: c stack)
  case Nil
  then show ?case using read_record_holds_Nil by (simp add: validate_run.simps [of d dat c])
next
  case (Cons r rs)
  have "read_record d dat c = Inr (Some r, c\<lparr>rc_position := rc_position c + encoded_size r\<rparr>)"
    using read_record_holds_Cons [OF assms] Cons.prems by simp
  then show ?case using Cons.IH [OF _ holds_run_ConsD(1)] Cons.prems
    by (simp add: validate_run.simps [of d dat c] and_then_def split: sum.split)
qed

lemma read_records_list:
  assumes "honest_driver d" "safe_size (length dat)"
  shows "(\<And>m. m \<in> set ms \<Longrightarrow> valid_metadata m) \<Longrightarrow> holds_run dat c (map encode_record ms) \<Longrightarrow> read_records d dat c = Inr ms"
proof (induction ms arbitrary: c)
  case Nil
  then show ?case using read_record_holds_Nil by (simp add: read_records.simps [of d dat c])
next
  case (Cons m ms)
  let ?r = "encode_record m"
  have "read_record d dat c = Inr (Some ?r, c\<lparr>rc_position := rc_position c + encoded_size ?r\<rparr>)"
    using read_record_holds_Cons [OF assms] Cons.prems wf_encode_record by simp
  moreover have "read_records d dat (c\<lparr>rc_position := rc_position c + encoded_size ?r\<rparr>) = Inr ms"
    using Cons.IH Cons.prems holds_run_ConsD(1) [of dat c ?r "map encode_record ms"] by simp
  ultimately show ?case using decode_encode_record Cons.prems(1)
    by (simp add: read_records.simps [of d dat c])
qed

section \<open>The offset index\<close>

primrec offset_bytes :: "nat \<Rightarrow> encoded_record list \<Rightarrow> bytes" where
  "offset_bytes start [] = []"
| "offset_bytes start (r # rs) = big_endian 8 start @ offset_bytes (start + encoded_size r) rs"

lemma length_offset_bytes [simp]: "length (offset_bytes start rs) = 8 * length rs"
  by (induction rs arbitrary: start) simp_all

lemma offset_bytes_nth:
  "i < length rs \<Longrightarrow> take 8 (drop (8 * i) (offset_bytes start rs)) = big_endian 8 (start + length (run_bytes (take i rs)))"
proof (induction rs arbitrary: start i)
  case (Cons r rs)
  show ?case
  proof (cases i)
    case (Suc j)
    have "drop (8 * Suc j) (offset_bytes start (r # rs)) = drop (8 * j) (offset_bytes (start + encoded_size r) rs)"
      by (simp add: drop_append)
    then show ?thesis using Cons Suc by (simp add: length_record_bytes add.assoc)
  qed simp
qed simp

lemma index_loop_list:
  assumes d: "honest_driver d" and safe: "safe_size (length dat)" "safe_size (8 * total_records)"
  shows "(\<And>r. r \<in> set rs \<Longrightarrow> wf_encoded r) \<Longrightarrow> holds_run dat c rs \<Longrightarrow> length offsets = 8 * ordinal \<Longrightarrow>
    ordinal + length rs \<le> total_records \<Longrightarrow>
    index_loop d dat c ordinal offsets = Inr (offsets @ offset_bytes (rc_position c) rs, ordinal + length rs)"
proof (induction rs arbitrary: c ordinal offsets)
  case Nil
  then show ?case using read_record_holds_Nil by (simp add: index_loop.simps [of d dat c])
next
  case (Cons r rs)
  let ?c = "c\<lparr>rc_position := rc_position c + encoded_size r\<rparr>"
  have read: "read_record d dat c = Inr (Some r, ?c)"
    using read_record_holds_Cons [OF d safe(1)] Cons.prems by simp
  have "rc_position c \<le> length dat" using Cons.prems(2) by (simp add: holds_run_def)
  then have position: "safe_size (rc_position c)" using safe(1) safe_size_mono by blast
  have room: "safe_size (8 * ordinal + 8)" using safe_size_mono [OF safe(2)] Cons.prems(4) by simp
  then have next': "safe_size (ordinal + 1)" using safe_size_mono by simp
  have "index_loop d dat ?c (ordinal + 1) (offsets @ big_endian 8 (rc_position c)) =
      Inr ((offsets @ big_endian 8 (rc_position c)) @ offset_bytes (rc_position ?c) rs, ordinal + 1 + length rs)"
    using Cons.prems holds_run_ConsD(1) by (intro Cons.IH) simp_all
  then show ?case
    using read write_offset_appends [OF d position room Cons.prems(3)] address_safe [OF next']
    by (simp add: index_loop.simps [of d dat c])
qed

section \<open>The sealed ledger\<close>

definition sealed_holds :: "metadata_ledger \<Rightarrow> metadata_record list \<Rightarrow> bool" where
  "sealed_holds ml ms \<longleftrightarrow> ml_phase ml = Ledger_Sealed \<and>
     sf_data0 (ml_files ml) = run_bytes (map encode_record ms) \<and>
     sf_data1 (ml_files ml) = offset_bytes 0 (map encode_record ms) \<and>
     so_end (ml_state ml) = length (run_bytes (map encode_record ms)) \<and> ml_record_count ml = length ms \<and>
     (\<forall>m \<in> set ms. valid_metadata m) \<and> safe_size (length (run_bytes (map encode_record ms)))"

lemma sealed_whole_run:
  "sealed_holds ml ms \<Longrightarrow> holds_run (sf_data0 (ml_files ml)) (whole_run (ml_state ml)) (map encode_record ms)"
  using holds_run_append [of "[]" "map encode_record ms" "[]"] by (simp add: sealed_holds_def whole_run_def)

lemma sealed_records:
  assumes "honest_driver d" "sealed_holds ml ms"
  shows "ledger_records d ml = (Inr ms, ml)"
proof -
  have "read_records d (sf_data0 (ml_files ml)) (whole_run (ml_state ml)) = Inr ms"
    using read_records_list [OF assms(1) _ _ sealed_whole_run [OF assms(2)]] assms(2) by (simp add: sealed_holds_def)
  then show ?thesis using assms(2) by (simp add: ledger_records_def sealed_holds_def enter_ledger_def)
qed

lemma sealed_probe:
  assumes d: "honest_driver d" and ml: "sealed_holds ml ms" and i: "i < length ms"
  shows "\<exists>position c'. read_offset d (sf_data1 (ml_files ml)) i = Inr position \<and>
    read_record d (sf_data0 (ml_files ml)) \<lparr>rc_position = position, rc_end = so_end (ml_state ml)\<rparr> =
      Inr (Some (encode_record (ms ! i)), c')"
proof -
  let ?rs = "map encode_record ms"
  let ?position = "length (run_bytes (take i ?rs))"
  let ?c = "\<lparr>rc_position = ?position, rc_end = so_end (ml_state ml)\<rparr>"
  have wf: "\<forall>r \<in> set ?rs. wf_encoded r" using ml wf_encode_record by (auto simp: sealed_holds_def)
  have safe: "safe_size (length (run_bytes ?rs))" using ml by (simp add: sealed_holds_def)
  have split: "run_bytes ?rs = run_bytes (take i ?rs) @ run_bytes (drop i ?rs)"
    by (metis append_take_drop_id run_bytes_simps(3))
  have "8 * length ?rs \<le> length (run_bytes ?rs)" using run_bytes_large [OF wf] by simp
  then have "safe_size (length (offset_bytes 0 ?rs))" using safe safe_size_mono by simp
  moreover have "safe_size ?position" using safe split by (auto elim: safe_size_mono)
  ultimately have "read_offset d (offset_bytes 0 ?rs) i = Inr ?position"
    using offset_bytes_nth [of i ?rs 0] i by (intro read_offset_returns d) simp_all
  moreover have "holds_run (run_bytes ?rs) ?c (drop i ?rs)"
    using holds_run_append [of "run_bytes (take i ?rs)" "drop i ?rs" "[]"] split ml by (simp add: sealed_holds_def)
  then have "holds_run (run_bytes ?rs) ?c (encode_record (ms ! i) # drop (Suc i) ?rs)"
    using i by (simp add: Cons_nth_drop_Suc [symmetric] drop_map)
  then have "\<exists>c'. read_record d (run_bytes ?rs) ?c = Inr (Some (encode_record (ms ! i)), c')"
    using read_record_holds_Cons [OF d safe, of "encode_record (ms ! i)" ?c] wf i by auto
  ultimately show ?thesis using ml by (simp add: sealed_holds_def)
qed

text \<open>The search: a record with the key between the bounds is found, and only such a record.\<close>

definition record_order :: "metadata_record \<Rightarrow> bytes" where
  "record_order m = path_key (meta_path m)"

lemma search_records_found:
  assumes d: "honest_driver d" and ml: "sealed_holds ml ms" and sorted: "sorted (map record_order ms)"
  shows "0 \<le> low \<Longrightarrow> high < int (length ms) \<Longrightarrow>
    (\<exists>i. low \<le> int i \<and> int i \<le> high \<and> record_order (ms ! i) = key \<and>
       search_records d ml key low high = Inr (Some (ms ! i))) \<or>
    (\<forall>i. low \<le> int i \<and> int i \<le> high \<longrightarrow> record_order (ms ! i) \<noteq> key) \<and> search_records d ml key low high = Inr None"
proof (induction "nat (high - low + 1)" arbitrary: low high rule: less_induct)
  case less
  show ?case
  proof (cases "high < low")
    case True
    then show ?thesis by (auto simp: search_records.simps [of d ml key low high])
  next
    case False
    define middle where "middle = low + (high - low) div 2"
    let ?m = "nat middle"
    have middle: "low \<le> middle" "middle \<le> high" using False by (auto simp: middle_def)
    then have m: "?m < length ms" "int ?m = middle" using less.prems by auto
    obtain position c' where probe: "read_offset d (sf_data1 (ml_files ml)) ?m = Inr position"
        "read_record d (sf_data0 (ml_files ml)) \<lparr>rc_position = position, rc_end = so_end (ml_state ml)\<rparr> =
          Inr (Some (encode_record (ms ! ?m)), c')"
      using sealed_probe [OF d ml m(1)] by blast
    have valid: "valid_metadata (ms ! ?m)" using ml m(1) by (auto simp: sealed_holds_def)
    have step: "search_records d ml key low high =
        (if record_order (ms ! ?m) = key then Inr (Some (ms ! ?m))
         else if record_order (ms ! ?m) < key then search_records d ml key (middle + 1) high
         else search_records d ml key low (middle - 1))"
      using False probe decode_encode_record [OF valid]
      by (simp add: search_records.simps [of d ml key low high] Let_def middle_def [symmetric] record_order_def bytes_less_iff)
    have mono: "record_order (ms ! i) \<le> record_order (ms ! j)" if "i \<le> j" "j < length ms" for i j
      using sorted that by (simp add: sorted_iff_nth_mono)
    consider "record_order (ms ! ?m) = key" | "record_order (ms ! ?m) < key" | "key < record_order (ms ! ?m)" by fastforce
    then show ?thesis
    proof cases
      case 1
      then show ?thesis using step middle m(2) by (intro disjI1 exI [of _ ?m]) simp
    next
      case 2
      have below: "record_order (ms ! i) \<noteq> key" if "int i \<le> middle" for i
        using mono [of i ?m] that m 2 by auto
      have same: "search_records d ml key low high = search_records d ml key (middle + 1) high" using step 2 by auto
      have "nat (high - (middle + 1) + 1) < nat (high - low + 1)" "0 \<le> middle + 1" using middle less.prems by auto
      from less.hyps [OF this less.prems(2)] show ?thesis
      proof (elim disjE exE conjE)
        fix i assume "middle + 1 \<le> int i" "int i \<le> high" "record_order (ms ! i) = key"
          "search_records d ml key (middle + 1) high = Inr (Some (ms ! i))"
        then show ?thesis using middle same by (intro disjI1 exI [of _ i]) simp
      next
        assume none: "\<forall>i. middle + 1 \<le> int i \<and> int i \<le> high \<longrightarrow> record_order (ms ! i) \<noteq> key"
          and result: "search_records d ml key (middle + 1) high = Inr None"
        have "record_order (ms ! i) \<noteq> key" if "int i \<le> high" for i
          using none below that by (cases "int i \<le> middle") auto
        then show ?thesis using result same by (intro disjI2) simp
      qed
    next
      case 3
      have above: "record_order (ms ! i) \<noteq> key" if "middle \<le> int i" "int i \<le> high" for i
        using mono [of ?m i] that m 3 less.prems(2) by auto
      have same: "search_records d ml key low high = search_records d ml key low (middle - 1)" using step 3 by auto
      have "nat (middle - 1 - low + 1) < nat (high - low + 1)" "middle - 1 < int (length ms)" using middle less.prems by auto
      from less.hyps [OF this(1) less.prems(1) this(2)] show ?thesis
      proof (elim disjE exE conjE)
        fix i assume "low \<le> int i" "int i \<le> middle - 1" "record_order (ms ! i) = key"
          "search_records d ml key low (middle - 1) = Inr (Some (ms ! i))"
        then show ?thesis using middle same by (intro disjI1 exI [of _ i]) simp
      next
        assume none: "\<forall>i. low \<le> int i \<and> int i \<le> middle - 1 \<longrightarrow> record_order (ms ! i) \<noteq> key"
          and result: "search_records d ml key low (middle - 1) = Inr None"
        have "record_order (ms ! i) \<noteq> key" if "low \<le> int i" "int i \<le> high" for i
          using none above that by (cases "middle \<le> int i") auto
        then show ?thesis using result same by (intro disjI2) simp
      qed
    qed
  qed
qed

lemma sealed_lookup_record:
  assumes d: "honest_driver d" and ml: "sealed_holds ml ms" and sorted: "sorted (map record_order ms)"
    and distinct: "distinct (map record_order ms)" and path: "relative_path_schema p"
  shows "lookup_record d ml p = Inr (find (\<lambda>m. meta_path m = p) ms)"
proof -
  have same: "record_order m = path_key p \<longleftrightarrow> meta_path m = p" if "m \<in> set ms" for m
    using ml that path path_key_inject [of "meta_path m" p] by (auto simp: sealed_holds_def valid_metadata_def record_order_def)
  have last': "int (length ms) - 1 < int (length ms)" by simp
  from search_records_found [OF d ml sorted order.refl last', of "path_key p"]
  have "search_records d ml (path_key p) 0 (int (length ms) - 1) = Inr (find (\<lambda>m. meta_path m = p) ms)"
  proof (elim disjE exE conjE)
    fix i assume i: "int i \<le> int (length ms) - 1" "record_order (ms ! i) = path_key p"
      and found: "search_records d ml (path_key p) 0 (int (length ms) - 1) = Inr (Some (ms ! i))"
    then have len: "i < length ms" by simp
    moreover have "meta_path (ms ! i) = p" using same len i(2) by simp
    moreover have "meta_path (ms ! j) \<noteq> p" if "j < i" for j
    proof
      assume "meta_path (ms ! j) = p"
      then have "record_order (ms ! j) = path_key p" using same that len by simp
      then have "record_order (ms ! j) = record_order (ms ! i)" using i(2) by simp
      then show False using distinct that len by (auto simp: distinct_conv_nth)
    qed
    ultimately have "find (\<lambda>m. meta_path m = p) ms = Some (ms ! i)" by (auto simp: find_Some_iff)
    then show ?thesis using found by simp
  next
    assume none: "\<forall>i. 0 \<le> int i \<and> int i \<le> int (length ms) - 1 \<longrightarrow> record_order (ms ! i) \<noteq> path_key p"
      and found: "search_records d ml (path_key p) 0 (int (length ms) - 1) = Inr None"
    have "meta_path m \<noteq> p" if "m \<in> set ms" for m
      using none same that by (auto simp: in_set_conv_nth)
    then have "find (\<lambda>m. meta_path m = p) ms = None" by (auto simp: find_None_iff)
    then show ?thesis using found by simp
  qed
  then show ?thesis using ml by (simp add: lookup_record_def sealed_holds_def)
qed

lemma sealed_lookup:
  assumes "honest_driver d" "sealed_holds ml ms" "sorted (map record_order ms)" "distinct (map record_order ms)"
    and "relative_path_schema p"
  shows "get_record d p ml = (Inr (find (\<lambda>m. meta_path m = p) ms), ml)"
  using sealed_lookup_record [OF assms] assms(2) by (simp add: get_record_def sealed_holds_def enter_ledger_def)


text \<open>
  The metadata ledger as a whole: an open ledger keeps its records, finishing it sorts them and
  finds every conflict, and a sealed ledger replays the records in order and looks paths up.
\<close>

section \<open>The open ledger\<close>

definition open_holds :: "metadata_ledger \<Rightarrow> encoded_record list \<Rightarrow> bool" where
  "open_holds ml rs \<longleftrightarrow> ml_phase ml = Ledger_Open \<and> 2 \<le> ml_fan_in ml \<and>
     (\<forall>r \<in> set (ml_batch ml). wf_encoded r) \<and>
     (\<exists>runs. sort_holds (ml_files ml) (ml_state ml) runs \<and>
       sort_key er_key (concat runs @ ml_batch ml) = sort_key er_key rs)"

lemma same_sort_length: "sort_key er_key rs = sort_key er_key ss \<Longrightarrow> length (run_bytes rs) = length (run_bytes ss)"
  by (metis length_run_bytes_sort)

lemma same_sort_snoc: "sort_key f xs = sort_key f ys \<Longrightarrow> sort_key f (xs @ [r]) = sort_key f (ys @ [r])"
  using sort_key_middle [of f "[]" xs "[r]"] sort_key_middle [of f "[]" ys "[r]"] by simp

lemma write_records_append:
  "honest_driver d \<Longrightarrow> safe_size (length dat + length (run_bytes rs)) \<Longrightarrow>
   write_records d dat (length dat) rs = Inr (dat @ run_bytes rs, length dat + length (run_bytes rs))"
proof (induction rs arbitrary: dat)
  case (Cons r rs)
  have "safe_size (length dat + encoded_size r)"
    using safe_size_mono [OF Cons.prems(2)] by (simp add: length_record_bytes)
  then show ?case
    using Cons.IH [of "dat @ record_bytes r"] Cons.prems write_record_appends [OF Cons.prems(1)]
    by (simp add: length_record_bytes add.assoc)
qed simp

lemma flush_batch_holds:
  assumes d: "honest_driver d" and ml: "open_holds ml rs" and safe: "safe_size (2 * length (run_bytes rs))"
  shows "\<exists>ml'. flush_batch d ml = Inr ml' \<and> open_holds ml' rs \<and> ml_batch ml' = [] \<and>
    ml_batch_bytes ml' = ml_batch_bytes ml"
proof (cases "ml_batch ml = []")
  case True
  then show ?thesis using ml by (simp add: flush_batch_def)
next
  case False
  obtain runs where runs: "sort_holds (ml_files ml) (ml_state ml) runs"
      and same: "sort_key er_key (concat runs @ ml_batch ml) = sort_key er_key rs"
    using ml by (auto simp: open_holds_def)
  let ?dat = "sf_data0 (ml_files ml)" and ?batch = "sort_key er_key (ml_batch ml)"
  have held: "runs_hold ?dat (sf_descriptors0 (ml_files ml)) runs" and st: "so_end (ml_state ml) = length ?dat"
      "so_descriptor_end (ml_state ml) = length runs * descriptor_bytes" "so_runs (ml_state ml) = length runs"
    using runs by (simp_all add: sort_holds_def)
  have good: "good_run ?batch" "?batch \<noteq> []"
    using ml False good_run_sort [of "ml_batch ml"] by (auto simp: open_holds_def) (metis length_0_conv length_sort)
  have len: "length (run_bytes rs) = length ?dat + length (run_bytes (ml_batch ml))"
    using same_sort_length [OF same] held by (simp add: runs_hold_def)
  then have safe': "safe_size (2 * (length ?dat + length (run_bytes ?batch)))"
      "safe_size (length ?dat + length (run_bytes ?batch))"
    using safe by (auto elim: safe_size_mono)
  have same': "sort_key er_key (concat (runs @ [?batch])) = sort_key er_key rs"
    using same sort_key_middle [of er_key "concat runs" "ml_batch ml" "[]"] by simp
  have "sort_holds ((ml_files ml)\<lparr>sf_data0 := ?dat @ run_bytes ?batch,
        sf_descriptors0 := sf_descriptors0 (ml_files ml) @ descriptor (length ?dat) (length ?dat + length (run_bytes ?batch))\<rparr>)
      \<lparr>so_runs = length runs + 1, so_end = length ?dat + length (run_bytes ?batch),
        so_descriptor_end = (length runs + 1) * descriptor_bytes\<rparr> (runs @ [?batch])"
    using runs_hold_snoc [OF held good] by (simp add: sort_holds_def)
  then show ?thesis
    using False ml same' write_records_append [OF d safe'(2)] write_run_descriptor [OF d held good safe'(1)]
    by (auto simp: flush_batch_def sort_records_sort_key st open_holds_def)
qed

lemma append_record_holds:
  assumes d: "honest_driver d" and ml: "open_holds ml rs" and m: "valid_metadata m"
    and safe: "safe_size (2 * length (run_bytes rs))"
  shows "\<exists>ml'. append_record d m ml = (Inr (), ml') \<and> open_holds ml' (rs @ [encode_record m])"
proof -
  let ?flush = "if ml_batch_bytes ml < ml_batch_size ml + encoded_size (encode_record m) then flush_batch d ml else Inr ml"
  obtain ml1 where ml1: "?flush = Inr ml1" "open_holds ml1 rs"
    using flush_batch_holds [OF d ml safe] ml
    by (cases "ml_batch_bytes ml < ml_batch_size ml + encoded_size (encode_record m)") auto
  then obtain runs where "sort_holds (ml_files ml1) (ml_state ml1) runs"
      "sort_key er_key (concat runs @ ml_batch ml1) = sort_key er_key rs"
    by (auto simp: open_holds_def)
  then have "open_holds (ml1\<lparr>ml_batch := ml_batch ml1 @ [encode_record m],
      ml_batch_size := ml_batch_size ml1 + encoded_size (encode_record m)\<rparr>) (rs @ [encode_record m])"
    using ml1(2) wf_encode_record [OF m] same_sort_snoc [of er_key "concat runs @ ml_batch ml1" rs "encode_record m"]
    unfolding open_holds_def by auto
  moreover have "ml_phase ml = Ledger_Open" using ml by (simp add: open_holds_def)
  ultimately show ?thesis using ml1(1) by (simp add: append_record_def Let_def enter_ledger_def)
qed

lemma append_records_hold:
  assumes "honest_driver d"
  shows "open_holds ml rs \<Longrightarrow> \<forall>m \<in> set ms. valid_metadata m \<Longrightarrow>
    safe_size (2 * length (run_bytes (rs @ map encode_record ms))) \<Longrightarrow>
    \<exists>ml'. append_records d ms ml = (Inr (), ml') \<and> open_holds ml' (rs @ map encode_record ms)"
proof (induction ms arbitrary: ml rs)
  case (Cons m ms)
  have "safe_size (2 * length (run_bytes rs))" using safe_size_mono [OF Cons.prems(3)] by simp
  then obtain ml1 where ml1: "append_record d m ml = (Inr (), ml1)" "open_holds ml1 (rs @ [encode_record m])"
    using append_record_holds [OF assms Cons.prems(1)] Cons.prems(2) by auto
  then show ?case using Cons.IH [OF ml1(2)] Cons.prems(2,3) by simp
qed simp

lemma created_holds:
  assumes "create_metadata_ledger batch_bytes fan_in = Inr ml"
  shows "open_holds ml []"
proof -
  have "sort_holds empty_files \<lparr>so_runs = 0, so_end = 0, so_descriptor_end = 0\<rparr> []"
    by (simp add: sort_holds_def empty_files_def runs_hold_Nil)
  then show ?thesis using assms by (auto simp: create_metadata_ledger_def open_holds_def split: if_splits intro: exI [of _ "[]"])
qed

section \<open>Finishing\<close>

lemma map_insort_key: "map g (insort_key (\<lambda>x. f (g x)) x xs) = insort_key f (g x) (map g xs)"
  by (induction xs) auto

lemma map_sort_key: "map g (sort_key (\<lambda>x. f (g x)) xs) = sort_key f (map g xs)"
  by (induction xs) (simp_all add: map_insort_key)

lemma sort_encoded: "sort_key er_key (map encode_record ms) = map encode_record (sort_key record_order ms)"
  using map_sort_key [of encode_record er_key ms] by (simp add: record_order_def [abs_def])

lemma finish_ledger_result:
  assumes d: "honest_driver d" and ml: "open_holds ml (map encode_record ms)"
    and valid: "\<forall>m \<in> set ms. valid_metadata m" and safe: "safe_size (2 * length (run_bytes (map encode_record ms)))"
  shows "case check_all (map encode_record (sort_key record_order ms)) [] of
      Inl e \<Rightarrow> \<exists>ml'. finish_ledger d ml = (Inl e, ml') \<and> ml_phase ml' = Ledger_Failed
    | Inr _ \<Rightarrow> \<exists>ml'. finish_ledger d ml = (Inr (), ml') \<and> sealed_holds ml' (sort_key record_order ms)"
proof -
  let ?ms = "sort_key record_order ms"
  let ?rs = "map encode_record ?ms"
  obtain ml1 where flushed: "flush_batch d ml = Inr ml1" "open_holds ml1 (map encode_record ms)" "ml_batch ml1 = []"
    using flush_batch_holds [OF d ml safe] by blast
  then obtain runs where runs: "sort_holds (ml_files ml1) (ml_state ml1) runs"
      and same: "sort_key er_key (concat runs) = sort_key er_key (map encode_record ms)"
    by (auto simp: open_holds_def)
  have "so_end (ml_state ml1) = length (run_bytes (concat runs))" using runs by (simp add: sort_holds_def runs_hold_def)
  then have stop: "so_end (ml_state ml1) = length (run_bytes (map encode_record ms))" using same_sort_length [OF same] by simp
  then have safe_end: "safe_size (2 * so_end (ml_state ml1))" using safe by simp
  have fan_in: "2 \<le> ml_fan_in ml1" using flushed(2) by (simp add: open_holds_def)
  obtain files st where merged: "merge_runs d (ml_fan_in ml1) (ml_files ml1) (ml_state ml1) = Inr (files, st)"
      "sf_data0 files = run_bytes ?rs" "so_end st = length (run_bytes ?rs)"
    using merge_runs_sorted [OF d fan_in runs safe_end] unfolding same sort_encoded by auto
  have size': "length (run_bytes ?rs) = length (run_bytes (map encode_record ms))"
    using length_run_bytes_sort [of er_key "map encode_record ms"] unfolding sort_encoded .
  then have safe': "safe_size (length (run_bytes ?rs))" using safe_size_mono [OF safe] by simp
  have valid': "\<And>m. m \<in> set ?ms \<Longrightarrow> valid_metadata m" using valid by simp
  then have wf: "\<And>r. r \<in> set ?rs \<Longrightarrow> wf_encoded r" using wf_encode_record by auto
  have whole: "holds_run (sf_data0 files) (whole_run st) ?rs"
    using holds_run_append [of "[]" ?rs "[]"] merged(2,3) by (simp add: whole_run_def)
  have "10 * length ?rs \<le> length (run_bytes ?rs)" using run_bytes_large wf by blast
  then have room: "safe_size (8 * length ?rs)" using safe' by (auto elim: safe_size_mono)
  have checked: "validate_run d (sf_data0 files) (whole_run st) [] = check_all ?rs []"
    using validate_run_list [OF d _ wf whole] safe' merged(2) by simp
  have indexed: "index_loop d (sf_data0 files) (whole_run st) 0 [] = Inr (offset_bytes 0 ?rs, length ?rs)"
    using index_loop_list [OF d _ room wf whole] safe' merged(2) by (simp add: whole_run_def)
  have phase: "ml_phase ml = Ledger_Open" using ml by (simp add: open_holds_def)
  show ?thesis
  proof (cases "check_all ?rs []")
    case (Inl e)
    then show ?thesis using phase flushed(1) merged(1) checked by (simp add: finish_ledger_def enter_ledger_def)
  next
    case (Inr u)
    then show ?thesis
      using phase flushed(1) merged checked indexed valid' safe' by (simp add: finish_ledger_def enter_ledger_def sealed_holds_def)
  qed
qed

section \<open>Conflicts of paths\<close>

definition path_conflict :: "conflict_code \<Rightarrow> metadata_record \<Rightarrow> metadata_record list \<Rightarrow> bool" where
  "path_conflict code m ms \<longleftrightarrow> (case code of
       Duplicate_Path \<Rightarrow> 1 < count_list (map meta_path ms) (meta_path m)
     | File_Ancestor \<Rightarrow> (\<exists>a \<in> set ms. lies_below (meta_path m) (meta_path a) \<and> meta_kind a = Kind_File)
     | Symlink_Ancestor \<Rightarrow> (\<exists>a \<in> set ms. lies_below (meta_path m) (meta_path a) \<and> meta_kind a = Kind_Symlink))"

definition paths_free :: "metadata_record list \<Rightarrow> bool" where
  "paths_free ms \<longleftrightarrow> distinct (map meta_path ms) \<and>
     (\<forall>a \<in> set ms. \<forall>m \<in> set ms. lies_below (meta_path m) (meta_path a) \<longrightarrow> meta_kind a = Kind_Directory)"

lemma count_list_mset: "mset xs = mset ys \<Longrightarrow> count_list xs x = count_list ys x"
  by (metis count_mset)

lemma count_list_map_inj:
  "(\<And>x. x \<in> set xs \<Longrightarrow> f x = f y \<longleftrightarrow> g x = g y) \<Longrightarrow> count_list (map f xs) (f y) = count_list (map g xs) (g y)"
  by (induction xs) auto

lemma valid_path: "\<forall>m \<in> set ms. valid_metadata m \<Longrightarrow> m \<in> set ms \<Longrightarrow> relative_path_schema (meta_path m)"
  by (auto simp: valid_metadata_def)

lemma count_sorted_paths:
  assumes valid: "\<forall>m \<in> set ms. valid_metadata m" and m: "m \<in> set ms"
  shows "count_list (map er_key (map encode_record (sort_key record_order ms))) (er_key (encode_record m)) =
    count_list (map meta_path ms) (meta_path m)"
proof -
  have "mset (map (\<lambda>m. path_key (meta_path m)) (sort_key record_order ms)) = mset (map (\<lambda>m. path_key (meta_path m)) ms)"
    by simp
  then have "count_list (map (\<lambda>m. path_key (meta_path m)) (sort_key record_order ms)) (path_key (meta_path m)) =
      count_list (map (\<lambda>m. path_key (meta_path m)) ms) (path_key (meta_path m))"
    by (rule count_list_mset)
  also have "\<dots> = count_list (map meta_path ms) (meta_path m)"
    using path_key_inject valid_path [OF valid] m by (intro count_list_map_inj) blast
  finally show ?thesis by (simp add: comp_def)
qed

lemma conflicting_paths:
  assumes valid: "\<forall>m \<in> set ms. valid_metadata m" and m: "m \<in> set ms"
  shows "conflicting code (encode_record m) (map encode_record (sort_key record_order ms)) \<longleftrightarrow> path_conflict code m ms"
  using count_sorted_paths [OF assms] is_descendant_encode [OF valid_path [OF assms] valid_path [OF valid]]
  by (cases code) (auto simp: conflicting_def path_conflict_def)

lemma conflict_free_paths:
  assumes valid: "\<forall>m \<in> set ms. valid_metadata m"
  shows "conflict_free (map encode_record (sort_key record_order ms)) \<longleftrightarrow> paths_free ms"
proof -
  have "mset (map record_order (sort_key record_order ms)) = mset (map record_order ms)" by simp
  then have "distinct (map record_order (sort_key record_order ms)) \<longleftrightarrow> distinct (map record_order ms)"
    by (rule mset_eq_imp_distinct_iff)
  also have "\<dots> \<longleftrightarrow> distinct (map meta_path ms)"
    using path_key_inject valid_path [OF valid] by (auto simp: distinct_map inj_on_def record_order_def)
  finally have "distinct (map er_key (map encode_record (sort_key record_order ms))) \<longleftrightarrow> distinct (map meta_path ms)"
    by (simp add: record_order_def [abs_def] comp_def)
  then show ?thesis using is_descendant_encode valid_path [OF valid] by (auto simp: conflict_free_def paths_free_def)
qed

lemma check_sorted_paths:
  assumes valid: "\<forall>m \<in> set ms. valid_metadata m"
  shows "(check_all (map encode_record (sort_key record_order ms)) [] = Inr () \<and> paths_free ms) \<or>
   (\<exists>code m. m \<in> set ms \<and> path_conflict code m ms \<and> \<not> paths_free ms \<and>
     check_all (map encode_record (sort_key record_order ms)) [] = Inl (Conflict code (meta_path m)))"
proof -
  let ?rs = "map encode_record (sort_key record_order ms)"
  define decoded where "decoded r = projr (decode_record r)" for r
  have decode: "decode_record (encode_record m) = Inr m" if "m \<in> set ms" for m
    using decode_encode_record valid that by blast
  have "decode_record r = Inr (decoded r)" if "r \<in> set ?rs" for r
    using that decode by (auto simp: decoded_def)
  moreover have "ancestor_stack [] []" "conflict_free []" by (simp_all add: ancestor_stack_def conflict_free_def)
  moreover have "sorted (map er_key ([] @ ?rs))" by (simp flip: sort_encoded)
  ultimately consider "check_all ?rs [] = Inr ()" "conflict_free ?rs"
    | code r where "r \<in> set ?rs" "check_all ?rs [] = Inl (Conflict code (meta_path (decoded r)))" "conflicting code r ?rs"
    using check_all_decides [of ?rs decoded "[]" "[]"] by auto
  then show ?thesis
  proof cases
    case 1
    then show ?thesis using conflict_free_paths [OF valid] by simp
  next
    case 2
    then obtain m where m: "r = encode_record m" "m \<in> set ms" by auto
    then have "decoded r = m" using decode by (simp add: decoded_def)
    then show ?thesis
      using 2 m conflicting_paths [OF valid] conflicting_not_free conflict_free_paths [OF valid] by metis
  qed
qed

section \<open>The whole life of a ledger\<close>

lemma ledger_finished:
  assumes "honest_driver d" "create_metadata_ledger batch_bytes fan_in = Inr ml0" "\<forall>m \<in> set ms. valid_metadata m"
    and "safe_size (2 * length (run_bytes (map encode_record ms)))"
  shows "\<exists>ml1 ml2. append_records d ms ml0 = (Inr (), ml1) \<and>
    (if paths_free ms then finish_ledger d ml1 = (Inr (), ml2) \<and> sealed_holds ml2 (sort_key record_order ms)
     else \<exists>code m. m \<in> set ms \<and> path_conflict code m ms \<and> ml_phase ml2 = Ledger_Failed \<and>
       finish_ledger d ml1 = (Inl (Conflict code (meta_path m)), ml2))"
proof -
  obtain ml1 where ml1: "append_records d ms ml0 = (Inr (), ml1)" "open_holds ml1 (map encode_record ms)"
    using append_records_hold [OF assms(1) created_holds [OF assms(2)] assms(3)] assms(4) by auto
  note result = finish_ledger_result [OF assms(1) ml1(2) assms(3,4)]
  show ?thesis
  proof (cases "paths_free ms")
    case True
    then have "check_all (map encode_record (sort_key record_order ms)) [] = Inr ()"
      using check_sorted_paths [OF assms(3)] by auto
    then show ?thesis using ml1(1) result True by auto
  next
    case False
    then obtain code m where "m \<in> set ms" "path_conflict code m ms"
        "check_all (map encode_record (sort_key record_order ms)) [] = Inl (Conflict code (meta_path m))"
      using check_sorted_paths [OF assms(3)] by auto
    then show ?thesis using ml1(1) result False by auto
  qed
qed

end
