(* ===== verification/Metadata_Links.thy ===== *)
theory Metadata_Links
  imports Ledger_Sealing
begin

text \<open>
  Symbolic links of a sealed ledger: \<open>validateLink\<close> of \<open>sandbox/src/files/metadata/links.ts\<close> and
  \<open>validateSymlinks\<close> of \<open>index.ts\<close>.  The resolution works on metadata alone; the set of seen states
  is a list, and the JSON text of a state stands for the state.
\<close>

definition max_symlink_expansions :: nat where "max_symlink_expansions = 40"
definition max_symlink_resolution_components :: nat where "max_symlink_resolution_components = 256"
definition max_symlink_resolution_bytes :: nat where "max_symlink_resolution_bytes = (4079 + 1) * 2"

definition invalid_link :: "code_text \<Rightarrow> string \<Rightarrow> spill_error + 'a" where
  "invalid_link path reason = Inl (Invalid_Link path reason)"

definition parts_bytes :: "code_text list \<Rightarrow> nat" where
  "parts_bytes parts = sum_list (map (\<lambda>s. byte_length s + 1) parts)"

definition working_bound :: "code_text \<Rightarrow> code_text list \<Rightarrow> code_text list \<Rightarrow> spill_error + unit" where
  "working_bound path prefix remaining =
     (if max_symlink_resolution_components < length prefix + length remaining \<or>
         max_symlink_resolution_bytes < parts_bytes prefix + parts_bytes remaining
      then invalid_link path ''resolution exceeds its bounded path working set'' else Inr ())"

type_synonym path_lookup = "code_text \<Rightarrow> spill_error + metadata_record option"

function link_loop ::
    "path_lookup \<Rightarrow> code_text \<Rightarrow> nat \<Rightarrow> code_text list \<Rightarrow> code_text list \<Rightarrow> (code_text \<times> code_text list) list \<Rightarrow> nat \<Rightarrow>
     spill_error + unit" where
  "link_loop look path root_depth prefix remaining seen expansions =
     (case remaining of
        [] \<Rightarrow> Inr ()
      | component # rest \<Rightarrow>
          if component = [] \<or> component = dot then link_loop look path root_depth prefix rest seen expansions
          else if component = dot_dot then
            if length prefix \<le> root_depth then invalid_link path ''target escapes the selected publication root''
            else link_loop look path root_depth (butlast prefix) rest seen expansions
          else if max_path_segments < length (prefix @ [component]) \<or>
              max_path_bytes < byte_length (join_on 47 (prefix @ [component])) then
            invalid_link path ''resolved path exceeds the common path envelope''
          else case parse_relative_path (join_on 47 (prefix @ [component])) of
              Inl e \<Rightarrow> Inl e
            | Inr candidate \<Rightarrow>
                (case look candidate of
                   Inl e \<Rightarrow> Inl e
                 | Inr (Some (Meta_Symlink p target)) \<Rightarrow>
                     if (candidate, rest) \<in> set seen then Inr ()
                     else if max_symlink_expansions < expansions + 1 then
                       invalid_link path ''resolution exceeds forty symbolic-link expansions''
                     else (case working_bound path prefix (split_on 47 target @ rest) of
                         Inl e \<Rightarrow> Inl e
                       | Inr _ \<Rightarrow> link_loop look path root_depth prefix (split_on 47 target @ rest)
                           ((candidate, rest) # seen) (expansions + 1))
                 | Inr (Some (Meta_File p)) \<Rightarrow>
                     if rest \<noteq> [] then invalid_link path ''target traverses a regular-file member''
                     else link_loop look path root_depth (prefix @ [component]) rest seen expansions
                 | Inr (Some (Meta_Directory p)) \<Rightarrow> link_loop look path root_depth (prefix @ [component]) rest seen expansions
                 | Inr None \<Rightarrow> link_loop look path root_depth (prefix @ [component]) rest seen expansions))"
  by pat_completeness auto
termination
  by (relation "measures [\<lambda>(look, path, root_depth, prefix, remaining, seen, expansions). max_symlink_expansions - expansions,
      \<lambda>(look, path, root_depth, prefix, remaining, seen, expansions). length remaining]") auto

declare link_loop.simps [simp del]

definition root_parts :: "code_text option \<Rightarrow> code_text list" where
  "root_parts root = (case root of None \<Rightarrow> [] | Some r \<Rightarrow> split_on 47 r)"

definition validate_link :: "path_lookup \<Rightarrow> code_text option \<Rightarrow> code_text \<Rightarrow> code_text \<Rightarrow> spill_error + unit" where
  "validate_link look root path target =
     (let prefix = butlast (split_on 47 path); remaining = split_on 47 target
      in and_then (working_bound path prefix remaining) (\<lambda>_.
           link_loop look path (length (root_parts root)) prefix remaining [(path, [])] 1))"

text \<open>The selected publication directory itself must be a directory, and all else must lie below it.\<close>

definition outside_root :: "code_text option \<Rightarrow> metadata_record \<Rightarrow> bool" where
  "outside_root root m = (case root of
       None \<Rightarrow> False
     | Some r \<Rightarrow> if meta_path m = r then meta_kind m \<noteq> Kind_Directory else \<not> lies_below (meta_path m) r)"

function check_links :: "spill_driver \<Rightarrow> metadata_ledger \<Rightarrow> code_text option \<Rightarrow> run_cursor \<Rightarrow> spill_error + unit" where
  "check_links d ml root c =
     (case read_record d (sf_data0 (ml_files ml)) c of
        Inl e \<Rightarrow> Inl e
      | Inr (None, c') \<Rightarrow> Inr ()
      | Inr (Some r, c') \<Rightarrow>
          and_then (decode_record r) (\<lambda>m.
            if outside_root root m then
              Inl (Invalid_Input ''Metadata lies outside its selected publication directory.'')
            else and_then (case m of Meta_Symlink p t \<Rightarrow> validate_link (lookup_record d ml) root p t | _ \<Rightarrow> Inr ()) (\<lambda>_.
              check_links d ml root c')))"
  by pat_completeness auto
termination
  by (relation "measure (\<lambda>(d, ml, root, c). rc_end c - rc_position c)") (auto dest!: read_record_advances)

declare check_links.simps [simp del]

definition validate_symlinks ::
    "spill_driver \<Rightarrow> code_text option \<Rightarrow> metadata_ledger \<Rightarrow> (spill_error + unit) \<times> metadata_ledger" where
  "validate_symlinks d root ml =
     (if ml_phase ml \<noteq> Ledger_Sealed then
        (Inl (State_Failure ''Link validation requires a sealed ledger without a replay owner.''), ml)
      else enter_ledger ml (and_then (check_links d ml root (whole_run (ml_state ml))) (\<lambda>_. Inr ((), ml))))"

section \<open>Resolution without bounds\<close>

text \<open>
  Resolving a path in a tree of metadata, one component at a time, with no bound on the links: the
  state is the directory reached and the components that remain.  A missing entry is entered like a
  directory, so that links to files still to be made are judged too.
\<close>

type_synonym resolution = "code_text list \<times> code_text list"

definition entry_at :: "metadata_record list \<Rightarrow> code_text \<Rightarrow> metadata_record option" where
  "entry_at ms p = find (\<lambda>m. meta_path m = p) ms"

inductive resolves :: "metadata_record list \<Rightarrow> resolution \<Rightarrow> resolution \<Rightarrow> bool" for ms where
  skip: "c = [] \<or> c = dot \<Longrightarrow> resolves ms (prefix, c # rest) (prefix, rest)"
| up: "resolves ms (prefix, dot_dot # rest) (butlast prefix, rest)"
| link: "c \<noteq> [] \<Longrightarrow> c \<noteq> dot \<Longrightarrow> c \<noteq> dot_dot \<Longrightarrow>
    entry_at ms (join_on 47 (prefix @ [c])) = Some (Meta_Symlink p target) \<Longrightarrow>
    resolves ms (prefix, c # rest) (prefix, split_on 47 target @ rest)"
| down: "c \<noteq> [] \<Longrightarrow> c \<noteq> dot \<Longrightarrow> c \<noteq> dot_dot \<Longrightarrow>
    \<forall>p target. entry_at ms (join_on 47 (prefix @ [c])) \<noteq> Some (Meta_Symlink p target) \<Longrightarrow>
    resolves ms (prefix, c # rest) (prefix @ [c], rest)"

inductive_cases resolves_Nil: "resolves ms (prefix, []) s"
inductive_simps resolves_Cons: "resolves ms (prefix, c # rest) s"

definition inside_root :: "code_text list \<Rightarrow> resolution \<Rightarrow> bool" where
  "inside_root parts s \<longleftrightarrow> (case s of (prefix, remaining) \<Rightarrow>
     take (length parts) prefix = parts \<and> (take 1 remaining = [dot_dot] \<longrightarrow> length parts < length prefix))"


text \<open>
  Confinement of symbolic links: a link that \<open>validateLink\<close> accepts never leads the unbounded
  resolution out of its root.  The loop leaves a set of states behind that is closed under
  resolution and stays inside; a state seen before closes the cycle.
\<close>

section \<open>Resolution of one step\<close>

lemma resolves_skip: "c = [] \<or> c = dot \<Longrightarrow> resolves ms (prefix, c # rest) s \<Longrightarrow> s = (prefix, rest)"
  by (auto simp: resolves_Cons dot_def dot_dot_def)

lemma resolves_up: "resolves ms (prefix, dot_dot # rest) s \<Longrightarrow> s = (butlast prefix, rest)"
  by (auto simp: resolves_Cons dot_def dot_dot_def)

lemma resolves_link:
  assumes "c \<noteq> []" "c \<noteq> dot" "c \<noteq> dot_dot" "entry_at ms (join_on 47 (prefix @ [c])) = Some (Meta_Symlink p target)"
    and "resolves ms (prefix, c # rest) s"
  shows "s = (prefix, split_on 47 target @ rest)"
  using assms by (auto simp: resolves_Cons dot_def dot_dot_def)

lemma resolves_down:
  assumes "c \<noteq> []" "c \<noteq> dot" "c \<noteq> dot_dot"
    and "\<And>p target. entry_at ms (join_on 47 (prefix @ [c])) \<noteq> Some (Meta_Symlink p target)"
    and "resolves ms (prefix, c # rest) s"
  shows "s = (prefix @ [c], rest)"
  using assms by (auto simp: resolves_Cons dot_def dot_dot_def)

section \<open>The states the loop leaves behind\<close>

definition closed_inside :: "metadata_record list \<Rightarrow> code_text list \<Rightarrow> resolution set \<Rightarrow> bool" where
  "closed_inside ms parts W \<longleftrightarrow> (\<forall>v \<in> W. inside_root parts v \<and> (\<forall>w. resolves ms v w \<longrightarrow> w \<in> W))"

text \<open>Every state passed is inside and leads to a state passed or to the current one.\<close>

definition passed :: "metadata_record list \<Rightarrow> code_text list \<Rightarrow> resolution set \<Rightarrow> resolution \<Rightarrow> bool" where
  "passed ms parts V s \<longleftrightarrow> (\<forall>v \<in> V. inside_root parts v \<and> (\<forall>w. resolves ms v w \<longrightarrow> w \<in> insert s V))"

definition seen_passed ::
    "metadata_record list \<Rightarrow> (code_text \<times> code_text list) list \<Rightarrow> resolution set \<Rightarrow> resolution \<Rightarrow> bool" where
  "seen_passed ms seen V s \<longleftrightarrow> (\<forall>(candidate, rest) \<in> set seen. \<forall>p target.
     entry_at ms candidate = Some (Meta_Symlink p target) \<longrightarrow>
     (butlast (split_on 47 candidate), split_on 47 target @ rest) \<in> insert s V)"

lemma passed_step:
  assumes "passed ms parts V s" "inside_root parts s" "\<And>w. resolves ms s w \<Longrightarrow> w = s'"
  shows "passed ms parts (insert s V) s'"
  using assms by (auto simp: passed_def)

lemma seen_passed_step: "seen_passed ms seen V s \<Longrightarrow> seen_passed ms seen (insert s V) s'"
  by (fastforce simp: seen_passed_def)

lemma passed_closed:
  assumes "passed ms parts V s" "inside_root parts s" "\<And>w. resolves ms s w \<Longrightarrow> w \<in> insert s V"
  shows "closed_inside ms parts (insert s V)"
  using assms by (auto simp: passed_def closed_inside_def)

lemma take_butlast_prefix:
  "take (length parts) prefix = parts \<Longrightarrow> length parts < length prefix \<Longrightarrow> take (length parts) (butlast prefix) = parts"
  by (metis take_butlast)

lemma take_append_prefix: "take (length parts) prefix = parts \<Longrightarrow> take (length parts) (prefix @ xs) = parts"
  by (metis length_take min.absorb_iff1 min.commute append_take_drop_id append_eq_conv_conj append.assoc)

lemma split_slash_free: "\<forall>s \<in> set (split_on 47 t). 47 \<notin> set s" for t :: code_text
  using split_on_segments by fast

text \<open>The lookups of the loop answer with the entries of the tree.\<close>

definition looks_up :: "path_lookup \<Rightarrow> metadata_record list \<Rightarrow> bool" where
  "looks_up look ms \<longleftrightarrow> (\<forall>p. relative_path_schema p \<longrightarrow> look p = Inr (entry_at ms p))"

lemma link_loop_ordinary:
  assumes look: "looks_up look ms" and c: "c \<noteq> []" "c \<noteq> dot" "c \<noteq> dot_dot"
    and ok: "link_loop look path root_depth prefix (c # rest) seen expansions = Inr ()"
  shows "(\<exists>p target. entry_at ms (join_on 47 (prefix @ [c])) = Some (Meta_Symlink p target) \<and>
      ((join_on 47 (prefix @ [c]), rest) \<in> set seen \<or>
       expansions < max_symlink_expansions \<and> link_loop look path root_depth prefix (split_on 47 target @ rest)
         ((join_on 47 (prefix @ [c]), rest) # seen) (expansions + 1) = Inr ())) \<or>
    ((\<forall>p target. entry_at ms (join_on 47 (prefix @ [c])) \<noteq> Some (Meta_Symlink p target)) \<and>
      link_loop look path root_depth (prefix @ [c]) rest seen expansions = Inr ())"
proof -
  let ?candidate = "join_on 47 (prefix @ [c])"
  have schema: "relative_path_schema ?candidate" and fits: "\<not> (max_path_segments < length (prefix @ [c]) \<or>
      max_path_bytes < byte_length ?candidate)"
    using ok c by (auto simp: link_loop.simps [of look path root_depth prefix "c # rest"] invalid_link_def
        parse_relative_path_def split: if_splits)
  have found: "look ?candidate = Inr (entry_at ms ?candidate)" using look schema by (simp add: looks_up_def)
  show ?thesis
  proof (cases "entry_at ms ?candidate")
    case None
    then show ?thesis using ok c fits found schema
      by (simp add: link_loop.simps [of look path root_depth prefix "c # rest"] parse_relative_path_def)
  next
    case (Some m)
    then show ?thesis using ok c fits found schema
      by (cases m)
        (auto simp: link_loop.simps [of look path root_depth prefix "c # rest"] parse_relative_path_def invalid_link_def
          working_bound_def split: if_splits)
  qed
qed

lemma link_loop_closed:
  assumes look: "looks_up look ms"
  shows "link_loop look path (length parts) prefix remaining seen expansions = Inr () \<Longrightarrow>
    passed ms parts V (prefix, remaining) \<Longrightarrow> take (length parts) prefix = parts \<Longrightarrow>
    seen_passed ms seen V (prefix, remaining) \<Longrightarrow> \<forall>s \<in> set prefix \<union> set remaining. 47 \<notin> set s \<Longrightarrow>
    \<exists>W. insert (prefix, remaining) V \<subseteq> W \<and> closed_inside ms parts W"
proof (induction "(max_symlink_expansions - expansions, length remaining)" arbitrary: prefix remaining seen expansions V
    rule: wf_induct_rule [OF wf_lex_prod [OF wf_less_than wf_less_than]])
  case 1
  note IH = "1.hyps" and ok = "1.prems"(1) and prems = "1.prems"(2-5)
  show ?case
  proof (cases remaining)
    case Nil
    have "closed_inside ms parts (insert (prefix, remaining) V)"
      using prems Nil by (intro passed_closed) (auto simp: inside_root_def elim: resolves_Nil)
    then show ?thesis by blast
  next
    case (Cons c rest)
    let ?s = "(prefix, remaining)"
    have shorter: "((e, length rest), (e, length remaining)) \<in> less_than <*lex*> less_than" for e using Cons by simp
    consider "c = [] \<or> c = dot" | "c = dot_dot" | "c \<noteq> []" "c \<noteq> dot" "c \<noteq> dot_dot" by blast
    then show ?thesis
    proof cases
      case 1
      have ok': "link_loop look path (length parts) prefix rest seen expansions = Inr ()"
        using ok 1 unfolding Cons link_loop.simps [of look path "length parts" prefix "c # rest"] by simp
      have inside: "inside_root parts ?s" using prems(2) Cons 1 by (auto simp: inside_root_def dot_def dot_dot_def)
      have "passed ms parts (insert ?s V) (prefix, rest)"
        using prems(1) inside Cons resolves_skip [OF 1] by (intro passed_step) auto
      then obtain W where "insert (prefix, rest) (insert ?s V) \<subseteq> W" "closed_inside ms parts W"
        using IH [OF shorter ok' _ prems(2) seen_passed_step [OF prems(3)]] prems(4) Cons by auto
      then show ?thesis by blast
    next
      case 2
      have deep: "length parts < length prefix" and ok': "link_loop look path (length parts) (butlast prefix) rest seen expansions = Inr ()"
        using ok 2 unfolding Cons link_loop.simps [of look path "length parts" prefix "c # rest"]
        by (auto simp: dot_def dot_dot_def invalid_link_def split: if_splits)
      have inside: "inside_root parts ?s" using prems(2) deep by (simp add: inside_root_def)
      have "passed ms parts (insert ?s V) (butlast prefix, rest)"
        using prems(1) inside Cons resolves_up 2 by (intro passed_step) auto
      then obtain W where "insert (butlast prefix, rest) (insert ?s V) \<subseteq> W" "closed_inside ms parts W"
        using IH [OF shorter ok' _ take_butlast_prefix [OF prems(2) deep] seen_passed_step [OF prems(3)]] prems(4) Cons
        by (auto dest: in_set_butlastD)
      then show ?thesis by blast
    next
      case 3
      let ?candidate = "join_on 47 (prefix @ [c])"
      have inside: "inside_root parts ?s" using prems(2) Cons 3 by (auto simp: inside_root_def)
      have split: "split_on 47 ?candidate = prefix @ [c]" using prems(4) Cons by (intro split_join) auto
      from link_loop_ordinary [OF look 3 ok [unfolded Cons]] show ?thesis
      proof (elim disjE exE conjE)
        fix p target assume entry: "entry_at ms ?candidate = Some (Meta_Symlink p target)" and again: "(?candidate, rest) \<in> set seen"
        have "(prefix, split_on 47 target @ rest) \<in> insert ?s V"
          using prems(3) again entry split by (fastforce simp: seen_passed_def)
        then have "closed_inside ms parts (insert ?s V)"
          using prems(1) inside Cons resolves_link [OF 3 entry] by (intro passed_closed) auto
        then show ?thesis by blast
      next
        fix p target assume entry: "entry_at ms ?candidate = Some (Meta_Symlink p target)" and less: "expansions < max_symlink_expansions"
          and ok': "link_loop look path (length parts) prefix (split_on 47 target @ rest) ((?candidate, rest) # seen) (expansions + 1) = Inr ()"
        let ?next = "(prefix, split_on 47 target @ rest)"
        have "max_symlink_expansions - (expansions + 1) < max_symlink_expansions - expansions" using less by linarith
        then have smaller: "((max_symlink_expansions - (expansions + 1), length (split_on 47 target @ rest)),
            (max_symlink_expansions - expansions, length remaining)) \<in> less_than <*lex*> less_than"
          by simp
        have "passed ms parts (insert ?s V) ?next"
          using prems(1) inside Cons resolves_link [OF 3 entry] by (intro passed_step) auto
        moreover have "seen_passed ms ((?candidate, rest) # seen) (insert ?s V) ?next"
          using seen_passed_step [OF prems(3), of ?next] entry split by (auto simp: seen_passed_def)
        moreover have "\<forall>s \<in> set prefix \<union> set (split_on 47 target @ rest). 47 \<notin> set s"
          using prems(4) Cons split_slash_free [of target] by auto
        ultimately obtain W where "insert ?next (insert ?s V) \<subseteq> W" "closed_inside ms parts W"
          using IH [OF smaller ok' _ prems(2)] by blast
        then show ?thesis by blast
      next
        assume entry: "\<forall>p target. entry_at ms ?candidate \<noteq> Some (Meta_Symlink p target)"
          and ok': "link_loop look path (length parts) (prefix @ [c]) rest seen expansions = Inr ()"
        have "w = (prefix @ [c], rest)" if "resolves ms ?s w" for w
          by (rule resolves_down [OF 3]) (use entry that Cons in auto)
        then have "passed ms parts (insert ?s V) (prefix @ [c], rest)" using prems(1) inside by (intro passed_step)
        then obtain W where "insert (prefix @ [c], rest) (insert ?s V) \<subseteq> W" "closed_inside ms parts W"
          using IH [OF shorter ok' _ take_append_prefix [OF prems(2)] seen_passed_step [OF prems(3)]] prems(4) Cons by auto
        then show ?thesis by blast
      qed
    qed
  qed
qed

section \<open>Links\<close>

lemma split_on_middle: "split_on c (xs @ c # ys) = split_on c xs @ split_on c ys"
  by (induction xs) (auto split: list.splits)

lemma below_root_parts:
  assumes "lies_below p r"
  shows "take (length (split_on 47 r)) (butlast (split_on 47 p)) = split_on 47 r"
proof -
  obtain s where "p = r @ 47 # s" using assms by (auto simp: lies_below_iff)
  then show ?thesis by (simp add: split_on_middle butlast_append)
qed

lemma validate_link_inside:
  assumes look: "looks_up look ms" and entry: "entry_at ms p = Some (Meta_Symlink p t)"
    and root: "\<not> outside_root root (Meta_Symlink p t)" and ok: "validate_link look root p t = Inr ()"
    and reach: "(resolves ms)\<^sup>*\<^sup>* (butlast (split_on 47 p), split_on 47 t) s"
  shows "inside_root (root_parts root) s"
proof -
  let ?start = "(butlast (split_on 47 p), split_on 47 t)"
  have loop: "link_loop look p (length (root_parts root)) (butlast (split_on 47 p)) (split_on 47 t) [(p, [])] 1 = Inr ()"
    using ok by (simp add: validate_link_def Let_def result_simps)
  have "take (length (root_parts root)) (butlast (split_on 47 p)) = root_parts root"
    using root below_root_parts by (auto simp: outside_root_def root_parts_def split: option.splits if_splits)
  moreover have "seen_passed ms [(p, [])] {} ?start" using entry by (simp add: seen_passed_def)
  moreover have "\<forall>s \<in> set (butlast (split_on 47 p)) \<union> set (split_on 47 t). 47 \<notin> set s"
    using split_slash_free by (auto dest: in_set_butlastD)
  ultimately obtain W where W: "insert ?start {} \<subseteq> W" "closed_inside ms (root_parts root) W"
    using link_loop_closed [OF look loop, of "{}"] by (auto simp: passed_def)
  from reach have "s \<in> W" using W by (induction rule: rtranclp_induct) (auto simp: closed_inside_def)
  then show ?thesis using W(2) by (simp add: closed_inside_def)
qed

section \<open>Validation of a sealed ledger\<close>

lemma check_links_each:
  assumes d: "honest_driver d" and ml: "sealed_holds ml ms"
  shows "holds_run (sf_data0 (ml_files ml)) c (map encode_record ns) \<Longrightarrow> \<forall>m \<in> set ns. valid_metadata m \<Longrightarrow>
    check_links d ml root c = Inr () \<longleftrightarrow>
    (\<forall>m \<in> set ns. \<not> outside_root root m \<and>
      (\<forall>p t. m = Meta_Symlink p t \<longrightarrow> validate_link (lookup_record d ml) root p t = Inr ()))"
proof (induction ns arbitrary: c)
  case Nil
  then show ?case using read_record_holds_Nil by (simp add: check_links.simps [of d ml root c])
next
  case (Cons n ns)
  let ?r = "encode_record n"
  let ?c = "c\<lparr>rc_position := rc_position c + encoded_size ?r\<rparr>"
  have safe: "safe_size (length (sf_data0 (ml_files ml)))" using ml by (simp add: sealed_holds_def)
  have "read_record d (sf_data0 (ml_files ml)) c = Inr (Some ?r, ?c)"
    using read_record_holds_Cons [OF d safe] Cons.prems wf_encode_record by simp
  moreover have "decode_record ?r = Inr n" using decode_encode_record Cons.prems(2) by simp
  ultimately have "check_links d ml root c = Inr () \<longleftrightarrow> \<not> outside_root root n \<and>
      (case n of Meta_Symlink p t \<Rightarrow> validate_link (lookup_record d ml) root p t | _ \<Rightarrow> Inr ()) = Inr () \<and>
      check_links d ml root ?c = Inr ()"
    by (auto simp: check_links.simps [of d ml root c] result_simps)
  moreover have "holds_run (sf_data0 (ml_files ml)) ?c (map encode_record ns)"
    using holds_run_ConsD(1) Cons.prems(1) by simp
  ultimately show ?case using Cons.IH [of ?c] Cons.prems(2) by (cases n) auto
qed

lemma entry_at_member: "distinct (map meta_path ms) \<Longrightarrow> m \<in> set ms \<Longrightarrow> entry_at ms (meta_path m) = Some m"
proof (induction ms)
  case (Cons a ms)
  show ?case
  proof (cases "meta_path a = meta_path m")
    case True
    then have "m \<notin> set ms" using Cons.prems(1) by auto
    then show ?thesis using Cons.prems(2) True by (simp add: entry_at_def)
  next
    case False
    then show ?thesis using Cons by (auto simp: entry_at_def)
  qed
qed simp

lemma entry_at_absent: "p \<notin> meta_path ` set ms \<Longrightarrow> entry_at ms p = None"
  by (auto simp: entry_at_def find_None_iff)

lemma entry_at_permuted:
  assumes "distinct (map meta_path ms)" "mset ns = mset ms"
  shows "entry_at ns p = entry_at ms p"
proof (cases "p \<in> meta_path ` set ms")
  case True
  then obtain m where m: "m \<in> set ms" "p = meta_path m" by auto
  have "distinct (map meta_path ns)" using assms by (metis mset_eq_imp_distinct_iff mset_map)
  moreover have "m \<in> set ns" using m(1) assms(2) by (metis mset_eq_setD)
  ultimately show ?thesis using entry_at_member assms(1) m by metis
next
  case False
  moreover have "set ns = set ms" using assms(2) by (rule mset_eq_setD)
  ultimately show ?thesis using entry_at_absent by metis
qed

lemma sealed_looks_up:
  assumes d: "honest_driver d" and ml: "sealed_holds ml (sort_key record_order ms)" and free: "paths_free ms"
  shows "looks_up (lookup_record d ml) ms"
    and "relative_path_schema p \<Longrightarrow> get_record d p ml = (Inr (entry_at ms p), ml)"
proof -
  have valid: "\<forall>m \<in> set ms. valid_metadata m" using ml by (simp add: sealed_holds_def)
  have "distinct (map er_key (map encode_record (sort_key record_order ms)))"
    using conflict_free_paths [OF valid] free unfolding conflict_free_def by blast
  then have distinct: "distinct (map record_order (sort_key record_order ms))"
    by (simp add: record_order_def [abs_def] comp_def)
  have entry: "find (\<lambda>m. meta_path m = q) (sort_key record_order ms) = entry_at ms q" for q
    using entry_at_permuted [of ms "sort_key record_order ms" q] free by (simp add: entry_at_def paths_free_def)
  show "looks_up (lookup_record d ml) ms"
    using sealed_lookup_record [OF d ml _ distinct] entry by (simp add: looks_up_def)
  show "get_record d p ml = (Inr (entry_at ms p), ml)" if "relative_path_schema p"
    using sealed_lookup [OF d ml _ distinct that] entry by simp
qed

lemma sealed_links_inside:
  assumes d: "honest_driver d" and ml: "sealed_holds ml (sort_key record_order ms)" and free: "paths_free ms"
    and ok: "validate_symlinks d root ml = (Inr (), ml')" and link: "Meta_Symlink p t \<in> set ms"
    and reach: "(resolves ms)\<^sup>*\<^sup>* (butlast (split_on 47 p), split_on 47 t) s"
  shows "inside_root (root_parts root) s"
proof -
  have "check_links d ml root (whole_run (ml_state ml)) = Inr ()"
    using ok ml by (auto simp: validate_symlinks_def sealed_holds_def enter_ledger_def result_simps split: sum.splits)
  then have "\<not> outside_root root (Meta_Symlink p t)" "validate_link (lookup_record d ml) root p t = Inr ()"
    using check_links_each [OF d ml sealed_whole_run [OF ml]] ml link by (auto simp: sealed_holds_def)
  moreover have "entry_at ms p = Some (Meta_Symlink p t)"
    using entry_at_member [of ms "Meta_Symlink p t"] free link by (simp add: paths_free_def)
  ultimately show ?thesis using validate_link_inside [OF sealed_looks_up(1) [OF d ml free]] reach by blast
qed

end
