(* ===== verification/Metadata_Properties.thy ===== *)
theory Metadata_Properties
  imports Metadata_Links
begin

text \<open>
  The properties of the metadata ledger, each with a small ledger of three records as its witness.
\<close>

section \<open>How many runs a pass leaves\<close>

lemma merge_group_runs: "merge_group d files i n out = Inr out' \<Longrightarrow> mo_runs out' = mo_runs out + 1"
  by (auto simp: merge_group_def result_simps address_def split: if_splits)

lemma ceil_step:
  fixes k f :: nat
  assumes "0 < k" "0 < f"
  shows "(k + f - 1) div f = 1 + (k - min f k + f - 1) div f"
proof (cases "f \<le> k")
  case True
  then have "k + f - 1 = (k - f + f - 1) + f" using assms by simp
  then have "(k + f - 1) div f = 1 + (k - f + f - 1) div f" using assms(2) by (metis add.commute div_add_self2 less_not_refl plus_1_eq_Suc)
  then show ?thesis using True by simp
next
  case False
  then have "(k + f - 1) div f = 1" using assms by (intro div_nat_eqI) auto
  then show ?thesis using False assms by simp
qed

lemma merge_groups_count:
  "merge_groups d files runs fan_in i out = Inr out' \<Longrightarrow> 0 < fan_in \<Longrightarrow>
   mo_runs out' = mo_runs out + (runs - i + fan_in - 1) div fan_in"
proof (induction d files runs fan_in i out rule: merge_groups.induct)
  case (1 d files runs fan_in i out)
  show ?case
  proof (cases "runs \<le> i")
    case True
    then show ?thesis using "1.prems" by (simp add: merge_groups.simps [of d files runs fan_in i out])
  next
    case False
    let ?n = "min fan_in (runs - i)"
    obtain out1 where out1: "merge_group d files i ?n out = Inr out1"
        and rest: "merge_groups d files runs fan_in (i + ?n) out1 = Inr out'"
      using "1.prems" False by (subst (asm) merge_groups.simps) (auto simp: Let_def split: sum.splits)
    have "mo_runs out' = mo_runs out1 + (runs - (i + ?n) + fan_in - 1) div fan_in"
      using "1.IH" [OF _ refl out1 rest] "1.prems"(2) False by simp
    then show ?thesis using merge_group_runs [OF out1] ceil_step [of "runs - i" fan_in] False "1.prems"(2) by simp
  qed
qed

lemma merge_pass_count:
  "merge_pass d files st fan_in = Inr (files', st') \<Longrightarrow> 0 < fan_in \<Longrightarrow> so_runs st' = (so_runs st + fan_in - 1) div fan_in"
  using merge_groups_count [of d files "so_runs st" fan_in 0 empty_output]
  by (auto simp: merge_pass_def result_simps empty_output_def)

section \<open>A ledger of three records\<close>

definition whole_driver :: spill_driver where
  "whole_driver = \<lparr>dv_write = \<lambda>position n. Some n, dv_read = \<lambda>position n. Some n\<rparr>"

definition sample_records :: "metadata_record list" where
  "sample_records = [Meta_Symlink [97, 47, 108] [46, 46, 47, 102], Meta_File [102], Meta_Directory [97]]"

definition clashing_records :: "metadata_record list" where
  "clashing_records = [Meta_File [97, 47, 98], Meta_File [97]]"

lemma whole_driver_honest: "honest_driver whole_driver"
  by (simp add: honest_driver_def whole_driver_def)

lemmas path_schema_defs = relative_path_schema_def safe_path_def safe_segments_def symlink_target_schema_def
  utf8_within_def well_formed_def scalar_def forbidden_char_def dot_def dot_dot_def max_path_bytes_def
  max_path_segments_def max_path_segment_bytes_def max_symlink_target_bytes_def

lemma sample_valid: "\<forall>m \<in> set sample_records. valid_metadata m"
  by (simp add: sample_records_def valid_metadata_def path_schema_defs byte_length_ascii)

lemma clashing_valid: "\<forall>m \<in> set clashing_records. valid_metadata m"
  by (simp add: clashing_records_def valid_metadata_def path_schema_defs byte_length_ascii)

lemma sample_free: "paths_free sample_records"
  by (simp add: sample_records_def paths_free_def lies_below_def)

lemma clashing_not_free: "\<not> paths_free clashing_records"
  by (simp add: clashing_records_def paths_free_def lies_below_def)

lemma sample_small: "safe_size (2 * length (run_bytes (map encode_record sample_records)))"
  by (simp add: sample_records_def length_record_bytes encoded_size_def record_header_bytes_def length_utf8_encode
      byte_length_ascii safe_size_def max_safe_integer_def)

lemma clashing_small: "safe_size (2 * length (run_bytes (map encode_record clashing_records)))"
  by (simp add: clashing_records_def length_record_bytes encoded_size_def record_header_bytes_def length_utf8_encode
      byte_length_ascii safe_size_def max_safe_integer_def)

lemma sample_created: "\<exists>ml0. create_metadata_ledger 8167 2 = Inr ml0"
  by (simp add: create_metadata_ledger_def safe_integer_def max_safe_integer_def max_record_bytes_def max_path_bytes_def
      max_symlink_target_bytes_def)

section \<open>Properties\<close>

text \<open>
  C24. The ledger sorts: whatever records within the schemas are appended, in whatever batches and
  merge passes its limits make of them, appending and finishing succeed when no path is given
  twice and none lies below a file or a link, and replaying then yields exactly the appended
  records in the order of their keys.
\<close>

theorem ledger_replays_sorted:
  assumes "honest_driver d" "create_metadata_ledger batch_bytes fan_in = Inr ml0" "\<forall>m \<in> set ms. valid_metadata m"
    and "safe_size (2 * length (run_bytes (map encode_record ms)))" "paths_free ms"
  shows "\<exists>ml1 ml2. append_records d ms ml0 = (Inr (), ml1) \<and> finish_ledger d ml1 = (Inr (), ml2) \<and>
    ledger_records d ml2 = (Inr (sort_key record_order ms), ml2)"
  using ledger_finished [OF assms(1-4)] assms(5) sealed_records [OF assms(1)] by auto

lemma ledger_replays_sorted_witness:
  "\<exists>ml0 ml1 ml2. create_metadata_ledger 8167 2 = Inr ml0 \<and> append_records whole_driver sample_records ml0 = (Inr (), ml1) \<and>
    finish_ledger whole_driver ml1 = (Inr (), ml2) \<and>
    ledger_records whole_driver ml2 = (Inr (sort_key record_order sample_records), ml2)"
  using ledger_replays_sorted [OF whole_driver_honest _ sample_valid sample_small sample_free] sample_created by blast

text \<open>
  C26. Finishing finds every conflict and nothing else: it succeeds exactly if the paths are
  distinct and only directories have records below them; otherwise the ledger is failed and the
  error names a record that really is in that conflict.
\<close>

theorem ledger_conflicts_exact:
  assumes "honest_driver d" "create_metadata_ledger batch_bytes fan_in = Inr ml0" "\<forall>m \<in> set ms. valid_metadata m"
    and "safe_size (2 * length (run_bytes (map encode_record ms)))"
  shows "\<exists>ml1 result ml2. append_records d ms ml0 = (Inr (), ml1) \<and> finish_ledger d ml1 = (result, ml2) \<and>
    (if paths_free ms then result = Inr () \<and> ml_phase ml2 = Ledger_Sealed
     else \<exists>code m. m \<in> set ms \<and> path_conflict code m ms \<and> result = Inl (Conflict code (meta_path m)) \<and>
       ml_phase ml2 = Ledger_Failed)"
  using ledger_finished [OF assms] by (auto simp: sealed_holds_def split: if_splits)

lemma ledger_conflicts_exact_witness:
  "\<exists>ml0 ml1 e ml2. create_metadata_ledger 8167 2 = Inr ml0 \<and> append_records whole_driver clashing_records ml0 = (Inr (), ml1) \<and>
    finish_ledger whole_driver ml1 = (Inl e, ml2) \<and> ml_phase ml2 = Ledger_Failed"
proof -
  obtain ml0 where "create_metadata_ledger 8167 2 = Inr ml0" using sample_created by blast
  with ledger_conflicts_exact [OF whole_driver_honest this clashing_valid clashing_small] clashing_not_free show ?thesis by auto
qed

text \<open>
  Lookup is exact: after a successful finish the binary search over the offsets returns, for
  every path within the schema, the record appended under it, or nothing when there is none.
\<close>

theorem ledger_lookup_exact:
  assumes "honest_driver d" "create_metadata_ledger batch_bytes fan_in = Inr ml0" "\<forall>m \<in> set ms. valid_metadata m"
    and "safe_size (2 * length (run_bytes (map encode_record ms)))" "paths_free ms" "relative_path_schema p"
  shows "\<exists>ml1 ml2. append_records d ms ml0 = (Inr (), ml1) \<and> finish_ledger d ml1 = (Inr (), ml2) \<and>
    get_record d p ml2 = (Inr (find (\<lambda>m. meta_path m = p) ms), ml2)"
  using ledger_finished [OF assms(1-4)] assms(5) sealed_looks_up(2) [OF assms(1) _ assms(5,6)]
  by (auto simp: entry_at_def)

lemma ledger_lookup_exact_witness:
  "\<exists>ml0 ml1 ml2. create_metadata_ledger 8167 2 = Inr ml0 \<and> append_records whole_driver sample_records ml0 = (Inr (), ml1) \<and>
    finish_ledger whole_driver ml1 = (Inr (), ml2) \<and> get_record whole_driver [102] ml2 = (Inr (Some (Meta_File [102])), ml2)"
proof -
  obtain ml0 where ml0: "create_metadata_ledger 8167 2 = Inr ml0" using sample_created by blast
  have "relative_path_schema [102]" by (simp add: path_schema_defs byte_length_ascii)
  from ledger_lookup_exact [OF whole_driver_honest ml0 sample_valid sample_small sample_free this] show ?thesis
    using ml0 by (simp add: sample_records_def)
qed

text \<open>
  C25. Accepted links are confined: once \<open>validateSymlinks\<close> has accepted a ledger, resolving any of
  its links step by step, through any number of further links and around any cycle, stays in the
  selected publication root and never asks for its parent.
\<close>

theorem validated_links_confined:
  assumes "honest_driver d" "create_metadata_ledger batch_bytes fan_in = Inr ml0" "\<forall>m \<in> set ms. valid_metadata m"
    and "safe_size (2 * length (run_bytes (map encode_record ms)))"
    and "append_records d ms ml0 = (Inr (), ml1)" "finish_ledger d ml1 = (Inr (), ml2)"
    and "validate_symlinks d root ml2 = (Inr (), ml3)" "Meta_Symlink p t \<in> set ms"
    and "(resolves ms)\<^sup>*\<^sup>* (butlast (split_on 47 p), split_on 47 t) s"
  shows "inside_root (root_parts root) s"
proof -
  have "paths_free ms \<and> sealed_holds ml2 (sort_key record_order ms)"
    using ledger_finished [OF assms(1-4)] assms(5,6) by (auto split: if_splits)
  then show ?thesis using sealed_links_inside [OF assms(1) _ _ assms(7-9)] by blast
qed

lemma sample_accepts_links:
  assumes "sealed_holds ml (sort_key record_order sample_records)"
  shows "validate_symlinks whole_driver None ml = (Inr (), ml)"
proof -
  note look = sealed_looks_up(1) [OF whole_driver_honest assms sample_free]
  let ?look = "lookup_record whole_driver ml"
  have "relative_path_schema [102]" by (simp add: path_schema_defs byte_length_ascii)
  then have "?look [102] = Inr (Some (Meta_File [102]))"
    using look by (simp add: looks_up_def entry_at_def sample_records_def)
  then have loop: "link_loop ?look path 0 [] [[102]] seen n = Inr ()" for path seen n
    by (simp add: link_loop.simps [of ?look path 0 "[]" "[[102]]" seen n] link_loop.simps [of ?look path 0 "[[102]]" "[]" seen n]
        parse_relative_path_def path_schema_defs byte_length_ascii)
  have "link_loop ?look path 0 [[97]] [[46, 46], [102]] seen n = Inr ()" for path seen n
    using loop by (simp add: link_loop.simps [of ?look path 0 "[[97]]" "[[46, 46], [102]]" seen n] dot_def dot_dot_def)
  then have link: "validate_link ?look None [97, 47, 108] [46, 46, 47, 102] = Inr ()"
    by (simp add: validate_link_def root_parts_def working_bound_def parts_bytes_def max_symlink_resolution_components_def
        max_symlink_resolution_bytes_def byte_length_ascii)
  have "check_links whole_driver ml None (whole_run (ml_state ml)) = Inr ()"
    using check_links_each [OF whole_driver_honest assms sealed_whole_run [OF assms]] link sample_valid
    by (simp add: outside_root_def sample_records_def)
  then show ?thesis using assms by (simp add: validate_symlinks_def sealed_holds_def enter_ledger_def)
qed

lemma validated_links_confined_witness:
  "\<exists>ml0 ml1 ml2. create_metadata_ledger 8167 2 = Inr ml0 \<and> append_records whole_driver sample_records ml0 = (Inr (), ml1) \<and>
    finish_ledger whole_driver ml1 = (Inr (), ml2) \<and> validate_symlinks whole_driver None ml2 = (Inr (), ml2) \<and>
    inside_root (root_parts None) ([[97]], [[46, 46], [102]])"
proof -
  obtain ml0 where ml0: "create_metadata_ledger 8167 2 = Inr ml0" using sample_created by blast
  obtain ml1 ml2 where run: "append_records whole_driver sample_records ml0 = (Inr (), ml1)"
      "finish_ledger whole_driver ml1 = (Inr (), ml2)" "sealed_holds ml2 (sort_key record_order sample_records)"
    using ledger_finished [OF whole_driver_honest ml0 sample_valid sample_small] sample_free by auto
  note accepted = sample_accepts_links [OF run(3)]
  have "inside_root (root_parts None) ([[97]], [[46, 46], [102]])"
    using validated_links_confined [OF whole_driver_honest ml0 sample_valid sample_small run(1,2) accepted,
        of "[97, 47, 108]" "[46, 46, 47, 102]" "([[97]], [[46, 46], [102]])"]
    by (simp add: sample_records_def)
  then show ?thesis using ml0 run(1,2) accepted by blast
qed

text \<open>
  C27. A merge pass makes progress: on files that hold sorted runs it succeeds with a fan-in of at
  least two, leaves one run for every \<open>fanIn\<close> of them, rounded up, and loses and reorders no record
  of the stable sort, so that the loop of \<open>finish\<close> ends with one run.
\<close>

theorem merge_pass_progress:
  assumes "honest_driver d" "sort_holds files st runs" "2 \<le> fan_in" "safe_size (2 * so_end st)"
  shows "\<exists>files' st' runs'. merge_pass d files st fan_in = Inr (files', st') \<and> sort_holds files' st' runs' \<and>
    so_runs st' = (so_runs st + fan_in - 1) div fan_in \<and> (1 < so_runs st \<longrightarrow> so_runs st' < so_runs st) \<and>
    sort_key er_key (concat runs') = sort_key er_key (concat runs)"
proof -
  obtain files' st' runs' where pass: "merge_pass d files st fan_in = Inr (files', st')" "sort_holds files' st' runs'"
      "sort_key er_key (concat runs') = sort_key er_key (concat runs)"
    using merge_pass_holds [OF assms] by blast
  then show ?thesis using merge_pass_count [OF pass(1)] merge_pass_runs [OF pass(1) assms(3)] assms(3) by auto
qed

definition two_runs :: "encoded_record list list" where
  "two_runs = [[encode_record (Meta_File [102])], [encode_record (Meta_Directory [97])]]"

definition two_run_files :: spill_files where
  "two_run_files = \<lparr>sf_data0 = run_bytes (concat two_runs), sf_data1 = [], sf_descriptors0 = run_descriptors 0 two_runs,
     sf_descriptors1 = []\<rparr>"

definition two_run_state :: sort_state where
  "two_run_state = \<lparr>so_runs = 2, so_end = length (run_bytes (concat two_runs)), so_descriptor_end = 32\<rparr>"

lemma two_runs_hold: "sort_holds two_run_files two_run_state two_runs"
  using wf_encode_record [of "Meta_File [102]"] wf_encode_record [of "Meta_Directory [97]"]
  by (simp add: sort_holds_def runs_hold_def two_run_files_def two_run_state_def two_runs_def good_run_def
      descriptor_bytes_def valid_metadata_def path_schema_defs byte_length_ascii)

lemma merge_pass_progress_witness:
  "\<exists>files' st' runs'. merge_pass whole_driver two_run_files two_run_state 2 = Inr (files', st') \<and>
    sort_holds files' st' runs' \<and> so_runs st' = 1"
proof -
  have "safe_size (2 * so_end two_run_state)"
    by (simp add: two_run_state_def two_runs_def length_record_bytes encoded_size_def record_header_bytes_def length_utf8_encode
        byte_length_ascii safe_size_def max_safe_integer_def)
  from merge_pass_progress [OF whole_driver_honest two_runs_hold _ this, of 2] show ?thesis
    by (auto simp: two_run_state_def)
qed

text \<open>
  A record on a spill file reads back: written at the end of a file and followed by anything,
  it is read back whole from where it was written, the cursor moves to where it ended, and decoding
  returns the metadata that was encoded.
\<close>

theorem record_file_roundtrip:
  assumes "honest_driver d" "valid_metadata m" "safe_size (length dat + encoded_size (encode_record m) + length rest)"
  shows "\<exists>dat' stop. write_record d dat (encode_record m) (length dat) = Inr (dat', stop) \<and>
    read_record d (dat' @ rest) \<lparr>rc_position = length dat, rc_end = stop\<rparr> =
      Inr (Some (encode_record m), \<lparr>rc_position = stop, rc_end = stop\<rparr>) \<and>
    decode_record (encode_record m) = Inr m"
proof -
  let ?r = "encode_record m"
  have "safe_size (length dat + encoded_size ?r)" using assms(3) by (rule safe_size_mono) simp
  then have "write_record d dat ?r (length dat) = Inr (dat @ record_bytes ?r, length dat + encoded_size ?r)"
    by (rule write_record_appends [OF assms(1)])
  moreover have "holds_run (dat @ record_bytes ?r @ rest)
      \<lparr>rc_position = length dat, rc_end = length dat + encoded_size ?r\<rparr> [?r]"
    using holds_run_append [of dat "[?r]" rest] by (simp add: length_record_bytes)
  then have "read_record d ((dat @ record_bytes ?r) @ rest) \<lparr>rc_position = length dat, rc_end = length dat + encoded_size ?r\<rparr> =
      Inr (Some ?r, \<lparr>rc_position = length dat + encoded_size ?r, rc_end = length dat + encoded_size ?r\<rparr>)"
    using read_record_holds_Cons [OF assms(1) _ wf_encode_record [OF assms(2)]] assms(3) by (simp add: length_record_bytes add.assoc)
  ultimately show ?thesis using decode_encode_record [OF assms(2)] by blast
qed

lemma record_file_roundtrip_witness:
  "\<exists>dat' stop. write_record whole_driver [7] (encode_record (Meta_Symlink [97] [46, 46])) 1 = Inr (dat', stop) \<and>
    decode_record (encode_record (Meta_Symlink [97] [46, 46])) = Inr (Meta_Symlink [97] [46, 46])"
proof -
  have "valid_metadata (Meta_Symlink [97] [46, 46])"
    by (simp add: valid_metadata_def path_schema_defs byte_length_ascii)
  moreover have "safe_size (length [7 :: byte] + encoded_size (encode_record (Meta_Symlink [97] [46, 46])) + length [9 :: byte])"
    by (simp add: encoded_size_def record_header_bytes_def length_utf8_encode byte_length_ascii safe_size_def max_safe_integer_def)
  ultimately show ?thesis
    using record_file_roundtrip [OF whole_driver_honest, of "Meta_Symlink [97] [46, 46]" "[7]" "[9]"] by auto
qed

end
