(* ===== verification/Acp_Protocol.thy ===== *)
theory Acp_Protocol
  imports Byte_Text Js_Data
begin

text \<open>
  The messages of the Agent Client Protocol: \<open>acp-transport/src/errors.ts\<close>, \<open>limits.ts\<close>, \<open>json.ts\<close> and
  \<open>protocol.ts\<close>.

  A JSON value is what \<open>JSON.parse\<close> returns: plain data, the members of an object with distinct keys.
  A number is an integer, a fraction \<open>m / 2^k\<close>, or not finite (as \<open>1e999\<close> is parsed).  A text is the
  list of its code points, as in the archive theories.
\<close>

section \<open>Values and failures\<close>

datatype acp_number = Whole int | Fraction int nat | Not_Finite

datatype acp_json =
    A_Null
  | A_Bool bool
  | A_Num acp_number
  | A_Str code_text
  | A_Arr "acp_json list"
  | A_Obj "(code_text \<times> acp_json) list"

datatype acp_request_id = Text_Id code_text | Number_Id int

text \<open>The classes of \<open>errors.ts\<close> by their reason codes; \<open>Type_Failure\<close> is JavaScript's \<open>TypeError\<close>.\<close>

datatype acp_error =
    Client_Failure string
  | Protocol_Failure string
  | Request_Failure string acp_request_id
  | Remote_Failure acp_request_id int code_text "acp_json option"
  | Type_Failure string

section \<open>Limits (limits.ts)\<close>

record acp_limits =
  al_max_inbound_frame_bytes :: int
  al_max_outbound_frame_bytes :: int
  al_max_json_depth :: int
  al_max_json_nodes :: int
  al_max_object_properties :: int
  al_max_array_items :: int
  al_max_outstanding_requests :: int
  al_max_inbound_request_concurrency :: int
  al_max_notification_handler_concurrency :: int
  al_max_notifications_per_window :: int
  al_notification_window_ms :: int
  al_max_request_id_bytes :: int
  al_default_request_timeout_ms :: int
  al_max_request_timeout_ms :: int
  al_max_outbound_buffered_bytes :: int
  al_max_stderr_buffered_bytes :: int
  al_shutdown_drain_ms :: int

text \<open>The name of a limit with its default, its minimum and its maximum.\<close>

definition limit_bounds :: "(string \<times> int \<times> int \<times> int) list" where
  "limit_bounds =
     [(''maxInboundFrameBytes'', 8 * 1024 * 1024, 1024, 64 * 1024 * 1024),
      (''maxOutboundFrameBytes'', 8 * 1024 * 1024, 1024, 64 * 1024 * 1024),
      (''maxJsonDepth'', 48, 4, 128),
      (''maxJsonNodes'', 65536, 128, 1000000),
      (''maxObjectProperties'', 4096, 16, 65536),
      (''maxArrayItems'', 16384, 16, 100000),
      (''maxOutstandingRequests'', 64, 1, 1024),
      (''maxInboundRequestConcurrency'', 16, 1, 256),
      (''maxNotificationHandlerConcurrency'', 32, 1, 1024),
      (''maxNotificationsPerWindow'', 512, 1, 100000),
      (''notificationWindowMs'', 1000, 10, 60000),
      (''maxRequestIdBytes'', 128, 8, 1024),
      (''defaultRequestTimeoutMs'', 30000, 10, 30 * 60000),
      (''maxRequestTimeoutMs'', 30 * 60000, 10, 60 * 60000),
      (''maxOutboundBufferedBytes'', 8 * 1024 * 1024 + 1, 1024, 64 * 1024 * 1024 + 1),
      (''maxStderrBufferedBytes'', 128 * 1024, 1024, 8 * 1024 * 1024),
      (''shutdownDrainMs'', 2000, 0, 30000)]"

text \<open>The names that \<open>in\<close> finds on every object.\<close>

definition object_prototype_names :: "string list" where
  "object_prototype_names = [''constructor'', ''__defineGetter__'', ''__defineSetter__'', ''hasOwnProperty'',
     ''__lookupGetter__'', ''__lookupSetter__'', ''isPrototypeOf'', ''propertyIsEnumerable'', ''toString'',
     ''valueOf'', ''__proto__'', ''toLocaleString'']"

text \<open>An override is an own member of the given object; its value may be anything but the integers are distinguished.\<close>

type_synonym limit_overrides = "(string \<times> int option) list"

definition resolved_limit :: "limit_overrides \<Rightarrow> string \<times> int \<times> int \<times> int \<Rightarrow> int option" where
  "resolved_limit overrides row = (case row of (name, standard, _) \<Rightarrow>
     (case map_of overrides name of None \<Rightarrow> Some standard | Some v \<Rightarrow> v))"

definition limit_in_range :: "limit_overrides \<Rightarrow> string \<times> int \<times> int \<times> int \<Rightarrow> bool" where
  "limit_in_range overrides row = (case row of (name, standard, minimum, maximum) \<Rightarrow>
     (case resolved_limit overrides row of
        None \<Rightarrow> False
      | Some v \<Rightarrow> safe_integer v \<and> minimum \<le> v \<and> v \<le> maximum))"

definition limit_named :: "limit_overrides \<Rightarrow> string \<Rightarrow> int" where
  "limit_named overrides name = (case map_of limit_bounds name of
       None \<Rightarrow> 0 | Some row \<Rightarrow> the (resolved_limit overrides (name, row)))"

definition resolve_acp_protocol_limits :: "limit_overrides \<Rightarrow> acp_error + acp_limits" where
  "resolve_acp_protocol_limits overrides =
     (if list_ex (\<lambda>(k, _). k \<notin> set (map fst limit_bounds) \<union> set object_prototype_names) overrides then
        Inl (Type_Failure ''ACP protocol limits contain unknown keys.'')
      else if \<not> list_all (limit_in_range overrides) limit_bounds then
        Inl (Type_Failure ''ACP protocol limit is outside its supported range.'')
      else if limit_named overrides ''maxRequestTimeoutMs'' < limit_named overrides ''defaultRequestTimeoutMs'' then
        Inl (Type_Failure ''ACP default request timeout exceeds the maximum timeout.'')
      else if limit_named overrides ''maxOutboundBufferedBytes'' < limit_named overrides ''maxOutboundFrameBytes'' + 1 then
        Inl (Type_Failure ''ACP outbound buffer must hold one maximum-sized frame and its delimiter.'')
      else Inr \<lparr>al_max_inbound_frame_bytes = limit_named overrides ''maxInboundFrameBytes'',
        al_max_outbound_frame_bytes = limit_named overrides ''maxOutboundFrameBytes'',
        al_max_json_depth = limit_named overrides ''maxJsonDepth'',
        al_max_json_nodes = limit_named overrides ''maxJsonNodes'',
        al_max_object_properties = limit_named overrides ''maxObjectProperties'',
        al_max_array_items = limit_named overrides ''maxArrayItems'',
        al_max_outstanding_requests = limit_named overrides ''maxOutstandingRequests'',
        al_max_inbound_request_concurrency = limit_named overrides ''maxInboundRequestConcurrency'',
        al_max_notification_handler_concurrency = limit_named overrides ''maxNotificationHandlerConcurrency'',
        al_max_notifications_per_window = limit_named overrides ''maxNotificationsPerWindow'',
        al_notification_window_ms = limit_named overrides ''notificationWindowMs'',
        al_max_request_id_bytes = limit_named overrides ''maxRequestIdBytes'',
        al_default_request_timeout_ms = limit_named overrides ''defaultRequestTimeoutMs'',
        al_max_request_timeout_ms = limit_named overrides ''maxRequestTimeoutMs'',
        al_max_outbound_buffered_bytes = limit_named overrides ''maxOutboundBufferedBytes'',
        al_max_stderr_buffered_bytes = limit_named overrides ''maxStderrBufferedBytes'',
        al_shutdown_drain_ms = limit_named overrides ''shutdownDrainMs''\<rparr>)"

section \<open>Bounded JSON (json.ts)\<close>

definition prohibited_keys :: "code_text list" where
  "prohibited_keys = [ascii ''__proto__'', ascii ''constructor'', ascii ''prototype'']"

definition denied_key :: "code_text \<Rightarrow> bool" where
  "denied_key k \<longleftrightarrow> k = [] \<or> k \<in> set prohibited_keys"

lemma size_member_less: "(k, v) \<in> set kvs \<Longrightarrow> size v < size (A_Obj kvs)"
  by (induction kvs) auto

lemma size_item_less: "v \<in> set vs \<Longrightarrow> size v < size (A_Arr vs)"
  by (induction vs) auto

definition stack_size :: "(acp_json \<times> int) list \<Rightarrow> nat" where
  "stack_size stack = sum_list (map (\<lambda>(v, depth). Suc (size v)) stack)"

lemma stack_size_simps [simp]:
  "stack_size [] = 0" "stack_size ((v, depth) # stack) = Suc (size v) + stack_size stack"
  "stack_size (s @ t) = stack_size s + stack_size t"
  by (simp_all add: stack_size_def)

lemma stack_size_items: "stack_size (map (\<lambda>v. (v, depth)) vs) \<le> size_list size vs"
  by (induction vs) auto

lemma stack_size_members:
  "stack_size (map (\<lambda>(k, v). (v, depth)) kvs) \<le> size_list (size_prod (\<lambda>k. 0) size) kvs"
  by (induction kvs) auto

text \<open>The explicit stack of \<open>assertBoundedAcpJson\<close>, its top first.\<close>

function check_json_stack :: "acp_limits \<Rightarrow> (acp_json \<times> int) list \<Rightarrow> int \<Rightarrow> acp_error + unit" where
  "check_json_stack lm [] nodes = Inr ()"
| "check_json_stack lm ((item, depth) # stack) nodes =
     (if al_max_json_nodes lm < nodes + 1 then Inl (Protocol_Failure ''acp_json_node_limit_exceeded'')
      else if al_max_json_depth lm < depth then Inl (Protocol_Failure ''acp_json_depth_limit_exceeded'')
      else case item of
          A_Null \<Rightarrow> check_json_stack lm stack (nodes + 1)
        | A_Bool b \<Rightarrow> check_json_stack lm stack (nodes + 1)
        | A_Str s \<Rightarrow> check_json_stack lm stack (nodes + 1)
        | A_Num n \<Rightarrow> if n = Not_Finite then Inl (Protocol_Failure ''acp_json_number_invalid'')
            else check_json_stack lm stack (nodes + 1)
        | A_Arr vs \<Rightarrow> if al_max_array_items lm < int (length vs) then
              Inl (Protocol_Failure ''acp_json_array_limit_exceeded'')
            else check_json_stack lm (map (\<lambda>v. (v, depth + 1)) vs @ stack) (nodes + 1)
        | A_Obj kvs \<Rightarrow> if al_max_object_properties lm < int (length kvs) then
              Inl (Protocol_Failure ''acp_json_object_limit_exceeded'')
            else if list_ex (\<lambda>(k, v). denied_key k) kvs then Inl (Protocol_Failure ''acp_json_prototype_key_denied'')
            else check_json_stack lm (map (\<lambda>(k, v). (v, depth + 1)) kvs @ stack) (nodes + 1))"
  by pat_completeness auto
termination
proof (relation "measure (\<lambda>(lm, stack, nodes). stack_size stack)")
  fix lm :: acp_limits and item and depth nodes :: int and stack vs
  assume "item = A_Arr vs"
  then show "((lm, map (\<lambda>v. (v, depth + 1)) vs @ stack, nodes + 1), lm, (item, depth) # stack, nodes) \<in>
      measure (\<lambda>(lm, stack, nodes). stack_size stack)"
    using stack_size_items [of "depth + 1" vs] by simp
next
  fix lm :: acp_limits and item and depth nodes :: int and stack kvs
  assume "item = A_Obj kvs"
  then show "((lm, map (\<lambda>(k, v). (v, depth + 1)) kvs @ stack, nodes + 1), lm, (item, depth) # stack, nodes) \<in>
      measure (\<lambda>(lm, stack, nodes). stack_size stack)"
    using stack_size_members [of "depth + 1" kvs] by simp
qed simp_all

declare check_json_stack.simps(2) [simp del]

definition assert_bounded_acp_json :: "acp_limits \<Rightarrow> acp_json \<Rightarrow> acp_error + unit" where
  "assert_bounded_acp_json lm v = check_json_stack lm [(v, 0)] 0"

text \<open>\<open>JSON.parse\<close> is the parameter \<open>parse\<close>: the value of a text, or nothing where it throws.\<close>

definition parse_bounded_acp_json :: "(code_text \<Rightarrow> acp_json option) \<Rightarrow> acp_limits \<Rightarrow> code_text \<Rightarrow> acp_error + acp_json" where
  "parse_bounded_acp_json parse lm t =
     (case parse t of
        None \<Rightarrow> Inl (Protocol_Failure ''acp_json_invalid'')
      | Some v \<Rightarrow> and_then (assert_bounded_acp_json lm v) (\<lambda>_. Inr v))"

section \<open>Messages (protocol.ts)\<close>

record acp_error_object =
  eo_code :: int
  eo_message :: code_text
  eo_data :: "acp_json option"

datatype acp_message =
    Request_Message acp_request_id code_text "acp_json option"
  | Notification_Message code_text "acp_json option"
  | Result_Message acp_request_id acp_json
  | Error_Message acp_request_id acp_error_object

definition has_exact_keys :: "(code_text \<times> acp_json) list \<Rightarrow> string list \<Rightarrow> bool" where
  "has_exact_keys kvs allowed \<longleftrightarrow> list_all (\<lambda>(k, v). k \<in> set (map ascii allowed)) kvs"

definition acp_control :: "nat \<Rightarrow> bool" where
  "acp_control c \<longleftrightarrow> c < 32 \<or> c = 127"

text \<open>The length of a JavaScript string: code points beyond the basic plane are two units.\<close>

definition utf16_length :: "code_text \<Rightarrow> nat" where
  "utf16_length t = sum_list (map (\<lambda>c. if c < 0x10000 then 1 else 2) t)"

text \<open>The keys under which requests are kept: \<open>s:\<close> and the text, or \<open>n:\<close> and the number.\<close>

definition acp_request_id_key :: "acp_request_id \<Rightarrow> code_text" where
  "acp_request_id_key rid = (case rid of
       Text_Id t \<Rightarrow> ascii ''s:'' @ t
     | Number_Id n \<Rightarrow> ascii ''n:'' @ ascii (int_string n))"

definition assert_acp_request_id :: "acp_limits \<Rightarrow> acp_json \<Rightarrow> acp_error + acp_request_id" where
  "assert_acp_request_id lm v = (case v of
       A_Num (Whole n) \<Rightarrow> if safe_integer n then Inr (Number_Id n) else Inl (Protocol_Failure ''acp_request_id_invalid'')
     | A_Str t \<Rightarrow> if t = [] \<or> al_max_request_id_bytes lm < int (byte_length t) \<or> list_ex acp_control t then
           Inl (Protocol_Failure ''acp_request_id_invalid'') else Inr (Text_Id t)
     | _ \<Rightarrow> Inl (Protocol_Failure ''acp_request_id_invalid''))"

definition assert_method :: "acp_json \<Rightarrow> acp_error + code_text" where
  "assert_method v = (case v of
       A_Str t \<Rightarrow> if t = [] \<or> 240 < utf16_length t \<or> list_ex acp_control t then
           Inl (Protocol_Failure ''acp_method_invalid'') else Inr t
     | _ \<Rightarrow> Inl (Protocol_Failure ''acp_method_invalid''))"

definition parse_error_object :: "acp_limits \<Rightarrow> acp_json \<Rightarrow> acp_error + acp_error_object" where
  "parse_error_object lm v = (case v of
       A_Obj kvs \<Rightarrow>
         if \<not> has_exact_keys kvs [''code'', ''message'', ''data''] then Inl (Protocol_Failure ''acp_error_object_invalid'')
         else (case map_of kvs (ascii ''code'') of
             Some (A_Num (Whole code)) \<Rightarrow>
               if \<not> safe_integer code then Inl (Protocol_Failure ''acp_error_code_invalid'')
               else (case map_of kvs (ascii ''message'') of
                   Some (A_Str m) \<Rightarrow>
                     if 2048 < byte_length m then Inl (Protocol_Failure ''acp_error_message_invalid'')
                     else (case map_of kvs (ascii ''data'') of
                         None \<Rightarrow> Inr \<lparr>eo_code = code, eo_message = m, eo_data = None\<rparr>
                       | Some dat \<Rightarrow> and_then (assert_bounded_acp_json lm dat) (\<lambda>_.
                           Inr \<lparr>eo_code = code, eo_message = m, eo_data = Some dat\<rparr>))
                 | _ \<Rightarrow> Inl (Protocol_Failure ''acp_error_message_invalid''))
           | _ \<Rightarrow> Inl (Protocol_Failure ''acp_error_code_invalid''))
     | _ \<Rightarrow> Inl (Protocol_Failure ''acp_error_object_invalid''))"

definition parse_call :: "acp_limits \<Rightarrow> (code_text \<times> acp_json) list \<Rightarrow> acp_json \<Rightarrow> acp_error + acp_message" where
  "parse_call lm kvs m =
     and_then (assert_method m) (\<lambda>name.
     and_then (case map_of kvs (ascii ''params'') of None \<Rightarrow> Inr () | Some p \<Rightarrow> assert_bounded_acp_json lm p) (\<lambda>_.
       case map_of kvs (ascii ''id'') of
         Some i \<Rightarrow>
           if \<not> has_exact_keys kvs [''jsonrpc'', ''id'', ''method'', ''params''] then
             Inl (Protocol_Failure ''acp_request_envelope_invalid'')
           else and_then (assert_acp_request_id lm i) (\<lambda>rid. Inr (Request_Message rid name (map_of kvs (ascii ''params''))))
       | None \<Rightarrow>
           if \<not> has_exact_keys kvs [''jsonrpc'', ''method'', ''params''] then
             Inl (Protocol_Failure ''acp_notification_envelope_invalid'')
           else Inr (Notification_Message name (map_of kvs (ascii ''params'')))))"

definition parse_answer :: "acp_limits \<Rightarrow> (code_text \<times> acp_json) list \<Rightarrow> acp_error + acp_message" where
  "parse_answer lm kvs =
     (case map_of kvs (ascii ''id'') of
        None \<Rightarrow> Inl (Protocol_Failure ''acp_response_envelope_invalid'')
      | Some i \<Rightarrow>
          if \<not> has_exact_keys kvs [''jsonrpc'', ''id'', ''result'', ''error''] then
            Inl (Protocol_Failure ''acp_response_envelope_invalid'')
          else and_then (assert_acp_request_id lm i) (\<lambda>rid.
            case (map_of kvs (ascii ''result''), map_of kvs (ascii ''error'')) of
              (Some r, None) \<Rightarrow> and_then (assert_bounded_acp_json lm r) (\<lambda>_. Inr (Result_Message rid r))
            | (None, Some e) \<Rightarrow> and_then (parse_error_object lm e) (\<lambda>eo. Inr (Error_Message rid eo))
            | _ \<Rightarrow> Inl (Protocol_Failure ''acp_response_outcome_invalid'')))"

definition parse_acp_message :: "acp_limits \<Rightarrow> acp_json \<Rightarrow> acp_error + acp_message" where
  "parse_acp_message lm v = (case v of
       A_Obj kvs \<Rightarrow>
         if map_of kvs (ascii ''jsonrpc'') \<noteq> Some (A_Str (ascii ''2.0'')) then
           Inl (Protocol_Failure ''acp_jsonrpc_version_invalid'')
         else (case map_of kvs (ascii ''method'') of
             Some m \<Rightarrow> parse_call lm kvs m
           | None \<Rightarrow> parse_answer lm kvs)
     | _ \<Rightarrow> Inl (Protocol_Failure ''acp_batch_or_non_object_denied''))"

end
