(* ===== verification/Acp_Framing.thy ===== *)
theory Acp_Framing
  imports Acp_Protocol
begin

text \<open>
  Newline framing of the peer's output: \<open>acp-transport/src/lineFramer.ts\<close>.  The owner of the framer is a
  state \<open>'s\<close>; its frame handler returns the next state and whether it disposed the framer meanwhile.
\<close>

section \<open>The framer\<close>

record line_framer =
  lf_buffered :: bytes
  lf_active :: bool
  lf_ended :: bool

definition new_framer :: line_framer where
  "new_framer = \<lparr>lf_buffered = [], lf_active = True, lf_ended = False\<rparr>"

text \<open>What a call reports to the owner besides the frames: nothing, a failure, or the end.\<close>

datatype framer_event = Framer_Quiet | Framer_Fatal string | Framer_End

text \<open>\<open>buffered.indexOf(10)\<close>, cutting the buffer there.\<close>

fun cut_line :: "bytes \<Rightarrow> (bytes \<times> bytes) option" where
  "cut_line [] = None"
| "cut_line (b # bs) = (if b = 10 then Some ([], bs) else map_option (\<lambda>(l, r). (b # l, r)) (cut_line bs))"

lemma cut_line_SomeD: "cut_line bs = Some (l, r) \<Longrightarrow> bs = l @ 10 # r \<and> 10 \<notin> set l"
  by (induction bs arbitrary: l) (auto split: if_splits)

lemma cut_line_None: "cut_line bs = None \<longleftrightarrow> 10 \<notin> set bs"
  by (induction bs) (auto split: option.splits)

lemma cut_line_append: "10 \<notin> set l \<Longrightarrow> cut_line (l @ 10 # r) = Some (l, r)"
  by (induction l) auto

definition strip_return :: "bytes \<Rightarrow> bytes" where
  "strip_return l = (if l \<noteq> [] \<and> last l = 13 then butlast l else l)"

text \<open>\<open>decoder.decode\<close> of a fatal \<open>TextDecoder\<close>, which drops a leading byte order mark.\<close>

definition decode_frame :: "bytes \<Rightarrow> code_text option" where
  "decode_frame bs = map_option (\<lambda>t. if take 1 t = [0xFEFF] then drop 1 t else t) (utf8_decode bs)"

type_synonym 's frame_handler = "code_text \<Rightarrow> 's \<Rightarrow> 's \<times> bool"

function frame_loop :: "nat \<Rightarrow> 's frame_handler \<Rightarrow> bytes \<Rightarrow> 's \<Rightarrow> (line_framer \<times> framer_event) \<times> 's" where
  "frame_loop maximum handle buffered s =
     (case cut_line buffered of
        None \<Rightarrow> ((\<lparr>lf_buffered = buffered, lf_active = True, lf_ended = False\<rparr>, Framer_Quiet), s)
      | Some (l, rest) \<Rightarrow>
          let stopped = \<lparr>lf_buffered = rest, lf_active = False, lf_ended = False\<rparr>; frame = strip_return l
          in if frame = [] then ((stopped, Framer_Fatal ''acp_stdout_empty_frame''), s)
             else if maximum < length frame then ((stopped, Framer_Fatal ''acp_stdout_frame_too_large''), s)
             else case decode_frame frame of
                 None \<Rightarrow> ((stopped, Framer_Fatal ''acp_stdout_utf8_invalid''), s)
               | Some t \<Rightarrow>
                   (case handle t s of (s', disposed) \<Rightarrow>
                      if disposed then ((\<lparr>lf_buffered = [], lf_active = False, lf_ended = False\<rparr>, Framer_Quiet), s')
                      else if maximum < length rest then ((stopped, Framer_Fatal ''acp_stdout_frame_too_large''), s')
                      else frame_loop maximum handle rest s'))"
  by pat_completeness auto
termination
  by (relation "measure (\<lambda>(maximum, handle, buffered, s). length buffered)") (auto dest: cut_line_SomeD)

declare frame_loop.simps [simp del]

definition framer_data :: "nat \<Rightarrow> 's frame_handler \<Rightarrow> bytes \<Rightarrow> line_framer \<Rightarrow> 's \<Rightarrow> (line_framer \<times> framer_event) \<times> 's" where
  "framer_data maximum handle chunk fr s =
     (if \<not> lf_active fr then ((fr, Framer_Quiet), s)
      else if maximum < length (lf_buffered fr) + length chunk \<and> 10 \<notin> set chunk then
        ((fr\<lparr>lf_active := False\<rparr>, Framer_Fatal ''acp_stdout_frame_too_large''), s)
      else frame_loop maximum handle (lf_buffered fr @ chunk) s)"

definition framer_error :: "line_framer \<Rightarrow> line_framer \<times> framer_event" where
  "framer_error fr = (if \<not> lf_active fr then (fr, Framer_Quiet)
     else (fr\<lparr>lf_active := False\<rparr>, Framer_Fatal ''acp_stdout_stream_error''))"

definition framer_end :: "line_framer \<Rightarrow> line_framer \<times> framer_event" where
  "framer_end fr =
     (if \<not> lf_active fr \<or> lf_ended fr then (fr, Framer_Quiet)
      else if lf_buffered fr \<noteq> [] then
        (fr\<lparr>lf_ended := True, lf_active := False\<rparr>, Framer_Fatal ''acp_stdout_truncated_frame'')
      else (fr\<lparr>lf_ended := True, lf_active := False\<rparr>, Framer_End))"

definition framer_dispose :: "line_framer \<Rightarrow> line_framer" where
  "framer_dispose fr = (if \<not> lf_active fr then fr else fr\<lparr>lf_active := False, lf_buffered := []\<rparr>)"

section \<open>A stream in chunks\<close>

text \<open>The chunks of a stream one after the other, until something is reported or the framer is disposed.\<close>

fun framer_stream :: "nat \<Rightarrow> 's frame_handler \<Rightarrow> bytes list \<Rightarrow> line_framer \<Rightarrow> 's \<Rightarrow> (line_framer \<times> framer_event) \<times> 's" where
  "framer_stream maximum handle [] fr s = ((fr, Framer_Quiet), s)"
| "framer_stream maximum handle (chunk # chunks) fr s =
     (case framer_data maximum handle chunk fr s of
        ((fr', Framer_Quiet), s') \<Rightarrow> framer_stream maximum handle chunks fr' s'
      | result \<Rightarrow> result)"

definition lines_bytes :: "bytes list \<Rightarrow> bytes" where
  "lines_bytes ls = concat (map (\<lambda>l. l @ [10]) ls)"

text \<open>A line the framer hands on: not empty, within the limit with its return, and UTF-8.\<close>

definition good_line :: "nat \<Rightarrow> bytes \<Rightarrow> bool" where
  "good_line maximum l \<longleftrightarrow> 10 \<notin> set l \<and> length l \<le> maximum \<and> strip_return l \<noteq> [] \<and> decode_frame (strip_return l) \<noteq> None"

definition line_text :: "bytes \<Rightarrow> code_text" where
  "line_text l = the (decode_frame (strip_return l))"

definition collect :: "code_text list frame_handler" where
  "collect t ts = (ts @ [t], False)"

definition framer_holding :: "bytes \<Rightarrow> line_framer" where
  "framer_holding tail = \<lparr>lf_buffered = tail, lf_active = True, lf_ended = False\<rparr>"

lemma lines_bytes_simps [simp]:
  "lines_bytes [] = []" "lines_bytes (l # ls) = l @ 10 # lines_bytes ls" "lines_bytes (ls @ ms) = lines_bytes ls @ lines_bytes ms"
  by (simp_all add: lines_bytes_def)

lemma strip_return_length: "length (strip_return l) \<le> length l"
  by (simp add: strip_return_def)

text \<open>One buffer: the complete lines are handed on, the rest stays, if what follows the first line fits.\<close>

lemma frame_loop_lines:
  "list_all (good_line maximum) ls \<Longrightarrow> 10 \<notin> set tail \<Longrightarrow>
   (ls \<noteq> [] \<longrightarrow> length (lines_bytes (tl ls)) + length tail \<le> maximum) \<Longrightarrow>
   frame_loop maximum collect (lines_bytes ls @ tail) ts = ((framer_holding tail, Framer_Quiet), ts @ map line_text ls)"
proof (induction ls arbitrary: ts)
  case Nil
  then have "cut_line tail = None" by (simp add: cut_line_None)
  then show ?case by (simp add: frame_loop.simps [of _ _ tail] framer_holding_def)
next
  case (Cons l ls)
  have l: "10 \<notin> set l" "strip_return l \<noteq> []" "length (strip_return l) \<le> maximum"
      "decode_frame (strip_return l) = Some (line_text l)"
    using Cons.prems(1) strip_return_length [of l] by (auto simp: good_line_def line_text_def)
  have rest: "ls \<noteq> [] \<longrightarrow> length (lines_bytes (tl ls)) + length tail \<le> maximum"
    using Cons.prems(3) by (cases ls) auto
  have "frame_loop maximum collect (lines_bytes ls @ tail) (ts @ [line_text l]) =
      ((framer_holding tail, Framer_Quiet), (ts @ [line_text l]) @ map line_text ls)"
    using Cons.IH [of "ts @ [line_text l]"] Cons.prems(1,2) rest by simp
  then show ?case using l Cons.prems(3)
    by (simp add: frame_loop.simps [of _ _ "l @ 10 # lines_bytes ls @ tail"] cut_line_append collect_def [of "line_text l" ts] Let_def)
qed

lemma split_lines: "\<exists>ls tail. bs = lines_bytes ls @ tail \<and> (\<forall>l \<in> set ls. 10 \<notin> set l) \<and> 10 \<notin> set tail"
proof (induction bs)
  case Nil
  show ?case by (intro exI [of _ "[]"]) simp
next
  case (Cons b bs)
  then obtain ls tail where bs: "bs = lines_bytes ls @ tail" "\<forall>l \<in> set ls. 10 \<notin> set l" "10 \<notin> set tail" by blast
  show ?case
  proof (cases "b = 10")
    case True
    then show ?thesis using bs by (intro exI [of _ "[] # ls"] exI [of _ tail]) simp
  next
    case False
    show ?thesis
    proof (cases ls)
      case Nil
      then show ?thesis using bs False by (intro exI [of _ "[]"] exI [of _ "b # tail"]) simp
    next
      case (Cons l ls')
      then show ?thesis using bs False by (intro exI [of _ "(b # l) # ls'"] exI [of _ tail]) simp
    qed
  qed
qed

lemma lines_prefix:
  "lines_bytes ms @ x = lines_bytes ls @ tail \<Longrightarrow> \<forall>m \<in> set ms. 10 \<notin> set m \<Longrightarrow> \<forall>l \<in> set ls. 10 \<notin> set l \<Longrightarrow>
   10 \<notin> set tail \<Longrightarrow> \<exists>more. ls = ms @ more \<and> x = lines_bytes more @ tail"
proof (induction ms arbitrary: ls)
  case (Cons m ms)
  show ?case
  proof (cases ls)
    case Nil
    then have "10 \<in> set tail" using Cons.prems(1) by (metis append_Nil in_set_conv_decomp lines_bytes_simps(1,2) append.assoc append_Cons)
    then show ?thesis using Cons.prems(4) by simp
  next
    case (Cons l ls')
    have "cut_line (m @ 10 # lines_bytes ms @ x) = cut_line (l @ 10 # lines_bytes ls' @ tail)"
      using Cons.prems(1) Cons by simp
    then have "m = l" "lines_bytes ms @ x = lines_bytes ls' @ tail"
      using Cons.prems(2,3) Cons by (simp_all add: cut_line_append)
    then show ?thesis using Cons.IH [of ls'] Cons.prems Cons by simp
  qed
qed simp

lemma partial_before:
  assumes "p @ x = l @ 10 # y" "10 \<notin> set p"
  shows "length p \<le> length l"
proof (rule ccontr)
  assume "\<not> length p \<le> length l"
  then have less: "length l < length p" by simp
  then have "p ! length l = (p @ x) ! length l" by (simp add: nth_append)
  also have "\<dots> = 10" using assms(1) by (simp add: nth_append)
  finally show False using less assms(2) by (metis nth_mem)
qed

lemma partial_line_fits:
  assumes "p @ x = lines_bytes ls @ tail" "10 \<notin> set p" "\<forall>l \<in> set ls. length l \<le> maximum" "length tail \<le> maximum"
  shows "length p \<le> maximum"
proof (cases ls)
  case Nil
  then show ?thesis using assms(1,4) by (metis append_Nil le_add1 le_trans length_append lines_bytes_simps(1))
next
  case (Cons l ls')
  then have "length p \<le> length l" using partial_before [of p x l] assms(1,2) by simp
  then show ?thesis using assms(3) Cons by auto
qed

lemma framer_stream_lines:
  "list_all (good_line maximum) ls \<Longrightarrow> 10 \<notin> set tail \<Longrightarrow> length tail \<le> maximum \<Longrightarrow>
   \<forall>c \<in> set chunks. length c \<le> maximum \<Longrightarrow> 10 \<notin> set held \<Longrightarrow> held @ concat chunks = lines_bytes ls @ tail \<Longrightarrow>
   framer_stream maximum collect chunks (framer_holding held) ts = ((framer_holding tail, Framer_Quiet), ts @ map line_text ls)"
proof (induction chunks arbitrary: held ls ts)
  case Nil
  then have "lines_bytes ls @ tail = held" by simp
  then have "ls = []" using Nil.prems(5) by (cases ls) auto
  then show ?case using Nil.prems(6) by simp
next
  case (Cons c chunks)
  have plain: "\<forall>l \<in> set ls. 10 \<notin> set l" and short: "\<forall>l \<in> set ls. length l \<le> maximum"
    using Cons.prems(1) by (auto simp: list_all_iff good_line_def)
  obtain ms tail' where ms: "held @ c = lines_bytes ms @ tail'" "\<forall>m \<in> set ms. 10 \<notin> set m" "10 \<notin> set tail'"
    using split_lines by blast
  have "lines_bytes ms @ tail' @ concat chunks = lines_bytes ls @ tail"
    using Cons.prems(6) ms(1) by (metis append.assoc concat.simps(2))
  then obtain more where more: "ls = ms @ more" "tail' @ concat chunks = lines_bytes more @ tail"
    using lines_prefix [OF _ ms(2) plain Cons.prems(2)] by blast
  have fits: "length tail' \<le> maximum"
    using partial_line_fits [OF more(2) ms(3)] short more(1) Cons.prems(3) by simp
  have not_large: "\<not> (maximum < length held + length c \<and> 10 \<notin> set c)"
  proof
    assume large: "maximum < length held + length c \<and> 10 \<notin> set c"
    then have "10 \<notin> set (lines_bytes ms @ tail')" using ms(1) Cons.prems(5) by (metis Un_iff set_append)
    then have "ms = []" by (cases ms) auto
    then have "tail' = held @ c" using ms(1) by simp
    then show False using fits large by simp
  qed
  have room: "ms \<noteq> [] \<longrightarrow> length (lines_bytes (tl ms)) + length tail' \<le> maximum"
  proof
    assume "ms \<noteq> []"
    then obtain m ms' where m: "ms = m # ms'" by (cases ms) auto
    have "length (held @ c) = length (lines_bytes (m # ms') @ tail')" using ms(1) m by simp
    then have total: "length held + length c = length m + 1 + length (lines_bytes ms') + length tail'" by simp
    have "length held \<le> length m" using partial_before [of held c m] ms(1) m Cons.prems(5) by simp
    then show "length (lines_bytes (tl ms)) + length tail' \<le> maximum" using total m Cons.prems(4) by simp
  qed
  have data: "framer_data maximum collect c (framer_holding held) ts = ((framer_holding tail', Framer_Quiet), ts @ map line_text ms)"
    using frame_loop_lines [of maximum ms tail' ts] Cons.prems(1) more(1) ms room not_large
    by (simp add: framer_data_def framer_holding_def)
  have "framer_stream maximum collect chunks (framer_holding tail') (ts @ map line_text ms) =
      ((framer_holding tail, Framer_Quiet), (ts @ map line_text ms) @ map line_text more)"
    using Cons.IH [of more tail'] Cons.prems(1-4) more ms(3) by simp
  then show ?case using data more(1) by simp
qed

end
