(* ===== verification/Acp_Client.thy ===== *)
theory Acp_Client
  imports Acp_Framing
begin

text \<open>
  The JSON-RPC client of \<open>acp-transport\<close>: the bounded writer of \<open>messageWriter.ts\<close>, the extension
  registry of \<open>extensions.ts\<close>, the timing of \<open>clientState.ts\<close> and the client of \<open>client.ts\<close>.

  The client is a state, and everything that happens to it is an operation on that state: a request
  or notification of the application, a chunk of the peer's output, a timer or abort, a handler that
  ends, a write that settles, the end of the streams, disposal.  Code behind a promise runs in the
  operation that settles the promise.  What the application sees (settled requests, called
  handlers, the reported failure) is appended to a log.  The callbacks \<open>onRequestDispatch\<close> and
  \<open>onResponseReceived\<close> are taken to return.
\<close>

section \<open>Extensions (extensions.ts)\<close>

datatype extension_direction = Outbound_Request | Outbound_Notification | Inbound_Request | Inbound_Notification

record acp_extension =
  ed_method :: code_text
  ed_direction :: extension_direction
  ed_validate_params :: "acp_json option \<Rightarrow> bool"
  ed_validate_result :: "(acp_json \<Rightarrow> bool) option"
  ed_safely_ignorable :: bool

definition alphanumeric :: "nat \<Rightarrow> bool" where
  "alphanumeric c \<longleftrightarrow> (48 \<le> c \<and> c \<le> 57) \<or> (65 \<le> c \<and> c \<le> 90) \<or> (97 \<le> c \<and> c \<le> 122)"

definition extension_tail :: "code_text \<Rightarrow> bool" where
  "extension_tail t \<longleftrightarrow> 1 \<le> length t \<and> length t \<le> 238 \<and> list_all (\<lambda>c. alphanumeric c \<or> c \<in> {46, 95, 47, 45}) t"

text \<open>The pattern of a method: an underscore, or a name that ends at the first slash, and the tail.\<close>

definition extension_method :: "code_text \<Rightarrow> bool" where
  "extension_method t \<longleftrightarrow>
     (take 1 t = [95] \<and> extension_tail (drop 1 t)) \<or>
     (let name = takeWhile (\<lambda>c. c \<noteq> 47) t
      in name \<noteq> [] \<and> length name < length t \<and> alphanumeric (hd name) \<and>
         list_all (\<lambda>c. alphanumeric c \<or> c \<in> {46, 45}) (tl name) \<and> extension_tail (drop (length name + 1) t))"

fun registered :: "acp_extension list \<Rightarrow> extension_direction \<Rightarrow> code_text \<Rightarrow> acp_extension option" where
  "registered [] direction name = None"
| "registered (e # es) direction name =
     (if ed_direction e = direction \<and> ed_method e = name then Some e else registered es direction name)"

fun create_acp_extension_registry :: "acp_extension list \<Rightarrow> acp_extension list \<Rightarrow> acp_error + acp_extension list" where
  "create_acp_extension_registry entries [] = Inr entries"
| "create_acp_extension_registry entries (e # es) =
     (if \<not> extension_method (ed_method e) then Inl (Type_Failure ''ACP extension method name is invalid.'')
      else if ed_direction e \<in> {Outbound_Request, Inbound_Request} \<and> ed_validate_result e = None then
        Inl (Type_Failure ''ACP request extension requires a result validator.'')
      else if registered entries (ed_direction e) (ed_method e) \<noteq> None then
        Inl (Type_Failure ''ACP extension registration is duplicated.'')
      else create_acp_extension_registry (entries @ [e]) es)"

definition extension_params :: "acp_extension list \<Rightarrow> extension_direction \<Rightarrow> code_text \<Rightarrow> acp_json option \<Rightarrow> acp_error + unit" where
  "extension_params es direction name v = (case registered es direction name of
       Some e \<Rightarrow> if ed_validate_params e v then Inr () else Inl (Protocol_Failure ''acp_extension_params_invalid'')
     | None \<Rightarrow> Inl (Protocol_Failure ''acp_extension_params_invalid''))"

definition extension_result :: "acp_extension list \<Rightarrow> extension_direction \<Rightarrow> code_text \<Rightarrow> acp_json \<Rightarrow> acp_error + unit" where
  "extension_result es direction name v =
     (case registered es direction name of
        Some e \<Rightarrow> (case ed_validate_result e of
            Some valid \<Rightarrow> if valid v then Inr () else Inl (Protocol_Failure ''acp_extension_result_invalid'')
          | None \<Rightarrow> Inl (Protocol_Failure ''acp_extension_result_invalid''))
      | None \<Rightarrow> Inl (Protocol_Failure ''acp_extension_result_invalid''))"

section \<open>The writer (messageWriter.ts)\<close>

text \<open>What waits for a write: nothing, an inbound id held back for an error answer, a running reverse request.\<close>

datatype write_purpose = Plain_Write | Reserved_Write code_text | Reverse_Write code_text

record message_writer =
  mw_disposed :: bool
  mw_queued_bytes :: int
  mw_queue :: "(bytes \<times> write_purpose) list"

definition new_writer :: message_writer where
  "new_writer = \<lparr>mw_disposed = False, mw_queued_bytes = 0, mw_queue = []\<rparr>"

definition writer_write :: "acp_limits \<Rightarrow> code_text \<Rightarrow> write_purpose \<Rightarrow> message_writer \<Rightarrow> acp_error + message_writer" where
  "writer_write lm t purpose w =
     (if mw_disposed w then Inl (Client_Failure ''acp_client_disposed'')
      else let frame = utf8_encode (t @ [10])
        in if al_max_outbound_frame_bytes lm < int (length frame) - 1 then Inl (Client_Failure ''acp_outbound_frame_too_large'')
           else if al_max_outbound_buffered_bytes lm < mw_queued_bytes w + int (length frame) then
             Inl (Client_Failure ''acp_outbound_buffer_limit_exceeded'')
           else Inr (w\<lparr>mw_queued_bytes := mw_queued_bytes w + int (length frame), mw_queue := mw_queue w @ [(frame, purpose)]\<rparr>))"

definition writer_settle :: "message_writer \<Rightarrow> message_writer" where
  "writer_settle w = (case mw_queue w of
       [] \<Rightarrow> w
     | (frame, purpose) # rest \<Rightarrow> w\<lparr>mw_queued_bytes := mw_queued_bytes w - int (length frame), mw_queue := rest\<rparr>)"

definition writer_dispose :: "message_writer \<Rightarrow> message_writer" where
  "writer_dispose w = w\<lparr>mw_disposed := True\<rparr>"

section \<open>Timing (clientState.ts)\<close>

record acp_request_options =
  ro_until_settled :: bool
  ro_timeout_ms :: "int option"
  ro_deadline_at :: "int option"
  ro_aborted :: bool

definition resolve_request_timeout :: "acp_limits \<Rightarrow> acp_request_options \<Rightarrow> int \<Rightarrow> acp_error + int option" where
  "resolve_request_timeout lm opts now =
     (if ro_until_settled opts then
        if ro_timeout_ms opts \<noteq> None \<or> ro_deadline_at opts \<noteq> None then
          Inl (Type_Failure ''Until-settled ACP requests cannot select finite timing.'')
        else Inr None
      else
        let requested = (case ro_timeout_ms opts of None \<Rightarrow> al_default_request_timeout_ms lm | Some t \<Rightarrow> t)
        in if \<not> safe_integer requested \<or> requested \<le> 0 \<or> al_max_request_timeout_ms lm < requested then
             Inl (Type_Failure ''ACP request timeout is outside the supported range.'')
           else (case ro_deadline_at opts of
               None \<Rightarrow> Inr (Some requested)
             | Some deadline \<Rightarrow> Inr (Some (min requested (deadline - now)))))"

definition is_critical_extension_method :: "code_text \<Rightarrow> bool" where
  "is_critical_extension_method name \<longleftrightarrow> take 1 name = [95] \<or> take 2 name = [36, 47]"

section \<open>The client (client.ts)\<close>

datatype protocol_side = Agent_Side | Client_Side | Protocol_Side
datatype message_kind = Request_Kind | Response_Kind | Notification_Kind

text \<open>
  What the client is made with.  The pinned schema (compiled by Ajv from files), the JSON texts and the
  registered handlers are parameters: which method the schema has, what it refuses, what
  \<open>JSON.parse\<close> and \<open>JSON.stringify\<close> give, and which methods have a handler.
\<close>

record acp_context =
  ax_limits :: acp_limits
  ax_id_prefix :: "code_text option"
  ax_standard_policy :: bool
  ax_extensions :: "acp_extension list"
  ax_has_method :: "protocol_side \<Rightarrow> code_text \<Rightarrow> message_kind \<Rightarrow> bool"
  ax_validate :: "protocol_side \<Rightarrow> code_text \<Rightarrow> message_kind \<Rightarrow> acp_json option \<Rightarrow> acp_error + unit"
  ax_parse :: "code_text \<Rightarrow> acp_json option"
  ax_text :: "acp_message \<Rightarrow> code_text"
  ax_reverse_handler :: "code_text \<Rightarrow> bool"
  ax_notification_handler :: "code_text \<Rightarrow> bool"

datatype client_phase = Client_Open | Client_Closing | Client_Closed
datatype close_kind = Close_Disposed | Close_Peer | Close_Fatal

record pending_request =
  pr_id :: acp_request_id
  pr_method :: code_text
  pr_extension :: bool

record reverse_request =
  rv_id :: acp_request_id
  rv_method :: code_text
  rv_extension :: bool
  rv_aborted :: bool
  rv_responding :: bool

datatype client_output =
    Requested acp_request_id
  | Resolved acp_request_id acp_json
  | Rejected acp_request_id acp_error
  | Reverse_Called acp_request_id code_text "acp_json option"
  | Notification_Called code_text "acp_json option"
  | Fatal_Reported acp_error

record acp_client =
  ac_phase :: client_phase
  ac_close :: "(close_kind \<times> acp_error option) option"
  ac_pending :: "(code_text \<times> pending_request) list"
  ac_active :: "(code_text \<times> reverse_request) list"
  ac_reserved :: "code_text list"
  ac_notifications :: nat
  ac_next_id :: int
  ac_window_start :: int
  ac_window_count :: int
  ac_writer :: message_writer
  ac_framer :: line_framer
  ac_log :: "client_output list"

text \<open>\<open>createAcpClient\<close>: the prefix of outbound ids must be a name that leaves room for its number.\<close>

definition valid_id_prefix :: "acp_limits \<Rightarrow> code_text \<Rightarrow> bool" where
  "valid_id_prefix lm p \<longleftrightarrow> p \<noteq> [] \<and> alphanumeric (hd p) \<and> \<not> (48 \<le> hd p \<and> hd p \<le> 57) \<and>
     list_all (\<lambda>c. alphanumeric c \<or> c \<in> {46, 95, 58, 45}) (tl p) \<and> int (byte_length p) \<le> al_max_request_id_bytes lm - 16"

definition create_acp_client :: "acp_context \<Rightarrow> int \<Rightarrow> acp_error + acp_client" where
  "create_acp_client ax now =
     (if (case ax_id_prefix ax of None \<Rightarrow> False | Some p \<Rightarrow> \<not> valid_id_prefix (ax_limits ax) p) then
        Inl (Type_Failure ''ACP outbound request ID prefix is invalid.'')
      else Inr \<lparr>ac_phase = Client_Open, ac_close = None, ac_pending = [], ac_active = [], ac_reserved = [],
        ac_notifications = 0, ac_next_id = 1, ac_window_start = now, ac_window_count = 0, ac_writer = new_writer,
        ac_framer = new_framer, ac_log = []\<rparr>)"

subsection \<open>Closing\<close>

definition close_error :: "acp_error option \<Rightarrow> acp_error" where
  "close_error e = (case e of None \<Rightarrow> Client_Failure ''acp_client_disposed'' | Some e' \<Rightarrow> e')"

definition acp_close :: "close_kind \<Rightarrow> acp_error option \<Rightarrow> acp_client \<Rightarrow> acp_client" where
  "acp_close kind e c =
     (if ac_close c \<noteq> None then c
      else c\<lparr>ac_phase := Client_Closing, ac_close := Some (kind, e), ac_framer := framer_dispose (ac_framer c),
        ac_pending := [], ac_active := map (\<lambda>(k, r). (k, r\<lparr>rv_aborted := True\<rparr>)) (ac_active c),
        ac_writer := writer_dispose (ac_writer c),
        ac_log := ac_log c @ map (\<lambda>(k, p). Rejected (pr_id p) (close_error e)) (ac_pending c) @
          (case (kind, e) of (Close_Fatal, Some e') \<Rightarrow> [Fatal_Reported e'] | _ \<Rightarrow> [])\<rparr>)"

definition acp_fatal :: "acp_error \<Rightarrow> acp_client \<Rightarrow> acp_client" where
  "acp_fatal e c = (if ac_phase c \<noteq> Client_Open then c else acp_close Close_Fatal (Some e) c)"

definition write_or_fail :: "acp_context \<Rightarrow> acp_message \<Rightarrow> write_purpose \<Rightarrow> acp_client \<Rightarrow> (acp_error + unit) \<times> acp_client" where
  "write_or_fail ax m purpose c =
     (case writer_write (ax_limits ax) (ax_text ax m) purpose (ac_writer c) of
        Inl e \<Rightarrow> (Inl e, acp_fatal e c)
      | Inr w \<Rightarrow> (Inr (), c\<lparr>ac_writer := w\<rparr>))"

text \<open>An error answer to an inbound request; its id stays reserved until the answer is written.\<close>

definition error_object :: "int \<Rightarrow> string \<Rightarrow> acp_error_object" where
  "error_object code m = \<lparr>eo_code = code, eo_message = ascii m, eo_data = None\<rparr>"

definition send_reserved_error_response :: "acp_context \<Rightarrow> code_text \<Rightarrow> acp_request_id \<Rightarrow> acp_error_object \<Rightarrow> acp_client \<Rightarrow> acp_client" where
  "send_reserved_error_response ax key rid eo c =
     (case write_or_fail ax (Error_Message rid eo) (Reserved_Write key) c of
        (Inl e, c') \<Rightarrow> c'
      | (Inr _, c') \<Rightarrow> c'\<lparr>ac_reserved := set_add key (ac_reserved c')\<rparr>)"

subsection \<open>Inbound frames\<close>

definition validate_response_result :: "acp_context \<Rightarrow> pending_request \<Rightarrow> acp_json \<Rightarrow> acp_error + unit" where
  "validate_response_result ax p v =
     (if pr_extension p then extension_result (ax_extensions ax) Outbound_Request (pr_method p) v
      else ax_validate ax Agent_Side (pr_method p) Response_Kind (Some v))"

definition drop_pending :: "code_text \<Rightarrow> acp_client \<Rightarrow> acp_client" where
  "drop_pending key c = c\<lparr>ac_pending := map_del key (ac_pending c)\<rparr>"

definition log_output :: "client_output \<Rightarrow> acp_client \<Rightarrow> acp_client" where
  "log_output out c = c\<lparr>ac_log := ac_log c @ [out]\<rparr>"

definition message_id :: "acp_message \<Rightarrow> acp_request_id option" where
  "message_id m = (case m of
       Request_Message rid name params \<Rightarrow> Some rid
     | Notification_Message name params \<Rightarrow> None
     | Result_Message rid v \<Rightarrow> Some rid
     | Error_Message rid eo \<Rightarrow> Some rid)"

definition handle_response :: "acp_context \<Rightarrow> acp_request_id \<Rightarrow> acp_error_object + acp_json \<Rightarrow> acp_client \<Rightarrow> acp_client" where
  "handle_response ax rid outcome c =
     (let key = acp_request_id_key rid
      in if key \<in> set (ac_reserved c) then acp_fatal (Protocol_Failure ''acp_request_id_direction_collision'') c
         else case map_of (ac_pending c) key of
             None \<Rightarrow> acp_fatal (Protocol_Failure ''acp_orphan_or_late_response'') c
           | Some entry \<Rightarrow>
               let c' = drop_pending key c
               in (case outcome of
                     Inl eo \<Rightarrow> log_output (Rejected (pr_id entry) (Remote_Failure rid (eo_code eo) (eo_message eo) (eo_data eo))) c'
                   | Inr v \<Rightarrow> (case validate_response_result ax entry v of
                         Inl e \<Rightarrow> acp_fatal e (log_output (Rejected (pr_id entry) e) c')
                       | Inr _ \<Rightarrow> log_output (Resolved (pr_id entry) v) c')))"

definition cancel_method :: code_text where "cancel_method = ascii ''$/cancel_request''"

text \<open>A cancellation aborts the reverse request it names, if it runs.\<close>

definition cancelled_id :: "acp_json option \<Rightarrow> acp_request_id option" where
  "cancelled_id params = (case params of
       Some (A_Obj kvs) \<Rightarrow> (case map_of kvs (ascii ''requestId'') of
           Some (A_Str t) \<Rightarrow> Some (Text_Id t)
         | Some (A_Num (Whole n)) \<Rightarrow> Some (Number_Id n)
         | _ \<Rightarrow> None)
     | _ \<Rightarrow> None)"

definition abort_reverse :: "code_text \<Rightarrow> acp_client \<Rightarrow> acp_client" where
  "abort_reverse key c = c\<lparr>ac_active := map (\<lambda>(k, r). (k, if k = key then r\<lparr>rv_aborted := True\<rparr> else r)) (ac_active c)\<rparr>"

definition handle_protocol_notification :: "acp_context \<Rightarrow> acp_json option \<Rightarrow> acp_client \<Rightarrow> acp_client" where
  "handle_protocol_notification ax params c =
     (if \<not> ax_has_method ax Protocol_Side cancel_method Notification_Kind then
        acp_fatal (Protocol_Failure ''acp_unstable_notification_denied'') c
      else case ax_validate ax Protocol_Side cancel_method Notification_Kind params of
          Inl e \<Rightarrow> acp_fatal e c
        | Inr _ \<Rightarrow> (case cancelled_id params of None \<Rightarrow> c | Some rid \<Rightarrow> abort_reverse (acp_request_id_key rid) c))"

definition account_notification :: "acp_limits \<Rightarrow> int \<Rightarrow> acp_client \<Rightarrow> acp_client" where
  "account_notification lm now c =
     (let c' = (if al_notification_window_ms lm \<le> now - ac_window_start c then
                  c\<lparr>ac_window_start := now, ac_window_count := 0\<rparr> else c)
      in c'\<lparr>ac_window_count := ac_window_count c' + 1\<rparr>)"

definition unknown_method_failure :: "code_text \<Rightarrow> string \<Rightarrow> acp_error" where
  "unknown_method_failure name otherwise =
     Protocol_Failure (if is_critical_extension_method name then ''acp_unknown_critical_extension'' else otherwise)"

text \<open>Whether a known notification may be ignored; an unknown one that the standard policy ignores is \<open>None\<close>.\<close>

definition admit_notification :: "acp_context \<Rightarrow> code_text \<Rightarrow> acp_json option \<Rightarrow> acp_error + bool option" where
  "admit_notification ax name params =
     (if ax_has_method ax Client_Side name Notification_Kind then
        and_then (ax_validate ax Client_Side name Notification_Kind params) (\<lambda>_. Inr (Some False))
      else case registered (ax_extensions ax) Inbound_Notification name of
          None \<Rightarrow> if ax_standard_policy ax \<and> take 1 name = [95] then Inr None
            else Inl (unknown_method_failure name ''acp_unsolicited_notification'')
        | Some e \<Rightarrow> and_then (extension_params (ax_extensions ax) Inbound_Notification name params) (\<lambda>_.
            Inr (Some (ed_safely_ignorable e))))"

definition handle_notification :: "acp_context \<Rightarrow> int \<Rightarrow> code_text \<Rightarrow> acp_json option \<Rightarrow> acp_client \<Rightarrow> acp_client" where
  "handle_notification ax now name params c0 =
     (let lm = ax_limits ax; c = account_notification lm now c0
      in if al_max_notifications_per_window lm < ac_window_count c then
           acp_fatal (Protocol_Failure ''acp_notification_rate_exceeded'') c
         else if name = cancel_method then handle_protocol_notification ax params c
         else case admit_notification ax name params of
             Inl e \<Rightarrow> acp_fatal e c
           | Inr None \<Rightarrow> c
           | Inr (Some safely_ignorable) \<Rightarrow>
               if \<not> ax_notification_handler ax name then
                 if safely_ignorable then c else acp_fatal (Protocol_Failure ''acp_notification_handler_missing'') c
               else if al_max_notification_handler_concurrency lm \<le> int (ac_notifications c) then
                 acp_fatal (Protocol_Failure ''acp_notification_concurrency_exceeded'') c
               else log_output (Notification_Called name params) (c\<lparr>ac_notifications := ac_notifications c + 1\<rparr>))"

text \<open>An inbound request: known to the schema, an extension, or unknown.\<close>

datatype request_admission = Known_Request bool | Unknown_Request

definition admit_request :: "acp_context \<Rightarrow> code_text \<Rightarrow> acp_json option \<Rightarrow> acp_error + request_admission" where
  "admit_request ax name params =
     (if ax_has_method ax Client_Side name Request_Kind then
        and_then (ax_validate ax Client_Side name Request_Kind params) (\<lambda>_. Inr (Known_Request False))
      else if registered (ax_extensions ax) Inbound_Request name \<noteq> None then
        and_then (extension_params (ax_extensions ax) Inbound_Request name params) (\<lambda>_. Inr (Known_Request True))
      else if ax_standard_policy ax \<and> take 1 name = [95] then Inr Unknown_Request
      else Inl (unknown_method_failure name ''acp_unsolicited_request''))"

definition handle_request :: "acp_context \<Rightarrow> acp_request_id \<Rightarrow> code_text \<Rightarrow> acp_json option \<Rightarrow> acp_client \<Rightarrow> acp_client" where
  "handle_request ax rid name params c =
     (let key = acp_request_id_key rid
      in if has_key (ac_pending c) key then acp_fatal (Protocol_Failure ''acp_request_id_direction_collision'') c
         else if key \<in> set (ac_reserved c) then acp_fatal (Protocol_Failure ''acp_duplicate_reverse_request_id'') c
         else case admit_request ax name params of
             Inl e \<Rightarrow> acp_fatal e c
           | Inr Unknown_Request \<Rightarrow> send_reserved_error_response ax key rid (error_object (- 32601) ''Method not found'') c
           | Inr (Known_Request extension) \<Rightarrow>
               if al_max_inbound_request_concurrency (ax_limits ax) \<le> int (length (ac_active c)) then
                 send_reserved_error_response ax key rid (error_object (- 32000) ''Inbound request limit reached'') c
               else if \<not> ax_reverse_handler ax name then
                 send_reserved_error_response ax key rid (error_object (- 32601) ''Method not found'') c
               else log_output (Reverse_Called rid name params)
                 (c\<lparr>ac_reserved := set_add key (ac_reserved c),
                   ac_active := map_set key \<lparr>rv_id = rid, rv_method = name, rv_extension = extension, rv_aborted = False,
                     rv_responding = False\<rparr> (ac_active c)\<rparr>))"

definition on_frame :: "acp_context \<Rightarrow> int \<Rightarrow> code_text \<Rightarrow> acp_client \<Rightarrow> acp_client" where
  "on_frame ax now frame c =
     (if ac_phase c \<noteq> Client_Open then c
      else case and_then (parse_bounded_acp_json (ax_parse ax) (ax_limits ax) frame) (parse_acp_message (ax_limits ax)) of
          Inl e \<Rightarrow> acp_fatal e c
        | Inr (Request_Message rid name params) \<Rightarrow> handle_request ax rid name params c
        | Inr (Notification_Message name params) \<Rightarrow> handle_notification ax now name params c
        | Inr (Result_Message rid v) \<Rightarrow> handle_response ax rid (Inr v) c
        | Inr (Error_Message rid eo) \<Rightarrow> handle_response ax rid (Inl eo) c)"

text \<open>A report of the framer ends the client; the framer it leaves is the one of the report.\<close>

definition framer_report :: "(line_framer \<times> framer_event) \<times> acp_client \<Rightarrow> acp_client" where
  "framer_report r = (case r of ((fr, event), c) \<Rightarrow>
     (let c' = c\<lparr>ac_framer := fr\<rparr>
      in case event of
           Framer_Quiet \<Rightarrow> c'
         | Framer_Fatal reason \<Rightarrow> acp_fatal (Protocol_Failure reason) c'
         | Framer_End \<Rightarrow> acp_close Close_Peer (Some (Client_Failure ''acp_peer_closed'')) c'))"

definition peer_data :: "acp_context \<Rightarrow> int \<Rightarrow> bytes \<Rightarrow> acp_client \<Rightarrow> acp_client" where
  "peer_data ax now chunk c =
     framer_report (framer_data (nat (al_max_inbound_frame_bytes (ax_limits ax)))
       (\<lambda>t c. let c' = on_frame ax now t c in (c', ac_phase c' \<noteq> Client_Open)) chunk (ac_framer c) c)"

definition peer_error :: "acp_client \<Rightarrow> acp_client" where
  "peer_error c = framer_report (framer_error (ac_framer c), c)"

definition peer_end :: "acp_client \<Rightarrow> acp_client" where
  "peer_end c = framer_report (framer_end (ac_framer c), c)"

subsection \<open>Handlers and writes that end\<close>

definition finish_reverse :: "code_text \<Rightarrow> acp_client \<Rightarrow> acp_client" where
  "finish_reverse key c = c\<lparr>ac_active := map_del key (ac_active c), ac_reserved := filter (\<lambda>k. k \<noteq> key) (ac_reserved c)\<rparr>"

definition respond_reverse :: "acp_context \<Rightarrow> code_text \<Rightarrow> reverse_request \<Rightarrow> acp_message \<Rightarrow> acp_client \<Rightarrow> acp_client" where
  "respond_reverse ax key r m c =
     (case write_or_fail ax m (Reverse_Write key) c of
        (Inl e, c') \<Rightarrow> finish_reverse key c'
      | (Inr _, c') \<Rightarrow> c'\<lparr>ac_active := map_set key (r\<lparr>rv_responding := True\<rparr>) (ac_active c')\<rparr>)"

text \<open>The handler of a reverse request returns a value, or throws an RPC error of its own or anything else.\<close>

datatype handler_outcome = Handler_Returned acp_json | Handler_Rpc_Error acp_error_object | Handler_Threw

definition reverse_failure :: "acp_context \<Rightarrow> code_text \<Rightarrow> reverse_request \<Rightarrow> acp_error_object \<Rightarrow> acp_client \<Rightarrow> acp_client" where
  "reverse_failure ax key r eo c =
     (if ac_phase c \<noteq> Client_Open then finish_reverse key c
      else case (case eo_data eo of None \<Rightarrow> Inr () | Some dat \<Rightarrow> assert_bounded_acp_json (ax_limits ax) dat) of
          Inl e \<Rightarrow> finish_reverse key (acp_fatal e c)
        | Inr _ \<Rightarrow> respond_reverse ax key r (Error_Message (rv_id r) eo) c)"

definition reverse_default_error :: "reverse_request \<Rightarrow> acp_error_object" where
  "reverse_default_error r = (if rv_aborted r then error_object (- 32800) ''Request cancelled''
     else error_object (- 32603) ''Internal error'')"

definition reverse_done :: "acp_context \<Rightarrow> code_text \<Rightarrow> handler_outcome \<Rightarrow> acp_client \<Rightarrow> acp_client" where
  "reverse_done ax key outcome c =
     (case map_of (ac_active c) key of
        None \<Rightarrow> c
      | Some r \<Rightarrow>
          if rv_responding r then c
          else case outcome of
              Handler_Rpc_Error eo \<Rightarrow> reverse_failure ax key r eo c
            | Handler_Threw \<Rightarrow> reverse_failure ax key r (reverse_default_error r) c
            | Handler_Returned v \<Rightarrow>
                (case and_then (assert_bounded_acp_json (ax_limits ax) v) (\<lambda>_.
                     if rv_extension r then extension_result (ax_extensions ax) Inbound_Request (rv_method r) v
                     else ax_validate ax Client_Side (rv_method r) Response_Kind (Some v)) of
                   Inl e \<Rightarrow> reverse_failure ax key r (reverse_default_error r) c
                 | Inr _ \<Rightarrow>
                     if ac_phase c \<noteq> Client_Open then finish_reverse key c
                     else respond_reverse ax key r (Result_Message (rv_id r) v) c))"

definition notification_done :: "acp_error option \<Rightarrow> acp_client \<Rightarrow> acp_client" where
  "notification_done e c =
     (let c' = (case e of None \<Rightarrow> c | Some e' \<Rightarrow> acp_fatal e' c) in c'\<lparr>ac_notifications := ac_notifications c' - 1\<rparr>)"

text \<open>The first write of the queue settles, well or with an error; then what waited for it goes on.\<close>

definition write_settled :: "acp_error option \<Rightarrow> acp_client \<Rightarrow> acp_client" where
  "write_settled e c =
     (case mw_queue (ac_writer c) of
        [] \<Rightarrow> c
      | (frame, purpose) # rest \<Rightarrow>
          let c1 = c\<lparr>ac_writer := writer_settle (ac_writer c)\<rparr>;
              c2 = (case e of None \<Rightarrow> c1 | Some e' \<Rightarrow> acp_fatal e' c1)
          in (case purpose of
                Plain_Write \<Rightarrow> c2
              | Reserved_Write key \<Rightarrow> c2\<lparr>ac_reserved := filter (\<lambda>k. k \<noteq> key) (ac_reserved c2)\<rparr>
              | Reverse_Write key \<Rightarrow> finish_reverse key c2))"

definition transport_closed :: "acp_client \<Rightarrow> acp_client" where
  "transport_closed c = (if ac_phase c = Client_Closing then c\<lparr>ac_phase := Client_Closed\<rparr> else c)"

subsection \<open>Operations of the application\<close>

definition next_request_number :: "int \<Rightarrow> int" where
  "next_request_number n = (if n = max_safe_integer then 1 else n + 1)"

definition candidate_id :: "acp_context \<Rightarrow> int \<Rightarrow> acp_request_id" where
  "candidate_id ax n = (case ax_id_prefix ax of
       None \<Rightarrow> Number_Id n
     | Some p \<Rightarrow> Text_Id (p @ ascii (int_string n)))"

fun allocate_request_id :: "acp_context \<Rightarrow> nat \<Rightarrow> acp_client \<Rightarrow> (acp_error + acp_request_id) \<times> acp_client" where
  "allocate_request_id ax 0 c = (Inl (Client_Failure ''acp_request_id_space_exhausted''), c)"
| "allocate_request_id ax (Suc attempts) c =
     (let candidate = candidate_id ax (ac_next_id c);
          c' = c\<lparr>ac_next_id := next_request_number (ac_next_id c)\<rparr>;
          key = acp_request_id_key candidate
      in if \<not> has_key (ac_pending c) key \<and> key \<notin> set (ac_reserved c) then (Inr candidate, c')
         else allocate_request_id ax attempts c')"

definition validate_outbound :: "acp_context \<Rightarrow> message_kind \<Rightarrow> code_text \<Rightarrow> acp_json \<Rightarrow> acp_error + bool" where
  "validate_outbound ax kind name params =
     and_then (assert_bounded_acp_json (ax_limits ax) params) (\<lambda>_.
       if ax_has_method ax Agent_Side name kind then
         and_then (ax_validate ax Agent_Side name kind (Some params)) (\<lambda>_. Inr False)
       else let direction = (if kind = Request_Kind then Outbound_Request else Outbound_Notification)
         in if registered (ax_extensions ax) direction name = None then
              Inl (Client_Failure ''acp_outbound_method_not_registered'')
            else and_then (extension_params (ax_extensions ax) direction name (Some params)) (\<lambda>_. Inr True))"

definition acp_request ::
    "acp_context \<Rightarrow> int \<Rightarrow> code_text \<Rightarrow> acp_json \<Rightarrow> acp_request_options \<Rightarrow> acp_client \<Rightarrow> (acp_error + acp_request_id) \<times> acp_client" where
  "acp_request ax now name params opts c =
     (if ac_phase c \<noteq> Client_Open then (Inl (Client_Failure ''acp_client_closed''), c)
      else if al_max_outstanding_requests (ax_limits ax) \<le> int (length (ac_pending c)) then
        (Inl (Client_Failure ''acp_outstanding_request_limit_exceeded''), c)
      else case and_then (validate_outbound ax Request_Kind name params) (\<lambda>extension.
             and_then (resolve_request_timeout (ax_limits ax) opts now) (\<lambda>timeout.
               if (case timeout of None \<Rightarrow> False | Some t \<Rightarrow> t \<le> 0) \<or> ro_aborted opts then
                 Inl (Request_Failure ''acp_request_aborted'' (Number_Id 0))
               else Inr extension)) of
          Inl e \<Rightarrow> (Inl e, c)
        | Inr extension \<Rightarrow>
            (case allocate_request_id ax (nat (al_max_outstanding_requests (ax_limits ax)) + 1) c of
               (Inl e, c') \<Rightarrow> (Inl e, c')
             | (Inr rid, c') \<Rightarrow>
                 let c2 = log_output (Requested rid) (c'\<lparr>ac_pending := map_set (acp_request_id_key rid)
                       \<lparr>pr_id = rid, pr_method = name, pr_extension = extension\<rparr> (ac_pending c')\<rparr>)
                 in (Inr rid, snd (write_or_fail ax (Request_Message rid name (Some params)) Plain_Write c2))))"

definition acp_notify :: "acp_context \<Rightarrow> code_text \<Rightarrow> acp_json \<Rightarrow> acp_client \<Rightarrow> (acp_error + unit) \<times> acp_client" where
  "acp_notify ax name params c =
     (if ac_phase c \<noteq> Client_Open then (Inl (Client_Failure ''acp_client_closed''), c)
      else case validate_outbound ax Notification_Kind name params of
          Inl e \<Rightarrow> (Inl e, c)
        | Inr _ \<Rightarrow> write_or_fail ax (Notification_Message name (Some params)) Plain_Write c)"

definition id_json :: "acp_request_id \<Rightarrow> acp_json" where
  "id_json rid = (case rid of Text_Id t \<Rightarrow> A_Str t | Number_Id n \<Rightarrow> A_Num (Whole n))"

definition send_cancellation :: "acp_context \<Rightarrow> acp_request_id \<Rightarrow> acp_client \<Rightarrow> acp_client" where
  "send_cancellation ax rid c =
     (if ac_phase c \<noteq> Client_Open \<or> \<not> ax_has_method ax Protocol_Side cancel_method Notification_Kind then c
      else let params = Some (A_Obj [(ascii ''requestId'', id_json rid)])
        in case ax_validate ax Protocol_Side cancel_method Notification_Kind params of
             Inl e \<Rightarrow> acp_fatal e c
           | Inr _ \<Rightarrow> snd (write_or_fail ax (Notification_Message cancel_method params) Plain_Write c))"

text \<open>A pending request is aborted by its signal, or its deadline passes.\<close>

definition request_expired :: "acp_context \<Rightarrow> bool \<Rightarrow> code_text \<Rightarrow> acp_client \<Rightarrow> acp_client" where
  "request_expired ax aborted key c =
     (case map_of (ac_pending c) key of
        None \<Rightarrow> c
      | Some entry \<Rightarrow>
          send_cancellation ax (pr_id entry)
            (log_output (Rejected (pr_id entry)
               (Request_Failure (if aborted then ''acp_request_aborted'' else ''acp_request_deadline_exceeded'') (pr_id entry)))
              (drop_pending key c)))"

definition acp_dispose :: "acp_client \<Rightarrow> acp_client" where
  "acp_dispose c = acp_close Close_Disposed None c"

text \<open>What can happen to a client.\<close>

inductive acp_step :: "acp_context \<Rightarrow> acp_client \<Rightarrow> acp_client \<Rightarrow> bool" for ax where
  step_request: "acp_step ax c (snd (acp_request ax now name params opts c))"
| step_notify: "acp_step ax c (snd (acp_notify ax name params c))"
| step_data: "acp_step ax c (peer_data ax now chunk c)"
| step_error: "acp_step ax c (peer_error c)"
| step_end: "acp_step ax c (peer_end c)"
| step_expired: "acp_step ax c (request_expired ax aborted key c)"
| step_reverse: "acp_step ax c (reverse_done ax key outcome c)"
| step_notification: "0 < ac_notifications c \<Longrightarrow> acp_step ax c (notification_done e c)"
| step_written: "acp_step ax c (write_settled e c)"
| step_dispose: "acp_step ax c (acp_dispose c)"
| step_closed: "acp_step ax c (transport_closed c)"

end
