(* ===== verification/Acp_Client_Safety.thy ===== *)
theory Acp_Client_Safety
  imports Acp_Client
begin

text \<open>
  The invariant of the client: ids in the two directions never meet, everything held is within its
  limit, the writer's count is that of its queue, and every request of the application is pending or
  has been settled, exactly once.
\<close>

section \<open>The invariant\<close>

definition reserved_writes :: "message_writer \<Rightarrow> code_text list" where
  "reserved_writes w = concat (map (\<lambda>(frame, purpose). case purpose of Reserved_Write k \<Rightarrow> [k] | _ \<Rightarrow> []) (mw_queue w))"

definition reverse_writes :: "message_writer \<Rightarrow> code_text list" where
  "reverse_writes w = concat (map (\<lambda>(frame, purpose). case purpose of Reverse_Write k \<Rightarrow> [k] | _ \<Rightarrow> []) (mw_queue w))"

definition queue_bytes :: "message_writer \<Rightarrow> int" where
  "queue_bytes w = sum_list (map (\<lambda>(frame, purpose). int (length frame)) (mw_queue w))"

definition phase_ok :: "acp_client \<Rightarrow> bool" where
  "phase_ok c \<longleftrightarrow> (ac_phase c = Client_Open \<longleftrightarrow> ac_close c = None) \<and> (ac_phase c \<noteq> Client_Open \<longrightarrow> ac_pending c = [])"

definition ids_apart ::
    "(code_text \<times> pending_request) list \<Rightarrow> (code_text \<times> reverse_request) list \<Rightarrow> code_text list \<Rightarrow> code_text list \<Rightarrow>
     code_text list \<Rightarrow> bool" where
  "ids_apart pending active reserved held responses \<longleftrightarrow>
     distinct (map fst pending) \<and> (\<forall>(k, p) \<in> set pending. k = acp_request_id_key (pr_id p)) \<and>
     fst ` set pending \<inter> set reserved = {} \<and> distinct (map fst active @ held) \<and>
     set reserved = fst ` set active \<union> set held \<and> distinct responses \<and>
     (\<forall>k \<in> set responses. \<exists>r. map_of active k = Some r \<and> rv_responding r)"

definition ids_ok :: "acp_client \<Rightarrow> bool" where
  "ids_ok c \<longleftrightarrow> ids_apart (ac_pending c) (ac_active c) (ac_reserved c) (reserved_writes (ac_writer c)) (reverse_writes (ac_writer c))"

definition bounds_ok :: "acp_limits \<Rightarrow> acp_client \<Rightarrow> bool" where
  "bounds_ok lm c \<longleftrightarrow> int (length (ac_pending c)) \<le> al_max_outstanding_requests lm \<and>
     int (length (ac_active c)) \<le> al_max_inbound_request_concurrency lm \<and>
     int (ac_notifications c) \<le> al_max_notification_handler_concurrency lm \<and>
     (ac_phase c = Client_Open \<longrightarrow> 0 \<le> ac_window_count c \<and> ac_window_count c \<le> al_max_notifications_per_window lm) \<and>
     mw_queued_bytes (ac_writer c) = queue_bytes (ac_writer c) \<and>
     mw_queued_bytes (ac_writer c) \<le> al_max_outbound_buffered_bytes lm"

definition settles :: "acp_request_id \<Rightarrow> client_output \<Rightarrow> bool" where
  "settles rid out \<longleftrightarrow> (case out of Resolved i v \<Rightarrow> i = rid | Rejected i e \<Rightarrow> i = rid | _ \<Rightarrow> False)"

definition occurrences :: "('a \<Rightarrow> bool) \<Rightarrow> 'a list \<Rightarrow> nat" where
  "occurrences P xs = length (filter P xs)"

definition settled_ok :: "acp_client \<Rightarrow> bool" where
  "settled_ok c \<longleftrightarrow> (\<forall>rid. occurrences (\<lambda>out. out = Requested rid) (ac_log c) =
     occurrences (settles rid) (ac_log c) + occurrences (\<lambda>(k, p). pr_id p = rid) (ac_pending c))"

definition client_ok :: "acp_limits \<Rightarrow> acp_client \<Rightarrow> bool" where
  "client_ok lm c \<longleftrightarrow> phase_ok c \<and> ids_ok c \<and> bounds_ok lm c \<and> settled_ok c"

lemma occurrences_simps [simp]:
  "occurrences P [] = 0" "occurrences P (x # xs) = (if P x then Suc (occurrences P xs) else occurrences P xs)"
  "occurrences P (xs @ ys) = occurrences P xs + occurrences P ys"
  by (simp_all add: occurrences_def)

text \<open>Fields the invariant does not look at.\<close>

lemma client_ok_framer [simp]: "client_ok lm (c\<lparr>ac_framer := fr\<rparr>) = client_ok lm c"
  by (simp add: client_ok_def phase_ok_def ids_ok_def bounds_ok_def settled_ok_def)

lemma client_ok_next_id [simp]: "client_ok lm (c\<lparr>ac_next_id := n\<rparr>) = client_ok lm c"
  by (simp add: client_ok_def phase_ok_def ids_ok_def bounds_ok_def settled_ok_def)

lemma client_ok_log: "(\<And>rid. out \<noteq> Requested rid \<and> \<not> settles rid out) \<Longrightarrow> client_ok lm (log_output out c) = client_ok lm c"
  by (simp add: client_ok_def phase_ok_def ids_ok_def bounds_ok_def settled_ok_def log_output_def)

section \<open>Closing and writing\<close>

lemma occurrences_rejected:
  "occurrences (settles rid) (map (\<lambda>(k, p). Rejected (pr_id p) e) pending) = occurrences (\<lambda>(k, p). pr_id p = rid) pending"
  by (induction pending) (auto simp: settles_def)

lemma occurrences_not_requested: "occurrences (\<lambda>out. out = Requested rid) (map (\<lambda>(k, p). Rejected (pr_id p) e) pending) = 0"
  by (induction pending) auto

lemma map_of_map_snd: "map_of (map (\<lambda>(k, r). (k, f k r)) xs) k = map_option (f k) (map_of xs k)"
  by (induction xs) auto

lemma ids_apartD:
  assumes "ids_apart pending active reserved held responses"
  shows "distinct (map fst pending)" "\<forall>(k, p) \<in> set pending. k = acp_request_id_key (pr_id p)"
    "fst ` set pending \<inter> set reserved = {}" "distinct (map fst active)" "distinct held"
    "fst ` set active \<inter> set held = {}" "set reserved = fst ` set active \<union> set held" "distinct responses"
    "\<forall>k \<in> set responses. \<exists>r. map_of active k = Some r \<and> rv_responding r"
  using assms unfolding ids_apart_def distinct_append set_map by - (elim conjE, assumption)+

lemma ids_apartI:
  assumes "distinct (map fst pending)" "\<forall>(k, p) \<in> set pending. k = acp_request_id_key (pr_id p)"
    "fst ` set pending \<inter> set reserved = {}" "distinct (map fst active)" "distinct held"
    "fst ` set active \<inter> set held = {}" "set reserved = fst ` set active \<union> set held" "distinct responses"
    "\<forall>k \<in> set responses. \<exists>r. map_of active k = Some r \<and> rv_responding r"
  shows "ids_apart pending active reserved held responses"
  unfolding ids_apart_def distinct_append set_map by (intro conjI assms)

lemma ids_apart_mark:
  assumes ids: "ids_apart pending active reserved held responses" and same: "\<And>k r. rv_responding (f k r) = rv_responding r"
  shows "ids_apart pending (map (\<lambda>(k, r). (k, f k r)) active) reserved held responses"
proof -
  have keys: "map fst (map (\<lambda>(k, r). (k, f k r)) active) = map fst active" by (induction active) auto
  have key_set: "fst ` set (map (\<lambda>(k, r). (k, f k r)) active) = fst ` set active" by (metis keys set_map)
  show ?thesis
  proof (rule ids_apartI)
    show "\<forall>k \<in> set responses. \<exists>r. map_of (map (\<lambda>(k, r). (k, f k r)) active) k = Some r \<and> rv_responding r"
      using ids_apartD(9) [OF ids] same unfolding map_of_map_snd by fastforce
    show "distinct (map fst (map (\<lambda>(k, r). (k, f k r)) active))" using ids_apartD(4) [OF ids] unfolding keys .
    show "fst ` set (map (\<lambda>(k, r). (k, f k r)) active) \<inter> set held = {}" using ids_apartD(6) [OF ids] unfolding key_set .
    show "set reserved = fst ` set (map (\<lambda>(k, r). (k, f k r)) active) \<union> set held" using ids_apartD(7) [OF ids] unfolding key_set .
  qed (rule ids_apartD [OF ids])+
qed

lemma ids_apart_no_pending:
  assumes ids: "ids_apart pending active reserved held responses"
  shows "ids_apart [] active reserved held responses"
  by (intro ids_apartI; (rule ids_apartD [OF ids])?) simp_all

lemma acp_close_ok:
  assumes "client_ok lm c"
  shows "client_ok lm (acp_close kind e c)"
proof (cases "ac_close c")
  case None
  have report: "occurrences (settles rid) (case (kind, e) of (Close_Fatal, Some e') \<Rightarrow> [Fatal_Reported e'] | _ \<Rightarrow> []) = 0"
    "occurrences (\<lambda>out. out = Requested rid) (case (kind, e) of (Close_Fatal, Some e') \<Rightarrow> [Fatal_Reported e'] | _ \<Rightarrow> []) = 0" for rid
    by (auto simp: settles_def split: close_kind.splits option.splits)
  have writes: "reserved_writes (writer_dispose w) = reserved_writes w" "reverse_writes (writer_dispose w) = reverse_writes w"
    "queue_bytes (writer_dispose w) = queue_bytes w" for w
    by (simp_all add: writer_dispose_def reserved_writes_def reverse_writes_def queue_bytes_def)
  have "settled_ok (acp_close kind e c)"
    using assms None report by (simp add: client_ok_def settled_ok_def acp_close_def occurrences_rejected occurrences_not_requested)
  moreover have "ids_ok (acp_close kind e c)"
    using None ids_apart_mark [OF ids_apart_no_pending, of "ac_pending c" "ac_active c" "ac_reserved c"
        "reserved_writes (ac_writer c)" "reverse_writes (ac_writer c)" "\<lambda>k r. r\<lparr>rv_aborted := True\<rparr>"] assms
    by (auto simp: client_ok_def ids_ok_def acp_close_def writes)
  moreover have "bounds_ok lm (acp_close kind e c)"
    using assms None by (auto simp: client_ok_def bounds_ok_def acp_close_def writes) (simp_all add: writer_dispose_def)
  ultimately show ?thesis
    using None by (simp add: client_ok_def phase_ok_def acp_close_def)
qed (simp add: acp_close_def assms)

lemma acp_fatal_ok: "client_ok lm c \<Longrightarrow> client_ok lm (acp_fatal e c)"
  by (simp add: acp_fatal_def acp_close_ok)

lemma acp_fatal_active:
  assumes "map_of (ac_active c) key = Some r" "\<not> rv_responding r"
  obtains r' where "map_of (ac_active (acp_fatal e c)) key = Some r'" "\<not> rv_responding r'"
proof (cases "ac_phase c = Client_Open \<and> ac_close c = None")
  case True
  have "map_of (ac_active (acp_fatal e c)) key = Some (r\<lparr>rv_aborted := True\<rparr>)"
    using True assms(1) map_of_map_snd [of "\<lambda>k r. r\<lparr>rv_aborted := True\<rparr>" "ac_active c" key]
    by (simp add: acp_fatal_def acp_close_def)
  then show ?thesis using that assms(2) by simp
next
  case False
  then have "acp_fatal e c = c" by (auto simp: acp_fatal_def acp_close_def)
  then show ?thesis using that assms by simp
qed

lemma writer_write_result:
  assumes "writer_write lm t purpose w = Inr w'"
  shows "mw_disposed w' = mw_disposed w" "mw_queue w' = mw_queue w @ [(utf8_encode (t @ [10]), purpose)]"
    "mw_queued_bytes w' = mw_queued_bytes w + int (length (utf8_encode (t @ [10])))"
    "mw_queued_bytes w' \<le> al_max_outbound_buffered_bytes lm"
  using assms by (auto simp: writer_write_def Let_def split: if_splits)

lemma writes_append:
  assumes "mw_queue w' = mw_queue w @ [(frame, purpose)]"
  shows "reserved_writes w' = reserved_writes w @ (case purpose of Reserved_Write k \<Rightarrow> [k] | _ \<Rightarrow> [])"
    "reverse_writes w' = reverse_writes w @ (case purpose of Reverse_Write k \<Rightarrow> [k] | _ \<Rightarrow> [])"
    "queue_bytes w' = queue_bytes w + int (length frame)"
  using assms by (simp_all add: reserved_writes_def reverse_writes_def queue_bytes_def)

lemma plain_write_ok:
  assumes "client_ok lm c" "lm = ax_limits ax"
  shows "client_ok lm (snd (write_or_fail ax m Plain_Write c))"
proof (cases "writer_write lm (ax_text ax m) Plain_Write (ac_writer c)")
  case (Inl e)
  then show ?thesis using assms by (simp add: write_or_fail_def acp_fatal_ok)
next
  case (Inr w)
  note written = writer_write_result [OF Inr]
  then show ?thesis using assms Inr writes_append [OF written(2)]
    by (simp add: write_or_fail_def client_ok_def phase_ok_def ids_ok_def bounds_ok_def settled_ok_def)
qed

lemma map_del_subset: "set (map_del key m) \<subseteq> set m" "length (map_del key m) \<le> length m"
  by (auto simp: map_del_def)

lemma keys_map_del: "fst ` set (map_del key m) = fst ` set m - {key}"
  by (auto simp: map_del_def)

lemma set_set_add [simp]: "set (set_add k ks) = insert k (set ks)"
  by (auto simp: set_add_def)

lemma ids_apart_hold:
  assumes ids: "ids_apart pending active reserved held responses" and key: "key \<notin> set reserved" "key \<notin> fst ` set pending"
  shows "ids_apart pending active (set_add key reserved) (held @ [key]) responses"
  by (rule ids_apartI) (use ids_apartD [OF ids] key in simp_all)

lemma ids_apart_drop:
  assumes ids: "ids_apart pending active reserved held responses"
  shows "ids_apart (map_del key pending) active reserved held responses"
proof (rule ids_apartI)
  show "\<forall>(k, p) \<in> set (map_del key pending). k = acp_request_id_key (pr_id p)"
    using ids_apartD(2) [OF ids] map_del_subset(1) by fast
  show "fst ` set (map_del key pending) \<inter> set reserved = {}"
    using ids_apartD(3) [OF ids] unfolding keys_map_del by blast
qed (use ids_apartD [OF ids] in simp_all)

lemma ids_apart_start:
  assumes ids: "ids_apart pending active reserved held responses" and key: "key \<notin> set reserved" "key \<notin> fst ` set pending"
  shows "ids_apart pending (active @ [(key, r)]) (set_add key reserved) held responses"
proof (rule ids_apartI)
  show "\<forall>k \<in> set responses. \<exists>r'. map_of (active @ [(key, r)]) k = Some r' \<and> rv_responding r'"
    using ids_apartD(9) [OF ids] by (fastforce simp: map_add_def)
qed (use ids_apartD(1-8) [OF ids] key in simp_all)

lemma send_reserved_ok:
  assumes ok: "client_ok lm c" "lm = ax_limits ax" and key: "key \<notin> set (ac_reserved c)" "\<not> has_key (ac_pending c) key"
  shows "client_ok lm (send_reserved_error_response ax key rid eo c)"
proof (cases "writer_write lm (ax_text ax (Error_Message rid eo)) (Reserved_Write key) (ac_writer c)")
  case (Inl e)
  then show ?thesis using ok by (simp add: send_reserved_error_response_def write_or_fail_def acp_fatal_ok)
next
  case (Inr w)
  note written = writer_write_result [OF Inr]
  have "key \<notin> fst ` set (ac_pending c)" using key(2) by (simp add: has_key_iff)
  then show ?thesis using ok Inr written writes_append [OF written(2)] ids_apart_hold [OF _ key(1)]
    by (simp add: send_reserved_error_response_def write_or_fail_def client_ok_def phase_ok_def ids_ok_def bounds_ok_def settled_ok_def)
qed

section \<open>Frames\<close>

lemma drop_entry_occurrences:
  assumes "distinct (map fst pending)" "map_of pending key = Some entry"
  shows "occurrences (\<lambda>(k, p). pr_id p = rid) pending =
    occurrences (\<lambda>(k, p). pr_id p = rid) (map_del key pending) + (if pr_id entry = rid then 1 else 0)"
  using assms
proof (induction pending)
  case (Cons kp pending)
  obtain k p where kp: "kp = (k, p)" by (cases kp)
  show ?case
  proof (cases "k = key")
    case True
    then have "key \<notin> fst ` set pending" using Cons.prems(1) kp by simp
    then have "map_del key pending = pending" by (force simp: map_del_def filter_id_conv)
    then show ?thesis using Cons.prems(2) kp True by (simp add: map_del_def)
  next
    case False
    then show ?thesis using Cons kp by (simp add: map_del_def)
  qed
qed simp

text \<open>A pending request is settled.\<close>

lemma settle_pending_ok:
  assumes ok: "client_ok lm c" and entry: "map_of (ac_pending c) key = Some entry"
    and out: "\<And>rid. settles rid out = (rid = pr_id entry)" "\<And>rid. out \<noteq> Requested rid"
  shows "client_ok lm (log_output out (drop_pending key c))"
proof -
  have "ac_pending c \<noteq> []" using entry by auto
  then have open': "ac_phase c = Client_Open" using ok by (auto simp: client_ok_def phase_ok_def)
  have distinct: "distinct (map fst (ac_pending c))" using ok by (simp add: client_ok_def ids_ok_def ids_apart_def)
  have "settled_ok (log_output out (drop_pending key c))"
    using ok drop_entry_occurrences [OF distinct entry] out
    by (auto simp: client_ok_def settled_ok_def log_output_def drop_pending_def)
  then show ?thesis
    using ok open' map_del_subset(2) [of key "ac_pending c"] ids_apart_drop
    by (simp add: client_ok_def phase_ok_def ids_ok_def bounds_ok_def log_output_def drop_pending_def)
qed

lemma handle_response_ok:
  assumes "client_ok lm c"
  shows "client_ok lm (handle_response ax rid outcome c)"
proof (cases "acp_request_id_key rid \<in> set (ac_reserved c)")
  case True
  then show ?thesis using assms by (simp add: handle_response_def Let_def acp_fatal_ok)
next
  case False
  show ?thesis
  proof (cases "map_of (ac_pending c) (acp_request_id_key rid)")
    case None
    then show ?thesis using assms False by (simp add: handle_response_def Let_def acp_fatal_ok)
  next
    case (Some entry)
    have "client_ok lm (log_output (Rejected (pr_id entry) e) (drop_pending (acp_request_id_key rid) c))"
      "client_ok lm (log_output (Resolved (pr_id entry) v) (drop_pending (acp_request_id_key rid) c))" for e v
      by (rule settle_pending_ok [OF assms Some]; auto simp: settles_def)+
    then show ?thesis using False Some
      by (auto simp: handle_response_def Let_def acp_fatal_ok split: sum.splits)
  qed
qed

lemma abort_reverse_ok:
  assumes "client_ok lm c"
  shows "client_ok lm (abort_reverse key c)"
  using assms ids_apart_mark [of _ "ac_active c" _ _ _ "\<lambda>k r. if k = key then r\<lparr>rv_aborted := True\<rparr> else r"]
  by (simp add: client_ok_def phase_ok_def ids_ok_def bounds_ok_def settled_ok_def abort_reverse_def)

lemma handle_protocol_notification_ok: "client_ok lm c \<Longrightarrow> client_ok lm (handle_protocol_notification ax params c)"
  by (auto simp: handle_protocol_notification_def acp_fatal_ok abort_reverse_ok split: sum.splits option.splits)

text \<open>The counting of a notification leaves the invariant, unless the window overflows; then the client closes.\<close>

lemma account_notification_ok:
  assumes "client_ok lm c" "ac_window_count (account_notification lm now c) \<le> al_max_notifications_per_window lm"
  shows "client_ok lm (account_notification lm now c)"
  using assms
  by (auto simp: account_notification_def Let_def client_ok_def phase_ok_def ids_ok_def bounds_ok_def settled_ok_def split: if_splits)

lemma account_overflow_closed:
  assumes "client_ok lm c" "ac_phase c = Client_Open"
  shows "client_ok lm (acp_fatal e (account_notification lm now c))"
proof -
  have open': "ac_close c = None" using assms by (simp add: client_ok_def phase_ok_def)
  have "client_ok lm (acp_fatal e (c\<lparr>ac_window_start := s, ac_window_count := n\<rparr>))" for s n
    using acp_close_ok [OF assms(1), of Close_Fatal "Some e"] assms(2) open'
    by (simp add: acp_fatal_def acp_close_def client_ok_def phase_ok_def ids_ok_def bounds_ok_def settled_ok_def)
  moreover have "\<exists>s n. account_notification lm now c = c\<lparr>ac_window_start := s, ac_window_count := n\<rparr>"
  proof (cases "al_notification_window_ms lm \<le> now - ac_window_start c")
    case True
    then show ?thesis by (auto simp: account_notification_def)
  next
    case False
    then have "account_notification lm now c = c\<lparr>ac_window_start := ac_window_start c, ac_window_count := ac_window_count c + 1\<rparr>"
      by (simp add: account_notification_def)
    then show ?thesis by blast
  qed
  ultimately show ?thesis by auto
qed

lemma call_notification_ok:
  assumes "client_ok lm c" "\<not> al_max_notification_handler_concurrency lm \<le> int (ac_notifications c)"
  shows "client_ok lm (log_output (Notification_Called name params) (c\<lparr>ac_notifications := Suc (ac_notifications c)\<rparr>))"
  using assms
  by (subst client_ok_log) (auto simp: settles_def client_ok_def phase_ok_def ids_ok_def bounds_ok_def settled_ok_def)

lemma handle_notification_ok:
  assumes "client_ok lm c" "lm = ax_limits ax" "ac_phase c = Client_Open"
  shows "client_ok lm (handle_notification ax now name params c)"
proof (cases "al_max_notifications_per_window lm < ac_window_count (account_notification lm now c)")
  case True
  then show ?thesis using account_overflow_closed [OF assms(1,3)] assms(2) by (simp add: handle_notification_def Let_def)
next
  case False
  let ?c = "account_notification lm now c"
  have ok: "client_ok lm ?c" using account_notification_ok [OF assms(1)] False by simp
  have result: "handle_notification ax now name params c =
      (if name = cancel_method then handle_protocol_notification ax params ?c
       else case admit_notification ax name params of
           Inl e \<Rightarrow> acp_fatal e ?c
         | Inr None \<Rightarrow> ?c
         | Inr (Some safely_ignorable) \<Rightarrow>
             if \<not> ax_notification_handler ax name then
               if safely_ignorable then ?c else acp_fatal (Protocol_Failure ''acp_notification_handler_missing'') ?c
             else if al_max_notification_handler_concurrency lm \<le> int (ac_notifications ?c) then
               acp_fatal (Protocol_Failure ''acp_notification_concurrency_exceeded'') ?c
             else log_output (Notification_Called name params) (?c\<lparr>ac_notifications := ac_notifications ?c + 1\<rparr>))"
    unfolding handle_notification_def Let_def assms(2) [symmetric] by (simp only: False if_False)
  show ?thesis unfolding result
    by (cases "admit_notification ax name params")
      (simp_all add: ok acp_fatal_ok handle_protocol_notification_ok call_notification_ok split: option.split)
qed

lemma start_reverse_ok:
  assumes ok: "client_ok lm c" and key: "key \<notin> set (ac_reserved c)" "\<not> has_key (ac_pending c) key"
    and room: "int (length (ac_active c)) < al_max_inbound_request_concurrency lm"
  shows "client_ok lm (log_output (Reverse_Called rid name params)
    (c\<lparr>ac_reserved := set_add key (ac_reserved c), ac_active := map_set key r (ac_active c)\<rparr>))"
proof -
  have new: "key \<notin> fst ` set (ac_active c)" "key \<notin> fst ` set (ac_pending c)"
    using ok key by (auto simp: client_ok_def ids_ok_def ids_apart_def has_key_iff)
  then have "map_of (ac_active c) key = None" by (simp add: map_of_eq_None_iff)
  then have active: "map_set key r (ac_active c) = ac_active c @ [(key, r)]" by (rule map_set_absent)
  show ?thesis
    using ok room active ids_apart_start [OF _ key(1) new(2)]
    by (subst client_ok_log) (simp_all add: settles_def client_ok_def phase_ok_def ids_ok_def bounds_ok_def settled_ok_def)
qed

lemma handle_request_ok:
  assumes "client_ok lm c" "lm = ax_limits ax"
  shows "client_ok lm (handle_request ax rid name params c)"
proof -
  let ?key = "acp_request_id_key rid"
  show ?thesis
  proof (cases "has_key (ac_pending c) ?key \<or> ?key \<in> set (ac_reserved c)")
    case True
    then show ?thesis using assms by (auto simp: handle_request_def Let_def acp_fatal_ok)
  next
    case False
    note send = send_reserved_ok [OF assms, of ?key]
    have run: "client_ok lm (log_output (Reverse_Called rid name params)
        (c\<lparr>ac_reserved := set_add ?key (ac_reserved c), ac_active := map_set ?key r (ac_active c)\<rparr>))"
      if "\<not> al_max_inbound_request_concurrency lm \<le> int (length (ac_active c))" for r
      using start_reverse_ok [OF assms(1)] False that by simp
    have "client_ok (ax_limits ax) (acp_fatal e c)" for e using acp_fatal_ok assms by simp
    then show ?thesis using False send run assms(2)
      by (auto simp: handle_request_def Let_def split: sum.splits request_admission.splits)
  qed
qed

lemma on_frame_ok:
  assumes "client_ok lm c" "lm = ax_limits ax"
  shows "client_ok lm (on_frame ax now frame c)"
proof (cases "ac_phase c = Client_Open")
  case True
  have ok: "client_ok (ax_limits ax) c" using assms by simp
  show ?thesis using True
    unfolding on_frame_def assms(2)
    by (simp add: acp_fatal_ok [OF ok] handle_request_ok [OF ok refl] handle_notification_ok [OF ok refl True]
        handle_response_ok [OF ok] split: sum.split acp_message.split)
qed (use assms in \<open>simp add: on_frame_def\<close>)

section \<open>The streams\<close>

lemma frame_loop_invariant:
  assumes "\<And>t s. P s \<Longrightarrow> P (fst (handle t s))"
  shows "P s \<Longrightarrow> P (snd (frame_loop maximum handle buffered s))"
proof (induction "length buffered" arbitrary: buffered s rule: less_induct)
  case less
  show ?case
  proof (cases "cut_line buffered")
    case None
    then show ?thesis using less.prems by (simp add: frame_loop.simps [of maximum handle buffered s])
  next
    case (Some lr)
    obtain l rest where lr: "lr = (l, rest)" by (cases lr)
    have shorter: "length rest < length buffered" using cut_line_SomeD [of buffered l rest] Some lr by simp
    show ?thesis
    proof (cases "decode_frame (strip_return l)")
      case None
      then show ?thesis using less.prems Some lr by (simp add: frame_loop.simps [of maximum handle buffered s] Let_def)
    next
      case (Some t)
      obtain s' disposed where s': "handle t s = (s', disposed)" by (cases "handle t s")
      then have "P s'" using assms [OF less.prems, of t] by simp
      then have "P (snd (frame_loop maximum handle rest s'))" using less.hyps shorter by blast
      then show ?thesis using less.prems \<open>cut_line buffered = Some lr\<close> lr Some s' \<open>P s'\<close>
        by (simp add: frame_loop.simps [of maximum handle buffered s] Let_def)
    qed
  qed
qed

lemma framer_data_invariant:
  assumes "\<And>t s. P s \<Longrightarrow> P (fst (handle t s))" "P s"
  shows "P (snd (framer_data maximum handle chunk fr s))"
  using frame_loop_invariant [of P handle, OF assms] assms(2) by (simp add: framer_data_def)

lemma framer_report_ok:
  assumes "client_ok lm (snd r)"
  shows "client_ok lm (framer_report r)"
proof -
  obtain fr event c where r: "r = ((fr, event), c)" by (metis prod.collapse)
  have "client_ok lm (c\<lparr>ac_framer := fr\<rparr>)" using assms r by simp
  then show ?thesis using r acp_fatal_ok acp_close_ok by (cases event) (simp_all add: framer_report_def)
qed

lemma peer_data_ok:
  assumes "client_ok lm c" "lm = ax_limits ax"
  shows "client_ok lm (peer_data ax now chunk c)"
  unfolding peer_data_def
  by (rule framer_report_ok, rule framer_data_invariant) (use assms in \<open>simp_all add: on_frame_ok Let_def\<close>)

section \<open>Handlers and writes that end\<close>

lemma finish_reverse_ok:
  assumes ok: "client_ok lm c" and key: "map_of (ac_active c) key = Some r" "\<not> rv_responding r"
  shows "client_ok lm (finish_reverse key c)"
proof -
  have ids: "ids_apart (ac_pending c) (ac_active c) (ac_reserved c) (reserved_writes (ac_writer c)) (reverse_writes (ac_writer c))"
    using ok by (simp add: client_ok_def ids_ok_def)
  have "ids_apart (ac_pending c) (map_del key (ac_active c)) (filter (\<lambda>k. k \<noteq> key) (ac_reserved c))
      (reserved_writes (ac_writer c)) (reverse_writes (ac_writer c))"
  proof (rule ids_apartI)
    have "key \<in> fst ` set (ac_active c)" using key(1) by (metis map_of_SomeD fst_conv image_eqI)
    then have "key \<notin> set (reserved_writes (ac_writer c))" using ids_apartD(6) [OF ids] by blast
    then show "set (filter (\<lambda>k. k \<noteq> key) (ac_reserved c)) = fst ` set (map_del key (ac_active c)) \<union> set (reserved_writes (ac_writer c))"
      using ids_apartD(7) [OF ids] by (auto simp: keys_map_del)
    show "\<forall>k \<in> set (reverse_writes (ac_writer c)). \<exists>r. map_of (map_del key (ac_active c)) k = Some r \<and> rv_responding r"
      using ids_apartD(9) [OF ids] key by force
    show "fst ` set (map_del key (ac_active c)) \<inter> set (reserved_writes (ac_writer c)) = {}"
      using ids_apartD(6) [OF ids] unfolding keys_map_del by blast
  qed (use ids_apartD(1-8) [OF ids] in auto)
  then show ?thesis using ok map_del_subset(2) [of key "ac_active c"]
    by (simp add: client_ok_def phase_ok_def ids_ok_def bounds_ok_def settled_ok_def finish_reverse_def)
qed

text \<open>A response is queued for a running reverse request.\<close>

lemma respond_reverse_ok:
  assumes ok: "client_ok lm c" "lm = ax_limits ax" and key: "map_of (ac_active c) key = Some r" "\<not> rv_responding r"
  shows "client_ok lm (respond_reverse ax key r m c)"
proof (cases "writer_write lm (ax_text ax m) (Reverse_Write key) (ac_writer c)")
  case (Inl e)
  let ?c = "acp_fatal e c"
  obtain r' where "map_of (ac_active ?c) key = Some r'" "\<not> rv_responding r'" by (rule acp_fatal_active [OF key])
  then have "client_ok lm (finish_reverse key ?c)" by (rule finish_reverse_ok [OF acp_fatal_ok [OF ok(1)]])
  then show ?thesis using Inl ok(2) by (simp add: respond_reverse_def write_or_fail_def)
next
  case (Inr w)
  note written = writer_write_result [OF Inr] and appended = writes_append [OF writer_write_result(2) [OF Inr]]
  let ?active = "map_set key (r\<lparr>rv_responding := True\<rparr>) (ac_active c)"
  have ids: "ids_apart (ac_pending c) (ac_active c) (ac_reserved c) (reserved_writes (ac_writer c)) (reverse_writes (ac_writer c))"
    using ok(1) by (simp add: client_ok_def ids_ok_def)
  have member: "key \<in> fst ` set (ac_active c)" using key(1) by (metis map_of_SomeD fst_conv image_eqI)
  then have keys: "fst ` set ?active = fst ` set (ac_active c)" by (auto simp: keys_map_set)
  have new: "key \<notin> set (reverse_writes (ac_writer c))" using ids_apartD(9) [OF ids] key by force
  have "ids_apart (ac_pending c) ?active (ac_reserved c) (reserved_writes w) (reverse_writes w)"
  proof (rule ids_apartI)
    show "\<forall>k \<in> set (reverse_writes w). \<exists>r'. map_of ?active k = Some r' \<and> rv_responding r'"
      using ids_apartD(9) [OF ids] appended(2) by auto
  qed (use ids_apartD(1-8) [OF ids] keys new appended in simp_all)
  moreover have "length ?active = length (ac_active c)" using key(1) by (simp add: length_map_set has_key_def)
  ultimately show ?thesis using ok Inr written appended(3)
    by (simp add: respond_reverse_def write_or_fail_def client_ok_def phase_ok_def ids_ok_def bounds_ok_def settled_ok_def)
qed

lemma reverse_failure_ok:
  assumes "client_ok lm c" "lm = ax_limits ax" "map_of (ac_active c) key = Some r" "\<not> rv_responding r"
  shows "client_ok lm (reverse_failure ax key r eo c)"
proof -
  have closed: "client_ok lm (finish_reverse key (acp_fatal e c))" for e
    by (rule acp_fatal_active [OF assms(3,4)]) (rule finish_reverse_ok [OF acp_fatal_ok [OF assms(1)]])
  show ?thesis using finish_reverse_ok [OF assms(1,3,4)] respond_reverse_ok [OF assms] closed
    by (simp add: reverse_failure_def split: sum.split)
qed

lemma reverse_done_ok:
  assumes "client_ok lm c" "lm = ax_limits ax"
  shows "client_ok lm (reverse_done ax key outcome c)"
proof (cases "map_of (ac_active c) key")
  case None
  then show ?thesis using assms by (simp add: reverse_done_def)
next
  case (Some r)
  show ?thesis
  proof (cases "rv_responding r")
    case True
    then show ?thesis using Some assms by (simp add: reverse_done_def)
  next
    case False
    note ends = reverse_failure_ok [OF assms Some False] respond_reverse_ok [OF assms Some False] finish_reverse_ok [OF assms(1) Some False]
    show ?thesis using Some False ends by (simp add: reverse_done_def split: handler_outcome.split sum.split)
  qed
qed

lemma fewer_notifications_ok: "client_ok lm c \<Longrightarrow> client_ok lm (c\<lparr>ac_notifications := ac_notifications c - 1\<rparr>)"
  by (auto simp: client_ok_def phase_ok_def ids_ok_def bounds_ok_def settled_ok_def)

lemma notification_done_ok: "client_ok lm c \<Longrightarrow> client_ok lm (notification_done e c)"
  unfolding notification_done_def Let_def
  by (rule fewer_notifications_ok) (simp add: acp_fatal_ok split: option.split)

lemma finish_unqueued_ok:
  assumes ids: "ids_apart pending active reserved held (key # responses)"
  shows "ids_apart pending (map_del key active) (filter (\<lambda>k. k \<noteq> key) reserved) held responses"
proof (rule ids_apartI)
  obtain r where r: "map_of active key = Some r" using ids_apartD(9) [OF ids] by auto
  then have "key \<in> fst ` set active" by (metis map_of_SomeD fst_conv image_eqI)
  then have "key \<notin> set held" using ids_apartD(6) [OF ids] by blast
  then show "set (filter (\<lambda>k. k \<noteq> key) reserved) = fst ` set (map_del key active) \<union> set held"
    using ids_apartD(7) [OF ids] by (auto simp: keys_map_del)
  show "\<forall>k \<in> set responses. \<exists>r. map_of (map_del key active) k = Some r \<and> rv_responding r"
    using ids_apartD(8,9) [OF ids] by auto
  show "fst ` set (map_del key active) \<inter> set held = {}"
    using ids_apartD(6) [OF ids] unfolding keys_map_del by blast
qed (use ids_apartD(1-8) [OF ids] in auto)

lemma release_ok:
  assumes ids: "ids_apart pending active reserved (key # held) responses"
  shows "ids_apart pending active (filter (\<lambda>k. k \<noteq> key) reserved) held responses"
  by (rule ids_apartI) (use ids_apartD [OF ids] in auto)

text \<open>The first write of the queue leaves it; what it held is given back.\<close>

definition first_written :: "acp_client \<Rightarrow> acp_client" where
  "first_written c = (case mw_queue (ac_writer c) of
       [] \<Rightarrow> c
     | (frame, purpose) # rest \<Rightarrow>
         let c1 = c\<lparr>ac_writer := writer_settle (ac_writer c)\<rparr>
         in (case purpose of
               Plain_Write \<Rightarrow> c1
             | Reserved_Write key \<Rightarrow> c1\<lparr>ac_reserved := filter (\<lambda>k. k \<noteq> key) (ac_reserved c1)\<rparr>
             | Reverse_Write key \<Rightarrow> finish_reverse key c1))"

lemma first_written_ok:
  assumes ok: "client_ok lm c"
  shows "client_ok lm (first_written c)"
proof (cases "mw_queue (ac_writer c)")
  case (Cons fp rest)
  obtain frame purpose where fp: "fp = (frame, purpose)" by (cases fp)
  let ?w = "writer_settle (ac_writer c)"
  have queue: "mw_queue ?w = rest" using Cons fp by (simp add: writer_settle_def)
  have bytes: "mw_queued_bytes ?w = queue_bytes ?w" "mw_queued_bytes ?w \<le> al_max_outbound_buffered_bytes lm"
    using ok Cons fp by (auto simp: client_ok_def bounds_ok_def writer_settle_def queue_bytes_def)
  have held: "reserved_writes (ac_writer c) = (case purpose of Reserved_Write k \<Rightarrow> [k] | _ \<Rightarrow> []) @ reserved_writes ?w"
    "reverse_writes (ac_writer c) = (case purpose of Reverse_Write k \<Rightarrow> [k] | _ \<Rightarrow> []) @ reverse_writes ?w"
    using Cons fp queue by (simp_all add: reserved_writes_def reverse_writes_def)
  show ?thesis
  proof (cases purpose)
    case Plain_Write
    then show ?thesis using ok Cons fp held bytes
      by (simp add: first_written_def client_ok_def phase_ok_def ids_ok_def bounds_ok_def settled_ok_def)
  next
    case (Reserved_Write key)
    then show ?thesis using ok Cons fp held bytes release_ok
      by (simp add: first_written_def client_ok_def phase_ok_def ids_ok_def bounds_ok_def settled_ok_def)
  next
    case (Reverse_Write key)
    then show ?thesis
      using ok Cons fp held bytes finish_unqueued_ok map_del_subset(2) [of key "ac_active c"]
      by (simp add: first_written_def finish_reverse_def client_ok_def phase_ok_def ids_ok_def bounds_ok_def settled_ok_def)
  qed
qed (simp add: first_written_def ok)

text \<open>Failing and taking the first write off commute.\<close>

lemma write_settled_first:
  "write_settled e c =
     (if mw_queue (ac_writer c) = [] then c else case e of None \<Rightarrow> first_written c | Some e' \<Rightarrow> acp_fatal e' (first_written c))"
proof (cases "mw_queue (ac_writer c)")
  case (Cons fp rest)
  obtain frame purpose where fp: "fp = (frame, purpose)" by (cases fp)
  have active: "map_del key (map (\<lambda>(k, r). (k, r\<lparr>rv_aborted := True\<rparr>)) xs) =
      map (\<lambda>(k, r). (k, r\<lparr>rv_aborted := True\<rparr>)) (map_del key xs)" for key and xs :: "(code_text \<times> reverse_request) list"
    by (induction xs) (auto simp: map_del_def)
  show ?thesis using Cons fp active
    by (cases purpose; cases e) (simp_all add: write_settled_def first_written_def acp_fatal_def acp_close_def finish_reverse_def)
qed (simp add: write_settled_def)

lemma write_settled_ok: "client_ok lm c \<Longrightarrow> client_ok lm (write_settled e c)"
  by (simp add: write_settled_first first_written_ok acp_fatal_ok split: option.split)

lemma transport_closed_ok: "client_ok lm c \<Longrightarrow> client_ok lm (transport_closed c)"
  by (auto simp: transport_closed_def client_ok_def phase_ok_def ids_ok_def bounds_ok_def settled_ok_def)

section \<open>Operations of the application\<close>

lemma allocate_request_id_result:
  "fst (allocate_request_id ax n c) = Inr rid \<Longrightarrow>
     acp_request_id_key rid \<notin> fst ` set (ac_pending c) \<and> acp_request_id_key rid \<notin> set (ac_reserved c)"
  by (induction n arbitrary: c) (force simp: Let_def has_key_iff split: if_splits)+

lemma allocate_request_id_state: "\<exists>m. snd (allocate_request_id ax n c) = c\<lparr>ac_next_id := m\<rparr>"
proof (induction n arbitrary: c)
  case 0
  have "snd (allocate_request_id ax 0 c) = c\<lparr>ac_next_id := ac_next_id c\<rparr>" by simp
  then show ?case by blast
next
  case (Suc n)
  obtain next' where "snd (allocate_request_id ax n (c\<lparr>ac_next_id := next_request_number (ac_next_id c)\<rparr>)) =
      c\<lparr>ac_next_id := next_request_number (ac_next_id c)\<rparr>\<lparr>ac_next_id := next'\<rparr>"
    using Suc by blast
  then have "snd (allocate_request_id ax n (c\<lparr>ac_next_id := next_request_number (ac_next_id c)\<rparr>)) = c\<lparr>ac_next_id := next'\<rparr>"
    by simp
  then show ?case by (auto simp: Let_def)
qed

lemma ids_apart_request:
  assumes ids: "ids_apart pending active reserved held responses"
    and key: "acp_request_id_key (pr_id p) \<notin> set reserved" "acp_request_id_key (pr_id p) \<notin> fst ` set pending"
  shows "ids_apart (pending @ [(acp_request_id_key (pr_id p), p)]) active reserved held responses"
  by (rule ids_apartI) (use ids_apartD [OF ids] key in auto)

lemma pend_request_ok:
  assumes ok: "client_ok lm c" "ac_phase c = Client_Open" "int (length (ac_pending c)) < al_max_outstanding_requests lm"
    and key: "acp_request_id_key (pr_id p) \<notin> set (ac_reserved c)" "acp_request_id_key (pr_id p) \<notin> fst ` set (ac_pending c)"
  shows "client_ok lm (log_output (Requested (pr_id p)) (c\<lparr>ac_pending := map_set (acp_request_id_key (pr_id p)) p (ac_pending c)\<rparr>))"
proof -
  have "map_of (ac_pending c) (acp_request_id_key (pr_id p)) = None" using key(2) by (simp add: map_of_eq_None_iff)
  then have pending: "map_set (acp_request_id_key (pr_id p)) p (ac_pending c) = ac_pending c @ [(acp_request_id_key (pr_id p), p)]"
    by (rule map_set_absent)
  have "\<not> settles rid (Requested (pr_id p))" for rid by (simp add: settles_def)
  then show ?thesis using ok pending ids_apart_request [OF _ key]
    by (simp add: client_ok_def phase_ok_def ids_ok_def bounds_ok_def settled_ok_def log_output_def)
qed

lemma acp_request_ok:
  assumes ok: "client_ok lm c" and lm: "lm = ax_limits ax"
  shows "client_ok lm (snd (acp_request ax now name params opts c))"
proof (cases "ac_phase c \<noteq> Client_Open \<or> al_max_outstanding_requests (ax_limits ax) \<le> int (length (ac_pending c))")
  case True
  then show ?thesis using ok by (auto simp: acp_request_def)
next
  case False
  let ?slots = "nat (al_max_outstanding_requests (ax_limits ax)) + 1"
  obtain c1 n where alloc: "snd (allocate_request_id ax ?slots c) = c1" "c1 = c\<lparr>ac_next_id := n\<rparr>"
    using allocate_request_id_state by blast
  have ok1: "client_ok lm c1" using ok alloc(2) by simp
  have sent: "client_ok lm (snd (write_or_fail ax m Plain_Write (log_output (Requested rid) (c1\<lparr>ac_pending := map_set (acp_request_id_key rid)
        \<lparr>pr_id = rid, pr_method = name, pr_extension = extension\<rparr> (ac_pending c1)\<rparr>))))"
    if "fst (allocate_request_id ax ?slots c) = Inr rid" for rid extension m
    using plain_write_ok [OF pend_request_ok [OF ok1, of "\<lparr>pr_id = rid, pr_method = name, pr_extension = extension\<rparr>"] lm]
      allocate_request_id_result [OF that] alloc(2) False lm by simp
  show ?thesis using False ok ok1 sent alloc(1)
    by (cases "allocate_request_id ax ?slots c") (auto simp: acp_request_def Let_def split: sum.splits)
qed

lemma acp_notify_ok:
  assumes "client_ok lm c" "lm = ax_limits ax"
  shows "client_ok lm (snd (acp_notify ax name params c))"
  using plain_write_ok [OF assms] assms by (simp add: acp_notify_def split: sum.split)

lemma send_cancellation_ok:
  assumes "client_ok lm c" "lm = ax_limits ax"
  shows "client_ok lm (send_cancellation ax rid c)"
  using plain_write_ok [OF assms] acp_fatal_ok [OF assms(1)] assms(1) by (simp add: send_cancellation_def Let_def split: sum.split)

lemma request_expired_ok:
  assumes "client_ok lm c" "lm = ax_limits ax"
  shows "client_ok lm (request_expired ax aborted key c)"
proof (cases "map_of (ac_pending c) key")
  case None
  then show ?thesis using assms by (simp add: request_expired_def)
next
  case (Some entry)
  have "client_ok lm (log_output (Rejected (pr_id entry) e) (drop_pending key c))" for e
    by (rule settle_pending_ok [OF assms(1) Some]) (auto simp: settles_def)
  then show ?thesis using Some send_cancellation_ok assms(2) by (simp add: request_expired_def)
qed

section \<open>Every reachable state\<close>

lemma acp_step_ok:
  assumes "acp_step ax c c'" "client_ok (ax_limits ax) c"
  shows "client_ok (ax_limits ax) c'"
  using assms
  by (cases rule: acp_step.cases)
    (simp_all add: acp_request_ok acp_notify_ok peer_data_ok peer_error_def peer_end_def framer_report_ok request_expired_ok
      reverse_done_ok notification_done_ok write_settled_ok acp_dispose_def acp_close_ok transport_closed_ok)

lemma created_client_ok:
  assumes "create_acp_client ax now = Inr c"
    and "0 \<le> al_max_outstanding_requests (ax_limits ax)" "0 \<le> al_max_inbound_request_concurrency (ax_limits ax)"
      "0 \<le> al_max_notification_handler_concurrency (ax_limits ax)" "0 \<le> al_max_notifications_per_window (ax_limits ax)"
      "0 \<le> al_max_outbound_buffered_bytes (ax_limits ax)"
  shows "client_ok (ax_limits ax) c"
  using assms by (auto simp: create_acp_client_def client_ok_def phase_ok_def ids_ok_def ids_apart_def bounds_ok_def settled_ok_def
      new_writer_def reserved_writes_def reverse_writes_def queue_bytes_def split: if_splits)

lemma acp_steps_ok:
  assumes "(acp_step ax)\<^sup>*\<^sup>* c c'" "client_ok (ax_limits ax) c"
  shows "client_ok (ax_limits ax) c'"
  using assms by (induction rule: rtranclp_induct) (auto intro: acp_step_ok)

end
