(* ===== verification/Acp_Properties.thy ===== *)
theory Acp_Properties
  imports Acp_Client_Safety
begin

text \<open>
  What the transport promises, for every client made by \<open>createAcpClient\<close> and every sequence of events,
  and for every peer whose output is made of proper lines.
\<close>

section \<open>Resolved limits\<close>

lemma limit_in_range_bounds:
  assumes "map_of limit_bounds name = Some (standard, minimum, maximum)" "list_all (limit_in_range overrides) limit_bounds"
  shows "minimum \<le> limit_named overrides name \<and> limit_named overrides name \<le> maximum"
proof -
  have "(name, standard, minimum, maximum) \<in> set limit_bounds" using assms(1) by (rule map_of_SomeD)
  then have "limit_in_range overrides (name, standard, minimum, maximum)" using assms(2) by (simp add: list_all_iff)
  then show ?thesis using assms(1) by (auto simp: limit_in_range_def limit_named_def split: option.splits)
qed

text \<open>Only limits within the documented ranges are resolved; here the ones the invariant needs.\<close>

lemma resolved_limits:
  assumes "resolve_acp_protocol_limits overrides = Inr lm"
  shows "1 \<le> al_max_outstanding_requests lm" "1 \<le> al_max_inbound_request_concurrency lm"
    "1 \<le> al_max_notification_handler_concurrency lm" "1 \<le> al_max_notifications_per_window lm"
    "al_max_outbound_frame_bytes lm < al_max_outbound_buffered_bytes lm" "1024 \<le> al_max_inbound_frame_bytes lm"
    "1024 \<le> al_max_outbound_buffered_bytes lm"
proof -
  have range: "list_all (limit_in_range overrides) limit_bounds"
    and frame: "limit_named overrides ''maxOutboundFrameBytes'' + 1 \<le> limit_named overrides ''maxOutboundBufferedBytes''"
    using assms by (simp_all add: resolve_acp_protocol_limits_def split: if_splits)
  note bound = limit_in_range_bounds [OF _ range]
  have "1 \<le> limit_named overrides ''maxOutstandingRequests''" "1 \<le> limit_named overrides ''maxInboundRequestConcurrency''"
    "1 \<le> limit_named overrides ''maxNotificationHandlerConcurrency''" "1 \<le> limit_named overrides ''maxNotificationsPerWindow''"
    "1024 \<le> limit_named overrides ''maxInboundFrameBytes''" "1024 \<le> limit_named overrides ''maxOutboundBufferedBytes''"
    by (rule bound [THEN conjunct1], simp add: limit_bounds_def)+
  then show "1 \<le> al_max_outstanding_requests lm" "1 \<le> al_max_inbound_request_concurrency lm"
    "1 \<le> al_max_notification_handler_concurrency lm" "1 \<le> al_max_notifications_per_window lm"
    "al_max_outbound_frame_bytes lm < al_max_outbound_buffered_bytes lm" "1024 \<le> al_max_inbound_frame_bytes lm"
    "1024 \<le> al_max_outbound_buffered_bytes lm"
    using assms frame by (auto simp: resolve_acp_protocol_limits_def split: if_splits)
qed

lemma reachable_client_ok:
  assumes "resolve_acp_protocol_limits overrides = Inr (ax_limits ax)" "create_acp_client ax now = Inr c0" "(acp_step ax)\<^sup>*\<^sup>* c0 c"
  shows "client_ok (ax_limits ax) c"
  using resolved_limits [OF assms(1)] by (intro acp_steps_ok [OF assms(3)] created_client_ok [OF assms(2)]) simp_all

section \<open>The properties\<close>

text \<open>
  C32. Whatever the application, the peer, timers, handlers and the streams do, and in any order: the
  ids of the requests the application waits for are distinct and none is the id of a reverse request
  that is not yet answered on the wire; no more requests, reverse requests and notification handlers
  run and no more bytes are queued than the resolved limits allow, the writer's count being that of
  its queue; every request of the application is either pending or has been settled, exactly once;
  and once the client is closing nothing is pending any more.
\<close>

theorem acp_client_safe:
  assumes "resolve_acp_protocol_limits overrides = Inr (ax_limits ax)" "create_acp_client ax now = Inr c0" "(acp_step ax)\<^sup>*\<^sup>* c0 c"
  shows "distinct (map fst (ac_pending c)) \<and> fst ` set (ac_pending c) \<inter> set (ac_reserved c) = {} \<and>
    int (length (ac_pending c)) \<le> al_max_outstanding_requests (ax_limits ax) \<and>
    int (length (ac_active c)) \<le> al_max_inbound_request_concurrency (ax_limits ax) \<and>
    int (ac_notifications c) \<le> al_max_notification_handler_concurrency (ax_limits ax) \<and>
    mw_queued_bytes (ac_writer c) = (\<Sum>(frame, purpose) \<leftarrow> mw_queue (ac_writer c). int (length frame)) \<and>
    mw_queued_bytes (ac_writer c) \<le> al_max_outbound_buffered_bytes (ax_limits ax) \<and>
    (\<forall>rid. length (filter (\<lambda>out. out = Requested rid) (ac_log c)) =
       length (filter (settles rid) (ac_log c)) + length (filter (\<lambda>(k, p). pr_id p = rid) (ac_pending c))) \<and>
    (ac_phase c = Client_Open \<or> ac_pending c = [])"
  using reachable_client_ok [OF assms]
  unfolding client_ok_def phase_ok_def ids_ok_def ids_apart_def bounds_ok_def settled_ok_def occurrences_def queue_bytes_def
  by (elim conjE) (intro conjI; (assumption | blast))

definition sample_acp_context :: acp_context where
  "sample_acp_context =
     \<lparr>ax_limits = (case resolve_acp_protocol_limits [] of Inr lm \<Rightarrow> lm), ax_id_prefix = None, ax_standard_policy = False,
       ax_extensions = [], ax_has_method = (\<lambda>side name kind. True), ax_validate = (\<lambda>side name kind v. Inr ()),
       ax_parse = (\<lambda>t. None), ax_text = (\<lambda>m. ascii ''{}''), ax_reverse_handler = (\<lambda>name. False),
       ax_notification_handler = (\<lambda>name. False)\<rparr>"

definition sample_acp_request :: "acp_client \<Rightarrow> acp_client" where
  "sample_acp_request c = snd (acp_request sample_acp_context 0 (ascii ''initialize'') A_Null
     \<lparr>ro_until_settled = True, ro_timeout_ms = None, ro_deadline_at = None, ro_aborted = False\<rparr> c)"

lemma sample_acp_limits:
  "\<exists>lm. resolve_acp_protocol_limits [] = Inr lm \<and> al_max_json_depth lm = 48 \<and> al_max_json_nodes lm = 65536 \<and>
     al_max_outstanding_requests lm = 64 \<and> al_max_outbound_frame_bytes lm = 8388608 \<and> al_max_outbound_buffered_bytes lm = 8388609"
  by (simp add: resolve_acp_protocol_limits_def limit_in_range_def resolved_limit_def limit_named_def limit_bounds_def
      safe_integer_def max_safe_integer_def)

lemma sample_acp_frame: "length (utf8_encode (ascii ''{}'')) = 2" "length (utf8_encode [10]) = 1"
  by (simp_all add: utf8_encode_def utf8_char_units_def utf8_units_def ascii_def scalar_def)

lemma allocate_first:
  assumes "0 < n" "acp_request_id_key (candidate_id ax (ac_next_id c)) \<notin> set (ac_reserved c)"
    "\<not> has_key (ac_pending c) (acp_request_id_key (candidate_id ax (ac_next_id c)))"
  shows "allocate_request_id ax n c = (Inr (candidate_id ax (ac_next_id c)), c\<lparr>ac_next_id := next_request_number (ac_next_id c)\<rparr>)"
  using assms by (cases n) (simp_all add: Let_def)

lemma acp_client_safe_witness:
  "\<exists>c0. create_acp_client sample_acp_context 0 = Inr c0 \<and> length (ac_pending (sample_acp_request c0)) = 1 \<and>
     fst ` set (ac_pending (sample_acp_request c0)) \<inter> set (ac_reserved (sample_acp_request c0)) = {}"
proof -
  obtain lm where lm: "resolve_acp_protocol_limits [] = Inr lm" "al_max_json_depth lm = 48" "al_max_json_nodes lm = 65536"
    "al_max_outstanding_requests lm = 64" "al_max_outbound_frame_bytes lm = 8388608" "al_max_outbound_buffered_bytes lm = 8388609"
    using sample_acp_limits by blast
  obtain c0 where c0: "create_acp_client sample_acp_context 0 = Inr c0"
    by (simp add: create_acp_client_def sample_acp_context_def)
  have "acp_step sample_acp_context c0 (sample_acp_request c0)"
    unfolding sample_acp_request_def by (rule step_request)
  then have "(acp_step sample_acp_context)\<^sup>*\<^sup>* c0 (sample_acp_request c0)" by blast
  moreover have "resolve_acp_protocol_limits [] = Inr (ax_limits sample_acp_context)"
    using lm by (simp add: sample_acp_context_def)
  ultimately have "fst ` set (ac_pending (sample_acp_request c0)) \<inter> set (ac_reserved (sample_acp_request c0)) = {}"
    using acp_client_safe [OF _ c0, of "[]"] by blast
  moreover have "ac_phase c0 = Client_Open" "ac_pending c0 = []" "ac_reserved c0 = []" "ac_next_id c0 = 1" "ac_writer c0 = new_writer"
    using c0 by (auto simp: create_acp_client_def split: if_splits)
  then have "length (ac_pending (sample_acp_request c0)) = 1"
    using lm sample_acp_frame
    by (simp add: sample_acp_request_def acp_request_def validate_outbound_def resolve_request_timeout_def
        assert_bounded_acp_json_def check_json_stack.simps sample_acp_context_def Let_def allocate_first has_key_def candidate_id_def
        write_or_fail_def writer_write_def new_writer_def log_output_def)
  ultimately show ?thesis using c0 by blast
qed

text \<open>
  C33. A peer that writes lines which are not empty, within the limit and UTF-8 has exactly the texts of
  these lines handed on, in order, however the pipe cuts its output into chunks, as long as no chunk
  is larger than the limit of a frame; the end of the stream is then reported as the end, or as a
  truncated frame when bytes without a newline are left.
\<close>

theorem frames_exact:
  assumes "list_all (good_line maximum) ls" "10 \<notin> set tail" "length tail \<le> maximum"
    and "\<forall>chunk \<in> set chunks. length chunk \<le> maximum" "concat chunks = lines_bytes ls @ tail"
  shows "\<exists>fr. framer_stream maximum collect chunks new_framer [] = ((fr, Framer_Quiet), map line_text ls) \<and>
    snd (framer_end fr) = (if tail = [] then Framer_End else Framer_Fatal ''acp_stdout_truncated_frame'')"
proof -
  have "framer_stream maximum collect chunks new_framer [] = ((framer_holding tail, Framer_Quiet), map line_text ls)"
    using framer_stream_lines [of maximum ls tail chunks "[]" "[]"] assms by (simp add: new_framer_def framer_holding_def)
  moreover have "snd (framer_end (framer_holding tail)) = (if tail = [] then Framer_End else Framer_Fatal ''acp_stdout_truncated_frame'')"
    by (simp add: framer_end_def framer_holding_def)
  ultimately show ?thesis by blast
qed

lemma frames_exact_witness:
  "\<exists>fr. framer_stream 1024 collect [[123], [125, 13], [10, 91, 93, 10]] new_framer [] =
     ((fr, Framer_Quiet), [[123, 125], [91, 93]]) \<and> snd (framer_end fr) = Framer_End"
proof -
  have "list_all (good_line 1024) [[123, 125, 13], [91, 93]]" "map line_text [[123, 125, 13], [91, 93]] = [[123, 125], [91, 93]]"
    by (simp_all add: good_line_def line_text_def strip_return_def decode_frame_def utf8_decode_def utf8_decode_units.simps)
  then show ?thesis using frames_exact [of 1024 "[[123, 125, 13], [91, 93]]" "[]" "[[123], [125, 13], [10, 91, 93, 10]]"] by simp
qed

end
