(* ===== verification/Session_Graph.thy ===== *)
theory Session_Graph
  imports Turn_Input
begin

text \<open>
  The collaboration graph of a provider session: \<open>agent-protocol/src/collaboration/types.ts\<close> and
  \<open>zod/collaboration.ts\<close>, the lifecycle checks of \<open>agent-runtime/src/interactionValidation.ts\<close> and the graph
  admission, spawning and control of \<open>agent-runtime/src/sessionValidation.ts\<close>.

  An asynchronous call of the provider is two operations, one up to the call and one for what it settles
  with; between the two anything else may happen.  What the call captured is kept in the state.
\<close>

section \<open>Nodes\<close>

datatype collaboration_role = Delegate_Role | Reviewer_Role | Researcher_Role | Specialist_Role
datatype collaboration_status =
  Node_Queued | Node_Starting | Node_Running | Node_Waiting | Node_Completed | Node_Failed | Node_Canceled
datatype stop_reason = Stop_User_Requested | Stop_Timeout | Stop_Shutdown | Stop_Superseded | Stop_Other
datatype control_action = Spawn_Action | Steer_Action | Stop_Action | Close_Action | Inspect_Action

datatype collaboration_outcome = Outcome_Completed | Outcome_Failed json | Outcome_Canceled stop_reason

record usage_counters =
  uc_input_tokens :: "int option"
  uc_output_tokens :: "int option"
  uc_reasoning_tokens :: "int option"
  uc_total_tokens :: "int option"
  uc_model_calls :: "int option"

datatype collaboration_usage = Usage_Unavailable | Usage_Reported usage_counters

record collaboration_node =
  cn_id :: string
  cn_root :: string
  cn_parent :: "string option"
  cn_role :: collaboration_role
  cn_title :: string
  cn_status :: collaboration_status
  cn_objective :: string
  cn_progress :: "string option"
  cn_usage :: collaboration_usage
  cn_outcome :: "collaboration_outcome option"
  cn_created_at :: string
  cn_updated_at :: string
  cn_terminal_at :: "string option"
  cn_closed_at :: "string option"
  cn_artifact_ids :: "string list option"
  cn_resource_ids :: "string list option"

record spawn_input =
  si_id :: string
  si_parent :: "string option"
  si_role :: collaboration_role
  si_title :: string
  si_objective :: string
  si_created_at :: string

datatype control_input =
    Steer_Node string turn_input
  | Stop_Node string stop_reason
  | Close_Node string
  | Inspect_Node string

fun control_id :: "control_input \<Rightarrow> string" where
  "control_id (Steer_Node i content) = i"
| "control_id (Stop_Node i reason) = i"
| "control_id (Close_Node i) = i"
| "control_id (Inspect_Node i) = i"

fun control_action_of :: "control_input \<Rightarrow> control_action" where
  "control_action_of (Steer_Node i content) = Steer_Action"
| "control_action_of (Stop_Node i reason) = Stop_Action"
| "control_action_of (Close_Node i) = Close_Action"
| "control_action_of (Inspect_Node i) = Inspect_Action"

definition max_graph_nodes :: nat where "max_graph_nodes = 100"
definition max_graph_depth :: nat where "max_graph_depth = 16"
definition max_graph_children :: nat where "max_graph_children = 100"
definition max_graph_active :: nat where "max_graph_active = 100"

text \<open>
  What the session was opened with: the capability the provider declared, the format checks that the
  schemas rest on, and the schema of agent errors.
\<close>

record collaboration_capability =
  cc_roles :: "collaboration_role list"
  cc_actions :: "control_action list"
  cc_max_depth :: nat
  cc_max_children :: nat
  cc_max_active :: nat

record graph_context =
  gx_externals :: externals
  gx_valid_error :: "json \<Rightarrow> bool"
  gx_capability :: "collaboration_capability option"

section \<open>Schemas (zod/collaboration.ts)\<close>

fun code_point_less :: "string \<Rightarrow> string \<Rightarrow> bool" where
  "code_point_less xs [] = False"
| "code_point_less [] (y # ys) = True"
| "code_point_less (x # xs) (y # ys) = (code_unit x < code_unit y \<or> (x = y \<and> code_point_less xs ys))"

definition result_references :: "string list option \<Rightarrow> bool" where
  "result_references refs = (case refs of None \<Rightarrow> True
     | Some ids \<Rightarrow> 1 \<le> length ids \<and> length ids \<le> 100 \<and> list_all agent_canonical_id ids \<and> distinct ids \<and>
         (\<forall>i \<in> {1..<length ids}. code_point_less (ids ! (i - 1)) (ids ! i)))"

definition usage_schema :: "collaboration_usage \<Rightarrow> bool" where
  "usage_schema u = (case u of Usage_Unavailable \<Rightarrow> True
     | Usage_Reported uc \<Rightarrow>
         (let counters = [uc_input_tokens uc, uc_output_tokens uc, uc_reasoning_tokens uc, uc_total_tokens uc, uc_model_calls uc]
          in list_all (\<lambda>x. case x of None \<Rightarrow> True | Some n \<Rightarrow> 0 \<le> n \<and> n \<le> max_safe_integer) counters \<and>
             list_ex (\<lambda>x. x \<noteq> None) counters))"

fun outcome_status :: "collaboration_outcome \<Rightarrow> collaboration_status" where
  "outcome_status Outcome_Completed = Node_Completed"
| "outcome_status (Outcome_Failed e) = Node_Failed"
| "outcome_status (Outcome_Canceled r) = Node_Canceled"

definition terminal_status :: "collaboration_status \<Rightarrow> bool" where
  "terminal_status s \<longleftrightarrow> s \<in> {Node_Completed, Node_Failed, Node_Canceled}"

definition optional_at :: "externals \<Rightarrow> string option \<Rightarrow> bool" where
  "optional_at ext t = (case t of None \<Rightarrow> True | Some s \<Rightarrow> zod_iso_datetime_offset ext s)"

definition portable_node_schema :: "graph_context \<Rightarrow> collaboration_node \<Rightarrow> bool" where
  "portable_node_schema gx n \<longleftrightarrow>
     agent_canonical_id (cn_id n) \<and> agent_canonical_id (cn_root n) \<and>
     (case cn_parent n of None \<Rightarrow> True | Some p \<Rightarrow> agent_canonical_id p) \<and>
     canonical_non_blank_string 200 (cn_title n) \<and> canonical_non_blank_string 4000 (cn_objective n) \<and>
     (case cn_progress n of None \<Rightarrow> True | Some p \<Rightarrow> canonical_non_blank_string 2000 p) \<and> usage_schema (cn_usage n) \<and>
     (case cn_outcome n of Some (Outcome_Failed e) \<Rightarrow> gx_valid_error gx e | _ \<Rightarrow> True) \<and>
     zod_iso_datetime_offset (gx_externals gx) (cn_created_at n) \<and> zod_iso_datetime_offset (gx_externals gx) (cn_updated_at n) \<and>
     optional_at (gx_externals gx) (cn_terminal_at n) \<and> optional_at (gx_externals gx) (cn_closed_at n) \<and>
     result_references (cn_artifact_ids n) \<and> result_references (cn_resource_ids n)"

definition js_less :: "int option \<Rightarrow> int option \<Rightarrow> bool" where
  "js_less x y = js_gt y x"

definition node_lifetime_schema :: "collaboration_node \<Rightarrow> bool" where
  "node_lifetime_schema n \<longleftrightarrow>
     \<not> js_less (date_parse (cn_updated_at n)) (date_parse (cn_created_at n)) \<and>
     (case cn_terminal_at n of None \<Rightarrow> True
      | Some t \<Rightarrow> \<not> js_less (date_parse t) (date_parse (cn_created_at n)) \<and> \<not> js_gt (date_parse t) (date_parse (cn_updated_at n))) \<and>
     (case cn_closed_at n of None \<Rightarrow> True
      | Some c \<Rightarrow> (case cn_terminal_at n of None \<Rightarrow> False
          | Some t \<Rightarrow> \<not> js_less (date_parse c) (date_parse t) \<and> \<not> js_gt (date_parse c) (date_parse (cn_updated_at n))))"

definition node_schema :: "graph_context \<Rightarrow> collaboration_node \<Rightarrow> bool" where
  "node_schema gx n \<longleftrightarrow> portable_node_schema gx n \<and>
     (let terminal = terminal_status (cn_status n)
      in terminal = (cn_terminal_at n \<noteq> None) \<and> terminal = (cn_outcome n \<noteq> None) \<and>
         (case cn_outcome n of None \<Rightarrow> True | Some out \<Rightarrow> outcome_status out = cn_status n) \<and>
         (terminal \<or> (cn_artifact_ids n = None \<and> cn_resource_ids n = None)) \<and>
         (cn_parent n \<noteq> None \<or> cn_root n = cn_id n) \<and> cn_parent n \<noteq> Some (cn_id n) \<and> node_lifetime_schema n)"

definition spawn_schema :: "graph_context \<Rightarrow> spawn_input \<Rightarrow> bool" where
  "spawn_schema gx s \<longleftrightarrow> agent_canonical_id (si_id s) \<and> (case si_parent s of None \<Rightarrow> True | Some p \<Rightarrow> agent_canonical_id p) \<and>
     canonical_non_blank_string 200 (si_title s) \<and> canonical_non_blank_string 4000 (si_objective s) \<and>
     zod_iso_datetime_offset (gx_externals gx) (si_created_at s) \<and> si_parent s \<noteq> Some (si_id s)"

definition control_schema :: "graph_context \<Rightarrow> control_input \<Rightarrow> bool" where
  "control_schema gx c \<longleftrightarrow> agent_canonical_id (control_id c) \<and>
     (case c of Steer_Node i content \<Rightarrow> valid_turn_input (gx_externals gx) content | _ \<Rightarrow> True)"

section \<open>Lifecycle of a node (interactionValidation.ts)\<close>

text \<open>An \<open>AgentProviderContractError\<close> by its code.\<close>

datatype session_failure = Contract_Failure string

fun node_successors :: "collaboration_status \<Rightarrow> collaboration_status list" where
  "node_successors Node_Queued =
     [Node_Queued, Node_Starting, Node_Running, Node_Waiting, Node_Completed, Node_Failed, Node_Canceled]"
| "node_successors Node_Starting = [Node_Starting, Node_Running, Node_Waiting, Node_Completed, Node_Failed, Node_Canceled]"
| "node_successors Node_Running = [Node_Running, Node_Waiting, Node_Completed, Node_Failed, Node_Canceled]"
| "node_successors Node_Waiting = [Node_Waiting, Node_Running, Node_Completed, Node_Failed, Node_Canceled]"
| "node_successors Node_Completed = [Node_Completed]"
| "node_successors Node_Failed = [Node_Failed]"
| "node_successors Node_Canceled = [Node_Canceled]"

definition counter_grows :: "int option \<Rightarrow> int option \<Rightarrow> bool" where
  "counter_grows before after = (case before of None \<Rightarrow> True | Some b \<Rightarrow> (case after of None \<Rightarrow> False | Some a \<Rightarrow> b \<le> a))"

definition usage_is_monotonic :: "collaboration_usage \<Rightarrow> collaboration_usage \<Rightarrow> bool" where
  "usage_is_monotonic previous after =
     (case previous of Usage_Unavailable \<Rightarrow> True
      | Usage_Reported p \<Rightarrow> (case after of Usage_Unavailable \<Rightarrow> False
          | Usage_Reported n \<Rightarrow> counter_grows (uc_input_tokens p) (uc_input_tokens n) \<and>
              counter_grows (uc_output_tokens p) (uc_output_tokens n) \<and>
              counter_grows (uc_reasoning_tokens p) (uc_reasoning_tokens n) \<and>
              counter_grows (uc_total_tokens p) (uc_total_tokens n) \<and> counter_grows (uc_model_calls p) (uc_model_calls n)))"

text \<open>An optional member that is set once and for all.\<close>

definition keeps :: "'a option \<Rightarrow> 'a option \<Rightarrow> bool" where
  "keeps before after \<longleftrightarrow> before = None \<or> after = before"

definition same_node_identity :: "collaboration_node \<Rightarrow> collaboration_node \<Rightarrow> bool" where
  "same_node_identity previous n \<longleftrightarrow>
     cn_id n = cn_id previous \<and> cn_root n = cn_root previous \<and> cn_parent n = cn_parent previous \<and>
     cn_role n = cn_role previous \<and> cn_title n = cn_title previous \<and> cn_objective n = cn_objective previous \<and>
     cn_created_at n = cn_created_at previous \<and>
     \<not> js_less (date_parse (cn_updated_at n)) (date_parse (cn_updated_at previous)) \<and>
     usage_is_monotonic (cn_usage previous) (cn_usage n) \<and> keeps (cn_terminal_at previous) (cn_terminal_at n) \<and>
     keeps (cn_closed_at previous) (cn_closed_at n) \<and> keeps (cn_outcome previous) (cn_outcome n) \<and>
     keeps (cn_artifact_ids previous) (cn_artifact_ids n) \<and> keeps (cn_resource_ids previous) (cn_resource_ids n)"

definition js_same :: "int option \<Rightarrow> int option \<Rightarrow> bool" where
  "js_same x y = (case (x, y) of (Some a, Some b) \<Rightarrow> a = b | _ \<Rightarrow> False)"

definition validate_collaboration_node ::
    "graph_context \<Rightarrow> collaboration_node \<Rightarrow> collaboration_node option \<Rightarrow> session_failure + collaboration_node" where
  "validate_collaboration_node gx n previous =
     (if \<not> node_schema gx n then Inl (Contract_Failure ''output_collaboration_mismatch'')
      else case gx_capability gx of
          None \<Rightarrow> Inl (Contract_Failure ''output_capability_mismatch'')
        | Some cap \<Rightarrow>
            if cn_role n \<notin> set (cc_roles cap) then Inl (Contract_Failure ''output_capability_mismatch'')
            else (case previous of
                None \<Rightarrow> Inr n
              | Some p \<Rightarrow>
                  if cn_status n \<notin> set (node_successors (cn_status p)) then
                    Inl (Contract_Failure ''invalid_collaboration_transition'')
                  else if js_same (date_parse (cn_updated_at n)) (date_parse (cn_updated_at p)) \<and> n \<noteq> p then
                    Inl (Contract_Failure ''invalid_collaboration_transition'')
                  else if \<not> same_node_identity p n then Inl (Contract_Failure ''output_collaboration_mismatch'')
                  else Inr n))"

section \<open>Admission to the graph (sessionValidation.ts)\<close>

type_synonym node_map = "(string \<times> collaboration_node) list"
type_synonym reservation_map = "(string \<times> string option) list"

record graph_candidate =
  gc_id :: string
  gc_root :: string
  gc_parent :: "string option"
  gc_active :: bool

datatype graph_admission = Admitted "collaboration_node option" | Conflict | Capacity_Exceeded

text \<open>The loop over the ancestors: no id twice, every parent present; \<open>None\<close> is a conflict.\<close>

function ancestor_depth :: "node_map \<Rightarrow> string list \<Rightarrow> collaboration_node \<Rightarrow> nat \<Rightarrow> nat option" where
  "ancestor_depth nodes visited a depth =
     (if cn_id a \<in> set visited then None
      else case cn_parent a of
          None \<Rightarrow> Some (depth + 1)
        | Some p \<Rightarrow> (case map_of nodes p of
            None \<Rightarrow> None
          | Some a' \<Rightarrow> ancestor_depth nodes (cn_id a # visited) a' (depth + 1)))"
  by pat_completeness auto
termination
proof (relation "measure (\<lambda>(nodes, visited, a, depth). card (insert (cn_id a) (cn_id ` snd ` set nodes) - set visited))")
  fix nodes :: node_map and visited depth p and a a' :: collaboration_node
  assume new: "cn_id a \<notin> set visited" and "map_of nodes p = Some a'"
  then have "cn_id a' \<in> cn_id ` snd ` set nodes" by (metis map_of_in_values imageI)
  then have "insert (cn_id a') (cn_id ` snd ` set nodes) - set (cn_id a # visited) \<subset> insert (cn_id a) (cn_id ` snd ` set nodes) - set visited"
    using new by auto
  then show "((nodes, cn_id a # visited, a', depth + 1), nodes, visited, a, depth) \<in>
      measure (\<lambda>(nodes, visited, a, depth). card (insert (cn_id a) (cn_id ` snd ` set nodes) - set visited))"
    by (simp add: psubset_card_mono)
qed simp

declare ancestor_depth.simps [simp del]

definition unmaterialized :: "(string \<times> 'a) list \<Rightarrow> reservation_map \<Rightarrow> reservation_map" where
  "unmaterialized nodes reservations = filter (\<lambda>(k, parent). \<not> has_key nodes k) reservations"

definition child_count :: "node_map \<Rightarrow> reservation_map \<Rightarrow> string \<Rightarrow> nat" where
  "child_count nodes reservations p =
     length (filter (\<lambda>(k, n). cn_parent n = Some p) nodes) +
     length (filter (\<lambda>(k, parent). parent = Some p) (unmaterialized nodes reservations))"

definition working_count :: "node_map \<Rightarrow> reservation_map \<Rightarrow> nat" where
  "working_count nodes reservations =
     length (filter (\<lambda>(k, n). \<not> terminal_status (cn_status n)) nodes) + length (unmaterialized nodes reservations)"

definition parent_usable :: "graph_candidate \<Rightarrow> collaboration_node option \<Rightarrow> bool" where
  "parent_usable c parent = (case gc_parent c of
       None \<Rightarrow> gc_root c = gc_id c
     | Some _ \<Rightarrow> (case parent of
         None \<Rightarrow> False
       | Some p \<Rightarrow> gc_root c = cn_root p \<and> \<not> terminal_status (cn_status p) \<and> cn_closed_at p = None))"

definition evaluate_graph_admission ::
    "collaboration_capability \<Rightarrow> graph_candidate \<Rightarrow> node_map \<Rightarrow> reservation_map \<Rightarrow> graph_admission" where
  "evaluate_graph_admission cap c nodes reservations =
     (case map_of nodes (gc_id c) of
        Some existing \<Rightarrow> Admitted (Option.bind (cn_parent existing) (map_of nodes))
      | None \<Rightarrow>
          let reservation = map_of reservations (gc_id c); parent = Option.bind (gc_parent c) (map_of nodes)
          in if reservation \<noteq> None \<and> reservation \<noteq> Some (gc_parent c) then Conflict
             else if \<not> parent_usable c parent then Conflict
             else case (case parent of None \<Rightarrow> Some 1 | Some p \<Rightarrow> ancestor_depth nodes [gc_id c] p 1) of
                 None \<Rightarrow> Conflict
               | Some depth \<Rightarrow>
                   if reservation \<noteq> None then Admitted parent
                   else if max_graph_nodes \<le> length nodes + length (unmaterialized nodes reservations)
                       \<or> cc_max_children cap \<le> (case parent of None \<Rightarrow> 0 | Some p \<Rightarrow> child_count nodes reservations (cn_id p))
                       \<or> cc_max_depth cap < depth
                       \<or> (gc_active c \<and> cc_max_active cap \<le> working_count nodes reservations) then Capacity_Exceeded
                   else Admitted parent)"

section \<open>Operations of a session\<close>

text \<open>
  The calls in flight: a spawn with the parent its admission captured, under the id it reserved; a control
  with the node it was checked against.
\<close>

record session_graph =
  sg_nodes :: node_map
  sg_reservations :: reservation_map
  sg_spawns :: "(string \<times> spawn_input \<times> collaboration_node option) list"
  sg_controls :: "(control_input \<times> collaboration_node) list"
  sg_unusable :: bool

definition empty_graph :: session_graph where
  "empty_graph = \<lparr>sg_nodes = [], sg_reservations = [], sg_spawns = [], sg_controls = [], sg_unusable = False\<rparr>"

definition put_node :: "collaboration_node \<Rightarrow> session_graph \<Rightarrow> session_graph" where
  "put_node n g = g\<lparr>sg_nodes := map_set (cn_id n) n (sg_nodes g)\<rparr>"

text \<open>A \<open>collaboration.updated\<close> event.\<close>

definition observe_collaboration :: "graph_context \<Rightarrow> collaboration_node \<Rightarrow> session_graph \<Rightarrow> session_failure + session_graph" where
  "observe_collaboration gx candidate g =
     and_then (validate_collaboration_node gx candidate (map_of (sg_nodes g) (cn_id candidate))) (\<lambda>n.
       case gx_capability gx of
         None \<Rightarrow> Inl (Contract_Failure ''output_capability_mismatch'')
       | Some cap \<Rightarrow>
           (case evaluate_graph_admission cap
               \<lparr>gc_id = cn_id n, gc_root = cn_root n, gc_parent = cn_parent n, gc_active = \<not> terminal_status (cn_status n)\<rparr>
               (sg_nodes g) (sg_reservations g) of
              Conflict \<Rightarrow> Inl (Contract_Failure ''output_collaboration_mismatch'')
            | Capacity_Exceeded \<Rightarrow> Inl (Contract_Failure ''output_capability_mismatch'')
            | Admitted parent \<Rightarrow> Inr (put_node n g)))"

definition spawn_begin :: "graph_context \<Rightarrow> spawn_input \<Rightarrow> session_graph \<Rightarrow> session_failure + session_graph" where
  "spawn_begin gx s g =
     (if sg_unusable g then Inl (Contract_Failure ''session_unusable'')
      else if \<not> spawn_schema gx s then Inl (Contract_Failure ''input_operation_mismatch'')
      else case gx_capability gx of
          None \<Rightarrow> Inl (Contract_Failure ''input_capability_mismatch'')
        | Some cap \<Rightarrow>
            if Spawn_Action \<notin> set (cc_actions cap) \<or> si_role s \<notin> set (cc_roles cap)
               \<or> has_key (sg_nodes g) (si_id s) \<or> has_key (sg_reservations g) (si_id s) then
              Inl (Contract_Failure ''input_capability_mismatch'')
            else
              let observed = Option.bind (si_parent s) (map_of (sg_nodes g))
              in (case evaluate_graph_admission cap
                    \<lparr>gc_id = si_id s, gc_root = (case observed of None \<Rightarrow> si_id s | Some p \<Rightarrow> cn_root p),
                      gc_parent = si_parent s, gc_active = True\<rparr> (sg_nodes g) (sg_reservations g) of
                    Conflict \<Rightarrow> Inl (Contract_Failure ''input_operation_mismatch'')
                  | Capacity_Exceeded \<Rightarrow> Inl (Contract_Failure ''input_capability_mismatch'')
                  | Admitted parent \<Rightarrow>
                      Inr (g\<lparr>sg_reservations := map_set (si_id s) (si_parent s) (sg_reservations g),
                        sg_spawns := map_set (si_id s) (s, parent) (sg_spawns g)\<rparr>)))"

text \<open>
  How a call of the provider settles (\<open>delegateProviderMutation\<close>): it fails before the provider reported
  that execution started, it fails afterwards, or it returns a candidate.
\<close>

datatype 'a provider_result = Not_Started | Failed_Started | Returned 'a

definition spawned_node :: "graph_context \<Rightarrow> spawn_input \<Rightarrow> collaboration_node option \<Rightarrow> collaboration_node \<Rightarrow>
    session_failure + collaboration_node" where
  "spawned_node gx s parent candidate =
     and_then (validate_collaboration_node gx candidate None) (\<lambda>n.
       if cn_id n \<noteq> si_id s \<or> cn_parent n \<noteq> si_parent s \<or> cn_role n \<noteq> si_role s \<or> cn_title n \<noteq> si_title s
          \<or> cn_objective n \<noteq> si_objective s \<or> cn_created_at n \<noteq> si_created_at s
          \<or> cn_root n \<noteq> (case parent of None \<Rightarrow> si_id s | Some p \<Rightarrow> cn_root p) then
         Inl (Contract_Failure ''output_collaboration_mismatch'')
       else Inr n)"

definition fence_graph :: "session_graph \<Rightarrow> session_graph" where
  "fence_graph g = g\<lparr>sg_unusable := True\<rparr>"

definition spawn_settled :: "graph_context \<Rightarrow> string \<Rightarrow> collaboration_node provider_result \<Rightarrow> session_graph \<Rightarrow> session_graph" where
  "spawn_settled gx key result g =
     (case map_of (sg_spawns g) key of
        None \<Rightarrow> g
      | Some (s, parent) \<Rightarrow>
          let g' = g\<lparr>sg_spawns := map_del key (sg_spawns g)\<rparr>
          in (case result of
                Not_Started \<Rightarrow> g'\<lparr>sg_reservations := map_del key (sg_reservations g')\<rparr>
              | Failed_Started \<Rightarrow> fence_graph g'
              | Returned candidate \<Rightarrow>
                  (case spawned_node gx s parent candidate of
                     Inl e \<Rightarrow> fence_graph g'
                   | Inr n \<Rightarrow> (put_node n g')\<lparr>sg_reservations := map_del key (sg_reservations g')\<rparr>)))"

text \<open>What a control call returns at once: an error, or the node when a closed node is closed again.\<close>

definition control_begin ::
    "graph_context \<Rightarrow> control_input \<Rightarrow> session_graph \<Rightarrow> session_failure + (collaboration_node option \<times> session_graph)" where
  "control_begin gx c g =
     (if sg_unusable g then Inl (Contract_Failure ''session_unusable'')
      else if \<not> control_schema gx c then Inl (Contract_Failure ''input_operation_mismatch'')
      else case (gx_capability gx, map_of (sg_nodes g) (control_id c)) of
          (Some cap, Some previous) \<Rightarrow>
            if control_action_of c \<notin> set (cc_actions cap) then Inl (Contract_Failure ''input_capability_mismatch'')
            else
              let action = control_action_of c; terminal = terminal_status (cn_status previous)
              in if action = Close_Action \<and> cn_closed_at previous \<noteq> None then Inr (Some previous, g)
                 else if (action = Close_Action \<and> \<not> terminal) \<or> (action = Stop_Action \<and> terminal) \<or> (action = Steer_Action \<and> terminal)
                     \<or> (action \<noteq> Inspect_Action \<and> cn_closed_at previous \<noteq> None) then
                   Inl (Contract_Failure ''input_capability_mismatch'')
                 else Inr (None, g\<lparr>sg_controls := sg_controls g @ [(c, previous)]\<rparr>)
        | _ \<Rightarrow> Inl (Contract_Failure ''input_capability_mismatch''))"

definition controlled_node ::
    "graph_context \<Rightarrow> control_input \<Rightarrow> collaboration_node \<Rightarrow> collaboration_node \<Rightarrow> session_failure + collaboration_node" where
  "controlled_node gx c previous candidate =
     and_then (validate_collaboration_node gx candidate (Some previous)) (\<lambda>n.
       if (control_action_of c = Stop_Action \<and> cn_status n \<noteq> Node_Canceled)
          \<or> (control_action_of c = Close_Action \<and> (cn_status n \<noteq> cn_status previous \<or> cn_closed_at n = None)) then
         Inl (Contract_Failure ''output_collaboration_mismatch'')
       else Inr n)"

definition control_settled :: "graph_context \<Rightarrow> nat \<Rightarrow> collaboration_node provider_result \<Rightarrow> session_graph \<Rightarrow> session_graph" where
  "control_settled gx i result g =
     (if length (sg_controls g) \<le> i then g
      else case sg_controls g ! i of (c, previous) \<Rightarrow>
        let g' = g\<lparr>sg_controls := take i (sg_controls g) @ drop (Suc i) (sg_controls g)\<rparr>
        in (case result of
              Not_Started \<Rightarrow> g'
            | Failed_Started \<Rightarrow> fence_graph g'
            | Returned candidate \<Rightarrow>
                (case controlled_node gx c previous candidate of
                   Inl e \<Rightarrow> fence_graph g'
                 | Inr n \<Rightarrow> put_node n g')))"

text \<open>What can happen to the graph of a session.  A refused operation changes nothing.\<close>

inductive graph_step :: "graph_context \<Rightarrow> session_graph \<Rightarrow> session_graph \<Rightarrow> bool" for gx where
  step_observed: "observe_collaboration gx candidate g = Inr g' \<Longrightarrow> graph_step gx g g'"
| step_refused: "graph_step gx g (fence_graph g)"
| step_spawn: "spawn_begin gx s g = Inr g' \<Longrightarrow> graph_step gx g g'"
| step_spawned: "graph_step gx g (spawn_settled gx key result g)"
| step_control: "control_begin gx c g = Inr (answer, g') \<Longrightarrow> graph_step gx g g'"
| step_controlled: "graph_step gx g (control_settled gx i result g)"

end
