(* ===== verification/Session_Graph_Laws.thy ===== *)
theory Session_Graph_Laws
  imports Session_Graph
begin

text \<open>
  The collaboration graph stays a forest within its limits.  Root and parent of a node never change, so
  the argument is about the shape of the graph: the ids with their roots and parents, and the
  reservations of spawns that no node of the graph has taken up.
\<close>

section \<open>The shape of a graph\<close>

type_synonym graph_shape = "(string \<times> string \<times> string option) list"

definition shape_of :: "node_map \<Rightarrow> graph_shape" where
  "shape_of nodes = map (\<lambda>(k, n). (k, cn_root n, cn_parent n)) nodes"

inductive node_depth :: "graph_shape \<Rightarrow> string \<Rightarrow> nat \<Rightarrow> bool" for sh where
  root_depth: "map_of sh k = Some (r, None) \<Longrightarrow> node_depth sh k 1"
| child_depth: "map_of sh k = Some (r, Some p) \<Longrightarrow> node_depth sh p d \<Longrightarrow> node_depth sh k (Suc d)"

inductive_cases node_depthE: "node_depth sh k d"

definition shape_children :: "graph_shape \<Rightarrow> reservation_map \<Rightarrow> string \<Rightarrow> nat" where
  "shape_children sh res p =
     length (filter (\<lambda>(k, r, q). q = Some p) sh) + length (filter (\<lambda>(k, q). q = Some p) (unmaterialized sh res))"

definition links_ok :: "graph_shape \<Rightarrow> bool" where
  "links_ok sh \<longleftrightarrow> distinct (map fst sh) \<and>
     (\<forall>k r q. map_of sh k = Some (r, q) \<longrightarrow> (case q of None \<Rightarrow> r = k | Some p \<Rightarrow> \<exists>q'. map_of sh p = Some (r, q')))"

text \<open>Whether a node with this parent has a permitted depth.\<close>

definition depth_fits :: "collaboration_capability \<Rightarrow> graph_shape \<Rightarrow> string option \<Rightarrow> bool" where
  "depth_fits cap sh q \<longleftrightarrow> (case q of None \<Rightarrow> 1 \<le> cc_max_depth cap
     | Some p \<Rightarrow> \<exists>d. node_depth sh p d \<and> Suc d \<le> cc_max_depth cap)"

definition graph_ok :: "collaboration_capability \<Rightarrow> graph_shape \<Rightarrow> reservation_map \<Rightarrow> bool" where
  "graph_ok cap sh res \<longleftrightarrow> links_ok sh \<and> (\<forall>k \<in> fst ` set sh. \<exists>d \<le> cc_max_depth cap. node_depth sh k d) \<and>
     distinct (map fst res) \<and> (\<forall>(k, q) \<in> set (unmaterialized sh res). depth_fits cap sh q) \<and>
     (\<forall>p. shape_children sh res p \<le> cc_max_children cap) \<and>
     length sh + length (unmaterialized sh res) \<le> max_graph_nodes"

lemma graph_okD:
  assumes "graph_ok cap sh res"
  shows "links_ok sh" "k \<in> fst ` set sh \<Longrightarrow> \<exists>d \<le> cc_max_depth cap. node_depth sh k d" "distinct (map fst res)"
    "(k, q) \<in> set (unmaterialized sh res) \<Longrightarrow> depth_fits cap sh q" "shape_children sh res p \<le> cc_max_children cap"
    "length sh + length (unmaterialized sh res) \<le> max_graph_nodes"
  using assms by (auto simp: graph_ok_def)

lemma map_of_shape: "map_of (shape_of nodes) k = map_option (\<lambda>n. (cn_root n, cn_parent n)) (map_of nodes k)"
  by (induction nodes) (auto simp: shape_of_def)

lemma keys_shape: "fst ` set (shape_of nodes) = fst ` set nodes"
  by (force simp: shape_of_def)

lemma has_key_shape [simp]: "has_key (shape_of nodes) k = has_key nodes k"
  by (simp add: has_key_iff keys_shape)

lemma unmaterialized_shape [simp]: "unmaterialized (shape_of nodes) res = unmaterialized nodes res"
  by (simp add: unmaterialized_def)

lemma length_shape [simp]: "length (shape_of nodes) = length nodes"
  by (simp add: shape_of_def)

lemma child_count_shape: "child_count nodes res p = shape_children (shape_of nodes) res p"
proof -
  have "length (filter (\<lambda>(k, n). cn_parent n = Some p) nodes) = length (filter (\<lambda>(k, r, q). q = Some p) (shape_of nodes))"
    by (induction nodes) (auto simp: shape_of_def)
  then show ?thesis by (simp add: child_count_def shape_children_def)
qed

lemma shape_put_same:
  assumes "map_of nodes k = Some m" "cn_root n = cn_root m" "cn_parent n = cn_parent m"
  shows "shape_of (map_set k n nodes) = shape_of nodes"
  using assms by (induction nodes) (auto simp: shape_of_def split: if_splits)

lemma shape_put_new: "map_of nodes k = None \<Longrightarrow> shape_of (map_set k n nodes) = shape_of nodes @ [(k, cn_root n, cn_parent n)]"
  by (simp add: map_set_absent shape_of_def)

lemma map_of_snoc: "k \<notin> fst ` set m \<Longrightarrow> map_of (m @ [(k, v)]) k = Some v"
proof -
  assume "k \<notin> fst ` set m"
  then have "map_of m k = None" by (simp add: map_of_eq_None_iff)
  then show ?thesis by (simp add: map_add_def)
qed

lemma filter_twice_length: "length (filter P (filter Q xs)) \<le> length (filter P xs)"
  by (induction xs) auto

section \<open>Depth\<close>

lemma node_depth_key: "node_depth sh k d \<Longrightarrow> k \<in> fst ` set sh"
  by (cases rule: node_depth.cases, assumption) (metis map_of_SomeD fst_conv image_eqI)+

lemma node_depth_unique: "node_depth sh k d \<Longrightarrow> node_depth sh k d' \<Longrightarrow> d' = d"
proof (induction arbitrary: d' rule: node_depth.induct)
  case (root_depth k r)
  from root_depth(2,1) show ?case by (cases rule: node_depth.cases) auto
next
  case (child_depth k r p d)
  from child_depth(4,1) obtain d1 where "d' = Suc d1" "node_depth sh p d1" by (cases rule: node_depth.cases) auto
  then show ?case using child_depth(3) by simp
qed

lemma node_depth_append:
  assumes "node_depth sh k d" "x \<notin> fst ` set sh"
  shows "node_depth (sh @ [(x, v)]) k d"
  using assms(1)
proof (induction rule: node_depth.induct)
  case (root_depth k r)
  then show ?case by (intro node_depth.root_depth) (simp add: map_add_def)
next
  case (child_depth k r p d)
  have "map_of (sh @ [(x, v)]) k = Some (r, Some p)" using child_depth(1) by (simp add: map_add_def)
  then show ?case using child_depth(3) by (rule node_depth.child_depth)
qed

text \<open>The loop over the ancestors computes the depth of the parent.\<close>

lemma ancestor_depth_exact:
  "ancestor_depth nodes visited a depth = Some result \<Longrightarrow> map_of nodes (cn_id a) = Some a \<Longrightarrow>
   (\<forall>(k, n) \<in> set nodes. k = cn_id n) \<Longrightarrow> node_depth (shape_of nodes) (cn_id a) d \<Longrightarrow> result = depth + d"
proof (induction nodes visited a depth arbitrary: d rule: ancestor_depth.induct)
  case (1 nodes visited a depth)
  have shape: "map_of (shape_of nodes) (cn_id a) = Some (cn_root a, cn_parent a)" using 1(3) by (simp add: map_of_shape)
  have new: "cn_id a \<notin> set visited" using 1(2) by (auto simp: ancestor_depth.simps [of nodes visited a depth])
  show ?case
  proof (cases "cn_parent a")
    case None
    from 1(5) shape None have "d = 1" by (cases rule: node_depth.cases) auto
    then show ?thesis using 1(2) None new by (simp add: ancestor_depth.simps [of nodes visited a depth])
  next
    case (Some p)
    from 1(5) shape Some obtain d1 where d1: "d = Suc d1" "node_depth (shape_of nodes) p d1" by (cases rule: node_depth.cases) auto
    show ?thesis
    proof (cases "map_of nodes p")
      case None
      then show ?thesis using 1(2) Some new by (simp add: ancestor_depth.simps [of nodes visited a depth])
    next
      case (Some a')
      have "(p, a') \<in> set nodes" using Some by (rule map_of_SomeD)
      then have "cn_id a' = p" using 1(4) by auto
      moreover have "ancestor_depth nodes (cn_id a # visited) a' (depth + 1) = Some result"
        using 1(2) \<open>cn_parent a = Some p\<close> Some new by (simp add: ancestor_depth.simps [of nodes visited a depth])
      ultimately show ?thesis using 1(1) [OF new \<open>cn_parent a = Some p\<close> Some] Some 1(4) d1 by simp
    qed
  qed
qed

section \<open>Changes of the shape\<close>

lemma unmaterialized_append [simp]:
  "unmaterialized sh (res @ res') = unmaterialized sh res @ unmaterialized sh res'"
  by (simp add: unmaterialized_def)

lemma unmaterialized_single [simp]: "unmaterialized sh [(k, q)] = (if has_key sh k then [] else [(k, q)])"
  by (simp add: unmaterialized_def)

lemma unmaterialized_Nil [simp]: "unmaterialized sh [] = []"
  by (simp add: unmaterialized_def)

text \<open>A reservation is made.\<close>

lemma reserve_ok:
  assumes ok: "graph_ok cap sh res" and new: "k \<notin> fst ` set sh" "k \<notin> fst ` set res" and fits: "depth_fits cap sh q"
    and room: "\<And>p. q = Some p \<Longrightarrow> shape_children sh res p < cc_max_children cap"
      "length sh + length (unmaterialized sh res) < max_graph_nodes"
  shows "graph_ok cap sh (res @ [(k, q)])"
proof -
  have "shape_children sh (res @ [(k, q)]) p = shape_children sh res p + (if q = Some p then 1 else 0)" for p
    using new(1) by (simp add: shape_children_def has_key_iff)
  then have "shape_children sh (res @ [(k, q)]) p \<le> cc_max_children cap" for p
    using graph_okD(5) [OF ok, of p] room(1) [of p] by (cases "q = Some p") auto
  then show ?thesis using ok new fits room(2) by (auto simp: graph_ok_def has_key_iff)
qed

text \<open>A reservation is given back.\<close>

lemma unreserve_ok:
  assumes ok: "graph_ok cap sh res"
  shows "graph_ok cap sh (map_del k res)"
proof -
  have "unmaterialized sh (map_del k res) = filter (\<lambda>(k', q). k' \<noteq> k) (unmaterialized sh res)"
    by (simp add: unmaterialized_def map_del_def filter_filter conj_commute case_prod_beta)
  then have less: "length (filter P (unmaterialized sh (map_del k res))) \<le> length (filter P (unmaterialized sh res))" for P
    by (simp only: filter_twice_length)
  have sub: "set (unmaterialized sh (map_del k res)) \<subseteq> set (unmaterialized sh res)"
    by (auto simp: unmaterialized_def map_del_def)
  have "shape_children sh (map_del k res) p \<le> cc_max_children cap" for p
    using graph_okD(5) [OF ok, of p] less [of "\<lambda>(k, q). q = Some p"] by (simp add: shape_children_def)
  moreover have "length sh + length (unmaterialized sh (map_del k res)) \<le> max_graph_nodes"
    using graph_okD(6) [OF ok] less [of "\<lambda>_. True"] by simp
  ultimately show ?thesis using ok sub by (auto simp: graph_ok_def)
qed

text \<open>A node takes up its reservation.\<close>

lemma links_append:
  assumes "links_ok sh" "k \<notin> fst ` set sh" "case q of None \<Rightarrow> r = k | Some p \<Rightarrow> \<exists>q'. map_of sh p = Some (r, q')"
  shows "links_ok (sh @ [(k, r, q)])"
  unfolding links_ok_def
proof (intro conjI allI impI)
  show "distinct (map fst (sh @ [(k, r, q)]))" using assms(1,2) by (simp add: links_ok_def)
next
  fix k' r' q' assume "map_of (sh @ [(k, r, q)]) k' = Some (r', q')"
  moreover have "map_of sh p = Some (r', q'') \<Longrightarrow> \<exists>q'. map_of (sh @ [(k, r, q)]) p = Some (r', q')" for p q'' r'
    by (simp add: map_add_def)
  moreover have "map_of sh k = None" using assms(2) by (simp add: map_of_eq_None_iff)
  ultimately show "case q' of None \<Rightarrow> r' = k' | Some p \<Rightarrow> \<exists>q'. map_of (sh @ [(k, r, q)]) p = Some (r', q')"
    using assms(1,3) unfolding links_ok_def
    by (cases "k' = k"; cases q') (fastforce simp: map_add_Some_iff split: if_splits)+
qed

lemma unmaterialized_taken:
  assumes "distinct (map fst res)" "map_of res k = Some q" "k \<notin> fst ` set sh"
  shows "length (filter P (unmaterialized sh res)) =
    length (filter P (unmaterialized (sh @ [(k, v)]) res)) + (if P (k, q) then 1 else 0)"
  using assms(1,2)
proof (induction res)
  case (Cons kq res)
  obtain k' q' where kq: "kq = (k', q')" by (cases kq)
  have key: "has_key (sh @ [(k, v)]) k' \<longleftrightarrow> k' = k \<or> has_key sh k'" for k' by (auto simp: has_key_iff)
  show ?case
  proof (cases "k' = k")
    case True
    then have "unmaterialized (sh @ [(k, v)]) res = unmaterialized sh res"
      using Cons.prems(1) kq by (auto simp: unmaterialized_def key intro!: filter_cong) force
    then show ?thesis using True kq Cons.prems(2) assms(3) key by (simp add: unmaterialized_def has_key_iff)
  next
    case False
    then show ?thesis using Cons kq key by (simp add: unmaterialized_def)
  qed
qed simp

lemma materialize_ok:
  assumes ok: "graph_ok cap sh res" and new: "k \<notin> fst ` set sh" and reserved: "map_of res k = Some q"
    and link: "case q of None \<Rightarrow> r = k | Some p \<Rightarrow> \<exists>q'. map_of sh p = Some (r, q')"
  shows "graph_ok cap (sh @ [(k, r, q)]) res"
proof -
  note distinct = graph_okD(3) [OF ok]
  note taken = unmaterialized_taken [OF distinct reserved new, where v = "(r, q)"]
  have "(k, q) \<in> set (unmaterialized sh res)"
    using map_of_SomeD [OF reserved] new by (auto simp: unmaterialized_def has_key_iff)
  then have fits: "depth_fits cap sh q" by (rule graph_okD(4) [OF ok])
  have grow: "node_depth sh p d \<Longrightarrow> node_depth (sh @ [(k, r, q)]) p d" for p d using node_depth_append new by blast
  have here: "\<exists>d \<le> cc_max_depth cap. node_depth (sh @ [(k, r, q)]) k d"
  proof (cases q)
    case None
    have "node_depth (sh @ [(k, r, None)]) k 1" using new by (intro root_depth [of _ _ r] map_of_snoc)
    then show ?thesis using fits None by (auto simp: depth_fits_def)
  next
    case (Some p)
    then obtain d where d: "node_depth sh p d" "Suc d \<le> cc_max_depth cap" using fits by (auto simp: depth_fits_def)
    have "map_of (sh @ [(k, r, Some p)]) k = Some (r, Some p)" using new by (rule map_of_snoc)
    then have "node_depth (sh @ [(k, r, q)]) k (Suc d)" using child_depth grow [OF d(1)] unfolding Some by blast
    then show ?thesis using d(2) by blast
  qed
  have depths: "\<exists>d \<le> cc_max_depth cap. node_depth (sh @ [(k, r, q)]) k' d" if "k' \<in> fst ` set (sh @ [(k, r, q)])" for k'
  proof (cases "k' = k")
    case False
    then show ?thesis using that graph_okD(2) [OF ok, of k'] grow by fastforce
  qed (use here in simp)
  have fitting: "depth_fits cap (sh @ [(k, r, q)]) q'" if "(k', q') \<in> set (unmaterialized (sh @ [(k, r, q)]) res)" for k' q'
  proof -
    have "(k', q') \<in> set (unmaterialized sh res)" using that by (auto simp: unmaterialized_def has_key_iff)
    then have "depth_fits cap sh q'" by (rule graph_okD(4) [OF ok])
    then show ?thesis using grow by (auto simp: depth_fits_def split: option.splits)
  qed
  have children: "shape_children (sh @ [(k, r, q)]) res p = shape_children sh res p" for p
    using taken [of "\<lambda>(k, q). q = Some p"] by (simp add: shape_children_def)
  have amount: "length (sh @ [(k, r, q)]) + length (unmaterialized (sh @ [(k, r, q)]) res) \<le> max_graph_nodes"
    using taken [of "\<lambda>_. True"] graph_okD(6) [OF ok] by simp
  show ?thesis
    unfolding graph_ok_def
  proof (intro conjI)
    show "links_ok (sh @ [(k, r, q)])" using graph_okD(1) [OF ok] new link by (rule links_append)
    show "\<forall>k' \<in> fst ` set (sh @ [(k, r, q)]). \<exists>d \<le> cc_max_depth cap. node_depth (sh @ [(k, r, q)]) k' d"
      using depths by blast
    show "\<forall>(k', q') \<in> set (unmaterialized (sh @ [(k, r, q)]) res). depth_fits cap (sh @ [(k, r, q)]) q'"
      using fitting by blast
    show "\<forall>p. shape_children (sh @ [(k, r, q)]) res p \<le> cc_max_children cap" unfolding children using graph_okD(5) [OF ok] by blast
  qed (fact distinct, fact amount)
qed

text \<open>A node comes without one.\<close>

lemma add_node_ok:
  assumes ok: "graph_ok cap sh res" and new: "k \<notin> fst ` set sh" "k \<notin> fst ` set res" and fits: "depth_fits cap sh q"
    and room: "\<And>p. q = Some p \<Longrightarrow> shape_children sh res p < cc_max_children cap"
      "length sh + length (unmaterialized sh res) < max_graph_nodes"
    and link: "case q of None \<Rightarrow> r = k | Some p \<Rightarrow> \<exists>q'. map_of sh p = Some (r, q')"
  shows "graph_ok cap (sh @ [(k, r, q)]) res"
proof -
  have "map_of (res @ [(k, q)]) k = Some q" using new(2) by (rule map_of_snoc)
  then have "graph_ok cap (sh @ [(k, r, q)]) (map_del k (res @ [(k, q)]))"
    by (intro unreserve_ok materialize_ok reserve_ok ok new fits room link)
  moreover have "map_del k (res @ [(k, q)]) = res"
    using new(2) by (force simp: map_del_def filter_id_conv)
  ultimately show ?thesis by simp
qed

section \<open>The invariant of a session\<close>

text \<open>The root that a node with this parent must have.\<close>

definition expected_root :: "string \<Rightarrow> collaboration_node option \<Rightarrow> string" where
  "expected_root k parent = (case parent of None \<Rightarrow> k | Some p \<Rightarrow> cn_root p)"

definition spawn_ok :: "node_map \<Rightarrow> reservation_map \<Rightarrow> string \<Rightarrow> spawn_input \<Rightarrow> collaboration_node option \<Rightarrow> bool" where
  "spawn_ok nodes res k s parent \<longleftrightarrow> si_id s = k \<and> map_of res k = Some (si_parent s) \<and>
     (case si_parent s of None \<Rightarrow> parent = None
      | Some q \<Rightarrow> \<exists>p m. parent = Some p \<and> map_of nodes q = Some m \<and> cn_root m = cn_root p) \<and>
     (\<forall>m. map_of nodes k = Some m \<longrightarrow> cn_parent m = si_parent s)"

definition control_ok :: "node_map \<Rightarrow> collaboration_node \<Rightarrow> bool" where
  "control_ok nodes previous \<longleftrightarrow> (\<exists>m. map_of nodes (cn_id previous) = Some m \<and> cn_root m = cn_root previous \<and> cn_parent m = cn_parent previous)"

definition session_ok :: "collaboration_capability \<Rightarrow> session_graph \<Rightarrow> bool" where
  "session_ok cap g \<longleftrightarrow> graph_ok cap (shape_of (sg_nodes g)) (sg_reservations g) \<and>
     (\<forall>(k, n) \<in> set (sg_nodes g). k = cn_id n) \<and> distinct (map fst (sg_spawns g)) \<and>
     (\<forall>(k, s, parent) \<in> set (sg_spawns g). spawn_ok (sg_nodes g) (sg_reservations g) k s parent) \<and> (\<forall>(c, previous) \<in> set (sg_controls g). control_ok (sg_nodes g) previous)"

lemma session_okD:
  assumes "session_ok cap g"
  shows "graph_ok cap (shape_of (sg_nodes g)) (sg_reservations g)" "map_of (sg_nodes g) k = Some n \<Longrightarrow> cn_id n = k"
    "\<forall>(k, n) \<in> set (sg_nodes g). k = cn_id n"
    "map_of (sg_spawns g) k = Some (s, parent) \<Longrightarrow> spawn_ok (sg_nodes g) (sg_reservations g) k s parent" "(c, previous) \<in> set (sg_controls g) \<Longrightarrow> control_ok (sg_nodes g) previous"
    "distinct (map fst (sg_spawns g))" "links_ok (shape_of (sg_nodes g))"
  using assms by (auto simp: session_ok_def graph_ok_def dest: map_of_SomeD)

lemma validate_collaboration_node_Inr:
  assumes "validate_collaboration_node gx n previous = Inr n'"
  shows "n' = n" "node_schema gx n" "previous = Some p \<Longrightarrow> same_node_identity p n \<and> cn_status n \<in> set (node_successors (cn_status p))"
  using assms by (auto simp: validate_collaboration_node_def split: option.splits if_splits)

lemma node_schema_root: "node_schema gx n \<Longrightarrow> cn_parent n = None \<Longrightarrow> cn_root n = cn_id n"
  by (simp add: node_schema_def Let_def)

text \<open>An update of a node keeps its root and parent, so everything stays as it is.\<close>

lemma put_same_ok:
  assumes ok: "session_ok cap g" and same: "map_of (sg_nodes g) (cn_id n) = Some m" "cn_root n = cn_root m" "cn_parent n = cn_parent m"
  shows "session_ok cap (put_node n g)"
proof -
  have spawns: "spawn_ok (sg_nodes g) (sg_reservations g) k s parent \<Longrightarrow> spawn_ok (sg_nodes (put_node n g)) (sg_reservations (put_node n g)) k s parent" for k s parent
    using same by (auto simp: spawn_ok_def put_node_def split: option.splits)
  have controls: "control_ok (sg_nodes g) previous \<Longrightarrow> control_ok (sg_nodes (put_node n g)) previous" for previous
    using same by (auto simp: control_ok_def put_node_def)
  have "\<forall>(k, n') \<in> set (map_set (cn_id n) n (sg_nodes g)). k = cn_id n'"
    using session_okD(3) [OF ok] by (auto dest!: in_set_map_set)
  then show ?thesis
    using ok spawns controls shape_put_same [OF same]
    by (auto simp: session_ok_def put_node_def)
qed

text \<open>A new node is added whose graph has been checked.\<close>

lemma put_new_ok:
  assumes ok: "session_ok cap g" and new: "map_of (sg_nodes g) (cn_id n) = None"
    and graph: "graph_ok cap (shape_of (sg_nodes g) @ [(cn_id n, cn_root n, cn_parent n)]) (sg_reservations g)"
    and reserved: "\<And>q. map_of (sg_reservations g) (cn_id n) = Some q \<Longrightarrow> cn_parent n = q"
  shows "session_ok cap (put_node n g)"
proof -
  have spawns: "spawn_ok (sg_nodes g) (sg_reservations g) k s parent \<Longrightarrow> spawn_ok (sg_nodes (put_node n g)) (sg_reservations (put_node n g)) k s parent" for k s parent
    using new reserved by (auto simp: spawn_ok_def put_node_def split: option.splits)
  have controls: "control_ok (sg_nodes g) previous \<Longrightarrow> control_ok (sg_nodes (put_node n g)) previous" for previous
    using new by (auto simp: control_ok_def put_node_def)
  have "\<forall>(k, n') \<in> set (map_set (cn_id n) n (sg_nodes g)). k = cn_id n'"
    using session_okD(3) [OF ok] by (auto dest!: in_set_map_set)
  then show ?thesis
    using ok spawns controls shape_put_new [OF new] graph
    by (auto simp: session_ok_def put_node_def)
qed

section \<open>Admission\<close>

text \<open>What an admission of a new id says.\<close>

lemma admitted_new:
  assumes ok: "session_ok cap g" and new: "map_of (sg_nodes g) (gc_id c) = None"
    and admitted: "evaluate_graph_admission cap c (sg_nodes g) (sg_reservations g) = Admitted parent"
  shows "parent = Option.bind (gc_parent c) (map_of (sg_nodes g))" "parent_usable c parent"
    "map_of (sg_reservations g) (gc_id c) = Some q \<Longrightarrow> q = gc_parent c"
    "map_of (sg_reservations g) (gc_id c) = None \<Longrightarrow>
       depth_fits cap (shape_of (sg_nodes g)) (gc_parent c) \<and>
       (\<forall>p. gc_parent c = Some p \<longrightarrow> shape_children (shape_of (sg_nodes g)) (sg_reservations g) p < cc_max_children cap) \<and>
       length (sg_nodes g) + length (unmaterialized (sg_nodes g) (sg_reservations g)) < max_graph_nodes \<and>
       (gc_active c \<longrightarrow> working_count (sg_nodes g) (sg_reservations g) < cc_max_active cap)"
proof -
  let ?parent = "Option.bind (gc_parent c) (map_of (sg_nodes g))"
  let ?depth = "case ?parent of None \<Rightarrow> Some 1 | Some p \<Rightarrow> ancestor_depth (sg_nodes g) [gc_id c] p 1"
  have usable: "parent_usable c ?parent" and parent: "parent = ?parent"
    and reserved: "map_of (sg_reservations g) (gc_id c) = Some q \<Longrightarrow> q = gc_parent c" for q
    using admitted new by (auto simp: evaluate_graph_admission_def Let_def split: if_splits option.splits)
  from parent show "parent = ?parent" .
  from usable parent show "parent_usable c parent" by simp
  from reserved show "map_of (sg_reservations g) (gc_id c) = Some q \<Longrightarrow> q = gc_parent c" .
  assume free: "map_of (sg_reservations g) (gc_id c) = None"
  obtain depth where depth: "?depth = Some depth"
    using admitted new by (cases ?depth) (auto simp: evaluate_graph_admission_def Let_def split: if_splits)
  have room: "length (sg_nodes g) + length (unmaterialized (sg_nodes g) (sg_reservations g)) < max_graph_nodes"
      "(case ?parent of None \<Rightarrow> 0 | Some p \<Rightarrow> child_count (sg_nodes g) (sg_reservations g) (cn_id p)) < cc_max_children cap"
      "depth \<le> cc_max_depth cap" "gc_active c \<longrightarrow> working_count (sg_nodes g) (sg_reservations g) < cc_max_active cap"
    using admitted new free usable depth by (auto simp: evaluate_graph_admission_def Let_def not_le split: if_splits)
  have "depth_fits cap (shape_of (sg_nodes g)) (gc_parent c) \<and>
      (\<forall>p. gc_parent c = Some p \<longrightarrow> shape_children (shape_of (sg_nodes g)) (sg_reservations g) p < cc_max_children cap)"
  proof (cases "gc_parent c")
    case None
    then show ?thesis using depth room(3) by (simp add: depth_fits_def)
  next
    case (Some p)
    then obtain m where m: "map_of (sg_nodes g) p = Some m" using usable by (auto simp: parent_usable_def split: option.splits)
    have id: "cn_id m = p" using session_okD(2) [OF ok m] .
    have "p \<in> fst ` set (shape_of (sg_nodes g))" using m by (metis keys_shape map_of_SomeD fst_conv image_eqI)
    then obtain d where d: "node_depth (shape_of (sg_nodes g)) p d" using graph_okD(2) [OF session_okD(1) [OF ok]] by blast
    have "depth = 1 + d"
      using ancestor_depth_exact [of "sg_nodes g" "[gc_id c]" m 1 depth d] depth Some m id d session_okD(3) [OF ok] by simp
    then show ?thesis using d room(2,3) Some m id by (auto simp: depth_fits_def child_count_shape)
  qed
  then show "depth_fits cap (shape_of (sg_nodes g)) (gc_parent c) \<and>
      (\<forall>p. gc_parent c = Some p \<longrightarrow> shape_children (shape_of (sg_nodes g)) (sg_reservations g) p < cc_max_children cap) \<and>
      length (sg_nodes g) + length (unmaterialized (sg_nodes g) (sg_reservations g)) < max_graph_nodes \<and>
      (gc_active c \<longrightarrow> working_count (sg_nodes g) (sg_reservations g) < cc_max_active cap)"
    using room(1,4) by blast
qed

text \<open>The link of a candidate to a usable parent.\<close>

lemma usable_link:
  assumes "parent_usable c (Option.bind (gc_parent c) (map_of nodes))"
  shows "case gc_parent c of None \<Rightarrow> gc_root c = gc_id c | Some p \<Rightarrow> \<exists>q'. map_of (shape_of nodes) p = Some (gc_root c, q')"
  using assms by (auto simp: parent_usable_def map_of_shape split: option.splits)

lemma new_key: "map_of m k = None \<Longrightarrow> k \<notin> fst ` set m"
  by (simp add: map_of_eq_None_iff)

lemma observe_collaboration_Inr:
  assumes step: "observe_collaboration gx candidate g = Inr g'" and cap: "gx_capability gx = Some cap"
  obtains parent where "validate_collaboration_node gx candidate (map_of (sg_nodes g) (cn_id candidate)) = Inr candidate"
    "evaluate_graph_admission cap
       \<lparr>gc_id = cn_id candidate, gc_root = cn_root candidate, gc_parent = cn_parent candidate,
         gc_active = \<not> terminal_status (cn_status candidate)\<rparr> (sg_nodes g) (sg_reservations g) = Admitted parent"
    "g' = put_node candidate g"
proof -
  have valid: "validate_collaboration_node gx candidate (map_of (sg_nodes g) (cn_id candidate)) = Inr candidate"
    using step validate_collaboration_node_Inr(1) by (auto simp: observe_collaboration_def and_then_eq_Inr)
  then show ?thesis using that step cap by (auto simp: observe_collaboration_def split: graph_admission.splits)
qed

lemma observe_collaboration_ok:
  assumes ok: "session_ok cap g" and cap: "gx_capability gx = Some cap" and step: "observe_collaboration gx candidate g = Inr g'"
  shows "session_ok cap g'"
proof -
  let ?old = "map_of (sg_nodes g) (cn_id candidate)"
  let ?c = "\<lparr>gc_id = cn_id candidate, gc_root = cn_root candidate, gc_parent = cn_parent candidate,
    gc_active = \<not> terminal_status (cn_status candidate)\<rparr>"
  obtain parent where valid: "validate_collaboration_node gx candidate ?old = Inr candidate"
    and admitted: "evaluate_graph_admission cap ?c (sg_nodes g) (sg_reservations g) = Admitted parent"
    and g': "g' = put_node candidate g"
    by (rule observe_collaboration_Inr [OF step cap])
  show ?thesis
  proof (cases ?old)
    case (Some m)
    then have "same_node_identity m candidate" using validate_collaboration_node_Inr(3) [OF valid] by blast
    then show ?thesis unfolding g' using put_same_ok [OF ok Some] by (simp add: same_node_identity_def)
  next
    case None
    then have new: "map_of (sg_nodes g) (gc_id ?c) = None" by simp
    note adm = admitted_new [OF ok new admitted]
    have link: "case cn_parent candidate of None \<Rightarrow> cn_root candidate = cn_id candidate
        | Some p \<Rightarrow> \<exists>q'. map_of (shape_of (sg_nodes g)) p = Some (cn_root candidate, q')"
      using usable_link [of ?c "sg_nodes g"] adm(1,2) by (auto split: option.splits)
    have key: "cn_id candidate \<notin> fst ` set (shape_of (sg_nodes g))" using new_key [OF None] by (simp add: keys_shape)
    have "graph_ok cap (shape_of (sg_nodes g) @ [(cn_id candidate, cn_root candidate, cn_parent candidate)]) (sg_reservations g)"
    proof (cases "map_of (sg_reservations g) (cn_id candidate)")
      case None
      then show ?thesis using adm(4) new_key [OF None] link key
        by (intro add_node_ok session_okD(1) [OF ok]) auto
    next
      case (Some q)
      then have "q = cn_parent candidate" using adm(3) by simp
      then show ?thesis using Some link key by (intro materialize_ok session_okD(1) [OF ok]) auto
    qed
    then show ?thesis unfolding g' using adm(3) None by (intro put_new_ok ok) auto
  qed
qed


text \<open>
  Every operation of a session keeps the collaboration graph a forest within its limits; the bound on
  active nodes holds as long as no late result of a call puts a settled node back to work, which the
  runtime does not check.
\<close>

section \<open>Spawning\<close>

lemma spawn_begin_Inr:
  assumes "spawn_begin gx s g = Inr g'" "gx_capability gx = Some cap"
  obtains parent where "evaluate_graph_admission cap
        \<lparr>gc_id = si_id s, gc_root = (case Option.bind (si_parent s) (map_of (sg_nodes g)) of None \<Rightarrow> si_id s | Some p \<Rightarrow> cn_root p),
          gc_parent = si_parent s, gc_active = True\<rparr> (sg_nodes g) (sg_reservations g) = Admitted parent"
    "map_of (sg_nodes g) (si_id s) = None" "map_of (sg_reservations g) (si_id s) = None"
    "g' = g\<lparr>sg_reservations := map_set (si_id s) (si_parent s) (sg_reservations g),
       sg_spawns := map_set (si_id s) (s, parent) (sg_spawns g)\<rparr>"
  using assms by (auto simp: spawn_begin_def Let_def has_key_def split: if_splits graph_admission.splits)

lemma spawn_begin_ok:
  assumes ok: "session_ok cap g" and cap: "gx_capability gx = Some cap" and step: "spawn_begin gx s g = Inr g'"
  shows "session_ok cap g'"
proof -
  obtain parent where admitted: "evaluate_graph_admission cap
        \<lparr>gc_id = si_id s, gc_root = (case Option.bind (si_parent s) (map_of (sg_nodes g)) of None \<Rightarrow> si_id s | Some p \<Rightarrow> cn_root p),
          gc_parent = si_parent s, gc_active = True\<rparr> (sg_nodes g) (sg_reservations g) = Admitted parent"
    and new: "map_of (sg_nodes g) (si_id s) = None" "map_of (sg_reservations g) (si_id s) = None"
    and g': "g' = g\<lparr>sg_reservations := map_set (si_id s) (si_parent s) (sg_reservations g),
       sg_spawns := map_set (si_id s) (s, parent) (sg_spawns g)\<rparr>"
    by (rule spawn_begin_Inr [OF step cap])
  note adm = admitted_new [OF ok _ admitted, simplified, OF new(1)]
  have reserve: "map_set (si_id s) (si_parent s) (sg_reservations g) = sg_reservations g @ [(si_id s, si_parent s)]"
    using new(2) by (rule map_set_absent)
  have "graph_ok cap (shape_of (sg_nodes g)) (sg_reservations g @ [(si_id s, si_parent s)])"
    using adm(4) [OF new(2)] new_key [OF new(1)] new_key [OF new(2)]
    by (intro reserve_ok session_okD(1) [OF ok]) (auto simp: keys_shape)
  moreover have "spawn_ok (sg_nodes g') (sg_reservations g') k s' parent'" if spawn: "(k, s', parent') \<in> set (map_set (si_id s) (s, parent) (sg_spawns g))" for k s' parent'
  proof (cases "(k, s', parent') = (si_id s, s, parent)")
    case True
    have "parent = Option.bind (si_parent s) (map_of (sg_nodes g))" "si_parent s \<noteq> None \<longrightarrow> parent \<noteq> None"
      using adm(1,2) by (auto simp: parent_usable_def split: option.splits)
    then show ?thesis using True new(1) unfolding g' by (auto simp: spawn_ok_def split: option.splits)
  next
    case False
    then have "(k, s', parent') \<in> set (sg_spawns g)" using spawn by (auto dest: in_set_map_set)
    then have old: "spawn_ok (sg_nodes g) (sg_reservations g) k s' parent'" using ok by (auto simp: session_ok_def)
    then have "k \<noteq> si_id s" using new(2) by (auto simp: spawn_ok_def)
    then show ?thesis using old unfolding g' by (auto simp: spawn_ok_def split: option.splits)
  qed
  moreover have "control_ok (sg_nodes g') previous" if "control_ok (sg_nodes g) previous" for previous
    using that unfolding g' by (simp add: control_ok_def)
  ultimately show ?thesis using ok reserve unfolding session_ok_def g' by auto
qed

text \<open>The reservation of a spawn that ended is given back.\<close>

lemma unreserve_session_ok:
  assumes ok: "session_ok cap g" and ended: "map_of (sg_spawns g) key = None"
  shows "session_ok cap (g\<lparr>sg_reservations := map_del key (sg_reservations g)\<rparr>)"
proof -
  have "k \<noteq> key" if "(k, s, parent) \<in> set (sg_spawns g)" for k s parent
    using new_key [OF ended] that by force
  then have "spawn_ok (sg_nodes g) (map_del key (sg_reservations g)) k s parent" if "(k, s, parent) \<in> set (sg_spawns g)" for k s parent
    using that ok by (auto simp: session_ok_def spawn_ok_def)
  then show ?thesis using ok unreserve_ok by (auto simp: session_ok_def control_ok_def)
qed

lemma end_spawn_ok: "session_ok cap g \<Longrightarrow> session_ok cap (g\<lparr>sg_spawns := map_del key (sg_spawns g)\<rparr>)"
  by (auto simp: session_ok_def spawn_ok_def control_ok_def map_del_def distinct_map intro: inj_on_subset)

lemma fence_graph_ok [simp]: "session_ok cap (fence_graph g) = session_ok cap g"
  by (simp add: session_ok_def spawn_ok_def control_ok_def fence_graph_def)

lemma spawned_node_Inr:
  assumes "spawned_node gx s parent candidate = Inr n"
  shows "cn_id n = si_id s" "cn_parent n = si_parent s" "cn_root n = expected_root (si_id s) parent"
  using assms by (auto simp: spawned_node_def and_then_eq_Inr expected_root_def split: if_splits)

text \<open>The node a spawn returns fits where its reservation was made.\<close>

lemma spawn_result_ok:
  assumes ok: "session_ok cap g" and spawn: "spawn_ok (sg_nodes g) (sg_reservations g) key s parent"
    and n: "cn_id n = si_id s" "cn_parent n = si_parent s" "cn_root n = expected_root (si_id s) parent"
  shows "session_ok cap (put_node n g)"
proof -
  have key: "cn_id n = key" and reserved: "map_of (sg_reservations g) key = Some (cn_parent n)"
    using spawn n by (simp_all add: spawn_ok_def)
  have link: "case cn_parent n of None \<Rightarrow> cn_root n = cn_id n | Some p \<Rightarrow> \<exists>q'. map_of (shape_of (sg_nodes g)) p = Some (cn_root n, q')"
    using spawn n by (auto simp: spawn_ok_def expected_root_def map_of_shape split: option.splits)
  show ?thesis
  proof (cases "map_of (sg_nodes g) key")
    case (Some m)
    have parents: "cn_parent m = cn_parent n" using spawn Some n(2) by (simp add: spawn_ok_def)
    have "map_of (shape_of (sg_nodes g)) key = Some (cn_root m, cn_parent m)" using Some by (simp add: map_of_shape)
    then have "case cn_parent m of None \<Rightarrow> cn_root m = key | Some p \<Rightarrow> \<exists>q'. map_of (shape_of (sg_nodes g)) p = Some (cn_root m, q')"
      using session_okD(7) [OF ok] unfolding links_ok_def by blast
    then have "cn_root n = cn_root m" using link parents key by (cases "cn_parent n") auto
    then show ?thesis using put_same_ok [OF ok, of n m] Some key parents by simp
  next
    case None
    have "cn_id n \<notin> fst ` set (shape_of (sg_nodes g))" using new_key [OF None] unfolding key keys_shape .
    moreover have "map_of (sg_reservations g) (cn_id n) = Some (cn_parent n)" using reserved unfolding key .
    ultimately have "graph_ok cap (shape_of (sg_nodes g) @ [(cn_id n, cn_root n, cn_parent n)]) (sg_reservations g)"
      using link by (rule materialize_ok [OF session_okD(1) [OF ok]])
    moreover have "map_of (sg_nodes g) (cn_id n) = None" using None unfolding key .
    ultimately show ?thesis by (intro put_new_ok [OF ok]) (use reserved key in auto)
  qed
qed

lemma spawn_settled_ok:
  assumes ok: "session_ok cap g"
  shows "session_ok cap (spawn_settled gx key result g)"
proof (cases "map_of (sg_spawns g) key")
  case None
  then show ?thesis using ok by (simp add: spawn_settled_def)
next
  case (Some sp)
  obtain s parent where sp: "sp = (s, parent)" by (cases sp)
  let ?g = "g\<lparr>sg_spawns := map_del key (sg_spawns g)\<rparr>"
  have ok': "session_ok cap ?g" using ok by (rule end_spawn_ok)
  have ended: "map_of (sg_spawns ?g) key = None" by simp
  have spawn: "spawn_ok (sg_nodes ?g) (sg_reservations ?g) key s parent" using session_okD(4) [OF ok] Some sp by (auto simp: spawn_ok_def)
  have "session_ok cap (put_node n ?g)" if "spawned_node gx s parent candidate = Inr n" for candidate n
    using spawn_result_ok [OF ok' spawn spawned_node_Inr [OF that]] .
  then have put: "session_ok cap ((put_node n ?g)\<lparr>sg_reservations := map_del key (sg_reservations ?g)\<rparr>)"
    if "spawned_node gx s parent candidate = Inr n" for candidate n
    using that unreserve_session_ok [of cap "put_node n ?g" key] ended by (simp add: put_node_def)
  show ?thesis
    using Some sp ok' unreserve_session_ok [OF ok' ended] put
    by (auto simp: spawn_settled_def Let_def split: provider_result.splits sum.splits)
qed

section \<open>Control\<close>

lemma control_begin_ok:
  assumes ok: "session_ok cap g" and step: "control_begin gx c g = Inr (answer, g')"
  shows "session_ok cap g'"
proof (cases "map_of (sg_nodes g) (control_id c)")
  case (Some previous)
  have "control_ok (sg_nodes g) previous" using Some session_okD(2) [OF ok Some] by (simp add: control_ok_def)
  then have "session_ok cap (g\<lparr>sg_controls := sg_controls g @ [(c, previous)]\<rparr>)"
    using ok by (auto simp: session_ok_def spawn_ok_def control_ok_def)
  then show ?thesis using step ok Some by (auto simp: control_begin_def Let_def split: if_splits option.splits)
qed (use step in \<open>auto simp: control_begin_def split: if_splits option.splits\<close>)

lemma controlled_node_Inr:
  "controlled_node gx c previous candidate = Inr n \<Longrightarrow>
     cn_id n = cn_id previous \<and> cn_root n = cn_root previous \<and> cn_parent n = cn_parent previous"
  using validate_collaboration_node_Inr [of gx candidate "Some previous"]
  by (fastforce simp: controlled_node_def and_then_eq_Inr same_node_identity_def split: if_splits)

lemma control_settled_ok:
  assumes ok: "session_ok cap g"
  shows "session_ok cap (control_settled gx i result g)"
proof (cases "length (sg_controls g) \<le> i")
  case False
  obtain c previous where cp: "sg_controls g ! i = (c, previous)" by (cases "sg_controls g ! i")
  have member: "(c, previous) \<in> set (sg_controls g)" using False cp by (metis nth_mem not_le)
  let ?g = "g\<lparr>sg_controls := take i (sg_controls g) @ drop (Suc i) (sg_controls g)\<rparr>"
  have "set (take i (sg_controls g) @ drop (Suc i) (sg_controls g)) \<subseteq> set (sg_controls g)"
    by (auto dest: in_set_takeD in_set_dropD)
  then have ok': "session_ok cap ?g" using ok by (auto simp: session_ok_def spawn_ok_def control_ok_def)
  obtain m where m: "map_of (sg_nodes g) (cn_id previous) = Some m" "cn_root m = cn_root previous" "cn_parent m = cn_parent previous"
    using session_okD(5) [OF ok member] by (auto simp: control_ok_def)
  have "session_ok cap (put_node n ?g)" if "controlled_node gx c previous candidate = Inr n" for candidate n
    using controlled_node_Inr [OF that] m by (intro put_same_ok [OF ok', of n m]) simp_all
  then show ?thesis using False cp ok'
    by (auto simp: control_settled_def Let_def split: provider_result.splits sum.splits)
qed (simp add: control_settled_def ok)

section \<open>Every reachable state\<close>

lemma graph_step_ok:
  assumes "graph_step gx g g'" "session_ok cap g" "gx_capability gx = Some cap"
  shows "session_ok cap g'"
  using assms
  by (cases rule: graph_step.cases)
    (auto intro: observe_collaboration_ok spawn_begin_ok spawn_settled_ok control_begin_ok control_settled_ok)

lemma empty_graph_ok: "session_ok cap empty_graph"
  by (simp add: session_ok_def empty_graph_def graph_ok_def links_ok_def shape_of_def shape_children_def max_graph_nodes_def)

lemma graph_steps_ok:
  assumes "(graph_step gx)\<^sup>*\<^sup>* empty_graph g" "gx_capability gx = Some cap"
  shows "session_ok cap g"
  using assms by (induction rule: rtranclp_induct) (auto intro: empty_graph_ok graph_step_ok)

end
