(* ===== verification/Session_Graph_Properties.thy ===== *)
theory Session_Graph_Properties
  imports Session_Graph_Laws
begin

text \<open>
  The properties of the collaboration graph, and a run of the session in which a late result of a
  spawn breaks its bound on active nodes.
\<close>

section \<open>Active nodes\<close>

definition active_node :: "collaboration_node \<Rightarrow> nat" where
  "active_node n = (if terminal_status (cn_status n) then 0 else 1)"

lemma has_key_put: "map_of nodes k = Some m \<Longrightarrow> has_key (map_set k n nodes) = has_key nodes"
  by (auto simp: fun_eq_iff has_key_def)

lemma active_put_same:
  assumes "map_of nodes k = Some m"
  shows "working_count (map_set k n nodes) res + active_node m = working_count nodes res + active_node n"
proof -
  have "length (filter (\<lambda>(k, n). \<not> terminal_status (cn_status n)) (map_set k n nodes)) + active_node m =
      length (filter (\<lambda>(k, n). \<not> terminal_status (cn_status n)) nodes) + active_node n"
    using assms by (induction nodes) (auto simp: active_node_def split: if_splits)
  then show ?thesis using has_key_put [OF assms] by (simp add: working_count_def unmaterialized_def)
qed

lemma active_put_new:
  assumes new: "map_of nodes k = None" and distinct: "distinct (map fst res)"
  shows "working_count (map_set k n nodes) res + (if map_of res k = None then 0 else 1) = working_count nodes res + active_node n"
proof -
  have put: "map_set k n nodes = nodes @ [(k, n)]" using new by (rule map_set_absent)
  have waiting: "length (unmaterialized nodes res) = length (unmaterialized (nodes @ [(k, n)]) res) + (if map_of res k = None then 0 else 1)"
  proof (cases "map_of res k")
    case None
    then have "unmaterialized (nodes @ [(k, n)]) res = unmaterialized nodes res"
      using new_key [OF None] by (force simp: unmaterialized_def has_key_iff intro!: filter_cong)
    then show ?thesis using None by simp
  next
    case (Some q)
    then show ?thesis using unmaterialized_taken [OF distinct Some, where P = "\<lambda>_. True"] new_key [OF new] by simp
  qed
  show ?thesis unfolding put using waiting by (simp add: working_count_def active_node_def)
qed

lemma active_reserve:
  "map_of nodes k = None \<Longrightarrow> map_of res k = None \<Longrightarrow> working_count nodes (map_set k q res) = working_count nodes res + 1"
  by (simp add: working_count_def map_set_absent has_key_def)

lemma active_unreserve: "working_count nodes (map_del k res) \<le> working_count nodes res"
proof -
  have "unmaterialized nodes (map_del k res) = filter (\<lambda>(k', q). k' \<noteq> k) (unmaterialized nodes res)"
    by (simp add: unmaterialized_def map_del_def filter_filter conj_commute case_prod_beta)
  then show ?thesis by (simp add: working_count_def)
qed

text \<open>A step that puts no settled node back to work.\<close>

definition steady :: "session_graph \<Rightarrow> session_graph \<Rightarrow> bool" where
  "steady g g' \<longleftrightarrow> (\<forall>k m n. map_of (sg_nodes g) k = Some m \<and> map_of (sg_nodes g') k = Some n \<and>
     terminal_status (cn_status m) \<longrightarrow> terminal_status (cn_status n))"

definition graph_active :: "session_graph \<Rightarrow> nat" where
  "graph_active g = working_count (sg_nodes g) (sg_reservations g)"

lemma put_same_active:
  assumes "map_of (sg_nodes g) (cn_id n) = Some m" "terminal_status (cn_status m) \<longrightarrow> terminal_status (cn_status n)"
  shows "graph_active (put_node n g) \<le> graph_active g"
  using active_put_same [OF assms(1), of n "sg_reservations g"] assms(2)
  by (auto simp: graph_active_def put_node_def active_node_def split: if_splits)

lemma observe_active:
  assumes ok: "session_ok cap g" and cap: "gx_capability gx = Some cap" and step: "observe_collaboration gx candidate g = Inr g'"
    and bound: "graph_active g \<le> cc_max_active cap" and steady: "steady g g'"
  shows "graph_active g' \<le> cc_max_active cap"
proof -
  let ?c = "\<lparr>gc_id = cn_id candidate, gc_root = cn_root candidate, gc_parent = cn_parent candidate,
    gc_active = \<not> terminal_status (cn_status candidate)\<rparr>"
  obtain parent where admitted: "evaluate_graph_admission cap ?c (sg_nodes g) (sg_reservations g) = Admitted parent"
    and g': "g' = put_node candidate g"
    by (rule observe_collaboration_Inr [OF step cap])
  show ?thesis
  proof (cases "map_of (sg_nodes g) (cn_id candidate)")
    case (Some m)
    moreover have "map_of (sg_nodes g') (cn_id candidate) = Some candidate" by (simp add: g' put_node_def)
    ultimately have "terminal_status (cn_status m) \<longrightarrow> terminal_status (cn_status candidate)"
      using steady unfolding steady_def by blast
    then show ?thesis unfolding g' using put_same_active [OF Some] bound by (meson le_trans)
  next
    case None
    note new = active_put_new [OF None graph_okD(3) [OF session_okD(1) [OF ok]], of candidate]
    have "map_of (sg_reservations g) (cn_id candidate) = None \<Longrightarrow> \<not> terminal_status (cn_status candidate) \<Longrightarrow>
        graph_active g < cc_max_active cap"
      using admitted_new(4) [OF ok _ admitted] None by (simp add: graph_active_def)
    then show ?thesis using new bound unfolding g'
      by (auto simp: graph_active_def put_node_def active_node_def split: if_splits)
  qed
qed

lemma spawn_settled_active:
  assumes ok: "session_ok cap g" and bound: "graph_active g \<le> cc_max_active cap"
    and steady: "steady g (spawn_settled gx key result g)"
  shows "graph_active (spawn_settled gx key result g) \<le> cc_max_active cap"
proof (cases "map_of (sg_spawns g) key")
  case (Some sp)
  obtain s parent where sp: "sp = (s, parent)" by (cases sp)
  have reserved: "map_of (sg_reservations g) (si_id s) = Some (si_parent s)" "si_id s = key"
    using session_okD(4) [OF ok] Some sp by (auto simp: spawn_ok_def)
  have given_back: "graph_active (g'\<lparr>sg_reservations := map_del key (sg_reservations g')\<rparr>) \<le> graph_active g'" for g'
    by (simp add: graph_active_def active_unreserve)
  have returned: "graph_active (put_node n g) \<le> cc_max_active cap"
    if n: "spawned_node gx s parent candidate = Inr n" and result: "result = Returned candidate" for candidate n
  proof (cases "map_of (sg_nodes g) (cn_id n)")
    case old: (Some m)
    have "map_of (sg_nodes (spawn_settled gx key result g)) (cn_id n) = Some n"
      using Some sp n result by (simp add: spawn_settled_def Let_def put_node_def)
    then have "terminal_status (cn_status m) \<longrightarrow> terminal_status (cn_status n)" using steady old unfolding steady_def by blast
    then show ?thesis using put_same_active [OF old] bound by (meson le_trans)
  next
    case None
    then show ?thesis
      using active_put_new [OF None graph_okD(3) [OF session_okD(1) [OF ok]], of n] reserved spawned_node_Inr(1) [OF n] bound
      by (auto simp: graph_active_def put_node_def active_node_def split: if_splits)
  qed
  have plain: "graph_active (g\<lparr>sg_spawns := sps\<rparr>) = graph_active g" "graph_active (fence_graph g') = graph_active g'"
    "put_node n (g\<lparr>sg_spawns := sps\<rparr>) = put_node n g\<lparr>sg_spawns := sps\<rparr>"
    "graph_active (put_node n g\<lparr>sg_spawns := sps\<rparr>) = graph_active (put_node n g)"
    "sg_reservations (put_node n g) = sg_reservations g" for sps g' n
    by (simp_all add: graph_active_def fence_graph_def put_node_def)
  show ?thesis
  proof (cases result)
    case Not_Started
    then show ?thesis using Some sp bound given_back [of "g\<lparr>sg_spawns := map_del key (sg_spawns g)\<rparr>"]
      by (simp add: spawn_settled_def Let_def plain)
  next
    case Failed_Started
    then show ?thesis using Some sp bound by (simp add: spawn_settled_def Let_def plain)
  next
    case (Returned candidate)
    show ?thesis
    proof (cases "spawned_node gx s parent candidate")
      case (Inl e)
      then show ?thesis using Returned Some sp bound by (simp add: spawn_settled_def Let_def plain)
    next
      case (Inr n)
      then show ?thesis using Returned Some sp returned [OF Inr Returned] given_back [of "put_node n (g\<lparr>sg_spawns := map_del key (sg_spawns g)\<rparr>)"]
        by (simp add: spawn_settled_def Let_def plain)
    qed
  qed
qed (simp add: spawn_settled_def bound)

lemma control_settled_active:
  assumes ok: "session_ok cap g" and bound: "graph_active g \<le> cc_max_active cap"
    and steady: "steady g (control_settled gx i result g)"
  shows "graph_active (control_settled gx i result g) \<le> cc_max_active cap"
proof (cases "length (sg_controls g) \<le> i")
  case False
  obtain c previous where cp: "sg_controls g ! i = (c, previous)" by (cases "sg_controls g ! i")
  have member: "(c, previous) \<in> set (sg_controls g)" using False cp by (metis nth_mem not_le)
  obtain m where m: "map_of (sg_nodes g) (cn_id previous) = Some m"
    using session_okD(5) [OF ok member] by (auto simp: control_ok_def)
  have plain: "graph_active (g\<lparr>sg_controls := cs\<rparr>) = graph_active g" "graph_active (fence_graph g') = graph_active g'"
    "graph_active (put_node n (g\<lparr>sg_controls := cs\<rparr>)) = graph_active (put_node n g)" for cs g' n
    by (simp_all add: graph_active_def fence_graph_def put_node_def)
  have "graph_active (put_node n g) \<le> cc_max_active cap"
    if n: "controlled_node gx c previous candidate = Inr n" and result: "result = Returned candidate" for candidate n
  proof -
    have key: "map_of (sg_nodes g) (cn_id n) = Some m" using controlled_node_Inr [OF n] m by simp
    have "map_of (sg_nodes (control_settled gx i result g)) (cn_id n) = Some n"
      using False cp n result by (simp add: control_settled_def Let_def put_node_def)
    then have "terminal_status (cn_status m) \<longrightarrow> terminal_status (cn_status n)" using steady key unfolding steady_def by blast
    then show ?thesis using put_same_active [OF key] bound by (meson le_trans)
  qed
  then show ?thesis using False cp bound
    by (auto simp: control_settled_def Let_def plain split: provider_result.splits sum.splits)
qed (simp add: control_settled_def bound)

lemma graph_step_active:
  assumes "graph_step gx g g'" "session_ok cap g" "gx_capability gx = Some cap" "steady g g'" "graph_active g \<le> cc_max_active cap"
  shows "graph_active g' \<le> cc_max_active cap"
  using assms(1)
proof (cases rule: graph_step.cases)
  case (step_observed candidate)
  then show ?thesis using observe_active assms by blast
next
  case (step_spawn s)
  obtain parent where admitted: "evaluate_graph_admission cap
        \<lparr>gc_id = si_id s, gc_root = (case Option.bind (si_parent s) (map_of (sg_nodes g)) of None \<Rightarrow> si_id s | Some p \<Rightarrow> cn_root p),
          gc_parent = si_parent s, gc_active = True\<rparr> (sg_nodes g) (sg_reservations g) = Admitted parent"
    and new: "map_of (sg_nodes g) (si_id s) = None" "map_of (sg_reservations g) (si_id s) = None"
    and g': "g' = g\<lparr>sg_reservations := map_set (si_id s) (si_parent s) (sg_reservations g),
       sg_spawns := map_set (si_id s) (s, parent) (sg_spawns g)\<rparr>"
    by (rule spawn_begin_Inr [OF step_spawn assms(3)])
  have "graph_active g < cc_max_active cap"
    using admitted_new(4) [OF assms(2) _ admitted, simplified, OF new] by (simp add: graph_active_def)
  then show ?thesis using active_reserve [OF new] unfolding g' by (simp add: graph_active_def)
next
  case (step_control c answer)
  then have "graph_active g' = graph_active g"
    by (auto simp: control_begin_def Let_def graph_active_def split: if_splits option.splits)
  then show ?thesis using assms(5) by simp
qed (use assms spawn_settled_active control_settled_active in \<open>auto simp: graph_active_def fence_graph_def\<close>)

section \<open>The properties\<close>

text \<open>
  C39. In every state a session can reach, whatever its provider reports and however calls overlap, the
  collaboration graph is a forest within its limits: every node is kept under its id; a root is its
  own root, and any other node has a parent in the graph with the same root; the way up to the root
  is no longer than the declared depth (and so has no cycle); no node has more children, running
  spawns included, than declared; and nodes and spawns together are at most one hundred.
\<close>

theorem collaboration_graph_forest:
  assumes "gx_capability gx = Some cap" "(graph_step gx)\<^sup>*\<^sup>* empty_graph g"
  shows "distinct (map fst (sg_nodes g)) \<and>
    (\<forall>k n. map_of (sg_nodes g) k = Some n \<longrightarrow> cn_id n = k \<and>
       (case cn_parent n of None \<Rightarrow> cn_root n = k
        | Some p \<Rightarrow> \<exists>m. map_of (sg_nodes g) p = Some m \<and> cn_root m = cn_root n) \<and>
       (\<exists>d \<le> cc_max_depth cap. node_depth (shape_of (sg_nodes g)) k d)) \<and>
    (\<forall>p. child_count (sg_nodes g) (sg_reservations g) p \<le> cc_max_children cap) \<and>
    length (sg_nodes g) + length (unmaterialized (sg_nodes g) (sg_reservations g)) \<le> max_graph_nodes"
proof -
  have ok: "session_ok cap g" using graph_steps_ok assms by blast
  note graph = session_okD(1) [OF ok]
  have keys: "map fst (shape_of (sg_nodes g)) = map fst (sg_nodes g)" by (induction "sg_nodes g") (auto simp: shape_of_def)
  then have "distinct (map fst (sg_nodes g))" using session_okD(7) [OF ok] unfolding links_ok_def by metis
  moreover have "cn_id n = k \<and>
       (case cn_parent n of None \<Rightarrow> cn_root n = k
        | Some p \<Rightarrow> \<exists>m. map_of (sg_nodes g) p = Some m \<and> cn_root m = cn_root n) \<and>
       (\<exists>d \<le> cc_max_depth cap. node_depth (shape_of (sg_nodes g)) k d)" if n: "map_of (sg_nodes g) k = Some n" for k n
  proof -
    have "map_of (shape_of (sg_nodes g)) k = Some (cn_root n, cn_parent n)" using n by (simp add: map_of_shape)
    then have "case cn_parent n of None \<Rightarrow> cn_root n = k | Some p \<Rightarrow> \<exists>q'. map_of (shape_of (sg_nodes g)) p = Some (cn_root n, q')"
      using session_okD(7) [OF ok] unfolding links_ok_def by blast
    moreover have "k \<in> fst ` set (shape_of (sg_nodes g))" using map_of_SomeD [OF n] unfolding keys_shape by force
    ultimately show ?thesis using session_okD(2) [OF ok n] graph_okD(2) [OF graph, of k]
      by (auto simp: map_of_shape split: option.splits)
  qed
  ultimately show ?thesis using graph_okD(5,6) [OF graph] by (auto simp: child_count_shape)
qed

text \<open>
  C40. As long as no result of a call puts a completed, failed or canceled node back to work, the nodes
  that are active and the spawns that are running are at most as many as the provider declared.
\<close>

theorem collaboration_active_bounded:
  assumes "gx_capability gx = Some cap" "(\<lambda>g g'. graph_step gx g g' \<and> steady g g')\<^sup>*\<^sup>* empty_graph g"
  shows "working_count (sg_nodes g) (sg_reservations g) \<le> cc_max_active cap"
proof -
  have "session_ok cap g \<and> graph_active g \<le> cc_max_active cap"
    using assms(2)
  proof (induction rule: rtranclp_induct)
    case base
    show ?case using empty_graph_ok by (simp add: graph_active_def empty_graph_def working_count_def)
  next
    case (step g g')
    then show ?case using graph_step_ok graph_step_active assms(1) by blast
  qed
  then show ?thesis by (simp add: graph_active_def)
qed

section \<open>A session\<close>

definition sample_node :: "string \<Rightarrow> collaboration_status \<Rightarrow> collaboration_outcome option \<Rightarrow> string option \<Rightarrow> collaboration_node" where
  "sample_node k status out terminal_at =
     \<lparr>cn_id = k, cn_root = k, cn_parent = None, cn_role = Reviewer_Role, cn_title = ''t'', cn_status = status,
       cn_objective = ''o'', cn_progress = None, cn_usage = Usage_Unavailable, cn_outcome = out,
       cn_created_at = ''2026-01-01T00:00:00Z'', cn_updated_at = ''2026-01-01T00:00:01Z'', cn_terminal_at = terminal_at,
       cn_closed_at = None, cn_artifact_ids = None, cn_resource_ids = None\<rparr>"

definition sample_spawn :: "string \<Rightarrow> spawn_input" where
  "sample_spawn k = \<lparr>si_id = k, si_parent = None, si_role = Reviewer_Role, si_title = ''t'', si_objective = ''o'',
     si_created_at = ''2026-01-01T00:00:00Z''\<rparr>"

definition one_active :: collaboration_capability where
  "one_active = \<lparr>cc_roles = [Reviewer_Role], cc_actions = [Spawn_Action], cc_max_depth = 1, cc_max_children = 1, cc_max_active = 1\<rparr>"

definition sample_graph_context :: graph_context where
  "sample_graph_context =
     \<lparr>gx_externals = \<lparr>sha256_hex = (\<lambda>s. s), zod_uuid = (\<lambda>s. True), zod_iso_datetime = (\<lambda>s. date_parse s \<noteq> None),
         zod_iso_datetime_offset = (\<lambda>s. date_parse s \<noteq> None), zod_url = (\<lambda>s. True), zod_base64 = (\<lambda>s. True)\<rparr>,
       gx_valid_error = (\<lambda>e. True), gx_capability = Some one_active\<rparr>"

text \<open>The first spawn is observed to complete while its call runs; another one starts; then the first call returns it as running.\<close>

definition succeeded :: "session_failure + session_graph \<Rightarrow> session_graph" where
  "succeeded r = (case r of Inl e \<Rightarrow> empty_graph | Inr g \<Rightarrow> g)"

definition spawned_a :: session_graph where
  "spawned_a = succeeded (spawn_begin sample_graph_context (sample_spawn ''a'') empty_graph)"

definition completed_a :: session_graph where
  "completed_a = succeeded (observe_collaboration sample_graph_context
     (sample_node ''a'' Node_Completed (Some Outcome_Completed) (Some ''2026-01-01T00:00:01Z'')) spawned_a)"

definition spawned_b :: session_graph where
  "spawned_b = succeeded (spawn_begin sample_graph_context (sample_spawn ''b'') completed_a)"

definition revived_a :: session_graph where
  "revived_a = spawn_settled sample_graph_context ''a'' (Returned (sample_node ''a'' Node_Running None None)) spawned_b"

lemma sample_steps:
  "graph_step sample_graph_context empty_graph spawned_a" "graph_step sample_graph_context spawned_a completed_a"
  "graph_step sample_graph_context completed_a spawned_b" "graph_step sample_graph_context spawned_b revived_a"
proof -
  have "spawn_begin sample_graph_context (sample_spawn ''a'') empty_graph = Inr spawned_a" by code_simp
  then show "graph_step sample_graph_context empty_graph spawned_a" by (rule step_spawn)
  have "observe_collaboration sample_graph_context
     (sample_node ''a'' Node_Completed (Some Outcome_Completed) (Some ''2026-01-01T00:00:01Z'')) spawned_a = Inr completed_a" by code_simp
  then show "graph_step sample_graph_context spawned_a completed_a" by (rule step_observed)
  have "spawn_begin sample_graph_context (sample_spawn ''b'') completed_a = Inr spawned_b" by code_simp
  then show "graph_step sample_graph_context completed_a spawned_b" by (rule step_spawn)
  show "graph_step sample_graph_context spawned_b revived_a" unfolding revived_a_def by (rule step_spawned)
qed

lemma collaboration_graph_forest_witness:
  "child_count (sg_nodes completed_a) (sg_reservations completed_a) ''a'' \<le> 1 \<and> map fst (sg_nodes completed_a) = [''a'']"
proof -
  have "(graph_step sample_graph_context)\<^sup>*\<^sup>* empty_graph completed_a"
    using sample_steps(1,2) by (meson converse_rtranclp_into_rtranclp rtranclp.rtrancl_refl)
  moreover have "map fst (sg_nodes completed_a) = [''a'']" by code_simp
  ultimately show ?thesis
    using collaboration_graph_forest [of sample_graph_context one_active completed_a]
    by (auto simp: sample_graph_context_def one_active_def)
qed

lemma collaboration_active_bounded_witness:
  "working_count (sg_nodes spawned_b) (sg_reservations spawned_b) \<le> 1 \<and> map fst (sg_reservations spawned_b) = [''a'', ''b'']"
proof -
  have nodes: "sg_nodes spawned_a = []" "sg_nodes spawned_b = sg_nodes completed_a" "sg_nodes empty_graph = []" by code_simp+
  let ?step = "\<lambda>g g'. graph_step sample_graph_context g g' \<and> steady g g'"
  have "steady empty_graph spawned_a" "steady spawned_a completed_a" "steady completed_a spawned_b"
    using nodes by (auto simp: steady_def)
  then have "?step empty_graph spawned_a" "?step spawned_a completed_a" "?step completed_a spawned_b"
    using sample_steps(1-3) by blast+
  then have "?step\<^sup>*\<^sup>* empty_graph spawned_b" by (rule rtranclp.rtrancl_into_rtrancl [OF rtranclp.rtrancl_into_rtrancl [OF r_into_rtranclp]])
  moreover have "map fst (sg_reservations spawned_b) = [''a'', ''b'']" by code_simp
  ultimately show ?thesis
    using collaboration_active_bounded [of sample_graph_context one_active spawned_b]
    by (simp add: sample_graph_context_def one_active_def)
qed

text \<open>The completed node is running again, and two are active where the provider declared one.\<close>

theorem spawn_result_revives_node:
  "(graph_step sample_graph_context)\<^sup>*\<^sup>* empty_graph revived_a \<and>
   map_option cn_status (map_of (sg_nodes spawned_b) ''a'') = Some Node_Completed \<and>
   map_option cn_status (map_of (sg_nodes revived_a) ''a'') = Some Node_Running \<and>
   working_count (sg_nodes revived_a) (sg_reservations revived_a) = 2"
proof (intro conjI)
  show "(graph_step sample_graph_context)\<^sup>*\<^sup>* empty_graph revived_a"
    using sample_steps by (meson converse_rtranclp_into_rtranclp rtranclp.rtrancl_refl)
qed code_simp+

end
