(* ===== verification/Session_Results.thy ===== *)
theory Session_Results
  imports Session_Graph
begin

text \<open>
  What a session retains of operations and generated resources: their schemas
  (\<open>agent-protocol/src/zod/operations.ts\<close> and \<open>zod/resources.ts\<close>) and the lifecycles that
  \<open>agent-runtime/src/interactionValidation.ts\<close> holds a provider to.
\<close>

section \<open>Operation results\<close>

datatype operation_status = Op_Accepted | Op_Completed | Op_Failed | Op_Canceled | Op_Waiting

record operation_result =
  or_invocation_id :: string
  or_status :: operation_status
  or_artifact_ids :: "string list option"
  or_resource_ids :: "string list option"
  or_output_text :: "string option"
  or_error :: "json option"

fun operation_successors :: "operation_status \<Rightarrow> operation_status list" where
  "operation_successors Op_Accepted = [Op_Accepted, Op_Waiting, Op_Completed, Op_Failed, Op_Canceled]"
| "operation_successors Op_Waiting = [Op_Waiting, Op_Accepted, Op_Completed, Op_Failed, Op_Canceled]"
| "operation_successors Op_Completed = [Op_Completed]"
| "operation_successors Op_Failed = [Op_Failed]"
| "operation_successors Op_Canceled = [Op_Canceled]"

definition validate_operation_result_transition ::
    "operation_result \<Rightarrow> operation_result option \<Rightarrow> session_failure + operation_result" where
  "validate_operation_result_transition candidate previous =
     (case previous of
        None \<Rightarrow> Inr candidate
      | Some p \<Rightarrow>
          if or_status candidate \<notin> set (operation_successors (or_status p)) then
            Inl (Contract_Failure ''invalid_operation_result'')
          else if or_status p \<in> {Op_Completed, Op_Failed, Op_Canceled} \<and> p \<noteq> candidate then
            Inl (Contract_Failure ''invalid_operation_result'')
          else Inr candidate)"

section \<open>Generated resources\<close>

datatype resource_kind = Image_Resource | Document_Resource | Archive_Resource
datatype resource_status = Resource_Pending | Resource_Available | Resource_Unavailable | Resource_Expired

datatype resource_producer =
    Session_Producer string
  | Turn_Producer string
  | Operation_Producer string
  | Collaboration_Producer string

record generated_resource =
  gr_id :: string
  gr_kind :: resource_kind
  gr_status :: resource_status
  gr_display_name :: string
  gr_producer :: resource_producer
  gr_summary :: "string option"
  gr_media_type :: "string option"
  gr_byte_size :: "int option"
  gr_sha256 :: "string option"
  gr_width_pixels :: "int option"
  gr_height_pixels :: "int option"
  gr_page_count :: "int option"
  gr_artifact_id :: "string option"
  gr_created_at :: string
  gr_expires_at :: "string option"
  gr_error :: "json option"

record resource_capability =
  rc_kinds :: "resource_kind list"
  rc_max_per_turn :: nat
  rc_max_bytes :: int

definition optional_that :: "('a \<Rightarrow> bool) \<Rightarrow> 'a option \<Rightarrow> bool" where
  "optional_that P x = (case x of None \<Rightarrow> True | Some v \<Rightarrow> P v)"

definition media_type_char :: "char \<Rightarrow> bool" where
  "media_type_char c \<longleftrightarrow> is_digit c \<or> (97 \<le> code_unit c \<and> code_unit c \<le> 122) \<or> c \<in> set ''!#$&^_.+-''"

definition media_type_pattern :: "string \<Rightarrow> bool" where
  "media_type_pattern s \<longleftrightarrow> 1 \<le> length s \<and> length s \<le> 200 \<and>
     (let top = takeWhile (\<lambda>c. c \<noteq> CHR ''/'') s; sub = drop (length top + 1) s
      in top \<noteq> [] \<and> length top < length s \<and> sub \<noteq> [] \<and> list_all media_type_char top \<and> list_all media_type_char sub)"

fun producer_schema :: "resource_producer \<Rightarrow> bool" where
  "producer_schema (Session_Producer i) = agent_canonical_id i"
| "producer_schema (Turn_Producer i) = agent_canonical_id i"
| "producer_schema (Operation_Producer i) = agent_canonical_id i"
| "producer_schema (Collaboration_Producer i) = agent_canonical_id i"

definition portable_resource_schema :: "graph_context \<Rightarrow> generated_resource \<Rightarrow> bool" where
  "portable_resource_schema gx r \<longleftrightarrow>
     agent_canonical_id (gr_id r) \<and> canonical_non_blank_string 200 (gr_display_name r) \<and> producer_schema (gr_producer r) \<and>
     optional_that (canonical_non_blank_string 2000) (gr_summary r) \<and> optional_that media_type_pattern (gr_media_type r) \<and>
     optional_that (\<lambda>n. 0 \<le> n \<and> n \<le> max_safe_integer) (gr_byte_size r) \<and> optional_that hex_digest (gr_sha256 r) \<and>
     optional_that positive_safe (gr_width_pixels r) \<and> optional_that positive_safe (gr_height_pixels r) \<and>
     optional_that positive_safe (gr_page_count r) \<and> optional_that agent_canonical_id (gr_artifact_id r) \<and>
     zod_iso_datetime_offset (gx_externals gx) (gr_created_at r) \<and> optional_at (gx_externals gx) (gr_expires_at r) \<and>
     optional_that (gx_valid_error gx) (gr_error r)"

definition resource_schema :: "graph_context \<Rightarrow> generated_resource \<Rightarrow> bool" where
  "resource_schema gx r \<longleftrightarrow> portable_resource_schema gx r \<and>
     (let available = (gr_status r = Resource_Available)
      in available = (gr_artifact_id r \<noteq> None) \<and> available = (gr_sha256 r \<noteq> None) \<and>
         (available \<longrightarrow> gr_byte_size r \<noteq> None \<and> gr_media_type r \<noteq> None) \<and>
         (gr_status r = Resource_Unavailable) = (gr_error r \<noteq> None) \<and>
         (gr_status r = Resource_Expired \<longrightarrow> gr_expires_at r \<noteq> None) \<and>
         (gr_width_pixels r = None) = (gr_height_pixels r = None) \<and>
         (available \<and> gr_kind r = Image_Resource \<longrightarrow> gr_width_pixels r \<noteq> None) \<and>
         (gr_kind r \<noteq> Image_Resource \<longrightarrow> gr_width_pixels r = None) \<and>
         (gr_kind r \<noteq> Document_Resource \<longrightarrow> gr_page_count r = None) \<and>
         optional_that (\<lambda>e. \<not> js_le (date_parse e) (date_parse (gr_created_at r))) (gr_expires_at r))"

fun resource_successors :: "resource_status \<Rightarrow> resource_status list" where
  "resource_successors Resource_Pending = [Resource_Pending, Resource_Available, Resource_Unavailable, Resource_Expired]"
| "resource_successors Resource_Available = [Resource_Available, Resource_Expired]"
| "resource_successors Resource_Unavailable = [Resource_Unavailable, Resource_Expired]"
| "resource_successors Resource_Expired = [Resource_Expired]"

definition resource_may_follow :: "generated_resource \<Rightarrow> generated_resource \<Rightarrow> bool" where
  "resource_may_follow previous r \<longleftrightarrow>
     gr_kind r = gr_kind previous \<and> gr_display_name r = gr_display_name previous \<and> gr_producer r = gr_producer previous \<and>
     gr_created_at r = gr_created_at previous \<and> gr_status r \<in> set (resource_successors (gr_status previous)) \<and>
     \<not> (gr_status previous \<noteq> Resource_Pending \<and> gr_status previous = gr_status r \<and> r \<noteq> previous)"

definition validate_generated_resource ::
    "graph_context \<Rightarrow> resource_capability option \<Rightarrow> string \<Rightarrow> generated_resource \<Rightarrow> generated_resource option \<Rightarrow>
     session_failure + generated_resource" where
  "validate_generated_resource gx capability expected r previous =
     (if \<not> resource_schema gx r then Inl (Contract_Failure ''output_resource_mismatch'')
      else case capability of
          None \<Rightarrow> Inl (Contract_Failure ''output_resource_mismatch'')
        | Some cap \<Rightarrow>
            if gr_id r \<noteq> expected \<or> gr_kind r \<notin> set (rc_kinds cap)
               \<or> (case gr_byte_size r of None \<Rightarrow> False | Some n \<Rightarrow> rc_max_bytes cap < n) then
              Inl (Contract_Failure ''output_resource_mismatch'')
            else (case previous of
                None \<Rightarrow> Inr r
              | Some p \<Rightarrow> if resource_may_follow p r then Inr r else Inl (Contract_Failure ''output_resource_mismatch'')))"

end
