(* ===== verification/Turn_Requests.thy ===== *)
theory Turn_Requests
  imports Session_Results
begin

text \<open>
  Who may be asked what: the identities of a session's requests (\<open>agent-runtime/src/sessionAdmission.ts\<close>) and
  the request admission of one turn execution (\<open>turnExecution/requests.ts\<close>).

  A request is the provider's question to the user.  It is answerable, withheld while an interruption is
  under way, claimed by one attempt to answer it, or retired.  Attempts and interruptions are
  JavaScript symbols; here they are numbers that are never used twice.  \<open>canRestore\<close> and
  \<open>canRestoreRequest\<close> are arguments, which the execution of a turn instantiates.
\<close>

section \<open>Identities of a session (sessionAdmission.ts)\<close>

record request_identities =
  ri_ids :: "string list"
  ri_bytes :: int

definition claim_request :: "string \<Rightarrow> string \<Rightarrow> request_identities \<Rightarrow> session_failure + request_identities" where
  "claim_request rid duplicate_code ids =
     (if rid \<in> set (ri_ids ids) then Inl (Contract_Failure duplicate_code)
      else if 4096 \<le> length (ri_ids ids) \<or> 1048576 < ri_bytes ids + utf8_bytes rid then
        Inl (Contract_Failure ''request_identity_limit_exceeded'')
      else Inr \<lparr>ri_ids = ri_ids ids @ [rid], ri_bytes = ri_bytes ids + utf8_bytes rid\<rparr>)"

section \<open>Requests of a turn (requests.ts)\<close>

text \<open>The subject of an approval; a question to the user that asks for data has none.\<close>

datatype approval_subject = Plan_Subject string | Item_Subject string

record agent_request =
  rq_id :: string
  rq_subject :: "approval_subject option"

datatype eligibility =
    Answerable agent_request
  | Withheld agent_request
  | Claimed agent_request nat
  | Retired

record request_entry =
  re_eligibility :: eligibility
  re_retirement_observed :: bool
  re_suspensions :: "nat list"

record turn_requests =
  tr_entries :: "(string \<times> request_entry) list"
  tr_pending :: "(string \<times> agent_request) list"
  tr_suspended :: "nat list"
  tr_symbols :: nat

definition no_requests :: turn_requests where
  "no_requests = \<lparr>tr_entries = [], tr_pending = [], tr_suspended = [], tr_symbols = 0\<rparr>"

definition put_entry :: "string \<Rightarrow> request_entry \<Rightarrow> turn_requests \<Rightarrow> turn_requests" where
  "put_entry rid e q = q\<lparr>tr_entries := map_set rid e (tr_entries q)\<rparr>"

definition retire_request :: "string \<Rightarrow> turn_requests \<Rightarrow> turn_requests" where
  "retire_request rid q =
     (case map_of (tr_entries q) rid of
        None \<Rightarrow> q
      | Some e \<Rightarrow> (put_entry rid (e\<lparr>re_eligibility := Retired, re_suspensions := []\<rparr>) q)\<lparr>tr_pending := map_del rid (tr_pending q)\<rparr>)"

text \<open>The first withheld request that nothing suspends becomes answerable; dead ones before it are retired.\<close>

fun restore_first :: "(agent_request \<Rightarrow> bool) \<Rightarrow> string list \<Rightarrow> turn_requests \<Rightarrow> turn_requests" where
  "restore_first live [] q = q"
| "restore_first live (rid # rids) q =
     (case map_of (tr_entries q) rid of
        Some e \<Rightarrow>
          (case re_eligibility e of
             Withheld r \<Rightarrow>
               if re_suspensions e \<noteq> [] then restore_first live rids q
               else if \<not> live r then restore_first live rids (retire_request rid q)
               else (put_entry rid (e\<lparr>re_eligibility := Answerable r\<rparr>) q)\<lparr>tr_pending := map_set rid r (tr_pending q)\<rparr>
           | _ \<Rightarrow> restore_first live rids q)
      | None \<Rightarrow> restore_first live rids q)"

definition restore_ready :: "bool \<Rightarrow> (agent_request \<Rightarrow> bool) \<Rightarrow> turn_requests \<Rightarrow> turn_requests" where
  "restore_ready can live q =
     (if \<not> can \<or> tr_pending q \<noteq> [] then q else restore_first live (map fst (tr_entries q)) q)"

definition withdraw_requests :: "turn_requests \<Rightarrow> turn_requests" where
  "withdraw_requests q = fold retire_request (map fst (tr_entries q)) q"

definition claim_answer ::
    "bool \<Rightarrow> (agent_request \<Rightarrow> bool) \<Rightarrow> string \<Rightarrow> agent_request \<Rightarrow> turn_requests \<Rightarrow> session_failure + (nat \<times> turn_requests)" where
  "claim_answer can live rid pending q =
     (case map_of (tr_entries q) rid of
        Some e \<Rightarrow>
          if re_eligibility e \<noteq> Answerable pending then Inl (Contract_Failure ''request_resolution_mismatch'')
          else
            let attempt = tr_symbols q;
                q' = (put_entry rid (e\<lparr>re_eligibility := Claimed pending attempt\<rparr>) q)\<lparr>tr_pending := map_del rid (tr_pending q),
                  tr_symbols := Suc attempt\<rparr>
            in Inr (attempt, restore_ready can live q')
      | None \<Rightarrow> Inl (Contract_Failure ''request_resolution_mismatch''))"

definition claimed_by :: "string \<Rightarrow> nat \<Rightarrow> turn_requests \<Rightarrow> agent_request option" where
  "claimed_by rid attempt q =
     (case map_of (tr_entries q) rid of
        Some e \<Rightarrow> (case re_eligibility e of Claimed r a \<Rightarrow> if a = attempt then Some r else None | _ \<Rightarrow> None)
      | None \<Rightarrow> None)"

definition attempt_restore :: "bool \<Rightarrow> (agent_request \<Rightarrow> bool) \<Rightarrow> string \<Rightarrow> nat \<Rightarrow> turn_requests \<Rightarrow> turn_requests" where
  "attempt_restore can live rid attempt q =
     (case (map_of (tr_entries q) rid, claimed_by rid attempt q) of
        (Some e, Some r) \<Rightarrow> if \<not> can then q else restore_ready can live (put_entry rid (e\<lparr>re_eligibility := Withheld r\<rparr>) q)
      | _ \<Rightarrow> q)"

definition attempt_retire :: "bool \<Rightarrow> (agent_request \<Rightarrow> bool) \<Rightarrow> string \<Rightarrow> nat \<Rightarrow> turn_requests \<Rightarrow> turn_requests" where
  "attempt_retire can live rid attempt q =
     (if claimed_by rid attempt q = None then q else restore_ready can live (retire_request rid q))"

text \<open>An interruption suspends every request that is not retired, under a symbol of its own.\<close>

definition suspend_entry :: "nat \<Rightarrow> request_entry \<Rightarrow> request_entry" where
  "suspend_entry token e =
     (case re_eligibility e of
        Retired \<Rightarrow> e
      | Answerable r \<Rightarrow> e\<lparr>re_eligibility := Withheld r, re_suspensions := set_add token (re_suspensions e)\<rparr>
      | _ \<Rightarrow> e\<lparr>re_suspensions := set_add token (re_suspensions e)\<rparr>)"

definition answerable_entry :: "request_entry \<Rightarrow> bool" where
  "answerable_entry e \<longleftrightarrow> (case re_eligibility e of Answerable r \<Rightarrow> True | _ \<Rightarrow> False)"

definition suspend_requests :: "turn_requests \<Rightarrow> nat \<times> turn_requests" where
  "suspend_requests q =
     (let token = tr_symbols q
      in (token, q\<lparr>tr_entries := map (\<lambda>(rid, e). (rid, suspend_entry token e)) (tr_entries q),
        tr_pending := filter (\<lambda>(rid, r). \<not> optional_that answerable_entry (map_of (tr_entries q) rid)) (tr_pending q),
        tr_suspended := tr_suspended q @ [token], tr_symbols := Suc token\<rparr>))"

definition resume_entry :: "nat \<Rightarrow> request_entry \<Rightarrow> request_entry" where
  "resume_entry token e = e\<lparr>re_suspensions := filter (\<lambda>t. t \<noteq> token) (re_suspensions e)\<rparr>"

definition suspension_restore :: "bool \<Rightarrow> (agent_request \<Rightarrow> bool) \<Rightarrow> nat \<Rightarrow> turn_requests \<Rightarrow> turn_requests" where
  "suspension_restore can live token q =
     (if token \<notin> set (tr_suspended q) then q
      else restore_ready can live
        (q\<lparr>tr_entries := map (\<lambda>(rid, e). (rid, resume_entry token e)) (tr_entries q),
          tr_suspended := filter (\<lambda>t. t \<noteq> token) (tr_suspended q)\<rparr>))"

definition suspension_withdraw :: "nat \<Rightarrow> turn_requests \<Rightarrow> turn_requests" where
  "suspension_withdraw token q =
     (if token \<notin> set (tr_suspended q) then q
      else withdraw_requests (q\<lparr>tr_suspended := filter (\<lambda>t. t \<noteq> token) (tr_suspended q)\<rparr>))"

definition open_request :: "agent_request \<Rightarrow> request_identities \<Rightarrow> turn_requests \<Rightarrow>
    session_failure + (request_identities \<times> turn_requests)" where
  "open_request r ids q =
     (if tr_pending q \<noteq> [] then Inl (Contract_Failure ''invalid_turn_sequence'')
      else and_then (claim_request (rq_id r) ''invalid_turn_sequence'' ids) (\<lambda>ids'.
        Inr (ids', (put_entry (rq_id r) \<lparr>re_eligibility = Answerable r, re_retirement_observed = False, re_suspensions = []\<rparr> q)
          \<lparr>tr_pending := map_set (rq_id r) r (tr_pending q)\<rparr>)))"

definition unavailable_request :: "bool \<Rightarrow> (agent_request \<Rightarrow> bool) \<Rightarrow> string \<Rightarrow> turn_requests \<Rightarrow> session_failure + turn_requests" where
  "unavailable_request can live rid q =
     (case map_of (tr_entries q) rid of
        None \<Rightarrow> Inl (Contract_Failure ''invalid_turn_sequence'')
      | Some e \<Rightarrow>
          if re_retirement_observed e then Inl (Contract_Failure ''invalid_turn_sequence'')
          else Inr (restore_ready can live (retire_request rid (put_entry rid (e\<lparr>re_retirement_observed := True\<rparr>) q))))"

definition unclaimed_requests :: "turn_requests \<Rightarrow> agent_request list" where
  "unclaimed_requests q = concat (map (\<lambda>(rid, e). case re_eligibility e of Answerable r \<Rightarrow> [r] | Withheld r \<Rightarrow> [r] | _ \<Rightarrow> [])
     (tr_entries q))"

definition has_unclaimed_request :: "turn_requests \<Rightarrow> bool" where
  "has_unclaimed_request q \<longleftrightarrow> unclaimed_requests q \<noteq> []"

definition has_opened :: "string \<Rightarrow> turn_requests \<Rightarrow> bool" where
  "has_opened rid q \<longleftrightarrow> has_key (tr_entries q) rid"

end
