(* ===== verification/Turn_Sequence.thy ===== *)
theory Turn_Sequence
  imports Turn_Requests
begin

text \<open>
  What a provider may put out during a turn, and in which order: the sequence checks of
  \<open>agent-runtime/src/sessionValidation.ts\<close> on the events of \<open>agent-protocol/src/events/types.ts\<close>.

  Events are reduced to the members that the checks read; identity, capability and schema checks of an
  output (\<open>outputValidation.ts\<close>) come before.  A refused output ends the execution and makes the
  session unusable, so what it changed before it was refused is not kept.
\<close>

section \<open>Events\<close>

datatype item_kind =
    User_Message | Assistant_Message | Reasoning | Plan_Item | Command_Execution | File_Change | Mcp_Tool_Call
  | Dynamic_Tool_Call | Collaboration_Tool_Call | Web_Search | Browser_Action | Computer_Action | Image_View
  | Review | Context_Compaction | Unknown_Item

datatype item_status = Item_Pending | Item_In_Progress | Item_Done | Item_Failed | Item_Canceled | Item_Unknown
datatype item_phase = Item_Started | Item_Updated | Item_Completed
datatype turn_outcome = Turn_Done | Turn_Failed | Turn_Canceled | Turn_Expired
datatype measurement_scope = Session_Scope | Materialization_Scope

record cumulative_usage =
  cw_input_tokens :: "int option"
  cw_output_tokens :: "int option"
  cw_cached_read_tokens :: "int option"
  cw_cache_creation_tokens :: "int option"
  cw_reasoning_tokens :: "int option"
  cw_model_calls :: "int option"
  cw_turns :: "int option"

record context_usage =
  cu_scope :: measurement_scope
  cu_used_tokens :: int
  cu_max_tokens :: int
  cu_cumulative :: "cumulative_usage option"
  cu_compaction :: "(string \<times> int option) option"

datatype plain_event =
    Content_Delta | Plan_Updated | Progress_Updated | Artifact_Referenced | Runtime_Retrying | Runtime_Warning
  | Runtime_Error | Provider_Diagnostic

datatype agent_event =
    Turn_Started
  | Turn_State_Changed bool "string option"
  | Turn_Completed turn_outcome
  | Item_Event item_phase string item_kind item_status
  | Plan_Proposed string string
  | Diff_Updated
  | Request_Opened agent_request
  | Request_Unavailable string
  | Context_Usage_Updated context_usage
  | Operation_Updated operation_result
  | Collaboration_Updated collaboration_node
  | Resource_Updated generated_resource
  | Plain_Event plain_event

datatype provider_output = Process_Started | Event_Output agent_event | Other_Output

section \<open>Items\<close>

record observed_item =
  oi_kind :: item_kind
  oi_status :: item_status
  oi_in_progress_observed :: bool
  oi_terminal :: bool

definition terminal_item_status :: "item_status \<Rightarrow> bool" where
  "terminal_item_status s \<longleftrightarrow> s \<in> {Item_Done, Item_Failed, Item_Canceled}"

type_synonym item_map = "(string \<times> observed_item) list"

definition invalid_turn_sequence :: session_failure where
  "invalid_turn_sequence = Contract_Failure ''invalid_turn_sequence''"

definition observe_item ::
    "item_phase \<Rightarrow> string \<Rightarrow> item_kind \<Rightarrow> item_status \<Rightarrow> item_map \<Rightarrow> session_failure + item_map" where
  "observe_item phase k kind status items =
     (let previous = map_of items k;
          observed = \<lparr>oi_kind = kind, oi_status = status,
            oi_in_progress_observed = ((case previous of None \<Rightarrow> False | Some p \<Rightarrow> oi_in_progress_observed p) \<or> status = Item_In_Progress),
            oi_terminal = (phase = Item_Completed \<or> terminal_item_status status)\<rparr>
      in if phase = Item_Completed \<and> \<not> terminal_item_status status then Inl invalid_turn_sequence
         else (case previous of
             None \<Rightarrow> Inr (map_set k observed items)
           | Some p \<Rightarrow>
               if oi_terminal p \<or> oi_kind p \<noteq> kind \<or> phase = Item_Started
                  \<or> (oi_in_progress_observed p \<and> status = Item_Pending) then Inl invalid_turn_sequence
               else Inr (map_set k observed items)))"

section \<open>Context usage\<close>

record context_state =
  cx_latest :: "(measurement_scope \<times> context_usage) list"
  cx_cumulative :: "(measurement_scope \<times> cumulative_usage) list"
  cx_compaction_ready :: "measurement_scope list"

definition new_context :: context_state where
  "new_context = \<lparr>cx_latest = [], cx_cumulative = [], cx_compaction_ready = []\<rparr>"

definition cumulative_counters :: "cumulative_usage \<Rightarrow> int option list" where
  "cumulative_counters c = [cw_input_tokens c, cw_output_tokens c, cw_cached_read_tokens c, cw_cache_creation_tokens c,
     cw_reasoning_tokens c, cw_model_calls c, cw_turns c]"

definition newer :: "'a option \<Rightarrow> 'a option \<Rightarrow> 'a option" where
  "newer before after = (case after of None \<Rightarrow> before | Some a \<Rightarrow> Some a)"

text \<open>\<open>{...previous, ...cumulative}\<close>\<close>

definition merge_cumulative :: "cumulative_usage option \<Rightarrow> cumulative_usage \<Rightarrow> cumulative_usage" where
  "merge_cumulative previous c =
     (case previous of
        None \<Rightarrow> c
      | Some p \<Rightarrow> \<lparr>cw_input_tokens = newer (cw_input_tokens p) (cw_input_tokens c),
          cw_output_tokens = newer (cw_output_tokens p) (cw_output_tokens c),
          cw_cached_read_tokens = newer (cw_cached_read_tokens p) (cw_cached_read_tokens c),
          cw_cache_creation_tokens = newer (cw_cache_creation_tokens p) (cw_cache_creation_tokens c),
          cw_reasoning_tokens = newer (cw_reasoning_tokens p) (cw_reasoning_tokens c),
          cw_model_calls = newer (cw_model_calls p) (cw_model_calls c), cw_turns = newer (cw_turns p) (cw_turns c)\<rparr>)"

definition counter_decreases :: "int option \<times> int option \<Rightarrow> bool" where
  "counter_decreases ba = (case ba of (Some before, Some after) \<Rightarrow> after < before | _ \<Rightarrow> False)"

definition observe_context_usage :: "context_usage \<Rightarrow> context_state \<Rightarrow> session_failure + context_state" where
  "observe_context_usage u cx =
     (let scope = cu_scope u; previous = map_of (cx_latest cx) scope; before = map_of (cx_cumulative cx) scope
      in if (case previous of None \<Rightarrow> False
             | Some p \<Rightarrow> p = u \<or> (cu_used_tokens u < cu_used_tokens p \<and> scope \<notin> set (cx_compaction_ready cx))) then
           Inl invalid_turn_sequence
         else
           let cx' = cx\<lparr>cx_latest := map_set scope u (cx_latest cx),
                 cx_compaction_ready := filter (\<lambda>s. s \<noteq> scope) (cx_compaction_ready cx)\<rparr>
           in (case cu_cumulative u of
                 None \<Rightarrow> Inr cx'
               | Some c \<Rightarrow>
                   if (case before of None \<Rightarrow> False
                       | Some b \<Rightarrow> list_ex counter_decreases (zip (cumulative_counters b) (cumulative_counters c))) then
                     Inl invalid_turn_sequence
                   else Inr (cx'\<lparr>cx_cumulative := map_set scope (merge_cumulative before c) (cx_cumulative cx)\<rparr>)))"

definition materialization_boundary :: "context_state \<Rightarrow> context_state" where
  "materialization_boundary cx =
     \<lparr>cx_latest = map_del Materialization_Scope (cx_latest cx), cx_cumulative = map_del Materialization_Scope (cx_cumulative cx),
       cx_compaction_ready = filter (\<lambda>s. s \<noteq> Materialization_Scope) (cx_compaction_ready cx)\<rparr>"

definition compaction_ready :: "context_state \<Rightarrow> context_state" where
  "compaction_ready cx = cx\<lparr>cx_compaction_ready := set_add Materialization_Scope (set_add Session_Scope (cx_compaction_ready cx))\<rparr>"

section \<open>The state of a turn and of its session\<close>

record turn_sequence =
  ts_items :: item_map
  ts_plans :: "(string \<times> string) list"
  ts_resources :: "string list"
  ts_started :: bool
  ts_terminal :: bool
  ts_final_diff :: bool

record turn =
  tn_sequence :: turn_sequence
  tn_requests :: turn_requests
  tn_entered :: bool
  tn_identities :: request_identities
  tn_context :: context_state
  tn_graph :: session_graph
  tn_results :: "(string \<times> operation_result) list"
  tn_generated :: "(string \<times> generated_resource) list"

record turn_context =
  tx_graph :: graph_context
  tx_resources :: "resource_capability option"
  tx_final_diff_mode :: bool

definition has_live_approval_subject :: "agent_request \<Rightarrow> turn_sequence \<Rightarrow> bool" where
  "has_live_approval_subject r ts =
     (case rq_subject r of
        None \<Rightarrow> True
      | Some (Plan_Subject artifact) \<Rightarrow> map_of (ts_plans ts) artifact = Some (rq_id r)
      | Some (Item_Subject k) \<Rightarrow>
          (case map_of (ts_items ts) k of
             None \<Rightarrow> False
           | Some item \<Rightarrow> \<not> oi_terminal item \<and>
               (oi_status item \<in> {Item_Pending, Item_In_Progress} \<or> (oi_status item = Item_Unknown \<and> oi_in_progress_observed item))))"

definition can_restore :: "turn \<Rightarrow> bool" where
  "can_restore t \<longleftrightarrow> tn_entered t \<and> \<not> ts_terminal (tn_sequence t)"

definition live_in :: "turn \<Rightarrow> agent_request \<Rightarrow> bool" where
  "live_in t r = has_live_approval_subject r (tn_sequence t)"

text \<open>Every approval that waits for an answer is about something that is still open.\<close>

definition pending_subjects_live :: "turn \<Rightarrow> bool" where
  "pending_subjects_live t = list_all (live_in t) (unclaimed_requests (tn_requests t))"

section \<open>One event\<close>

definition trailing_event :: "agent_event \<Rightarrow> bool" where
  "trailing_event e = (case e of
       Plain_Event p \<Rightarrow> p \<in> {Artifact_Referenced, Provider_Diagnostic, Runtime_Error, Runtime_Warning}
     | Collaboration_Updated n \<Rightarrow> True
     | Operation_Updated r \<Rightarrow> True
     | Request_Unavailable rid \<Rightarrow> True
     | Resource_Updated r \<Rightarrow> True
     | Turn_Completed out \<Rightarrow> True
     | _ \<Rightarrow> False)"

definition begin_event :: "agent_event \<Rightarrow> turn \<Rightarrow> session_failure + turn" where
  "begin_event e t =
     (let ts = tn_sequence t
      in if ts_terminal ts then Inl invalid_turn_sequence
         else if e = Turn_Started then
           if ts_started ts then Inl invalid_turn_sequence else Inr (t\<lparr>tn_sequence := ts\<lparr>ts_started := True\<rparr>\<rparr>)
         else if \<not> ts_started ts then Inl invalid_turn_sequence else Inr t)"

definition final_diff_event :: "bool \<Rightarrow> agent_event \<Rightarrow> turn \<Rightarrow> session_failure + turn" where
  "final_diff_event mode e t =
     (let ts = tn_sequence t
      in if \<not> mode then Inr t
         else if e = Diff_Updated then
           if has_unclaimed_request (tn_requests t) \<or> ts_final_diff ts then Inl invalid_turn_sequence
           else Inr (t\<lparr>tn_sequence := ts\<lparr>ts_final_diff := True\<rparr>\<rparr>)
         else if ts_final_diff ts \<and> \<not> trailing_event e then Inl invalid_turn_sequence else Inr t)"

definition item_event :: "item_phase \<Rightarrow> string \<Rightarrow> item_kind \<Rightarrow> item_status \<Rightarrow> turn \<Rightarrow> session_failure + turn" where
  "item_event phase k kind status t =
     and_then (observe_item phase k kind status (ts_items (tn_sequence t))) (\<lambda>items.
       let t' = t\<lparr>tn_sequence := (tn_sequence t)\<lparr>ts_items := items\<rparr>\<rparr>
       in if \<not> pending_subjects_live t' then Inl invalid_turn_sequence
          else if kind = Context_Compaction \<and> phase = Item_Completed \<and> status = Item_Done then
            Inr (t'\<lparr>tn_context := compaction_ready (tn_context t')\<rparr>)
          else Inr t')"

definition effect_of_event :: "agent_event \<Rightarrow> turn \<Rightarrow> session_failure + turn" where
  "effect_of_event e t =
     (case e of
        Item_Event phase k kind status \<Rightarrow> item_event phase k kind status t
      | Plan_Proposed artifact rid \<Rightarrow>
          (let ts = tn_sequence t; t' = t\<lparr>tn_sequence := ts\<lparr>ts_plans := map_set artifact rid (ts_plans ts)\<rparr>\<rparr>
           in if \<not> pending_subjects_live t' then Inl invalid_turn_sequence else Inr t')
      | Context_Usage_Updated u \<Rightarrow> and_then (observe_context_usage u (tn_context t)) (\<lambda>cx. Inr (t\<lparr>tn_context := cx\<rparr>))
      | Request_Opened r \<Rightarrow>
          if \<not> live_in t r then Inl invalid_turn_sequence
          else and_then (open_request r (tn_identities t) (tn_requests t)) (\<lambda>(ids, q).
            Inr (t\<lparr>tn_identities := ids, tn_requests := q\<rparr>))
      | Request_Unavailable rid \<Rightarrow>
          and_then (unavailable_request (can_restore t) (live_in t) rid (tn_requests t)) (\<lambda>q. Inr (t\<lparr>tn_requests := q\<rparr>))
      | Turn_State_Changed waiting rid \<Rightarrow>
          if waiting \<and> \<not> (case rid of None \<Rightarrow> False | Some k \<Rightarrow> has_opened k (tn_requests t)) then Inl invalid_turn_sequence
          else Inr t
      | Turn_Completed outcome \<Rightarrow>
          (let q = (if outcome \<noteq> Turn_Done then withdraw_requests (tn_requests t) else tn_requests t)
           in if has_unclaimed_request q then Inl invalid_turn_sequence
              else Inr (t\<lparr>tn_requests := q, tn_sequence := (tn_sequence t)\<lparr>ts_terminal := True\<rparr>\<rparr>))
      | _ \<Rightarrow> Inr t)"

definition observe_turn_event :: "turn_context \<Rightarrow> agent_event \<Rightarrow> turn \<Rightarrow> session_failure + turn" where
  "observe_turn_event tx e t =
     and_then (begin_event e t) (\<lambda>t1. and_then (final_diff_event (tx_final_diff_mode tx) e t1) (effect_of_event e))"

section \<open>One output\<close>

definition observe_retained :: "turn_context \<Rightarrow> agent_event \<Rightarrow> turn \<Rightarrow> session_failure + turn" where
  "observe_retained tx e t =
     (case e of
        Operation_Updated result \<Rightarrow>
          and_then (validate_operation_result_transition result (map_of (tn_results t) (or_invocation_id result))) (\<lambda>r.
            Inr (t\<lparr>tn_results := map_set (or_invocation_id r) r (tn_results t)\<rparr>))
      | Collaboration_Updated n \<Rightarrow>
          and_then (observe_collaboration (tx_graph tx) n (tn_graph t)) (\<lambda>g. Inr (t\<lparr>tn_graph := g\<rparr>))
      | Resource_Updated resource \<Rightarrow>
          (let ts = tn_sequence t
           in case tx_resources tx of
                None \<Rightarrow> Inl (Contract_Failure ''output_capability_mismatch'')
              | Some cap \<Rightarrow>
                  if gr_id resource \<notin> set (ts_resources ts) \<and> rc_max_per_turn cap \<le> length (ts_resources ts) then
                    Inl (Contract_Failure ''output_capability_mismatch'')
                  else and_then (validate_generated_resource (tx_graph tx) (tx_resources tx) (gr_id resource) resource
                      (map_of (tn_generated t) (gr_id resource))) (\<lambda>r.
                    Inr (t\<lparr>tn_sequence := ts\<lparr>ts_resources := set_add (gr_id r) (ts_resources ts)\<rparr>,
                      tn_generated := map_set (gr_id r) r (tn_generated t)\<rparr>)))
      | _ \<Rightarrow> Inr t)"

definition observe_turn_output :: "turn_context \<Rightarrow> provider_output \<Rightarrow> turn \<Rightarrow> session_failure + turn" where
  "observe_turn_output tx out t =
     (case out of
        Process_Started \<Rightarrow> Inr (t\<lparr>tn_context := materialization_boundary (tn_context t)\<rparr>)
      | Other_Output \<Rightarrow> Inr t
      | Event_Output e \<Rightarrow> and_then (observe_retained tx e t) (observe_turn_event tx e))"

section \<open>A turn\<close>

text \<open>The execution is installed on its session: the retained state of the session goes on.\<close>

definition begin_turn :: "turn \<Rightarrow> turn" where
  "begin_turn t = t\<lparr>tn_sequence := \<lparr>ts_items = [], ts_plans = [], ts_resources = [], ts_started = False, ts_terminal = False,
     ts_final_diff = False\<rparr>, tn_requests := no_requests, tn_entered := True\<rparr>"

definition new_session_turn :: turn where
  "new_session_turn = begin_turn
     \<lparr>tn_sequence = \<lparr>ts_items = [], ts_plans = [], ts_resources = [], ts_started = False, ts_terminal = False, ts_final_diff = False\<rparr>,
       tn_requests = no_requests, tn_entered = False, tn_identities = \<lparr>ri_ids = [], ri_bytes = 0\<rparr>, tn_context = new_context,
       tn_graph = empty_graph, tn_results = [], tn_generated = []\<rparr>"

definition stop_turn :: "turn \<Rightarrow> turn" where
  "stop_turn t = t\<lparr>tn_requests := withdraw_requests (tn_requests t), tn_entered := False\<rparr>"

text \<open>What happens to the requests of a turn besides its outputs: answers, interruptions and the end.\<close>

datatype turn_action =
    Output provider_output
  | Claim string
  | Restore_Attempt string nat
  | Retire_Attempt string nat
  | Suspend
  | Resume nat
  | Withdraw nat
  | Stop_Turn

definition with_requests :: "(bool \<Rightarrow> (agent_request \<Rightarrow> bool) \<Rightarrow> turn_requests \<Rightarrow> turn_requests) \<Rightarrow> turn \<Rightarrow> turn" where
  "with_requests f t = t\<lparr>tn_requests := f (can_restore t) (live_in t) (tn_requests t)\<rparr>"

definition turn_act :: "turn_context \<Rightarrow> turn_action \<Rightarrow> turn \<Rightarrow> session_failure + turn" where
  "turn_act tx action t =
     (case action of
        Output out \<Rightarrow> if \<not> tn_entered t then Inl (Contract_Failure ''concurrent_turn'') else observe_turn_output tx out t
      | Claim rid \<Rightarrow>
          (case map_of (tr_pending (tn_requests t)) rid of
             Some r \<Rightarrow>
               if \<not> can_restore t then Inl (Contract_Failure ''request_resolution_mismatch'')
               else and_then (claim_answer (can_restore t) (live_in t) rid r (tn_requests t)) (\<lambda>(attempt, q). Inr (t\<lparr>tn_requests := q\<rparr>))
           | None \<Rightarrow> Inl (Contract_Failure ''request_resolution_mismatch''))
      | Restore_Attempt rid attempt \<Rightarrow> Inr (with_requests (\<lambda>can live. attempt_restore can live rid attempt) t)
      | Retire_Attempt rid attempt \<Rightarrow> Inr (with_requests (\<lambda>can live. attempt_retire can live rid attempt) t)
      | Suspend \<Rightarrow> if \<not> can_restore t then Inl (Contract_Failure ''active_turn_mismatch'')
          else Inr (t\<lparr>tn_requests := snd (suspend_requests (tn_requests t))\<rparr>)
      | Resume token \<Rightarrow> Inr (with_requests (\<lambda>can live. suspension_restore can live token) t)
      | Withdraw token \<Rightarrow> Inr (t\<lparr>tn_requests := suspension_withdraw token (tn_requests t)\<rparr>)
      | Stop_Turn \<Rightarrow> Inr (stop_turn t))"

text \<open>A run of a turn with what happened in it.\<close>

inductive turn_run :: "turn_context \<Rightarrow> turn \<Rightarrow> turn_action list \<Rightarrow> turn \<Rightarrow> bool" for tx where
  run_start: "turn_run tx t [] t"
| run_act: "turn_run tx t actions t' \<Longrightarrow> turn_act tx action t' = Inr t'' \<Longrightarrow> turn_run tx t (actions @ [action]) t''"

end
