(* ===== verification/Turn_Requests_Laws.thy ===== *)
theory Turn_Requests_Laws
  imports Turn_Requests
begin

text \<open>
  The request admission of a turn: at most one request waits for an answer, suspended requests wait for a
  live interruption, no withheld request is forgotten, and retired requests never come back.
\<close>

section \<open>The invariant\<close>

definition answerable_as :: "turn_requests \<Rightarrow> string \<Rightarrow> agent_request \<Rightarrow> bool" where
  "answerable_as q rid r \<longleftrightarrow> (\<exists>e. map_of (tr_entries q) rid = Some e \<and> re_eligibility e = Answerable r)"

definition pending_exact :: "turn_requests \<Rightarrow> bool" where
  "pending_exact q \<longleftrightarrow>
     (tr_pending q = [] \<and> (\<forall>rid r. \<not> answerable_as q rid r)) \<or>
     (\<exists>rid r. tr_pending q = [(rid, r)] \<and> (\<forall>rid' r'. answerable_as q rid' r' \<longleftrightarrow> rid' = rid \<and> r' = r))"

definition asks :: "eligibility \<Rightarrow> agent_request option" where
  "asks el = (case el of Answerable r \<Rightarrow> Some r | Withheld r \<Rightarrow> Some r | Claimed r a \<Rightarrow> Some r | Retired \<Rightarrow> None)"

definition entry_ok :: "nat list \<Rightarrow> nat \<Rightarrow> string \<Rightarrow> request_entry \<Rightarrow> bool" where
  "entry_ok suspended symbols rid e \<longleftrightarrow>
     (\<forall>r. asks (re_eligibility e) = Some r \<longrightarrow> rq_id r = rid) \<and>
     (answerable_entry e \<or> re_eligibility e = Retired \<longrightarrow> re_suspensions e = []) \<and>
     set (re_suspensions e) \<subseteq> set suspended \<and>
     (\<forall>r a. re_eligibility e = Claimed r a \<longrightarrow> a < symbols)"

definition requests_ok :: "turn_requests \<Rightarrow> bool" where
  "requests_ok q \<longleftrightarrow>
     distinct (map fst (tr_entries q)) \<and> pending_exact q \<and>
     (\<forall>rid e. map_of (tr_entries q) rid = Some e \<longrightarrow> entry_ok (tr_suspended q) (tr_symbols q) rid e) \<and>
     (\<forall>token \<in> set (tr_suspended q). token < tr_symbols q)"

text \<open>No request is forgotten: a withheld request waits for an interruption that is still under way.\<close>

definition withheld_suspended :: "turn_requests \<Rightarrow> bool" where
  "withheld_suspended q \<longleftrightarrow>
     (\<forall>rid e r. map_of (tr_entries q) rid = Some e \<longrightarrow> re_eligibility e = Withheld r \<longrightarrow> re_suspensions e \<noteq> [])"

definition none_forgotten :: "bool \<Rightarrow> turn_requests \<Rightarrow> bool" where
  "none_forgotten can q \<longleftrightarrow> (can \<longrightarrow> tr_pending q = [] \<longrightarrow> withheld_suspended q)"

lemma requests_okI:
  assumes "distinct (map fst (tr_entries q))" "pending_exact q"
    "\<And>rid e. map_of (tr_entries q) rid = Some e \<Longrightarrow> entry_ok (tr_suspended q) (tr_symbols q) rid e"
    "\<And>token. token \<in> set (tr_suspended q) \<Longrightarrow> token < tr_symbols q"
  shows "requests_ok q"
  using assms by (auto simp: requests_ok_def)

lemma requests_okD:
  assumes "requests_ok q"
  shows "distinct (map fst (tr_entries q))" "pending_exact q"
    "map_of (tr_entries q) rid = Some e \<Longrightarrow> entry_ok (tr_suspended q) (tr_symbols q) rid e"
    "token \<in> set (tr_suspended q) \<Longrightarrow> token < tr_symbols q"
  using assms by (auto simp: requests_ok_def)

lemma asks_simps [simp]:
  "asks (Answerable r) = Some r" "asks (Withheld r) = Some r" "asks (Claimed r a) = Some r" "asks Retired = None"
  by (simp_all add: asks_def)

lemma answerable_entry_iff: "answerable_entry e \<longleftrightarrow> (\<exists>r. re_eligibility e = Answerable r)"
  by (simp add: answerable_entry_def split: eligibility.splits)

lemma put_entry_simps [simp]:
  "tr_entries (put_entry rid e q) = map_set rid e (tr_entries q)"
  "tr_pending (put_entry rid e q) = tr_pending q"
  "tr_suspended (put_entry rid e q) = tr_suspended q"
  "tr_symbols (put_entry rid e q) = tr_symbols q"
  by (simp_all add: put_entry_def)

lemma pending_emptyD: "pending_exact q \<Longrightarrow> tr_pending q = [] \<Longrightarrow> \<not> answerable_as q rid r"
  by (auto simp: pending_exact_def)

lemma pending_someD: "pending_exact q \<Longrightarrow> tr_pending q \<noteq> [] \<Longrightarrow>
    \<exists>rid r. tr_pending q = [(rid, r)] \<and> (\<forall>rid' r'. answerable_as q rid' r' \<longleftrightarrow> rid' = rid \<and> r' = r)"
  by (auto simp: pending_exact_def)

text \<open>An entry that is not answerable afterwards leaves the waiting request alone or takes it away.\<close>

lemma pending_exact_close:
  assumes "pending_exact q" and "\<not> answerable_entry e"
    and "tr_entries q' = map_set rid e (tr_entries q)" and "tr_pending q' = map_del rid (tr_pending q)"
  shows "pending_exact q'"
proof -
  have ans: "answerable_as q' rid' r' \<longleftrightarrow> rid' \<noteq> rid \<and> answerable_as q rid' r'" for rid' r'
    using assms(2,3) by (auto simp: answerable_as_def answerable_entry_iff)
  show ?thesis
  proof (cases "tr_pending q = []")
    case True
    then show ?thesis using assms(4) pending_emptyD [OF assms(1) True] ans by (auto simp: pending_exact_def map_del_def)
  next
    case False
    from pending_someD [OF assms(1) this] obtain rid0 r0 where p: "tr_pending q = [(rid0, r0)]"
      and a: "\<And>rid' r'. answerable_as q rid' r' \<longleftrightarrow> rid' = rid0 \<and> r' = r0" by blast
    show ?thesis using assms(4) p a ans by (cases "rid0 = rid") (auto simp: pending_exact_def map_del_def)
  qed
qed

lemma pending_exact_open:
  assumes "pending_exact q" and "tr_pending q = []" and "re_eligibility e = Answerable r"
    and "tr_entries q' = map_set rid e (tr_entries q)" and "tr_pending q' = map_set rid r (tr_pending q)"
  shows "pending_exact q'"
proof -
  have "answerable_as q' rid' r' \<longleftrightarrow> rid' = rid \<and> r' = r" for rid' r'
    using assms(3,4) pending_emptyD [OF assms(1,2)] by (auto simp: answerable_as_def)
  then show ?thesis using assms(2,5) by (auto simp: pending_exact_def)
qed

section \<open>Retiring and restoring\<close>

lemma retire_request_absent: "map_of (tr_entries q) rid = None \<Longrightarrow> retire_request rid q = q"
  by (simp add: retire_request_def)

lemma retire_request_frame [simp]:
  "tr_suspended (retire_request rid q) = tr_suspended q" "tr_symbols (retire_request rid q) = tr_symbols q"
  by (simp_all add: retire_request_def split: option.splits)

lemma retire_request_entries:
  "map_of (tr_entries (retire_request rid q)) =
     (case map_of (tr_entries q) rid of
        None \<Rightarrow> map_of (tr_entries q)
      | Some e \<Rightarrow> (map_of (tr_entries q))(rid \<mapsto> e\<lparr>re_eligibility := Retired, re_suspensions := []\<rparr>))"
  by (simp add: retire_request_def split: option.splits)

lemma retire_request_ok:
  assumes "requests_ok q"
  shows "requests_ok (retire_request rid q)"
proof (cases "map_of (tr_entries q) rid")
  case None
  then show ?thesis using assms by (simp add: retire_request_absent)
next
  case (Some e)
  show ?thesis
  proof (rule requests_okI)
    show "distinct (map fst (tr_entries (retire_request rid q)))"
      using requests_okD(1) [OF assms] Some by (simp add: retire_request_def)
    show "pending_exact (retire_request rid q)"
      by (rule pending_exact_close [OF requests_okD(2) [OF assms]])
        (use Some in \<open>simp_all add: retire_request_def answerable_entry_iff\<close>)
    show "entry_ok (tr_suspended (retire_request rid q)) (tr_symbols (retire_request rid q)) rid' e'"
      if "map_of (tr_entries (retire_request rid q)) rid' = Some e'" for rid' e'
      using that Some requests_okD(3) [OF assms, of rid' e']
      by (auto simp: retire_request_entries entry_ok_def answerable_entry_iff split: if_splits)
    show "token < tr_symbols (retire_request rid q)" if "token \<in> set (tr_suspended (retire_request rid q))" for token
      using that requests_okD(4) [OF assms] by simp
  qed
qed

lemma retire_request_pending: "tr_pending q = [] \<Longrightarrow> tr_pending (retire_request rid q) = []"
  by (simp add: retire_request_def map_del_def split: option.splits)

lemma restore_first_frame [simp]:
  "tr_suspended (restore_first live rids q) = tr_suspended q" "tr_symbols (restore_first live rids q) = tr_symbols q"
  by (induction live rids q rule: restore_first.induct) (simp_all split: option.splits eligibility.splits)

lemma restore_entry_ok:
  assumes "requests_ok q" and "tr_pending q = []" and "map_of (tr_entries q) rid = Some e"
    and "re_eligibility e = Withheld r" and "re_suspensions e = []"
  shows "requests_ok ((put_entry rid (e\<lparr>re_eligibility := Answerable r\<rparr>) q)\<lparr>tr_pending := [(rid, r)]\<rparr>)"
    (is "requests_ok ?q")
proof (rule requests_okI)
  show "distinct (map fst (tr_entries ?q))" using requests_okD(1) [OF assms(1)] by simp
  show "pending_exact ?q"
    by (rule pending_exact_open [OF requests_okD(2) [OF assms(1)] assms(2)]) (simp_all add: assms(2))
  show "entry_ok (tr_suspended ?q) (tr_symbols ?q) rid' e'" if "map_of (tr_entries ?q) rid' = Some e'" for rid' e'
    using that assms(4,5) requests_okD(3) [OF assms(1) assms(3)] requests_okD(3) [OF assms(1), of rid' e']
    by (auto simp: entry_ok_def split: if_splits)
  show "token < tr_symbols ?q" if "token \<in> set (tr_suspended ?q)" for token
    using that requests_okD(4) [OF assms(1)] by simp
qed

lemma restore_first_ok:
  "requests_ok q \<Longrightarrow> tr_pending q = [] \<Longrightarrow> requests_ok (restore_first live rids q)"
  by (induction live rids q rule: restore_first.induct)
    (auto simp: retire_request_ok retire_request_pending restore_entry_ok split: option.splits eligibility.splits)

lemma restore_ready_ok: "requests_ok q \<Longrightarrow> requests_ok (restore_ready can live q)"
  by (simp add: restore_ready_def restore_first_ok)

lemma restore_ready_frame [simp]:
  "tr_suspended (restore_ready can live q) = tr_suspended q" "tr_symbols (restore_ready can live q) = tr_symbols q"
  by (simp_all add: restore_ready_def)

text \<open>The scan passes every withheld request that could be asked.\<close>

lemma map_set_nonempty [simp]: "map_set k v m \<noteq> []"
  by (induction k v m rule: map_set.induct) auto

lemma retire_keeps_withheld:
  "map_of (tr_entries (retire_request k q)) rid = Some e \<Longrightarrow> re_eligibility e = Withheld r \<Longrightarrow>
   rid \<noteq> k \<and> map_of (tr_entries q) rid = Some e"
  by (auto simp: retire_request_entries split: option.splits if_splits)

lemma restore_first_dead:
  assumes "map_of (tr_entries q) k = Some e" "re_eligibility e = Withheld r" "re_suspensions e = []" "\<not> live r"
  shows "restore_first live (k # rids) q = restore_first live rids (retire_request k q)"
  using assms by simp

lemma restore_first_live:
  assumes "map_of (tr_entries q) k = Some e" "re_eligibility e = Withheld r" "re_suspensions e = []" "live r"
  shows "restore_first live (k # rids) q =
    (put_entry k (e\<lparr>re_eligibility := Answerable r\<rparr>) q)\<lparr>tr_pending := map_set k r (tr_pending q)\<rparr>"
  using assms by simp

lemma restore_first_other:
  assumes "\<And>e r. map_of (tr_entries q) k = Some e \<Longrightarrow> re_eligibility e = Withheld r \<Longrightarrow> re_suspensions e \<noteq> []"
  shows "restore_first live (k # rids) q = restore_first live rids q"
  using assms by (simp split: option.splits eligibility.splits)

lemma restore_first_withheld:
  "map_of (tr_entries (restore_first live rids q)) rid = Some e \<Longrightarrow> re_eligibility e = Withheld r \<Longrightarrow>
   map_of (tr_entries q) rid = Some e"
proof (induction rids arbitrary: q)
  case (Cons k rids)
  show ?case
  proof (cases "\<exists>f s. map_of (tr_entries q) k = Some f \<and> re_eligibility f = Withheld s \<and> re_suspensions f = []")
    case True
    then obtain f s where f: "map_of (tr_entries q) k = Some f" "re_eligibility f = Withheld s" "re_suspensions f = []" by blast
    show ?thesis
    proof (cases "live s")
      case True
      then show ?thesis using Cons.prems restore_first_live [where live = live, OF f True] by (auto split: if_splits)
    next
      case False
      then show ?thesis
        using Cons restore_first_dead [where live = live, OF f False] retire_keeps_withheld [where r = r] by metis
    qed
  next
    case False
    then show ?thesis using Cons restore_first_other [where live = live and k = k and q = q] by metis
  qed
qed simp

lemma restore_first_skips:
  "tr_pending (restore_first live rids q) = [] \<Longrightarrow> rid \<in> set rids \<Longrightarrow>
   map_of (tr_entries (restore_first live rids q)) rid = Some e \<Longrightarrow> re_eligibility e = Withheld r \<Longrightarrow> re_suspensions e \<noteq> []"
proof (induction rids arbitrary: q)
  case (Cons k rids)
  show ?case
  proof (cases "\<exists>f s. map_of (tr_entries q) k = Some f \<and> re_eligibility f = Withheld s \<and> re_suspensions f = []")
    case True
    then obtain f s where f: "map_of (tr_entries q) k = Some f" "re_eligibility f = Withheld s" "re_suspensions f = []" by blast
    have dead: "\<not> live s" using Cons.prems(1) restore_first_live [where live = live, OF f] by fastforce
    note eq = restore_first_dead [where live = live, OF f dead]
    have "rid \<noteq> k"
      using Cons.prems(3,4) eq restore_first_withheld retire_keeps_withheld by metis
    then show ?thesis using Cons eq by simp
  next
    case False
    then have "restore_first live (k # rids) q = restore_first live rids q"
      by (intro restore_first_other) blast
    note eq = this
    show ?thesis
    proof (cases "rid = k")
      case True
      have "map_of (tr_entries q) rid = Some e"
        using Cons.prems(3,4) by (rule restore_first_withheld)
      then show ?thesis using False True Cons.prems(4) by blast
    next
      case False
      then show ?thesis using Cons eq by simp
    qed
  qed
qed simp

lemma restore_ready_none_forgotten: "none_forgotten can (restore_ready can live q)"
proof -
  have "withheld_suspended (restore_first live (map fst (tr_entries q)) q)"
    if "tr_pending (restore_first live (map fst (tr_entries q)) q) = []"
  proof -
    have "re_suspensions e \<noteq> []"
      if "map_of (tr_entries (restore_first live (map fst (tr_entries q)) q)) rid = Some e" "re_eligibility e = Withheld r" for rid e r
    proof (rule restore_first_skips [OF \<open>tr_pending _ = []\<close> _ that])
      from restore_first_withheld [OF that] have "map_of (tr_entries q) rid = Some e" .
      then show "rid \<in> set (map fst (tr_entries q))" by (metis has_key_def has_key_iff list.set_map option.distinct(1))
    qed
    then show ?thesis by (auto simp: withheld_suspended_def)
  qed
  then show ?thesis by (auto simp: none_forgotten_def restore_ready_def)
qed

section \<open>The operations\<close>

lemma fold_retire_ok: "requests_ok q \<Longrightarrow> requests_ok (fold retire_request rids q)"
  by (induction rids arbitrary: q) (simp_all add: retire_request_ok)

lemma fold_retire_frame [simp]:
  "tr_suspended (fold retire_request rids q) = tr_suspended q" "tr_symbols (fold retire_request rids q) = tr_symbols q"
  by (induction rids arbitrary: q) simp_all

lemma fold_retire_withheld:
  "map_of (tr_entries (fold retire_request rids q)) rid = Some e \<Longrightarrow> re_eligibility e = Withheld r \<Longrightarrow>
   rid \<notin> set rids \<and> map_of (tr_entries q) rid = Some e"
proof (induction rids arbitrary: q)
  case (Cons k rids)
  then have "rid \<notin> set rids" "map_of (tr_entries (retire_request k q)) rid = Some e" by auto
  then show ?case using retire_keeps_withheld [OF _ Cons.prems(2)] by auto
qed simp

lemma withdraw_requests_ok: "requests_ok q \<Longrightarrow> requests_ok (withdraw_requests q)"
  by (simp add: withdraw_requests_def fold_retire_ok)

lemma withdraw_requests_frame [simp]:
  "tr_suspended (withdraw_requests q) = tr_suspended q" "tr_symbols (withdraw_requests q) = tr_symbols q"
  by (simp_all add: withdraw_requests_def)

lemma map_of_key: "map_of m k = Some v \<Longrightarrow> k \<in> fst ` set m"
  by (force dest: map_of_SomeD)

lemma withdraw_none_forgotten: "none_forgotten can (withdraw_requests q)"
proof -
  have False if "map_of (tr_entries (withdraw_requests q)) rid = Some e" "re_eligibility e = Withheld r" for rid e r
    using fold_retire_withheld [OF that [unfolded withdraw_requests_def]] map_of_key [of "tr_entries q" rid e] by simp
  then show ?thesis by (auto simp: none_forgotten_def withheld_suspended_def)
qed

text \<open>Changing entries and symbols only, with the waiting request unchanged or taken away.\<close>

lemma claim_answer_ok:
  assumes "requests_ok q" and "claim_answer can live rid r q = Inr (attempt, q')"
  shows "requests_ok q'"
proof -
  from assms(2) obtain e where e: "map_of (tr_entries q) rid = Some e" "re_eligibility e = Answerable r"
    and q': "q' = restore_ready can live ((put_entry rid (e\<lparr>re_eligibility := Claimed r (tr_symbols q)\<rparr>) q)
      \<lparr>tr_pending := map_del rid (tr_pending q), tr_symbols := Suc (tr_symbols q)\<rparr>)" (is "_ = restore_ready _ _ ?q")
    by (auto simp: claim_answer_def Let_def split: option.splits if_splits)
  have "requests_ok ?q"
  proof (rule requests_okI)
    show "distinct (map fst (tr_entries ?q))" using requests_okD(1) [OF assms(1)] by simp
    show "pending_exact ?q"
      by (rule pending_exact_close [OF requests_okD(2) [OF assms(1)], of "e\<lparr>re_eligibility := Claimed r (tr_symbols q)\<rparr>" _ rid])
        (simp_all add: answerable_entry_iff)
    show "entry_ok (tr_suspended ?q) (tr_symbols ?q) rid' e'" if "map_of (tr_entries ?q) rid' = Some e'" for rid' e'
      using that e(2) requests_okD(3) [OF assms(1) e(1)] requests_okD(3) [OF assms(1), of rid' e']
      by (auto simp: entry_ok_def less_SucI answerable_entry_iff split: if_splits)
    show "token < tr_symbols ?q" if "token \<in> set (tr_suspended ?q)" for token
      using that requests_okD(4) [OF assms(1)] by (simp add: less_SucI)
  qed
  then show ?thesis by (simp add: q' restore_ready_ok)
qed

lemma claim_none_forgotten: "claim_answer can live rid r q = Inr (attempt, q') \<Longrightarrow> none_forgotten can q'"
  by (auto simp: claim_answer_def Let_def restore_ready_none_forgotten split: option.splits if_splits)

lemma claimed_by_iff:
  "claimed_by rid attempt q = Some r \<longleftrightarrow> (\<exists>e. map_of (tr_entries q) rid = Some e \<and> re_eligibility e = Claimed r attempt)"
  by (auto simp: claimed_by_def split: option.splits eligibility.splits if_splits)

text \<open>An entry that was not answerable and is not afterwards leaves the waiting request alone.\<close>

lemma pending_exact_keep:
  assumes "pending_exact q" and "map_of (tr_entries q) rid = Some e0" and "\<not> answerable_entry e0" and "\<not> answerable_entry e"
    and "tr_entries q' = map_set rid e (tr_entries q)" and "tr_pending q' = tr_pending q"
  shows "pending_exact q'"
proof -
  have "answerable_as q' rid' r' \<longleftrightarrow> answerable_as q rid' r'" for rid' r'
    using assms(2-5) by (auto simp: answerable_as_def answerable_entry_iff)
  then show ?thesis using assms(1,6) by (simp add: pending_exact_def)
qed

lemma withhold_claimed_ok:
  assumes "requests_ok q" and "map_of (tr_entries q) rid = Some e" and "re_eligibility e = Claimed r attempt"
  shows "requests_ok (put_entry rid (e\<lparr>re_eligibility := Withheld r\<rparr>) q)" (is "requests_ok ?q")
proof (rule requests_okI)
  show "distinct (map fst (tr_entries ?q))" using requests_okD(1) [OF assms(1)] by simp
  show "pending_exact ?q"
    by (rule pending_exact_keep [OF requests_okD(2) [OF assms(1)] assms(2)])
      (use assms(3) in \<open>simp_all add: answerable_entry_iff\<close>)
  show "entry_ok (tr_suspended ?q) (tr_symbols ?q) rid' e'" if "map_of (tr_entries ?q) rid' = Some e'" for rid' e'
    using that assms(3) requests_okD(3) [OF assms(1,2)] requests_okD(3) [OF assms(1), of rid' e']
    by (auto simp: entry_ok_def answerable_entry_iff split: if_splits)
  show "token < tr_symbols ?q" if "token \<in> set (tr_suspended ?q)" for token
    using that requests_okD(4) [OF assms(1)] by simp
qed

lemma attempt_restore_ok: "requests_ok q \<Longrightarrow> requests_ok (attempt_restore can live rid attempt q)"
  by (auto simp: attempt_restore_def claimed_by_iff intro!: restore_ready_ok withhold_claimed_ok split: option.splits)

lemma attempt_restore_none_forgotten:
  "none_forgotten can q \<Longrightarrow> none_forgotten can (attempt_restore can live rid attempt q)"
  by (auto simp: attempt_restore_def restore_ready_none_forgotten split: option.splits)

lemma attempt_retire_ok: "requests_ok q \<Longrightarrow> requests_ok (attempt_retire can live rid attempt q)"
  by (simp add: attempt_retire_def restore_ready_ok retire_request_ok)

lemma attempt_retire_none_forgotten:
  "none_forgotten can q \<Longrightarrow> none_forgotten can (attempt_retire can live rid attempt q)"
  by (simp add: attempt_retire_def restore_ready_none_forgotten)

section \<open>Interruptions\<close>

lemma map_of_map_entries [simp]: "map_of (map (\<lambda>(k, e). (k, f e)) m) k = map_option f (map_of m k)"
  by (induction m) auto

lemma keys_map_entries [simp]: "map (fst \<circ> (\<lambda>(k, e). (k, f e))) m = map fst m"
  by (induction m) auto

lemma answerable_suspend [simp]: "\<not> answerable_entry (suspend_entry token e)"
  by (simp add: suspend_entry_def answerable_entry_iff split: eligibility.splits)

lemma set_add_set [simp]: "set (set_add x xs) = insert x (set xs)"
  by (auto simp: set_add_def)

lemma suspend_entry_ok:
  "entry_ok suspended token rid e \<Longrightarrow> entry_ok (suspended @ [token]) (Suc token) rid (suspend_entry token e)"
  by (auto simp: entry_ok_def suspend_entry_def answerable_entry_iff less_SucI split: eligibility.splits)

lemma suspend_requests_ok:
  assumes "requests_ok q"
  shows "requests_ok (snd (suspend_requests q))" (is "requests_ok ?q")
proof (rule requests_okI)
  show "distinct (map fst (tr_entries ?q))" using requests_okD(1) [OF assms] by (simp add: suspend_requests_def Let_def)
  have none: "\<not> answerable_as ?q rid r" for rid r
    using answerable_suspend by (auto simp: answerable_as_def suspend_requests_def Let_def answerable_entry_iff)
  have "tr_pending ?q = []"
  proof (cases "tr_pending q = []")
    case False
    from pending_someD [OF requests_okD(2) [OF assms] this] obtain rid r where p: "tr_pending q = [(rid, r)]" "answerable_as q rid r"
      by blast
    then show ?thesis
      by (auto simp: suspend_requests_def Let_def optional_that_def answerable_as_def answerable_entry_iff)
  qed (simp add: suspend_requests_def Let_def)
  then show "pending_exact ?q" using none by (simp add: pending_exact_def)
  show "entry_ok (tr_suspended ?q) (tr_symbols ?q) rid' e'" if "map_of (tr_entries ?q) rid' = Some e'" for rid' e'
    using that requests_okD(3) [OF assms] suspend_entry_ok by (auto simp: suspend_requests_def Let_def)
  show "token < tr_symbols ?q" if "token \<in> set (tr_suspended ?q)" for token
    using that requests_okD(4) [OF assms] by (auto simp: suspend_requests_def Let_def less_SucI)
qed

lemma suspend_entry_withheld: "re_eligibility (suspend_entry token e) = Withheld r \<Longrightarrow> re_suspensions (suspend_entry token e) \<noteq> []"
  by (cases "re_eligibility e") (simp_all add: suspend_entry_def set_add_def, auto)

lemma suspend_none_forgotten: "none_forgotten can (snd (suspend_requests q))"
  using suspend_entry_withheld by (auto simp: none_forgotten_def withheld_suspended_def suspend_requests_def Let_def)

lemma resume_entry_simps [simp]:
  "re_eligibility (resume_entry token e) = re_eligibility e"
  "re_retirement_observed (resume_entry token e) = re_retirement_observed e"
  by (simp_all add: resume_entry_def)

lemma resume_ok:
  assumes "requests_ok q"
  shows "requests_ok (q\<lparr>tr_entries := map (\<lambda>(rid, e). (rid, resume_entry token e)) (tr_entries q),
          tr_suspended := filter (\<lambda>t. t \<noteq> token) (tr_suspended q)\<rparr>)" (is "requests_ok ?q")
proof (rule requests_okI)
  show "distinct (map fst (tr_entries ?q))" using requests_okD(1) [OF assms] by simp
  have "answerable_as ?q = answerable_as q"
    by (intro ext) (auto simp: answerable_as_def)
  then show "pending_exact ?q" using requests_okD(2) [OF assms] by (simp add: pending_exact_def)
  show "entry_ok (tr_suspended ?q) (tr_symbols ?q) rid' e'" if "map_of (tr_entries ?q) rid' = Some e'" for rid' e'
    using that requests_okD(3) [OF assms]
    by (fastforce simp: entry_ok_def answerable_entry_iff resume_entry_def)
  show "t < tr_symbols ?q" if "t \<in> set (tr_suspended ?q)" for t
    using that requests_okD(4) [OF assms] by auto
qed

lemma suspension_restore_ok: "requests_ok q \<Longrightarrow> requests_ok (suspension_restore can live token q)"
  by (simp add: suspension_restore_def restore_ready_ok resume_ok)

lemma suspension_restore_none_forgotten:
  "none_forgotten can q \<Longrightarrow> none_forgotten can (suspension_restore can live token q)"
  by (simp add: suspension_restore_def restore_ready_none_forgotten)

lemma withdraw_unsuspended:
  "withdraw_requests (q\<lparr>tr_suspended := ts\<rparr>) = (withdraw_requests q)\<lparr>tr_suspended := ts\<rparr>"
proof -
  have "retire_request k (p\<lparr>tr_suspended := ts\<rparr>) = (retire_request k p)\<lparr>tr_suspended := ts\<rparr>" for k p
    by (simp add: retire_request_def put_entry_def split: option.splits)
  then have "fold retire_request ks (p\<lparr>tr_suspended := ts\<rparr>) = (fold retire_request ks p)\<lparr>tr_suspended := ts\<rparr>" for ks p
    by (induction ks arbitrary: p) simp_all
  then show ?thesis by (simp add: withdraw_requests_def)
qed

lemma fold_retire_entries:
  "distinct rids \<Longrightarrow> map_of (tr_entries (fold retire_request rids q)) rid =
     (if rid \<in> set rids then map_option (\<lambda>e. e\<lparr>re_eligibility := Retired, re_suspensions := []\<rparr>) (map_of (tr_entries q) rid)
      else map_of (tr_entries q) rid)"
  by (induction rids arbitrary: q) (auto simp: retire_request_entries split: option.splits)

lemma withdraw_requests_entries:
  assumes "distinct (map fst (tr_entries q))"
  shows "map_of (tr_entries (withdraw_requests q)) rid =
    map_option (\<lambda>e. e\<lparr>re_eligibility := Retired, re_suspensions := []\<rparr>) (map_of (tr_entries q) rid)"
  using fold_retire_entries [OF assms, of q rid] map_of_key [of "tr_entries q" rid]
  by (cases "map_of (tr_entries q) rid") (auto simp: withdraw_requests_def)

lemma suspension_withdraw_ok:
  assumes "requests_ok q"
  shows "requests_ok (suspension_withdraw token q)"
proof (cases "token \<in> set (tr_suspended q)")
  case True
  let ?w = "withdraw_requests q"
  have w: "requests_ok ?w" by (rule withdraw_requests_ok [OF assms])
  have eq: "suspension_withdraw token q = ?w\<lparr>tr_suspended := filter (\<lambda>t. t \<noteq> token) (tr_suspended q)\<rparr>" (is "_ = ?q")
    using True by (simp add: suspension_withdraw_def withdraw_unsuspended)
  have "requests_ok ?q"
  proof (rule requests_okI)
    show "distinct (map fst (tr_entries ?q))" using requests_okD(1) [OF w] by simp
    show "pending_exact ?q" using requests_okD(2) [OF w] by (simp add: pending_exact_def answerable_as_def)
    show "entry_ok (tr_suspended ?q) (tr_symbols ?q) rid' e'" if "map_of (tr_entries ?q) rid' = Some e'" for rid' e'
      using that withdraw_requests_entries [OF requests_okD(1) [OF assms], of rid']
      by (auto simp: entry_ok_def)
    show "t < tr_symbols ?q" if "t \<in> set (tr_suspended ?q)" for t
      using that requests_okD(4) [OF assms] by auto
  qed
  then show ?thesis by (simp add: eq)
qed (simp add: suspension_withdraw_def assms)

lemma suspension_withdraw_none_forgotten:
  "none_forgotten can q \<Longrightarrow> none_forgotten can (suspension_withdraw token q)"
  by (simp add: suspension_withdraw_def withdraw_none_forgotten)

section \<open>Opening and retiring by the provider\<close>

lemma open_request_ok:
  assumes "requests_ok q" and "open_request r ids q = Inr (ids', q')"
  shows "requests_ok q'"
proof -
  let ?e = "\<lparr>re_eligibility = Answerable r, re_retirement_observed = False, re_suspensions = []\<rparr>"
  from assms(2) have none: "tr_pending q = []"
    and q': "q' = (put_entry (rq_id r) ?e q)\<lparr>tr_pending := map_set (rq_id r) r (tr_pending q)\<rparr>"
    by (auto simp: open_request_def result_simps split: if_splits)
  show ?thesis
  proof (rule requests_okI)
    show "distinct (map fst (tr_entries q'))" using requests_okD(1) [OF assms(1)] by (simp add: q')
    show "pending_exact q'"
      by (rule pending_exact_open [OF requests_okD(2) [OF assms(1)] none, of ?e]) (simp_all add: q')
    show "entry_ok (tr_suspended q') (tr_symbols q') rid' e'" if "map_of (tr_entries q') rid' = Some e'" for rid' e'
      using that requests_okD(3) [OF assms(1)] by (auto simp: q' entry_ok_def split: if_splits)
    show "t < tr_symbols q'" if "t \<in> set (tr_suspended q')" for t
      using that requests_okD(4) [OF assms(1)] by (simp add: q')
  qed
qed

lemma open_none_forgotten: "open_request r ids q = Inr (ids', q') \<Longrightarrow> none_forgotten can q'"
  by (auto simp: open_request_def none_forgotten_def result_simps split: if_splits)

lemma retire_after_flag:
  assumes "map_of (tr_entries q) rid = Some e"
  shows "retire_request rid (put_entry rid (e\<lparr>re_retirement_observed := True\<rparr>) q) =
    (put_entry rid (e\<lparr>re_retirement_observed := True, re_eligibility := Retired, re_suspensions := []\<rparr>) q)
      \<lparr>tr_pending := map_del rid (tr_pending q)\<rparr>"
proof -
  have "map_set rid a (map_set rid b m) = map_set rid a m" for a b and m :: "(string \<times> request_entry) list"
    by (induction rid b m rule: map_set.induct) auto
  then show ?thesis by (simp add: retire_request_def put_entry_def)
qed

lemma unavailable_request_ok:
  assumes "requests_ok q" and "unavailable_request can live rid q = Inr q'"
  shows "requests_ok q'"
proof -
  from assms(2) obtain e where e: "map_of (tr_entries q) rid = Some e"
    and q': "q' = restore_ready can live (retire_request rid (put_entry rid (e\<lparr>re_retirement_observed := True\<rparr>) q))"
    by (auto simp: unavailable_request_def split: option.splits if_splits)
  have "requests_ok (retire_request rid (put_entry rid (e\<lparr>re_retirement_observed := True\<rparr>) q))" (is "requests_ok ?q")
  proof (rule requests_okI)
    show "distinct (map fst (tr_entries ?q))" using requests_okD(1) [OF assms(1)] by (simp add: retire_after_flag [OF e])
    show "pending_exact ?q"
      by (rule pending_exact_close [OF requests_okD(2) [OF assms(1)], of
          "e\<lparr>re_retirement_observed := True, re_eligibility := Retired, re_suspensions := []\<rparr>" _ rid])
        (simp_all add: retire_after_flag [OF e] answerable_entry_iff)
    show "entry_ok (tr_suspended ?q) (tr_symbols ?q) rid' e'" if "map_of (tr_entries ?q) rid' = Some e'" for rid' e'
      using that requests_okD(3) [OF assms(1), of rid' e']
      by (auto simp: retire_after_flag [OF e] entry_ok_def answerable_entry_iff split: if_splits)
    show "t < tr_symbols ?q" if "t \<in> set (tr_suspended ?q)" for t
      using that requests_okD(4) [OF assms(1)] by (simp add: retire_after_flag [OF e])
  qed
  then show ?thesis by (simp add: q' restore_ready_ok)
qed

lemma unavailable_none_forgotten: "unavailable_request can live rid q = Inr q' \<Longrightarrow> none_forgotten can q'"
  by (auto simp: unavailable_request_def restore_ready_none_forgotten split: option.splits if_splits)

lemma no_requests_ok: "requests_ok no_requests"
  by (simp add: requests_ok_def no_requests_def pending_exact_def answerable_as_def)

lemma no_requests_none_forgotten: "none_forgotten can no_requests"
  by (simp add: none_forgotten_def withheld_suspended_def no_requests_def)

end
