(* ===== verification/Turn_Sequence_Laws.thy ===== *)
theory Turn_Sequence_Laws
  imports Turn_Sequence Turn_Requests_Laws
begin

text \<open>
  Runs of a turn: what one output changes and what it leaves alone, and the invariant of the request
  admission over every run, whatever the provider puts out and however answers and interruptions fall.
\<close>

section \<open>What the stages of one output change\<close>

lemma turn_eqI:
  assumes "tn_sequence t = tn_sequence u" "tn_requests t = tn_requests u" "tn_entered t = tn_entered u"
    "tn_identities t = tn_identities u" "tn_context t = tn_context u" "tn_graph t = tn_graph u"
    "tn_results t = tn_results u" "tn_generated t = tn_generated u"
  shows "t = (u :: turn)"
  using assms by simp

lemma begin_event_eq_Inr [result_simps]:
  "begin_event e t = Inr t' \<longleftrightarrow>
     \<not> ts_terminal (tn_sequence t) \<and> (e = Turn_Started \<longleftrightarrow> \<not> ts_started (tn_sequence t)) \<and>
     t' = t\<lparr>tn_sequence := (tn_sequence t)\<lparr>ts_started := True\<rparr>\<rparr>"
proof -
  have "t\<lparr>tn_sequence := (tn_sequence t)\<lparr>ts_started := True\<rparr>\<rparr> = t" if "ts_started (tn_sequence t)"
    using that by simp
  then show ?thesis by (auto simp: begin_event_def Let_def)
qed

lemma final_diff_event_eq_Inr [result_simps]:
  "final_diff_event mode e t = Inr t' \<longleftrightarrow>
     (mode \<longrightarrow> (if e = Diff_Updated then \<not> has_unclaimed_request (tn_requests t) \<and> \<not> ts_final_diff (tn_sequence t)
       else ts_final_diff (tn_sequence t) \<longrightarrow> trailing_event e)) \<and>
     t' = t\<lparr>tn_sequence := (tn_sequence t)\<lparr>ts_final_diff := (ts_final_diff (tn_sequence t) \<or> mode \<and> e = Diff_Updated)\<rparr>\<rparr>"
  by (auto simp: final_diff_event_def Let_def)

lemma item_event_eq_Inr [result_simps]:
  "item_event phase k kind status t = Inr t' \<longleftrightarrow>
     (\<exists>items. observe_item phase k kind status (ts_items (tn_sequence t)) = Inr items \<and>
       pending_subjects_live (t\<lparr>tn_sequence := (tn_sequence t)\<lparr>ts_items := items\<rparr>\<rparr>) \<and>
       t' = t\<lparr>tn_sequence := (tn_sequence t)\<lparr>ts_items := items\<rparr>,
         tn_context := (if kind = Context_Compaction \<and> phase = Item_Completed \<and> status = Item_Done
           then compaction_ready (tn_context t) else tn_context t)\<rparr>)"
  by (auto simp: item_event_def Let_def result_simps)

text \<open>The retained state of operations, collaborations and resources is apart from the turn's own.\<close>

definition same_turn :: "turn \<Rightarrow> turn \<Rightarrow> bool" where
  "same_turn t t' \<longleftrightarrow> tn_requests t' = tn_requests t \<and> tn_entered t' = tn_entered t \<and> tn_identities t' = tn_identities t \<and>
     tn_context t' = tn_context t \<and> ts_items (tn_sequence t') = ts_items (tn_sequence t) \<and>
     ts_plans (tn_sequence t') = ts_plans (tn_sequence t) \<and> ts_started (tn_sequence t') = ts_started (tn_sequence t) \<and>
     ts_terminal (tn_sequence t') = ts_terminal (tn_sequence t) \<and> ts_final_diff (tn_sequence t') = ts_final_diff (tn_sequence t)"

lemma observe_retained_same: "observe_retained tx e t = Inr t' \<Longrightarrow> same_turn t t'"
  by (cases e) (auto simp: observe_retained_def same_turn_def Let_def result_simps split: option.splits if_splits)

lemma observe_event_output:
  assumes "observe_turn_output tx (Event_Output e) t = Inr t'"
  obtains t1 where "same_turn t t1" "observe_turn_event tx e t1 = Inr t'"
  using assms by (auto simp: observe_turn_output_def result_simps dest: observe_retained_same)

text \<open>What stands when the effect of an event is applied.\<close>

definition admit_event :: "bool \<Rightarrow> agent_event \<Rightarrow> turn \<Rightarrow> turn" where
  "admit_event mode e t = t\<lparr>tn_sequence := (tn_sequence t)\<lparr>ts_started := True,
     ts_final_diff := (ts_final_diff (tn_sequence t) \<or> mode \<and> e = Diff_Updated)\<rparr>\<rparr>"

lemma admit_event_simps [simp]:
  "tn_requests (admit_event mode e t) = tn_requests t" "tn_entered (admit_event mode e t) = tn_entered t"
  "tn_identities (admit_event mode e t) = tn_identities t" "tn_context (admit_event mode e t) = tn_context t"
  "tn_graph (admit_event mode e t) = tn_graph t" "tn_results (admit_event mode e t) = tn_results t"
  "tn_generated (admit_event mode e t) = tn_generated t"
  "ts_items (tn_sequence (admit_event mode e t)) = ts_items (tn_sequence t)"
  "ts_plans (tn_sequence (admit_event mode e t)) = ts_plans (tn_sequence t)"
  "ts_resources (tn_sequence (admit_event mode e t)) = ts_resources (tn_sequence t)"
  "ts_terminal (tn_sequence (admit_event mode e t)) = ts_terminal (tn_sequence t)"
  "ts_started (tn_sequence (admit_event mode e t))"
  "ts_final_diff (tn_sequence (admit_event mode e t)) \<longleftrightarrow> ts_final_diff (tn_sequence t) \<or> mode \<and> e = Diff_Updated"
  by (auto simp: admit_event_def)

lemma observe_turn_event_iff:
  "observe_turn_event tx e t = Inr t' \<longleftrightarrow>
     \<not> ts_terminal (tn_sequence t) \<and> (e = Turn_Started \<longleftrightarrow> \<not> ts_started (tn_sequence t)) \<and>
     (tx_final_diff_mode tx \<longrightarrow> (if e = Diff_Updated then \<not> has_unclaimed_request (tn_requests t) \<and> \<not> ts_final_diff (tn_sequence t)
       else ts_final_diff (tn_sequence t) \<longrightarrow> trailing_event e)) \<and>
     effect_of_event e (admit_event (tx_final_diff_mode tx) e t) = Inr t'"
  by (auto simp: observe_turn_event_def result_simps admit_event_def)

section \<open>The invariant of the requests over runs\<close>

text \<open>Which requests were opened, and which of them the provider has taken back.\<close>

definition marks :: "turn_requests \<Rightarrow> string \<Rightarrow> bool option" where
  "marks q rid = map_option re_retirement_observed (map_of (tr_entries q) rid)"

definition turn_ok :: "turn \<Rightarrow> bool" where
  "turn_ok t \<longleftrightarrow> requests_ok (tn_requests t) \<and> none_forgotten (can_restore t) (tn_requests t) \<and>
     (\<forall>rid b. marks (tn_requests t) rid = Some b \<longrightarrow> rid \<in> set (ri_ids (tn_identities t)))"

lemma none_forgotten_mono: "none_forgotten can q \<Longrightarrow> (can' \<Longrightarrow> can) \<Longrightarrow> none_forgotten can' q"
  by (auto simp: none_forgotten_def)

lemma marks_iff: "marks q rid = None \<longleftrightarrow> \<not> has_opened rid q"
  by (simp add: marks_def has_opened_def has_key_def)

lemma marks_put [simp]: "marks (put_entry rid e q) = (marks q)(rid \<mapsto> re_retirement_observed e)"
  by (auto simp: marks_def)

lemma marks_cong: "tr_entries q' = tr_entries q \<Longrightarrow> marks q' = marks q"
  by (auto simp: marks_def)

lemma marks_update [simp]:
  "marks (q\<lparr>tr_pending := p\<rparr>) = marks q" "marks (q\<lparr>tr_suspended := s\<rparr>) = marks q" "marks (q\<lparr>tr_symbols := n\<rparr>) = marks q"
  by (auto intro: marks_cong)

lemma marks_same: "map_of (tr_entries q) rid = Some e \<Longrightarrow> (marks q)(rid \<mapsto> re_retirement_observed e) = marks q"
  by (auto simp: marks_def)

lemma retire_request_marks [simp]: "marks (retire_request rid q) = marks q"
  by (simp add: retire_request_def marks_same split: option.splits)

lemma restore_first_marks [simp]: "marks (restore_first live rids q) = marks q"
  by (induction live rids q rule: restore_first.induct) (simp_all add: marks_same split: option.splits eligibility.splits)

lemma restore_ready_marks [simp]: "marks (restore_ready can live q) = marks q"
  by (simp add: restore_ready_def)

lemma withdraw_marks [simp]: "marks (withdraw_requests q) = marks q"
proof -
  have "marks (fold retire_request rids q) = marks q" for rids
    by (induction rids arbitrary: q) simp_all
  then show ?thesis by (simp add: withdraw_requests_def)
qed

lemma claim_answer_marks: "claim_answer can live rid r q = Inr (attempt, q') \<Longrightarrow> marks q' = marks q"
  by (auto simp: claim_answer_def Let_def marks_same split: option.splits if_splits)

lemma attempt_restore_marks [simp]: "marks (attempt_restore can live rid attempt q) = marks q"
  by (simp add: attempt_restore_def marks_same split: option.splits)

lemma attempt_retire_marks [simp]: "marks (attempt_retire can live rid attempt q) = marks q"
  by (simp add: attempt_retire_def)

lemma suspend_marks [simp]: "marks (snd (suspend_requests q)) = marks q"
proof -
  have "re_retirement_observed (suspend_entry token e) = re_retirement_observed e" for token e
    by (simp add: suspend_entry_def split: eligibility.splits)
  then show ?thesis by (auto simp: marks_def suspend_requests_def Let_def option.map_comp comp_def)
qed

lemma suspension_marks [simp]:
  "marks (suspension_restore can live token q) = marks q"
  "marks (suspension_withdraw token q) = marks q"
proof -
  show "marks (suspension_restore can live token q) = marks q"
    by (simp add: suspension_restore_def, auto simp: marks_def option.map_comp comp_def)
  show "marks (suspension_withdraw token q) = marks q"
    by (simp add: suspension_withdraw_def withdraw_unsuspended)
qed

lemma unavailable_marks:
  "unavailable_request can live rid q = Inr q' \<Longrightarrow> marks q rid = Some False \<and> marks q' = (marks q)(rid \<mapsto> True)"
  by (auto simp: unavailable_request_def split: option.splits if_splits) (simp add: marks_def)

lemma claim_request_ids:
  "claim_request rid code ids = Inr ids' \<Longrightarrow> rid \<notin> set (ri_ids ids) \<and> ri_ids ids' = ri_ids ids @ [rid]"
  by (auto simp: claim_request_def split: if_splits)

lemma open_request_marks:
  assumes "open_request r ids q = Inr (ids', q')"
  shows "marks q' = (marks q)(rq_id r \<mapsto> False)"
    and "rq_id r \<notin> set (ri_ids ids)" and "ri_ids ids' = ri_ids ids @ [rq_id r]"
  using assms claim_request_ids by (auto simp: open_request_def result_simps split: if_splits)

lemma same_turn_ok: "same_turn t t' \<Longrightarrow> turn_ok t \<Longrightarrow> turn_ok t'"
  by (simp add: turn_ok_def same_turn_def can_restore_def)

lemma admit_event_ok: "turn_ok t \<Longrightarrow> turn_ok (admit_event mode e t)"
  by (simp add: turn_ok_def can_restore_def)

lemma turn_okI:
  assumes "requests_ok (tn_requests t)" "none_forgotten (can_restore t) (tn_requests t)"
    "\<And>rid b. marks (tn_requests t) rid = Some b \<Longrightarrow> rid \<in> set (ri_ids (tn_identities t))"
  shows "turn_ok t"
  using assms by (simp add: turn_ok_def)

lemma turn_okD:
  assumes "turn_ok t"
  shows "requests_ok (tn_requests t)" "none_forgotten (can_restore t) (tn_requests t)"
    "marks (tn_requests t) rid = Some b \<Longrightarrow> rid \<in> set (ri_ids (tn_identities t))"
  using assms by (auto simp: turn_ok_def)

lemma turn_ok_keep:
  assumes "turn_ok t" "tn_requests t' = tn_requests t" "tn_entered t' = tn_entered t" "tn_identities t' = tn_identities t"
    "ts_terminal (tn_sequence t') = ts_terminal (tn_sequence t)"
  shows "turn_ok t'"
  using assms by (simp add: turn_ok_def can_restore_def)

lemma effect_of_event_ok:
  assumes "turn_ok t" "effect_of_event e t = Inr t'"
  shows "turn_ok t'"
proof (cases "(\<exists>r. e = Request_Opened r) \<or> (\<exists>rid. e = Request_Unavailable rid) \<or> (\<exists>out. e = Turn_Completed out)")
  case False
  have "tn_requests t' = tn_requests t \<and> tn_entered t' = tn_entered t \<and> tn_identities t' = tn_identities t \<and>
      ts_terminal (tn_sequence t') = ts_terminal (tn_sequence t)"
    using assms(2) False
    by (cases e) (auto simp: effect_of_event_def result_simps Let_def split: if_splits)
  then show ?thesis by (intro turn_ok_keep [OF assms(1)]) simp_all
next
  case True
  then consider r where "e = Request_Opened r" | rid where "e = Request_Unavailable rid" | out where "e = Turn_Completed out"
    by blast
  then show ?thesis
  proof cases
    case 1
    then obtain ids q where o: "open_request r (tn_identities t) (tn_requests t) = Inr (ids, q)"
      and t': "t' = t\<lparr>tn_identities := ids, tn_requests := q\<rparr>"
      using assms(2) by (auto simp: effect_of_event_def result_simps split: if_splits)
    show ?thesis
    proof (rule turn_okI)
      show "requests_ok (tn_requests t')" using open_request_ok [OF turn_okD(1) [OF assms(1)] o] by (simp add: t')
      show "none_forgotten (can_restore t') (tn_requests t')" using open_none_forgotten [OF o] by (simp add: t')
      show "rid \<in> set (ri_ids (tn_identities t'))" if "marks (tn_requests t') rid = Some b" for rid b
        using that open_request_marks [OF o] turn_okD(3) [OF assms(1), of rid b] by (auto simp: t' split: if_splits)
    qed
  next
    case 2
    then obtain q where u: "unavailable_request (can_restore t) (live_in t) rid (tn_requests t) = Inr q"
      and t': "t' = t\<lparr>tn_requests := q\<rparr>"
      using assms(2) by (auto simp: effect_of_event_def result_simps)
    show ?thesis
      by (rule turn_okI)
        (use unavailable_request_ok [OF turn_okD(1) [OF assms(1)] u] unavailable_none_forgotten [OF u]
          unavailable_marks [OF u] turn_okD(3) [OF assms(1)] in \<open>auto simp: t' can_restore_def split: if_splits\<close>)
  next
    case 3
    then have q: "tn_requests t' = (if out \<noteq> Turn_Done then withdraw_requests (tn_requests t) else tn_requests t)"
      and "ts_terminal (tn_sequence t')" and i: "tn_identities t' = tn_identities t"
      using assms(2) by (auto simp: effect_of_event_def Let_def split: if_splits)
    then have stopped: "\<not> can_restore t'" by (simp add: can_restore_def)
    show ?thesis
    proof (rule turn_okI)
      show "requests_ok (tn_requests t')"
        using q withdraw_requests_ok [OF turn_okD(1) [OF assms(1)]] turn_okD(1) [OF assms(1)] by simp
      show "none_forgotten (can_restore t') (tn_requests t')" using stopped by (simp add: none_forgotten_def)
      show "rid \<in> set (ri_ids (tn_identities t'))" if "marks (tn_requests t') rid = Some b" for rid b
        using that q i turn_okD(3) [OF assms(1)] by (simp split: if_splits)
    qed
  qed
qed

lemma observe_turn_event_ok: "turn_ok t \<Longrightarrow> observe_turn_event tx e t = Inr t' \<Longrightarrow> turn_ok t'"
  using effect_of_event_ok admit_event_ok by (fastforce simp: observe_turn_event_iff)

lemma observe_turn_output_ok:
  assumes "turn_ok t" "observe_turn_output tx out t = Inr t'"
  shows "turn_ok t'"
proof (cases out)
  case Process_Started
  then have "t' = t\<lparr>tn_context := materialization_boundary (tn_context t)\<rparr>" using assms(2) by (simp add: observe_turn_output_def)
  then show ?thesis by (intro turn_ok_keep [OF assms(1)]) simp_all
next
  case (Event_Output e)
  then obtain t1 where "same_turn t t1" "observe_turn_event tx e t1 = Inr t'"
    using assms(2) observe_event_output by blast
  then show ?thesis using same_turn_ok assms(1) observe_turn_event_ok by blast
next
  case Other_Output
  then show ?thesis using assms by (simp add: observe_turn_output_def)
qed

lemma with_requests_simps [simp]:
  "tn_requests (with_requests f t) = f (can_restore t) (live_in t) (tn_requests t)"
  "tn_identities (with_requests f t) = tn_identities t" "can_restore (with_requests f t) \<longleftrightarrow> can_restore t"
  by (simp_all add: with_requests_def can_restore_def)

lemma turn_act_ok:
  assumes "turn_ok t" "turn_act tx action t = Inr t'"
  shows "turn_ok t'"
proof (cases action)
  case (Output out)
  then show ?thesis using assms observe_turn_output_ok by (auto simp: turn_act_def split: if_splits)
next
  case (Claim rid)
  then obtain r attempt q where c: "claim_answer (can_restore t) (live_in t) rid r (tn_requests t) = Inr (attempt, q)"
    and t': "t' = t\<lparr>tn_requests := q\<rparr>"
    using assms(2) by (auto simp: turn_act_def result_simps split: option.splits if_splits)
  show ?thesis
    by (rule turn_okI) (use claim_answer_ok [OF turn_okD(1) [OF assms(1)] c] claim_none_forgotten [OF c]
      claim_answer_marks [OF c] turn_okD(3) [OF assms(1)] in \<open>auto simp: t' can_restore_def\<close>)
next
  case (Restore_Attempt rid attempt)
  then show ?thesis using assms
    by (auto simp: turn_act_def intro!: turn_okI attempt_restore_ok attempt_restore_none_forgotten dest: turn_okD)
next
  case (Retire_Attempt rid attempt)
  then show ?thesis using assms
    by (auto simp: turn_act_def intro!: turn_okI attempt_retire_ok attempt_retire_none_forgotten dest: turn_okD)
next
  case Suspend
  then show ?thesis using assms
    by (auto simp: turn_act_def intro!: turn_okI suspend_requests_ok suspend_none_forgotten dest: turn_okD split: if_splits)
next
  case (Resume token)
  then show ?thesis using assms
    by (auto simp: turn_act_def intro!: turn_okI suspension_restore_ok suspension_restore_none_forgotten dest: turn_okD)
next
  case (Withdraw token)
  then have t': "t' = t\<lparr>tn_requests := suspension_withdraw token (tn_requests t)\<rparr>" using assms(2) by (simp add: turn_act_def)
  have "can_restore t' = can_restore t" by (simp add: t' can_restore_def)
  then show ?thesis
    by (intro turn_okI) (use suspension_withdraw_ok [OF turn_okD(1) [OF assms(1)]]
      suspension_withdraw_none_forgotten [OF turn_okD(2) [OF assms(1)]] turn_okD(3) [OF assms(1)] in \<open>auto simp: t'\<close>)
next
  case Stop_Turn
  then have t': "t' = stop_turn t" using assms(2) by (simp add: turn_act_def)
  show ?thesis
    by (rule turn_okI) (use withdraw_requests_ok [OF turn_okD(1) [OF assms(1)]] turn_okD(3) [OF assms(1)]
      in \<open>auto simp: t' stop_turn_def can_restore_def none_forgotten_def\<close>)
qed

lemma begin_turn_ok: "turn_ok (begin_turn t)"
  by (rule turn_okI)
    (simp_all add: begin_turn_def no_requests_ok no_requests_none_forgotten, simp add: no_requests_def marks_def)

lemma turn_run_ok:
  assumes "turn_run tx t actions t'" "turn_ok t"
  shows "turn_ok t'"
  using assms by (induction rule: turn_run.induct) (auto intro: turn_act_ok)

end
