(* ===== verification/Turn_Traces.thy ===== *)
theory Turn_Traces
  imports Turn_Sequence_Laws
begin

text \<open>
  What an accepted turn looks like from outside: which event may follow a history of events, stated on the
  events alone, and the proof that every run of the sequence checks has such a history.
\<close>

section \<open>Histories\<close>

text \<open>Every element may follow those before it.\<close>

definition legal_by :: "('a list \<Rightarrow> 'a \<Rightarrow> bool) \<Rightarrow> 'a list \<Rightarrow> bool" where
  "legal_by follow xs \<longleftrightarrow> list_all (\<lambda>i. follow (take i xs) (xs ! i)) [0..<length xs]"

lemma legal_by_Nil [simp]: "legal_by follow []"
  by (simp add: legal_by_def)

lemma legal_by_snoc [simp]: "legal_by follow (xs @ [x]) \<longleftrightarrow> legal_by follow xs \<and> follow xs x"
  by (auto simp: legal_by_def list_all_iff nth_append)

lemma legal_by_nth: "legal_by follow xs \<Longrightarrow> i < length xs \<Longrightarrow> follow (take i xs) (xs ! i)"
  by (simp add: legal_by_def list_all_iff)

type_synonym item_report = "item_phase \<times> item_kind \<times> item_status"

definition terminal_report :: "item_report \<Rightarrow> bool" where
  "terminal_report r = (case r of (phase, kind, status) \<Rightarrow> phase = Item_Completed \<or> terminal_item_status status)"

text \<open>An item is started at most once and first, keeps its kind, does not fall back to pending, and ends at most once.\<close>

definition item_may_follow :: "item_report list \<Rightarrow> item_report \<Rightarrow> bool" where
  "item_may_follow before r = (case r of (phase, kind, status) \<Rightarrow>
     (phase = Item_Completed \<longrightarrow> terminal_item_status status) \<and> (before \<noteq> [] \<longrightarrow> phase \<noteq> Item_Started) \<and>
     list_all (\<lambda>p. \<not> terminal_report p \<and> fst (snd p) = kind \<and>
       (status = Item_Pending \<longrightarrow> snd (snd p) \<noteq> Item_In_Progress)) before)"

definition item_report_of :: "string \<Rightarrow> agent_event \<Rightarrow> item_report list" where
  "item_report_of k e = (case e of Item_Event phase k' kind status \<Rightarrow> if k' = k then [(phase, kind, status)] else [] | _ \<Rightarrow> [])"

definition item_history :: "string \<Rightarrow> agent_event list \<Rightarrow> item_report list" where
  "item_history k es = concat (map (item_report_of k) es)"

definition opened_ids :: "agent_event list \<Rightarrow> string list" where
  "opened_ids es = concat (map (\<lambda>e. case e of Request_Opened r \<Rightarrow> [rq_id r] | _ \<Rightarrow> []) es)"

definition proposals :: "string \<Rightarrow> agent_event list \<Rightarrow> string list" where
  "proposals a es = concat (map (\<lambda>e. case e of Plan_Proposed a' rid \<Rightarrow> if a' = a then [rid] else [] | _ \<Rightarrow> []) es)"

text \<open>An approval is about the last proposal of a plan or about an item that has not ended.\<close>

definition open_item :: "item_report list \<Rightarrow> bool" where
  "open_item reports \<longleftrightarrow> reports \<noteq> [] \<and> \<not> list_ex terminal_report reports \<and>
     (snd (snd (last reports)) = Item_Unknown \<longrightarrow> list_ex (\<lambda>p. snd (snd p) = Item_In_Progress) reports)"

definition subject_open :: "agent_event list \<Rightarrow> agent_request \<Rightarrow> bool" where
  "subject_open es r = (case rq_subject r of
       None \<Rightarrow> True
     | Some (Plan_Subject a) \<Rightarrow> proposals a es \<noteq> [] \<and> last (proposals a es) = rq_id r
     | Some (Item_Subject k) \<Rightarrow> open_item (item_history k es))"

definition is_turn_completed :: "agent_event \<Rightarrow> bool" where
  "is_turn_completed e = (case e of Turn_Completed out \<Rightarrow> True | _ \<Rightarrow> False)"

text \<open>Which event may follow the events before it, in a session whose earlier turns used the request ids \<open>used\<close>.\<close>

definition turn_may_follow :: "bool \<Rightarrow> string list \<Rightarrow> agent_event list \<Rightarrow> agent_event \<Rightarrow> bool" where
  "turn_may_follow final_diff used es e \<longleftrightarrow>
     (e = Turn_Started \<longleftrightarrow> es = []) \<and> \<not> list_ex is_turn_completed es \<and>
     (final_diff \<and> Diff_Updated \<in> set es \<longrightarrow> trailing_event e) \<and>
     (case e of
        Item_Event phase k kind status \<Rightarrow> item_may_follow (item_history k es) (phase, kind, status)
      | Request_Opened r \<Rightarrow> rq_id r \<notin> set (used @ opened_ids es) \<and> length (used @ opened_ids es) < 4096 \<and> subject_open es r
      | Request_Unavailable rid \<Rightarrow> rid \<in> set (opened_ids es) \<and> Request_Unavailable rid \<notin> set es
      | Turn_State_Changed waiting rid \<Rightarrow> waiting \<longrightarrow> (case rid of None \<Rightarrow> False | Some k \<Rightarrow> k \<in> set (opened_ids es))
      | _ \<Rightarrow> True)"

definition event_of_action :: "turn_action \<Rightarrow> agent_event list" where
  "event_of_action a = (case a of Output (Event_Output e) \<Rightarrow> [e] | _ \<Rightarrow> [])"

definition events_of :: "turn_action list \<Rightarrow> agent_event list" where
  "events_of actions = concat (map event_of_action actions)"

lemma events_of_snoc [simp]: "events_of (actions @ [a]) = events_of actions @ event_of_action a"
  by (simp add: events_of_def)

lemma history_snoc [simp]:
  "item_history k (es @ [e]) = item_history k es @ item_report_of k e"
  "opened_ids (es @ [e]) = opened_ids es @ (case e of Request_Opened r \<Rightarrow> [rq_id r] | _ \<Rightarrow> [])"
  "proposals a (es @ [e]) = proposals a es @ (case e of Plan_Proposed a' rid \<Rightarrow> if a' = a then [rid] else [] | _ \<Rightarrow> [])"
  by (simp_all add: item_history_def opened_ids_def proposals_def)

lemma history_Nil [simp]: "item_history k [] = []" "opened_ids [] = []" "proposals a [] = []"
  by (simp_all add: item_history_def opened_ids_def proposals_def)

section \<open>Items\<close>

definition item_summary :: "item_report list \<Rightarrow> observed_item option" where
  "item_summary reports =
     (if reports = [] then None
      else Some \<lparr>oi_kind = fst (snd (last reports)), oi_status = snd (snd (last reports)),
        oi_in_progress_observed = list_ex (\<lambda>p. snd (snd p) = Item_In_Progress) reports,
        oi_terminal = terminal_report (last reports)\<rparr>)"

text \<open>In a legal history the last report tells about all of them.\<close>

lemma legal_item_last:
  "legal_by item_may_follow (reports @ [r]) \<Longrightarrow> p \<in> set reports \<Longrightarrow> \<not> terminal_report p \<and> fst (snd p) = fst (snd r)"
  by (cases r) (auto simp: item_may_follow_def list_all_iff)

lemma item_may_follow_iff:
  assumes "legal_by item_may_follow reports"
  shows "item_may_follow reports (phase, kind, status) \<longleftrightarrow>
    (phase = Item_Completed \<longrightarrow> terminal_item_status status) \<and>
    (case item_summary reports of
       None \<Rightarrow> True
     | Some p \<Rightarrow> \<not> oi_terminal p \<and> oi_kind p = kind \<and> phase \<noteq> Item_Started \<and>
         \<not> (oi_in_progress_observed p \<and> status = Item_Pending))"
proof (cases reports rule: rev_cases)
  case Nil
  then show ?thesis by (simp add: item_may_follow_def item_summary_def)
next
  case (snoc before l)
  have "\<not> terminal_report p \<and> fst (snd p) = fst (snd l)" if "p \<in> set before" for p
    using legal_item_last assms snoc that by blast
  then show ?thesis
    by (auto simp: item_may_follow_def item_summary_def snoc list_all_iff list_ex_iff)
qed

definition items_track :: "item_map \<Rightarrow> (string \<Rightarrow> item_report list) \<Rightarrow> bool" where
  "items_track items reports \<longleftrightarrow> (\<forall>k. map_of items k = item_summary (reports k))"

text \<open>The item table accepts exactly the reports that may follow, and then tells about them too.\<close>

lemma observe_item_exact:
  assumes "items_track items reports" and "legal_by item_may_follow (reports k)"
  shows "(\<exists>items'. observe_item phase k kind status items = Inr items') \<longleftrightarrow> item_may_follow (reports k) (phase, kind, status)"
proof -
  have "map_of items k = item_summary (reports k)" using assms(1) by (simp add: items_track_def)
  then show ?thesis
    by (auto simp: observe_item_def Let_def item_may_follow_iff [OF assms(2)] split: option.splits)
qed

lemma observe_item_tracks:
  assumes "items_track items reports" and "observe_item phase k kind status items = Inr items'"
  shows "items_track items' (reports(k := reports k @ [(phase, kind, status)]))"
proof -
  have m: "map_of items k = item_summary (reports k)" using assms(1) by (simp add: items_track_def)
  have "items' = map_set k \<lparr>oi_kind = kind, oi_status = status,
      oi_in_progress_observed = ((case map_of items k of None \<Rightarrow> False | Some p \<Rightarrow> oi_in_progress_observed p) \<or> status = Item_In_Progress),
      oi_terminal = (phase = Item_Completed \<or> terminal_item_status status)\<rparr> items"
    using assms(2) by (auto simp: observe_item_def Let_def split: option.splits if_splits)
  then show ?thesis
    using assms(1) by (auto simp: items_track_def m item_summary_def terminal_report_def)
qed

section \<open>The sequence state tells about the history\<close>

definition turn_tracks :: "bool \<Rightarrow> string list \<Rightarrow> agent_event list \<Rightarrow> turn \<Rightarrow> bool" where
  "turn_tracks mode used es t \<longleftrightarrow>
     (ts_started (tn_sequence t) \<longleftrightarrow> es \<noteq> []) \<and> (ts_terminal (tn_sequence t) \<longleftrightarrow> list_ex is_turn_completed es) \<and>
     (ts_final_diff (tn_sequence t) \<longleftrightarrow> mode \<and> Diff_Updated \<in> set es) \<and>
     items_track (ts_items (tn_sequence t)) (\<lambda>k. item_history k es) \<and>
     (\<forall>a. map_of (ts_plans (tn_sequence t)) a = (if proposals a es = [] then None else Some (last (proposals a es)))) \<and>
     (\<forall>rid. marks (tn_requests t) rid =
        (if rid \<in> set (opened_ids es) then Some (Request_Unavailable rid \<in> set es) else None)) \<and>
     ri_ids (tn_identities t) = used @ opened_ids es"

lemma turn_tracksD:
  assumes "turn_tracks mode used es t"
  shows "ts_started (tn_sequence t) \<longleftrightarrow> es \<noteq> []" "ts_terminal (tn_sequence t) \<longleftrightarrow> list_ex is_turn_completed es"
    "ts_final_diff (tn_sequence t) \<longleftrightarrow> mode \<and> Diff_Updated \<in> set es"
    "items_track (ts_items (tn_sequence t)) (\<lambda>k. item_history k es)"
    "map_of (ts_plans (tn_sequence t)) a = (if proposals a es = [] then None else Some (last (proposals a es)))"
    "marks (tn_requests t) rid = (if rid \<in> set (opened_ids es) then Some (Request_Unavailable rid \<in> set es) else None)"
    "ri_ids (tn_identities t) = used @ opened_ids es"
  using assms by (auto simp: turn_tracks_def)

lemma same_turn_tracks: "same_turn t t' \<Longrightarrow> turn_tracks mode used es t \<Longrightarrow> turn_tracks mode used es t'"
  by (simp add: same_turn_def turn_tracks_def)

text \<open>Every event of a legal turn leaves legal item histories.\<close>

lemma turn_legal_items:
  "legal_by (turn_may_follow mode used) es \<Longrightarrow> legal_by item_may_follow (item_history k es)"
proof (induction es rule: rev_induct)
  case (snoc e es)
  then have "turn_may_follow mode used es e" "legal_by item_may_follow (item_history k es)" by simp_all
  then have "legal_by item_may_follow (item_history k es @ item_report_of k e)"
    by (cases e) (auto simp: item_report_of_def turn_may_follow_def)
  then show ?case by (simp only: history_snoc)
qed simp

lemma legal_terminal_last:
  assumes "legal_by item_may_follow reports" "reports \<noteq> []"
  shows "list_ex terminal_report reports \<longleftrightarrow> terminal_report (last reports)"
proof (cases reports rule: rev_cases)
  case (snoc before l)
  then show ?thesis using legal_item_last assms(1) by (auto simp: list_ex_iff)
qed (simp add: assms(2))

lemma live_in_exact:
  assumes "turn_tracks mode used es t" and "\<And>k. legal_by item_may_follow (item_history k es)"
  shows "live_in t r \<longleftrightarrow> subject_open es r"
proof (cases "rq_subject r")
  case None
  then show ?thesis by (simp add: live_in_def has_live_approval_subject_def subject_open_def)
next
  case (Some subject)
  show ?thesis
  proof (cases subject)
    case (Plan_Subject a)
    then show ?thesis using Some turn_tracksD(5) [OF assms(1), of a]
      by (auto simp: live_in_def has_live_approval_subject_def subject_open_def)
  next
    case (Item_Subject k)
    have m: "map_of (ts_items (tn_sequence t)) k = item_summary (item_history k es)"
      using turn_tracksD(4) [OF assms(1)] by (simp add: items_track_def)
    show ?thesis
    proof (cases "item_history k es = []")
      case True
      then show ?thesis using Some Item_Subject m
        by (simp add: live_in_def has_live_approval_subject_def subject_open_def open_item_def item_summary_def)
    next
      case False
      obtain phase kind status where l: "last (item_history k es) = (phase, kind, status)" by (metis prod_cases3)
      show ?thesis using Some Item_Subject m False l legal_terminal_last [OF assms(2) False]
        by (cases status) (auto simp: live_in_def has_live_approval_subject_def subject_open_def open_item_def item_summary_def
            terminal_report_def terminal_item_status_def)
    qed
  qed
qed

section \<open>One event\<close>

lemma admit_event_tracks_state:
  assumes "turn_tracks mode used es t"
  shows "live_in (admit_event m e t) = live_in t"
  by (intro ext) (simp add: live_in_def has_live_approval_subject_def split: option.splits approval_subject.splits)

lemma claim_request_room:
  "claim_request rid code ids = Inr ids' \<Longrightarrow> length (ri_ids ids) < 4096"
  by (auto simp: claim_request_def split: if_splits)

text \<open>An accepted event may follow the history \<dots>\<close>

lemma accepted_may_follow:
  assumes track: "turn_tracks (tx_final_diff_mode tx) used es t"
    and legal: "\<And>k. legal_by item_may_follow (item_history k es)"
    and acc: "observe_turn_event tx e t = Inr t'"
  shows "turn_may_follow (tx_final_diff_mode tx) used es e"
proof -
  note acc = acc [unfolded observe_turn_event_iff]
  let ?a = "admit_event (tx_final_diff_mode tx) e t"
  from acc have eff: "effect_of_event e ?a = Inr t'" by blast
  have start: "(e = Turn_Started \<longleftrightarrow> es = []) \<and> \<not> list_ex is_turn_completed es \<and>
      (tx_final_diff_mode tx \<and> Diff_Updated \<in> set es \<longrightarrow> trailing_event e)"
    using acc turn_tracksD(1-3) [OF track] by (auto split: if_splits)
  have opened: "has_opened rid (tn_requests t) \<longleftrightarrow> rid \<in> set (opened_ids es)" for rid
    using turn_tracksD(6) [OF track, of rid] marks_iff [of "tn_requests t" rid] by (auto split: if_splits)
  show ?thesis
  proof (cases e)
    case (Item_Event phase k kind status)
    then have "\<exists>items. observe_item phase k kind status (ts_items (tn_sequence t)) = Inr items"
      using eff by (auto simp: effect_of_event_def result_simps)
    then have "item_may_follow (item_history k es) (phase, kind, status)"
      by (simp only: observe_item_exact [OF turn_tracksD(4) [OF track] legal])
    then show ?thesis using start Item_Event by (simp add: turn_may_follow_def)
  next
    case (Request_Opened r)
    from eff Request_Opened obtain ids q where "live_in t r" and o: "open_request r (tn_identities t) (tn_requests t) = Inr (ids, q)"
      by (auto simp: effect_of_event_def result_simps admit_event_tracks_state [OF track] split: if_splits)
    moreover from o obtain ids' where "claim_request (rq_id r) ''invalid_turn_sequence'' (tn_identities t) = Inr ids'"
      by (auto simp: open_request_def result_simps split: if_splits)
    then have "length (used @ opened_ids es) < 4096" using claim_request_room turn_tracksD(7) [OF track] by metis
    ultimately show ?thesis
      using start Request_Opened live_in_exact [OF track legal] open_request_marks(2) [OF o]
        turn_tracksD(7) [OF track] by (auto simp: turn_may_follow_def)
  next
    case (Request_Unavailable rid)
    then obtain q where "unavailable_request (can_restore ?a) (live_in ?a) rid (tn_requests t) = Inr q"
      using eff by (auto simp: effect_of_event_def result_simps)
    from unavailable_marks [OF this] show ?thesis
      using start Request_Unavailable turn_tracksD(6) [OF track, of rid] by (auto simp: turn_may_follow_def split: if_splits)
  next
    case (Turn_State_Changed waiting rid)
    then show ?thesis using start eff opened
      by (auto simp: turn_may_follow_def effect_of_event_def split: if_splits option.splits)
  qed (use start in \<open>simp_all add: turn_may_follow_def\<close>)
qed

text \<open>\<dots> and the state tells about the longer history.\<close>

lemma turn_tracksI:
  assumes "ts_started (tn_sequence t) \<longleftrightarrow> es \<noteq> []" "ts_terminal (tn_sequence t) \<longleftrightarrow> list_ex is_turn_completed es"
    "ts_final_diff (tn_sequence t) \<longleftrightarrow> mode \<and> Diff_Updated \<in> set es"
    "items_track (ts_items (tn_sequence t)) (\<lambda>k. item_history k es)"
    "\<And>a. map_of (ts_plans (tn_sequence t)) a = (if proposals a es = [] then None else Some (last (proposals a es)))"
    "\<And>rid. marks (tn_requests t) rid = (if rid \<in> set (opened_ids es) then Some (Request_Unavailable rid \<in> set es) else None)"
    "ri_ids (tn_identities t) = used @ opened_ids es"
  shows "turn_tracks mode used es t"
  using assms by (simp add: turn_tracks_def)

text \<open>An event that is none of those the tables are about changes only the admission.\<close>

lemma plain_event_tracks:
  assumes track: "turn_tracks mode used es t"
    and plain: "\<And>phase k kind status. e \<noteq> Item_Event phase k kind status" "\<And>r. e \<noteq> Request_Opened r" "\<And>a rid. e \<noteq> Plan_Proposed a rid"
      "\<And>rid. e \<noteq> Request_Unavailable rid" "\<not> is_turn_completed e"
    and t': "same_turn (admit_event mode e t) (t'\<lparr>tn_context := tn_context t\<rparr>)"
  shows "turn_tracks mode used (es @ [e]) t'"
proof -
  have same: "opened_ids (es @ [e]) = opened_ids es" "proposals a (es @ [e]) = proposals a es"
      "item_history k (es @ [e]) = item_history k es"
    for a k using plain by (auto simp: item_report_of_def split: agent_event.splits)
  have gone: "Request_Unavailable rid \<in> set (es @ [e]) \<longleftrightarrow> Request_Unavailable rid \<in> set es" for rid
    using plain(4) [of rid] by auto
  show ?thesis
    by (rule turn_tracksI, unfold same gone)
      (use t' turn_tracksD [OF track] plain in \<open>auto simp: same_turn_def\<close>)
qed

lemma effect_tracks:
  assumes track: "turn_tracks mode used es t"
    and eff: "effect_of_event e (admit_event mode e t) = Inr t'"
    and fresh: "\<And>rid. e = Request_Unavailable rid \<Longrightarrow> rid \<in> set (opened_ids es)"
      "\<And>r. e = Request_Opened r \<Longrightarrow> rq_id r \<notin> set (opened_ids es) \<and> Request_Unavailable (rq_id r) \<notin> set es"
  shows "turn_tracks mode used (es @ [e]) t'"
proof -
  let ?a = "admit_event mode e t"
  consider (item) phase k kind status where "e = Item_Event phase k kind status" | (opened) r where "e = Request_Opened r"
    | (plan) a rid where "e = Plan_Proposed a rid" | (gone) rid where "e = Request_Unavailable rid"
    | (completed) out where "e = Turn_Completed out"
    | (plain) "\<And>phase k kind status. e \<noteq> Item_Event phase k kind status" "\<And>r. e \<noteq> Request_Opened r" "\<And>a rid. e \<noteq> Plan_Proposed a rid"
      "\<And>rid. e \<noteq> Request_Unavailable rid" "\<not> is_turn_completed e"
    by (cases e) (auto simp: item_report_of_def is_turn_completed_def)
  then show ?thesis
  proof cases
    case item
    then obtain items where o: "observe_item phase k kind status (ts_items (tn_sequence t)) = Inr items"
      and t': "ts_items (tn_sequence t') = items" "same_turn (?a\<lparr>tn_sequence := (tn_sequence ?a)\<lparr>ts_items := items\<rparr>\<rparr>)
        (t'\<lparr>tn_context := tn_context t\<rparr>)"
      using eff by (auto simp: effect_of_event_def result_simps same_turn_def)
    have "(\<lambda>k'. item_history k' (es @ [e])) = (\<lambda>k. item_history k es)(k := item_history k es @ [(phase, kind, status)])"
      by (auto simp: item item_report_of_def)
    then have "items_track items (\<lambda>k'. item_history k' (es @ [e]))"
      using observe_item_tracks [OF turn_tracksD(4) [OF track] o] by simp
    then show ?thesis
      by (intro turn_tracksI) (use t' turn_tracksD [OF track] item in \<open>auto simp: same_turn_def is_turn_completed_def\<close>)
  next
    case opened
    then obtain ids q where o: "open_request r (tn_identities t) (tn_requests t) = Inr (ids, q)"
      and t': "t' = ?a\<lparr>tn_identities := ids, tn_requests := q\<rparr>"
      using eff by (auto simp: effect_of_event_def result_simps split: if_splits)
    have "items_track (ts_items (tn_sequence t)) (\<lambda>k. item_history k (es @ [e]))"
      using turn_tracksD(4) [OF track] by (simp add: opened item_report_of_def)
    then show ?thesis
      by (intro turn_tracksI) (use open_request_marks [OF o] turn_tracksD [OF track] fresh(2) [OF opened] opened
          in \<open>auto simp: t' is_turn_completed_def\<close>)
  next
    case plan
    have "items_track (ts_items (tn_sequence t)) (\<lambda>k. item_history k (es @ [e]))"
      using turn_tracksD(4) [OF track] by (simp add: plan item_report_of_def)
    moreover have "t' = ?a\<lparr>tn_sequence := (tn_sequence ?a)\<lparr>ts_plans := map_set a rid (ts_plans (tn_sequence ?a))\<rparr>\<rparr>"
      using eff plan by (auto simp: effect_of_event_def Let_def split: if_splits)
    ultimately show ?thesis
      by (intro turn_tracksI) (use turn_tracksD [OF track] plan in \<open>auto simp: is_turn_completed_def\<close>)
  next
    case gone
    then obtain q where u: "unavailable_request (can_restore ?a) (live_in ?a) rid (tn_requests t) = Inr q"
      and t': "t' = ?a\<lparr>tn_requests := q\<rparr>"
      using eff by (auto simp: effect_of_event_def result_simps)
    have "items_track (ts_items (tn_sequence t)) (\<lambda>k. item_history k (es @ [e]))"
      using turn_tracksD(4) [OF track] by (simp add: gone item_report_of_def)
    then show ?thesis
      by (intro turn_tracksI) (use unavailable_marks [OF u] turn_tracksD [OF track] fresh(1) [OF gone] gone
          in \<open>auto simp: t' is_turn_completed_def\<close>)
  next
    case completed
    have "items_track (ts_items (tn_sequence t)) (\<lambda>k. item_history k (es @ [e]))"
      using turn_tracksD(4) [OF track] by (simp add: completed item_report_of_def)
    moreover have "marks (tn_requests t') = marks (tn_requests t)" "tn_identities t' = tn_identities t"
        "tn_sequence t' = (tn_sequence ?a)\<lparr>ts_terminal := True\<rparr>"
      using eff completed by (auto simp: effect_of_event_def Let_def split: if_splits)
    ultimately show ?thesis
      by (intro turn_tracksI) (use turn_tracksD [OF track] completed in \<open>auto simp: is_turn_completed_def\<close>)
  next
    case plain
    have "same_turn ?a (t'\<lparr>tn_context := tn_context t\<rparr>)"
      using eff plain
      by (cases e) (auto simp: effect_of_event_def result_simps same_turn_def item_report_of_def is_turn_completed_def split: if_splits)
    then show ?thesis by (rule plain_event_tracks [OF track plain])
  qed
qed

section \<open>Runs\<close>

lemma unavailable_was_opened:
  "legal_by (turn_may_follow mode used) es \<Longrightarrow> Request_Unavailable rid \<in> set es \<Longrightarrow> rid \<in> set (opened_ids es)"
proof (induction es rule: rev_induct)
  case (snoc e es)
  then have "turn_may_follow mode used es e" "Request_Unavailable rid \<in> set es \<Longrightarrow> rid \<in> set (opened_ids es)" by simp_all
  then show ?case using snoc.prems(2) by (cases "e = Request_Unavailable rid") (auto simp: turn_may_follow_def)
qed simp

text \<open>Answers, interruptions and outputs that are no events leave the history alone.\<close>

lemma quiet_action_tracks:
  assumes "turn_tracks mode used es t" and "turn_act tx a t = Inr t'" and "event_of_action a = []"
  shows "turn_tracks mode used es t'"
proof -
  have "marks (tn_requests t') = marks (tn_requests t) \<and> tn_sequence t' = tn_sequence t \<and> tn_identities t' = tn_identities t"
  proof (cases a)
    case (Output out)
    then show ?thesis using assms(2,3)
      by (cases out) (auto simp: turn_act_def event_of_action_def observe_turn_output_def split: if_splits)
  next
    case (Claim rid)
    then obtain r attempt q where c: "claim_answer (can_restore t) (live_in t) rid r (tn_requests t) = Inr (attempt, q)"
      and t': "t' = t\<lparr>tn_requests := q\<rparr>"
      using assms(2) by (auto simp: turn_act_def result_simps split: option.splits if_splits)
    then show ?thesis using claim_answer_marks [OF c] by simp
  qed (use assms(2) in \<open>auto simp: turn_act_def with_requests_def stop_turn_def split: if_splits\<close>)
  then show ?thesis using assms(1) by (simp add: turn_tracks_def)
qed

lemma turn_run_history:
  assumes "turn_run tx t actions t'" and "turn_tracks (tx_final_diff_mode tx) used [] t"
  shows "legal_by (turn_may_follow (tx_final_diff_mode tx) used) (events_of actions) \<and>
    turn_tracks (tx_final_diff_mode tx) used (events_of actions) t'"
  using assms
proof (induction rule: turn_run.induct)
  case (run_start t)
  then show ?case by (simp add: events_of_def)
next
  case (run_act t actions t' action t'')
  let ?es = "events_of actions" and ?mode = "tx_final_diff_mode tx"
  from run_act have legal: "legal_by (turn_may_follow ?mode used) ?es" and track: "turn_tracks ?mode used ?es t'" by simp_all
  show ?case
  proof (cases "event_of_action action = []")
    case True
    then show ?thesis using quiet_action_tracks [OF track run_act.hyps(2)] legal by simp
  next
    case False
    then obtain e where a: "action = Output (Event_Output e)"
      by (auto simp: event_of_action_def split: turn_action.splits provider_output.splits)
    with run_act.hyps(2) have "observe_turn_output tx (Event_Output e) t' = Inr t''"
      by (simp add: turn_act_def split: if_splits)
    then obtain t1 where "same_turn t' t1" and acc: "observe_turn_event tx e t1 = Inr t''" by (rule observe_event_output)
    then have track1: "turn_tracks ?mode used ?es t1" using same_turn_tracks track by blast
    have follow: "turn_may_follow ?mode used ?es e"
      by (rule accepted_may_follow [OF track1 turn_legal_items [OF legal] acc])
    have "turn_tracks ?mode used (?es @ [e]) t''"
    proof (rule effect_tracks [OF track1])
      show "effect_of_event e (admit_event ?mode e t1) = Inr t''" using acc by (simp add: observe_turn_event_iff)
      show "rid \<in> set (opened_ids ?es)" if "e = Request_Unavailable rid" for rid
        using follow that by (simp add: turn_may_follow_def)
      show "rq_id r \<notin> set (opened_ids ?es) \<and> Request_Unavailable (rq_id r) \<notin> set ?es" if "e = Request_Opened r" for r
        using follow that unavailable_was_opened [OF legal] by (auto simp: turn_may_follow_def)
    qed
    then show ?thesis using legal follow a by (simp add: event_of_action_def)
  qed
qed

lemma begin_turn_tracks: "turn_tracks mode (ri_ids (tn_identities t)) [] (begin_turn t)"
  by (rule turn_tracksI) (simp_all add: begin_turn_def items_track_def item_summary_def marks_def no_requests_def)

lemma turn_history_legal:
  assumes "turn_run tx (begin_turn t0) actions t"
  shows "legal_by (turn_may_follow (tx_final_diff_mode tx) (ri_ids (tn_identities t0))) (events_of actions)"
    and "turn_tracks (tx_final_diff_mode tx) (ri_ids (tn_identities t0)) (events_of actions) t"
  using turn_run_history [OF assms begin_turn_tracks] by simp_all

section \<open>Items alone\<close>

text \<open>Feeding reports to the item table.\<close>

definition observe_report :: "item_map \<Rightarrow> string \<times> item_report \<Rightarrow> session_failure + item_map" where
  "observe_report items kr = (case kr of (k, phase, kind, status) \<Rightarrow> observe_item phase k kind status items)"

definition reports_of :: "string \<Rightarrow> (string \<times> item_report) list \<Rightarrow> item_report list" where
  "reports_of k rs = map snd (filter (\<lambda>kr. fst kr = k) rs)"

lemma fold_result_snoc: "fold_result f s (xs @ [x]) = and_then (fold_result f s xs) (\<lambda>s'. f s' x)"
proof -
  have "and_then m (\<lambda>s'. and_then (f s' x) Inr) = and_then m (\<lambda>s'. f s' x)" for m :: "'a + 'b"
    by (cases m) (simp_all add: and_then_def split: sum.splits)
  then show ?thesis by (simp add: fold_result_append)
qed

lemma reports_of_snoc: "(\<lambda>k'. reports_of k' (rs @ [(k, r)])) = (\<lambda>k. reports_of k rs)(k := reports_of k rs @ [r])"
  by (auto simp: reports_of_def)

lemma observe_report_simp [simp]: "observe_report items (k, phase, kind, status) = observe_item phase k kind status items"
  by (simp add: observe_report_def)

lemma accepted_reports:
  "fold_result observe_report [] rs = Inr items \<Longrightarrow>
   items_track items (\<lambda>k. reports_of k rs) \<and> (\<forall>k. legal_by item_may_follow (reports_of k rs))"
proof (induction rs arbitrary: items rule: rev_induct)
  case Nil
  then show ?case by (auto simp: items_track_def item_summary_def reports_of_def)
next
  case (snoc kr rs)
  obtain k phase kind status where kr: "kr = (k, phase, kind, status)" by (metis prod_cases4)
  from snoc.prems obtain items' where old: "fold_result observe_report [] rs = Inr items'"
    and new: "observe_item phase k kind status items' = Inr items"
    by (auto simp: fold_result_snoc result_simps kr)
  from snoc.IH [OF old] have ih: "items_track items' (\<lambda>k. reports_of k rs)" "\<And>k. legal_by item_may_follow (reports_of k rs)" by auto
  have "item_may_follow (reports_of k rs) (phase, kind, status)"
    using observe_item_exact [OF ih(1) ih(2)] new by blast
  then have "legal_by item_may_follow (reports_of k' (rs @ [kr]))" for k'
    using ih(2) fun_cong [OF reports_of_snoc [of rs k "(phase, kind, status)"], of k'] by (simp add: kr)
  moreover have "items_track items (\<lambda>k. reports_of k (rs @ [kr]))"
    using observe_item_tracks [OF ih(1) new] by (simp add: kr reports_of_snoc)
  ultimately show ?case by blast
qed

lemma legal_reports_accepted:
  "(\<And>k. legal_by item_may_follow (reports_of k rs)) \<Longrightarrow> \<exists>items. fold_result observe_report [] rs = Inr items"
proof (induction rs rule: rev_induct)
  case (snoc kr rs)
  obtain k phase kind status where kr: "kr = (k, phase, kind, status)" by (metis prod_cases4)
  have snoc_legal: "legal_by item_may_follow (((\<lambda>k. reports_of k rs)(k := reports_of k rs @ [(phase, kind, status)])) k')" for k'
    using snoc.prems [of k'] fun_cong [OF reports_of_snoc [of rs k "(phase, kind, status)"], of k'] by (simp only: kr)
  have legal: "legal_by item_may_follow (reports_of k' rs)" for k'
    using snoc_legal [of k'] by (cases "k' = k") simp_all
  obtain items where old: "fold_result observe_report [] rs = Inr items" using snoc.IH legal by blast
  have "item_may_follow (reports_of k rs) (phase, kind, status)" using snoc_legal [of k] by simp
  then have "\<exists>items'. observe_item phase k kind status items = Inr items'"
    using observe_item_exact [of items "\<lambda>k. reports_of k rs"] accepted_reports [OF old] legal by blast
  then show ?case using old by (auto simp: fold_result_snoc kr)
qed simp

lemma reports_accepted_exact:
  "(\<exists>items. fold_result observe_report [] rs = Inr items) \<longleftrightarrow> (\<forall>k. legal_by item_may_follow (reports_of k rs))"
  using accepted_reports legal_reports_accepted by blast

end
