(* ===== verification/Turn_Usage.thy ===== *)
theory Turn_Usage
  imports Turn_Traces
begin

text \<open>
  Context usage over a session's outputs: which sample may follow which, per measurement scope, and that
  the sequence check accepts exactly those.  Counters only grow; occupancy shrinks only after a completed
  compaction; the process scope starts afresh with every process.
\<close>

section \<open>The history of samples\<close>

datatype context_observation = Sample context_usage | Restart | Compacted

fun observe_context :: "context_state \<Rightarrow> context_observation \<Rightarrow> session_failure + context_state" where
  "observe_context cx (Sample u) = observe_context_usage u cx"
| "observe_context cx Restart = Inr (materialization_boundary cx)"
| "observe_context cx Compacted = Inr (compaction_ready cx)"

text \<open>The samples of a scope since it started.\<close>

definition extend_samples :: "measurement_scope \<Rightarrow> context_usage list \<Rightarrow> context_observation \<Rightarrow> context_usage list" where
  "extend_samples s us ob = (case ob of
       Sample u \<Rightarrow> if cu_scope u = s then us @ [u] else us
     | Restart \<Rightarrow> if s = Materialization_Scope then [] else us
     | Compacted \<Rightarrow> us)"

definition samples :: "measurement_scope \<Rightarrow> context_observation list \<Rightarrow> context_usage list" where
  "samples s obs = foldl (extend_samples s) [] obs"

text \<open>Whether a compaction completed since the last sample of a scope.\<close>

definition extend_compacted :: "measurement_scope \<Rightarrow> bool \<Rightarrow> context_observation \<Rightarrow> bool" where
  "extend_compacted s c ob = (case ob of
       Sample u \<Rightarrow> c \<and> cu_scope u \<noteq> s
     | Restart \<Rightarrow> c \<and> s \<noteq> Materialization_Scope
     | Compacted \<Rightarrow> True)"

definition compacted :: "measurement_scope \<Rightarrow> context_observation list \<Rightarrow> bool" where
  "compacted s obs = foldl (extend_compacted s) False obs"

text \<open>The values of one of the seven cumulative counters, where a sample states it.\<close>

definition sample_counter :: "nat \<Rightarrow> context_usage \<Rightarrow> int option" where
  "sample_counter i u = Option.bind (cu_cumulative u) (\<lambda>c. cumulative_counters c ! i)"

definition counter_values :: "nat \<Rightarrow> context_usage list \<Rightarrow> int list" where
  "counter_values i us = List.map_filter (sample_counter i) us"

definition usage_may_follow :: "context_observation list \<Rightarrow> context_observation \<Rightarrow> bool" where
  "usage_may_follow obs ob = (case ob of
       Sample u \<Rightarrow>
         (let us = samples (cu_scope u) obs
          in (us \<noteq> [] \<longrightarrow> last us \<noteq> u \<and> (cu_used_tokens u < cu_used_tokens (last us) \<longrightarrow> compacted (cu_scope u) obs)) \<and>
             list_all (\<lambda>i. sorted (counter_values i (us @ [u]))) [0..<7])
     | _ \<Rightarrow> True)"

lemma samples_snoc [simp]: "samples s (obs @ [ob]) = extend_samples s (samples s obs) ob"
  "compacted s (obs @ [ob]) = extend_compacted s (compacted s obs) ob"
  by (simp_all add: samples_def compacted_def)

lemma counter_values_simps [simp]:
  "counter_values i [] = []"
  "counter_values i (us @ [u]) = counter_values i us @ (case sample_counter i u of None \<Rightarrow> [] | Some v \<Rightarrow> [v])"
  by (simp_all add: counter_values_def List.map_filter_def split: option.splits)

section \<open>The sequence check\<close>

definition last_value :: "'a list \<Rightarrow> 'a option" where
  "last_value vs = (if vs = [] then None else Some (last vs))"

definition retained_counter :: "cumulative_usage option \<Rightarrow> nat \<Rightarrow> int option" where
  "retained_counter before i = Option.bind before (\<lambda>b. cumulative_counters b ! i)"

definition usage_track :: "context_observation list \<Rightarrow> context_state \<Rightarrow> bool" where
  "usage_track obs cx \<longleftrightarrow>
     (\<forall>s. map_of (cx_latest cx) s = last_value (samples s obs)) \<and>
     (\<forall>s. s \<in> set (cx_compaction_ready cx) \<longleftrightarrow> compacted s obs) \<and>
     (\<forall>s. \<forall>i < 7. retained_counter (map_of (cx_cumulative cx) s) i = last_value (counter_values i (samples s obs))) \<and>
     (\<forall>s. \<forall>i < 7. sorted (counter_values i (samples s obs)))"

lemma usage_trackD:
  assumes "usage_track obs cx"
  shows "map_of (cx_latest cx) s = last_value (samples s obs)" "s \<in> set (cx_compaction_ready cx) \<longleftrightarrow> compacted s obs"
    "i < 7 \<Longrightarrow> retained_counter (map_of (cx_cumulative cx) s) i = last_value (counter_values i (samples s obs))"
    "i < 7 \<Longrightarrow> sorted (counter_values i (samples s obs))"
  using assms by (auto simp: usage_track_def)

lemma length_counters [simp]: "length (cumulative_counters c) = 7"
  by (simp add: cumulative_counters_def)

lemma merged_counters:
  "cumulative_counters (merge_cumulative (Some b) c) = map2 newer (cumulative_counters b) (cumulative_counters c)"
  by (simp add: merge_cumulative_def cumulative_counters_def)

lemma merged_counter:
  "i < 7 \<Longrightarrow> cumulative_counters (merge_cumulative before c) ! i = newer (retained_counter before i) (cumulative_counters c ! i)"
proof (cases before)
  case None
  then show ?thesis by (simp add: merge_cumulative_def retained_counter_def newer_def split: option.splits)
next
  case (Some b)
  assume "i < 7"
  then show ?thesis by (simp add: Some merged_counters retained_counter_def)
qed

lemma decreases_iff:
  "list_ex counter_decreases (zip (cumulative_counters b) (cumulative_counters c)) \<longleftrightarrow>
     (\<exists>i < 7. counter_decreases (cumulative_counters b ! i, cumulative_counters c ! i))"
  by (auto simp: list_ex_length)

lemma last_value_snoc [simp]: "last_value (vs @ [v]) = Some v" "last_value [] = None"
  by (simp_all add: last_value_def)

lemma sorted_snoc_last: "sorted vs \<Longrightarrow> sorted (vs @ [v]) \<longleftrightarrow> (case last_value vs of None \<Rightarrow> True | Some l \<Rightarrow> l \<le> (v :: int))"
proof (cases vs rule: rev_cases)
  case (snoc ws w)
  assume "sorted vs"
  then have "x \<le> w" if "x \<in> set ws" for x using that by (simp add: snoc sorted_append)
  then show ?thesis using \<open>sorted vs\<close> by (auto simp: snoc sorted_append intro: order_trans)
qed (simp add: last_value_def)

text \<open>A counter that does not decrease against what is retained does not decrease against any sample.\<close>

lemma counters_sorted_iff:
  assumes "usage_track obs cx"
  shows "(\<forall>i < 7. sorted (counter_values i (samples s obs @ [u]))) \<longleftrightarrow>
    (case (map_of (cx_cumulative cx) s, cu_cumulative u) of
       (Some b, Some c) \<Rightarrow> \<not> list_ex counter_decreases (zip (cumulative_counters b) (cumulative_counters c))
     | _ \<Rightarrow> True)"
proof -
  have "sorted (counter_values i (samples s obs @ [u])) \<longleftrightarrow>
      \<not> counter_decreases (retained_counter (map_of (cx_cumulative cx) s) i, sample_counter i u)" if "i < 7" for i
    using usage_trackD(3,4) [OF assms that, of s] sorted_snoc_last [OF usage_trackD(4) [OF assms that, of s]]
    by (auto simp: counter_decreases_def split: option.splits)
  then have "(\<forall>i < 7. sorted (counter_values i (samples s obs @ [u]))) \<longleftrightarrow>
      (\<forall>i < 7. \<not> counter_decreases (retained_counter (map_of (cx_cumulative cx) s) i, sample_counter i u))" by simp
  also have "\<dots> \<longleftrightarrow> (case (map_of (cx_cumulative cx) s, cu_cumulative u) of
       (Some b, Some c) \<Rightarrow> \<not> list_ex counter_decreases (zip (cumulative_counters b) (cumulative_counters c))
     | _ \<Rightarrow> True)"
    by (auto simp: decreases_iff retained_counter_def sample_counter_def counter_decreases_def split: option.splits)
  finally show ?thesis .
qed

text \<open>What an accepted sample leaves behind.\<close>

lemma observe_context_usage_eq_Inr:
  "observe_context_usage u cx = Inr cx' \<longleftrightarrow>
     (case map_of (cx_latest cx) (cu_scope u) of
        None \<Rightarrow> True
      | Some p \<Rightarrow> p \<noteq> u \<and> (cu_used_tokens u < cu_used_tokens p \<longrightarrow> cu_scope u \<in> set (cx_compaction_ready cx))) \<and>
     (case (map_of (cx_cumulative cx) (cu_scope u), cu_cumulative u) of
        (Some b, Some c) \<Rightarrow> \<not> list_ex counter_decreases (zip (cumulative_counters b) (cumulative_counters c))
      | _ \<Rightarrow> True) \<and>
     cx' = \<lparr>cx_latest = map_set (cu_scope u) u (cx_latest cx),
       cx_cumulative = (case cu_cumulative u of
          None \<Rightarrow> cx_cumulative cx
        | Some c \<Rightarrow> map_set (cu_scope u) (merge_cumulative (map_of (cx_cumulative cx) (cu_scope u)) c) (cx_cumulative cx)),
       cx_compaction_ready = filter (\<lambda>s. s \<noteq> cu_scope u) (cx_compaction_ready cx)\<rparr>"
  by (auto simp: observe_context_usage_def Let_def split: option.splits)

lemma observe_context_exact:
  assumes "usage_track obs cx"
  shows "(\<exists>cx'. observe_context cx ob = Inr cx') \<longleftrightarrow> usage_may_follow obs ob"
proof (cases ob)
  case (Sample u)
  have "map_of (cx_latest cx) (cu_scope u) = last_value (samples (cu_scope u) obs)"
      "cu_scope u \<in> set (cx_compaction_ready cx) \<longleftrightarrow> compacted (cu_scope u) obs"
    using usage_trackD(1,2) [OF assms] by simp_all
  then show ?thesis
    using counters_sorted_iff [OF assms, of "cu_scope u" u]
    by (simp add: Sample observe_context_usage_eq_Inr usage_may_follow_def Let_def list_all_iff last_value_def atLeast0LessThan Ball_def
        del: counter_values_simps split: if_splits)
qed (simp_all add: usage_may_follow_def)

lemma newer_None [simp]: "newer b None = b" "newer b (Some a) = Some a"
  by (simp_all add: newer_def)

lemma observe_context_tracks:
  assumes track: "usage_track obs cx" and acc: "observe_context cx ob = Inr cx'"
  shows "usage_track (obs @ [ob]) cx'"
proof -
  have follow: "usage_may_follow obs ob" using observe_context_exact [OF track] acc by blast
  show ?thesis
  proof (cases ob)
    case (Sample u)
    have sorted: "sorted (counter_values i (samples (cu_scope u) obs @ [u]))" if "i < 7" for i
      using follow that by (simp add: Sample usage_may_follow_def Let_def list_all_iff)
    from acc have cx': "cx' = \<lparr>cx_latest = map_set (cu_scope u) u (cx_latest cx),
       cx_cumulative = (case cu_cumulative u of
          None \<Rightarrow> cx_cumulative cx
        | Some c \<Rightarrow> map_set (cu_scope u) (merge_cumulative (map_of (cx_cumulative cx) (cu_scope u)) c) (cx_cumulative cx)),
       cx_compaction_ready = filter (\<lambda>s. s \<noteq> cu_scope u) (cx_compaction_ready cx)\<rparr>"
      by (simp add: Sample observe_context_usage_eq_Inr)
    have retained: "retained_counter (map_of (cx_cumulative cx') (cu_scope u)) i =
        newer (retained_counter (map_of (cx_cumulative cx) (cu_scope u)) i) (sample_counter i u)" if "i < 7" for i
      using that by (cases "cu_cumulative u") (simp_all add: cx' sample_counter_def merged_counter retained_counter_def [of "Some _"])
    have other: "map_of (cx_cumulative cx') s = map_of (cx_cumulative cx) s" if "s \<noteq> cu_scope u" for s
      using that by (simp add: cx' split: option.splits)
    show ?thesis
      unfolding usage_track_def
    proof (intro conjI allI impI)
      fix s
      show "map_of (cx_latest cx') s = last_value (samples s (obs @ [ob]))"
        using usage_trackD(1) [OF track] by (simp add: Sample extend_samples_def cx')
      show "s \<in> set (cx_compaction_ready cx') \<longleftrightarrow> compacted s (obs @ [ob])"
        using usage_trackD(2) [OF track] by (auto simp: Sample extend_compacted_def cx')
      fix i :: nat assume "i < 7"
      show "retained_counter (map_of (cx_cumulative cx') s) i = last_value (counter_values i (samples s (obs @ [ob])))"
        using usage_trackD(3) [OF track \<open>i < 7\<close>, of s] retained [OF \<open>i < 7\<close>] other
        by (cases "s = cu_scope u") (simp_all add: Sample extend_samples_def split: option.splits)
      show "sorted (counter_values i (samples s (obs @ [ob])))"
        using usage_trackD(4) [OF track \<open>i < 7\<close>, of s] sorted [OF \<open>i < 7\<close>]
        by (cases "s = cu_scope u") (simp_all add: Sample extend_samples_def)
    qed
  next
    case Restart
    then have cx': "cx' = materialization_boundary cx" using acc by simp
    have keep: "map_of (cx_cumulative cx') s = (if s = Materialization_Scope then None else map_of (cx_cumulative cx) s)" for s
      by (simp add: cx' materialization_boundary_def)
    show ?thesis
      unfolding usage_track_def
      by (intro conjI allI impI; use usage_trackD [OF track] in
          \<open>auto simp: Restart keep extend_samples_def extend_compacted_def retained_counter_def [of None]\<close>)
        (simp_all add: cx' materialization_boundary_def usage_trackD [OF track])
  next
    case Compacted
    then have cx': "cx' = compaction_ready cx" using acc by simp
    have all: "s = Session_Scope \<or> s = Materialization_Scope" for s by (cases s) simp_all
    show ?thesis
      unfolding usage_track_def
      by (intro conjI allI impI; use usage_trackD [OF track] all in
          \<open>auto simp: Compacted cx' compaction_ready_def extend_samples_def extend_compacted_def\<close>) blast
  qed
qed

lemma usage_track_new: "usage_track [] new_context"
  by (simp add: usage_track_def new_context_def samples_def compacted_def retained_counter_def last_value_def)

lemma observations_exact:
  "(\<exists>cx. fold_result observe_context new_context obs = Inr cx) \<longleftrightarrow> legal_by usage_may_follow obs"
proof -
  have acc: "fold_result observe_context new_context obs = Inr cx \<Longrightarrow> usage_track obs cx \<and> legal_by usage_may_follow obs" for cx obs
  proof (induction obs arbitrary: cx rule: rev_induct)
    case Nil
    then show ?case using usage_track_new by simp
  next
    case (snoc ob obs)
    then obtain cx1 where "fold_result observe_context new_context obs = Inr cx1" "observe_context cx1 ob = Inr cx"
      by (auto simp: fold_result_snoc result_simps)
    then show ?case using snoc.IH observe_context_tracks observe_context_exact by (metis legal_by_snoc)
  qed
  have "legal_by usage_may_follow obs \<Longrightarrow> \<exists>cx. fold_result observe_context new_context obs = Inr cx"
  proof (induction obs rule: rev_induct)
    case (snoc ob obs)
    then obtain cx where cx: "fold_result observe_context new_context obs = Inr cx" by auto
    then have "usage_track obs cx" "usage_may_follow obs ob" using acc snoc.prems by auto
    then have "\<exists>cx'. observe_context cx ob = Inr cx'" using observe_context_exact by blast
    then show ?case using cx by (auto simp: fold_result_snoc)
  qed simp
  then show ?thesis using acc by blast
qed

section \<open>Runs\<close>

definition observation_of_event :: "agent_event \<Rightarrow> context_observation list" where
  "observation_of_event e = (case e of
       Context_Usage_Updated u \<Rightarrow> [Sample u]
     | Item_Event phase k kind status \<Rightarrow>
         if kind = Context_Compaction \<and> phase = Item_Completed \<and> status = Item_Done then [Compacted] else []
     | _ \<Rightarrow> [])"

definition observation_of_action :: "turn_action \<Rightarrow> context_observation list" where
  "observation_of_action a = (case a of
       Output Process_Started \<Rightarrow> [Restart]
     | Output (Event_Output e) \<Rightarrow> observation_of_event e
     | _ \<Rightarrow> [])"

definition observations_of :: "turn_action list \<Rightarrow> context_observation list" where
  "observations_of actions = concat (map observation_of_action actions)"

lemma observe_event_context:
  assumes "observe_turn_event tx e t = Inr t'"
  shows "fold_result observe_context (tn_context t) (observation_of_event e) = Inr (tn_context t')"
  using assms
  by (cases e) (auto simp: observe_turn_event_iff effect_of_event_def observation_of_event_def result_simps Let_def split: if_splits)

lemma turn_act_context:
  assumes "turn_act tx a t = Inr t'"
  shows "fold_result observe_context (tn_context t) (observation_of_action a) = Inr (tn_context t')"
proof (cases a)
  case (Output out)
  with assms have out: "observe_turn_output tx out t = Inr t'" by (simp add: turn_act_def split: if_splits)
  show ?thesis
  proof (cases out)
    case (Event_Output e)
    with out obtain t1 where "same_turn t t1" "observe_turn_event tx e t1 = Inr t'" using observe_event_output by blast
    then show ?thesis using observe_event_context [of tx e t1 t'] by (simp add: Output Event_Output observation_of_action_def same_turn_def)
  qed (use out in \<open>auto simp: Output observation_of_action_def observe_turn_output_def\<close>)
qed (use assms in \<open>auto simp: turn_act_def observation_of_action_def with_requests_def stop_turn_def result_simps
    split: if_splits option.splits\<close>)

lemma turn_run_context:
  "turn_run tx t actions t' \<Longrightarrow> fold_result observe_context (tn_context t) (observations_of actions) = Inr (tn_context t')"
  by (induction rule: turn_run.induct) (auto simp: observations_of_def fold_result_append dest: turn_act_context)

lemma turn_usage_legal:
  assumes "turn_run tx (begin_turn t0) actions t" "fold_result observe_context new_context obs = Inr (tn_context t0)"
  shows "legal_by usage_may_follow (obs @ observations_of actions)"
  using turn_run_context [OF assms(1)] assms(2) observations_exact [of "obs @ observations_of actions"]
  by (auto simp: begin_turn_def fold_result_append)


text \<open>
  What a run never undoes: settled operations, the identity and the end of generated resources, the limits
  of the resources of a turn, and retired requests.
\<close>

section \<open>Operations and resources\<close>

definition operation_settled :: "operation_result \<Rightarrow> bool" where
  "operation_settled r \<longleftrightarrow> or_status r \<in> {Op_Completed, Op_Failed, Op_Canceled}"

definition operation_forward :: "operation_result \<Rightarrow> operation_result \<Rightarrow> bool" where
  "operation_forward p r \<longleftrightarrow> (operation_settled p \<longrightarrow> r = p)"

definition resource_forward :: "generated_resource \<Rightarrow> generated_resource \<Rightarrow> bool" where
  "resource_forward p r \<longleftrightarrow>
     gr_kind r = gr_kind p \<and> gr_display_name r = gr_display_name p \<and> gr_producer r = gr_producer p \<and>
     gr_created_at r = gr_created_at p \<and> (gr_status p \<noteq> Resource_Pending \<longrightarrow> r = p \<or> gr_status r = Resource_Expired) \<and>
     (gr_status p = Resource_Expired \<longrightarrow> r = p)"

definition maps_forward :: "('v \<Rightarrow> 'v \<Rightarrow> bool) \<Rightarrow> (string \<times> 'v) list \<Rightarrow> (string \<times> 'v) list \<Rightarrow> bool" where
  "maps_forward fwd m m' \<longleftrightarrow> (\<forall>k p. map_of m k = Some p \<longrightarrow> (\<exists>r. map_of m' k = Some r \<and> fwd p r))"

lemma maps_forward_refl: "(\<And>p. fwd p p) \<Longrightarrow> maps_forward fwd m m"
  by (simp add: maps_forward_def)

lemma maps_forward_trans:
  assumes "maps_forward fwd m1 m2" "maps_forward fwd m2 m3" "\<And>p q r. fwd p q \<Longrightarrow> fwd q r \<Longrightarrow> fwd p r"
  shows "maps_forward fwd m1 m3"
  using assms unfolding maps_forward_def by meson

lemma maps_forward_set:
  assumes "\<And>p. map_of m k = Some p \<Longrightarrow> fwd p r" "\<And>p. fwd p p"
  shows "maps_forward fwd m (map_set k r m)"
  using assms by (auto simp: maps_forward_def)

lemma operation_forward_trans: "operation_forward p q \<Longrightarrow> operation_forward q r \<Longrightarrow> operation_forward p r"
  by (auto simp: operation_forward_def)

lemma resource_forwardD:
  assumes "resource_forward p r"
  shows "gr_kind r = gr_kind p" "gr_display_name r = gr_display_name p" "gr_producer r = gr_producer p"
    "gr_created_at r = gr_created_at p" "gr_status p \<noteq> Resource_Pending \<Longrightarrow> r = p \<or> gr_status r = Resource_Expired"
    "gr_status p = Resource_Expired \<Longrightarrow> r = p"
  using assms unfolding resource_forward_def by blast+

lemma resource_forward_trans:
  assumes pq: "resource_forward p q" and qr: "resource_forward q r"
  shows "resource_forward p r"
proof -
  have ended: "gr_status p \<noteq> Resource_Pending \<longrightarrow> r = p \<or> gr_status r = Resource_Expired"
  proof
    assume "gr_status p \<noteq> Resource_Pending"
    from resource_forwardD(5) [OF pq this] show "r = p \<or> gr_status r = Resource_Expired"
    proof
      assume "q = p"
      then show ?thesis using resource_forwardD(5) [OF qr] \<open>gr_status p \<noteq> Resource_Pending\<close> by simp
    next
      assume "gr_status q = Resource_Expired"
      then show ?thesis using resource_forwardD(6) [OF qr] by simp
    qed
  qed
  have expired: "gr_status p = Resource_Expired \<longrightarrow> r = p"
  proof
    assume "gr_status p = Resource_Expired"
    moreover from resource_forwardD(6) [OF pq this] have "q = p" .
    ultimately show "r = p" using resource_forwardD(6) [OF qr] by simp
  qed
  show ?thesis
    unfolding resource_forward_def resource_forwardD(1-4) [OF qr] resource_forwardD(1-4) [OF pq]
    using ended expired by blast
qed

lemma operation_transition_forward:
  "validate_operation_result_transition r previous = Inr r' \<Longrightarrow> r' = r \<and> (\<forall>p. previous = Some p \<longrightarrow> operation_forward p r)"
  by (auto simp: validate_operation_result_transition_def operation_forward_def operation_settled_def split: option.splits if_splits)

lemma resource_transition_forward:
  assumes "validate_generated_resource gx capability expected r previous = Inr r'"
  shows "r' = r" "previous = Some p \<Longrightarrow> resource_forward p r" "gr_id r = expected" "resource_schema gx r"
    "\<exists>cap. capability = Some cap \<and> gr_kind r \<in> set (rc_kinds cap) \<and> (\<forall>n. gr_byte_size r = Some n \<longrightarrow> n \<le> rc_max_bytes cap)"
proof -
  show "r' = r" "gr_id r = expected" "resource_schema gx r"
    "\<exists>cap. capability = Some cap \<and> gr_kind r \<in> set (rc_kinds cap) \<and> (\<forall>n. gr_byte_size r = Some n \<longrightarrow> n \<le> rc_max_bytes cap)"
    using assms by (auto simp: validate_generated_resource_def not_less split: option.splits if_splits)
  show "resource_forward p r" if "previous = Some p"
  proof -
    have "resource_may_follow p r" using assms that by (auto simp: validate_generated_resource_def split: option.splits if_splits)
    then have keep: "gr_kind r = gr_kind p" "gr_display_name r = gr_display_name p" "gr_producer r = gr_producer p"
        "gr_created_at r = gr_created_at p" and after: "gr_status r \<in> set (resource_successors (gr_status p))"
      and same: "gr_status p \<noteq> Resource_Pending \<Longrightarrow> gr_status p = gr_status r \<Longrightarrow> r = p"
      unfolding resource_may_follow_def by blast+
    have "gr_status p \<noteq> Resource_Pending \<longrightarrow> r = p \<or> gr_status r = Resource_Expired"
      "gr_status p = Resource_Expired \<longrightarrow> r = p"
      using after same unfolding resource_forward_def by (cases "gr_status p"; cases "gr_status r"; simp)+
    with keep show ?thesis unfolding resource_forward_def by blast
  qed
qed

definition retained_forward :: "turn \<Rightarrow> turn \<Rightarrow> bool" where
  "retained_forward t t' \<longleftrightarrow> maps_forward operation_forward (tn_results t) (tn_results t') \<and>
     maps_forward resource_forward (tn_generated t) (tn_generated t')"

lemma retained_forward_refl: "retained_forward t t"
  by (simp add: retained_forward_def maps_forward_def operation_forward_def resource_forward_def)

lemma retained_forward_trans: "retained_forward t u \<Longrightarrow> retained_forward u v \<Longrightarrow> retained_forward t v"
  unfolding retained_forward_def
  by (meson maps_forward_trans operation_forward_trans resource_forward_trans)

text \<open>The resources of a turn stay within what its provider declared.\<close>

definition resource_within :: "turn_context \<Rightarrow> resource_capability \<Rightarrow> string \<Rightarrow> generated_resource \<Rightarrow> bool" where
  "resource_within tx cap k r \<longleftrightarrow> gr_id r = k \<and> resource_schema (tx_graph tx) r \<and> gr_kind r \<in> set (rc_kinds cap) \<and>
     (\<forall>n. gr_byte_size r = Some n \<longrightarrow> n \<le> rc_max_bytes cap)"

definition resources_fit :: "turn_context \<Rightarrow> string list \<Rightarrow> (string \<times> generated_resource) list \<Rightarrow> bool" where
  "resources_fit tx ids generated \<longleftrightarrow>
     (case tx_resources tx of
        None \<Rightarrow> ids = []
      | Some cap \<Rightarrow> distinct ids \<and> length ids \<le> rc_max_per_turn cap \<and>
          (\<forall>k \<in> set ids. \<exists>r. map_of generated k = Some r \<and> resource_within tx cap k r))"

definition resources_within :: "turn_context \<Rightarrow> turn \<Rightarrow> bool" where
  "resources_within tx t \<longleftrightarrow> resources_fit tx (ts_resources (tn_sequence t)) (tn_generated t)"

lemma resources_fit_add:
  assumes "resources_fit tx ids generated" "tx_resources tx = Some cap" "k \<in> set ids \<or> length ids < rc_max_per_turn cap"
    "resource_within tx cap k r"
  shows "resources_fit tx (set_add k ids) (map_set k r generated)"
  using assms by (auto simp: resources_fit_def set_add_def)

lemma observe_retained_forward:
  assumes "observe_retained tx e t = Inr t'"
  shows "retained_forward t t'" and "resources_within tx t \<Longrightarrow> resources_within tx t'"
proof -
  consider (op) result where "e = Operation_Updated result" | (node) n where "e = Collaboration_Updated n"
    | (resource) r where "e = Resource_Updated r"
    | (other) "t' = t" using assms by (cases e) (auto simp: observe_retained_def)
  then have "retained_forward t t' \<and> (resources_within tx t \<longrightarrow> resources_within tx t')"
  proof cases
    case op
    then obtain r where v: "validate_operation_result_transition result (map_of (tn_results t) (or_invocation_id result)) = Inr r"
      and t': "t' = t\<lparr>tn_results := map_set (or_invocation_id r) r (tn_results t)\<rparr>"
      using assms by (auto simp: observe_retained_def result_simps)
    have "retained_forward t t'"
      using operation_transition_forward [OF v] retained_forward_refl
      by (auto simp: retained_forward_def t' operation_forward_def intro!: maps_forward_set)
    then show ?thesis by (simp add: t' resources_within_def)
  next
    case node
    then obtain g where "t' = t\<lparr>tn_graph := g\<rparr>" using assms by (auto simp: observe_retained_def result_simps)
    then show ?thesis using retained_forward_refl [of t] by (simp add: resources_within_def retained_forward_def)
  next
    case resource
    let ?ids = "ts_resources (tn_sequence t)"
    obtain cap r' where cap: "tx_resources tx = Some cap" and room: "gr_id r \<in> set ?ids \<or> length ?ids < rc_max_per_turn cap"
      and v: "validate_generated_resource (tx_graph tx) (tx_resources tx) (gr_id r) r (map_of (tn_generated t) (gr_id r)) = Inr r'"
      and t': "t' = t\<lparr>tn_sequence := (tn_sequence t)\<lparr>ts_resources := set_add (gr_id r') ?ids\<rparr>,
        tn_generated := map_set (gr_id r') r' (tn_generated t)\<rparr>"
      using assms resource by (auto simp: observe_retained_def Let_def result_simps split: option.splits if_splits)
    note new = resource_transition_forward [OF v]
    have "retained_forward t t'"
      using new retained_forward_refl [of t]
      by (auto simp: retained_forward_def t' resource_forward_def [of r r] intro!: maps_forward_set)
        (simp_all add: resource_forward_def)
    moreover have "resource_within tx cap (gr_id r) r" using new cap by (simp add: resource_within_def)
    ultimately show ?thesis
      using resources_fit_add [OF _ cap room] new(1) by (simp add: resources_within_def t')
  next
    case other
    then show ?thesis using retained_forward_refl by simp
  qed
  then show "retained_forward t t'" "resources_within tx t \<Longrightarrow> resources_within tx t'" by auto
qed

text \<open>Nothing else touches them.\<close>

definition same_retained :: "turn \<Rightarrow> turn \<Rightarrow> bool" where
  "same_retained t t' \<longleftrightarrow> tn_graph t' = tn_graph t \<and> tn_results t' = tn_results t \<and> tn_generated t' = tn_generated t \<and>
     ts_resources (tn_sequence t') = ts_resources (tn_sequence t)"

lemma observe_turn_event_retained: "observe_turn_event tx e t = Inr t' \<Longrightarrow> same_retained t t'"
  by (cases e) (auto simp: observe_turn_event_iff effect_of_event_def same_retained_def result_simps Let_def split: if_splits)

lemma turn_act_retained:
  assumes "turn_act tx a t = Inr t'"
  shows "same_retained t t' \<or> (\<exists>e t1. observe_retained tx e t = Inr t1 \<and> same_retained t1 t')"
proof (cases a)
  case (Output out)
  with assms have out: "observe_turn_output tx out t = Inr t'" by (simp add: turn_act_def split: if_splits)
  show ?thesis
  proof (cases out)
    case (Event_Output e)
    with out obtain t1 where "observe_retained tx e t = Inr t1" "observe_turn_event tx e t1 = Inr t'"
      by (auto simp: observe_turn_output_def result_simps)
    then show ?thesis using observe_turn_event_retained by blast
  qed (use out in \<open>auto simp: observe_turn_output_def same_retained_def\<close>)
qed (use assms in \<open>auto simp: turn_act_def with_requests_def stop_turn_def same_retained_def result_simps
    split: if_splits option.splits\<close>)

lemma same_retained_forward:
  "same_retained t t' \<Longrightarrow> retained_forward t t'" "same_retained t t' \<Longrightarrow> resources_within tx t \<Longrightarrow> resources_within tx t'"
  using retained_forward_refl [of t] by (simp_all add: same_retained_def retained_forward_def resources_within_def)

lemma turn_run_retained:
  "turn_run tx t actions t' \<Longrightarrow> retained_forward t t' \<and> (resources_within tx t \<longrightarrow> resources_within tx t')"
proof (induction rule: turn_run.induct)
  case (run_start t)
  then show ?case by (simp add: retained_forward_refl)
next
  case (run_act t actions t' action t'')
  have "retained_forward t' t'' \<and> (resources_within tx t' \<longrightarrow> resources_within tx t'')"
    using turn_act_retained [OF run_act.hyps(2)]
  proof (elim disjE exE conjE)
    fix e t1 assume "observe_retained tx e t' = Inr t1" and "same_retained t1 t''"
    then show ?thesis using observe_retained_forward same_retained_forward retained_forward_trans by blast
  qed (blast intro: same_retained_forward)
  then show ?case using run_act.IH retained_forward_trans by blast
qed

text \<open>The collaboration graph of the session takes only its own steps.\<close>

lemma turn_run_graph:
  "turn_run tx t actions t' \<Longrightarrow> (graph_step (tx_graph tx))\<^sup>*\<^sup>* (tn_graph t) (tn_graph t')"
proof (induction rule: turn_run.induct)
  case (run_act t actions t' action t'')
  have "tn_graph t'' = tn_graph t' \<or> graph_step (tx_graph tx) (tn_graph t') (tn_graph t'')"
    using turn_act_retained [OF run_act.hyps(2)]
  proof (elim disjE exE conjE)
    fix e t1 assume r: "observe_retained tx e t' = Inr t1" and s: "same_retained t1 t''"
    have "tn_graph t1 = tn_graph t' \<or> graph_step (tx_graph tx) (tn_graph t') (tn_graph t1)"
      using r by (cases e) (auto simp: observe_retained_def Let_def result_simps intro: step_observed split: option.splits if_splits)
    then show ?thesis using s by (simp add: same_retained_def)
  qed (simp add: same_retained_def)
  then show ?case using run_act.IH by (auto intro: rtranclp.rtrancl_into_rtrancl)
qed simp

end
