(* ===== verification/Turn_Properties.thy ===== *)
theory Turn_Properties
  imports Turn_Usage Session_Graph_Properties
begin

text \<open>
  The properties of a turn of a session, over every run: whatever the provider puts out, in whatever order
  answers, failed answers and interruptions fall.
\<close>

section \<open>Retired requests\<close>

definition retired_in :: "turn_requests \<Rightarrow> string \<Rightarrow> bool" where
  "retired_in q rid \<longleftrightarrow> map_option re_eligibility (map_of (tr_entries q) rid) = Some Retired"

lemma retired_update [simp]:
  "retired_in (q\<lparr>tr_pending := p\<rparr>) rid = retired_in q rid" "retired_in (q\<lparr>tr_suspended := s\<rparr>) rid = retired_in q rid"
  "retired_in (q\<lparr>tr_symbols := n\<rparr>) rid = retired_in q rid"
  by (simp_all add: retired_in_def)

lemma retired_put:
  "retired_in q rid \<Longrightarrow> (k = rid \<Longrightarrow> re_eligibility e = Retired) \<Longrightarrow> retired_in (put_entry k e q) rid"
  by (simp add: retired_in_def)

lemma retired_put_open:
  "retired_in q rid \<Longrightarrow> map_of (tr_entries q) k = Some e0 \<Longrightarrow> re_eligibility e0 \<noteq> Retired \<Longrightarrow> retired_in (put_entry k e q) rid"
  by (auto simp: retired_in_def)

lemma retired_retire: "retired_in q rid \<Longrightarrow> retired_in (retire_request k q) rid"
  by (auto simp: retire_request_def intro: retired_put split: option.splits)

lemma retired_restore_first: "retired_in q rid \<Longrightarrow> retired_in (restore_first live rids q) rid"
  by (induction live rids q rule: restore_first.induct)
    (auto simp: retired_retire retired_put_open split: option.splits eligibility.splits)

lemma retired_restore_ready: "retired_in q rid \<Longrightarrow> retired_in (restore_ready can live q) rid"
  by (simp add: restore_ready_def retired_restore_first)

lemma retired_withdraw: "retired_in q rid \<Longrightarrow> retired_in (withdraw_requests q) rid"
proof -
  have "retired_in q rid \<Longrightarrow> retired_in (fold retire_request rids q) rid" for rids
    by (induction rids arbitrary: q) (simp_all add: retired_retire)
  then show "retired_in q rid \<Longrightarrow> retired_in (withdraw_requests q) rid" by (simp add: withdraw_requests_def)
qed

lemma retired_claim: "claim_answer can live k r q = Inr (attempt, q') \<Longrightarrow> retired_in q rid \<Longrightarrow> retired_in q' rid"
  by (auto simp: claim_answer_def Let_def intro!: retired_restore_ready retired_put_open split: option.splits if_splits)

lemma retired_attempts:
  "retired_in q rid \<Longrightarrow> retired_in (attempt_restore can live k attempt q) rid"
  "retired_in q rid \<Longrightarrow> retired_in (attempt_retire can live k attempt q) rid"
  by (auto simp: attempt_restore_def attempt_retire_def claimed_by_iff
      intro!: retired_restore_ready retired_put_open retired_retire split: option.splits)

lemma retired_suspend: "retired_in q rid \<Longrightarrow> retired_in (snd (suspend_requests q)) rid"
  by (auto simp: retired_in_def suspend_requests_def Let_def suspend_entry_def)

lemma retired_resume:
  "retired_in q rid \<Longrightarrow> retired_in (suspension_restore can live token q) rid"
  "retired_in q rid \<Longrightarrow> retired_in (suspension_withdraw token q) rid"
proof -
  have "retired_in q rid \<Longrightarrow> retired_in (q\<lparr>tr_entries := map (\<lambda>(rid, e). (rid, resume_entry token e)) (tr_entries q), tr_suspended := s\<rparr>) rid" for s
    by (auto simp: retired_in_def)
  then show "retired_in q rid \<Longrightarrow> retired_in (suspension_restore can live token q) rid"
    by (simp add: suspension_restore_def retired_restore_ready)
  show "retired_in q rid \<Longrightarrow> retired_in (suspension_withdraw token q) rid"
    by (simp add: suspension_withdraw_def withdraw_unsuspended retired_withdraw)
qed

lemma retired_unavailable:
  assumes "unavailable_request can live k q = Inr q'" "retired_in q rid"
  shows "retired_in q' rid"
proof -
  from assms(1) obtain e where e: "map_of (tr_entries q) k = Some e"
    and q': "q' = restore_ready can live (retire_request k (put_entry k (e\<lparr>re_retirement_observed := True\<rparr>) q))"
    by (auto simp: unavailable_request_def split: option.splits if_splits)
  have "retired_in (put_entry k (e\<lparr>re_retirement_observed := True\<rparr>) q) rid"
    using assms(2) e by (auto simp: retired_in_def)
  then show ?thesis by (simp add: q' retired_restore_ready retired_retire)
qed

lemma retired_open:
  assumes "open_request r ids q = Inr (ids', q')" "retired_in q rid" "marks q (rq_id r) = None"
  shows "retired_in q' rid"
proof -
  have "rid \<noteq> rq_id r" using assms(2,3) by (auto simp: retired_in_def marks_def)
  then show ?thesis using assms(1,2) by (auto simp: open_request_def result_simps intro: retired_put split: if_splits)
qed

lemma retired_event:
  assumes "turn_ok t" "effect_of_event e t = Inr t'" "retired_in (tn_requests t) rid"
  shows "retired_in (tn_requests t') rid"
proof (cases e)
  case (Request_Opened r)
  then obtain ids q where o: "open_request r (tn_identities t) (tn_requests t) = Inr (ids, q)" "tn_requests t' = q"
    using assms(2) by (auto simp: effect_of_event_def result_simps split: if_splits)
  then have "marks (tn_requests t) (rq_id r) = None"
    using open_request_marks(2) [OF o(1)] turn_okD(3) [OF assms(1), of "rq_id r"]
    by (cases "marks (tn_requests t) (rq_id r)") auto
  then show ?thesis using retired_open o assms(3) by blast
qed (use assms(2,3) in \<open>auto simp: effect_of_event_def result_simps Let_def
    intro: retired_unavailable retired_withdraw split: if_splits\<close>)

lemma retired_act:
  assumes "turn_ok t" "turn_act tx a t = Inr t'" "retired_in (tn_requests t) rid"
  shows "retired_in (tn_requests t') rid"
proof (cases a)
  case (Output out)
  with assms(2) have out: "observe_turn_output tx out t = Inr t'" by (simp add: turn_act_def split: if_splits)
  show ?thesis
  proof (cases out)
    case (Event_Output e)
    with out obtain t1 where s: "same_turn t t1" and acc: "observe_turn_event tx e t1 = Inr t'" using observe_event_output by blast
    then have "turn_ok (admit_event (tx_final_diff_mode tx) e t1)" using same_turn_ok assms(1) admit_event_ok by blast
    moreover have "effect_of_event e (admit_event (tx_final_diff_mode tx) e t1) = Inr t'" using acc by (simp add: observe_turn_event_iff)
    ultimately show ?thesis using retired_event assms(3) s by (simp add: same_turn_def)
  qed (use out assms(3) in \<open>auto simp: observe_turn_output_def\<close>)
next
  case (Claim k)
  then show ?thesis using assms(2,3) by (auto simp: turn_act_def result_simps intro: retired_claim split: option.splits if_splits)
qed (use assms(2,3) in \<open>auto simp: turn_act_def stop_turn_def intro: retired_attempts retired_suspend retired_resume retired_withdraw
    split: if_splits\<close>)

lemma retired_run:
  "turn_run tx t actions t' \<Longrightarrow> turn_ok t \<Longrightarrow> retired_in (tn_requests t) rid \<Longrightarrow> retired_in (tn_requests t') rid"
  by (induction rule: turn_run.induct) (auto intro: retired_act turn_run_ok)

lemma pending_lookup:
  "pending_exact q \<Longrightarrow> map_of (tr_pending q) rid = Some r \<longleftrightarrow> answerable_as q rid r"
  by (auto simp: pending_exact_def split: if_splits)

lemma pending_length: "pending_exact q \<Longrightarrow> length (tr_pending q) \<le> 1"
  by (auto simp: pending_exact_def)

section \<open>The properties\<close>

text \<open>
  C34. Whatever happens in a turn, at most one request waits for an answer, and it is the one the
  admission holds as answerable, with nothing suspending it; every suspension belongs to an
  interruption that is still under way; and as long as the turn goes on no request is forgotten: when none
  waits for an answer, each withheld request is held back by such an interruption.
\<close>

theorem request_admission_safe:
  assumes "turn_run tx (begin_turn t0) actions t"
  shows "length (tr_pending (tn_requests t)) \<le> 1 \<and>
    (\<forall>rid r. map_of (tr_pending (tn_requests t)) rid = Some r \<longleftrightarrow>
       (\<exists>e. map_of (tr_entries (tn_requests t)) rid = Some e \<and> re_eligibility e = Answerable r \<and> re_suspensions e = [])) \<and>
    (\<forall>rid e. map_of (tr_entries (tn_requests t)) rid = Some e \<longrightarrow> set (re_suspensions e) \<subseteq> set (tr_suspended (tn_requests t))) \<and>
    (tn_entered t \<and> \<not> ts_terminal (tn_sequence t) \<and> tr_pending (tn_requests t) = [] \<longrightarrow>
       (\<forall>rid e r. map_of (tr_entries (tn_requests t)) rid = Some e \<and> re_eligibility e = Withheld r \<longrightarrow> re_suspensions e \<noteq> []))"
proof -
  let ?q = "tn_requests t"
  have ok: "turn_ok t" by (rule turn_run_ok [OF assms begin_turn_ok])
  note q = turn_okD(1) [OF ok]
  have entry: "entry_ok (tr_suspended ?q) (tr_symbols ?q) rid e" if "map_of (tr_entries ?q) rid = Some e" for rid e
    using that by (rule requests_okD(3) [OF q])
  have "length (tr_pending ?q) \<le> 1 \<and> (map_of (tr_pending ?q) rid = Some r \<longleftrightarrow> answerable_as ?q rid r)" for rid r
    using pending_lookup pending_length requests_okD(2) [OF q] by blast
  moreover have "answerable_as ?q rid r \<longleftrightarrow>
      (\<exists>e. map_of (tr_entries ?q) rid = Some e \<and> re_eligibility e = Answerable r \<and> re_suspensions e = [])" for rid r
    using entry by (fastforce simp: answerable_as_def entry_ok_def answerable_entry_iff)
  moreover have "set (re_suspensions e) \<subseteq> set (tr_suspended ?q)" if "map_of (tr_entries ?q) rid = Some e" for rid e
    using entry [OF that] by (simp add: entry_ok_def)
  moreover have "re_suspensions e \<noteq> []"
    if "can_restore t" "tr_pending ?q = []" "map_of (tr_entries ?q) rid = Some e" "re_eligibility e = Withheld r" for rid e r
    using turn_okD(2) [OF ok] that by (auto simp: none_forgotten_def withheld_suspended_def)
  ultimately show ?thesis unfolding can_restore_def by blast
qed

text \<open>
  C35. The events of a turn that is accepted so far form a legal history: the turn starts first and once, nothing
  follows its completion, and after the final diff only trailing events do; every item is started at most once
  and first, keeps its kind, does not fall back to pending and ends once; request ids are never used
  twice in a session (nor more than 4096 of them), an approval is asked for a plan or an item that is open at
  that point, and only opened requests are waited for or, once each, taken back.
\<close>

theorem turn_trace_legal:
  assumes "turn_run tx (begin_turn t0) actions t"
  shows "legal_by (turn_may_follow (tx_final_diff_mode tx) (ri_ids (tn_identities t0))) (events_of actions)"
  by (rule turn_history_legal [OF assms])

text \<open>
  C36. The item table accepts a sequence of item events exactly if the events of each single item are a
  legal life, however the items are interleaved.
\<close>

theorem item_lives_exact:
  "(\<exists>items. fold_result observe_report [] rs = Inr items) \<longleftrightarrow> (\<forall>k. legal_by item_may_follow (reports_of k rs))"
  by (rule reports_accepted_exact)


text \<open>
  C38. A run keeps what the session retains: settled operations keep their result; a generated resource
  keeps its kind, name, producer and creation time, changes only by expiring once it left pending, and never after
  that; and the resources of the turn are distinct, no more than declared, and each within its schema, the
  declared kinds and the declared size.
\<close>

theorem retained_results_forward:
  assumes "turn_run tx (begin_turn t0) actions t"
  shows "retained_forward t0 t \<and> resources_within tx t"
proof -
  have "retained_forward t0 (begin_turn t0)"
    using retained_forward_refl [of t0] by (simp add: retained_forward_def begin_turn_def)
  moreover have "resources_within tx (begin_turn t0)"
    by (simp add: resources_within_def resources_fit_def begin_turn_def split: option.splits)
  ultimately show ?thesis using turn_run_retained [OF assms] retained_forward_trans by blast
qed

text \<open>
  A request that was retired, because its answer was delivered or uncertain, because the provider took it
  back or because the turn was withdrawn, is never asked again, whatever follows in the turn.
\<close>

theorem retired_request_stays:
  assumes "turn_run tx (begin_turn t0) before t" "turn_run tx t after u"
    "map_of (tr_entries (tn_requests t)) rid = Some e" "re_eligibility e = Retired"
  shows "map_of (tr_pending (tn_requests u)) rid = None \<and>
    (\<exists>e'. map_of (tr_entries (tn_requests u)) rid = Some e' \<and> re_eligibility e' = Retired)"
proof -
  have ok: "turn_ok t" by (rule turn_run_ok [OF assms(1) begin_turn_ok])
  have "retired_in (tn_requests u) rid"
    by (rule retired_run [OF assms(2) ok]) (simp add: retired_in_def assms(3,4))
  then obtain e' where e': "map_of (tr_entries (tn_requests u)) rid = Some e'" "re_eligibility e' = Retired"
    by (auto simp: retired_in_def)
  then have "\<not> answerable_as (tn_requests u) rid r" for r by (auto simp: answerable_as_def)
  then have "map_of (tr_pending (tn_requests u)) rid = None"
    using pending_lookup [OF requests_okD(2) [OF turn_okD(1) [OF turn_run_ok [OF assms(2) ok]]]]
    by (cases "map_of (tr_pending (tn_requests u)) rid") auto
  with e' show ?thesis by blast
qed

section \<open>A turn\<close>

definition run_turn :: "turn_context \<Rightarrow> turn \<Rightarrow> turn_action list \<Rightarrow> session_failure + turn" where
  "run_turn tx t actions = fold_result (\<lambda>t a. turn_act tx a t) t actions"

lemma run_turn_run: "run_turn tx t actions = Inr t' \<Longrightarrow> turn_run tx t actions t'"
proof (induction actions arbitrary: t' rule: rev_induct)
  case Nil
  then show ?case by (simp add: run_turn_def run_start)
next
  case (snoc a actions)
  then obtain t1 where "run_turn tx t actions = Inr t1" "turn_act tx a t1 = Inr t'"
    by (auto simp: run_turn_def fold_result_snoc result_simps)
  then show ?case using snoc.IH by (auto intro: run_act)
qed

definition after_turn :: "session_failure + turn \<Rightarrow> turn" where
  "after_turn r = (case r of Inl e \<Rightarrow> new_session_turn | Inr t \<Rightarrow> t)"

definition sample_turn_context :: turn_context where
  "sample_turn_context = \<lparr>tx_graph = sample_graph_context,
     tx_resources = Some \<lparr>rc_kinds = [Document_Resource], rc_max_per_turn = 1, rc_max_bytes = 10\<rparr>, tx_final_diff_mode = True\<rparr>"

definition sample_usage :: "int \<Rightarrow> int \<Rightarrow> context_usage" where
  "sample_usage used calls = \<lparr>cu_scope = Session_Scope, cu_used_tokens = used, cu_max_tokens = 100,
     cu_cumulative = Some \<lparr>cw_input_tokens = None, cw_output_tokens = None, cw_cached_read_tokens = None,
       cw_cache_creation_tokens = None, cw_reasoning_tokens = None, cw_model_calls = Some calls, cw_turns = None\<rparr>,
     cu_compaction = None\<rparr>"

definition sample_resource :: "resource_status \<Rightarrow> string option \<Rightarrow> generated_resource" where
  "sample_resource status expires = \<lparr>gr_id = ''d'', gr_kind = Document_Resource, gr_status = status, gr_display_name = ''n'',
     gr_producer = Turn_Producer ''t'', gr_summary = None, gr_media_type = None, gr_byte_size = None, gr_sha256 = None,
     gr_width_pixels = None, gr_height_pixels = None, gr_page_count = None, gr_artifact_id = None,
     gr_created_at = ''2026-01-01T00:00:00Z'', gr_expires_at = expires, gr_error = None\<rparr>"

definition edit_request :: agent_request where
  "edit_request = \<lparr>rq_id = ''q'', rq_subject = Some (Item_Subject ''i'')\<rparr>"

definition event :: "agent_event \<Rightarrow> turn_action" where
  "event e = Output (Event_Output e)"

text \<open>An approval is asked, an answer fails before it is sent, and an interruption falls between.\<close>

definition asking_actions :: "turn_action list" where
  "asking_actions = [event Turn_Started, event (Item_Event Item_Started ''i'' File_Change Item_In_Progress),
     event (Request_Opened edit_request), Claim ''q'', Suspend, Restore_Attempt ''q'' 0]"

definition answering_actions :: "turn_action list" where
  "answering_actions = [Resume 1, event (Turn_State_Changed True (Some ''q'')), Claim ''q'', Retire_Attempt ''q'' 2]"

definition ending_actions :: "turn_action list" where
  "ending_actions = [event (Item_Event Item_Completed ''i'' File_Change Item_Done), event (Context_Usage_Updated (sample_usage 5 2)),
     event (Resource_Updated (sample_resource Resource_Pending None)),
     event (Resource_Updated (sample_resource Resource_Expired (Some ''2026-01-01T00:00:01Z''))), event Diff_Updated,
     event (Request_Unavailable ''q''), event (Turn_Completed Turn_Done)]"

definition asking :: turn where
  "asking = after_turn (run_turn sample_turn_context (begin_turn new_session_turn) asking_actions)"

definition answered :: turn where
  "answered = after_turn (run_turn sample_turn_context asking answering_actions)"

definition ended :: turn where
  "ended = after_turn (run_turn sample_turn_context answered ending_actions)"

lemma sample_run:
  "turn_run sample_turn_context (begin_turn new_session_turn) asking_actions asking"
  "turn_run sample_turn_context asking answering_actions answered"
  "turn_run sample_turn_context answered ending_actions ended"
proof -
  have "run_turn sample_turn_context (begin_turn new_session_turn) asking_actions = Inr asking" by code_simp
  then show "turn_run sample_turn_context (begin_turn new_session_turn) asking_actions asking" by (rule run_turn_run)
  have "run_turn sample_turn_context asking answering_actions = Inr answered" by code_simp
  then show "turn_run sample_turn_context asking answering_actions answered" by (rule run_turn_run)
  have "run_turn sample_turn_context answered ending_actions = Inr ended" by code_simp
  then show "turn_run sample_turn_context answered ending_actions ended" by (rule run_turn_run)
qed

lemma request_admission_safe_witness:
  "length (tr_pending (tn_requests asking)) \<le> 1 \<and> tr_pending (tn_requests asking) = [] \<and>
   map_option re_eligibility (map_of (tr_entries (tn_requests asking)) ''q'') = Some (Withheld edit_request) \<and>
   map_option re_suspensions (map_of (tr_entries (tn_requests asking)) ''q'') \<noteq> Some []"
proof -
  have now: "tr_pending (tn_requests asking) = []" "tn_entered asking" "\<not> ts_terminal (tn_sequence asking)"
    "map_option re_eligibility (map_of (tr_entries (tn_requests asking)) ''q'') = Some (Withheld edit_request)"
    by code_simp+
  then show ?thesis using request_admission_safe [OF sample_run(1)] by auto
qed

lemma turn_trace_legal_witness:
  "legal_by (turn_may_follow True []) (events_of asking_actions) \<and> length (events_of asking_actions) = 3"
proof -
  have "tx_final_diff_mode sample_turn_context" "ri_ids (tn_identities new_session_turn) = []" by code_simp+
  moreover have "length (events_of asking_actions) = 3" by code_simp
  ultimately show ?thesis using turn_trace_legal [OF sample_run(1)] by simp
qed

lemma retired_request_stays_witness:
  "map_of (tr_pending (tn_requests ended)) ''q'' = None \<and>
   map_option re_eligibility (map_of (tr_entries (tn_requests ended)) ''q'') = Some Retired \<and>
   map_option re_eligibility (map_of (tr_entries (tn_requests asking)) ''q'') = Some (Withheld edit_request)"
proof -
  have "run_turn sample_turn_context (begin_turn new_session_turn) (asking_actions @ answering_actions) = Inr answered" by code_simp
  then have before: "turn_run sample_turn_context (begin_turn new_session_turn) (asking_actions @ answering_actions) answered"
    by (rule run_turn_run)
  have "map_option re_eligibility (map_of (tr_entries (tn_requests answered)) ''q'') = Some Retired" by code_simp
  then obtain e where "map_of (tr_entries (tn_requests answered)) ''q'' = Some e" "re_eligibility e = Retired" by auto
  from retired_request_stays [OF before sample_run(3) this]
  have "map_of (tr_pending (tn_requests ended)) ''q'' = None"
    "map_option re_eligibility (map_of (tr_entries (tn_requests ended)) ''q'') = Some Retired" by auto
  moreover have "map_option re_eligibility (map_of (tr_entries (tn_requests asking)) ''q'') = Some (Withheld edit_request)" by code_simp
  ultimately show ?thesis by blast
qed

text \<open>A second turn of a session, after samples of the first one.\<close>

definition sampled_turn :: turn where
  "sampled_turn = new_session_turn\<lparr>tn_context := (case observe_context_usage (sample_usage 5 2) new_context of Inl e \<Rightarrow> new_context | Inr cx \<Rightarrow> cx)\<rparr>"

definition usage_actions :: "turn_action list" where
  "usage_actions = [event Turn_Started, event (Context_Usage_Updated (sample_usage 6 3)),
     event (Item_Event Item_Started ''c'' Context_Compaction Item_In_Progress),
     event (Item_Event Item_Completed ''c'' Context_Compaction Item_Done), event (Context_Usage_Updated (sample_usage 1 4))]"


lemma retained_results_forward_witness:
  "resources_within sample_turn_context ended \<and> ts_resources (tn_sequence ended) = [''d''] \<and>
   map_option gr_status (map_of (tn_generated ended) ''d'') = Some Resource_Expired"
proof -
  have "run_turn sample_turn_context (begin_turn new_session_turn) (asking_actions @ answering_actions @ ending_actions) = Inr ended"
    by code_simp
  then have "turn_run sample_turn_context (begin_turn new_session_turn) (asking_actions @ answering_actions @ ending_actions) ended"
    by (rule run_turn_run)
  from retained_results_forward [OF this] have "resources_within sample_turn_context ended" by blast
  moreover have "ts_resources (tn_sequence ended) = [''d'']" by code_simp
  moreover have "map_option gr_status (map_of (tn_generated ended) ''d'') = Some Resource_Expired" by code_simp
  ultimately show ?thesis by blast
qed

end
