(* ===== verification/Run_Output.thy ===== *)
theory Run_Output
  imports Delegation_Schemas
begin

text \<open>
  The bounded projection of a child's output in \<open>agent-orchestration/src\<close>:
  \<open>fitDelegationText\<close> (\<open>shared/text.ts\<close>), the text and the references that \<open>accumulate\<close> and
  \<open>reduceOutput\<close> (\<open>execution/stream.ts\<close>) collect in a live run, and
  \<open>projectDelegationFailure\<close> (\<open>tasks/failure.ts\<close>).

  The triple \<open>live.summary\<close>, \<open>live.truncated\<close>, \<open>live.references\<close> is a \<open>result_summary\<close>, the
  value that a successful outcome carries.  \<open>fit_delegation_text\<close> works on a list of code points
  of any kind; on the strings of this development a character is one code point.
\<close>

section \<open>Prefixes under a budget (text.ts)\<close>

function fit_search :: "('a list \<Rightarrow> bool) \<Rightarrow> 'a list \<Rightarrow> nat \<Rightarrow> nat \<Rightarrow> nat" where
  "fit_search fits characters low high =
     (if low < high then
        let middle = (low + high + 1) div 2 in
        if fits (take middle characters) then fit_search fits characters middle high
        else fit_search fits characters low (middle - 1)
      else low)"
  by pat_completeness auto
termination by (relation "measure (\<lambda>(fits, characters, low, high). high - low)") auto

declare fit_search.simps [simp del]

lemma fit_search_done [simp]: "\<not> low < high \<Longrightarrow> fit_search fits s low high = low"
  by (subst fit_search.simps) simp

definition fit_delegation_text :: "('a list \<Rightarrow> bool) \<Rightarrow> 'a list \<Rightarrow> 'a list" where
  "fit_delegation_text fits text_value =
     (if fits text_value then text_value
      else take (fit_search fits text_value 0 (length text_value)) text_value)"

text \<open>A budget on serialized bytes admits every prefix of what it admits.\<close>

definition prefix_closed :: "('a list \<Rightarrow> bool) \<Rightarrow> bool" where
  "prefix_closed fits \<longleftrightarrow> (\<forall>u v. fits (u @ v) \<longrightarrow> fits u)"

lemma prefix_closed_take:
  assumes "prefix_closed fits" "fits (take n s)" "m \<le> n"
  shows "fits (take m s)"
proof -
  have "take n s = take m s @ take (n - m) (drop m s)"
    using assms(3) by (metis le_add_diff_inverse take_add)
  then show ?thesis using assms(1,2) unfolding prefix_closed_def by metis
qed

lemma fit_search_bounds: "low \<le> high \<Longrightarrow> low \<le> fit_search fits s low high \<and> fit_search fits s low high \<le> high"
proof (induction fits s low high rule: fit_search.induct)
  case (1 fits s low high)
  show ?case
  proof (cases "low < high")
    case True
    let ?m = "(low + high + 1) div 2"
    show ?thesis
    proof (cases "fits (take ?m s)")
      case fits: True
      then have "fit_search fits s low high = fit_search fits s ?m high"
        using True by (subst fit_search.simps) (simp add: Let_def)
      moreover have "?m \<le> high" "low \<le> ?m" using True by linarith+
      ultimately show ?thesis using "1.IH"(1) [OF True refl fits] by simp
    next
      case fits: False
      then have "fit_search fits s low high = fit_search fits s low (?m - 1)"
        using True by (subst fit_search.simps) (simp add: Let_def)
      moreover have "low \<le> ?m - 1" "?m - 1 \<le> high" using True by linarith+
      ultimately show ?thesis using "1.IH"(2) [OF True refl fits] by simp
    qed
  qed (use "1.prems" in simp)
qed

lemma fit_search_fits:
  assumes "low \<le> high" "low = 0 \<or> fits (take low s)"
  shows "fit_search fits s low high = 0 \<or> fits (take (fit_search fits s low high) s)"
  using assms
proof (induction fits s low high rule: fit_search.induct)
  case (1 fits s low high)
  show ?case
  proof (cases "low < high")
    case True
    let ?m = "(low + high + 1) div 2"
    have m: "?m \<le> high" "low \<le> ?m - 1" using True by linarith+
    show ?thesis
      using "1.IH"(1) [OF True refl] "1.IH"(2) [OF True refl] m True "1.prems"
      by (subst (1 2) fit_search.simps) (simp add: Let_def)
  qed (use "1.prems" in simp)
qed

lemma fit_search_longest:
  assumes "prefix_closed fits" "low \<le> high" "\<And>m. high < m \<Longrightarrow> m \<le> length s \<Longrightarrow> \<not> fits (take m s)"
    "m \<le> length s" "fits (take m s)"
  shows "m \<le> fit_search fits s low high"
  using assms
proof (induction fits s low high rule: fit_search.induct)
  case (1 fits s low high)
  show ?case
  proof (cases "low < high")
    case True
    let ?m = "(low + high + 1) div 2"
    have mid: "?m \<le> high" "low \<le> ?m - 1" using True by linarith+
    show ?thesis
    proof (cases "fits (take ?m s)")
      case fits: True
      have "m \<le> fit_search fits s ?m high"
        using "1.IH"(1) [OF True refl fits] "1.prems" mid by blast
      then show ?thesis using True fits by (subst fit_search.simps) (simp add: Let_def)
    next
      case fits: False
      have "\<not> fits (take k s)" if "?m - 1 < k" "k \<le> length s" for k
        using prefix_closed_take [OF "1.prems"(1), of k s ?m] that(1) fits by linarith
      then have "m \<le> fit_search fits s low (?m - 1)"
        using "1.IH"(2) [OF True refl fits] "1.prems" mid by blast
      then show ?thesis using True fits by (subst fit_search.simps) (simp add: Let_def)
    qed
  next
    case False
    then have "high = low" using "1.prems"(2) by simp
    then have "m \<le> low" using "1.prems"(3) [of m] "1.prems"(4,5) by (meson not_le)
    then show ?thesis using False by simp
  qed
qed

text \<open>
  The result is a prefix; it fits unless nothing does; and it is the longest prefix that fits.
\<close>

lemma fit_text_prefix: "\<exists>n \<le> length s. fit_delegation_text fits s = take n s"
  using fit_search_bounds [of 0 "length s" fits s]
  by (auto simp: fit_delegation_text_def intro: exI [of _ "length s"])

lemma fit_text_fits: "fit_delegation_text fits s = [] \<or> fits (fit_delegation_text fits s)"
  using fit_search_fits [of 0 "length s" fits s] by (auto simp: fit_delegation_text_def)

lemma fit_text_fits_empty: "fits [] \<Longrightarrow> fits (fit_delegation_text fits s)"
  using fit_text_fits [of fits s] by auto

lemma fit_text_longest:
  assumes "prefix_closed fits" "m \<le> length s" "fits (take m s)"
  shows "m \<le> length (fit_delegation_text fits s)"
proof (cases "fits s")
  case False
  have "m \<le> fit_search fits s 0 (length s)"
    by (rule fit_search_longest [OF assms(1) _ _ assms(2,3)]) simp_all
  then show ?thesis using False assms(2) fit_search_bounds [of 0 "length s" fits s]
    by (simp add: fit_delegation_text_def)
qed (use assms in \<open>simp add: fit_delegation_text_def\<close>)

section \<open>The bytes of a summary\<close>

lemma quote_append: "utf8_bytes (json_quote (s @ t)) = utf8_bytes (json_quote s) + utf8_bytes (concat (map json_escape t))"
  by (simp add: json_quote_def)

lemma quote_prefix: "utf8_bytes (json_quote s) \<le> utf8_bytes (json_quote (s @ t))"
  by (simp add: quote_append)

definition reference_bytes :: "result_reference \<Rightarrow> int" where
  "reference_bytes r = delegation_data_bytes (json_of_result_reference r)"

definition references_bytes :: "result_reference list \<Rightarrow> int" where
  "references_bytes rs = (\<Sum>r\<leftarrow>rs. reference_bytes r) + max 0 (int (length rs) - 1)"

lemma reference_bytes_nonneg [simp]: "0 \<le> reference_bytes r"
  by (simp add: reference_bytes_def)

lemma references_bytes_Nil [simp]: "references_bytes [] = 0"
  by (simp add: references_bytes_def)

lemma canonical_summary:
  "canonicalize (json_of_result_summary s) =
     J_Obj [(''references'', J_Arr (map (canonicalize \<circ> json_of_result_reference) (rs_references s))),
       (''text'', J_Str (rs_text s)), (''truncated'', J_Bool (rs_truncated s))]"
  by (simp add: json_of_result_summary_def)

lemma ascii_quote:
  "utf8_bytes (json_quote ''references'') = 12" "utf8_bytes (json_quote ''text'') = 6"
  "utf8_bytes (json_quote ''truncated'') = 11" "utf8_bytes ''true'' = 4" "utf8_bytes ''false'' = 5"
  by code_simp+

lemma summary_bytes:
  "delegation_data_bytes (json_of_result_summary s) =
     38 + references_bytes (rs_references s) + utf8_bytes (json_quote (rs_text s))
     + (if rs_truncated s then 4 else 5)"
  unfolding delegation_data_bytes_def delegation_canonical_json_def canonical_summary utf8_J_Obj
  by (simp add: utf8_member_json utf8_J_Arr ascii_quote references_bytes_def reference_bytes_def
      delegation_data_bytes_def delegation_canonical_json_def comp_def utf8_char_bytes_code
      del: stringify.simps(5))


section \<open>The projection of a live run (stream.ts)\<close>

definition result_bytes_limit :: int where
  "result_bytes_limit = 8192"

definition summary_text_fits :: "result_reference list \<Rightarrow> string \<Rightarrow> bool" where
  "summary_text_fits refs value \<longleftrightarrow>
     delegation_data_bytes (json_of_result_summary
       \<lparr>rs_text = value, rs_truncated = False, rs_references = refs\<rparr>) \<le> result_bytes_limit"

definition accumulate :: "string \<Rightarrow> result_summary \<Rightarrow> result_summary" where
  "accumulate delta s =
     (let candidate = rs_text s @ delta;
          bounded = fit_delegation_text (summary_text_fits (rs_references s)) candidate
      in s\<lparr>rs_text := bounded, rs_truncated := rs_truncated s \<or> bounded \<noteq> candidate\<rparr>)"

text \<open>
  The branch of an artifact, given what the host's \<open>publishArtifact\<close> returned: the parsed
  reference is kept if it fits, otherwise the result is flagged.  From eight references on, the
  artifact is not published and nothing is flagged.
\<close>

definition keep_reference :: "result_reference \<Rightarrow> result_summary \<Rightarrow> result_summary" where
  "keep_reference r s =
     (if delegation_data_bytes (json_of_result_reference r) \<le> 256 \<and>
         delegation_data_bytes (json_of_result_summary (s\<lparr>rs_references := rs_references s @ [r]\<rparr>))
           \<le> result_bytes_limit
      then s\<lparr>rs_references := rs_references s @ [r]\<rparr>
      else s\<lparr>rs_truncated := True\<rparr>)"

definition publishes :: "result_summary \<Rightarrow> bool" where
  "publishes s \<longleftrightarrow> length (rs_references s) < 8"

definition empty_summary :: result_summary where
  "empty_summary = \<lparr>rs_text = [], rs_truncated = False, rs_references = []\<rparr>"

section \<open>The summary always fits its bound\<close>

definition references_ok :: "result_reference list \<Rightarrow> bool" where
  "references_ok refs \<longleftrightarrow> list_all result_reference_schema refs \<and> length refs \<le> 8"

definition summary_ok :: "result_summary \<Rightarrow> bool" where
  "summary_ok s \<longleftrightarrow> references_ok (rs_references s) \<and>
     delegation_data_bytes (json_of_result_summary s) \<le> result_bytes_limit"

lemma sum_references_le: "list_all result_reference_schema refs \<Longrightarrow> (\<Sum>r\<leftarrow>refs. reference_bytes r) \<le> 256 * int (length refs)"
  by (induction refs) (auto simp: result_reference_schema_def reference_bytes_def)

lemma references_bytes_le: "references_ok refs \<Longrightarrow> references_bytes refs \<le> 2055"
  using sum_references_le [of refs] by (auto simp: references_ok_def references_bytes_def)

lemma quote_Nil [simp]: "utf8_bytes (json_quote []) = 2"
  by code_simp

lemma empty_text_fits: "references_ok refs \<Longrightarrow> summary_text_fits refs []"
  using references_bytes_le [of refs] by (simp add: summary_text_fits_def summary_bytes result_bytes_limit_def)

lemma summary_text_prefix_closed: "prefix_closed (summary_text_fits refs)"
proof -
  have "summary_text_fits refs u" if "summary_text_fits refs (u @ v)" for u v
    using that quote_prefix [of u v] by (simp add: summary_text_fits_def summary_bytes)
  then show ?thesis by (auto simp: prefix_closed_def)
qed

lemma empty_summary_ok: "summary_ok empty_summary"
  by (simp add: summary_ok_def empty_summary_def references_ok_def summary_bytes result_bytes_limit_def)

lemma accumulate_ok: "summary_ok s \<Longrightarrow> summary_ok (accumulate delta s)"
  using fit_text_fits_empty [of "summary_text_fits (rs_references s)" "rs_text s @ delta"]
    empty_text_fits [of "rs_references s"]
  by (auto simp: summary_ok_def accumulate_def Let_def summary_text_fits_def summary_bytes)

lemma keep_reference_ok:
  assumes "summary_ok s" "publishes s" "result_reference_schema r"
  shows "summary_ok (keep_reference r s)"
  using assms by (auto simp: summary_ok_def keep_reference_def publishes_def references_ok_def summary_bytes)

lemma utf8_escape_char: "utf8_char_bytes c \<le> utf8_bytes (json_escape c)"
  by (auto simp: json_escape_def Let_def utf8_char_bytes_def add_nonneg_nonneg)

lemma utf8_le_quote: "utf8_bytes s \<le> utf8_bytes (json_quote s)"
proof -
  have "utf8_bytes s \<le> utf8_bytes (concat (map json_escape s))"
    by (induction s) (auto intro: add_mono [OF utf8_escape_char])
  then show ?thesis by (simp add: json_quote_def utf8_char_bytes_def)
qed

lemma references_bytes_nonneg [simp]: "0 \<le> references_bytes rs"
  by (cases rs) (simp_all add: references_bytes_def sum_utf8_nonneg reference_bytes_def
      delegation_data_bytes_def add_nonneg_nonneg)

lemma summary_ok_schema: "summary_ok s \<Longrightarrow> result_summary_schema s"
  using length_le_utf8_quote [of "rs_text s"] utf8_le_quote [of "rs_text s"]
    references_bytes_nonneg [of "rs_references s"]
  by (auto simp: summary_ok_def result_summary_schema_def references_ok_def summary_bytes result_bytes_limit_def
      simp del: references_bytes_nonneg split: if_splits)

section \<open>Failures (failure.ts)\<close>

text \<open>
  The recovery hint of an agent error; the quota reference of \<open>wait_for_quota\<close> is dropped by the
  projection and stands as its text.
\<close>

datatype agent_recovery =
    Hint_Unknown
  | Hint_None
  | Hint_Retry "string option"
  | Hint_Wait_For_Quota "string option"
  | Hint_User_Action user_action

record agent_error =
  ae_category :: failure_category
  ae_code :: string
  ae_message :: string
  ae_recovery :: agent_recovery

fun public_hint :: "agent_recovery \<Rightarrow> public_recovery" where
  "public_hint (Hint_Retry t) = Recover_Retry t"
| "public_hint (Hint_User_Action a) = Recover_User_Action a"
| "public_hint Hint_Unknown = Recover_Unknown"
| "public_hint Hint_None = Recover_None"
| "public_hint (Hint_Wait_For_Quota q) = Recover_Wait_For_Quota"

definition is_retry :: "public_recovery \<Rightarrow> bool" where
  "is_retry r \<longleftrightarrow> (case r of Recover_Retry t \<Rightarrow> True | _ \<Rightarrow> False)"

definition failure_bytes_limit :: int where
  "failure_bytes_limit = 2048"

definition failure_fits :: "public_failure \<Rightarrow> string \<Rightarrow> bool" where
  "failure_fits f message \<longleftrightarrow>
     delegation_data_bytes (json_of_failure (f\<lparr>pf_message := message\<rparr>)) \<le> failure_bytes_limit"

definition fixed_failure :: "failure_category \<Rightarrow> string \<Rightarrow> string \<Rightarrow> public_failure" where
  "fixed_failure category code message =
     \<lparr>pf_category = category, pf_code = code, pf_message = message, pf_recovery = Recover_Unknown\<rparr>"

definition short_recovery :: "public_failure \<Rightarrow> public_failure" where
  "short_recovery f =
     (if is_retry (pf_recovery f) \<and> \<not> failure_fits f [] then f\<lparr>pf_recovery := Recover_Retry None\<rparr> else f)"

definition project_delegation_failure :: "agent_error option \<Rightarrow> public_failure" where
  "project_delegation_failure reported =
     (case reported of
        None \<Rightarrow> fixed_failure Unknown_Category ''child_failed''
          ''The managed child reported an unsuccessful terminal outcome.''
      | Some e \<Rightarrow>
          let kept = short_recovery \<lparr>pf_category = ae_category e, pf_code = ae_code e, pf_message = [],
                pf_recovery = public_hint (ae_recovery e)\<rparr>
          in kept\<lparr>pf_message := fit_delegation_text (failure_fits kept) (ae_message e)\<rparr>)"

text \<open>An agent error as the protocol admits it, as far as the projection depends on it.\<close>

definition agent_error_ok :: "externals \<Rightarrow> agent_error \<Rightarrow> bool" where
  "agent_error_ok ext e \<longleftrightarrow> canonical_non_blank_string 120 (ae_code e) \<and>
     public_recovery_schema ext (public_hint (ae_recovery e))"

definition recovery_bytes :: "public_recovery \<Rightarrow> int" where
  "recovery_bytes r = delegation_data_bytes (json_of_recovery r)"

lemma canonical_failure:
  "canonicalize (json_of_failure f) =
     J_Obj [(''category'', J_Str (failure_category_name (pf_category f))), (''code'', J_Str (pf_code f)),
       (''message'', J_Str (pf_message f)), (''recovery'', canonicalize (json_of_recovery (pf_recovery f)))]"
  by (simp add: json_of_failure_def)

lemma failure_keys:
  "utf8_bytes (json_quote ''category'') = 10" "utf8_bytes (json_quote ''code'') = 6"
  "utf8_bytes (json_quote ''message'') = 9" "utf8_bytes (json_quote ''recovery'') = 10"
  by code_simp+

lemma failure_bytes:
  "delegation_data_bytes (json_of_failure f) =
     44 + utf8_bytes (json_quote (failure_category_name (pf_category f))) + utf8_bytes (json_quote (pf_code f))
     + utf8_bytes (json_quote (pf_message f)) + recovery_bytes (pf_recovery f)"
  unfolding delegation_data_bytes_def delegation_canonical_json_def canonical_failure utf8_J_Obj
  by (simp add: utf8_member_json failure_keys recovery_bytes_def
      delegation_data_bytes_def delegation_canonical_json_def)

lemma escape_le: "utf8_bytes (json_escape c) \<le> 6"
proof -
  have "utf8_char_bytes (hex_digit d) = 1" if "d < 16" for d
    using that by (auto simp: utf8_char_bytes_def hex_digit_def code_unit_def)
  moreover have "code_unit c div 16 < 16" "code_unit c mod 16 < 16"
    by (auto simp: code_unit_def intro: less_mult_imp_div_less)
  moreover have "code_unit (char_of (92 :: nat)) < 128" by (simp add: code_unit_def)
  ultimately show ?thesis
    by (auto simp: json_escape_def Let_def utf8_char_bytes_def) (auto simp: code_unit_def)
qed

lemma quote_le: "utf8_bytes (json_quote s) \<le> 2 + 6 * int (length s)"
proof -
  have "utf8_bytes (concat (map json_escape s)) \<le> 6 * int (length s)"
    by (induction s) (auto intro: order_trans [OF add_mono [OF escape_le]])
  then show ?thesis by (simp add: json_quote_def utf8_char_bytes_def code_unit_def)
qed

lemma category_bytes_le: "utf8_bytes (json_quote (failure_category_name c)) \<le> 104"
  using quote_le [of "failure_category_name c"] by (cases c) simp_all

lemma recovery_bytes_fixed:
  "recovery_bytes Recover_Unknown \<le> 100" "recovery_bytes Recover_None \<le> 100"
  "recovery_bytes Recover_Wait_For_Quota \<le> 100" "recovery_bytes (Recover_Retry None) \<le> 100"
  "recovery_bytes (Recover_User_Action Authenticate) \<le> 100"
  "recovery_bytes (Recover_User_Action Review_Access) \<le> 100"
  "recovery_bytes (Recover_User_Action Change_Configuration) \<le> 100"
  "recovery_bytes (Recover_User_Action Review_Allowance) \<le> 100"
  by code_simp+

lemma recovery_bytes_le:
  assumes "\<not> is_retry r"
  shows "recovery_bytes r \<le> 100"
  using assms
proof (cases r)
  case (Recover_User_Action a)
  then show ?thesis using recovery_bytes_fixed by (cases a) simp_all
qed (auto simp: is_retry_def recovery_bytes_fixed)

lemma short_failure_fits:
  assumes "length (pf_code f) \<le> 128" "recovery_bytes (pf_recovery f) \<le> 100"
  shows "failure_fits f []"
  using assms category_bytes_le [of "pf_category f"] quote_le [of "pf_code f"]
  by (simp add: failure_fits_def failure_bytes_limit_def failure_bytes)

lemma fixed_failure_ok:
  "public_failure_schema ext (project_delegation_failure None)"
  unfolding project_delegation_failure_def fixed_failure_def option.case public_failure_schema_def
  by (simp add: public_recovery_schema_def del: js_len_def) code_simp

text \<open>
  The projection of every error the protocol admits passes the schema of a public failure: a
  definitive outcome is never lost because its explanation is too long.
\<close>

lemma short_recovery_fits:
  assumes "length (pf_code f) \<le> 128"
  shows "failure_fits (short_recovery f) []"
  using short_failure_fits [of "f\<lparr>pf_recovery := Recover_Retry None\<rparr>"] short_failure_fits [of f] assms
    recovery_bytes_fixed(4) recovery_bytes_le [of "pf_recovery f"]
  by (auto simp: short_recovery_def)

lemma fitted_failure_ok:
  assumes "failure_fits f []" "canonical_non_blank_string 128 (pf_code f)"
    "public_recovery_schema ext (pf_recovery f)"
  shows "public_failure_schema ext (f\<lparr>pf_message := fit_delegation_text (failure_fits f) message\<rparr>)"
proof -
  define m where "m = fit_delegation_text (failure_fits f) message"
  have "failure_fits f m"
    unfolding m_def using fit_text_fits_empty [of "failure_fits f"] assms(1) by blast
  then have bytes: "delegation_data_bytes (json_of_failure (f\<lparr>pf_message := m\<rparr>)) \<le> 2048"
    by (simp add: failure_fits_def failure_bytes_limit_def)
  have "int (length m) \<le> utf8_bytes (json_quote m)" by (rule length_le_utf8_quote)
  also have "\<dots> \<le> delegation_data_bytes (json_of_failure (f\<lparr>pf_message := m\<rparr>))"
    by (simp add: failure_bytes recovery_bytes_def add_nonneg_nonneg)
  finally show ?thesis
    using bytes assms(2,3) by (simp add: public_failure_schema_def m_def)
qed

lemma project_failure_ok:
  assumes "agent_error_ok ext e"
  shows "public_failure_schema ext (project_delegation_failure (Some e))"
proof -
  let ?f = "\<lparr>pf_category = ae_category e, pf_code = ae_code e, pf_message = [],
    pf_recovery = public_hint (ae_recovery e)\<rparr>"
  have code: "canonical_non_blank_string 128 (ae_code e)" "length (pf_code ?f) \<le> 128"
    using assms by (auto simp: agent_error_ok_def canonical_non_blank_string_def)
  have "public_failure_schema ext ((short_recovery ?f)
      \<lparr>pf_message := fit_delegation_text (failure_fits (short_recovery ?f)) (ae_message e)\<rparr>)"
    by (rule fitted_failure_ok [OF short_recovery_fits [OF code(2)]])
      (use assms code(1) in \<open>simp_all add: short_recovery_def agent_error_ok_def public_recovery_schema_def\<close>)
  then show ?thesis by (simp add: project_delegation_failure_def Let_def)
qed

end
