(* ===== verification/Run_Authority.thy ===== *)
theory Run_Authority
  imports Run_Output Delegation_Eligibility Delegation_History Delegation_Pages
begin

text \<open>
  The authority of managed runs in \<open>agent-orchestration/src\<close>: \<open>execution/authority.ts\<close> (current
  policies, the originating ceiling, the effective choices of a parent, the gate before every input
  to a provider), the reads of \<open>CoordinatorState\<close> it goes through, and the admission of a new task
  by \<open>spawn\<close> of \<open>coordinator/admission.ts\<close> on the modelled store.

  The host is a parameter: what it answers for a scope, and whom it lets read results.  A check of
  the host that throws is an \<open>Inl\<close>.
\<close>

section \<open>The coordinator and its host\<close>

record host_policy =
  hp_scope :: parent_scope
  hp_catalog :: target_catalog
  hp_policy :: policy_input

record delegation_host =
  dh_externals :: externals
  dh_current_policy :: "parent_scope \<Rightarrow> delegation_failure + host_policy"
  dh_result_access :: "parent_scope \<Rightarrow> task_record option \<Rightarrow> delegation_failure + unit"
  dh_parent_delivery :: bool

record coordinator =
  co_owner :: owner_token
  co_closing :: bool
  co_draining :: bool
  co_failed :: bool
  co_released :: bool
  co_live :: "string list"

record parent_binding =
  pb_scope :: parent_scope
  pb_ancestor :: "(string \<times> string) option"
  pb_ceiling :: "policy_ceiling option"
  pb_depth :: "int option"

definition assert_accepting :: "coordinator \<Rightarrow> delegation_failure + unit" where
  "assert_accepting co =
     (if co_closing co \<or> co_failed co \<or> co_released co then fail_delegation Owner_Lost else Inr ())"

definition assert_completion_policy :: "delegation_host \<Rightarrow> completion_policy \<Rightarrow> delegation_failure + unit" where
  "assert_completion_policy host policy =
     (if policy \<noteq> Collect \<and> \<not> dh_parent_delivery host then fail_delegation Unsupported_Operation else Inr ())"

section \<open>Reads of the retained task, run and ceiling (state.ts, authority.ts)\<close>

definition page_records :: "store_state \<Rightarrow> string option \<Rightarrow> page_input" where
  "page_records st cursor = \<lparr>pn_cursor = cursor, pn_limit = Some (lm_max_page_records (st_limits st))\<rparr>"

definition state_task :: "externals \<Rightarrow> store_state \<Rightarrow> string \<Rightarrow> delegation_failure + task_record" where
  "state_task ext st task_id =
     and_then (store_read ext (Read_Task task_id (page_records st None)) st) (\<lambda>page.
       case page of Task_Page (Some (task, runs)) \<Rightarrow> Inr task | _ \<Rightarrow> fail_delegation Request_Unavailable)"

definition state_run :: "externals \<Rightarrow> store_state \<Rightarrow> string \<Rightarrow> string \<Rightarrow> delegation_failure + run_record" where
  "state_run ext st task_id run_id =
     and_then (store_read ext (Read_Run task_id run_id) st) (\<lambda>page.
       case page of Run_Page (Some run) \<Rightarrow> Inr run | _ \<Rightarrow> fail_delegation Request_Unavailable)"

definition ceiling_targets_limit :: int where
  "ceiling_targets_limit = 1000"

text \<open>
  The loop over the pages of a ceiling.  Every page with a cursor has an item, and more than a
  thousand targets are refused, so the fuel of \<open>read_ceiling\<close> never runs out
  (\<open>ceiling_fuel_enough\<close>).
\<close>

fun ceiling_pages ::
    "(string option \<Rightarrow> delegation_failure + store_read_page) \<Rightarrow> nat \<Rightarrow> target_reference list \<Rightarrow> string option
      \<Rightarrow> (delegation_failure + parent_scope \<times> target_reference list) option" where
  "ceiling_pages read 0 targets cursor = None"
| "ceiling_pages read (Suc fuel) targets cursor =
     (case read cursor of
        Inl e \<Rightarrow> Some (Inl e)
      | Inr page \<Rightarrow> (case page of
          Ceiling_Page _ (Some origin) p \<Rightarrow>
            (let collected = targets @ pg_items p in
             if js_len collected > ceiling_targets_limit then Some (fail_delegation Capacity_Exceeded)
             else case pg_cursor p of
               None \<Rightarrow> Some (Inr (origin, collected))
             | Some c \<Rightarrow> ceiling_pages read fuel collected (Some c))
        | _ \<Rightarrow> Some (fail_delegation Owner_Lost)))"

definition ceiling_fuel :: nat where
  "ceiling_fuel = 1002"

definition ceiling_reader :: "externals \<Rightarrow> store_state \<Rightarrow> string \<Rightarrow> string option \<Rightarrow> delegation_failure + store_read_page" where
  "ceiling_reader ext st ceiling_id cursor = store_read ext (Read_Ceiling ceiling_id (page_records st cursor)) st"

definition read_ceiling :: "externals \<Rightarrow> store_state \<Rightarrow> string \<Rightarrow> delegation_failure + policy_ceiling" where
  "read_ceiling ext st ceiling_id =
     (case ceiling_pages (ceiling_reader ext st ceiling_id) ceiling_fuel [] None of
        None \<Rightarrow> Inl Range_Error
      | Some r \<Rightarrow> and_then r (\<lambda>(origin, targets).
          and_then (create_delegation_policy_ceiling ext origin targets) (\<lambda>ceiling.
          if pc_ceiling_id ceiling \<noteq> ceiling_id then fail_delegation Owner_Lost else Inr ceiling)))"

section \<open>Current policies and effective choices (authority.ts)\<close>

definition parse_delegation_parent_scope :: "parent_scope \<Rightarrow> delegation_failure + parent_scope" where
  "parse_delegation_parent_scope = parse_delegation parent_scope_schema json_of_parent"

definition current_policy :: "delegation_host \<Rightarrow> parent_scope \<Rightarrow> delegation_failure + resolved_policy" where
  "current_policy host scope =
     and_then (dh_current_policy host scope) (\<lambda>snapshot.
     and_then (parse_delegation_parent_scope (hp_scope snapshot)) (\<lambda>actual.
     if ps_parent_id actual \<noteq> ps_parent_id scope \<or> ps_scope_id actual \<noteq> ps_scope_id scope
        \<or> ps_revision actual \<noteq> ps_revision scope
     then fail_delegation Stale_Revision
     else resolve_delegation_policy (hp_catalog snapshot) (hp_policy snapshot)))"

definition binding_ceiling ::
    "delegation_host \<Rightarrow> coordinator \<Rightarrow> store_state \<Rightarrow> parent_binding \<Rightarrow> delegation_failure + policy_ceiling option" where
  "binding_ceiling host co st binding =
     (case pb_ceiling binding of
        Some ceiling \<Rightarrow> Inr (Some ceiling)
      | None \<Rightarrow> (case pb_ancestor binding of
          None \<Rightarrow> Inr None
        | Some (task_id, run_id) \<Rightarrow>
            and_then (state_task (dh_externals host) st task_id) (\<lambda>task.
            and_then (state_run (dh_externals host) st task_id run_id) (\<lambda>run.
            if ps_scope_id (tk_parent task) \<noteq> ps_scope_id (pb_scope binding)
               \<or> rn_owner_epoch run \<noteq> ot_epoch (co_owner co)
               \<or> rn_phase run \<notin> {Preparing, Running, Waiting} \<or> rn_run_id run \<notin> set (co_live co)
            then fail_delegation Owner_Lost
            else and_then (read_ceiling (dh_externals host) st (tk_policy_ceiling_ref task)) (\<lambda>ceiling.
              Inr (Some ceiling))))))"

record choices =
  ch_resolved :: resolved_policy
  ch_targets :: "delegation_target list"
  ch_ceiling :: policy_ceiling
  ch_origin_policy_revision :: int
  ch_enabled :: bool

definition offered_keys :: "resolved_policy \<Rightarrow> string list" where
  "offered_keys r = map (\<lambda>t. target_key (dt_reference t)) (rp_allowed_targets r)"

definition effective_choices ::
    "delegation_host \<Rightarrow> coordinator \<Rightarrow> store_state \<Rightarrow> parent_binding \<Rightarrow> delegation_failure + choices" where
  "effective_choices host co st binding =
     and_then (binding_ceiling host co st binding) (\<lambda>inherited.
     and_then (current_policy host (pb_scope binding)) (\<lambda>resolved.
     and_then (case inherited of None \<Rightarrow> Inr resolved | Some c \<Rightarrow> current_policy host (pc_origin c)) (\<lambda>origin.
     let targets = filter (\<lambda>t. target_key (dt_reference t) \<in> set (offered_keys origin) \<and>
             (case inherited of None \<Rightarrow> True
              | Some c \<Rightarrow> target_key (dt_reference t) \<in> set (map target_key (pc_targets c))))
           (rp_allowed_targets resolved)
     in and_then (case inherited of Some c \<Rightarrow> Inr c
          | None \<Rightarrow> create_delegation_policy_ceiling (dh_externals host) (pb_scope binding) (map dt_reference targets))
        (\<lambda>ceiling. Inr \<lparr>ch_resolved = resolved, ch_targets = targets, ch_ceiling = ceiling,
           ch_origin_policy_revision = rp_policy_revision origin,
           ch_enabled = (rp_enabled resolved \<and> rp_enabled origin)\<rparr>))))"

definition names_target :: "target_reference \<Rightarrow> target_decision \<Rightarrow> bool" where
  "names_target reference d \<longleftrightarrow> tr_target_id (de_reference d) = tr_target_id reference \<and>
     tr_catalog_id (de_reference d) = tr_catalog_id reference"

definition is_unavailable_reason :: "policy_reason \<Rightarrow> bool" where
  "is_unavailable_reason r \<longleftrightarrow> (case r of policy_reason.Target_Unavailable _ \<Rightarrow> True | _ \<Rightarrow> False)"

definition admitted_target ::
    "choices \<Rightarrow> target_reference \<Rightarrow> int \<Rightarrow> delegation_failure + delegation_target" where
  "admitted_target ch reference revision =
     (if rp_policy_revision (ch_resolved ch) \<noteq> revision then fail_delegation Stale_Revision
      else if \<not> rp_enabled (ch_resolved ch) then fail_delegation delegation_error_code.Delegation_Disabled
      else case find (names_target reference) (rp_decisions (ch_resolved ch)) of
        None \<Rightarrow> fail_delegation Stale_Target
      | Some decision \<Rightarrow>
          if \<not> same_target (de_reference decision) reference then fail_delegation Stale_Target
          else case find (\<lambda>t. same_target (dt_reference t) reference) (ch_targets ch) of
            Some t \<Rightarrow> Inr t
          | None \<Rightarrow> if list_ex is_unavailable_reason (de_reasons decision)
              then fail_delegation delegation_error_code.Target_Unavailable else fail_delegation Policy_Denied)"

text \<open>The gate before every input to a provider; the lease of the host is asked last.\<close>

definition assert_run_dispatch ::
    "delegation_host \<Rightarrow> coordinator \<Rightarrow> bool \<Rightarrow> (delegation_failure + unit) \<Rightarrow> parent_scope \<Rightarrow> policy_ceiling
      \<Rightarrow> target_reference \<Rightarrow> int \<Rightarrow> int \<Rightarrow> delegation_failure + unit" where
  "assert_run_dispatch host co aborted lease scope ceiling target policy_revision origin_policy_revision =
     (if (co_closing co \<and> \<not> co_draining co) \<or> co_failed co \<or> co_released co then fail_delegation Owner_Lost
      else if aborted then fail_delegation Recovery_Required
      else and_then (current_policy host scope) (\<lambda>resolved.
        and_then (current_policy host (pc_origin ceiling)) (\<lambda>origin.
        if rp_policy_revision resolved \<noteq> policy_revision \<or> rp_policy_revision origin \<noteq> origin_policy_revision
        then fail_delegation Stale_Revision
        else if \<not> rp_enabled resolved \<or> \<not> rp_enabled origin then fail_delegation delegation_error_code.Delegation_Disabled
        else if \<not> list_ex (\<lambda>t. same_target t target) (pc_targets ceiling)
          \<or> \<not> list_ex (\<lambda>t. same_target (dt_reference t) target) (rp_allowed_targets resolved)
          \<or> \<not> list_ex (\<lambda>t. same_target (dt_reference t) target) (rp_allowed_targets origin)
        then fail_delegation Policy_Denied
        else lease)))"

section \<open>The admission of a new task (admission.ts, parse.ts)\<close>

record spawn_task_input =
  sp_operation_id :: string
  sp_target :: target_reference
  sp_expected_policy_revision :: int
  sp_input :: turn_input
  sp_completion_policy :: "completion_policy option"
  sp_timeout_ms :: "int option"

definition json_of_spawn :: "spawn_task_input \<Rightarrow> json" where
  "json_of_spawn s = J_Obj ([(''operationId'', J_Str (sp_operation_id s)), (''target'', json_of_target (sp_target s)),
     (''expectedPolicyRevision'', J_Num (sp_expected_policy_revision s)), (''input'', json_of_turn_input (sp_input s))]
     @ opt_member ''completionPolicy'' (\<lambda>p. J_Str (completion_policy_name p)) (sp_completion_policy s)
     @ opt_member ''timeoutMs'' J_Num (sp_timeout_ms s))"

definition spawn_task_schema :: "externals \<Rightarrow> spawn_task_input \<Rightarrow> bool" where
  "spawn_task_schema ext s \<longleftrightarrow> zod_uuid ext (sp_operation_id s) \<and> target_reference_schema (sp_target s) \<and>
     positive_safe (sp_expected_policy_revision s) \<and> valid_turn_input ext (sp_input s) \<and>
     optional positive_safe (sp_timeout_ms s)"

definition input_limit_exceeded :: "turn_input \<Rightarrow> delegation_limits \<Rightarrow> bool" where
  "input_limit_exceeded input limits \<longleftrightarrow>
     input_bytes input > lm_max_input_bytes limits \<or> input_characters input > lm_max_input_text_characters limits"

definition parse_spawn_task_input ::
    "externals \<Rightarrow> delegation_limits \<Rightarrow> spawn_task_input \<Rightarrow> delegation_failure + spawn_task_input" where
  "parse_spawn_task_input ext limits raw =
     and_then (parse_delegation (spawn_task_schema ext) json_of_spawn raw) (\<lambda>s.
     if input_limit_exceeded (sp_input s) limits then fail_delegation Capacity_Exceeded
     else if (case sp_timeout_ms s of None \<Rightarrow> False | Some t \<Rightarrow> t > lm_run_timeout_ms limits)
       then fail_delegation Capacity_Exceeded
     else Inr s)"

definition spawn_policy :: "spawn_task_input \<Rightarrow> completion_policy" where
  "spawn_policy s = (case sp_completion_policy s of None \<Rightarrow> Collect | Some p \<Rightarrow> p)"

definition spawn_timeout :: "delegation_limits \<Rightarrow> spawn_task_input \<Rightarrow> int" where
  "spawn_timeout limits s = (case sp_timeout_ms s of None \<Rightarrow> lm_run_timeout_ms limits | Some t \<Rightarrow> t)"

definition spawn_digest :: "externals \<Rightarrow> delegation_limits \<Rightarrow> spawn_task_input \<Rightarrow> string" where
  "spawn_digest ext limits s = delegation_input_digest ext
     (J_Obj [(''kind'', J_Str ''spawn''), (''target'', json_of_target (sp_target s)),
       (''expectedPolicyRevision'', J_Num (sp_expected_policy_revision s)), (''input'', json_of_turn_input (sp_input s)),
       (''completionPolicy'', J_Str (completion_policy_name (spawn_policy s))),
       (''timeoutMs'', J_Num (spawn_timeout limits s))])"

definition prior_operation ::
    "delegation_host \<Rightarrow> store_state \<Rightarrow> parent_scope \<Rightarrow> string \<Rightarrow> string \<Rightarrow> operation_kind
      \<Rightarrow> delegation_failure + operation_record option" where
  "prior_operation host st scope operation_id digest kind =
     and_then (store_read (dh_externals host) (Read_Operation scope operation_id) st) (\<lambda>page.
       case page of
         Operation_Page (Some op) \<Rightarrow>
           if op_input_digest op \<noteq> digest \<or> op_kind op \<noteq> kind then fail_delegation Operation_Conflict
           else and_then (state_task (dh_externals host) st (op_task_id op)) (\<lambda>task.
                and_then (dh_result_access host scope (Some task)) (\<lambda>_. Inr (Some op)))
       | _ \<Rightarrow> Inr None)"

record spawn_receipt =
  sr_task_id :: string
  sr_run_id :: string
  sr_target :: target_reference
  sr_revision :: int
  sr_duplicate :: bool

definition admission_receipt ::
    "externals \<Rightarrow> store_state \<Rightarrow> operation_record \<Rightarrow> delegation_failure + spawn_receipt" where
  "admission_receipt ext st op =
     and_then (state_run ext st (op_task_id op) (op_run_id op)) (\<lambda>run.
       Inr \<lparr>sr_task_id = op_task_id op, sr_run_id = op_run_id op, sr_target = rn_admitted_target run,
            sr_revision = rc_task_revision (op_receipt op), sr_duplicate = True\<rparr>)"

definition iso_time :: "int \<Rightarrow> delegation_failure + string" where
  "iso_time t = (case to_iso_string t of None \<Rightarrow> Inl Range_Error | Some s \<Rightarrow> Inr s)"

definition spawn_admission ::
    "parent_binding \<Rightarrow> spawn_task_input \<Rightarrow> choices \<Rightarrow> target_reference \<Rightarrow> string
      \<Rightarrow> string \<Rightarrow> string \<Rightarrow> string \<Rightarrow> run_admission" where
  "spawn_admission binding s ch target run_id created deadline start_deadline =
     \<lparr>ad_parent = pb_scope binding, ad_ancestor_task_id = map_option fst (pb_ancestor binding),
      ad_depth = (case pb_depth binding of None \<Rightarrow> 1 | Some d \<Rightarrow> d), ad_policy_ceiling = ch_ceiling ch,
      ad_completion_policy = spawn_policy s, ad_run_id = run_id, ad_previous_run_id = None,
      ad_continuation_mode = None, ad_target = target,
      ad_policy_revision = rp_policy_revision (ch_resolved ch),
      ad_origin_policy_revision = ch_origin_policy_revision ch, ad_input = sp_input s,
      ad_created_at = created, ad_deadline_at = deadline, ad_queued_start_deadline_at = start_deadline\<rparr>"

text \<open>
  What \<open>spawn\<close> decides before its commit: the receipt of an earlier call with this operation id,
  or the command of the admission.  That a failure of the store also fails the coordinator is not
  part of the result.  \<open>task_id\<close> and \<open>run_id\<close> are the fresh identifiers, \<open>clock\<close> is
  \<open>Date.now()\<close>.
\<close>

definition plan_spawn ::
    "delegation_host \<Rightarrow> coordinator \<Rightarrow> parent_binding \<Rightarrow> spawn_task_input \<Rightarrow> string \<Rightarrow> string \<Rightarrow> int
      \<Rightarrow> store_state \<Rightarrow> delegation_failure + spawn_receipt + store_command" where
  "plan_spawn host co binding raw task_id run_id clock st =
     and_then (parse_spawn_task_input (dh_externals host) (st_limits st) raw) (\<lambda>s.
     and_then (dh_result_access host (pb_scope binding) None) (\<lambda>_.
     let digest = spawn_digest (dh_externals host) (st_limits st) s in
     and_then (prior_operation host st (pb_scope binding) (sp_operation_id s) digest Op_Admit) (\<lambda>prior.
     case prior of
       Some op \<Rightarrow> and_then (admission_receipt (dh_externals host) st op) (\<lambda>r. Inr (Inl r))
     | None \<Rightarrow>
       and_then (assert_accepting co) (\<lambda>_.
       and_then (assert_completion_policy host (spawn_policy s)) (\<lambda>_.
       and_then (effective_choices host co st binding) (\<lambda>ch.
       and_then (admitted_target ch (sp_target s) (sp_expected_policy_revision s)) (\<lambda>target.
       if (case pb_depth binding of None \<Rightarrow> 1 | Some d \<Rightarrow> d) > lm_max_depth (st_limits st)
       then fail_delegation Capacity_Exceeded
       else
         and_then (iso_time clock) (\<lambda>created.
         and_then (iso_time (clock + spawn_timeout (st_limits st) s)) (\<lambda>deadline.
         and_then (iso_time (clock + lm_queued_start_timeout_ms (st_limits st))) (\<lambda>start_deadline.
         Inr (Inr \<lparr>cm_owner = co_owner co, cm_operation_id = sp_operation_id s, cm_input_digest = digest,
           cm_task_id = task_id, cm_expected_task_revision = 0, cm_run_id = None,
           cm_expected_run_revision = None,
           cm_body = Admit (spawn_admission binding s ch (dt_reference target) run_id
             created deadline start_deadline)\<rparr>)))))))))))"

definition spawn_task ::
    "delegation_host \<Rightarrow> coordinator \<Rightarrow> parent_binding \<Rightarrow> spawn_task_input \<Rightarrow> string \<Rightarrow> string \<Rightarrow> int
      \<Rightarrow> store_state \<Rightarrow> (delegation_failure + spawn_receipt) \<times> store_state" where
  "spawn_task host co binding raw task_id run_id clock st =
     (case plan_spawn host co binding raw task_id run_id clock st of
        Inl e \<Rightarrow> (Inl e, st)
      | Inr (Inl r) \<Rightarrow> (Inr r, st)
      | Inr (Inr command) \<Rightarrow>
          if co_released co then (fail_delegation Owner_Lost, st)
          else case store_commit (dh_externals host) command st of
            (Inl e, st') \<Rightarrow> (Inl e, st')
          | (Inr receipt, st') \<Rightarrow>
              (Inr \<lparr>sr_task_id = task_id, sr_run_id = run_id, sr_target = (case cm_body command of Admit a \<Rightarrow> ad_target a | _ \<Rightarrow> sp_target raw),
                 sr_revision = rc_task_revision receipt, sr_duplicate = False\<rparr>, st'))"


section \<open>Ceilings are read completely\<close>

lemma target_key_inject [simp]: "target_key s = target_key t \<longleftrightarrow> s = t"
  using same_target_iff [of s t] unfolding same_target_def same_json_def target_key_def by simp

lemma ceiling_reader_progress:
  assumes "ceiling_reader ext st ceiling_id cursor = Inr (Ceiling_Page c origin p)" "pg_cursor p = Some c'"
  shows "pg_items p \<noteq> []"
proof -
  have "store_page ext st (J_Obj [(''kind'', J_Str ''ceiling''), (''ceilingId'', J_Str ceiling_id)])
         json_of_target (case map_of (st_ceilings st) ceiling_id of None \<Rightarrow> [] | Some ceiling \<Rightarrow> pc_targets ceiling)
         (\<lambda>t. delegation_input_digest ext (json_of_target t)) (page_records st cursor) 512 = Inr p"
    using assms(1) by (auto simp: ceiling_reader_def store_read_def parse_delegation_store_read_input_def
        parse_delegation_Inr result_simps)
  then show ?thesis unfolding store_page_def
    by (rule page_Inr) (use assms(2) in \<open>auto split: if_splits\<close>)
qed

lemma ceiling_pages_end:
  "length targets \<le> 1000 \<Longrightarrow> 1001 < fuel + length targets \<Longrightarrow>
     ceiling_pages (ceiling_reader ext st ceiling_id) fuel targets cursor \<noteq> None"
proof (induction fuel arbitrary: targets cursor)
  case (Suc fuel)
  have next_page: "ceiling_pages (ceiling_reader ext st ceiling_id) fuel (targets @ pg_items p) (Some c) \<noteq> None"
    if "ceiling_reader ext st ceiling_id cursor = Inr (Ceiling_Page k origin p)" "pg_cursor p = Some c"
      "length targets + length (pg_items p) \<le> 1000" for k origin p c
    using ceiling_reader_progress [OF that(1,2)] that(3) Suc.prems
    by (intro Suc.IH) (auto simp: neq_Nil_conv)
  then show ?case
    by (auto simp: ceiling_targets_limit_def Let_def split: sum.splits store_read_page.splits option.splits)
qed simp

lemma ceiling_fuel_enough: "ceiling_pages (ceiling_reader ext st ceiling_id) ceiling_fuel [] None \<noteq> None"
  by (rule ceiling_pages_end) (simp_all add: ceiling_fuel_def)

section \<open>What an admitted target went through\<close>

lemma offered_iff: "target_key (dt_reference t) \<in> set (offered_keys r) \<longleftrightarrow>
    dt_reference t \<in> dt_reference ` set (rp_allowed_targets r)"
  by (auto simp: offered_keys_def)

lemma effective_choices_Inr:
  assumes "effective_choices host co st binding = Inr ch"
  obtains inherited origin where "binding_ceiling host co st binding = Inr inherited"
    and "current_policy host (pb_scope binding) = Inr (ch_resolved ch)"
    and "current_policy host (pc_origin (ch_ceiling ch)) = Inr origin"
    and "case inherited of None \<Rightarrow> pc_origin (ch_ceiling ch) = pb_scope binding \<and>
        set (pc_targets (ch_ceiling ch)) = dt_reference ` set (ch_targets ch)
      | Some c \<Rightarrow> ch_ceiling ch = c"
    and "ch_origin_policy_revision ch = rp_policy_revision origin"
    and "\<And>t. t \<in> set (ch_targets ch) \<Longrightarrow> t \<in> set (rp_allowed_targets (ch_resolved ch)) \<and>
        dt_reference t \<in> dt_reference ` set (rp_allowed_targets origin) \<and>
        dt_reference t \<in> set (pc_targets (ch_ceiling ch))"
proof -
  obtain inherited resolved where inherited: "binding_ceiling host co st binding = Inr inherited"
    and resolved: "current_policy host (pb_scope binding) = Inr resolved"
    using assms by (auto simp: effective_choices_def result_simps)
  show thesis
  proof (cases inherited)
    case None
    let ?targets = "filter (\<lambda>t. target_key (dt_reference t) \<in> set (offered_keys resolved)) (rp_allowed_targets resolved)"
    obtain ceiling where created: "create_delegation_policy_ceiling (dh_externals host) (pb_scope binding)
        (map dt_reference ?targets) = Inr ceiling"
      and ch: "ch = \<lparr>ch_resolved = resolved, ch_targets = ?targets, ch_ceiling = ceiling,
           ch_origin_policy_revision = rp_policy_revision resolved,
           ch_enabled = (rp_enabled resolved \<and> rp_enabled resolved)\<rparr>"
      using assms inherited resolved None by (auto simp: effective_choices_def result_simps Let_def)
    have "pc_origin ceiling = pb_scope binding" "set (pc_targets ceiling) = dt_reference ` set ?targets"
      using create_ceiling_canonical [OF created] by simp_all
    then show thesis
      using inherited resolved None by (intro that [of inherited resolved]) (auto simp: ch offered_iff)
  next
    case (Some c)
    obtain origin where origin: "current_policy host (pc_origin c) = Inr origin"
      and ch: "ch = \<lparr>ch_resolved = resolved,
           ch_targets = filter (\<lambda>t. target_key (dt_reference t) \<in> set (offered_keys origin) \<and>
             target_key (dt_reference t) \<in> set (map target_key (pc_targets c))) (rp_allowed_targets resolved),
           ch_ceiling = c, ch_origin_policy_revision = rp_policy_revision origin,
           ch_enabled = (rp_enabled resolved \<and> rp_enabled origin)\<rparr>"
      using assms inherited resolved Some by (auto simp: effective_choices_def result_simps Let_def)
    show thesis
      using inherited resolved origin Some by (intro that [of inherited origin]) (auto simp: ch offered_iff)
  qed
qed

lemma admitted_target_Inr:
  assumes "admitted_target ch reference revision = Inr t"
  shows "t \<in> set (ch_targets ch) \<and> dt_reference t = reference \<and>
    rp_policy_revision (ch_resolved ch) = revision \<and> rp_enabled (ch_resolved ch)"
  using assms
  by (auto simp: admitted_target_def result_simps find_Some_iff split: option.splits if_splits)


lemma offers_target: "list_ex (\<lambda>t. same_target (dt_reference t) target) ts \<longleftrightarrow> target \<in> dt_reference ` set ts"
  by (induction ts) auto

lemma lists_target: "list_ex (\<lambda>t. same_target t target) ts \<longleftrightarrow> target \<in> set ts"
  by (induction ts) auto

lemma assert_run_dispatch_iff:
  "assert_run_dispatch host co aborted lease scope ceiling target policy_revision origin_revision = Inr () \<longleftrightarrow>
     \<not> (co_closing co \<and> \<not> co_draining co) \<and> \<not> co_failed co \<and> \<not> co_released co \<and> \<not> aborted \<and> lease = Inr () \<and>
     target \<in> set (pc_targets ceiling) \<and>
     (\<exists>resolved origin. current_policy host scope = Inr resolved \<and> current_policy host (pc_origin ceiling) = Inr origin \<and>
        rp_policy_revision resolved = policy_revision \<and> rp_policy_revision origin = origin_revision \<and>
        rp_enabled resolved \<and> rp_enabled origin \<and>
        target \<in> dt_reference ` set (rp_allowed_targets resolved) \<and>
        target \<in> dt_reference ` set (rp_allowed_targets origin))"
  by (auto simp: assert_run_dispatch_def result_simps offers_target lists_target simp del: same_target_iff)

section \<open>The admission on the store\<close>

lemma prior_none:
  assumes "prior_operation host st scope op digest kind = Inr None"
  shows "map_of (st_operations st) (operation_key scope op) = None"
  using assms
  by (auto simp: prior_operation_def store_read_def parse_delegation_store_read_input_def parse_delegation_Inr
      result_simps split: option.splits if_splits)

lemma earlier_receipt:
  assumes "plan_spawn host co binding raw task_id run_id clock st = Inr (Inl receipt)"
  shows "sr_duplicate receipt"
  using assms
  by (auto simp: plan_spawn_def admission_receipt_def result_simps Let_def split: option.splits if_splits)

lemma plan_spawn_command:
  assumes "plan_spawn host co binding raw task_id run_id clock st = Inr (Inr command)"
  obtains ch t created deadline start_deadline where
    "command = \<lparr>cm_owner = co_owner co, cm_operation_id = sp_operation_id raw,
       cm_input_digest = spawn_digest (dh_externals host) (st_limits st) raw, cm_task_id = task_id,
       cm_expected_task_revision = 0, cm_run_id = None, cm_expected_run_revision = None,
       cm_body = Admit (spawn_admission binding raw ch (dt_reference t) run_id created deadline start_deadline)\<rparr>"
    and "effective_choices host co st binding = Inr ch"
    and "admitted_target ch (sp_target raw) (sp_expected_policy_revision raw) = Inr t"
    and "map_of (st_operations st) (operation_key (pb_scope binding) (sp_operation_id raw)) = None"
    and "ad_depth (spawn_admission binding raw ch (dt_reference t) run_id created deadline start_deadline)
      \<le> lm_max_depth (st_limits st)"
    and "assert_accepting co = Inr ()"
  using assms
  by (auto simp: plan_spawn_def parse_spawn_task_input_def parse_delegation_Inr result_simps Let_def
      spawn_admission_def split: option.splits dest: prior_none)

text \<open>An accepted commit of an admission whose operation is not retained yet stores its run.\<close>

lemma fresh_admission_stored:
  assumes ok: "store_ok ext st" and commit: "store_commit ext c st = (Inr receipt, st')" and body: "cm_body c = Admit a"
    and fresh: "map_of (st_operations st) (operation_key (ad_parent a) (cm_operation_id c)) = None"
  obtains r t where "map_of (st_runs st) (ad_run_id a) = None" and "map_of (st_runs st') (ad_run_id a) = Some r"
    and "rn_admitted_target r = ad_target a" and "rn_task_id r = cm_task_id c" and "rn_phase r = Queued"
    and "rn_applied_target r = None" and "map_of (st_tasks st') (cm_task_id c) = Some t"
    and "tk_policy_ceiling_ref t = pc_ceiling_id (ad_policy_ceiling a)"
    and "map_of (st_ceilings st') (pc_ceiling_id (ad_policy_ceiling a)) = Some (ad_policy_ceiling a)"
    and "ad_target a \<in> set (pc_targets (ad_policy_ceiling a))"
proof -
  let ?cur = "commit_snapshot ext c st"
  obtain pl where plan: "plan_delegation_store_commit ext c ?cur = Inr pl"
    and st': "st' = apply_mutations (pl_mutations pl) st"
    by (rule store_commit_plan [OF commit])
  have dup: "duplicate ext c ?cur = Inr None"
    using fresh by (simp add: duplicate_def body duplicate_operation_def duplicate_effect_def
        commit_snapshot_def command_parent_def)
  from plan show thesis
  proof (cases rule: plan_cases)
    case (retry r)
    then show thesis using dup by simp
  next
    case (change task ctx)
    from admit_commit [OF body change(7-9)] show thesis
    proof cases
      case (1 r1 t1 s)
      have key: "tk_task_id task = cm_task_id c"
        using admitted_task(1) [OF ok body change(7) 1(10), where k = "ad_run_id a" and s = s and ?t1.0 = t1] 1(1,2) by simp
      have ref: "tk_policy_ceiling_ref t1 = pc_ceiling_id (ad_policy_ceiling a)"
        using admitted_task(2) [OF ok body change(7) 1(10), where k = "ad_run_id a" and s = s and ?t1.0 = t1] 1(1,2) by simp
      have "map_of (st_runs st) (ad_run_id a) = None"
        using 1(11) by (simp add: admission_run_retained_def commit_snapshot_def body has_key_def)
      moreover have "map_of (st_ceilings st') (pc_ceiling_id (ad_policy_ceiling a)) = Some (ad_policy_ceiling a)"
        using 1(7,14) by (auto simp: st' split: option.splits)
      ultimately show thesis
        using 1 key ref by (intro that [of r1 t1]) (simp_all add: st')
    qed
  qed
qed

text \<open>A call that is not answered from an earlier one was committed.\<close>

lemma spawn_committed:
  assumes "spawn_task host co binding raw task_id run_id clock st = (Inr receipt, st')" "\<not> sr_duplicate receipt"
  obtains command committed where "plan_spawn host co binding raw task_id run_id clock st = Inr (Inr command)"
    and "store_commit (dh_externals host) command st = (Inr committed, st')"
proof (cases "plan_spawn host co binding raw task_id run_id clock st")
  case (Inr planned)
  show thesis
  proof (cases planned)
    case (Inl r)
    then have "plan_spawn host co binding raw task_id run_id clock st = Inr (Inl r)" using Inr by simp
    from earlier_receipt [OF this] show thesis
      using assms Inr Inl by (simp add: spawn_task_def)
  next
    case (Inr command)
    then show thesis
      using assms \<open>plan_spawn host co binding raw task_id run_id clock st = Inr planned\<close> that
      by (auto simp: spawn_task_def fail_delegation_def split: if_splits sum.splits prod.splits)
  qed
qed (use assms in \<open>simp add: spawn_task_def\<close>)

end
