(* ===== verification/Run_Lifetime.thy ===== *)
theory Run_Lifetime
  imports Run_Authority
begin

text \<open>
  The life of one managed run in a coordinator of \<open>agent-orchestration/src/execution\<close>: the
  preparation of the child (\<open>prepare.ts\<close>), the single reader of its output (\<open>stream.ts\<close>), steering,
  request answers and cancellation (\<open>control.ts\<close>), and the cleanup and settlement
  (\<open>cleanup.ts\<close>, \<open>finish.ts\<close>), as they change one \<open>LiveRun\<close> of \<open>state.ts\<close>.

  These are asynchronous functions over shared mutable state.  An event is the code between two
  awaits together with what the await answered; \<open>live_step\<close> is the effect of an event, \<open>None\<close> when
  the code cannot be there.  Any interleaving of the functions is a list of events.  The answers of
  the host, the provider and the store are in the events: the models of the policies and of the
  result projection are used where the code calls them, of the retained run only the member
  \<open>recoveryReason\<close> is followed, as the receipts of steering and of answers set it.
\<close>

section \<open>The state of a live run (state.ts)\<close>

datatype prepare_stage =
    Pr_Start | Pr_Leasing | Pr_Leased | Pr_Resourcing | Pr_Resourced | Pr_Opening | Pr_Opened
  | Pr_Recorded | Pr_Dispatched | Pr_Turn | Pr_Failed

text \<open>\<open>live.stream\<close>: not open, waiting for the next output, or at the boundary of a request.\<close>

datatype stream_state = No_Stream | Reading | At_Request string

datatype live_eligibility = Live_Waiting | Live_Claimed | Live_Retired

datatype cancel_stage = No_Cancel | Cancel_Pending | Cancel_Confirming | Cancel_Over

datatype finish_stage =
    Not_Finishing | Closing_Controls | Closing_Runtime | Draining_Output | Releasing_Resources
  | Releasing_Execution | Settling bool | Finished

record live_run =
  lr_scope :: parent_scope
  lr_target :: target_reference
  lr_ceiling :: policy_ceiling
  lr_policy_revision :: int
  lr_origin_policy_revision :: int
  lr_prepare :: prepare_stage
  lr_leased :: bool
  lr_resourced :: bool
  lr_resumable :: bool
  lr_session :: bool
  lr_rejected_opening :: bool
  lr_dispatched :: bool
  lr_observed_start :: bool
  lr_recorded_start :: bool
  lr_stream :: stream_state
  lr_stream_terminal :: "run_outcome option"
  lr_terminal :: "run_outcome option"
  lr_summary :: result_summary
  lr_request :: "(string \<times> live_eligibility) option"
  lr_presented :: "string list"
  lr_callbacks :: "string list"
  lr_attempts :: "(string \<times> string) list"
  lr_uncertain :: "recovery_reason option"
  lr_aborted :: bool
  lr_cancel :: cancel_stage
  lr_steering :: bool
  lr_deadline :: bool
  lr_finish :: finish_stage
  lr_outcome :: "run_outcome option"
  lr_runtime_attempts :: nat
  lr_runtime_closed :: bool
  lr_resource_attempts :: nat
  lr_resources_released :: bool
  lr_execution_attempts :: nat
  lr_execution_released :: bool
  lr_row :: run_record
  lr_settled :: "run_outcome option"
  lr_stored :: "run_outcome option"
  lr_owned :: bool
  lr_continuation :: bool

text \<open>The object that the scheduler creates for a queued run (\<open>scheduler.ts\<close>).\<close>

definition new_live_run :: "parent_scope \<Rightarrow> policy_ceiling \<Rightarrow> run_record \<Rightarrow> live_run" where
  "new_live_run scope ceiling run = \<lparr>
     lr_scope = scope, lr_target = rn_admitted_target run, lr_ceiling = ceiling,
     lr_policy_revision = rn_admitted_policy_revision run,
     lr_origin_policy_revision = rn_admitted_origin_policy_revision run, lr_prepare = Pr_Start,
     lr_leased = False, lr_resourced = False, lr_resumable = False, lr_session = False,
     lr_rejected_opening = False, lr_dispatched = False, lr_observed_start = False,
     lr_recorded_start = False, lr_stream = No_Stream, lr_stream_terminal = None, lr_terminal = None,
     lr_summary = empty_summary, lr_request = None, lr_presented = [], lr_callbacks = [],
     lr_attempts = [], lr_uncertain = None, lr_aborted = False, lr_cancel = No_Cancel,
     lr_steering = False, lr_deadline = False, lr_finish = Not_Finishing, lr_outcome = None,
     lr_runtime_attempts = 0, lr_runtime_closed = False, lr_resource_attempts = 0,
     lr_resources_released = False, lr_execution_attempts = 0, lr_execution_released = False,
     lr_row = run, lr_settled = None, lr_stored = None, lr_owned = True, lr_continuation = False\<rparr>"

section \<open>Events\<close>

text \<open>What the coordinator sees when it calls \<open>gate\<close>: the host, its own flags, the lease.\<close>

record gate_view =
  gv_host :: delegation_host
  gv_coordinator :: coordinator
  gv_lease :: "delegation_failure + unit"

datatype failure_cause = Refused | Opening_Rejected | Configuration_Uncertain

datatype turn_end = Ended_Completed | Ended_Canceled | Ended_Failed "agent_error option"

text \<open>
  A provider output.  An artifact carries what \<open>publishArtifact\<close> returned for it, nothing when the
  host has no such port; it is not called when eight references are kept.
\<close>

datatype turn_output =
    Out_Artifact "result_reference option"
  | Out_Text string
  | Out_Request string
  | Out_Request_Unavailable string
  | Out_Completed turn_end
  | Out_Other

datatype answer = Answer_Delivered | Answer_Rejected bool | Answer_Uncertain

datatype run_event =
    Ask_Execution gate_view
  | Execution_Acquired
  | Ask_Resources gate_view
  | Resources_Acquired bool
  | Ask_Session gate_view
  | Session_Opened
  | Record_Preparation gate_view
  | Dispatch_Turn
  | Start_Turn gate_view
  | Prepare_Failed failure_cause bool
  | Provider_Started gate_view
  | Output turn_output
  | Route_Request
  | Stream_Ended
  | Stream_Failed bool bool
  | Callback_Ended string bool
  | Steer_Started
  | Steer_Ended bool bool
  | Request_Claimed string
  | Request_Answered string answer bool
  | Cancel_Called
  | Cancel_Dropped
  | Cancel_Preparing
  | Cancel_Interrupted bool bool
  | Cancel_Confirmed
  | Interrupt_Deadline
  | Storage_Lost
  | Controls_Settled
  | Close_Runtime bool
  | Runtime_Settled
  | Output_Drained
  | Release_Resources bool
  | Release_Execution bool
  | Settle_Run bool

section \<open>Finishing (finish.ts, cleanup.ts)\<close>

text \<open>
  \<open>finishRun\<close> up to its first await, with the synchronous part of \<open>cleanupRun\<close>: the first caller
  decides the outcome, later callers wait for the same promise.
\<close>

definition begin_finish :: "run_outcome \<Rightarrow> live_run \<Rightarrow> live_run" where
  "begin_finish outcome live =
     (if lr_finish live \<noteq> Not_Finishing then live
      else live\<lparr>lr_finish := Closing_Controls, lr_outcome := Some outcome, lr_deadline := False,
        lr_request := None, lr_presented := [], lr_aborted := True,
        lr_runtime_attempts :=
          (if lr_rejected_opening live \<and> lr_runtime_attempts live = 0 then 1 else lr_runtime_attempts live)\<rparr>)"

definition mark_uncertain :: "recovery_reason \<Rightarrow> live_run \<Rightarrow> live_run" where
  "mark_uncertain reason live = live\<lparr>lr_uncertain := Some reason\<rparr>"

definition open_controls :: "live_run \<Rightarrow> nat" where
  "open_controls live = (if lr_steering live then 1 else 0) + length (lr_attempts live) + length (lr_callbacks live)
     + (if lr_cancel live = Cancel_Pending \<or> lr_cancel live = Cancel_Confirming then 1 else 0)"

definition is_definite :: "run_outcome \<Rightarrow> bool" where
  "is_definite out \<longleftrightarrow> \<not> is_recovery_outcome out"

definition final_outcome :: "bool \<Rightarrow> recovery_reason option \<Rightarrow> result_summary \<Rightarrow> run_outcome \<Rightarrow> run_outcome" where
  "final_outcome closed uncertain summary outcome =
     (let truth = (case outcome of Succeeded _ \<Rightarrow> Succeeded summary | out \<Rightarrow> out);
          confirmed = (case truth of Succeeded _ \<Rightarrow> True | Canceled _ \<Rightarrow> True | _ \<Rightarrow> False)
      in case uncertain of
           Some reason \<Rightarrow>
             if reason = Cancellation_Uncertain \<and> confirmed
             then (if closed then truth else Recovery_Required_Outcome Cancellation_Uncertain)
             else Recovery_Required_Outcome reason
         | None \<Rightarrow> if closed then truth else Recovery_Required_Outcome Cancellation_Uncertain)"

definition settle_live :: "bool \<Rightarrow> bool \<Rightarrow> run_outcome \<Rightarrow> live_run \<Rightarrow> live_run" where
  "settle_live closed stored outcome live =
     (let final = final_outcome closed (lr_uncertain live) (lr_summary live) outcome;
          done = live\<lparr>lr_finish := Finished, lr_settled := Some final\<rparr>
      in if \<not> stored then done
         else let kept = done\<lparr>lr_stored := Some (settled_outcome (lr_row live) final)\<rparr>
           in if \<not> closed then kept
              else kept\<lparr>lr_owned := False,
                lr_continuation := (is_definite final \<and> lr_session live \<and> lr_resourced live \<and> lr_resumable live)\<rparr>)"

fun finish_step :: "run_event \<Rightarrow> live_run \<Rightarrow> live_run option" where
  "finish_step Controls_Settled live =
     (if lr_finish live = Closing_Controls \<and> open_controls live = 0
      then Some (live\<lparr>lr_finish := Closing_Runtime\<rparr>) else None)"
| "finish_step (Close_Runtime ok) live =
     (if (lr_finish live = Closing_Controls \<or> lr_finish live = Closing_Runtime)
         \<and> \<not> lr_runtime_closed live \<and> lr_runtime_attempts live < 2
      then Some (live\<lparr>lr_runtime_attempts := lr_runtime_attempts live + 1, lr_runtime_closed := ok\<rparr>) else None)"
| "finish_step Runtime_Settled live =
     (if lr_finish live = Closing_Runtime \<and> (lr_runtime_closed live \<or> 2 \<le> lr_runtime_attempts live)
      then Some (live\<lparr>lr_finish := (if lr_runtime_closed live then Draining_Output else Settling False)\<rparr>) else None)"
| "finish_step Output_Drained live =
     (if lr_finish live = Draining_Output \<and> lr_stream live = No_Stream
      then Some (live\<lparr>lr_finish := Releasing_Resources\<rparr>) else None)"
| "finish_step (Release_Resources ok) live =
     (if lr_finish live = Releasing_Resources \<and> (lr_resourced live \<or> ok)
      then Some (live\<lparr>lr_resource_attempts := lr_resource_attempts live + 1, lr_resources_released := ok,
        lr_finish := (if ok then Releasing_Execution
          else if lr_resource_attempts live + 1 < 2 then Releasing_Resources else Settling False)\<rparr>) else None)"
| "finish_step (Release_Execution ok) live =
     (if lr_finish live = Releasing_Execution \<and> (lr_leased live \<or> ok)
      then Some (live\<lparr>lr_execution_attempts := lr_execution_attempts live + 1, lr_execution_released := ok,
        lr_finish := (if ok then Settling True
          else if lr_execution_attempts live + 1 < 2 then Releasing_Execution else Settling False)\<rparr>) else None)"
| "finish_step (Settle_Run stored) live =
     (case lr_finish live of
        Settling closed \<Rightarrow>
          (case lr_outcome live of None \<Rightarrow> None | Some outcome \<Rightarrow> Some (settle_live closed stored outcome live))
      | _ \<Rightarrow> None)"
| "finish_step _ live = None"

section \<open>Preparation (prepare.ts)\<close>

definition dispatch_gate :: "gate_view \<Rightarrow> live_run \<Rightarrow> delegation_failure + unit" where
  "dispatch_gate view live =
     assert_run_dispatch (gv_host view) (gv_coordinator view) (lr_aborted live) (gv_lease view)
       (lr_scope live) (lr_ceiling live) (lr_target live) (lr_policy_revision live) (lr_origin_policy_revision live)"

definition at_gate :: "prepare_stage \<Rightarrow> gate_view \<Rightarrow> live_run \<Rightarrow> bool" where
  "at_gate stage view live \<longleftrightarrow> lr_prepare live = stage \<and> dispatch_gate view live = Inr ()"

definition rejection :: "string \<Rightarrow> string \<Rightarrow> run_outcome" where
  "rejection code message = Failed (fixed_failure Unknown_Category code message)"

definition preparation_rejected :: run_outcome where
  "preparation_rejected = rejection ''preparation_rejected''
     ''The managed child could not start under its admitted authority.''"

definition turn_rejected :: run_outcome where
  "turn_rejected = rejection ''turn_rejected''
     ''The managed child turn was rejected before provider execution.''"

text \<open>The causes that leave a mark on the run before the error is thrown on.\<close>

definition failure_mark :: "failure_cause \<Rightarrow> live_run \<Rightarrow> live_run" where
  "failure_mark cause live =
     (case cause of
        Refused \<Rightarrow> live
      | Opening_Rejected \<Rightarrow> live\<lparr>lr_rejected_opening := True\<rparr>
      | Configuration_Uncertain \<Rightarrow> mark_uncertain Dispatch_Uncertain live)"

definition cause_possible :: "failure_cause \<Rightarrow> prepare_stage \<Rightarrow> bool" where
  "cause_possible cause stage \<longleftrightarrow>
     (case cause of
        Refused \<Rightarrow> stage \<noteq> Pr_Turn \<and> stage \<noteq> Pr_Failed
      | Opening_Rejected \<Rightarrow> stage = Pr_Opening
      | Configuration_Uncertain \<Rightarrow> stage = Pr_Opened)"

definition preparation_recorded :: "prepare_stage \<Rightarrow> bool" where
  "preparation_recorded stage \<longleftrightarrow> stage = Pr_Recorded \<or> stage = Pr_Dispatched"

text \<open>The catch block of \<open>prepareRun\<close>.\<close>

definition fail_preparation :: "failure_cause \<Rightarrow> bool \<Rightarrow> live_run \<Rightarrow> live_run" where
  "fail_preparation cause receipt_stored live =
     (let marked = failure_mark cause live;
          journaled = (if \<not> preparation_recorded (lr_prepare live) \<and> \<not> receipt_stored
                       then mark_uncertain Storage_Failed marked else marked);
          outcome = (if lr_observed_start journaled \<or> lr_rejected_opening journaled \<or> lr_uncertain journaled \<noteq> None
                     then Recovery_Required_Outcome
                       (case lr_uncertain journaled of None \<Rightarrow> Dispatch_Uncertain | Some r \<Rightarrow> r)
                     else preparation_rejected)
      in begin_finish outcome (journaled\<lparr>lr_prepare := Pr_Failed\<rparr>))"

fun prepare_step :: "run_event \<Rightarrow> live_run \<Rightarrow> live_run option" where
  "prepare_step (Ask_Execution view) live =
     (if at_gate Pr_Start view live then Some (live\<lparr>lr_prepare := Pr_Leasing\<rparr>) else None)"
| "prepare_step Execution_Acquired live =
     (if lr_prepare live = Pr_Leasing then Some (live\<lparr>lr_prepare := Pr_Leased, lr_leased := True\<rparr>) else None)"
| "prepare_step (Ask_Resources view) live =
     (if at_gate Pr_Leased view live then Some (live\<lparr>lr_prepare := Pr_Resourcing\<rparr>) else None)"
| "prepare_step (Resources_Acquired resumable) live =
     (if lr_prepare live = Pr_Resourcing
      then Some (live\<lparr>lr_prepare := Pr_Resourced, lr_resourced := True, lr_resumable := resumable\<rparr>) else None)"
| "prepare_step (Ask_Session view) live =
     (if at_gate Pr_Resourced view live then Some (live\<lparr>lr_prepare := Pr_Opening\<rparr>) else None)"
| "prepare_step Session_Opened live =
     (if lr_prepare live = Pr_Opening then Some (live\<lparr>lr_prepare := Pr_Opened, lr_session := True\<rparr>) else None)"
| "prepare_step (Record_Preparation view) live =
     (if at_gate Pr_Opened view live then Some (live\<lparr>lr_prepare := Pr_Recorded\<rparr>) else None)"
| "prepare_step Dispatch_Turn live =
     (if lr_prepare live = Pr_Recorded
      then Some (live\<lparr>lr_prepare := Pr_Dispatched, lr_dispatched := True\<rparr>) else None)"
| "prepare_step (Start_Turn view) live =
     (if at_gate Pr_Dispatched view live
      then Some (live\<lparr>lr_prepare := Pr_Turn, lr_stream := Reading\<rparr>) else None)"
| "prepare_step (Provider_Started view) live =
     (if at_gate Pr_Turn view live \<and> lr_stream live \<noteq> No_Stream
      then Some (live\<lparr>lr_observed_start := True\<rparr>) else None)"
| "prepare_step (Prepare_Failed cause receipt_stored) live =
     (if cause_possible cause (lr_prepare live) then Some (fail_preparation cause receipt_stored live) else None)"
| "prepare_step _ live = None"

section \<open>The reader of the output (stream.ts)\<close>

definition record_start :: "live_run \<Rightarrow> live_run" where
  "record_start live = (if lr_observed_start live then live\<lparr>lr_recorded_start := True\<rparr> else live)"

definition output_summary :: "turn_output \<Rightarrow> result_summary \<Rightarrow> result_summary" where
  "output_summary out s =
     (case out of
        Out_Artifact (Some r) \<Rightarrow> if publishes s then keep_reference r s else s
      | Out_Text delta \<Rightarrow> accumulate delta s
      | _ \<Rightarrow> s)"

text \<open>\<open>request.unavailable\<close> retires a presented request, the current one or one being answered.\<close>

definition retire_presented :: "string \<Rightarrow> live_run \<Rightarrow> live_run" where
  "retire_presented rid live =
     (if rid \<notin> set (lr_presented live) then live
      else live\<lparr>lr_presented := removeAll rid (lr_presented live),
        lr_request := (case lr_request live of
            Some (current, e) \<Rightarrow> Some (current, if current = rid then Live_Retired else e)
          | None \<Rightarrow> None)\<rparr>)"

fun terminal_outcome :: "turn_end \<Rightarrow> result_summary \<Rightarrow> run_outcome" where
  "terminal_outcome Ended_Completed s = Succeeded s"
| "terminal_outcome Ended_Canceled s = Canceled Provider_Terminal"
| "terminal_outcome (Ended_Failed e) s = Failed (project_delegation_failure e)"

definition complete_turn :: "run_outcome \<Rightarrow> live_run \<Rightarrow> live_run" where
  "complete_turn outcome live =
     (let seen = live\<lparr>lr_stream_terminal := Some outcome\<rparr>
      in if lr_attempts live \<noteq> [] then begin_finish outcome (seen\<lparr>lr_terminal := Some outcome\<rparr>) else seen)"

text \<open>One turn of the loop: \<open>reduceOutput\<close> and what follows it without an await.\<close>

definition read_output :: "turn_output \<Rightarrow> live_run \<Rightarrow> live_run" where
  "read_output out live =
     (let started = record_start live;
          reduced = started\<lparr>lr_summary := output_summary out (lr_summary live)\<rparr>
      in case out of
           Out_Request rid \<Rightarrow> reduced\<lparr>lr_stream := At_Request rid\<rparr>
         | Out_Request_Unavailable rid \<Rightarrow> retire_presented rid reduced
         | Out_Completed e \<Rightarrow> complete_turn (terminal_outcome e (lr_summary reduced)) reduced
         | _ \<Rightarrow> reduced)"

definition output_parsed :: "turn_output \<Rightarrow> bool" where
  "output_parsed out \<longleftrightarrow> (case out of Out_Artifact (Some r) \<Rightarrow> result_reference_schema r | _ \<Rightarrow> True)"

text \<open>The boundary of a request: an answer on its way to the previous request is awaited first.\<close>

definition answer_awaited :: "live_run \<Rightarrow> bool" where
  "answer_awaited live \<longleftrightarrow> (case lr_request live of Some (_, Live_Claimed) \<Rightarrow> True | _ \<Rightarrow> False)"

definition route_request :: "string \<Rightarrow> live_run \<Rightarrow> live_run" where
  "route_request rid live =
     (if lr_uncertain live \<noteq> None \<or> lr_aborted live then live\<lparr>lr_stream := Reading\<rparr>
      else live\<lparr>lr_stream := Reading, lr_request := Some (rid, Live_Waiting),
        lr_presented := lr_presented live @ [rid], lr_callbacks := lr_callbacks live @ [rid]\<rparr>)"

definition end_stream :: "run_outcome \<Rightarrow> live_run \<Rightarrow> live_run" where
  "end_stream outcome live =
     begin_finish outcome (live\<lparr>lr_stream := No_Stream, lr_terminal := Some outcome\<rparr>)"

definition is_canceling :: "live_run \<Rightarrow> bool" where
  "is_canceling live \<longleftrightarrow> lr_cancel live \<noteq> No_Cancel"

definition missing_terminal :: "live_run \<Rightarrow> run_outcome" where
  "missing_terminal live = Recovery_Required_Outcome
     (if is_canceling live then Cancellation_Uncertain
      else if lr_request live \<noteq> None then Request_Executor_Lost else Dispatch_Uncertain)"

text \<open>
  The catch block of \<open>consumeTurn\<close>; \<open>abort\<close>: the error is an \<open>AbortError\<close>.  An abort after the
  terminal output, once the run is closing, keeps the terminal.
\<close>

definition uncaught_reason :: "live_run \<Rightarrow> recovery_reason" where
  "uncaught_reason live = (case lr_uncertain live of
     Some reason \<Rightarrow> reason
   | None \<Rightarrow> if is_canceling live then Cancellation_Uncertain else Dispatch_Uncertain)"

definition fail_stream :: "bool \<Rightarrow> bool \<Rightarrow> live_run \<Rightarrow> live_run" where
  "fail_stream abort receipt_stored live =
     (if lr_stream_terminal live \<noteq> None \<and> lr_finish live \<noteq> Not_Finishing \<and> lr_aborted live \<and> abort
      then end_stream (the (lr_stream_terminal live)) live
      else if lr_observed_start live
      then end_stream (Recovery_Required_Outcome (uncaught_reason live)) (mark_uncertain (uncaught_reason live) live)
      else end_stream turn_rejected (if receipt_stored then live else mark_uncertain Storage_Failed live))"

fun stream_step :: "run_event \<Rightarrow> live_run \<Rightarrow> live_run option" where
  "stream_step (Output out) live =
     (if lr_stream live = Reading \<and> output_parsed out then Some (read_output out live) else None)"
| "stream_step Route_Request live =
     (case lr_stream live of
        At_Request rid \<Rightarrow> if answer_awaited live then None else Some (route_request rid live)
      | _ \<Rightarrow> None)"
| "stream_step Stream_Ended live =
     (if lr_stream live = Reading
      then Some (end_stream (case lr_stream_terminal live of None \<Rightarrow> missing_terminal live | Some out \<Rightarrow> out) live)
      else None)"
| "stream_step (Stream_Failed abort receipt_stored) live =
     (if lr_stream live \<noteq> No_Stream then Some (fail_stream abort receipt_stored live) else None)"
| "stream_step _ live = None"

section \<open>Requests, steering and cancellation (control.ts)\<close>

definition lose_request :: "live_run \<Rightarrow> live_run" where
  "lose_request live =
     begin_finish (Recovery_Required_Outcome Request_Executor_Lost) (mark_uncertain Request_Executor_Lost live)"

definition record_reason :: "recovery_reason \<Rightarrow> live_run \<Rightarrow> live_run" where
  "record_reason reason live = live\<lparr>lr_row := (lr_row live)\<lparr>rn_recovery_reason := Some reason\<rparr>\<rparr>"

definition claimable :: "live_run \<Rightarrow> bool" where
  "claimable live \<longleftrightarrow> (case lr_request live of Some (_, Live_Waiting) \<Rightarrow> True | _ \<Rightarrow> False)
     \<and> lr_stream live \<noteq> No_Stream \<and> lr_finish live = Not_Finishing \<and> lr_prepare live = Pr_Turn
     \<and> lr_uncertain live = None \<and> \<not> is_canceling live \<and> \<not> lr_aborted live \<and> \<not> lr_steering live"

definition claim_live_request :: "string \<Rightarrow> live_run \<Rightarrow> live_run" where
  "claim_live_request operation_id live =
     (case lr_request live of
        Some (rid, _) \<Rightarrow> live\<lparr>lr_request := Some (rid, Live_Claimed), lr_attempts := (operation_id, rid) # lr_attempts live\<rparr>
      | None \<Rightarrow> live)"

text \<open>Only a pending rejection of the still current request makes it answerable again.\<close>

definition answered_eligibility :: "answer \<Rightarrow> live_run \<Rightarrow> live_eligibility" where
  "answered_eligibility ans live =
     (if ans = Answer_Rejected True \<and> \<not> lr_aborted live \<and> \<not> is_canceling live then Live_Waiting else Live_Retired)"

definition answer_request :: "string \<Rightarrow> answer \<Rightarrow> live_run \<Rightarrow> live_run" where
  "answer_request rid ans live =
     (case lr_request live of
        Some (current, e) \<Rightarrow>
          if current = rid \<and> e \<noteq> Live_Retired
          then live\<lparr>lr_request := Some (current, answered_eligibility ans live)\<rparr> else live
      | None \<Rightarrow> live)"

definition finish_uncertain :: "live_run \<Rightarrow> live_run" where
  "finish_uncertain live =
     (case lr_uncertain live of None \<Rightarrow> live
      | Some reason \<Rightarrow> begin_finish (Recovery_Required_Outcome reason) live)"

definition receive_answer :: "string \<Rightarrow> string \<Rightarrow> answer \<Rightarrow> bool \<Rightarrow> live_run \<Rightarrow> live_run" where
  "receive_answer operation_id rid ans stored live =
     (let left = live\<lparr>lr_attempts := map_del operation_id (lr_attempts live)\<rparr>;
          marked = (if ans = Answer_Uncertain then mark_uncertain Request_Executor_Lost left else left)
      in if \<not> stored
         then begin_finish (Recovery_Required_Outcome Storage_Failed) (mark_uncertain Storage_Failed marked)
         else finish_uncertain (answer_request rid ans
           (if ans = Answer_Uncertain then record_reason Request_Executor_Lost marked else marked)))"

definition steerable :: "live_run \<Rightarrow> bool" where
  "steerable live \<longleftrightarrow> lr_uncertain live = None \<and> \<not> is_canceling live \<and> lr_session live \<and> lr_dispatched live
     \<and> lr_stream live \<noteq> No_Stream \<and> lr_finish live = Not_Finishing \<and> \<not> lr_steering live"

definition end_steering :: "bool \<Rightarrow> bool \<Rightarrow> live_run \<Rightarrow> live_run" where
  "end_steering delivery_uncertain receipt_stored live =
     (let free = live\<lparr>lr_steering := False\<rparr>
      in if \<not> delivery_uncertain then free
         else let marked = mark_uncertain Steering_Uncertain free
           in if receipt_stored then record_reason Steering_Uncertain marked else marked)"

definition interrupt_live :: "bool \<Rightarrow> bool \<Rightarrow> live_run \<Rightarrow> live_run" where
  "interrupt_live supported accepted live =
     (if \<not> supported then (mark_uncertain Cancellation_Uncertain live)\<lparr>lr_aborted := True, lr_cancel := Cancel_Confirming\<rparr>
      else if accepted then live\<lparr>lr_cancel := Cancel_Confirming\<rparr>
      else (mark_uncertain Cancellation_Uncertain live)\<lparr>lr_cancel := Cancel_Confirming\<rparr>)"

definition confirm_cancel :: "live_run \<Rightarrow> live_run" where
  "confirm_cancel live =
     (let over = live\<lparr>lr_cancel := Cancel_Over\<rparr>
      in if lr_stream live = No_Stream
         then (if lr_terminal live \<noteq> None then over
               else begin_finish (Recovery_Required_Outcome Cancellation_Uncertain)
                 (mark_uncertain Cancellation_Uncertain over))
         else if lr_finish live = Not_Finishing then over\<lparr>lr_deadline := True\<rparr> else over)"

text \<open>
  \<open>cancelLive\<close> runs behind the controls before it.  The phase it decides on was read before its
  commit, so a preparing run may have been dispatched meanwhile.
\<close>

fun control_step :: "run_event \<Rightarrow> live_run \<Rightarrow> live_run option" where
  "control_step (Callback_Ended rid failed) live =
     (if rid \<in> set (lr_callbacks live)
      then (let left = live\<lparr>lr_callbacks := remove1 rid (lr_callbacks live)\<rparr>
            in Some (if failed then lose_request left else left)) else None)"
| "control_step Steer_Started live = (if steerable live then Some (live\<lparr>lr_steering := True\<rparr>) else None)"
| "control_step (Steer_Ended delivery_uncertain receipt_stored) live =
     (if lr_steering live then Some (end_steering delivery_uncertain receipt_stored live) else None)"
| "control_step (Request_Claimed operation_id) live =
     (if claimable live \<and> \<not> has_key (lr_attempts live) operation_id
      then Some (claim_live_request operation_id live) else None)"
| "control_step (Request_Answered operation_id ans stored) live =
     (case map_of (lr_attempts live) operation_id of
        None \<Rightarrow> None | Some rid \<Rightarrow> Some (receive_answer operation_id rid ans stored live))"
| "control_step Cancel_Called live =
     (if lr_cancel live = No_Cancel then Some (live\<lparr>lr_cancel := Cancel_Pending\<rparr>) else None)"
| "control_step Cancel_Dropped live =
     (if (lr_cancel live = Cancel_Pending \<and> \<not> lr_steering live) \<or> lr_cancel live = Cancel_Confirming
      then Some (live\<lparr>lr_cancel := Cancel_Over\<rparr>) else None)"
| "control_step Cancel_Preparing live =
     (if lr_cancel live = Cancel_Pending \<and> \<not> lr_steering live
      then Some (live\<lparr>lr_cancel := Cancel_Over, lr_aborted := True\<rparr>) else None)"
| "control_step (Cancel_Interrupted supported accepted) live =
     (if lr_cancel live = Cancel_Pending \<and> \<not> lr_steering live \<and> lr_session live \<and> lr_dispatched live
      then Some (interrupt_live supported accepted live) else None)"
| "control_step Cancel_Confirmed live =
     (if lr_cancel live = Cancel_Confirming then Some (confirm_cancel live) else None)"
| "control_step Interrupt_Deadline live =
     (if lr_deadline live
      then Some ((mark_uncertain Cancellation_Uncertain live)\<lparr>lr_aborted := True, lr_deadline := False\<rparr>) else None)"
| "control_step Storage_Lost live =
     (if lr_owned live
      then Some ((mark_uncertain Storage_Failed live)\<lparr>lr_aborted := True,
        lr_cancel := (if lr_cancel live = No_Cancel then Cancel_Pending else lr_cancel live)\<rparr>) else None)"
| "control_step _ live = None"

section \<open>Runs of the coordinator\<close>

definition live_step :: "run_event \<Rightarrow> live_run \<Rightarrow> live_run option" where
  "live_step ev live =
     (case prepare_step ev live of Some live' \<Rightarrow> Some live'
      | None \<Rightarrow> (case stream_step ev live of Some live' \<Rightarrow> Some live'
      | None \<Rightarrow> (case control_step ev live of Some live' \<Rightarrow> Some live'
      | None \<Rightarrow> finish_step ev live)))"

fun run_steps :: "run_event list \<Rightarrow> live_run \<Rightarrow> live_run option" where
  "run_steps [] live = Some live"
| "run_steps (ev # evs) live = (case live_step ev live of None \<Rightarrow> None | Some live' \<Rightarrow> run_steps evs live')"

lemma run_steps_append:
  "run_steps (xs @ ys) live = (case run_steps xs live of None \<Rightarrow> None | Some live' \<Rightarrow> run_steps ys live')"
  by (induction xs arbitrary: live) (auto split: option.splits)

lemma run_steps_snoc:
  "run_steps (xs @ [ev]) live = Some live' \<longleftrightarrow> (\<exists>mid. run_steps xs live = Some mid \<and> live_step ev mid = Some live')"
  by (auto simp: run_steps_append split: option.splits)

text \<open>Runs are explored from their end: what every event keeps holds in every run.\<close>

lemma run_steps_induct [consumes 1, case_names start event]:
  assumes "run_steps evs live = Some live'" and "P [] live"
    and "\<And>evs ev mid last. run_steps evs live = Some mid \<Longrightarrow> P evs mid \<Longrightarrow> live_step ev mid = Some last \<Longrightarrow>
      P (evs @ [ev]) last"
  shows "P evs live'"
  using assms(1)
proof (induction evs arbitrary: live' rule: rev_induct)
  case (snoc ev evs)
  then obtain mid where "run_steps evs live = Some mid" "live_step ev mid = Some live'"
    by (auto simp: run_steps_snoc)
  then show ?case using assms(3) snoc.IH by blast
qed (use assms(2) in simp)

end
