(* ===== verification/Run_Lifetime_Laws.thy ===== *)
theory Run_Lifetime_Laws
  imports Run_Lifetime
begin

text \<open>
  The laws of a live run: which members an event leaves alone, the invariant of the life of a run
  (\<open>life_ok\<close>), and what the state says of the events that led to it (\<open>traced\<close>).
\<close>

section \<open>What the steps leave alone\<close>

lemma begin_finish_keeps [simp]:
  "lr_prepare (begin_finish out live) = lr_prepare live" "lr_leased (begin_finish out live) = lr_leased live"
  "lr_resourced (begin_finish out live) = lr_resourced live" "lr_session (begin_finish out live) = lr_session live"
  "lr_dispatched (begin_finish out live) = lr_dispatched live" "lr_stream (begin_finish out live) = lr_stream live"
  "lr_stream_terminal (begin_finish out live) = lr_stream_terminal live"
  "lr_terminal (begin_finish out live) = lr_terminal live"
  "lr_summary (begin_finish out live) = lr_summary live" "lr_uncertain (begin_finish out live) = lr_uncertain live"
  "lr_runtime_closed (begin_finish out live) = lr_runtime_closed live"
  "lr_resource_attempts (begin_finish out live) = lr_resource_attempts live"
  "lr_resources_released (begin_finish out live) = lr_resources_released live"
  "lr_execution_attempts (begin_finish out live) = lr_execution_attempts live"
  "lr_execution_released (begin_finish out live) = lr_execution_released live"
  "lr_row (begin_finish out live) = lr_row live" "lr_settled (begin_finish out live) = lr_settled live"
  "lr_stored (begin_finish out live) = lr_stored live" "lr_owned (begin_finish out live) = lr_owned live"
  "lr_rejected_opening (begin_finish out live) = lr_rejected_opening live"
  "lr_cancel (begin_finish out live) = lr_cancel live" "lr_scope (begin_finish out live) = lr_scope live"
  "lr_ceiling (begin_finish out live) = lr_ceiling live" "lr_target (begin_finish out live) = lr_target live"
  "lr_policy_revision (begin_finish out live) = lr_policy_revision live"
  "lr_origin_policy_revision (begin_finish out live) = lr_origin_policy_revision live"
  by (simp_all add: begin_finish_def)

text \<open>Cleanup, preparation, and what the other events may change of them.\<close>

definition cleanup_view :: "live_run \<Rightarrow> bool \<times> nat \<times> bool \<times> nat \<times> bool \<times> run_outcome option \<times> run_outcome option \<times> bool" where
  "cleanup_view live = (lr_runtime_closed live, lr_resource_attempts live, lr_resources_released live,
     lr_execution_attempts live, lr_execution_released live, lr_settled live, lr_stored live, lr_owned live)"

lemma cleanup_view_update [simp]:
  "cleanup_view (live\<lparr>lr_prepare := x_prepare\<rparr>) = cleanup_view live"
  "cleanup_view (live\<lparr>lr_leased := x_leased\<rparr>) = cleanup_view live"
  "cleanup_view (live\<lparr>lr_resourced := x_resourced\<rparr>) = cleanup_view live"
  "cleanup_view (live\<lparr>lr_resumable := x_resumable\<rparr>) = cleanup_view live"
  "cleanup_view (live\<lparr>lr_session := x_session\<rparr>) = cleanup_view live"
  "cleanup_view (live\<lparr>lr_rejected_opening := x_rejected_opening\<rparr>) = cleanup_view live"
  "cleanup_view (live\<lparr>lr_dispatched := x_dispatched\<rparr>) = cleanup_view live"
  "cleanup_view (live\<lparr>lr_observed_start := x_observed_start\<rparr>) = cleanup_view live"
  "cleanup_view (live\<lparr>lr_recorded_start := x_recorded_start\<rparr>) = cleanup_view live"
  "cleanup_view (live\<lparr>lr_stream := x_stream\<rparr>) = cleanup_view live"
  "cleanup_view (live\<lparr>lr_stream_terminal := x_stream_terminal\<rparr>) = cleanup_view live"
  "cleanup_view (live\<lparr>lr_terminal := x_terminal\<rparr>) = cleanup_view live"
  "cleanup_view (live\<lparr>lr_summary := x_summary\<rparr>) = cleanup_view live"
  "cleanup_view (live\<lparr>lr_request := x_request\<rparr>) = cleanup_view live"
  "cleanup_view (live\<lparr>lr_presented := x_presented\<rparr>) = cleanup_view live"
  "cleanup_view (live\<lparr>lr_callbacks := x_callbacks\<rparr>) = cleanup_view live"
  "cleanup_view (live\<lparr>lr_attempts := x_attempts\<rparr>) = cleanup_view live"
  "cleanup_view (live\<lparr>lr_uncertain := x_uncertain\<rparr>) = cleanup_view live"
  "cleanup_view (live\<lparr>lr_aborted := x_aborted\<rparr>) = cleanup_view live"
  "cleanup_view (live\<lparr>lr_cancel := x_cancel\<rparr>) = cleanup_view live"
  "cleanup_view (live\<lparr>lr_steering := x_steering\<rparr>) = cleanup_view live"
  "cleanup_view (live\<lparr>lr_deadline := x_deadline\<rparr>) = cleanup_view live"
  "cleanup_view (live\<lparr>lr_finish := x_finish\<rparr>) = cleanup_view live"
  "cleanup_view (live\<lparr>lr_outcome := x_outcome\<rparr>) = cleanup_view live"
  "cleanup_view (live\<lparr>lr_runtime_attempts := x_runtime_attempts\<rparr>) = cleanup_view live"
  "cleanup_view (live\<lparr>lr_row := x_row\<rparr>) = cleanup_view live"
  "cleanup_view (live\<lparr>lr_continuation := x_continuation\<rparr>) = cleanup_view live"
  by (simp_all add: cleanup_view_def)

lemma cleanup_view_effects [simp]:
  "cleanup_view (begin_finish out live) = cleanup_view live"
  "cleanup_view (mark_uncertain r live) = cleanup_view live"
  "cleanup_view (record_start live) = cleanup_view live"
  "cleanup_view (retire_presented rid live) = cleanup_view live"
  "cleanup_view (route_request rid live) = cleanup_view live"
  "cleanup_view (record_reason r live) = cleanup_view live"
  "cleanup_view (interrupt_live supported accepted live) = cleanup_view live"
  by (simp_all add: begin_finish_def mark_uncertain_def record_start_def retire_presented_def route_request_def
      record_reason_def interrupt_live_def)

lemma cleanup_view_claim [simp]: "cleanup_view (claim_live_request op live) = cleanup_view live"
  by (simp add: claim_live_request_def split: option.splits prod.splits)

lemma cleanup_view_answer [simp]: "cleanup_view (answer_request rid ans live) = cleanup_view live"
  by (simp add: answer_request_def split: option.splits prod.splits)

lemma cleanup_view_uncertain [simp]: "cleanup_view (finish_uncertain live) = cleanup_view live"
  by (simp add: finish_uncertain_def split: option.splits)

lemma cleanup_view_failure [simp]: "cleanup_view (failure_mark cause live) = cleanup_view live"
  by (cases cause) (simp_all add: failure_mark_def)

lemma cleanup_view_composite [simp]:
  "cleanup_view (fail_preparation cause stored live) = cleanup_view live"
  "cleanup_view (complete_turn out live) = cleanup_view live"
  "cleanup_view (end_stream out live) = cleanup_view live"
  "cleanup_view (fail_stream abort stored live) = cleanup_view live"
  "cleanup_view (lose_request live) = cleanup_view live"
  "cleanup_view (receive_answer op rid ans stored live) = cleanup_view live"
  "cleanup_view (end_steering unc stored live) = cleanup_view live"
  "cleanup_view (confirm_cancel live) = cleanup_view live"
  by (simp_all add: fail_preparation_def complete_turn_def end_stream_def fail_stream_def lose_request_def
      receive_answer_def end_steering_def confirm_cancel_def Let_def)

lemma cleanup_view_output [simp]: "cleanup_view (read_output out live) = cleanup_view live"
  by (cases out) (simp_all add: read_output_def Let_def)

lemma prepare_cleanup: "prepare_step ev live = Some live' \<Longrightarrow> cleanup_view live' = cleanup_view live"
  by (cases ev) (auto split: if_splits)

lemma stream_cleanup: "stream_step ev live = Some live' \<Longrightarrow> cleanup_view live' = cleanup_view live"
  by (cases ev) (auto split: if_splits stream_state.splits)

lemma control_cleanup: "control_step ev live = Some live' \<Longrightarrow> cleanup_view live' = cleanup_view live"
  by (cases ev) (auto simp: Let_def split: if_splits option.splits)


section \<open>The invariant of the life of a run\<close>

definition late_stage :: "prepare_stage \<Rightarrow> bool" where
  "late_stage p \<longleftrightarrow> p = Pr_Dispatched \<or> p = Pr_Turn \<or> p = Pr_Failed"

definition prepared_ok :: "live_run \<Rightarrow> bool" where
  "prepared_ok live \<longleftrightarrow>
     (lr_stream live \<noteq> No_Stream \<longrightarrow> lr_prepare live = Pr_Turn) \<and>
     (lr_attempts live \<noteq> [] \<longrightarrow> lr_prepare live = Pr_Turn) \<and>
     (lr_callbacks live \<noteq> [] \<longrightarrow> lr_prepare live = Pr_Turn) \<and>
     (lr_cancel live = Cancel_Confirming \<longrightarrow> lr_dispatched live) \<and>
     (lr_dispatched live \<longrightarrow> late_stage (lr_prepare live)) \<and>
     (lr_prepare live = Pr_Turn \<or> lr_prepare live = Pr_Dispatched \<longrightarrow> lr_dispatched live) \<and>
     (lr_finish live \<noteq> Not_Finishing \<longrightarrow> late_stage (lr_prepare live) \<and> lr_aborted live \<and> lr_outcome live \<noteq> None)"

text \<open>
  What holds in each stage of the cleanup: of the attempts to close the runtime, of whether the
  output is drained, and of the members of \<open>cleanup_view\<close>.
\<close>

fun stage_facts :: "finish_stage \<Rightarrow> nat \<Rightarrow> bool
    \<Rightarrow> bool \<times> nat \<times> bool \<times> nat \<times> bool \<times> run_outcome option \<times> run_outcome option \<times> bool \<Rightarrow> bool" where
  "stage_facts stage n drained (closed, ra, released, ea, freed, settled, stored, owned) \<longleftrightarrow>
     n \<le> 2 \<and> ra \<le> 2 \<and> ea \<le> 2 \<and> (ra \<noteq> 0 \<longrightarrow> closed \<and> drained) \<and> (released \<longrightarrow> ra \<noteq> 0) \<and>
     (ea \<noteq> 0 \<longrightarrow> released) \<and> (freed \<longrightarrow> ea \<noteq> 0) \<and>
     (settled \<noteq> None \<longleftrightarrow> stage = Finished) \<and> (stored \<noteq> None \<longrightarrow> stage = Finished) \<and>
     (\<not> owned \<longrightarrow> stage = Finished \<and> freed \<and> stored \<noteq> None) \<and>
     (stage = Not_Finishing \<longrightarrow> n = 0 \<and> \<not> closed) \<and>
     (stage \<in> {Not_Finishing, Closing_Controls, Closing_Runtime, Draining_Output} \<longrightarrow> ra = 0) \<and>
     (stage = Draining_Output \<longrightarrow> closed) \<and>
     (stage = Releasing_Resources \<longrightarrow> closed \<and> drained \<and> \<not> released \<and> ra < 2) \<and>
     (stage = Releasing_Execution \<longrightarrow> released \<and> \<not> freed \<and> ea < 2) \<and>
     (stage = Settling True \<longrightarrow> freed) \<and> (stage = Settling False \<longrightarrow> \<not> freed)"

definition stage_ok :: "live_run \<Rightarrow> bool" where
  "stage_ok live \<longleftrightarrow>
     stage_facts (lr_finish live) (lr_runtime_attempts live) (lr_stream live = No_Stream) (cleanup_view live)"

definition life_ok :: "live_run \<Rightarrow> bool" where
  "life_ok live \<longleftrightarrow> prepared_ok live \<and> stage_ok live"

lemma new_life_ok: "life_ok (new_live_run scope ceiling run)"
  by (simp add: life_ok_def prepared_ok_def stage_ok_def cleanup_view_def new_live_run_def late_stage_def)

lemma life_ok_irrelevant [simp]:
  "life_ok (mark_uncertain r live) = life_ok live" "life_ok (record_start live) = life_ok live"
  "life_ok (retire_presented rid live) = life_ok live" "life_ok (record_reason r live) = life_ok live"
  "life_ok (live\<lparr>lr_summary := s\<rparr>) = life_ok live" "life_ok (live\<lparr>lr_steering := b\<rparr>) = life_ok live"
  "life_ok (live\<lparr>lr_deadline := b\<rparr>) = life_ok live" "life_ok (live\<lparr>lr_terminal := t\<rparr>) = life_ok live"
  "life_ok (live\<lparr>lr_stream_terminal := t\<rparr>) = life_ok live"
  "life_ok (live\<lparr>lr_rejected_opening := b\<rparr>) = life_ok live" "life_ok (live\<lparr>lr_observed_start := b\<rparr>) = life_ok live"
  by (simp_all add: life_ok_def prepared_ok_def stage_ok_def mark_uncertain_def record_start_def retire_presented_def
      record_reason_def)

lemma life_ok_answer [simp]: "life_ok (answer_request rid ans live) = life_ok live"
  by (simp add: answer_request_def life_ok_def prepared_ok_def stage_ok_def split: option.splits prod.splits)

lemma life_ok_mark [simp]: "life_ok (failure_mark cause live) = life_ok live"
  by (cases cause) (simp_all add: failure_mark_def)

lemma life_ok_aborted: "life_ok live \<Longrightarrow> life_ok (live\<lparr>lr_aborted := True\<rparr>)"
  by (simp add: life_ok_def prepared_ok_def stage_ok_def)

lemma life_ok_fewer:
  "life_ok live \<Longrightarrow> life_ok (live\<lparr>lr_attempts := map_del op (lr_attempts live)\<rparr>)"
  "life_ok live \<Longrightarrow> life_ok (live\<lparr>lr_callbacks := remove1 rid (lr_callbacks live)\<rparr>)"
  "life_ok live \<Longrightarrow> c \<noteq> Cancel_Confirming \<Longrightarrow> life_ok (live\<lparr>lr_cancel := c\<rparr>)"
  by (auto simp: life_ok_def prepared_ok_def stage_ok_def map_del_def)

lemma turn_late [simp]: "late_stage Pr_Turn" "late_stage Pr_Failed" "late_stage Pr_Dispatched"
  by (simp_all add: late_stage_def)

lemma stage_facts_begin: "stage_facts Not_Finishing n d v \<Longrightarrow> m \<le> 2 \<Longrightarrow> stage_facts Closing_Controls m d v"
  by (cases v) auto

lemma stage_facts_drained: "stage_facts st n False v \<Longrightarrow> stage_facts st n d v"
  by (cases v) auto

lemma life_ok_begin:
  assumes "life_ok live" "late_stage (lr_prepare live)"
  shows "life_ok (begin_finish out live)"
proof (cases "lr_finish live = Not_Finishing")
  case True
  then have start: "stage_facts Not_Finishing (lr_runtime_attempts live) (lr_stream live = No_Stream) (cleanup_view live)"
    using assms(1) by (simp add: life_ok_def stage_ok_def)
  have zero: "lr_runtime_attempts live = 0" using start by (cases "cleanup_view live") auto
  have "stage_facts Closing_Controls m (lr_stream live = No_Stream) (cleanup_view live)" if "m \<le> 2" for m
    by (rule stage_facts_begin [OF start that])
  then have "stage_ok (begin_finish out live)"
    using True zero by (simp add: stage_ok_def) (simp add: begin_finish_def)
  moreover have "prepared_ok (begin_finish out live)"
    using True assms by (simp add: life_ok_def prepared_ok_def begin_finish_def)
  ultimately show ?thesis by (simp add: life_ok_def)
qed (use assms in \<open>simp add: begin_finish_def\<close>)

lemma life_ok_stream:
  assumes "life_ok live" "lr_stream live \<noteq> No_Stream"
  shows "life_ok (live\<lparr>lr_stream := st\<rparr>)"
proof -
  have "stage_ok (live\<lparr>lr_stream := st\<rparr>)"
    using assms stage_facts_drained by (auto simp: life_ok_def stage_ok_def)
  moreover have "prepared_ok (live\<lparr>lr_stream := st\<rparr>)"
    using assms unfolding life_ok_def prepared_ok_def by simp
  ultimately show ?thesis by (simp add: life_ok_def)
qed

lemma life_ok_turn:
  assumes "life_ok live"
  shows "lr_stream live \<noteq> No_Stream \<Longrightarrow> lr_prepare live = Pr_Turn" "lr_attempts live \<noteq> [] \<Longrightarrow> lr_prepare live = Pr_Turn"
    "lr_callbacks live \<noteq> [] \<Longrightarrow> lr_prepare live = Pr_Turn"
    "lr_cancel live = Cancel_Confirming \<Longrightarrow> late_stage (lr_prepare live)"
  using assms by (auto simp: life_ok_def prepared_ok_def)


section \<open>The invariant is kept\<close>

lemma life_ok_end_stream: "life_ok live \<Longrightarrow> lr_stream live \<noteq> No_Stream \<Longrightarrow> life_ok (end_stream out live)"
  unfolding end_stream_def
  by (rule life_ok_begin) (use life_ok_stream [of live No_Stream] life_ok_turn(1) [of live] in simp_all)

lemma life_ok_complete: "life_ok live \<Longrightarrow> lr_prepare live = Pr_Turn \<Longrightarrow> life_ok (complete_turn out live)"
  by (simp add: complete_turn_def Let_def life_ok_begin)

lemma retire_keeps [simp]:
  "lr_prepare (retire_presented rid live) = lr_prepare live" "lr_stream (retire_presented rid live) = lr_stream live"
  "lr_summary (retire_presented rid live) = lr_summary live" "lr_row (retire_presented rid live) = lr_row live"
  by (simp_all add: retire_presented_def)

lemma record_start_keeps [simp]:
  "lr_prepare (record_start live) = lr_prepare live" "lr_stream (record_start live) = lr_stream live"
  "lr_row (record_start live) = lr_row live"
  by (simp_all add: record_start_def)

lemma mark_keeps [simp]:
  "lr_prepare (mark_uncertain r live) = lr_prepare live" "lr_stream (mark_uncertain r live) = lr_stream live"
  "lr_summary (mark_uncertain r live) = lr_summary live" "lr_row (mark_uncertain r live) = lr_row live"
  "lr_finish (mark_uncertain r live) = lr_finish live" "lr_outcome (mark_uncertain r live) = lr_outcome live"
  by (simp_all add: mark_uncertain_def)

lemma life_ok_read: "life_ok live \<Longrightarrow> lr_stream live \<noteq> No_Stream \<Longrightarrow> life_ok (read_output out live)"
  using life_ok_turn(1) [of live]
  by (cases out) (simp_all add: read_output_def Let_def life_ok_complete life_ok_stream)

lemma life_ok_callbacks: "life_ok live \<Longrightarrow> lr_prepare live = Pr_Turn \<Longrightarrow> life_ok (live\<lparr>lr_callbacks := cs\<rparr>)"
  by (simp add: life_ok_def prepared_ok_def stage_ok_def)

lemma life_ok_requests [simp]:
  "life_ok (live\<lparr>lr_request := q\<rparr>) = life_ok live" "life_ok (live\<lparr>lr_presented := ps\<rparr>) = life_ok live"
  by (simp_all add: life_ok_def prepared_ok_def stage_ok_def)

lemma life_ok_route:
  assumes "life_ok live" "lr_stream live \<noteq> No_Stream"
  shows "life_ok (route_request rid live)"
proof -
  let ?r = "live\<lparr>lr_stream := Reading\<rparr>\<lparr>lr_request := Some (rid, Live_Waiting)\<rparr>\<lparr>lr_presented := lr_presented live @ [rid]\<rparr>"
  have reading: "life_ok (live\<lparr>lr_stream := Reading\<rparr>)" by (rule life_ok_stream [OF assms])
  then have "life_ok ?r" by (simp only: life_ok_requests)
  then have "life_ok (?r\<lparr>lr_callbacks := lr_callbacks live @ [rid]\<rparr>)"
    by (rule life_ok_callbacks) (simp add: life_ok_turn(1) [OF assms])
  then show ?thesis using reading by (simp add: route_request_def)
qed

lemma stream_life: "stream_step ev live = Some live' \<Longrightarrow> life_ok live \<Longrightarrow> life_ok live'"
  by (cases ev) (auto simp: life_ok_read life_ok_route life_ok_end_stream fail_stream_def split: if_splits stream_state.splits)

lemma life_ok_lose: "life_ok live \<Longrightarrow> late_stage (lr_prepare live) \<Longrightarrow> life_ok (lose_request live)"
  by (simp add: lose_request_def life_ok_begin)

lemma life_ok_claim: "life_ok live \<Longrightarrow> lr_prepare live = Pr_Turn \<Longrightarrow> life_ok (claim_live_request op live)"
  by (auto simp: claim_live_request_def life_ok_def prepared_ok_def stage_ok_def split: option.splits)

lemma answer_keeps [simp]: "lr_prepare (answer_request rid ans live) = lr_prepare live"
  by (simp add: answer_request_def split: option.splits prod.splits)

lemma record_reason_keeps [simp]: "lr_prepare (record_reason r live) = lr_prepare live"
  by (simp add: record_reason_def)

lemma life_ok_finish_uncertain: "life_ok l \<Longrightarrow> late_stage (lr_prepare l) \<Longrightarrow> life_ok (finish_uncertain l)"
  by (simp add: finish_uncertain_def life_ok_begin split: option.splits)

lemma life_ok_receive:
  assumes "life_ok live" "lr_prepare live = Pr_Turn"
  shows "life_ok (receive_answer op rid ans stored live)"
  using life_ok_fewer(1) [OF assms(1), of op] assms(2)
  by (simp add: receive_answer_def Let_def life_ok_begin life_ok_finish_uncertain)

lemma life_ok_confirm:
  assumes "life_ok live" "lr_cancel live = Cancel_Confirming"
  shows "life_ok (confirm_cancel live)"
  using life_ok_fewer(3) [OF assms(1), of Cancel_Over] life_ok_turn(4) [OF assms]
  by (simp add: confirm_cancel_def Let_def life_ok_begin)

lemma life_ok_interrupt:
  assumes "life_ok live" "lr_dispatched live"
  shows "life_ok (interrupt_live supported accepted live)"
proof -
  have ok: "life_ok (l\<lparr>lr_cancel := Cancel_Confirming\<rparr>)" if "life_ok l" "lr_dispatched l" for l
    using that by (simp add: life_ok_def prepared_ok_def stage_ok_def)
  have "lr_dispatched (mark_uncertain r live)" for r using assms(2) by (simp add: mark_uncertain_def)
  then show ?thesis
    using assms life_ok_aborted [of "mark_uncertain Cancellation_Uncertain live"]
      ok [of live] ok [of "mark_uncertain Cancellation_Uncertain live"]
      ok [of "(mark_uncertain Cancellation_Uncertain live)\<lparr>lr_aborted := True\<rparr>"]
    by (simp add: interrupt_live_def)
qed

lemma control_life:
  assumes "control_step ev live = Some live'" "life_ok live"
  shows "life_ok live'"
proof (cases ev)
  case (Callback_Ended rid failed)
  then have "lr_callbacks live \<noteq> []" using assms(1) by (auto split: if_splits)
  then show ?thesis
    using assms Callback_Ended life_ok_fewer(2) [OF assms(2), of rid] life_ok_turn(3) [OF assms(2)]
    by (auto simp: Let_def life_ok_lose split: if_splits)
next
  case (Request_Claimed op)
  then show ?thesis using assms by (auto simp: claimable_def life_ok_claim split: if_splits)
next
  case (Request_Answered op ans stored)
  then have "lr_attempts live \<noteq> []" using assms(1) by (auto split: option.splits)
  then show ?thesis
    using assms Request_Answered life_ok_turn(2) [OF assms(2)] by (auto simp: life_ok_receive split: option.splits)
next
  case (Steer_Ended unc stored)
  then show ?thesis using assms by (auto simp: end_steering_def Let_def split: if_splits)
next
  case Cancel_Preparing
  then show ?thesis using assms life_ok_aborted [OF life_ok_fewer(3) [OF assms(2), of Cancel_Over]]
    by (auto split: if_splits)
next
  case Storage_Lost
  have "life_ok (mark_uncertain Storage_Failed live)" using assms(2) by simp
  from life_ok_aborted [OF this] show ?thesis
    using assms Storage_Lost life_ok_fewer(3) [of "(mark_uncertain Storage_Failed live)\<lparr>lr_aborted := True\<rparr>" Cancel_Pending]
    by (auto simp: mark_uncertain_def split: if_splits)
next
  case Interrupt_Deadline
  have "life_ok (mark_uncertain Cancellation_Uncertain live)" using assms(2) by simp
  from life_ok_aborted [OF this] show ?thesis
    using assms Interrupt_Deadline by (auto split: if_splits)
qed (use assms life_ok_fewer(3) [OF assms(2)] life_ok_confirm [OF assms(2)] life_ok_interrupt [OF assms(2)]
    in \<open>auto split: if_splits\<close>)


lemma gate_open:
  assumes "at_gate p view live"
  shows "lr_prepare live = p" "\<not> lr_aborted live"
  using assms by (auto simp: at_gate_def dispatch_gate_def assert_run_dispatch_iff)

text \<open>A stage of the preparation: nothing is being finished while it can still advance.\<close>

lemma early_not_finishing:
  assumes "life_ok live" "\<not> late_stage (lr_prepare live)"
  shows "lr_finish live = Not_Finishing" "\<not> lr_dispatched live" "lr_stream live = No_Stream"
    "lr_attempts live = []" "lr_callbacks live = []" "lr_cancel live \<noteq> Cancel_Confirming"
  using assms by (auto simp: life_ok_def prepared_ok_def)

lemma gate_not_finishing:
  assumes "life_ok live" "at_gate p view live"
  shows "lr_finish live = Not_Finishing"
  using assms(1) gate_open [OF assms(2)] by (auto simp: life_ok_def prepared_ok_def)

lemma life_ok_advance:
  assumes "life_ok live" "\<not> late_stage (lr_prepare live)" "p \<noteq> Pr_Turn" "p \<noteq> Pr_Dispatched"
  shows "life_ok (live\<lparr>lr_prepare := p\<rparr>)"
  using assms(1,3,4) early_not_finishing [OF assms(1,2)]
  by (simp add: life_ok_def prepared_ok_def stage_ok_def)

lemma life_ok_acquired [simp]:
  "life_ok (live\<lparr>lr_leased := b\<rparr>) = life_ok live" "life_ok (live\<lparr>lr_resourced := b\<rparr>) = life_ok live"
  "life_ok (live\<lparr>lr_resumable := b\<rparr>) = life_ok live" "life_ok (live\<lparr>lr_session := b\<rparr>) = life_ok live"
  by (simp_all add: life_ok_def prepared_ok_def stage_ok_def)

lemma failure_mark_keeps [simp]:
  "lr_prepare (failure_mark cause live) = lr_prepare live" "lr_stream (failure_mark cause live) = lr_stream live"
  "lr_finish (failure_mark cause live) = lr_finish live" "lr_dispatched (failure_mark cause live) = lr_dispatched live"
  "lr_attempts (failure_mark cause live) = lr_attempts live" "lr_callbacks (failure_mark cause live) = lr_callbacks live"
  "lr_cancel (failure_mark cause live) = lr_cancel live" "lr_summary (failure_mark cause live) = lr_summary live"
  "lr_row (failure_mark cause live) = lr_row live"
  by (cases cause; simp add: failure_mark_def mark_uncertain_def)+

lemma life_ok_failed:
  assumes "life_ok live" "lr_prepare live \<noteq> Pr_Turn"
  shows "life_ok (live\<lparr>lr_prepare := Pr_Failed\<rparr>)"
  using assms by (auto simp: life_ok_def prepared_ok_def stage_ok_def)

lemma life_ok_fail_preparation:
  assumes "life_ok live" "cause_possible cause (lr_prepare live)"
  shows "life_ok (fail_preparation cause stored live)"
proof -
  have turn: "lr_prepare live \<noteq> Pr_Turn" using assms(2) by (cases cause) (auto simp: cause_possible_def)
  have "life_ok ((failure_mark cause live)\<lparr>lr_prepare := Pr_Failed\<rparr>)"
    "life_ok ((mark_uncertain Storage_Failed (failure_mark cause live))\<lparr>lr_prepare := Pr_Failed\<rparr>)"
    using assms(1) turn by (simp_all add: life_ok_failed)
  then show ?thesis by (simp add: fail_preparation_def Let_def life_ok_begin)
qed

lemma stage_facts_start: "stage_facts Not_Finishing n d v \<Longrightarrow> stage_facts Not_Finishing n d' v"
  by (cases v) auto

lemma life_ok_start_turn:
  assumes "life_ok live" "at_gate Pr_Dispatched view live"
  shows "life_ok (live\<lparr>lr_prepare := Pr_Turn, lr_stream := Reading\<rparr>)"
proof -
  have stage: "lr_prepare live = Pr_Dispatched" "lr_finish live = Not_Finishing"
    using gate_open(1) [OF assms(2)] gate_not_finishing [OF assms] by simp_all
  have "stage_facts Not_Finishing (lr_runtime_attempts live) (lr_stream live = No_Stream) (cleanup_view live)"
    using assms(1) stage(2) by (simp add: life_ok_def stage_ok_def)
  from stage_facts_start [OF this] stage assms(1) show ?thesis
    by (simp add: life_ok_def prepared_ok_def stage_ok_def)
qed

lemma life_ok_dispatch:
  assumes "life_ok live" "lr_prepare live = Pr_Recorded"
  shows "life_ok (live\<lparr>lr_prepare := Pr_Dispatched, lr_dispatched := True\<rparr>)"
  using assms by (auto simp: life_ok_def prepared_ok_def stage_ok_def late_stage_def)

lemma life_ok_acquire:
  assumes "life_ok live" "\<not> late_stage (lr_prepare live)" "p \<noteq> Pr_Turn" "p \<noteq> Pr_Dispatched"
  shows "life_ok (live\<lparr>lr_prepare := p, lr_leased := b\<rparr>)" "life_ok (live\<lparr>lr_prepare := p, lr_session := b\<rparr>)"
    "life_ok (live\<lparr>lr_prepare := p, lr_resourced := b, lr_resumable := c\<rparr>)"
  using life_ok_advance [OF assms] by simp_all

lemma prepare_life:
  assumes "prepare_step ev live = Some live'" "life_ok live"
  shows "life_ok live'"
  using assms
  by (cases ev) (auto simp: life_ok_start_turn life_ok_dispatch life_ok_fail_preparation late_stage_def
      intro!: life_ok_acquire life_ok_advance split: if_splits dest: gate_open(1))

section \<open>The cleanup keeps it\<close>

lemma prepared_ok_cleanup:
  assumes "prepared_ok live" "lr_finish live \<noteq> Not_Finishing" "lr_finish live' \<noteq> Not_Finishing"
    "lr_stream live' = lr_stream live" "lr_prepare live' = lr_prepare live" "lr_attempts live' = lr_attempts live"
    "lr_callbacks live' = lr_callbacks live" "lr_cancel live' = lr_cancel live" "lr_dispatched live' = lr_dispatched live"
    "lr_aborted live' = lr_aborted live" "lr_outcome live' = lr_outcome live"
  shows "prepared_ok live'"
  using assms by (simp add: prepared_ok_def)

lemma finish_frame:
  assumes "finish_step ev live = Some live'"
  shows "lr_finish live \<noteq> Not_Finishing" "lr_finish live' \<noteq> Not_Finishing"
    "lr_stream live' = lr_stream live" "lr_prepare live' = lr_prepare live" "lr_attempts live' = lr_attempts live"
    "lr_callbacks live' = lr_callbacks live" "lr_cancel live' = lr_cancel live" "lr_dispatched live' = lr_dispatched live"
    "lr_aborted live' = lr_aborted live" "lr_outcome live' = lr_outcome live" "lr_summary live' = lr_summary live"
    "lr_row live' = lr_row live" "lr_uncertain live' = lr_uncertain live"
    "lr_leased live' = lr_leased live" "lr_resourced live' = lr_resourced live" "lr_session live' = lr_session live"
    "lr_stream_terminal live' = lr_stream_terminal live"
    "lr_rejected_opening live' = lr_rejected_opening live"
  using assms by (cases ev; auto simp: settle_live_def Let_def split: if_splits finish_stage.splits option.splits)+

lemma stage_moves:
  "stage_facts Closing_Controls n d (c, ra, r, ea, f, se, so, w) \<Longrightarrow>
     stage_facts Closing_Runtime n d (c, ra, r, ea, f, se, so, w)"
  "stage_facts Closing_Runtime n d (c, ra, r, ea, f, se, so, w) \<Longrightarrow>
     stage_facts (if c then Draining_Output else Settling False) n d (c, ra, r, ea, f, se, so, w)"
  "stage_facts Draining_Output n True (c, ra, r, ea, f, se, so, w) \<Longrightarrow>
     stage_facts Releasing_Resources n True (c, ra, r, ea, f, se, so, w)"
  by auto

lemma stage_close:
  "stage_facts st n d (c, ra, r, ea, f, se, so, w) \<Longrightarrow> st = Closing_Controls \<or> st = Closing_Runtime \<Longrightarrow> n < 2 \<Longrightarrow>
     stage_facts st (Suc n) d (ok, ra, r, ea, f, se, so, w)"
  by auto

lemma stage_release:
  "stage_facts Releasing_Resources n d (c, ra, r, ea, f, se, so, w) \<Longrightarrow>
     stage_facts (if ok then Releasing_Execution else if Suc ra < 2 then Releasing_Resources else Settling False)
       n d (c, Suc ra, ok, ea, f, se, so, w)"
  "stage_facts Releasing_Execution n d (c, ra, r, ea, f, se, so, w) \<Longrightarrow>
     stage_facts (if ok then Settling True else if Suc ea < 2 then Releasing_Execution else Settling False)
       n d (c, ra, r, Suc ea, ok, se, so, w)"
  by auto

lemma stage_settle:
  assumes "stage_facts (Settling closed) n d (c, ra, r, ea, f, se, so, w)"
  shows "stage_facts Finished n d (c, ra, r, ea, f, Some final, so, w)"
    "stage_facts Finished n d (c, ra, r, ea, f, Some final, Some kept, w)"
    "closed \<Longrightarrow> stage_facts Finished n d (c, ra, r, ea, f, Some final, Some kept, False)"
  using assms by auto

lemma finish_stage_ok:
  assumes "finish_step ev live = Some live'" "stage_ok live"
  shows "stage_ok live'"
proof -
  note facts = assms(2) [unfolded stage_ok_def cleanup_view_def]
  show ?thesis
  proof (cases ev)
    case Controls_Settled
    then have at: "lr_finish live = Closing_Controls" using assms(1) by (simp split: if_splits)
    from Controls_Settled show ?thesis using assms(1) stage_moves(1) [OF facts [unfolded at]]
      by (auto simp add: stage_ok_def cleanup_view_def simp del: stage_facts.simps split: if_splits)
  next
    case (Close_Runtime ok)
    then show ?thesis using assms(1) stage_close [OF facts, where ok = ok]
      by (auto simp add: stage_ok_def cleanup_view_def simp del: stage_facts.simps split: if_splits)
  next
    case Runtime_Settled
    then have at: "lr_finish live = Closing_Runtime" using assms(1) by (simp split: if_splits)
    from Runtime_Settled show ?thesis using assms(1) stage_moves(2) [OF facts [unfolded at]] at
      by (auto simp add: stage_ok_def cleanup_view_def simp del: stage_facts.simps split: if_splits)
  next
    case Output_Drained
    then have "lr_finish live = Draining_Output" "lr_stream live = No_Stream"
      using assms(1) by (simp_all split: if_splits)
    with Output_Drained show ?thesis using assms(1) stage_moves(3) [of "lr_runtime_attempts live"] facts
      by (auto simp add: stage_ok_def cleanup_view_def simp del: stage_facts.simps split: if_splits)
  next
    case (Release_Resources ok)
    then have at: "lr_finish live = Releasing_Resources" using assms(1) by (simp split: if_splits)
    from Release_Resources show ?thesis
      using assms(1) stage_release(1) [OF facts [unfolded at], of ok] at
      by (auto simp add: stage_ok_def cleanup_view_def simp del: stage_facts.simps split: if_splits)
  next
    case (Release_Execution ok)
    then have at: "lr_finish live = Releasing_Execution" using assms(1) by (simp split: if_splits)
    from Release_Execution show ?thesis
      using assms(1) stage_release(2) [OF facts [unfolded at], of ok] at
      by (auto simp add: stage_ok_def cleanup_view_def simp del: stage_facts.simps split: if_splits)
  next
    case (Settle_Run stored)
    then obtain closed outcome where at: "lr_finish live = Settling closed" "live' = settle_live closed stored outcome live"
      using assms(1) by (auto split: finish_stage.splits option.splits)
    note settle = stage_settle [OF facts [unfolded at(1)]]
    show ?thesis
      unfolding at(2) stage_ok_def cleanup_view_def settle_live_def Let_def
      using settle by (simp del: stage_facts.simps)
  qed (use assms(1) in simp_all)
qed

lemma finish_life:
  assumes "finish_step ev live = Some live'" "life_ok live"
  shows "life_ok live'"
  using finish_stage_ok [OF assms(1)] prepared_ok_cleanup [OF _ finish_frame(1-10) [OF assms(1)]] assms(2)
  by (simp add: life_ok_def)

lemma run_step_life: "live_step ev live = Some live' \<Longrightarrow> life_ok live \<Longrightarrow> life_ok live'"
  by (auto simp: live_step_def split: option.splits intro: prepare_life stream_life control_life finish_life)

lemma run_life: "run_steps evs (new_live_run scope ceiling run) = Some live \<Longrightarrow> life_ok live"
  by (induction rule: run_steps_induct) (auto intro: new_life_ok run_step_life)


section \<open>What an event outside the cleanup does to it\<close>

fun is_cleanup :: "run_event \<Rightarrow> bool" where
  "is_cleanup Controls_Settled \<longleftrightarrow> True"
| "is_cleanup (Close_Runtime ok) \<longleftrightarrow> True"
| "is_cleanup Runtime_Settled \<longleftrightarrow> True"
| "is_cleanup Output_Drained \<longleftrightarrow> True"
| "is_cleanup (Release_Resources ok) \<longleftrightarrow> True"
| "is_cleanup (Release_Execution ok) \<longleftrightarrow> True"
| "is_cleanup (Settle_Run stored) \<longleftrightarrow> True"
| "is_cleanup _ \<longleftrightarrow> False"

fun is_stream_end :: "run_event \<Rightarrow> bool" where
  "is_stream_end Stream_Ended \<longleftrightarrow> True"
| "is_stream_end (Stream_Failed abort stored) \<longleftrightarrow> True"
| "is_stream_end _ \<longleftrightarrow> False"

text \<open>The cleanup has moved at most from not begun to its first stage.\<close>

definition forward :: "live_run \<Rightarrow> live_run \<Rightarrow> bool" where
  "forward live live' \<longleftrightarrow> (lr_finish live' = Not_Finishing \<longrightarrow> lr_finish live = Not_Finishing) \<and>
     lr_runtime_attempts live \<le> lr_runtime_attempts live'"

lemma forward_refl [simp]: "forward live live"
  by (simp add: forward_def)

lemma forward_update [simp]:
  "forward a (live\<lparr>lr_prepare := x_prepare\<rparr>) = forward a live"
  "forward a (live\<lparr>lr_leased := x_leased\<rparr>) = forward a live"
  "forward a (live\<lparr>lr_resourced := x_resourced\<rparr>) = forward a live"
  "forward a (live\<lparr>lr_resumable := x_resumable\<rparr>) = forward a live"
  "forward a (live\<lparr>lr_session := x_session\<rparr>) = forward a live"
  "forward a (live\<lparr>lr_rejected_opening := x_rejected_opening\<rparr>) = forward a live"
  "forward a (live\<lparr>lr_dispatched := x_dispatched\<rparr>) = forward a live"
  "forward a (live\<lparr>lr_observed_start := x_observed_start\<rparr>) = forward a live"
  "forward a (live\<lparr>lr_recorded_start := x_recorded_start\<rparr>) = forward a live"
  "forward a (live\<lparr>lr_stream := x_stream\<rparr>) = forward a live"
  "forward a (live\<lparr>lr_stream_terminal := x_stream_terminal\<rparr>) = forward a live"
  "forward a (live\<lparr>lr_terminal := x_terminal\<rparr>) = forward a live"
  "forward a (live\<lparr>lr_summary := x_summary\<rparr>) = forward a live"
  "forward a (live\<lparr>lr_request := x_request\<rparr>) = forward a live"
  "forward a (live\<lparr>lr_presented := x_presented\<rparr>) = forward a live"
  "forward a (live\<lparr>lr_callbacks := x_callbacks\<rparr>) = forward a live"
  "forward a (live\<lparr>lr_attempts := x_attempts\<rparr>) = forward a live"
  "forward a (live\<lparr>lr_uncertain := x_uncertain\<rparr>) = forward a live"
  "forward a (live\<lparr>lr_aborted := x_aborted\<rparr>) = forward a live"
  "forward a (live\<lparr>lr_cancel := x_cancel\<rparr>) = forward a live"
  "forward a (live\<lparr>lr_steering := x_steering\<rparr>) = forward a live"
  "forward a (live\<lparr>lr_deadline := x_deadline\<rparr>) = forward a live"
  "forward a (live\<lparr>lr_outcome := x_outcome\<rparr>) = forward a live"
  "forward a (live\<lparr>lr_row := x_row\<rparr>) = forward a live"
  "forward a (live\<lparr>lr_continuation := x_continuation\<rparr>) = forward a live"
  by (simp_all add: forward_def)

lemma forward_begin [simp]: "forward a live \<Longrightarrow> forward a (begin_finish out live)"
  by (simp add: forward_def begin_finish_def)

lemma forward_effects [simp]:
  "forward a (mark_uncertain r live) = forward a live" "forward a (record_start live) = forward a live"
  "forward a (retire_presented rid live) = forward a live" "forward a (route_request rid live) = forward a live"
  "forward a (record_reason r live) = forward a live"
  "forward a (interrupt_live supported accepted live) = forward a live"
  by (simp_all add: mark_uncertain_def record_start_def retire_presented_def route_request_def
      record_reason_def interrupt_live_def)

lemma forward_claim [simp]: "forward a (claim_live_request op live) = forward a live"
  by (simp add: claim_live_request_def split: option.splits prod.splits)

lemma forward_answer [simp]: "forward a (answer_request rid ans live) = forward a live"
  by (simp add: answer_request_def split: option.splits prod.splits)

lemma forward_uncertain [simp]: "forward a live \<Longrightarrow> forward a (finish_uncertain live)"
  by (simp add: finish_uncertain_def split: option.splits)

lemma forward_failure [simp]: "forward a (failure_mark cause live) = forward a live"
  by (cases cause) (simp_all add: failure_mark_def)

lemma forward_composite [simp]:
  "forward a live \<Longrightarrow> forward a (fail_preparation cause stored live)"
  "forward a live \<Longrightarrow> forward a (complete_turn out live)"
  "forward a live \<Longrightarrow> forward a (end_stream out live)"
  "forward a live \<Longrightarrow> forward a (fail_stream abort stored live)"
  "forward a live \<Longrightarrow> forward a (lose_request live)"
  "forward a live \<Longrightarrow> forward a (receive_answer op rid ans stored live)"
  "forward a live \<Longrightarrow> forward a (end_steering unc stored live)"
  "forward a live \<Longrightarrow> forward a (confirm_cancel live)"
  by (simp_all add: fail_preparation_def complete_turn_def end_stream_def fail_stream_def lose_request_def
      receive_answer_def end_steering_def confirm_cancel_def Let_def)

lemma forward_read [simp]: "forward a live \<Longrightarrow> forward a (read_output out live)"
  by (cases out) (simp_all add: read_output_def Let_def)

definition outside_cleanup :: "run_event \<Rightarrow> live_run \<Rightarrow> live_run \<Rightarrow> bool" where
  "outside_cleanup ev live live' \<longleftrightarrow>
     prepare_step ev live = Some live' \<or> stream_step ev live = Some live' \<or> control_step ev live = Some live'"

lemma outside_forward: "outside_cleanup ev live live' \<Longrightarrow> forward live live'"
  unfolding outside_cleanup_def
  by (cases ev) (auto simp: Let_def split: if_splits option.splits stream_state.splits)

lemma outside_view: "outside_cleanup ev live live' \<Longrightarrow> cleanup_view live' = cleanup_view live"
  unfolding outside_cleanup_def using prepare_cleanup stream_cleanup control_cleanup by metis

lemma outside_no_cleanup: "outside_cleanup ev live live' \<Longrightarrow> \<not> is_cleanup ev"
  by (cases ev) (auto simp: outside_cleanup_def)

lemma run_step_cases:
  assumes "live_step ev live = Some live'"
  obtains "outside_cleanup ev live live'" | "finish_step ev live = Some live'"
  using assms by (auto simp: live_step_def outside_cleanup_def split: option.splits)

section \<open>The stream, the summary and the retained reason\<close>

lemma claim_keeps [simp]:
  "lr_stream (claim_live_request op live) = lr_stream live" "lr_summary (claim_live_request op live) = lr_summary live"
  "lr_row (claim_live_request op live) = lr_row live" "lr_stream_terminal (claim_live_request op live) = lr_stream_terminal live"
  "lr_outcome (claim_live_request op live) = lr_outcome live"
  by (simp_all add: claim_live_request_def split: option.splits prod.splits)

lemma answer_request_keeps [simp]:
  "lr_stream (answer_request rid ans live) = lr_stream live" "lr_summary (answer_request rid ans live) = lr_summary live"
  "lr_row (answer_request rid ans live) = lr_row live"
  "lr_stream_terminal (answer_request rid ans live) = lr_stream_terminal live"
  "lr_outcome (answer_request rid ans live) = lr_outcome live"
  by (simp_all add: answer_request_def split: option.splits prod.splits)

lemma finish_uncertain_keeps [simp]:
  "lr_stream (finish_uncertain live) = lr_stream live" "lr_summary (finish_uncertain live) = lr_summary live"
  "lr_row (finish_uncertain live) = lr_row live" "lr_stream_terminal (finish_uncertain live) = lr_stream_terminal live"
  by (simp_all add: finish_uncertain_def split: option.splits)

lemma receive_keeps [simp]:
  "lr_stream (receive_answer op rid ans stored live) = lr_stream live"
  "lr_summary (receive_answer op rid ans stored live) = lr_summary live"
  "lr_stream_terminal (receive_answer op rid ans stored live) = lr_stream_terminal live"
  by (simp_all add: receive_answer_def Let_def mark_uncertain_def record_reason_def)

lemma control_keeps:
  assumes "control_step ev live = Some live'"
  shows "lr_stream live' = lr_stream live" "lr_summary live' = lr_summary live"
    "lr_stream_terminal live' = lr_stream_terminal live"
  using assms
  by (cases ev; auto simp: Let_def lose_request_def mark_uncertain_def end_steering_def record_reason_def
      interrupt_live_def confirm_cancel_def split: if_splits option.splits)+

lemma prepare_keeps:
  assumes "prepare_step ev live = Some live'"
  shows "lr_stream live' \<noteq> lr_stream live \<Longrightarrow> lr_stream live' = Reading" "lr_summary live' = lr_summary live"
    "lr_stream_terminal live' = lr_stream_terminal live" "lr_row live' = lr_row live"
  using assms
  by (cases ev; auto simp: fail_preparation_def Let_def failure_mark_def mark_uncertain_def
      split: if_splits failure_cause.splits)+


lemma complete_keeps [simp]:
  "lr_stream (complete_turn out live) = lr_stream live" "lr_summary (complete_turn out live) = lr_summary live"
  "lr_row (complete_turn out live) = lr_row live"
  by (simp_all add: complete_turn_def Let_def)

lemma end_stream_keeps [simp]:
  "lr_summary (end_stream out live) = lr_summary live" "lr_row (end_stream out live) = lr_row live"
  "lr_stream_terminal (end_stream out live) = lr_stream_terminal live"
  by (simp_all add: end_stream_def)

lemma read_keeps [simp]:
  "lr_summary (read_output out live) = output_summary out (lr_summary live)" "lr_row (read_output out live) = lr_row live"
  "lr_stream live \<noteq> No_Stream \<Longrightarrow> lr_stream (read_output out live) \<noteq> No_Stream"
  by (cases out; simp add: read_output_def Let_def)+

lemma route_keeps [simp]:
  "lr_summary (route_request rid live) = lr_summary live" "lr_row (route_request rid live) = lr_row live"
  "lr_stream (route_request rid live) = Reading" "lr_stream_terminal (route_request rid live) = lr_stream_terminal live"
  "lr_outcome (route_request rid live) = lr_outcome live"
  by (simp_all add: route_request_def)

lemma fail_stream_keeps [simp]:
  "lr_summary (fail_stream abort stored live) = lr_summary live" "lr_row (fail_stream abort stored live) = lr_row live"
  "lr_stream_terminal (fail_stream abort stored live) = lr_stream_terminal live"
  by (simp_all add: fail_stream_def mark_uncertain_def)

definition event_summary :: "run_event \<Rightarrow> result_summary \<Rightarrow> result_summary" where
  "event_summary ev s = (case ev of Output out \<Rightarrow> output_summary out s | _ \<Rightarrow> s)"

lemma stream_keeps:
  assumes "stream_step ev live = Some live'"
  shows "lr_summary live' = event_summary ev (lr_summary live)" "lr_row live' = lr_row live"
    "lr_stream live \<noteq> No_Stream" "lr_stream live' = No_Stream \<Longrightarrow> is_stream_end ev"
  using assms by (cases ev; auto simp: event_summary_def split: if_splits stream_state.splits)+

lemma no_output:
  "prepare_step ev live = Some live' \<Longrightarrow> event_summary ev s = s"
  "control_step ev live = Some live' \<Longrightarrow> event_summary ev s = s"
  "finish_step ev live = Some live' \<Longrightarrow> event_summary ev s = s"
  by (cases ev; simp add: event_summary_def)+

lemma step_summary:
  assumes "live_step ev live = Some live'"
  shows "lr_summary live' = event_summary ev (lr_summary live)"
  using assms
  by (cases rule: run_step_cases)
    (auto simp: outside_cleanup_def stream_keeps(1) prepare_keeps(2) control_keeps(2) finish_frame(11) no_output)

section \<open>Outcomes\<close>

text \<open>What holds of every outcome that the coordinator forms itself and of every terminal output.\<close>

definition outcomes_good :: "(run_outcome \<Rightarrow> bool) \<Rightarrow> live_run \<Rightarrow> bool" where
  "outcomes_good good live \<longleftrightarrow> (\<forall>out. lr_stream_terminal live = Some out \<longrightarrow> good out) \<and>
     (\<forall>out. lr_outcome live = Some out \<longrightarrow> good out)"

definition own_outcomes_good :: "(run_outcome \<Rightarrow> bool) \<Rightarrow> bool" where
  "own_outcomes_good good \<longleftrightarrow> (\<forall>r. good (Recovery_Required_Outcome r)) \<and> good preparation_rejected \<and> good turn_rejected"

lemma good_begin: "outcomes_good good live \<Longrightarrow> good out \<Longrightarrow> outcomes_good good (begin_finish out live)"
  by (simp add: outcomes_good_def begin_finish_def)

lemma good_same: "lr_stream_terminal live' = lr_stream_terminal live \<Longrightarrow> lr_outcome live' = lr_outcome live \<Longrightarrow>
    outcomes_good good live' = outcomes_good good live"
  by (simp add: outcomes_good_def)

lemma good_irrelevant [simp]:
  "outcomes_good good (mark_uncertain r live) = outcomes_good good live"
  "outcomes_good good (record_start live) = outcomes_good good live"
  "outcomes_good good (retire_presented rid live) = outcomes_good good live"
  "outcomes_good good (route_request rid live) = outcomes_good good live"
  "outcomes_good good (record_reason r live) = outcomes_good good live"
  "outcomes_good good (interrupt_live supported accepted live) = outcomes_good good live"
  "outcomes_good good (claim_live_request op live) = outcomes_good good live"
  "outcomes_good good (answer_request rid ans live) = outcomes_good good live"
  "outcomes_good good (failure_mark cause live) = outcomes_good good live"
  "outcomes_good good (live\<lparr>lr_prepare := p\<rparr>) = outcomes_good good live"
  "outcomes_good good (live\<lparr>lr_leased := b1\<rparr>) = outcomes_good good live"
  "outcomes_good good (live\<lparr>lr_resourced := b2\<rparr>) = outcomes_good good live"
  "outcomes_good good (live\<lparr>lr_resumable := b3\<rparr>) = outcomes_good good live"
  "outcomes_good good (live\<lparr>lr_session := b4\<rparr>) = outcomes_good good live"
  "outcomes_good good (live\<lparr>lr_dispatched := b5\<rparr>) = outcomes_good good live"
  "outcomes_good good (live\<lparr>lr_observed_start := b6\<rparr>) = outcomes_good good live"
  "outcomes_good good (live\<lparr>lr_stream := st\<rparr>) = outcomes_good good live"
  "outcomes_good good (live\<lparr>lr_terminal := t\<rparr>) = outcomes_good good live"
  "outcomes_good good (live\<lparr>lr_summary := s\<rparr>) = outcomes_good good live"
  "outcomes_good good (live\<lparr>lr_attempts := a\<rparr>) = outcomes_good good live"
  "outcomes_good good (live\<lparr>lr_callbacks := cs\<rparr>) = outcomes_good good live"
  "outcomes_good good (live\<lparr>lr_cancel := c\<rparr>) = outcomes_good good live"
  "outcomes_good good (live\<lparr>lr_steering := b\<rparr>) = outcomes_good good live"
  "outcomes_good good (live\<lparr>lr_deadline := b\<rparr>) = outcomes_good good live"
  "outcomes_good good (live\<lparr>lr_aborted := b'\<rparr>) = outcomes_good good live"
  by (rule good_same; cases cause; simp add: mark_uncertain_def record_start_def retire_presented_def route_request_def
      record_reason_def interrupt_live_def failure_mark_def)+

lemma good_finish_uncertain:
  "own_outcomes_good good \<Longrightarrow> outcomes_good good live \<Longrightarrow> outcomes_good good (finish_uncertain live)"
  by (simp add: finish_uncertain_def good_begin own_outcomes_good_def split: option.splits)

lemma good_composite:
  assumes "own_outcomes_good good" "outcomes_good good live"
  shows "outcomes_good good (fail_preparation cause stored live)"
    "outcomes_good good (lose_request live)" "outcomes_good good (end_steering unc kept live)"
    "outcomes_good good (confirm_cancel live)" "outcomes_good good (receive_answer op rid ans stored live)"
  using assms
  by (simp_all add: fail_preparation_def lose_request_def end_steering_def confirm_cancel_def receive_answer_def
      Let_def good_begin good_finish_uncertain own_outcomes_good_def)

lemma good_end_stream: "good out \<Longrightarrow> outcomes_good good live \<Longrightarrow> outcomes_good good (end_stream out live)"
  by (simp add: end_stream_def good_begin)

lemma good_terminal: "outcomes_good good live \<Longrightarrow> lr_stream_terminal live = Some out \<Longrightarrow> good out"
  by (simp add: outcomes_good_def)

lemma good_fail_stream:
  assumes "own_outcomes_good good" "outcomes_good good live"
  shows "outcomes_good good (fail_stream abort stored live)"
proof -
  have "good (the (lr_stream_terminal live))" if "lr_stream_terminal live \<noteq> None"
    using good_terminal [OF assms(2)] that by auto
  then show ?thesis
    using assms by (simp add: fail_stream_def good_end_stream own_outcomes_good_def)
qed

lemma good_end:
  assumes "own_outcomes_good good" "outcomes_good good live"
  shows "outcomes_good good (end_stream
    (case lr_stream_terminal live of None \<Rightarrow> missing_terminal live | Some out \<Rightarrow> out) live)"
  using assms good_terminal [OF assms(2)]
  by (intro good_end_stream) (auto simp: missing_terminal_def own_outcomes_good_def split: option.splits)

lemma good_complete: "good out \<Longrightarrow> outcomes_good good live \<Longrightarrow> outcomes_good good (complete_turn out live)"
  by (auto simp: complete_turn_def Let_def outcomes_good_def begin_finish_def)

lemma good_read:
  assumes "outcomes_good good live" "\<And>e s. out = Out_Completed e \<Longrightarrow> good (terminal_outcome e s)"
  shows "outcomes_good good (read_output out live)"
  using assms by (cases out) (simp_all add: read_output_def Let_def good_complete)

lemma step_good:
  assumes "live_step ev live = Some live'" "own_outcomes_good good" "outcomes_good good live"
    "\<And>e s. ev = Output (Out_Completed e) \<Longrightarrow> good (terminal_outcome e s)"
  shows "outcomes_good good live'"
proof -
  have control: "outcomes_good good live'" if "control_step ev live = Some live'"
    using that assms(2,3) by (cases ev) (auto simp: Let_def good_composite split: if_splits option.splits)
  have prepare: "outcomes_good good live'" if "prepare_step ev live = Some live'"
    using that assms(2,3) by (cases ev) (auto simp: good_composite split: if_splits)
  have stream: "outcomes_good good live'" if "stream_step ev live = Some live'"
    using that assms(2-4)
    by (cases ev) (auto simp: good_read good_fail_stream good_end split: if_splits stream_state.splits)
  have finish: "outcomes_good good live'" if "finish_step ev live = Some live'"
    using finish_frame(10,17) [OF that] assms(3) by (simp add: outcomes_good_def)
  show ?thesis using assms(1) control prepare stream finish by (auto simp: live_step_def split: option.splits)
qed


section \<open>What the state says of the events\<close>

definition count_events :: "(run_event \<Rightarrow> bool) \<Rightarrow> run_event list \<Rightarrow> nat" where
  "count_events p evs = length (filter p evs)"

lemma count_events_simps [simp]:
  "count_events p [] = 0" "count_events p (evs @ [ev]) = count_events p evs + (if p ev then 1 else 0)"
  by (simp_all add: count_events_def)

definition is_close :: "run_event \<Rightarrow> bool" where
  "is_close ev \<longleftrightarrow> (case ev of Close_Runtime _ \<Rightarrow> True | _ \<Rightarrow> False)"

definition is_release_resources :: "run_event \<Rightarrow> bool" where
  "is_release_resources ev \<longleftrightarrow> (case ev of Release_Resources _ \<Rightarrow> True | _ \<Rightarrow> False)"

definition is_release_execution :: "run_event \<Rightarrow> bool" where
  "is_release_execution ev \<longleftrightarrow> (case ev of Release_Execution _ \<Rightarrow> True | _ \<Rightarrow> False)"

definition is_settle :: "run_event \<Rightarrow> bool" where
  "is_settle ev \<longleftrightarrow> (case ev of Settle_Run _ \<Rightarrow> True | _ \<Rightarrow> False)"

lemmas event_kinds = is_close_def is_release_resources_def is_release_execution_def is_settle_def

lemma cleanup_kinds:
  "\<not> is_cleanup ev \<Longrightarrow> \<not> is_close ev \<and> \<not> is_release_resources ev \<and> \<not> is_release_execution ev \<and> \<not> is_settle ev"
  by (cases ev) (simp_all add: event_kinds)

text \<open>An uncertain delivery whose receipt the store retains.\<close>

definition retains_uncertainty :: "run_event \<Rightarrow> bool" where
  "retains_uncertainty ev \<longleftrightarrow> (case ev of
     Steer_Ended unc stored \<Rightarrow> unc \<and> stored
   | Request_Answered _ ans stored \<Rightarrow> ans = Answer_Uncertain \<and> stored
   | _ \<Rightarrow> False)"

definition traced_cleanup :: "run_event list \<Rightarrow> live_run \<Rightarrow> bool" where
  "traced_cleanup evs live \<longleftrightarrow>
     (lr_runtime_closed live \<longrightarrow> Close_Runtime True \<in> set evs) \<and>
     (lr_resources_released live \<longrightarrow> Release_Resources True \<in> set evs) \<and>
     (lr_execution_released live \<longrightarrow> Release_Execution True \<in> set evs) \<and>
     (lr_finish live = Not_Finishing \<longrightarrow> (\<forall>ev \<in> set evs. \<not> is_cleanup ev)) \<and>
     count_events is_close evs \<le> lr_runtime_attempts live \<and>
     count_events is_release_resources evs = lr_resource_attempts live \<and>
     count_events is_release_execution evs = lr_execution_attempts live \<and>
     count_events is_settle evs = (if lr_settled live = None then 0 else 1)"

lemma traced_outside:
  assumes "outside_cleanup ev live live'" "traced_cleanup evs live"
  shows "traced_cleanup (evs @ [ev]) live'"
  using assms(2) outside_view [OF assms(1)] outside_forward [OF assms(1)] outside_no_cleanup [OF assms(1)]
    cleanup_kinds [OF outside_no_cleanup [OF assms(1)]]
  by (auto simp: traced_cleanup_def cleanup_view_def forward_def)

lemma traced_finish:
  assumes "finish_step ev live = Some live'" "traced_cleanup evs live" "stage_ok live"
  shows "traced_cleanup (evs @ [ev]) live'"
proof -
  note t = assms(2) [unfolded traced_cleanup_def]
  have busy: "lr_finish live \<noteq> Not_Finishing" "lr_finish live' \<noteq> Not_Finishing" using finish_frame(1,2) [OF assms(1)] .
  show ?thesis
  proof (cases ev)
    case (Close_Runtime ok)
    then have "live' = live\<lparr>lr_runtime_attempts := lr_runtime_attempts live + 1, lr_runtime_closed := ok\<rparr>"
      using assms(1) by (auto split: if_splits)
    then show ?thesis using t busy Close_Runtime by (simp add: traced_cleanup_def event_kinds)
  next
    case (Release_Resources ok)
    then obtain next_stage where "live' = live\<lparr>lr_resource_attempts := lr_resource_attempts live + 1,
        lr_resources_released := ok, lr_finish := next_stage\<rparr>"
      using assms(1) by (auto split: if_splits)
    then show ?thesis using t busy Release_Resources by (simp add: traced_cleanup_def event_kinds)
  next
    case (Release_Execution ok)
    then obtain next_stage where "live' = live\<lparr>lr_execution_attempts := lr_execution_attempts live + 1,
        lr_execution_released := ok, lr_finish := next_stage\<rparr>"
      using assms(1) by (auto split: if_splits)
    then show ?thesis using t busy Release_Execution by (simp add: traced_cleanup_def event_kinds)
  next
    case (Settle_Run stored)
    then obtain closed outcome where at: "lr_finish live = Settling closed" "live' = settle_live closed stored outcome live"
      using assms(1) by (auto split: finish_stage.splits option.splits)
    have "lr_settled live = None"
      using assms(3) at(1) by (simp add: stage_ok_def cleanup_view_def)
    then show ?thesis
      using t busy Settle_Run unfolding at(2) by (simp add: traced_cleanup_def settle_live_def Let_def event_kinds)
  next
    case Controls_Settled
    then have "live' = live\<lparr>lr_finish := Closing_Runtime\<rparr>" using assms(1) by (auto split: if_splits)
    then show ?thesis using t busy Controls_Settled by (simp add: traced_cleanup_def event_kinds)
  next
    case Runtime_Settled
    then obtain next_stage where "live' = live\<lparr>lr_finish := next_stage\<rparr>" using assms(1) by (auto split: if_splits)
    then show ?thesis using t busy Runtime_Settled by (simp add: traced_cleanup_def event_kinds)
  next
    case Output_Drained
    then have "live' = live\<lparr>lr_finish := Releasing_Resources\<rparr>" using assms(1) by (auto split: if_splits)
    then show ?thesis using t busy Output_Drained by (simp add: traced_cleanup_def event_kinds)
  qed (use assms(1) in simp_all)
qed

lemma run_traced_cleanup:
  "run_steps evs (new_live_run scope ceiling run) = Some live \<Longrightarrow> traced_cleanup evs live"
proof (induction rule: run_steps_induct)
  case (event evs ev mid live)
  then show ?case
    using run_life [OF event(1)] by (auto elim!: run_step_cases simp: life_ok_def intro: traced_outside traced_finish)
qed (simp add: traced_cleanup_def new_live_run_def)

definition traced_stream :: "run_event list \<Rightarrow> live_run \<Rightarrow> bool" where
  "traced_stream evs live \<longleftrightarrow>
     (lr_stream live = No_Stream \<longrightarrow> (\<exists>view. Start_Turn view \<in> set evs) \<longrightarrow> (\<exists>ev \<in> set evs. is_stream_end ev)) \<and>
     (lr_stream live \<noteq> No_Stream \<longrightarrow> (\<exists>view. Start_Turn view \<in> set evs))"

lemma prepare_stream:
  assumes "prepare_step ev live = Some live'"
  shows "lr_stream live' = (if \<exists>view. ev = Start_Turn view then Reading else lr_stream live)"
  using assms by (cases ev) (auto simp: fail_preparation_def Let_def split: if_splits)

lemma no_start:
  "stream_step ev live = Some live' \<Longrightarrow> ev \<noteq> Start_Turn view"
  "control_step ev live = Some live' \<Longrightarrow> ev \<noteq> Start_Turn view"
  "finish_step ev live = Some live' \<Longrightarrow> ev \<noteq> Start_Turn view"
  by auto

lemma step_stream:
  assumes "live_step ev live = Some live'"
  shows "lr_stream live' = No_Stream \<Longrightarrow> is_stream_end ev \<or> (lr_stream live = No_Stream \<and> (\<nexists>view. ev = Start_Turn view))"
    "lr_stream live' \<noteq> No_Stream \<Longrightarrow> lr_stream live \<noteq> No_Stream \<or> (\<exists>view. ev = Start_Turn view)"
  using assms
  by (cases rule: run_step_cases;
      auto simp: outside_cleanup_def prepare_stream control_keeps(1) finish_frame(3)
        dest: stream_keeps(3,4) no_start split: if_splits)+

lemma run_traced_stream:
  "run_steps evs (new_live_run scope ceiling run) = Some live \<Longrightarrow> traced_stream evs live"
proof (induction rule: run_steps_induct)
  case (event evs ev mid live)
  then show ?case
    using step_stream [OF event(2)] by (auto simp: traced_stream_def)
qed (simp add: traced_stream_def new_live_run_def)

text \<open>An output is read of an open stream only, and the stream is opened by the turn.\<close>

definition output_started :: "run_event list \<Rightarrow> bool" where
  "output_started evs \<longleftrightarrow> ((\<exists>out. Output out \<in> set evs) \<longrightarrow> (\<exists>view. Start_Turn view \<in> set evs))"

lemma output_reads:
  assumes "live_step (Output out) live = Some live'"
  shows "lr_stream live = Reading"
  using assms by (auto simp: live_step_def split: option.splits if_splits)

lemma run_output_traced:
  "run_steps evs (new_live_run scope ceiling run) = Some live \<Longrightarrow> output_started evs"
proof (induction rule: run_steps_induct)
  case (event evs ev mid live)
  have "\<exists>view. Start_Turn view \<in> set evs" if "ev = Output out" for out
    using output_reads [of out mid live] event(2) that run_traced_stream [OF event(1)]
    by (auto simp: traced_stream_def)
  then show ?case using event(3) by (auto simp: output_started_def)
qed (simp add: output_started_def)

lemma run_output_started:
  assumes "run_steps evs (new_live_run scope ceiling run) = Some live" "Output out \<in> set evs"
  shows "\<exists>view. Start_Turn view \<in> set evs"
  using run_output_traced [OF assms(1)] assms(2) by (auto simp: output_started_def)

lemma run_summary:
  "run_steps evs (new_live_run scope ceiling run) = Some live \<Longrightarrow> lr_summary live = fold event_summary evs empty_summary"
  by (induction rule: run_steps_induct) (auto simp: step_summary new_live_run_def)

lemma receive_row:
  "lr_row (receive_answer op rid ans stored live) =
     (if ans = Answer_Uncertain \<and> stored then (lr_row live)\<lparr>rn_recovery_reason := Some Request_Executor_Lost\<rparr>
      else lr_row live)"
  by (simp add: receive_answer_def Let_def record_reason_def)

lemma end_steering_row:
  "lr_row (end_steering unc stored live) =
     (if unc \<and> stored then (lr_row live)\<lparr>rn_recovery_reason := Some Steering_Uncertain\<rparr> else lr_row live)"
  by (simp add: end_steering_def Let_def record_reason_def mark_uncertain_def)

lemma control_row:
  assumes "control_step ev live = Some live'"
  shows "(rn_recovery_reason (lr_row live) \<noteq> None \<or> retains_uncertainty ev) \<longrightarrow> rn_recovery_reason (lr_row live') \<noteq> None"
  using assms
  by (cases ev) (auto simp: receive_row end_steering_row retains_uncertainty_def Let_def lose_request_def
      interrupt_live_def confirm_cancel_def split: if_splits option.splits)

lemma no_retained:
  "prepare_step ev live = Some live' \<Longrightarrow> \<not> retains_uncertainty ev"
  "stream_step ev live = Some live' \<Longrightarrow> \<not> retains_uncertainty ev"
  "finish_step ev live = Some live' \<Longrightarrow> \<not> retains_uncertainty ev"
  by (cases ev; simp add: retains_uncertainty_def)+

lemma step_row:
  assumes "live_step ev live = Some live'" "rn_recovery_reason (lr_row live) \<noteq> None \<or> retains_uncertainty ev"
  shows "rn_recovery_reason (lr_row live') \<noteq> None"
  using assms(1)
proof (cases rule: run_step_cases)
  case 1
  then show ?thesis
    using assms(2) control_row [of ev live live'] no_retained(1,2)
    by (auto simp: outside_cleanup_def prepare_keeps(4) stream_keeps(2))
next
  case 2
  then show ?thesis using assms(2) finish_frame(12) [OF 2] no_retained(3) by auto
qed

lemma run_row:
  "run_steps evs (new_live_run scope ceiling run) = Some live \<Longrightarrow>
     (\<exists>ev \<in> set evs. retains_uncertainty ev) \<longrightarrow> rn_recovery_reason (lr_row live) \<noteq> None"
proof (induction rule: run_steps_induct)
  case (event evs ev mid live)
  then show ?case using step_row [OF event(2)] by auto
qed simp

lemma run_outcomes_good:
  assumes "own_outcomes_good good"
  shows "run_steps evs (new_live_run scope ceiling run) = Some live \<Longrightarrow>
    (\<forall>e s. Output (Out_Completed e) \<in> set evs \<longrightarrow> good (terminal_outcome e s)) \<longrightarrow> outcomes_good good live"
proof (induction rule: run_steps_induct)
  case (event evs ev mid live)
  then show ?case using step_good [OF event(2) assms] by auto
qed (simp add: outcomes_good_def new_live_run_def)

section \<open>The admitted authority and the order of the preparation\<close>

text \<open>What a run was admitted for never changes, and only the preparation moves its own stage.\<close>

definition admitted_view :: "live_run \<Rightarrow> parent_scope \<times> policy_ceiling \<times> target_reference \<times> int \<times> int" where
  "admitted_view live = (lr_scope live, lr_ceiling live, lr_target live, lr_policy_revision live,
     lr_origin_policy_revision live)"

definition origin_view ::
    "live_run \<Rightarrow> prepare_stage \<times> parent_scope \<times> policy_ceiling \<times> target_reference \<times> int \<times> int" where
  "origin_view live = (lr_prepare live, admitted_view live)"

lemma admitted_view_update:
  "admitted_view (live\<lparr>lr_prepare := x_prepare\<rparr>) = admitted_view live"
  "admitted_view (live\<lparr>lr_leased := x_leased\<rparr>) = admitted_view live"
  "admitted_view (live\<lparr>lr_resourced := x_resourced\<rparr>) = admitted_view live"
  "admitted_view (live\<lparr>lr_resumable := x_resumable\<rparr>) = admitted_view live"
  "admitted_view (live\<lparr>lr_session := x_session\<rparr>) = admitted_view live"
  "admitted_view (live\<lparr>lr_dispatched := x_dispatched\<rparr>) = admitted_view live"
  "admitted_view (live\<lparr>lr_observed_start := x_observed\<rparr>) = admitted_view live"
  "admitted_view (live\<lparr>lr_stream := x_stream\<rparr>) = admitted_view live"
  by (simp_all add: admitted_view_def)

lemma origin_view_update [simp]:
  "origin_view (live\<lparr>lr_observed_start := x_observed_start\<rparr>) = origin_view live"
  "origin_view (live\<lparr>lr_stream := x_stream\<rparr>) = origin_view live"
  "origin_view (live\<lparr>lr_stream_terminal := x_stream_terminal\<rparr>) = origin_view live"
  "origin_view (live\<lparr>lr_terminal := x_terminal\<rparr>) = origin_view live"
  "origin_view (live\<lparr>lr_summary := x_summary\<rparr>) = origin_view live"
  "origin_view (live\<lparr>lr_callbacks := x_callbacks\<rparr>) = origin_view live"
  "origin_view (live\<lparr>lr_attempts := x_attempts\<rparr>) = origin_view live"
  "origin_view (live\<lparr>lr_aborted := x_aborted\<rparr>) = origin_view live"
  "origin_view (live\<lparr>lr_cancel := x_cancel\<rparr>) = origin_view live"
  "origin_view (live\<lparr>lr_steering := x_steering\<rparr>) = origin_view live"
  "origin_view (live\<lparr>lr_deadline := x_deadline\<rparr>) = origin_view live"
  by (simp_all add: origin_view_def admitted_view_def)

lemma origin_view_effects [simp]:
  "origin_view (begin_finish out live) = origin_view live" "origin_view (mark_uncertain r live) = origin_view live"
  "origin_view (record_start live) = origin_view live" "origin_view (retire_presented rid live) = origin_view live"
  "origin_view (route_request rid live) = origin_view live" "origin_view (record_reason r live) = origin_view live"
  "origin_view (interrupt_live supported accepted live) = origin_view live"
  by (simp_all add: origin_view_def admitted_view_def begin_finish_def mark_uncertain_def record_start_def
      retire_presented_def route_request_def record_reason_def interrupt_live_def)

lemma origin_view_answer [simp]:
  "origin_view (claim_live_request op live) = origin_view live" "origin_view (answer_request rid ans live) = origin_view live"
  "origin_view (finish_uncertain live) = origin_view live"
  by (simp_all add: origin_view_def admitted_view_def claim_live_request_def answer_request_def finish_uncertain_def
      begin_finish_def split: option.splits prod.splits)

lemma origin_view_composite [simp]:
  "origin_view (complete_turn out live) = origin_view live" "origin_view (end_stream out live) = origin_view live"
  "origin_view (fail_stream abort stored live) = origin_view live" "origin_view (lose_request live) = origin_view live"
  "origin_view (receive_answer op rid ans stored live) = origin_view live"
  "origin_view (end_steering unc stored live) = origin_view live"
  "origin_view (confirm_cancel live) = origin_view live"
  by (simp_all add: complete_turn_def end_stream_def fail_stream_def lose_request_def
      receive_answer_def end_steering_def confirm_cancel_def Let_def)

lemma origin_view_read [simp]: "origin_view (read_output out live) = origin_view live"
  by (cases out) (simp_all add: read_output_def Let_def)

lemma stream_origin: "stream_step ev live = Some live' \<Longrightarrow> origin_view live' = origin_view live"
  by (cases ev) (auto split: if_splits stream_state.splits)

lemma control_origin: "control_step ev live = Some live' \<Longrightarrow> origin_view live' = origin_view live"
  by (cases ev) (auto simp: Let_def split: if_splits option.splits)

lemma finish_origin: "finish_step ev live = Some live' \<Longrightarrow> origin_view live' = origin_view live"
  by (cases ev) (auto simp: settle_live_def Let_def origin_view_def admitted_view_def
      split: if_splits finish_stage.splits option.splits)

text \<open>The stage that an event of the preparation reaches, and the stages before each stage.\<close>

fun stage_reached :: "run_event \<Rightarrow> prepare_stage option" where
  "stage_reached (Ask_Execution view) = Some Pr_Leasing"
| "stage_reached Execution_Acquired = Some Pr_Leased"
| "stage_reached (Ask_Resources view) = Some Pr_Resourcing"
| "stage_reached (Resources_Acquired resumable) = Some Pr_Resourced"
| "stage_reached (Ask_Session view) = Some Pr_Opening"
| "stage_reached Session_Opened = Some Pr_Opened"
| "stage_reached (Record_Preparation view) = Some Pr_Recorded"
| "stage_reached Dispatch_Turn = Some Pr_Dispatched"
| "stage_reached (Start_Turn view) = Some Pr_Turn"
| "stage_reached (Prepare_Failed cause stored) = Some Pr_Failed"
| "stage_reached _ = None"

fun preparation_to :: "prepare_stage \<Rightarrow> prepare_stage list" where
  "preparation_to Pr_Start = []"
| "preparation_to Pr_Leasing = [Pr_Leasing]"
| "preparation_to Pr_Leased = [Pr_Leasing, Pr_Leased]"
| "preparation_to Pr_Resourcing = [Pr_Leasing, Pr_Leased, Pr_Resourcing]"
| "preparation_to Pr_Resourced = [Pr_Leasing, Pr_Leased, Pr_Resourcing, Pr_Resourced]"
| "preparation_to Pr_Opening = [Pr_Leasing, Pr_Leased, Pr_Resourcing, Pr_Resourced, Pr_Opening]"
| "preparation_to Pr_Opened = [Pr_Leasing, Pr_Leased, Pr_Resourcing, Pr_Resourced, Pr_Opening, Pr_Opened]"
| "preparation_to Pr_Recorded =
     [Pr_Leasing, Pr_Leased, Pr_Resourcing, Pr_Resourced, Pr_Opening, Pr_Opened, Pr_Recorded]"
| "preparation_to Pr_Dispatched =
     [Pr_Leasing, Pr_Leased, Pr_Resourcing, Pr_Resourced, Pr_Opening, Pr_Opened, Pr_Recorded, Pr_Dispatched]"
| "preparation_to Pr_Turn =
     [Pr_Leasing, Pr_Leased, Pr_Resourcing, Pr_Resourced, Pr_Opening, Pr_Opened, Pr_Recorded, Pr_Dispatched, Pr_Turn]"
| "preparation_to Pr_Failed = [Pr_Failed]"

definition stages_seen :: "run_event list \<Rightarrow> prepare_stage list" where
  "stages_seen evs = concat (map (\<lambda>ev. case stage_reached ev of None \<Rightarrow> [] | Some p \<Rightarrow> [p]) evs)"

lemma stages_seen_simps [simp]:
  "stages_seen [] = []"
  "stages_seen (evs @ [ev]) = stages_seen evs @ (case stage_reached ev of None \<Rightarrow> [] | Some p \<Rightarrow> [p])"
  by (simp_all add: stages_seen_def)

definition traced_prepare :: "run_event list \<Rightarrow> live_run \<Rightarrow> bool" where
  "traced_prepare evs live \<longleftrightarrow>
     (if lr_prepare live = Pr_Failed
      then \<exists>p. p \<noteq> Pr_Turn \<and> p \<noteq> Pr_Failed \<and> stages_seen evs = preparation_to p @ [Pr_Failed]
      else stages_seen evs = preparation_to (lr_prepare live))"

lemma no_stage:
  "stream_step ev live = Some live' \<Longrightarrow> stage_reached ev = None"
  "control_step ev live = Some live' \<Longrightarrow> stage_reached ev = None"
  "finish_step ev live = Some live' \<Longrightarrow> stage_reached ev = None"
  by (cases ev; simp)+

lemma prepare_stage_step:
  assumes "prepare_step ev live = Some live'"
  shows "lr_prepare live' = (case stage_reached ev of None \<Rightarrow> lr_prepare live | Some p \<Rightarrow> p)"
    "\<forall>p. stage_reached ev = Some p \<longrightarrow> lr_prepare live \<noteq> Pr_Failed \<and>
      (if p = Pr_Failed then lr_prepare live \<noteq> Pr_Turn
       else preparation_to p = preparation_to (lr_prepare live) @ [p])"
    "admitted_view live' = admitted_view live"
proof -
  show "lr_prepare live' = (case stage_reached ev of None \<Rightarrow> lr_prepare live | Some p \<Rightarrow> p)"
    using assms by (cases ev) (auto simp: fail_preparation_def Let_def split: if_splits)
  show "\<forall>p. stage_reached ev = Some p \<longrightarrow> lr_prepare live \<noteq> Pr_Failed \<and>
      (if p = Pr_Failed then lr_prepare live \<noteq> Pr_Turn
       else preparation_to p = preparation_to (lr_prepare live) @ [p])"
    using assms
    by (cases ev) (auto simp: cause_possible_def split: if_splits failure_cause.splits dest: gate_open(1))
  have failed: "admitted_view (fail_preparation cause stored live) = admitted_view live" for cause stored
    by (cases cause) (simp_all add: fail_preparation_def Let_def admitted_view_def begin_finish_def
        failure_mark_def mark_uncertain_def)
  show "admitted_view live' = admitted_view live"
    using assms by (cases ev) (auto simp: failed admitted_view_update split: if_splits)
qed

lemma step_prepare:
  assumes "live_step ev live = Some live'" "traced_prepare evs live"
  shows "traced_prepare (evs @ [ev]) live'"
proof -
  have same: "traced_prepare (evs @ [ev]) live'" if "origin_view live' = origin_view live" "stage_reached ev = None"
    using that assms(2) by (simp add: traced_prepare_def origin_view_def)
  have moved: "traced_prepare (evs @ [ev]) live'" if "prepare_step ev live = Some live'"
    using prepare_stage_step(1,2) [OF that] assms(2)
    by (cases "stage_reached ev") (auto simp: traced_prepare_def split: if_splits)
  show ?thesis
    using assms(1) moved same stream_origin control_origin finish_origin no_stage
    by (elim run_step_cases) (auto simp: outside_cleanup_def)
qed

lemma run_traced_prepare:
  "run_steps evs (new_live_run scope ceiling run) = Some live \<Longrightarrow> traced_prepare evs live"
proof (induction rule: run_steps_induct)
  case (event evs ev mid live)
  then show ?case using step_prepare by blast
qed (simp add: traced_prepare_def new_live_run_def)

lemma step_admitted:
  assumes "live_step ev live = Some live'"
  shows "admitted_view live' = admitted_view live"
  using assms
proof (cases rule: run_step_cases)
  case 1
  then show ?thesis
    using prepare_stage_step(3) stream_origin control_origin unfolding outside_cleanup_def origin_view_def by blast
next
  case 2
  then show ?thesis using finish_origin unfolding origin_view_def by blast
qed

lemma run_admitted:
  "run_steps evs live = Some live' \<Longrightarrow> admitted_view live' = admitted_view live"
  by (induction rule: run_steps_induct) (simp_all add: step_admitted)

end
