(* ===== verification/Run_Properties.thy ===== *)
theory Run_Properties
  imports Run_Lifetime_Laws
begin

text \<open>
  The properties of managed runs: what a success stands for, the order and the end of the cleanup,
  that the settled outcome is admitted by the store, who may start a turn, and what an admission
  stores.
\<close>

section \<open>Outcomes\<close>

lemma final_success:
  assumes "final_outcome closed uncertain summary outcome = Succeeded s"
  shows "closed" "s = summary" "\<exists>s'. outcome = Succeeded s'" "uncertain = None \<or> uncertain = Some Cancellation_Uncertain"
  using assms by (auto simp: final_outcome_def Let_def split: run_outcome.splits option.splits if_splits)

lemma settled_from:
  assumes "live_step (Settle_Run stored) mid = Some live"
  obtains closed outcome where "lr_finish mid = Settling closed" "lr_outcome mid = Some outcome"
    "live = settle_live closed stored outcome mid"
  using assms by (auto simp: live_step_def split: option.splits finish_stage.splits)

lemma settled_values:
  "lr_settled (settle_live closed stored outcome mid) =
     Some (final_outcome closed (lr_uncertain mid) (lr_summary mid) outcome)"
  "lr_stored (settle_live closed True outcome mid) =
     Some (settled_outcome (lr_row mid) (final_outcome closed (lr_uncertain mid) (lr_summary mid) outcome))"
  by (simp_all add: settle_live_def Let_def)

definition ended_well :: "run_event list \<Rightarrow> run_outcome \<Rightarrow> bool" where
  "ended_well evs out \<longleftrightarrow> ((\<exists>s. out = Succeeded s) \<longrightarrow> Output (Out_Completed Ended_Completed) \<in> set evs)"

lemma own_ended_well: "own_outcomes_good (ended_well evs)"
  by (simp add: own_outcomes_good_def ended_well_def preparation_rejected_def turn_rejected_def rejection_def)

lemma run_ended_well:
  assumes "run_steps evs (new_live_run scope ceiling run) = Some live"
  shows "outcomes_good (ended_well evs) live"
proof -
  have "ended_well evs (terminal_outcome e s)" if "Output (Out_Completed e) \<in> set evs" for e s
    using that by (cases e) (auto simp: ended_well_def)
  then show ?thesis using run_outcomes_good [OF own_ended_well assms] by blast
qed

lemma settling_closed:
  assumes "life_ok live" "lr_finish live = Settling True"
  shows "lr_runtime_closed live" "lr_resources_released live" "lr_execution_released live" "lr_stream live = No_Stream"
  using assms by (auto simp: life_ok_def stage_ok_def cleanup_view_def)

section \<open>A sample run\<close>

definition sample_run_catalog :: target_catalog where
  "sample_run_catalog = \<lparr>ct_catalog_id = ''catalog'', ct_revision = 1,
     ct_targets = [(sample_catalog_target ''target'' (Certified Standard_Mode) [])\<lparr>dt_reference := sample_target\<rparr>]\<rparr>"

definition sample_run_policy :: policy_input where
  "sample_run_policy = \<lparr>pi_revision = 1, pi_developer = Some (None, Some []),
     pi_user = Some (User_Enabled (Some (Explicit_Targets
       [\<lparr>id_catalog_id = ''catalog'', id_target_id = ''target''\<rparr>])))\<rparr>"

definition sample_host :: delegation_host where
  "sample_host = \<lparr>dh_externals = sample_externals,
     dh_current_policy = (\<lambda>scope. Inr \<lparr>hp_scope = scope, hp_catalog = sample_run_catalog, hp_policy = sample_run_policy\<rparr>),
     dh_result_access = (\<lambda>scope task. Inr ()), dh_parent_delivery = True\<rparr>"

definition sample_coordinator :: coordinator where
  "sample_coordinator = \<lparr>co_owner = sample_owner, co_closing = False, co_draining = False, co_failed = False,
     co_released = False, co_live = []\<rparr>"

definition sample_view :: gate_view where
  "sample_view = \<lparr>gv_host = sample_host, gv_coordinator = sample_coordinator, gv_lease = Inr ()\<rparr>"

definition sample_live :: live_run where
  "sample_live = new_live_run sample_parent sample_ceiling sample_run"

definition sample_preparation :: "run_event list" where
  "sample_preparation = [Ask_Execution sample_view, Execution_Acquired, Ask_Resources sample_view,
     Resources_Acquired True, Ask_Session sample_view, Session_Opened, Record_Preparation sample_view, Dispatch_Turn]"

definition sample_turn :: "run_event list" where
  "sample_turn = sample_preparation @ [Start_Turn sample_view, Provider_Started sample_view, Output (Out_Text ''done''),
     Output (Out_Completed Ended_Completed), Stream_Ended]"

definition sample_cleanup :: "run_event list" where
  "sample_cleanup = [Controls_Settled, Close_Runtime True, Runtime_Settled, Output_Drained, Release_Resources False,
     Release_Resources True, Release_Execution True]"

lemma sample_stored:
  "(case run_steps (sample_turn @ sample_cleanup) sample_live of None \<Rightarrow> None
    | Some mid \<Rightarrow> map_option lr_stored (live_step (Settle_Run True) mid)) =
   Some (Some (Succeeded \<lparr>rs_text = ''done'', rs_truncated = False, rs_references = []\<rparr>))"
  by code_simp

section \<open>A success is definite\<close>

text \<open>
  C10. A run is stored as succeeded only after the provider completed a turn that was started, its
  stream ended, the runtime was closed, the resources and the execution were released, and no
  delivery of steering or of an answer was retained as uncertain.  The stored result is the fold of
  the outputs of the stream.
\<close>

theorem success_is_definite:
  assumes "run_steps evs (new_live_run scope ceiling run) = Some mid" "live_step (Settle_Run True) mid = Some live"
    "lr_stored live = Some (Succeeded s)"
  shows "Output (Out_Completed Ended_Completed) \<in> set evs \<and> s = fold event_summary evs empty_summary \<and>
    (\<exists>view. Start_Turn view \<in> set evs) \<and> (\<exists>ev \<in> set evs. is_stream_end ev) \<and>
    Close_Runtime True \<in> set evs \<and> Release_Resources True \<in> set evs \<and> Release_Execution True \<in> set evs \<and>
    (\<forall>ev \<in> set evs. \<not> retains_uncertainty ev) \<and> lr_uncertain mid \<in> {None, Some Cancellation_Uncertain} \<and>
    count_events is_settle evs = 0"
proof -
  obtain closed outcome where at: "lr_finish mid = Settling closed" "lr_outcome mid = Some outcome"
    "live = settle_live closed True outcome mid" by (rule settled_from [OF assms(2)])
  have row: "rn_recovery_reason (lr_row mid) = None"
    and final: "final_outcome closed (lr_uncertain mid) (lr_summary mid) outcome = Succeeded s"
    using assms(3) by (auto simp: at(3) settled_values settled_outcome_def split: option.splits)
  note success = final_success [OF final]
  have life: "life_ok mid" by (rule run_life [OF assms(1)])
  have closing: "lr_runtime_closed mid" "lr_resources_released mid" "lr_execution_released mid" "lr_stream mid = No_Stream"
    using settling_closed [OF life] at(1) success(1) by simp_all
  have completed: "Output (Out_Completed Ended_Completed) \<in> set evs"
    using run_ended_well [OF assms(1)] at(2) success(3) by (auto simp: outcomes_good_def ended_well_def)
  have "\<exists>view. Start_Turn view \<in> set evs" by (rule run_output_started [OF assms(1) completed])
  moreover have "traced_cleanup evs mid" "traced_stream evs mid"
    using run_traced_cleanup [OF assms(1)] run_traced_stream [OF assms(1)] .
  moreover have "lr_settled mid = None" using life at(1) by (simp add: life_ok_def stage_ok_def cleanup_view_def)
  ultimately show ?thesis
    using closing completed success(2,4) run_summary [OF assms(1)] run_row [OF assms(1)] row
    by (auto simp: traced_cleanup_def traced_stream_def)
qed

lemma success_is_definite_witness:
  "fold event_summary (sample_turn @ sample_cleanup) empty_summary =
     \<lparr>rs_text = ''done'', rs_truncated = False, rs_references = []\<rparr>"
proof -
  obtain mid live where steps: "run_steps (sample_turn @ sample_cleanup) sample_live = Some mid"
      "live_step (Settle_Run True) mid = Some live"
    and stored: "lr_stored live = Some (Succeeded \<lparr>rs_text = ''done'', rs_truncated = False, rs_references = []\<rparr>)"
    using sample_stored by (auto split: option.splits)
  from success_is_definite [OF steps(1) [unfolded sample_live_def] steps(2) stored] show ?thesis by simp
qed

text \<open>
  The condition on retained uncertainties is needed: an uncertain steering whose receipt was not
  stored is overwritten by an interruption that is not accepted, and the run settles as succeeded.
\<close>

definition hidden_uncertainty :: "run_event list" where
  "hidden_uncertainty = sample_preparation @ [Start_Turn sample_view, Provider_Started sample_view, Steer_Started,
     Steer_Ended True False, Cancel_Called, Cancel_Interrupted True False, Cancel_Confirmed,
     Output (Out_Completed Ended_Completed), Stream_Ended] @ sample_cleanup @ [Settle_Run True]"

lemma later_reason_hides_uncertainty:
  "map_option lr_stored (run_steps hidden_uncertainty sample_live) = Some (Some (Succeeded empty_summary))"
  by code_simp

section \<open>The order of preparation and cleanup\<close>

text \<open>The events after which the run owns something more.\<close>

definition acquires :: "run_event \<Rightarrow> bool" where
  "acquires ev \<longleftrightarrow> (case ev of Execution_Acquired \<Rightarrow> True | Resources_Acquired _ \<Rightarrow> True | Session_Opened \<Rightarrow> True
     | Start_Turn _ \<Rightarrow> True | _ \<Rightarrow> False)"

lemma acquires_early:
  assumes "live_step ev live = Some live'" "acquires ev" "life_ok live"
  shows "lr_finish live = Not_Finishing"
  using assms early_not_finishing(1) [OF assms(3)] gate_not_finishing [OF assms(3)]
  by (cases ev) (auto simp: acquires_def live_step_def late_stage_def split: if_splits)

lemma release_step:
  assumes "live_step ev live = Some live'" "life_ok live"
  shows "is_release_resources ev \<Longrightarrow> lr_runtime_closed live \<and> lr_stream live = No_Stream"
    "is_release_execution ev \<Longrightarrow> lr_resources_released live"
  using assms by (cases ev; auto simp: event_kinds live_step_def life_ok_def stage_ok_def cleanup_view_def split: if_splits)+

lemma run_split:
  assumes "run_steps (xs @ ev # ys) live = Some live'"
  obtains mid mid' where "run_steps xs live = Some mid" "live_step ev mid = Some mid'"
  using assms by (auto simp: run_steps_append split: option.splits)

text \<open>
  C11. In every run, whatever fails and however the controls interleave: the resources of a run are
  released only after its runtime was closed and its stream ended, its execution only after its
  resources were; each of the three is tried at most twice and the run is settled at most once; and
  nothing is acquired once the cleanup has begun.
\<close>

theorem cleanup_in_order:
  assumes "run_steps evs (new_live_run scope ceiling run) = Some live"
  shows "count_events is_close evs \<le> 2 \<and> count_events is_release_resources evs \<le> 2 \<and>
    count_events is_release_execution evs \<le> 2 \<and> count_events is_settle evs \<le> 1 \<and>
    (\<forall>xs ev ys. evs = xs @ ev # ys \<longrightarrow>
       (is_release_resources ev \<longrightarrow> Close_Runtime True \<in> set xs \<and>
          ((\<exists>view. Start_Turn view \<in> set xs) \<longrightarrow> (\<exists>e \<in> set xs. is_stream_end e))) \<and>
       (is_release_execution ev \<longrightarrow> Release_Resources True \<in> set xs) \<and>
       (acquires ev \<longrightarrow> (\<forall>e \<in> set xs. \<not> is_cleanup e)))"
proof (intro conjI allI impI)
  have cleanup: "traced_cleanup evs live" and life: "life_ok live"
    using run_traced_cleanup [OF assms] run_life [OF assms] .
  show "count_events is_close evs \<le> 2" "count_events is_release_resources evs \<le> 2"
    "count_events is_release_execution evs \<le> 2" "count_events is_settle evs \<le> 1"
    using cleanup life by (auto simp: traced_cleanup_def life_ok_def stage_ok_def cleanup_view_def)
next
  fix xs ev ys
  assume "evs = xs @ ev # ys"
  then obtain mid mid' where run: "run_steps xs (new_live_run scope ceiling run) = Some mid"
      and step: "live_step ev mid = Some mid'"
    using assms run_split by blast
  note traced = run_traced_cleanup [OF run, unfolded traced_cleanup_def] run_traced_stream [OF run, unfolded traced_stream_def]
  note life = run_life [OF run]
  show "\<exists>e \<in> set xs. is_stream_end e"
    if "is_release_resources ev" "\<exists>view. Start_Turn view \<in> set xs"
    using traced release_step(1) [OF step life that(1)] that(2) by auto
  show "Close_Runtime True \<in> set xs" if "is_release_resources ev"
    using traced release_step(1) [OF step life that] by auto
  show "Release_Resources True \<in> set xs" if "is_release_execution ev"
    using traced release_step(2) [OF step life that] by auto
  show "\<forall>e \<in> set xs. \<not> is_cleanup e" if "acquires ev"
    using traced acquires_early [OF step that life] by auto
qed

lemma cleanup_in_order_witness:
  "count_events is_release_resources (sample_turn @ sample_cleanup) \<le> 2"
proof -
  obtain mid where "run_steps (sample_turn @ sample_cleanup) sample_live = Some mid"
    using sample_stored by (auto split: option.splits)
  from cleanup_in_order [OF this [unfolded sample_live_def]] show ?thesis by blast
qed

text \<open>
  C12. The turn of a run starts at most once, after the execution lease, the resources, the
  session and the receipt of the preparation, in this order, and only under the authority the run
  was admitted with: the coordinator and its lease are alive, the run is not aborted, and the target
  is in the admitted ceiling and allowed by the current policies of the parent and of the origin, at
  the admitted revisions.
\<close>

theorem turn_started_under_authority:
  assumes "run_steps evs (new_live_run scope ceiling run) = Some mid" "live_step (Start_Turn view) mid = Some live"
  shows "stages_seen evs = [Pr_Leasing, Pr_Leased, Pr_Resourcing, Pr_Resourced, Pr_Opening, Pr_Opened, Pr_Recorded, Pr_Dispatched] \<and>
    (\<forall>ev \<in> set evs. \<not> is_cleanup ev) \<and> \<not> lr_aborted mid \<and> gv_lease view = Inr () \<and>
    \<not> co_failed (gv_coordinator view) \<and> \<not> co_released (gv_coordinator view) \<and>
    rn_admitted_target run \<in> set (pc_targets ceiling) \<and>
    (\<exists>resolved origin. current_policy (gv_host view) scope = Inr resolved \<and>
       current_policy (gv_host view) (pc_origin ceiling) = Inr origin \<and>
       rp_policy_revision resolved = rn_admitted_policy_revision run \<and>
       rp_policy_revision origin = rn_admitted_origin_policy_revision run \<and>
       rp_enabled resolved \<and> rp_enabled origin \<and>
       rn_admitted_target run \<in> dt_reference ` set (rp_allowed_targets resolved) \<and>
       rn_admitted_target run \<in> dt_reference ` set (rp_allowed_targets origin))"
proof -
  have at: "at_gate Pr_Dispatched view mid" using assms(2) by (auto simp: live_step_def split: if_splits)
  have admitted: "lr_scope mid = scope" "lr_ceiling mid = ceiling" "lr_target mid = rn_admitted_target run"
    "lr_policy_revision mid = rn_admitted_policy_revision run"
    "lr_origin_policy_revision mid = rn_admitted_origin_policy_revision run"
    using run_admitted [OF assms(1)] by (simp_all add: admitted_view_def new_live_run_def)
  have "lr_finish mid = Not_Finishing" by (rule gate_not_finishing [OF run_life [OF assms(1)] at])
  then show ?thesis
    using at run_traced_prepare [OF assms(1)] run_traced_cleanup [OF assms(1)]
    unfolding at_gate_def dispatch_gate_def admitted assert_run_dispatch_iff
    by (auto simp: traced_prepare_def traced_cleanup_def)
qed

lemma turn_started_under_authority_witness:
  "rn_admitted_target sample_run \<in> set (pc_targets sample_ceiling)"
proof -
  obtain mid live where "run_steps sample_preparation sample_live = Some mid"
      "live_step (Start_Turn sample_view) mid = Some live"
    using sample_stored by (auto simp: sample_turn_def run_steps_append split: option.splits)
  from turn_started_under_authority [OF this(1) [unfolded sample_live_def] this(2)] show ?thesis by blast
qed

section \<open>What is settled passes the store\<close>

definition settled_good :: "(run_outcome \<Rightarrow> bool) \<Rightarrow> live_run \<Rightarrow> bool" where
  "settled_good good live \<longleftrightarrow> (\<forall>out. lr_settled live = Some out \<longrightarrow> good out)"

lemma output_admitted:
  assumes "live_step ev live = Some live'" "summary_ok s"
  shows "summary_ok (event_summary ev s)"
  using assms
  by (cases ev) (auto simp: live_step_def event_summary_def output_summary_def output_parsed_def accumulate_ok
      keep_reference_ok split: turn_output.splits option.splits if_splits)

lemma run_summary_ok:
  "run_steps evs (new_live_run scope ceiling run) = Some live \<Longrightarrow> summary_ok (fold event_summary evs empty_summary)"
proof (induction rule: run_steps_induct)
  case (event evs ev mid live)
  then show ?case using output_admitted [OF event(2)] by simp
qed (simp add: empty_summary_ok)

text \<open>A success is settled with the summary of the stream, whatever result it carried.\<close>

definition reportable :: "externals \<Rightarrow> run_outcome \<Rightarrow> bool" where
  "reportable ext out \<longleftrightarrow> (\<exists>s. out = Succeeded s) \<or> run_outcome_schema ext out"

lemma fixed_outcomes_reportable: "own_outcomes_good (reportable ext)"
proof -
  have "public_failure_schema ext (fixed_failure Unknown_Category ''preparation_rejected''
      ''The managed child could not start under its admitted authority.'')"
    "public_failure_schema ext (fixed_failure Unknown_Category ''turn_rejected''
      ''The managed child turn was rejected before provider execution.'')"
    unfolding fixed_failure_def public_failure_schema_def
    by (simp add: public_recovery_schema_def del: js_len_def; code_simp)+
  then show ?thesis
    by (simp add: own_outcomes_good_def reportable_def run_outcome_schema_def preparation_rejected_def
        turn_rejected_def rejection_def)
qed

lemma final_admitted:
  assumes "result_summary_schema summary" "reportable ext outcome"
  shows "run_outcome_schema ext (final_outcome closed uncertain summary outcome)"
  using assms
  by (auto simp: final_outcome_def reportable_def run_outcome_schema_def Let_def split: run_outcome.splits option.splits)

lemma settled_step:
  assumes "live_step ev live = Some live'" "\<not> is_settle ev"
  shows "lr_settled live' = lr_settled live"
  using assms(1)
proof (cases rule: run_step_cases)
  case 1
  then show ?thesis using outside_view [OF 1] by (simp add: cleanup_view_def)
next
  case 2
  then show ?thesis using assms(2) by (cases ev) (auto simp: event_kinds split: if_splits)
qed

definition errors_ok :: "externals \<Rightarrow> run_event list \<Rightarrow> bool" where
  "errors_ok ext evs \<longleftrightarrow>
     list_all (\<lambda>ev. case ev of Output (Out_Completed (Ended_Failed (Some e))) \<Rightarrow> agent_error_ok ext e | _ \<Rightarrow> True) evs"

lemma terminal_reportable:
  assumes "errors_ok ext evs" "Output (Out_Completed e) \<in> set evs"
  shows "reportable ext (terminal_outcome e s)"
proof (cases e)
  case (Ended_Failed reported)
  then show ?thesis
    using assms fixed_failure_ok [of ext] project_failure_ok [of ext]
    by (cases reported) (auto simp: errors_ok_def list_all_iff reportable_def run_outcome_schema_def)
qed (simp_all add: reportable_def run_outcome_schema_def)

lemma run_reportable:
  assumes "run_steps evs (new_live_run scope ceiling run) = Some live" "errors_ok ext evs"
  shows "outcomes_good (reportable ext) live"
  using run_outcomes_good [OF fixed_outcomes_reportable assms(1)] terminal_reportable [OF assms(2)] by blast

text \<open>
  C14. Whatever a run is settled with passes the schema of an outcome, so the store does not refuse
  it: the summary within eight references and 8192 bytes whatever the provider streamed, the failure
  within 2048 bytes whatever the provider reported, as far as its errors are those of the protocol.
\<close>

theorem settled_outcome_admissible:
  assumes "run_steps evs (new_live_run scope ceiling run) = Some live" "errors_ok ext evs" "lr_settled live = Some out"
  shows "run_outcome_schema ext out"
proof -
  have "settled_good (run_outcome_schema ext) live" if "errors_ok ext evs"
    using assms(1) that
  proof (induction rule: run_steps_induct)
    case (event evs ev mid live)
    have errors: "errors_ok ext evs" using event(4) by (simp add: errors_ok_def)
    show ?case
    proof (cases "is_settle ev")
      case True
      then obtain stored where "ev = Settle_Run stored" by (cases ev) (auto simp: event_kinds)
      with event(2) obtain closed outcome where at: "lr_outcome mid = Some outcome"
          "live = settle_live closed stored outcome mid"
        by (auto elim: settled_from)
      have "reportable ext outcome"
        using run_reportable [OF event(1) errors] at(1) by (simp add: outcomes_good_def)
      moreover have "result_summary_schema (lr_summary mid)"
        using summary_ok_schema [OF run_summary_ok [OF event(1)]] run_summary [OF event(1)] by simp
      ultimately show ?thesis using final_admitted by (simp add: at(2) settled_good_def settled_values)
    next
      case False
      then show ?thesis using event(3) [OF errors] settled_step [OF event(2) False] by (simp add: settled_good_def)
    qed
  qed (simp add: settled_good_def new_live_run_def)
  then show ?thesis using assms(2,3) by (simp add: settled_good_def)
qed

lemma settled_outcome_admissible_witness:
  "run_outcome_schema sample_externals (Succeeded \<lparr>rs_text = ''done'', rs_truncated = False, rs_references = []\<rparr>)"
proof -
  have "(case run_steps ((sample_turn @ sample_cleanup) @ [Settle_Run True]) sample_live of
       None \<Rightarrow> None | Some live \<Rightarrow> Some (lr_settled live)) =
     Some (Some (Succeeded \<lparr>rs_text = ''done'', rs_truncated = False, rs_references = []\<rparr>))"
    by code_simp
  then obtain live where live: "run_steps ((sample_turn @ sample_cleanup) @ [Settle_Run True]) sample_live = Some live"
      "lr_settled live = Some (Succeeded \<lparr>rs_text = ''done'', rs_truncated = False, rs_references = []\<rparr>)"
    by (auto split: option.splits)
  have "errors_ok sample_externals ((sample_turn @ sample_cleanup) @ [Settle_Run True])"
    by (simp add: errors_ok_def sample_turn_def sample_preparation_def sample_cleanup_def)
  from settled_outcome_admissible [OF live(1) [unfolded sample_live_def] this live(2)] show ?thesis .
qed

section \<open>The cleanup ends\<close>

text \<open>
  The event that the cleanup itself produces next, when the host answers \<open>ok\<close>: a release without a
  handle cannot fail.
\<close>

definition cleanup_event :: "bool \<Rightarrow> live_run \<Rightarrow> run_event" where
  "cleanup_event ok live =
     (case lr_finish live of
        Closing_Controls \<Rightarrow> Controls_Settled
      | Closing_Runtime \<Rightarrow>
          if lr_runtime_closed live \<or> 2 \<le> lr_runtime_attempts live then Runtime_Settled else Close_Runtime ok
      | Draining_Output \<Rightarrow> Output_Drained
      | Releasing_Resources \<Rightarrow> Release_Resources (ok \<or> \<not> lr_resourced live)
      | Releasing_Execution \<Rightarrow> Release_Execution (ok \<or> \<not> lr_leased live)
      | _ \<Rightarrow> Settle_Run ok)"

fun cleanup_loop :: "bool list \<Rightarrow> live_run \<Rightarrow> live_run option" where
  "cleanup_loop [] live = Some live"
| "cleanup_loop (ok # oks) live =
     (if lr_finish live = Finished then Some live
      else case live_step (cleanup_event ok live) live of None \<Rightarrow> None | Some live' \<Rightarrow> cleanup_loop oks live')"

definition cleanup_rank :: "live_run \<Rightarrow> nat" where
  "cleanup_rank live =
     (case lr_finish live of
        Not_Finishing \<Rightarrow> 11 | Closing_Controls \<Rightarrow> 10
      | Closing_Runtime \<Rightarrow> 7 + (2 - lr_runtime_attempts live)
      | Draining_Output \<Rightarrow> 6
      | Releasing_Resources \<Rightarrow> 3 + (2 - lr_resource_attempts live)
      | Releasing_Execution \<Rightarrow> 1 + (2 - lr_execution_attempts live)
      | Settling _ \<Rightarrow> 1 | Finished \<Rightarrow> 0)"

text \<open>The run is being finished, its controls have ended and its output is drained.\<close>

definition quiescent :: "live_run \<Rightarrow> bool" where
  "quiescent live \<longleftrightarrow> life_ok live \<and> lr_finish live \<noteq> Not_Finishing \<and> open_controls live = 0 \<and> lr_stream live = No_Stream"

lemma cleanup_is_finish:
  assumes "lr_finish live \<noteq> Not_Finishing"
  shows "live_step (cleanup_event ok live) live = finish_step (cleanup_event ok live) live"
  using assms by (simp add: live_step_def cleanup_event_def split: finish_stage.splits)

lemma quiet_facts:
  assumes "quiescent live"
  shows "lr_finish live \<noteq> Not_Finishing" "lr_outcome live \<noteq> None" "lr_stream live = No_Stream"
    "open_controls live = 0"
    "lr_finish live = Releasing_Resources \<Longrightarrow> lr_resource_attempts live < 2"
    "lr_finish live = Releasing_Execution \<Longrightarrow> lr_execution_attempts live < 2"
  using assms by (auto simp: quiescent_def life_ok_def prepared_ok_def stage_ok_def cleanup_view_def)

lemma settle_finished [simp]: "lr_finish (settle_live closed stored outcome live) = Finished"
  by (simp add: settle_live_def Let_def)

lemma cleanup_progress:
  assumes "quiescent live" "lr_finish live \<noteq> Finished"
  shows "\<exists>live'. finish_step (cleanup_event ok live) live = Some live' \<and> cleanup_rank live' < cleanup_rank live"
proof (cases "lr_finish live")
  case Not_Finishing
  then show ?thesis using quiet_facts(1) [OF assms(1)] by simp
next
  case Closing_Controls
  then show ?thesis using quiet_facts(4) [OF assms(1)] by (simp add: cleanup_event_def cleanup_rank_def)
next
  case Closing_Runtime
  then show ?thesis by (auto simp: cleanup_event_def cleanup_rank_def)
next
  case Draining_Output
  then show ?thesis using quiet_facts(3) [OF assms(1)] by (simp add: cleanup_event_def cleanup_rank_def)
next
  case Releasing_Resources
  then show ?thesis using quiet_facts(5) [OF assms(1)] by (auto simp: cleanup_event_def cleanup_rank_def)
next
  case Releasing_Execution
  then show ?thesis using quiet_facts(6) [OF assms(1)] by (auto simp: cleanup_event_def cleanup_rank_def)
next
  case (Settling closed)
  then show ?thesis using quiet_facts(2) [OF assms(1)] by (auto simp: cleanup_event_def cleanup_rank_def)
qed (use assms in simp)

lemma quiet_step:
  assumes "quiescent live" "finish_step ev live = Some live'"
  shows "quiescent live'"
proof -
  have "open_controls live' = open_controls live"
    using assms(2) by (cases ev) (auto simp: open_controls_def settle_live_def Let_def
        split: if_splits finish_stage.splits option.splits)
  then show ?thesis
    using assms(1) finish_life [OF assms(2)] finish_frame(2,3) [OF assms(2)] by (simp add: quiescent_def)
qed

lemma cleanup_loop_ends:
  assumes "quiescent live" "cleanup_rank live \<le> length oks"
  shows "\<exists>live'. cleanup_loop oks live = Some live' \<and> lr_finish live' = Finished \<and> quiescent live'"
  using assms
proof (induction oks arbitrary: live)
  case Nil
  then have "lr_finish live = Finished" by (simp add: cleanup_rank_def split: finish_stage.splits)
  then show ?case using Nil by simp
next
  case (Cons ok oks)
  show ?case
  proof (cases "lr_finish live = Finished")
    case False
    from cleanup_progress [OF Cons.prems(1) False]
    obtain live' where step: "finish_step (cleanup_event ok live) live = Some live'" "cleanup_rank live' < cleanup_rank live"
      by blast
    have "\<exists>last. cleanup_loop oks live' = Some last \<and> lr_finish last = Finished \<and> quiescent last"
      by (rule Cons.IH [OF quiet_step [OF Cons.prems(1) step(1)]]) (use step(2) Cons.prems(2) in simp)
    moreover have "lr_finish live \<noteq> Not_Finishing" using Cons.prems(1) by (simp add: quiescent_def)
    ultimately show ?thesis using False step(1) by (simp add: cleanup_is_finish)
  qed (use Cons.prems in simp)
qed



section \<open>What an admission stores\<close>

text \<open>
  C13. A new task is admitted only within the authority of its parent: an accepted call of
  \<open>spawn\<close> that is not answered from an earlier one stores one new queued run, of the given target, for
  a task under the retained ceiling; the target is in that ceiling, allowed at the expected revision
  by the current policy of the parent and by that of the origin of the ceiling, and a child's ceiling
  is the one it inherited.
\<close>

theorem spawn_within_authority:
  assumes "store_reachable (dh_externals host) st"
    and spawned: "spawn_task host co binding raw task_id run_id clock st = (Inr receipt, st')"
    and "\<not> sr_duplicate receipt"
  shows "\<exists>run task ceiling inherited resolved origin.
    map_of (st_runs st) run_id = None \<and> map_of (st_runs st') run_id = Some run \<and> rn_phase run = Queued \<and>
    rn_task_id run = task_id \<and> rn_admitted_target run = sp_target raw \<and>
    map_of (st_tasks st') task_id = Some task \<and>
    map_of (st_ceilings st') (tk_policy_ceiling_ref task) = Some ceiling \<and> sp_target raw \<in> set (pc_targets ceiling) \<and>
    current_policy host (pb_scope binding) = Inr resolved \<and> rp_enabled resolved \<and>
    rp_policy_revision resolved = sp_expected_policy_revision raw \<and>
    sp_target raw \<in> dt_reference ` set (rp_allowed_targets resolved) \<and>
    current_policy host (pc_origin ceiling) = Inr origin \<and>
    sp_target raw \<in> dt_reference ` set (rp_allowed_targets origin) \<and>
    binding_ceiling host co st binding = Inr inherited \<and>
    (case inherited of None \<Rightarrow> pc_origin ceiling = pb_scope binding | Some c \<Rightarrow> ceiling = c) \<and>
    (case pb_depth binding of None \<Rightarrow> 1 | Some d \<Rightarrow> d) \<le> lm_max_depth (st_limits st)"
proof -
  obtain command commit_receipt where plan: "plan_spawn host co binding raw task_id run_id clock st = Inr (Inr command)"
      and commit: "store_commit (dh_externals host) command st = (Inr commit_receipt, st')"
    using spawned assms(3) by (rule spawn_committed)
  from plan obtain ch t created deadline start_deadline where
      command: "command = \<lparr>cm_owner = co_owner co, cm_operation_id = sp_operation_id raw,
       cm_input_digest = spawn_digest (dh_externals host) (st_limits st) raw, cm_task_id = task_id,
       cm_expected_task_revision = 0, cm_run_id = None, cm_expected_run_revision = None,
       cm_body = Admit (spawn_admission binding raw ch (dt_reference t) run_id created deadline start_deadline)\<rparr>"
    and choices: "effective_choices host co st binding = Inr ch"
    and target: "admitted_target ch (sp_target raw) (sp_expected_policy_revision raw) = Inr t"
    and fresh: "map_of (st_operations st) (operation_key (pb_scope binding) (sp_operation_id raw)) = None"
    and depth: "ad_depth (spawn_admission binding raw ch (dt_reference t) run_id created deadline start_deadline)
      \<le> lm_max_depth (st_limits st)"
    by (rule plan_spawn_command)
  let ?a = "spawn_admission binding raw ch (dt_reference t) run_id created deadline start_deadline"
  note admitted = admitted_target_Inr [OF target]
  have "cm_body command = Admit ?a" "map_of (st_operations st) (operation_key (ad_parent ?a) (cm_operation_id command)) = None"
    using fresh by (simp_all add: command spawn_admission_def)
  then obtain run task where stored: "map_of (st_runs st) run_id = None" "map_of (st_runs st') run_id = Some run"
      "rn_admitted_target run = dt_reference t" "rn_task_id run = task_id" "rn_phase run = Queued"
      "map_of (st_tasks st') task_id = Some task" "tk_policy_ceiling_ref task = pc_ceiling_id (ch_ceiling ch)"
      "map_of (st_ceilings st') (pc_ceiling_id (ch_ceiling ch)) = Some (ch_ceiling ch)"
      "dt_reference t \<in> set (pc_targets (ch_ceiling ch))"
    by (rule fresh_admission_stored [OF reachable_ok [OF assms(1)] commit]) (simp add: command spawn_admission_def)
  from choices show ?thesis
  proof (cases rule: effective_choices_Inr)
    case (1 inherited origin)
    then show ?thesis using stored admitted depth by (force simp: spawn_admission_def split: option.splits)
  qed
qed

definition sample_binding :: parent_binding where
  "sample_binding = \<lparr>pb_scope = sample_parent, pb_ancestor = None, pb_ceiling = None, pb_depth = None\<rparr>"

definition sample_spawn_input :: spawn_task_input where
  "sample_spawn_input = \<lparr>sp_operation_id = ''op-1'', sp_target = sample_target, sp_expected_policy_revision = 1,
     sp_input = \<lparr>ti_parts = [Text_Part ''hello''], ti_summary = None\<rparr>, sp_completion_policy = None,
     sp_timeout_ms = None\<rparr>"

lemma spawn_within_authority_witness:
  "\<exists>receipt st' run. spawn_task sample_host sample_coordinator sample_binding sample_spawn_input ''task-1'' ''run-1''
      1767225600000 sample_owned_store = (Inr receipt, st') \<and>
    map_of (st_runs st') ''run-1'' = Some run \<and> rn_admitted_target run = sample_target"
proof -
  let ?spawn = "spawn_task sample_host sample_coordinator sample_binding sample_spawn_input ''task-1'' ''run-1''
      1767225600000 sample_owned_store"
  have "(case fst ?spawn of Inr receipt \<Rightarrow> \<not> sr_duplicate receipt | Inl _ \<Rightarrow> False)"
    by code_simp
  then obtain receipt st' where spawned: "?spawn = (Inr receipt, st')" "\<not> sr_duplicate receipt"
    by (cases ?spawn) (auto split: sum.splits)
  have "store_reachable (dh_externals sample_host) sample_owned_store"
    using sample_owned_reachable by (simp add: sample_host_def)
  from spawn_within_authority [OF this spawned] obtain run where
      "map_of (st_runs st') ''run-1'' = Some run" "rn_admitted_target run = sp_target sample_spawn_input"
    by blast
  then show ?thesis using spawned(1) by (auto simp: sample_spawn_input_def)
qed

end
