(* ===== verification/Delivery_Schedule.thy ===== *)
theory Delivery_Schedule
  imports Run_Authority
begin

text \<open>
  The delivery of completions to the inbox of a parent, \<open>agent-orchestration/src/delivery\<close>: the
  back-off and the receipt of an attempt (\<open>scheduler.ts\<close>, \<open>journal.ts\<close>), the calls of the inbox
  port with their deadlines (\<open>calls.ts\<close>), the parsers of its answers (\<open>parse.ts\<close>) and the setup
  (\<open>setup.ts\<close>).  Each attempt is one function of the retained notification, of the clocks it reads
  and of what the port answers; its receipt is the command that the planner of the store checks.

  The first section shows that the times which \<open>toISOString\<close> prints in the years 0 to 9999 after
  1970 are read back by \<open>Date.parse\<close>.
\<close>

section \<open>Printed times are read back\<close>

lemma year_of_era:
  fixes r b a y :: int
  assumes "0 \<le> r" "r \<le> 36523" "0 \<le> b" "b \<le> 3" "a = (r + 24 * b) div 1460" "y = (r - a) div 365"
  shows "0 \<le> y" "y \<le> 99" "0 \<le> r - 365 * y - y div 4" "r - 365 * y - y div 4 \<le> 365"
proof -
  have a: "1460 * a \<le> r + 24 * b" "r + 24 * b < 1460 * a + 1460"
    using assms(5) by (simp_all add: minus_mod_eq_mult_div [symmetric])
  have y: "365 * y \<le> r - a" "r - a < 365 * y + 365"
    using assms(6) by (simp_all add: minus_mod_eq_mult_div [symmetric])
  define q where "q = y div 4"
  have q: "4 * q \<le> y" "y \<le> 4 * q + 3" by (simp_all add: q_def)
  show "0 \<le> y" "y \<le> 99" using a y assms(1-4) by linarith+
  have low: "q \<le> a" using a y q assms(1-4) by linarith
  have high: "a \<le> q + 1" using a y q assms(1-4) by linarith
  show "0 \<le> r - 365 * y - y div 4" "r - 365 * y - y div 4 \<le> 365"
    using low high y q unfolding q_def [symmetric] by linarith+
qed

lemma day_of_month:
  fixes doy mp d :: int
  assumes "0 \<le> doy" "doy \<le> 365" "mp = (5 * doy + 2) div 153" "d = doy - (153 * mp + 2) div 5 + 1"
  shows "0 \<le> mp" "mp \<le> 11" "1 \<le> d" "d \<le> 31"
proof -
  have mp: "153 * mp \<le> 5 * doy + 2" "5 * doy + 2 < 153 * mp + 153"
    using assms(3) by (simp_all add: minus_mod_eq_mult_div [symmetric])
  define e where "e = (153 * mp + 2) div 5"
  have e: "5 * e \<le> 153 * mp + 2" "153 * mp + 2 < 5 * e + 5" by (simp_all add: e_def)
  show "0 \<le> mp" "mp \<le> 11" using mp assms(1,2) by linarith+
  show "1 \<le> d" "d \<le> 31" using mp e unfolding assms(4) e_def [symmetric] by linarith+
qed

lemma era_parts:
  fixes doe :: int
  assumes "0 \<le> doe" "doe \<le> 146096"
    "yoe = (doe - doe div 1460 + doe div 36524 - doe div 146096) div 365"
    "doy = doe - (365 * yoe + yoe div 4 - yoe div 100)"
  shows "0 \<le> yoe" "yoe \<le> 399" "0 \<le> doy" "doy \<le> 365"
proof -
  have "0 \<le> yoe \<and> yoe \<le> 399 \<and> 0 \<le> doy \<and> doy \<le> 365"
  proof (cases "doe = 146096")
    case False
    define b where "b = doe div 36524"
    define r where "r = doe - 36524 * b"
    define a where "a = (r + 24 * b) div 1460"
    define y where "y = (r - a) div 365"
    have b: "0 \<le> b" "b \<le> 3" using assms(1,2) False by (auto simp: b_def)
    have r: "0 \<le> r" "r \<le> 36523" by (simp_all add: r_def b_def minus_mod_eq_mult_div [symmetric])
    note y = year_of_era [OF r b a_def y_def]
    have doe: "doe = 36524 * b + r" by (simp add: r_def)
    have "doe div 1460 = 25 * b + a"
      unfolding a_def doe by (simp add: div_mult_self4 [symmetric] algebra_simps)
    moreover have "doe div 146096 = 0" using assms(1,2) False by simp
    ultimately have "doe - doe div 1460 + doe div 36524 - doe div 146096 = r - a + 365 * (100 * b)"
      unfolding b_def [symmetric] by (simp add: doe)
    then have yoe: "yoe = 100 * b + y" unfolding assms(3) y_def by simp
    have "yoe div 4 = 25 * b + y div 4" "yoe div 100 = b"
      using y(1,2) unfolding yoe by simp_all
    then have "doy = r - 365 * y - y div 4"
      unfolding assms(4) by (simp add: yoe doe)
    then show ?thesis using y b yoe by simp
  qed (use assms in simp)
  then show "0 \<le> yoe" "yoe \<le> 399" "0 \<le> doy" "doy \<le> 365" by simp_all
qed

lemma civil_roundtrip:
  assumes "civil_from_days z = (y, m, d)"
  shows "days_from_civil y m d = z" "1 \<le> m" "m \<le> 12" "1 \<le> d" "d \<le> 31"
proof -
  define era doe where "era = (z + 719468) div 146097" and "doe = z + 719468 - era * 146097"
  define yoe where "yoe = (doe - doe div 1460 + doe div 36524 - doe div 146096) div 365"
  define doy where "doy = doe - (365 * yoe + yoe div 4 - yoe div 100)"
  define mp where "mp = (5 * doy + 2) div 153"
  have doe: "0 \<le> doe" "doe \<le> 146096"
    by (simp_all add: doe_def era_def minus_div_mult_eq_mod)
  note parts = era_parts [OF doe yoe_def doy_def]
  have d: "d = doy - (153 * mp + 2) div 5 + 1" and m: "m = (if mp < 10 then mp + 3 else mp - 9)"
    and y: "y = (if m \<le> 2 then yoe + era * 400 + 1 else yoe + era * 400)"
    using assms unfolding civil_from_days_def Let_def era_def [symmetric] doe_def [symmetric]
      yoe_def [symmetric] doy_def [symmetric] mp_def [symmetric] by auto
  note day = day_of_month [OF parts(3,4) mp_def d]
  show "1 \<le> m" "m \<le> 12" "1 \<le> d" "d \<le> 31" using day m by auto
  have inner_year: "(if m \<le> 2 then y - 1 else y) = yoe + era * 400" by (simp add: y)
  have era: "(yoe + era * 400) div 400 = era" using parts(1,2) by simp
  have month: "(m + 9) mod 12 = mp" using day(1,2) by (auto simp: m mod_pos_pos_trivial)
  show "days_from_civil y m d = z"
    unfolding days_from_civil_def Let_def inner_year era month
    by (simp add: d doy_def doe_def)
qed

lemma take_digits_append [simp]:
  "length s = n \<Longrightarrow> list_all is_digit s \<Longrightarrow> take_digits n (s @ rest) = Some (digits_int s, rest)"
  by (simp add: take_digits_def)

lemma pad_digits:
  assumes "0 \<le> n" "n < 10 ^ k" "0 < k"
  shows "length (pad_start k (CHR ''0'') (int_string n)) = k"
    "list_all is_digit (pad_start k (CHR ''0'') (int_string n))"
    "digits_int (pad_start k (CHR ''0'') (int_string n)) = n"
proof -
  have s: "int_string n = nat_string (nat n)" using assms(1) by (simp add: int_string_def)
  have "nat n < 10 ^ k" using assms(1,2) by (simp add: nat_less_iff)
  then have len: "length (nat_string (nat n)) \<le> k" using length_nat_string assms(3) by blast
  have zero: "is_digit (CHR ''0'')" "digit_value (CHR ''0'') = 0" by (simp_all add: is_digit_def digit_value_def code_unit_def)
  have lead: "digits_value (replicate j (CHR ''0'') @ xs) = digits_value xs" for j xs
    by (induction j) (simp_all add: digits_value_def zero)
  show "length (pad_start k (CHR ''0'') (int_string n)) = k" using len by (simp add: s pad_start_def)
  show "list_all is_digit (pad_start k (CHR ''0'') (int_string n))"
    using nat_string_digits zero by (auto simp: s pad_start_def list_all_iff)
  show "digits_int (pad_start k (CHR ''0'') (int_string n)) = n"
    using assms(1) by (simp add: s pad_start_def digits_int_eq lead)
qed

lemma expect_char_Cons [simp]: "expect_char c (x # xs) = (if x = c then Some xs else None)"
  by (simp add: expect_char_def)

lemma two_digits_ok:
  assumes "0 \<le> n" "n < 100"
  shows "length (two_digits n) = 2" "list_all is_digit (two_digits n)" "digits_int (two_digits n) = n"
  using pad_digits [of n 2] assms by (simp_all add: two_digits_def)

lemma parse_seconds_iso:
  assumes "0 \<le> s" "s < 60" "0 \<le> ms" "ms < 1000"
  shows "parse_seconds ('':'' @ two_digits s @ ''.'' @ pad_start 3 (CHR ''0'') (int_string ms) @ ''Z'') = Some (s * 1000 + ms, ''Z'')"
proof -
  note two = two_digits_ok [of s] and three = pad_digits [of ms 3]
  have "takeWhile is_digit (pad_start 3 (CHR ''0'') (int_string ms) @ ''Z'') = pad_start 3 (CHR ''0'') (int_string ms)"
    "dropWhile is_digit (pad_start 3 (CHR ''0'') (int_string ms) @ ''Z'') = ''Z''"
    using three assms by (simp_all add: takeWhile_append dropWhile_append list_all_iff is_digit_def code_unit_def)
  moreover have "pad_start 3 (CHR ''0'') (int_string ms) \<noteq> []" using three(1) assms by auto
  ultimately show ?thesis
    using two three assms by (simp add: parse_seconds_def parse_fraction_def)
qed

definition last_four_digit_time :: int where
  "last_four_digit_time = 253402300799999"

lemma year_range:
  assumes "civil_from_days z = (y, m, d)" "0 \<le> z" "z \<le> 2932896"
  shows "0 \<le> y" "y \<le> 9999"
proof -
  define era doe where "era = (z + 719468) div 146097" and "doe = z + 719468 - era * 146097"
  define yoe where "yoe = (doe - doe div 1460 + doe div 36524 - doe div 146096) div 365"
  define doy where "doy = doe - (365 * yoe + yoe div 4 - yoe div 100)"
  define mp where "mp = (5 * doy + 2) div 153"
  have doe: "0 \<le> doe" "doe \<le> 146096"
    by (simp_all add: doe_def era_def minus_div_mult_eq_mod)
  note parts = era_parts [OF doe yoe_def doy_def]
  have m: "m = (if mp < 10 then mp + 3 else mp - 9)"
    and y: "y = (if m \<le> 2 then yoe + era * 400 + 1 else yoe + era * 400)"
    using assms(1) unfolding civil_from_days_def Let_def era_def [symmetric] doe_def [symmetric]
      yoe_def [symmetric] doy_def [symmetric] mp_def [symmetric] by auto
  have era: "0 \<le> era" "era \<le> 24" using assms(2,3) by (auto simp: era_def)
  show "0 \<le> y" using parts(1) era(1) by (simp add: y)
  show "y \<le> 9999"
  proof (cases "era = 24 \<and> yoe = 399")
    case True
    then have "doe \<le> 146036" using assms(3) by (simp add: doe_def)
    then have "doy \<le> 305" using True by (simp add: doy_def)
    then have "mp < 10" by (simp add: mp_def)
    then have "2 < m" using parts(3) by (simp add: m mp_def)
    then show ?thesis using True by (simp add: y)
  next
    case False
    then show ?thesis using era(2) parts(2) by (auto simp: y)
  qed
qed

lemma clock_parts:
  fixes ms :: int
  assumes "0 \<le> ms" "ms < 86400000"
  shows "ms div 3600000 * 3600000 + ms div 60000 mod 60 * 60000 + (ms div 1000 mod 60 * 1000 + ms mod 1000) = ms"
    "0 \<le> ms div 3600000" "ms div 3600000 < 24" "ms div 1000 mod 60 * 1000 + ms mod 1000 \<le> 59999"
proof -
  have "ms div 3600000 = ms div 60000 div 60" "ms div 60000 = ms div 1000 div 60"
    by (simp_all add: zdiv_zmult2_eq [symmetric])
  then show "ms div 3600000 * 3600000 + ms div 60000 mod 60 * 60000 + (ms div 1000 mod 60 * 1000 + ms mod 1000) = ms"
    using div_mult_mod_eq [of ms 1000] div_mult_mod_eq [of "ms div 1000" 60] div_mult_mod_eq [of "ms div 60000" 60]
    by linarith
  show "0 \<le> ms div 3600000" "ms div 3600000 < 24" using assms by auto
  have "ms div 1000 mod 60 < 60" "ms mod 1000 < 1000" by simp_all
  then show "ms div 1000 mod 60 * 1000 + ms mod 1000 \<le> 59999" by linarith
qed

lemma date_parse_parts:
  assumes "length ys = 4" "list_all is_digit ys" "length mo = 2" "list_all is_digit mo" "length ds = 2" "list_all is_digit ds"
    "length hs = 2" "list_all is_digit hs" "length mi = 2" "list_all is_digit mi"
    and "parse_seconds rest = Some (v, ''Z'')"
    and "1 \<le> digits_int mo" "digits_int mo \<le> 12" "1 \<le> digits_int ds" "digits_int ds \<le> 31"
    "digits_int hs < 24" "digits_int mi < 60" "v \<le> 59999"
  shows "date_parse (ys @ ''-'' @ mo @ ''-'' @ ds @ ''T'' @ hs @ '':'' @ mi @ rest) =
    Some (days_from_civil (digits_int ys) (digits_int mo) (digits_int ds) * 86400000
      + digits_int hs * 3600000 + digits_int mi * 60000 + v)"
proof -
  have zone: "parse_zone ''Z'' = Some 0" by (simp add: parse_zone_def)
  show ?thesis
    unfolding date_parse_def
    using assms by (simp add: zone)
qed

lemma iso_roundtrip:
  assumes "0 \<le> t" "t \<le> last_four_digit_time"
  shows "\<exists>s. to_iso_string t = Some s \<and> date_parse s = Some t"
proof -
  obtain y m d where civil: "civil_from_days (t div 86400000) = (y, m, d)" by (cases "civil_from_days (t div 86400000)")
  have "0 \<le> t div 86400000" "t div 86400000 \<le> 2932896"
    using assms by (auto simp: last_four_digit_time_def)
  note year = year_range [OF civil this] and calendar = civil_roundtrip [OF civil]
  define ms where "ms = t mod 86400000"
  have ms: "0 \<le> ms" "ms < 86400000" by (simp_all add: ms_def)
  define sec where "sec = two_digits (ms div 1000 mod 60)"
  define frac where "frac = pad_start 3 (CHR ''0'') (int_string (ms mod 1000))"
  have string: "to_iso_string t = Some (pad_start 4 (CHR ''0'') (int_string y) @ ''-'' @ two_digits m @ ''-'' @ two_digits d
      @ ''T'' @ two_digits (ms div 3600000) @ '':'' @ two_digits (ms div 60000 mod 60) @ '':'' @ sec @ ''.'' @ frac @ ''Z'')"
    using assms civil year by (simp add: to_iso_string_def last_four_digit_time_def Let_def iso_year_def ms_def sec_def frac_def)
  have seconds: "parse_seconds ('':'' @ sec @ ''.'' @ frac @ ''Z'') = Some (ms div 1000 mod 60 * 1000 + ms mod 1000, ''Z'')"
    unfolding sec_def frac_def by (rule parse_seconds_iso) simp_all
  note parts = clock_parts [OF ms]
  have split: "t = t div 86400000 * 86400000 + ms div 3600000 * 3600000 + ms div 60000 mod 60 * 60000
      + (ms div 1000 mod 60 * 1000 + ms mod 1000)"
    using parts(1) div_mult_mod_eq [of t 86400000] unfolding ms_def by linarith
  have minutes: "0 \<le> ms div 60000 mod 60" "ms div 60000 mod 60 < 60" by simp_all
  have ys: "length (pad_start 4 (CHR ''0'') (int_string y)) = 4" "list_all is_digit (pad_start 4 (CHR ''0'') (int_string y))"
    "digits_int (pad_start 4 (CHR ''0'') (int_string y)) = y"
    using pad_digits [of y 4] year by simp_all
  have mo: "length (two_digits m) = 2" "list_all is_digit (two_digits m)" "digits_int (two_digits m) = m"
    using two_digits_ok [of m] calendar by simp_all
  have ds: "length (two_digits d) = 2" "list_all is_digit (two_digits d)" "digits_int (two_digits d) = d"
    using two_digits_ok [of d] calendar by simp_all
  note hs = two_digits_ok [OF parts(2) order_less_trans [OF parts(3)], simplified]
  note mi = two_digits_ok [OF minutes(1) order_less_trans [OF minutes(2)], simplified]
  note parsed = date_parse_parts [OF ys(1,2) mo(1,2) ds(1,2) hs(1,2) mi(1,2) seconds,
      unfolded ys(3) mo(3) ds(3) hs(3) mi(3), OF calendar(2-5) parts(3) minutes(2) parts(4)]
  show ?thesis
    unfolding string using parsed unfolding calendar(1) split [symmetric] by blast
qed

section \<open>Back-off and eligibility (scheduler.ts)\<close>

text \<open>Numbers of JavaScript as far as they are used: \<open>None\<close> is NaN, which \<open>Math.min\<close> and \<open>Math.max\<close> keep.\<close>

definition js_min :: "int option \<Rightarrow> int option \<Rightarrow> int option" where
  "js_min x y = (case (x, y) of (Some a, Some b) \<Rightarrow> Some (min a b) | _ \<Rightarrow> None)"

definition js_max :: "int option \<Rightarrow> int option \<Rightarrow> int option" where
  "js_max x y = (case (x, y) of (Some a, Some b) \<Rightarrow> Some (max a b) | _ \<Rightarrow> None)"

definition iso_of :: "int option \<Rightarrow> delegation_failure + string" where
  "iso_of t = (case t of None \<Rightarrow> Inl Range_Error | Some n \<Rightarrow> iso_time n)"

definition backoff :: "int \<Rightarrow> int" where
  "backoff attempt = min 30000 (1000 * 2 ^ nat (min 5 (max 0 (attempt - 1))))"

definition retry_time :: "int \<Rightarrow> int \<Rightarrow> delegation_failure + string" where
  "retry_time clock attempt = iso_time (clock + backoff attempt)"

definition eligible_at :: "notification_record \<Rightarrow> int option" where
  "eligible_at n =
     (let retry = (case nt_retry_at n of None \<Rightarrow> Some 0 | Some r \<Rightarrow> if r = [] then Some 0 else date_parse r)
      in if nt_reason n = Some ''uncertain'' then retry
         else js_min (date_parse (ev_expires_at (nt_envelope n))) retry)"

datatype delivery_decision = Skip_Notification | Wait_Until "int option" | Deliver_Now

text \<open>What the loop over the scanned notifications does with one of them.\<close>

definition decide_notification :: "int \<Rightarrow> int \<Rightarrow> notification_record \<Rightarrow> delivery_decision" where
  "decide_notification epoch clock n =
     (if ev_policy (nt_envelope n) = Collect \<or> nt_state n \<notin> {Nt_Pending, Nt_Claimed} then Skip_Notification
      else if nt_state n = Nt_Claimed \<and> map_option nc_owner_epoch (nt_claim n) = Some epoch then Skip_Notification
      else if nt_state n = Nt_Pending \<and> js_gt (eligible_at n) (Some clock) then Wait_Until (eligible_at n)
      else Deliver_Now)"

section \<open>The inbox of the parent (types.ts, parse.ts)\<close>

datatype inbox_refusal = Revoked | Parent_Retired | Inbox_Expired | Inbox_Dismissed

datatype inbox_acceptance =
    Inbox_Accepted string string
  | Inbox_Blocked blocked_reason string
  | Inbox_Rejected inbox_refusal
  | Inbox_Uncertain

datatype inbox_inspection = Absent | Was_Accepted string string | Was_Rejected inbox_refusal

fun refusal_name :: "inbox_refusal \<Rightarrow> string" where
  "refusal_name Revoked = ''revoked''"
| "refusal_name Parent_Retired = ''parent_retired''"
| "refusal_name Inbox_Expired = ''expired''"
| "refusal_name Inbox_Dismissed = ''dismissed''"

fun json_of_acceptance :: "inbox_acceptance \<Rightarrow> json" where
  "json_of_acceptance (Inbox_Accepted inbox at) =
     J_Obj [(''status'', J_Str ''accepted''), (''inboxId'', J_Str inbox), (''acceptedAt'', J_Str at)]"
| "json_of_acceptance (Inbox_Blocked reason at) =
     J_Obj [(''status'', J_Str ''blocked''), (''reason'', J_Str (blocked_reason_name reason)), (''retryAt'', J_Str at)]"
| "json_of_acceptance (Inbox_Rejected reason) =
     J_Obj [(''status'', J_Str ''rejected''), (''reason'', J_Str (refusal_name reason))]"
| "json_of_acceptance Inbox_Uncertain = J_Obj [(''status'', J_Str ''uncertain'')]"

fun acceptance_schema :: "externals \<Rightarrow> inbox_acceptance \<Rightarrow> bool" where
  "acceptance_schema ext (Inbox_Accepted inbox at) \<longleftrightarrow> opaque_id inbox \<and> at_schema ext at \<and>
     delegation_data_bytes (json_of_acceptance (Inbox_Accepted inbox at)) \<le> 2048"
| "acceptance_schema ext (Inbox_Blocked reason at) \<longleftrightarrow> at_schema ext at \<and>
     delegation_data_bytes (json_of_acceptance (Inbox_Blocked reason at)) \<le> 2048"
| "acceptance_schema ext _ \<longleftrightarrow> True"

definition as_acceptance :: "inbox_inspection \<Rightarrow> inbox_acceptance option" where
  "as_acceptance i = (case i of Absent \<Rightarrow> None | Was_Accepted inbox at \<Rightarrow> Some (Inbox_Accepted inbox at)
     | Was_Rejected reason \<Rightarrow> Some (Inbox_Rejected reason))"

definition inspection_schema :: "externals \<Rightarrow> inbox_inspection \<Rightarrow> bool" where
  "inspection_schema ext i \<longleftrightarrow> (case as_acceptance i of None \<Rightarrow> True | Some a \<Rightarrow> acceptance_schema ext a)"

definition json_of_inspection :: "inbox_inspection \<Rightarrow> json" where
  "json_of_inspection i = (case as_acceptance i of None \<Rightarrow> J_Obj [(''status'', J_Str ''absent'')] | Some a \<Rightarrow> json_of_acceptance a)"

definition parse_delegation_inbox_acceptance :: "externals \<Rightarrow> inbox_acceptance \<Rightarrow> delegation_failure + inbox_acceptance" where
  "parse_delegation_inbox_acceptance ext = parse_delegation (acceptance_schema ext) json_of_acceptance"

definition parse_delegation_inbox_inspection :: "externals \<Rightarrow> inbox_inspection \<Rightarrow> delegation_failure + inbox_inspection" where
  "parse_delegation_inbox_inspection ext = parse_delegation (inspection_schema ext) json_of_inspection"

fun delivery_result_of :: "int \<Rightarrow> int \<Rightarrow> inbox_acceptance \<Rightarrow> delegation_failure + delivery_result" where
  "delivery_result_of clock attempt (Inbox_Accepted inbox at) = Inr (Accepted inbox at)"
| "delivery_result_of clock attempt Inbox_Uncertain =
     and_then (retry_time clock attempt) (\<lambda>r. Inr (Delivery_Uncertain_Result r))"
| "delivery_result_of clock attempt (Inbox_Blocked reason at) =
     and_then (iso_of (js_max (Some (clock + 1000)) (js_min (Some (clock + 30000)) (date_parse at))))
       (\<lambda>r. Inr (Blocked reason r))"
| "delivery_result_of clock attempt (Inbox_Rejected reason) =
     Inr (Final_Delivery (case reason of Inbox_Expired \<Rightarrow> Delivery_Expired | Inbox_Dismissed \<Rightarrow> Delivery_Dismissed
       | _ \<Rightarrow> Delivery_Rejected) (refusal_name reason))"

section \<open>Calls of the port (calls.ts)\<close>

datatype inbox_call = Inspect | Accept

datatype 'a inbox_answer = Unanswered | Threw | Answered 'a

text \<open>
  A call is made only if the scheduler is neither stopped nor failed nor released and, to accept, the
  notification has not expired, at two times: when it is asked for and when it runs.  \<open>Unanswered\<close>
  is \<open>undefined\<close>: not made, or over its deadline.  The port is a function of the deadline.
\<close>

record call_times =
  cl_asked_stopped :: bool
  cl_asked_clock :: int
  cl_deadline_clock :: int
  cl_run_stopped :: bool
  cl_run_clock :: int

definition inbox_unavailable :: "inbox_call \<Rightarrow> notification_record \<Rightarrow> bool \<Rightarrow> int \<Rightarrow> bool" where
  "inbox_unavailable call n stopped clock \<longleftrightarrow>
     stopped \<or> (call = Accept \<and> js_le (date_parse (ev_expires_at (nt_envelope n))) (Some clock))"

definition inbox_deadline :: "delegation_limits \<Rightarrow> inbox_call \<Rightarrow> notification_record \<Rightarrow> int \<Rightarrow> int option" where
  "inbox_deadline limits call n clock =
     (let due = Some (clock + lm_control_timeout_ms limits)
      in case call of Inspect \<Rightarrow> due | Accept \<Rightarrow> js_min due (date_parse (ev_expires_at (nt_envelope n))))"

text \<open>The answer, and whether the port was called.\<close>

definition call_inbox ::
    "delegation_limits \<Rightarrow> inbox_call \<Rightarrow> notification_record \<Rightarrow> call_times \<Rightarrow> (string \<Rightarrow> 'a inbox_answer) \<Rightarrow> bool \<times> 'a inbox_answer" where
  "call_inbox limits call n moments port =
     (if inbox_unavailable call n (cl_asked_stopped moments) (cl_asked_clock moments)
         \<or> inbox_unavailable call n (cl_run_stopped moments) (cl_run_clock moments) then (False, Unanswered)
      else case iso_of (inbox_deadline limits call n (cl_deadline_clock moments)) of
        Inl _ \<Rightarrow> (False, Threw)
      | Inr deadline \<Rightarrow> (True, port deadline))"

section \<open>One attempt and its receipt (scheduler.ts, journal.ts)\<close>

text \<open>The clocks that one attempt reads, the flags it sees, and the port.\<close>

record delivery_view =
  dv_first_clock :: int
  dv_inspect_times :: call_times
  dv_inspect :: "string \<Rightarrow> inbox_inspection inbox_answer"
  dv_expiry_clock :: int
  dv_stopped :: bool
  dv_calls_in_flight :: nat
  dv_accept_times :: call_times
  dv_accept :: "string \<Rightarrow> inbox_acceptance inbox_answer"
  dv_result_clock :: int
  dv_catch_clock :: int

definition uncertain_at :: "int \<Rightarrow> notification_record \<Rightarrow> delegation_failure + delivery_result" where
  "uncertain_at clock n = and_then (retry_time clock (nt_attempts n)) (\<lambda>r. Inr (Delivery_Uncertain_Result r))"

text \<open>The catch block of the attempt.\<close>

definition or_uncertain ::
    "delivery_view \<Rightarrow> notification_record \<Rightarrow> delegation_failure + delivery_result \<Rightarrow> delegation_failure + delivery_result" where
  "or_uncertain v n r = (case r of Inr result \<Rightarrow> Inr result | Inl _ \<Rightarrow> uncertain_at (dv_catch_clock v) n)"

definition offer_notification ::
    "externals \<Rightarrow> delegation_limits \<Rightarrow> delivery_view \<Rightarrow> notification_record
      \<Rightarrow> inbox_call list \<times> (delegation_failure + delivery_result)" where
  "offer_notification ext limits v n =
     (if js_le (date_parse (ev_expires_at (nt_envelope n))) (Some (dv_expiry_clock v))
      then ([], Inr (Final_Delivery Delivery_Expired ''expired''))
      else if dv_stopped v \<or> dv_calls_in_flight v \<noteq> 0 then ([], uncertain_at (dv_first_clock v) n)
      else case call_inbox limits Accept n (dv_accept_times v) (dv_accept v) of
        (called, answer) \<Rightarrow> (if called then [Accept] else [],
          or_uncertain v n (case answer of
            Unanswered \<Rightarrow> uncertain_at (dv_result_clock v) n
          | Threw \<Rightarrow> Inl Type_Error
          | Answered raw \<Rightarrow> and_then (parse_delegation_inbox_acceptance ext raw)
              (delivery_result_of (dv_result_clock v) (nt_attempts n)))))"

text \<open>What the answer of an inspection decides; \<open>calls\<close> are those made for it.\<close>

definition inspected_delivery ::
    "externals \<Rightarrow> delegation_limits \<Rightarrow> delivery_view \<Rightarrow> notification_record \<Rightarrow> inbox_call list
      \<Rightarrow> inbox_inspection inbox_answer \<Rightarrow> inbox_call list \<times> (delegation_failure + delivery_result)" where
  "inspected_delivery ext limits v n calls answer =
     (case answer of
        Unanswered \<Rightarrow> (calls, uncertain_at (dv_result_clock v) n)
      | Threw \<Rightarrow> (calls, uncertain_at (dv_catch_clock v) n)
      | Answered raw \<Rightarrow> (case parse_delegation_inbox_inspection ext raw of
          Inl _ \<Rightarrow> (calls, uncertain_at (dv_catch_clock v) n)
        | Inr seen \<Rightarrow> (case as_acceptance seen of
            None \<Rightarrow> (case offer_notification ext limits v n of (offered, r) \<Rightarrow> (calls @ offered, r))
          | Some a \<Rightarrow> (calls, or_uncertain v n (delivery_result_of (dv_result_clock v) (nt_attempts n) a)))))"

definition attempt_delivery ::
    "externals \<Rightarrow> delegation_limits \<Rightarrow> delivery_view \<Rightarrow> notification_record
      \<Rightarrow> inbox_call list \<times> (delegation_failure + delivery_result)" where
  "attempt_delivery ext limits v n =
     (case retry_time (dv_first_clock v) (nt_attempts n) of
        Inl e \<Rightarrow> ([], Inl e)
      | Inr _ \<Rightarrow>
          if nt_attempts n \<le> 1 then offer_notification ext limits v n
          else (case call_inbox limits Inspect n (dv_inspect_times v) (dv_inspect v) of
            (called, answer) \<Rightarrow> inspected_delivery ext limits v n (if called then [Inspect] else []) answer))"

text \<open>The receipt bounds the retry time again, at the time of the receipt.\<close>

definition bounded_retry :: "string \<Rightarrow> string \<Rightarrow> delegation_failure + string" where
  "bounded_retry at retry_at =
     iso_of (js_max (map_option (\<lambda>t. t + 1000) (date_parse at))
       (js_min (map_option (\<lambda>t. t + 30000) (date_parse at)) (date_parse retry_at)))"

fun bounded_result :: "string \<Rightarrow> delivery_result \<Rightarrow> delegation_failure + delivery_result" where
  "bounded_result at (Blocked reason r) = and_then (bounded_retry at r) (\<lambda>r'. Inr (Blocked reason r'))"
| "bounded_result at (Delivery_Uncertain_Result r) = and_then (bounded_retry at r) (\<lambda>r'. Inr (Delivery_Uncertain_Result r'))"
| "bounded_result at result = Inr result"

definition claim_command :: "externals \<Rightarrow> notification_record \<Rightarrow> string \<Rightarrow> attempt_identity \<times> command_body" where
  "claim_command ext n at =
     (let identity = delivery_attempt_identity ext (ev_notification_id (nt_envelope n)) (nt_attempts n + 1)
      in (identity, Delivery_Claim (ev_notification_id (nt_envelope n)) (nt_revision n) (ai_attempt_id identity) at))"

definition receipt_command ::
    "externals \<Rightarrow> notification_record \<Rightarrow> int \<Rightarrow> delivery_result \<Rightarrow> delegation_failure + attempt_identity \<times> command_body" where
  "receipt_command ext n clock result =
     (let identity = delivery_attempt_identity ext (ev_notification_id (nt_envelope n)) (nt_attempts n)
      in and_then (iso_time clock) (\<lambda>at. and_then (bounded_result at result) (\<lambda>bounded.
         Inr (identity, Delivery_Receipt (ev_notification_id (nt_envelope n)) (nt_revision n)
           (ai_attempt_id identity) bounded at))))"

section \<open>Receipts stay in range\<close>

text \<open>The clocks of a run of the program: at least 35 seconds before the end of the year 9999.\<close>

definition plausible_clock :: "int \<Rightarrow> bool" where
  "plausible_clock t \<longleftrightarrow> 0 \<le> t \<and> t + 35000 \<le> last_four_digit_time"

definition printed_time :: "int \<Rightarrow> string \<Rightarrow> bool" where
  "printed_time t s \<longleftrightarrow> iso_time t = Inr s \<and> date_parse s = Some t"

lemma iso_time_printed:
  assumes "0 \<le> t" "t \<le> last_four_digit_time"
  shows "\<exists>s. printed_time t s"
  using iso_roundtrip [OF assms] by (auto simp: printed_time_def iso_time_def)

lemma backoff_range: "1000 \<le> backoff attempt" "backoff attempt \<le> 30000"
proof -
  have "(1 :: int) \<le> 2 ^ k" for k by simp
  then show "1000 \<le> backoff attempt" "backoff attempt \<le> 30000" by (simp_all add: backoff_def)
qed

lemma backoff_grows: "a \<le> b \<Longrightarrow> backoff a \<le> backoff b"
proof -
  assume "a \<le> b"
  then have "(2 :: int) ^ nat (min 5 (max 0 (a - 1))) \<le> 2 ^ nat (min 5 (max 0 (b - 1)))"
    by (intro power_increasing nat_mono) auto
  then show ?thesis by (simp add: backoff_def min.coboundedI2)
qed

lemma uncertain_result:
  assumes "plausible_clock clock"
  shows "\<exists>r. uncertain_at clock n = Inr (Delivery_Uncertain_Result r) \<and> printed_time (clock + backoff (nt_attempts n)) r"
proof -
  have "\<exists>r. printed_time (clock + backoff (nt_attempts n)) r"
    using assms backoff_range [of "nt_attempts n"] by (intro iso_time_printed) (auto simp: plausible_clock_def)
  then show ?thesis by (auto simp: uncertain_at_def retry_time_def printed_time_def)
qed

text \<open>A result whose retry time, where it has one, was printed by the scheduler.\<close>

definition printed_retry :: "delivery_result \<Rightarrow> bool" where
  "printed_retry r \<longleftrightarrow> (case r of Blocked _ s \<Rightarrow> date_parse s \<noteq> None | Delivery_Uncertain_Result s \<Rightarrow> date_parse s \<noteq> None
     | _ \<Rightarrow> True)"

lemma printed_result:
  assumes "plausible_clock clock" "delivery_result_of clock attempt a = Inr r"
  shows "printed_retry r"
proof (cases a)
  case (Inbox_Blocked reason at)
  then obtain s where s: "iso_of (js_max (Some (clock + 1000)) (js_min (Some (clock + 30000)) (date_parse at))) = Inr s"
      and r: "r = Blocked reason s"
    using assms(2) by (auto simp: result_simps)
  then obtain t where t: "date_parse at = Some t" by (cases "date_parse at") (auto simp: iso_of_def js_max_def js_min_def)
  have "\<exists>s'. printed_time (max (clock + 1000) (min (clock + 30000) t)) s'"
    using assms(1) by (intro iso_time_printed) (auto simp: plausible_clock_def)
  then show ?thesis using s t by (auto simp: r printed_retry_def iso_of_def js_max_def js_min_def printed_time_def)
next
  case Inbox_Uncertain
  have "\<exists>s. printed_time (clock + backoff attempt) s"
    using assms(1) backoff_range [of attempt] by (intro iso_time_printed) (auto simp: plausible_clock_def)
  then show ?thesis
    using assms(2) Inbox_Uncertain by (auto simp: printed_retry_def retry_time_def printed_time_def)
qed (use assms(2) in \<open>auto simp: printed_retry_def\<close>)

definition plausible_view :: "delivery_view \<Rightarrow> bool" where
  "plausible_view v \<longleftrightarrow> plausible_clock (dv_first_clock v) \<and> plausible_clock (dv_result_clock v) \<and>
     plausible_clock (dv_catch_clock v)"

lemma caught_result:
  assumes "plausible_view v" "\<And>result. r = Inr result \<Longrightarrow> printed_retry result"
  shows "\<exists>result. or_uncertain v n r = Inr result \<and> printed_retry result"
  using assms uncertain_result [of "dv_catch_clock v" n]
  by (cases r) (auto simp: or_uncertain_def plausible_view_def printed_retry_def printed_time_def)

lemma uncertain_printed:
  assumes "plausible_clock clock"
  shows "\<exists>result. uncertain_at clock n = Inr result \<and> printed_retry result"
  using uncertain_result [OF assms, of n] by (auto simp: printed_retry_def printed_time_def)

lemma final_printed [simp]: "printed_retry (Final_Delivery f reason)"
  by (simp add: printed_retry_def)

lemma offer_result:
  assumes "plausible_view v"
  shows "\<exists>result. snd (offer_notification ext limits v n) = Inr result \<and> printed_retry result"
proof -
  have uncertain: "printed_retry result" if "uncertain_at (dv_result_clock v) n = Inr result" for result
    using that uncertain_printed [of "dv_result_clock v" n] assms by (auto simp: plausible_view_def)
  have answered: "printed_retry result" if "and_then (parse_delegation_inbox_acceptance ext raw)
      (delivery_result_of (dv_result_clock v) (nt_attempts n)) = Inr result" for raw result
    using that printed_result [of "dv_result_clock v"] assms by (auto simp: plausible_view_def result_simps)
  have "\<exists>result. or_uncertain v n (case answer of Unanswered \<Rightarrow> uncertain_at (dv_result_clock v) n
      | Threw \<Rightarrow> Inl Type_Error
      | Answered raw \<Rightarrow> and_then (parse_delegation_inbox_acceptance ext raw)
          (delivery_result_of (dv_result_clock v) (nt_attempts n))) = Inr result \<and> printed_retry result" for answer
    by (rule caught_result [OF assms]) (cases answer; use uncertain answered in auto)
  then show ?thesis
    using assms uncertain_printed [of "dv_first_clock v" n]
    by (auto simp: offer_notification_def plausible_view_def split: prod.splits)
qed

lemma attempt_result:
  assumes "plausible_view v"
  shows "\<exists>result. snd (attempt_delivery ext limits v n) = Inr result \<and> printed_retry result"
proof -
  obtain fallback where "retry_time (dv_first_clock v) (nt_attempts n) = Inr fallback"
    using uncertain_result [of "dv_first_clock v" n] assms
    by (auto simp: plausible_view_def uncertain_at_def result_simps)
  moreover have "\<exists>result. or_uncertain v n (delivery_result_of (dv_result_clock v) (nt_attempts n) a) = Inr result \<and>
      printed_retry result" for a
    using printed_result [of "dv_result_clock v"] assms
    by (intro caught_result) (auto simp: plausible_view_def)
  moreover have "\<exists>result. uncertain_at clock n = Inr result \<and> printed_retry result"
    if "clock \<in> {dv_result_clock v, dv_catch_clock v}" for clock
    using that assms by (intro uncertain_printed) (auto simp: plausible_view_def)
  ultimately show ?thesis
    using offer_result [OF assms, of ext limits n]
    by (auto simp: attempt_delivery_def inspected_delivery_def split: prod.splits inbox_answer.splits sum.splits option.splits)
qed

lemma bounded_range:
  assumes "printed_time clock at" "plausible_clock clock" "date_parse r \<noteq> None"
  shows "\<exists>s t. bounded_retry at r = Inr s \<and> date_parse s = Some t \<and> clock + 1000 \<le> t \<and> t \<le> clock + 30000"
proof -
  obtain t where t: "date_parse r = Some t" using assms(3) by auto
  have "\<exists>s. printed_time (max (clock + 1000) (min (clock + 30000) t)) s"
    using assms(2) by (intro iso_time_printed) (auto simp: plausible_clock_def)
  then obtain s where "printed_time (max (clock + 1000) (min (clock + 30000) t)) s" by blast
  then show ?thesis
    using assms(1) t by (auto simp: bounded_retry_def printed_time_def js_max_def js_min_def iso_of_def)
qed

lemma range_kept:
  assumes "date_parse at = Some clock" "date_parse s = Some t" "clock + 1000 \<le> t" "t \<le> clock + 30000"
  shows "\<not> retry_out_of_range s at"
  using assms by (simp add: retry_out_of_range_def js_sub_def)

lemma bounded_accepted:
  assumes "printed_time clock at" "plausible_clock clock" "printed_retry result"
  shows "\<exists>bounded n'. bounded_result at result = Inr bounded \<and> delivery_change bounded at n = Inr n' \<and>
    (nt_state n' = Nt_Pending \<longrightarrow> (\<exists>s t. nt_retry_at n' = Some s \<and> date_parse s = Some t \<and>
       clock + 1000 \<le> t \<and> t \<le> clock + 30000))"
proof -
  note range = bounded_range [OF assms(1,2)] and at = assms(1) [unfolded printed_time_def]
  show ?thesis
  proof (cases result)
    case (Blocked reason r)
    then obtain s t where s: "bounded_retry at r = Inr s" "date_parse s = Some t" "clock + 1000 \<le> t" "t \<le> clock + 30000"
      using range [of r] assms(3) by (auto simp: printed_retry_def)
    then show ?thesis using range_kept [of at clock s t] at Blocked by simp
  next
    case (Delivery_Uncertain_Result r)
    then obtain s t where s: "bounded_retry at r = Inr s" "date_parse s = Some t" "clock + 1000 \<le> t" "t \<le> clock + 30000"
      using range [of r] assms(3) by (auto simp: printed_retry_def)
    then show ?thesis using range_kept [of at clock s t] at Delivery_Uncertain_Result by simp
  qed (auto split: final_delivery.splits)
qed

section \<open>The properties of a delivery\<close>

text \<open>
  C16. Whatever the inbox answers, throws or leaves unanswered, an attempt to deliver a notification
  always ends in a result, its receipt can always be formed, and the store never refuses it for its
  retry time: the receipt settles the notification, or leaves it pending with a retry between one
  and thirty seconds after the receipt.
\<close>

theorem delivery_always_receipted:
  assumes "plausible_view v" "plausible_clock clock"
  shows "\<exists>result at bounded n'. snd (attempt_delivery ext limits v n) = Inr result \<and>
    receipt_command ext n clock result = Inr (delivery_attempt_identity ext (ev_notification_id (nt_envelope n)) (nt_attempts n),
      Delivery_Receipt (ev_notification_id (nt_envelope n)) (nt_revision n)
        (ai_attempt_id (delivery_attempt_identity ext (ev_notification_id (nt_envelope n)) (nt_attempts n))) bounded at) \<and>
    delivery_change bounded at retained = Inr n' \<and>
    (nt_state n' = Nt_Pending \<longrightarrow> (\<exists>s t. nt_retry_at n' = Some s \<and> date_parse s = Some t \<and>
       clock + 1000 \<le> t \<and> t \<le> clock + 30000))"
proof -
  obtain result where result: "snd (attempt_delivery ext limits v n) = Inr result" "printed_retry result"
    using attempt_result [OF assms(1)] by blast
  obtain at where at: "printed_time clock at"
    using iso_time_printed [of clock] assms(2) by (auto simp: plausible_clock_def)
  from bounded_accepted [OF at assms(2) result(2), of retained] result(1) at show ?thesis
    by (auto simp: receipt_command_def Let_def printed_time_def)
qed

text \<open>When the notification may be offered.\<close>

definition may_offer :: "delivery_view \<Rightarrow> notification_record \<Rightarrow> bool" where
  "may_offer v n \<longleftrightarrow> \<not> js_le (date_parse (ev_expires_at (nt_envelope n))) (Some (dv_expiry_clock v)) \<and>
     \<not> js_le (date_parse (ev_expires_at (nt_envelope n))) (Some (cl_run_clock (dv_accept_times v))) \<and>
     \<not> dv_stopped v \<and> \<not> cl_run_stopped (dv_accept_times v) \<and> dv_calls_in_flight v = 0"

lemma offer_calls:
  "fst (offer_notification ext limits v n) = [] \<or> fst (offer_notification ext limits v n) = [Accept] \<and> may_offer v n"
  by (auto simp: offer_notification_def may_offer_def call_inbox_def inbox_unavailable_def split: sum.splits)

lemma as_acceptance_None: "as_acceptance seen = None \<longleftrightarrow> seen = Absent"
  by (cases seen) (simp_all add: as_acceptance_def)

lemma inspected_calls:
  assumes "Accept \<in> set (fst (inspected_delivery ext limits v n calls answer))" "Accept \<notin> set calls"
  shows "answer = Answered Absent \<and> may_offer v n \<and>
    fst (inspected_delivery ext limits v n calls answer) = calls @ [Accept]"
proof -
  obtain raw seen where raw: "answer = Answered raw" "parse_delegation_inbox_inspection ext raw = Inr seen" "as_acceptance seen = None"
    using assms by (auto simp: inspected_delivery_def split: inbox_answer.splits sum.splits option.splits)
  then have "raw = Absent" "seen = Absent"
    by (simp_all add: parse_delegation_inbox_inspection_def parse_delegation_Inr as_acceptance_None)
  then show ?thesis
    using assms raw offer_calls [of ext limits v n] by (auto simp: inspected_delivery_def split: prod.splits)
qed

lemma inspect_called:
  assumes "call_inbox limits call n moments port = (called, Answered raw)"
  shows "called \<and> (\<exists>deadline. port deadline = Answered raw)"
  using assms by (auto simp: call_inbox_def split: if_splits sum.splits)

text \<open>
  C17. At most once: an attempt offers the notification to the inbox only if it is the first one, or
  if the inbox was inspected in this attempt and answered that it does not have the notification; and
  only while the notification has not expired, the scheduler runs and no other call is under way.
\<close>

theorem delivery_offered_at_most_once:
  assumes "fst (attempt_delivery ext limits v n) = calls" "Accept \<in> set calls"
  shows "(nt_attempts n \<le> 1 \<and> calls = [Accept] \<or>
      calls = [Inspect, Accept] \<and> (\<exists>deadline. dv_inspect v deadline = Answered Absent)) \<and>
    \<not> js_le (date_parse (ev_expires_at (nt_envelope n))) (Some (dv_expiry_clock v)) \<and>
    \<not> js_le (date_parse (ev_expires_at (nt_envelope n))) (Some (cl_run_clock (dv_accept_times v))) \<and>
    \<not> dv_stopped v \<and> \<not> cl_run_stopped (dv_accept_times v) \<and> dv_calls_in_flight v = 0"
proof (cases "nt_attempts n \<le> 1")
  case True
  then show ?thesis
    using assms offer_calls [of ext limits v n] by (auto simp: attempt_delivery_def may_offer_def split: sum.splits)
next
  case False
  obtain called answer where call: "call_inbox limits Inspect n (dv_inspect_times v) (dv_inspect v) = (called, answer)"
    by (cases "call_inbox limits Inspect n (dv_inspect_times v) (dv_inspect v)")
  have calls: "calls = fst (inspected_delivery ext limits v n (if called then [Inspect] else []) answer)"
    using assms False call by (auto simp: attempt_delivery_def split: sum.splits)
  then have "answer = Answered Absent \<and> may_offer v n \<and> calls = (if called then [Inspect] else []) @ [Accept]"
    using inspected_calls [of ext limits v n "if called then [Inspect] else []" answer] assms(2) by auto
  then show ?thesis using inspect_called [of limits Inspect n _ "dv_inspect v"] call by (auto simp: may_offer_def)
qed

text \<open>A second attempt, whose inspection finds nothing, at an inbox that is busy until much later.\<close>

definition sample_moments :: call_times where
  "sample_moments = \<lparr>cl_asked_stopped = False, cl_asked_clock = 1767225600000, cl_deadline_clock = 1767225600000,
     cl_run_stopped = False, cl_run_clock = 1767225600000\<rparr>"

definition sample_delivery :: delivery_view where
  "sample_delivery = \<lparr>dv_first_clock = 1767225600000, dv_inspect_times = sample_moments,
     dv_inspect = (\<lambda>deadline. Answered Absent), dv_expiry_clock = 1767225600000, dv_stopped = False,
     dv_calls_in_flight = 0, dv_accept_times = sample_moments,
     dv_accept = (\<lambda>deadline. Answered (Inbox_Blocked Busy ''2027-01-01T00:00:00Z'')),
     dv_result_clock = 1767225601000, dv_catch_clock = 1767225601000\<rparr>"

definition sample_claimed_notification :: notification_record where
  "sample_claimed_notification = sample_notification\<lparr>nt_state := Nt_Claimed, nt_attempts := 2\<rparr>"

lemma delivery_always_receipted_witness:
  "\<exists>result identity receipt.
     snd (attempt_delivery sample_externals default_delegation_limits sample_delivery sample_claimed_notification) = Inr result \<and>
     receipt_command sample_externals sample_claimed_notification 1767225602000 result = Inr (identity, receipt)"
proof -
  have "plausible_view sample_delivery" "plausible_clock 1767225602000" by code_simp+
  from delivery_always_receipted [OF this, of sample_externals default_delegation_limits sample_claimed_notification sample_claimed_notification]
  show ?thesis by blast
qed

lemma delivery_offered_at_most_once_witness:
  "fst (attempt_delivery sample_externals default_delegation_limits sample_delivery sample_claimed_notification) = [Inspect, Accept]"
proof -
  have "Accept \<in> set (fst (attempt_delivery sample_externals default_delegation_limits sample_delivery sample_claimed_notification))"
    "nt_attempts sample_claimed_notification = 2"
    by code_simp+
  with delivery_offered_at_most_once [OF refl this(1)] show ?thesis by auto
qed

end
