(* ===== verification/Spec2Isabelle.thy ===== *)
theory Spec2Isabelle
  imports Delegation_Notifications Delegation_Eligibility Output_Results Delegation_Pages Tar_Safety Metadata_Properties Acp_Properties
    Session_Graph_Properties Turn_Properties Run_Properties Delivery_Schedule
begin

text \<open>
  A verification library for the AgenAI Agent SDK (TypeScript, \<open>src/packages\<close>).

  The program.  The SDK lets an application run coding agents: \<open>agent-protocol\<close> fixes the data that
  crosses its boundaries, \<open>agent-runtime\<close> and the providers run sessions, \<open>agent-orchestration\<close> lets
  one session delegate tasks to certified targets, and \<open>sandbox\<close> with \<open>sandbox-docker\<close> runs agents
  in containers and moves files in and out; \<open>acp-transport\<close> is the JSON-RPC client that
  external agents are driven with.  Seven parts carry logic that does not depend on what is
  at the other end of a process, and these are modelled, each from its data up.

  1. The delegation store (\<open>agent-orchestration/src/{tasks,shared,store,store-adapter}\<close>).  A command
     (admit, dispatch, receipt, observe, settle, cancel, claim, ...) is parsed against closed bounded
     schemas and planned by a pure function from a snapshot to row mutations and a receipt
     (\<open>store-adapter/plan.ts\<close>); the volatile store (\<open>store/memory.ts\<close>) fences owners by epochs, applies
     the mutations atomically and answers reads by keyset pages (\<open>store/pages.ts\<close>).
     \<^item> data: \<open>Js_Data\<close>, \<open>Bounded_Copy\<close> (bounds.ts), \<open>Json_Identity\<close> (identity.ts), \<open>Turn_Input\<close>,
       \<open>Delegation_Types\<close>, \<open>Delegation_Records\<close>, \<open>Delegation_Codec\<close>, \<open>Delegation_Schemas\<close>,
       \<open>Delegation_Limits\<close>, \<open>Delegation_Command\<close>
     \<^item> planner: \<open>Delegation_Context\<close>, \<open>Delegation_Execution\<close>, \<open>Delegation_Lifecycle\<close>,
       \<open>Delegation_Delivery\<close>, \<open>Delegation_Admission\<close>, \<open>Delegation_Plan\<close>, one theory per source file
     \<^item> store: \<open>Delegation_Store\<close>, \<open>Delegation_Pages\<close>
     \<^item> proofs: \<open>Delegation_Queue\<close> (the interface of rows and weights, and what one commit
       changes of the queue), \<open>Delegation_Ledger\<close> (the capacity
       invariant), \<open>Delegation_Safety\<close> and \<open>Delegation_Refinement\<close> (every commit is a step of the
       abstract ledger), \<open>Delegation_Reachability\<close>, \<open>Delegation_History\<close>, \<open>Delegation_Journal\<close>,
       \<open>Delegation_Retry\<close>, \<open>Delegation_Notifications\<close>, \<open>Delegation_Pages\<close>; \<open>Delegation_Effects\<close> gives
       what one commit changes, \<open>Delegation_Samples\<close> the concrete values.
     They show: the counters are always those of the retained rows and within the limits; identities,
     outcomes, policies and the owner fence are never undone; a retry gets the first receipt and
     changes nothing; a settlement and nothing else creates its notification, which then follows
     its state machine; pages stay within their budget and enumerate every row once.

  2. Certified targets and policy (\<open>agent-orchestration/src/{catalog,policy}\<close>): \<open>Target_Catalog\<close>,
     \<open>Delegation_Policy\<close>, \<open>Delegation_Eligibility\<close>.  Unknown facts of a target are
     read as the set of facts it may have; the resolver allows exactly the targets that no exclusion
     can hit under any of them, and explains every denial.  The resolved ceiling is what an admission
     of part 1 is checked against.

  3. Structured output (\<open>agent-protocol/src/structuredOutput\<close>): \<open>Output_Json\<close>, \<open>Output_Snapshot\<close>,
     \<open>Output_Schema\<close>, \<open>Output_Value\<close> (definitions, with the smallest value of a schema), \<open>Output_Schema_Laws\<close>,
     \<open>Output_Results\<close>.  Snapshots accept exactly the documents within the bounds; admitted schemas are
     in the profile and survive printing; validation decides conformance; the capacity check refuses
     only schemas without a value that could validate.

  4. File transfer (\<open>sandbox-docker/src/workspace\<close>, \<open>sandbox/src/files\<close>).  Archives:
     \<open>Byte_Text\<close> (UTF-8, path schemas), \<open>Tar_Header\<close>, \<open>Tar_Pax\<close>, \<open>Tar_Reader\<close>, \<open>Tar_Writer\<close> (definitions, one
     per source file), \<open>Tar_Header_Laws\<close>, \<open>Tar_Reading\<close>, \<open>Tar_Chunks\<close>, \<open>Tar_Archive\<close>, \<open>Tar_Safety\<close>: a written
     archive reads back, the cut into chunks is irrelevant, and whatever is accepted is safe to unpack.
     Metadata of a transfer: \<open>Spill_Records\<close> (records.ts, storage.ts), \<open>Metadata_Ledger\<close> (sort.ts, index.ts),
     \<open>Metadata_Links\<close> (links.ts and the unbounded resolution \<open>resolves\<close> it is compared with),
     \<open>Metadata_Paths\<close>, \<open>Ledger_Merging\<close>, \<open>Ledger_Conflicts\<close>, \<open>Ledger_Sealing\<close>, \<open>Metadata_Properties\<close>: the external merge sort
     is the stable sort, finishing finds exactly the conflicting paths, the binary search is exact, and
     accepted links never leave the publication root.

  5. The ACP transport (\<open>acp-transport/src\<close>): \<open>Acp_Protocol\<close> (errors.ts, limits.ts, json.ts, protocol.ts),
     \<open>Acp_Framing\<close> (lineFramer.ts), \<open>Acp_Client\<close> (extensions.ts, messageWriter.ts, clientState.ts, client.ts: a
     state and one operation per event, \<open>acp_step\<close> being any of them), \<open>Acp_Client_Safety\<close> (the invariant) and
     \<open>Acp_Properties\<close>.  In every reachable state the ids of the two directions are apart, everything
     held is within its limit and each request is pending or was settled exactly once; the framer
     hands on exactly the lines of the peer.  JSON texts, the pinned schema and which methods have
     handlers are parameters.  A refused write ends the client in the operation that asked for it, and
     a write leaves the queue when its promise settles; in the code each is a microtask later.

  6. Session sequencing (\<open>agent-runtime/src\<close>): what a session lets its provider do.  \<open>Session_Graph\<close>
     (interactionValidation.ts, zod/collaboration.ts and the collaboration part of sessionValidation.ts; a call of
     the provider is a begin step and a settle step, \<open>graph_step\<close> being any of them), \<open>Session_Results\<close>
     (operations and generated resources), \<open>Turn_Requests\<close> (sessionAdmission.ts, turnExecution/requests.ts),
     \<open>Turn_Sequence\<close> (observeTurnOutput and what it calls; \<open>turn_run\<close> is a run with its actions) are the
     definitions; \<open>Session_Graph_Laws\<close>, \<open>Session_Graph_Properties\<close>, \<open>Turn_Requests_Laws\<close>, \<open>Turn_Sequence_Laws\<close>,
     \<open>Turn_Traces\<close>, \<open>Turn_Usage\<close> and \<open>Turn_Properties\<close> the proofs.  The collaboration graph is a forest within its
     limits; a turn accepts only legal histories of events, asks one request at a time and forgets none;
     counters, settled results and retired requests are never undone.  An output that is refused
     ends the execution, so what it changed before is not kept.  The schema of errors is a parameter.

  7. Managed runs and their notifications (\<open>agent-orchestration/src/{execution,coordinator,delivery}\<close>), on the
     store of part 1 and the policies of part 2.  \<open>Run_Output\<close> (shared/text.ts, tasks/failure.ts, the bounded
     result of stream.ts), \<open>Run_Authority\<close> (authority.ts, the reads of state.ts, \<open>spawn\<close> of
     coordinator/admission.ts on the modelled store), \<open>Run_Lifetime\<close> (prepare.ts, stream.ts, control.ts, cleanup.ts,
     finish.ts: one live run; an event is the code between two awaits with the answer of the first, \<open>live_step\<close>
     its effect, and every interleaving is a list of events), \<open>Delivery_Schedule\<close> (delivery/*.ts, after a proof
     that printed times are read back) are the definitions; \<open>Run_Lifetime_Laws\<close> and \<open>Run_Properties\<close> the proofs.
     A task is admitted and its turn started only under the authority of the parent; a success means
     that the turn completed and everything was released; the cleanup keeps its order, is never stuck
     and ends; whatever is settled or received from an inbox can be stored.

  Conventions.  A function that may throw returns \<open>'e + 'a\<close>; a JavaScript \<open>Map\<close> is an association list
  in insertion order; numbers are \<open>int\<close> or \<open>nat\<close> with the checks for safe integers written out; a file is the
  list of its bytes, a byte an \<open>8 word\<close>.  In parts 1 to 3 a string is a list of characters (UTF-16 code
  units below 256), also in parts 6 and 7; in parts 4 and 5 it is the list of its code points, lone surrogates included.  Code outside
  \<open>src\<close> is a parameter: SHA-256, zod's format checks and \<open>Date\<close> parsing are the record \<open>externals\<close>, random
  identities are arguments, a byte source is what its pulls do, and a spill driver says how far
  each call gets.  What the proofs need of them (\<open>honest_driver\<close>: a call moves at least one byte and at most
  what was asked) is a named hypothesis that a concrete instance satisfies.

  Bounds and fuel.  Loops are total functions with their measures: the PAX length prefix moves
  monotonically, readers consume bytes, a merge pass leaves fewer runs, a link expansion uses up one
  of forty.  Three definitions carry a number of steps: reading the pages of a ceiling, which end after
  a thousand targets, each page but the last holding one (\<open>ceiling_fuel_enough\<close>), following the cursors of a read, which needs one
  read more than there are rows, and the pulls of an entry body, which need no more than its bytes.
  The metadata ledger is correct as long as twice its encoded size is a safe integer, which also
  covers its descriptors and offsets.

  Not modelled.  Promises, timers, abort signals and concurrent callers (the rest of the coordinator and of the runtime, the
  providers, the sandbox lifecycle and the rest of the metadata ledger's cleanup): what they do
  to retained state goes through the operations modelled here, one after the other.  Clients
  of processes and services outside \<open>src\<close> (Docker engine, desktop, MCP SDK, registries), generated
  schemas, type-only declarations and examples.  JavaScript objects with getters, prototypes or cycles: inputs are
  plain data.
\<close>

end
